(* ===== verification/Prelude.thy ===== *)
theory Prelude
  imports Main "HOL-Library.Word" "HOL-Library.Signed_Division"
begin

text \<open>
  Shared vocabulary of the development: the JavaScript number and byte-array operations the
  sources use, the exception-and-state monad in which the interpreter's handlers are written,
  and the proof rules for that monad.

  A JavaScript \<^verbatim>\<open>bigint\<close> is an \<open>int\<close>; a \<^verbatim>\<open>Uint8Array\<close> is a list of
  \<open>8 word\<close>. A thrown exception does not undo the mutations made before it, so an
  operation maps a state to a result, which is an exception or a value, together with the
  state as it is when the operation ends, in both cases.
\<close>

unbundle bit_operations_syntax

named_theorems op_simps \<open>evaluation rules of the exception-and-state monad\<close>
named_theorems op_pres \<open>operations that keep an invariant\<close>

type_synonym byte = "8 word"
type_synonym bytes = "8 word list"
type_synonym address = "160 word"

section \<open>BigInt arithmetic\<close>

text \<open>
  \<^verbatim>\<open>a / b\<close> on bigints rounds towards zero and \<^verbatim>\<open>a % b\<close> has the sign of the dividend;
  both raise a RangeError on a zero divisor, which every caller excludes first.
\<close>

definition js_div :: "int \<Rightarrow> int \<Rightarrow> int" where
  "js_div a b = a sdiv b"

definition js_rem :: "int \<Rightarrow> int \<Rightarrow> int" where
  "js_rem a b = a smod b"

text \<open>\<^verbatim>\<open>BigInt.asUintN\<close> and \<^verbatim>\<open>BigInt.asIntN\<close>.\<close>

definition asUintN :: "nat \<Rightarrow> int \<Rightarrow> int" where
  "asUintN n a = a mod 2 ^ n"

definition asIntN :: "nat \<Rightarrow> int \<Rightarrow> int" where
  "asIntN n a = (let m = a mod 2 ^ n in if 2 * m < 2 ^ n then m else m - 2 ^ n)"

text \<open>Shifts of a bigint by a bigint; a negative distance shifts the other way.\<close>

definition js_shl :: "int \<Rightarrow> int \<Rightarrow> int" where
  "js_shl a k = (if 0 \<le> k then push_bit (nat k) a else drop_bit (nat (- k)) a)"

definition js_shr :: "int \<Rightarrow> int \<Rightarrow> int" where
  "js_shr a k = (if 0 \<le> k then drop_bit (nat k) a else push_bit (nat (- k)) a)"

lemma js_div_nonneg: "0 \<le> a \<Longrightarrow> 0 \<le> b \<Longrightarrow> js_div a b = a div b"
  by (cases "a = 0"; cases "b = 0") (simp_all add: js_div_def signed_divide_int_def)

lemma js_rem_nonneg: "0 \<le> a \<Longrightarrow> js_rem a b = a mod \<bar>b\<bar>"
  by (cases "a = 0") (simp_all add: js_rem_def signed_modulo_int_def)

lemma js_div_zero [simp]: "js_div 0 b = 0"
  by (simp add: js_div_def signed_divide_int_def)

lemma js_rem_zero [simp]: "js_rem 0 b = 0"
  by (simp add: js_rem_def signed_modulo_int_def)

lemma js_rem_abs_less: "b \<noteq> 0 \<Longrightarrow> \<bar>js_rem a b\<bar> < \<bar>b\<bar>"
  by (auto simp: js_rem_def signed_modulo_int_def abs_mult sgn_if)

lemma asUintN_range: "0 \<le> asUintN n a \<and> asUintN n a < 2 ^ n"
  by (simp add: asUintN_def)

lemma asUintN_word: "asUintN 256 a = uint (word_of_int a :: 256 word)"
  by (simp add: asUintN_def uint_word_of_int)

section \<open>Byte arrays\<close>

text \<open>\<^verbatim>\<open>new Uint8Array(n)\<close>, and \<^verbatim>\<open>xs.subarray(i, j)\<close> for \<open>0 \<le> i\<close>.\<close>

definition zeros :: "nat \<Rightarrow> bytes" where
  "zeros n = replicate n 0"

definition subarray :: "'a list \<Rightarrow> nat \<Rightarrow> nat \<Rightarrow> 'a list" where
  "subarray xs i j = take (j - i) (drop i xs)"

lemma length_zeros [simp]: "length (zeros n) = n"
  by (simp add: zeros_def)

lemma zeros_0 [simp]: "zeros 0 = []"
  by (simp add: zeros_def)

lemma zeros_eq_Nil [simp]: "zeros n = [] \<longleftrightarrow> n = 0"
  by (simp add: zeros_def)

lemma nth_zeros [simp]: "i < n \<Longrightarrow> zeros n ! i = 0"
  by (simp add: zeros_def)

lemma length_subarray [simp]: "length (subarray xs i j) = min (j - i) (length xs - i)"
  by (simp add: subarray_def)

lemma nth_subarray: "k < j - i \<Longrightarrow> i + k < length xs \<Longrightarrow> subarray xs i j ! k = xs ! (i + k)"
  by (simp add: subarray_def)

lemma subarray_all [simp]: "subarray xs 0 (length xs) = xs"
  by (simp add: subarray_def)

lemma subarray_empty [simp]: "subarray xs i i = []"
  by (simp add: subarray_def)

section \<open>Errors\<close>

text \<open>
  The error messages of \<^verbatim>\<open>errors.ts\<close> that the modelled code can raise. A TVM error ends the
  frame and is reported in its result; a host error is any other exception, which propagates
  out of the interpreter.
\<close>

datatype tvm_error =
    OUT_OF_GAS | STACK_UNDERFLOW | STACK_OVERFLOW | INVALID_JUMP | INVALID_OPCODE
  | OUT_OF_RANGE | REVERT | STATIC_STATE_CHANGE | INTERNAL_ERROR | CREATE_COLLISION | STOP
  | REFUND_EXHAUSTED | VALUE_OVERFLOW | INSUFFICIENT_BALANCE | INSUFFICIENT_TOKEN_BALANCE
  | INVALID_BYTECODE_RESULT | INVALID_EOF_FORMAT
  | CAN_NOT_TRANSFER_TRX_YOURSELF | CAN_NOT_TRANSFER_ASSET_YOURSELF | INVALID_TOKENID

datatype exn = TvmError tvm_error | HostError string

section \<open>Operations with exceptions and state\<close>

type_synonym ('s, 'a) op = "'s \<Rightarrow> (exn + 'a) \<times> 's"

definition ret :: "'a \<Rightarrow> ('s, 'a) op" where
  "ret x s = (Inr x, s)"

definition throw :: "exn \<Rightarrow> ('s, 'a) op" where
  "throw e s = (Inl e, s)"

definition bnd :: "('s, 'a) op \<Rightarrow> ('a \<Rightarrow> ('s, 'b) op) \<Rightarrow> ('s, 'b) op" where
  "bnd m f s = (case m s of (Inl e, t) \<Rightarrow> (Inl e, t) | (Inr x, t) \<Rightarrow> f x t)"

definition sq :: "('s, 'a) op \<Rightarrow> ('s, 'b) op \<Rightarrow> ('s, 'b) op" where
  "sq m n = bnd m (\<lambda>_. n)"

definition gets :: "('s \<Rightarrow> 'a) \<Rightarrow> ('s, 'a) op" where
  "gets f s = (Inr (f s), s)"

definition modify :: "('s \<Rightarrow> 's) \<Rightarrow> ('s, unit) op" where
  "modify f s = (Inr (), f s)"

definition trap :: "tvm_error \<Rightarrow> ('s, 'a) op" where
  "trap e = throw (TvmError e)"

definition whenb :: "bool \<Rightarrow> ('s, unit) op \<Rightarrow> ('s, unit) op" where
  "whenb b m = (if b then m else ret ())"

text \<open>An operation on a part of the state, or on a component that raises on its own.\<close>

definition lift_sum :: "exn + 'a \<Rightarrow> ('s, 'a) op" where
  "lift_sum r s = (r, s)"

definition zoom :: "('s \<Rightarrow> 't) \<Rightarrow> ('t \<Rightarrow> 's \<Rightarrow> 's) \<Rightarrow> ('t, 'a) op \<Rightarrow> ('s, 'a) op" where
  "zoom get put m s = (case m (get s) of (r, t) \<Rightarrow> (r, put t s))"

lemma ret_run [op_simps, simp]: "ret x s = (Inr x, s)"
  by (simp add: ret_def)

lemma throw_run [op_simps, simp]: "throw e s = (Inl e, s)"
  by (simp add: throw_def)

lemma trap_run [op_simps, simp]: "trap e s = (Inl (TvmError e), s)"
  by (simp add: trap_def)

lemma gets_run [op_simps, simp]: "gets f s = (Inr (f s), s)"
  by (simp add: gets_def)

lemma modify_run [op_simps, simp]: "modify f s = (Inr (), f s)"
  by (simp add: modify_def)

lemma lift_sum_run [op_simps, simp]: "lift_sum r s = (r, s)"
  by (simp add: lift_sum_def)

lemma bnd_Inr [op_simps]: "m s = (Inr x, t) \<Longrightarrow> bnd m f s = f x t"
  by (simp add: bnd_def)

lemma bnd_Inl [op_simps]: "m s = (Inl e, t) \<Longrightarrow> bnd m f s = (Inl e, t)"
  by (simp add: bnd_def)

lemma sq_Inr [op_simps]: "m s = (Inr x, t) \<Longrightarrow> sq m n s = n t"
  by (simp add: sq_def bnd_def)

lemma sq_Inl [op_simps]: "m s = (Inl e, t) \<Longrightarrow> sq m n s = (Inl e, t)"
  by (simp add: sq_def bnd_def)

lemma whenb_run [op_simps, simp]: "whenb b m s = (if b then m s else (Inr (), s))"
  by (simp add: whenb_def)

lemma bnd_gets [op_simps, simp]: "bnd (gets f) g s = g (f s) s"
  by (simp add: bnd_def)

lemma bnd_ret [op_simps, simp]: "bnd (ret x) g s = g x s"
  by (simp add: bnd_def)

lemma bnd_ret_left [simp]: "bnd (ret x) g = g x"
  by (rule ext) simp

lemma sq_modify [op_simps, simp]: "sq (modify f) m s = m (f s)"
  by (simp add: sq_def bnd_def)

lemma bnd_assoc: "bnd (bnd m f) g = bnd m (\<lambda>x. bnd (f x) g)"
  by (rule ext) (auto simp: bnd_def split: prod.splits sum.splits)

section \<open>Relations kept by an operation\<close>

text \<open>
  \<open>rel_op R m\<close>: whatever \<open>m\<close> does, raise or return, its final state is related to its
  initial one. For a reflexive and transitive \<open>R\<close> the property composes along \<open>bnd\<close>, so
  a handler has it as soon as its primitives do.
\<close>

definition rel_op :: "('s \<Rightarrow> 's \<Rightarrow> bool) \<Rightarrow> ('s, 'a) op \<Rightarrow> bool" where
  "rel_op R m \<longleftrightarrow> (\<forall>s. R s (snd (m s)))"

definition keeps :: "('s \<Rightarrow> bool) \<Rightarrow> ('s, 'a) op \<Rightarrow> bool" where
  "keeps I m \<longleftrightarrow> (\<forall>s. I s \<longrightarrow> I (snd (m s)))"

lemma rel_opD: "rel_op R m \<Longrightarrow> m s = (r, t) \<Longrightarrow> R s t"
  by (metis rel_op_def snd_conv)

lemma keepsD: "keeps I m \<Longrightarrow> I s \<Longrightarrow> m s = (r, t) \<Longrightarrow> I t"
  by (metis keeps_def snd_conv)

lemma keeps_rel_op: "keeps I m \<longleftrightarrow> rel_op (\<lambda>s t. I s \<longrightarrow> I t) m"
  by (simp add: keeps_def rel_op_def)

lemma rel_op_bnd:
  assumes "transp R" "rel_op R m" "\<And>x. rel_op R (f x)"
  shows "rel_op R (bnd m f)"
  unfolding rel_op_def
proof
  fix s
  show "R s (snd (bnd m f s))"
  proof (cases "m s")
    case (Pair r t)
    with assms(2) have "R s t" by (rule rel_opD)
    show ?thesis
    proof (cases r)
      case (Inl e)
      with Pair \<open>R s t\<close> show ?thesis by (simp add: bnd_def)
    next
      case (Inr x)
      have "R t (snd (f x t))" using assms(3) by (simp add: rel_op_def)
      with \<open>transp R\<close> \<open>R s t\<close> have "R s (snd (f x t))" by (rule transpD)
      with Pair Inr show ?thesis by (simp add: bnd_def)
    qed
  qed
qed

lemma rel_op_sq: "transp R \<Longrightarrow> rel_op R m \<Longrightarrow> rel_op R n \<Longrightarrow> rel_op R (sq m n)"
  by (simp add: sq_def rel_op_bnd)

lemma rel_op_whenb: "reflp R \<Longrightarrow> (b \<Longrightarrow> rel_op R m) \<Longrightarrow> rel_op R (whenb b m)"
  by (auto simp: rel_op_def whenb_def dest: reflpD)

lemma rel_op_if: "(b \<Longrightarrow> rel_op R m) \<Longrightarrow> (\<not> b \<Longrightarrow> rel_op R n) \<Longrightarrow> rel_op R (if b then m else n)"
  by simp

lemma rel_op_unchanged: "reflp R \<Longrightarrow> (\<And>s. snd (m s) = s) \<Longrightarrow> rel_op R m"
  by (simp add: rel_op_def reflpD)

lemma keeps_bnd [op_pres, intro]: "keeps I m \<Longrightarrow> (\<And>x. keeps I (f x)) \<Longrightarrow> keeps I (bnd m f)"
  unfolding keeps_rel_op by (rule rel_op_bnd) (auto simp: transp_def)

lemma keeps_sq [op_pres, intro]: "keeps I m \<Longrightarrow> keeps I n \<Longrightarrow> keeps I (sq m n)"
  by (simp add: sq_def keeps_bnd)

lemma keeps_whenb [op_pres, intro]: "(b \<Longrightarrow> keeps I m) \<Longrightarrow> keeps I (whenb b m)"
  by (simp add: keeps_def whenb_def)

lemma keeps_unchanged: "(\<And>s. snd (m s) = s) \<Longrightarrow> keeps I m"
  by (simp add: keeps_def)

lemma keeps_basic [op_pres, intro]:
  "keeps I (ret x)" "keeps I (throw e)" "keeps I (trap t)" "keeps I (gets f)"
  "keeps I (lift_sum r)"
  by (simp_all add: keeps_def)

lemma keeps_modify [intro]: "(\<And>s. I s \<Longrightarrow> I (f s)) \<Longrightarrow> keeps I (modify f)"
  by (simp add: keeps_def)

lemma keeps_conj: "keeps I m \<Longrightarrow> keeps J m \<Longrightarrow> keeps (\<lambda>s. I s \<and> J s) m"
  by (simp add: keeps_def)

end
