(* ===== verification/Checkpoints.thy ===== *)
theory Checkpoints
  imports Prelude
begin

text \<open>
  The contract of everything the TVM checkpoints around a call frame: the state manager, the
  journal and the transient storage. A component has a view, what its clients can read, and the
  views saved by the open checkpoints. The theory states the laws as a locale and proves once
  that nested frames of writes are all-or-nothing: committed frames keep their writes and
  reverted ones leave no trace, at any nesting, and no checkpoint operation fails on the way.
\<close>

section \<open>Frames of writes\<close>

text \<open>
  A call tree seen by a checkpointed component: single writes, and frames that end in a commit
  (\<open>True\<close>) or in a revert.
\<close>

datatype 'w action = Write 'w | Frame "'w action list" bool

fun run_frames ::
  "('w \<Rightarrow> ('s, unit) op) \<Rightarrow> ('s, unit) op \<Rightarrow> ('s, unit) op \<Rightarrow> ('s, unit) op \<Rightarrow> 'w action list \<Rightarrow> ('s, unit) op"
  where
  "run_frames wr cp cm rv [] = ret ()"
| "run_frames wr cp cm rv (Write w # acts) = sq (wr w) (run_frames wr cp cm rv acts)"
| "run_frames wr cp cm rv (Frame body ok # acts) =
     sq cp (sq (run_frames wr cp cm rv body) (sq (if ok then cm else rv) (run_frames wr cp cm rv acts)))"

text \<open>The specification: a frame that does not commit is the identity.\<close>

fun eval_frames :: "('w \<Rightarrow> 'v \<Rightarrow> 'v) \<Rightarrow> 'w action list \<Rightarrow> 'v \<Rightarrow> 'v" where
  "eval_frames wv [] v = v"
| "eval_frames wv (Write w # acts) v = eval_frames wv acts (wv w v)"
| "eval_frames wv (Frame body ok # acts) v =
     eval_frames wv acts (if ok then eval_frames wv body v else v)"

fun all_writes :: "('w \<Rightarrow> bool) \<Rightarrow> 'w action list \<Rightarrow> bool" where
  "all_writes P [] = True"
| "all_writes P (Write w # acts) = (P w \<and> all_writes P acts)"
| "all_writes P (Frame body ok # acts) = (all_writes P body \<and> all_writes P acts)"

lemma frames_induct [case_names Nil Write Frame]:
  assumes "Q []" "\<And>w acts. Q acts \<Longrightarrow> Q (Write w # acts)"
    and "\<And>body ok acts. Q body \<Longrightarrow> Q acts \<Longrightarrow> Q (Frame body ok # acts)"
  shows "Q acts"
  using all_writes.induct [of "\<lambda>_. Q"] assms by metis

section \<open>The contract\<close>

locale checkpointed =
  fixes inv :: "'s \<Rightarrow> bool" and view :: "'s \<Rightarrow> 'v" and saved :: "'s \<Rightarrow> 'v list"
    and cp :: "('s, unit) op" and cm :: "('s, unit) op" and rv :: "('s, unit) op"
    and wok :: "'w \<Rightarrow> bool" and wr :: "'w \<Rightarrow> ('s, unit) op" and wv :: "'w \<Rightarrow> 'v \<Rightarrow> 'v"
  assumes checkpoint_law: "inv s \<Longrightarrow>
      \<exists>s'. cp s = (Inr (), s') \<and> inv s' \<and> view s' = view s \<and> saved s' = view s # saved s"
    and commit_law: "inv s \<Longrightarrow> saved s = v # vs \<Longrightarrow>
      \<exists>s'. cm s = (Inr (), s') \<and> inv s' \<and> view s' = view s \<and> saved s' = vs"
    and revert_law: "inv s \<Longrightarrow> saved s = v # vs \<Longrightarrow>
      \<exists>s'. rv s = (Inr (), s') \<and> inv s' \<and> view s' = v \<and> saved s' = vs"
    and write_law: "inv s \<Longrightarrow> wok w \<Longrightarrow>
      \<exists>s'. wr w s = (Inr (), s') \<and> inv s' \<and> view s' = wv w (view s) \<and> saved s' = saved s"
begin

lemma run_frames_refines:
  assumes "inv s" "all_writes wok acts"
  shows "\<exists>s'. run_frames wr cp cm rv acts s = (Inr (), s') \<and> inv s' \<and>
    view s' = eval_frames wv acts (view s) \<and> saved s' = saved s"
  using assms
proof (induction acts arbitrary: s rule: frames_induct)
  case Nil
  then show ?case by simp
next
  case (Write w acts)
  then obtain t where t: "wr w s = (Inr (), t)" "inv t" "view t = wv w (view s)" "saved t = saved s"
    using write_law [of s w] by auto
  with Write show ?case by (simp add: sq_def bnd_def) metis
next
  case (Frame body ok acts)
  obtain a where a: "cp s = (Inr (), a)" "inv a" "view a = view s" "saved a = view s # saved s"
    using checkpoint_law [OF Frame(3)] by auto
  obtain b where b: "run_frames wr cp cm rv body a = (Inr (), b)" "inv b"
    "view b = eval_frames wv body (view s)" "saved b = view s # saved s"
    using Frame.IH(1) [of a] Frame.prems a by auto
  obtain c where c: "(if ok then cm else rv) b = (Inr (), c)" "inv c" "saved c = saved s"
    "view c = (if ok then eval_frames wv body (view s) else view s)"
    using commit_law [OF b(2,4)] revert_law [OF b(2,4)] b by (cases ok) auto
  from Frame.IH(2) [of c] Frame.prems c show ?case
    by (auto simp: sq_def bnd_def a(1) b(1))
qed

corollary reverted_frame_no_trace:
  assumes "inv s" "all_writes wok acts"
  shows "\<exists>s'. run_frames wr cp cm rv [Frame acts False] s = (Inr (), s') \<and> inv s' \<and>
    view s' = view s \<and> saved s' = saved s"
  using run_frames_refines [of s "[Frame acts False]"] assms by simp

corollary committed_frame_same:
  assumes "inv s" "all_writes wok acts"
  shows "\<exists>s' t. run_frames wr cp cm rv [Frame acts True] s = (Inr (), s') \<and>
    run_frames wr cp cm rv acts s = (Inr (), t) \<and> view s' = view t \<and> saved s' = saved t"
  using run_frames_refines [of s "[Frame acts True]"] run_frames_refines [of s acts] assms by force

end

end
