(* ===== verification/Bytes.thy ===== *)
theory Bytes
  imports Prelude
begin

text \<open>
  The byte-array helpers of \<^verbatim>\<open>packages/util/src/bytes.ts\<close>: conversions between bigints and
  big-endian byte arrays, padding to a length, trimming of leading zeros, comparison and
  concatenation. The source converts through hexadecimal strings; the string of a byte array
  read back as a number is its big-endian value, which is what the definitions compute.
  The main results are the two round trips and the exact bounds of the conversions.
\<close>

section \<open>Definitions\<close>

definition bytesToBigInt :: "bytes \<Rightarrow> int" where
  "bytesToBigInt bs = foldl (\<lambda>acc b. acc * 256 + uint b) 0 bs"

text \<open>The digits of a positive number in base 256, most significant first.\<close>

fun be_digits :: "nat \<Rightarrow> bytes" where
  "be_digits n = (if n = 0 then [] else be_digits (n div 256) @ [word_of_nat n])"

declare be_digits.simps [simp del]

lemma be_digits_0 [simp]: "be_digits 0 = []"
  by (simp add: be_digits.simps)

text \<open>Zero is the one byte 0; the hexadecimal form of a negative number is rejected.\<close>

definition bigIntToBytes :: "int \<Rightarrow> exn + bytes" where
  "bigIntToBytes num =
     (if num < 0 then Inl (HostError ''hex string expected'')
      else Inr (if num = 0 then [0] else be_digits (nat num)))"

definition setLength :: "bytes \<Rightarrow> nat \<Rightarrow> bool \<Rightarrow> bool \<Rightarrow> exn + bytes" where
  "setLength msg len right allowTruncate =
     (if len < length msg then
        (if \<not> allowTruncate then Inl (HostError ''Input length exceeds target length'')
         else Inr (if right then take len msg
                   else if len = 0 then msg else drop (length msg - len) msg))
      else if length msg < len then
        Inr (if right then msg @ zeros (len - length msg) else zeros (len - length msg) @ msg)
      else Inr msg)"

definition setLengthLeft :: "bytes \<Rightarrow> nat \<Rightarrow> exn + bytes" where
  "setLengthLeft msg len = setLength msg len False False"

definition setLengthRight :: "bytes \<Rightarrow> nat \<Rightarrow> exn + bytes" where
  "setLengthRight msg len = setLength msg len True False"

fun unpadBytes :: "bytes \<Rightarrow> bytes" where
  "unpadBytes [] = []"
| "unpadBytes (b # bs) = (if b = 0 then unpadBytes bs else b # bs)"

definition bigIntToUnpaddedBytes :: "int \<Rightarrow> exn + bytes" where
  "bigIntToUnpaddedBytes v = map_sum id unpadBytes (bigIntToBytes v)"

fun equalsBytes :: "bytes \<Rightarrow> bytes \<Rightarrow> bool" where
  "equalsBytes [] [] = True"
| "equalsBytes (a # as) (b # bs) = (a = b \<and> equalsBytes as bs)"
| "equalsBytes _ _ = False"

definition compareBytes :: "bytes \<Rightarrow> bytes \<Rightarrow> int" where
  "compareBytes v1 v2 =
     (let a = bytesToBigInt v1; b = bytesToBigInt v2 in if a > b then 1 else if a < b then -1 else 0)"

fun matchingBytesLength :: "bytes \<Rightarrow> bytes \<Rightarrow> nat" where
  "matchingBytesLength (a # as) (b # bs) = (if a = b then Suc (matchingBytesLength as bs) else 0)"
| "matchingBytesLength _ _ = 0"

text \<open>The composition \<^verbatim>\<open>setLengthLeft(bigIntToBytes(v), 32)\<close> of the opcode handlers.\<close>

definition word_buf :: "int \<Rightarrow> exn + bytes" where
  "word_buf v = (case bigIntToBytes v of Inl e \<Rightarrow> Inl e | Inr b \<Rightarrow> setLengthLeft b 32)"

section \<open>The big-endian value\<close>

lemma bytesToBigInt_Nil [simp]: "bytesToBigInt [] = 0"
  by (simp add: bytesToBigInt_def)

lemma bytesToBigInt_single [simp]: "bytesToBigInt [b] = uint b"
  by (simp add: bytesToBigInt_def)

lemma bytesToBigInt_snoc [simp]: "bytesToBigInt (bs @ [b]) = bytesToBigInt bs * 256 + uint b"
  by (simp add: bytesToBigInt_def)

lemma bytesToBigInt_append:
  "bytesToBigInt (xs @ ys) = bytesToBigInt xs * 256 ^ length ys + bytesToBigInt ys"
proof (induction ys rule: rev_induct)
  case (snoc y ys)
  then show ?case by (simp flip: append_assoc add: algebra_simps)
qed simp

lemma bytesToBigInt_Cons:
  "bytesToBigInt (b # bs) = uint b * 256 ^ length bs + bytesToBigInt bs"
  using bytesToBigInt_append [of "[b]" bs] by simp

lemma bytesToBigInt_nonneg [simp]: "0 \<le> bytesToBigInt bs"
  by (induction bs rule: rev_induct) simp_all

lemma uint_byte_less: "uint (b :: byte) < 256"
  using uint_lt2p [of b] by simp

lemma bytesToBigInt_less: "bytesToBigInt bs < 256 ^ length bs"
proof (induction bs rule: rev_induct)
  case (snoc b bs)
  then have "bytesToBigInt bs + 1 \<le> 256 ^ length bs" by simp
  then have "bytesToBigInt bs * 256 + 256 \<le> 256 ^ length bs * 256"
    by (simp flip: distrib_right add: algebra_simps)
  with uint_byte_less [of b] have "bytesToBigInt bs * 256 + uint b < 256 ^ length bs * 256"
    by linarith
  then show ?case by simp
qed simp

lemma bytesToBigInt_zeros [simp]: "bytesToBigInt (zeros n) = 0"
proof (induction n)
  case (Suc n)
  then show ?case by (simp add: zeros_def bytesToBigInt_Cons)
qed simp

lemma bytesToBigInt_inject:
  "length xs = length ys \<Longrightarrow> bytesToBigInt xs = bytesToBigInt ys \<Longrightarrow> xs = ys"
proof (induction xs arbitrary: ys rule: rev_induct)
  case (snoc x xs)
  then obtain y ys' where ys: "ys = ys' @ [y]" and len: "length xs = length ys'"
    by (cases ys rule: rev_cases) auto
  from snoc.prems(2) ys have eq: "bytesToBigInt xs * 256 + uint x = bytesToBigInt ys' * 256 + uint y"
    by simp
  moreover have "0 \<le> uint x" "0 \<le> uint y" by simp_all
  ultimately have bs: "bytesToBigInt xs = bytesToBigInt ys'"
    using uint_byte_less [of x] uint_byte_less [of y] by linarith
  with eq have "x = y" by (simp add: word_uint_eq_iff)
  with snoc.IH [OF len bs] ys show ?case by simp
qed simp

lemma bytesToBigInt_eq_0: "bytesToBigInt bs = 0 \<Longrightarrow> bs = zeros (length bs)"
  by (rule bytesToBigInt_inject) simp_all

section \<open>Round trips\<close>

lemma uint_of_nat_byte: "uint (word_of_nat n :: byte) = int (n mod 256)"
  by (simp add: unsigned_of_nat take_bit_eq_mod zmod_int flip: of_nat_mod)

lemma be_digits_value: "bytesToBigInt (be_digits n) = int n"
proof (induction n rule: be_digits.induct)
  case (1 n)
  show ?case
  proof (cases "n = 0")
    case True
    then show ?thesis by (simp add: be_digits.simps [of n])
  next
    case False
    with "1.IH" have "bytesToBigInt (be_digits (n div 256)) = int (n div 256)" by simp
    with False have "bytesToBigInt (be_digits n) = int (n div 256) * 256 + int (n mod 256)"
      by (simp add: be_digits.simps [of n] uint_of_nat_byte)
    also have "\<dots> = int (n div 256 * 256 + n mod 256)"
      by (simp only: of_nat_add of_nat_mult of_nat_numeral)
    finally show ?thesis by (simp only: div_mult_mod_eq)
  qed
qed

lemma be_digits_length_le: "n < 256 ^ k \<Longrightarrow> length (be_digits n) \<le> k"
proof (induction k arbitrary: n)
  case 0
  then show ?case by (simp add: be_digits.simps [of n])
next
  case (Suc k)
  then have "n div 256 < 256 ^ k" by (simp add: less_mult_imp_div_less mult.commute)
  with Suc.IH show ?case by (simp add: be_digits.simps [of n])
qed

lemma be_digits_eq_Nil [simp]: "be_digits n = [] \<longleftrightarrow> n = 0"
  by (simp add: be_digits.simps [of n])

lemma be_digits_hd: "0 < n \<Longrightarrow> hd (be_digits n) \<noteq> 0"
proof (induction n rule: be_digits.induct)
  case (1 n)
  show ?case
  proof (cases "n div 256 = 0")
    case True
    with "1.prems" have "n < 256" by simp
    with "1.prems" True have "uint (hd (be_digits n)) \<noteq> 0"
      by (simp add: be_digits.simps [of n] uint_of_nat_byte be_digits.simps [of 0])
    then show ?thesis by auto
  next
    case False
    with "1.IH" "1.prems" have "hd (be_digits (n div 256)) \<noteq> 0" by simp
    with False "1.prems" show ?thesis by (simp add: be_digits.simps [of n])
  qed
qed

lemma bigIntToBytes_ok: "0 \<le> v \<Longrightarrow> \<exists>b. bigIntToBytes v = Inr b \<and> bytesToBigInt b = v \<and> b \<noteq> []"
  by (auto simp: bigIntToBytes_def be_digits_value)

lemma bigIntToBytes_value: "bigIntToBytes v = Inr b \<Longrightarrow> bytesToBigInt b = v"
  by (auto simp: bigIntToBytes_def be_digits_value split: if_splits)

lemma bigIntToBytes_length:
  assumes "0 \<le> v" "v < 256 ^ k" "0 < k"
  shows "\<exists>b. bigIntToBytes v = Inr b \<and> bytesToBigInt b = v \<and> length b \<le> k"
proof -
  have "nat v < 256 ^ k" using assms by (simp add: nat_less_iff)
  with assms show ?thesis
    by (auto simp: bigIntToBytes_def be_digits_value be_digits_length_le)
qed

lemma setLengthLeft_value: "setLengthLeft b n = Inr c \<Longrightarrow> bytesToBigInt c = bytesToBigInt b"
  by (auto simp: setLengthLeft_def setLength_def bytesToBigInt_append split: if_splits)

lemma setLengthLeft_length: "setLengthLeft b n = Inr c \<Longrightarrow> length c = n"
  by (auto simp: setLengthLeft_def setLength_def split: if_splits)

lemma setLengthRight_length: "setLengthRight b n = Inr c \<Longrightarrow> length c = n"
  by (auto simp: setLengthRight_def setLength_def split: if_splits)

lemma setLengthLeft_total: "length b \<le> n \<Longrightarrow> setLengthLeft b n = Inr (zeros (n - length b) @ b)"
  by (auto simp: setLengthLeft_def setLength_def)

lemma setLengthRight_total: "length b \<le> n \<Longrightarrow> setLengthRight b n = Inr (b @ zeros (n - length b))"
  by (auto simp: setLengthRight_def setLength_def)

lemma word_buf_ok:
  assumes "0 \<le> v" "v < 2 ^ 256"
  shows "\<exists>b. word_buf v = Inr b \<and> length b = 32 \<and> bytesToBigInt b = v"
proof -
  have "(256 :: int) ^ 32 = 2 ^ 256" by simp
  with assms obtain b where b: "bigIntToBytes v = Inr b" "bytesToBigInt b = v" "length b \<le> 32"
    using bigIntToBytes_length [of v 32] by auto
  then have "setLengthLeft b 32 = Inr (zeros (32 - length b) @ b)" by (simp add: setLengthLeft_total)
  with b show ?thesis by (simp add: word_buf_def bytesToBigInt_append)
qed

lemma word_buf_value: "word_buf v = Inr b \<Longrightarrow> bytesToBigInt b = v \<and> length b = 32"
  by (auto simp: word_buf_def setLengthLeft_length dest: bigIntToBytes_value setLengthLeft_value
      split: sum.splits)

lemma word_buf_of_bytes:
  assumes "length b = 32"
  shows "word_buf (bytesToBigInt b) = Inr b"
proof -
  have "bytesToBigInt b < 2 ^ 256" using bytesToBigInt_less [of b] assms by simp
  then obtain c where c: "word_buf (bytesToBigInt b) = Inr c" "length c = 32"
    "bytesToBigInt c = bytesToBigInt b"
    using word_buf_ok [of "bytesToBigInt b"] by auto
  with assms have "c = b" by (intro bytesToBigInt_inject) simp_all
  with c show ?thesis by simp
qed

lemma unpadBytes_value: "bytesToBigInt (unpadBytes b) = bytesToBigInt b"
  by (induction b) (simp_all add: bytesToBigInt_Cons)

lemma unpadBytes_hd: "unpadBytes b = c # cs \<Longrightarrow> c \<noteq> 0"
  by (induction b) (auto split: if_splits)

lemma unpadBytes_eq_Nil: "unpadBytes b = [] \<longleftrightarrow> bytesToBigInt b = 0"
proof (induction b)
  case (Cons x xs)
  have "uint x = 0 \<longleftrightarrow> x = 0" by (simp add: word_uint_eq_iff)
  moreover have "0 \<le> uint x * 256 ^ length xs" by simp
  ultimately show ?case using Cons by (auto simp: bytesToBigInt_Cons add_nonneg_eq_0_iff)
qed simp

lemma equalsBytes_eq [simp]: "equalsBytes a b \<longleftrightarrow> a = b"
  by (induction a b rule: equalsBytes.induct) auto

lemma matchingBytesLength_prefix: "take (matchingBytesLength a b) a = take (matchingBytesLength a b) b"
  by (induction a b rule: matchingBytesLength.induct) auto

lemma matchingBytesLength_maximal:
  "matchingBytesLength a b < length a \<Longrightarrow> matchingBytesLength a b < length b \<Longrightarrow>
   a ! matchingBytesLength a b \<noteq> b ! matchingBytesLength a b"
  by (induction a b rule: matchingBytesLength.induct) (auto split: if_splits)

end
