(* ===== verification/Memory.thy ===== *)
theory Memory
  imports Prelude
begin

text \<open>
  The linear memory of \<^verbatim>\<open>packages/tvm/src/memory.ts\<close>: a byte array grown in containers of
  8192 bytes. The abstraction \<open>mem_byte\<close> reads it as an infinite array of bytes that are 0
  until written; \<open>mem_extend\<close> leaves it unchanged, \<open>mem_read\<close> samples it and \<open>mem_write\<close> replaces
  exactly the written range.
\<close>

definition ceil :: "nat \<Rightarrow> nat \<Rightarrow> nat" where
  "ceil v ceiling = (let r = v mod ceiling in if r = 0 then v else v + ceiling - r)"

definition CONTAINER_SIZE :: nat where
  "CONTAINER_SIZE = 8192"

type_synonym memory = bytes

definition new_memory :: memory where
  "new_memory = zeros CONTAINER_SIZE"

definition mem_extend :: "nat \<Rightarrow> nat \<Rightarrow> memory \<Rightarrow> memory" where
  "mem_extend offset sz m =
     (if sz = 0 then m
      else let newSize = ceil (offset + sz) 32; sizeDiff = int newSize - int (length m)
           in if 0 < sizeDiff
              then let expandBy = (nat sizeDiff + CONTAINER_SIZE - 1) div CONTAINER_SIZE * CONTAINER_SIZE
                   in m @ zeros expandBy
              else m)"

text \<open>\<^verbatim>\<open>store.set(value, offset)\<close> for a value that fits.\<close>

definition set_range :: "'a list \<Rightarrow> nat \<Rightarrow> 'a list \<Rightarrow> 'a list" where
  "set_range xs i ys = take i xs @ ys @ drop (i + length ys) xs"

definition mem_write :: "nat \<Rightarrow> nat \<Rightarrow> bytes \<Rightarrow> (memory, unit) op" where
  "mem_write offset sz val m =
     (if sz = 0 then (Inr (), m)
      else let m1 = mem_extend offset sz m
           in if length val \<noteq> sz then throw (HostError ''Invalid value size'') m1
              else if length m1 < offset + sz
                   then throw (HostError ''Value exceeds memory capacity'') m1
              else (Inr (), set_range m1 offset val))"

text \<open>
  The bytes returned by \<^verbatim>\<open>read\<close>. With \<^verbatim>\<open>avoidCopy\<close> the caller gets a view of the store,
  otherwise a fresh array of \<open>sz\<close> bytes into which the loaded bytes are copied.
\<close>

definition mem_read :: "nat \<Rightarrow> nat \<Rightarrow> bool \<Rightarrow> (memory, bytes) op" where
  "mem_read offset sz avoidCopy m =
     (let m1 = mem_extend offset sz m; loaded = subarray m1 offset (offset + sz)
      in (Inr (if avoidCopy then loaded else set_range (zeros sz) 0 loaded), m1))"

section \<open>Memory as an infinite array\<close>

definition mem_byte :: "memory \<Rightarrow> nat \<Rightarrow> byte" where
  "mem_byte m i = (if i < length m then m ! i else 0)"

lemma ceil_cases:
  obtains q r where "v = 32 * q + r" "r < 32" "ceil v 32 = (if r = 0 then v else 32 * (q + 1))"
proof
  define q r where "q = v div 32" and "r = v mod 32"
  show v: "v = 32 * q + r" and r: "r < 32" by (simp_all add: q_def r_def)
  have "v + 32 - r = 32 * (q + 1)" using v r by simp
  then show "ceil v 32 = (if r = 0 then v else 32 * (q + 1))"
    by (simp add: ceil_def Let_def r_def [symmetric])
qed

lemma ceil_ge: "v \<le> ceil v 32"
  by (rule ceil_cases [of v]) (simp split: if_splits)

lemma ceil_dvd: "32 dvd ceil v 32"
  by (rule ceil_cases [of v]) (auto split: if_splits)

lemma container_roundup: "n \<le> (n + CONTAINER_SIZE - 1) div CONTAINER_SIZE * CONTAINER_SIZE"
proof -
  have "0 < CONTAINER_SIZE" by (simp add: CONTAINER_SIZE_def)
  then show ?thesis
    using div_mult_mod_eq [of "n + CONTAINER_SIZE - 1" CONTAINER_SIZE]
      mod_less_divisor [of CONTAINER_SIZE "n + CONTAINER_SIZE - 1"] by linarith
qed

lemma length_extend:
  assumes "0 < sz"
  shows "offset + sz \<le> length (mem_extend offset sz m)"
proof -
  let ?n = "ceil (offset + sz) 32"
  have "?n \<le> length (mem_extend offset sz m)"
    using assms container_roundup [of "?n - length m"]
    by (auto simp: mem_extend_def Let_def nat_diff_distrib)
  with ceil_ge [of "offset + sz"] show ?thesis by linarith
qed

lemma length_extend_mono: "length m \<le> length (mem_extend offset sz m)"
  by (simp add: mem_extend_def Let_def)

lemma mem_byte_extend [simp]: "mem_byte (mem_extend offset sz m) = mem_byte m"
  by (rule ext) (auto simp: mem_byte_def mem_extend_def Let_def nth_append)

lemma new_memory_zero: "mem_byte new_memory = (\<lambda>_. 0)"
  by (rule ext) (simp add: mem_byte_def new_memory_def)

lemma length_set_range: "i + length ys \<le> length xs \<Longrightarrow> length (set_range xs i ys) = length xs"
  by (simp add: set_range_def)

lemma nth_set_range:
  assumes "i + length ys \<le> length xs" "k < length xs"
  shows "set_range xs i ys ! k = (if i \<le> k \<and> k < i + length ys then ys ! (k - i) else xs ! k)"
  using assms by (auto simp: set_range_def nth_append)

lemma mem_write_ok:
  assumes "length val = sz"
  obtains m' where "mem_write offset sz val m = (Inr (), m')"
    "mem_byte m' = (\<lambda>i. if offset \<le> i \<and> i < offset + sz then val ! (i - offset) else mem_byte m i)"
    "length m \<le> length m'"
proof (cases "sz = 0")
  case True
  then show ?thesis by (intro that [of m] ext) (auto simp: mem_write_def)
next
  case False
  define m1 where "m1 = mem_extend offset sz m"
  have l: "offset + sz \<le> length m1" using False by (simp add: m1_def length_extend)
  have "mem_write offset sz val m = (Inr (), set_range m1 offset val)"
    using False assms l by (simp add: mem_write_def m1_def [symmetric] Let_def)
  moreover have "mem_byte (set_range m1 offset val) i =
      (if offset \<le> i \<and> i < offset + sz then val ! (i - offset) else mem_byte m1 i)" for i
    using l assms by (auto simp: mem_byte_def length_set_range nth_set_range)
  moreover have "length m \<le> length (set_range m1 offset val)"
    using l assms length_extend_mono [of m offset sz] by (simp add: length_set_range m1_def)
  ultimately show ?thesis by (intro that) (auto simp: m1_def)
qed

lemma mem_write_bad_size:
  "length val \<noteq> sz \<Longrightarrow> 0 < sz \<Longrightarrow>
   mem_write offset sz val m = (Inl (HostError ''Invalid value size''), mem_extend offset sz m)"
  by (simp add: mem_write_def Let_def)

lemma mem_read_ok:
  "mem_read offset sz c m = (Inr (map (mem_byte m) [offset..<offset + sz]), mem_extend offset sz m)"
proof -
  let ?m1 = "mem_extend offset sz m"
  have l: "sz = 0 \<or> offset + sz \<le> length ?m1" using length_extend [of sz offset m] by auto
  then have "length (subarray ?m1 offset (offset + sz)) = sz" by auto
  moreover have "subarray ?m1 offset (offset + sz) ! k = mem_byte m (offset + k)" if "k < sz" for k
  proof -
    have "mem_byte ?m1 (offset + k) = ?m1 ! (offset + k)"
      using l that unfolding mem_byte_def [of ?m1] by auto
    then show ?thesis using l that by (simp add: nth_subarray)
  qed
  ultimately have "subarray ?m1 offset (offset + sz) = map (mem_byte m) [offset..<offset + sz]"
    by (intro nth_equalityI) simp_all
  moreover have "set_range (zeros (length xs)) 0 xs = xs" for xs
    by (simp add: set_range_def)
  ultimately show ?thesis by (simp add: mem_read_def Let_def) (metis diff_add_inverse length_map length_upt)
qed

end
