(* ===== verification/OpUtil.thy ===== *)
theory OpUtil
  imports Bytes Memory
begin

text \<open>
  The pure helpers of \<^verbatim>\<open>packages/tvm/src/opcodes/util.ts\<close>: modular arithmetic and two's
  complement on bigints, exponentiation by squaring, stack items read as addresses, data slices
  and rounding division. The lemmas relate each of them to the operation on 256-bit words or
  to the mathematical function it is meant to compute.
\<close>

section \<open>Definitions\<close>

definition TWO_POW256 :: int where
  "TWO_POW256 = 2 ^ 256"

definition MAX_INTEGER_BIGINT :: int where
  "MAX_INTEGER_BIGINT = 2 ^ 256 - 1"

definition MASK_160 :: int where
  "MASK_160 = js_shl 1 160 - 1"

definition mod_js :: "int \<Rightarrow> int \<Rightarrow> int" where
  "mod_js a b = (let r = js_rem a b in if r < 0 then b + r else r)"

definition fromTwos :: "int \<Rightarrow> int" where
  "fromTwos a = asIntN 256 a"

definition toTwos :: "int \<Rightarrow> int" where
  "toTwos a = asUintN 256 a"

definition abs_js :: "int \<Rightarrow> int" where
  "abs_js a = (if a > 0 then a else a * (-1))"

text \<open>The loop of \<^verbatim>\<open>exponentiation\<close>; \<^verbatim>\<open>N\<close> is the number literal of value $2^{256}$.\<close>

function exp_loop :: "int \<Rightarrow> int \<Rightarrow> int \<Rightarrow> int" where
  "exp_loop t bas exp =
     (if exp > 0
      then exp_loop (if js_rem exp 2 \<noteq> 0 then js_rem (t * bas) TWO_POW256 else t)
             (js_rem (bas * bas) TWO_POW256) (js_div exp 2)
      else t)"
  by auto
termination
  by (relation "measure (\<lambda>(t, bas, exp). nat exp)") (auto simp: js_div_nonneg)

declare exp_loop.simps [simp del]

definition exponentiation :: "int \<Rightarrow> int \<Rightarrow> int" where
  "exponentiation bas exp = exp_loop 1 bas exp"

text \<open>
  An \<^verbatim>\<open>Address\<close> is its 20 bytes, here a 160-bit word; \<open>createAddressFromBigInt\<close> pads the
  bytes of the number to 20 and so raises on a number that needs more.
\<close>

definition createAddressFromBigInt :: "int \<Rightarrow> exn + address" where
  "createAddressFromBigInt value =
     (case bigIntToBytes value of Inl e \<Rightarrow> Inl e
      | Inr bs \<Rightarrow> if length bs > 20 then Inl (HostError ''Invalid address, too long'')
                  else map_sum id (\<lambda>b. word_of_int (bytesToBigInt b)) (setLengthLeft bs 20))"

definition createAddressFromStackBigInt :: "int \<Rightarrow> exn + address" where
  "createAddressFromStackBigInt value = createAddressFromBigInt (value AND MASK_160)"

definition addr_bytes :: "address \<Rightarrow> bytes" where
  "addr_bytes a = zeros (20 - length (be_digits (unat a))) @ be_digits (unat a)"

definition setLengthLeftStorage :: "bytes \<Rightarrow> exn + bytes" where
  "setLengthLeftStorage value =
     (if equalsBytes value (zeros (length value)) then Inr [] else setLengthLeft value 32)"

definition isEIP8024SingleImmediateValid :: "int \<Rightarrow> bool" where
  "isEIP8024SingleImmediateValid immediate \<longleftrightarrow> immediate \<le> 0x5a \<or> immediate \<ge> 0x80"

definition decodeEIP8024SingleImmediate :: "int \<Rightarrow> exn + int" where
  "decodeEIP8024SingleImmediate immediate =
     (if \<not> isEIP8024SingleImmediateValid immediate then Inl (TvmError INVALID_OPCODE)
      else Inr (if immediate \<le> 0x5a then immediate + 17 else immediate - 20))"

definition isEIP8024PairImmediateValid :: "int \<Rightarrow> bool" where
  "isEIP8024PairImmediateValid immediate \<longleftrightarrow> immediate \<le> 0x4f \<or> immediate \<ge> 0x80"

definition decodeEIP8024PairImmediate :: "int \<Rightarrow> exn + (int \<times> int)" where
  "decodeEIP8024PairImmediate immediate =
     (if \<not> isEIP8024PairImmediateValid immediate then Inl (TvmError INVALID_OPCODE)
      else let k = (if immediate \<le> 0x4f then immediate else immediate - 48);
               q = k div 16; r = js_rem k 16
           in Inr (if q < r then (q + 1, r + 1) else (r + 1, 29 - q)))"

definition divCeil :: "int \<Rightarrow> int \<Rightarrow> int" where
  "divCeil a b =
     (let d = js_div a b; modulus = mod_js a b
      in if modulus = 0 then d else if d < 0 then d - 1 else d + 1)"

definition getDataSlice :: "bytes \<Rightarrow> int \<Rightarrow> int \<Rightarrow> exn + bytes" where
  "getDataSlice data offset len =
     (let l = int (length data); off = (if offset > l then l else offset);
          e0 = off + len; e = (if e0 > l then l else e0)
      in setLengthRight (subarray data (nat off) (nat e)) (nat len))"

text \<open>Decimal rendering of the index appended to an opcode's name.\<close>

fun dec_digits :: "nat \<Rightarrow> string" where
  "dec_digits n = (if n < 10 then [char_of (48 + n)] else dec_digits (n div 10) @ [char_of (48 + n mod 10)])"

declare dec_digits.simps [simp del]

definition getFullname :: "nat \<Rightarrow> string \<Rightarrow> string" where
  "getFullname code name =
     (if name = ''LOG'' then name @ dec_digits (code - 0xa0)
      else if name = ''PUSH'' then name @ dec_digits (code - 0x5f)
      else if name = ''DUP'' then name @ dec_digits (code - 0x7f)
      else if name = ''SWAP'' then name @ dec_digits (code - 0x8f)
      else name)"

definition maxCallGas :: "int \<Rightarrow> int \<Rightarrow> int" where
  "maxCallGas gasLimit gasLeft = (if gasLimit > gasLeft then gasLeft else gasLimit)"

section \<open>Modular arithmetic and two's complement\<close>

lemma mod_js_pos: "0 < b \<Longrightarrow> mod_js a b = a mod b"
proof (cases "0 \<le> a")
  case True
  then show "0 < b \<Longrightarrow> mod_js a b = a mod b" by (simp add: mod_js_def js_rem_nonneg Let_def not_less)
next
  case False
  assume b: "0 < b"
  define m where "m = (- a) mod b"
  have m: "0 \<le> m" "m < b" using b by (simp_all add: m_def)
  have r: "js_rem a b = - m" using False b by (simp add: js_rem_def signed_modulo_int_def m_def)
  have "a mod b = (if m = 0 then 0 else b - m)"
    using zmod_zminus1_eq_if [of "- a" b] by (simp add: m_def)
  then show ?thesis using m by (auto simp: mod_js_def r Let_def)
qed

lemma mod_js_zero [simp]: "mod_js 0 b = 0"
  by (simp add: mod_js_def)

lemma uint256_less: "uint (a :: 256 word) < 2 ^ 256"
  using uint_lt2p [of a] by simp

lemma sint256_range: "- (2 ^ 255) \<le> sint (a :: 256 word) \<and> sint a < 2 ^ 255"
  using sint_ge [of a] sint_lt [of a] by simp

lemma uint_sint256: "uint (a :: 256 word) = sint a mod 2 ^ 256"
  by (simp add: uint_sint take_bit_eq_mod)

lemma asIntN_uint: "asIntN 256 (uint (a :: 256 word)) = sint a"
proof -
  have u: "uint a mod 2 ^ 256 = uint a" using uint256_less [of a] by simp
  show ?thesis
  proof (cases "0 \<le> sint a")
    case True
    with sint256_range [of a] have "uint a = sint a" unfolding uint_sint256 by simp
    with u sint256_range [of a] show ?thesis by (simp add: asIntN_def Let_def)
  next
    case False
    have "sint a mod 2 ^ 256 = (sint a + 2 ^ 256) mod 2 ^ 256" by simp
    also have "\<dots> = sint a + 2 ^ 256" using False sint256_range [of a] by (intro mod_pos_pos_trivial) simp_all
    finally have "uint a = sint a + 2 ^ 256" unfolding uint_sint256 .
    with u False sint256_range [of a] show ?thesis by (simp add: asIntN_def Let_def)
  qed
qed

lemma fromTwos_word: "fromTwos (uint (a :: 256 word)) = sint a"
  by (simp add: fromTwos_def asIntN_uint)

lemma toTwos_word: "toTwos a = uint (word_of_int a :: 256 word)"
  by (simp add: toTwos_def asUintN_word)

lemma toTwos_fromTwos: "0 \<le> a \<Longrightarrow> a < 2 ^ 256 \<Longrightarrow> toTwos (fromTwos a) = a"
  using fromTwos_word [of "word_of_int a"] uint_word_of_int [of a, where ?'a = 256]
  by (simp add: toTwos_word)

lemma abs_js_eq: "abs_js a = \<bar>a\<bar>"
  by (simp add: abs_js_def)

section \<open>Exponentiation by squaring\<close>

lemma exp_loop_eq:
  "0 \<le> t \<Longrightarrow> t < TWO_POW256 \<Longrightarrow> 0 \<le> bas \<Longrightarrow>
   exp_loop t bas e = (t * bas ^ nat e) mod TWO_POW256"
proof (induction t bas e rule: exp_loop.induct)
  case (1 t bas e)
  show ?case
  proof (cases "e > 0")
    case False
    then show ?thesis using 1 by (subst exp_loop.simps) simp
  next
    case True
    let ?t = "if js_rem e 2 \<noteq> 0 then js_rem (t * bas) TWO_POW256 else t"
    let ?b = "js_rem (bas * bas) TWO_POW256"
    have N: "(0::int) < TWO_POW256" by (simp add: TWO_POW256_def)
    have b: "?b = (bas * bas) mod TWO_POW256" using "1.prems" N by (simp add: js_rem_nonneg)
    have t: "?t = (if odd e then (t * bas) mod TWO_POW256 else t)"
      using "1.prems" True N by (simp add: js_rem_nonneg even_iff_mod_2_eq_zero)
    have d: "js_div e 2 = e div 2" using True by (simp add: js_div_nonneg)
    have "exp_loop t bas e = exp_loop ?t ?b (js_div e 2)"
      using True by (subst exp_loop.simps) simp
    also have "\<dots> = (?t * ?b ^ nat (js_div e 2)) mod TWO_POW256"
      using "1.IH" [OF True] "1.prems" N unfolding t b by auto
    also have "\<dots> = (?t * (bas * bas) ^ nat (e div 2)) mod TWO_POW256"
      unfolding b d by (metis mod_mult_right_eq power_mod)
    also have "\<dots> = ((if odd e then t * bas else t) * (bas * bas) ^ nat (e div 2)) mod TWO_POW256"
      unfolding t by (simp add: mod_mult_left_eq)
    also have "(if odd e then t * bas else t) * (bas * bas) ^ nat (e div 2) = t * bas ^ nat e"
    proof -
      have "nat e = (if odd e then 1 else 0) + 2 * nat (e div 2)" using True by (auto elim!: evenE oddE)
      then show ?thesis by (simp add: power_add power_mult power2_eq_square split: if_splits)
    qed
    finally show ?thesis .
  qed
qed

lemma uint_power256: "uint ((a :: 256 word) ^ n) = (uint a ^ n) mod 2 ^ 256"
proof (induction n)
  case (Suc n)
  have "uint (a ^ Suc n) = (uint a * uint (a ^ n)) mod 2 ^ 256" by (simp add: uint_word_ariths(3))
  also have "\<dots> = (uint a * uint a ^ n) mod 2 ^ 256" unfolding Suc.IH by (rule mod_mult_right_eq)
  finally show ?case by simp
qed simp

lemma exponentiation_word:
  "exponentiation (uint (a :: 256 word)) (uint (b :: 256 word)) = uint (a ^ unat b)"
proof -
  have "exponentiation (uint a) (uint b) = (uint a ^ unat b) mod 2 ^ 256"
    using exp_loop_eq [of 1 "uint a" "uint b"]
    by (simp only: exponentiation_def TWO_POW256_def unat_eq_nat_uint mult_1) simp
  also have "\<dots> = uint (a ^ unat b)" by (rule uint_power256 [symmetric])
  finally show ?thesis .
qed

section \<open>Addresses\<close>

lemma MASK_160_eq: "MASK_160 = mask 160"
  by (simp add: MASK_160_def js_shl_def mask_eq_exp_minus_1)

lemma and_MASK_160: "value AND MASK_160 = value mod 2 ^ 160"
  by (simp add: MASK_160_eq take_bit_eq_mask [symmetric] take_bit_eq_mod)

lemma createAddressFromBigInt_ok:
  assumes "0 \<le> v" "v < 2 ^ 160"
  shows "createAddressFromBigInt v = Inr (word_of_int v)"
proof -
  have "v < 256 ^ 20" using assms(2) by simp
  then obtain b where b: "bigIntToBytes v = Inr b" "bytesToBigInt b = v" and l: "length b \<le> 20"
    using bigIntToBytes_length [OF assms(1), of 20] by auto
  from setLengthLeft_total [OF l] have "setLengthLeft b 20 = Inr (zeros (20 - length b) @ b)" .
  then show ?thesis
    using b l by (simp add: createAddressFromBigInt_def bytesToBigInt_append)
qed

lemma createAddressFromStackBigInt_total:
  "createAddressFromStackBigInt v = Inr (word_of_int v)"
proof -
  have "createAddressFromStackBigInt v = Inr (word_of_int (v mod 2 ^ 160))"
    unfolding createAddressFromStackBigInt_def and_MASK_160
    by (rule createAddressFromBigInt_ok) simp_all
  also have "word_of_int (v mod 2 ^ 160) = (word_of_int v :: address)"
    by (simp add: word_uint_eq_iff uint_word_of_int)
  finally show ?thesis .
qed

lemma length_addr_bytes [simp]: "length (addr_bytes a) = 20"
proof -
  have "unat a < 2 ^ 160" using unsigned_less [of a, where ?'a = nat] by simp
  then have "unat a < 256 ^ 20" by simp
  then have "length (be_digits (unat a)) \<le> 20" by (rule be_digits_length_le)
  then show ?thesis by (simp add: addr_bytes_def)
qed

lemma addr_bytes_value: "bytesToBigInt (addr_bytes a) = uint a"
  by (simp add: addr_bytes_def bytesToBigInt_append be_digits_value)

lemma addr_bytes_inject: "addr_bytes a = addr_bytes b \<longleftrightarrow> a = b"
  by (metis addr_bytes_value word_uint_eq_iff)

section \<open>Rounding, slices and storage values\<close>

lemma divCeil_eq:
  assumes "0 \<le> a" "0 < b"
  shows "divCeil a b = (a + b - 1) div b"
proof -
  have d: "js_div a b = a div b" using assms by (simp add: js_div_nonneg)
  have m: "mod_js a b = a mod b" using assms by (simp add: mod_js_pos)
  have "0 \<le> a div b" using assms by (simp add: pos_imp_zdiv_nonneg_iff)
  have split: "a + b - 1 = b * (a div b) + (a mod b + b - 1)" by (simp add: algebra_simps)
  show ?thesis
  proof (cases "a mod b = 0")
    case True
    have "(a + b - 1) div b = a div b + (b - 1) div b"
      unfolding split using assms True by simp
    then show ?thesis using assms True by (simp add: divCeil_def d m Let_def)
  next
    case False
    define r where "r = a mod b - 1"
    have "0 \<le> a mod b" "a mod b < b" using assms by simp_all
    with False have r: "0 \<le> r" "r < b" by (auto simp: r_def)
    have "a + b - 1 = r + (a div b + 1) * b"
      unfolding split r_def by (simp add: algebra_simps)
    then have "(a + b - 1) div b = a div b + 1 + r div b" using assms by simp
    then show ?thesis using False \<open>0 \<le> a div b\<close> r by (simp add: divCeil_def d m Let_def)
  qed
qed

lemma divCeil_bounds:
  assumes "0 \<le> a" "0 < b"
  shows "a \<le> divCeil a b * b" "divCeil a b * b < a + b"
proof -
  have e: "(a + b - 1) div b * b = a + b - 1 - (a + b - 1) mod b" by (simp add: minus_mod_eq_div_mult)
  have "0 \<le> (a + b - 1) mod b" "(a + b - 1) mod b < b" using assms by simp_all
  with e show "a \<le> divCeil a b * b" "divCeil a b * b < a + b"
    unfolding divCeil_eq [OF assms] by linarith+
qed

lemma divCeil_mono: "0 \<le> a \<Longrightarrow> a \<le> a' \<Longrightarrow> 0 < b \<Longrightarrow> divCeil a b \<le> divCeil a' b"
  by (simp add: divCeil_eq zdiv_mono1)

text \<open>A data slice is the window of the zero-extended array, whatever the offset.\<close>

lemma getDataSlice_eq:
  assumes "0 \<le> offset" "0 \<le> l"
  shows "getDataSlice data offset l = Inr (map (\<lambda>i. mem_byte data (nat offset + i)) [0..<nat l])"
proof -
  let ?o = "if offset > int (length data) then int (length data) else offset"
  let ?e = "if ?o + l > int (length data) then int (length data) else ?o + l"
  define d where "d = subarray data (nat ?o) (nat ?e)"
  have le: "length d \<le> nat l" using assms by (auto simp: d_def)
  have "getDataSlice data offset l = Inr (d @ zeros (nat l - length d))"
    unfolding getDataSlice_def Let_def d_def [symmetric] by (rule setLengthRight_total [OF le])
  also have "d @ zeros (nat l - length d) = map (\<lambda>i. mem_byte data (nat offset + i)) [0..<nat l]"
  proof (rule nth_equalityI)
    show "length (d @ zeros (nat l - length d)) = length (map (\<lambda>i. mem_byte data (nat offset + i)) [0..<nat l])"
      using le by simp
  next
    fix i assume "i < length (d @ zeros (nat l - length d))"
    with le have i: "i < nat l" by simp
    then show "(d @ zeros (nat l - length d)) ! i = map (\<lambda>i. mem_byte data (nat offset + i)) [0..<nat l] ! i"
      using assms by (auto simp: nth_append d_def nth_subarray mem_byte_def split: if_splits)
  qed
  finally show ?thesis .
qed

lemma getDataSlice_length: "getDataSlice data offset l = Inr d \<Longrightarrow> length d = nat l"
  unfolding getDataSlice_def Let_def by (rule setLengthRight_length)

text \<open>Storage values are stored without padding exactly when they are zero.\<close>

lemma setLengthLeftStorage_eq:
  assumes "length v \<le> 32"
  shows "setLengthLeftStorage v = Inr (if bytesToBigInt v = 0 then [] else zeros (32 - length v) @ v)"
proof -
  have "v = zeros (length v) \<longleftrightarrow> bytesToBigInt v = 0"
    using bytesToBigInt_eq_0 [of v] by (metis bytesToBigInt_zeros)
  then show ?thesis using assms by (simp add: setLengthLeftStorage_def setLengthLeft_total)
qed

lemma setLengthLeftStorage_value: "setLengthLeftStorage v = Inr c \<Longrightarrow> bytesToBigInt c = bytesToBigInt v"
  by (auto simp: setLengthLeftStorage_def dest: setLengthLeft_value split: if_splits)
    (metis bytesToBigInt_zeros)

text \<open>The immediates of EIP-8024 address distinct stack positions.\<close>

lemma decodeEIP8024Single_range:
  "0 \<le> i \<Longrightarrow> i < 256 \<Longrightarrow> decodeEIP8024SingleImmediate i = Inr n \<Longrightarrow> 17 \<le> n \<and> n \<le> 235"
  by (auto simp: decodeEIP8024SingleImmediate_def isEIP8024SingleImmediateValid_def split: if_splits)

lemma maxCallGas_le: "maxCallGas l g \<le> g" "maxCallGas l g \<le> l"
  by (simp_all add: maxCallGas_def)

end
