(* ===== verification/Account.thy ===== *)
theory Account
  imports OpUtil "HOL-Library.AList"
begin

text \<open>
  Accounts, \<^verbatim>\<open>packages/util/src/account.ts\<close>, with all fields loaded (the null placeholders
  of stateless execution are not modelled). TRC-10 balances are an association list from token
  ids to amounts: the class keys them by the canonical decimal string of the id, and the two
  conversions are shown to be mutually inverse, so ids and keys correspond one to one.
\<close>

section \<open>Token id keys\<close>

text \<open>\<^verbatim>\<open>tokenIdToKey\<close> on a bigint, and its inverse on canonical decimal strings.\<close>

definition tokenIdToKey :: "int \<Rightarrow> exn + string" where
  "tokenIdToKey tokenId =
     (if tokenId < 0 then Inl (HostError ''Token ID cannot be negative'')
      else Inr (dec_digits (nat tokenId)))"

definition is_digit :: "char \<Rightarrow> bool" where
  "is_digit c \<longleftrightarrow> of_char c \<in> {48..57 :: nat}"

text \<open>The regular expression \<^verbatim>\<open>^(?:0|[1-9][0-9]*)$\<close>.\<close>

definition CANONICAL_TOKEN_ID_KEY :: "string \<Rightarrow> bool" where
  "CANONICAL_TOKEN_ID_KEY key \<longleftrightarrow>
     (case key of [] \<Rightarrow> False
      | c # cs \<Rightarrow> key = ''0'' \<or> (is_digit c \<and> c \<noteq> CHR ''0'' \<and> list_all is_digit cs))"

definition dec_value :: "string \<Rightarrow> nat" where
  "dec_value cs = foldl (\<lambda>acc c. acc * 10 + (of_char c - 48)) 0 cs"

definition tokenIdFromKey :: "string \<Rightarrow> exn + int" where
  "tokenIdFromKey key =
     (if \<not> CANONICAL_TOKEN_ID_KEY key then Inl (HostError ''Invalid TRC-10 token ID key'')
      else Inr (int (dec_value key)))"

section \<open>The class\<close>

record key =
  key_address :: address
  weight :: int

record permission =
  perm_type :: nat
  perm_id :: int
  permissionName :: string
  threshold :: int
  parentId :: int
  operations :: bytes
  perm_keys :: "key list"

record account =
  nonce :: int
  balance :: int
  storageRoot :: bytes
  codeHash :: bytes
  codeSize :: int
  version :: int
  asset :: "(int \<times> int) list"
  activePermissions :: "permission list"

definition KECCAK256_NULL :: bytes where
  "KECCAK256_NULL =
    [0xc5, 0xd2, 0x46, 0x01, 0x86, 0xf7, 0x23, 0x3c, 0x92, 0x7e, 0x7d, 0xb2, 0xdc, 0xc7, 0x03, 0xc0,
     0xe5, 0x00, 0xb6, 0x53, 0xca, 0x82, 0x27, 0x3b, 0x7b, 0xfa, 0xd8, 0x04, 0x5d, 0x85, 0xa4, 0x70]"

definition KECCAK256_RLP :: bytes where
  "KECCAK256_RLP =
    [0x56, 0xe8, 0x1f, 0x17, 0x1b, 0xcc, 0x55, 0xa6, 0xff, 0x83, 0x45, 0xe6, 0x92, 0xc0, 0xf8, 0x6e,
     0x5b, 0x48, 0xe0, 0x1b, 0x99, 0x6c, 0xad, 0xc0, 0x01, 0x62, 0x2f, 0xb5, 0xe3, 0x63, 0xb4, 0x21]"

definition new_account :: account where
  "new_account = \<lparr>nonce = 0, balance = 0, storageRoot = KECCAK256_RLP, codeHash = KECCAK256_NULL,
     codeSize = 0, version = 0, asset = [], activePermissions = []\<rparr>"

definition getTokenBalance :: "account \<Rightarrow> int \<Rightarrow> int" where
  "getTokenBalance a tokenId = (case map_of (asset a) tokenId of None \<Rightarrow> 0 | Some v \<Rightarrow> v)"

text \<open>\<^verbatim>\<open>account.asset[tokenIdToKey(id)] = v\<close>.\<close>

definition set_token :: "int \<Rightarrow> int \<Rightarrow> account \<Rightarrow> account" where
  "set_token tokenId v a = a\<lparr>asset := AList.update tokenId v (asset a)\<rparr>"

fun getPermissionById :: "permission list \<Rightarrow> int \<Rightarrow> permission option" where
  "getPermissionById [] i = None"
| "getPermissionById (p # ps) i = (if perm_id p = i then Some p else getPermissionById ps i)"

definition isContract :: "account \<Rightarrow> bool" where
  "isContract a \<longleftrightarrow> \<not> equalsBytes (codeHash a) KECCAK256_NULL \<or> codeSize a \<noteq> 0"

definition isEmpty :: "account \<Rightarrow> bool" where
  "isEmpty a \<longleftrightarrow>
     (if balance a \<noteq> 0 \<or> nonce a \<noteq> 0 \<or> \<not> equalsBytes (codeHash a) KECCAK256_NULL \<or>
         list_ex (\<lambda>(t, v). v \<noteq> 0) (asset a)
      then False
      else balance a = 0 \<and> nonce a = 0 \<and> equalsBytes (codeHash a) KECCAK256_NULL \<and>
           list_all (\<lambda>(t, v). v = 0) (asset a))"

text \<open>The invariant of \<^verbatim>\<open>_validate\<close>: what the constructor and the asset setter accept.\<close>

definition validate_account :: "account \<Rightarrow> bool" where
  "validate_account a \<longleftrightarrow> 0 \<le> nonce a \<and> 0 \<le> balance a \<and> length (storageRoot a) = 32 \<and>
     length (codeHash a) = 32 \<and> 0 \<le> codeSize a \<and> list_all (\<lambda>(t, v). 0 \<le> t \<and> 0 \<le> v) (asset a)"

section \<open>Lemmas\<close>

lemma getTokenBalance_set [simp]:
  "getTokenBalance (set_token t v a) t' = (if t' = t then v else getTokenBalance a t')"
  by (simp add: getTokenBalance_def set_token_def update_conv')

lemma set_token_fields [simp]:
  "balance (set_token t v a) = balance a" "nonce (set_token t v a) = nonce a"
  "codeHash (set_token t v a) = codeHash a"
  by (simp_all add: set_token_def)

lemma no_tokens_iff:
  assumes "distinct (map fst (asset a))"
  shows "list_all (\<lambda>(t, v). v = 0) (asset a) \<longleftrightarrow> (\<forall>t. getTokenBalance a t = 0)"
proof
  assume "\<forall>t. getTokenBalance a t = 0"
  then have "v = 0" if "(t, v) \<in> set (asset a)" for t v
    using map_of_is_SomeI [OF assms that] by (auto simp: getTokenBalance_def split: option.splits)
  then show "list_all (\<lambda>(t, v). v = 0) (asset a)" by (auto simp: list_all_iff)
qed (auto simp: list_all_iff getTokenBalance_def split: option.splits dest: map_of_SomeD)

lemma isEmpty_iff:
  assumes "distinct (map fst (asset a))"
  shows "isEmpty a \<longleftrightarrow>
    balance a = 0 \<and> nonce a = 0 \<and> codeHash a = KECCAK256_NULL \<and> (\<forall>t. getTokenBalance a t = 0)"
proof -
  have "isEmpty a \<longleftrightarrow> balance a = 0 \<and> nonce a = 0 \<and> codeHash a = KECCAK256_NULL \<and>
      list_all (\<lambda>(t, v). v = 0) (asset a)"
    by (auto simp: isEmpty_def list_ex_iff list_all_iff)
  then show ?thesis by (simp add: no_tokens_iff [OF assms])
qed

lemma new_account_empty: "isEmpty new_account" "\<not> isContract new_account" "validate_account new_account"
  by (simp_all add: isEmpty_def isContract_def new_account_def validate_account_def
      KECCAK256_NULL_def KECCAK256_RLP_def)

lemma getPermissionById_Some: "getPermissionById ps i = Some p \<Longrightarrow> p \<in> set ps \<and> perm_id p = i"
  by (induction ps) (auto split: if_splits)

lemma of_char_digit: "n < 10 \<Longrightarrow> of_char (char_of (48 + n) :: char) = 48 + (n :: nat)"
  by (simp add: of_char_of)

lemma char_of_nat_48: "char_of (48 :: nat) = CHR ''0''"
  by (simp add: char_of_def bit_numeral_rec bit_Suc_0_iff)

lemma dec_digits_value: "dec_value (dec_digits n) = n"
proof (induction n rule: dec_digits.induct)
  case (1 n)
  show ?case
  proof (cases "n < 10")
    case True
    then show ?thesis by (simp add: dec_digits.simps [of n] dec_value_def of_char_digit)
  next
    case False
    with 1 have "dec_value (dec_digits (n div 10)) = n div 10" by simp
    then show ?thesis
      using False of_char_digit [of "n mod 10"]
      by (simp add: dec_digits.simps [of n] dec_value_def)
  qed
qed

lemma dec_digits_canonical:
  "CANONICAL_TOKEN_ID_KEY (dec_digits n) \<and> (0 < n \<longrightarrow> hd (dec_digits n) \<noteq> CHR ''0'') \<and>
   list_all is_digit (dec_digits n) \<and> dec_digits n \<noteq> []"
proof (induction n rule: dec_digits.induct)
  case (1 n)
  have dig: "is_digit (char_of (48 + k))" if "k < 10" for k :: nat
    using that by (simp add: is_digit_def of_char_digit)
  have nz: "char_of (48 + k) \<noteq> CHR ''0''" if "0 < k" "k < 10" for k :: nat
  proof
    assume "char_of (48 + k) = CHR ''0''"
    from arg_cong [OF this, of "of_char :: char \<Rightarrow> nat"] show False
      using of_char_digit [OF that(2)] that(1) by simp
  qed
  show ?case
  proof (cases "n < 10")
    case True
    then show ?thesis
      using dig [OF True] nz [of n]
      by (cases "n = 0")
        (simp_all add: dec_digits.simps [of n] dec_digits.simps [of 0] CANONICAL_TOKEN_ID_KEY_def char_of_nat_48)
  next
    case False
    then obtain c cs where c: "dec_digits (n div 10) = c # cs" using 1 by (cases "dec_digits (n div 10)") auto
    moreover have "0 < n div 10" using False by simp
    ultimately show ?thesis
      using 1 False dig [of "n mod 10"]
      by (simp add: dec_digits.simps [of n] CANONICAL_TOKEN_ID_KEY_def)
  qed
qed

lemma dec_value_snoc: "dec_value (cs @ [c]) = dec_value cs * 10 + (of_char c - 48)"
  by (simp add: dec_value_def)

lemma char_of_digit: "is_digit c \<Longrightarrow> char_of (48 + (of_char c - 48) :: nat) = c \<and> of_char c - 48 < (10 :: nat)"
  by (auto simp: is_digit_def)

lemma dec_digits_snoc:
  assumes "is_digit c" "0 < dec_value cs" "dec_digits (dec_value cs) = cs"
  shows "dec_digits (dec_value (cs @ [c])) = cs @ [c]"
proof -
  define d :: nat where "d = of_char c - 48"
  have d: "char_of (48 + d) = c" "d < 10" using char_of_digit [OF assms(1)] by (simp_all add: d_def)
  have v: "dec_value (cs @ [c]) = dec_value cs * 10 + d" by (simp add: dec_value_snoc d_def)
  have "\<not> dec_value cs * 10 + d < 10" "(dec_value cs * 10 + d) div 10 = dec_value cs"
    "(dec_value cs * 10 + d) mod 10 = d"
    using assms(2) d(2) by auto
  then show ?thesis unfolding v by (subst dec_digits.simps) (simp add: assms(3) d(1))
qed

lemma dec_value_pos:
  assumes "list_all is_digit (c # cs)" "c \<noteq> CHR ''0''"
  shows "0 < dec_value (c # cs) \<and> dec_digits (dec_value (c # cs)) = c # cs"
  using assms
proof (induction cs rule: rev_induct)
  case Nil
  define d :: nat where "d = of_char c - 48"
  have d: "char_of (48 + d) = c" "d < 10" using char_of_digit [of c] Nil by (simp_all add: d_def)
  moreover have "d \<noteq> 0" using d Nil by (metis add.right_neutral char_of_nat_48)
  moreover have "dec_value [c] = d" by (simp add: dec_value_def d_def)
  ultimately show ?case by (simp add: dec_digits.simps)
next
  case (snoc x xs)
  then have IH: "0 < dec_value (c # xs)" "dec_digits (dec_value (c # xs)) = c # xs" by simp_all
  with snoc dec_digits_snoc [of x "c # xs"] dec_value_snoc [of "c # xs" x] show ?case by simp
qed

text \<open>
  Token ids and asset keys: the key of an id is canonical and parses back to the id, a
  canonical key is the key of the id it parses to, and everything else is rejected.
\<close>

theorem token_key_roundtrip:
  "(if 0 \<le> i then \<exists>k. tokenIdToKey i = Inr k \<and> tokenIdFromKey k = Inr i
    else \<exists>e. tokenIdToKey i = Inl e) \<and>
   (if CANONICAL_TOKEN_ID_KEY k then \<exists>j. tokenIdFromKey k = Inr j \<and> tokenIdToKey j = Inr k
    else \<exists>e. tokenIdFromKey k = Inl e)"
proof
  show "if 0 \<le> i then \<exists>k. tokenIdToKey i = Inr k \<and> tokenIdFromKey k = Inr i
    else \<exists>e. tokenIdToKey i = Inl e"
    by (simp add: tokenIdToKey_def tokenIdFromKey_def dec_digits_canonical dec_digits_value)
  have "dec_digits (dec_value k) = k" if "CANONICAL_TOKEN_ID_KEY k"
  proof (cases "k = ''0''")
    case True
    then show ?thesis by (simp add: dec_value_def dec_digits.simps char_of_nat_48)
  next
    case False
    with that obtain c cs where "k = c # cs" "c \<noteq> CHR ''0''" "list_all is_digit (c # cs)"
      by (auto simp: CANONICAL_TOKEN_ID_KEY_def split: list.splits)
    then show ?thesis using dec_value_pos by simp
  qed
  then show "if CANONICAL_TOKEN_ID_KEY k then \<exists>j. tokenIdFromKey k = Inr j \<and> tokenIdToKey j = Inr k
    else \<exists>e. tokenIdFromKey k = Inl e"
    by (simp add: tokenIdToKey_def tokenIdFromKey_def)
qed

end
