(* ===== verification/StateManager.thy ===== *)
theory StateManager
  imports Checkpoints Account
begin

text \<open>
  The default state manager of the TVM, \<^verbatim>\<open>packages/statemanager/src/simpleStateManager.ts\<close>:
  four parallel stacks of maps (accounts, code, storage, registered token ids), one layer per
  checkpoint, the newest layer at the head of each list. A map entry holding
  \<^verbatim>\<open>undefined\<close> reads like an absent one and is modelled as absent. Accounts are values here:
  the copy that \<^verbatim>\<open>checkpointSync\<close> makes of every account is what makes this right. A read of
  an exhausted stack, a TypeError in the source, is excluded by the invariant.
\<close>

section \<open>The class\<close>

record state_manager =
  accountStack :: "(address \<rightharpoonup> account) list"
  codeStack :: "(address \<rightharpoonup> bytes) list"
  storageStack :: "((address \<times> bytes) \<rightharpoonup> bytes) list"
  tokenIdStack :: "int set list"

definition top_map :: "('a \<rightharpoonup> 'b) list \<Rightarrow> ('a \<rightharpoonup> 'b)" where
  "top_map ms = (case ms of [] \<Rightarrow> Map.empty | m # _ \<Rightarrow> m)"

definition top_set :: "'a set list \<Rightarrow> 'a set" where
  "top_set ms = (case ms of [] \<Rightarrow> {} | m # _ \<Rightarrow> m)"

definition set_top :: "'a \<Rightarrow> 'a list \<Rightarrow> 'a list" where
  "set_top x xs = (case xs of [] \<Rightarrow> [] | _ # r \<Rightarrow> x # r)"

definition checkpointSync :: "state_manager \<Rightarrow> state_manager" where
  "checkpointSync s = s\<lparr>accountStack := top_map (accountStack s) # accountStack s,
     codeStack := top_map (codeStack s) # codeStack s,
     storageStack := top_map (storageStack s) # storageStack s,
     tokenIdStack := top_set (tokenIdStack s) # tokenIdStack s\<rparr>"

definition new_state_manager :: state_manager where
  "new_state_manager =
     checkpointSync \<lparr>accountStack = [], codeStack = [], storageStack = [], tokenIdStack = []\<rparr>"

definition getAccount :: "address \<Rightarrow> state_manager \<Rightarrow> account option" where
  "getAccount a s = top_map (accountStack s) a"

definition sm_putAccount :: "address \<Rightarrow> account option \<Rightarrow> state_manager \<Rightarrow> state_manager" where
  "sm_putAccount a acc s =
     (let tokenIds = (case acc of None \<Rightarrow> [] | Some x \<Rightarrow> map fst (asset x))
      in s\<lparr>accountStack := set_top ((top_map (accountStack s))(a := acc)) (accountStack s),
          tokenIdStack := set_top (top_set (tokenIdStack s) \<union> set tokenIds) (tokenIdStack s)\<rparr>)"

definition sm_deleteAccount :: "address \<Rightarrow> state_manager \<Rightarrow> state_manager" where
  "sm_deleteAccount a s =
     s\<lparr>accountStack := set_top ((top_map (accountStack s))(a := None)) (accountStack s)\<rparr>"

text \<open>
  \<^verbatim>\<open>modifyAccountFields\<close> of \<^verbatim>\<open>util.ts\<close>: the fields given replace those of the account, which is
  created when it is absent.
\<close>

record account_fields =
  f_nonce :: "int option"
  f_balance :: "int option"
  f_storageRoot :: "bytes option"
  f_codeHash :: "bytes option"
  f_codeSize :: "int option"
  f_asset :: "(int \<times> int) list option"
  f_activePermissions :: "permission list option"

definition no_fields :: account_fields where
  "no_fields = \<lparr>f_nonce = None, f_balance = None, f_storageRoot = None, f_codeHash = None,
     f_codeSize = None, f_asset = None, f_activePermissions = None\<rparr>"

definition or_else :: "'a option \<Rightarrow> 'a \<Rightarrow> 'a" where
  "or_else x d = (case x of None \<Rightarrow> d | Some v \<Rightarrow> v)"

definition modifyAccountFields :: "address \<Rightarrow> account_fields \<Rightarrow> state_manager \<Rightarrow> state_manager" where
  "modifyAccountFields a f s =
     (let acc = or_else (getAccount a s) new_account;
          acc' = acc\<lparr>nonce := or_else (f_nonce f) (nonce acc),
            balance := or_else (f_balance f) (balance acc),
            storageRoot := or_else (f_storageRoot f) (storageRoot acc),
            codeHash := or_else (f_codeHash f) (codeHash acc),
            codeSize := or_else (f_codeSize f) (codeSize acc),
            asset := or_else (f_asset f) (asset acc),
            activePermissions := or_else (f_activePermissions f) (activePermissions acc)\<rparr>
      in sm_putAccount a (Some acc') s)"

definition getCode :: "address \<Rightarrow> state_manager \<Rightarrow> bytes" where
  "getCode a s = or_else (top_map (codeStack s) a) []"

definition putCode :: "(bytes \<Rightarrow> bytes) \<Rightarrow> address \<Rightarrow> bytes \<Rightarrow> state_manager \<Rightarrow> state_manager" where
  "putCode keccak a value s =
     (let s1 = s\<lparr>codeStack := set_top ((top_map (codeStack s))(a \<mapsto> value)) (codeStack s)\<rparr>;
          s2 = (if getAccount a s1 = None then sm_putAccount a (Some new_account) s1 else s1)
      in modifyAccountFields a (no_fields\<lparr>f_codeHash := Some (keccak value)\<rparr>) s2)"

definition getCodeSize :: "address \<Rightarrow> state_manager \<Rightarrow> int" where
  "getCodeSize a s = int (length (getCode a s))"

definition getStorage :: "address \<Rightarrow> bytes \<Rightarrow> state_manager \<Rightarrow> bytes" where
  "getStorage a key s = or_else (top_map (storageStack s) (a, key)) []"

definition putStorage :: "address \<Rightarrow> bytes \<Rightarrow> bytes \<Rightarrow> state_manager \<Rightarrow> state_manager" where
  "putStorage a key value s =
     s\<lparr>storageStack := set_top ((top_map (storageStack s))((a, key) \<mapsto> value)) (storageStack s)\<rparr>"

definition clearStorage :: "state_manager \<Rightarrow> state_manager" where
  "clearStorage s = s"

text \<open>\<^verbatim>\<open>splice(-2, 1)\<close> removes the element below the top, or the only element.\<close>

fun splice_second :: "'a list \<Rightarrow> 'a list" where
  "splice_second (x # y # r) = x # r"
| "splice_second [x] = []"
| "splice_second [] = []"

definition sm_commit :: "state_manager \<Rightarrow> state_manager" where
  "sm_commit s = s\<lparr>accountStack := splice_second (accountStack s), codeStack := splice_second (codeStack s),
     storageStack := splice_second (storageStack s), tokenIdStack := splice_second (tokenIdStack s)\<rparr>"

definition sm_revert :: "state_manager \<Rightarrow> state_manager" where
  "sm_revert s = s\<lparr>accountStack := tl (accountStack s), codeStack := tl (codeStack s),
     storageStack := tl (storageStack s), tokenIdStack := tl (tokenIdStack s)\<rparr>"

definition tokenIdExists :: "int \<Rightarrow> state_manager \<Rightarrow> bool" where
  "tokenIdExists t s \<longleftrightarrow> t \<in> top_set (tokenIdStack s)"

section \<open>Instance of the checkpoint contract\<close>

type_synonym sm_view =
  "(address \<rightharpoonup> account) \<times> (address \<rightharpoonup> bytes) \<times> ((address \<times> bytes) \<rightharpoonup> bytes) \<times> int set"

definition layers :: "state_manager \<Rightarrow> sm_view list" where
  "layers s = zip (accountStack s) (zip (codeStack s) (zip (storageStack s) (tokenIdStack s)))"

definition sm_inv :: "state_manager \<Rightarrow> bool" where
  "sm_inv s \<longleftrightarrow> accountStack s \<noteq> [] \<and> length (codeStack s) = length (accountStack s) \<and>
     length (storageStack s) = length (accountStack s) \<and> length (tokenIdStack s) = length (accountStack s)"

definition sm_view :: "state_manager \<Rightarrow> sm_view" where
  "sm_view s = hd (layers s)"

definition sm_saved :: "state_manager \<Rightarrow> sm_view list" where
  "sm_saved s = tl (layers s)"

datatype sm_change =
    PutAccount address "account option"
  | DeleteAccount address
  | PutCode address bytes
  | PutStorage address bytes bytes

fun sm_write :: "(bytes \<Rightarrow> bytes) \<Rightarrow> sm_change \<Rightarrow> state_manager \<Rightarrow> state_manager" where
  "sm_write keccak (PutAccount a acc) s = sm_putAccount a acc s"
| "sm_write keccak (DeleteAccount a) s = sm_deleteAccount a s"
| "sm_write keccak (PutCode a c) s = putCode keccak a c s"
| "sm_write keccak (PutStorage a k v) s = putStorage a k v s"

text \<open>The effect of a write on one layer.\<close>

fun view_write :: "(bytes \<Rightarrow> bytes) \<Rightarrow> sm_change \<Rightarrow> sm_view \<Rightarrow> sm_view" where
  "view_write keccak (PutAccount a acc) (A, C, S, T) =
     (A(a := acc), C, S, T \<union> (case acc of None \<Rightarrow> {} | Some x \<Rightarrow> set (map fst (asset x))))"
| "view_write keccak (DeleteAccount a) (A, C, S, T) = (A(a := None), C, S, T)"
| "view_write keccak (PutCode a c) (A, C, S, T) =
     (let acc = or_else (A a) new_account
      in (A(a \<mapsto> acc\<lparr>codeHash := keccak c\<rparr>), C(a \<mapsto> c), S, T \<union> set (map fst (asset acc))))"
| "view_write keccak (PutStorage a k v) (A, C, S, T) = (A, C, S((a, k) \<mapsto> v), T)"

lemma sm_inv_cases:
  assumes "sm_inv s"
  obtains A As C Cs S Ss T Ts where
    "s = \<lparr>accountStack = A # As, codeStack = C # Cs, storageStack = S # Ss, tokenIdStack = T # Ts\<rparr>"
    "length Cs = length As" "length Ss = length As" "length Ts = length As"
proof -
  obtain A As where "accountStack s = A # As" using assms by (cases "accountStack s") (auto simp: sm_inv_def)
  with assms obtain C Cs S Ss T Ts where "codeStack s = C # Cs" "storageStack s = S # Ss" "tokenIdStack s = T # Ts"
    "length Cs = length As" "length Ss = length As" "length Ts = length As"
    by (auto simp: sm_inv_def length_Suc_conv)
  with \<open>accountStack s = A # As\<close> show ?thesis by (intro that [of A As C Cs S Ss T Ts]) auto
qed

lemmas sm_ops = sm_putAccount_def sm_deleteAccount_def putCode_def putStorage_def modifyAccountFields_def
  getAccount_def no_fields_def top_map_def top_set_def set_top_def or_else_def Let_def
lemmas sm_obs = sm_inv_def sm_view_def sm_saved_def layers_def

lemma sm_write_law:
  assumes "sm_inv s"
  shows "sm_inv (sm_write keccak w s) \<and> sm_view (sm_write keccak w s) = view_write keccak w (sm_view s) \<and>
    sm_saved (sm_write keccak w s) = sm_saved s"
  using assms
  by (elim sm_inv_cases, cases w) (auto simp: sm_ops sm_obs new_account_def split: option.splits)

lemma sm_commit_law:
  assumes inv: "sm_inv s" and sv: "sm_saved s = v # vs"
  shows "sm_inv (sm_commit s) \<and> sm_view (sm_commit s) = sm_view s \<and> sm_saved (sm_commit s) = vs"
  using inv
proof (elim sm_inv_cases)
  fix A As C Cs S Ss T Ts
  assume s: "s = \<lparr>accountStack = A # As, codeStack = C # Cs, storageStack = S # Ss, tokenIdStack = T # Ts\<rparr>"
    and l: "length Cs = length As" "length Ss = length As" "length Ts = length As"
  obtain A' As' where A: "As = A' # As'" using sv by (cases As) (auto simp: sm_obs s)
  with l obtain C' Cs' S' Ss' T' Ts' where "Cs = C' # Cs'" "Ss = S' # Ss'" "Ts = T' # Ts'"
    by (auto simp: length_Suc_conv)
  with l A sv show ?thesis by (simp add: sm_obs sm_commit_def s)
qed

interpretation sm: checkpointed sm_inv sm_view sm_saved "\<lambda>s. (Inr (), checkpointSync s)"
  "\<lambda>s. (Inr (), sm_commit s)" "\<lambda>s. (Inr (), sm_revert s)" "\<lambda>_. True"
  "\<lambda>w s. (Inr (), sm_write keccak w s)" "view_write keccak" for keccak
proof unfold_locales
  fix s :: state_manager and v vs w
  assume inv: "sm_inv s"
  show "\<exists>s'. (Inr (), checkpointSync s) = (Inr (), s') \<and> sm_inv s' \<and> sm_view s' = sm_view s \<and>
      sm_saved s' = sm_view s # sm_saved s"
    using inv by (elim sm_inv_cases) (simp add: sm_obs checkpointSync_def top_map_def top_set_def)
  show "\<exists>s'. (Inr (), sm_write keccak w s) = (Inr (), s') \<and> sm_inv s' \<and>
      sm_view s' = view_write keccak w (sm_view s) \<and> sm_saved s' = sm_saved s"
    using sm_write_law [OF inv] by simp
  { assume sv: "sm_saved s = v # vs"
    show "\<exists>s'. (Inr (), sm_commit s) = (Inr (), s') \<and> sm_inv s' \<and> sm_view s' = sm_view s \<and> sm_saved s' = vs"
      using sm_commit_law [OF inv sv] by simp
    show "\<exists>s'. (Inr (), sm_revert s) = (Inr (), s') \<and> sm_inv s' \<and> sm_view s' = v \<and> sm_saved s' = vs"
      using inv sv by (elim sm_inv_cases) (auto simp: sm_obs sm_revert_def) }
qed

lemma sm_inv_new: "sm_inv new_state_manager"
  by (simp add: sm_inv_def new_state_manager_def checkpointSync_def)

end
