(* ===== verification/Journal.thy ===== *)
theory Journal
  imports Checkpoints OpUtil
begin

text \<open>
  The bookkeeping of \<^verbatim>\<open>packages/tvm/src/journal.ts\<close>: warm addresses and slots, touched
  accounts and the storage slots written in this transaction, with a list of diffs tagged by
  checkpoint height. The list \<open>journalDiff\<close> has the newest diff at its head. Hexadecimal
  address and slot strings are the values they encode. The calls into the state manager are
  composed with these operations in theory \<open>World\<close>.
\<close>

section \<open>The class\<close>

definition RIPEMD160_ADDRESS :: address where
  "RIPEMD160_ADDRESS = 3"

record jdiff =
  dWarm :: "address set"
  dSlots :: "address \<rightharpoonup> bytes set"
  dTouched :: "address set"
  dWrites :: "(address \<times> bytes) set"

definition empty_diff :: jdiff where
  "empty_diff = \<lparr>dWarm = {}, dSlots = Map.empty, dTouched = {}, dWrites = {}\<rparr>"

record journal =
  warm :: "address \<rightharpoonup> bytes set"
  alwaysWarm :: "address \<rightharpoonup> bytes set"
  touched :: "address set"
  journalDiff :: "(int \<times> jdiff) list"
  journalHeight :: int
  storageWrites :: "(address \<times> bytes) set"
  accessList :: "(address \<rightharpoonup> bytes set) option"
  preimages :: "(bytes \<rightharpoonup> bytes) option"

definition cleanJournal :: "journal \<Rightarrow> journal" where
  "cleanJournal j = j\<lparr>journalHeight := 0, warm := Map.empty, alwaysWarm := Map.empty,
     touched := {}, journalDiff := [(0, empty_diff)], storageWrites := {}\<rparr>"

definition new_journal :: journal where
  "new_journal = \<lparr>warm = Map.empty, alwaysWarm = Map.empty, touched = {},
     journalDiff = [(0, empty_diff)], journalHeight = 0, storageWrites = {},
     accessList = None, preimages = None\<rparr>"

definition startReportingAccessList :: "journal \<Rightarrow> journal" where
  "startReportingAccessList j = j\<lparr>accessList := Some Map.empty\<rparr>"

definition startReportingPreimages :: "journal \<Rightarrow> journal" where
  "startReportingPreimages j = j\<lparr>preimages := Some Map.empty\<rparr>"

text \<open>An update of the newest diff.\<close>

definition upd_diff :: "(jdiff \<Rightarrow> jdiff) \<Rightarrow> journal \<Rightarrow> journal" where
  "upd_diff f j = (case journalDiff j of [] \<Rightarrow> j
     | (h, d) # ds \<Rightarrow> j\<lparr>journalDiff := (h, f d) # ds\<rparr>)"

text \<open>
  \<open>getAppliedKey\<close> is the state manager's optional hash of an address; preimages can only be
  reported with it.
\<close>

definition touchAccount :: "(bytes \<Rightarrow> bytes) option \<Rightarrow> address \<Rightarrow> (journal, unit) op" where
  "touchAccount getAppliedKey a j =
     (case (preimages j, getAppliedKey) of
        (Some _, None) \<Rightarrow> throw (HostError ''touchAccount: stateManager.getAppliedKey can not be undefined'') j
      | (p, k) \<Rightarrow>
          let j1 = (case (p, k) of (Some m, Some f) \<Rightarrow> j\<lparr>preimages := Some (m(f (addr_bytes a) \<mapsto> addr_bytes a))\<rparr>
                    | _ \<Rightarrow> j)
          in (Inr (), if a \<notin> touched j1
                      then upd_diff (dTouched_update (insert a)) (j1\<lparr>touched := insert a (touched j1)\<rparr>)
                      else j1))"

definition jr_commit :: "journal \<Rightarrow> journal" where
  "jr_commit j = j\<lparr>journalHeight := journalHeight j - 1,
     journalDiff := (journalHeight j - 1, empty_diff) # journalDiff j\<rparr>"

definition jr_checkpoint :: "journal \<Rightarrow> journal" where
  "jr_checkpoint j = j\<lparr>journalHeight := journalHeight j + 1,
     journalDiff := (journalHeight j + 1, empty_diff) # journalDiff j\<rparr>"

type_synonym jparts = "(address \<rightharpoonup> bytes set) \<times> address set \<times> (address \<times> bytes) set"

text \<open>The body of the loop of \<^verbatim>\<open>revert\<close>: remove what a diff recorded.\<close>

definition undo_diff :: "jdiff \<Rightarrow> jparts \<Rightarrow> jparts" where
  "undo_diff d p = (case p of (w, t, sw) \<Rightarrow>
     let w1 = (\<lambda>a. if a \<in> dWarm d then None else w a);
         w2 = (\<lambda>a. case (dSlots d a, w1 a) of (Some del, Some slots) \<Rightarrow> Some (slots - del) | _ \<Rightarrow> w1 a)
     in (w2, t - (dTouched d - {RIPEMD160_ADDRESS}), sw - dWrites d))"

text \<open>
  The loop stops at the first diff below the height, which stays; with no such diff the oldest
  one is undone and stays.
\<close>

fun revert_loop :: "int \<Rightarrow> (int \<times> jdiff) list \<Rightarrow> jparts \<Rightarrow> (int \<times> jdiff) list \<times> jparts" where
  "revert_loop h [] p = ([], p)"
| "revert_loop h ((k, d) # ds) p =
     (if k < h then ((k, d) # ds, p)
      else if ds = [] then ([(k, d)], undo_diff d p)
      else revert_loop h ds (undo_diff d p))"

definition jr_revert :: "journal \<Rightarrow> journal" where
  "jr_revert j =
     (case revert_loop (journalHeight j) (journalDiff j) (warm j, touched j, storageWrites j) of
        (ds, w, t, sw) \<Rightarrow> j\<lparr>warm := w, touched := t, storageWrites := sw, journalDiff := ds,
                            journalHeight := journalHeight j - 1\<rparr>)"

definition clearStorageWrites :: "journal \<Rightarrow> journal" where
  "clearStorageWrites j = j\<lparr>storageWrites := {},
     journalDiff := map (\<lambda>(h, d). (h, d\<lparr>dWrites := {}\<rparr>)) (journalDiff j)\<rparr>"

definition hasStorageWrite :: "address \<Rightarrow> bytes \<Rightarrow> journal \<Rightarrow> bool" where
  "hasStorageWrite a slot j \<longleftrightarrow> (a, slot) \<in> storageWrites j"

definition recordStorageWrite :: "address \<Rightarrow> bytes \<Rightarrow> journal \<Rightarrow> journal" where
  "recordStorageWrite a slot j =
     (if (a, slot) \<in> storageWrites j then j
      else upd_diff (dWrites_update (insert (a, slot))) (j\<lparr>storageWrites := insert (a, slot) (storageWrites j)\<rparr>))"

definition cleanup :: "journal \<Rightarrow> journal" where
  "cleanup j = (cleanJournal j)\<lparr>accessList := None, preimages := None\<rparr>"

text \<open>\<^verbatim>\<open>if (!m.has(k)) m.set(k, new Set())\<close>.\<close>

definition ensure_key :: "address \<Rightarrow> (address \<rightharpoonup> bytes set) \<Rightarrow> (address \<rightharpoonup> bytes set)" where
  "ensure_key a m = (if m a = None then m(a \<mapsto> {}) else m)"

definition add_slot :: "address \<Rightarrow> bytes \<Rightarrow> (address \<rightharpoonup> bytes set) \<Rightarrow> (address \<rightharpoonup> bytes set)" where
  "add_slot a slot m = m(a := map_option (insert slot) (m a))"

definition addAccessedAddress :: "address \<Rightarrow> journal \<Rightarrow> journal" where
  "addAccessedAddress a j = j\<lparr>accessList := map_option (ensure_key a) (accessList j)\<rparr>"

definition addAccessedStorage :: "address \<Rightarrow> bytes \<Rightarrow> journal \<Rightarrow> journal" where
  "addAccessedStorage a slot j =
     (if accessList j = None then j
      else let j1 = addAccessedAddress a j
           in j1\<lparr>accessList := map_option (add_slot a slot) (accessList j1)\<rparr>)"

definition addAlwaysWarmAddress :: "address \<Rightarrow> bool \<Rightarrow> journal \<Rightarrow> journal" where
  "addAlwaysWarmAddress a addToAccessList j =
     (let j1 = j\<lparr>alwaysWarm := ensure_key a (alwaysWarm j)\<rparr>
      in if addToAccessList then j1\<lparr>accessList := map_option (ensure_key a) (accessList j1)\<rparr> else j1)"

definition addAlwaysWarmSlot :: "address \<Rightarrow> bytes \<Rightarrow> bool \<Rightarrow> journal \<Rightarrow> journal" where
  "addAlwaysWarmSlot a slot addToAccessList j =
     (let j1 = addAlwaysWarmAddress a addToAccessList j;
          j2 = j1\<lparr>alwaysWarm := add_slot a slot (alwaysWarm j1)\<rparr>
      in if addToAccessList then j2\<lparr>accessList := map_option (add_slot a slot) (accessList j2)\<rparr> else j2)"

definition isWarmedAddress :: "address \<Rightarrow> journal \<Rightarrow> bool" where
  "isWarmedAddress a j \<longleftrightarrow> warm j a \<noteq> None \<or> alwaysWarm j a \<noteq> None"

definition addWarmedAddress :: "address \<Rightarrow> journal \<Rightarrow> journal" where
  "addWarmedAddress a j =
     (let j1 = (if warm j a = None
                then upd_diff (dWarm_update (insert a)) (j\<lparr>warm := (warm j)(a \<mapsto> {})\<rparr>) else j)
      in j1\<lparr>accessList := map_option (ensure_key a) (accessList j1)\<rparr>)"

definition isWarmedStorage :: "address \<Rightarrow> bytes \<Rightarrow> journal \<Rightarrow> bool" where
  "isWarmedStorage a slot j =
     (let always = (case alwaysWarm j a of None \<Rightarrow> False | Some s \<Rightarrow> slot \<in> s)
      in case warm j a of None \<Rightarrow> always
         | Some slots \<Rightarrow> if slot \<in> slots then True else always)"

definition addWarmedStorage :: "address \<Rightarrow> bytes \<Rightarrow> (journal, unit) op" where
  "addWarmedStorage a slot j =
     (let j1 = (if warm j a = None then addWarmedAddress a j else j);
          slots = (case warm j1 a of None \<Rightarrow> {} | Some s \<Rightarrow> s);
          j2 = (if slot \<notin> slots
                then upd_diff (dSlots_update (\<lambda>m. add_slot a slot (ensure_key a m)))
                       (j1\<lparr>warm := (warm j1)(a \<mapsto> insert slot slots)\<rparr>)
                else j1)
      in case accessList j2 of None \<Rightarrow> (Inr (), j2)
         | Some m \<Rightarrow> if m a = None then throw (HostError ''TypeError'') j2
                    else (Inr (), j2\<lparr>accessList := Some (add_slot a slot m)\<rparr>))"

section \<open>Instance of the checkpoint contract\<close>

text \<open>
  The view leaves the touch of the RIPEMD-160 precompile out, which survives a revert. A saved
  view is what remains after undoing the diffs of the frames above it.
\<close>

definition parts :: "journal \<Rightarrow> jparts" where
  "parts j = (warm j, touched j - {RIPEMD160_ADDRESS}, storageWrites j)"

definition unwind :: "int \<Rightarrow> (int \<times> jdiff) list \<Rightarrow> jparts \<Rightarrow> jparts" where
  "unwind h ds p = fold undo_diff (map snd (takeWhile (\<lambda>(k, _). h \<le> k) ds)) p"

definition jsaved :: "journal \<Rightarrow> jparts list" where
  "jsaved j = map (\<lambda>h. unwind h (journalDiff j) (parts j)) (rev [1..journalHeight j])"

fun heights_ok :: "(int \<times> jdiff) list \<Rightarrow> bool" where
  "heights_ok [] \<longleftrightarrow> False"
| "heights_ok [(k, d)] \<longleftrightarrow> k = 0"
| "heights_ok ((k, d) # (k', d') # ds) \<longleftrightarrow> 0 \<le> k \<and> k \<le> k' + 1 \<and> heights_ok ((k', d') # ds)"

definition access_ok :: "(address \<rightharpoonup> bytes set) \<Rightarrow> (address \<rightharpoonup> bytes set) option \<Rightarrow> bool" where
  "access_ok w al \<longleftrightarrow> (case al of None \<Rightarrow> True | Some m \<Rightarrow> dom w \<subseteq> dom m)"

definition journal_inv :: "journal \<Rightarrow> bool" where
  "journal_inv j \<longleftrightarrow> heights_ok (journalDiff j) \<and> fst (hd (journalDiff j)) = journalHeight j \<and>
     preimages j = None \<and> access_ok (warm j) (accessList j)"

datatype jwrite = JTouch address | JRecord address bytes | JWarm address | JWarmSlot address bytes

fun jwrite_op :: "(bytes \<Rightarrow> bytes) option \<Rightarrow> jwrite \<Rightarrow> (journal, unit) op" where
  "jwrite_op k (JTouch a) j = touchAccount k a j"
| "jwrite_op k (JRecord a slot) j = (Inr (), recordStorageWrite a slot j)"
| "jwrite_op k (JWarm a) j = (Inr (), addWarmedAddress a j)"
| "jwrite_op k (JWarmSlot a slot) j = addWarmedStorage a slot j"

fun jwrite_view :: "jwrite \<Rightarrow> jparts \<Rightarrow> jparts" where
  "jwrite_view (JTouch a) (w, t, sw) = (w, if a = RIPEMD160_ADDRESS then t else insert a t, sw)"
| "jwrite_view (JRecord a slot) (w, t, sw) = (w, t, insert (a, slot) sw)"
| "jwrite_view (JWarm a) (w, t, sw) = (ensure_key a w, t, sw)"
| "jwrite_view (JWarmSlot a slot) (w, t, sw) = (add_slot a slot (ensure_key a w), t, sw)"

lemma undo_empty [simp]: "undo_diff empty_diff p = p"
  by (auto simp: undo_diff_def empty_diff_def Let_def split: prod.splits)

lemma heights_ok_drop: "heights_ok ((k, d) # ds) \<Longrightarrow> ds \<noteq> [] \<Longrightarrow> heights_ok ds \<and> k \<le> fst (hd ds) + 1"
  by (cases ds) auto

lemma heights_ok_nonneg: "heights_ok ((k, d) # ds) \<Longrightarrow> 0 \<le> k"
  by (cases ds) auto

lemma unwind_Cons: "h \<le> k \<Longrightarrow> unwind h ((k, d) # ds) p = unwind h ds (undo_diff d p)"
  by (simp add: unwind_def)

lemma unwind_stop: "k < h \<Longrightarrow> unwind h ((k, d) # ds) p = p"
  by (simp add: unwind_def)

text \<open>What the loop of \<^verbatim>\<open>revert\<close> computes on a well-formed list at a positive height.\<close>

lemma revert_loop_unwind:
  assumes "heights_ok ds" "1 \<le> h" "h \<le> fst (hd ds)"
  shows "\<exists>ds'. revert_loop h ds p = (ds', unwind h ds p) \<and> heights_ok ds' \<and> fst (hd ds') = h - 1 \<and>
    (\<forall>k q. k < h \<longrightarrow> unwind k ds q = unwind k ds' (unwind h ds q))"
  using assms
proof (induction h ds p rule: revert_loop.induct)
  case (2 h k d ds p)
  then have ne: "ds \<noteq> []" by (cases ds) auto
  with 2 have ok: "heights_ok ds" "k \<le> fst (hd ds) + 1" "h \<le> k" using heights_ok_drop by auto
  show ?case
  proof (cases "h \<le> fst (hd ds)")
    case True
    with 2 ne ok obtain ds' where "revert_loop h ds (undo_diff d p) = (ds', unwind h ds (undo_diff d p))"
      "heights_ok ds'" "fst (hd ds') = h - 1"
      "\<forall>k q. k < h \<longrightarrow> unwind k ds q = unwind k ds' (unwind h ds q)" by force
    with ok ne show ?thesis by (auto simp: unwind_Cons simp del: split_paired_All)
  next
    case False
    obtain e es where ds: "ds = e # es" using ne by (cases ds) auto
    with False ok have h: "fst e = h - 1" by auto
    have stop: "revert_loop h ds q = (ds, q)" for q using False ds by (cases e) simp
    have "unwind h ds q = q" for q using False ds by (cases e) (simp add: unwind_stop)
    with stop h ds ok ne show ?thesis by (auto simp: unwind_Cons simp del: split_paired_All)
  qed
qed simp

text \<open>Undoing a diff that recorded one more addition forgets the addition.\<close>

definition undoes :: "(jdiff \<Rightarrow> jdiff) \<Rightarrow> jparts \<Rightarrow> jparts \<Rightarrow> bool" where
  "undoes f p q \<longleftrightarrow> (\<forall>d. undo_diff (f d) q = undo_diff d p)"

lemma undoes_touch: "a \<notin> t \<Longrightarrow> a \<noteq> RIPEMD160_ADDRESS \<Longrightarrow>
    undoes (dTouched_update (insert a)) (w, t, sw) (w, insert a t, sw)"
  by (auto simp: undoes_def undo_diff_def Let_def)

lemma undoes_touch_ripemd: "undoes (dTouched_update (insert RIPEMD160_ADDRESS)) p p"
  by (auto simp: undoes_def undo_diff_def Let_def split: prod.splits)

lemma undoes_record: "x \<notin> sw \<Longrightarrow> undoes (dWrites_update (insert x)) (w, t, sw) (w, t, insert x sw)"
  by (auto simp: undoes_def undo_diff_def Let_def)

lemma undoes_warm: "w a = None \<Longrightarrow> undoes (dWarm_update (insert a)) (w, t, sw) (w(a \<mapsto> {}), t, sw)"
  by (auto simp: undoes_def undo_diff_def Let_def fun_eq_iff split: option.splits)

lemma undoes_slot:
  assumes "w a = Some slots" "x \<notin> slots"
  shows "undoes (dSlots_update (\<lambda>m. add_slot a x (ensure_key a m))) (w, t, sw) (w(a \<mapsto> insert x slots), t, sw)"
  unfolding undoes_def
proof
  fix d :: jdiff
  have "(case (add_slot a x (ensure_key a (dSlots d)) b, if b \<in> dWarm d then None else (w(a \<mapsto> insert x slots)) b) of
        (Some del, Some s) \<Rightarrow> Some (s - del) | _ \<Rightarrow> if b \<in> dWarm d then None else (w(a \<mapsto> insert x slots)) b) =
      (case (dSlots d b, if b \<in> dWarm d then None else w b) of
        (Some del, Some s) \<Rightarrow> Some (s - del) | _ \<Rightarrow> if b \<in> dWarm d then None else w b)" for b
    using assms by (cases "b = a"; cases "dSlots d b") (auto simp: add_slot_def ensure_key_def split: option.splits)
  then show "undo_diff (dSlots_update (\<lambda>m. add_slot a x (ensure_key a m)) d) (w(a \<mapsto> insert x slots), t, sw) =
      undo_diff d (w, t, sw)"
    by (simp add: undo_diff_def Let_def)
qed

text \<open>A write that updates the newest diff accordingly keeps every saved view.\<close>

lemma upd_diff_saved:
  assumes inv: "journal_inv j" and u: "undoes f (parts j) (parts j1)"
    and same: "journalDiff j1 = journalDiff j" "journalHeight j1 = journalHeight j"
      "preimages j1 = None" "access_ok (warm j1) (accessList j1)"
  shows "journal_inv (upd_diff f j1) \<and> jsaved (upd_diff f j1) = jsaved j \<and> parts (upd_diff f j1) = parts j1"
proof -
  obtain h d ds where ds: "journalDiff j = (h, d) # ds"
    using inv by (cases "journalDiff j") (auto simp: journal_inv_def)
  have eq: "upd_diff f j1 = j1\<lparr>journalDiff := (h, f d) # ds\<rparr>" by (simp add: upd_diff_def same ds)
  have "heights_ok ((h, f d) # ds)" using inv ds by (cases ds) (auto simp: journal_inv_def)
  moreover have p: "parts (upd_diff f j1) = parts j1" by (simp add: eq parts_def)
  moreover have "unwind k ((h, f d) # ds) (parts j1) = unwind k ((h, d) # ds) (parts j)" if "k \<le> h" for k
    using that u by (simp add: unwind_Cons undoes_def)
  then have "jsaved (upd_diff f j1) = jsaved j"
    using inv ds p by (auto simp: jsaved_def eq same journal_inv_def)
  ultimately show ?thesis
    using inv ds same by (simp add: journal_inv_def eq split: option.splits)
qed

lemma accessList_saved:
  "jsaved (j\<lparr>accessList := m\<rparr>) = jsaved j" "parts (j\<lparr>accessList := m\<rparr>) = parts j"
  by (simp_all add: jsaved_def parts_def)

lemma journal_inv_access:
  assumes "journal_inv j"
  shows "preimages j = None" "access_ok (warm j) (accessList j)"
  using assms by (simp_all add: journal_inv_def)

lemma touch_law:
  assumes inv: "journal_inv j"
  shows "\<exists>j'. touchAccount k a j = (Inr (), j') \<and> journal_inv j' \<and>
    parts j' = jwrite_view (JTouch a) (parts j) \<and> jsaved j' = jsaved j"
proof (cases "a \<in> touched j")
  case True
  then show ?thesis
    using inv by (auto simp: touchAccount_def journal_inv_def parts_def)
next
  case False
  let ?j1 = "j\<lparr>touched := insert a (touched j)\<rparr>" and ?f = "dTouched_update (insert a)"
  have run: "touchAccount k a j = (Inr (), upd_diff ?f ?j1)"
    using inv False by (simp add: touchAccount_def journal_inv_def)
  have "undoes ?f (parts j) (parts ?j1)"
    using undoes_touch [of a "touched j - {RIPEMD160_ADDRESS}" "warm j" "storageWrites j"]
      undoes_touch_ripemd [of "parts j"] False
    by (cases "a = RIPEMD160_ADDRESS") (auto simp: parts_def insert_Diff_if)
  moreover have "parts ?j1 = jwrite_view (JTouch a) (parts j)" by (auto simp: parts_def)
  ultimately show ?thesis
    using upd_diff_saved [OF inv, of ?f ?j1] journal_inv_access [OF inv] run by simp
qed

lemma record_law:
  assumes inv: "journal_inv j"
  shows "journal_inv (recordStorageWrite a x j) \<and>
    parts (recordStorageWrite a x j) = jwrite_view (JRecord a x) (parts j) \<and>
    jsaved (recordStorageWrite a x j) = jsaved j"
proof (cases "(a, x) \<in> storageWrites j")
  case True
  then show ?thesis using inv by (auto simp: recordStorageWrite_def parts_def)
next
  case False
  let ?j1 = "j\<lparr>storageWrites := insert (a, x) (storageWrites j)\<rparr>"
  have "undoes (dWrites_update (insert (a, x))) (parts j) (parts ?j1)"
    using undoes_record [OF False] by (simp add: parts_def)
  moreover have "parts ?j1 = jwrite_view (JRecord a x) (parts j)" by (simp add: parts_def)
  ultimately show ?thesis
    using upd_diff_saved [OF inv, of "dWrites_update (insert (a, x))" ?j1] journal_inv_access [OF inv] False
    by (simp add: recordStorageWrite_def)
qed

lemma warm_law:
  assumes inv: "journal_inv j"
  shows "journal_inv (addWarmedAddress a j) \<and>
    parts (addWarmedAddress a j) = jwrite_view (JWarm a) (parts j) \<and>
    jsaved (addWarmedAddress a j) = jsaved j \<and>
    (case accessList (addWarmedAddress a j) of None \<Rightarrow> True | Some m \<Rightarrow> m a \<noteq> None)"
proof -
  define al where "al = map_option (ensure_key a) (accessList j)"
  have al: "case al of None \<Rightarrow> True | Some m \<Rightarrow> insert a (dom (warm j)) \<subseteq> dom m"
    using inv by (auto simp: al_def journal_inv_def access_ok_def ensure_key_def split: option.splits)
  show ?thesis
  proof (cases "warm j a")
    case None
    let ?j1 = "j\<lparr>warm := (warm j)(a \<mapsto> {}), accessList := al\<rparr>" and ?f = "dWarm_update (insert a)"
    have "upd_diff ?f (j\<lparr>warm := (warm j)(a \<mapsto> {})\<rparr>)\<lparr>accessList := al\<rparr> = upd_diff ?f ?j1"
      "accessList (upd_diff ?f (j\<lparr>warm := (warm j)(a \<mapsto> {})\<rparr>)) = accessList j"
      "accessList (upd_diff ?f ?j1) = al"
      by (auto simp: upd_diff_def split: list.splits)
    then have run: "addWarmedAddress a j = upd_diff ?f ?j1" "accessList (addWarmedAddress a j) = al"
      using None by (simp_all add: addWarmedAddress_def al_def)
    have "undoes ?f (parts j) (parts ?j1)" using undoes_warm [of "warm j" a] None by (simp add: parts_def)
    moreover have "access_ok (warm ?j1) (accessList ?j1)" using al by (auto simp: access_ok_def split: option.splits)
    moreover have "parts ?j1 = jwrite_view (JWarm a) (parts j)" using None by (simp add: parts_def ensure_key_def)
    ultimately show ?thesis
      using upd_diff_saved [OF inv, of ?f ?j1] journal_inv_access(1) [OF inv] al run
      by (auto split: option.splits)
  next
    case (Some slots)
    then have run: "addWarmedAddress a j = j\<lparr>accessList := al\<rparr>" by (simp add: addWarmedAddress_def al_def)
    show ?thesis
      using inv al Some unfolding run
      by (auto simp: journal_inv_def access_ok_def parts_def jsaved_def ensure_key_def domIff split: option.splits)
  qed
qed

lemma warm_slot_present:
  assumes inv: "journal_inv j" and w: "warm j a = Some slots"
  shows "\<exists>j'. addWarmedStorage a x j = (Inr (), j') \<and> journal_inv j' \<and>
    parts j' = jwrite_view (JWarmSlot a x) (parts j) \<and> jsaved j' = jsaved j"
proof -
  let ?f = "dSlots_update (\<lambda>m. add_slot a x (ensure_key a m))"
  define j1 where "j1 = j\<lparr>warm := (warm j)(a \<mapsto> insert x slots)\<rparr>"
  define j2 where "j2 = (if x \<notin> slots then upd_diff ?f j1 else j)"
  have al: "accessList j2 = accessList j" "preimages j2 = None"
    using journal_inv_access(1) [OF inv] by (auto simp: j2_def j1_def upd_diff_def split: list.splits)
  have j2: "journal_inv j2 \<and> jsaved j2 = jsaved j \<and> parts j2 = jwrite_view (JWarmSlot a x) (parts j)"
  proof (cases "x \<in> slots")
    case True
    with w have "add_slot a x (ensure_key a (warm j)) = warm j"
      by (auto simp: add_slot_def ensure_key_def fun_eq_iff insert_absorb)
    with True inv show ?thesis by (simp add: j2_def parts_def)
  next
    case False
    have "undoes ?f (parts j) (parts j1)" using undoes_slot [of "warm j" a slots x] w False by (simp add: parts_def j1_def)
    moreover have "access_ok (warm j1) (accessList j1)"
      using journal_inv_access(2) [OF inv] w by (auto simp: access_ok_def j1_def split: option.splits)
    moreover have "parts j1 = jwrite_view (JWarmSlot a x) (parts j)"
      using w by (simp add: parts_def j1_def add_slot_def ensure_key_def)
    ultimately show ?thesis
      using upd_diff_saved [OF inv, of ?f j1] journal_inv_access(1) [OF inv] False by (simp add: j2_def j1_def)
  qed
  have run: "addWarmedStorage a x j = (case accessList j of None \<Rightarrow> (Inr (), j2)
      | Some m \<Rightarrow> if m a = None then throw (HostError ''TypeError'') j2
                 else (Inr (), j2\<lparr>accessList := Some (add_slot a x m)\<rparr>))"
  proof -
    have "(if warm j a = None then addWarmedAddress a j else j) = j" using w by simp
    then show ?thesis
      unfolding al(1) [symmetric] addWarmedStorage_def Let_def j2_def j1_def by (simp only: w option.case)
  qed
  show ?thesis
  proof (cases "accessList j")
    case None
    with run j2 show ?thesis by simp
  next
    case (Some m)
    have "m a \<noteq> None" using journal_inv_access(2) [OF inv] Some w by (auto simp: access_ok_def)
    moreover have "dom (add_slot a x m) = dom m" by (auto simp: add_slot_def split: if_splits)
    ultimately show ?thesis
      using run j2 Some al by (auto simp: accessList_saved journal_inv_def access_ok_def)
  qed
qed

lemma warm_slot_law:
  assumes inv: "journal_inv j"
  shows "\<exists>j'. addWarmedStorage a x j = (Inr (), j') \<and> journal_inv j' \<and>
    parts j' = jwrite_view (JWarmSlot a x) (parts j) \<and> jsaved j' = jsaved j"
proof (cases "warm j a")
  case (Some slots)
  with inv show ?thesis by (rule warm_slot_present)
next
  case None
  let ?j = "addWarmedAddress a j"
  have W: "journal_inv ?j" "parts ?j = jwrite_view (JWarm a) (parts j)" "jsaved ?j = jsaved j"
    using warm_law [OF inv, of a] by simp_all
  have s: "warm ?j a = Some {}" using W(2) None by (simp add: parts_def ensure_key_def)
  have "addWarmedStorage a x j = addWarmedStorage a x ?j"
    using None s by (simp add: addWarmedStorage_def)
  moreover have "jwrite_view (JWarmSlot a x) (jwrite_view (JWarm a) (parts j)) = jwrite_view (JWarmSlot a x) (parts j)"
    by (simp add: parts_def ensure_key_def)
  ultimately show ?thesis using warm_slot_present [OF W(1) s, of x] W(2,3) by simp
qed

lemma jr_checkpoint_law:
  assumes inv: "journal_inv j"
  shows "journal_inv (jr_checkpoint j)" "parts (jr_checkpoint j) = parts j"
    "jsaved (jr_checkpoint j) = parts j # jsaved j"
proof -
  obtain h d ds where ds: "journalDiff j = (h, d) # ds" and h: "journalHeight j = h" "0 \<le> h"
    using inv heights_ok_nonneg by (cases "journalDiff j") (fastforce simp: journal_inv_def)+
  show "journal_inv (jr_checkpoint j)" using inv ds h by (simp add: journal_inv_def jr_checkpoint_def)
  show p: "parts (jr_checkpoint j) = parts j" by (simp add: parts_def jr_checkpoint_def)
  have "rev [1..h + 1] = (h + 1) # rev [1..h]" using h(2) by (simp add: upto_rec2 [of 1 "h + 1"])
  moreover have "unwind k ((h + 1, empty_diff) # (h, d) # ds) q = unwind k ((h, d) # ds) q" if "k \<le> h" for k q
    using that by (simp add: unwind_Cons)
  ultimately show "jsaved (jr_checkpoint j) = parts j # jsaved j"
    using p by (auto simp: jsaved_def jr_checkpoint_def ds h unwind_Cons unwind_stop)
qed

lemma jr_commit_law:
  assumes inv: "journal_inv j" and sv: "jsaved j = v # vs"
  shows "journal_inv (jr_commit j)" "parts (jr_commit j) = parts j" "jsaved (jr_commit j) = vs"
proof -
  obtain h d ds where ds: "journalDiff j = (h, d) # ds" and h: "journalHeight j = h"
    using inv by (cases "journalDiff j") (auto simp: journal_inv_def)
  have h1: "1 \<le> h" using sv h by (cases "1 \<le> h") (auto simp: jsaved_def)
  show "journal_inv (jr_commit j)" using inv ds h h1 by (simp add: journal_inv_def jr_commit_def)
  show p: "parts (jr_commit j) = parts j" by (simp add: parts_def jr_commit_def)
  have "rev [1..h] = h # rev [1..h - 1]" using h1 by (simp add: upto_rec2 [of 1 h])
  moreover have "unwind k ((h - 1, empty_diff) # (h, d) # ds) (parts j) = unwind k ((h, d) # ds) (parts j)" if "k \<le> h - 1" for k
    using that by (simp add: unwind_Cons)
  ultimately show "jsaved (jr_commit j) = vs"
    using p sv by (auto simp: jsaved_def jr_commit_def ds h)
qed

lemma undo_diff_ripemd:
  "undo_diff d (w, t - {RIPEMD160_ADDRESS}, sw) =
   (case undo_diff d (w, t, sw) of (w', t', sw') \<Rightarrow> (w', t' - {RIPEMD160_ADDRESS}, sw'))"
  by (auto simp: undo_diff_def Let_def)

lemma revert_loop_ripemd:
  "revert_loop h ds (w, t - {RIPEMD160_ADDRESS}, sw) =
   (case revert_loop h ds (w, t, sw) of (ds', w', t', sw') \<Rightarrow> (ds', w', t' - {RIPEMD160_ADDRESS}, sw'))"
proof (induction ds arbitrary: w t sw)
  case (Cons x ds)
  obtain k d where x: "x = (k, d)" by (cases x)
  obtain w' t' sw' where u: "undo_diff d (w, t, sw) = (w', t', sw')" by (cases "undo_diff d (w, t, sw)")
  then have "undo_diff d (w, t - {RIPEMD160_ADDRESS}, sw) = (w', t' - {RIPEMD160_ADDRESS}, sw')"
    by (simp add: undo_diff_ripemd)
  with Cons.IH [of w' t' sw'] u show ?case by (simp add: x)
qed simp

lemma undo_diff_dom: "undo_diff d (w, t, sw) = (w', t', sw') \<Longrightarrow> dom w' \<subseteq> dom w"
  by (auto simp: undo_diff_def Let_def split: if_splits option.splits)

lemma revert_loop_dom: "revert_loop h ds (w, t, sw) = (ds', w', t', sw') \<Longrightarrow> dom w' \<subseteq> dom w"
proof (induction h ds "(w, t, sw)" arbitrary: w t sw rule: revert_loop.induct)
  case (2 h k d ds)
  obtain w1 t1 sw1 where u: "undo_diff d (w, t, sw) = (w1, t1, sw1)" by (cases "undo_diff d (w, t, sw)")
  then have "dom w1 \<subseteq> dom w" by (rule undo_diff_dom)
  moreover have "k < h \<or> ds = [] \<or> dom w' \<subseteq> dom w1" using 2 u by (auto split: if_splits)
  ultimately show ?case using 2 u by (auto split: if_splits)
qed simp

lemma jr_revert_law:
  assumes inv: "journal_inv j" and sv: "jsaved j = v # vs"
  shows "journal_inv (jr_revert j)" "parts (jr_revert j) = v" "jsaved (jr_revert j) = vs"
proof -
  let ?H = "journalHeight j"
  have H: "1 \<le> ?H" using sv by (cases "1 \<le> ?H") (auto simp: jsaved_def)
  have ok: "heights_ok (journalDiff j)" "?H \<le> fst (hd (journalDiff j))"
    using inv by (simp_all add: journal_inv_def)
  obtain ds where ds: "revert_loop ?H (journalDiff j) (parts j) = (ds, unwind ?H (journalDiff j) (parts j))"
    "heights_ok ds" "fst (hd ds) = ?H - 1"
    "\<forall>k q. k < ?H \<longrightarrow> unwind k (journalDiff j) q = unwind k ds (unwind ?H (journalDiff j) q)"
    using revert_loop_unwind [OF ok(1) H ok(2)] by blast
  obtain w t sw where r: "revert_loop ?H (journalDiff j) (warm j, touched j, storageWrites j) = (ds, w, t, sw)"
    and v: "unwind ?H (journalDiff j) (parts j) = (w, t - {RIPEMD160_ADDRESS}, sw)"
    using ds(1) unfolding parts_def revert_loop_ripemd
    by (cases "revert_loop ?H (journalDiff j) (warm j, touched j, storageWrites j)") auto
  have j': "jr_revert j = j\<lparr>warm := w, touched := t, storageWrites := sw, journalDiff := ds, journalHeight := ?H - 1\<rparr>"
    by (simp add: jr_revert_def r)
  have "rev [1..?H] = ?H # rev [1..?H - 1]" using H by (simp add: upto_rec2 [of 1 ?H])
  with sv have hd: "v = unwind ?H (journalDiff j) (parts j)"
    and tl: "vs = map (\<lambda>h. unwind h (journalDiff j) (parts j)) (rev [1..?H - 1])"
    by (simp_all add: jsaved_def)
  have p: "parts (jr_revert j) = unwind ?H (journalDiff j) (parts j)" by (simp add: j' parts_def v [unfolded parts_def])
  then show "parts (jr_revert j) = v" by (simp add: hd)
  show "jsaved (jr_revert j) = vs"
  proof -
    have "unwind k ds (unwind ?H (journalDiff j) (parts j)) = unwind k (journalDiff j) (parts j)" if "k < ?H" for k
      using ds(4) that by (simp del: split_paired_All)
    then show ?thesis unfolding jsaved_def p tl by (auto simp: j')
  qed
  show "journal_inv (jr_revert j)"
    using inv ds(2,3) revert_loop_dom [OF r] by (auto simp: journal_inv_def access_ok_def j' split: option.splits)
qed

interpretation jrnl: checkpointed journal_inv parts jsaved "\<lambda>j. (Inr (), jr_checkpoint j)"
  "\<lambda>j. (Inr (), jr_commit j)" "\<lambda>j. (Inr (), jr_revert j)" "\<lambda>_. True" "jwrite_op k" jwrite_view for k
proof unfold_locales
  fix j :: journal and v vs w
  assume inv: "journal_inv j"
  show "\<exists>s'. (Inr (), jr_checkpoint j) = (Inr (), s') \<and> journal_inv s' \<and> parts s' = parts j \<and>
      jsaved s' = parts j # jsaved j"
    using jr_checkpoint_law [OF inv] by simp
  show "\<exists>s'. jwrite_op k w j = (Inr (), s') \<and> journal_inv s' \<and>
      parts s' = jwrite_view w (parts j) \<and> jsaved s' = jsaved j"
    by (cases w) (use touch_law [OF inv] record_law [OF inv] warm_law [OF inv] warm_slot_law [OF inv] in simp_all)
  { assume sv: "jsaved j = v # vs"
    show "\<exists>s'. (Inr (), jr_commit j) = (Inr (), s') \<and> journal_inv s' \<and> parts s' = parts j \<and> jsaved s' = vs"
      using jr_commit_law [OF inv sv] by simp
    show "\<exists>s'. (Inr (), jr_revert j) = (Inr (), s') \<and> journal_inv s' \<and> parts s' = v \<and> jsaved s' = vs"
      using jr_revert_law [OF inv sv] by simp }
qed

lemma journal_inv_new: "journal_inv new_journal"
  by (simp add: journal_inv_def new_journal_def access_ok_def)

end
