(* ===== verification/Transient.thy ===== *)
theory Transient
  imports Checkpoints
begin

text \<open>
  EIP-1153 transient storage, \<^verbatim>\<open>packages/tvm/src/transientStorage.ts\<close>: a store with an undo
  journal and the journal lengths of the open call frames. Both arrays are lists here whose
  head is the element pushed last. The class is an instance of the checkpoint contract: undoing
  the entries above a saved length gives back the store of that moment.
\<close>

section \<open>The class\<close>

type_synonym tstore = "address \<rightharpoonup> (bytes \<rightharpoonup> bytes)"
type_synonym tview = "address \<Rightarrow> bytes \<Rightarrow> bytes"

record transient =
  tstorage :: tstore
  changeJournal :: "(address \<times> bytes \<times> bytes) list"
  indices :: "nat list"

definition new_transient :: transient where
  "new_transient = \<lparr>tstorage = Map.empty, changeJournal = [], indices = [0]\<rparr>"

definition store_get :: "tstore \<Rightarrow> address \<Rightarrow> bytes \<Rightarrow> bytes" where
  "store_get st addr key =
     (case st addr of None \<Rightarrow> zeros 32
      | Some m \<Rightarrow> (case m key of None \<Rightarrow> zeros 32 | Some value \<Rightarrow> value))"

definition transient_get :: "address \<Rightarrow> bytes \<Rightarrow> transient \<Rightarrow> bytes" where
  "transient_get addr key s = store_get (tstorage s) addr key"

definition transient_put :: "address \<Rightarrow> bytes \<Rightarrow> bytes \<Rightarrow> (transient, unit) op" where
  "transient_put addr key value s =
     (if length key \<noteq> 32
      then throw (HostError ''Transient storage key must be 32 bytes long'') s
      else if length value > 32
      then throw (HostError ''Transient storage value cannot be longer than 32 bytes'') s
      else let m = (case tstorage s addr of None \<Rightarrow> Map.empty | Some m \<Rightarrow> m);
               prevValue = (case m key of None \<Rightarrow> zeros 32 | Some v \<Rightarrow> v)
           in (Inr (), s\<lparr>tstorage := (tstorage s)(addr \<mapsto> m(key \<mapsto> value)),
                        changeJournal := (addr, key, prevValue) # changeJournal s\<rparr>))"

definition transient_commit :: "(transient, unit) op" where
  "transient_commit s =
     (case indices s of [] \<Rightarrow> throw (HostError ''Nothing to commit'') s
      | _ # rest \<Rightarrow> (Inr (), s\<lparr>indices := rest\<rparr>))"

definition transient_checkpoint :: "(transient, unit) op" where
  "transient_checkpoint s = (Inr (), s\<lparr>indices := length (changeJournal s) # indices s\<rparr>)"

text \<open>The loop of \<^verbatim>\<open>revert\<close> over the entries above the checkpoint, newest first.\<close>

fun undo :: "(address \<times> bytes \<times> bytes) list \<Rightarrow> (tstore, unit) op" where
  "undo [] st = (Inr (), st)"
| "undo ((addr, key, prevValue) # es) st =
     (case st addr of None \<Rightarrow> throw (HostError ''TypeError'') st
      | Some m \<Rightarrow> undo es (st(addr \<mapsto> m(key \<mapsto> prevValue))))"

definition transient_revert :: "(transient, unit) op" where
  "transient_revert s =
     (case indices s of [] \<Rightarrow> throw (HostError ''Nothing to revert'') s
      | lastCheckpoint # rest \<Rightarrow>
          let k = length (changeJournal s) - lastCheckpoint
          in (case undo (take k (changeJournal s)) (tstorage s) of
                (Inl e, st) \<Rightarrow> (Inl e, s\<lparr>indices := rest, tstorage := st\<rparr>)
              | (Inr _, st) \<Rightarrow> (Inr (), s\<lparr>indices := rest, tstorage := st,
                                         changeJournal := drop k (changeJournal s)\<rparr>)))"

definition transient_clear :: "transient \<Rightarrow> transient" where
  "transient_clear s = s\<lparr>tstorage := Map.empty, changeJournal := []\<rparr>"

section \<open>Instance of the checkpoint contract\<close>

definition tview :: "transient \<Rightarrow> tview" where
  "tview s = store_get (tstorage s)"

definition view_put :: "address \<times> bytes \<times> bytes \<Rightarrow> tview \<Rightarrow> tview" where
  "view_put e v = (case e of (addr, key, value) \<Rightarrow> v(addr := (v addr)(key := value)))"

definition tsaved :: "transient \<Rightarrow> tview list" where
  "tsaved s = map (\<lambda>i. fold view_put (take (length (changeJournal s) - i) (changeJournal s)) (tview s))
     (indices s)"

definition transient_inv :: "transient \<Rightarrow> bool" where
  "transient_inv s \<longleftrightarrow> (\<forall>(addr, _) \<in> set (changeJournal s). tstorage s addr \<noteq> None) \<and>
     sorted_wrt (\<ge>) (length (changeJournal s) # indices s)"

definition put_ok :: "address \<times> bytes \<times> bytes \<Rightarrow> bool" where
  "put_ok e \<longleftrightarrow> (case e of (addr, key, value) \<Rightarrow> length key = 32 \<and> length value \<le> 32)"

definition put_entry :: "address \<times> bytes \<times> bytes \<Rightarrow> (transient, unit) op" where
  "put_entry e = (case e of (addr, key, value) \<Rightarrow> transient_put addr key value)"

lemma store_get_update:
  "store_get (st(addr \<mapsto> (case st addr of None \<Rightarrow> Map.empty | Some m \<Rightarrow> m)(key \<mapsto> value))) =
   view_put (addr, key, value) (store_get st)"
  by (intro ext) (simp add: store_get_def view_put_def split: option.splits)

lemma undo_ok:
  assumes "\<forall>(addr, _) \<in> set es. st addr \<noteq> None"
  shows "\<exists>st'. undo es st = (Inr (), st') \<and> store_get st' = fold view_put es (store_get st) \<and>
    dom st' = dom st"
  using assms
proof (induction es arbitrary: st)
  case (Cons e es)
  obtain addr key p where e: "e = (addr, key, p)" by (cases e)
  with Cons.prems obtain m where m: "st addr = Some m" by auto
  define st1 where "st1 = st(addr \<mapsto> m(key \<mapsto> p))"
  have "\<forall>(a, _) \<in> set es. st1 a \<noteq> None" using Cons.prems by (auto simp: st1_def)
  moreover have "undo (e # es) st = undo es st1" by (simp add: e m st1_def)
  moreover have "store_get st1 = view_put e (store_get st)" "dom st1 = dom st"
    using store_get_update [of st addr key p] m by (auto simp: e st1_def)
  ultimately show ?case using Cons.IH [of st1] by simp
qed simp

lemma view_put_undo: "view_put (a, k, v a k) (view_put (a, k, x) v) = v"
  by (auto simp: view_put_def)

lemma put_entry_law:
  assumes inv: "transient_inv s" and ok: "put_ok w"
  shows "\<exists>s'. put_entry w s = (Inr (), s') \<and> transient_inv s' \<and>
    tview s' = view_put w (tview s) \<and> tsaved s' = tsaved s"
proof -
  obtain a k x where w: "w = (a, k, x)" by (cases w)
  define m where "m = (case tstorage s a of None \<Rightarrow> Map.empty | Some m \<Rightarrow> m)"
  define s' where "s' = s\<lparr>tstorage := (tstorage s)(a \<mapsto> m(k \<mapsto> x)),
    changeJournal := (a, k, tview s a k) # changeJournal s\<rparr>"
  have "(case m k of None \<Rightarrow> zeros 32 | Some v \<Rightarrow> v) = tview s a k"
    by (simp add: m_def tview_def store_get_def split: option.splits)
  then have run: "put_entry w s = (Inr (), s')"
    using ok by (simp add: w put_entry_def put_ok_def transient_put_def m_def [symmetric] s'_def Let_def)
  have view: "tview s' = view_put w (tview s)"
    unfolding w by (simp add: tview_def s'_def m_def store_get_update)
  have inv': "transient_inv s'"
    using inv by (auto simp: transient_inv_def s'_def le_Suc_eq)
  have "tsaved s' = tsaved s"
    unfolding tsaved_def
  proof (rule map_cong)
    show "indices s' = indices s" by (simp add: s'_def)
    fix i assume "i \<in> set (indices s)"
    then have "i \<le> length (changeJournal s)" using inv by (auto simp: transient_inv_def)
    then show "fold view_put (take (length (changeJournal s') - i) (changeJournal s')) (tview s') =
        fold view_put (take (length (changeJournal s) - i) (changeJournal s)) (tview s)"
      using view_put_undo [of a k "tview s" x] by (simp add: s'_def Suc_diff_le view [unfolded s'_def] w)
  qed
  with run view inv' show ?thesis by blast
qed

lemma revert_entry_law:
  assumes inv: "transient_inv s" and sv: "tsaved s = v # vs"
  shows "\<exists>s'. transient_revert s = (Inr (), s') \<and> transient_inv s' \<and> tview s' = v \<and> tsaved s' = vs"
proof -
  obtain i rest where i: "indices s = i # rest" using sv by (auto simp: tsaved_def)
  let ?j = "changeJournal s"
  define k where "k = length ?j - i"
  have sorted: "i \<le> length ?j" "\<forall>x \<in> set rest. x \<le> i" "sorted_wrt (\<ge>) rest"
    using inv i by (auto simp: transient_inv_def)
  have "\<forall>(addr, _) \<in> set (take k ?j). tstorage s addr \<noteq> None"
    using inv by (auto simp: transient_inv_def dest!: in_set_takeD)
  from undo_ok [OF this] obtain st where st: "undo (take k ?j) (tstorage s) = (Inr (), st)"
    "store_get st = fold view_put (take k ?j) (tview s)" "dom st = dom (tstorage s)"
    by (auto simp: tview_def)
  define s' where "s' = s\<lparr>indices := rest, tstorage := st, changeJournal := drop k ?j\<rparr>"
  have run: "transient_revert s = (Inr (), s')"
    using st(1) by (simp add: transient_revert_def i k_def s'_def Let_def)
  have v: "tview s' = v" using sv i by (simp add: tsaved_def tview_def s'_def st(2)) (simp add: tview_def k_def)
  have "transient_inv s'"
    using inv sorted st(3) by (auto simp: transient_inv_def s'_def k_def domIff dest!: in_set_dropD)
  moreover have "tsaved s' = vs"
  proof -
    have "vs = map (\<lambda>x. fold view_put (take (length ?j - x) ?j) (tview s)) rest"
      using sv i by (simp add: tsaved_def)
    also have "\<dots> = tsaved s'"
      unfolding tsaved_def
    proof (rule map_cong)
      show r: "rest = indices s'" by (simp add: s'_def)
      fix x assume "x \<in> set (indices s')"
      with r sorted have "length ?j - x = k + (length (drop k ?j) - x)" by (auto simp: k_def)
      then have "take (length ?j - x) ?j = take k ?j @ take (length (drop k ?j) - x) (drop k ?j)"
        by (metis take_add)
      then show "fold view_put (take (length ?j - x) ?j) (tview s) =
          fold view_put (take (length (changeJournal s') - x) (changeJournal s')) (tview s')"
        using st(2) by (simp add: s'_def tview_def)
    qed
    finally show ?thesis by simp
  qed
  ultimately show ?thesis using run v by blast
qed

interpretation tstorage: checkpointed transient_inv tview tsaved transient_checkpoint
  transient_commit transient_revert put_ok put_entry view_put
proof unfold_locales
  fix s :: transient and v vs w
  assume inv: "transient_inv s"
  show "\<exists>s'. transient_checkpoint s = (Inr (), s') \<and> transient_inv s' \<and> tview s' = tview s \<and>
      tsaved s' = tview s # tsaved s"
    using inv by (auto simp: transient_checkpoint_def transient_inv_def tview_def tsaved_def)
  { assume "tsaved s = v # vs"
    with inv show "\<exists>s'. transient_commit s = (Inr (), s') \<and> transient_inv s' \<and> tview s' = tview s \<and>
        tsaved s' = vs"
      by (auto simp: transient_commit_def transient_inv_def tview_def tsaved_def split: list.splits) }
  { assume "tsaved s = v # vs"
    with inv show "\<exists>s'. transient_revert s = (Inr (), s') \<and> transient_inv s' \<and> tview s' = v \<and>
        tsaved s' = vs" by (rule revert_entry_law) }
  { assume "put_ok w"
    with inv show "\<exists>s'. put_entry w s = (Inr (), s') \<and> transient_inv s' \<and>
        tview s' = view_put w (tview s) \<and> tsaved s' = tsaved s" by (rule put_entry_law) }
qed

lemma transient_inv_new: "transient_inv new_transient"
  by (simp add: transient_inv_def new_transient_def)

lemma transient_clear_get: "transient_get a k (transient_clear s) = zeros 32"
  by (simp add: transient_get_def transient_clear_def store_get_def)

lemma length_tsaved [simp]: "length (tsaved s) = length (indices s)"
  by (simp add: tsaved_def)

lemma transient_indices:
  "transient_checkpoint s = (Inr (), s') \<Longrightarrow> indices s' = length (changeJournal s) # indices s"
  "transient_commit s = (Inr (), s') \<Longrightarrow> indices s' = tl (indices s)"
  "transient_revert s = (Inr (), s') \<Longrightarrow> indices s' = tl (indices s)"
  "put_entry e s = (Inr (), s') \<Longrightarrow> indices s' = indices s"
  by (auto simp: transient_checkpoint_def transient_commit_def transient_revert_def put_entry_def
      transient_put_def Let_def split: list.splits prod.splits sum.splits if_splits)

text \<open>The laws of the contract, with the heights.\<close>

lemma transient_laws:
  assumes "transient_inv s"
  shows "\<exists>s'. transient_checkpoint s = (Inr (), s') \<and> transient_inv s' \<and> tview s' = tview s \<and>
      tsaved s' = tview s # tsaved s \<and> indices s' = length (changeJournal s) # indices s"
    "tsaved s = v # vs \<Longrightarrow> \<exists>s'. transient_commit s = (Inr (), s') \<and> transient_inv s' \<and> tview s' = tview s \<and>
      tsaved s' = vs \<and> indices s' = tl (indices s)"
    "tsaved s = v # vs \<Longrightarrow> \<exists>s'. transient_revert s = (Inr (), s') \<and> transient_inv s' \<and> tview s' = v \<and>
      tsaved s' = vs \<and> indices s' = tl (indices s)"
    "put_ok w \<Longrightarrow> \<exists>s'. put_entry w s = (Inr (), s') \<and> transient_inv s' \<and> tview s' = view_put w (tview s) \<and>
      tsaved s' = tsaved s \<and> indices s' = indices s"
  using tstorage.checkpoint_law [OF assms] tstorage.commit_law [OF assms] tstorage.revert_law [OF assms]
    tstorage.write_law [OF assms] transient_indices by metis+

text \<open>Clearing commutes with the end of a checkpoint, because the heights stay and the journal is empty.\<close>

lemma transient_clear_ends:
  "transient_commit s = (Inr (), s') \<Longrightarrow> transient_commit (transient_clear s) = (Inr (), transient_clear s')"
  "transient_revert s = (Inr (), s') \<Longrightarrow> transient_revert (transient_clear s) = (Inr (), transient_clear s')"
  by (auto simp: transient_commit_def transient_revert_def transient_clear_def Let_def
      split: list.splits prod.splits sum.splits)

lemma transient_clear_base: "indices s = [0] \<Longrightarrow> transient_clear s = new_transient"
  by (simp add: transient_clear_def new_transient_def)

end
