(* ===== verification/World.thy ===== *)
theory World
  imports StateManager Journal Transient
begin

text \<open>
  The state a TVM instance shares between its call frames: the state manager, the journal, the
  transient storage and the TRON transaction context (\<^verbatim>\<open>packages/tvm/src/message.ts\<close>), with the
  operations of \<^verbatim>\<open>journal.ts\<close> that act on the state manager and the \<^verbatim>\<open>checkpoint\<close>,
  \<^verbatim>\<open>commit\<close> and \<^verbatim>\<open>revert\<close> closures of \<^verbatim>\<open>TVM._runCall\<close>. The product of the three components is
  again an instance of the checkpoint contract.
\<close>

section \<open>State\<close>

record tron_context =
  rootTransactionId :: bytes
  ctx_nonce :: int

definition createTronTransactionContext :: "bytes \<Rightarrow> exn + tron_context" where
  "createTronTransactionContext txid =
     (if length txid \<noteq> 32 then Inl (HostError ''Expected rootTransactionId to be of length 32'')
      else Inr \<lparr>rootTransactionId = txid, ctx_nonce = 0\<rparr>)"

record world =
  w_sm :: state_manager
  w_jr :: journal
  w_ts :: transient
  w_tron :: "tron_context option"

definition new_world :: world where
  "new_world = \<lparr>w_sm = new_state_manager, w_jr = new_journal, w_ts = new_transient, w_tron = None\<rparr>"

definition on_jr :: "(journal, 'a) op \<Rightarrow> (world, 'a) op" where
  "on_jr = zoom w_jr (\<lambda>j w. w\<lparr>w_jr := j\<rparr>)"

definition on_ts :: "(transient, 'a) op \<Rightarrow> (world, 'a) op" where
  "on_ts = zoom w_ts (\<lambda>t w. w\<lparr>w_ts := t\<rparr>)"

definition mod_sm :: "(state_manager \<Rightarrow> state_manager) \<Rightarrow> world \<Rightarrow> world" where
  "mod_sm f w = w\<lparr>w_sm := f (w_sm w)\<rparr>"

definition mod_jr :: "(journal \<Rightarrow> journal) \<Rightarrow> world \<Rightarrow> world" where
  "mod_jr f w = w\<lparr>w_jr := f (w_jr w)\<rparr>"

section \<open>Journal operations on the state manager\<close>

text \<open>The simple state manager has no \<^verbatim>\<open>getAppliedKey\<close>.\<close>

definition journal_putAccount :: "address \<Rightarrow> account option \<Rightarrow> (world, unit) op" where
  "journal_putAccount a acc = sq (on_jr (touchAccount None a)) (modify (mod_sm (sm_putAccount a acc)))"

definition journal_deleteAccount :: "address \<Rightarrow> (world, unit) op" where
  "journal_deleteAccount a = sq (on_jr (touchAccount None a)) (modify (mod_sm (sm_deleteAccount a)))"

definition journal_commit :: "(world, unit) op" where
  "journal_commit = sq (modify (mod_sm sm_commit)) (modify (mod_jr jr_commit))"

text \<open>The state manager's checkpoint cannot be rejected, so the clean-up branch is not taken.\<close>

definition journal_checkpoint :: "(world, unit) op" where
  "journal_checkpoint = sq (modify (mod_jr jr_checkpoint)) (modify (mod_sm checkpointSync))"

definition journal_revert :: "(world, unit) op" where
  "journal_revert = sq (modify (mod_sm sm_revert)) (modify (mod_jr jr_revert))"

section \<open>Checkpoints of a message\<close>

text \<open>EIP-1153 is active and EIP-7928 is not, so two of the three flags of a checkpoint are set.\<close>

definition tvm_checkpoint :: "(world, unit) op" where
  "tvm_checkpoint = sq journal_checkpoint (on_ts transient_checkpoint)"

definition tvm_commit :: "(world, unit) op" where
  "tvm_commit = sq journal_commit (on_ts transient_commit)"

definition tvm_revert :: "(world, unit) op" where
  "tvm_revert = sq journal_revert (on_ts transient_revert)"

text \<open>The shared nonce of the transaction's internal operations.\<close>

definition bump_nonce :: "world \<Rightarrow> world" where
  "bump_nonce w = w\<lparr>w_tron := map_option (\<lambda>c. c\<lparr>ctx_nonce := ctx_nonce c + 1\<rparr>) (w_tron w)\<rparr>"

section \<open>The product contract\<close>

type_synonym world_view = "sm_view \<times> jparts \<times> tview"

text \<open>
  The checkpoints of messages move all three components. Below them there may be checkpoints of
  the state manager and the journal alone, the one that a transaction opens, and of the state manager alone, the one
  of a block, whose journal entries the first transaction clears: the \<^emph>\<open>base\<close>, which messages leave alone. \<open>open_frames\<close> counts the checkpoints of messages.
\<close>

type_synonym world_base = "sm_view list \<times> jparts list"
datatype saved_levels = Levels "world_view list" world_base

definition open_frames :: "world \<Rightarrow> nat" where
  "open_frames w = length (indices (w_ts w)) - 1"

definition world_inv :: "world \<Rightarrow> bool" where
  "world_inv w \<longleftrightarrow> sm_inv (w_sm w) \<and> journal_inv (w_jr w) \<and> transient_inv (w_ts w) \<and>
     length (jsaved (w_jr w)) \<le> length (sm_saved (w_sm w)) \<and> indices (w_ts w) \<noteq> [] \<and>
     open_frames w \<le> length (jsaved (w_jr w)) \<and> last (indices (w_ts w)) = 0"

definition world_view :: "world \<Rightarrow> world_view" where
  "world_view w = (sm_view (w_sm w), parts (w_jr w), tview (w_ts w))"

definition world_saved :: "world \<Rightarrow> world_view list" where
  "world_saved w = zip (sm_saved (w_sm w)) (zip (jsaved (w_jr w)) (take (open_frames w) (tsaved (w_ts w))))"

definition world_base :: "world \<Rightarrow> world_base" where
  "world_base w = (drop (open_frames w) (sm_saved (w_sm w)), drop (open_frames w) (jsaved (w_jr w)))"

fun push_level :: "world_view \<Rightarrow> saved_levels \<Rightarrow> saved_levels" where
  "push_level v (Levels vs b) = Levels (v # vs) b"

datatype world_change =
    WAccount address "account option"
  | WState sm_change
  | WJournal jwrite
  | WTransient "address \<times> bytes \<times> bytes"

fun world_write_ok :: "world_change \<Rightarrow> bool" where
  "world_write_ok (WTransient e) = put_ok e"
| "world_write_ok _ = True"

fun world_write :: "(bytes \<Rightarrow> bytes) \<Rightarrow> world_change \<Rightarrow> (world, unit) op" where
  "world_write keccak (WAccount a acc) = journal_putAccount a acc"
| "world_write keccak (WState c) = modify (mod_sm (sm_write keccak c))"
| "world_write keccak (WJournal j) = on_jr (jwrite_op None j)"
| "world_write keccak (WTransient e) = on_ts (put_entry e)"

fun world_write_view :: "(bytes \<Rightarrow> bytes) \<Rightarrow> world_change \<Rightarrow> world_view \<Rightarrow> world_view" where
  "world_write_view keccak (WAccount a acc) (S, J, T) =
     (view_write keccak (PutAccount a acc) S, jwrite_view (JTouch a) J, T)"
| "world_write_view keccak (WState c) (S, J, T) = (view_write keccak c S, J, T)"
| "world_write_view keccak (WJournal j) (S, J, T) = (S, jwrite_view j J, T)"
| "world_write_view keccak (WTransient e) (S, J, T) = (S, J, view_put e T)"

lemmas world_defs = on_jr_def on_ts_def mod_sm_def mod_jr_def zoom_def sq_def bnd_def
  journal_putAccount_def journal_commit_def journal_checkpoint_def journal_revert_def
  tvm_checkpoint_def tvm_commit_def tvm_revert_def

lemmas world_obs = world_inv_def world_view_def world_saved_def world_base_def open_frames_def

lemma world_write_law:
  assumes inv: "world_inv w" and ok: "world_write_ok c"
  shows "\<exists>w'. world_write keccak c w = (Inr (), w') \<and> world_inv w' \<and>
    world_view w' = world_write_view keccak c (world_view w) \<and> world_saved w' = world_saved w \<and> world_base w' = world_base w"
proof -
  have S: "sm_inv (w_sm w)" and J: "journal_inv (w_jr w)" and T: "transient_inv (w_ts w)"
    using inv by (simp_all add: world_inv_def)
  show ?thesis
  proof (cases c)
    case (WAccount a acc)
    obtain j where "touchAccount None a (w_jr w) = (Inr (), j)" "journal_inv j"
      "parts j = jwrite_view (JTouch a) (parts (w_jr w))" "jsaved j = jsaved (w_jr w)"
      using touch_law [OF J] by blast
    moreover note sm_write_law [OF S, of keccak "PutAccount a acc"]
    ultimately show ?thesis
      using inv by (simp add: WAccount world_defs world_obs)
  next
    case (WState d)
    with sm_write_law [OF S, of keccak d] inv show ?thesis by (simp add: world_defs world_obs)
  next
    case (WJournal d)
    with jrnl.write_law [OF J, of None d] inv show ?thesis by (auto simp: world_defs world_obs)
  next
    case (WTransient e)
    with transient_laws(4) [OF T, of e] inv ok show ?thesis by (auto simp: world_defs world_obs)
  qed
qed

lemma world_saved_cases:
  assumes inv: "world_inv w" and sv: "world_saved w = v # vs"
  obtains S Ss J Js T Ts i ks where "sm_saved (w_sm w) = S # Ss" "jsaved (w_jr w) = J # Js"
    "tsaved (w_ts w) = T # Ts" "indices (w_ts w) = i # ks" "v = (S, J, T)" "ks \<noteq> []"
    "length Js \<le> length Ss" "length ks \<le> Suc (length Js)" "last ks = 0"
    "vs = zip Ss (zip Js (take (length ks - 1) Ts))"
    "world_base w = (drop (length ks - 1) Ss, drop (length ks - 1) Js)"
proof -
  have l: "length (tsaved (w_ts w)) = length (indices (w_ts w))" by simp
  obtain S Ss J Js T Ts where s: "sm_saved (w_sm w) = S # Ss" "jsaved (w_jr w) = J # Js" "tsaved (w_ts w) = T # Ts"
    using sv by (cases "sm_saved (w_sm w)"; cases "jsaved (w_jr w)"; cases "tsaved (w_ts w)") (auto simp: world_saved_def)
  obtain i ks where k: "indices (w_ts w) = i # ks" using l s(3) by (cases "indices (w_ts w)") auto
  have "ks \<noteq> []" using sv s k by (auto simp: world_saved_def open_frames_def)
  note s = s k this
  then obtain m where m: "length ks = Suc m" by (cases ks) auto
  have "length Js \<le> length Ss" "length ks \<le> Suc (length Js)" "last ks = 0"
    using inv s by (simp_all add: world_inv_def open_frames_def)
  moreover have "v = (S, J, T)" "vs = zip Ss (zip Js (take m Ts))" "world_base w = (drop m Ss, drop m Js)"
    using sv s m by (simp_all add: world_saved_def world_base_def open_frames_def)
  ultimately show ?thesis using that s m by simp
qed

lemma take_drop_tail:
  "ks \<noteq> [] \<Longrightarrow> take (length ks) (x # xs) = x # take (length ks - 1) xs"
  "ks \<noteq> [] \<Longrightarrow> drop (length ks) (y # ys) = drop (length ks - 1) ys"
  by (cases ks; simp)+

interpretation wld: checkpointed "\<lambda>w. world_inv w \<and> world_base w = b" world_view world_saved tvm_checkpoint tvm_commit
  tvm_revert world_write_ok "world_write keccak" "world_write_view keccak" for b keccak
proof unfold_locales
  fix w v vs c
  assume i: "world_inv w \<and> world_base w = b"
  then have inv: "world_inv w" and b: "world_base w = b" by simp_all
  have S: "sm_inv (w_sm w)" and J: "journal_inv (w_jr w)" and T: "transient_inv (w_ts w)"
    using inv by (simp_all add: world_inv_def)
  have l: "indices (w_ts w) \<noteq> []" using inv by (simp add: world_inv_def)
  show "\<exists>s'. tvm_checkpoint w = (Inr (), s') \<and> (world_inv s' \<and> world_base s' = b) \<and> world_view s' = world_view w \<and>
      world_saved s' = world_view w # world_saved w"
    using sm.checkpoint_law [OF S] jrnl.checkpoint_law [OF J] transient_laws(1) [OF T] inv b
    by (auto simp: world_defs world_obs take_drop_tail [OF l])
  { assume "world_write_ok c"
    with world_write_law [OF inv this, of keccak] b show "\<exists>s'. world_write keccak c w = (Inr (), s') \<and>
        (world_inv s' \<and> world_base s' = b) \<and> world_view s' = world_write_view keccak c (world_view w) \<and>
        world_saved s' = world_saved w" by auto }
  { assume "world_saved w = v # vs"
    from inv this show "\<exists>s'. tvm_commit w = (Inr (), s') \<and> (world_inv s' \<and> world_base s' = b) \<and>
        world_view s' = world_view w \<and> world_saved s' = vs"
    proof (rule world_saved_cases)
      fix A As B Bs C Cs i ks
      assume sv: "sm_saved (w_sm w) = A # As" "jsaved (w_jr w) = B # Bs" "tsaved (w_ts w) = C # Cs"
        and idx: "indices (w_ts w) = i # ks" "ks \<noteq> []"
        and "vs = zip As (zip Bs (take (length ks - 1) Cs))" "length Bs \<le> length As" "length ks \<le> Suc (length Bs)" "last ks = 0"
        and "world_base w = (drop (length ks - 1) As, drop (length ks - 1) Bs)"
      then show ?thesis
        using sm.commit_law [OF S sv(1)] jrnl.commit_law [OF J sv(2)] transient_laws(2) [OF T sv(3)] b
        by (auto simp: world_defs world_obs)
    qed }
  { assume "world_saved w = v # vs"
    from inv this show "\<exists>s'. tvm_revert w = (Inr (), s') \<and> (world_inv s' \<and> world_base s' = b) \<and>
        world_view s' = v \<and> world_saved s' = vs"
    proof (rule world_saved_cases)
      fix A As B Bs C Cs i ks
      assume sv: "sm_saved (w_sm w) = A # As" "jsaved (w_jr w) = B # Bs" "tsaved (w_ts w) = C # Cs"
        and idx: "indices (w_ts w) = i # ks" "ks \<noteq> []"
        and "v = (A, B, C)" "vs = zip As (zip Bs (take (length ks - 1) Cs))" "length Bs \<le> length As" "length ks \<le> Suc (length Bs)" "last ks = 0"
        and "world_base w = (drop (length ks - 1) As, drop (length ks - 1) Bs)"
      then show ?thesis
        using sm.revert_law [OF S sv(1)] jrnl.revert_law [OF J sv(2)] transient_laws(3) [OF T sv(3)] b
        by (auto simp: world_defs world_obs)
    qed }
qed

lemma new_world_saved: "sm_saved new_state_manager = []" "jsaved new_journal = []" "indices new_transient = [0]"
  by (simp_all add: sm_saved_def layers_def new_state_manager_def checkpointSync_def jsaved_def new_journal_def new_transient_def)

lemma world_inv_new: "world_inv new_world" "world_saved new_world = []" "world_base new_world = ([], [])"
  by (simp_all add: world_obs new_world_def sm_inv_new journal_inv_new transient_inv_new new_world_saved)

end
