(* ===== verification/Specs.thy ===== *)
theory Specs
  imports Prelude
begin

text \<open>
  A Hoare logic for the exception-and-state monad. \<open>hoare P m V Q E\<close>: from a state with \<open>P\<close> the
  operation either returns a value \<open>x\<close> with \<open>V x\<close> in a state with \<open>Q x\<close>, or raises an exception
  \<open>e\<close> in a state with \<open>E e\<close>. The rules are syntax directed: a handler is checked by applying them
  from left to right, and what a step returns is at hand, as a plain assumption, for the steps
  after it. The collection \<open>hoare_rules\<close> holds the rules of the components' operations.
\<close>

named_theorems hoare_rules \<open>syntax-directed rules for the operations of the components\<close>

definition hoare ::
  "('s \<Rightarrow> bool) \<Rightarrow> ('s, 'a) op \<Rightarrow> ('a \<Rightarrow> bool) \<Rightarrow> ('a \<Rightarrow> 's \<Rightarrow> bool) \<Rightarrow> (exn \<Rightarrow> 's \<Rightarrow> bool) \<Rightarrow> bool" where
  "hoare P m V Q E \<longleftrightarrow> (\<forall>s. P s \<longrightarrow> (case m s of (Inr x, t) \<Rightarrow> V x \<and> Q x t | (Inl e, t) \<Rightarrow> E e t))"

lemma hoareI:
  assumes "\<And>s x t. P s \<Longrightarrow> m s = (Inr x, t) \<Longrightarrow> V x \<and> Q x t"
    and "\<And>s e t. P s \<Longrightarrow> m s = (Inl e, t) \<Longrightarrow> E e t"
  shows "hoare P m V Q E"
  using assms by (auto simp: hoare_def split: prod.splits sum.splits)

lemma hoare_ret_state: "hoare P m V Q E \<Longrightarrow> P s \<Longrightarrow> m s = (Inr x, t) \<Longrightarrow> V x \<and> Q x t"
  by (fastforce simp: hoare_def)

lemma hoare_throw_state: "hoare P m V Q E \<Longrightarrow> P s \<Longrightarrow> m s = (Inl e, t) \<Longrightarrow> E e t"
  by (fastforce simp: hoare_def)

lemma hoare_conseq:
  assumes "hoare P' m V' Q' E'" "\<And>s. P s \<Longrightarrow> P' s" "\<And>x. V' x \<Longrightarrow> V x"
    and "\<And>x t. V' x \<Longrightarrow> Q' x t \<Longrightarrow> Q x t" "\<And>e t. E' e t \<Longrightarrow> E e t"
  shows "hoare P m V Q E"
  using assms by (fastforce simp: hoare_def split: prod.splits sum.splits)

lemma hoare_pre: "(\<And>s. P s \<Longrightarrow> P' s) \<Longrightarrow> hoare P' m V Q E \<Longrightarrow> hoare P m V Q E"
  by (simp add: hoare_def)

lemma hoare_pure: "(\<And>s. P s \<Longrightarrow> A) \<Longrightarrow> (A \<Longrightarrow> hoare P m V Q E) \<Longrightarrow> hoare P m V Q E"
  by (auto simp: hoare_def)

lemma hoare_state: "(\<And>s. P s \<Longrightarrow> hoare (\<lambda>t. t = s) m V Q E) \<Longrightarrow> hoare P m V Q E"
  by (simp add: hoare_def)

lemma hoare_bnd:
  assumes m: "hoare P m V R E" and f: "\<And>x. V x \<Longrightarrow> hoare (R x) (f x) W Q E"
  shows "hoare P (bnd m f) W Q E"
proof -
  have "case bnd m f s of (Inr y, t) \<Rightarrow> W y \<and> Q y t | (Inl e, t) \<Rightarrow> E e t" if s: "P s" for s
  proof (cases "m s")
    case (Pair r t)
    show ?thesis
    proof (cases r)
      case (Inl e)
      with Pair hoare_throw_state [OF m s] show ?thesis by (simp add: bnd_def)
    next
      case (Inr x)
      with Pair hoare_ret_state [OF m s] have "V x" "R x t" by simp_all
      with f [of x] Pair Inr show ?thesis by (simp add: bnd_def hoare_def)
    qed
  qed
  then show ?thesis by (simp add: hoare_def)
qed

lemma hoare_sq: "hoare P m V R E \<Longrightarrow> (\<And>x. V x \<Longrightarrow> hoare (R x) n W Q E) \<Longrightarrow> hoare P (sq m n) W Q E"
  unfolding sq_def by (rule hoare_bnd)

text \<open>A guard that raises.\<close>

lemma hoare_guard:
  "(\<And>s. b \<Longrightarrow> P s \<Longrightarrow> E (TvmError e) s) \<Longrightarrow> (\<not> b \<Longrightarrow> hoare P n W Q E) \<Longrightarrow>
   hoare P (sq (whenb b (trap e)) n) W Q E"
  by (cases b) (auto simp: hoare_def sq_def bnd_def)

lemma hoare_ret: "W x \<Longrightarrow> (\<And>s. P s \<Longrightarrow> Q x s) \<Longrightarrow> hoare P (ret x) W Q E"
  by (simp add: hoare_def)

lemma hoare_throw: "(\<And>s. P s \<Longrightarrow> E e s) \<Longrightarrow> hoare P (throw e) W Q E"
  by (simp add: hoare_def)

lemma hoare_trap: "(\<And>s. P s \<Longrightarrow> E (TvmError t) s) \<Longrightarrow> hoare P (trap t) W Q E"
  by (simp add: hoare_def)

lemma hoare_gets: "hoare P (gets f) (\<lambda>v. \<exists>s. P s \<and> v = f s) (\<lambda>_. P) E"
  by (auto simp: hoare_def)

lemma hoare_lift_sum:
  "(\<And>e s. r = Inl e \<Longrightarrow> P s \<Longrightarrow> E e s) \<Longrightarrow> hoare P (lift_sum r) (\<lambda>x. r = Inr x) (\<lambda>_. P) E"
  by (cases r) (auto simp: hoare_def)

lemma hoare_whenb:
  "(b \<Longrightarrow> hoare P m (\<lambda>_. True) (\<lambda>_. P) E) \<Longrightarrow> hoare P (whenb b m) (\<lambda>_. True) (\<lambda>_. P) E"
  by (auto simp: hoare_def)

lemma hoare_modify: "(\<And>s. P s \<Longrightarrow> Q () (f s)) \<Longrightarrow> hoare P (modify f) (\<lambda>_. True) Q E"
  by (simp add: hoare_def)

lemma hoare_modify_same: "(\<And>s. P s \<Longrightarrow> P (f s)) \<Longrightarrow> hoare P (modify f) (\<lambda>_. True) (\<lambda>_. P) E"
  by (simp add: hoare_def)

lemma hoare_if:
  "(b \<Longrightarrow> hoare P m W Q E) \<Longrightarrow> (\<not> b \<Longrightarrow> hoare P n W Q E) \<Longrightarrow> hoare P (if b then m else n) W Q E"
  by simp

text \<open>An operation on a part of the state.\<close>

lemma hoare_zoom:
  assumes "hoare J m V (\<lambda>_. J) F" "\<And>s. P s \<Longrightarrow> J (get s)"
    and "\<And>s t. P s \<Longrightarrow> J t \<Longrightarrow> P (put t s)" "\<And>s e t. P s \<Longrightarrow> F e t \<Longrightarrow> E e (put t s)"
  shows "hoare P (zoom get put m) V (\<lambda>_. P) E"
proof (rule hoareI)
  fix s x t
  assume s: "P s" and z: "zoom get put m s = (Inr x, t)"
  then obtain t' where "m (get s) = (Inr x, t')" "t = put t' s"
    by (auto simp: zoom_def split: prod.splits)
  with assms s show "V x \<and> P t" by (blast dest: hoare_ret_state)
next
  fix s e t
  assume s: "P s" and z: "zoom get put m s = (Inl e, t)"
  then obtain t' where "m (get s) = (Inl e, t')" "t = put t' s"
    by (auto simp: zoom_def split: prod.splits)
  with assms s show "E e t" by (blast dest: hoare_throw_state)
qed

text \<open>An invariant that survives whatever happens.\<close>

lemma hoare_keeps: "keeps I m \<longleftrightarrow> hoare I m (\<lambda>_. True) (\<lambda>_. I) (\<lambda>_. I)"
proof
  assume k: "keeps I m"
  show "hoare I m (\<lambda>_. True) (\<lambda>_. I) (\<lambda>_. I)"
    by (rule hoareI) (use k in \<open>auto dest: keepsD\<close>)
next
  assume h: "hoare I m (\<lambda>_. True) (\<lambda>_. I) (\<lambda>_. I)"
  have "I (snd (m s))" if "I s" for s
  proof (cases "m s")
    case (Pair r t)
    with hoare_ret_state [OF h that] hoare_throw_state [OF h that] show ?thesis by (cases r) auto
  qed
  then show "keeps I m" by (simp add: keeps_def)
qed

end
