(* ===== verification/WorldOk.thy ===== *)
theory WorldOk
  imports World Specs OpUtil
begin

text \<open>
  What the call frames maintain of the world they share. The public part of a view is what the
  instructions can read: accounts, code, storage and transient storage. Its invariant bounds
  every holding of every account by the total supply of that asset, and the supplies never grow.
  The world invariant adds the checkpoint discipline: the views saved by the open checkpoints
  are untouched, which is what makes a later revert restore them.
\<close>

section \<open>Holdings and supplies\<close>

text \<open>An asset is the native currency (\<open>None\<close>) or a TRC-10 token.\<close>

type_synonym asset_id = "int option"

definition holding :: "asset_id \<Rightarrow> account \<Rightarrow> int" where
  "holding k acc = (case k of None \<Rightarrow> balance acc | Some t \<Rightarrow> getTokenBalance acc t)"

definition account_ok :: "account \<Rightarrow> bool" where
  "account_ok acc \<longleftrightarrow> (\<forall>k. 0 \<le> holding k acc) \<and> distinct (map fst (asset acc)) \<and> length (codeHash acc) \<le> 32"

definition total_supply :: "asset_id \<Rightarrow> (address \<Rightarrow> account) \<Rightarrow> int" where
  "total_supply k A = (\<Sum>a\<in>UNIV. holding k (A a))"

lemma holding_simps [simp]:
  "holding None acc = balance acc" "holding (Some t) acc = getTokenBalance acc t"
  by (simp_all add: holding_def)

lemma holding_other [simp]:
  "holding k (acc\<lparr>nonce := n\<rparr>) = holding k acc" "holding k (acc\<lparr>codeHash := h\<rparr>) = holding k acc"
  "holding k (acc\<lparr>balance := b\<rparr>) = (if k = None then b else holding k acc)"
  "holding k (set_token t v acc) = (if k = Some t then v else holding k acc)"
  by (simp_all add: holding_def split: option.splits) (simp_all add: getTokenBalance_def)

lemma account_ok_nonce [simp]: "account_ok (acc\<lparr>nonce := n\<rparr>) = account_ok acc"
  by (simp add: account_ok_def)

lemma account_ok_codeHash: "account_ok acc \<Longrightarrow> length h \<le> 32 \<Longrightarrow> account_ok (acc\<lparr>codeHash := h\<rparr>)"
  by (simp add: account_ok_def)

lemma new_account_ok [simp]: "account_ok new_account" and holding_new [simp]: "holding k new_account = 0"
  by (auto simp: account_ok_def holding_def new_account_def getTokenBalance_def KECCAK256_NULL_def split: option.splits)

lemma account_ok_nonneg [simp]: "account_ok acc \<Longrightarrow> 0 \<le> holding k acc"
  by (simp add: account_ok_def)

lemma account_ok_balance: "account_ok acc \<Longrightarrow> 0 \<le> b \<Longrightarrow> account_ok (acc\<lparr>balance := b\<rparr>)"
  by (auto simp: account_ok_def)

lemma account_ok_token: "account_ok acc \<Longrightarrow> 0 \<le> v \<Longrightarrow> account_ok (set_token t v acc)"
  by (auto simp: account_ok_def) (auto simp: set_token_def distinct_update)

lemma supply_upd: "total_supply k (A(a := acc)) = total_supply k A - holding k (A a) + holding k acc"
proof -
  have "total_supply k B = holding k (B a) + (\<Sum>x\<in>UNIV - {a}. holding k (B x))" for B
    unfolding total_supply_def by (rule sum.remove) simp_all
  from this [of A] this [of "A(a := acc)"] show ?thesis by simp
qed

lemma holding_le_supply:
  assumes "\<And>a. account_ok (A a)"
  shows "holding k (A a) \<le> total_supply k A"
  unfolding total_supply_def by (rule member_le_sum) (simp_all add: assms)

section \<open>The public part of a view\<close>

record pub =
  p_acct :: "address \<Rightarrow> account"
  p_code :: "address \<Rightarrow> bytes"
  p_stor :: "address \<times> bytes \<Rightarrow> bytes"
  p_trans :: tview

definition pub_of :: "world_view \<Rightarrow> pub" where
  "pub_of v = (case v of ((A, C, S, K), J, T) \<Rightarrow>
     \<lparr>p_acct = (\<lambda>a. or_else (A a) new_account), p_code = (\<lambda>a. or_else (C a) []),
      p_stor = (\<lambda>x. or_else (S x) []), p_trans = T\<rparr>)"

abbreviation public :: "world \<Rightarrow> pub" where
  "public w \<equiv> pub_of (world_view w)"

definition is_word :: "int \<Rightarrow> bool" where
  "is_word x \<longleftrightarrow> 0 \<le> x \<and> x < TWO_POW256"

definition pub_ok :: "(asset_id \<Rightarrow> int) \<Rightarrow> pub \<Rightarrow> bool" where
  "pub_ok B p \<longleftrightarrow> (\<forall>a. account_ok (p_acct p a)) \<and> (\<forall>k. total_supply k (p_acct p) \<le> B k) \<and>
     (\<forall>a. is_word (int (length (p_code p a)))) \<and> (\<forall>x. length (p_stor p x) \<le> 32) \<and>
     (\<forall>a k. length (p_trans p a k) \<le> 32)"

text \<open>\<open>world_ok S B F w\<close>: saved views \<open>S\<close>, supplies at most \<open>B\<close>, and public view \<open>F\<close> if one is given.\<close>

definition lockstep :: "saved_levels \<Rightarrow> world \<Rightarrow> bool" where
  "lockstep S w \<longleftrightarrow> world_inv w \<and> Levels (world_saved w) (world_base w) = S"

definition world_ok :: "saved_levels \<Rightarrow> (asset_id \<Rightarrow> int) \<Rightarrow> pub option \<Rightarrow> world \<Rightarrow> bool" where
  "world_ok S B F w \<longleftrightarrow> lockstep S w \<and> pub_ok B (public w) \<and> (\<forall>p. F = Some p \<longrightarrow> public w = p)"

lemma world_ok_lockstep: "world_ok S B F w \<Longrightarrow> lockstep S w"
  by (simp add: world_ok_def)

lemma world_ok_unfreeze: "world_ok S B F w \<Longrightarrow> world_ok S B None w"
  by (simp add: world_ok_def)

lemma world_ok_freeze: "world_ok S B F w \<Longrightarrow> world_ok S B (Some (public w)) w"
  by (simp add: world_ok_def)

section \<open>Reading the world\<close>

lemma public_reads:
  assumes "world_inv w"
  shows "or_else (getAccount a (w_sm w)) new_account = p_acct (public w) a"
    "getCode a (w_sm w) = p_code (public w) a" "getStorage a k (w_sm w) = p_stor (public w) (a, k)"
    "transient_get a k (w_ts w) = p_trans (public w) a k"
proof -
  have "sm_inv (w_sm w)" using assms by (simp add: world_inv_def)
  then show "or_else (getAccount a (w_sm w)) new_account = p_acct (public w) a"
    "getCode a (w_sm w) = p_code (public w) a" "getStorage a k (w_sm w) = p_stor (public w) (a, k)"
    by (elim sm_inv_cases, simp add: pub_of_def world_view_def sm_obs getAccount_def getCode_def
        getStorage_def top_map_def)+
  show "transient_get a k (w_ts w) = p_trans (public w) a k"
    by (cases "sm_view (w_sm w)") (simp add: pub_of_def world_view_def transient_get_def tview_def)
qed

section \<open>Changing the world\<close>

text \<open>Bookkeeping outside the views: the reported access list and the transaction context.\<close>

lemma journal_inv_accessList:
  "journal_inv j \<Longrightarrow> access_ok (warm j) m \<Longrightarrow> journal_inv (j\<lparr>accessList := m\<rparr>)"
  by (simp add: journal_inv_def)

lemma accessList_world:
  assumes "world_inv w" "access_ok (warm (w_jr w)) m"
  shows "world_inv (w\<lparr>w_jr := (w_jr w)\<lparr>accessList := m\<rparr>\<rparr>)"
    "world_saved (w\<lparr>w_jr := (w_jr w)\<lparr>accessList := m\<rparr>\<rparr>) = world_saved w"
    "world_base (w\<lparr>w_jr := (w_jr w)\<lparr>accessList := m\<rparr>\<rparr>) = world_base w"
    "world_view (w\<lparr>w_jr := (w_jr w)\<lparr>accessList := m\<rparr>\<rparr>) = world_view w"
  using assms by (simp_all add: world_obs accessList_saved
      journal_inv_accessList)

lemma access_ok_address: "access_ok w m \<Longrightarrow> access_ok w (map_option (ensure_key a) m)"
  by (auto simp: access_ok_def ensure_key_def split: option.splits)

lemma access_ok_slot: "access_ok w m \<Longrightarrow> access_ok w (map_option (add_slot a k) m)"
  by (auto simp: access_ok_def add_slot_def split: option.splits)

definition same_views :: "world \<Rightarrow> world \<Rightarrow> bool" where
  "same_views w w' \<longleftrightarrow> world_view w' = world_view w \<and> world_saved w' = world_saved w \<and>
     world_base w' = world_base w \<and> (world_inv w \<longrightarrow> world_inv w')"

lemma world_inv_access: "world_inv w \<Longrightarrow> access_ok (warm (w_jr w)) (accessList (w_jr w))"
  by (simp add: world_inv_def journal_inv_def)

lemma same_views_accessList:
  "world_inv w \<Longrightarrow> access_ok (warm (w_jr w)) m \<Longrightarrow> same_views w (w\<lparr>w_jr := (w_jr w)\<lparr>accessList := m\<rparr>\<rparr>)"
  using accessList_world [of w m] by (simp add: same_views_def)

lemma same_views_note: "world_inv w \<Longrightarrow> same_views w (mod_jr (addAccessedAddress a) w)"
  unfolding mod_jr_def addAccessedAddress_def
  by (intro same_views_accessList access_ok_address world_inv_access)

lemma same_views_note_storage: "world_inv w \<Longrightarrow> same_views w (mod_jr (addAccessedStorage a k) w)"
proof (cases "accessList (w_jr w)")
  case None
  then show ?thesis by (simp add: same_views_def mod_jr_def addAccessedStorage_def)
next
  case (Some m)
  assume w: "world_inv w"
  have "mod_jr (addAccessedStorage a k) w =
    w\<lparr>w_jr := (w_jr w)\<lparr>accessList := map_option (add_slot a k) (map_option (ensure_key a) (accessList (w_jr w)))\<rparr>\<rparr>"
    by (simp add: mod_jr_def addAccessedStorage_def addAccessedAddress_def Some)
  with w show ?thesis
    by (metis same_views_accessList access_ok_address access_ok_slot world_inv_access)
qed

lemma same_views_bump: "same_views w (bump_nonce w)"
  by (simp add: same_views_def bump_nonce_def world_obs)

lemma world_ok_same:
  "same_views w w' \<Longrightarrow> world_ok S B F w \<Longrightarrow> world_ok S B F w'"
  by (simp add: same_views_def world_ok_def lockstep_def)

lemma lockstep_inv: "lockstep S w \<Longrightarrow> world_inv w"
  by (simp add: lockstep_def)

lemma world_ok_inv: "world_ok S B F w \<Longrightarrow> world_inv w"
  by (simp add: world_ok_def lockstep_def)

lemmas world_ok_note = world_ok_same [OF same_views_note [OF world_ok_inv]]
  and world_ok_note_storage = world_ok_same [OF same_views_note_storage [OF world_ok_inv]]
  and world_ok_bump = world_ok_same [OF same_views_bump]

text \<open>The writes, through the contract of the checkpointed world.\<close>

lemma view_cases: obtains A C S K J T where "(v :: world_view) = ((A, C, S, K), J, T)"
  by (metis prod.exhaust)

lemma jwrite_view_cases: obtains w t sw where "(J :: jparts) = (w, t, sw)"
  by (metis prod.exhaust)

lemma pub_write_account:
  "pub_of (world_write_view kec (WAccount a (Some acc)) v) = (pub_of v)\<lparr>p_acct := (p_acct (pub_of v))(a := acc)\<rparr>"
  by (cases v rule: view_cases) (auto simp: pub_of_def or_else_def)

lemma pub_write_state_account:
  "pub_of (world_write_view kec (WState (PutAccount a (Some acc))) v) =
   (pub_of v)\<lparr>p_acct := (p_acct (pub_of v))(a := acc)\<rparr>"
  by (cases v rule: view_cases) (auto simp: pub_of_def or_else_def)

lemma pub_write_storage:
  "pub_of (world_write_view kec (WState (PutStorage a k x)) v) =
   (pub_of v)\<lparr>p_stor := (p_stor (pub_of v))((a, k) := x)\<rparr>"
  by (cases v rule: view_cases) (auto simp: pub_of_def or_else_def)

lemma pub_write_code:
  "pub_of (world_write_view kec (WState (PutCode a c)) v) =
   (pub_of v)\<lparr>p_acct := (p_acct (pub_of v))(a := (p_acct (pub_of v) a)\<lparr>codeHash := kec c\<rparr>),
              p_code := (p_code (pub_of v))(a := c)\<rparr>"
  by (cases v rule: view_cases) (auto simp: pub_of_def or_else_def Let_def)

lemma pub_write_journal: "pub_of (world_write_view kec (WJournal j) v) = pub_of v"
  by (cases v rule: view_cases) (simp add: pub_of_def)

lemma pub_write_transient:
  "pub_of (world_write_view kec (WTransient e) v) = (pub_of v)\<lparr>p_trans := view_put e (p_trans (pub_of v))\<rparr>"
  by (cases v rule: view_cases) (simp add: pub_of_def)

lemmas pub_writes = pub_write_account pub_write_state_account pub_write_storage pub_write_code
  pub_write_journal pub_write_transient

lemma world_ok_write:
  assumes w: "world_ok S B F w" and ok: "world_write_ok c"
    and p: "pub_ok B (pub_of (world_write_view kec c (world_view w)))"
    and F: "F = None \<or> pub_of (world_write_view kec c (world_view w)) = public w"
  obtains w' where "world_write kec c w = (Inr (), w')" "world_ok S B F w'"
    "public w' = pub_of (world_write_view kec c (world_view w))"
proof -
  have "world_inv w" using w by (rule world_ok_inv)
  from world_write_law [OF this ok, of kec] w p F that show ?thesis
    by (auto simp: world_ok_def lockstep_def)
qed

section \<open>Invariant of the public part under writes\<close>

lemma pub_ok_account:
  assumes "pub_ok B p" "account_ok acc" "\<And>k. total_supply k (p_acct p) - holding k (p_acct p a) + holding k acc \<le> B k"
  shows "pub_ok B (p\<lparr>p_acct := (p_acct p)(a := acc)\<rparr>)"
  using assms by (simp add: pub_ok_def supply_upd)

lemma pub_ok_same_holdings:
  assumes "pub_ok B p" "account_ok acc" "\<And>k. holding k acc \<le> holding k (p_acct p a)"
  shows "pub_ok B (p\<lparr>p_acct := (p_acct p)(a := acc)\<rparr>)"
proof (rule pub_ok_account [OF assms(1,2)])
  fix k
  have "total_supply k (p_acct p) \<le> B k" using assms(1) by (simp add: pub_ok_def)
  with assms(3) [of k] show "total_supply k (p_acct p) - holding k (p_acct p a) + holding k acc \<le> B k" by linarith
qed

lemma pub_ok_code:
  "pub_ok B p \<Longrightarrow> is_word (int (length c)) \<Longrightarrow> pub_ok B (p\<lparr>p_code := (p_code p)(a := c)\<rparr>)"
  by (simp add: pub_ok_def)

lemma pub_ok_storage: "pub_ok B p \<Longrightarrow> length x \<le> 32 \<Longrightarrow> pub_ok B (p\<lparr>p_stor := (p_stor p)(k := x)\<rparr>)"
  by (simp add: pub_ok_def)

lemma pub_ok_transient: "pub_ok B p \<Longrightarrow> put_ok e \<Longrightarrow> pub_ok B (p\<lparr>p_trans := view_put e (p_trans p)\<rparr>)"
  by (auto simp: pub_ok_def view_put_def put_ok_def split: prod.splits)

lemma pub_ok_acct: "pub_ok B p \<Longrightarrow> account_ok (p_acct p a)"
  by (simp add: pub_ok_def)

lemma pub_ok_holding: "pub_ok B p \<Longrightarrow> holding k (p_acct p a) \<le> B k"
  by (rule order_trans [OF holding_le_supply [of "p_acct p"]]) (simp_all add: pub_ok_def)

end
