(* ===== verification/Stack.thy ===== *)
theory Stack
  imports Prelude
begin

text \<open>
  The operand stack of \<^verbatim>\<open>packages/tvm/src/stack.ts\<close>. The class keeps an array that never
  shrinks and a length; entries beyond the length are dead. \<open>getStack\<close> is what an observer
  sees. The theory proves that every operation refines the corresponding operation on that
  list, with both errors, and states the contract the opcode handlers rely on as a locale.
\<close>

section \<open>The class\<close>

record stack =
  store :: "int list"
  maxHeight :: nat
  len :: nat

definition new_stack :: "nat option \<Rightarrow> stack" where
  "new_stack maxH = \<lparr>store = [], maxHeight = (case maxH of None \<Rightarrow> 1024 | Some h \<Rightarrow> h), len = 0\<rparr>"

text \<open>Assignment to an array element, at the end of the array or before it.\<close>

definition arr_set :: "'a list \<Rightarrow> nat \<Rightarrow> 'a \<Rightarrow> 'a list" where
  "arr_set xs i v = (if i < length xs then xs[i := v] else xs @ [v])"

definition push :: "int \<Rightarrow> (stack, unit) op" where
  "push value s =
     (if maxHeight s \<le> len s then trap STACK_OVERFLOW s
      else (Inr (), s\<lparr>store := arr_set (store s) (len s) value, len := Suc (len s)\<rparr>))"

definition pop :: "(stack, int) op" where
  "pop s =
     (if len s < 1 then trap STACK_UNDERFLOW s
      else (Inr (store s ! (len s - 1)), s\<lparr>len := len s - 1\<rparr>))"

fun popN_loop :: "nat \<Rightarrow> stack \<Rightarrow> int list \<times> stack" where
  "popN_loop 0 s = ([], s)"
| "popN_loop (Suc n) s =
     (let s1 = s\<lparr>len := len s - 1\<rparr>; (xs, s2) = popN_loop n s1 in (store s ! len s1 # xs, s2))"

definition popN :: "nat \<Rightarrow> (stack, int list) op" where
  "popN num s =
     (if len s < num then trap STACK_UNDERFLOW s
      else if num = 0 then (Inr [], s)
      else (case popN_loop num s of (xs, s') \<Rightarrow> (Inr xs, s')))"

fun peek_loop :: "int list \<Rightarrow> nat \<Rightarrow> nat \<Rightarrow> exn + int list" where
  "peek_loop st 0 start = Inr []"
| "peek_loop st (Suc n) start =
     (if start = 0 then Inl (TvmError STACK_UNDERFLOW)
      else map_sum id (\<lambda>xs. st ! (start - 1) # xs) (peek_loop st n (start - 1)))"

definition peek :: "nat \<Rightarrow> (stack, int list) op" where
  "peek num s = (peek_loop (store s) num (len s), s)"

definition swap :: "nat \<Rightarrow> (stack, unit) op" where
  "swap position s =
     (if len s \<le> position then trap STACK_UNDERFLOW s
      else let head = len s - 1; i = head - position; tmp = store s ! head;
               st = (store s)[head := store s ! i]
           in (Inr (), s\<lparr>store := st[i := tmp]\<rparr>))"

definition dup :: "nat \<Rightarrow> (stack, unit) op" where
  "dup position s =
     (if len s < position then trap STACK_UNDERFLOW s
      else if maxHeight s \<le> len s then trap STACK_OVERFLOW s
      else let i = len s - position
           in (Inr (), s\<lparr>store := arr_set (store s) (len s) (store s ! i), len := Suc (len s)\<rparr>))"

definition exchange :: "nat \<Rightarrow> nat \<Rightarrow> (stack, unit) op" where
  "exchange swap1 swap2 s =
     (let headIndex = int (len s) - 1; e1 = headIndex - int swap1; e2 = headIndex - int swap2
      in if e1 < 0 \<or> e2 < 0 then trap STACK_UNDERFLOW s
         else let cache = store s ! nat e2; st = (store s)[nat e2 := store s ! nat e1]
              in (Inr (), s\<lparr>store := st[nat e1 := cache]\<rparr>))"

definition getStack :: "stack \<Rightarrow> int list" where
  "getStack s = take (len s) (store s)"

section \<open>Abstraction: a bounded list, top first\<close>

definition stack_inv :: "stack \<Rightarrow> bool" where
  "stack_inv s \<longleftrightarrow> len s \<le> length (store s) \<and> len s \<le> maxHeight s"

definition items :: "stack \<Rightarrow> int list" where
  "items s = rev (getStack s)"

lemma stack_inv_new: "stack_inv (new_stack h)"
  by (simp add: stack_inv_def new_stack_def)

lemma items_new [simp]: "items (new_stack h) = []"
  by (simp add: items_def getStack_def new_stack_def)

lemma length_items: "stack_inv s \<Longrightarrow> length (items s) = len s"
  by (simp add: items_def getStack_def stack_inv_def)

lemma nth_items: "stack_inv s \<Longrightarrow> i < len s \<Longrightarrow> items s ! i = store s ! (len s - 1 - i)"
  by (simp add: items_def getStack_def stack_inv_def rev_nth)

lemma take_arr_set: "n \<le> length xs \<Longrightarrow> take (Suc n) (arr_set xs n v) = take n xs @ [v]"
  by (auto simp: arr_set_def take_Suc_conv_app_nth)

lemma length_arr_set: "length (arr_set xs i v) = (if i < length xs then length xs else Suc (length xs))"
  by (simp add: arr_set_def)

lemma push_ok:
  assumes "stack_inv s" "len s < maxHeight s"
  obtains s' where "push v s = (Inr (), s')" "stack_inv s'" "items s' = v # items s"
    "maxHeight s' = maxHeight s"
  using assms by (auto simp: push_def stack_inv_def items_def getStack_def take_arr_set length_arr_set)

lemma push_overflow: "maxHeight s \<le> len s \<Longrightarrow> push v s = (Inl (TvmError STACK_OVERFLOW), s)"
  by (simp add: push_def)

lemma items_shrink: "stack_inv s \<Longrightarrow> n \<le> len s \<Longrightarrow> items (s\<lparr>len := len s - n\<rparr>) = drop n (items s)"
  by (simp add: items_def getStack_def stack_inv_def drop_rev)

lemma stack_inv_shrink: "stack_inv s \<Longrightarrow> stack_inv (s\<lparr>len := len s - n\<rparr>)"
  by (auto simp: stack_inv_def)

lemma popN_loop_eq:
  assumes "stack_inv s" "n \<le> len s"
  shows "popN_loop n s = (take n (items s), s\<lparr>len := len s - n\<rparr>)"
  using assms
proof (induction n arbitrary: s)
  case (Suc n)
  let ?s1 = "s\<lparr>len := len s - 1\<rparr>"
  from Suc.prems have items1: "items ?s1 = drop 1 (items s)"
    by (intro items_shrink) simp_all
  have hd: "items s ! 0 = store s ! (len s - 1)"
    using nth_items [of s 0] Suc.prems by simp
  have "popN_loop n ?s1 = (take n (items ?s1), ?s1\<lparr>len := len ?s1 - n\<rparr>)"
    by (rule Suc.IH) (use Suc.prems in \<open>auto simp: stack_inv_shrink\<close>)
  moreover have "items s = items s ! 0 # drop 1 (items s)"
    using Suc.prems length_items [of s] by (cases "items s") auto
  ultimately show ?case
    using hd items1 by (simp add: Let_def) (metis take_Suc_Cons)
qed simp

lemma popN_ok:
  assumes "stack_inv s" "n \<le> length (items s)"
  shows "popN n s = (Inr (take n (items s)), s\<lparr>len := len s - n\<rparr>)"
  using assms by (simp add: popN_def length_items popN_loop_eq)

lemma popN_underflow:
  "stack_inv s \<Longrightarrow> length (items s) < n \<Longrightarrow> popN n s = (Inl (TvmError STACK_UNDERFLOW), s)"
  by (simp add: popN_def length_items)

lemma pop_popN: "stack_inv s \<Longrightarrow> items s = x # xs \<Longrightarrow> pop s = (Inr x, s\<lparr>len := len s - 1\<rparr>)"
  using nth_items [of s 0] length_items [of s] by (simp add: pop_def)

lemma pop_underflow: "stack_inv s \<Longrightarrow> items s = [] \<Longrightarrow> pop s = (Inl (TvmError STACK_UNDERFLOW), s)"
  using length_items [of s] by (simp add: pop_def)

lemma peek_loop_eq:
  assumes "start \<le> length st"
  shows "peek_loop st n start =
    (if n \<le> start then Inr (take n (rev (take start st))) else Inl (TvmError STACK_UNDERFLOW))"
  using assms
proof (induction n arbitrary: start)
  case (Suc n)
  show ?case
  proof (cases start)
    case 0
    then show ?thesis by simp
  next
    case (Suc k)
    then show ?thesis using Suc.IH [of k] Suc.prems by (simp add: take_Suc_conv_app_nth)
  qed
qed simp

lemma peek_eq:
  assumes "stack_inv s"
  shows "peek n s = ((if n \<le> length (items s) then Inr (take n (items s))
    else Inl (TvmError STACK_UNDERFLOW)), s)"
  using assms by (simp add: peek_def peek_loop_eq stack_inv_def items_def getStack_def)

lemma items_update:
  assumes "stack_inv s" "i < len s"
  shows "items (s\<lparr>store := (store s)[len s - 1 - i := v]\<rparr>) = (items s)[i := v]"
  using assms by (simp add: items_def getStack_def stack_inv_def take_update_swap rev_update)

lemma stack_inv_store: "length st = length (store s) \<Longrightarrow> stack_inv (s\<lparr>store := st\<rparr>) = stack_inv s"
  by (simp add: stack_inv_def)

lemma swap_ok:
  assumes inv: "stack_inv s" and p: "p < length (items s)"
  obtains s' where "swap p s = (Inr (), s')" "stack_inv s'" "maxHeight s' = maxHeight s"
    "items s' = (items s)[0 := items s ! p, p := items s ! 0]"
proof -
  define s1 where "s1 = s\<lparr>store := (store s)[len s - 1 - 0 := items s ! p]\<rparr>"
  define s2 where "s2 = s1\<lparr>store := (store s1)[len s1 - 1 - p := items s ! 0]\<rparr>"
  have l: "p < len s" "0 < len s" using p inv by (simp_all add: length_items)
  have inv1: "stack_inv s1" using inv by (simp add: s1_def stack_inv_store)
  have "items s1 = (items s)[0 := items s ! p]"
    unfolding s1_def using inv l by (intro items_update) simp_all
  moreover have "items s2 = (items s1)[p := items s ! 0]"
    unfolding s2_def using inv1 l by (intro items_update) (simp_all add: s1_def)
  moreover have "swap p s = (Inr (), s2)"
    using inv l by (simp add: swap_def s1_def s2_def nth_items Let_def)
  moreover have "stack_inv s2" using inv1 by (simp add: s2_def stack_inv_store)
  ultimately show ?thesis by (intro that [of s2]) (simp_all add: s2_def s1_def)
qed

lemma swap_underflow:
  "stack_inv s \<Longrightarrow> length (items s) \<le> p \<Longrightarrow> swap p s = (Inl (TvmError STACK_UNDERFLOW), s)"
  by (simp add: swap_def length_items)

lemma dup_ok:
  assumes inv: "stack_inv s" and p: "0 < p" "p \<le> length (items s)" and h: "len s < maxHeight s"
  obtains s' where "dup p s = (Inr (), s')" "stack_inv s'" "maxHeight s' = maxHeight s"
    "items s' = items s ! (p - 1) # items s"
proof -
  have l: "p \<le> len s" using p inv by (simp add: length_items)
  have "len s - 1 - (p - 1) = len s - p" using p l by simp
  moreover have "items s ! (p - 1) = store s ! (len s - 1 - (p - 1))"
    by (rule nth_items [OF inv]) (use p l in simp)
  ultimately have "dup p s = push (items s ! (p - 1)) s"
    using l h by (simp add: dup_def push_def Let_def)
  with push_ok [OF inv h] that show ?thesis by metis
qed

lemma exchange_ok:
  assumes inv: "stack_inv s" and l: "a < length (items s)" "b < length (items s)"
  obtains s' where "exchange a b s = (Inr (), s')" "stack_inv s'" "maxHeight s' = maxHeight s"
    "items s' = (items s)[b := items s ! a, a := items s ! b]"
proof -
  define s1 where "s1 = s\<lparr>store := (store s)[len s - 1 - b := items s ! a]\<rparr>"
  define s2 where "s2 = s1\<lparr>store := (store s1)[len s1 - 1 - a := items s ! b]\<rparr>"
  have ll: "a < len s" "b < len s" using l inv by (simp_all add: length_items)
  have inv1: "stack_inv s1" using inv by (simp add: s1_def stack_inv_store)
  have "items s1 = (items s)[b := items s ! a]"
    unfolding s1_def using inv ll by (intro items_update) simp_all
  moreover have "items s2 = (items s1)[a := items s ! b]"
    unfolding s2_def using inv1 ll by (intro items_update) (simp_all add: s1_def)
  moreover have "nat (int (len s) - 1 - int a) = len s - 1 - a"
    "nat (int (len s) - 1 - int b) = len s - 1 - b" using ll by auto
  then have "exchange a b s = (Inr (), s2)"
    using inv ll by (simp add: exchange_def s1_def s2_def nth_items Let_def)
  moreover have "stack_inv s2" using inv1 by (simp add: s2_def stack_inv_store)
  ultimately show ?thesis by (intro that [of s2]) (simp_all add: s2_def s1_def)
qed

lemma dup_underflow:
  "stack_inv s \<Longrightarrow> length (items s) < p \<Longrightarrow> dup p s = (Inl (TvmError STACK_UNDERFLOW), s)"
  by (simp add: dup_def length_items)

lemma dup_overflow:
  "stack_inv s \<Longrightarrow> p \<le> length (items s) \<Longrightarrow> maxHeight s \<le> len s \<Longrightarrow>
   dup p s = (Inl (TvmError STACK_OVERFLOW), s)"
  by (simp add: dup_def length_items)

lemma exchange_underflow:
  "stack_inv s \<Longrightarrow> length (items s) \<le> a \<or> length (items s) \<le> b \<Longrightarrow>
   exchange a b s = (Inl (TvmError STACK_UNDERFLOW), s)"
  by (auto simp: exchange_def length_items Let_def)

section \<open>The contract of the handlers\<close>

text \<open>
  What an opcode handler relies on: a bounded stack observed through \<open>view\<close>, whose operations
  report an empty or a full stack without changing it. \<open>pushf\<close>, \<open>popNf\<close>, \<open>dupf\<close>,
  \<open>swapf\<close> are the operations the handlers call.
\<close>

locale bounded_stack =
  fixes inv :: "'s \<Rightarrow> bool" and view :: "'s \<Rightarrow> int list" and cap :: "'s \<Rightarrow> nat"
    and pushf :: "int \<Rightarrow> ('s, unit) op" and popNf :: "nat \<Rightarrow> ('s, int list) op"
    and dupf :: "nat \<Rightarrow> ('s, unit) op" and swapf :: "nat \<Rightarrow> ('s, unit) op"
  assumes bounded: "inv s \<Longrightarrow> length (view s) \<le> cap s"
    and push_room: "inv s \<Longrightarrow> length (view s) < cap s \<Longrightarrow>
      \<exists>s'. pushf v s = (Inr (), s') \<and> inv s' \<and> cap s' = cap s \<and> view s' = v # view s"
    and push_full: "inv s \<Longrightarrow> length (view s) = cap s \<Longrightarrow>
      pushf v s = (Inl (TvmError STACK_OVERFLOW), s)"
    and popN_enough: "inv s \<Longrightarrow> n \<le> length (view s) \<Longrightarrow>
      \<exists>s'. popNf n s = (Inr (take n (view s)), s') \<and> inv s' \<and> cap s' = cap s \<and> view s' = drop n (view s)"
    and popN_short: "inv s \<Longrightarrow> length (view s) < n \<Longrightarrow>
      popNf n s = (Inl (TvmError STACK_UNDERFLOW), s)"
    and dup_room: "inv s \<Longrightarrow> 0 < p \<Longrightarrow> p \<le> length (view s) \<Longrightarrow> length (view s) < cap s \<Longrightarrow>
      \<exists>s'. dupf p s = (Inr (), s') \<and> inv s' \<and> cap s' = cap s \<and> view s' = view s ! (p - 1) # view s"
    and dup_short: "inv s \<Longrightarrow> length (view s) < p \<Longrightarrow> dupf p s = (Inl (TvmError STACK_UNDERFLOW), s)"
    and dup_full: "inv s \<Longrightarrow> p \<le> length (view s) \<Longrightarrow> length (view s) = cap s \<Longrightarrow>
      dupf p s = (Inl (TvmError STACK_OVERFLOW), s)"
    and swap_enough: "inv s \<Longrightarrow> p < length (view s) \<Longrightarrow>
      \<exists>s'. swapf p s = (Inr (), s') \<and> inv s' \<and> cap s' = cap s \<and>
        view s' = (view s)[0 := view s ! p, p := view s ! 0]"
    and swap_short: "inv s \<Longrightarrow> length (view s) \<le> p \<Longrightarrow> swapf p s = (Inl (TvmError STACK_UNDERFLOW), s)"
begin

text \<open>A handler that pops arguments and pushes one result replaces them, and never overflows.\<close>

lemma compute_enough:
  assumes "inv s" "0 < n" "n \<le> length (view s)"
  shows "\<exists>s'. bnd (popNf n) (\<lambda>v. pushf (f v)) s = (Inr (), s') \<and> inv s' \<and> cap s' = cap s \<and>
    view s' = f (take n (view s)) # drop n (view s)"
proof -
  obtain s1 where s1: "popNf n s = (Inr (take n (view s)), s1)" "inv s1" "cap s1 = cap s"
    "view s1 = drop n (view s)"
    using popN_enough [OF assms(1,3)] by blast
  have "length (view s1) < cap s1"
    using s1 assms bounded [OF assms(1)] by simp
  from push_room [OF s1(2) this] show ?thesis
    using s1 by (auto simp: bnd_def)
qed

lemma compute_short:
  "inv s \<Longrightarrow> length (view s) < n \<Longrightarrow>
   bnd (popNf n) (\<lambda>v. pushf (f v)) s = (Inl (TvmError STACK_UNDERFLOW), s)"
  by (simp add: bnd_Inl popN_short)

lemma keeps_push: "keeps inv (pushf v)"
proof -
  have "inv (snd (pushf v s))" if "inv s" for s
    using that push_full [of s v] push_room [of s v] bounded [of s]
    by (cases "length (view s) < cap s") auto
  then show ?thesis by (simp add: keeps_def)
qed

lemma keeps_popN: "keeps inv (popNf n)"
proof -
  have "inv (snd (popNf n s))" if "inv s" for s
    using that popN_enough [of s n] popN_short [of s n] by (cases "n \<le> length (view s)") auto
  then show ?thesis by (simp add: keeps_def)
qed

text \<open>Duplicating the top and swapping the two copies is the same as duplicating it.\<close>

lemma dup_then_swap:
  assumes "inv s" "view s \<noteq> []" "length (view s) < cap s"
  shows "\<exists>s'. sq (dupf 1) (swapf 1) s = (Inr (), s') \<and> inv s' \<and> view s' = hd (view s) # view s"
proof -
  have "1 \<le> length (view s)" using assms(2) by (cases "view s") auto
  then obtain s1 where s1: "dupf 1 s = (Inr (), s1)" "inv s1" "view s1 = view s ! 0 # view s"
    using dup_room [of s 1] assms by auto
  with assms(2) have "1 < length (view s1)" by (cases "view s") auto
  from swap_enough [OF s1(2) this] s1 assms(2) show ?thesis
    by (cases "view s") (auto simp: sq_def bnd_def)
qed

text \<open>Swapping twice restores the stack.\<close>

lemma swap_swap:
  assumes "inv s" "p < length (view s)"
  shows "\<exists>s'. sq (swapf p) (swapf p) s = (Inr (), s') \<and> inv s' \<and> view s' = view s"
proof -
  obtain s1 where s1: "swapf p s = (Inr (), s1)" "inv s1"
    "view s1 = (view s)[0 := view s ! p, p := view s ! 0]"
    using swap_enough [OF assms] by blast
  have 0: "0 < length (view s)" using assms(2) by linarith
  have "p < length (view s1)" using s1 assms by simp
  then obtain s2 where s2: "swapf p s1 = (Inr (), s2)" "inv s2"
    "view s2 = (view s1)[0 := view s1 ! p, p := view s1 ! 0]"
    using swap_enough [OF s1(2)] by blast
  have "view s2 = view s"
    unfolding s2(3) s1(3) using assms(2) 0
    by (cases "p = 0") (simp_all add: list_update_swap nth_list_update)
  with s1 s2 show ?thesis by (simp add: sq_def bnd_def)
qed

end

interpretation tvm_stack: bounded_stack stack_inv items maxHeight push popN dup swap
proof unfold_locales
  fix s :: stack and v :: int and n p :: nat
  assume inv: "stack_inv s"
  note l = length_items [OF inv]
  show "length (items s) \<le> maxHeight s" using inv l by (simp add: stack_inv_def)
  { assume "length (items s) < maxHeight s"
    then show "\<exists>s'. push v s = (Inr (), s') \<and> stack_inv s' \<and> maxHeight s' = maxHeight s \<and>
        items s' = v # items s"
      using push_ok [OF inv] l by metis }
  { assume "length (items s) = maxHeight s"
    then show "push v s = (Inl (TvmError STACK_OVERFLOW), s)" using l by (simp add: push_overflow) }
  { assume "n \<le> length (items s)"
    then show "\<exists>s'. popN n s = (Inr (take n (items s)), s') \<and> stack_inv s' \<and>
        maxHeight s' = maxHeight s \<and> items s' = drop n (items s)"
      using inv l by (simp add: popN_ok stack_inv_shrink items_shrink) }
  { assume "length (items s) < n"
    then show "popN n s = (Inl (TvmError STACK_UNDERFLOW), s)" using inv by (rule popN_underflow [rotated]) }
  { assume "0 < p" "p \<le> length (items s)" "length (items s) < maxHeight s"
    then show "\<exists>s'. dup p s = (Inr (), s') \<and> stack_inv s' \<and> maxHeight s' = maxHeight s \<and>
        items s' = items s ! (p - 1) # items s"
      using dup_ok [OF inv] l by metis }
  { assume "length (items s) < p"
    then show "dup p s = (Inl (TvmError STACK_UNDERFLOW), s)" using inv by (rule dup_underflow [rotated]) }
  { assume "p \<le> length (items s)" "length (items s) = maxHeight s"
    then show "dup p s = (Inl (TvmError STACK_OVERFLOW), s)" using inv l by (simp add: dup_overflow) }
  { assume "p < length (items s)"
    then show "\<exists>s'. swap p s = (Inr (), s') \<and> stack_inv s' \<and> maxHeight s' = maxHeight s \<and>
        items s' = (items s)[0 := items s ! p, p := items s ! 0]"
      using swap_ok [OF inv] by metis }
  { assume "length (items s) \<le> p"
    then show "swap p s = (Inl (TvmError STACK_UNDERFLOW), s)" using inv by (rule swap_underflow [rotated]) }
qed

end
