(* ===== verification/Params.thy ===== *)
theory Params
  imports OpUtil
begin

text \<open>
  The execution profile and its parameters: \<^verbatim>\<open>packages/common/src/profiles.ts\<close>, the parameter
  cache of \<^verbatim>\<open>packages/common/src/common.ts\<close> and the tables of \<^verbatim>\<open>packages/tvm/src/params.ts\<close>
  (the numeric entries). A configuration chooses whether the optional EIP-7939 and governance
  proposal 65 are active; the TVM constructor refuses every other EIP, so the branches guarded by
  an EIP outside the profile are unreachable.
\<close>

section \<open>Profile\<close>

record common =
  eip7939 :: bool
  proposal65 :: bool

definition profile_eips :: "nat list" where
  "profile_eips = [1, 606, 608, 607, 609, 1013, 1716, 1679, 2565, 2718, 2930, 1559, 3198, 3541, 3855,
     1153, 5656, 6780]"

definition activatedEIPs :: "common \<Rightarrow> nat list" where
  "activatedEIPs c = profile_eips @ (if eip7939 c then [7939] else [])"

definition isActivatedEIP :: "common \<Rightarrow> nat \<Rightarrow> bool" where
  "isActivatedEIP c eip \<longleftrightarrow> List.member (activatedEIPs c) eip"

definition isActivatedProposal :: "common \<Rightarrow> nat \<Rightarrow> bool" where
  "isActivatedProposal c p \<longleftrightarrow> p = 65 \<and> proposal65 c"

section \<open>Parameter tables\<close>

definition params_tron :: "(string \<times> int) list" where
  "params_tron =
    [(''expByteGas'', 10), (''balanceGas'', 20), (''extcodesizeGas'', 20), (''extcodecopyGas'', 20),
    (''extcodehashGas'', 400), (''sloadGas'', 50), (''sstoreSetGas'', 20000),
    (''sstoreResetGas'', 5000), (''sstoreRefundGas'', 0), (''callGas'', 40), (''callcodeGas'', 40),
    (''delegatecallGas'', 40), (''staticcallGas'', 40), (''calltokenGas'', 40),
    (''tokenbalanceGas'', 20), (''iscontractGas'', 20), (''selfdestructGas'', 5000),
    (''selfdestructRefundGas'', 0), (''mloadGas'', 0), (''mstoreGas'', 0), (''mstore8Gas'', 0),
    (''calldatacopyGas'', 0), (''codecopyGas'', 0), (''returndatacopyGas'', 0)]"

definition params_1 :: "(string \<times> int) list" where
  "params_1 =
    [(''maxRefundQuotient'', 2), (''basefeeGas'', 2), (''expGas'', 10), (''expByteGas'', 10),
    (''keccak256Gas'', 30), (''keccak256WordGas'', 6), (''sloadGas'', 50),
    (''sstoreSetGas'', 20000), (''sstoreResetGas'', 5000), (''sstoreRefundGas'', 15000),
    (''jumpdestGas'', 1), (''logGas'', 375), (''logDataGas'', 8), (''logTopicGas'', 375),
    (''createGas'', 32000), (''callGas'', 40), (''callStipendGas'', 2300),
    (''callValueTransferGas'', 9000), (''callNewAccountGas'', 25000),
    (''selfdestructRefundGas'', 24000), (''memoryGas'', 3), (''quadCoefficientDivGas'', 512),
    (''createDataGas'', 200), (''copyGas'', 3), (''ecRecoverGas'', 3000), (''sha256Gas'', 60),
    (''sha256WordGas'', 12), (''ripemd160Gas'', 600), (''ripemd160WordGas'', 120),
    (''identityGas'', 15), (''identityWordGas'', 3), (''stopGas'', 0), (''addGas'', 3),
    (''mulGas'', 5), (''subGas'', 3), (''divGas'', 5), (''sdivGas'', 5), (''modGas'', 5),
    (''smodGas'', 5), (''addmodGas'', 8), (''mulmodGas'', 8), (''signextendGas'', 5),
    (''ltGas'', 3), (''gtGas'', 3), (''sltGas'', 3), (''sgtGas'', 3), (''eqGas'', 3),
    (''iszeroGas'', 3), (''andGas'', 3), (''orGas'', 3), (''xorGas'', 3), (''notGas'', 3),
    (''byteGas'', 3), (''addressGas'', 2), (''balanceGas'', 20), (''originGas'', 2),
    (''callerGas'', 2), (''callvalueGas'', 2), (''calldataloadGas'', 3), (''calldatasizeGas'', 2),
    (''calldatacopyGas'', 3), (''codesizeGas'', 2), (''codecopyGas'', 3), (''gaspriceGas'', 2),
    (''extcodesizeGas'', 20), (''extcodecopyGas'', 20), (''blockhashGas'', 20),
    (''coinbaseGas'', 2), (''timestampGas'', 2), (''numberGas'', 2), (''difficultyGas'', 2),
    (''gaslimitGas'', 2), (''slotnumGas'', 2), (''popGas'', 2), (''mloadGas'', 3),
    (''mstoreGas'', 3), (''mstore8Gas'', 3), (''sstoreGas'', 0), (''jumpGas'', 8),
    (''jumpiGas'', 10), (''pcGas'', 2), (''msizeGas'', 2), (''gasGas'', 2), (''pushGas'', 3),
    (''dupGas'', 3), (''swapGas'', 3), (''callcodeGas'', 40), (''returnGas'', 0),
    (''invalidGas'', 0), (''selfdestructGas'', 0), (''prevrandaoGas'', 0), (''stackLimit'', 64),
    (''delegatecallGas'', 40), (''staticcallGas'', 40), (''extcodehashGas'', 400),
    (''calltokenGas'', 40), (''tokenbalanceGas'', 20), (''calltokenvalueGas'', 2),
    (''calltokenidGas'', 2), (''iscontractGas'', 20), (''batchvalidatesignGas'', 1500),
    (''validatemultisignGas'', 1500)]"

definition params_606 :: "(string \<times> int) list" where
  "params_606 =
    [(''delegatecallGas'', 40)]"

definition params_608 :: "(string \<times> int) list" where
  "params_608 =
    [(''sloadGas'', 200), (''callGas'', 700), (''extcodesizeGas'', 700), (''extcodecopyGas'', 700),
    (''balanceGas'', 400), (''delegatecallGas'', 700), (''callcodeGas'', 700),
    (''selfdestructGas'', 5000)]"

definition params_607 :: "(string \<times> int) list" where
  "params_607 =
    [(''expByteGas'', 50)]"

definition params_609 :: "(string \<times> int) list" where
  "params_609 =
    [(''modexpGquaddivisorGas'', 20), (''bn254AddGas'', 500), (''bn254MulGas'', 40000),
    (''bn254PairingGas'', 100000), (''bn254PairingWordGas'', 80000), (''revertGas'', 0),
    (''staticcallGas'', 700), (''returndatasizeGas'', 2), (''returndatacopyGas'', 3)]"

definition params_1013 :: "(string \<times> int) list" where
  "params_1013 =
    [(''shlGas'', 3), (''shrGas'', 3), (''sarGas'', 3), (''extcodehashGas'', 400),
    (''create2Gas'', 32000)]"

definition params_1679 :: "(string \<times> int) list" where
  "params_1679 =
    [(''blake2RoundGas'', 1), (''bn254AddGas'', 150), (''bn254MulGas'', 6000),
    (''bn254PairingGas'', 45000), (''bn254PairingWordGas'', 34000), (''balanceGas'', 700),
    (''extcodehashGas'', 700), (''chainidGas'', 2), (''selfbalanceGas'', 5), (''sloadGas'', 800)]"

definition params_8024 :: "(string \<times> int) list" where
  "params_8024 =
    [(''dupnGas'', 3), (''swapnGas'', 3), (''exchangeGas'', 3)]"

definition params_1153 :: "(string \<times> int) list" where
  "params_1153 =
    [(''tstoreGas'', 100), (''tloadGas'', 100)]"

definition params_1559 :: "(string \<times> int) list" where
  "params_1559 =
    [(''elasticityMultiplier'', 2)]"

definition params_2565 :: "(string \<times> int) list" where
  "params_2565 =
    [(''modexpGquaddivisorGas'', 3)]"

definition params_2537 :: "(string \<times> int) list" where
  "params_2537 =
    [(''bls12381G1AddGas'', 375), (''bls12381G1MulGas'', 12000), (''bls12381G2AddGas'', 600),
    (''bls12381G2MulGas'', 22500), (''bls12381PairingBaseGas'', 37700),
    (''bls12381PairingPerPairGas'', 32600), (''bls12381MapG1Gas'', 5500),
    (''bls12381MapG2Gas'', 23800)]"

definition params_2929 :: "(string \<times> int) list" where
  "params_2929 =
    [(''coldaccountaccessGas'', 2600), (''warmstoragereadGas'', 100), (''callGas'', 0),
    (''callcodeGas'', 0), (''delegatecallGas'', 0), (''staticcallGas'', 0), (''balanceGas'', 0),
    (''extcodesizeGas'', 0), (''extcodecopyGas'', 0), (''extcodehashGas'', 0), (''sloadGas'', 0),
    (''sstoreGas'', 0)]"

definition params_2935 :: "(string \<times> int) list" where
  "params_2935 =
    [(''historyServeWindow'', 8192)]"

definition params_3198 :: "(string \<times> int) list" where
  "params_3198 =
    [(''basefeeGas'', 2)]"

definition params_3529 :: "(string \<times> int) list" where
  "params_3529 =
    [(''maxRefundQuotient'', 5), (''selfdestructRefundGas'', 0)]"

definition params_3855 :: "(string \<times> int) list" where
  "params_3855 =
    [(''push0Gas'', 2)]"

definition params_4200 :: "(string \<times> int) list" where
  "params_4200 =
    [(''rjumpGas'', 2), (''rjumpiGas'', 4), (''rjumpvGas'', 4)]"

definition params_4399 :: "(string \<times> int) list" where
  "params_4399 =
    [(''prevrandaoGas'', 2)]"

definition params_4750 :: "(string \<times> int) list" where
  "params_4750 =
    [(''callfGas'', 5), (''retfGas'', 3)]"

definition params_5656 :: "(string \<times> int) list" where
  "params_5656 =
    [(''mcopyGas'', 3)]"

definition params_6206 :: "(string \<times> int) list" where
  "params_6206 =
    [(''jumpfGas'', 5)]"

definition params_7069 :: "(string \<times> int) list" where
  "params_7069 =
    [(''extcallGas'', 0), (''extdelegatecallGas'', 0), (''extstaticcallGas'', 0),
    (''returndataloadGas'', 3), (''minRetainedGas'', 5000), (''minCalleeGas'', 2300)]"

definition params_7620 :: "(string \<times> int) list" where
  "params_7620 =
    [(''eofcreateGas'', 32000), (''returncontractGas'', 0)]"

definition params_7939 :: "(string \<times> int) list" where
  "params_7939 =
    [(''clzGas'', 5)]"

definition paramsTVM :: "nat \<Rightarrow> (string \<times> int) list" where
  "paramsTVM eip =
     (if eip = 1 then params_1
      else if eip = 606 then params_606
      else if eip = 608 then params_608
      else if eip = 607 then params_607
      else if eip = 609 then params_609
      else if eip = 1013 then params_1013
      else if eip = 1679 then params_1679
      else if eip = 8024 then params_8024
      else if eip = 1153 then params_1153
      else if eip = 1559 then params_1559
      else if eip = 2565 then params_2565
      else if eip = 2537 then params_2537
      else if eip = 2929 then params_2929
      else if eip = 2935 then params_2935
      else if eip = 3198 then params_3198
      else if eip = 3529 then params_3529
      else if eip = 3855 then params_3855
      else if eip = 4200 then params_4200
      else if eip = 4399 then params_4399
      else if eip = 4750 then params_4750
      else if eip = 5656 then params_5656
      else if eip = 6206 then params_6206
      else if eip = 7069 then params_7069
      else if eip = 7620 then params_7620
      else if eip = 7939 then params_7939
      else [])"

section \<open>The parameter cache\<close>

text \<open>
  \<^verbatim>\<open>_buildParamsCache\<close>: the groups of the profile in their declared order, then the group of the
  hardfork, then the optional EIPs; a later entry overwrites an earlier one.
\<close>

definition buildParamsCache :: "common \<Rightarrow> (string \<times> int) list list" where
  "buildParamsCache c =
     map paramsTVM profile_eips @ [params_tron] @ (if eip7939 c then [paramsTVM 7939] else [])"

definition param_opt :: "common \<Rightarrow> string \<Rightarrow> int option" where
  "param_opt c name =
     foldl (\<lambda>r g. case map_of g name of None \<Rightarrow> r | Some v \<Rightarrow> Some v) None (buildParamsCache c)"

text \<open>\<^verbatim>\<open>common.param(name)\<close>, for a name that is in the cache.\<close>

definition param :: "common \<Rightarrow> string \<Rightarrow> int" where
  "param c name = (case param_opt c name of None \<Rightarrow> 0 | Some v \<Rightarrow> v)"

section \<open>Facts about the profile\<close>

lemma inactive_eips:
  "\<not> isActivatedEIP c 7864" "\<not> isActivatedEIP c 6800" "\<not> isActivatedEIP c 7928"
  "\<not> isActivatedEIP c 7708" "\<not> isActivatedEIP c 3540" "\<not> isActivatedEIP c 8024"
  "\<not> isActivatedEIP c 4399" "\<not> isActivatedEIP c 7709" "\<not> isActivatedEIP c 2929"
  "\<not> isActivatedEIP c 7843" "\<not> isActivatedEIP c 7620" "\<not> isActivatedEIP c 7069"
  by (simp_all add: isActivatedEIP_def activatedEIPs_def profile_eips_def)

lemmas params_defs = paramsTVM_def params_tron_def profile_eips_def
  params_1_def params_606_def params_608_def params_607_def params_609_def params_1013_def params_1679_def params_8024_def params_1153_def params_1559_def params_2565_def params_2537_def params_2929_def params_2935_def params_3198_def params_3529_def params_3855_def params_4200_def params_4399_def params_4750_def params_5656_def params_6206_def params_7069_def params_7620_def params_7939_def

lemma params_nonneg: "list_all (list_all (\<lambda>(k, v). 0 \<le> v)) (buildParamsCache c)"
  by (simp add: buildParamsCache_def params_defs)

lemma lookup_groups_nonneg:
  "list_all (list_all (\<lambda>(k, v). 0 \<le> v)) gs \<Longrightarrow> (\<And>v. r = Some v \<Longrightarrow> 0 \<le> v) \<Longrightarrow>
   foldl (\<lambda>r g. case map_of g name of None \<Rightarrow> r | Some v \<Rightarrow> Some v) r gs = Some w \<Longrightarrow> 0 \<le> (w :: int)"
proof (induction gs arbitrary: r)
  case (Cons g gs)
  let ?r = "case map_of g name of None \<Rightarrow> r | Some v \<Rightarrow> Some v"
  have "0 \<le> v" if "?r = Some v" for v
    using that Cons.prems(1,2) by (auto simp: list_all_iff split: option.splits dest!: map_of_SomeD)
  with Cons.IH [of ?r] Cons.prems(1,3) show ?case by simp
qed simp

lemma param_nonneg: "0 \<le> param c name"
  using lookup_groups_nonneg [OF params_nonneg, of None]
  by (auto simp: param_def param_opt_def split: option.splits)

text \<open>The cache without the optional group, as a constant that evaluates.\<close>

definition base_param :: "string \<Rightarrow> int option" where
  "base_param name = foldl (\<lambda>r g. case map_of g name of None \<Rightarrow> r | Some v \<Rightarrow> Some v) None
     (map paramsTVM profile_eips @ [params_tron])"

lemma param_base:
  assumes "base_param name = Some v" "name \<noteq> ''clzGas''"
  shows "param c name = v"
proof -
  have "param_opt c name = (if eip7939 c
      then case map_of (paramsTVM 7939) name of None \<Rightarrow> base_param name | Some v \<Rightarrow> Some v
      else base_param name)"
    by (simp add: param_opt_def base_param_def buildParamsCache_def split: option.splits)
  moreover have "map_of (paramsTVM 7939) name = None"
    using assms(2) by (simp add: paramsTVM_def params_7939_def)
  ultimately show ?thesis using assms(1) by (simp add: param_def)
qed

lemma param_memoryGas [simp]: "param c ''memoryGas'' = 3"
  by (rule param_base) (simp_all add: base_param_def params_defs)

lemma param_quadCoefficientDivGas [simp]: "param c ''quadCoefficientDivGas'' = 512"
  by (rule param_base) (simp_all add: base_param_def params_defs)

lemma param_callStipendGas [simp]: "param c ''callStipendGas'' = 2300"
  by (rule param_base) (simp_all add: base_param_def params_defs)

lemma param_callValueTransferGas [simp]: "param c ''callValueTransferGas'' = 9000"
  by (rule param_base) (simp_all add: base_param_def params_defs)

lemma param_callNewAccountGas [simp]: "param c ''callNewAccountGas'' = 25000"
  by (rule param_base) (simp_all add: base_param_def params_defs)

lemma param_createDataGas [simp]: "param c ''createDataGas'' = 200"
  by (rule param_base) (simp_all add: base_param_def params_defs)

lemma param_sstoreSetGas [simp]: "param c ''sstoreSetGas'' = 20000"
  by (rule param_base) (simp_all add: base_param_def params_defs)

lemma param_sstoreResetGas [simp]: "param c ''sstoreResetGas'' = 5000"
  by (rule param_base) (simp_all add: base_param_def params_defs)

lemma param_keccak256WordGas [simp]: "param c ''keccak256WordGas'' = 6"
  by (rule param_base) (simp_all add: base_param_def params_defs)

lemma param_copyGas [simp]: "param c ''copyGas'' = 3"
  by (rule param_base) (simp_all add: base_param_def params_defs)

lemma param_logDataGas [simp]: "param c ''logDataGas'' = 8"
  by (rule param_base) (simp_all add: base_param_def params_defs)

lemma param_logTopicGas [simp]: "param c ''logTopicGas'' = 375"
  by (rule param_base) (simp_all add: base_param_def params_defs)

lemma param_expByteGas [simp]: "param c ''expByteGas'' = 10"
  by (rule param_base) (simp_all add: base_param_def params_defs)

lemma param_stackLimit [simp]: "param c ''stackLimit'' = 64"
  by (rule param_base) (simp_all add: base_param_def params_defs)

lemma param_jumpGas [simp]: "param c ''jumpGas'' = 8"
  by (rule param_base) (simp_all add: base_param_def params_defs)

lemma param_jumpiGas [simp]: "param c ''jumpiGas'' = 10"
  by (rule param_base) (simp_all add: base_param_def params_defs)

lemma param_stopGas [simp]: "param c ''stopGas'' = 0"
  by (rule param_base) (simp_all add: base_param_def params_defs)

end
