(* ===== verification/Opcodes.thy ===== *)
theory Opcodes
  imports Params
begin

text \<open>
  The instruction table of \<^verbatim>\<open>packages/tvm/src/opcodes/codes.ts\<close>: the base list, the entries
  added by capabilities and EIPs of the profile, the base fee taken from the parameters, and the
  map of 256 entries in which an unassigned opcode is INVALID. Custom opcodes are not modelled.
\<close>

section \<open>Entries\<close>

record op_entry =
  en_name :: string
  en_isAsync :: bool
  en_dynamicGas :: bool

definition default_op :: "string \<Rightarrow> op_entry" where
  "default_op name = \<lparr>en_name = name, en_isAsync = False, en_dynamicGas = False\<rparr>"

definition dynamicGas_op :: "string \<Rightarrow> op_entry" where
  "dynamicGas_op name = \<lparr>en_name = name, en_isAsync = False, en_dynamicGas = True\<rparr>"

definition async_op :: "string \<Rightarrow> op_entry" where
  "async_op name = \<lparr>en_name = name, en_isAsync = True, en_dynamicGas = False\<rparr>"

definition asyncAndDynamicGas_op :: "string \<Rightarrow> op_entry" where
  "asyncAndDynamicGas_op name = \<lparr>en_name = name, en_isAsync = True, en_dynamicGas = True\<rparr>"

definition opcodes :: "(nat \<times> op_entry) list" where
  "opcodes =
    [(0x00, default_op ''STOP''), (0x01, default_op ''ADD''), (0x02, default_op ''MUL''),
    (0x03, default_op ''SUB''), (0x04, default_op ''DIV''), (0x05, default_op ''SDIV''),
    (0x06, default_op ''MOD''), (0x07, default_op ''SMOD''), (0x08, default_op ''ADDMOD''),
    (0x09, default_op ''MULMOD''), (0x0a, dynamicGas_op ''EXP''),
    (0x0b, default_op ''SIGNEXTEND''), (0x10, default_op ''LT''), (0x11, default_op ''GT''),
    (0x12, default_op ''SLT''), (0x13, default_op ''SGT''), (0x14, default_op ''EQ''),
    (0x15, default_op ''ISZERO''), (0x16, default_op ''AND''), (0x17, default_op ''OR''),
    (0x18, default_op ''XOR''), (0x19, default_op ''NOT''), (0x1a, default_op ''BYTE''),
    (0x20, dynamicGas_op ''KECCAK256''), (0x30, async_op ''ADDRESS''),
    (0x31, asyncAndDynamicGas_op ''BALANCE''), (0x32, async_op ''ORIGIN''),
    (0x33, async_op ''CALLER''), (0x34, async_op ''CALLVALUE''), (0x35, async_op ''CALLDATALOAD''),
    (0x36, async_op ''CALLDATASIZE''), (0x37, asyncAndDynamicGas_op ''CALLDATACOPY''),
    (0x38, default_op ''CODESIZE''), (0x39, dynamicGas_op ''CODECOPY''),
    (0x3a, default_op ''GASPRICE''), (0x3b, asyncAndDynamicGas_op ''EXTCODESIZE''),
    (0x3c, asyncAndDynamicGas_op ''EXTCODECOPY''), (0x40, async_op ''BLOCKHASH''),
    (0x41, async_op ''COINBASE''), (0x42, async_op ''TIMESTAMP''), (0x43, async_op ''NUMBER''),
    (0x44, async_op ''DIFFICULTY''), (0x45, async_op ''GASLIMIT''), (0x50, default_op ''POP''),
    (0x51, dynamicGas_op ''MLOAD''), (0x52, dynamicGas_op ''MSTORE''),
    (0x53, dynamicGas_op ''MSTORE8''), (0x54, asyncAndDynamicGas_op ''SLOAD''),
    (0x55, asyncAndDynamicGas_op ''SSTORE''), (0x56, default_op ''JUMP''),
    (0x57, default_op ''JUMPI''), (0x58, default_op ''PC''), (0x59, default_op ''MSIZE''),
    (0x5a, default_op ''GAS''), (0x5b, default_op ''JUMPDEST''), (0x60, default_op ''PUSH''),
    (0x61, default_op ''PUSH''), (0x62, default_op ''PUSH''), (0x63, default_op ''PUSH''),
    (0x64, default_op ''PUSH''), (0x65, default_op ''PUSH''), (0x66, default_op ''PUSH''),
    (0x67, default_op ''PUSH''), (0x68, default_op ''PUSH''), (0x69, default_op ''PUSH''),
    (0x6a, default_op ''PUSH''), (0x6b, default_op ''PUSH''), (0x6c, default_op ''PUSH''),
    (0x6d, default_op ''PUSH''), (0x6e, default_op ''PUSH''), (0x6f, default_op ''PUSH''),
    (0x70, default_op ''PUSH''), (0x71, default_op ''PUSH''), (0x72, default_op ''PUSH''),
    (0x73, default_op ''PUSH''), (0x74, default_op ''PUSH''), (0x75, default_op ''PUSH''),
    (0x76, default_op ''PUSH''), (0x77, default_op ''PUSH''), (0x78, default_op ''PUSH''),
    (0x79, default_op ''PUSH''), (0x7a, default_op ''PUSH''), (0x7b, default_op ''PUSH''),
    (0x7c, default_op ''PUSH''), (0x7d, default_op ''PUSH''), (0x7e, default_op ''PUSH''),
    (0x7f, default_op ''PUSH''), (0x80, default_op ''DUP''), (0x81, default_op ''DUP''),
    (0x82, default_op ''DUP''), (0x83, default_op ''DUP''), (0x84, default_op ''DUP''),
    (0x85, default_op ''DUP''), (0x86, default_op ''DUP''), (0x87, default_op ''DUP''),
    (0x88, default_op ''DUP''), (0x89, default_op ''DUP''), (0x8a, default_op ''DUP''),
    (0x8b, default_op ''DUP''), (0x8c, default_op ''DUP''), (0x8d, default_op ''DUP''),
    (0x8e, default_op ''DUP''), (0x8f, default_op ''DUP''), (0x90, default_op ''SWAP''),
    (0x91, default_op ''SWAP''), (0x92, default_op ''SWAP''), (0x93, default_op ''SWAP''),
    (0x94, default_op ''SWAP''), (0x95, default_op ''SWAP''), (0x96, default_op ''SWAP''),
    (0x97, default_op ''SWAP''), (0x98, default_op ''SWAP''), (0x99, default_op ''SWAP''),
    (0x9a, default_op ''SWAP''), (0x9b, default_op ''SWAP''), (0x9c, default_op ''SWAP''),
    (0x9d, default_op ''SWAP''), (0x9e, default_op ''SWAP''), (0x9f, default_op ''SWAP''),
    (0xa0, dynamicGas_op ''LOG''), (0xa1, dynamicGas_op ''LOG''), (0xa2, dynamicGas_op ''LOG''),
    (0xa3, dynamicGas_op ''LOG''), (0xa4, dynamicGas_op ''LOG''),
    (0xf0, asyncAndDynamicGas_op ''CREATE''), (0xf1, asyncAndDynamicGas_op ''CALL''),
    (0xf2, asyncAndDynamicGas_op ''CALLCODE''), (0xf3, dynamicGas_op ''RETURN''),
    (0xfe, default_op ''INVALID''), (0xff, asyncAndDynamicGas_op ''SELFDESTRUCT''),
    (0xd0, asyncAndDynamicGas_op ''CALLTOKEN''), (0xd1, asyncAndDynamicGas_op ''TOKENBALANCE''),
    (0xd2, async_op ''CALLTOKENVALUE''), (0xd3, async_op ''CALLTOKENID''),
    (0xd4, asyncAndDynamicGas_op ''ISCONTRACT'')]"

definition baseCapabilityOpcodes :: "(nat \<times> (nat \<times> op_entry) list) list" where
  "baseCapabilityOpcodes =
    [(606,
      [(0xf4, asyncAndDynamicGas_op ''DELEGATECALL'')]),
     (608,
      [(0x54, asyncAndDynamicGas_op ''SLOAD''), (0xf1, asyncAndDynamicGas_op ''CALL''),
       (0xf2, asyncAndDynamicGas_op ''CALLCODE''), (0x3b, asyncAndDynamicGas_op ''EXTCODESIZE''),
       (0x3c, asyncAndDynamicGas_op ''EXTCODECOPY''),
       (0xf4, asyncAndDynamicGas_op ''DELEGATECALL''),
       (0xff, asyncAndDynamicGas_op ''SELFDESTRUCT''), (0x31, asyncAndDynamicGas_op ''BALANCE'')]),
     (609,
      [(0xfd, dynamicGas_op ''REVERT''), (0xfa, asyncAndDynamicGas_op ''STATICCALL''),
       (0x3d, async_op ''RETURNDATASIZE''), (0x3e, asyncAndDynamicGas_op ''RETURNDATACOPY'')]),
     (1013,
      [(0x1b, default_op ''SHL''), (0x1c, default_op ''SHR''), (0x1d, default_op ''SAR''),
       (0x3f, asyncAndDynamicGas_op ''EXTCODEHASH''), (0xf5, asyncAndDynamicGas_op ''CREATE2'')]),
     (1679,
      [(0x46, default_op ''CHAINID''), (0x47, default_op ''SELFBALANCE'')]),
     (4399,
      [(0x44, async_op ''PREVRANDAO'')])]"

definition eipOpcodes :: "(nat \<times> (nat \<times> op_entry) list) list" where
  "eipOpcodes =
    [(8024,
      [(0xe6, default_op ''DUPN''), (0xe7, default_op ''SWAPN''), (0xe8, default_op ''EXCHANGE'')]),
     (1153,
      [(0x5c, default_op ''TLOAD''), (0x5d, default_op ''TSTORE'')]),
     (3198,
      [(0x48, default_op ''BASEFEE'')]),
     (3855,
      [(0x5f, default_op ''PUSH0'')]),
     (4200,
      [(0xe0, default_op ''RJUMP''), (0xe1, default_op ''RJUMPI''), (0xe2, default_op ''RJUMPV'')]),
     (4750,
      [(0xe3, default_op ''CALLF''), (0xe4, default_op ''RETF'')]),
     (5656,
      [(0x5e, dynamicGas_op ''MCOPY'')]),
     (6206,
      [(0xe5, default_op ''JUMPF'')]),
     (7069,
      [(0xf7, default_op ''RETURNDATALOAD''), (0xf8, asyncAndDynamicGas_op ''EXTCALL''),
       (0xf9, asyncAndDynamicGas_op ''EXTDELEGATECALL''),
       (0xfb, asyncAndDynamicGas_op ''EXTSTATICCALL'')]),
     (7843,
      [(0x4b, async_op ''SLOTNUM'')]),
     (7620,
      [(0xec, asyncAndDynamicGas_op ''EOFCREATE''), (0xee, asyncAndDynamicGas_op ''RETURNCONTRACT'')]),
     (7939,
      [(0x1e, default_op ''CLZ'')])]"

section \<open>The opcode map\<close>

text \<open>The merged dictionary: a later active group overwrites the entry of an earlier one.\<close>

definition op_groups :: "common \<Rightarrow> (nat \<times> op_entry) list list" where
  "op_groups c = opcodes # map snd (filter (\<lambda>(eip, _). isActivatedEIP c eip) (baseCapabilityOpcodes @ eipOpcodes))"

definition opcodeBuilder :: "common \<Rightarrow> nat \<Rightarrow> op_entry option" where
  "opcodeBuilder c opc =
     foldl (\<lambda>r g. case map_of g opc of None \<Rightarrow> r | Some e \<Rightarrow> Some e) None (op_groups c)"

definition char_lower :: "char \<Rightarrow> char" where
  "char_lower ch = (let n = (of_char ch :: nat) in if 65 \<le> n \<and> n \<le> 90 then char_of (n + 32) else ch)"

definition toLowerCase :: "string \<Rightarrow> string" where
  "toLowerCase s = map char_lower s"

definition base_fee :: "common \<Rightarrow> nat \<Rightarrow> string \<Rightarrow> int" where
  "base_fee c opc name =
     param c (toLowerCase name @ ''Gas'') +
     (if isActivatedProposal c 65 \<and> (opc = 0x51 \<or> opc = 0x52 \<or> opc = 0x53) then 1 else 0)"

record opcode_info =
  oi_code :: nat
  oi_name :: string
  oi_fullName :: string
  oi_fee :: int
  oi_isAsync :: bool
  oi_dynamicGas :: bool
  oi_isInvalid :: bool

definition new_Opcode :: "common \<Rightarrow> nat \<Rightarrow> op_entry \<Rightarrow> opcode_info" where
  "new_Opcode c opc e = \<lparr>oi_code = opc, oi_name = en_name e, oi_fullName = getFullname opc (en_name e),
     oi_fee = base_fee c opc (en_name e), oi_isAsync = en_isAsync e, oi_dynamicGas = en_dynamicGas e,
     oi_isInvalid = (en_name e = ''INVALID'')\<rparr>"

definition INVALID_entry :: "common \<Rightarrow> opcode_info" where
  "INVALID_entry c = new_Opcode c 0xfe (default_op ''INVALID'')"

definition opcodeMap :: "common \<Rightarrow> nat \<Rightarrow> opcode_info" where
  "opcodeMap c opc = (case opcodeBuilder c opc of None \<Rightarrow> INVALID_entry c | Some e \<Rightarrow> new_Opcode c opc e)"

lemma base_fee_nonneg: "0 \<le> base_fee c opc name"
  by (simp add: base_fee_def param_nonneg)

lemma oi_fee_nonneg: "0 \<le> oi_fee (opcodeMap c opc)"
  by (simp add: opcodeMap_def INVALID_entry_def new_Opcode_def base_fee_nonneg split: option.splits)

lemma oi_code_cases: "oi_code (opcodeMap c opc) = opc \<or> oi_isInvalid (opcodeMap c opc)"
  by (simp add: opcodeMap_def INVALID_entry_def new_Opcode_def default_op_def split: option.splits)

text \<open>
  The active table: which opcodes are assigned, with the flags the interpreter reads, for the two
  settings of the optional EIP.
\<close>

definition active_ops :: "common \<Rightarrow> (nat \<times> op_entry) list" where
  "active_ops c = List.map_filter (\<lambda>opc. map_option (\<lambda>e. (opc, e)) (opcodeBuilder c opc)) [0..<256]"

end
