(* ===== verification/RunState.thy ===== *)
theory RunState
  imports Stack Opcodes World
begin

text \<open>
  Messages (\<^verbatim>\<open>packages/tvm/src/message.ts\<close>), execution results (\<^verbatim>\<open>packages/tvm/src/types.ts\<close>)
  and the state of a running frame: the \<^verbatim>\<open>RunState\<close>, \<^verbatim>\<open>Env\<close> and \<^verbatim>\<open>RunResult\<close> objects of
  \<^verbatim>\<open>packages/tvm/src/interpreter.ts\<close> in one record, together with the shared world the frame
  acts on. JavaScript numbers (program counter, sizes, depths) are naturals. The objects that a
  message shares by reference with its callee, the self-destruct map and the set of created
  addresses, are returned by the callee as \<open>msg_selfdestruct\<close> and \<open>msg_created\<close>.
\<close>

section \<open>Messages\<close>

type_synonym log = "address \<times> bytes list \<times> bytes"

text \<open>Code of a message: bytecode, or the precompile registered at an address.\<close>

datatype msg_code = Bytecode bytes | PrecompileAt address

record message =
  m_to :: "address option"
  m_value :: int
  m_tokenId :: int
  m_tokenValue :: int
  m_caller :: address
  m_gasLimit :: int
  m_data :: bytes
  m_isCreate :: bool
  m_depth :: nat
  m_code :: "msg_code option"
  m_codeAddress :: "address option"
  m_isStatic :: bool
  m_isCompiled :: bool
  m_salt :: "bytes option"
  m_selfdestruct :: "(address \<rightharpoonup> address) option"
  m_createdAddresses :: "address set option"
  m_delegatecall :: bool
  m_callcode :: bool
  m_gasRefund :: int

definition MIN_TOKEN_ID :: int where
  "MIN_TOKEN_ID = 1000000"

definition MAX_INT64 :: int where
  "MAX_INT64 = 0x7fffffffffffffff"

definition MAX_UINT64 :: int where
  "MAX_UINT64 = 0xffffffffffffffff"

text \<open>The validation at the end of the constructor, in its order.\<close>

definition new_Message :: "message \<Rightarrow> exn + message" where
  "new_Message m =
     (if m_tokenId m \<noteq> 0 \<and> m_tokenId m \<le> MIN_TOKEN_ID then Inl (HostError ''tokenId field cannot be less'')
      else if m_tokenId m = 0 \<and> m_tokenValue m > 0
      then Inl (HostError ''tokenValue field must be zero when tokenId is zero'')
      else if m_tokenValue m < 0 then Inl (HostError ''tokenValue field cannot be negative'')
      else if m_tokenId m > MAX_INT64 then Inl (HostError ''tokenId field must fit in a signed 64-bit integer'')
      else if m_tokenValue m > MAX_INT64
      then Inl (HostError ''tokenValue field must fit in a signed 64-bit integer'')
      else if m_value m < 0 then Inl (HostError ''value field cannot be negative'')
      else Inr m)"

definition default_message :: message where
  "default_message = \<lparr>m_to = None, m_value = 0, m_tokenId = 0, m_tokenValue = 0, m_caller = 0,
     m_gasLimit = 0, m_data = [], m_isCreate = False, m_depth = 0, m_code = None,
     m_codeAddress = None, m_isStatic = False, m_isCompiled = False, m_salt = None,
     m_selfdestruct = None, m_createdAddresses = None, m_delegatecall = False, m_callcode = False,
     m_gasRefund = 0\<rparr>"

text \<open>The getter \<^verbatim>\<open>codeAddress\<close>.\<close>

definition codeAddress :: "message \<Rightarrow> exn + address" where
  "codeAddress m = (case m_codeAddress m of Some a \<Rightarrow> Inr a
     | None \<Rightarrow> (case m_to m of Some a \<Rightarrow> Inr a | None \<Rightarrow> Inl (HostError ''Missing codeAddress'')))"

section \<open>Results\<close>

record exec_result =
  x_logs :: "log list"
  x_returnValue :: bytes
  x_selfdestruct :: "address \<rightharpoonup> address"
  x_createdAddresses :: "address set"
  x_executionGasUsed :: int
  x_gasRefund :: "int option"
  x_exceptionError :: "exn option"

record tvm_result =
  createdAddress :: "address option"
  execResult :: exec_result
  msg_selfdestruct :: "address \<rightharpoonup> address"
  msg_created :: "address set"

definition empty_result :: exec_result where
  "empty_result = \<lparr>x_logs = [], x_returnValue = [], x_selfdestruct = Map.empty,
     x_createdAddresses = {}, x_executionGasUsed = 0, x_gasRefund = None, x_exceptionError = None\<rparr>"

section \<open>The environment and the frame\<close>

record block =
  number :: int
  coinbase :: address
  timestamp :: int
  block_gasLimit :: int
  baseFeePerGas :: "int option"

record env =
  e_address :: address
  e_caller :: address
  e_callData :: bytes
  e_callValue :: int
  e_callTokenId :: int
  e_callTokenValue :: int
  e_code :: bytes
  e_isStatic :: bool
  e_isCreate :: bool
  e_depth :: nat
  e_gasPrice :: int
  e_origin :: address
  e_block :: block
  e_contract :: account
  e_codeAddress :: address
  e_gasRefund :: int

record run_state =
  programCounter :: nat
  opCode :: nat
  memory :: memory
  memoryWordCount :: int
  highestMemCost :: int
  stack :: stack
  code :: bytes
  shouldDoJumpAnalysis :: bool
  validJumps :: bytes
  cachedPushes :: "nat \<rightharpoonup> int"
  cachedOpcodes :: "opcode_info option list option"
  env :: env
  messageGasLimit :: "int option"
  gasRefund :: int
  gasLeft :: int
  returnBytes :: bytes
  logs :: "log list"
  returnValue :: "bytes option"
  selfdestruct :: "address \<rightharpoonup> address"
  createdAddresses :: "address set"
  world :: world

type_synonym 'a rop = "(run_state, 'a) op"

text \<open>
  What the interpreter is given besides its frame: the configuration, the hash function, the
  block hashes of the injected blockchain, and the callback that runs a nested message.
\<close>

record tvm =
  common :: common
  keccak :: "bytes \<Rightarrow> bytes"
  chainId :: int
  blockHash :: "int \<Rightarrow> exn + bytes"
  runCall :: "message \<Rightarrow> (world, tvm_result) op"

definition new_run_state :: "env \<Rightarrow> int \<Rightarrow> world \<Rightarrow> run_state" where
  "new_run_state e gas w = \<lparr>programCounter = 0, opCode = 0xfe, memory = new_memory,
     memoryWordCount = 0, highestMemCost = 0, stack = new_stack None, code = [],
     shouldDoJumpAnalysis = True, validJumps = [], cachedPushes = Map.empty, cachedOpcodes = None,
     env = e, messageGasLimit = None, gasRefund = e_gasRefund e, gasLeft = gas, returnBytes = [],
     logs = [], returnValue = None, selfdestruct = Map.empty, createdAddresses = {}, world = w\<rparr>"

text \<open>The operations of a component, applied to the part of the frame that holds it.\<close>

definition on_stack :: "(stack, 'a) op \<Rightarrow> 'a rop" where
  "on_stack = zoom stack (\<lambda>s r. r\<lparr>stack := s\<rparr>)"

definition on_memory :: "(memory, 'a) op \<Rightarrow> 'a rop" where
  "on_memory = zoom memory (\<lambda>m r. r\<lparr>memory := m\<rparr>)"

definition on_world :: "(world, 'a) op \<Rightarrow> 'a rop" where
  "on_world = zoom world (\<lambda>w r. r\<lparr>world := w\<rparr>)"

definition get_env :: "(env \<Rightarrow> 'a) \<Rightarrow> 'a rop" where
  "get_env f = gets (\<lambda>r. f (env r))"

definition get_sm :: "(state_manager \<Rightarrow> 'a) \<Rightarrow> 'a rop" where
  "get_sm f = gets (\<lambda>r. f (w_sm (world r)))"

end
