(* ===== verification/Interp.thy ===== *)
theory Interp
  imports RunState
begin

text \<open>
  The methods of the class \<^verbatim>\<open>Interpreter\<close> (\<^verbatim>\<open>packages/tvm/src/interpreter.ts\<close>) that opcode
  handlers call, and the stateful helpers of \<^verbatim>\<open>opcodes/util.ts\<close>. Branches for EIPs outside the
  execution profile, EOF containers, debug output and the profiler are left out.
\<close>

section \<open>Gas\<close>

definition useGas :: "int \<Rightarrow> unit rop" where
  "useGas amount s =
     (let g = gasLeft s - amount
      in if g < 0 then trap OUT_OF_GAS (s\<lparr>gasLeft := 0\<rparr>) else (Inr (), s\<lparr>gasLeft := g\<rparr>))"

definition refundGas :: "int \<Rightarrow> unit rop" where
  "refundGas amount = modify (\<lambda>s. s\<lparr>gasRefund := gasRefund s + amount\<rparr>)"

definition subRefund :: "int \<Rightarrow> unit rop" where
  "subRefund amount s =
     (let g = gasRefund s - amount
      in if g < 0 then trap REFUND_EXHAUSTED (s\<lparr>gasRefund := 0\<rparr>) else (Inr (), s\<lparr>gasRefund := g\<rparr>))"

definition addStipend :: "int \<Rightarrow> unit rop" where
  "addStipend amount = modify (\<lambda>s. s\<lparr>gasLeft := gasLeft s + amount\<rparr>)"

text \<open>\<^verbatim>\<open>subMemUsage\<close>: the charge for growing the memory to hold a range.\<close>

definition subMemUsage :: "common \<Rightarrow> int \<Rightarrow> int \<Rightarrow> int rop" where
  "subMemUsage c offset lng s =
     (if lng = 0 then (Inr 0, s)
      else let newMemoryWordCount = divCeil (offset + lng) 32
           in if newMemoryWordCount \<le> memoryWordCount s then (Inr 0, s)
              else let words = newMemoryWordCount;
                       fee = param c ''memoryGas'';
                       quadCoefficient = param c ''quadCoefficientDivGas'';
                       cost = words * fee + js_div (words * words) quadCoefficient;
                       (cost', highest) = (if cost > highestMemCost s
                                           then (cost - highestMemCost s, cost)
                                           else (cost, highestMemCost s))
                   in (Inr cost', s\<lparr>highestMemCost := highest, memoryWordCount := newMemoryWordCount\<rparr>))"

definition updateSstoreGas :: "common \<Rightarrow> bytes \<Rightarrow> bytes \<Rightarrow> bool \<Rightarrow> int" where
  "updateSstoreGas c currentStorage value writtenInTransaction =
     (if length currentStorage = 0 \<and> length value \<noteq> 0 \<and> \<not> writtenInTransaction
      then param c ''sstoreSetGas'' else param c ''sstoreResetGas'')"

section \<open>Reading the environment\<close>

definition getExternalBalance :: "address \<Rightarrow> int rop" where
  "getExternalBalance a = gets (\<lambda>s.
     if a = e_address (env s) then balance (e_contract (env s))
     else balance (or_else (getAccount a (w_sm (world s))) new_account))"

definition getExternalTokenBalance :: "address \<Rightarrow> int \<Rightarrow> int rop" where
  "getExternalTokenBalance a tokenId = gets (\<lambda>s.
     if a = e_address (env s) then getTokenBalance (e_contract (env s)) tokenId
     else getTokenBalance (or_else (getAccount a (w_sm (world s))) new_account) tokenId)"

definition getCaller :: "int rop" where
  "getCaller = get_env (\<lambda>e. bytesToBigInt (addr_bytes (e_caller e)))"

definition getTxOrigin :: "int rop" where
  "getTxOrigin = get_env (\<lambda>e. bytesToBigInt (addr_bytes (e_origin e)))"

definition getBlockCoinbase :: "int rop" where
  "getBlockCoinbase = get_env (\<lambda>e. bytesToBigInt (addr_bytes (coinbase (e_block e))))"

definition getBlockDifficulty :: int where
  "getBlockDifficulty = 0"

definition getBlockBaseFee :: "int rop" where
  "getBlockBaseFee = bnd (get_env (\<lambda>e. baseFeePerGas (e_block e)))
     (\<lambda>f. case f of None \<Rightarrow> throw (HostError ''Block has no Base Fee'') | Some v \<Rightarrow> ret v)"

section \<open>Storage\<close>

text \<open>Refresh of the cached account of the running contract.\<close>

definition reload_contract :: "string \<Rightarrow> unit rop" where
  "reload_contract err s =
     (case getAccount (e_address (env s)) (w_sm (world s)) of
        None \<Rightarrow> throw (HostError err) s
      | Some acc \<Rightarrow> (Inr (), s\<lparr>env := (env s)\<lparr>e_contract := acc\<rparr>\<rparr>))"

definition storageStore :: "bytes \<Rightarrow> bytes \<Rightarrow> unit rop" where
  "storageStore key value =
     bnd (get_env e_address) (\<lambda>a.
     sq (on_world (modify (mod_sm (putStorage a key value))))
     (sq (on_world (modify (mod_jr (recordStorageWrite a key))))
     (reload_contract ''could not read account while persisting memory'')))"

definition storageLoad :: "bytes \<Rightarrow> bytes rop" where
  "storageLoad key = gets (\<lambda>s. getStorage (e_address (env s)) key (w_sm (world s)))"

definition transientStorageStore :: "bytes \<Rightarrow> bytes \<Rightarrow> unit rop" where
  "transientStorageStore key value =
     bnd (get_env e_address) (\<lambda>a. on_world (on_ts (transient_put a key value)))"

definition transientStorageLoad :: "bytes \<Rightarrow> bytes rop" where
  "transientStorageLoad key = gets (\<lambda>s. transient_get (e_address (env s)) key (w_ts (world s)))"

section \<open>Ending a frame, logs\<close>

definition finish :: "bytes \<Rightarrow> unit rop" where
  "finish returnData = sq (modify (\<lambda>s. s\<lparr>returnValue := Some returnData\<rparr>)) (trap STOP)"

definition interp_revert :: "bytes \<Rightarrow> unit rop" where
  "interp_revert returnData = sq (modify (\<lambda>s. s\<lparr>returnValue := Some returnData\<rparr>)) (trap REVERT)"

definition interp_log :: "bytes \<Rightarrow> int \<Rightarrow> bytes list \<Rightarrow> unit rop" where
  "interp_log data numberOfTopics topics =
     (if numberOfTopics < 0 \<or> numberOfTopics > 4 then trap OUT_OF_RANGE
      else if int (length topics) \<noteq> numberOfTopics then trap INTERNAL_ERROR
      else modify (\<lambda>s. s\<lparr>logs := logs s @ [(e_address (env s), topics, data)]\<rparr>))"

section \<open>Calls\<close>

definition getReturnCode :: "tvm_result \<Rightarrow> int" where
  "getReturnCode r = (if x_exceptionError (execResult r) \<noteq> None then 0 else 1)"

text \<open>What a successful callee leaves in its caller.\<close>

definition absorb_callee :: "tvm_result \<Rightarrow> unit rop" where
  "absorb_callee r =
     sq (modify (\<lambda>s. s\<lparr>selfdestruct := selfdestruct s ++ msg_selfdestruct r,
                       createdAddresses := createdAddresses s \<union> msg_created r\<rparr>))
     (sq (reload_contract ''could not read contract account'')
     (modify (\<lambda>s. s\<lparr>gasRefund := or_else (x_gasRefund (execResult r)) 0\<rparr>)))"

definition baseCall :: "tvm \<Rightarrow> message \<Rightarrow> int rop" where
  "baseCall T msg0 =
     bnd (gets (\<lambda>s. msg0\<lparr>m_selfdestruct := Some (selfdestruct s), m_gasRefund := gasRefund s\<rparr>)) (\<lambda>msg1.
     sq (whenb (\<not> m_delegatecall msg1 \<and> \<not> m_callcode msg1 \<and> m_to msg1 = Some (m_caller msg1))
          (sq (whenb (m_value msg1 > 0) (trap CAN_NOT_TRANSFER_TRX_YOURSELF))
              (whenb (m_tokenValue msg1 > 0) (trap CAN_NOT_TRANSFER_ASSET_YOURSELF))))
     (sq (modify (\<lambda>s. s\<lparr>returnBytes := []\<rparr>))
     (bnd (gets (\<lambda>s. msg1\<lparr>m_createdAddresses := Some (createdAddresses s)\<rparr>)) (\<lambda>msg.
      bnd (gets (\<lambda>s. int (e_depth (env s)) \<ge> param (common T) ''stackLimit'' \<or>
                     (\<not> m_delegatecall msg \<and> balance (e_contract (env s)) < m_value msg) \<or>
                     (m_tokenValue msg > 0 \<and>
                      getTokenBalance (e_contract (env s)) (m_tokenId msg) < m_tokenValue msg))) (\<lambda>stop.
      if stop then ret 0
      else
        sq (on_world (modify bump_nonce))
        (bnd (on_world (runCall T msg)) (\<lambda>r.
         sq (modify (\<lambda>s. s\<lparr>logs := logs s @ x_logs (execResult r)\<rparr>))
         (sq (useGas (x_executionGasUsed (execResult r)))
         (sq (whenb (x_exceptionError (execResult r) = None \<or> x_exceptionError (execResult r) = Some (TvmError REVERT))
               (modify (\<lambda>s. s\<lparr>returnBytes := x_returnValue (execResult r)\<rparr>)))
         (sq (whenb (x_exceptionError (execResult r) = None) (absorb_callee r))
         (ret (getReturnCode r))))))))))))"

definition call :: "tvm \<Rightarrow> int \<Rightarrow> address \<Rightarrow> int \<Rightarrow> bytes \<Rightarrow> int rop" where
  "call T gasLimit to value data =
     bnd (gets env) (\<lambda>e.
     bnd (lift_sum (new_Message (default_message\<lparr>m_caller := e_address e, m_gasLimit := gasLimit,
       m_to := Some to, m_value := value, m_data := data, m_isStatic := e_isStatic e,
       m_depth := e_depth e + 1\<rparr>))) (baseCall T))"

definition callCode :: "tvm \<Rightarrow> int \<Rightarrow> address \<Rightarrow> int \<Rightarrow> bytes \<Rightarrow> int rop" where
  "callCode T gasLimit addr value data =
     bnd (gets env) (\<lambda>e.
     bnd (lift_sum (new_Message (default_message\<lparr>m_caller := e_address e, m_gasLimit := gasLimit,
       m_to := Some (e_address e), m_codeAddress := Some addr, m_value := value, m_data := data,
       m_isStatic := e_isStatic e, m_callcode := True, m_depth := e_depth e + 1\<rparr>))) (baseCall T))"

definition callStatic :: "tvm \<Rightarrow> int \<Rightarrow> address \<Rightarrow> int \<Rightarrow> bytes \<Rightarrow> int rop" where
  "callStatic T gasLimit to value data =
     bnd (gets env) (\<lambda>e.
     bnd (lift_sum (new_Message (default_message\<lparr>m_caller := e_address e, m_gasLimit := gasLimit,
       m_to := Some to, m_value := value, m_data := data, m_isStatic := True,
       m_depth := e_depth e + 1\<rparr>))) (baseCall T))"

definition callDelegate :: "tvm \<Rightarrow> int \<Rightarrow> address \<Rightarrow> int \<Rightarrow> bytes \<Rightarrow> int rop" where
  "callDelegate T gasLimit addr value data =
     bnd (gets env) (\<lambda>e.
     bnd (lift_sum (new_Message (default_message\<lparr>m_caller := e_caller e, m_gasLimit := gasLimit,
       m_to := Some (e_address e), m_codeAddress := Some addr, m_value := value, m_data := data,
       m_isStatic := e_isStatic e, m_delegatecall := True, m_depth := e_depth e + 1\<rparr>))) (baseCall T))"

definition callToken :: "tvm \<Rightarrow> int \<Rightarrow> address \<Rightarrow> int \<Rightarrow> int \<Rightarrow> int \<Rightarrow> bytes \<Rightarrow> int rop" where
  "callToken T gasLimit to value tokenId tokenValue data =
     bnd (gets env) (\<lambda>e.
     bnd (lift_sum (new_Message (default_message\<lparr>m_caller := e_address e, m_gasLimit := gasLimit,
       m_to := Some to, m_value := value, m_tokenId := tokenId, m_tokenValue := tokenValue,
       m_data := data, m_isStatic := e_isStatic e, m_depth := e_depth e + 1\<rparr>))) (baseCall T))"

section \<open>Creation\<close>

definition TRON_ADDRESS_PREFIX_WORD :: int where
  "TRON_ADDRESS_PREFIX_WORD = js_shl 0x41 160"

definition create :: "tvm \<Rightarrow> int \<Rightarrow> int \<Rightarrow> bytes \<Rightarrow> bytes option \<Rightarrow> int rop" where
  "create T gasLimit value codeToRun salt =
     sq (modify (\<lambda>s. s\<lparr>returnBytes := []\<rparr>))
     (bnd (gets id) (\<lambda>s0.
      if int (e_depth (env s0)) \<ge> param (common T) ''stackLimit'' \<or> balance (e_contract (env s0)) < value
      then ret 0
      else if nonce (e_contract (env s0)) \<ge> MAX_UINT64 then ret 0
      else
        sq (modify (\<lambda>s. s\<lparr>env := (env s)\<lparr>e_contract :=
              (e_contract (env s))\<lparr>nonce := nonce (e_contract (env s)) + 1\<rparr>\<rparr>\<rparr>))
        (bnd (gets env) (\<lambda>e.
        sq (on_world (journal_putAccount (e_address e) (Some (e_contract e))))
        (bnd (lift_sum (new_Message (default_message\<lparr>m_caller := e_address e, m_gasLimit := gasLimit,
               m_value := value, m_data := codeToRun, m_salt := salt, m_depth := e_depth e + 1,
               m_selfdestruct := Some (selfdestruct s0), m_gasRefund := gasRefund s0,
               m_createdAddresses := Some (createdAddresses s0)\<rparr>))) (\<lambda>msg.
         bnd (on_world (runCall T msg)) (\<lambda>r.
         sq (modify (\<lambda>s. s\<lparr>logs := logs s @ x_logs (execResult r)\<rparr>))
         (sq (useGas (x_executionGasUsed (execResult r)))
         (sq (whenb (x_exceptionError (execResult r) = Some (TvmError REVERT))
               (modify (\<lambda>s. s\<lparr>returnBytes := x_returnValue (execResult r)\<rparr>)))
         (if x_exceptionError (execResult r) = None
          then sq (absorb_callee r)
               (case createdAddress r of
                  Some a \<Rightarrow> ret (TRON_ADDRESS_PREFIX_WORD OR bytesToBigInt (addr_bytes a))
                | None \<Rightarrow> ret (getReturnCode r))
          else ret (getReturnCode r)))))))))))"

section \<open>Self-destruct\<close>

text \<open>The loop that moves every positive token balance to the beneficiary.\<close>

definition add_tokens :: "(int \<times> int) list \<Rightarrow> account \<Rightarrow> account" where
  "add_tokens ts acc = foldl (\<lambda>a (t, v). if v \<le> 0 then a else set_token t (getTokenBalance a t + v) a) acc ts"

definition interp_selfDestruct :: "address \<Rightarrow> unit rop" where
  "interp_selfDestruct toAddress =
     bnd (get_env e_address) (\<lambda>self.
     sq (on_world (modify bump_nonce))
     (sq (modify (\<lambda>s. s\<lparr>selfdestruct := (selfdestruct s)(self \<mapsto> toAddress)\<rparr>))
     (let toSelf = (toAddress = self)
      in bnd (get_env (\<lambda>e. balance (e_contract e))) (\<lambda>contractBalance.
      sq (whenb (\<not> toSelf)
           (bnd (get_sm (\<lambda>m. or_else (getAccount toAddress m) new_account)) (\<lambda>toAcc.
            bnd (get_sm (\<lambda>m. or_else (getAccount self m) new_account)) (\<lambda>fromAcc.
            on_world (journal_putAccount toAddress
              (Some (add_tokens (asset fromAcc) (toAcc\<lparr>balance := balance toAcc + contractBalance\<rparr>))))))))
      (bnd (gets (\<lambda>s. self \<in> createdAddresses s \<or> \<not> toSelf)) (\<lambda>doModify.
       sq (whenb doModify
            (on_world (modify (mod_sm (modifyAccountFields self (no_fields\<lparr>f_balance := Some 0, f_asset := Some []\<rparr>))))))
       (trap STOP)))))))"

section \<open>Call output\<close>

definition writeCallOutput :: "int \<Rightarrow> int \<Rightarrow> unit rop" where
  "writeCallOutput outOffset outLength =
     bnd (gets returnBytes) (\<lambda>returnData.
     whenb (length returnData > 0)
       (let dataLength = (if int (length returnData) < outLength then int (length returnData) else outLength)
        in bnd (lift_sum (getDataSlice returnData 0 dataLength)) (\<lambda>data.
           sq (on_memory (modify (mem_extend (nat outOffset) (nat dataLength))))
              (on_memory (mem_write (nat outOffset) (nat dataLength) data)))))"

definition jumpIsValid :: "run_state \<Rightarrow> nat \<Rightarrow> bool" where
  "jumpIsValid s dest \<longleftrightarrow> dest < length (validJumps s) \<and> validJumps s ! dest = 1"

end
