(* ===== verification/Alu.thy ===== *)
theory Alu
  imports Stack OpUtil
begin

text \<open>
  The arithmetic, comparison, bitwise and shift instructions of
  \<^verbatim>\<open>packages/tvm/src/opcodes/functions.ts\<close> (0x01 to 0x1e). Each handler only touches the
  operand stack, so it is an operation on it; the interpreter applies it to the stack of the
  running frame. The source computes on unbounded bigints and reduces by hand. The theory shows
  that every handler implements the corresponding operation on 256-bit words, on all operands.
\<close>

section \<open>Handlers\<close>

definition op_ADD :: "(stack, unit) op" where
  "op_ADD = bnd (popN 2) (\<lambda>v. let a = v ! 0; b = v ! 1 in push (mod_js (a + b) TWO_POW256))"

definition op_MUL :: "(stack, unit) op" where
  "op_MUL = bnd (popN 2) (\<lambda>v. let a = v ! 0; b = v ! 1 in push (mod_js (a * b) TWO_POW256))"

definition op_SUB :: "(stack, unit) op" where
  "op_SUB = bnd (popN 2) (\<lambda>v. let a = v ! 0; b = v ! 1 in push (mod_js (a - b) TWO_POW256))"

definition op_DIV :: "(stack, unit) op" where
  "op_DIV = bnd (popN 2) (\<lambda>v. let a = v ! 0; b = v ! 1 in 
     push (if b = 0 then 0 else mod_js (js_div a b) TWO_POW256))"

definition op_SDIV :: "(stack, unit) op" where
  "op_SDIV = bnd (popN 2) (\<lambda>v. let a = v ! 0; b = v ! 1 in 
     push (if b = 0 then 0 else toTwos (js_div (fromTwos a) (fromTwos b))))"

definition op_MOD :: "(stack, unit) op" where
  "op_MOD = bnd (popN 2) (\<lambda>v. let a = v ! 0; b = v ! 1 in push (if b = 0 then b else mod_js a b))"

definition op_SMOD :: "(stack, unit) op" where
  "op_SMOD = bnd (popN 2) (\<lambda>v. let a = v ! 0; b = v ! 1 in 
     push (toTwos (if b = 0 then b else js_rem (fromTwos a) (fromTwos b))))"

definition op_ADDMOD :: "(stack, unit) op" where
  "op_ADDMOD = bnd (popN 3) (\<lambda>v. let a = v ! 0; b = v ! 1; c = v ! 2 in
     push (if c = 0 then 0 else mod_js (a + b) c))"

definition op_MULMOD :: "(stack, unit) op" where
  "op_MULMOD = bnd (popN 3) (\<lambda>v. let a = v ! 0; b = v ! 1; c = v ! 2 in
     push (if c = 0 then 0 else mod_js (a * b) c))"

definition op_EXP :: "(stack, unit) op" where
  "op_EXP = bnd (popN 2) (\<lambda>v. let base = v ! 0; exponent = v ! 1 in
     if base = 2 \<and> exponent = 96 then push (2 ^ 96)
     else if base = 2 \<and> exponent = 160 then push (2 ^ 160)
     else if base = 2 \<and> exponent = 224 then push (2 ^ 224)
     else if exponent = 0 then push 1
     else if base = 0 then push base
     else push (exponentiation base exponent))"

definition op_SIGNEXTEND :: "(stack, unit) op" where
  "op_SIGNEXTEND = bnd (popN 2) (\<lambda>v. let k = v ! 0; val = v ! 1 in
     push (if k < 31
           then let signBit = k * 8 + 7; mask = js_shl 1 signBit - 1
                in if js_shr val signBit AND 1 \<noteq> 0 then val OR asUintN 256 (NOT mask) else val AND mask
           else val))"

definition op_LT :: "(stack, unit) op" where
  "op_LT = bnd (popN 2) (\<lambda>v. let a = v ! 0; b = v ! 1 in push (if a < b then 1 else 0))"

definition op_GT :: "(stack, unit) op" where
  "op_GT = bnd (popN 2) (\<lambda>v. let a = v ! 0; b = v ! 1 in push (if a > b then 1 else 0))"

definition op_SLT :: "(stack, unit) op" where
  "op_SLT = bnd (popN 2) (\<lambda>v. let a = v ! 0; b = v ! 1 in push (if fromTwos a < fromTwos b then 1 else 0))"

definition op_SGT :: "(stack, unit) op" where
  "op_SGT = bnd (popN 2) (\<lambda>v. let a = v ! 0; b = v ! 1 in push (if fromTwos a > fromTwos b then 1 else 0))"

definition op_EQ :: "(stack, unit) op" where
  "op_EQ = bnd (popN 2) (\<lambda>v. let a = v ! 0; b = v ! 1 in push (if a = b then 1 else 0))"

definition op_ISZERO :: "(stack, unit) op" where
  "op_ISZERO = bnd pop (\<lambda>a. push (if a = 0 then 1 else 0))"

definition op_AND :: "(stack, unit) op" where
  "op_AND = bnd (popN 2) (\<lambda>v. let a = v ! 0; b = v ! 1 in push (a AND b))"

definition op_OR :: "(stack, unit) op" where
  "op_OR = bnd (popN 2) (\<lambda>v. let a = v ! 0; b = v ! 1 in push (a OR b))"

definition op_XOR :: "(stack, unit) op" where
  "op_XOR = bnd (popN 2) (\<lambda>v. let a = v ! 0; b = v ! 1 in push (a XOR b))"

definition op_NOT :: "(stack, unit) op" where
  "op_NOT = bnd pop (\<lambda>a. push (asUintN 256 (NOT a)))"

definition op_BYTE :: "(stack, unit) op" where
  "op_BYTE = bnd (popN 2) (\<lambda>v. let pos = v ! 0; word = v ! 1 in
     if pos > 32 then push 0
     else push (js_shr word ((31 - pos) * 8) AND 255))"

definition op_SHL :: "(stack, unit) op" where
  "op_SHL = bnd (popN 2) (\<lambda>v. let a = v ! 0; b = v ! 1 in 
     if a > 256 then push 0 else push (js_shl b a AND MAX_INTEGER_BIGINT))"

definition op_SHR :: "(stack, unit) op" where
  "op_SHR = bnd (popN 2) (\<lambda>v. let a = v ! 0; b = v ! 1 in 
     if a > 256 then push 0 else push (js_shr b a))"

definition op_SAR :: "(stack, unit) op" where
  "op_SAR = bnd (popN 2) (\<lambda>v. let a = v ! 0; b = v ! 1;
         bComp = asIntN 256 b; isSigned = bComp < 0
     in if a > 256 then push (if isSigned then MAX_INTEGER_BIGINT else 0)
        else let c = js_shr b a
             in push (if isSigned
                      then let shiftedOutWidth = 255 - a;
                               mask = js_shl (js_shr MAX_INTEGER_BIGINT shiftedOutWidth) shiftedOutWidth
                           in c OR mask
                      else c))"

text \<open>The length of \<^verbatim>\<open>x.toString(2)\<close>.\<close>

fun bin_length :: "nat \<Rightarrow> nat" where
  "bin_length n = (if n < 2 then 1 else Suc (bin_length (n div 2)))"

declare bin_length.simps [simp del]

definition op_CLZ :: "(stack, unit) op" where
  "op_CLZ = bnd pop (\<lambda>x. if x = 0 then push 256 else push (256 - int (bin_length (nat x))))"

text \<open>The entries of the handler map for these opcodes.\<close>

definition alu_handler :: "nat \<Rightarrow> (stack, unit) op option" where
  "alu_handler opc =
     (if opc = 0x01 then Some op_ADD
      else if opc = 0x02 then Some op_MUL
      else if opc = 0x03 then Some op_SUB
      else if opc = 0x04 then Some op_DIV
      else if opc = 0x05 then Some op_SDIV
      else if opc = 0x06 then Some op_MOD
      else if opc = 0x07 then Some op_SMOD
      else if opc = 0x08 then Some op_ADDMOD
      else if opc = 0x09 then Some op_MULMOD
      else if opc = 0x0a then Some op_EXP
      else if opc = 0x0b then Some op_SIGNEXTEND
      else if opc = 0x10 then Some op_LT
      else if opc = 0x11 then Some op_GT
      else if opc = 0x12 then Some op_SLT
      else if opc = 0x13 then Some op_SGT
      else if opc = 0x14 then Some op_EQ
      else if opc = 0x15 then Some op_ISZERO
      else if opc = 0x16 then Some op_AND
      else if opc = 0x17 then Some op_OR
      else if opc = 0x18 then Some op_XOR
      else if opc = 0x19 then Some op_NOT
      else if opc = 0x1a then Some op_BYTE
      else if opc = 0x1b then Some op_SHL
      else if opc = 0x1c then Some op_SHR
      else if opc = 0x1d then Some op_SAR
      else if opc = 0x1e then Some op_CLZ
      else None)"

section \<open>Implementing a word operation\<close>

text \<open>
  A handler implements an \<open>n\<close>-ary operation on words: on a stack of words it replaces the
  operands by the result, and with too few operands it reports underflow and changes nothing.
\<close>

definition implements :: "nat \<Rightarrow> (stack, unit) op \<Rightarrow> (256 word list \<Rightarrow> 256 word) \<Rightarrow> bool" where
  "implements n h f \<longleftrightarrow>
     (\<forall>s ws. stack_inv s \<and> items s = map uint ws \<longrightarrow>
        (if n \<le> length ws
         then \<exists>s'. h s = (Inr (), s') \<and> stack_inv s' \<and> maxHeight s' = maxHeight s \<and>
                items s' = map uint (f (take n ws) # drop n ws)
         else h s = (Inl (TvmError STACK_UNDERFLOW), s)))"

lemma pop_popN_eq: "pop = bnd (popN 1) (\<lambda>v. ret (v ! 0))"
  by (rule ext) (auto simp: pop_def popN_def bnd_def Let_def)

lemma implementsI:
  assumes "0 < n" "\<And>ws. length ws = n \<Longrightarrow> g (map uint ws) = uint (f ws)"
  shows "implements n (bnd (popN n) (\<lambda>v. push (g v))) f"
  unfolding implements_def
proof (intro allI impI, elim conjE)
  fix s and ws :: "256 word list"
  assume inv: "stack_inv s" and it: "items s = map uint ws"
  let ?h = "bnd (popN n) (\<lambda>v. push (g v))"
  show "if n \<le> length ws
    then \<exists>s'. ?h s = (Inr (), s') \<and> stack_inv s' \<and> maxHeight s' = maxHeight s \<and>
           items s' = map uint (f (take n ws) # drop n ws)
    else ?h s = (Inl (TvmError STACK_UNDERFLOW), s)"
  proof (cases "n \<le> length ws")
    case True
    have "g (take n (map uint ws)) = uint (f (take n ws))"
      using assms(2) [of "take n ws"] True by (simp add: take_map)
    moreover have "n \<le> length (items s)" using True it by simp
    ultimately show ?thesis
      using tvm_stack.compute_enough [OF inv assms(1), of g] True
      by (simp add: it drop_map)
  next
    case False
    then show ?thesis using tvm_stack.compute_short [OF inv, of n g] it by simp
  qed
qed

lemma implements1I: "(\<And>a. g (uint a) = uint (f [a])) \<Longrightarrow> implements 1 (bnd pop (\<lambda>a. push (g a))) f"
proof -
  assume g: "\<And>a. g (uint a) = uint (f [a])"
  have "bnd pop (\<lambda>a. push (g a)) = bnd (popN 1) (\<lambda>v. push (g (v ! 0)))"
    by (rule ext) (simp add: pop_popN_eq bnd_assoc)
  moreover have "implements 1 (bnd (popN 1) (\<lambda>v. push (g (v ! 0)))) f"
    by (rule implementsI) (auto simp: g length_Suc_conv)
  ultimately show ?thesis by simp
qed

lemma implements2I:
  "(\<And>a b. g [uint a, uint b] = uint (f [a, b])) \<Longrightarrow> implements 2 (bnd (popN 2) (\<lambda>v. push (g v))) f"
  by (rule implementsI) (auto simp: length_Suc_conv numeral_2_eq_2)

lemma implements2_val:
  assumes "h = bnd (popN 2) (\<lambda>v. push (g (v ! 0) (v ! 1)))"
    and "\<And>a b. g (uint a) (uint b) = uint (f [a, b])"
  shows "implements 2 h f"
  unfolding assms(1) by (rule implements2I) (simp add: assms(2))

lemma implements3I:
  "(\<And>a b c. g [uint a, uint b, uint c] = uint (f [a, b, c])) \<Longrightarrow>
   implements 3 (bnd (popN 3) (\<lambda>v. push (g v))) f"
  by (rule implementsI) (auto simp: length_Suc_conv numeral_3_eq_3)

section \<open>Word-level meaning\<close>

lemma push_if: "(if b then push x else push y) = push (if b then x else y)"
  by simp

lemma sint_eq_0_256: "sint (a :: 256 word) = 0 \<longleftrightarrow> a = 0"
  by (metis signed_0 signed_word_eqI)

lemma uint_of_bool256: "uint (of_bool P :: 256 word) = (if P then 1 else 0)"
  by simp

lemma and_MAX: "x AND MAX_INTEGER_BIGINT = take_bit 256 x"
  by (simp add: MAX_INTEGER_BIGINT_def take_bit_eq_mask mask_eq_exp_minus_1)

lemma implements_ADD: "implements 2 op_ADD (\<lambda>v. v ! 0 + v ! 1)"
  unfolding op_ADD_def Let_def
  by (rule implements2I) (simp add: mod_js_pos TWO_POW256_def uint_word_ariths)

lemma implements_MUL: "implements 2 op_MUL (\<lambda>v. v ! 0 * v ! 1)"
  unfolding op_MUL_def Let_def
  by (rule implements2I) (simp add: mod_js_pos TWO_POW256_def uint_word_ariths)

lemma implements_SUB: "implements 2 op_SUB (\<lambda>v. v ! 0 - v ! 1)"
  unfolding op_SUB_def Let_def
  by (rule implements2I) (simp add: mod_js_pos TWO_POW256_def uint_word_ariths)

lemma TWO_POW256_pos: "0 < TWO_POW256"
  by (simp add: TWO_POW256_def)

lemma uint_TWO_POW256: "uint (a :: 256 word) < TWO_POW256"
  unfolding TWO_POW256_def by (rule uint256_less)

lemma uint_div_mod256: "(uint a div uint b) mod TWO_POW256 = uint ((a :: 256 word) div b)"
  using mod_pos_pos_trivial [OF uint_ge_0 uint_TWO_POW256, of "a div b"] by (simp add: uint_div_distrib)

lemma implements_DIV: "implements 2 op_DIV (\<lambda>v. v ! 0 div v ! 1)"
  unfolding op_DIV_def Let_def
  by (rule implements2I)
    (simp add: mod_js_pos TWO_POW256_pos js_div_nonneg uint_div_mod256 unsigned_eq_0_iff)

lemma implements_MOD: "implements 2 op_MOD (\<lambda>v. if v ! 1 = 0 then 0 else v ! 0 mod v ! 1)"
  unfolding op_MOD_def Let_def
proof (rule implements2I)
  fix a b :: "256 word"
  have "b \<noteq> 0 \<Longrightarrow> 0 < uint b" by (simp add: word_neq_0_conv word_less_def)
  then show "(if [uint a, uint b] ! 1 = 0 then [uint a, uint b] ! 1
      else mod_js ([uint a, uint b] ! 0) ([uint a, uint b] ! 1)) =
    uint (if [a, b] ! 1 = 0 then 0 else [a, b] ! 0 mod [a, b] ! 1)"
    by (simp add: mod_js_pos uint_mod_distrib unsigned_eq_0_iff)
qed

lemma implements_SDIV: "implements 2 op_SDIV (\<lambda>v. word_of_int (sint (v ! 0) sdiv sint (v ! 1)))"
  unfolding op_SDIV_def Let_def
  by (rule implements2I)
    (simp add: fromTwos_word toTwos_word js_div_def signed_divide_int_def unsigned_eq_0_iff)

lemma implements_SMOD:
  "implements 2 op_SMOD (\<lambda>v. if v ! 1 = 0 then 0 else word_of_int (sint (v ! 0) smod sint (v ! 1)))"
  unfolding op_SMOD_def Let_def
  by (rule implements2I) (simp add: fromTwos_word toTwos_word js_rem_def unsigned_eq_0_iff)

lemma uint_mod_small: "0 < uint (c :: 256 word) \<Longrightarrow> uint (word_of_int (x mod uint c) :: 256 word) = x mod uint c"
proof -
  assume c: "0 < uint c"
  have "uint (word_of_int (x mod uint c) :: 256 word) = (x mod uint c) mod TWO_POW256"
    by (simp add: uint_word_of_int TWO_POW256_def)
  also have "\<dots> = x mod uint c"
    using pos_mod_bound [OF c, of x] pos_mod_sign [OF c, of x] uint_TWO_POW256 [of c]
    by (intro mod_pos_pos_trivial) linarith+
  finally show ?thesis .
qed

lemma implements_ADDMOD: "implements 3 op_ADDMOD
  (\<lambda>v. if v ! 2 = 0 then 0 else word_of_int ((uint (v ! 0) + uint (v ! 1)) mod uint (v ! 2)))"
  unfolding op_ADDMOD_def Let_def
proof (rule implements3I)
  fix a b c :: "256 word"
  have "c \<noteq> 0 \<Longrightarrow> 0 < uint c" by (simp add: word_neq_0_conv word_less_def)
  then show "(if [uint a, uint b, uint c] ! 2 = 0 then 0
      else mod_js ([uint a, uint b, uint c] ! 0 + [uint a, uint b, uint c] ! 1) ([uint a, uint b, uint c] ! 2)) =
    uint (if [a, b, c] ! 2 = 0 then 0
      else word_of_int ((uint ([a, b, c] ! 0) + uint ([a, b, c] ! 1)) mod uint ([a, b, c] ! 2)) :: 256 word)"
    by (simp add: mod_js_pos uint_mod_small unsigned_eq_0_iff)
qed

lemma implements_MULMOD: "implements 3 op_MULMOD
  (\<lambda>v. if v ! 2 = 0 then 0 else word_of_int ((uint (v ! 0) * uint (v ! 1)) mod uint (v ! 2)))"
  unfolding op_MULMOD_def Let_def
proof (rule implements3I)
  fix a b c :: "256 word"
  have "c \<noteq> 0 \<Longrightarrow> 0 < uint c" by (simp add: word_neq_0_conv word_less_def)
  then show "(if [uint a, uint b, uint c] ! 2 = 0 then 0
      else mod_js ([uint a, uint b, uint c] ! 0 * [uint a, uint b, uint c] ! 1) ([uint a, uint b, uint c] ! 2)) =
    uint (if [a, b, c] ! 2 = 0 then 0
      else word_of_int ((uint ([a, b, c] ! 0) * uint ([a, b, c] ! 1)) mod uint ([a, b, c] ! 2)) :: 256 word)"
    by (simp add: mod_js_pos uint_mod_small unsigned_eq_0_iff)
qed

lemma exponentiation_eq:
  "0 \<le> a \<Longrightarrow> exponentiation a b = (a ^ nat b) mod TWO_POW256"
  using exp_loop_eq [of 1 a b] by (simp add: exponentiation_def TWO_POW256_def)

definition exp_value :: "int \<Rightarrow> int \<Rightarrow> int" where
  "exp_value a b = (if a = 2 \<and> b = 96 then 2 ^ 96 else if a = 2 \<and> b = 160 then 2 ^ 160
    else if a = 2 \<and> b = 224 then 2 ^ 224 else if b = 0 then 1 else if a = 0 then a
    else exponentiation a b)"

lemma exp_value_eq: "0 \<le> a \<Longrightarrow> 0 \<le> b \<Longrightarrow> exp_value a b = exponentiation a b"
  by (auto simp: exp_value_def exponentiation_eq TWO_POW256_def zero_power)

lemma op_EXP_eq: "op_EXP = bnd (popN 2) (\<lambda>v. push (exp_value (v ! 0) (v ! 1)))"
  unfolding op_EXP_def exp_value_def Let_def by (intro arg_cong [where f = "bnd (popN 2)"] ext) simp

lemma implements_EXP: "implements 2 op_EXP (\<lambda>v. v ! 0 ^ unat (v ! 1))"
  unfolding op_EXP_eq by (rule implements2I) (simp add: exp_value_eq exponentiation_word)

lemma implements_compare:
  "implements 2 op_LT (\<lambda>v. of_bool (v ! 0 < v ! 1))"
  "implements 2 op_GT (\<lambda>v. of_bool (v ! 0 > v ! 1))"
  "implements 2 op_SLT (\<lambda>v. of_bool (v ! 0 <s v ! 1))"
  "implements 2 op_SGT (\<lambda>v. of_bool (v ! 1 <s v ! 0))"
  "implements 2 op_EQ (\<lambda>v. of_bool (v ! 0 = v ! 1))"
  unfolding op_LT_def op_GT_def op_SLT_def op_SGT_def op_EQ_def Let_def
  by (rule implements2I, simp add: word_less_def word_sless_alt fromTwos_word word_uint_eq_iff)+

lemma implements_ISZERO: "implements 1 op_ISZERO (\<lambda>v. of_bool (v ! 0 = 0))"
  unfolding op_ISZERO_def by (rule implements1I) (simp add: unsigned_eq_0_iff)

lemma implements_bitwise:
  "implements 2 op_AND (\<lambda>v. v ! 0 AND v ! 1)"
  "implements 2 op_OR (\<lambda>v. v ! 0 OR v ! 1)"
  "implements 2 op_XOR (\<lambda>v. v ! 0 XOR v ! 1)"
  unfolding op_AND_def op_OR_def op_XOR_def Let_def
  by (rule implements2I, simp add: unsigned_and_eq unsigned_or_eq unsigned_xor_eq)+

lemma asUintN_take_bit: "asUintN n a = take_bit n a"
  by (simp add: asUintN_def take_bit_eq_mod)

lemma implements_NOT: "implements 1 op_NOT (\<lambda>v. NOT (v ! 0))"
  unfolding op_NOT_def by (rule implements1I) (simp add: asUintN_take_bit unsigned_not_eq)

lemma bit_uint256: "bit (uint (w :: 256 word)) i \<longleftrightarrow> bit w i"
  by (simp add: bit_simps)

lemma uint_nat256: obtains n where "unat (a :: 256 word) = n" "uint a = int n"
  by simp

definition signextend_value :: "int \<Rightarrow> int \<Rightarrow> int" where
  "signextend_value k val =
     (if k < 31
      then let signBit = k * 8 + 7; mask = js_shl 1 signBit - 1
           in if js_shr val signBit AND 1 \<noteq> 0 then val OR asUintN 256 (NOT mask) else val AND mask
      else val)"

lemma signextend_bits:
  fixes w :: "256 word"
  assumes "i < 31"
  shows "signextend_value (int i) (uint w) = uint (signed_take_bit (8 * i + 7) w)"
proof -
  define n where "n = 8 * i + 7"
  have k: "nat (int i * 8 + 7) = n" "n < 255" using assms by (auto simp: n_def)
  have m: "js_shl 1 (int i * 8 + 7) - 1 = mask n"
    by (simp add: js_shl_def k(1) push_bit_of_1 mask_eq_exp_minus_1)
  have s: "js_shr (uint w) (int i * 8 + 7) AND 1 \<noteq> 0 \<longleftrightarrow> bit w n"
  proof -
    have "js_shr (uint w) (int i * 8 + 7) AND 1 = of_bool (odd (drop_bit n (uint w)))"
      by (simp add: js_shr_def k(1) and_one_eq mod_2_eq_odd)
    also have "odd (drop_bit n (uint w)) \<longleftrightarrow> bit w n"
      by (simp add: bit_iff_odd_drop_bit [symmetric] bit_uint256)
    finally show ?thesis by simp
  qed
  have "signextend_value (int i) (uint w) =
      (if bit w n then uint w OR take_bit 256 (NOT (mask n)) else uint w AND mask n)"
    using assms by (simp add: signextend_value_def Let_def m s asUintN_take_bit)
  also have "\<dots> = uint (signed_take_bit n w)"
    using k(2) by (intro bit_eqI) (auto simp: bit_simps min_def dest: bit_imp_le_length)
  finally show ?thesis by (simp add: n_def)
qed

lemma signextend_value_eq:
  fixes k w :: "256 word"
  shows "signextend_value (uint k) (uint w) =
     uint (if unat k < 31 then signed_take_bit (8 * unat k + 7) w else w)"
proof (rule uint_nat256 [of k])
  fix i assume i: "unat k = i" "uint k = int i"
  show ?thesis
  proof (cases "i < 31")
    case False
    then show ?thesis by (simp add: i signextend_value_def)
  next
    case True
    then have "signextend_value (int i) (uint w) = uint (signed_take_bit (8 * i + 7) w)"
      by (rule signextend_bits)
    with True show ?thesis by (simp add: i)
  qed
qed

lemma implements_SIGNEXTEND: "implements 2 op_SIGNEXTEND
  (\<lambda>v. if unat (v ! 0) < 31 then signed_take_bit (8 * unat (v ! 0) + 7) (v ! 1) else v ! 1)"
proof -
  have "op_SIGNEXTEND = bnd (popN 2) (\<lambda>v. push (signextend_value (v ! 0) (v ! 1)))"
    by (simp add: op_SIGNEXTEND_def signextend_value_def Let_def)
  then show ?thesis by (rule implements2_val) (simp add: signextend_value_eq)
qed

lemma and_255: "(x :: int) AND 255 = take_bit 8 x"
  by (simp add: take_bit_eq_mask mask_eq_exp_minus_1)

definition byte_value :: "int \<Rightarrow> int \<Rightarrow> int" where
  "byte_value pos word = (if pos > 32 then 0 else js_shr word ((31 - pos) * 8) AND 255)"

lemma byte_value_nat:
  fixes b :: "256 word"
  shows "byte_value (int n) (uint b) =
     uint (if n < 32 then take_bit 8 (drop_bit (8 * (31 - n)) b) else 0)"
proof (cases "n < 32")
  case True
  define d where "d = 8 * (31 - n)"
  have n: "(31 - int n) * 8 = int d" using True by (simp add: d_def)
  have "byte_value (int n) (uint b) = take_bit 8 (drop_bit d (uint b))"
    unfolding byte_value_def n using True by (simp add: js_shr_def and_255)
  also have "\<dots> = uint (take_bit 8 (drop_bit d b))"
    by (intro bit_eqI) (auto simp: bit_simps dest: bit_imp_le_length)
  finally show ?thesis using True by (simp add: d_def)
next
  case False
  show ?thesis
  proof (cases "n = 32")
    case True
    then show ?thesis by (simp add: byte_value_def js_shr_def and_255 take_bit_push_bit)
  qed (use False in \<open>simp add: byte_value_def\<close>)
qed

lemma implements_BYTE: "implements 2 op_BYTE
  (\<lambda>v. if unat (v ! 0) < 32 then take_bit 8 (drop_bit (8 * (31 - unat (v ! 0))) (v ! 1)) else 0)"
proof -
  have "op_BYTE = bnd (popN 2) (\<lambda>v. push (byte_value (v ! 0) (v ! 1)))"
    unfolding op_BYTE_def Let_def by (intro arg_cong [where f = "bnd (popN 2)"] ext) (simp add: byte_value_def)
  moreover have "byte_value (uint a) (uint b) =
      uint (if unat a < 32 then take_bit 8 (drop_bit (8 * (31 - unat a)) b) else 0)" for a b :: "256 word"
    by (rule uint_nat256 [of a]) (simp only: byte_value_nat)
  ultimately show ?thesis by (intro implements2_val [where g = byte_value]) simp_all
qed

lemma implements_SHL: "implements 2 op_SHL (\<lambda>v. push_bit (unat (v ! 0)) (v ! 1))"
proof -
  let ?g = "\<lambda>a b. if a > 256 then 0 else js_shl b a AND MAX_INTEGER_BIGINT"
  have h: "op_SHL = bnd (popN 2) (\<lambda>v. push (?g (v ! 0) (v ! 1)))"
    unfolding op_SHL_def Let_def by (intro arg_cong [where f = "bnd (popN 2)"] ext) simp
  have g: "?g (int n) (uint b) = uint (push_bit n b)" for n and b :: "256 word"
    by (intro bit_eqI) (auto simp: js_shl_def and_MAX bit_simps dest: bit_imp_le_length)
  have "?g (uint a) (uint b) = uint (push_bit (unat a) b)" for a b :: "256 word"
    by (rule uint_nat256 [of a]) (simp only: g)
  with h show ?thesis by (intro implements2_val [where g = ?g]) simp_all
qed

lemma implements_SHR: "implements 2 op_SHR (\<lambda>v. drop_bit (unat (v ! 0)) (v ! 1))"
proof -
  let ?g = "\<lambda>a b. if a > 256 then 0 else js_shr b a"
  have h: "op_SHR = bnd (popN 2) (\<lambda>v. push (?g (v ! 0) (v ! 1)))"
    unfolding op_SHR_def Let_def by (intro arg_cong [where f = "bnd (popN 2)"] ext) simp
  have g: "?g (int n) (uint b) = uint (drop_bit n b)" for n and b :: "256 word"
    by (intro bit_eqI) (auto simp: js_shr_def bit_simps dest: bit_imp_le_length)
  have "?g (uint a) (uint b) = uint (drop_bit (unat a) b)" for a b :: "256 word"
    by (rule uint_nat256 [of a]) (simp only: g)
  with h show ?thesis by (intro implements2_val [where g = ?g]) simp_all
qed

definition sar_value :: "int \<Rightarrow> int \<Rightarrow> int" where
  "sar_value a b =
     (let isSigned = asIntN 256 b < 0
      in if a > 256 then (if isSigned then MAX_INTEGER_BIGINT else 0)
         else if isSigned
              then js_shr b a OR js_shl (js_shr MAX_INTEGER_BIGINT (255 - a)) (255 - a)
              else js_shr b a)"

lemma MAX_mask: "MAX_INTEGER_BIGINT = mask 256"
  by (simp add: MAX_INTEGER_BIGINT_def mask_eq_exp_minus_1)

lemma sint_neg_bit: "sint (b :: 256 word) < 0 \<longleftrightarrow> bit b 255"
  using bit_last_iff [of b] by simp

lemma sar_mask:
  assumes "n \<le> 256"
  shows "js_shl (js_shr MAX_INTEGER_BIGINT (255 - int n)) (255 - int n) =
    (if n = 256 then mask 256 else push_bit (255 - n) (mask (Suc n)))"
proof (cases "n = 256")
  case True
  then show ?thesis
    by (simp add: js_shl_def js_shr_def MAX_mask drop_bit_eq_div)
next
  case False
  define m where "m = 255 - n"
  have m: "255 - int n = int m" "256 - m = Suc n" using False assms by (auto simp: m_def)
  show ?thesis
    unfolding m(1) m_def [symmetric] using False m(2)
    by (simp add: js_shl_def js_shr_def MAX_mask drop_bit_mask_eq)
qed

lemma len256: "LENGTH(256) = 256"
  by simp

lemma diff_256: "256 - 1 = (255 :: nat)"
  by simp

lemma bit_signed_drop:
  fixes w :: "'a::len word"
  shows "bit (uint (signed_drop_bit n w)) i \<longleftrightarrow>
    i < LENGTH('a) \<and> bit w (if i + n < LENGTH('a) then i + n else LENGTH('a) - 1)"
  using bit_imp_le_length [of w "n + i"] len_gt_0 [where ?'a = 'a]
  by (auto simp: bit_unsigned_iff bit_signed_drop_bit_iff add.commute)

lemma bit_signed_drop256: "bit (uint (signed_drop_bit n (b :: 256 word))) i \<longleftrightarrow>
    i < 256 \<and> bit b (if i + n < 256 then i + n else 255)"
  unfolding bit_signed_drop by (simp only: len256 diff_256)

lemma sar_value_nat: "sar_value (int n) (uint b) = uint (signed_drop_bit n (b :: 256 word))"
proof (rule bit_eqI)
  fix i
  have L: "bit b j \<Longrightarrow> j < 256" for j using bit_imp_le_length [of b j] by simp
  consider (big) "256 < n" | (pos) "n \<le> 256" "\<not> bit b 255" | (neg) "n \<le> 256" "bit b 255" by linarith
  then show "bit (sar_value (int n) (uint b)) i \<longleftrightarrow> bit (uint (signed_drop_bit n b)) i"
  proof cases
    case big
    then show ?thesis
      unfolding bit_signed_drop256 sar_value_def asIntN_uint sint_neg_bit Let_def MAX_mask
      by (simp add: bit_mask_iff)
  next
    case pos
    then show ?thesis
      unfolding bit_signed_drop256 sar_value_def asIntN_uint sint_neg_bit Let_def
      using L [of "i + n"] by (auto simp: js_shr_def bit_drop_bit_eq bit_uint256 add.commute)
  next
    case neg
    have "i + n < 256 \<Longrightarrow> 255 - n \<le> i \<Longrightarrow> i + n = 255" using neg(1) by linarith
    with neg show ?thesis
      unfolding bit_signed_drop256 sar_value_def asIntN_uint sint_neg_bit Let_def sar_mask [OF neg(1)]
      using L [of "i + n"]
      by (auto simp: js_shr_def bit_drop_bit_eq bit_uint256 add.commute bit_or_iff bit_push_bit_iff bit_mask_iff)
  qed
qed

lemma implements_SAR: "implements 2 op_SAR (\<lambda>v. signed_drop_bit (unat (v ! 0)) (v ! 1))"
proof -
  have "op_SAR = bnd (popN 2) (\<lambda>v. push (sar_value (v ! 0) (v ! 1)))"
    unfolding op_SAR_def Let_def
    by (intro arg_cong [where f = "bnd (popN 2)"] ext) (simp add: sar_value_def Let_def)
  moreover have "sar_value (uint a) (uint b) = uint (signed_drop_bit (unat a) b)" for a b :: "256 word"
    by (rule uint_nat256 [of a]) (simp only: sar_value_nat)
  ultimately show ?thesis by (intro implements2_val [where g = sar_value]) simp_all
qed

text \<open>The number of zero bits above the highest set bit of a word.\<close>

definition clz_word :: "256 word \<Rightarrow> nat" where
  "clz_word w = length (takeWhile (\<lambda>i. \<not> bit w i) (rev [0..<256]))"

lemma bin_length_bounds: "0 < n \<Longrightarrow> 2 ^ (bin_length n - 1) \<le> n \<and> n < 2 ^ bin_length n \<and> 0 < bin_length n"
proof (induction n rule: bin_length.induct)
  case (1 n)
  show ?case
  proof (cases "n < 2")
    case True
    with "1.prems" show ?thesis by (simp add: bin_length.simps [of n])
  next
    case False
    define L where "L = bin_length (n div 2)"
    have IH: "2 ^ (L - 1) \<le> n div 2" "n div 2 < 2 ^ L" "0 < L"
      using "1.IH" False by (simp_all add: L_def)
    then have "2 ^ L = 2 * (2 :: nat) ^ (L - 1)" by (cases L) simp_all
    with IH have "2 ^ L \<le> n" "n < 2 * 2 ^ L" by linarith+
    then show ?thesis using False by (simp add: bin_length.simps [of n] L_def)
  qed
qed

lemma takeWhile_clz:
  assumes "0 < L" "L \<le> k" "P (L - 1)" "\<And>i. L \<le> i \<Longrightarrow> i < k \<Longrightarrow> \<not> P i"
  shows "length (takeWhile (\<lambda>i. \<not> P i) (rev [0..<k])) = k - L"
proof -
  have "[0..<k] = [0..<L - 1] @ (L - 1) # [L..<k]"
    using upt_add_eq_append [of 0 "L - 1" "k - (L - 1)"] upt_conv_Cons [of "L - 1" k] assms(1,2) by simp
  then have "rev [0..<k] = rev [L..<k] @ (L - 1) # rev [0..<L - 1]" by simp
  moreover have "takeWhile (\<lambda>i. \<not> P i) (rev [L..<k] @ (L - 1) # ys) = rev [L..<k]" for ys
    using assms(3,4) by (subst takeWhile_append2) auto
  ultimately show ?thesis by simp
qed

lemma clz_word_eq:
  assumes "w \<noteq> 0"
  shows "clz_word w = 256 - bin_length (unat w)" "bin_length (unat w) \<le> 256"
proof -
  define L where "L = bin_length (unat w)"
  have "0 < unat w" using assms by (simp add: unat_gt_0)
  note B = bin_length_bounds [OF this, folded L_def]
  have "unat w < 2 ^ 256" using unsigned_less [of w, where ?'a = nat] by simp
  with B have "(2 :: nat) ^ (L - 1) < 2 ^ 256" by linarith
  then have le: "L \<le> 256" by (simp add: power_strict_increasing_iff del: power_numeral)
  have bitw: "bit w i \<longleftrightarrow> odd (unat w div 2 ^ i)" for i
    by (simp add: bit_iff_odd [symmetric] bit_unsigned_iff)
  have "2 ^ L = 2 * (2 :: nat) ^ (L - 1)" using B by (cases L) simp_all
  with B have "unat w div 2 ^ (L - 1) = 1"
    by (intro div_nat_eqI) simp_all
  then have top: "bit w (L - 1)" by (simp add: bitw)
  have "\<not> bit w i" if "L \<le> i" for i
  proof -
    have "(2::nat) ^ L \<le> 2 ^ i" using that by (simp add: power_increasing)
    with B have "unat w < 2 ^ i" by linarith
    then show ?thesis by (simp add: bitw)
  qed
  then have "clz_word w = 256 - L"
    unfolding clz_word_def using B le top by (intro takeWhile_clz) auto
  with le show "clz_word w = 256 - bin_length (unat w)" "bin_length (unat w) \<le> 256" by (simp_all add: L_def)
qed

lemma implements_CLZ: "implements 1 op_CLZ (\<lambda>v. word_of_nat (clz_word (v ! 0)))"
proof -
  let ?g = "\<lambda>x. if x = 0 then 256 else 256 - int (bin_length (nat x))"
  have h: "op_CLZ = bnd pop (\<lambda>a. push (?g a))"
    unfolding op_CLZ_def by (intro arg_cong [where f = "bnd pop"] ext) simp
  have z: "clz_word 0 = 256" by (simp add: clz_word_def takeWhile_eq_all_conv [THEN iffD2])
  have small: "uint (word_of_nat n :: 256 word) = int n" if "n \<le> 256" for n
    using that by (simp add: unsigned_of_nat take_bit_nat_eq_self)
  have "?g (uint a) = uint (word_of_nat (clz_word a) :: 256 word)" for a :: "256 word"
  proof (cases "a = 0")
    case True
    then show ?thesis using small [of 256] by (simp add: z)
  next
    case False
    then show ?thesis
      using clz_word_eq [OF False] small [of "clz_word a"] by (simp add: unsigned_eq_0_iff of_nat_diff)
  qed
  then show ?thesis unfolding h by (intro implements1I) simp
qed

section \<open>The handler table implements the word machine\<close>

definition alu_implements :: "nat \<Rightarrow> nat \<Rightarrow> (256 word list \<Rightarrow> 256 word) \<Rightarrow> bool" where
  "alu_implements opc n f \<longleftrightarrow> (\<exists>h. alu_handler opc = Some h \<and> implements n h f)"

lemmas alu_words =
  implements_ADD implements_MUL implements_SUB implements_DIV implements_MOD implements_SDIV
  implements_SMOD implements_ADDMOD implements_MULMOD implements_EXP implements_SIGNEXTEND
  implements_compare implements_ISZERO implements_bitwise implements_NOT implements_BYTE
  implements_SHL implements_SHR implements_SAR implements_CLZ

text \<open>
  C29. Unsigned arithmetic: ADD, MUL, SUB, DIV, MOD, ADDMOD, MULMOD and EXP, as dispatched by
  opcode, replace their operands by the result of the operation on 256-bit words (sums and
  products of ADDMOD and MULMOD are not truncated before the reduction, division by zero gives
  zero), and report underflow without an effect when operands are missing.
\<close>

theorem alu_unsigned:
  "alu_implements 0x01 2 (\<lambda>v. v ! 0 + v ! 1) \<and>
   alu_implements 0x02 2 (\<lambda>v. v ! 0 * v ! 1) \<and>
   alu_implements 0x03 2 (\<lambda>v. v ! 0 - v ! 1) \<and>
   alu_implements 0x04 2 (\<lambda>v. v ! 0 div v ! 1) \<and>
   alu_implements 0x06 2 (\<lambda>v. if v ! 1 = 0 then 0 else v ! 0 mod v ! 1) \<and>
   alu_implements 0x08 3
     (\<lambda>v. if v ! 2 = 0 then 0 else word_of_int ((uint (v ! 0) + uint (v ! 1)) mod uint (v ! 2))) \<and>
   alu_implements 0x09 3
     (\<lambda>v. if v ! 2 = 0 then 0 else word_of_int ((uint (v ! 0) * uint (v ! 1)) mod uint (v ! 2))) \<and>
   alu_implements 0x0a 2 (\<lambda>v. v ! 0 ^ unat (v ! 1))"
  unfolding alu_implements_def alu_handler_def by (simp add: alu_words del: One_nat_def)

text \<open>
  C30. Signed arithmetic: SDIV and SMOD round towards zero on the two's complement values (the
  quotient of the least value by -1 wraps), SLT and SGT compare them, SIGNEXTEND extends the
  sign bit of the selected byte and SAR shifts the sign in, for every shift distance.
\<close>

theorem alu_signed:
  "alu_implements 0x05 2 (\<lambda>v. word_of_int (sint (v ! 0) sdiv sint (v ! 1))) \<and>
   alu_implements 0x07 2 (\<lambda>v. if v ! 1 = 0 then 0 else word_of_int (sint (v ! 0) smod sint (v ! 1))) \<and>
   alu_implements 0x0b 2
     (\<lambda>v. if unat (v ! 0) < 31 then signed_take_bit (8 * unat (v ! 0) + 7) (v ! 1) else v ! 1) \<and>
   alu_implements 0x12 2 (\<lambda>v. of_bool (v ! 0 <s v ! 1)) \<and>
   alu_implements 0x13 2 (\<lambda>v. of_bool (v ! 1 <s v ! 0)) \<and>
   alu_implements 0x1d 2 (\<lambda>v. signed_drop_bit (unat (v ! 0)) (v ! 1))"
  unfolding alu_implements_def alu_handler_def by (simp add: alu_words del: One_nat_def)

text \<open>
  C31. Comparison, bitwise and shift instructions: LT, GT, EQ, ISZERO, AND, OR, XOR, NOT, BYTE,
  SHL, SHR and CLZ are the operations on 256-bit words, with the boundary cases (byte index 32
  and above, shift distance 256 and above, CLZ of zero) included.
\<close>

theorem alu_bits:
  "alu_implements 0x10 2 (\<lambda>v. of_bool (v ! 0 < v ! 1)) \<and>
   alu_implements 0x11 2 (\<lambda>v. of_bool (v ! 0 > v ! 1)) \<and>
   alu_implements 0x14 2 (\<lambda>v. of_bool (v ! 0 = v ! 1)) \<and>
   alu_implements 0x15 1 (\<lambda>v. of_bool (v ! 0 = 0)) \<and>
   alu_implements 0x16 2 (\<lambda>v. v ! 0 AND v ! 1) \<and>
   alu_implements 0x17 2 (\<lambda>v. v ! 0 OR v ! 1) \<and>
   alu_implements 0x18 2 (\<lambda>v. v ! 0 XOR v ! 1) \<and>
   alu_implements 0x19 1 (\<lambda>v. NOT (v ! 0)) \<and>
   alu_implements 0x1a 2
     (\<lambda>v. if unat (v ! 0) < 32 then take_bit 8 (drop_bit (8 * (31 - unat (v ! 0))) (v ! 1)) else 0) \<and>
   alu_implements 0x1b 2 (\<lambda>v. push_bit (unat (v ! 0)) (v ! 1)) \<and>
   alu_implements 0x1c 2 (\<lambda>v. drop_bit (unat (v ! 0)) (v ! 1)) \<and>
   alu_implements 0x1e 1 (\<lambda>v. word_of_nat (clz_word (v ! 0)))"
  unfolding alu_implements_def alu_handler_def by (simp add: alu_words del: One_nat_def)

end
