(* ===== verification/Gas.thy ===== *)
theory Gas
  imports Interp Alu
begin

text \<open>
  The dynamic gas handlers of \<^verbatim>\<open>packages/tvm/src/opcodes/gas.ts\<close>. A handler takes the base fee
  and returns the fee to charge; some grow the recorded memory size, set the gas limit of the
  message that a call opcode will send, or raise before anything is charged. The handlers of EOF
  instructions belong to opcodes that are not in the table of the profile.
\<close>

section \<open>Helpers\<close>

definition peek1 :: "int rop" where
  "peek1 = bnd (on_stack (peek 1)) (\<lambda>v. ret (v ! 0))"

definition stack_address :: "int \<Rightarrow> address rop" where
  "stack_address v = lift_sum (createAddressFromStackBigInt v)"

definition note_address :: "address \<Rightarrow> unit rop" where
  "note_address a = on_world (modify (mod_jr (addAccessedAddress a)))"

definition note_storage :: "bytes \<Rightarrow> unit rop" where
  "note_storage key = bnd (get_env e_address) (\<lambda>a. on_world (modify (mod_jr (addAccessedStorage a key))))"

definition setCallGasLimit :: "int \<Rightarrow> int \<Rightarrow> int rop" where
  "setCallGasLimit gas requestedGas =
     bnd (gets gasLeft) (\<lambda>left.
     sq (whenb (gas > left) (trap OUT_OF_GAS))
     (sq (modify (\<lambda>s. s\<lparr>messageGasLimit := Some (maxCallGas requestedGas (left - gas))\<rparr>))
     (ret gas)))"

definition not_static :: "unit rop" where
  "not_static = bnd (get_env e_isStatic) (\<lambda>b. whenb b (trap STATIC_STATE_CHANGE))"

section \<open>Handlers\<close>

text \<open>
  The length in bytes of the exponent, rounded up from the length of its binary string; the
  arithmetic is on numbers that are multiples of one eighth.
\<close>

definition byte_length :: "int \<Rightarrow> int" where
  "byte_length exponent = (int (bin_length (nat exponent)) + 7) div 8"

definition gas_EXP :: "tvm \<Rightarrow> int \<Rightarrow> int rop" where
  "gas_EXP T gas = bnd (on_stack (peek 2)) (\<lambda>v. let exponent = v ! 1 in
     if exponent = 0 then ret gas
     else let byteLength = byte_length exponent
          in if byteLength < 1 \<or> byteLength > 32 then trap OUT_OF_RANGE
             else ret (gas + byteLength * param (common T) ''expByteGas''))"

definition gas_KECCAK256 :: "tvm \<Rightarrow> int \<Rightarrow> int rop" where
  "gas_KECCAK256 T gas = bnd (on_stack (peek 2)) (\<lambda>v. let offset = v ! 0; lng = v ! 1 in
     bnd (subMemUsage (common T) offset lng) (\<lambda>m.
     ret (gas + m + param (common T) ''keccak256WordGas'' * divCeil lng 32)))"

text \<open>BALANCE, EXTCODESIZE, EXTCODEHASH and ISCONTRACT only note the address.\<close>

definition gas_note_top :: "tvm \<Rightarrow> int \<Rightarrow> int rop" where
  "gas_note_top T gas = bnd peek1 (\<lambda>a. bnd (stack_address a) (\<lambda>addr. sq (note_address addr) (ret gas)))"

text \<open>CALLDATACOPY and CODECOPY.\<close>

definition gas_COPY :: "tvm \<Rightarrow> int \<Rightarrow> int rop" where
  "gas_COPY T gas = bnd (on_stack (peek 3)) (\<lambda>v. let memOffset = v ! 0; dataLength = v ! 2 in
     bnd (subMemUsage (common T) memOffset dataLength) (\<lambda>m.
     ret (gas + m + (if dataLength \<noteq> 0 then param (common T) ''copyGas'' * divCeil dataLength 32 else 0))))"

definition gas_EXTCODECOPY :: "tvm \<Rightarrow> int \<Rightarrow> int rop" where
  "gas_EXTCODECOPY T gas = bnd (on_stack (peek 4)) (\<lambda>v. let memOffset = v ! 1; dataLength = v ! 3 in
     bnd (stack_address (v ! 0)) (\<lambda>addr.
     sq (note_address addr)
     (bnd (subMemUsage (common T) memOffset dataLength) (\<lambda>m.
     ret (gas + m + param (common T) ''copyGas'' * divCeil dataLength 32)))))"

definition gas_RETURNDATACOPY :: "tvm \<Rightarrow> int \<Rightarrow> int rop" where
  "gas_RETURNDATACOPY T gas = bnd (on_stack (peek 3)) (\<lambda>v.
     let memOffset = v ! 0; returnDataOffset = v ! 1; dataLength = v ! 2 in
     bnd (gets (\<lambda>s. int (length (returnBytes s)))) (\<lambda>sz.
     sq (whenb (returnDataOffset + dataLength > sz) (trap OUT_OF_GAS))
     (bnd (subMemUsage (common T) memOffset dataLength) (\<lambda>m.
     ret (gas + m + (if dataLength \<noteq> 0 then param (common T) ''copyGas'' * divCeil dataLength 32 else 0))))))"

text \<open>MLOAD and MSTORE touch 32 bytes, MSTORE8 one.\<close>

definition gas_MEM :: "int \<Rightarrow> tvm \<Rightarrow> int \<Rightarrow> int rop" where
  "gas_MEM n T gas = bnd peek1 (\<lambda>offset. bnd (subMemUsage (common T) offset n) (\<lambda>m. ret (gas + m)))"

definition gas_SLOAD :: "tvm \<Rightarrow> int \<Rightarrow> int rop" where
  "gas_SLOAD T gas = bnd peek1 (\<lambda>key. bnd (lift_sum (word_buf key)) (\<lambda>k. sq (note_storage k) (ret gas)))"

definition gas_SSTORE :: "tvm \<Rightarrow> int \<Rightarrow> int rop" where
  "gas_SSTORE T gas =
     sq not_static
     (bnd (on_stack (peek 2)) (\<lambda>v. let key = v ! 0; value = v ! 1 in
     bnd (lift_sum (word_buf key)) (\<lambda>keyBytes.
     bnd (storageLoad keyBytes) (\<lambda>currentStorage.
     sq (note_storage keyBytes)
     (bnd (lift_sum (setLengthLeftStorage currentStorage)) (\<lambda>cur.
     bnd (if value = 0 then ret [] else lift_sum (bigIntToBytes value)) (\<lambda>val.
     bnd (gets (\<lambda>s. hasStorageWrite (e_address (env s)) keyBytes (w_jr (world s)))) (\<lambda>written.
     ret (gas + updateSstoreGas (common T) cur val written)))))))))"

definition gas_MCOPY :: "tvm \<Rightarrow> int \<Rightarrow> int rop" where
  "gas_MCOPY T gas = bnd (on_stack (peek 3)) (\<lambda>v. let dst = v ! 0; src = v ! 1; lng = v ! 2 in
     bnd (subMemUsage (common T) src lng) (\<lambda>m1.
     bnd (subMemUsage (common T) dst lng) (\<lambda>m2.
     ret (gas + 3 * js_div (lng + 31) 32 + m1 + m2))))"

definition gas_LOG :: "tvm \<Rightarrow> int \<Rightarrow> int rop" where
  "gas_LOG T gas =
     sq not_static
     (bnd (on_stack (peek 2)) (\<lambda>v. let memOffset = v ! 0; memLength = v ! 1 in
     bnd (gets (\<lambda>s. int (opCode s) - 0xa0)) (\<lambda>topicsCount.
     sq (whenb (topicsCount < 0 \<or> topicsCount > 4) (trap OUT_OF_RANGE))
     (bnd (subMemUsage (common T) memOffset memLength) (\<lambda>m.
     ret (gas + m + (param (common T) ''logTopicGas'' * topicsCount +
                     memLength * param (common T) ''logDataGas'')))))))"

definition gas_CREATE :: "tvm \<Rightarrow> int \<Rightarrow> int rop" where
  "gas_CREATE T gas0 =
     sq not_static
     (bnd (on_stack (peek 3)) (\<lambda>v. let offset = v ! 1; lng = v ! 2 in
     bnd (subMemUsage (common T) offset lng) (\<lambda>m.
     let gas = gas0 + m in
     sq (modify (\<lambda>s. let gasLimit = gasLeft s - gas in s\<lparr>messageGasLimit := Some (maxCallGas gasLimit gasLimit)\<rparr>))
     (ret gas))))"

definition gas_CREATE2 :: "tvm \<Rightarrow> int \<Rightarrow> int rop" where
  "gas_CREATE2 T gas0 =
     sq not_static
     (bnd (on_stack (peek 4)) (\<lambda>v. let offset = v ! 1; lng = v ! 2 in
     bnd (subMemUsage (common T) offset lng) (\<lambda>m.
     let gas = gas0 + m + param (common T) ''keccak256WordGas'' * divCeil lng 32 in
     sq (modify (\<lambda>s. let gasLimit = gasLeft s - gas in s\<lparr>messageGasLimit := Some (maxCallGas gasLimit gasLimit)\<rparr>))
     (ret gas))))"

text \<open>
  The part common to the call opcodes: note the target, charge both memory ranges, charge a value
  transfer and the creation of the recipient, and set the gas limit of the message.
\<close>

definition call_memory :: "tvm \<Rightarrow> address \<Rightarrow> int \<Rightarrow> int \<Rightarrow> int \<Rightarrow> int \<Rightarrow> int rop" where
  "call_memory T addr inOffset inLength outOffset outLength =
     sq (note_address addr)
     (bnd (subMemUsage (common T) inOffset inLength) (\<lambda>m1.
     bnd (subMemUsage (common T) outOffset outLength) (\<lambda>m2. ret (m1 + m2))))"

definition transfer_fee :: "tvm \<Rightarrow> address \<Rightarrow> int \<Rightarrow> int rop" where
  "transfer_fee T addr value =
     (if value = 0 then ret 0
      else bnd (get_sm (getAccount addr)) (\<lambda>acc.
           ret (param (common T) ''callValueTransferGas'' +
                (if acc = None then param (common T) ''callNewAccountGas'' else 0))))"

definition gas_CALL :: "tvm \<Rightarrow> int \<Rightarrow> int rop" where
  "gas_CALL T gas = bnd (on_stack (peek 7)) (\<lambda>v.
     bnd (stack_address (v ! 1)) (\<lambda>addr.
     sq (bnd (get_env e_isStatic) (\<lambda>b. whenb (b \<and> v ! 2 \<noteq> 0) (trap STATIC_STATE_CHANGE)))
     (bnd (call_memory T addr (v ! 3) (v ! 4) (v ! 5) (v ! 6)) (\<lambda>m.
     bnd (transfer_fee T addr (v ! 2)) (\<lambda>f.
     setCallGasLimit (gas + m + f) (v ! 0))))))"

definition gas_CALLCODE :: "tvm \<Rightarrow> int \<Rightarrow> int rop" where
  "gas_CALLCODE T gas = bnd (on_stack (peek 7)) (\<lambda>v.
     bnd (stack_address (v ! 1)) (\<lambda>addr.
     bnd (call_memory T addr (v ! 3) (v ! 4) (v ! 5) (v ! 6)) (\<lambda>m.
     setCallGasLimit (gas + m + (if v ! 2 \<noteq> 0 then param (common T) ''callValueTransferGas'' else 0)) (v ! 0))))"

text \<open>DELEGATECALL and STATICCALL.\<close>

definition gas_DELEGATECALL :: "tvm \<Rightarrow> int \<Rightarrow> int rop" where
  "gas_DELEGATECALL T gas = bnd (on_stack (peek 6)) (\<lambda>v.
     bnd (stack_address (v ! 1)) (\<lambda>addr.
     bnd (call_memory T addr (v ! 2) (v ! 3) (v ! 4) (v ! 5)) (\<lambda>m.
     setCallGasLimit (gas + m) (v ! 0))))"

definition gas_CALLTOKEN :: "tvm \<Rightarrow> int \<Rightarrow> int rop" where
  "gas_CALLTOKEN T gas = bnd (on_stack (peek 8)) (\<lambda>v.
     bnd (stack_address (v ! 1)) (\<lambda>addr.
     sq (bnd (get_env e_isStatic) (\<lambda>b. whenb (b \<and> v ! 2 \<noteq> 0) (trap STATIC_STATE_CHANGE)))
     (bnd (call_memory T addr (v ! 4) (v ! 5) (v ! 6) (v ! 7)) (\<lambda>m.
     bnd (transfer_fee T addr (v ! 2)) (\<lambda>f.
     setCallGasLimit (gas + m + f) (v ! 0))))))"

text \<open>RETURN and REVERT.\<close>

definition gas_RETURN :: "tvm \<Rightarrow> int \<Rightarrow> int rop" where
  "gas_RETURN T gas = bnd (on_stack (peek 2)) (\<lambda>v.
     bnd (subMemUsage (common T) (v ! 0) (v ! 1)) (\<lambda>m. ret (gas + m)))"

definition gas_SELFDESTRUCT :: "tvm \<Rightarrow> int \<Rightarrow> int rop" where
  "gas_SELFDESTRUCT T gas =
     sq not_static
     (bnd peek1 (\<lambda>v.
     bnd (stack_address v) (\<lambda>beneficiary.
     sq (note_address beneficiary)
     (bnd (get_sm (getAccount beneficiary)) (\<lambda>acc.
     ret (gas + (if acc = None then param (common T) ''callNewAccountGas'' else 0)))))))"

definition gas_TOKENBALANCE :: "tvm \<Rightarrow> int \<Rightarrow> int rop" where
  "gas_TOKENBALANCE T gas = bnd (on_stack (peek 2)) (\<lambda>v.
     bnd (stack_address (v ! 1)) (\<lambda>addr. sq (note_address addr) (ret gas)))"

definition dynamicGasHandlers :: "nat \<Rightarrow> (tvm \<Rightarrow> int \<Rightarrow> int rop) option" where
  "dynamicGasHandlers opc =
     (if opc = 0x0a then Some gas_EXP
      else if opc = 0x20 then Some gas_KECCAK256
      else if opc = 0x31 \<or> opc = 0x3b \<or> opc = 0x3f \<or> opc = 0xd4 then Some gas_note_top
      else if opc = 0x37 \<or> opc = 0x39 then Some gas_COPY
      else if opc = 0x3c then Some gas_EXTCODECOPY
      else if opc = 0x3e then Some gas_RETURNDATACOPY
      else if opc = 0x51 \<or> opc = 0x52 then Some (gas_MEM 32)
      else if opc = 0x53 then Some (gas_MEM 1)
      else if opc = 0x54 then Some gas_SLOAD
      else if opc = 0x55 then Some gas_SSTORE
      else if opc = 0x5e then Some gas_MCOPY
      else if 0xa0 \<le> opc \<and> opc \<le> 0xa4 then Some gas_LOG
      else if opc = 0xf0 then Some gas_CREATE
      else if opc = 0xf1 then Some gas_CALL
      else if opc = 0xf2 then Some gas_CALLCODE
      else if opc = 0xf3 \<or> opc = 0xfd then Some gas_RETURN
      else if opc = 0xf4 \<or> opc = 0xfa then Some gas_DELEGATECALL
      else if opc = 0xf5 then Some gas_CREATE2
      else if opc = 0xff then Some gas_SELFDESTRUCT
      else if opc = 0xd0 then Some gas_CALLTOKEN
      else if opc = 0xd1 then Some gas_TOKENBALANCE
      else None)"

end
