(* ===== verification/Handlers.thy ===== *)
theory Handlers
  imports Gas
begin

text \<open>
  The opcode handlers of \<^verbatim>\<open>packages/tvm/src/opcodes/functions.ts\<close> other than the arithmetic ones
  of theory \<open>Alu\<close>, and the table that dispatches an opcode to its handler. Byte offsets and
  lengths are converted with \<^verbatim>\<open>Number\<close> in the source; the model keeps them exact, which agrees
  with it below $2^{53}$, far above what the memory charge lets a program touch.
\<close>

section \<open>Shared steps\<close>

definition pushv :: "int \<Rightarrow> unit rop" where
  "pushv v = on_stack (push v)"

text \<open>A stack item as a 32-byte key, and in its shortest form, zero being empty.\<close>

definition key32 :: "int \<Rightarrow> bytes rop" where
  "key32 v = lift_sum (word_buf v)"

definition shortest :: "int \<Rightarrow> bytes rop" where
  "shortest v = (if v = 0 then ret [] else lift_sum (bigIntToBytes v))"

definition read_range :: "int \<Rightarrow> int \<Rightarrow> bool \<Rightarrow> bytes rop" where
  "read_range offset lng avoidCopy =
     (if lng \<noteq> 0 then on_memory (mem_read (nat offset) (nat lng) avoidCopy) else ret [])"

definition copy_range :: "bytes \<Rightarrow> int \<Rightarrow> int \<Rightarrow> int \<Rightarrow> unit rop" where
  "copy_range src memOffset offset dataLength =
     whenb (dataLength \<noteq> 0)
       (bnd (lift_sum (getDataSlice src offset dataLength)) (\<lambda>data.
        on_memory (mem_write (nat memOffset) (nat dataLength) data)))"

definition take_gasLimit :: "int rop" where
  "take_gasLimit s = (case messageGasLimit s of
     None \<Rightarrow> throw (HostError ''TypeError'') s
   | Some g \<Rightarrow> (Inr g, s\<lparr>messageGasLimit := None\<rparr>))"

text \<open>The stipend added to a call that transfers value.\<close>

definition take_stipend :: "tvm \<Rightarrow> int \<Rightarrow> int rop" where
  "take_stipend T value =
     (if value \<noteq> 0
      then sq (addStipend (param (common T) ''callStipendGas'')) (ret (param (common T) ''callStipendGas''))
      else ret 0)"

definition EOFBYTES :: bytes where
  "EOFBYTES = [0xef, 0x00]"

definition isEOF :: "bytes \<Rightarrow> bool" where
  "isEOF c \<longleftrightarrow> equalsBytes EOFBYTES (subarray c 0 (length EOFBYTES))"

definition isValidTronTokenId :: "int \<Rightarrow> bool" where
  "isValidTronTokenId tokenId \<longleftrightarrow> tokenId > MIN_TOKEN_ID \<and> tokenId \<le> MAX_INT64"

section \<open>Environment\<close>

definition op_STOP :: "tvm \<Rightarrow> unit rop" where
  "op_STOP T = trap STOP"

definition op_KECCAK256 :: "tvm \<Rightarrow> unit rop" where
  "op_KECCAK256 T = bnd (on_stack (popN 2)) (\<lambda>v.
     bnd (read_range (v ! 0) (v ! 1) False) (\<lambda>data. pushv (bytesToBigInt (keccak T data))))"

definition op_ADDRESS :: "tvm \<Rightarrow> unit rop" where
  "op_ADDRESS T = bnd (get_env e_address) (\<lambda>a. pushv (bytesToBigInt (addr_bytes a)))"

definition op_BALANCE :: "tvm \<Rightarrow> unit rop" where
  "op_BALANCE T = bnd (on_stack pop) (\<lambda>a. bnd (stack_address a) (\<lambda>addr.
     bnd (getExternalBalance addr) pushv))"

definition op_ORIGIN :: "tvm \<Rightarrow> unit rop" where
  "op_ORIGIN T = bnd getTxOrigin pushv"

definition op_CALLER :: "tvm \<Rightarrow> unit rop" where
  "op_CALLER T = bnd getCaller pushv"

definition op_CALLVALUE :: "tvm \<Rightarrow> unit rop" where
  "op_CALLVALUE T = bnd (get_env e_callValue) pushv"

definition op_CALLDATALOAD :: "tvm \<Rightarrow> unit rop" where
  "op_CALLDATALOAD T = bnd (on_stack pop) (\<lambda>pos. bnd (get_env e_callData) (\<lambda>callData.
     if pos > int (length callData) then pushv 0
     else let i = nat pos; loaded0 = subarray callData i (i + 32);
              loaded = (if length loaded0 \<noteq> 0 then loaded0 else [0]);
              r = bytesToBigInt loaded
          in pushv (if length loaded < 32 then js_shl r (8 * int (32 - length loaded)) else r)))"

definition op_CALLDATASIZE :: "tvm \<Rightarrow> unit rop" where
  "op_CALLDATASIZE T = bnd (get_env (\<lambda>e. int (length (e_callData e)))) pushv"

definition op_CALLDATACOPY :: "tvm \<Rightarrow> unit rop" where
  "op_CALLDATACOPY T = bnd (on_stack (popN 3)) (\<lambda>v.
     bnd (get_env e_callData) (\<lambda>d. copy_range d (v ! 0) (v ! 1) (v ! 2)))"

definition op_CODESIZE :: "tvm \<Rightarrow> unit rop" where
  "op_CODESIZE T = bnd (get_env (\<lambda>e. int (length (e_code e)))) pushv"

definition op_CODECOPY :: "tvm \<Rightarrow> unit rop" where
  "op_CODECOPY T = bnd (on_stack (popN 3)) (\<lambda>v.
     bnd (get_env e_code) (\<lambda>d. copy_range d (v ! 0) (v ! 1) (v ! 2)))"

definition op_GASPRICE :: "tvm \<Rightarrow> unit rop" where
  "op_GASPRICE T = bnd (get_env e_gasPrice) pushv"

definition op_EXTCODESIZE :: "tvm \<Rightarrow> unit rop" where
  "op_EXTCODESIZE T = bnd (on_stack pop) (\<lambda>a. bnd (stack_address a) (\<lambda>addr.
     bnd (get_sm (getCode addr)) (\<lambda>c.
     if isEOF c then pushv (int (length EOFBYTES)) else pushv (int (length c)))))"

definition op_EXTCODECOPY :: "tvm \<Rightarrow> unit rop" where
  "op_EXTCODECOPY T = bnd (on_stack (popN 4)) (\<lambda>v. bnd (stack_address (v ! 0)) (\<lambda>addr.
     bnd (get_sm (getCode addr)) (\<lambda>c.
     copy_range (if isEOF c then EOFBYTES else c) (v ! 1) (v ! 2) (v ! 3))))"

definition op_RETURNDATASIZE :: "tvm \<Rightarrow> unit rop" where
  "op_RETURNDATASIZE T = bnd (gets (\<lambda>s. int (length (returnBytes s)))) pushv"

definition op_RETURNDATACOPY :: "tvm \<Rightarrow> unit rop" where
  "op_RETURNDATACOPY T = bnd (on_stack (popN 3)) (\<lambda>v.
     bnd (gets returnBytes) (\<lambda>d. copy_range d (v ! 0) (v ! 1) (v ! 2)))"

definition op_EXTCODEHASH :: "tvm \<Rightarrow> unit rop" where
  "op_EXTCODEHASH T = bnd (on_stack pop) (\<lambda>a. bnd (stack_address a) (\<lambda>addr.
     bnd (get_sm (getCode addr)) (\<lambda>c.
     if isEOF c then pushv (bytesToBigInt (keccak T EOFBYTES))
     else bnd (get_sm (getAccount addr)) (\<lambda>acc. case acc of
            None \<Rightarrow> pushv 0
          | Some x \<Rightarrow> if isEmpty x then pushv 0 else pushv (bytesToBigInt (codeHash x))))))"

definition op_BLOCKHASH :: "tvm \<Rightarrow> unit rop" where
  "op_BLOCKHASH T = bnd (on_stack pop) (\<lambda>num. bnd (get_env (\<lambda>e. number (e_block e))) (\<lambda>cur.
     let diff = cur - num
     in if diff > 256 \<or> diff \<le> 0 then pushv 0
        else bnd (lift_sum (blockHash T num)) (\<lambda>h. pushv (bytesToBigInt h))))"

definition op_COINBASE :: "tvm \<Rightarrow> unit rop" where
  "op_COINBASE T = bnd getBlockCoinbase pushv"

definition op_TIMESTAMP :: "tvm \<Rightarrow> unit rop" where
  "op_TIMESTAMP T = bnd (get_env (\<lambda>e. timestamp (e_block e))) pushv"

definition op_NUMBER :: "tvm \<Rightarrow> unit rop" where
  "op_NUMBER T = bnd (get_env (\<lambda>e. number (e_block e))) pushv"

definition op_DIFFICULTY :: "tvm \<Rightarrow> unit rop" where
  "op_DIFFICULTY T = pushv getBlockDifficulty"

definition op_GASLIMIT :: "tvm \<Rightarrow> unit rop" where
  "op_GASLIMIT T = bnd (get_env (\<lambda>e. block_gasLimit (e_block e))) pushv"

definition op_CHAINID :: "tvm \<Rightarrow> unit rop" where
  "op_CHAINID T = pushv (chainId T)"

definition op_SELFBALANCE :: "tvm \<Rightarrow> unit rop" where
  "op_SELFBALANCE T = bnd (get_env (\<lambda>e. balance (e_contract e))) pushv"

definition op_BASEFEE :: "tvm \<Rightarrow> unit rop" where
  "op_BASEFEE T = bnd getBlockBaseFee pushv"

section \<open>Memory, storage and control\<close>

definition op_POP :: "tvm \<Rightarrow> unit rop" where
  "op_POP T = bnd (on_stack pop) (\<lambda>_. ret ())"

definition op_MLOAD :: "tvm \<Rightarrow> unit rop" where
  "op_MLOAD T = bnd (on_stack pop) (\<lambda>pos.
     bnd (on_memory (mem_read (nat pos) 32 True)) (\<lambda>w. pushv (bytesToBigInt w)))"

definition op_MSTORE :: "tvm \<Rightarrow> unit rop" where
  "op_MSTORE T = bnd (on_stack (popN 2)) (\<lambda>v.
     bnd (key32 (v ! 1)) (\<lambda>buf. on_memory (mem_write (nat (v ! 0)) 32 buf)))"

definition op_MSTORE8 :: "tvm \<Rightarrow> unit rop" where
  "op_MSTORE8 T = bnd (on_stack (popN 2)) (\<lambda>v.
     bnd (lift_sum (bigIntToBytes (v ! 1 AND 255))) (\<lambda>buf. on_memory (mem_write (nat (v ! 0)) 1 buf)))"

definition op_SLOAD :: "tvm \<Rightarrow> unit rop" where
  "op_SLOAD T = bnd (on_stack pop) (\<lambda>key. bnd (key32 key) (\<lambda>k. bnd (storageLoad k) (\<lambda>value.
     pushv (if length value \<noteq> 0 then bytesToBigInt value else 0))))"

definition op_SSTORE :: "tvm \<Rightarrow> unit rop" where
  "op_SSTORE T = bnd (on_stack (popN 2)) (\<lambda>v. bnd (key32 (v ! 0)) (\<lambda>k.
     bnd (shortest (v ! 1)) (\<lambda>value. storageStore k value)))"

definition do_jump :: "int \<Rightarrow> unit rop" where
  "do_jump dest =
     bnd (get_env (\<lambda>e. int (length (e_code e)))) (\<lambda>sz.
     sq (whenb (dest > sz) (trap INVALID_JUMP))
     (bnd (gets (\<lambda>s. jumpIsValid s (nat dest))) (\<lambda>valid.
     sq (whenb (\<not> valid) (trap INVALID_JUMP))
     (modify (\<lambda>s. s\<lparr>programCounter := nat dest\<rparr>)))))"

definition op_JUMP :: "tvm \<Rightarrow> unit rop" where
  "op_JUMP T = bnd (on_stack pop) do_jump"

definition op_JUMPI :: "tvm \<Rightarrow> unit rop" where
  "op_JUMPI T = bnd (on_stack (popN 2)) (\<lambda>v. whenb (v ! 1 \<noteq> 0) (do_jump (v ! 0)))"

definition op_PC :: "tvm \<Rightarrow> unit rop" where
  "op_PC T = bnd (gets (\<lambda>s. int (programCounter s) - 1)) pushv"

definition op_MSIZE :: "tvm \<Rightarrow> unit rop" where
  "op_MSIZE T = bnd (gets (\<lambda>s. memoryWordCount s * 32)) pushv"

definition op_GAS :: "tvm \<Rightarrow> unit rop" where
  "op_GAS T = bnd (gets gasLeft) pushv"

definition op_JUMPDEST :: "tvm \<Rightarrow> unit rop" where
  "op_JUMPDEST T = ret ()"

definition op_TLOAD :: "tvm \<Rightarrow> unit rop" where
  "op_TLOAD T = bnd (on_stack pop) (\<lambda>key. bnd (key32 key) (\<lambda>k. bnd (transientStorageLoad k) (\<lambda>value.
     pushv (if length value \<noteq> 0 then bytesToBigInt value else 0))))"

definition op_TSTORE :: "tvm \<Rightarrow> unit rop" where
  "op_TSTORE T = sq not_static (bnd (on_stack (popN 2)) (\<lambda>v. bnd (key32 (v ! 0)) (\<lambda>k.
     bnd (shortest (v ! 1)) (\<lambda>value. transientStorageStore k value))))"

definition op_MCOPY :: "tvm \<Rightarrow> unit rop" where
  "op_MCOPY T = bnd (on_stack (popN 3)) (\<lambda>v.
     bnd (on_memory (mem_read (nat (v ! 1)) (nat (v ! 2)) True)) (\<lambda>data.
     on_memory (mem_write (nat (v ! 0)) (nat (v ! 2)) data)))"

definition op_PUSH0 :: "tvm \<Rightarrow> unit rop" where
  "op_PUSH0 T = pushv 0"

text \<open>
  The bytes of a PUSH instruction, read from the code or taken from the cache of the jump
  analysis; a missing cache entry is pushed as \<^verbatim>\<open>undefined\<close> by the source.
\<close>

definition op_PUSH :: "tvm \<Rightarrow> unit rop" where
  "op_PUSH T = bnd (gets id) (\<lambda>s.
     let numToPush = opCode s - 0x5f; pc = programCounter s
     in if \<not> shouldDoJumpAnalysis s
        then case cachedPushes s pc of
               None \<Rightarrow> throw (HostError ''undefined pushed'')
             | Some v \<Rightarrow> sq (pushv v) (modify (\<lambda>s. s\<lparr>programCounter := programCounter s + numToPush\<rparr>))
        else let loaded = subarray (code s) pc (pc + numToPush)
             in bnd (if length loaded < numToPush then lift_sum (setLengthRight loaded numToPush) else ret loaded)
                  (\<lambda>bs. sq (modify (\<lambda>s. s\<lparr>programCounter := programCounter s + numToPush\<rparr>))
                        (pushv (bytesToBigInt bs))))"

definition op_DUP :: "tvm \<Rightarrow> unit rop" where
  "op_DUP T = bnd (gets (\<lambda>s. opCode s - 0x7f)) (\<lambda>p. on_stack (dup p))"

definition op_SWAP :: "tvm \<Rightarrow> unit rop" where
  "op_SWAP T = bnd (gets (\<lambda>s. opCode s - 0x8f)) (\<lambda>p. on_stack (swap p))"

fun key32_all :: "int list \<Rightarrow> bytes list rop" where
  "key32_all [] = ret []"
| "key32_all (v # vs) = bnd (key32 v) (\<lambda>k. bnd (key32_all vs) (\<lambda>ks. ret (k # ks)))"

definition op_LOG :: "tvm \<Rightarrow> unit rop" where
  "op_LOG T = bnd (on_stack (popN 2)) (\<lambda>v.
     bnd (gets (\<lambda>s. opCode s - 0xa0)) (\<lambda>topicsCount.
     bnd (on_stack (popN topicsCount)) (\<lambda>topics.
     bnd (key32_all topics) (\<lambda>topicsBuf.
     bnd (read_range (v ! 0) (v ! 1) False) (\<lambda>mem.
     interp_log mem (int topicsCount) topicsBuf)))))"

section \<open>Creation and calls\<close>

definition op_CREATE :: "tvm \<Rightarrow> unit rop" where
  "op_CREATE T = bnd (on_stack (popN 3)) (\<lambda>v.
     bnd take_gasLimit (\<lambda>gasLimit.
     bnd (read_range (v ! 1) (v ! 2) True) (\<lambda>data.
     if isEOF data then pushv 0
     else bnd (create T gasLimit (v ! 0) data None) pushv)))"

definition op_CREATE2 :: "tvm \<Rightarrow> unit rop" where
  "op_CREATE2 T = sq not_static (bnd (on_stack (popN 4)) (\<lambda>v.
     bnd take_gasLimit (\<lambda>gasLimit.
     bnd (read_range (v ! 1) (v ! 2) True) (\<lambda>data.
     if isEOF data then pushv 0
     else bnd (key32 (v ! 3)) (\<lambda>salt. bnd (create T gasLimit (v ! 0) data (Some salt)) pushv)))))"

definition op_CALL :: "tvm \<Rightarrow> unit rop" where
  "op_CALL T = bnd (on_stack (popN 7)) (\<lambda>v. bnd (stack_address (v ! 1)) (\<lambda>to.
     bnd (read_range (v ! 3) (v ! 4) True) (\<lambda>data.
     bnd (take_stipend T (v ! 2)) (\<lambda>stipend.
     bnd take_gasLimit (\<lambda>gasLimit.
     bnd (call T (gasLimit + stipend) to (v ! 2) data) (\<lambda>r.
     sq (writeCallOutput (v ! 5) (v ! 6)) (pushv r)))))))"

definition op_CALLCODE :: "tvm \<Rightarrow> unit rop" where
  "op_CALLCODE T = bnd (on_stack (popN 7)) (\<lambda>v. bnd (stack_address (v ! 1)) (\<lambda>to.
     bnd (take_stipend T (v ! 2)) (\<lambda>stipend.
     bnd take_gasLimit (\<lambda>gasLimit.
     bnd (read_range (v ! 3) (v ! 4) True) (\<lambda>data.
     bnd (callCode T (gasLimit + stipend) to (v ! 2) data) (\<lambda>r.
     sq (writeCallOutput (v ! 5) (v ! 6)) (pushv r)))))))"

definition op_DELEGATECALL :: "tvm \<Rightarrow> unit rop" where
  "op_DELEGATECALL T = bnd (get_env e_callValue) (\<lambda>value.
     bnd (on_stack (popN 6)) (\<lambda>v. bnd (stack_address (v ! 1)) (\<lambda>to.
     bnd (read_range (v ! 2) (v ! 3) True) (\<lambda>data.
     bnd take_gasLimit (\<lambda>gasLimit.
     bnd (callDelegate T gasLimit to value data) (\<lambda>r.
     sq (writeCallOutput (v ! 4) (v ! 5)) (pushv r)))))))"

definition op_STATICCALL :: "tvm \<Rightarrow> unit rop" where
  "op_STATICCALL T = bnd (on_stack (popN 6)) (\<lambda>v. bnd (stack_address (v ! 1)) (\<lambda>to.
     bnd take_gasLimit (\<lambda>gasLimit.
     bnd (read_range (v ! 2) (v ! 3) True) (\<lambda>data.
     bnd (callStatic T gasLimit to 0 data) (\<lambda>r.
     sq (writeCallOutput (v ! 4) (v ! 5)) (pushv r))))))"

definition op_RETURN :: "tvm \<Rightarrow> unit rop" where
  "op_RETURN T = bnd (on_stack (popN 2)) (\<lambda>v. bnd (read_range (v ! 0) (v ! 1) False) finish)"

definition op_REVERT :: "tvm \<Rightarrow> unit rop" where
  "op_REVERT T = bnd (on_stack (popN 2)) (\<lambda>v. bnd (read_range (v ! 0) (v ! 1) False) interp_revert)"

definition op_SELFDESTRUCT :: "tvm \<Rightarrow> unit rop" where
  "op_SELFDESTRUCT T = bnd (on_stack pop) (\<lambda>a. bnd (stack_address a) interp_selfDestruct)"

section \<open>TRON instructions\<close>

definition op_CALLTOKEN :: "tvm \<Rightarrow> unit rop" where
  "op_CALLTOKEN T = bnd (on_stack (popN 8)) (\<lambda>v. bnd (stack_address (v ! 1)) (\<lambda>to.
     let value = v ! 2; tokenId = v ! 3 in
     sq (bnd (get_env e_isStatic) (\<lambda>b. whenb (b \<and> value \<noteq> 0) (trap STATIC_STATE_CHANGE)))
     (sq (whenb (value < 0 \<or> value > MAX_INT64) (trap VALUE_OVERFLOW))
     (sq (whenb (tokenId \<noteq> 0 \<and> \<not> isValidTronTokenId tokenId) (trap INVALID_TOKENID))
     (sq (whenb (tokenId = 0 \<and> value > 0) (trap INVALID_TOKENID))
     (bnd (read_range (v ! 4) (v ! 5) False) (\<lambda>data.
     bnd (take_stipend T value) (\<lambda>stipend.
     bnd take_gasLimit (\<lambda>gasLimit.
     bnd (callToken T (gasLimit + stipend) to 0 tokenId value data) (\<lambda>r.
     sq (writeCallOutput (v ! 6) (v ! 7)) (pushv r)))))))))))"

definition op_TOKENBALANCE :: "tvm \<Rightarrow> unit rop" where
  "op_TOKENBALANCE T = bnd (on_stack pop) (\<lambda>tokenId. bnd (on_stack pop) (\<lambda>a.
     bnd (stack_address a) (\<lambda>addr.
     sq (whenb (\<not> isValidTronTokenId tokenId) (trap INVALID_TOKENID))
     (bnd (getExternalTokenBalance addr tokenId) pushv))))"

definition op_CALLTOKENVALUE :: "tvm \<Rightarrow> unit rop" where
  "op_CALLTOKENVALUE T = bnd (get_env e_callTokenValue) (\<lambda>tv.
     sq (whenb (tv < 0 \<or> tv > MAX_INT64) (trap VALUE_OVERFLOW)) (pushv tv))"

definition op_CALLTOKENID :: "tvm \<Rightarrow> unit rop" where
  "op_CALLTOKENID T = bnd (get_env e_callTokenId) (\<lambda>i.
     sq (whenb (i < 0 \<or> i > MAX_INT64) (trap INVALID_TOKENID)) (pushv i))"

definition op_ISCONTRACT :: "tvm \<Rightarrow> unit rop" where
  "op_ISCONTRACT T = bnd (on_stack pop) (\<lambda>a. bnd (stack_address a) (\<lambda>addr.
     bnd (get_env e_address) (\<lambda>self.
     if addr = self \<and> a \<noteq> 0 then pushv 1
     else bnd (get_sm (getCodeSize addr)) (\<lambda>sz. pushv (if sz > 0 then 1 else 0)))))"

section \<open>The handler table\<close>

definition handlers :: "nat \<Rightarrow> (tvm \<Rightarrow> unit rop) option" where
  "handlers opc =
     (case alu_handler opc of Some h \<Rightarrow> Some (\<lambda>T. on_stack h) | None \<Rightarrow>
      if opc = 0x00 then Some op_STOP
      else if opc = 0x20 then Some op_KECCAK256
      else if opc = 0x30 then Some op_ADDRESS
      else if opc = 0x31 then Some op_BALANCE
      else if opc = 0x32 then Some op_ORIGIN
      else if opc = 0x33 then Some op_CALLER
      else if opc = 0x34 then Some op_CALLVALUE
      else if opc = 0x35 then Some op_CALLDATALOAD
      else if opc = 0x36 then Some op_CALLDATASIZE
      else if opc = 0x37 then Some op_CALLDATACOPY
      else if opc = 0x38 then Some op_CODESIZE
      else if opc = 0x39 then Some op_CODECOPY
      else if opc = 0x3a then Some op_GASPRICE
      else if opc = 0x3b then Some op_EXTCODESIZE
      else if opc = 0x3c then Some op_EXTCODECOPY
      else if opc = 0x3d then Some op_RETURNDATASIZE
      else if opc = 0x3e then Some op_RETURNDATACOPY
      else if opc = 0x3f then Some op_EXTCODEHASH
      else if opc = 0x40 then Some op_BLOCKHASH
      else if opc = 0x41 then Some op_COINBASE
      else if opc = 0x42 then Some op_TIMESTAMP
      else if opc = 0x43 then Some op_NUMBER
      else if opc = 0x44 then Some op_DIFFICULTY
      else if opc = 0x45 then Some op_GASLIMIT
      else if opc = 0x46 then Some op_CHAINID
      else if opc = 0x47 then Some op_SELFBALANCE
      else if opc = 0x48 then Some op_BASEFEE
      else if opc = 0x50 then Some op_POP
      else if opc = 0x51 then Some op_MLOAD
      else if opc = 0x52 then Some op_MSTORE
      else if opc = 0x53 then Some op_MSTORE8
      else if opc = 0x54 then Some op_SLOAD
      else if opc = 0x55 then Some op_SSTORE
      else if opc = 0x56 then Some op_JUMP
      else if opc = 0x57 then Some op_JUMPI
      else if opc = 0x58 then Some op_PC
      else if opc = 0x59 then Some op_MSIZE
      else if opc = 0x5a then Some op_GAS
      else if opc = 0x5b then Some op_JUMPDEST
      else if opc = 0x5c then Some op_TLOAD
      else if opc = 0x5d then Some op_TSTORE
      else if opc = 0x5e then Some op_MCOPY
      else if opc = 0x5f then Some op_PUSH0
      else if 0x60 \<le> opc \<and> opc \<le> 0x7f then Some op_PUSH
      else if 0x80 \<le> opc \<and> opc \<le> 0x8f then Some op_DUP
      else if 0x90 \<le> opc \<and> opc \<le> 0x9f then Some op_SWAP
      else if 0xa0 \<le> opc \<and> opc \<le> 0xa4 then Some op_LOG
      else if opc = 0xf0 then Some op_CREATE
      else if opc = 0xf1 then Some op_CALL
      else if opc = 0xf2 then Some op_CALLCODE
      else if opc = 0xf3 then Some op_RETURN
      else if opc = 0xf4 then Some op_DELEGATECALL
      else if opc = 0xf5 then Some op_CREATE2
      else if opc = 0xfa then Some op_STATICCALL
      else if opc = 0xfd then Some op_REVERT
      else if opc = 0xff then Some op_SELFDESTRUCT
      else if opc = 0xd0 then Some op_CALLTOKEN
      else if opc = 0xd1 then Some op_TOKENBALANCE
      else if opc = 0xd2 then Some op_CALLTOKENVALUE
      else if opc = 0xd3 then Some op_CALLTOKENID
      else if opc = 0xd4 then Some op_ISCONTRACT
      else None)"

end
