(* ===== verification/FrameOk.thy ===== *)
theory FrameOk
  imports WorldOk Handlers
begin

text \<open>
  The invariant of a running frame and the rules that carry it through the operations the gas and
  opcode handlers are made of. A frame keeps its operand stack a stack of 256-bit words, its gas
  within the limit of the message, the memory charge equal to what the memory size costs, the
  cached account of the contract in step with the state, and the shared world in its invariant.
\<close>

section \<open>The invariant\<close>

text \<open>What is fixed during a frame.\<close>

record ghost =
  gh_common :: common
  gh_code :: bytes
  gh_self :: address
  gh_depth :: nat
  gh_gas :: int
  gh_saved :: saved_levels
  gh_cap :: "asset_id \<Rightarrow> int"
  gh_frozen :: "pub option"

definition GAS_CAP :: int where
  "GAS_CAP = 2 ^ 64"

definition words_ok :: "stack \<Rightarrow> bool" where
  "words_ok s \<longleftrightarrow> stack_inv s \<and> (\<forall>x \<in> set (items s). is_word x)"

definition block_ok :: "block \<Rightarrow> bool" where
  "block_ok b \<longleftrightarrow> is_word (number b) \<and> is_word (timestamp b) \<and> is_word (block_gasLimit b) \<and>
     (\<forall>f. baseFeePerGas b = Some f \<longrightarrow> is_word f)"

definition env_ok :: "ghost \<Rightarrow> env \<Rightarrow> bool" where
  "env_ok g e \<longleftrightarrow> e_address e = gh_self g \<and> e_depth e = gh_depth g \<and>
     (e_isStatic e \<longleftrightarrow> gh_frozen g \<noteq> None) \<and> is_word (e_callValue e) \<and> is_word (e_gasPrice e) \<and>
     is_word (int (length (e_callData e))) \<and> is_word (int (length (e_code e))) \<and> block_ok (e_block e)"

text \<open>The cached account holds what the state says.\<close>

definition contract_ok :: "ghost \<Rightarrow> account \<Rightarrow> world \<Rightarrow> bool" where
  "contract_ok g acc w \<longleftrightarrow> account_ok acc \<and> (\<forall>k. holding k acc = holding k (p_acct (public w) (gh_self g)))"

definition mem_cost :: "int \<Rightarrow> int" where
  "mem_cost words = words * 3 + words * words div 512"

definition gas_ok :: "ghost \<Rightarrow> int \<Rightarrow> run_state \<Rightarrow> bool" where
  "gas_ok g K s \<longleftrightarrow> 0 \<le> gasLeft s \<and> gasLeft s \<le> gh_gas g \<and> gasLeft s + highestMemCost s \<le> K \<and>
     0 \<le> memoryWordCount s \<and> highestMemCost s = mem_cost (memoryWordCount s)"

definition cache_ok :: "ghost \<Rightarrow> run_state \<Rightarrow> bool" where
  "cache_ok g s \<longleftrightarrow> (\<forall>i v. cachedPushes s i = Some v \<longrightarrow> is_word v) \<and>
     (\<forall>ops i info. cachedOpcodes s = Some ops \<longrightarrow> i < length (gh_code g) \<longrightarrow> ops ! i = Some info \<longrightarrow>
        info = opcodeMap (gh_common g) (unat (gh_code g ! i)))"

definition bytes_ok :: "bytes \<Rightarrow> bool" where
  "bytes_ok b \<longleftrightarrow> is_word (int (length b))"

text \<open>
  \<open>K\<close> bounds the gas left plus the memory paid for, \<open>M\<close> the gas limit prepared for a message,
  \<open>y\<close> the fee not yet charged, \<open>p\<close> the program counter from below.
\<close>

definition frame_ok :: "ghost \<Rightarrow> nat \<Rightarrow> int \<Rightarrow> int \<Rightarrow> int \<Rightarrow> nat \<Rightarrow> run_state \<Rightarrow> bool" where
  "frame_ok g oc K M y p s \<longleftrightarrow>
     code s = gh_code g \<and> opCode s = oc \<and> p \<le> programCounter s \<and> gas_ok g K s \<and> words_ok (stack s) \<and>
     env_ok g (env s) \<and> contract_ok g (e_contract (env s)) (world s) \<and>
     world_ok (gh_saved g) (gh_cap g) (gh_frozen g) (world s) \<and>
     (\<forall>m. messageGasLimit s = Some m \<longrightarrow> m \<le> M \<and> (0 \<le> m \<or> gasLeft s < y)) \<and>
     bytes_ok (returnBytes s) \<and> (\<forall>v. returnValue s = Some v \<longrightarrow> bytes_ok v) \<and> cache_ok g s"

text \<open>What holds when the frame ends by an exception; only STOP keeps the frame's changes.\<close>

definition frame_exit :: "ghost \<Rightarrow> exn \<Rightarrow> run_state \<Rightarrow> bool" where
  "frame_exit g e s \<longleftrightarrow> 0 \<le> gasLeft s \<and> gasLeft s \<le> gh_gas g \<and> lockstep (gh_saved g) (world s) \<and>
     (\<forall>v. returnValue s = Some v \<longrightarrow> bytes_ok v) \<and>
     (e = TvmError STOP \<longrightarrow> world_ok (gh_saved g) (gh_cap g) (gh_frozen g) (world s))"

definition cap_ok :: "ghost \<Rightarrow> bool" where
  "cap_ok g \<longleftrightarrow> (\<forall>k. gh_cap g k < TWO_POW256) \<and> gh_gas g \<le> GAS_CAP \<and> bytes_ok (gh_code g)"

lemma frame_ok_exit [simp]: "frame_ok g oc K M y p s \<Longrightarrow> frame_exit g e s"
  by (auto simp: frame_ok_def frame_exit_def gas_ok_def dest: world_ok_lockstep)

lemma frame_ok_mono:
  assumes "frame_ok g oc K M y p s" "K \<le> K'" "M \<le> M'" "y \<le> y'" "p' \<le> p"
  shows "frame_ok g oc K' M' y' p' s"
  using assms by (fastforce simp: frame_ok_def gas_ok_def)

lemma frame_ok_world: "frame_ok g oc K M y p s \<Longrightarrow> world_ok (gh_saved g) (gh_cap g) (gh_frozen g) (world s)"
  by (simp add: frame_ok_def)

lemma frame_ok_inv: "frame_ok g oc K M y p s \<Longrightarrow> world_inv (world s)"
  by (rule world_ok_inv [OF frame_ok_world])

lemma frame_ok_env: "frame_ok g oc K M y p s \<Longrightarrow> env_ok g (env s)"
  by (simp add: frame_ok_def)

section \<open>Words\<close>

lemma is_word_0 [simp]: "is_word 0" and is_word_1 [simp]: "is_word 1" and is_word_256 [simp]: "is_word 256"
  by (simp_all add: is_word_def TWO_POW256_def)

lemma is_word_uint: "is_word x \<longleftrightarrow> (\<exists>w :: 256 word. x = uint w)"
proof
  assume "is_word x"
  then have "x = uint (word_of_int x :: 256 word)"
    by (simp add: is_word_def TWO_POW256_def uint_word_of_int)
  then show "\<exists>w :: 256 word. x = uint w" ..
next
  assume "\<exists>w :: 256 word. x = uint w"
  then show "is_word x" by (auto simp: is_word_def uint_TWO_POW256)
qed

lemma is_word_bytes: "length b \<le> 32 \<Longrightarrow> is_word (bytesToBigInt b)"
proof -
  assume "length b \<le> 32"
  then have "(256 :: int) ^ length b \<le> 256 ^ 32" by (intro power_increasing) simp_all
  also have "\<dots> = TWO_POW256" by (simp add: TWO_POW256_def)
  finally show ?thesis using bytesToBigInt_less [of b] by (simp add: is_word_def)
qed

lemma is_word_less: "0 \<le> x \<Longrightarrow> x \<le> y \<Longrightarrow> is_word y \<Longrightarrow> is_word x"
  by (simp add: is_word_def)

lemma is_word_small: "0 \<le> x \<Longrightarrow> x < 2 ^ 255 \<Longrightarrow> is_word x"
  by (simp add: is_word_def TWO_POW256_def)

lemma is_word_nonneg: "is_word x \<Longrightarrow> 0 \<le> x"
  by (simp add: is_word_def)

lemma bytes_ok_Nil [simp]: "bytes_ok []"
  by (simp add: bytes_ok_def)

lemma words_of_stack:
  assumes "words_ok s"
  obtains ws :: "256 word list" where "items s = map uint ws"
proof -
  have "\<forall>x \<in> set (items s). \<exists>w :: 256 word. x = uint w"
    using assms by (simp add: words_ok_def is_word_uint)
  then have "items s = map uint (map (\<lambda>x. SOME w. x = uint (w :: 256 word)) (items s))"
    by (simp add: list_eq_iff_nth_eq) (metis (mono_tags, lifting) nth_mem someI_ex)
  then show ?thesis by (rule that)
qed

section \<open>The operand stack\<close>

abbreviation stack_rule :: "(stack, 'a) op \<Rightarrow> ('a \<Rightarrow> bool) \<Rightarrow> bool" where
  "stack_rule m V \<equiv> hoare words_ok m V (\<lambda>_. words_ok) (\<lambda>_. words_ok)"

lemma stack_pop: "stack_rule pop is_word"
proof (rule hoareI)
  fix s x t assume s: "words_ok s" and p: "pop s = (Inr x, t)"
  then obtain y ys where it: "items s = y # ys"
    using pop_underflow [of s] by (cases "items s") (auto simp: words_ok_def)
  with s p pop_popN [of s y ys] have "x = y" "t = s\<lparr>len := len s - 1\<rparr>" by (auto simp: words_ok_def)
  moreover have "items (s\<lparr>len := len s - 1\<rparr>) = drop 1 (items s)"
    using s it length_items [of s] by (intro items_shrink) (auto simp: words_ok_def)
  ultimately show "is_word x \<and> words_ok t"
    using s it by (auto simp: words_ok_def stack_inv_shrink)
qed (auto simp: pop_def split: if_splits)

lemma in_set_nth_take: "\<forall>x \<in> set xs. P x \<Longrightarrow> i < n \<Longrightarrow> n \<le> length xs \<Longrightarrow> P (take n xs ! i)"
  by simp

lemma stack_popN: "stack_rule (popN n) (\<lambda>v. length v = n \<and> (\<forall>i < n. is_word (v ! i)))"
proof (rule hoareI)
  fix s v t assume s: "words_ok s" and p: "popN n s = (Inr v, t)"
  then have n: "n \<le> length (items s)"
    using popN_underflow [of s n] by (cases "n \<le> length (items s)") (auto simp: words_ok_def)
  with s p popN_ok [of s n] have "v = take n (items s)" "t = s\<lparr>len := len s - n\<rparr>" by (auto simp: words_ok_def)
  moreover have "items (s\<lparr>len := len s - n\<rparr>) = drop n (items s)"
    using s n length_items [of s] by (intro items_shrink) (auto simp: words_ok_def)
  ultimately show "(length v = n \<and> (\<forall>i < n. is_word (v ! i))) \<and> words_ok t"
    using s n by (auto simp: words_ok_def stack_inv_shrink dest!: in_set_dropD)
next
  fix s e t assume s: "words_ok s" and p: "popN n s = (Inl e, t)"
  then show "words_ok t"
    using popN_ok [of s n] popN_underflow [of s n]
    by (cases "n \<le> length (items s)") (auto simp: words_ok_def)
qed

lemma stack_peek: "stack_rule (peek n) (\<lambda>v. length v = n \<and> (\<forall>i < n. is_word (v ! i)))"
  by (rule hoareI) (auto simp: words_ok_def peek_eq split: if_splits)

lemma stack_push: "is_word v \<Longrightarrow> stack_rule (push v) (\<lambda>_. True)"
proof (rule hoareI)
  fix s x t assume v: "is_word v" and s: "words_ok s" and p: "push v s = (Inr x, t)"
  then have "len s < maxHeight s" by (auto simp: push_def split: if_splits)
  with s obtain s' where "push v s = (Inr (), s')" "stack_inv s'" "items s' = v # items s"
    using push_ok [of s v] by (auto simp: words_ok_def)
  with p v s show "True \<and> words_ok t" by (auto simp: words_ok_def)
qed (auto simp: push_def split: if_splits)

lemma stack_dup: "0 < p \<Longrightarrow> stack_rule (dup p) (\<lambda>_. True)"
proof (rule hoareI)
  fix s x t assume p: "0 < p" and s: "words_ok s" and d: "dup p s = (Inr x, t)"
  then have "p \<le> length (items s)" "len s < maxHeight s"
    by (auto simp: dup_def length_items words_ok_def split: if_splits)
  with p s obtain s' where "dup p s = (Inr (), s')" "stack_inv s'" "items s' = items s ! (p - 1) # items s"
    using dup_ok [of s p] by (auto simp: words_ok_def)
  with d s \<open>p \<le> length (items s)\<close> p show "True \<and> words_ok t" by (auto simp: words_ok_def)
qed (auto simp: dup_def split: if_splits)

lemma stack_swap: "stack_rule (swap p) (\<lambda>_. True)"
proof (rule hoareI)
  fix s x t assume s: "words_ok s" and w: "swap p s = (Inr x, t)"
  then have "p < length (items s)" by (auto simp: swap_def length_items words_ok_def split: if_splits)
  with s obtain s' where "swap p s = (Inr (), s')" "stack_inv s'"
    "items s' = (items s)[0 := items s ! p, p := items s ! 0]"
    using swap_ok [of s p] by (auto simp: words_ok_def)
  moreover have "items s ! 0 \<in> set (items s)" using \<open>p < length (items s)\<close> by (intro nth_mem) linarith
  ultimately show "True \<and> words_ok t"
    using w s \<open>p < length (items s)\<close>
    by (auto simp: words_ok_def dest!: set_update_subset_insert [THEN subsetD])
qed (auto simp: swap_def Let_def split: if_splits)

lemma stack_implements: "implements n h f \<Longrightarrow> stack_rule h (\<lambda>_. True)"
proof -
  assume h: "implements n h f"
  have "words_ok (snd (h s))" if s: "words_ok s" for s
  proof -
    obtain ws :: "256 word list" where ws: "items s = map uint ws" using s by (rule words_of_stack)
    have inv: "stack_inv s" using s by (simp add: words_ok_def)
    show ?thesis
    proof (cases "n \<le> length ws")
      case True
      with h inv ws obtain s' where "h s = (Inr (), s')" "stack_inv s'"
        "items s' = map uint (f (take n ws) # drop n ws)"
        unfolding implements_def by meson
      then show ?thesis by (auto simp: words_ok_def is_word_uint)
    next
      case False
      with h inv ws have "h s = (Inl (TvmError STACK_UNDERFLOW), s)" unfolding implements_def by meson
      with s show ?thesis by simp
    qed
  qed
  then show ?thesis by (intro hoareI) (metis snd_conv)+
qed

lemma stack_alu: "alu_handler opc = Some h \<Longrightarrow> stack_rule h (\<lambda>_. True)"
  using alu_words [THEN stack_implements]
  by (simp add: alu_handler_def split: if_splits)

end
