(* ===== verification/FrameRules.thy ===== *)
theory FrameRules
  imports FrameOk
begin

text \<open>
  Hoare rules for the operations a frame uses, over the invariant \<open>frame_ok\<close>. The collection
  \<open>hoare_rules\<close> contains one rule per operation, so that the handlers of the theories below are
  checked by applying the collection.
\<close>

section \<open>Stack, memory and gas\<close>

lemma frame_on_stack:
  "stack_rule m V \<Longrightarrow> hoare (frame_ok g oc K M y p) (on_stack m) V (\<lambda>_. frame_ok g oc K M y p) (frame_exit g)"
  unfolding on_stack_def
  by (rule hoare_zoom [where J = words_ok and F = "\<lambda>_. words_ok"])
    (auto simp: frame_ok_def frame_exit_def gas_ok_def cache_ok_def dest: world_ok_lockstep)

lemmas frame_pop [hoare_rules] = frame_on_stack [OF stack_pop]
  and frame_popN [hoare_rules] = frame_on_stack [OF stack_popN]
  and frame_peek [hoare_rules] = frame_on_stack [OF stack_peek]
  and frame_push [hoare_rules] = frame_on_stack [OF stack_push]
  and frame_dup [hoare_rules] = frame_on_stack [OF stack_dup]
  and frame_swap [hoare_rules] = frame_on_stack [OF stack_swap]
  and frame_alu = frame_on_stack [OF stack_alu]

lemma frame_memory [simp]: "frame_ok g oc K M y p (s\<lparr>memory := m\<rparr>) = frame_ok g oc K M y p s"
  by (simp add: frame_ok_def gas_ok_def cache_ok_def)

lemma frame_exit_memory [simp]: "frame_exit g e (s\<lparr>memory := m\<rparr>) = frame_exit g e s"
  by (simp add: frame_exit_def)

lemma frame_read [hoare_rules]:
  "hoare (frame_ok g oc K M y p) (on_memory (mem_read a n c)) (\<lambda>d. length d = n)
     (\<lambda>_. frame_ok g oc K M y p) (frame_exit g)"
  unfolding on_memory_def
  by (rule hoare_zoom [where J = "\<lambda>_. True" and F = "\<lambda>_ _. True"]) (auto simp: hoare_def mem_read_ok)

lemma frame_on_memory [hoare_rules]:
  "hoare (frame_ok g oc K M y p) (on_memory m) (\<lambda>_. True) (\<lambda>_. frame_ok g oc K M y p) (frame_exit g)"
  unfolding on_memory_def
  by (rule hoare_zoom [where J = "\<lambda>_. True" and F = "\<lambda>_ _. True"])
    (auto simp: hoare_def split: prod.splits sum.splits)

lemma frame_useGas [hoare_rules]:
  "0 \<le> x \<Longrightarrow> y \<le> x \<Longrightarrow>
   hoare (frame_ok g oc K M y p) (useGas x) (\<lambda>_. True) (\<lambda>_. frame_ok g oc (K - x) M 0 p) (frame_exit g)"
  by (fastforce simp: hoare_def useGas_def frame_ok_def frame_exit_def gas_ok_def cache_ok_def
      dest: world_ok_lockstep)

lemma mem_cost_nonneg: "0 \<le> w \<Longrightarrow> 0 \<le> mem_cost w"
  by (simp add: mem_cost_def pos_imp_zdiv_nonneg_iff)

lemma mem_cost_mono: "0 \<le> v \<Longrightarrow> v \<le> w \<Longrightarrow> mem_cost v \<le> mem_cost w"
  unfolding mem_cost_def by (intro add_mono mult_right_mono zdiv_mono1 mult_mono) simp_all

lemma mem_cost_strict: "0 \<le> v \<Longrightarrow> v < w \<Longrightarrow> mem_cost v < mem_cost w"
  using mult_mono [of v w v w] zdiv_mono1 [of "v * v" "w * w" 512] by (simp add: mem_cost_def)

text \<open>The charge of \<^verbatim>\<open>subMemUsage\<close> is the growth of the memory cost.\<close>

lemma subMemUsage_eq:
  assumes "0 \<le> memoryWordCount s" "highestMemCost s = mem_cost (memoryWordCount s)"
  shows "subMemUsage c a n s =
    (let w = (if n = 0 then memoryWordCount s else max (memoryWordCount s) (divCeil (a + n) 32))
     in (Inr (mem_cost w - mem_cost (memoryWordCount s)),
         s\<lparr>highestMemCost := mem_cost w, memoryWordCount := w\<rparr>))"
proof -
  let ?n = "divCeil (a + n) 32"
  have cost: "?n * 3 + js_div (?n * ?n) 512 = mem_cost ?n"
    by (simp add: mem_cost_def js_div_nonneg)
  show ?thesis
  proof (cases "n = 0 \<or> ?n \<le> memoryWordCount s")
    case True
    have "s\<lparr>highestMemCost := mem_cost (memoryWordCount s), memoryWordCount := memoryWordCount s\<rparr> = s"
      using assms(2) by simp
    with True show ?thesis by (auto simp: subMemUsage_def Let_def max_def)
  next
    case False
    then have "mem_cost (memoryWordCount s) < mem_cost ?n" using assms by (intro mem_cost_strict) auto
    with False assms cost show ?thesis
      by (auto simp: subMemUsage_def Let_def max_def)
  qed
qed

lemma frame_subMemUsage [hoare_rules]:
  "hoare (frame_ok g oc K M y p) (subMemUsage c a n) (\<lambda>m. 0 \<le> m) (\<lambda>m. frame_ok g oc (K + m) M y p) (frame_exit g)"
proof (rule hoareI)
  fix s x t
  assume s: "frame_ok g oc K M y p s" and r: "subMemUsage c a n s = (Inr x, t)"
  define w0 where "w0 = memoryWordCount s"
  define w where "w = (if n = 0 then w0 else max w0 (divCeil (a + n) 32))"
  have g: "0 \<le> w0" "highestMemCost s = mem_cost w0" using s by (simp_all add: frame_ok_def gas_ok_def w0_def)
  from r subMemUsage_eq [OF g [unfolded w0_def], of c a n]
  have x: "x = mem_cost w - mem_cost w0" and t: "t = s\<lparr>highestMemCost := mem_cost w, memoryWordCount := w\<rparr>"
    unfolding w_def w0_def Let_def by auto
  have w: "w0 \<le> w" by (simp add: w_def)
  then have "mem_cost w0 \<le> mem_cost w" using g by (intro mem_cost_mono) auto
  moreover have "gas_ok g (K + x) t"
    using s g w unfolding t x by (simp add: frame_ok_def gas_ok_def)
  then have "frame_ok g oc (K + x) M y p t"
    using s unfolding t by (simp add: frame_ok_def cache_ok_def)
  ultimately show "0 \<le> x \<and> frame_ok g oc (K + x) M y p t" using x by simp
next
  fix s e t
  assume s: "frame_ok g oc K M y p s" and r: "subMemUsage c a n s = (Inl e, t)"
  then show "frame_exit g e t"
    using subMemUsage_eq [of s c a n] by (simp add: frame_ok_def gas_ok_def Let_def)
qed

section \<open>The environment\<close>

lemma frame_get_env [hoare_rules]:
  "hoare (frame_ok g oc K M y p) (get_env f) (\<lambda>v. \<exists>s. frame_ok g oc K M y p s \<and> v = f (env s))
     (\<lambda>_. frame_ok g oc K M y p) E"
  unfolding get_env_def by (rule hoare_gets)

lemma frame_get_sm [hoare_rules]:
  "hoare (frame_ok g oc K M y p) (get_sm f) (\<lambda>v. \<exists>s. frame_ok g oc K M y p s \<and> v = f (w_sm (world s)))
     (\<lambda>_. frame_ok g oc K M y p) E"
  unfolding get_sm_def by (rule hoare_gets)

lemma frame_lift_sum [hoare_rules]:
  "hoare (frame_ok g oc K M y p) (lift_sum r) (\<lambda>x. r = Inr x) (\<lambda>_. frame_ok g oc K M y p) (frame_exit g)"
  by (rule hoare_lift_sum) simp

lemma frame_not_static [hoare_rules]:
  "hoare (frame_ok g oc K M y p) not_static (\<lambda>_. gh_frozen g = None) (\<lambda>_. frame_ok g oc K M y p) (frame_exit g)"
  by (auto simp: hoare_def not_static_def bnd_def get_env_def env_ok_def dest!: frame_ok_env)

section \<open>The world\<close>

text \<open>A change of the world that does not touch an account.\<close>

lemma frame_on_world:
  assumes "\<And>w r w'. world_ok (gh_saved g) (gh_cap g) (gh_frozen g) w \<Longrightarrow> m w = (r, w') \<Longrightarrow>
    world_ok (gh_saved g) (gh_cap g) (gh_frozen g) w' \<and> p_acct (public w') = p_acct (public w)"
  shows "hoare (frame_ok g oc K M y p) (on_world m) (\<lambda>_. True) (\<lambda>_. frame_ok g oc K M y p) (frame_exit g)"
proof -
  have k: "frame_ok g oc K M y p (s\<lparr>world := w'\<rparr>)"
    if "frame_ok g oc K M y p s" "m (world s) = (r, w')" for s r w'
    using assms [OF frame_ok_world [OF that(1)] that(2)] that(1)
    by (simp add: frame_ok_def gas_ok_def cache_ok_def contract_ok_def)
  show ?thesis
    by (rule hoareI) (auto simp: on_world_def zoom_def split: prod.splits intro: k frame_ok_exit [OF k])
qed

lemma same_views_acct: "same_views w w' \<Longrightarrow> p_acct (public w') = p_acct (public w)"
  by (simp add: same_views_def)

lemma frame_same_views:
  "(\<And>w. world_inv w \<Longrightarrow> same_views w (f w)) \<Longrightarrow>
   hoare (frame_ok g oc K M y p) (on_world (modify f)) (\<lambda>_. True) (\<lambda>_. frame_ok g oc K M y p) (frame_exit g)"
  by (rule frame_on_world) (auto dest: world_ok_inv world_ok_same same_views_acct)

lemma frame_note_address [hoare_rules]:
  "hoare (frame_ok g oc K M y p) (note_address a) (\<lambda>_. True) (\<lambda>_. frame_ok g oc K M y p) (frame_exit g)"
  unfolding note_address_def by (rule frame_same_views) (rule same_views_note)

lemma frame_bump [hoare_rules]:
  "hoare (frame_ok g oc K M y p) (on_world (modify bump_nonce)) (\<lambda>_. True) (\<lambda>_. frame_ok g oc K M y p) (frame_exit g)"
  by (rule frame_same_views) (rule same_views_bump)

lemma frame_note_storage [hoare_rules]:
  "hoare (frame_ok g oc K M y p) (note_storage k) (\<lambda>_. True) (\<lambda>_. frame_ok g oc K M y p) (frame_exit g)"
  unfolding note_storage_def
  by (rule hoare_bnd [OF frame_get_env]) (rule frame_same_views, rule same_views_note_storage)

text \<open>Writes of a frame that is not static.\<close>

lemma frame_world_write:
  assumes "gh_frozen g = None" "world_write_ok c"
    and "\<And>B v. pub_ok B (pub_of v) \<Longrightarrow> pub_ok B (pub_of (world_write_view kec c v)) \<and>
           p_acct (pub_of (world_write_view kec c v)) = p_acct (pub_of v)"
  shows "hoare (frame_ok g oc K M y p) (on_world (world_write kec c)) (\<lambda>_. True) (\<lambda>_. frame_ok g oc K M y p) (frame_exit g)"
proof (rule frame_on_world)
  fix w r w'
  assume w: "world_ok (gh_saved g) (gh_cap g) (gh_frozen g) w" and r: "world_write kec c w = (r, w')"
  have "pub_ok (gh_cap g) (public w)" using w by (simp add: world_ok_def)
  note p = assms(3) [OF this]
  from world_ok_write [OF w assms(2) p [THEN conjunct1]] assms(1) r p
  show "world_ok (gh_saved g) (gh_cap g) (gh_frozen g) w' \<and> p_acct (public w') = p_acct (public w)"
    by (metis prod.inject)
qed

lemma frame_putStorage [hoare_rules]:
  "gh_frozen g = None \<Longrightarrow> length x \<le> 32 \<Longrightarrow>
   hoare (frame_ok g oc K M y p) (on_world (modify (mod_sm (putStorage a k x)))) (\<lambda>_. True)
     (\<lambda>_. frame_ok g oc K M y p) (frame_exit g)"
proof -
  assume "gh_frozen g = None" "length x \<le> 32"
  moreover have "sm_write id (PutStorage a k x) = putStorage a k x" by (rule ext) simp
  ultimately show ?thesis
    using frame_world_write [of g "WState (PutStorage a k x)" id oc K M y p]
    by (simp add: pub_writes pub_ok_storage)
qed

lemma frame_recordStorageWrite [hoare_rules]:
  "gh_frozen g = None \<Longrightarrow>
   hoare (frame_ok g oc K M y p) (on_world (modify (mod_jr (recordStorageWrite a k)))) (\<lambda>_. True)
     (\<lambda>_. frame_ok g oc K M y p) (frame_exit g)"
proof -
  assume "gh_frozen g = None"
  moreover have "modify (mod_jr (recordStorageWrite a k)) = world_write id (WJournal (JRecord a k))"
    by (rule ext) (simp add: on_jr_def zoom_def mod_jr_def)
  ultimately show ?thesis
    using frame_world_write [of g "WJournal (JRecord a k)" id oc K M y p] by (simp add: pub_writes)
qed

lemma frame_transient_put [hoare_rules]:
  "gh_frozen g = None \<Longrightarrow>
   hoare (frame_ok g oc K M y p) (on_world (on_ts (transient_put a k x))) (\<lambda>_. True)
     (\<lambda>_. frame_ok g oc K M y p) (frame_exit g)"
proof (cases "put_ok (a, k, x)")
  case True
  assume "gh_frozen g = None"
  with True show ?thesis
    using frame_world_write [of g "WTransient (a, k, x)" id oc K M y p]
    by (simp add: pub_writes pub_ok_transient put_entry_def)
next
  case False
  have id: "w\<lparr>w_ts := w_ts w\<rparr> = w" for w :: world by simp
  show ?thesis
    by (rule frame_on_world)
      (use False in \<open>auto simp: put_ok_def transient_put_def on_ts_def zoom_def id split: if_splits\<close>)
qed

text \<open>The cached account of the contract is read again.\<close>

lemma frame_reload [hoare_rules]:
  "hoare (frame_ok g oc K M y p) (reload_contract e) (\<lambda>_. True) (\<lambda>_. frame_ok g oc K M y p) (frame_exit g)"
proof -
  have k: "frame_ok g oc K M y p (s\<lparr>env := (env s)\<lparr>e_contract := acc\<rparr>\<rparr>)"
    if s: "frame_ok g oc K M y p s" and a: "getAccount (e_address (env s)) (w_sm (world s)) = Some acc" for s acc
  proof -
    have "acc = p_acct (public (world s)) (gh_self g)"
      using public_reads(1) [OF frame_ok_inv [OF s], of "gh_self g"] a frame_ok_env [OF s]
      by (simp add: env_ok_def or_else_def)
    moreover have "account_ok (p_acct (public (world s)) (gh_self g))"
      using frame_ok_world [OF s] by (auto simp: world_ok_def intro: pub_ok_acct)
    ultimately have "contract_ok g acc (world s)" by (simp add: contract_ok_def)
    moreover have "env_ok g ((env s)\<lparr>e_contract := acc\<rparr>)" using frame_ok_env [OF s] by (simp add: env_ok_def)
    ultimately show ?thesis using s by (simp add: frame_ok_def gas_ok_def cache_ok_def)
  qed
  show ?thesis
    by (rule hoareI) (auto simp: reload_contract_def k split: option.splits)
qed

end
