(* ===== verification/GasOk.thy ===== *)
theory GasOk
  imports FrameRules
begin

text \<open>
  Every dynamic gas handler charges at least the base fee and at least what its memory growth
  costs, keeps the frame invariant and never raises from a state outside it. The handlers of the
  call instructions also reserve the stipend they hand out, and those of state-changing
  instructions return only in a frame that is not static.
\<close>

definition gas_rule :: "ghost \<Rightarrow> (int \<Rightarrow> int rop) \<Rightarrow> bool \<Rightarrow> bool" where
  "gas_rule g h writes \<longleftrightarrow> (\<forall>oc K M p fee. 0 \<le> fee \<longrightarrow> 
     hoare (frame_ok g oc K M 0 p) (h fee) (\<lambda>x. fee \<le> x \<and> (writes \<longrightarrow> gh_frozen g = None))
       (\<lambda>x. frame_ok g oc (K + x - fee) M x p) (frame_exit g))"

lemma gas_ruleI:
  assumes "\<And>oc K M p fee. 0 \<le> fee \<Longrightarrow>
    hoare (frame_ok g oc K M 0 p) (h fee) (\<lambda>x. fee \<le> x \<and> (writes \<longrightarrow> gh_frozen g = None))
      (\<lambda>x. frame_ok g oc (K + x - fee) M x p) (frame_exit g)"
  shows "gas_rule g h writes"
  using assms by (simp add: gas_rule_def)

lemma divCeil_nonneg: "0 \<le> a \<Longrightarrow> 0 \<le> divCeil a 32"
  using divCeil_bounds [of a 32] by (simp add: divCeil_eq)

lemma frame_peek1 [hoare_rules]:
  "hoare (frame_ok g oc K M y p) peek1 is_word (\<lambda>_. frame_ok g oc K M y p) (frame_exit g)"
  unfolding peek1_def by (rule hoare_bnd hoare_rules hoare_ret | simp)+

lemma frame_stack_address [hoare_rules]:
  "hoare (frame_ok g oc K M y p) (stack_address v) (\<lambda>a. a = word_of_int v) (\<lambda>_. frame_ok g oc K M y p) (frame_exit g)"
  unfolding stack_address_def createAddressFromStackBigInt_total
  by (rule hoare_conseq [OF frame_lift_sum]) auto

lemma frame_gets [hoare_rules]:
  "hoare (frame_ok g oc K M y p) (gets f) (\<lambda>v. \<exists>s. frame_ok g oc K M y p s \<and> v = f s)
     (\<lambda>_. frame_ok g oc K M y p) E"
  by (rule hoare_gets)

lemma charge_mono:
  "frame_ok g oc K M 0 p s \<Longrightarrow> K \<le> K' \<Longrightarrow> 0 \<le> x \<Longrightarrow> frame_ok g oc K' M x p s"
  by (rule frame_ok_mono) auto

lemma frame_guard:
  "(\<not> b \<Longrightarrow> hoare (frame_ok g oc K M y p) n W Q (frame_exit g)) \<Longrightarrow>
   hoare (frame_ok g oc K M y p) (sq (whenb b (trap e)) n) W Q (frame_exit g)"
  by (rule hoare_guard) auto

lemma frame_trap: "hoare (frame_ok g oc K M y p) (trap e) W Q (frame_exit g)"
  by (rule hoare_trap) auto

lemma frame_throw: "hoare (frame_ok g oc K M y p) (throw e) W Q (frame_exit g)"
  by (rule hoare_throw) auto

lemmas frame_flow = hoare_bnd frame_guard hoare_sq frame_trap frame_throw

lemma charge_ret:
  assumes "fee \<le> x \<and> W" "0 \<le> fee" "K' \<le> K + x - fee"
  shows "hoare (frame_ok g oc K' M 0 p) (ret x) (\<lambda>x. fee \<le> x \<and> W) (\<lambda>x. frame_ok g oc (K + x - fee) M x p) E"
proof (rule hoare_ret)
  fix s assume "frame_ok g oc K' M 0 p s"
  then show "frame_ok g oc (K + x - fee) M x p s" using assms by (elim charge_mono) auto
qed (use assms in simp)

lemma is_word_divCeil: "is_word n \<Longrightarrow> 0 \<le> divCeil n 32"
  by (simp add: divCeil_nonneg is_word_nonneg)

lemmas gas_side = is_word_divCeil is_word_nonneg js_div_nonneg param_nonneg

section \<open>Handlers that read\<close>

lemma gas_EXP_rule: "gas_rule g (gas_EXP T) False"
  by (rule gas_ruleI, unfold gas_EXP_def Let_def, (rule frame_flow hoare_rules hoare_if charge_ret | (auto simp: gas_side; fail)[1])+)

lemma gas_KECCAK256_rule: "gas_rule g (gas_KECCAK256 T) False"
  by (rule gas_ruleI, unfold gas_KECCAK256_def Let_def, (rule frame_flow hoare_rules hoare_if charge_ret | (auto simp: gas_side; fail)[1])+)

lemma gas_note_top_rule: "gas_rule g (gas_note_top T) False"
  by (rule gas_ruleI, unfold gas_note_top_def Let_def, (rule frame_flow hoare_rules hoare_if charge_ret | (auto simp: gas_side; fail)[1])+)

lemma gas_COPY_rule: "gas_rule g (gas_COPY T) False"
  by (rule gas_ruleI, unfold gas_COPY_def Let_def, (rule frame_flow hoare_rules hoare_if charge_ret | (auto simp: gas_side; fail)[1])+)

lemma gas_EXTCODECOPY_rule: "gas_rule g (gas_EXTCODECOPY T) False"
  by (rule gas_ruleI, unfold gas_EXTCODECOPY_def Let_def, (rule frame_flow hoare_rules hoare_if charge_ret | (auto simp: gas_side; fail)[1])+)

lemma gas_RETURNDATACOPY_rule: "gas_rule g (gas_RETURNDATACOPY T) False"
  by (rule gas_ruleI, unfold gas_RETURNDATACOPY_def Let_def, (rule frame_flow hoare_rules hoare_if charge_ret | (auto simp: gas_side; fail)[1])+)

lemma gas_MEM_rule: "gas_rule g (gas_MEM n T) False"
  by (rule gas_ruleI, unfold gas_MEM_def Let_def, (rule frame_flow hoare_rules hoare_if charge_ret | (auto simp: gas_side; fail)[1])+)

lemma gas_SLOAD_rule: "gas_rule g (gas_SLOAD T) False"
  by (rule gas_ruleI, unfold gas_SLOAD_def Let_def, (rule frame_flow hoare_rules hoare_if charge_ret | (auto simp: gas_side; fail)[1])+)

lemma gas_MCOPY_rule: "gas_rule g (gas_MCOPY T) False"
  by (rule gas_ruleI, unfold gas_MCOPY_def Let_def, 
      (rule frame_flow hoare_rules charge_ret | (auto simp: gas_side pos_imp_zdiv_nonneg_iff; fail)[1])+)

lemma gas_RETURN_rule: "gas_rule g (gas_RETURN T) False"
  by (rule gas_ruleI, unfold gas_RETURN_def Let_def, (rule frame_flow hoare_rules hoare_if charge_ret | (auto simp: gas_side; fail)[1])+)

lemma gas_TOKENBALANCE_rule: "gas_rule g (gas_TOKENBALANCE T) False"
  by (rule gas_ruleI, unfold gas_TOKENBALANCE_def Let_def, (rule frame_flow hoare_rules hoare_if charge_ret | (auto simp: gas_side; fail)[1])+)

section \<open>Handlers of state-changing instructions\<close>

lemma updateSstoreGas_nonneg: "0 \<le> updateSstoreGas c a b w"
  by (simp add: updateSstoreGas_def)

lemma frame_shortest [hoare_rules]:
  "hoare (frame_ok g oc K M y p) (if v = 0 then ret [] else lift_sum (bigIntToBytes v))
     (\<lambda>b. v = 0 \<and> b = [] \<or> bigIntToBytes v = Inr b) (\<lambda>_. frame_ok g oc K M y p) (frame_exit g)"
  by (cases "v = 0") (auto simp: hoare_def split: sum.splits)

lemma frame_storageLoad [hoare_rules]:
  "hoare (frame_ok g oc K M y p) (storageLoad k) (\<lambda>b. length b \<le> 32) (\<lambda>_. frame_ok g oc K M y p) (frame_exit g)"
  unfolding storageLoad_def
proof (rule hoare_conseq [OF hoare_gets])
  fix b
  assume "\<exists>s. frame_ok g oc K M y p s \<and> b = getStorage (e_address (env s)) k (w_sm (world s))"
  then obtain s where s: "frame_ok g oc K M y p s" "b = p_stor (public (world s)) (e_address (env s), k)"
    using frame_ok_inv public_reads(3) by metis
  then show "length b \<le> 32" using frame_ok_world [OF s(1)] by (auto simp: world_ok_def pub_ok_def)
qed auto

lemma gas_SSTORE_rule: "gas_rule g (gas_SSTORE T) True"
  by (rule gas_ruleI, unfold gas_SSTORE_def Let_def,

      (rule frame_flow hoare_rules charge_ret | (auto simp: gas_side updateSstoreGas_nonneg; fail)[1])+)

lemma gas_LOG_rule: "gas_rule g (gas_LOG T) True"
  by (rule gas_ruleI, unfold gas_LOG_def Let_def, (rule frame_flow hoare_rules hoare_if charge_ret | (auto simp: gas_side; fail)[1])+)

lemma gas_SELFDESTRUCT_rule: "gas_rule g (gas_SELFDESTRUCT T) True"
  by (rule gas_ruleI, unfold gas_SELFDESTRUCT_def Let_def, (rule frame_flow hoare_rules hoare_if charge_ret | (auto simp: gas_side; fail)[1])+)

section \<open>Handlers of calls and creations\<close>

text \<open>
  \<open>call_rule g h cost chk\<close>: on operands \<open>xs\<close> the fee includes \<open>cost xs\<close> beyond the base fee and the
  memory, the prepared gas limit is covered by what is left after the fee, the operands stay on
  the stack, and the handler returns only if \<open>chk xs\<close>.
\<close>

text \<open>The program counter and the stack, which a gas handler leaves alone.\<close>

definition at :: "nat \<Rightarrow> stack \<Rightarrow> run_state \<Rightarrow> bool" where
  "at q S s \<longleftrightarrow> programCounter s = q \<and> stack s = S"

definition call_rule :: "ghost \<Rightarrow> (int \<Rightarrow> int rop) \<Rightarrow> (int list \<Rightarrow> int) \<Rightarrow> (int list \<Rightarrow> bool) \<Rightarrow> bool" where
  "call_rule g h cost chk \<longleftrightarrow> (\<forall>oc K M p fee q S. 0 \<le> fee \<longrightarrow> 
     hoare (\<lambda>s. frame_ok g oc K M 0 p s \<and> at q S s) (h fee)
       (\<lambda>x. fee + cost (items S) \<le> x \<and> chk (items S))
       (\<lambda>x s. frame_ok g oc (K + x - fee - cost (items S)) (K - fee - cost (items S)) x p s \<and> at q S s)
       (frame_exit g))"

lemma hoare_and_keeps:
  assumes "hoare P m V Q E" "keeps I m"
  shows "hoare (\<lambda>s. P s \<and> I s) m V (\<lambda>x s. Q x s \<and> I s) E"
  by (rule hoareI)
    (use assms in \<open>auto dest: hoare_ret_state hoare_throw_state keepsD\<close>)

lemma call_ruleI:
  assumes "\<And>oc K M p fee q S. 0 \<le> fee \<Longrightarrow>
    hoare (\<lambda>s. frame_ok g oc K M 0 p s \<and> at q S s) (h fee)
      (\<lambda>x. fee + cost (items S) \<le> x \<and> chk (items S))
      (\<lambda>x. frame_ok g oc (K + x - fee - cost (items S)) (K - fee - cost (items S)) x p) (frame_exit g)"
    and "\<And>fee q S. keeps (at q S) (h fee)"
  shows "call_rule g h cost chk"
  unfolding call_rule_def
proof (intro allI impI)
  fix oc K M p q and fee :: int and S
  assume "0 \<le> fee"
  from hoare_and_keeps [OF assms(1) [OF this] assms(2)]
  show "hoare (\<lambda>s. frame_ok g oc K M 0 p s \<and> at q S s) (h fee)
       (\<lambda>x. fee + cost (items S) \<le> x \<and> chk (items S))
       (\<lambda>x s. frame_ok g oc (K + x - fee - cost (items S)) (K - fee - cost (items S)) x p s \<and> at q S s)
       (frame_exit g)"
    by (rule hoare_conseq) auto
qed

lemma hoare_peek_at:
  assumes "\<And>v. v = take n (items S) \<and> length v = n \<and> (\<forall>i < n. is_word (v ! i)) \<Longrightarrow>
    hoare (frame_ok g oc K M y p) (f v) W Q (frame_exit g)"
  shows "hoare (\<lambda>s. frame_ok g oc K M y p s \<and> at q S s) (bnd (on_stack (peek n)) f) W Q (frame_exit g)"
proof (rule hoare_state)
  fix s assume s: "frame_ok g oc K M y p s \<and> at q S s"
  then have S: "words_ok S" by (auto simp: frame_ok_def at_def)
  have st: "stack s = S" using s by (simp add: at_def)
  then have id: "s\<lparr>stack := S\<rparr> = s" by simp
  show "hoare (\<lambda>t. t = s) (bnd (on_stack (peek n)) f) W Q (frame_exit g)"
  proof (cases "n \<le> length (items S)")
    case True
    then have "bnd (on_stack (peek n)) f s = f (take n (items S)) s"
      using st S by (simp add: bnd_def on_stack_def zoom_def peek_eq words_ok_def id)
    moreover have "hoare (frame_ok g oc K M y p) (f (take n (items S))) W Q (frame_exit g)"
      using True S by (intro assms) (auto simp: words_ok_def)
    ultimately show ?thesis using s by (simp add: hoare_def)
  next
    case False
    then show ?thesis
      using s st S by (auto simp: hoare_def bnd_def on_stack_def zoom_def peek_eq words_ok_def id)
  qed
qed

lemma frame_setCallGasLimit:
  assumes "0 \<le> req" "0 \<le> gas"
  shows "hoare (frame_ok g oc K M 0 p) (setCallGasLimit gas req) (\<lambda>x. x = gas) (\<lambda>_. frame_ok g oc K (K - gas) 0 p) (frame_exit g)"
proof (rule hoareI)
  fix s x t
  assume s: "frame_ok g oc K M 0 p s" and r: "setCallGasLimit gas req s = (Inr x, t)"
  then have "x = gas" and t: "t = s\<lparr>messageGasLimit := Some (maxCallGas req (gasLeft s - gas))\<rparr>"
    and left: "gas \<le> gasLeft s"
    by (auto simp: setCallGasLimit_def sq_def bnd_def split: if_splits)
  moreover have "maxCallGas req (gasLeft s - gas) \<le> K - gas" "0 \<le> maxCallGas req (gasLeft s - gas)"
    using maxCallGas_le(1) [of req "gasLeft s - gas"] s left assms mem_cost_nonneg [of "memoryWordCount s"]
    by (auto simp: frame_ok_def gas_ok_def maxCallGas_def)
  then have "frame_ok g oc K (K - gas) 0 p t"
    using s unfolding t by (simp add: frame_ok_def gas_ok_def cache_ok_def)
  ultimately show "x = gas \<and> frame_ok g oc K (K - gas) 0 p t" by simp
next
  fix s e t
  assume s: "frame_ok g oc K M 0 p s" and r: "setCallGasLimit gas req s = (Inl e, t)"
  then have "t = s" by (auto simp: setCallGasLimit_def sq_def bnd_def split: if_splits)
  with s show "frame_exit g e t" by simp
qed

text \<open>A call pays for the transfer of its value.\<close>

definition call_cost :: "int \<Rightarrow> int" where
  "call_cost value = (if value = 0 then 0 else 9000)"

lemma frame_call_memory [hoare_rules]:
  "hoare (frame_ok g oc K M y p) (call_memory T a i l i' l') (\<lambda>m. 0 \<le> m) (\<lambda>m. frame_ok g oc (K + m) M y p) (frame_exit g)"
  unfolding call_memory_def
  by (rule frame_flow hoare_rules | rule hoare_ret | simp add: algebra_simps)+

lemma frame_transfer_fee [hoare_rules]:
  "hoare (frame_ok g oc K M y p) (transfer_fee T a v) (\<lambda>f. call_cost v \<le> f) (\<lambda>_. frame_ok g oc K M y p) (frame_exit g)"
  unfolding transfer_fee_def
  by (rule frame_flow hoare_rules hoare_if hoare_ret | simp add: call_cost_def)+

lemma frame_static_value [hoare_rules]:
  "hoare (frame_ok g oc K M y p) (bnd (get_env e_isStatic) (\<lambda>b. whenb (b \<and> v \<noteq> 0) (trap STATIC_STATE_CHANGE)))
     (\<lambda>_. gh_frozen g \<noteq> None \<longrightarrow> v = 0) (\<lambda>_. frame_ok g oc K M y p) (frame_exit g)"
  by (auto simp: hoare_def bnd_def get_env_def env_ok_def dest!: frame_ok_env)

text \<open>The end of a call's gas handler.\<close>

lemma call_charge:
  assumes "0 \<le> req" "0 \<le> fee" "0 \<le> m" "0 \<le> c" "c \<le> f" "gas = fee + m + f" "W"
  shows "hoare (frame_ok g oc (K + m) M 0 p) (setCallGasLimit gas req) (\<lambda>x. fee + c \<le> x \<and> W)
    (\<lambda>x. frame_ok g oc (K + x - fee - c) (K - fee - c) x p) (frame_exit g)"
  by (rule hoare_conseq [OF frame_setCallGasLimit]) (use assms in \<open>auto elim!: frame_ok_mono\<close>)

lemma call_cost_nonneg [simp]: "0 \<le> call_cost v"
  by (simp add: call_cost_def)

lemma keeps_stack_basic:
  "keeps (at q S) (on_stack (peek n))" "keeps (at q S) (get_env f)"
  "keeps (at q S) (get_sm h)" "keeps (at q S) (on_world m)"
  by (auto simp: keeps_def at_def on_stack_def zoom_def peek_def get_env_def get_sm_def on_world_def split: prod.splits)

lemma keeps_stack_ops:
  "keeps (at q S) (stack_address v)" "keeps (at q S) (note_address a)"
  "keeps (at q S) (subMemUsage c i l)" "keeps (at q S) not_static"
  unfolding stack_address_def note_address_def not_static_def
  by (auto intro!: keeps_stack_basic) (auto simp: keeps_def at_def subMemUsage_def Let_def)

lemma keeps_stack_calls:
  "keeps (at q S) (call_memory T a i l i' l')" "keeps (at q S) (transfer_fee T a v)"
  "keeps (at q S) (setCallGasLimit gas req)"
  unfolding call_memory_def transfer_fee_def setCallGasLimit_def
  by (auto simp: at_def intro!: keeps_stack_basic keeps_stack_ops keeps_bnd keeps_sq)

lemmas keeps_stack = keeps_stack_basic keeps_stack_ops keeps_stack_calls

lemmas call_flow = hoare_peek_at hoare_bnd frame_guard hoare_sq hoare_rules

lemma nth_take_items: "v = take n xs \<Longrightarrow> i < n \<Longrightarrow> v ! i = xs ! i"
  by simp

text \<open>Operand 2 of CALL, CALLCODE and CALLTOKEN is the value.\<close>

lemma gas_CALL_rule: "call_rule g (gas_CALL T) (\<lambda>xs. call_cost (xs ! 2)) (\<lambda>xs. gh_frozen g \<noteq> None \<longrightarrow> xs ! 2 = 0)"
proof (rule call_ruleI)
  show "hoare (\<lambda>s. frame_ok g oc K M 0 p s \<and> at q S s) (gas_CALL T fee)
      (\<lambda>x. fee + call_cost (items S ! 2) \<le> x \<and> (gh_frozen g \<noteq> None \<longrightarrow> items S ! 2 = 0))
      (\<lambda>x. frame_ok g oc (K + x - fee - call_cost (items S ! 2)) (K - fee - call_cost (items S ! 2)) x p)
      (frame_exit g)" if "0 \<le> fee" for oc K M p fee q S
    unfolding gas_CALL_def
    by (rule call_flow)+ (rule call_charge, use that in \<open>auto simp: is_word_nonneg\<close>)
qed (auto simp: gas_CALL_def intro!: keeps_stack keeps_bnd keeps_sq)

lemma gas_CALLTOKEN_rule: "call_rule g (gas_CALLTOKEN T) (\<lambda>xs. call_cost (xs ! 2)) (\<lambda>xs. gh_frozen g \<noteq> None \<longrightarrow> xs ! 2 = 0)"
proof (rule call_ruleI)
  show "hoare (\<lambda>s. frame_ok g oc K M 0 p s \<and> at q S s) (gas_CALLTOKEN T fee)
      (\<lambda>x. fee + call_cost (items S ! 2) \<le> x \<and> (gh_frozen g \<noteq> None \<longrightarrow> items S ! 2 = 0))
      (\<lambda>x. frame_ok g oc (K + x - fee - call_cost (items S ! 2)) (K - fee - call_cost (items S ! 2)) x p)
      (frame_exit g)" if "0 \<le> fee" for oc K M p fee q S
    unfolding gas_CALLTOKEN_def
    by (rule call_flow)+ (rule call_charge, use that in \<open>auto simp: is_word_nonneg\<close>)
qed (auto simp: gas_CALLTOKEN_def intro!: keeps_stack keeps_bnd keeps_sq)

lemma gas_CALLCODE_rule: "call_rule g (gas_CALLCODE T) (\<lambda>xs. call_cost (xs ! 2)) (\<lambda>_. True)"
proof (rule call_ruleI)
  show "hoare (\<lambda>s. frame_ok g oc K M 0 p s \<and> at q S s) (gas_CALLCODE T fee)
      (\<lambda>x. fee + call_cost (items S ! 2) \<le> x \<and> True)
      (\<lambda>x. frame_ok g oc (K + x - fee - call_cost (items S ! 2)) (K - fee - call_cost (items S ! 2)) x p)
      (frame_exit g)" if "0 \<le> fee" for oc K M p fee q S
    unfolding gas_CALLCODE_def
    by (rule call_flow)+ (rule call_charge [where f = "call_cost (items S ! 2)"],
      use that in \<open>auto simp: is_word_nonneg call_cost_def\<close>)
qed (auto simp: gas_CALLCODE_def intro!: keeps_stack keeps_bnd keeps_sq)

lemma gas_DELEGATECALL_rule: "call_rule g (gas_DELEGATECALL T) (\<lambda>_. 0) (\<lambda>_. True)"
proof (rule call_ruleI)
  show "hoare (\<lambda>s. frame_ok g oc K M 0 p s \<and> at q S s) (gas_DELEGATECALL T fee)
      (\<lambda>x. fee + 0 \<le> x \<and> True) (\<lambda>x. frame_ok g oc (K + x - fee - 0) (K - fee - 0) x p)
      (frame_exit g)" if "0 \<le> fee" for oc K M p fee q S
    unfolding gas_DELEGATECALL_def
    by (rule call_flow)+ (rule call_charge [where f = 0], use that in \<open>auto simp: is_word_nonneg\<close>)
qed (auto simp: gas_DELEGATECALL_def intro!: keeps_stack keeps_bnd keeps_sq)

text \<open>Creations leave all remaining gas to the message, and are charged before it is sent.\<close>

lemma create_charge:
  assumes "0 \<le> fee" "0 \<le> m" "0 \<le> d" "gas = fee + m + d" "W"
  shows "hoare (frame_ok g oc (K + m) M 0 p)
    (sq (modify (\<lambda>s. let l = gasLeft s - gas in s\<lparr>messageGasLimit := Some (maxCallGas l l)\<rparr>)) (ret gas))
    (\<lambda>x. fee + 0 \<le> x \<and> W) (\<lambda>x. frame_ok g oc (K + x - fee - 0) (K - fee - 0) x p) (frame_exit g)"
proof (rule hoareI)
  fix s x t
  assume s: "frame_ok g oc (K + m) M 0 p s"
    and r: "sq (modify (\<lambda>s. let l = gasLeft s - gas in s\<lparr>messageGasLimit := Some (maxCallGas l l)\<rparr>)) (ret gas) s = (Inr x, t)"
  then have x: "x = gas" and t: "t = s\<lparr>messageGasLimit := Some (gasLeft s - gas)\<rparr>"
    by (auto simp: Let_def maxCallGas_def)
  have "gasLeft s - gas \<le> K - fee"
    using s assms mem_cost_nonneg [of "memoryWordCount s"] by (auto simp: frame_ok_def gas_ok_def)
  then have "frame_ok g oc (K + gas - fee) (K - fee) gas p t"
    using s assms unfolding t by (auto simp: frame_ok_def gas_ok_def cache_ok_def)
  with x assms show "(fee + 0 \<le> x \<and> W) \<and> frame_ok g oc (K + x - fee - 0) (K - fee - 0) x p t" by simp
qed simp

lemma gas_CREATE_rule: "call_rule g (gas_CREATE T) (\<lambda>_. 0) (\<lambda>_. gh_frozen g = None)"
proof (rule call_ruleI)
  show "hoare (\<lambda>s. frame_ok g oc K M 0 p s \<and> at q S s) (gas_CREATE T fee)
      (\<lambda>x. fee + 0 \<le> x \<and> gh_frozen g = None) (\<lambda>x. frame_ok g oc (K + x - fee - 0) (K - fee - 0) x p)
      (frame_exit g)" if "0 \<le> fee" for oc K M p fee q S
    unfolding gas_CREATE_def Let_def
    by (rule hoare_pre [of _ "frame_ok g oc K M 0 p"], simp,
        (rule create_charge [where d = 0, unfolded Let_def] call_flow)+)
      (use that in auto)
qed (auto simp: gas_CREATE_def Let_def at_def intro!: keeps_stack keeps_bnd keeps_sq)

lemma gas_CREATE2_rule: "call_rule g (gas_CREATE2 T) (\<lambda>_. 0) (\<lambda>_. gh_frozen g = None)"
proof (rule call_ruleI)
  show "hoare (\<lambda>s. frame_ok g oc K M 0 p s \<and> at q S s) (gas_CREATE2 T fee)
      (\<lambda>x. fee + 0 \<le> x \<and> gh_frozen g = None) (\<lambda>x. frame_ok g oc (K + x - fee - 0) (K - fee - 0) x p)
      (frame_exit g)" if "0 \<le> fee" for oc K M p fee q S
    unfolding gas_CREATE2_def Let_def
    by (rule hoare_pre [of _ "frame_ok g oc K M 0 p"], simp,
        (rule create_charge [unfolded Let_def] call_flow)+)
      (use that in \<open>auto simp: is_word_divCeil\<close>)
qed (auto simp: gas_CREATE2_def Let_def at_def intro!: keeps_stack keeps_bnd keeps_sq)

end
