(* ===== verification/HandlersOk.thy ===== *)
theory HandlersOk
  imports GasOk
begin

text \<open>
  The opcode handlers keep the frame invariant. In particular every value pushed on the operand
  stack is a 256-bit word, whatever its origin: balances are words because no supply exceeds one,
  sizes because the gas limit bounds them.
\<close>

text \<open>
  What the interpreter relies on in its surroundings: the hash function returns 32 bytes, a block
  hash has at most 32, the chain id is a word.
\<close>

definition tvm_ok :: "ghost \<Rightarrow> tvm \<Rightarrow> bool" where
  "tvm_ok g T \<longleftrightarrow> common T = gh_common g \<and> is_word (chainId T) \<and> (\<forall>b. length (keccak T b) = 32) \<and>
     (\<forall>n h. blockHash T n = Inr h \<longrightarrow> length h \<le> 32) \<and> cap_ok g"

definition op_rule :: "ghost \<Rightarrow> nat \<Rightarrow> unit rop \<Rightarrow> bool" where
  "op_rule g oc h \<longleftrightarrow> (\<forall>K M p. K \<le> GAS_CAP \<longrightarrow>
     hoare (frame_ok g oc K M 0 p) h (\<lambda>_. True) (\<lambda>_. frame_ok g oc K M 0 p) (frame_exit g))"

lemma op_ruleI:
  assumes "\<And>K M p. K \<le> GAS_CAP \<Longrightarrow>
    hoare (frame_ok g oc K M 0 p) h (\<lambda>_. True) (\<lambda>_. frame_ok g oc K M 0 p) (frame_exit g)"
  shows "op_rule g oc h"
  using assms by (simp add: op_rule_def)

section \<open>Words from the environment\<close>

lemma word_address [simp]: "is_word (bytesToBigInt (addr_bytes a))"
  by (rule is_word_bytes) simp

lemma word_env:
  assumes "frame_ok g oc K M y p s"
  shows "is_word (e_callValue (env s))" "is_word (e_gasPrice (env s))"
    "is_word (int (length (e_callData (env s))))" "is_word (int (length (e_code (env s))))"
    "is_word (number (e_block (env s)))" "is_word (timestamp (e_block (env s)))"
    "is_word (block_gasLimit (e_block (env s)))"
    "baseFeePerGas (e_block (env s)) = Some f \<Longrightarrow> is_word f"
    "is_word (int (length (returnBytes s)))"
  using assms by (auto simp: frame_ok_def env_ok_def block_ok_def bytes_ok_def)

lemma word_holding:
  assumes "cap_ok g" "frame_ok g oc K M y p s"
  shows "is_word (holding k (p_acct (public (world s)) a))"
proof -
  have p: "pub_ok (gh_cap g) (public (world s))"
    using frame_ok_world [OF assms(2)] by (simp add: world_ok_def)
  have "holding k (p_acct (public (world s)) a) \<le> gh_cap g k" using p by (rule pub_ok_holding)
  also have "\<dots> < TWO_POW256" using assms(1) by (simp add: cap_ok_def)
  finally show ?thesis using account_ok_nonneg [OF pub_ok_acct [OF p]] by (simp add: is_word_def)
qed

lemma word_contract:
  assumes "cap_ok g" "frame_ok g oc K M y p s"
  shows "is_word (holding k (e_contract (env s)))"
  using word_holding [OF assms, of k "gh_self g"] assms(2) by (simp add: frame_ok_def contract_ok_def)

lemma word_external:
  assumes "cap_ok g" "frame_ok g oc K M y p s"
  shows "is_word (holding k (or_else (getAccount a (w_sm (world s))) new_account))"
  using word_holding [OF assms, of k a] public_reads(1) [OF frame_ok_inv [OF assms(2)]] by simp

lemma word_code_size:
  assumes "frame_ok g oc K M y p s"
  shows "is_word (int (length (getCode a (w_sm (world s)))))"
  using frame_ok_world [OF assms] public_reads(2) [OF frame_ok_inv [OF assms]]
  by (auto simp: world_ok_def pub_ok_def)

lemma gas_cap_words: "0 \<le> x \<Longrightarrow> x \<le> 11 * GAS_CAP \<Longrightarrow> is_word x"
  by (rule is_word_small) (simp_all add: GAS_CAP_def)

lemma word_gasLeft:
  assumes "cap_ok g" "frame_ok g oc K M y p s"
  shows "is_word (gasLeft s)"
  by (rule gas_cap_words) (use assms in \<open>auto simp: cap_ok_def frame_ok_def gas_ok_def GAS_CAP_def\<close>)

lemma word_msize:
  assumes "K \<le> GAS_CAP" "frame_ok g oc K M y p s"
  shows "is_word (memoryWordCount s * 32)"
proof (rule gas_cap_words)
  have g: "0 \<le> memoryWordCount s" "0 \<le> gasLeft s" "gasLeft s + mem_cost (memoryWordCount s) \<le> K"
    using assms(2) by (auto simp: frame_ok_def gas_ok_def)
  moreover have "0 \<le> memoryWordCount s * memoryWordCount s div 512" by (simp add: pos_imp_zdiv_nonneg_iff)
  ultimately have "memoryWordCount s * 3 \<le> GAS_CAP" using assms(1) by (simp add: mem_cost_def)
  with g show "memoryWordCount s * 32 \<le> 11 * GAS_CAP" by simp
  show "0 \<le> memoryWordCount s * 32" using g by simp
qed

lemma word_shl_bytes:
  assumes "length b \<le> 32"
  shows "is_word (js_shl (bytesToBigInt b) (8 * int (32 - length b)))"
proof -
  have "bytesToBigInt b < 256 ^ length b" by (rule bytesToBigInt_less)
  then have "bytesToBigInt b * 256 ^ (32 - length b) < 256 ^ length b * 256 ^ (32 - length b)"
    by (rule mult_strict_right_mono) simp
  also have "\<dots> = 256 ^ 32" using assms by (simp flip: power_add)
  finally have "bytesToBigInt b * 256 ^ (32 - length b) < TWO_POW256" by (simp add: TWO_POW256_def)
  moreover have "nat (8 * int (32 - length b)) = 8 * (32 - length b)" by simp
  then have "js_shl (bytesToBigInt b) (8 * int (32 - length b)) = bytesToBigInt b * 256 ^ (32 - length b)"
    by (simp only: js_shl_def push_bit_eq_mult power_mult) simp
  ultimately show ?thesis by (simp add: is_word_def)
qed

section \<open>Shared steps\<close>

lemma frame_pushv [hoare_rules]:
  "is_word v \<Longrightarrow> hoare (frame_ok g oc K M y p) (pushv v) (\<lambda>_. True) (\<lambda>_. frame_ok g oc K M y p) (frame_exit g)"
  unfolding pushv_def by (rule frame_push)

lemma frame_key32 [hoare_rules]:
  "hoare (frame_ok g oc K M y p) (key32 v) (\<lambda>b. length b = 32) (\<lambda>_. frame_ok g oc K M y p) (frame_exit g)"
  unfolding key32_def by (rule hoare_conseq [OF frame_lift_sum]) (auto dest: word_buf_value)

lemma frame_shortest_op [hoare_rules]:
  "is_word v \<Longrightarrow>
   hoare (frame_ok g oc K M y p) (shortest v) (\<lambda>b. length b \<le> 32) (\<lambda>_. frame_ok g oc K M y p) (frame_exit g)"
  unfolding shortest_def
  by (rule hoare_conseq [OF frame_shortest])
    (use bigIntToBytes_length [of v 32] in \<open>auto simp: is_word_def TWO_POW256_def\<close>)

lemma frame_read_range [hoare_rules]:
  "is_word n \<Longrightarrow>
   hoare (frame_ok g oc K M y p) (read_range a n c) bytes_ok (\<lambda>_. frame_ok g oc K M y p) (frame_exit g)"
  unfolding read_range_def
  by (rule hoare_if; (rule hoare_conseq [OF frame_read] hoare_ret)?)
    (auto simp: bytes_ok_def is_word_def)

lemma frame_copy_range [hoare_rules]:
  "hoare (frame_ok g oc K M y p) (copy_range d a i n) (\<lambda>_. True) (\<lambda>_. frame_ok g oc K M y p) (frame_exit g)"
  unfolding copy_range_def by (rule hoare_whenb frame_flow hoare_rules)+

lemma hoare_gets_word:
  "(\<And>s. frame_ok g oc K M y p s \<Longrightarrow> is_word (f s)) \<Longrightarrow>
   hoare (frame_ok g oc K M y p) (gets f) is_word (\<lambda>_. frame_ok g oc K M y p) E"
  by (rule hoare_conseq [OF hoare_gets]) auto

lemma frame_balance [hoare_rules]:
  "cap_ok g \<Longrightarrow> hoare (frame_ok g oc K M y p) (getExternalBalance a) is_word (\<lambda>_. frame_ok g oc K M y p) (frame_exit g)"
  unfolding getExternalBalance_def
  by (rule hoare_gets_word) (auto dest: word_contract [where k = None] word_external [where k = None and a = a])

lemma frame_token_balance [hoare_rules]:
  "cap_ok g \<Longrightarrow> hoare (frame_ok g oc K M y p) (getExternalTokenBalance a t) is_word (\<lambda>_. frame_ok g oc K M y p) (frame_exit g)"
  unfolding getExternalTokenBalance_def
  by (rule hoare_gets_word)
    (auto dest: word_contract [where k = "Some t"] word_external [where k = "Some t" and a = a])

lemma frame_transientLoad [hoare_rules]:
  "hoare (frame_ok g oc K M y p) (transientStorageLoad k) (\<lambda>b. length b \<le> 32) (\<lambda>_. frame_ok g oc K M y p) (frame_exit g)"
  unfolding transientStorageLoad_def
proof (rule hoare_conseq [OF hoare_gets])
  fix b
  assume "\<exists>s. frame_ok g oc K M y p s \<and> b = transient_get (e_address (env s)) k (w_ts (world s))"
  then obtain s where s: "frame_ok g oc K M y p s" "b = p_trans (public (world s)) (e_address (env s)) k"
    using frame_ok_inv public_reads(4) by metis
  then show "length b \<le> 32" using frame_ok_world [OF s(1)] by (auto simp: world_ok_def pub_ok_def)
qed auto

section \<open>Handlers that do not change the world\<close>

lemmas read_flow = frame_flow hoare_if hoare_whenb

lemma frame_ret: "hoare (frame_ok g oc K M y p) (ret x) (\<lambda>_. True) (\<lambda>_. frame_ok g oc K M y p) E"
  by (rule hoare_ret) auto

lemma op_env_rules:
  "op_rule g oc (op_STOP T)" "op_rule g oc (op_ADDRESS T)" "op_rule g oc (op_ORIGIN T)"
  "op_rule g oc (op_CALLER T)" "op_rule g oc (op_CALLVALUE T)" "op_rule g oc (op_CALLDATASIZE T)"
  "op_rule g oc (op_CALLDATACOPY T)" "op_rule g oc (op_CODESIZE T)" "op_rule g oc (op_CODECOPY T)"
  "op_rule g oc (op_GASPRICE T)" "op_rule g oc (op_RETURNDATASIZE T)"
  "op_rule g oc (op_RETURNDATACOPY T)" "op_rule g oc (op_COINBASE T)" "op_rule g oc (op_TIMESTAMP T)"
  "op_rule g oc (op_NUMBER T)" "op_rule g oc (op_DIFFICULTY T)" "op_rule g oc (op_GASLIMIT T)"
  unfolding op_STOP_def op_ADDRESS_def op_ORIGIN_def op_CALLER_def
    op_CALLVALUE_def op_CALLDATASIZE_def op_CALLDATACOPY_def op_CODESIZE_def op_CODECOPY_def
    op_GASPRICE_def op_RETURNDATASIZE_def op_RETURNDATACOPY_def op_COINBASE_def op_TIMESTAMP_def
    op_NUMBER_def op_DIFFICULTY_def op_GASLIMIT_def getTxOrigin_def getCaller_def
    getBlockCoinbase_def getBlockDifficulty_def
  by (rule op_ruleI read_flow hoare_rules | (auto dest: word_env; fail)[1])+

lemma tvm_ok_cap: "tvm_ok g T \<Longrightarrow> cap_ok g"
  by (simp add: tvm_ok_def)

lemma tvm_ok_words:
  assumes "tvm_ok g T"
  shows "is_word (chainId T)" "is_word (bytesToBigInt (keccak T b))"
    "blockHash T n = Inr h \<Longrightarrow> is_word (bytesToBigInt h)"
  using assms by (auto simp: tvm_ok_def intro!: is_word_bytes)

lemma word_codeHash:
  assumes "frame_ok g oc K M y p s" "getAccount a (w_sm (world s)) = Some acc"
  shows "is_word (bytesToBigInt (codeHash acc))"
proof (rule is_word_bytes)
  have "acc = p_acct (public (world s)) a"
    using public_reads(1) [OF frame_ok_inv [OF assms(1)], of a] assms(2) by (simp add: or_else_def)
  then show "length (codeHash acc) \<le> 32"
    using frame_ok_world [OF assms(1)] by (auto simp: world_ok_def pub_ok_def account_ok_def)
qed

lemma frame_getAccount_hash:
  "hoare (frame_ok g oc K M y p) (get_sm (getAccount a))
     (\<lambda>r. \<forall>acc. r = Some acc \<longrightarrow> is_word (bytesToBigInt (codeHash acc))) (\<lambda>_. frame_ok g oc K M y p) E"
  by (rule hoare_conseq [OF frame_get_sm]) (auto dest: word_codeHash)

lemma frame_getCode_word:
  "hoare (frame_ok g oc K M y p) (get_sm (getCode a)) (\<lambda>c. is_word (int (length c))) (\<lambda>_. frame_ok g oc K M y p) E"
  by (rule hoare_conseq [OF frame_get_sm]) (auto dest: word_code_size)

lemma is_word_length_EOF [simp]: "is_word (int (length EOFBYTES))"
  by (rule is_word_small) (simp_all add: EOFBYTES_def)

lemma frame_BaseFee [hoare_rules]:
  "hoare (frame_ok g oc K M y p) getBlockBaseFee is_word (\<lambda>_. frame_ok g oc K M y p) (frame_exit g)"
  by (auto simp: hoare_def getBlockBaseFee_def bnd_def get_env_def split: option.splits dest: word_env)

lemma op_world_rules:
  assumes T: "tvm_ok g T"
  shows "op_rule g oc (op_BALANCE T)" "op_rule g oc (op_EXTCODESIZE T)" "op_rule g oc (op_EXTCODECOPY T)"
    "op_rule g oc (op_BLOCKHASH T)" "op_rule g oc (op_CHAINID T)"
    "op_rule g oc (op_BASEFEE T)" "op_rule g oc (op_SLOAD T)" "op_rule g oc (op_TLOAD T)"
    "op_rule g oc (op_KECCAK256 T)" "op_rule g oc (op_TOKENBALANCE T)"
  unfolding op_BALANCE_def op_EXTCODESIZE_def op_EXTCODECOPY_def op_BLOCKHASH_def op_CHAINID_def
    op_BASEFEE_def op_SLOAD_def op_TLOAD_def op_KECCAK256_def op_TOKENBALANCE_def Let_def
  by (rule op_ruleI frame_getCode_word read_flow hoare_rules
      | (auto simp: tvm_ok_cap [OF T] tvm_ok_words [OF T] is_word_bytes; fail)[1])+

lemma op_EXTCODEHASH_rule: "tvm_ok g T \<Longrightarrow> op_rule g oc (op_EXTCODEHASH T)"
  unfolding op_EXTCODEHASH_def
  by (rule op_ruleI, (rule frame_getCode_word frame_getAccount_hash read_flow hoare_rules | (auto simp: tvm_ok_words; fail)[1])+)
    (auto split: option.splits intro!: read_flow hoare_rules)

lemma op_SELFBALANCE_rule: "tvm_ok g T \<Longrightarrow> op_rule g oc (op_SELFBALANCE T)"
  unfolding op_SELFBALANCE_def get_env_def
  by (rule op_ruleI read_flow hoare_gets_word hoare_rules
      | (use word_contract [where k = None] tvm_ok_cap in \<open>force; fail\<close>)[1])+

lemma op_memory_rules:
  assumes T: "tvm_ok g T"
  shows "op_rule g oc (op_POP T)" "op_rule g oc (op_MLOAD T)" "op_rule g oc (op_MSTORE T)"
    "op_rule g oc (op_MSTORE8 T)" "op_rule g oc (op_JUMPDEST T)" "op_rule g oc (op_MSIZE T)"
    "op_rule g oc (op_GAS T)" "op_rule g oc (op_MCOPY T)" "op_rule g oc (op_PUSH0 T)"
    "op_rule g oc (op_CALLTOKENVALUE T)" "op_rule g oc (op_CALLTOKENID T)" "op_rule g oc (op_ISCONTRACT T)"
    "op_rule g oc (op_SWAP T)"
  unfolding op_POP_def op_MLOAD_def op_MSTORE_def op_MSTORE8_def op_JUMPDEST_def op_MSIZE_def
    op_GAS_def op_MCOPY_def op_PUSH0_def op_CALLTOKENVALUE_def op_CALLTOKENID_def op_ISCONTRACT_def
    op_SWAP_def
  by (rule op_ruleI frame_ret read_flow hoare_rules
      | (auto simp: is_word_bytes MAX_INT64_def is_word_small dest: word_msize word_gasLeft [OF tvm_ok_cap [OF T]]; fail)[1])+

lemma frame_other_fields [simp]:
  "p \<le> n \<Longrightarrow> frame_ok g oc K M y p s \<Longrightarrow> frame_ok g oc K M y p (s\<lparr>programCounter := n\<rparr>)"
  "frame_ok g oc K M y p (s\<lparr>logs := l\<rparr>) = frame_ok g oc K M y p s"
  "bytes_ok b \<Longrightarrow> frame_ok g oc K M y p s \<Longrightarrow> frame_ok g oc K M y p (s\<lparr>returnValue := Some b\<rparr>)"
  "bytes_ok b \<Longrightarrow> frame_ok g oc K M y p s \<Longrightarrow> frame_ok g oc K M y p (s\<lparr>returnBytes := b\<rparr>)"
  "frame_ok g oc K M y p (s\<lparr>selfdestruct := sd\<rparr>) = frame_ok g oc K M y p s"
  "frame_ok g oc K M y p (s\<lparr>createdAddresses := cr\<rparr>) = frame_ok g oc K M y p s"
  "frame_ok g oc K M y p (s\<lparr>gasRefund := r\<rparr>) = frame_ok g oc K M y p s"
  by (auto simp: frame_ok_def gas_ok_def cache_ok_def)

lemma op_CALLDATALOAD_rule: "op_rule g oc (op_CALLDATALOAD T)"
proof (rule op_ruleI)
  fix K M p
  have w: "is_word (if length l < 32 then js_shl (bytesToBigInt l) (8 * int (32 - length l)) else bytesToBigInt l)"
    if "length l \<le> 32" for l
    by (cases "length l < 32") (simp_all only: if_True if_False word_shl_bytes [OF that] is_word_bytes [OF that])
  show "hoare (frame_ok g oc K M 0 p) (op_CALLDATALOAD T) (\<lambda>_. True) (\<lambda>_. frame_ok g oc K M 0 p) (frame_exit g)"
    unfolding op_CALLDATALOAD_def Let_def
    by (rule read_flow hoare_rules | (rule w; simp) | (simp; fail))+
qed

lemma frame_finish [hoare_rules]:
  "bytes_ok b \<Longrightarrow> hoare (frame_ok g oc K M y p) (finish b) V Q (frame_exit g)"
  "bytes_ok b \<Longrightarrow> hoare (frame_ok g oc K M y p) (interp_revert b) V Q (frame_exit g)"
  unfolding finish_def interp_revert_def
  by (auto simp: hoare_def intro: frame_ok_exit [OF frame_other_fields(3)])

lemma frame_log [hoare_rules]:
  "hoare (frame_ok g oc K M y p) (interp_log d n ts) (\<lambda>_. True) (\<lambda>_. frame_ok g oc K M y p) (frame_exit g)"
  unfolding interp_log_def by (rule hoare_if frame_trap hoare_modify_same | simp)+

lemma frame_key32_all [hoare_rules]:
  "hoare (frame_ok g oc K M y p) (key32_all vs) (\<lambda>_. True) (\<lambda>_. frame_ok g oc K M y p) (frame_exit g)"
proof (induction vs)
  case Nil
  then show ?case unfolding key32_all.simps by (rule frame_ret)
next
  case (Cons v vs)
  show ?case unfolding key32_all.simps by (rule hoare_bnd frame_key32 Cons.IH frame_ret)+
qed

lemma op_end_rules:
  "op_rule g oc (op_RETURN T)" "op_rule g oc (op_REVERT T)" "op_rule g oc (op_LOG T)"
  unfolding op_RETURN_def op_REVERT_def op_LOG_def
  by (rule op_ruleI read_flow hoare_rules | (auto; fail)[1])+

lemma op_DUP_rule: "0x80 \<le> oc \<Longrightarrow> op_rule g oc (op_DUP T)"
  unfolding op_DUP_def
  by (rule op_ruleI read_flow hoare_rules | (auto simp: frame_ok_def; fail)[1])+

lemma length_code_slice: "length (subarray c i (i + n)) \<le> n"
  by simp

lemma frame_pad [hoare_rules]:
  "n \<le> 32 \<Longrightarrow> length l \<le> n \<Longrightarrow>
   hoare (frame_ok g oc K M y p) (if length l < n then lift_sum (setLengthRight l n) else ret l)
     (\<lambda>b. length b \<le> 32) (\<lambda>_. frame_ok g oc K M y p) (frame_exit g)"
  by (auto simp: hoare_def setLengthRight_length split: sum.splits)

lemma op_PUSH_rule:
  assumes oc: "oc \<le> 0x7f"
  shows "op_rule g oc (op_PUSH T)"
proof (rule op_ruleI)
  fix K M p
  let ?P = "frame_ok g oc K M 0 p"
  have adv: "hoare ?P (modify (\<lambda>s. s\<lparr>programCounter := programCounter s + n\<rparr>)) (\<lambda>_. True) (\<lambda>_. ?P) E" for n E
    by (rule hoare_modify_same, rule frame_other_fields) (auto simp: frame_ok_def)
  show "hoare ?P (op_PUSH T) (\<lambda>_. True) (\<lambda>_. ?P) (frame_exit g)"
    unfolding op_PUSH_def Let_def
  proof (rule hoare_bnd [OF frame_gets], elim exE conjE, hypsubst, unfold id_def, rule hoare_if)
    fix s assume s: "?P s"
    then have n: "opCode s - 0x5f \<le> 32" using oc by (simp add: frame_ok_def)
    have c: "is_word v" if "cachedPushes s i = Some v" for i v
      using s that by (auto simp: frame_ok_def cache_ok_def)
    show "hoare ?P (case cachedPushes s (programCounter s) of None \<Rightarrow> throw (HostError ''undefined pushed'')
        | Some v \<Rightarrow> sq (pushv v) (modify (\<lambda>t. t\<lparr>programCounter := programCounter t + (opCode s - 0x5f)\<rparr>)))
        (\<lambda>_. True) (\<lambda>_. ?P) (frame_exit g)"
      using c [of "programCounter s"] by (auto split: option.splits intro!: frame_throw hoare_sq frame_pushv adv)
    show "hoare ?P (bnd (if length (subarray (code s) (programCounter s) (programCounter s + (opCode s - 0x5f))) < opCode s - 0x5f
          then lift_sum (setLengthRight (subarray (code s) (programCounter s) (programCounter s + (opCode s - 0x5f))) (opCode s - 0x5f))
          else ret (subarray (code s) (programCounter s) (programCounter s + (opCode s - 0x5f))))
        (\<lambda>bs. sq (modify (\<lambda>t. t\<lparr>programCounter := programCounter t + (opCode s - 0x5f)\<rparr>)) (pushv (bytesToBigInt bs))))
        (\<lambda>_. True) (\<lambda>_. ?P) (frame_exit g)"
      by (rule hoare_bnd [OF frame_pad [OF n length_code_slice]], rule hoare_sq [OF adv], rule frame_pushv)
        (rule is_word_bytes)
  qed
qed

end
