(* ===== verification/WritesOk.thy ===== *)
theory WritesOk
  imports HandlersOk
begin

text \<open>
  The handlers that change the state, and the jumps. A self-destruct moves every asset of the
  contract to the beneficiary: the write to the beneficiary alone would exceed the supply, the
  two writes together preserve it.
\<close>

section \<open>Jumps and the program counter\<close>

lemma frame_do_jump:
  "hoare (frame_ok g oc K M 0 p) (do_jump d) (\<lambda>_. True) (\<lambda>_. frame_ok g oc K M 0 0) (frame_exit g)"
  unfolding do_jump_def
  by (rule read_flow hoare_rules hoare_modify
      | (rule frame_other_fields, simp, erule frame_ok_mono; simp))+

lemma op_JUMP_rule:
  "hoare (frame_ok g oc K M 0 p) (op_JUMP T) (\<lambda>_. True) (\<lambda>_. frame_ok g oc K M 0 0) (frame_exit g)"
  unfolding op_JUMP_def by (rule hoare_bnd [OF frame_pop]) (rule frame_do_jump)

lemma op_JUMPI_rule:
  "hoare (frame_ok g oc K M 0 p) (op_JUMPI T) (\<lambda>_. True) (\<lambda>_. frame_ok g oc K M 0 0) (frame_exit g)"
  unfolding op_JUMPI_def
proof (rule hoare_bnd [OF frame_popN])
  fix v :: "int list"
  show "hoare (frame_ok g oc K M 0 p) (whenb (v ! 1 \<noteq> 0) (do_jump (v ! 0))) (\<lambda>_. True)
      (\<lambda>_. frame_ok g oc K M 0 0) (frame_exit g)"
    using frame_do_jump [of g oc K M p "v ! 0"] frame_ok_mono [of g oc K M 0 p _ K M 0 0]
    by (auto simp: hoare_def)
qed

lemma op_PC_rule:
  assumes "cap_ok g" "0 < p"
  shows "hoare (\<lambda>s. frame_ok g oc K M 0 p s \<and> programCounter s \<le> length (gh_code g)) (op_PC T) (\<lambda>_. True)
    (\<lambda>_. frame_ok g oc K M 0 p) (frame_exit g)"
proof (rule hoare_state)
  fix s assume s: "frame_ok g oc K M 0 p s \<and> programCounter s \<le> length (gh_code g)"
  then have "1 \<le> programCounter s" using assms(2) by (auto simp: frame_ok_def)
  then have "is_word (int (programCounter s) - 1)"
    using s assms(1) by (auto simp: cap_ok_def bytes_ok_def is_word_def)
  from frame_pushv [OF this, of g oc K M 0 p] s
  show "hoare (\<lambda>t. t = s) (op_PC T) (\<lambda>_. True) (\<lambda>_. frame_ok g oc K M 0 p) (frame_exit g)"
    by (auto simp: hoare_def op_PC_def)
qed

section \<open>Storage\<close>

lemma op_SSTORE_rule: "gh_frozen g = None \<Longrightarrow> op_rule g oc (op_SSTORE T)"
  unfolding op_SSTORE_def storageStore_def
  by (rule op_ruleI read_flow hoare_rules | (auto; fail)[1])+

lemma op_TSTORE_rule: "op_rule g oc (op_TSTORE T)"
  unfolding op_TSTORE_def transientStorageStore_def
  by (rule op_ruleI read_flow hoare_rules | (auto; fail)[1])+

section \<open>Self-destruct\<close>

lemma lockstep_write:
  assumes "lockstep S w" "world_write_ok c"
  obtains w' where "world_write kec c w = (Inr (), w')" "lockstep S w'"
    "world_view w' = world_write_view kec c (world_view w)"
  using world_write_law [of w c kec] assms by (auto simp: lockstep_def)

lemma getTokenBalance_Nil: "asset acc = [] \<Longrightarrow> getTokenBalance acc t = 0"
  by (simp add: getTokenBalance_def)

lemma add_tokens_Cons:
  "add_tokens ((t, v) # ts) acc = add_tokens ts (if v \<le> 0 then acc else set_token t (getTokenBalance acc t + v) acc)"
  by (simp add: add_tokens_def)

lemma add_tokens_holdings:
  assumes "distinct (map fst ts)" "\<forall>(t, v) \<in> set ts. 0 \<le> v" "account_ok acc"
  shows "account_ok (add_tokens ts acc) \<and> balance (add_tokens ts acc) = balance acc \<and>
    (\<forall>t. getTokenBalance (add_tokens ts acc) t = getTokenBalance acc t + or_else (map_of ts t) 0)"
  using assms
proof (induction ts arbitrary: acc)
  case Nil
  then show ?case by (simp add: add_tokens_def or_else_def)
next
  case (Cons e ts)
  obtain t v where e: "e = (t, v)" by (cases e)
  let ?acc = "if v \<le> 0 then acc else set_token t (getTokenBalance acc t + v) acc"
  have "0 \<le> getTokenBalance acc t" using account_ok_nonneg [OF Cons.prems(3), of "Some t"] by simp
  then have "account_ok ?acc" using Cons.prems(3) by (simp add: account_ok_token)
  from Cons.IH [OF _ _ this] Cons.prems
  have IH: "account_ok (add_tokens ts ?acc)" "balance (add_tokens ts ?acc) = balance ?acc"
    "\<And>u. getTokenBalance (add_tokens ts ?acc) u = getTokenBalance ?acc u + or_else (map_of ts u) 0"
    by (auto simp: e)
  have "map_of ts t = None" using Cons.prems(1) by (simp add: e map_of_eq_None_iff)
  then show ?case
    using IH Cons.prems(2) unfolding e add_tokens_Cons by (auto simp: or_else_def split: option.splits)
qed

lemma add_account_holdings:
  assumes f: "account_ok from" and t: "account_ok to" and b: "b = balance from"
  defines "acc \<equiv> add_tokens (asset from) (to\<lparr>balance := balance to + b\<rparr>)"
  shows "account_ok acc" "holding k acc = holding k to + holding k from"
proof -
  have d: "distinct (map fst (asset from))" using f by (simp add: account_ok_def)
  have nn: "0 \<le> v" if "(t, v) \<in> set (asset from)" for t v
    using map_of_is_SomeI [OF d that] account_ok_nonneg [OF f, of "Some t"] by (simp add: getTokenBalance_def)
  have "0 \<le> balance to" "0 \<le> balance from"
    using account_ok_nonneg [OF t, of None] account_ok_nonneg [OF f, of None] by simp_all
  then have "account_ok (to\<lparr>balance := balance to + b\<rparr>)" using t b by (simp add: account_ok_balance)
  from add_tokens_holdings [OF d _ this] nn
  have a: "account_ok acc" "balance acc = balance to + b"
    "\<And>t. getTokenBalance acc t = getTokenBalance (to\<lparr>balance := balance to + b\<rparr>) t + or_else (map_of (asset from) t) 0"
    by (auto simp: acc_def)
  have "getTokenBalance (to\<lparr>balance := balance to + b\<rparr>) t = getTokenBalance to t"
    "or_else (map_of (asset from) t) 0 = getTokenBalance from t" for t
    by (simp_all add: getTokenBalance_def or_else_def split: option.splits)
  with a b show "account_ok acc" "holding k acc = holding k to + holding k from"
    by (simp_all add: holding_def split: option.splits)
qed

definition emptied :: "account \<Rightarrow> account" where
  "emptied acc = acc\<lparr>balance := 0, asset := []\<rparr>"

lemma emptied_ok: "account_ok acc \<Longrightarrow> account_ok (emptied acc)" and holding_emptied [simp]: "holding k (emptied acc) = 0"
  by (auto simp: emptied_def account_ok_def holding_def getTokenBalance_def split: option.splits)

text \<open>Emptying the account through \<^verbatim>\<open>modifyAccountFields\<close> is a write of the emptied account.\<close>

lemma empty_account_write:
  assumes "world_inv w"
  shows "(Inr (), mod_sm (modifyAccountFields a (no_fields\<lparr>f_balance := Some 0, f_asset := Some []\<rparr>)) w) =
    world_write id (WState (PutAccount a (Some (emptied (p_acct (public w) a))))) w"
  unfolding public_reads(1) [OF assms, symmetric]
  by (simp add: mod_sm_def modifyAccountFields_def Let_def no_fields_def or_else_def emptied_def)

lemma world_ok_empty:
  assumes w: "world_ok S B None w"
  shows "world_ok S B None (mod_sm (modifyAccountFields a (no_fields\<lparr>f_balance := Some 0, f_asset := Some []\<rparr>)) w)"
proof -
  have p: "pub_ok B (public w)" using w by (simp add: world_ok_def)
  let ?c = "WState (PutAccount a (Some (emptied (p_acct (public w) a))))"
  have "pub_ok B (pub_of (world_write_view id ?c (world_view w)))"
    unfolding pub_writes using pub_ok_acct [OF p]
    by (intro pub_ok_same_holdings [OF p]) (simp_all add: emptied_ok)
  then obtain w' where "world_write id ?c w = (Inr (), w')" "world_ok S B None w'"
    using world_ok_write [OF w, of ?c id] by auto
  with empty_account_write [OF world_ok_inv [OF w], of a] show ?thesis by simp
qed

text \<open>The two writes of a self-destruct to another account.\<close>

lemma world_ok_move:
  assumes w: "world_ok S B None w" and ne: "to \<noteq> self"
    and acc: "account_ok acc" "\<And>k. holding k acc = holding k (p_acct (public w) to) + holding k (p_acct (public w) self)"
  obtains w1 where "journal_putAccount to (Some acc) w = (Inr (), w1)"
    "world_ok S B None (mod_sm (modifyAccountFields self (no_fields\<lparr>f_balance := Some 0, f_asset := Some []\<rparr>)) w1)"
proof -
  have p: "pub_ok B (public w)" using w by (simp add: world_ok_def)
  obtain w1 where w1: "world_write id (WAccount to (Some acc)) w = (Inr (), w1)" "lockstep S w1"
    "world_view w1 = world_write_view id (WAccount to (Some acc)) (world_view w)"
    using lockstep_write [OF world_ok_lockstep [OF w], of "WAccount to (Some acc)" id] by auto
  then have pub1: "public w1 = (public w)\<lparr>p_acct := (p_acct (public w))(to := acc)\<rparr>"
    using pub_writes(1) by metis
  let ?c = "WState (PutAccount self (Some (emptied (p_acct (public w1) self))))"
  obtain w2 where w2: "world_write id ?c w1 = (Inr (), w2)" "lockstep S w2"
    "world_view w2 = world_write_view id ?c (world_view w1)"
    using lockstep_write [OF w1(2), of ?c id] by auto
  then have pub2: "public w2 = (public w)\<lparr>p_acct := (p_acct (public w))(to := acc, self := emptied (p_acct (public w) self))\<rparr>"
    using ne by (simp add: pub_writes pub1)
  have "pub_ok B (public w2)"
    using p ne acc emptied_ok [OF pub_ok_acct [OF p]] by (auto simp: pub2 pub_ok_def supply_upd)
  with w2 have "world_ok S B None w2" by (simp add: world_ok_def)
  with that [of w1] w1 w2 empty_account_write [OF lockstep_inv [OF w1(2)], of self] show ?thesis by simp
qed

lemma frame_exit_world:
  "frame_ok g oc K M y p s \<Longrightarrow> gh_frozen g = None \<Longrightarrow> world_ok (gh_saved g) (gh_cap g) None w \<Longrightarrow>
   frame_exit g e (s\<lparr>world := w\<rparr>)"
  by (auto simp: frame_ok_def frame_exit_def gas_ok_def dest: world_ok_lockstep)

lemma selfDestruct_exit:
  assumes fr: "gh_frozen g = None" and s: "frame_ok g oc K M y p s"
  shows "\<exists>t. interp_selfDestruct to s = (Inl (TvmError STOP), t) \<and> frame_exit g (TvmError STOP) t"
proof -
  define s1 where "s1 = (s\<lparr>world := bump_nonce (world s)\<rparr>)\<lparr>selfdestruct := (selfdestruct s)(gh_self g \<mapsto> to)\<rparr>"
  define w where "w = world s1"
  have self: "e_address (env s) = gh_self g" using frame_ok_env [OF s] by (simp add: env_ok_def)
  have s1: "frame_ok g oc K M y p s1"
    using hoare_ret_state [OF frame_bump s] by (simp add: s1_def on_world_def zoom_def)
  have w: "world_ok (gh_saved g) (gh_cap g) None w" using frame_ok_world [OF s1] fr by (simp add: w_def)
  have p: "pub_ok (gh_cap g) (public w)" using w by (simp add: world_ok_def)
  let ?e = "no_fields\<lparr>f_balance := Some 0, f_asset := Some []\<rparr>"
  let ?acc = "add_tokens (asset (p_acct (public w) (gh_self g)))
     ((p_acct (public w) to)\<lparr>balance := balance (p_acct (public w) to) + balance (e_contract (env s))\<rparr>)"
  have cb: "balance (e_contract (env s)) = balance (p_acct (public w) (gh_self g))"
    using s1 by (auto simp: frame_ok_def contract_ok_def w_def s1_def dest!: spec [where x = "None :: int option"])
  note acc = add_account_holdings [OF pub_ok_acct [OF p] pub_ok_acct [OF p] cb]
  have run: "interp_selfDestruct to s =
     (let w1 = (if to = gh_self g then w else snd (journal_putAccount to (Some ?acc) w));
          w2 = (if gh_self g \<in> createdAddresses s \<or> to \<noteq> gh_self g
                then mod_sm (modifyAccountFields (gh_self g) ?e) w1 else w1)
      in (Inl (TvmError STOP), s1\<lparr>world := w2\<rparr>))"
  proof (cases "to = gh_self g")
    case True
    then show ?thesis
      by (simp add: interp_selfDestruct_def sq_def bnd_def get_env_def on_world_def zoom_def self s1_def w_def)
  next
    case False
    with world_ok_move [OF w False acc] obtain w1 where "journal_putAccount to (Some ?acc) w = (Inr (), w1)" by blast
    with False show ?thesis
      by (simp add: interp_selfDestruct_def sq_def bnd_def get_env_def get_sm_def on_world_def zoom_def self
          s1_def w_def public_reads(1) [OF world_ok_inv [OF w], unfolded w_def s1_def, simplified])
  qed
  have "world_ok (gh_saved g) (gh_cap g) None
     (let w1 = (if to = gh_self g then w else snd (journal_putAccount to (Some ?acc) w))
      in (if gh_self g \<in> createdAddresses s \<or> to \<noteq> gh_self g
                then mod_sm (modifyAccountFields (gh_self g) ?e) w1 else w1))"
  proof (cases "to = gh_self g")
    case True
    then show ?thesis using w world_ok_empty [OF w] by simp
  next
    case False
    with world_ok_move [OF w False acc] obtain w1 where "journal_putAccount to (Some ?acc) w = (Inr (), w1)"
      "world_ok (gh_saved g) (gh_cap g) None (mod_sm (modifyAccountFields (gh_self g) ?e) w1)" by blast
    with False show ?thesis by simp
  qed
  then show ?thesis using frame_exit_world [OF s1 fr] unfolding run Let_def by blast
qed

lemma op_SELFDESTRUCT_rule: "gh_frozen g = None \<Longrightarrow> op_rule g oc (op_SELFDESTRUCT T)"
proof (rule op_ruleI)
  fix K M p
  assume fr: "gh_frozen g = None"
  have sd: "hoare (frame_ok g oc K M 0 p) (interp_selfDestruct to) (\<lambda>_. True) (\<lambda>_. frame_ok g oc K M 0 p) (frame_exit g)" for to
    using selfDestruct_exit [OF fr, of oc K M 0 p _ to] by (fastforce simp: hoare_def)
  show "hoare (frame_ok g oc K M 0 p) (op_SELFDESTRUCT T) (\<lambda>_. True) (\<lambda>_. frame_ok g oc K M 0 p) (frame_exit g)"
    unfolding op_SELFDESTRUCT_def by (rule hoare_bnd frame_pop frame_stack_address sd)+
qed

end
