(* ===== verification/CallsOk.thy ===== *)
theory CallsOk
  imports WritesOk
begin

text \<open>
  Calls and creations keep the frame invariant, given what a nested message promises: it leaves
  the saved views alone, never enlarges a supply, uses between nothing and all of its gas, and if
  it fails, the public state is what it was. A nested message of a static frame changes nothing.
\<close>

section \<open>The contract of a nested message\<close>

text \<open>Messages that a static frame may send: they move no value to another account.\<close>

definition harmless :: "message \<Rightarrow> bool" where
  "harmless m \<longleftrightarrow> m_isStatic m \<and> m_to m \<noteq> None \<and>
     (m_delegatecall m \<or> m_tokenValue m = 0 \<and> (m_value m = 0 \<or> m_to m = Some (m_caller m)))"

definition msg_ok :: "pub option \<Rightarrow> message \<Rightarrow> bool" where
  "msg_ok F m \<longleftrightarrow> 0 < m_depth m \<and> 0 \<le> m_gasLimit m \<and> m_gasLimit m \<le> GAS_CAP \<and> is_word (m_value m) \<and>
     0 \<le> m_tokenValue m \<and> bytes_ok (m_data m) \<and> m_code m = None \<and> m_createdAddresses m \<noteq> None \<and>
     (F \<noteq> None \<longrightarrow> harmless m)"

definition caps_ok :: "(asset_id \<Rightarrow> int) \<Rightarrow> bool" where
  "caps_ok B \<longleftrightarrow> (\<forall>k. B k < TWO_POW256)"

definition result_ok :: "message \<Rightarrow> tvm_result \<Rightarrow> bool" where
  "result_ok m r \<longleftrightarrow> 0 \<le> x_executionGasUsed (execResult r) \<and>
     x_executionGasUsed (execResult r) \<le> m_gasLimit m \<and> bytes_ok (x_returnValue (execResult r))"

definition failed :: "tvm_result \<Rightarrow> bool" where
  "failed r \<longleftrightarrow> x_exceptionError (execResult r) \<noteq> None"

definition callee_ok :: "(message \<Rightarrow> (world, tvm_result) op) \<Rightarrow> bool" where
  "callee_ok rc \<longleftrightarrow> (\<forall>S B F P m. msg_ok F m \<longrightarrow> caps_ok B \<longrightarrow>
     hoare (\<lambda>w. world_ok S B F w \<and> public w = P) (rc m) (result_ok m)
       (\<lambda>r w. world_ok S B F w \<and> (failed r \<longrightarrow> public w = P)) (\<lambda>e w. lockstep S w \<and> e \<noteq> TvmError STOP))"

section \<open>A frame after a successful call\<close>

text \<open>The cached account of the contract may be stale until it is read again.\<close>

definition repaired :: "ghost \<Rightarrow> run_state \<Rightarrow> run_state" where
  "repaired g s = s\<lparr>env := (env s)\<lparr>e_contract := p_acct (public (world s)) (gh_self g)\<rparr>\<rparr>"

definition frame_stale :: "ghost \<Rightarrow> nat \<Rightarrow> int \<Rightarrow> int \<Rightarrow> int \<Rightarrow> nat \<Rightarrow> run_state \<Rightarrow> bool" where
  "frame_stale g oc K M y p s \<longleftrightarrow> frame_ok g oc K M y p (repaired g s)"

lemma stale_exit: "frame_stale g oc K M y p s \<Longrightarrow> frame_exit g e s"
  by (auto simp: frame_stale_def repaired_def frame_ok_def frame_exit_def gas_ok_def dest: world_ok_lockstep)

lemma stale_fields [simp]:
  "frame_stale g oc K M y p (s\<lparr>logs := l\<rparr>) = frame_stale g oc K M y p s"
  "frame_stale g oc K M y p (s\<lparr>selfdestruct := sd, createdAddresses := cr\<rparr>) = frame_stale g oc K M y p s"
  "bytes_ok b \<Longrightarrow> frame_stale g oc K M y p s \<Longrightarrow> frame_stale g oc K M y p (s\<lparr>returnBytes := b\<rparr>)"
  by (auto simp: frame_stale_def repaired_def frame_ok_def gas_ok_def cache_ok_def)

lemma stale_useGas:
  assumes "0 \<le> x"
  shows "hoare (frame_stale g oc K M 0 p) (useGas x) (\<lambda>_. True) (\<lambda>_. frame_stale g oc K M 0 p) (frame_exit g)"
proof (rule hoareI)
  fix s r t
  assume s: "frame_stale g oc K M 0 p s" and u: "useGas x s = (Inr r, t)"
  then have "useGas x (repaired g s) = (Inr (), repaired g t)"
    by (auto simp: useGas_def repaired_def Let_def split: if_splits)
  with hoare_ret_state [OF frame_useGas [OF assms assms], of g oc K M p "repaired g s"] s
  have "frame_ok g oc (K - x) M 0 p (repaired g t)" by (simp add: frame_stale_def)
  then show "True \<and> frame_stale g oc K M 0 p t"
    using assms by (auto simp: frame_stale_def elim!: frame_ok_mono)
next
  fix s e t
  assume s: "frame_stale g oc K M 0 p s" and u: "useGas x s = (Inl e, t)"
  then have "t = s\<lparr>gasLeft := 0\<rparr>" "e = TvmError OUT_OF_GAS" by (auto simp: useGas_def Let_def split: if_splits)
  with stale_exit [OF s, of e] s show "frame_exit g e t" by (simp add: frame_exit_def)
qed

lemma stale_absorb:
  "hoare (frame_stale g oc K M y p) (absorb_callee r) (\<lambda>_. True) (\<lambda>_. frame_ok g oc K M y p) (frame_exit g)"
proof -
  have reload: "hoare (frame_stale g oc K M y p) (reload_contract e) (\<lambda>_. True) (\<lambda>_. frame_ok g oc K M y p) (frame_exit g)" for e
  proof (rule hoareI)
    fix s x t
    assume s: "frame_stale g oc K M y p s" and r: "reload_contract e s = (Inr x, t)"
    then have w: "world_inv (world s)" "e_address (env s) = gh_self g"
      by (auto simp: frame_stale_def repaired_def frame_ok_def env_ok_def dest: world_ok_inv)
    from r obtain acc where "getAccount (e_address (env s)) (w_sm (world s)) = Some acc"
      "t = s\<lparr>env := (env s)\<lparr>e_contract := acc\<rparr>\<rparr>"
      by (auto simp: reload_contract_def split: option.splits)
    with w public_reads(1) [OF w(1), of "gh_self g"] have "t = repaired g s"
      by (simp add: repaired_def or_else_def)
    with s show "True \<and> frame_ok g oc K M y p t" by (simp add: frame_stale_def)
  qed (auto simp: reload_contract_def split: option.splits intro: stale_exit)
  show ?thesis
    unfolding absorb_callee_def
    by (rule hoare_sq hoare_modify_same reload | simp)+
qed

section \<open>Sending a message\<close>

definition after_call :: "ghost \<Rightarrow> nat \<Rightarrow> int \<Rightarrow> int \<Rightarrow> nat \<Rightarrow> tvm_result \<Rightarrow> run_state \<Rightarrow> bool" where
  "after_call g oc K M p r s \<longleftrightarrow> (if failed r then frame_ok g oc K M 0 p s else frame_stale g oc K M 0 p s)"

lemma frame_runCall:
  assumes rc: "callee_ok (runCall T)" and m: "msg_ok (gh_frozen g) m" and c: "cap_ok g"
  shows "hoare (frame_ok g oc K M 0 p) (on_world (runCall T m)) (result_ok m) (after_call g oc K M p) (frame_exit g)"
proof (rule hoare_state)
  fix s assume s: "frame_ok g oc K M 0 p s"
  let ?W = "world_ok (gh_saved g) (gh_cap g) (gh_frozen g)"
  have h: "hoare (\<lambda>w. ?W w \<and> public w = public (world s)) (runCall T m) (result_ok m)
      (\<lambda>r w. ?W w \<and> (failed r \<longrightarrow> public w = public (world s))) (\<lambda>e w. lockstep (gh_saved g) w \<and> e \<noteq> TvmError STOP)"
    using rc m c by (simp add: callee_ok_def cap_ok_def caps_ok_def)
  have w: "?W (world s) \<and> public (world s) = public (world s)" using frame_ok_world [OF s] by simp
  show "hoare (\<lambda>t. t = s) (on_world (runCall T m)) (result_ok m) (after_call g oc K M p) (frame_exit g)"
  proof (rule hoareI, goal_cases)
    case (1 s' r t)
    then obtain w' where w': "runCall T m (world s) = (Inr r, w')" "t = s\<lparr>world := w'\<rparr>"
      by (auto simp: on_world_def zoom_def split: prod.splits)
    from hoare_ret_state [OF h w w'(1)]
    have r: "result_ok m r" "?W w'" "failed r \<Longrightarrow> public w' = public (world s)" by auto
    then have "account_ok (p_acct (public w') (gh_self g))" by (auto simp: world_ok_def intro: pub_ok_acct)
    then have "frame_stale g oc K M 0 p t"
      using s r(2) by (auto simp: w'(2) frame_stale_def repaired_def frame_ok_def gas_ok_def cache_ok_def
          env_ok_def contract_ok_def)
    moreover have "frame_ok g oc K M 0 p t" if "failed r"
      using s r that by (auto simp: w'(2) frame_ok_def gas_ok_def cache_ok_def contract_ok_def)
    ultimately show ?case using r by (simp add: after_call_def)
  next
    case (2 s' e t)
    then obtain w' where w': "runCall T m (world s) = (Inl e, w')" "t = s\<lparr>world := w'\<rparr>"
      by (auto simp: on_world_def zoom_def split: prod.splits)
    from hoare_throw_state [OF h w w'(1)] s show ?case
      by (auto simp: w'(2) frame_exit_def frame_ok_def gas_ok_def)
  qed
qed

lemma frame_useGas_le:
  "0 \<le> x \<Longrightarrow> hoare (frame_ok g oc K M 0 p) (useGas x) (\<lambda>_. True) (\<lambda>_. frame_ok g oc K M 0 p) (frame_exit g)"
  by (rule hoare_conseq [OF frame_useGas]) (auto elim!: frame_ok_mono)

lemma return_code_word [simp]: "is_word (getReturnCode r)"
  by (simp add: getReturnCode_def)

lemma after_call_settle:
  assumes "result_ok m r"
  shows "hoare (after_call g oc K M p r)
    (sq (modify (\<lambda>s. s\<lparr>logs := logs s @ x_logs (execResult r)\<rparr>))
     (sq (useGas (x_executionGasUsed (execResult r)))
     (sq (whenb b (modify (\<lambda>s. s\<lparr>returnBytes := x_returnValue (execResult r)\<rparr>)))
     (if x_exceptionError (execResult r) = None then sq (absorb_callee r) (ret x) else ret y))))
    (\<lambda>v. v = x \<or> v = y) (\<lambda>_. frame_ok g oc K M 0 p) (frame_exit g)"
proof -
  have g: "0 \<le> x_executionGasUsed (execResult r)" "bytes_ok (x_returnValue (execResult r))"
    using assms by (simp_all add: result_ok_def)
  show ?thesis
  proof (cases "failed r")
    case True
    then have a: "after_call g oc K M p r = frame_ok g oc K M 0 p" by (simp add: after_call_def fun_eq_iff)
    have e: "x_exceptionError (execResult r) \<noteq> None" using True by (simp add: failed_def)
    show ?thesis
      unfolding a if_not_P [OF e]
      by (rule hoare_sq hoare_modify_same frame_useGas_le [OF g(1)] hoare_whenb hoare_ret | simp add: g)+
  next
    case False
    then have a: "after_call g oc K M p r = frame_stale g oc K M 0 p" by (simp add: after_call_def fun_eq_iff)
    have e: "x_exceptionError (execResult r) = None" using False by (simp add: failed_def)
    show ?thesis
      unfolding a if_P [OF e]
      by (rule stale_absorb hoare_sq hoare_modify_same stale_useGas [OF g(1)] hoare_whenb hoare_ret | simp add: g)+
  qed
qed

lemma after_call_word:
  assumes "result_ok m r" "is_word x" "is_word y"
  shows "hoare (after_call g oc K M p r)
    (sq (modify (\<lambda>s. s\<lparr>logs := logs s @ x_logs (execResult r)\<rparr>))
     (sq (useGas (x_executionGasUsed (execResult r)))
     (sq (whenb b (modify (\<lambda>s. s\<lparr>returnBytes := x_returnValue (execResult r)\<rparr>)))
     (if x_exceptionError (execResult r) = None then sq (absorb_callee r) (ret x) else ret y))))
    is_word (\<lambda>_. frame_ok g oc K M 0 p) (frame_exit g)"
  by (rule hoare_conseq [OF after_call_settle [OF assms(1)]]) (use assms in auto)

lemma base_msg_ok:
  "msg_ok F (m\<lparr>m_createdAddresses := Some {}\<rparr>) \<Longrightarrow>
   msg_ok F (m\<lparr>m_selfdestruct := sd, m_gasRefund := gr, m_createdAddresses := Some cr\<rparr>)"
  by (simp add: msg_ok_def harmless_def)

lemma absorb_if:
  "sq (whenb (e = None) (absorb_callee r)) (ret x) =
   (if e = None then sq (absorb_callee r) (ret x) else ret x)"
  by (rule ext) (auto simp: sq_def bnd_def)

lemma frame_baseCall:
  assumes rc: "callee_ok (runCall T)" and c: "cap_ok g" and m: "msg_ok (gh_frozen g) (m\<lparr>m_createdAddresses := Some {}\<rparr>)"
  shows "hoare (frame_ok g oc K M 0 p) (baseCall T m) is_word (\<lambda>_. frame_ok g oc K M 0 p) (frame_exit g)"
  unfolding baseCall_def absorb_if
proof (rule hoare_bnd [OF frame_gets], elim exE conjE, hypsubst)
  fix s0
  let ?m1 = "m\<lparr>m_selfdestruct := Some (selfdestruct s0), m_gasRefund := gasRefund s0\<rparr>"
  let ?P = "frame_ok g oc K M 0 p"
  have send: "hoare ?P (bnd (on_world (runCall T (?m1\<lparr>m_createdAddresses := Some cr\<rparr>))) (\<lambda>r.
      sq (modify (\<lambda>s. s\<lparr>logs := logs s @ x_logs (execResult r)\<rparr>))
      (sq (useGas (x_executionGasUsed (execResult r)))
      (sq (whenb (x_exceptionError (execResult r) = None \<or> x_exceptionError (execResult r) = Some (TvmError REVERT))
        (modify (\<lambda>s. s\<lparr>returnBytes := x_returnValue (execResult r)\<rparr>)))
      (if x_exceptionError (execResult r) = None then sq (absorb_callee r) (ret (getReturnCode r))
       else ret (getReturnCode r)))))) is_word (\<lambda>_. ?P) (frame_exit g)" for cr
    by (rule hoare_bnd [OF frame_runCall [OF rc _ c]], rule base_msg_ok [OF m], rule after_call_word) simp_all
  show "hoare ?P (sq (whenb (\<not> m_delegatecall ?m1 \<and> \<not> m_callcode ?m1 \<and> m_to ?m1 = Some (m_caller ?m1))
        (sq (whenb (m_value ?m1 > 0) (trap CAN_NOT_TRANSFER_TRX_YOURSELF))
            (whenb (m_tokenValue ?m1 > 0) (trap CAN_NOT_TRANSFER_ASSET_YOURSELF))))
     (sq (modify (\<lambda>s. s\<lparr>returnBytes := []\<rparr>))
     (bnd (gets (\<lambda>s. ?m1\<lparr>m_createdAddresses := Some (createdAddresses s)\<rparr>)) (\<lambda>msg.
      bnd (gets (\<lambda>s. int (e_depth (env s)) \<ge> param (common T) ''stackLimit'' \<or>
                     (\<not> m_delegatecall msg \<and> balance (e_contract (env s)) < m_value msg) \<or>
                     (m_tokenValue msg > 0 \<and>
                      getTokenBalance (e_contract (env s)) (m_tokenId msg) < m_tokenValue msg))) (\<lambda>stop.
      if stop then ret 0
      else
        sq (on_world (modify bump_nonce))
        (bnd (on_world (runCall T msg)) (\<lambda>r.
         sq (modify (\<lambda>s. s\<lparr>logs := logs s @ x_logs (execResult r)\<rparr>))
         (sq (useGas (x_executionGasUsed (execResult r)))
         (sq (whenb (x_exceptionError (execResult r) = None \<or> x_exceptionError (execResult r) = Some (TvmError REVERT))
               (modify (\<lambda>s. s\<lparr>returnBytes := x_returnValue (execResult r)\<rparr>)))
         (if x_exceptionError (execResult r) = None then sq (absorb_callee r) (ret (getReturnCode r))
          else ret (getReturnCode r)))))))))))
     is_word (\<lambda>_. ?P) (frame_exit g)"
  proof (rule hoare_sq)
    show "hoare ?P (whenb (\<not> m_delegatecall ?m1 \<and> \<not> m_callcode ?m1 \<and> m_to ?m1 = Some (m_caller ?m1))
        (sq (whenb (m_value ?m1 > 0) (trap CAN_NOT_TRANSFER_TRX_YOURSELF))
            (whenb (m_tokenValue ?m1 > 0) (trap CAN_NOT_TRANSFER_ASSET_YOURSELF)))) (\<lambda>_. True) (\<lambda>_. ?P) (frame_exit g)"
      by (rule hoare_whenb frame_guard frame_trap)+
  qed (rule hoare_sq, rule hoare_modify_same, simp, rule hoare_bnd [OF frame_gets], elim exE conjE, hypsubst,
      rule hoare_bnd [OF frame_gets], rule hoare_if, rule hoare_ret, simp, simp, rule hoare_sq [OF frame_bump], rule send)
qed

lemma new_Message_Inr:
  "new_Message m = Inr m' \<Longrightarrow> m' = m \<and> 0 \<le> m_value m \<and> 0 \<le> m_tokenValue m"
  by (auto simp: new_Message_def split: if_splits)

lemma env_ok_static: "frame_ok g oc K M y p s \<Longrightarrow> e_isStatic (env s) \<longleftrightarrow> gh_frozen g \<noteq> None"
  by (simp add: frame_ok_def env_ok_def)

text \<open>The five calls differ in the message they send.\<close>

lemma frame_send:
  assumes "callee_ok (runCall T)" "cap_ok g"
    and "\<And>s. frame_ok g oc K M 0 p s \<Longrightarrow> 0 \<le> m_value (msg (env s)) \<Longrightarrow> 0 \<le> m_tokenValue (msg (env s)) \<Longrightarrow>
      msg_ok (gh_frozen g) ((msg (env s))\<lparr>m_createdAddresses := Some {}\<rparr>)"
  shows "hoare (frame_ok g oc K M 0 p) (bnd (gets env) (\<lambda>e. bnd (lift_sum (new_Message (msg e))) (baseCall T)))
    is_word (\<lambda>_. frame_ok g oc K M 0 p) (frame_exit g)"
proof (rule hoare_bnd [OF frame_gets], elim exE conjE, hypsubst, rule hoare_bnd [OF frame_lift_sum])
  fix s m
  assume "frame_ok g oc K M 0 p s" "new_Message (msg (env s)) = Inr m"
  then have "msg_ok (gh_frozen g) (m\<lparr>m_createdAddresses := Some {}\<rparr>)"
    using assms(3) by (blast dest: new_Message_Inr)
  with assms show "hoare (frame_ok g oc K M 0 p) (baseCall T m) is_word (\<lambda>_. frame_ok g oc K M 0 p) (frame_exit g)"
    by (intro frame_baseCall)
qed

lemmas msg_defs = msg_ok_def harmless_def default_message_def

lemma frame_call:
  assumes "callee_ok (runCall T)" "cap_ok g" "0 \<le> gl" "gl \<le> GAS_CAP" "is_word v" "bytes_ok d"
    "gh_frozen g \<noteq> None \<longrightarrow> v = 0"
  shows "hoare (frame_ok g oc K M 0 p) (call T gl to v d) is_word (\<lambda>_. frame_ok g oc K M 0 p) (frame_exit g)"
  unfolding call_def by (rule frame_send) (use assms in \<open>auto simp: msg_defs env_ok_static\<close>)

lemma frame_callToken:
  assumes "callee_ok (runCall T)" "cap_ok g" "0 \<le> gl" "gl \<le> GAS_CAP" "bytes_ok d"
    "gh_frozen g \<noteq> None \<longrightarrow> tv = 0"
  shows "hoare (frame_ok g oc K M 0 p) (callToken T gl to 0 tid tv d) is_word (\<lambda>_. frame_ok g oc K M 0 p) (frame_exit g)"
  unfolding callToken_def by (rule frame_send) (use assms in \<open>auto simp: msg_defs env_ok_static\<close>)

lemma frame_callCode:
  assumes "callee_ok (runCall T)" "cap_ok g" "0 \<le> gl" "gl \<le> GAS_CAP" "is_word v" "bytes_ok d"
  shows "hoare (frame_ok g oc K M 0 p) (callCode T gl to v d) is_word (\<lambda>_. frame_ok g oc K M 0 p) (frame_exit g)"
  unfolding callCode_def by (rule frame_send) (use assms in \<open>auto simp: msg_defs env_ok_static\<close>)

lemma frame_callDelegate:
  assumes "callee_ok (runCall T)" "cap_ok g" "0 \<le> gl" "gl \<le> GAS_CAP" "is_word v" "bytes_ok d"
  shows "hoare (frame_ok g oc K M 0 p) (callDelegate T gl to v d) is_word (\<lambda>_. frame_ok g oc K M 0 p) (frame_exit g)"
  unfolding callDelegate_def by (rule frame_send) (use assms in \<open>auto simp: msg_defs env_ok_static\<close>)

lemma frame_callStatic:
  assumes "callee_ok (runCall T)" "cap_ok g" "0 \<le> gl" "gl \<le> GAS_CAP" "bytes_ok d"
  shows "hoare (frame_ok g oc K M 0 p) (callStatic T gl to 0 d) is_word (\<lambda>_. frame_ok g oc K M 0 p) (frame_exit g)"
  unfolding callStatic_def by (rule frame_send) (use assms in \<open>auto simp: msg_defs env_ok_static\<close>)

section \<open>Creation\<close>

text \<open>The creator's account is written with its nonce raised; its holdings are those of the state.\<close>

lemma frame_put_contract:
  assumes fr: "gh_frozen g = None" and f: "\<And>s. frame_ok g oc K M y p s \<Longrightarrow>
    hoare (frame_ok g oc K M y p) (f (env s)) W Q (frame_exit g)"
  shows "hoare (frame_ok g oc K M y p)
    (bnd (gets env) (\<lambda>e. sq (on_world (journal_putAccount (e_address e) (Some (e_contract e)))) (f e)))
    W Q (frame_exit g)"
proof (rule hoare_state)
  fix s assume s: "frame_ok g oc K M y p s"
  let ?acc = "e_contract (env s)" let ?w = "world s"
  have self: "e_address (env s) = gh_self g" using s by (simp add: frame_ok_def env_ok_def)
  have w: "world_ok (gh_saved g) (gh_cap g) None ?w" using frame_ok_world [OF s] fr by simp
  have acc: "account_ok ?acc" "\<And>k. holding k ?acc = holding k (p_acct (public ?w) (gh_self g))"
    using s by (simp_all add: frame_ok_def contract_ok_def)
  have "pub_ok (gh_cap g) (public ?w)" using w by (simp add: world_ok_def)
  then have "pub_ok (gh_cap g) ((public ?w)\<lparr>p_acct := (p_acct (public ?w))(gh_self g := ?acc)\<rparr>)"
    by (rule pub_ok_same_holdings) (simp_all add: acc)
  then obtain w' where w': "journal_putAccount (gh_self g) (Some ?acc) ?w = (Inr (), w')"
    "world_ok (gh_saved g) (gh_cap g) None w'"
    "public w' = (public ?w)\<lparr>p_acct := (p_acct (public ?w))(gh_self g := ?acc)\<rparr>"
    using world_ok_write [OF w, of "WAccount (gh_self g) (Some ?acc)" id] by (auto simp: pub_writes)
  then have t: "frame_ok g oc K M y p (s\<lparr>world := w'\<rparr>)"
    using s fr acc by (simp add: frame_ok_def gas_ok_def cache_ok_def contract_ok_def)
  have "bnd (gets env) (\<lambda>e. sq (on_world (journal_putAccount (e_address e) (Some (e_contract e)))) (f e)) s =
      f (env s) (s\<lparr>world := w'\<rparr>)"
    by (simp add: self sq_def bnd_def on_world_def zoom_def w'(1))
  with f [OF s] t show "hoare (\<lambda>t. t = s)
    (bnd (gets env) (\<lambda>e. sq (on_world (journal_putAccount (e_address e) (Some (e_contract e)))) (f e)))
    W Q (frame_exit g)" by (simp add: hoare_def)
qed

lemma frame_raise_nonce:
  "frame_ok g oc K M y p s \<Longrightarrow>
   frame_ok g oc K M y p (s\<lparr>env := (env s)\<lparr>e_contract := (e_contract (env s))\<lparr>nonce := n\<rparr>\<rparr>\<rparr>)"
  by (simp add: frame_ok_def gas_ok_def cache_ok_def contract_ok_def env_ok_def)

lemma word_created: "is_word (TRON_ADDRESS_PREFIX_WORD OR bytesToBigInt (addr_bytes a))"
proof -
  have "bytesToBigInt (addr_bytes a) < 2 ^ 168"
    using bytesToBigInt_less [of "addr_bytes a"] by simp
  moreover have "TRON_ADDRESS_PREFIX_WORD < 2 ^ 168" "0 \<le> TRON_ADDRESS_PREFIX_WORD"
    by (simp_all add: TRON_ADDRESS_PREFIX_WORD_def js_shl_def push_bit_eq_mult)
  ultimately have "TRON_ADDRESS_PREFIX_WORD OR bytesToBigInt (addr_bytes a) < 2 ^ 168"
    by (intro OR_upper) simp_all
  then show ?thesis using \<open>0 \<le> TRON_ADDRESS_PREFIX_WORD\<close> by (simp add: is_word_def TWO_POW256_def)
qed

lemma case_ret: "(case z of Some a \<Rightarrow> ret (f a) | None \<Rightarrow> ret y) = ret (case z of Some a \<Rightarrow> f a | None \<Rightarrow> y)"
  by (cases z) simp_all

lemma frame_create:
  assumes rc: "callee_ok (runCall T)" and c: "cap_ok g" and fr: "gh_frozen g = None"
    and m: "0 \<le> gl" "gl \<le> GAS_CAP" "is_word v" "bytes_ok d"
  shows "hoare (frame_ok g oc K M 0 p) (create T gl v d salt) is_word (\<lambda>_. frame_ok g oc K M 0 p) (frame_exit g)"
proof -
  let ?P = "frame_ok g oc K M 0 p"
  have w: "is_word (case z of Some a \<Rightarrow> TRON_ADDRESS_PREFIX_WORD OR bytesToBigInt (addr_bytes a) | None \<Rightarrow> getReturnCode r)"
    for z r by (simp add: word_created split: option.splits)
  have msg: "msg_ok (gh_frozen g) m'"
    if "new_Message (default_message\<lparr>m_caller := e_address e, m_gasLimit := gl, m_value := v, m_data := d,
      m_salt := salt, m_depth := e_depth e + 1, m_selfdestruct := sd, m_gasRefund := gr,
      m_createdAddresses := Some cr\<rparr>) = Inr m'" for e sd gr cr m'
    using new_Message_Inr [OF that] m fr by (simp add: msg_defs)
  show ?thesis
    unfolding create_def case_ret
    by (rule hoare_sq, rule hoare_modify_same, simp, rule hoare_bnd [OF frame_gets], rule hoare_if,
        rule hoare_ret, simp, simp, rule hoare_if, rule hoare_ret, simp, simp, rule hoare_sq,
        rule hoare_modify_same, erule frame_raise_nonce, rule frame_put_contract [OF fr],
        rule hoare_bnd [OF frame_lift_sum], rule hoare_bnd [OF frame_runCall [OF rc msg c]], assumption,
        erule after_call_word) (simp_all add: w)
qed

section \<open>The call instructions\<close>

text \<open>Popping the operands whose price was paid.\<close>

lemma hoare_popN_at:
  assumes "\<And>v. v = take n (items S) \<and> length v = n \<and> (\<forall>i < n. is_word (v ! i)) \<Longrightarrow>
    hoare (frame_ok g oc K M y p) (f v) W Q (frame_exit g)"
  shows "hoare (\<lambda>s. frame_ok g oc K M y p s \<and> stack s = S) (bnd (on_stack (popN n)) f) W Q (frame_exit g)"
proof (rule hoare_state)
  fix s assume s: "frame_ok g oc K M y p s \<and> stack s = S"
  then have S: "words_ok S" by (auto simp: frame_ok_def)
  show "hoare (\<lambda>t. t = s) (bnd (on_stack (popN n)) f) W Q (frame_exit g)"
  proof (cases "n \<le> length (items S)")
    case True
    define t where "t = s\<lparr>stack := S\<lparr>len := len S - n\<rparr>\<rparr>"
    have run: "on_stack (popN n) s = (Inr (take n (items S)), t)"
      using s S True by (simp add: on_stack_def zoom_def popN_ok words_ok_def t_def)
    then have "frame_ok g oc K M y p t" using hoare_ret_state [OF frame_popN _ run] s by blast
    moreover have "hoare (frame_ok g oc K M y p) (f (take n (items S))) W Q (frame_exit g)"
      using True S by (intro assms) (auto simp: words_ok_def)
    ultimately show ?thesis using run by (simp add: hoare_def bnd_def)
  next
    case False
    then have "on_stack (popN n) s = (Inl (TvmError STACK_UNDERFLOW), s)"
      using s S by (simp add: on_stack_def zoom_def popN_underflow words_ok_def)
    with s show ?thesis by (auto simp: hoare_def bnd_def)
  qed
qed

text \<open>The stipend of a transfer is less than the charge for it.\<close>

definition stipend :: "int \<Rightarrow> int" where
  "stipend v = (if v = 0 then 0 else 2300)"

lemma stipend_cost: "stipend v \<le> call_cost v" "0 \<le> stipend v"
  by (simp_all add: stipend_def call_cost_def)

lemma frame_take_stipend:
  assumes "K + stipend v \<le> gh_gas g"
  shows "hoare (frame_ok g oc K M 0 p) (take_stipend T v) (\<lambda>x. x = stipend v)
    (\<lambda>_. frame_ok g oc (K + stipend v) M 0 p) (frame_exit g)"
proof (cases "v = 0")
  case True
  then show ?thesis by (simp add: hoare_def take_stipend_def stipend_def)
next
  case False
  then have K: "K + 2300 \<le> gh_gas g" "stipend v = 2300" using assms by (simp_all add: stipend_def)
  have "frame_ok g oc (K + 2300) M 0 p (s\<lparr>gasLeft := gasLeft s + 2300\<rparr>)" if "frame_ok g oc K M 0 p s" for s
    using that K mem_cost_nonneg [of "memoryWordCount s"]
    by (fastforce simp: frame_ok_def gas_ok_def cache_ok_def)
  with False K show ?thesis by (auto simp: hoare_def take_stipend_def addStipend_def)
qed

lemma frame_take_gasLimit:
  "hoare (frame_ok g oc K M 0 p) take_gasLimit (\<lambda>l. 0 \<le> l \<and> l \<le> M) (\<lambda>_. frame_ok g oc K M 0 p) (frame_exit g)"
  by (fastforce simp: hoare_def take_gasLimit_def frame_ok_def gas_ok_def cache_ok_def frame_exit_def
      split: option.splits dest: world_ok_lockstep)

lemma frame_writeCallOutput:
  "hoare (frame_ok g oc K M y p) (writeCallOutput a n) (\<lambda>_. True) (\<lambda>_. frame_ok g oc K M y p) (frame_exit g)"
  unfolding writeCallOutput_def Let_def
  by (rule hoare_bnd [OF frame_gets]) (rule hoare_whenb frame_flow hoare_rules)+

definition paid_rule :: "ghost \<Rightarrow> unit rop \<Rightarrow> (int list \<Rightarrow> int) \<Rightarrow> (int list \<Rightarrow> bool) \<Rightarrow> bool" where
  "paid_rule g h bonus chk \<longleftrightarrow> (\<forall>oc K M p S. M \<le> K \<longrightarrow> K + bonus (items S) \<le> gh_gas g \<longrightarrow> chk (items S) \<longrightarrow>
     hoare (\<lambda>s. frame_ok g oc K M 0 p s \<and> stack s = S) h (\<lambda>_. True)
       (\<lambda>_. frame_ok g oc (K + bonus (items S)) M 0 p) (frame_exit g))"

lemma paid_ruleI:
  assumes "\<And>oc K M p S. M \<le> K \<Longrightarrow> K + bonus (items S) \<le> gh_gas g \<Longrightarrow> chk (items S) \<Longrightarrow>
    hoare (\<lambda>s. frame_ok g oc K M 0 p s \<and> stack s = S) h (\<lambda>_. True)
      (\<lambda>_. frame_ok g oc (K + bonus (items S)) M 0 p) (frame_exit g)"
  shows "paid_rule g h bonus chk"
  using assms by (simp add: paid_rule_def)

lemma paid_zeroI:
  assumes "\<And>oc K M p. M \<le> K \<Longrightarrow> K \<le> gh_gas g \<Longrightarrow> A \<Longrightarrow>
    hoare (frame_ok g oc K M 0 p) h (\<lambda>_. True) (\<lambda>_. frame_ok g oc K M 0 p) (frame_exit g)"
  shows "paid_rule g h (\<lambda>_. 0) (\<lambda>_. A)"
proof (rule paid_ruleI)
  fix oc K M p S
  assume "M \<le> K" "K + 0 \<le> gh_gas g" A
  with assms have "hoare (frame_ok g oc K M 0 p) h (\<lambda>_. True) (\<lambda>_. frame_ok g oc K M 0 p) (frame_exit g)" by simp
  then show "hoare (\<lambda>s. frame_ok g oc K M 0 p s \<and> stack s = S) h (\<lambda>_. True)
      (\<lambda>_. frame_ok g oc (K + 0) M 0 p) (frame_exit g)"
    by (simp add: hoare_def)
qed

lemmas paid_flow = hoare_popN_at hoare_bnd hoare_sq frame_stack_address frame_read_range
  frame_take_gasLimit frame_writeCallOutput frame_pushv

lemma op_CALL_rule:
  assumes rc: "callee_ok (runCall T)" and c: "cap_ok g"
  shows "paid_rule g (op_CALL T) (\<lambda>xs. stipend (xs ! 2)) (\<lambda>xs. gh_frozen g \<noteq> None \<longrightarrow> xs ! 2 = 0)"
proof (rule paid_ruleI)
  fix oc K M p S
  let ?v = "items S ! 2"
  assume a: "M \<le> K" "K + stipend ?v \<le> gh_gas g" "gh_frozen g \<noteq> None \<longrightarrow> ?v = 0"
  have cap: "gh_gas g \<le> GAS_CAP" using c by (simp add: cap_ok_def)
  show "hoare (\<lambda>s. frame_ok g oc K M 0 p s \<and> stack s = S) (op_CALL T) (\<lambda>_. True)
      (\<lambda>_. frame_ok g oc (K + stipend ?v) M 0 p) (frame_exit g)"
    unfolding op_CALL_def
  proof (rule hoare_popN_at, elim conjE)
    fix v assume v: "v = take 7 (items S)" "\<forall>i < 7. is_word (v ! i)"
    then have v2: "v ! 2 = ?v" "is_word ?v" by (auto dest: spec [where x = 2])
    show "hoare (frame_ok g oc K M 0 p) (bnd (stack_address (v ! 1)) (\<lambda>to.
       bnd (read_range (v ! 3) (v ! 4) True) (\<lambda>data. bnd (take_stipend T (v ! 2)) (\<lambda>stipend.
       bnd take_gasLimit (\<lambda>gasLimit. bnd (call T (gasLimit + stipend) to (v ! 2) data) (\<lambda>r.
       sq (writeCallOutput (v ! 5) (v ! 6)) (pushv r))))))) (\<lambda>_. True)
       (\<lambda>_. frame_ok g oc (K + stipend ?v) M 0 p) (frame_exit g)"
      unfolding v2(1)
      by (rule paid_flow frame_take_stipend [OF a(2)] frame_call [OF rc c]
          | (use v v2 a cap stipend_cost(2) [of ?v] in \<open>auto; fail\<close>)[1])+
  qed
qed

lemma op_CALLCODE_rule:
  assumes rc: "callee_ok (runCall T)" and c: "cap_ok g"
  shows "paid_rule g (op_CALLCODE T) (\<lambda>xs. stipend (xs ! 2)) (\<lambda>_. True)"
proof (rule paid_ruleI)
  fix oc K M p S
  let ?v = "items S ! 2"
  assume a: "M \<le> K" "K + stipend ?v \<le> gh_gas g"
  have cap: "gh_gas g \<le> GAS_CAP" using c by (simp add: cap_ok_def)
  show "hoare (\<lambda>s. frame_ok g oc K M 0 p s \<and> stack s = S) (op_CALLCODE T) (\<lambda>_. True)
      (\<lambda>_. frame_ok g oc (K + stipend ?v) M 0 p) (frame_exit g)"
    unfolding op_CALLCODE_def
  proof (rule hoare_popN_at, elim conjE)
    fix v assume v: "v = take 7 (items S)" "\<forall>i < 7. is_word (v ! i)"
    then have v2: "v ! 2 = ?v" "is_word ?v" by (auto dest: spec [where x = 2])
    show "hoare (frame_ok g oc K M 0 p) (bnd (stack_address (v ! 1)) (\<lambda>to.
       bnd (take_stipend T (v ! 2)) (\<lambda>stipend. bnd take_gasLimit (\<lambda>gasLimit.
       bnd (read_range (v ! 3) (v ! 4) True) (\<lambda>data. bnd (callCode T (gasLimit + stipend) to (v ! 2) data) (\<lambda>r.
       sq (writeCallOutput (v ! 5) (v ! 6)) (pushv r))))))) (\<lambda>_. True)
       (\<lambda>_. frame_ok g oc (K + stipend ?v) M 0 p) (frame_exit g)"
      unfolding v2(1)
      by (rule paid_flow frame_take_stipend [OF a(2)] frame_callCode [OF rc c]
          | (use v v2 a cap stipend_cost(2) [of ?v] in \<open>auto; fail\<close>)[1])+
  qed
qed

lemma op_CALLTOKEN_rule:
  assumes rc: "callee_ok (runCall T)" and c: "cap_ok g"
  shows "paid_rule g (op_CALLTOKEN T) (\<lambda>xs. stipend (xs ! 2)) (\<lambda>xs. gh_frozen g \<noteq> None \<longrightarrow> xs ! 2 = 0)"
proof (rule paid_ruleI)
  fix oc K M p S
  let ?v = "items S ! 2"
  assume a: "M \<le> K" "K + stipend ?v \<le> gh_gas g" "gh_frozen g \<noteq> None \<longrightarrow> ?v = 0"
  have cap: "gh_gas g \<le> GAS_CAP" using c by (simp add: cap_ok_def)
  show "hoare (\<lambda>s. frame_ok g oc K M 0 p s \<and> stack s = S) (op_CALLTOKEN T) (\<lambda>_. True)
      (\<lambda>_. frame_ok g oc (K + stipend ?v) M 0 p) (frame_exit g)"
    unfolding op_CALLTOKEN_def Let_def
  proof (rule hoare_popN_at, elim conjE)
    fix v assume v: "v = take 8 (items S)" "\<forall>i < 8. is_word (v ! i)"
    then have v2: "v ! 2 = ?v" "is_word ?v" by (auto dest: spec [where x = 2])
    show "hoare (frame_ok g oc K M 0 p) (bnd (stack_address (v ! 1)) (\<lambda>to.
       sq (bnd (get_env e_isStatic) (\<lambda>b. whenb (b \<and> v ! 2 \<noteq> 0) (trap STATIC_STATE_CHANGE)))
       (sq (whenb (v ! 2 < 0 \<or> v ! 2 > MAX_INT64) (trap VALUE_OVERFLOW))
       (sq (whenb (v ! 3 \<noteq> 0 \<and> \<not> isValidTronTokenId (v ! 3)) (trap INVALID_TOKENID))
       (sq (whenb (v ! 3 = 0 \<and> v ! 2 > 0) (trap INVALID_TOKENID))
       (bnd (read_range (v ! 4) (v ! 5) False) (\<lambda>data. bnd (take_stipend T (v ! 2)) (\<lambda>stipend.
       bnd take_gasLimit (\<lambda>gasLimit. bnd (callToken T (gasLimit + stipend) to 0 (v ! 3) (v ! 2) data) (\<lambda>r.
       sq (writeCallOutput (v ! 6) (v ! 7)) (pushv r))))))))))) (\<lambda>_. True)
       (\<lambda>_. frame_ok g oc (K + stipend ?v) M 0 p) (frame_exit g)"
      unfolding v2(1)
      by (rule frame_static_value frame_guard paid_flow frame_take_stipend [OF a(2)] frame_callToken [OF rc c]
          | (use v v2 a cap stipend_cost(2) [of ?v] in \<open>auto; fail\<close>)[1])+
  qed
qed

lemma op_plain_call_rules:
  assumes rc: "callee_ok (runCall T)" and c: "cap_ok g"
  shows "paid_rule g (op_DELEGATECALL T) (\<lambda>_. 0) (\<lambda>_. True)" "paid_rule g (op_STATICCALL T) (\<lambda>_. 0) (\<lambda>_. True)"
    "paid_rule g (op_CREATE T) (\<lambda>_. 0) (\<lambda>_. gh_frozen g = None)"
    "paid_rule g (op_CREATE2 T) (\<lambda>_. 0) (\<lambda>_. gh_frozen g = None)"
proof -
  have cap: "gh_gas g \<le> GAS_CAP" using c by (simp add: cap_ok_def)
  show "paid_rule g (op_DELEGATECALL T) (\<lambda>_. 0) (\<lambda>_. True)"
    unfolding op_DELEGATECALL_def
    by (rule paid_zeroI, (rule hoare_bnd hoare_sq frame_get_env frame_popN paid_flow frame_callDelegate [OF rc c]
        | (use cap in \<open>auto dest: word_env; fail\<close>)[1])+)
  show "paid_rule g (op_STATICCALL T) (\<lambda>_. 0) (\<lambda>_. True)"
    unfolding op_STATICCALL_def
    by (rule paid_zeroI, (rule hoare_bnd hoare_sq frame_popN paid_flow frame_callStatic [OF rc c]
        | (use cap in \<open>auto; fail\<close>)[1])+)
  show "paid_rule g (op_CREATE T) (\<lambda>_. 0) (\<lambda>_. gh_frozen g = None)"
    unfolding op_CREATE_def
    by (rule paid_zeroI, (rule hoare_bnd hoare_sq hoare_if frame_popN paid_flow frame_create [OF rc c]
        | assumption | (use cap in \<open>auto; fail\<close>)[1])+)
  show "paid_rule g (op_CREATE2 T) (\<lambda>_. 0) (\<lambda>_. gh_frozen g = None)"
    unfolding op_CREATE2_def
    by (rule paid_zeroI, (rule hoare_bnd hoare_sq hoare_if frame_not_static frame_popN paid_flow frame_key32 frame_create [OF rc c]
        | assumption | (use cap in \<open>auto; fail\<close>)[1])+)
qed

end
