(* ===== verification/JumpAnalysis.thy ===== *)
theory JumpAnalysis
  imports Interpreter
begin

text \<open>
  The lazy jump analysis of the interpreter against its specification: a position is the start of
  an instruction if it is reached from the start of the code by skipping whole instructions, with
  the immediate bytes of PUSH instructions. A jump is valid exactly at a JUMPDEST that starts an
  instruction, and the caches of the analysis agree with the code at every instruction start.
\<close>

section \<open>Instruction starts\<close>

definition next_instr :: "bytes \<Rightarrow> nat \<Rightarrow> nat" where
  "next_instr cd i =
     (if i < length cd \<and> 0x60 \<le> unat (cd ! i) \<and> unat (cd ! i) \<le> 0x7f
      then i + (unat (cd ! i) - 0x5f) + 1 else i + 1)"

definition instr_start :: "bytes \<Rightarrow> nat \<Rightarrow> bool" where
  "instr_start cd k \<longleftrightarrow> (\<exists>n. k = (next_instr cd ^^ n) 0)"

lemma next_instr_greater: "i < next_instr cd i"
  by (auto simp: next_instr_def)

lemma instr_start_0 [simp]: "instr_start cd 0"
  unfolding instr_start_def by (rule exI [of _ 0]) simp

lemma instr_start_next: "instr_start cd i \<Longrightarrow> instr_start cd (next_instr cd i)"
  unfolding instr_start_def by (metis funpow.simps(2) comp_apply)

lemma instr_start_gap:
  assumes "instr_start cd a" "instr_start cd b" "a \<le> b"
  shows "a = b \<or> next_instr cd a \<le> b"
proof -
  let ?f = "\<lambda>n. (next_instr cd ^^ n) 0"
  have step: "?f n < ?f (Suc n)" for n by (simp add: next_instr_greater)
  have less: "?f m < ?f n" if "m < n" for m n using lift_Suc_mono_less [of ?f, OF step that] .
  obtain m n where mn: "a = ?f m" "b = ?f n" using assms by (auto simp: instr_start_def)
  consider "m < n" | "m = n" | "n < m" by linarith
  then show ?thesis
  proof cases
    case 1
    then have "?f (Suc m) \<le> ?f n" using less [of "Suc m" n] by (cases "Suc m = n") (auto simp: less_imp_le)
    with mn show ?thesis by simp
  qed (use mn less assms(3) in \<open>auto dest: less\<close>)
qed

section \<open>The loop\<close>

text \<open>The value of the PUSH at \<open>i\<close>, padded with zeros at the end of the code.\<close>

definition push_value :: "bytes \<Rightarrow> nat \<Rightarrow> int" where
  "push_value cd i = bytesToBigInt (push_bytes cd i (unat (cd ! i)))"

definition is_push :: "bytes \<Rightarrow> nat \<Rightarrow> bool" where
  "is_push cd i \<longleftrightarrow> 0x60 \<le> unat (cd ! i) \<and> unat (cd ! i) \<le> 0x7f"

text \<open>The analysis of the code before position \<open>i\<close>.\<close>

definition analysed :: "common \<Rightarrow> bytes \<Rightarrow> nat \<Rightarrow> analysis \<Rightarrow> bool" where
  "analysed c cd i r \<longleftrightarrow> (case r of (jumps, pushes, ops) \<Rightarrow>
     length jumps = length cd \<and> length ops = length cd \<and>
     (\<forall>k < length cd. jumps ! k = (if k < i \<and> instr_start cd k \<and> unat (cd ! k) = 0x5b then 1 else 0)) \<and>
     (\<forall>k < length cd. ops ! k = (if k < i \<and> instr_start cd k then Some (opcodeMap c (unat (cd ! k))) else None)) \<and>
     pushes = (\<lambda>j. if 0 < j \<and> j - 1 < i \<and> j - 1 < length cd \<and> instr_start cd (j - 1) \<and> is_push cd (j - 1)
                   then Some (push_value cd (j - 1)) else None))"

lemma start_between:
  "instr_start cd i \<Longrightarrow> instr_start cd k \<Longrightarrow> k < next_instr cd i \<longleftrightarrow> k < i \<or> k = i"
  using instr_start_gap [of cd i k] next_instr_greater [of i cd] by fastforce

lemma analysed_step:
  assumes r: "analysed c cd i (jumps, pushes, ops)" and i: "instr_start cd i" "i < length cd"
    and jumps': "jumps' = (if unat (cd ! i) = 0x5b then jumps[i := 1] else jumps)"
    and pushes': "pushes' = (if is_push cd i then pushes(i + 1 \<mapsto> push_value cd i) else pushes)"
  shows "analysed c cd (next_instr cd i) (jumps', pushes', ops[i := Some (opcodeMap c (unat (cd ! i)))])"
proof -
  note s = start_between [OF i(1)]
  have p: "pushes' j = (if 0 < j \<and> j - 1 < next_instr cd i \<and> j - 1 < length cd \<and> instr_start cd (j - 1) \<and> is_push cd (j - 1)
      then Some (push_value cd (j - 1)) else None)" for j
  proof (cases "j = i + 1")
    case True
    then show ?thesis using r i next_instr_greater [of i cd] by (simp add: pushes' analysed_def)
  next
    case False
    then have "0 < j \<Longrightarrow> j - 1 \<noteq> i" by simp
    with False r s [of "j - 1"] show ?thesis by (auto simp: pushes' analysed_def)
  qed
  show ?thesis
    unfolding analysed_def prod.case
  proof (intro conjI)
    show "pushes' = (\<lambda>j. if 0 < j \<and> j - 1 < next_instr cd i \<and> j - 1 < length cd \<and> instr_start cd (j - 1) \<and> is_push cd (j - 1)
        then Some (push_value cd (j - 1)) else None)"
      using p by (rule ext)
  qed (use r i s in \<open>auto simp: analysed_def jumps' nth_list_update\<close>)
qed

lemma jump_loop_analysed:
  "analysed c cd i (jumps, pushes, ops) \<Longrightarrow> instr_start cd i \<Longrightarrow>
   \<exists>j. length cd \<le> j \<and> analysed c cd j (jump_loop c cd i (jumps, pushes, ops))"
proof (induction "length cd - i" arbitrary: i jumps pushes ops rule: less_induct)
  case less
  show ?case
  proof (cases "i < length cd")
    case False
    then show ?thesis using less.prems(1) by (auto simp: jump_loop.simps [of c cd i] intro!: exI [of _ i])
  next
    case True
    let ?j = "if unat (cd ! i) = 0x5b then jumps[i := 1] else jumps"
    let ?p = "if is_push cd i then pushes(i + 1 \<mapsto> push_value cd i) else pushes"
    let ?o = "ops[i := Some (opcodeMap c (unat (cd ! i)))]"
    have "jump_loop c cd i (jumps, pushes, ops) = jump_loop c cd (next_instr cd i) (?j, ?p, ?o)"
      using True by (subst jump_loop.simps) (auto simp: Let_def next_instr_def is_push_def push_value_def)
    moreover have "length cd - next_instr cd i < length cd - i" using True next_instr_greater [of i cd] by simp
    ultimately show ?thesis
      using less.hyps [OF _ analysed_step [OF less.prems True refl refl] instr_start_next [OF less.prems(2)]] by simp
  qed
qed

lemma getValidJumpDestinations_analysed: "analysed c cd (length cd) (getValidJumpDestinations c cd)"
proof -
  have "analysed c cd 0 (zeros (length cd), Map.empty, replicate (length cd) None)"
    by (simp add: analysed_def)
  then obtain j where "length cd \<le> j" "analysed c cd j (getValidJumpDestinations c cd)"
    unfolding getValidJumpDestinations_def using jump_loop_analysed by fastforce
  then show ?thesis
    by (cases "getValidJumpDestinations c cd") (auto simp: analysed_def fun_eq_iff)
qed

text \<open>
  C24. The jump analysis is exact: a destination is valid if and only if it holds a JUMPDEST that
  starts an instruction (not a byte of a PUSH immediate); the cached opcode is present exactly at
  the instruction starts and is the table's entry for the byte there; and the cached push values
  are present exactly behind PUSH instructions and are the immediate bytes, zero padded.
\<close>
theorem jump_analysis_exact:
  "case getValidJumpDestinations c cd of (jumps, pushes, ops) \<Rightarrow>
     length jumps = length cd \<and> length ops = length cd \<and>
     (\<forall>k < length cd. (jumps ! k = 1 \<longleftrightarrow> instr_start cd k \<and> cd ! k = 0x5b) \<and>
        ops ! k = (if instr_start cd k then Some (opcodeMap c (unat (cd ! k))) else None) \<and>
        pushes (k + 1) = (if instr_start cd k \<and> is_push cd k then Some (push_value cd k) else None)) \<and>
     dom pushes \<subseteq> {1..length cd}"
proof -
  have b: "unat (x :: byte) = 0x5b \<longleftrightarrow> x = 0x5b" for x
    by (simp add: word_unat_eq_iff)
  show ?thesis
    using getValidJumpDestinations_analysed [of c cd] by (auto simp: analysed_def b split: if_splits)
qed

text \<open>In \<^verbatim>\<open>PUSH1 0x5b JUMPDEST\<close> only the last byte is a destination.\<close>

theorem jump_analysis_exact_witness:
  "case getValidJumpDestinations \<lparr>eip7939 = True, proposal65 = True\<rparr> [0x60, 0x5b, 0x5b] of (jumps, _, _) \<Rightarrow>
     jumps ! 1 \<noteq> 1 \<and> jumps ! 2 = 1"
proof -
  let ?cd = "[0x60, 0x5b, 0x5b] :: bytes"
  have n: "next_instr ?cd 0 = 2" by (simp add: next_instr_def)
  have "instr_start ?cd 2" using instr_start_next [OF instr_start_0, of ?cd] n by simp
  moreover have "\<not> instr_start ?cd 1"
  proof
    assume "instr_start ?cd 1"
    from instr_start_gap [OF instr_start_0 this] n show False by simp
  qed
  ultimately show ?thesis
    using jump_analysis_exact [where c = "\<lparr>eip7939 = True, proposal65 = True\<rparr>" and cd = ?cd]
    by (auto split: prod.splits)
qed

end
