(* ===== verification/StepOk.thy ===== *)
theory StepOk
  imports CallsOk JumpAnalysis
begin

text \<open>
  One step of the interpreter keeps the frame invariant and moves on: the program counter grows,
  or at least eight units of gas are spent. So the loop ends within the fuel it is given.
\<close>

section \<open>The opcode table\<close>

definition all_entries :: "(nat \<times> op_entry) list" where
  "all_entries = concat (opcodes # map snd (baseCapabilityOpcodes @ eipOpcodes))"

text \<open>Instructions whose gas handler does more than compute a fee.\<close>

definition guarded_ops :: "nat list" where
  "guarded_ops = [0x55, 0xd0, 0xf0, 0xf1, 0xf2, 0xf4, 0xf5, 0xfa, 0xff]"

definition entry_ok :: "nat \<times> op_entry \<Rightarrow> bool" where
  "entry_ok x = (case x of (opc, e) \<Rightarrow> (opc \<in> set guarded_ops \<longrightarrow> en_dynamicGas e) \<and>
     (opc = 0x56 \<longrightarrow> en_name e = ''JUMP'') \<and> (opc = 0x57 \<longrightarrow> en_name e = ''JUMPI'') \<and>
     (en_name e = ''INVALID'' \<longrightarrow> opc = 0xfe))"

lemma all_entries_ok: "list_all entry_ok all_entries"
  by code_simp

lemma entry_facts:
  assumes "entry_ok (opc, e)"
  shows "opc \<in> set guarded_ops \<Longrightarrow> en_dynamicGas e" "opc = 0x56 \<Longrightarrow> en_name e = ''JUMP''"
    "opc = 0x57 \<Longrightarrow> en_name e = ''JUMPI''" "en_name e = ''INVALID'' \<Longrightarrow> opc = 0xfe"
  using assms unfolding entry_ok_def by blast+

lemma foldl_entry:
  "foldl (\<lambda>r g. case map_of g k of None \<Rightarrow> r | Some e \<Rightarrow> Some e) r gs = Some e \<Longrightarrow>
   r = Some e \<or> (\<exists>g \<in> set gs. (k, e) \<in> set g)"
  by (induction gs arbitrary: r) (auto split: option.splits dest: map_of_SomeD)

lemma opcodeBuilder_entry: "opcodeBuilder c opc = Some e \<Longrightarrow> entry_ok (opc, e)"
proof -
  assume "opcodeBuilder c opc = Some e"
  then obtain g where "g \<in> set (op_groups c)" "(opc, e) \<in> set g"
    by (auto simp: opcodeBuilder_def dest: foldl_entry)
  then have "(opc, e) \<in> set all_entries" by (auto simp: op_groups_def all_entries_def)
  then show ?thesis using all_entries_ok by (auto simp: list_all_iff)
qed

lemma base_fee_jump: "8 \<le> base_fee c 0x56 ''JUMP''" "8 \<le> base_fee c 0x57 ''JUMPI''"
proof -
  have n: "toLowerCase ''JUMP'' @ ''Gas'' = ''jumpGas''" "toLowerCase ''JUMPI'' @ ''Gas'' = ''jumpiGas''"
    by code_simp+
  show "8 \<le> base_fee c 0x56 ''JUMP''" "8 \<le> base_fee c 0x57 ''JUMPI''"
    unfolding base_fee_def n by simp_all
qed

lemma opcodeMap_facts:
  assumes "\<not> oi_isInvalid (opcodeMap c opc)"
  shows "oi_code (opcodeMap c opc) = opc" "opc \<in> set guarded_ops \<Longrightarrow> oi_dynamicGas (opcodeMap c opc)"
    "opc = 0x56 \<or> opc = 0x57 \<Longrightarrow> 8 \<le> oi_fee (opcodeMap c opc)"
proof -
  from assms obtain e where e: "opcodeBuilder c opc = Some e"
    by (cases "opcodeBuilder c opc") (auto simp: opcodeMap_def INVALID_entry_def new_Opcode_def default_op_def)
  then have m: "opcodeMap c opc = new_Opcode c opc e" by (simp add: opcodeMap_def)
  have n: "oi_code (opcodeMap c opc) = opc" "oi_dynamicGas (opcodeMap c opc) = en_dynamicGas e"
    "oi_fee (opcodeMap c opc) = base_fee c opc (en_name e)"
    by (simp_all add: m new_Opcode_def)
  show "oi_code (opcodeMap c opc) = opc" by (rule n)
  show "opc \<in> set guarded_ops \<Longrightarrow> oi_dynamicGas (opcodeMap c opc)"
    unfolding n by (rule entry_facts(1) [OF opcodeBuilder_entry [OF e]])
  show "opc = 0x56 \<or> opc = 0x57 \<Longrightarrow> 8 \<le> oi_fee (opcodeMap c opc)"
    unfolding n using entry_facts(2,3) [OF opcodeBuilder_entry [OF e]] base_fee_jump by (elim disjE) metis+
qed

lemma opcodeMap_invalid:
  assumes "oi_isInvalid (opcodeMap c opc)"
  shows "oi_code (opcodeMap c opc) = 0xfe"
proof (cases "opcodeBuilder c opc")
  case None
  then show ?thesis by (simp add: opcodeMap_def INVALID_entry_def new_Opcode_def)
next
  case (Some e)
  then have "en_name e = ''INVALID''" using assms by (simp add: opcodeMap_def new_Opcode_def)
  with Some show ?thesis
    using entry_facts(4) [OF opcodeBuilder_entry [OF Some]] by (simp add: opcodeMap_def new_Opcode_def)
qed

section \<open>The handlers by opcode\<close>

definition paid_ops :: "nat list" where
  "paid_ops = [0xd0, 0xf0, 0xf1, 0xf2, 0xf4, 0xf5, 0xfa]"

lemma gas_table:
  assumes "dynamicGasHandlers opc = Some h" "opc \<notin> set paid_ops"
  shows "gas_rule g (h T) (opc \<in> {0x55, 0xff})"
proof -
  have weak: "gas_rule g k b" if k: "gas_rule g k True" for k b
  proof (rule gas_ruleI)
    fix oc K M p and fee :: int
    assume "0 \<le> fee"
    with k have "hoare (frame_ok g oc K M 0 p) (k fee) (\<lambda>x. fee \<le> x \<and> (True \<longrightarrow> gh_frozen g = None))
        (\<lambda>x. frame_ok g oc (K + x - fee) M x p) (frame_exit g)" unfolding gas_rule_def by blast
    then show "hoare (frame_ok g oc K M 0 p) (k fee) (\<lambda>x. fee \<le> x \<and> (b \<longrightarrow> gh_frozen g = None))
        (\<lambda>x. frame_ok g oc (K + x - fee) M x p) (frame_exit g)" by (rule hoare_conseq) auto
  qed
  show ?thesis
    using assms
    by (simp add: dynamicGasHandlers_def paid_ops_def split: if_splits)
      (auto intro: gas_EXP_rule gas_KECCAK256_rule gas_note_top_rule gas_COPY_rule gas_EXTCODECOPY_rule
        gas_RETURNDATACOPY_rule gas_MEM_rule gas_SLOAD_rule gas_SSTORE_rule gas_MCOPY_rule
        weak [OF gas_LOG_rule] gas_RETURN_rule gas_SELFDESTRUCT_rule gas_TOKENBALANCE_rule)
qed

lemma op_alu_rule: "alu_handler opc = Some h \<Longrightarrow> op_rule g oc (on_stack h)"
  by (rule op_ruleI) (rule frame_alu)

lemma handler_table:
  assumes h: "handlers opc = Some h" and n: "opc \<notin> set paid_ops" "opc \<noteq> 0x56" "opc \<noteq> 0x57" "opc \<noteq> 0x58"
    and w: "opc \<in> {0x55, 0xff} \<Longrightarrow> gh_frozen g = None" and T: "tvm_ok g T"
  shows "op_rule g opc (h T)"
proof (cases "alu_handler opc")
  case (Some a)
  with h show ?thesis by (auto simp: handlers_def op_alu_rule)
next
  case None
  note rules = op_env_rules op_world_rules [OF T] op_EXTCODEHASH_rule [OF T] op_SELFBALANCE_rule [OF T]
    op_memory_rules [OF T] op_CALLDATALOAD_rule op_end_rules op_DUP_rule op_PUSH_rule op_SSTORE_rule
    op_TSTORE_rule op_SELFDESTRUCT_rule
  show ?thesis
    using h n w None by (simp add: handlers_def paid_ops_def split: if_splits) (auto intro: rules)
qed

section \<open>One step\<close>

definition stipend_of :: "nat \<Rightarrow> int list \<Rightarrow> int" where
  "stipend_of opc xs = (if opc \<in> {0xd0, 0xf1, 0xf2} then stipend (xs ! 2) else 0)"

definition cost_of :: "nat \<Rightarrow> int list \<Rightarrow> int" where
  "cost_of opc xs = (if opc \<in> {0xd0, 0xf1, 0xf2} then call_cost (xs ! 2) else 0)"

definition check_of :: "ghost \<Rightarrow> nat \<Rightarrow> int list \<Rightarrow> bool" where
  "check_of g opc xs \<longleftrightarrow> (gh_frozen g \<noteq> None \<longrightarrow>
     (opc \<in> {0xd0, 0xf1} \<longrightarrow> xs ! 2 = 0) \<and> opc \<noteq> 0xf0 \<and> opc \<noteq> 0xf5)"

lemma call_rule_weaken:
  assumes "call_rule g h c k" "\<And>xs. c xs = c' xs" "\<And>xs. k xs \<Longrightarrow> k' xs"
  shows "call_rule g h c' k'"
proof -
  have c: "c = c'" using assms(2) by (rule ext)
  show ?thesis
    unfolding call_rule_def
  proof (intro allI impI)
    fix oc K M p q and fee :: int and S
    assume "0 \<le> fee"
    with assms(1) show "hoare (\<lambda>s. frame_ok g oc K M 0 p s \<and> at q S s) (h fee)
       (\<lambda>x. fee + c' (items S) \<le> x \<and> k' (items S))
       (\<lambda>x s. frame_ok g oc (K + x - fee - c' (items S)) (K - fee - c' (items S)) x p s \<and> at q S s)
       (frame_exit g)"
      unfolding call_rule_def c by (blast intro: hoare_conseq assms(3))
  qed
qed

lemma paid_gas_table:
  assumes "dynamicGasHandlers opc = Some h" "opc \<in> set paid_ops"
  shows "call_rule g (h T) (cost_of opc) (check_of g opc)"
proof -
  note rules = gas_CALL_rule gas_CALLTOKEN_rule gas_CALLCODE_rule gas_DELEGATECALL_rule gas_CREATE_rule gas_CREATE2_rule
  show ?thesis
    using assms
    by (auto simp: dynamicGasHandlers_def paid_ops_def)
      (rule call_rule_weaken, rule rules, auto simp: cost_of_def check_of_def)+
qed

lemma paid_table:
  assumes h: "handlers opc = Some h" and n: "opc \<in> set paid_ops"
    and T: "tvm_ok g T" and rc: "callee_ok (runCall T)"
  shows "paid_rule g (h T) (stipend_of opc) (check_of g opc)"
proof -
  have weaken: "paid_rule g k c a \<Longrightarrow> (\<And>xs. c xs = c' xs) \<Longrightarrow> (\<And>xs. a' xs \<Longrightarrow> a xs) \<Longrightarrow> paid_rule g k c' a'"
    for k c a c' a' by (simp add: paid_rule_def)
  note rules = op_CALL_rule [OF rc tvm_ok_cap [OF T]] op_CALLCODE_rule [OF rc tvm_ok_cap [OF T]]
    op_CALLTOKEN_rule [OF rc tvm_ok_cap [OF T]] op_plain_call_rules [OF rc tvm_ok_cap [OF T]]
  show ?thesis
    using h n
    by (auto simp: handlers_def paid_ops_def alu_handler_def)
      (rule weaken, rule rules, auto simp: stipend_of_def check_of_def)+
qed

text \<open>The jump analysis fills the caches with what the code says.\<close>

lemma frame_analyse:
  assumes "common T = gh_common g"
  shows "hoare (frame_ok g oc K M y p) (analyse T) (\<lambda>_. True) (\<lambda>_. frame_ok g oc K M y p) E"
  unfolding analyse_def
proof (rule hoare_modify_same)
  fix s assume s: "frame_ok g oc K M y p s"
  obtain js ps os where r: "getValidJumpDestinations (common T) (code s) = (js, ps, os)"
    by (cases "getValidJumpDestinations (common T) (code s)")
  have a: "analysed (gh_common g) (gh_code g) (length (gh_code g)) (js, ps, os)"
    using getValidJumpDestinations_analysed [of "common T" "code s"] s r assms by (simp add: frame_ok_def)
  have "is_word (push_value (gh_code g) i)" if "is_push (gh_code g) i" for i
  proof -
    have "length (push_bytes (gh_code g) i (unat (gh_code g ! i))) \<le> 32"
      using that by (auto simp: push_bytes_def is_push_def Let_def split: sum.splits dest: setLengthRight_length)
    then show ?thesis by (simp add: push_value_def is_word_bytes)
  qed
  then have "cache_ok g (s\<lparr>validJumps := js, cachedPushes := ps, cachedOpcodes := Some os, shouldDoJumpAnalysis := False\<rparr>)"
    using a by (auto simp: cache_ok_def analysed_def split: if_splits)
  with s show "frame_ok g oc K M y p (case getValidJumpDestinations (common T) (code s) of (jumps, pushes, ops) \<Rightarrow>
      s\<lparr>validJumps := jumps, cachedPushes := pushes, cachedOpcodes := Some ops, shouldDoJumpAnalysis := False\<rparr>)"
    unfolding r prod.case by (simp add: frame_ok_def gas_ok_def)
qed

definition step_body :: "tvm \<Rightarrow> opcode_info \<Rightarrow> unit rop" where
  "step_body T opInfo =
     bnd (step_fee T opInfo) (\<lambda>gas.
     sq (whenb (oi_isInvalid opInfo) (trap INVALID_OPCODE))
     (sq (useGas gas)
     (bnd (gets shouldDoJumpAnalysis) (\<lambda>todo.
      sq (whenb (todo \<and> (oi_code opInfo = 0x56 \<or> oi_code opInfo = 0x57)) (analyse T))
      (sq (modify (\<lambda>s. s\<lparr>programCounter := programCounter s + 1\<rparr>))
      (dispatch T opInfo))))))"

lemma runStep_body: "runStep T obj s = step_body T (or_else obj (opcodeMap (common T) (opCode s))) s"
  by (simp add: runStep_def step_body_def)

text \<open>From the charge to the dispatch.\<close>

lemma keeps_at: "keeps (at q S) (useGas x)" "keeps (at q S) (analyse T)"
  by (auto simp: keeps_def at_def useGas_def analyse_def Let_def split: prod.splits)

lemma step_charge:
  assumes "0 \<le> x" "common T = gh_common g"
    and A: "keeps A (useGas x)" "keeps A (analyse T)" "\<And>s. A s \<Longrightarrow> B (s\<lparr>programCounter := programCounter s + 1\<rparr>)"
    and k: "hoare (\<lambda>s. frame_ok g oc (K - x) M 0 (q + 1) s \<and> B s) k W Q (frame_exit g)"
  shows "hoare (\<lambda>s. frame_ok g oc K M x q s \<and> A s)
    (sq (useGas x) (bnd (gets shouldDoJumpAnalysis) (\<lambda>todo. sq (whenb (todo \<and> b) (analyse T))
      (sq (modify (\<lambda>s. s\<lparr>programCounter := programCounter s + 1\<rparr>)) k)))) W Q (frame_exit g)"
proof (rule hoare_sq [OF hoare_and_keeps [OF frame_useGas [OF assms(1)] A(1)]])
  let ?P = "\<lambda>s. frame_ok g oc (K - x) M 0 q s \<and> A s"
  have pc: "hoare ?P (sq (modify (\<lambda>s. s\<lparr>programCounter := programCounter s + 1\<rparr>)) k) W Q (frame_exit g)"
  proof (rule hoare_sq [OF hoare_modify])
    fix s assume "?P s"
    then show "frame_ok g oc (K - x) M 0 (q + 1) (s\<lparr>programCounter := programCounter s + 1\<rparr>) \<and>
        B (s\<lparr>programCounter := programCounter s + 1\<rparr>)"
      using A(3) by (auto simp: frame_ok_def gas_ok_def cache_ok_def)
  qed (rule k)
  show "hoare ?P (bnd (gets shouldDoJumpAnalysis) (\<lambda>todo. sq (whenb (todo \<and> b) (analyse T))
      (sq (modify (\<lambda>s. s\<lparr>programCounter := programCounter s + 1\<rparr>)) k))) W Q (frame_exit g)"
    by (rule hoare_bnd [OF hoare_gets], rule hoare_sq, rule hoare_whenb,
        rule hoare_and_keeps [OF frame_analyse [OF assms(2)] A(2)], rule pc)
qed simp

text \<open>A step makes progress.\<close>

definition progress :: "ghost \<Rightarrow> nat \<Rightarrow> int \<Rightarrow> nat \<Rightarrow> run_state \<Rightarrow> bool" where
  "progress g oc K q t \<longleftrightarrow> frame_ok g oc K GAS_CAP 0 (q + 1) t \<or> frame_ok g oc (K - 8) GAS_CAP 0 0 t"

lemma frame_progress: "frame_ok g oc K' M 0 (q + 1) t \<Longrightarrow> K' \<le> K \<Longrightarrow> M \<le> GAS_CAP \<Longrightarrow> progress g oc K q t"
  unfolding progress_def by (rule disjI1, erule frame_ok_mono) simp_all

lemma step_paid:
  assumes T: "tvm_ok g T" and rc: "callee_ok (runCall T)" and K: "K \<le> gh_gas g"
    and i: "\<not> oi_isInvalid i" "oi_dynamicGas i" "oi_code i \<in> set paid_ops" "0 \<le> oi_fee i"
  shows "hoare (\<lambda>s. frame_ok g oc K GAS_CAP 0 q s \<and> at q S s) (step_body T i) (\<lambda>_. True)
    (\<lambda>_. progress g oc K q) (frame_exit g)"
proof -
  let ?opc = "oi_code i" let ?fee = "oi_fee i" let ?c = "cost_of ?opc (items S)"
  let ?b = "stipend_of ?opc (items S)"
  have cb: "?b \<le> ?c" "0 \<le> ?b" by (auto simp: cost_of_def stipend_of_def stipend_cost)
  have cap: "gh_gas g \<le> GAS_CAP" using tvm_ok_cap [OF T] by (simp add: cap_ok_def)
  obtain h where h: "dynamicGasHandlers ?opc = Some h" using i(3) by (auto simp: dynamicGasHandlers_def paid_ops_def)
  obtain k where k: "handlers ?opc = Some k" using i(3) by (auto simp: handlers_def paid_ops_def alu_handler_def)
  have fee: "hoare (\<lambda>s. frame_ok g oc K GAS_CAP 0 q s \<and> at q S s) (step_fee T i)
      (\<lambda>x. ?fee + ?c \<le> x \<and> check_of g ?opc (items S))
      (\<lambda>x s. frame_ok g oc (K + x - ?fee - ?c) (K - ?fee - ?c) x q s \<and> at q S s) (frame_exit g)"
    using paid_gas_table [OF h i(3), of g T] i(2,4) h unfolding call_rule_def step_fee_def by simp
  show ?thesis
    unfolding step_body_def
  proof (rule hoare_bnd [OF fee], elim conjE, rule hoare_guard)
    fix x assume x: "?fee + ?c \<le> x" "check_of g ?opc (items S)"
    let ?K = "K - ?fee - ?c"
    have run: "hoare (\<lambda>s. frame_ok g oc ?K ?K 0 (q + 1) s \<and> stack s = S) (dispatch T i) (\<lambda>_. True)
        (\<lambda>_. frame_ok g oc (?K + ?b) ?K 0 (q + 1)) (frame_exit g)"
      using paid_table [OF k i(3) T rc] x K i(4) cb unfolding paid_rule_def dispatch_def k by simp
    show "hoare (\<lambda>s. frame_ok g oc (K + x - ?fee - ?c) ?K x q s \<and> at q S s)
      (sq (useGas x) (bnd (gets shouldDoJumpAnalysis) (\<lambda>todo.
      sq (whenb (todo \<and> (?opc = 0x56 \<or> ?opc = 0x57)) (analyse T))
      (sq (modify (\<lambda>s. s\<lparr>programCounter := programCounter s + 1\<rparr>)) (dispatch T i))))) (\<lambda>_. True)
      (\<lambda>_. progress g oc K q) (frame_exit g)"
    proof (rule step_charge [where B = "at (q + 1) S"])
      show "0 \<le> x" using x i(4) cb by linarith
      show "common T = gh_common g" using T by (simp add: tvm_ok_def)
      show "hoare (\<lambda>s. frame_ok g oc (K + x - ?fee - ?c - x) ?K 0 (q + 1) s \<and> at (q + 1) S s) (dispatch T i)
        (\<lambda>_. True) (\<lambda>_. progress g oc K q) (frame_exit g)"
      proof (rule hoare_conseq [OF run])
        fix s assume "frame_ok g oc (K + x - ?fee - ?c - x) ?K 0 (q + 1) s \<and> at (q + 1) S s"
        then show "frame_ok g oc ?K ?K 0 (q + 1) s \<and> stack s = S"
          by (auto simp: at_def elim: frame_ok_mono)
      qed (use i(4) cb K cap in \<open>auto intro!: frame_progress\<close>)
    qed (simp_all add: keeps_at, simp add: at_def)
  qed (use i(1) in simp)
qed

text \<open>The fee of the other instructions.\<close>

lemma frame_step_fee:
  assumes i: "oi_code i \<notin> set paid_ops" "0 \<le> oi_fee i"
  shows "hoare (frame_ok g oc K M 0 p) (step_fee T i)
    (\<lambda>x. oi_fee i \<le> x \<and> (oi_dynamicGas i \<longrightarrow> oi_code i \<in> {0x55, 0xff} \<longrightarrow> gh_frozen g = None))
    (\<lambda>x. frame_ok g oc (K + x - oi_fee i) M x p) (frame_exit g)"
proof (cases "oi_dynamicGas i")
  case False
  then show ?thesis
    unfolding step_fee_def by (simp only: if_False) (rule hoare_ret, use i in \<open>auto elim: frame_ok_mono\<close>)
next
  case True
  show ?thesis
  proof (cases "dynamicGasHandlers (oi_code i)")
    case None
    then show ?thesis using True by (auto simp: step_fee_def hoare_def)
  next
    case (Some h)
    with gas_table [OF Some i(1), of g T] i(2) True
    have "hoare (frame_ok g oc K M 0 p) (h T (oi_fee i))
        (\<lambda>x. oi_fee i \<le> x \<and> (oi_code i \<in> {0x55, 0xff} \<longrightarrow> gh_frozen g = None))
        (\<lambda>x. frame_ok g oc (K + x - oi_fee i) M x p) (frame_exit g)"
      unfolding gas_rule_def by blast
    then show ?thesis unfolding step_fee_def Some using True by (simp add: hoare_def) 
  qed
qed

lemma keeps_fixed_fee: "dynamicGasHandlers (oi_code i) = None \<Longrightarrow> keeps A (step_fee T i)"
  by (simp add: keeps_def step_fee_def)

lemma step_plain:
  assumes T: "tvm_ok g T" and K: "K \<le> gh_gas g" and i: "oi_code i \<notin> set paid_ops" "0 \<le> oi_fee i"
    and A: "keeps A (step_fee T i)" "\<And>x. keeps A (useGas x)" "keeps A (analyse T)"
      "\<And>s. A s \<Longrightarrow> B (s\<lparr>programCounter := programCounter s + 1\<rparr>)"
    and run: "\<lbrakk>\<not> oi_isInvalid i; oi_dynamicGas i \<Longrightarrow> oi_code i \<in> {0x55, 0xff} \<Longrightarrow> gh_frozen g = None\<rbrakk> \<Longrightarrow>
      hoare (\<lambda>s. frame_ok g oc (K - oi_fee i) GAS_CAP 0 (q + 1) s \<and> B s) (dispatch T i) (\<lambda>_. True) (\<lambda>_. Q) (frame_exit g)"
  shows "hoare (\<lambda>s. frame_ok g oc K GAS_CAP 0 q s \<and> A s) (step_body T i) (\<lambda>_. True) (\<lambda>_. Q) (frame_exit g)"
  unfolding step_body_def
proof (rule hoare_bnd [OF hoare_and_keeps [OF frame_step_fee [OF i] A(1)]], elim conjE)
  fix x assume x: "oi_fee i \<le> x" "oi_dynamicGas i \<longrightarrow> oi_code i \<in> {0x55, 0xff} \<longrightarrow> gh_frozen g = None"
  have T': "common T = gh_common g" using T by (simp add: tvm_ok_def)
  let ?P = "\<lambda>s. frame_ok g oc (K + x - oi_fee i) GAS_CAP x q s \<and> A s"
  show "hoare ?P (sq (whenb (oi_isInvalid i) (trap INVALID_OPCODE)) (sq (useGas x)
      (bnd (gets shouldDoJumpAnalysis) (\<lambda>todo. sq (whenb (todo \<and> (oi_code i = 0x56 \<or> oi_code i = 0x57)) (analyse T))
      (sq (modify (\<lambda>s. s\<lparr>programCounter := programCounter s + 1\<rparr>)) (dispatch T i)))))) (\<lambda>_. True) (\<lambda>_. Q) (frame_exit g)"
  proof (cases "oi_isInvalid i")
    case True
    then show ?thesis by (auto simp: hoare_def sq_def bnd_def whenb_def trap_def throw_def)
  next
    case False
    have "hoare ?P (sq (useGas x)
      (bnd (gets shouldDoJumpAnalysis) (\<lambda>todo. sq (whenb (todo \<and> (oi_code i = 0x56 \<or> oi_code i = 0x57)) (analyse T))
      (sq (modify (\<lambda>s. s\<lparr>programCounter := programCounter s + 1\<rparr>)) (dispatch T i))))) (\<lambda>_. True) (\<lambda>_. Q) (frame_exit g)"
    proof (rule step_charge [where B = B])
      show "hoare (\<lambda>s. frame_ok g oc (K + x - oi_fee i - x) GAS_CAP 0 (q + 1) s \<and> B s) (dispatch T i)
        (\<lambda>_. True) (\<lambda>_. Q) (frame_exit g)"
        using run [OF False] x(2) by simp
    qed (use x i T' A in auto)
    then show ?thesis using False by (simp add: hoare_def sq_def bnd_def whenb_def)
  qed
qed

lemma step_plain_free:
  assumes T: "tvm_ok g T" and K: "K \<le> gh_gas g" and i: "oi_code i \<notin> set paid_ops" "0 \<le> oi_fee i"
    and run: "\<lbrakk>\<not> oi_isInvalid i; oi_dynamicGas i \<Longrightarrow> oi_code i \<in> {0x55, 0xff} \<Longrightarrow> gh_frozen g = None\<rbrakk> \<Longrightarrow>
      hoare (frame_ok g oc (K - oi_fee i) GAS_CAP 0 (q + 1)) (dispatch T i) (\<lambda>_. True) (\<lambda>_. Q) (frame_exit g)"
  shows "hoare (frame_ok g oc K GAS_CAP 0 q) (step_body T i) (\<lambda>_. True) (\<lambda>_. Q) (frame_exit g)"
  using step_plain [OF T K i, of "\<lambda>_. True" "\<lambda>_. True" oc q Q] run by (simp add: keeps_def)

text \<open>The instructions that are not calls: jumps pay at least 8, the others move forward.\<close>

lemma step_jump:
  assumes T: "tvm_ok g T" and K: "K \<le> gh_gas g" and i: "oi_code i = 0x56 \<or> oi_code i = 0x57" "8 \<le> oi_fee i"
  shows "hoare (frame_ok g oc K GAS_CAP 0 q) (step_body T i) (\<lambda>_. True) (\<lambda>_. progress g oc K q) (frame_exit g)"
proof -
  have "hoare (frame_ok g oc (K - oi_fee i) GAS_CAP 0 (q + 1)) (dispatch T i) (\<lambda>_. True)
      (\<lambda>_. frame_ok g oc (K - oi_fee i) GAS_CAP 0 0) (frame_exit g)"
    using i(1)
  proof
    assume "oi_code i = 0x56"
    then have "dispatch T i = op_JUMP T" by (simp add: dispatch_def handlers_def alu_handler_def)
    then show ?thesis using op_JUMP_rule by metis
  next
    assume "oi_code i = 0x57"
    then have "dispatch T i = op_JUMPI T" by (simp add: dispatch_def handlers_def alu_handler_def)
    then show ?thesis using op_JUMPI_rule by metis
  qed
  then have "hoare (frame_ok g oc (K - oi_fee i) GAS_CAP 0 (q + 1)) (dispatch T i) (\<lambda>_. True)
      (\<lambda>_. progress g oc K q) (frame_exit g)"
    by (rule hoare_conseq) (use i(2) frame_ok_mono [of g oc "K - oi_fee i" GAS_CAP 0 0 _ "K - 8"] in \<open>auto simp: progress_def\<close>)
  then show ?thesis by (intro step_plain_free [OF T K]) (use i in \<open>auto simp: paid_ops_def\<close>)
qed

lemma step_pc:
  assumes T: "tvm_ok g T" and K: "K \<le> gh_gas g" and q: "q < length (gh_code g)" and i: "oi_code i = 0x58" "0 \<le> oi_fee i"
  shows "hoare (\<lambda>s. frame_ok g oc K GAS_CAP 0 q s \<and> at q S s) (step_body T i) (\<lambda>_. True)
    (\<lambda>_. progress g oc K q) (frame_exit g)"
proof (rule step_plain [OF T K, where B = "at (q + 1) S"])
  have "hoare (\<lambda>s. frame_ok g oc (K - oi_fee i) GAS_CAP 0 (q + 1) s \<and> programCounter s \<le> length (gh_code g))
      (dispatch T i) (\<lambda>_. True) (\<lambda>_. frame_ok g oc (K - oi_fee i) GAS_CAP 0 (q + 1)) (frame_exit g)"
    using op_PC_rule [OF tvm_ok_cap [OF T], of "q + 1"] i(1) by (simp add: dispatch_def handlers_def alu_handler_def)
  then show "hoare (\<lambda>s. frame_ok g oc (K - oi_fee i) GAS_CAP 0 (q + 1) s \<and> at (q + 1) S s)
      (dispatch T i) (\<lambda>_. True) (\<lambda>_. progress g oc K q) (frame_exit g)"
    by (rule hoare_conseq) (use q i(2) in \<open>auto simp: at_def intro: frame_progress\<close>)
qed (use i in \<open>simp_all add: paid_ops_def keeps_at keeps_fixed_fee dynamicGasHandlers_def\<close>, simp add: at_def)

lemma step_forward:
  assumes T: "tvm_ok g T" and K: "K \<le> gh_gas g" and i: "oi_code i \<notin> set paid_ops" "0 \<le> oi_fee i"
    and n: "oi_code i \<notin> {0x56, 0x57, 0x58}" and oc: "oc = oi_code i"
    and dyn: "oi_code i \<in> {0x55, 0xff} \<Longrightarrow> oi_dynamicGas i"
  shows "hoare (frame_ok g oc K GAS_CAP 0 q) (step_body T i) (\<lambda>_. True) (\<lambda>_. progress g oc K q) (frame_exit g)"
proof -
  have cap: "gh_gas g \<le> GAS_CAP" using tvm_ok_cap [OF T] by (simp add: cap_ok_def)
  have "hoare (frame_ok g oc (K - oi_fee i) GAS_CAP 0 (q + 1)) (dispatch T i) (\<lambda>_. True)
      (\<lambda>_. progress g oc K q) (frame_exit g)"
    if w: "oi_dynamicGas i \<Longrightarrow> oi_code i \<in> {0x55, 0xff} \<Longrightarrow> gh_frozen g = None"
  proof (cases "handlers (oi_code i)")
    case None
    then show ?thesis by (auto simp: dispatch_def hoare_def)
  next
    case (Some h)
    then have "op_rule g oc (h T)" using handler_table [OF Some i(1) _ _ _ _ T] n w dyn oc by simp
    then have "hoare (frame_ok g oc (K - oi_fee i) GAS_CAP 0 (q + 1)) (dispatch T i) (\<lambda>_. True)
      (\<lambda>_. frame_ok g oc (K - oi_fee i) GAS_CAP 0 (q + 1)) (frame_exit g)"
      using K cap i(2) Some by (simp add: op_rule_def dispatch_def)
    then show ?thesis by (rule hoare_conseq) (use i(2) in \<open>auto intro: frame_progress\<close>)
  qed
  note run = this
  show ?thesis by (rule step_plain_free [OF T K i], rule run) blast
qed

text \<open>One step of a frame, whatever the opcode.\<close>

lemma step_ok:
  assumes T: "tvm_ok g T" and rc: "callee_ok (runCall T)" and K: "K \<le> gh_gas g" and q: "q < length (gh_code g)"
    and i: "i = opcodeMap (gh_common g) b" and oc: "oc = oi_code i \<or> oc = b"
  shows "hoare (\<lambda>s. frame_ok g oc K GAS_CAP 0 q s \<and> at q S s) (step_body T i) (\<lambda>_. True)
    (\<lambda>_. progress g oc K q) (frame_exit g)"
proof -
  have fee: "0 \<le> oi_fee i" unfolding i by (rule oi_fee_nonneg)
  have cap: "gh_gas g \<le> GAS_CAP" using tvm_ok_cap [OF T] by (simp add: cap_ok_def)
  note facts = opcodeMap_facts [of "gh_common g" b, folded i]
  have weak: "hoare (frame_ok g oc K GAS_CAP 0 q) (step_body T i) V Q E \<Longrightarrow>
      hoare (\<lambda>s. frame_ok g oc K GAS_CAP 0 q s \<and> at q S s) (step_body T i) V Q E" for V Q E
    by (simp add: hoare_def)
  show ?thesis
  proof (cases "oi_isInvalid i")
    case True
    then have "oi_code i \<notin> set paid_ops" using opcodeMap_invalid [of "gh_common g" b] by (simp add: i paid_ops_def)
    then show ?thesis by (intro weak step_plain_free [OF T K _ fee]) (use True in simp_all)
  next
    case False
    then have c: "oi_code i = b" "oc = b" using facts(1) oc by auto
    show ?thesis
    proof (cases "b \<in> set paid_ops")
      case True
      then have "oi_dynamicGas i" by (intro facts(2) [OF False]) (auto simp: paid_ops_def guarded_ops_def)
      with step_paid [OF T rc K False] True c fee show ?thesis by simp
    next
      case no: False
      have dyn: "b \<in> {0x55, 0xff} \<Longrightarrow> oi_dynamicGas i" by (intro facts(2) [OF False]) (auto simp: guarded_ops_def)
      consider "b = 0x56 \<or> b = 0x57" | "b = 0x58" | "b \<notin> {0x56, 0x57, 0x58}" by blast
      then show ?thesis
      proof cases
        case 1
        with step_jump [OF T K] facts(3) [OF False] c show ?thesis by (intro weak) simp
      next
        case 2
        with step_pc [OF T K q] c fee show ?thesis by simp
      next
        case 3
        with step_forward [OF T K _ fee, of oc] no dyn c show ?thesis by (intro weak) simp
      qed
    qed
  qed
qed

end
