(* ===== verification/RunOk.thy ===== *)
theory RunOk
  imports StepOk
begin

text \<open>
  The interpreter loop: a step keeps the frame invariant and consumes a potential built from the
  gas bound and the position in the code, so the loop ends within its fuel, and every way it can
  end leaves the frame in a state its message can settle.
\<close>

section \<open>Fetching\<close>

lemma fetch_ok:
  assumes s: "frame_ok g oc K M y q s" and q: "q = programCounter s" "q < length (gh_code g)"
  shows "case fetch s of
      (Inl e, t) \<Rightarrow> frame_exit g e t
    | (Inr obj, t) \<Rightarrow> frame_ok g (opCode t) K M y q t \<and> at q (stack s) t \<and>
        (\<exists>b. or_else obj (opcodeMap (gh_common g) (opCode t)) = opcodeMap (gh_common g) b \<and>
             (opCode t = oi_code (opcodeMap (gh_common g) b) \<or> opCode t = b))"
proof (cases "cachedOpcodes s")
  case None
  then show ?thesis
    using s q by (auto simp: fetch_def frame_ok_def gas_ok_def cache_ok_def at_def or_else_def)
next
  case (Some ops)
  show ?thesis
  proof (cases "ops ! programCounter s")
    case None
    then show ?thesis using s Some by (auto simp: fetch_def)
  next
    case (Some info)
    then have "info = opcodeMap (gh_common g) (unat (gh_code g ! q))"
      using \<open>cachedOpcodes s = Some ops\<close> s q by (auto simp: frame_ok_def cache_ok_def)
    then have "fetch s = (Inr (Some info), s\<lparr>opCode := oi_code info\<rparr>)"
      "or_else (Some info) (opcodeMap (gh_common g) (oi_code info)) = opcodeMap (gh_common g) (unat (gh_code g ! q))"
      "oi_code info = oi_code (opcodeMap (gh_common g) (unat (gh_code g ! q)))"
      using Some \<open>cachedOpcodes s = Some ops\<close> by (simp_all add: fetch_def or_else_def)
    moreover have "frame_ok g (oi_code info) K M y q (s\<lparr>opCode := oi_code info\<rparr>)" "at q (stack s) (s\<lparr>opCode := oi_code info\<rparr>)"
      using s q by (auto simp: frame_ok_def gas_ok_def cache_ok_def at_def)
    ultimately show ?thesis by auto
  qed
qed

lemma loop_step:
  assumes T: "tvm_ok g T" "callee_ok (runCall T)" and K: "K \<le> gh_gas g"
    and s: "frame_ok g oc K GAS_CAP 0 q s" "q \<le> programCounter s" "programCounter s < length (gh_code g)"
  shows "case bnd fetch (runStep T) s of
      (Inl e, t) \<Rightarrow> frame_exit g e t
    | (Inr _, t) \<Rightarrow> (\<exists>oc'. progress g oc' K (programCounter s) t)"
proof -
  have s': "frame_ok g oc K GAS_CAP 0 (programCounter s) s" using s(1) by (simp add: frame_ok_def)
  obtain r t where f: "fetch s = (r, t)" by fastforce
  show ?thesis
  proof (cases r)
    case (Inl e)
    then show ?thesis using fetch_ok [OF s' refl s(3)] f by (simp add: bnd_def)
  next
    case (Inr obj)
    then obtain b where t: "frame_ok g (opCode t) K GAS_CAP 0 (programCounter s) t" "at (programCounter s) (stack s) t"
      and b: "or_else obj (opcodeMap (gh_common g) (opCode t)) = opcodeMap (gh_common g) b"
        "opCode t = oi_code (opcodeMap (gh_common g) b) \<or> opCode t = b"
      using fetch_ok [OF s' refl s(3)] f by auto
    have c: "common T = gh_common g" using T by (simp add: tvm_ok_def)
    have "bnd fetch (runStep T) s = step_body T (opcodeMap (gh_common g) b) t"
      using f Inr b(1) by (simp add: bnd_def runStep_body c)
    then show ?thesis
      using step_ok [OF T K s(3) refl b(2), of "stack s"] t
      by (auto simp: hoare_def split: prod.splits sum.splits)
  qed
qed

section \<open>The loop ends\<close>

text \<open>What a run leaves behind, by its outcome.\<close>

definition ending :: "exn + tvm_error option \<Rightarrow> exn" where
  "ending r = (case r of Inl e \<Rightarrow> e | Inr None \<Rightarrow> TvmError STOP | Inr (Some e) \<Rightarrow> TvmError e)"

definition run_ok :: "ghost \<Rightarrow> exn + tvm_error option \<Rightarrow> run_state \<Rightarrow> bool" where
  "run_ok g r t \<longleftrightarrow> frame_exit g (ending r) t \<and> r \<noteq> Inr (Some STOP) \<and> (\<forall>e. r \<noteq> Inl (TvmError e))"

text \<open>The potential of a frame.\<close>

definition potential :: "nat \<Rightarrow> int \<Rightarrow> nat \<Rightarrow> nat" where
  "potential n K q = nat K * (n + 1) + (n - q)"

lemma potential_step: "q < n \<Longrightarrow> potential n K (q + 1) < potential n K q"
  by (simp add: potential_def)

lemma potential_jump: "q < n \<Longrightarrow> 8 \<le> K \<Longrightarrow> potential n (K - 8) 0 < potential n K q"
proof -
  assume "q < n" "8 \<le> K"
  then have "nat K = 8 + nat (K - 8)" by simp
  with \<open>q < n\<close> show ?thesis unfolding potential_def by (simp add: algebra_simps)
qed

lemma potential_mono: "q \<le> p \<Longrightarrow> potential n K p \<le> potential n K q"
  by (simp add: potential_def)

lemma frame_gas_bound: "frame_ok g oc K M y p s \<Longrightarrow> 0 \<le> K"
  using mem_cost_nonneg [of "memoryWordCount s"] by (auto simp: frame_ok_def gas_ok_def)

lemma run_loop_ends:
  assumes T: "tvm_ok g T" "callee_ok (runCall T)"
  shows "\<lbrakk>frame_ok g oc K GAS_CAP 0 q s; K \<le> gh_gas g; potential (length (gh_code g)) K q < n\<rbrakk> \<Longrightarrow>
    \<exists>r t. run_loop n T s = Some (r, t) \<and> run_ok g r t"
proof (induction n arbitrary: oc K q s)
  case (Suc n)
  have c: "code s = gh_code g" "q \<le> programCounter s" using Suc.prems(1) by (simp_all add: frame_ok_def)
  show ?case
  proof (cases "programCounter s < length (gh_code g)")
    case False
    then show ?thesis using Suc.prems(1) c frame_ok_exit [OF Suc.prems(1), of "TvmError STOP"]
      by (simp add: run_ok_def ending_def)
  next
    case True
    let ?pc = "programCounter s" and ?n = "length (gh_code g)"
    have pot: "potential ?n K ?pc \<le> n"
      using potential_mono [OF c(2), of ?n K] Suc.prems(3) by simp
    note step = loop_step [OF T Suc.prems(2,1) c(2) True]
    obtain r t where b: "bnd fetch (runStep T) s = (r, t)" by fastforce
    show ?thesis
    proof (cases r)
      case (Inl e)
      with step b have "frame_exit g e t" by simp
      with Inl b True c show ?thesis by (cases e) (auto simp: run_ok_def ending_def)
    next
      case (Inr u)
      with step b obtain oc' where p: "progress g oc' K ?pc t" by auto
      have "\<exists>r t'. run_loop n T t = Some (r, t') \<and> run_ok g r t'"
        using p unfolding progress_def
      proof
        assume t: "frame_ok g oc' K GAS_CAP 0 (?pc + 1) t"
        show ?thesis
          using potential_step [OF True, of K] pot by (intro Suc.IH [OF t Suc.prems(2)]) simp
      next
        assume t: "frame_ok g oc' (K - 8) GAS_CAP 0 0 t"
        have "8 \<le> K" using frame_gas_bound [OF t] by simp
        then show ?thesis
          using potential_jump [OF True, of K] pot Suc.prems(2) by (intro Suc.IH [OF t]) simp_all
      qed
      with Inr b True c show ?thesis by simp
    qed
  qed
qed simp

end
