(* ===== verification/Tvm.thy ===== *)
theory Tvm
  imports Interpreter
begin

text \<open>
  Message execution, \<^verbatim>\<open>packages/tvm/src/tvm.ts\<close>: value transfers, calls, contract creation, the
  checkpoints around a message and the public entry point. Precompiles, the hash function and
  the blockchain are parameters. A nested message is run by the same function one level below;
  the call-depth limit bounds the nesting. Event emission, the profiler and debug output have no
  effect on the state and are left out, as are the branches of inactive EIPs.
\<close>

section \<open>Instance\<close>

record host =
  h_common :: common
  h_keccak :: "bytes \<Rightarrow> bytes"
  h_chainId :: int
  h_blockHash :: "int \<Rightarrow> exn + bytes"
  h_precompile :: "address \<Rightarrow> (bytes \<Rightarrow> int \<Rightarrow> (world, exec_result) op) option"
  h_block :: block
  h_gasPrice :: int
  h_origin :: address

section \<open>Contract addresses\<close>

definition low20 :: "bytes \<Rightarrow> address" where
  "low20 h = word_of_int (bytesToBigInt (drop (length h - 20) h))"

definition nonce_bytes :: "int \<Rightarrow> bytes" where
  "nonce_bytes n = rev (map (\<lambda>i. word_of_int (js_shr n (8 * int i) AND 0xff)) [0..<8])"

definition generateTronCreateAddress :: "(bytes \<Rightarrow> bytes) \<Rightarrow> bytes \<Rightarrow> int \<Rightarrow> exn + address" where
  "generateTronCreateAddress kec txid n =
     (if length txid \<noteq> 32 then Inl (HostError ''Expected rootTransactionId to be of length 32'')
      else if n < 0 \<or> n > MAX_UINT64 then Inl (HostError ''Expected nonce to fit in an unsigned 64-bit integer'')
      else Inr (low20 (kec (txid @ nonce_bytes n))))"

definition generateTronContractAddress :: "(bytes \<Rightarrow> bytes) \<Rightarrow> bytes \<Rightarrow> address \<Rightarrow> exn + address" where
  "generateTronContractAddress kec txid owner =
     (if length txid \<noteq> 32 then Inl (HostError ''Expected transactionId to be of length 32'')
      else Inr (low20 (kec (txid @ 0x41 # addr_bytes owner))))"

definition generateTronAddress2 :: "(bytes \<Rightarrow> bytes) \<Rightarrow> address \<Rightarrow> bytes \<Rightarrow> bytes \<Rightarrow> exn + address" where
  "generateTronAddress2 kec from salt initCode =
     (if length salt \<noteq> 32 then Inl (HostError ''Expected salt to be of length 32'')
      else Inr (low20 (kec (0x41 # addr_bytes from @ salt @ kec initCode))))"

definition code_bytes :: "message \<Rightarrow> bytes" where
  "code_bytes m = (case m_code m of Some (Bytecode b) \<Rightarrow> b | _ \<Rightarrow> [])"

definition generateAddress :: "host \<Rightarrow> message \<Rightarrow> (world, address) op" where
  "generateAddress H m =
     (case m_salt m of
        Some salt \<Rightarrow> lift_sum (generateTronAddress2 (h_keccak H) (m_caller m) salt (code_bytes m))
      | None \<Rightarrow> bnd (gets w_tron) (\<lambda>ctx. case ctx of
          None \<Rightarrow> throw (HostError ''rootTransactionId is required for TRON address derivation'')
        | Some c \<Rightarrow> lift_sum
            (if m_depth m = 0 then generateTronContractAddress (h_keccak H) (rootTransactionId c) (m_caller m)
             else generateTronCreateAddress (h_keccak H) (rootTransactionId c) (ctx_nonce c))))"

section \<open>Value transfers\<close>

text \<open>
  The methods mutate the account they are given; here they return it. When they raise, the
  mutated object is in a layer of the state manager that the failing message reverts.
\<close>

definition reduceSenderBalance :: "account \<Rightarrow> message \<Rightarrow> (world, account) op" where
  "reduceSenderBalance acc m =
     (let acc' = acc\<lparr>balance := balance acc - m_value m\<rparr>
      in if balance acc' < 0 then trap INSUFFICIENT_BALANCE
         else sq (journal_putAccount (m_caller m) (Some acc')) (ret acc'))"

definition reduceSenderTokenBalance :: "account \<Rightarrow> message \<Rightarrow> (world, account) op" where
  "reduceSenderTokenBalance acc m =
     (if m_tokenValue m = 0 then ret acc
      else let newBalance = getTokenBalance acc (m_tokenId m) - m_tokenValue m
           in if newBalance < 0 then trap INSUFFICIENT_TOKEN_BALANCE
              else let acc' = (if m_tokenId m \<noteq> 0 then set_token (m_tokenId m) newBalance acc else acc)
                   in sq (journal_putAccount (m_caller m) (Some acc')) (ret acc'))"

definition addToBalance :: "address \<Rightarrow> account \<Rightarrow> message \<Rightarrow> (world, account) op" where
  "addToBalance to acc m =
     (let newBalance = balance acc + m_value m
      in if newBalance > MAX_INTEGER_BIGINT then trap VALUE_OVERFLOW
         else let acc' = acc\<lparr>balance := newBalance\<rparr>
              in sq (journal_putAccount to (Some acc')) (ret acc'))"

definition addToTokenBalance :: "address \<Rightarrow> account \<Rightarrow> message \<Rightarrow> (world, account) op" where
  "addToTokenBalance to acc m =
     (if m_tokenValue m = 0 then ret acc
      else let newBalance = getTokenBalance acc (m_tokenId m) + m_tokenValue m
           in if newBalance > MAX_INT64 then trap VALUE_OVERFLOW
              else let acc' = (if m_tokenId m \<noteq> 0 then set_token (m_tokenId m) newBalance acc else acc)
                   in sq (journal_putAccount to (Some acc')) (ret acc'))"

text \<open>A \<^verbatim>\<open>try\<close> block that keeps the exception.\<close>

definition try_op :: "('s, 'a) op \<Rightarrow> ('s, exn option) op" where
  "try_op m s = (case m s of (Inl e, t) \<Rightarrow> (Inr (Some e), t) | (Inr _, t) \<Rightarrow> (Inr None, t))"

definition sender_side :: "message \<Rightarrow> account \<Rightarrow> (world, account) op" where
  "sender_side m acc = bnd (reduceSenderBalance acc m) (\<lambda>a. reduceSenderTokenBalance a m)"

definition receiver_side :: "address \<Rightarrow> message \<Rightarrow> account \<Rightarrow> (world, account) op" where
  "receiver_side to m acc = bnd (addToBalance to acc m) (\<lambda>a. addToTokenBalance to a m)"

definition load_account :: "address \<Rightarrow> (world, account) op" where
  "load_account a = gets (\<lambda>w. or_else (getAccount a (w_sm w)) new_account)"

section \<open>Results\<close>

definition OOGResult :: "int \<Rightarrow> exec_result \<Rightarrow> exec_result" where
  "OOGResult gasLimit r = r\<lparr>x_returnValue := [], x_executionGasUsed := gasLimit,
     x_exceptionError := Some (TvmError OUT_OF_GAS)\<rparr>"

definition INVALID_BYTECODE_RESULT_of :: "int \<Rightarrow> exec_result \<Rightarrow> exec_result" where
  "INVALID_BYTECODE_RESULT_of gasLimit r = r\<lparr>x_returnValue := [], x_executionGasUsed := gasLimit,
     x_exceptionError := Some (TvmError INVALID_BYTECODE_RESULT)\<rparr>"

definition mk_result :: "message \<Rightarrow> address option \<Rightarrow> exec_result \<Rightarrow> tvm_result" where
  "mk_result m created r = \<lparr>createdAddress = created, execResult = r,
     msg_selfdestruct = or_else (m_selfdestruct m) Map.empty,
     msg_created = or_else (m_createdAddresses m) {}\<rparr>"

section \<open>Running bytecode\<close>

definition interp_tvm :: "host \<Rightarrow> (message \<Rightarrow> (world, tvm_result) op) \<Rightarrow> tvm" where
  "interp_tvm H rc = \<lparr>common = h_common H, keccak = h_keccak H, chainId = h_chainId H,
     blockHash = h_blockHash H, runCall = rc\<rparr>"

definition mk_env :: "host \<Rightarrow> message \<Rightarrow> world \<Rightarrow> env" where
  "mk_env H m w =
     (let addr = or_else (m_to m) 0
      in \<lparr>e_address = addr, e_caller = m_caller m, e_callData = m_data m, e_callValue = m_value m,
          e_callTokenId = m_tokenId m, e_callTokenValue = m_tokenValue m, e_code = code_bytes m,
          e_isStatic = m_isStatic m, e_isCreate = m_isCreate m, e_depth = m_depth m,
          e_gasPrice = h_gasPrice H, e_origin = h_origin H, e_block = h_block H,
          e_contract = or_else (getAccount addr (w_sm w)) new_account,
          e_codeAddress = or_else (m_codeAddress m) addr, e_gasRefund = m_gasRefund m\<rparr>)"

definition frame_result :: "message \<Rightarrow> tvm_error option \<Rightarrow> run_state \<Rightarrow> exec_result" where
  "frame_result m err t =
     (let gasUsed = (case err of
            Some e \<Rightarrow> if e \<noteq> REVERT \<and> e \<noteq> INVALID_EOF_FORMAT then m_gasLimit m else m_gasLimit m - gasLeft t
          | None \<Rightarrow> m_gasLimit m - gasLeft t)
      in \<lparr>x_logs = (if err = None then logs t else []), x_returnValue = or_else (returnValue t) [],
          x_selfdestruct = (if err = None then selfdestruct t else Map.empty),
          x_createdAddresses = (if err = None then createdAddresses t else {}),
          x_executionGasUsed = gasUsed, x_gasRefund = Some (gasRefund t),
          x_exceptionError = map_option TvmError err\<rparr>)"

definition runInterpreter ::
  "host \<Rightarrow> (message \<Rightarrow> (world, tvm_result) op) \<Rightarrow> message \<Rightarrow> nat option \<Rightarrow>
   (world, exec_result \<times> (address \<rightharpoonup> address) \<times> address set) op" where
  "runInterpreter H rc m pc w =
     (let s0 = (new_run_state (mk_env H m w) (m_gasLimit m) w)\<lparr>
            selfdestruct := or_else (m_selfdestruct m) Map.empty,
            createdAddresses := or_else (m_createdAddresses m) {}\<rparr>
      in case interp_run (interp_tvm H rc) (code_bytes m) pc s0 of
           None \<Rightarrow> throw (HostError ''interpreter does not terminate'') w
         | Some (Inl e, t) \<Rightarrow> (Inl e, world t)
         | Some (Inr err, t) \<Rightarrow> (Inr (frame_result m err t, selfdestruct t, createdAddresses t), world t))"

definition postMessageCleanup :: "message \<Rightarrow> (world, unit) op" where
  "postMessageCleanup m =
     whenb (m_depth m = 0) (modify (\<lambda>w. w\<lparr>w_ts := transient_clear (w_ts w)\<rparr>))"

section \<open>Calls\<close>

definition loadCode :: "host \<Rightarrow> message \<Rightarrow> (world, message) op" where
  "loadCode H m =
     (if m_code m \<noteq> None then ret m
      else bnd (lift_sum (codeAddress m)) (\<lambda>a.
           if h_precompile H a \<noteq> None then ret (m\<lparr>m_code := Some (PrecompileAt a), m_isCompiled := True\<rparr>)
           else bnd (gets (\<lambda>w. getCode a (w_sm w))) (\<lambda>c.
                ret (m\<lparr>m_code := Some (Bytecode c), m_isCompiled := False\<rparr>))))"

definition runPrecompile :: "host \<Rightarrow> message \<Rightarrow> (world, exec_result) op" where
  "runPrecompile H m =
     (case m_code m of
        Some (PrecompileAt a) \<Rightarrow> (case h_precompile H a of
            Some f \<Rightarrow> f (m_data m) (m_gasLimit m)
          | None \<Rightarrow> throw (HostError ''Invalid precompile''))
      | _ \<Rightarrow> throw (HostError ''Invalid precompile''))"

definition supplied_code :: "message \<Rightarrow> bool" where
  "supplied_code m \<longleftrightarrow> (case m_code m of Some (Bytecode b) \<Rightarrow> b \<noteq> [] | _ \<Rightarrow> False)"

definition no_code :: "message \<Rightarrow> bool" where
  "no_code m \<longleftrightarrow> (case m_code m of None \<Rightarrow> True | Some (Bytecode b) \<Rightarrow> b = [] | Some (PrecompileAt _) \<Rightarrow> False)"

definition later_error :: "exn option \<Rightarrow> exn option \<Rightarrow> exn option" where
  "later_error e1 e2 = (case e2 of None \<Rightarrow> e1 | Some e \<Rightarrow> Some e)"

text \<open>Both sides of the transfer of a call; the error of the last failing side is reported.\<close>

definition transfer :: "address \<Rightarrow> message \<Rightarrow> (world, exn option) op" where
  "transfer to m =
     bnd (load_account (m_caller m)) (\<lambda>acc.
     bnd (if \<not> m_delegatecall m then try_op (sender_side m acc) else ret None) (\<lambda>e1.
     bnd (gets (\<lambda>w. getAccount to (w_sm w))) (\<lambda>toAcc.
     bnd (if \<not> m_delegatecall m \<and>
             (toAcc \<noteq> None \<or> m_value m \<noteq> 0 \<or> m_tokenValue m \<noteq> 0 \<or> supplied_code m)
          then try_op (receiver_side to m (or_else toAcc new_account)) else ret None) (\<lambda>e2.
     ret (later_error e1 e2)))))"

definition executeCall ::
  "host \<Rightarrow> (message \<Rightarrow> (world, tvm_result) op) \<Rightarrow> address \<Rightarrow> message \<Rightarrow> (world, tvm_result) op" where
  "executeCall H rc to m0 =
     bnd (lift_sum (codeAddress m0)) (\<lambda>target.
     sq (modify (mod_jr (addAccessedAddress target)))
     (bnd (transfer to m0) (\<lambda>err.
     bnd (loadCode H m0) (\<lambda>m.
     if no_code m \<or> err \<noteq> None
     then ret (mk_result m None (empty_result\<lparr>x_gasRefund := Some (m_gasRefund m), x_exceptionError := err\<rparr>))
     else if m_isCompiled m
     then bnd (runPrecompile H m) (\<lambda>r.
          sq (postMessageCleanup m)
          (ret (mk_result m None (r\<lparr>x_gasRefund := Some (m_gasRefund m)\<rparr>))))
     else bnd (runInterpreter H rc m None) (\<lambda>(r, sd, cr).
          sq (postMessageCleanup m)
          (ret ((mk_result m None r)\<lparr>msg_selfdestruct := sd, msg_created := cr\<rparr>)))))))"

section \<open>Creation\<close>

text \<open>The charge for the returned code and the checks on it.\<close>

definition deploy_result :: "host \<Rightarrow> message \<Rightarrow> exec_result \<Rightarrow> exec_result" where
  "deploy_result H m r =
     (let totalGas = x_executionGasUsed r +
            (if x_exceptionError r = None
             then int (length (x_returnValue r)) * param (h_common H) ''createDataGas'' else 0)
      in if totalGas \<le> m_gasLimit m
         then (case x_returnValue r of
                 b # _ \<Rightarrow> if b = 0xef then INVALID_BYTECODE_RESULT_of (m_gasLimit m) r
                          else r\<lparr>x_executionGasUsed := totalGas\<rparr>
               | [] \<Rightarrow> r\<lparr>x_executionGasUsed := totalGas\<rparr>)
         else OOGResult (m_gasLimit m) r)"

definition collision :: "account \<Rightarrow> bool" where
  "collision a \<longleftrightarrow> nonce a > 0 \<or> \<not> equalsBytes (codeHash a) KECCAK256_NULL \<or>
     \<not> equalsBytes (storageRoot a) KECCAK256_RLP"

definition bump_internal :: "message \<Rightarrow> (world, unit) op" where
  "bump_internal m = whenb (m_depth m > 0) (modify bump_nonce)"

text \<open>Creation at a fresh address, from the account write to the stored code.\<close>

definition create_at ::
  "host \<Rightarrow> (message \<Rightarrow> (world, tvm_result) op) \<Rightarrow> address \<Rightarrow> message \<Rightarrow> account \<Rightarrow> (world, tvm_result) op" where
  "create_at H rc to m toAcc0 =
     sq (journal_putAccount to (Some toAcc0))
     (sq (modify (mod_sm clearStorage))
     (bnd (load_account to) (\<lambda>acc.
      bnd (try_op (receiver_side to m (acc\<lparr>nonce := nonce acc + 1\<rparr>))) (\<lambda>err.
      if no_code m \<or> err \<noteq> None
      then ret (mk_result m (Some to) (empty_result\<lparr>x_gasRefund := Some (m_gasRefund m), x_exceptionError := err\<rparr>))
      else bnd (runInterpreter H rc (m\<lparr>m_isCreate := True\<rparr>) None) (\<lambda>(r0, sd, cr).
        let r = deploy_result H m r0
        in sq (whenb (x_exceptionError r = None \<and> x_returnValue r \<noteq> [])
                (modify (mod_sm (putCode (h_keccak H) to (x_returnValue r)))))
           (sq (postMessageCleanup m)
           (ret ((mk_result m (Some to) r)\<lparr>msg_selfdestruct := sd, msg_created := cr\<rparr>))))))))"

definition executeCreate ::
  "host \<Rightarrow> (message \<Rightarrow> (world, tvm_result) op) \<Rightarrow> message \<Rightarrow> (world, tvm_result) op" where
  "executeCreate H rc m0 =
     (case m_createdAddresses m0 of
        None \<Rightarrow> throw (HostError ''createdAddresses must be initialized when EIP-6780 is active'')
      | Some created \<Rightarrow>
          bnd (load_account (m_caller m0)) (\<lambda>acc.
          bnd (sender_side m0 acc) (\<lambda>_.
          let m1 = m0\<lparr>m_code := Some (Bytecode (m_data m0)), m_data := []\<rparr> in
          bnd (generateAddress H m1) (\<lambda>to.
          sq (modify (mod_jr (addAccessedAddress to)))
          (let m = m1\<lparr>m_to := Some to, m_createdAddresses := Some (insert to created)\<rparr> in
          bnd (load_account to) (\<lambda>toAcc.
          sq (bump_internal m)
          (if collision toAcc
           then ret (mk_result m (Some to) (empty_result\<lparr>x_executionGasUsed := m_gasLimit m,
                  x_exceptionError := Some (TvmError CREATE_COLLISION)\<rparr>))
           else create_at H rc to m toAcc)))))))"

section \<open>Messages\<close>

text \<open>A failed frame loses its logs, refund and self-destructs.\<close>

definition clear_failed :: "tvm_result \<Rightarrow> tvm_result" where
  "clear_failed r = r\<lparr>execResult := (execResult r)\<lparr>x_selfdestruct := Map.empty,
     x_createdAddresses := {}, x_gasRefund := Some 0, x_logs := []\<rparr>\<rparr>"

definition execute ::
  "host \<Rightarrow> (message \<Rightarrow> (world, tvm_result) op) \<Rightarrow> message \<Rightarrow> (world, tvm_result) op" where
  "execute H rc m = (case m_to m of Some to \<Rightarrow> executeCall H rc to m | None \<Rightarrow> executeCreate H rc m)"

text \<open>Undo on an exception, then throw it again.\<close>

definition on_throw :: "('s, 'a) op \<Rightarrow> ('s, unit) op \<Rightarrow> ('s, 'a) op" where
  "on_throw m h s = (case m s of (Inl e, t) \<Rightarrow> sq h (throw e) t | (Inr x, t) \<Rightarrow> (Inr x, t))"

text \<open>The execution checkpoint: commit on success, revert and clear on a TVM error.\<close>

definition settle :: "tvm_result \<Rightarrow> (world, tvm_result) op" where
  "settle r =
     (if x_exceptionError (execResult r) \<noteq> None
      then sq tvm_revert (ret (clear_failed r))
      else sq tvm_commit (ret r))"

text \<open>The writes before execution: funding the sender on request, and the nonce of the sender.\<close>

definition prepare_sender :: "bool \<Rightarrow> message \<Rightarrow> (world, unit) op" where
  "prepare_sender skipBalance m =
     bnd (load_account (m_caller m)) (\<lambda>acc0.
     let fund = skipBalance \<and> balance acc0 < m_value m;
         acc = (if fund then acc0\<lparr>balance := m_value m\<rparr> else acc0)
     in sq (whenb fund (journal_putAccount (m_caller m) (Some acc)))
        (whenb (m_depth m = 0) (journal_putAccount (m_caller m) (Some (acc\<lparr>nonce := nonce acc + 1\<rparr>)))))"

definition runCall_body ::
  "host \<Rightarrow> (message \<Rightarrow> (world, tvm_result) op) \<Rightarrow> bool \<Rightarrow> message \<Rightarrow> (world, tvm_result) op" where
  "runCall_body H rc skipBalance m =
     bnd (gets w_tron) (\<lambda>ctx.
     sq (whenb (m_depth m = 0 \<and> m_to m = None \<and> m_salt m = None \<and> ctx = None)
          (throw (HostError ''rootTransactionId is required for TRON contract deployment address derivation'')))
     (sq tvm_checkpoint
     (bnd (on_throw
            (sq (prepare_sender skipBalance m)
            (sq tvm_checkpoint
            (on_throw (bnd (execute H rc m) settle) tvm_revert)))
            tvm_revert) (\<lambda>r.
     sq tvm_commit (ret r)))))"

text \<open>Nested messages, by the number of levels still available.\<close>

fun run_message :: "nat \<Rightarrow> host \<Rightarrow> message \<Rightarrow> (world, tvm_result) op" where
  "run_message 0 H m = throw (HostError ''call depth exceeded'')"
| "run_message (Suc n) H m = runCall_body H (run_message n H) False m"

text \<open>The depth limit of 64 leaves at most 65 nested levels below a top-level message.\<close>

definition levels :: nat where
  "levels = 66"

definition set_context :: "bytes option \<Rightarrow> (world, unit) op" where
  "set_context txid = (case txid of
     None \<Rightarrow> modify (\<lambda>w. w\<lparr>w_tron := None\<rparr>)
   | Some t \<Rightarrow> bnd (lift_sum (createTronTransactionContext t)) (\<lambda>c. modify (\<lambda>w. w\<lparr>w_tron := Some c\<rparr>)))"

text \<open>
  The public entry point for a top-level message: the transaction-level fields of the message
  are reset, and the written-slot marks are cleared before and after.
\<close>

definition tvm_runCall :: "host \<Rightarrow> bool \<Rightarrow> bytes option \<Rightarrow> message \<Rightarrow> (world, tvm_result) op" where
  "tvm_runCall H skipBalance txid m0 w0 =
     (let m = m0\<lparr>m_depth := 0, m_selfdestruct := Some Map.empty, m_createdAddresses := Some {}, m_gasRefund := 0\<rparr>;
          w1 = mod_jr clearStorageWrites w0
      in case sq (set_context txid) (runCall_body H (run_message levels H) skipBalance m) w1 of
           (r, w2) \<Rightarrow> (r, mod_jr clearStorageWrites w2))"

end
