(* ===== verification/MessageOk.thy ===== *)
theory MessageOk
  imports RunOk Tvm
begin

text \<open>
  Messages: the transfer of value, the run of a frame's code, creation and the two checkpoints of
  a message keep the invariant of the world, by induction over the nesting of messages.
\<close>

section \<open>The host\<close>

text \<open>
  What is assumed of the code outside the model: hashes are 32 bytes, block hashes at most 32, the
  numbers of the block and the transaction are words, and a precompile reads the state without
  changing it, uses between nothing and all of its gas and never signals STOP.
\<close>

definition precompile_ok :: "(bytes \<Rightarrow> int \<Rightarrow> (world, exec_result) op) \<Rightarrow> bool" where
  "precompile_ok f \<longleftrightarrow> (\<forall>d gas w. 0 \<le> gas \<longrightarrow> (case f d gas w of
       (Inl e, w') \<Rightarrow> w' = w \<and> e \<noteq> TvmError STOP
     | (Inr r, w') \<Rightarrow> w' = w \<and> 0 \<le> x_executionGasUsed r \<and> x_executionGasUsed r \<le> gas \<and>
                     bytes_ok (x_returnValue r)))"

definition host_ok :: "host \<Rightarrow> bool" where
  "host_ok H \<longleftrightarrow> (\<forall>b. length (h_keccak H b) = 32) \<and> (\<forall>n h. h_blockHash H n = Inr h \<longrightarrow> length h \<le> 32) \<and>
     is_word (h_chainId H) \<and> is_word (h_gasPrice H) \<and> block_ok (h_block H) \<and>
     (\<forall>a f. h_precompile H a = Some f \<longrightarrow> precompile_ok f)"

section \<open>Value transfers\<close>

text \<open>The accounts after the transfer of a message.\<close>

definition debit :: "message \<Rightarrow> account \<Rightarrow> account" where
  "debit m acc =
     (let a = acc\<lparr>balance := balance acc - m_value m\<rparr>
      in if m_tokenValue m = 0 \<or> m_tokenId m = 0 then a
         else set_token (m_tokenId m) (getTokenBalance a (m_tokenId m) - m_tokenValue m) a)"

definition credit :: "message \<Rightarrow> account \<Rightarrow> account" where
  "credit m acc =
     (let a = acc\<lparr>balance := balance acc + m_value m\<rparr>
      in if m_tokenValue m = 0 \<or> m_tokenId m = 0 then a
         else set_token (m_tokenId m) (getTokenBalance a (m_tokenId m) + m_tokenValue m) a)"

text \<open>The amount of an asset that a message moves.\<close>

definition amount :: "message \<Rightarrow> asset_id \<Rightarrow> int" where
  "amount m k = (case k of None \<Rightarrow> m_value m | Some t \<Rightarrow> if t = m_tokenId m \<and> t \<noteq> 0 then m_tokenValue m else 0)"

lemma holding_debit: "holding k (debit m acc) = holding k acc - amount m k"
  and holding_credit: "holding k (credit m acc) = holding k acc + amount m k"
  by (auto simp: debit_def credit_def amount_def Let_def split: option.splits)
    (auto simp: getTokenBalance_def)

definition funded :: "message \<Rightarrow> account \<Rightarrow> bool" where
  "funded m acc \<longleftrightarrow> (\<forall>k. amount m k \<le> holding k acc \<or> amount m k = 0)"

lemma getTokenBalance_balance [simp]: "getTokenBalance (acc\<lparr>balance := b\<rparr>) t = getTokenBalance acc t"
  by (simp add: getTokenBalance_def)

lemma put_account_lockstep:
  assumes "lockstep S w"
  obtains w' where "journal_putAccount a (Some acc) w = (Inr (), w')" "lockstep S w'"
    "public w' = (public w)\<lparr>p_acct := (p_acct (public w))(a := acc)\<rparr>"
proof -
  obtain w' where "world_write id (WAccount a (Some acc)) w = (Inr (), w')" "lockstep S w'"
    "world_view w' = world_write_view id (WAccount a (Some acc)) (world_view w)"
    by (rule lockstep_write [OF assms, of "WAccount a (Some acc)"]) simp
  then show ?thesis using that by (simp add: pub_write_account)
qed

text \<open>Each side succeeds with the debited or credited account, or fails in lockstep.\<close>

lemma sender_side_cases:
  assumes w: "lockstep S w"
  shows "case sender_side m acc w of
     (Inr acc', w') \<Rightarrow> acc' = debit m acc \<and> lockstep S w' \<and> funded m acc \<and>
        public w' = (public w)\<lparr>p_acct := (p_acct (public w))(m_caller m := acc')\<rparr>
   | (Inl e, w') \<Rightarrow> lockstep S w' \<and> e \<noteq> TvmError STOP"
proof (cases "balance acc < m_value m")
  case True
  then show ?thesis using w by (simp add: sender_side_def reduceSenderBalance_def bnd_def Let_def)
next
  case False
  let ?a = "acc\<lparr>balance := balance acc - m_value m\<rparr>"
  obtain w1 where w1: "journal_putAccount (m_caller m) (Some ?a) w = (Inr (), w1)" "lockstep S w1"
    "public w1 = (public w)\<lparr>p_acct := (p_acct (public w))(m_caller m := ?a)\<rparr>"
    by (rule put_account_lockstep [OF w])
  let ?b = "if m_tokenId m \<noteq> 0 then set_token (m_tokenId m) (getTokenBalance ?a (m_tokenId m) - m_tokenValue m) ?a else ?a"
  obtain w2 where w2: "journal_putAccount (m_caller m) (Some ?b) w1 = (Inr (), w2)" "lockstep S w2"
    "public w2 = (public w1)\<lparr>p_acct := (p_acct (public w1))(m_caller m := ?b)\<rparr>"
    by (rule put_account_lockstep [OF w1(2)])
  show ?thesis
    using False w1 w2
    by (auto simp: sender_side_def reduceSenderBalance_def reduceSenderTokenBalance_def bnd_def sq_def Let_def
        debit_def funded_def amount_def split: option.splits)
qed

lemma receiver_side_cases:
  assumes w: "lockstep S w"
  shows "case receiver_side to m acc w of
     (Inr acc', w') \<Rightarrow> acc' = credit m acc \<and> lockstep S w' \<and>
        public w' = (public w)\<lparr>p_acct := (p_acct (public w))(to := acc')\<rparr>
   | (Inl e, w') \<Rightarrow> lockstep S w' \<and> e \<noteq> TvmError STOP"
proof (cases "balance acc + m_value m > MAX_INTEGER_BIGINT")
  case True
  then show ?thesis using w by (simp add: receiver_side_def addToBalance_def bnd_def Let_def)
next
  case False
  let ?a = "acc\<lparr>balance := balance acc + m_value m\<rparr>"
  obtain w1 where w1: "journal_putAccount to (Some ?a) w = (Inr (), w1)" "lockstep S w1"
    "public w1 = (public w)\<lparr>p_acct := (p_acct (public w))(to := ?a)\<rparr>"
    by (rule put_account_lockstep [OF w])
  let ?b = "if m_tokenId m \<noteq> 0 then set_token (m_tokenId m) (getTokenBalance ?a (m_tokenId m) + m_tokenValue m) ?a else ?a"
  obtain w2 where w2: "journal_putAccount to (Some ?b) w1 = (Inr (), w2)" "lockstep S w2"
    "public w2 = (public w1)\<lparr>p_acct := (p_acct (public w1))(to := ?b)\<rparr>"
    by (rule put_account_lockstep [OF w1(2)])
  show ?thesis
    using False w1 w2
    by (auto simp: receiver_side_def addToBalance_def addToTokenBalance_def bnd_def sq_def Let_def credit_def)
qed

text \<open>The accounts after a whole transfer.\<close>

definition moved :: "message \<Rightarrow> address \<Rightarrow> (address \<Rightarrow> account) \<Rightarrow> address \<Rightarrow> account" where
  "moved m to A =
     (if m_delegatecall m then A
      else let A1 = A(m_caller m := debit m (A (m_caller m))) in A1(to := credit m (A1 to)))"

lemma credit_nothing: "m_value m = 0 \<Longrightarrow> m_tokenValue m = 0 \<Longrightarrow> credit m acc = acc"
  and debit_nothing: "m_value m = 0 \<Longrightarrow> m_tokenValue m = 0 \<Longrightarrow> debit m acc = acc"
  and credit_debit: "m_tokenValue m = 0 \<Longrightarrow> credit m (debit m acc) = acc"
  by (simp_all add: credit_def debit_def)

lemma try_op_cases: "try_op f w = (case f w of (Inl e, t) \<Rightarrow> (Inr (Some e), t) | (Inr _, t) \<Rightarrow> (Inr None, t))"
  by (simp add: try_op_def)

lemma transfer_cases:
  assumes w: "lockstep S w"
  shows "\<exists>err w'. transfer to m w = (Inr err, w') \<and> lockstep S w' \<and> err \<noteq> Some (TvmError STOP) \<and>
    (err = None \<longrightarrow> (m_delegatecall m \<or> funded m (p_acct (public w) (m_caller m))) \<and>
       public w' = (public w)\<lparr>p_acct := moved m to (p_acct (public w))\<rparr>)"
proof (cases "m_delegatecall m")
  case True
  then show ?thesis using w by (simp add: transfer_def load_account_def moved_def later_error_def)
next
  case False
  let ?acc = "p_acct (public w) (m_caller m)"
  have acc: "or_else (getAccount (m_caller m) (w_sm w)) new_account = ?acc"
    by (rule public_reads(1) [OF lockstep_inv [OF w]])
  obtain r w1 where s: "sender_side m ?acc w = (r, w1)" by fastforce
  have w1: "lockstep S w1" using sender_side_cases [OF w, where m = m and acc = ?acc] s by (cases r) auto
  define rcv where "rcv = (getAccount to (w_sm w1) \<noteq> None \<or> m_value m \<noteq> 0 \<or> m_tokenValue m \<noteq> 0 \<or> supplied_code m)"
  have to: "or_else (getAccount to (w_sm w1)) new_account = p_acct (public w1) to"
    by (rule public_reads(1) [OF lockstep_inv [OF w1]])
  obtain q w2 where q: "receiver_side to m (p_acct (public w1) to) w1 = (q, w2)" by fastforce
  have run: "transfer to m w =
    (if rcv then (Inr (later_error (case r of Inl e \<Rightarrow> Some e | Inr _ \<Rightarrow> None) (case q of Inl e \<Rightarrow> Some e | Inr _ \<Rightarrow> None)), w2)
     else (Inr (case r of Inl e \<Rightarrow> Some e | Inr _ \<Rightarrow> None), w1))"
    using False s q
    by (cases r; cases q) (auto simp: transfer_def load_account_def acc to rcv_def try_op_def bnd_def later_error_def)
  note rc = receiver_side_cases [OF w1, where to = to and m = m and acc = "p_acct (public w1) to", unfolded q]
  note sc = sender_side_cases [OF w, where m = m and acc = ?acc, unfolded s]
  have fund: "funded m ?acc" if "r = Inr acc'" for acc'
    using sc that by auto
  have idle: "credit m (p_acct (public w1) to) = p_acct (public w1) to" if "\<not> rcv"
    using that by (simp add: rcv_def credit_nothing)
  show ?thesis
  proof (cases r)
    case (Inl e)
    then show ?thesis using run rc sc w1 by (cases q) (auto simp: later_error_def)
  next
    case (Inr acc')
    have m1: "moved m to (p_acct (public w)) = (p_acct (public w1))(to := credit m (p_acct (public w1) to))"
      using Inr sc False by (simp add: moved_def)
    show ?thesis
    proof (cases rcv)
      case True
      then show ?thesis using run rc sc Inr fund [OF Inr] m1 by (cases q) (auto simp: later_error_def)
    next
      case f: False
      then have "moved m to (p_acct (public w)) = p_acct (public w1)" using m1 idle [OF f] by simp
      then show ?thesis using f run sc Inr fund [OF Inr] by auto
    qed
  qed
qed

lemma amount_nonneg: "0 \<le> m_value m \<Longrightarrow> 0 \<le> m_tokenValue m \<Longrightarrow> 0 \<le> amount m k"
  by (simp add: amount_def split: option.splits)

lemma debit_ok:
  assumes "account_ok acc" "funded m acc"
  shows "account_ok (debit m acc)"
proof -
  have h: "0 \<le> holding k (debit m acc)" for k
    using assms account_ok_nonneg [OF assms(1), of k] by (auto simp: holding_debit funded_def)
  have "distinct (map fst (asset (debit m acc)))" "length (codeHash (debit m acc)) \<le> 32"
    using assms(1) by (auto simp: debit_def account_ok_def Let_def set_token_def distinct_update)
  with h show ?thesis by (simp add: account_ok_def)
qed

lemma credit_ok:
  assumes "account_ok acc" "0 \<le> m_value m" "0 \<le> m_tokenValue m"
  shows "account_ok (credit m acc)"
proof -
  have h: "0 \<le> holding k (credit m acc)" for k
    using assms amount_nonneg [of m k] by (simp add: holding_credit)
  have "distinct (map fst (asset (credit m acc)))" "length (codeHash (credit m acc)) \<le> 32"
    using assms(1) by (auto simp: credit_def account_ok_def Let_def set_token_def distinct_update)
  with h show ?thesis by (simp add: account_ok_def)
qed

lemma moved_supply: "total_supply k (moved m to A) = total_supply k A"
  by (simp add: moved_def Let_def supply_upd holding_debit holding_credit)

lemma moved_ok:
  assumes "\<And>a. account_ok (A a)" "m_delegatecall m \<or> funded m (A (m_caller m))" "0 \<le> m_value m" "0 \<le> m_tokenValue m"
  shows "account_ok (moved m to A a)"
  using assms by (auto simp: moved_def Let_def intro: debit_ok credit_ok)

lemma moved_harmless: "harmless m \<Longrightarrow> m_to m = Some to \<Longrightarrow> moved m to A = A"
  by (auto simp: harmless_def moved_def debit_nothing credit_nothing credit_debit fun_upd_idem)

lemma pub_ok_accounts:
  "pub_ok B p \<Longrightarrow> (\<And>a. account_ok (A a)) \<Longrightarrow> (\<And>k. total_supply k A \<le> B k) \<Longrightarrow> pub_ok B (p\<lparr>p_acct := A\<rparr>)"
  by (simp add: pub_ok_def)

text \<open>A transfer keeps the invariant, or reports an error.\<close>

lemma transfer_ok:
  assumes m: "0 \<le> m_value m" "0 \<le> m_tokenValue m" "F \<noteq> None \<Longrightarrow> harmless m \<and> m_to m = Some to"
  shows "hoare (world_ok S B F) (transfer to m) (\<lambda>e. e \<noteq> Some (TvmError STOP))
    (\<lambda>e w. if e = None then world_ok S B F w else lockstep S w) E"
proof (rule hoare_state)
  fix w assume w: "world_ok S B F w"
  let ?A = "p_acct (public w)"
  obtain err w' where t: "transfer to m w = (Inr err, w')" "lockstep S w'" "err \<noteq> Some (TvmError STOP)"
    "err = None \<Longrightarrow> m_delegatecall m \<or> funded m (?A (m_caller m))"
    "err = None \<Longrightarrow> public w' = (public w)\<lparr>p_acct := moved m to ?A\<rparr>"
    using transfer_cases [OF world_ok_lockstep [OF w], of to m] by blast
  have "world_ok S B F w'" if e: "err = None"
  proof -
    have p: "pub_ok B (public w)" using w by (simp add: world_ok_def)
    then have "pub_ok B (public w')"
      unfolding t(5) [OF e] using t(4) [OF e] m
      by (intro pub_ok_accounts moved_ok) (auto simp: moved_supply pub_ok_def)
    moreover have "public w' = P" if "F = Some P" for P
      using w that m(3) t(5) [OF e] moved_harmless [of m to ?A] by (simp add: world_ok_def)
    ultimately show ?thesis using t(2) by (simp add: world_ok_def)
  qed
  with t show "hoare (\<lambda>t. t = w) (transfer to m) (\<lambda>e. e \<noteq> Some (TvmError STOP))
    (\<lambda>e w. if e = None then world_ok S B F w else lockstep S w) E"
    by (auto simp: hoare_def)
qed

section \<open>Running the code of a message\<close>

definition input_ok :: "message \<Rightarrow> bool" where
  "input_ok m \<longleftrightarrow> 0 \<le> m_gasLimit m \<and> m_gasLimit m \<le> GAS_CAP \<and> is_word (m_value m) \<and> 0 \<le> m_tokenValue m \<and>
     bytes_ok (m_data m) \<and> bytes_ok (code_bytes m)"

definition frame_ghost :: "host \<Rightarrow> message \<Rightarrow> saved_levels \<Rightarrow> (asset_id \<Rightarrow> int) \<Rightarrow> world \<Rightarrow> ghost" where
  "frame_ghost H m S B w = \<lparr>gh_common = h_common H, gh_code = code_bytes m, gh_self = or_else (m_to m) 0,
     gh_depth = m_depth m, gh_gas = m_gasLimit m, gh_saved = S, gh_cap = B,
     gh_frozen = (if m_isStatic m then Some (public w) else None)\<rparr>"

definition first_state :: "host \<Rightarrow> message \<Rightarrow> world \<Rightarrow> run_state" where
  "first_state H m w = (new_run_state (mk_env H m w) (m_gasLimit m) w)\<lparr>
     selfdestruct := or_else (m_selfdestruct m) Map.empty, createdAddresses := or_else (m_createdAddresses m) {}\<rparr>"

lemma start_frame:
  assumes H: "host_ok H" and m: "input_ok m" and w: "world_ok S B F w"
  shows "frame_ok (frame_ghost H m S B w) 0xfe (m_gasLimit m) GAS_CAP 0 0
    (resetJumpAnalysis (first_state H m w\<lparr>code := code_bytes m, programCounter := 0\<rparr>))"
proof -
  let ?g = "frame_ghost H m S B w"
  have c: "contract_ok ?g (e_contract (mk_env H m w)) w"
    using w public_reads(1) [OF world_ok_inv [OF w]]
    by (auto simp: contract_ok_def mk_env_def frame_ghost_def Let_def world_ok_def intro: pub_ok_acct)
  have e: "env_ok ?g (mk_env H m w)"
    using H m by (auto simp: env_ok_def mk_env_def frame_ghost_def Let_def host_ok_def input_ok_def bytes_ok_def)
  have k: "words_ok (new_stack None)" by (simp add: words_ok_def stack_inv_new items_new)
  have s: "world_ok S B (gh_frozen ?g) w" using w by (auto simp: world_ok_def frame_ghost_def)
  show ?thesis
    using c e k s m
    by (simp add: frame_ok_def first_state_def new_run_state_def resetJumpAnalysis_def frame_ghost_def
        gas_ok_def mem_cost_def cache_ok_def input_ok_def)
qed

lemma first_tvm_ok:
  "host_ok H \<Longrightarrow> input_ok m \<Longrightarrow> caps_ok B \<Longrightarrow> tvm_ok (frame_ghost H m S B w) (interp_tvm H rc)"
  by (auto simp: tvm_ok_def interp_tvm_def frame_ghost_def host_ok_def input_ok_def caps_ok_def cap_ok_def)

text \<open>The interpreter ends on every message it is started with.\<close>

lemma interp_run_ends:
  assumes H: "host_ok H" and m: "input_ok m" and w: "world_ok S B F w" and rc: "callee_ok rc" and B: "caps_ok B"
  shows "\<exists>r t. interp_run (interp_tvm H rc) (code_bytes m) None (first_state H m w) = Some (r, t) \<and>
    run_ok (frame_ghost H m S B w) r t"
proof -
  let ?g = "frame_ghost H m S B w" and ?T = "interp_tvm H rc"
  let ?s = "resetJumpAnalysis (first_state H m w\<lparr>code := code_bytes m, programCounter := 0\<rparr>)"
  have T: "tvm_ok ?g ?T" "callee_ok (runCall ?T)" using first_tvm_ok [OF H m B] rc by (simp_all add: interp_tvm_def)
  have s: "frame_ok ?g 0xfe (m_gasLimit m) GAS_CAP 0 0 ?s" by (rule start_frame [OF H m w])
  have f: "gasLeft ?s = m_gasLimit m" "programCounter ?s = 0" "code ?s = code_bytes m"
    by (simp_all add: first_state_def new_run_state_def resetJumpAnalysis_def)
  have fuel: "potential (length (gh_code ?g)) (m_gasLimit m) 0 < run_fuel ?s"
    unfolding run_fuel_def f by (simp add: potential_def frame_ghost_def)
  have run: "interp_run ?T (code_bytes m) None (first_state H m w) = run_loop (run_fuel ?s) ?T ?s"
    by (simp add: interp_run_def Let_def first_state_def new_run_state_def or_else_def)
  show ?thesis
    unfolding run by (rule run_loop_ends [OF T s _ fuel]) (simp add: frame_ghost_def)
qed

definition outcome :: "saved_levels \<Rightarrow> (asset_id \<Rightarrow> int) \<Rightarrow> pub option \<Rightarrow> bool \<Rightarrow> world \<Rightarrow> bool" where
  "outcome S B F bad w \<longleftrightarrow> (if bad then lockstep S w else world_ok S B F w)"

definition gas_within :: "int \<Rightarrow> exec_result \<Rightarrow> bool" where
  "gas_within limit r \<longleftrightarrow> 0 \<le> x_executionGasUsed r \<and> x_executionGasUsed r \<le> limit \<and> bytes_ok (x_returnValue r)"

abbreviation thrown :: "saved_levels \<Rightarrow> exn \<Rightarrow> world \<Rightarrow> bool" where
  "thrown S e w \<equiv> lockstep S w \<and> e \<noteq> TvmError STOP"

lemma runInterpreter_ok:
  assumes H: "host_ok H" and m: "input_ok m" and rc: "callee_ok rc" and B: "caps_ok B" and F: "F \<noteq> None \<Longrightarrow> m_isStatic m"
  shows "hoare (world_ok S B F) (runInterpreter H rc m None) (\<lambda>(r, _). gas_within (m_gasLimit m) r)
    (\<lambda>(r, _). outcome S B F (x_exceptionError r \<noteq> None)) (thrown S)"
proof (rule hoare_state)
  fix w assume w: "world_ok S B F w"
  let ?g = "frame_ghost H m S B w"
  obtain r t where run: "interp_run (interp_tvm H rc) (code_bytes m) None (first_state H m w) = Some (r, t)"
    "run_ok ?g r t" using interp_run_ends [OF H m w rc B] by blast
  then have e: "frame_exit ?g (ending r) t" by (simp add: run_ok_def)
  have x: "lockstep S (world t)" "0 \<le> gasLeft t" "gasLeft t \<le> m_gasLimit m" "bytes_ok (or_else (returnValue t) [])"
    using e by (auto simp: frame_exit_def frame_ghost_def or_else_def split: option.splits)
  have ok: "world_ok S B F (world t)" if "r = Inr None"
  proof -
    have "world_ok S B (gh_frozen ?g) (world t)" using e that by (simp add: frame_exit_def ending_def frame_ghost_def)
    with F w show ?thesis by (cases F) (auto simp: world_ok_def frame_ghost_def split: if_splits)
  qed
  show "hoare (\<lambda>s. s = w) (runInterpreter H rc m None) (\<lambda>(r, _). gas_within (m_gasLimit m) r)
    (\<lambda>(r, _). outcome S B F (x_exceptionError r \<noteq> None)) (thrown S)"
  proof (cases r)
    case (Inl e')
    with run x show ?thesis by (auto simp: hoare_def runInterpreter_def first_state_def run_ok_def)
  next
    case (Inr err)
    then have "runInterpreter H rc m None w = (Inr (frame_result m err t, selfdestruct t, createdAddresses t), world t)"
      using run by (simp add: runInterpreter_def first_state_def Let_def)
    with x ok Inr m show ?thesis
      by (auto simp: hoare_def outcome_def gas_within_def frame_result_def input_ok_def Let_def split: option.splits)
  qed
qed

end
