(* ===== verification/ExecuteOk.thy ===== *)
theory ExecuteOk
  imports MessageOk
begin

text \<open>
  Calls, creations and the checkpoints of a message: the state a message leaves behind, whether
  it succeeds, fails or is aborted by an exception of the host.
\<close>

section \<open>Steps\<close>

definition clear_world :: "world \<Rightarrow> world" where
  "clear_world w = w\<lparr>w_ts := transient_clear (w_ts w)\<rparr>"

text \<open>After execution, with the transient storage cleared at the end of a top-level message.\<close>

definition settled :: "message \<Rightarrow> saved_levels \<Rightarrow> (asset_id \<Rightarrow> int) \<Rightarrow> pub option \<Rightarrow> tvm_result \<Rightarrow> world \<Rightarrow> bool" where
  "settled m S B F r w \<longleftrightarrow>
     (\<exists>w0. (w = w0 \<or> m_depth m = 0 \<and> w = clear_world w0) \<and> outcome S B F (failed r) w0)"

lemma world_ok_outcome: "world_ok S B F w \<Longrightarrow> outcome S B F b w"
  by (simp add: outcome_def world_ok_lockstep)

lemma outcome_simps [simp]: "outcome S B F False = world_ok S B F" "outcome S B F True = lockstep S"
  by (simp_all add: outcome_def fun_eq_iff)

lemma outcome_settled: "outcome S B F (failed r) w \<Longrightarrow> settled m S B F r w"
  by (auto simp: settled_def)

lemma outcome_thrown: "outcome S B F b w \<Longrightarrow> lockstep S w"
  by (auto simp: outcome_def world_ok_lockstep split: if_splits)

lemma hoare_cleanup:
  assumes "result_ok m' r"
  shows "hoare (outcome S B F (failed r)) (sq (postMessageCleanup m) (ret r)) (result_ok m') (settled m S B F) E"
  using assms by (auto simp: hoare_def postMessageCleanup_def settled_def clear_world_def sq_def bnd_def)

lemma hoare_note:
  "hoare (world_ok S B F) (modify (mod_jr (addAccessedAddress a))) (\<lambda>_. True) (\<lambda>_. world_ok S B F) E"
  by (rule hoare_modify_same) (rule world_ok_note)

lemma codeAddress_throws: "codeAddress m = Inl e \<Longrightarrow> e \<noteq> TvmError STOP"
  by (auto simp: codeAddress_def split: option.splits)

text \<open>Loading the code changes nothing but the message.\<close>

lemma loadCode_ok:
  "hoare (outcome S B F b) (loadCode H m)
     (\<lambda>m'. \<exists>c d. m' = m\<lparr>m_code := c, m_isCompiled := d\<rparr> \<and> (\<not> b \<longrightarrow> bytes_ok (code_bytes m) \<longrightarrow> bytes_ok (code_bytes m')))
     (\<lambda>_. outcome S B F b) (thrown S)"
proof (rule hoare_state)
  fix w assume w: "outcome S B F b w"
  have code: "bytes_ok (getCode a (w_sm w))" if "\<not> b" for a
  proof -
    have "world_ok S B F w" using w that by (simp add: outcome_def)
    then show ?thesis
      using public_reads(2) [OF world_ok_inv, of S B F w a] by (simp add: world_ok_def pub_ok_def bytes_ok_def)
  qed
  show "hoare (\<lambda>s. s = w) (loadCode H m)
     (\<lambda>m'. \<exists>c d. m' = m\<lparr>m_code := c, m_isCompiled := d\<rparr> \<and> (\<not> b \<longrightarrow> bytes_ok (code_bytes m) \<longrightarrow> bytes_ok (code_bytes m')))
     (\<lambda>_. outcome S B F b) (thrown S)"
  proof (cases "m_code m")
    case (Some c)
    then show ?thesis
      unfolding loadCode_def using w by (auto simp: hoare_def intro!: exI [of _ "m_code m"] exI [of _ "m_isCompiled m"])
  next
    case None
    show ?thesis
    proof (cases "codeAddress m")
      case (Inl e)
      then show ?thesis using None w codeAddress_throws [OF Inl] outcome_thrown [OF w] by (simp add: hoare_def loadCode_def bnd_def)
    next
      case (Inr a)
      then have "loadCode H m w = (Inr (if h_precompile H a \<noteq> None
          then m\<lparr>m_code := Some (PrecompileAt a), m_isCompiled := True\<rparr>
          else m\<lparr>m_code := Some (Bytecode (getCode a (w_sm w))), m_isCompiled := False\<rparr>), w)"
        using None by (simp add: loadCode_def bnd_def)
      then show ?thesis using w code [of a] by (auto simp: hoare_def code_bytes_def)
    qed
  qed
qed

lemma runPrecompile_ok:
  assumes "host_ok H" "0 \<le> m_gasLimit m"
  shows "hoare (world_ok S B F) (runPrecompile H m) (gas_within (m_gasLimit m)) (\<lambda>_. world_ok S B F) (thrown S)"
proof (rule hoare_state)
  fix w assume w: "world_ok S B F w"
  note l = world_ok_lockstep [OF w]
  show "hoare (\<lambda>s. s = w) (runPrecompile H m) (gas_within (m_gasLimit m)) (\<lambda>_. world_ok S B F) (thrown S)"
  proof (cases "\<exists>a f. m_code m = Some (PrecompileAt a) \<and> h_precompile H a = Some f")
    case False
    then show ?thesis using l by (auto simp: hoare_def runPrecompile_def split: option.splits msg_code.splits)
  next
    case True
    then obtain a f where f: "m_code m = Some (PrecompileAt a)" "h_precompile H a = Some f" by blast
    then have p: "precompile_ok f" using assms(1) by (auto simp: host_ok_def)
    have "case f (m_data m) (m_gasLimit m) w of
       (Inl e, w') \<Rightarrow> w' = w \<and> e \<noteq> TvmError STOP
     | (Inr r, w') \<Rightarrow> w' = w \<and> gas_within (m_gasLimit m) r"
      unfolding gas_within_def by (rule p [unfolded precompile_ok_def, rule_format, OF assms(2)])
    then show ?thesis
      using f w l by (auto simp: hoare_def runPrecompile_def split: prod.splits sum.splits)
  qed
qed

section \<open>Calls\<close>

lemma result_ok_mk: "gas_within (m_gasLimit m) r \<Longrightarrow> m_gasLimit m' = m_gasLimit m \<Longrightarrow> result_ok m' (mk_result m c r)"
  and failed_mk [simp]: "failed (mk_result m c r) \<longleftrightarrow> x_exceptionError r \<noteq> None"
  by (simp_all add: result_ok_def gas_within_def mk_result_def failed_def)

lemma with_sets [simp]:
  "result_ok m (r\<lparr>msg_selfdestruct := sd, msg_created := cr\<rparr>) = result_ok m r"
  "failed (r\<lparr>msg_selfdestruct := sd, msg_created := cr\<rparr>) = failed r"
  by (simp_all add: result_ok_def failed_def)

lemma gas_within_simps [simp]:
  "gas_within l (r\<lparr>x_gasRefund := x\<rparr>) = gas_within l r" "gas_within l (r\<lparr>x_exceptionError := e\<rparr>) = gas_within l r"
  "gas_within l empty_result \<longleftrightarrow> 0 \<le> l" "gas_within l (empty_result\<lparr>x_executionGasUsed := l\<rparr>) \<longleftrightarrow> 0 \<le> l"
  by (simp_all add: gas_within_def empty_result_def)

definition call_input :: "pub option \<Rightarrow> message \<Rightarrow> bool" where
  "call_input F m \<longleftrightarrow> input_ok m \<and> (F \<noteq> None \<longrightarrow> harmless m)"

lemma executeCall_ok:
  assumes H: "host_ok H" and rc: "callee_ok rc" and B: "caps_ok B" and m0: "call_input F m0" and to: "m_to m0 = Some to"
  shows "hoare (world_ok S B F) (executeCall H rc to m0) (result_ok m0) (settled m0 S B F) (thrown S)"
proof -
  have i: "input_ok m0" "0 \<le> m_value m0" "0 \<le> m_tokenValue m0" "0 \<le> m_gasLimit m0"
    using m0 by (auto simp: call_input_def input_ok_def is_word_def)
  have tr: "hoare (world_ok S B F) (transfer to m0) (\<lambda>_. True) (\<lambda>e. outcome S B F (e \<noteq> None)) (thrown S)"
    using transfer_ok [OF i(2,3), of F to S B "thrown S"] m0 to
    by (auto simp: hoare_def outcome_def call_input_def split: prod.splits sum.splits if_splits)
  have rest: "hoare (outcome S B F (err \<noteq> None)) (if no_code m \<or> err \<noteq> None
       then ret (mk_result m None (empty_result\<lparr>x_gasRefund := Some (m_gasRefund m), x_exceptionError := err\<rparr>))
       else if m_isCompiled m
       then bnd (runPrecompile H m) (\<lambda>r. sq (postMessageCleanup m)
            (ret (mk_result m None (r\<lparr>x_gasRefund := Some (m_gasRefund m)\<rparr>))))
       else bnd (runInterpreter H rc m None) (\<lambda>(r, sd, cr). sq (postMessageCleanup m)
            (ret ((mk_result m None r)\<lparr>msg_selfdestruct := sd, msg_created := cr\<rparr>))))
     (result_ok m0) (settled m0 S B F) (thrown S)"
    if m: "m = m0\<lparr>m_code := c, m_isCompiled := d\<rparr>" "err = None \<longrightarrow> bytes_ok (code_bytes m)" for m c d err
  proof (cases "no_code m \<or> err \<noteq> None")
    case True
    then show ?thesis
      using i m by (simp only: if_True) (rule hoare_ret, auto simp: result_ok_mk intro: outcome_settled)
  next
    case False
    then have e: "err = None" "outcome S B F (err \<noteq> None) = world_ok S B F" by (auto simp: outcome_def)
    have m': "input_ok m" "m_gasLimit m = m_gasLimit m0" "F \<noteq> None \<Longrightarrow> m_isStatic m" "settled m = settled m0"
      using i m e m0 by (auto simp: input_ok_def call_input_def harmless_def settled_def fun_eq_iff)
    show ?thesis
    proof (cases "m_isCompiled m")
      case True
      have "hoare (world_ok S B F) (bnd (runPrecompile H m) (\<lambda>r. sq (postMessageCleanup m)
            (ret (mk_result m None (r\<lparr>x_gasRefund := Some (m_gasRefund m)\<rparr>)))))
         (result_ok m0) (settled m0 S B F) (thrown S)"
      proof (rule hoare_bnd [OF runPrecompile_ok [OF H]])
        fix r assume "gas_within (m_gasLimit m) r"
        then show "hoare (world_ok S B F) (sq (postMessageCleanup m)
            (ret (mk_result m None (r\<lparr>x_gasRefund := Some (m_gasRefund m)\<rparr>))))
         (result_ok m0) (settled m0 S B F) (thrown S)"
          unfolding m'(4) [symmetric] using m'(2)
          by (intro hoare_pre [OF world_ok_outcome hoare_cleanup]) (auto simp: result_ok_mk)
      qed (use i m' in simp)
      with True False e show ?thesis by simp
    next
      case nc: False
      have "hoare (world_ok S B F) (bnd (runInterpreter H rc m None) (\<lambda>(r, sd, cr). sq (postMessageCleanup m)
            (ret ((mk_result m None r)\<lparr>msg_selfdestruct := sd, msg_created := cr\<rparr>))))
         (result_ok m0) (settled m0 S B F) (thrown S)"
      proof (rule hoare_bnd [OF runInterpreter_ok [OF H m'(1) rc B m'(3)]])
        fix x :: "exec_result \<times> (address \<Rightarrow> address option) \<times> address set"
        obtain r sd cr where x: "x = (r, sd, cr)" by (metis prod.exhaust)
        assume "case x of (r, _) \<Rightarrow> gas_within (m_gasLimit m) r"
        then have "result_ok m0 ((mk_result m None r)\<lparr>msg_selfdestruct := sd, msg_created := cr\<rparr>)"
          using m'(2) x by (simp add: result_ok_mk)
        from hoare_cleanup [OF this, of S B F m "thrown S"]
        show "hoare ((case x of (r, _) \<Rightarrow> outcome S B F (x_exceptionError r \<noteq> None)))
          (case x of (r, sd, cr) \<Rightarrow> sq (postMessageCleanup m)
            (ret ((mk_result m None r)\<lparr>msg_selfdestruct := sd, msg_created := cr\<rparr>)))
         (result_ok m0) (settled m0 S B F) (thrown S)"
          by (simp add: x m'(4))
      qed simp
      with nc False e show ?thesis by simp
    qed
  qed
  show ?thesis
    unfolding executeCall_def
  proof (rule hoare_bnd [OF hoare_lift_sum])
    show "hoare (world_ok S B F) (sq (modify (mod_jr (addAccessedAddress target)))
     (bnd (transfer to m0) (\<lambda>err.
     bnd (loadCode H m0) (\<lambda>m.
     if no_code m \<or> err \<noteq> None
     then ret (mk_result m None (empty_result\<lparr>x_gasRefund := Some (m_gasRefund m), x_exceptionError := err\<rparr>))
     else if m_isCompiled m
     then bnd (runPrecompile H m) (\<lambda>r.
          sq (postMessageCleanup m)
          (ret (mk_result m None (r\<lparr>x_gasRefund := Some (m_gasRefund m)\<rparr>))))
     else bnd (runInterpreter H rc m None) (\<lambda>(r, sd, cr).
          sq (postMessageCleanup m)
          (ret ((mk_result m None r)\<lparr>msg_selfdestruct := sd, msg_created := cr\<rparr>)))))))
      (result_ok m0) (settled m0 S B F) (thrown S)" for target
      by (rule hoare_sq [OF hoare_note], rule hoare_bnd [OF tr], rule hoare_bnd [OF loadCode_ok],
          elim exE conjE, rule rest, assumption, use i in \<open>simp add: input_ok_def\<close>)
  qed (auto dest: codeAddress_throws world_ok_lockstep)
qed

section \<open>Creation\<close>

text \<open>Between the two sides of a transfer the amount is in no account.\<close>

definition less_amount :: "message \<Rightarrow> (asset_id \<Rightarrow> int) \<Rightarrow> asset_id \<Rightarrow> int" where
  "less_amount m B k = B k - amount m k"

lemma sender_side_ok:
  "hoare (\<lambda>w. world_ok S B None w \<and> p_acct (public w) (m_caller m) = acc) (sender_side m acc) (\<lambda>_. True)
     (\<lambda>_. world_ok S (less_amount m B) None) (thrown S)"
proof (rule hoare_state)
  fix w assume w: "world_ok S B None w \<and> p_acct (public w) (m_caller m) = acc"
  obtain r w' where r: "sender_side m acc w = (r, w')" by fastforce
  note sc = sender_side_cases [OF world_ok_lockstep [OF conjunct1 [OF w]], where m = m and acc = acc, unfolded r]
  have p: "pub_ok B (public w)" using w by (simp add: world_ok_def)
  have "world_ok S (less_amount m B) None w'" if "r = Inr a" for a
  proof -
    have f: "funded m acc" "lockstep S w'" "public w' = (public w)\<lparr>p_acct := (p_acct (public w))(m_caller m := debit m acc)\<rparr>"
      using sc that by auto
    have "account_ok acc" using p w by (auto simp: pub_ok_def)
    then have "pub_ok (less_amount m B) (public w')"
      using p w f debit_ok [of acc m] by (auto simp: pub_ok_def f(3) supply_upd holding_debit less_amount_def)
    with f show ?thesis by (simp add: world_ok_def)
  qed
  with sc r show "hoare (\<lambda>s. s = w) (sender_side m acc) (\<lambda>_. True) (\<lambda>_. world_ok S (less_amount m B) None) (thrown S)"
    by (cases r) (auto simp: hoare_def)
qed

lemma receiver_side_ok:
  assumes "0 \<le> m_value m" "0 \<le> m_tokenValue m"
  shows "hoare (\<lambda>w. world_ok S (less_amount m B) None w \<and> p_acct (public w) to = acc)
     (try_op (receiver_side to m (acc\<lparr>nonce := n\<rparr>))) (\<lambda>_. True) (\<lambda>e. outcome S B None (e \<noteq> None)) E"
proof (rule hoare_state)
  fix w assume w: "world_ok S (less_amount m B) None w \<and> p_acct (public w) to = acc"
  let ?acc = "acc\<lparr>nonce := n\<rparr>"
  obtain r w' where r: "receiver_side to m ?acc w = (r, w')" by fastforce
  note rc = receiver_side_cases [OF world_ok_lockstep [OF conjunct1 [OF w]], where to = to and m = m and acc = ?acc, unfolded r]
  have p: "pub_ok (less_amount m B) (public w)" using w by (simp add: world_ok_def)
  have "world_ok S B None w'" if "r = Inr a" for a
  proof -
    have f: "lockstep S w'" "public w' = (public w)\<lparr>p_acct := (p_acct (public w))(to := credit m ?acc)\<rparr>"
      using rc that by auto
    have "account_ok ?acc" using p w by (auto simp: pub_ok_def)
    then have "pub_ok B (public w')"
      using p w credit_ok [OF _ assms, of ?acc]
      by (auto simp: pub_ok_def f(2) supply_upd holding_credit less_amount_def le_diff_eq)
    with f show ?thesis by (simp add: world_ok_def)
  qed
  with rc r show "hoare (\<lambda>s. s = w) (try_op (receiver_side to m ?acc)) (\<lambda>_. True) (\<lambda>e. outcome S B None (e \<noteq> None)) E"
    by (cases r) (auto simp: hoare_def try_op_def outcome_def)
qed

lemma generateAddress_ok:
  assumes "\<And>w. P w \<Longrightarrow> lockstep S w"
  shows "hoare P (generateAddress H m) (\<lambda>_. True) (\<lambda>_. P) (thrown S)"
  using assms
  by (auto simp: hoare_def generateAddress_def lift_sum_def generateTronAddress2_def generateTronContractAddress_def
      generateTronCreateAddress_def split: option.splits)

lemma putCode_ok:
  assumes "host_ok H" "bytes_ok c"
  shows "hoare (world_ok S B None) (modify (mod_sm (putCode (h_keccak H) a c))) (\<lambda>_. True) (\<lambda>_. world_ok S B None) E"
proof (rule hoare_modify_same)
  fix w assume w: "world_ok S B None w"
  let ?p = "public w"
  let ?acc = "(p_acct ?p a)\<lparr>codeHash := h_keccak H c\<rparr>"
  have p: "pub_ok B ?p" using w by (simp add: world_ok_def)
  have "account_ok ?acc" using pub_ok_acct [OF p, of a] assms(1) by (auto simp: host_ok_def intro: account_ok_codeHash)
  then have "pub_ok B (?p\<lparr>p_acct := (p_acct ?p)(a := ?acc)\<rparr>)" by (intro pub_ok_same_holdings [OF p]) simp_all
  then have "pub_ok B (?p\<lparr>p_acct := (p_acct ?p)(a := ?acc), p_code := (p_code ?p)(a := c)\<rparr>)"
    using pub_ok_code [of B "?p\<lparr>p_acct := (p_acct ?p)(a := ?acc)\<rparr>" c a] assms(2) by (simp add: bytes_ok_def)
  then have "pub_ok B (pub_of (world_write_view (h_keccak H) (WState (PutCode a c)) (world_view w)))"
    by (simp only: pub_write_code)
  from world_ok_write [OF w _ this]
  obtain w' where "world_write (h_keccak H) (WState (PutCode a c)) w = (Inr (), w')" "world_ok S B None w'" by auto
  moreover have "sm_write (h_keccak H) (PutCode a c) = putCode (h_keccak H) a c" by (rule ext) simp
  ultimately show "world_ok S B None (mod_sm (putCode (h_keccak H) a c) w)" by simp
qed

lemma deploy_result_ok:
  assumes "gas_within (m_gasLimit m) r" "0 \<le> m_gasLimit m"
  shows "gas_within (m_gasLimit m) (deploy_result H m r)" "x_exceptionError r \<noteq> None \<Longrightarrow> x_exceptionError (deploy_result H m r) \<noteq> None"
proof -
  have "0 \<le> param (h_common H) ''createDataGas''" by (simp add: param_nonneg)
  then show "gas_within (m_gasLimit m) (deploy_result H m r)"
    using assms by (auto simp: deploy_result_def gas_within_def Let_def OOGResult_def INVALID_BYTECODE_RESULT_of_def
        split: list.splits)
  show "x_exceptionError (deploy_result H m r) \<noteq> None" if "x_exceptionError r \<noteq> None"
    using that by (auto simp: deploy_result_def Let_def OOGResult_def INVALID_BYTECODE_RESULT_of_def split: list.splits)
qed

lemma create_run_ok:
  assumes H: "host_ok H" and rc: "callee_ok rc" and B: "caps_ok B" and m: "input_ok m"
  shows "hoare (world_ok S B None) (bnd (runInterpreter H rc (m\<lparr>m_isCreate := True\<rparr>) None) (\<lambda>(r0, sd, cr).
        let r = deploy_result H m r0
        in sq (whenb (x_exceptionError r = None \<and> x_returnValue r \<noteq> [])
                (modify (mod_sm (putCode (h_keccak H) to (x_returnValue r)))))
           (sq (postMessageCleanup m)
           (ret ((mk_result m (Some to) r)\<lparr>msg_selfdestruct := sd, msg_created := cr\<rparr>)))))
     (result_ok m) (settled m S B None) (thrown S)"
proof (rule hoare_bnd [OF runInterpreter_ok [OF H _ rc B]])
  show "input_ok (m\<lparr>m_isCreate := True\<rparr>)" using m by (simp add: input_ok_def code_bytes_def)
  fix x :: "exec_result \<times> (address \<Rightarrow> address option) \<times> address set"
  obtain r0 sd cr where x: "x = (r0, sd, cr)" by (metis prod.exhaust)
  let ?r = "deploy_result H m r0"
  let ?res = "(mk_result m (Some to) ?r)\<lparr>msg_selfdestruct := sd, msg_created := cr\<rparr>"
  assume "case x of (r, _) \<Rightarrow> gas_within (m_gasLimit (m\<lparr>m_isCreate := True\<rparr>)) r"
  then have d: "gas_within (m_gasLimit m) ?r" "x_exceptionError r0 \<noteq> None \<Longrightarrow> x_exceptionError ?r \<noteq> None"
    using deploy_result_ok [of m r0 H] m by (simp_all add: x input_ok_def)
  have rv: "bytes_ok (x_returnValue ?r)" using d(1) by (simp add: gas_within_def)
  have res: "result_ok m ?res" using d(1) by (simp add: result_ok_mk)
  have f: "failed ?res \<longleftrightarrow> x_exceptionError ?r \<noteq> None" by simp
  have "hoare (outcome S B None (x_exceptionError r0 \<noteq> None))
      (sq (whenb (x_exceptionError ?r = None \<and> x_returnValue ?r \<noteq> [])
                (modify (mod_sm (putCode (h_keccak H) to (x_returnValue ?r)))))
           (sq (postMessageCleanup m) (ret ?res))) (result_ok m) (settled m S B None) (thrown S)"
  proof (cases "x_exceptionError ?r = None")
    case True
    then have "x_exceptionError r0 = None" using d(2) by blast
    moreover have "hoare (world_ok S B None)
        (sq (whenb (x_exceptionError ?r = None \<and> x_returnValue ?r \<noteq> [])
                (modify (mod_sm (putCode (h_keccak H) to (x_returnValue ?r)))))
           (sq (postMessageCleanup m) (ret ?res))) (result_ok m) (settled m S B None) (thrown S)"
      by (rule hoare_sq [OF hoare_whenb [OF putCode_ok [OF H rv]]])
        (rule hoare_pre [OF world_ok_outcome hoare_cleanup [OF res]])
    ultimately show ?thesis by simp
  next
    case False
    then have "outcome S B None (x_exceptionError r0 \<noteq> None) w \<Longrightarrow> outcome S B None (failed ?res) w" for w
      unfolding f using outcome_thrown by (auto simp: outcome_def)
    then have "hoare (outcome S B None (x_exceptionError r0 \<noteq> None)) (sq (postMessageCleanup m) (ret ?res))
        (result_ok m) (settled m S B None) (thrown S)"
      by (rule hoare_pre [OF _ hoare_cleanup [OF res]])
    moreover have "sq (whenb False k) n = n" for k and n :: "(world, tvm_result) op"
      by (rule ext) (simp add: sq_def bnd_def)
    moreover have "(x_exceptionError ?r = None \<and> x_returnValue ?r \<noteq> []) = False" using False by simp
    ultimately show ?thesis by (simp only:)
  qed
  then show "hoare (case x of (r, _) \<Rightarrow> outcome S B None (x_exceptionError r \<noteq> None))
     (case x of (r0, sd, cr) \<Rightarrow>
        let r = deploy_result H m r0
        in sq (whenb (x_exceptionError r = None \<and> x_returnValue r \<noteq> [])
                (modify (mod_sm (putCode (h_keccak H) to (x_returnValue r)))))
           (sq (postMessageCleanup m)
           (ret ((mk_result m (Some to) r)\<lparr>msg_selfdestruct := sd, msg_created := cr\<rparr>))))
     (result_ok m) (settled m S B None) (thrown S)"
    by (simp add: x Let_def)
qed simp

lemma load_account_ok:
  "(\<And>w. P w \<Longrightarrow> world_inv w) \<Longrightarrow>
   hoare P (load_account a) (\<lambda>_. True) (\<lambda>acc w. P w \<and> p_acct (public w) a = acc) E"
  by (auto simp: hoare_def load_account_def public_reads(1))

lemma put_same_account:
  "hoare (\<lambda>w. world_ok S B None w \<and> p_acct (public w) a = acc) (journal_putAccount a (Some acc)) (\<lambda>_. True)
     (\<lambda>_. world_ok S B None) E"
proof (rule hoare_state)
  fix w assume w: "world_ok S B None w \<and> p_acct (public w) a = acc"
  obtain w' where "journal_putAccount a (Some acc) w = (Inr (), w')" "lockstep S w'"
    "public w' = (public w)\<lparr>p_acct := (p_acct (public w))(a := acc)\<rparr>"
    by (rule put_account_lockstep [OF world_ok_lockstep [OF conjunct1 [OF w]]])
  with w show "hoare (\<lambda>s. s = w) (journal_putAccount a (Some acc)) (\<lambda>_. True) (\<lambda>_. world_ok S B None) E"
    by (auto simp: hoare_def world_ok_def)
qed

lemma create_at_ok:
  assumes H: "host_ok H" and rc: "callee_ok rc" and B: "caps_ok B" and m: "input_ok m"
  shows "hoare (\<lambda>w. world_ok S (less_amount m B) None w \<and> p_acct (public w) to = acc) (create_at H rc to m acc)
    (result_ok m) (settled m S B None) (thrown S)"
proof -
  have v: "0 \<le> m_value m" "0 \<le> m_tokenValue m" "0 \<le> m_gasLimit m" using m by (auto simp: input_ok_def is_word_def)
  have id: "modify (mod_sm clearStorage) = (ret () :: (world, unit) op)"
    by (rule ext) (simp add: mod_sm_def clearStorage_def)
  have early: "hoare (outcome S B None (err \<noteq> None)) (ret (mk_result m (Some to)
      (empty_result\<lparr>x_gasRefund := Some (m_gasRefund m), x_exceptionError := err\<rparr>)))
      (result_ok m) (settled m S B None) (thrown S)" for err
    by (rule hoare_ret) (use v in \<open>auto simp: result_ok_mk intro: outcome_settled\<close>)
  show ?thesis
    unfolding create_at_def id
    by (rule hoare_sq [OF put_same_account], rule hoare_sq [OF hoare_ret], rule TrueI, assumption,
        rule hoare_bnd [OF load_account_ok], erule world_ok_inv, rule hoare_bnd [OF receiver_side_ok [OF v(1,2)]],
        rule hoare_if, rule early, rule hoare_pre [OF _ create_run_ok [OF H rc B m]], simp add: outcome_def)
qed

lemma executeCreate_ok:
  assumes H: "host_ok H" and rc: "callee_ok rc" and B: "caps_ok B" and m0: "input_ok m0"
  shows "hoare (world_ok S B None) (executeCreate H rc m0) (result_ok m0) (settled m0 S B None) (thrown S)"
proof (cases "m_createdAddresses m0")
  case None
  then show ?thesis by (auto simp: executeCreate_def hoare_def dest: world_ok_lockstep)
next
  case (Some created)
  let ?m1 = "m0\<lparr>m_code := Some (Bytecode (m_data m0)), m_data := []\<rparr>"
  have body: "hoare (\<lambda>w. world_ok S (less_amount m0 B) None w \<and> p_acct (public w) to = acc)
      (sq (bump_internal m) (if collision acc
           then ret (mk_result m (Some to) (empty_result\<lparr>x_executionGasUsed := m_gasLimit m,
                  x_exceptionError := Some (TvmError CREATE_COLLISION)\<rparr>))
           else create_at H rc to m acc)) (result_ok m0) (settled m0 S B None) (thrown S)"
    if m: "m = ?m1\<lparr>m_to := Some to, m_createdAddresses := Some (insert to created)\<rparr>" for m to acc
  proof -
    have i: "input_ok m" "0 \<le> m_gasLimit m" "m_gasLimit m = m_gasLimit m0" "less_amount m B = less_amount m0 B"
      "settled m = settled m0" "result_ok m = result_ok m0"
      using m m0 by (auto simp: input_ok_def code_bytes_def less_amount_def amount_def settled_def result_ok_def fun_eq_iff
          split: option.splits)
    let ?P = "\<lambda>w. world_ok S (less_amount m0 B) None w \<and> p_acct (public w) to = acc"
    have b: "hoare ?P (bump_internal m) (\<lambda>_. True) (\<lambda>_. ?P) (thrown S)"
      unfolding bump_internal_def
      by (rule hoare_whenb, rule hoare_modify_same) (use same_views_bump in \<open>auto simp: world_ok_bump same_views_def\<close>)
    have c: "hoare ?P (ret (mk_result m (Some to) (empty_result\<lparr>x_executionGasUsed := m_gasLimit m,
         x_exceptionError := Some (TvmError CREATE_COLLISION)\<rparr>))) (result_ok m0) (settled m0 S B None) (thrown S)"
      by (rule hoare_ret) (use i in \<open>auto simp: result_ok_mk outcome_def dest: world_ok_lockstep intro!: outcome_settled\<close>)
    show ?thesis
      using create_at_ok [OF H rc B i(1), of S to acc]
      by (intro hoare_sq [OF b] hoare_if c) (simp add: i)
  qed
  show ?thesis
    unfolding executeCreate_def Some option.case Let_def
    by (rule hoare_bnd [OF load_account_ok], erule world_ok_inv, rule hoare_bnd [OF sender_side_ok],
        rule hoare_bnd [OF generateAddress_ok], erule world_ok_lockstep, rule hoare_sq [OF hoare_note],
        rule hoare_bnd [OF load_account_ok], erule world_ok_inv, rule body, rule refl)
qed

section \<open>The checkpoints of a message\<close>

lemma clear_world_ends:
  "tvm_commit w = (Inr (), w') \<Longrightarrow> tvm_commit (clear_world w) = (Inr (), clear_world w')"
  "tvm_revert w = (Inr (), w') \<Longrightarrow> tvm_revert (clear_world w) = (Inr (), clear_world w')"
  by (auto simp: world_defs clear_world_def split: prod.splits sum.splits dest: transient_clear_ends)

text \<open>The public state without transient storage.\<close>

definition lasting :: "pub \<Rightarrow> pub" where
  "lasting p = p\<lparr>p_trans := \<lambda>_ _. zeros 32\<rparr>"

lemma checkpoint_run:
  assumes "lockstep S w"
  obtains w' where "tvm_checkpoint w = (Inr (), w')" "lockstep (push_level (world_view w) S) w'" "world_view w' = world_view w"
  using wld.checkpoint_law [of w] assms by (cases S) (auto simp: lockstep_def)

lemma commit_run:
  assumes "lockstep (push_level v S) w"
  obtains w' where "tvm_commit w = (Inr (), w')" "lockstep S w'" "world_view w' = world_view w"
  using wld.commit_law [of w] assms by (cases S) (auto simp: lockstep_def)

lemma revert_run:
  assumes "lockstep (push_level v S) w"
  obtains w' where "tvm_revert w = (Inr (), w')" "lockstep S w'" "world_view w' = v"
  using wld.revert_law [of w] assms by (cases S) (auto simp: lockstep_def)

text \<open>
  Settling the execution checkpoint and committing the outer one: on success the state is kept, on
  failure it is the state \<open>v\<close> before execution; either way possibly with transient storage cleared.
\<close>

definition finished :: "message \<Rightarrow> saved_levels \<Rightarrow> (asset_id \<Rightarrow> int) \<Rightarrow> pub option \<Rightarrow> world_view \<Rightarrow> tvm_result \<Rightarrow> world \<Rightarrow> bool" where
  "finished m S B F v r w \<longleftrightarrow>
     (\<exists>w0. (w = w0 \<or> m_depth m = 0 \<and> w = clear_world w0) \<and>
        (if failed r then lockstep S w0 \<and> world_view w0 = v else world_ok S B F w0))"

lemma failed_clear [simp]: "failed (clear_failed r) = failed r" "result_ok m (clear_failed r) = result_ok m r"
  by (simp_all add: failed_def clear_failed_def result_ok_def)

lemma settle_ok:
  assumes "result_ok m r"
  shows "hoare (settled m (push_level v S) B F r) (settle r) (result_ok m) (\<lambda>r'. finished m S B F v r') E"
proof (rule hoare_state)
  fix w assume "settled m (push_level v S) B F r w"
  then obtain w0 where w0: "w = w0 \<or> m_depth m = 0 \<and> w = clear_world w0" "outcome (push_level v S) B F (failed r) w0"
    by (auto simp: settled_def)
  show "hoare (\<lambda>s. s = w) (settle r) (result_ok m) (\<lambda>r'. finished m S B F v r') E"
  proof (cases "failed r")
    case True
    then obtain w1 where w1: "tvm_revert w0 = (Inr (), w1)" "lockstep S w1" "world_view w1 = v"
      using w0(2) by (auto elim: revert_run)
    then have "tvm_revert w = (Inr (), w1) \<or> m_depth m = 0 \<and> tvm_revert w = (Inr (), clear_world w1)"
      using w0(1) clear_world_ends(2) by auto
    moreover have "settle r w = (Inr (clear_failed r), w2)" if "tvm_revert w = (Inr (), w2)" for w2
      using True that by (auto simp: settle_def failed_def sq_def bnd_def)
    ultimately show ?thesis using True w1 assms by (auto simp: hoare_def finished_def)
  next
    case False
    then have ok: "world_ok (push_level v S) B F w0" using w0(2) by simp
    then obtain w1 where w1: "tvm_commit w0 = (Inr (), w1)" "lockstep S w1" "world_view w1 = world_view w0"
      by (auto elim: commit_run dest: world_ok_lockstep)
    then have "world_ok S B F w1" using ok by (simp add: world_ok_def)
    moreover have "tvm_commit w = (Inr (), w1) \<or> m_depth m = 0 \<and> tvm_commit w = (Inr (), clear_world w1)"
      using w0(1) w1 clear_world_ends(1) by auto
    moreover have "settle r w = (Inr r, w2)" if "tvm_commit w = (Inr (), w2)" for w2
      using False that by (simp add: settle_def failed_def sq_def bnd_def)
    ultimately show ?thesis using False assms by (auto simp: hoare_def finished_def)
  qed
qed

lemma finished_commit:
  assumes "finished m (push_level u S) B F v r w"
  obtains w' where "tvm_commit w = (Inr (), w')" "finished m S B F v r w'"
proof -
  obtain w0 where w0: "w = w0 \<or> m_depth m = 0 \<and> w = clear_world w0"
    "if failed r then lockstep (push_level u S) w0 \<and> world_view w0 = v else world_ok (push_level u S) B F w0"
    using assms by (auto simp: finished_def)
  then have l: "lockstep (push_level u S) w0" by (auto split: if_splits dest: world_ok_lockstep)
  obtain w1 where w1: "tvm_commit w0 = (Inr (), w1)" "lockstep S w1" "world_view w1 = world_view w0"
    by (rule commit_run [OF l])
  then have c: "tvm_commit w = (Inr (), w1) \<or> m_depth m = 0 \<and> tvm_commit w = (Inr (), clear_world w1)"
    using w0(1) clear_world_ends(1) by auto
  have "if failed r then lockstep S w1 \<and> world_view w1 = v else world_ok S B F w1"
    using w0(2) w1 by (auto simp: world_ok_def)
  with c that show ?thesis by (auto simp: finished_def)
qed

section \<open>The whole message\<close>

lemma execute_ok:
  assumes H: "host_ok H" and rc: "callee_ok rc" and B: "caps_ok B" and m: "call_input F m"
  shows "hoare (world_ok S B F) (execute H rc m) (result_ok m) (settled m S B F) (thrown S)"
proof (cases "m_to m")
  case None
  then have "F = None" using m by (auto simp: call_input_def harmless_def)
  with None executeCreate_ok [OF H rc B] m show ?thesis by (simp add: execute_def call_input_def)
next
  case (Some to)
  with executeCall_ok [OF H rc B m Some] show ?thesis by (simp add: execute_def)
qed

text \<open>The public state once the sender's nonce is raised.\<close>

definition prepared :: "message \<Rightarrow> pub \<Rightarrow> pub" where
  "prepared m p = (if m_depth m = 0
     then p\<lparr>p_acct := (p_acct p)(m_caller m := (p_acct p (m_caller m))\<lparr>nonce := nonce (p_acct p (m_caller m)) + 1\<rparr>)\<rparr>
     else p)"

lemma prepare_run:
  assumes w: "world_ok S B F w" and F: "m_depth m = 0 \<Longrightarrow> F = None"
  obtains w' where "prepare_sender False m w = (Inr (), w')" "world_ok S B F w'" "public w' = prepared m (public w)"
proof (cases "m_depth m = 0")
  case False
  then show ?thesis
    using that [of w] w by (simp add: prepare_sender_def load_account_def prepared_def Let_def sq_def bnd_def)
next
  case True
  let ?acc = "p_acct (public w) (m_caller m)"
  let ?acc' = "?acc\<lparr>nonce := nonce ?acc + 1\<rparr>"
  obtain w' where w': "journal_putAccount (m_caller m) (Some ?acc') w = (Inr (), w')" "lockstep S w'"
    "public w' = (public w)\<lparr>p_acct := (p_acct (public w))(m_caller m := ?acc')\<rparr>"
    by (rule put_account_lockstep [OF world_ok_lockstep [OF w]])
  have p: "pub_ok B (public w)" using w by (simp add: world_ok_def)
  have "pub_ok B (public w')"
    unfolding w'(3) using pub_ok_acct [OF p] by (intro pub_ok_same_holdings [OF p]) simp_all
  then have "world_ok S B F w'" using F [OF True] w'(2) by (simp add: world_ok_def)
  moreover have "prepare_sender False m w = (Inr (), w')"
    using True w'(1) public_reads(1) [OF world_ok_inv [OF w]]
    by (simp add: prepare_sender_def load_account_def Let_def sq_def bnd_def)
  ultimately show ?thesis using that w'(3) True by (simp add: prepared_def)
qed

lemma runCall_body_ok:
  assumes H: "host_ok H" and rc: "callee_ok rc" and B: "caps_ok B" and m: "call_input F m"
    and F: "m_depth m = 0 \<Longrightarrow> F = None"
  shows "hoare (\<lambda>w. world_ok S B F w \<and> world_view w = v) (runCall_body H rc False m) (result_ok m)
    (\<lambda>r w. \<exists>u. pub_of u = prepared m (pub_of v) \<and> finished m S B F u r w)
    (\<lambda>e w. thrown S e w \<and> world_view w = v)"
proof (rule hoare_state)
  fix w assume "world_ok S B F w \<and> world_view w = v"
  then have w: "world_ok S B F w" "world_view w = v" by auto
  note l = world_ok_lockstep [OF w(1)]
  let ?ctx = "m_depth m = 0 \<and> m_to m = None \<and> m_salt m = None \<and> w_tron w = None"
  obtain w1 where w1: "tvm_checkpoint w = (Inr (), w1)" "lockstep (push_level v S) w1" "world_view w1 = v"
    using checkpoint_run [OF l] w(2) by metis
  have "world_ok (push_level v S) B F w1" using w w1 by (auto simp: world_ok_def)
  then obtain w2 where w2: "prepare_sender False m w1 = (Inr (), w2)" "world_ok (push_level v S) B F w2"
    "public w2 = prepared m (pub_of v)" using prepare_run [OF _ F] w1(3) by metis
  let ?u = "world_view w2"
  obtain w3 where w3: "tvm_checkpoint w2 = (Inr (), w3)" "lockstep (push_level ?u (push_level v S)) w3" "world_view w3 = ?u"
    by (rule checkpoint_run [OF world_ok_lockstep [OF w2(2)]])
  have ok3: "world_ok (push_level ?u (push_level v S)) B F w3" using w2(2) w3 by (auto simp: world_ok_def)
  obtain r w4 where r: "execute H rc m w3 = (r, w4)" by fastforce
  note ex = execute_ok [OF H rc B m, of "push_level ?u (push_level v S)"]
  show "hoare (\<lambda>s. s = w) (runCall_body H rc False m) (result_ok m)
    (\<lambda>r w. \<exists>u. pub_of u = prepared m (pub_of v) \<and> finished m S B F u r w)
    (\<lambda>e w. thrown S e w \<and> world_view w = v)"
  proof (cases ?ctx)
    case True
    then have "runCall_body H rc False m w =
        (Inl (HostError ''rootTransactionId is required for TRON contract deployment address derivation''), w)"
      by (simp add: runCall_body_def sq_def bnd_def)
    with l w(2) show ?thesis by (simp add: hoare_def)
  next
    case False
    have run: "runCall_body H rc False m w = bnd (on_throw (on_throw (bnd (execute H rc m) settle) tvm_revert) tvm_revert)
        (\<lambda>r. sq tvm_commit (ret r)) w3"
      using False w1(1) w2(1) w3(1) by (auto simp: runCall_body_def sq_def bnd_def on_throw_def)
    show ?thesis
    proof (cases r)
      case (Inl e)
      have t: "thrown (push_level ?u (push_level v S)) e w4" using hoare_throw_state [OF ex ok3] r Inl by simp
      obtain w5 where w5: "tvm_revert w4 = (Inr (), w5)" "lockstep (push_level v S) w5"
        by (rule revert_run [OF conjunct1 [OF t]])
      obtain w6 where w6: "tvm_revert w5 = (Inr (), w6)" "lockstep S w6" "world_view w6 = v"
        by (rule revert_run [OF w5(2)])
      have "runCall_body H rc False m w = (Inl e, w6)"
        unfolding run using r Inl w5 w6 by (simp add: on_throw_def bnd_def sq_def)
      with t w6 show ?thesis by (simp add: hoare_def)
    next
      case (Inr x)
      have x: "result_ok m x" "settled m (push_level ?u (push_level v S)) B F x w4" using hoare_ret_state [OF ex ok3] r Inr by simp_all
      note st = settle_ok [OF x(1), of ?u "push_level v S" B F "\<lambda>_ _. False"]
      obtain q w5 where q: "settle x w4 = (q, w5)" by (cases "settle x w4")
      then obtain y where "q = Inr y" using hoare_throw_state [OF st x(2)] by (cases q) auto
      then have y: "settle x w4 = (Inr y, w5)" "result_ok m y" "finished m (push_level v S) B F ?u y w5"
        using q hoare_ret_state [OF st x(2)] by simp_all
      obtain w6 where w6: "tvm_commit w5 = (Inr (), w6)" "finished m S B F ?u y w6"
        by (rule finished_commit [OF y(3)])
      have "runCall_body H rc False m w = (Inr y, w6)"
        unfolding run using r Inr y(1) w6(1) by (simp add: on_throw_def bnd_def sq_def)
      moreover have "\<exists>u. pub_of u = prepared m (pub_of v) \<and> finished m S B F u y w6" using w6(2) w2(3) by blast
      ultimately show ?thesis using y(2) by (simp add: hoare_def del: split_paired_Ex)
    qed
  qed
qed

text \<open>Every level of nesting keeps the contract of a nested message.\<close>

lemma msg_ok_input: "msg_ok F m \<Longrightarrow> call_input F m"
  by (simp add: msg_ok_def call_input_def input_ok_def code_bytes_def)

lemma finished_nested:
  assumes "finished m S B F u r w" "0 < m_depth m" "pub_of u = public w0" "world_ok S B F w0"
  shows "world_ok S B F w \<and> (failed r \<longrightarrow> public w = public w0)"
proof (cases "failed r")
  case True
  with assms have "lockstep S w" "public w = public w0" by (simp_all add: finished_def)
  with assms(4) show ?thesis by (simp add: world_ok_def)
qed (use assms in \<open>simp add: finished_def\<close>)

lemma callee_body:
  assumes H: "host_ok H" and rc: "callee_ok rc"
  shows "callee_ok (runCall_body H rc False)"
  unfolding callee_ok_def
proof (intro allI impI)
  fix S B F P m
  assume m: "msg_ok F m" and B: "caps_ok B"
  then have d: "0 < m_depth m" by (simp add: msg_ok_def)
  show "hoare (\<lambda>w. world_ok S B F w \<and> public w = P) (runCall_body H rc False m) (result_ok m)
      (\<lambda>r w. world_ok S B F w \<and> (failed r \<longrightarrow> public w = P)) (thrown S)"
  proof (rule hoare_state)
    fix w assume w: "world_ok S B F w \<and> public w = P"
    have h: "hoare (\<lambda>w'. world_ok S B F w' \<and> world_view w' = world_view w) (runCall_body H rc False m) (result_ok m)
      (\<lambda>r w'. \<exists>u. pub_of u = prepared m (public w) \<and> finished m S B F u r w')
      (\<lambda>e w'. thrown S e w' \<and> world_view w' = world_view w)"
      using runCall_body_ok [OF H rc B msg_ok_input [OF m]] d by simp
    show "hoare (\<lambda>s. s = w) (runCall_body H rc False m) (result_ok m)
      (\<lambda>r w. world_ok S B F w \<and> (failed r \<longrightarrow> public w = P)) (thrown S)"
    proof (rule hoare_conseq [OF h])
      fix r t assume "\<exists>u. pub_of u = prepared m (public w) \<and> finished m S B F u r t"
      then obtain u where u: "pub_of u = public w" "finished m S B F u r t" using d by (auto simp: prepared_def)
      from finished_nested [OF u(2) d u(1)] w show "world_ok S B F t \<and> (failed r \<longrightarrow> public t = P)" by simp
    qed (use w in simp_all)
  qed
qed

theorem run_message_ok:
  assumes "host_ok H"
  shows "callee_ok (run_message n H)"
proof (induction n)
  case 0
  then show ?case by (auto simp: callee_ok_def hoare_def dest: world_ok_lockstep)
next
  case (Suc n)
  have "run_message (Suc n) H = runCall_body H (run_message n H) False" by (rule ext) simp
  with callee_body [OF assms Suc] show ?case by simp
qed

end
