(* ===== verification/TopLevel.thy ===== *)
theory TopLevel
  imports ExecuteOk
begin

text \<open>
  A top-level message on a world with no open checkpoint: it ends with every checkpoint closed,
  creates no currency and no tokens, uses at most its gas, and leaves no trace when it fails.
\<close>

section \<open>Between transactions\<close>

definition supply_of :: "world \<Rightarrow> asset_id \<Rightarrow> int" where
  "supply_of w k = total_supply k (p_acct (public w))"

text \<open>
  No checkpoint of a message is open; the state manager may have open checkpoints below, with saved
  views \<open>Ss\<close>.
\<close>

definition at_rest :: "sm_view list \<Rightarrow> world \<Rightarrow> bool" where
  "at_rest Ss w \<longleftrightarrow> world_inv w \<and> open_frames w = 0 \<and> sm_saved (w_sm w) = Ss"

definition rest_ok :: "sm_view list \<Rightarrow> (asset_id \<Rightarrow> int) \<Rightarrow> world \<Rightarrow> bool" where
  "rest_ok Ss B w \<longleftrightarrow> at_rest Ss w \<and> pub_ok B (public w)"

text \<open>Accounts are well formed, and every supply fits in a word.\<close>

definition ready_on :: "sm_view list \<Rightarrow> world \<Rightarrow> bool" where
  "ready_on Ss w \<longleftrightarrow> rest_ok Ss (supply_of w) w \<and> caps_ok (supply_of w)"

definition ready :: "world \<Rightarrow> bool" where
  "ready w \<longleftrightarrow> ready_on [] w"

lemma ready_of: "rest_ok Ss B w \<Longrightarrow> caps_ok B \<Longrightarrow> ready_on Ss w \<and> (\<forall>k. supply_of w k \<le> B k)"
  by (auto simp: ready_on_def rest_ok_def pub_ok_def caps_ok_def supply_of_def intro: le_less_trans)

lemma rest_lockstep:
  "at_rest Ss w \<Longrightarrow> lockstep (Levels [] (Ss, jsaved (w_jr w))) w"
  by (simp add: at_rest_def lockstep_def world_saved_def world_base_def)

lemma lockstep_rest:
  assumes "lockstep (Levels [] (Ss, Js)) w"
  shows "at_rest Ss w" "indices (w_ts w) = [0]" "jsaved (w_jr w) = Js"
proof -
  have i: "world_inv w" "world_saved w = []" "world_base w = (Ss, Js)" using assms by (auto simp: lockstep_def)
  have "length (world_saved w) = 0" using i(2) by simp
  then have "open_frames w = 0" using i(1) unfolding world_saved_def by (simp add: world_inv_def open_frames_def)
  then show "at_rest Ss w" "indices (w_ts w) = [0]" "jsaved (w_jr w) = Js"
    using i by (auto simp: at_rest_def world_base_def world_inv_def open_frames_def length_Suc_conv Suc_diff_le diff_is_0_eq' le_Suc_eq)
qed

lemma rest_world_ok: "rest_ok Ss B w \<Longrightarrow> world_ok (Levels [] (Ss, jsaved (w_jr w))) B None w"
  by (simp add: rest_ok_def world_ok_def rest_lockstep)

lemma world_ok_rest: "world_ok (Levels [] (Ss, Js)) B None w \<Longrightarrow> rest_ok Ss B w"
  using lockstep_rest(1) by (auto simp: rest_ok_def world_ok_def)

lemma heights_ok_map: "(\<And>x. fst (f x) = fst x) \<Longrightarrow> heights_ok (map f ds) = heights_ok ds"
proof (induction ds rule: heights_ok.induct)
  case (2 k d)
  then show ?case by (cases "f (k, d)") (metis fst_conv heights_ok.simps(2) list.simps(8,9))
next
  case (3 k d k' d' ds)
  obtain e e' where "f (k, d) = (k, e)" "f (k', d') = (k', e')"
    using 3(2) by (metis fst_conv prod.collapse)
  with 3 show ?case by simp
qed simp

lemma clearWrites_ok:
  assumes "at_rest Ss w"
  shows "at_rest Ss (mod_jr clearStorageWrites w)" "public (mod_jr clearStorageWrites w) = public w"
proof -
  let ?j = "clearStorageWrites (w_jr w)"
  have i: "world_inv w" "open_frames w = 0" "sm_saved (w_sm w) = Ss" using assms by (simp_all add: at_rest_def)
  have "journalDiff (w_jr w) \<noteq> []" using i(1) by (auto simp: world_inv_def journal_inv_def)
  then have "journal_inv ?j"
    using i(1) by (auto simp: world_inv_def journal_inv_def clearStorageWrites_def heights_ok_map hd_map split: prod.splits)
  moreover have "length (jsaved ?j) = length (jsaved (w_jr w))" by (simp add: jsaved_def clearStorageWrites_def)
  ultimately show "at_rest Ss (mod_jr clearStorageWrites w)"
    using i by (simp add: at_rest_def world_inv_def open_frames_def mod_jr_def)
  show "public (mod_jr clearStorageWrites w) = public w"
    by (simp add: pub_of_def world_view_def mod_jr_def split: prod.splits)
qed

lemma clear_world_base:
  assumes "lockstep (Levels [] (Ss, Js)) w"
  shows "lockstep (Levels [] (Ss, Js)) (clear_world w)" "public (clear_world w) = lasting (public w)"
proof -
  note l = lockstep_rest [OF assms]
  have i: "world_inv w" "sm_saved (w_sm w) = Ss" using l(1) by (simp_all add: at_rest_def)
  have c: "clear_world w = w\<lparr>w_ts := new_transient\<rparr>" by (simp add: clear_world_def transient_clear_base l)
  have n: "transient_inv new_transient" "indices new_transient = [0]" by (rule transient_inv_new, simp add: new_transient_def)
  show "lockstep (Levels [] (Ss, Js)) (clear_world w)"
    using i l n by (simp add: c lockstep_def world_obs)
  show "public (clear_world w) = lasting (public w)"
    by (simp add: c pub_of_def world_view_def lasting_def tview_def new_transient_def store_get_def fun_eq_iff
        split: prod.splits)
qed

lemma lasting_ok: "pub_ok B p \<Longrightarrow> pub_ok B (lasting p)"
  by (simp add: pub_ok_def lasting_def)

lemma set_context_run: "same_views w (snd (set_context txid w))"
  by (auto simp: set_context_def same_views_def bnd_def lift_sum_def world_obs
      split: sum.splits option.splits)

section \<open>The run of a top-level message\<close>

definition top_message :: "message \<Rightarrow> message" where
  "top_message m = m\<lparr>m_depth := 0, m_selfdestruct := Some Map.empty, m_createdAddresses := Some {}, m_gasRefund := 0\<rparr>"

definition ended :: "sm_view list \<Rightarrow> message \<Rightarrow> world \<Rightarrow> exn + tvm_result \<Rightarrow> world \<Rightarrow> bool" where
  "ended Ss m w r w' \<longleftrightarrow> rest_ok Ss (supply_of w) w' \<and>
     (case r of Inl e \<Rightarrow> public w' = public w
      | Inr x \<Rightarrow> result_ok m x \<and> (failed x \<longrightarrow> lasting (public w') = lasting (prepared (top_message m) (public w))))"

lemma prepared_ok: "pub_ok B p \<Longrightarrow> pub_ok B (prepared m p)"
  by (auto simp: prepared_def pub_ok_acct intro!: pub_ok_same_holdings)

lemma finished_top:
  assumes f: "finished m (Levels [] (Ss, Js)) B None u x w" and u: "pub_of u = prepared m p" and p: "pub_ok B p"
  shows "rest_ok Ss B w \<and> (failed x \<longrightarrow> lasting (public w) = lasting (prepared m p))"
proof -
  let ?S = "Levels [] (Ss, Js)"
  obtain w0 where w0: "w = w0 \<or> w = clear_world w0"
    "if failed x then lockstep ?S w0 \<and> world_view w0 = u else world_ok ?S B None w0"
    using f by (auto simp: finished_def)
  have l: "lockstep ?S w0" and ok: "pub_ok B (public w0)"
    using w0(2) u prepared_ok [OF p, of m] by (auto simp: world_ok_def split: if_splits)
  have "lasting (lasting q) = lasting q" for q by (simp add: lasting_def)
  then have "lasting (public w) = lasting (public w0)" using w0(1) clear_world_base(2) [OF l] by auto
  moreover have "world_ok ?S B None w"
    using w0(1) l ok clear_world_base [OF l] lasting_ok by (auto simp: world_ok_def)
  ultimately show ?thesis using w0(2) u world_ok_rest by auto
qed

lemma tvm_runCall_ended:
  assumes H: "host_ok H" and m: "input_ok m" and w: "ready_on Ss w"
  shows "case tvm_runCall H False txid m w of (r, w') \<Rightarrow> ended Ss m w r w'"
proof -
  let ?m = "top_message m" and ?B = "supply_of w" and ?w1 = "mod_jr clearStorageWrites w"
  have B: "caps_ok ?B" and ok: "rest_ok Ss ?B w" using w by (auto simp: ready_on_def)
  have p: "pub_ok ?B (public w)" using ok by (simp add: rest_ok_def)
  have fin: "rest_ok Ss ?B w3 \<Longrightarrow> rest_ok Ss ?B (mod_jr clearStorageWrites w3) \<and>
      public (mod_jr clearStorageWrites w3) = public w3" for w3
    using clearWrites_ok [of Ss w3] by (simp add: rest_ok_def)
  let ?S = "Levels [] (Ss, jsaved (w_jr ?w1))"
  have ok1: "world_ok ?S ?B None ?w1" "public ?w1 = public w" using fin [OF ok] rest_world_ok by blast+
  obtain q w2 where q: "set_context txid ?w1 = (q, w2)" by fastforce
  then have q2: "same_views ?w1 w2" using set_context_run [of ?w1 txid] by simp
  have ok2: "world_ok ?S ?B None w2" "public w2 = public w"
    using world_ok_same [OF q2 ok1(1)] q2 ok1(2) by (auto simp: same_views_def)
  have def: "tvm_runCall H False txid m w = (case sq (set_context txid) (runCall_body H (run_message levels H) False ?m) ?w1 of
      (r, w2) \<Rightarrow> (r, mod_jr clearStorageWrites w2))"
    by (simp add: tvm_runCall_def top_message_def Let_def)
  show ?thesis
  proof (cases q)
    case (Inl e)
    then show ?thesis using q ok2 fin [OF world_ok_rest [OF ok2(1)]] by (simp add: def sq_def bnd_def ended_def)
  next
    case (Inr u)
    obtain r w3 where r: "runCall_body H (run_message levels H) False ?m w2 = (r, w3)" by fastforce
    have run: "tvm_runCall H False txid m w = (r, mod_jr clearStorageWrites w3)"
      using q Inr r by (simp add: def sq_def bnd_def)
    have i: "call_input None ?m" "m_gasLimit ?m = m_gasLimit m" "m_depth ?m = 0"
      using m by (simp_all add: call_input_def input_ok_def top_message_def code_bytes_def)
    note h = runCall_body_ok [OF H run_message_ok [OF H, of levels] B i(1) refl, of ?S "world_view w2"]
    have w2: "world_ok ?S ?B None w2 \<and> world_view w2 = world_view w2" using ok2 by simp
    show ?thesis
    proof (cases r)
      case (Inl e)
      have "lockstep ?S w3" "world_view w3 = world_view w2" using hoare_throw_state [OF h w2] r Inl by auto
      then have "rest_ok Ss ?B w3" "public w3 = public w" using ok2 world_ok_rest by (simp_all add: world_ok_def rest_ok_def lockstep_rest)
      with run Inl fin [of w3] show ?thesis by (simp add: ended_def)
    next
      case (Inr x)
      then have x: "result_ok ?m x" "\<exists>u. pub_of u = prepared ?m (public w) \<and> finished ?m ?S ?B None u x w3"
        using hoare_ret_state [OF h w2] r ok2(2) by auto
      then obtain u where "pub_of u = prepared ?m (public w)" "finished ?m ?S ?B None u x w3" by blast
      from finished_top [OF this(2,1) p] fin [of w3] x(1) i run Inr show ?thesis
        by (simp add: ended_def result_ok_def)
    qed
  qed
qed

section \<open>Properties of a top-level message\<close>

text \<open>
  C6. No money is made: whatever a top-level message runs and however it ends, the supply of the
  native currency and of every TRC-10 token after it is at most the supply before it, and no
  account is left with a negative balance of anything.
\<close>
theorem runCall_conserves:
  assumes "host_ok H" "input_ok m" "ready w" "tvm_runCall H False txid m w = (r, w')"
  shows "supply_of w' k \<le> supply_of w k \<and> 0 \<le> holding k (p_acct (public w') a)"
  using tvm_runCall_ended [OF assms(1,2) assms(3) [unfolded ready_def], of txid] assms(4)
  by (auto simp: ended_def rest_ok_def pub_ok_def supply_of_def)

text \<open>
  C7. Messages are atomic: a top-level message that is aborted by an exception leaves accounts,
  code, storage and transient storage as they were, and one that fails leaves only the raised
  nonce of the sender (its transient storage is gone either way).
\<close>
theorem runCall_atomic:
  assumes "host_ok H" "input_ok m" "ready w" "tvm_runCall H False txid m w = (r, w')"
  shows "case r of Inl e \<Rightarrow> public w' = public w
    | Inr x \<Rightarrow> failed x \<longrightarrow> lasting (public w') = lasting (prepared (top_message m) (public w))"
  using tvm_runCall_ended [OF assms(1,2) assms(3) [unfolded ready_def], of txid] assms(4) by (auto simp: ended_def split: sum.splits)

text \<open>
  The gas a top-level message reports as used is between nothing and its limit.
\<close>
theorem runCall_gas:
  assumes "host_ok H" "input_ok m" "ready w" "tvm_runCall H False txid m w = (Inr x, w')"
  shows "0 \<le> x_executionGasUsed (execResult x) \<and> x_executionGasUsed (execResult x) \<le> m_gasLimit m"
  using tvm_runCall_ended [OF assms(1,2) assms(3) [unfolded ready_def], of txid] assms(4) by (auto simp: ended_def result_ok_def)

text \<open>
  Top-level messages can be run one after the other: every one leaves the world as the next
  one needs it, with all checkpoints of the journal, the state manager and the transient storage
  closed and all accounts well formed.
\<close>
theorem runCall_ready:
  assumes "host_ok H" "input_ok m" "ready w" "tvm_runCall H False txid m w = (r, w')"
  shows "ready w'"
proof -
  have "rest_ok [] (supply_of w) w'" using tvm_runCall_ended [OF assms(1,2) assms(3) [unfolded ready_def], of txid] assms(4) by (auto simp: ended_def)
  with ready_of assms(3) show ?thesis by (auto simp: ready_def ready_on_def)
qed

section \<open>Properties of nested messages\<close>

lemma nested_run:
  assumes "host_ok H" "msg_ok F m" "caps_ok B" "world_ok S B F w"
  shows "case run_message (Suc n) H m w of (r, w') \<Rightarrow> lockstep S w' \<and>
    (case r of Inl e \<Rightarrow> public w' = public w
     | Inr x \<Rightarrow> result_ok m x \<and> world_ok S B F w' \<and> (failed x \<longrightarrow> public w' = public w))"
proof -
  have d: "0 < m_depth m" using assms(2) by (simp add: msg_ok_def)
  have F: "m_depth m = 0 \<Longrightarrow> F = None" using d by simp
  note h = runCall_body_ok [OF assms(1) run_message_ok [OF assms(1), of n] assms(3) msg_ok_input [OF assms(2)] F, where S = S and v = "world_view w"]
  have w: "world_ok S B F w \<and> world_view w = world_view w" using assms(4) by simp
  obtain r w' where r: "run_message (Suc n) H m w = (r, w')" by fastforce
  show ?thesis
  proof (cases r)
    case (Inl e)
    then show ?thesis using hoare_throw_state [OF h w] r by simp
  next
    case (Inr x)
    then have "result_ok m x \<and> (\<exists>u. pub_of u = prepared m (public w) \<and> finished m S B F u x w')"
      using hoare_ret_state [OF h w] r by simp
    then obtain u where u: "result_ok m x" "pub_of u = public w" "finished m S B F u x w'"
      using d by (auto simp: prepared_def)
    from finished_nested [OF u(3) d u(2) assms(4)] u(1) Inr r show ?thesis by (auto dest: world_ok_lockstep)
  qed
qed

text \<open>
  C8. A nested message that fails, or is aborted, leaves accounts, code, storage and transient
  storage as they were, with the checkpoints of the messages around it untouched; one that
  succeeds enlarges no supply and uses at most its gas.
\<close>
theorem nested_atomic:
  assumes "host_ok H" "msg_ok None m" "caps_ok B" "world_ok S B None w" "run_message (Suc n) H m w = (r, w')"
  shows "lockstep S w' \<and> (case r of Inl e \<Rightarrow> public w' = public w
    | Inr x \<Rightarrow> result_ok m x \<and> world_ok S B None w' \<and> (failed x \<longrightarrow> public w' = public w))"
  using nested_run [OF assms(1-4), of n] assms(5) by simp

text \<open>
  C9. A message sent from a static context changes nothing, however it ends and whatever code it
  runs, at any depth: accounts, code, storage and transient storage are the same afterwards.
\<close>
theorem nested_static:
  assumes "host_ok H" "msg_ok (Some (public w)) m" "caps_ok B" "world_ok S B None w"
    and "run_message (Suc n) H m w = (r, w')"
  shows "public w' = public w"
proof -
  have "world_ok S B (Some (public w)) w" by (rule world_ok_freeze [OF assms(4)])
  from nested_run [OF assms(1-3) this, of n] assms(5) show ?thesis by (cases r) (auto simp: world_ok_def)
qed

text \<open>
  C10. The interpreter always ends: on the code of any message, at any nesting, the loop stops
  within its fuel, with the gas left between nothing and the limit of the message.
\<close>
theorem interpreter_ends:
  assumes "host_ok H" "input_ok m" "caps_ok B" "world_ok S B F w"
  shows "\<exists>r t. interp_run (interp_tvm H (run_message n H)) (code_bytes m) None (first_state H m w) = Some (r, t) \<and>
    0 \<le> gasLeft t \<and> gasLeft t \<le> m_gasLimit m \<and> lockstep S (world t)"
proof -
  obtain r t where "interp_run (interp_tvm H (run_message n H)) (code_bytes m) None (first_state H m w) = Some (r, t)"
    "run_ok (frame_ghost H m S B w) r t"
    using interp_run_ends [OF assms(1,2,4) run_message_ok [OF assms(1)] assms(3)] by blast
  then show ?thesis by (auto simp: run_ok_def frame_exit_def frame_ghost_def)
qed

text \<open>
  C22. The transfer of a call is exact: if it reports no error, the sender had the funds, the
  sender's balance falls and the receiver's rises by the value of the message, likewise for the
  token it names, and nobody else's holdings change (a transfer to oneself changes nothing).
\<close>
theorem transfer_exact:
  assumes "lockstep S w" "\<not> m_delegatecall m" "transfer to m w = (Inr None, w')"
  shows "funded m (p_acct (public w) (m_caller m)) \<and>
    holding k (p_acct (public w') a) = holding k (p_acct (public w) a)
      - (if a = m_caller m then amount m k else 0) + (if a = to then amount m k else 0)"
proof -
  have "funded m (p_acct (public w) (m_caller m))" "p_acct (public w') = moved m to (p_acct (public w))"
    using transfer_cases [OF assms(1), of to m] assms(2,3) by auto
  with assms(2) show ?thesis by (simp add: moved_def Let_def holding_debit holding_credit)
qed

section \<open>An instance\<close>

text \<open>Account 1 holds 1000 and sends 7 with code that reverts.\<close>

definition sample_host :: host where
  "sample_host = \<lparr>h_common = \<lparr>eip7939 = True, proposal65 = True\<rparr>, h_keccak = (\<lambda>_. zeros 32), h_chainId = 1,
     h_blockHash = (\<lambda>_. Inr (zeros 32)), h_precompile = (\<lambda>_. None),
     h_block = \<lparr>number = 0, coinbase = 0, timestamp = 0, block_gasLimit = 0, baseFeePerGas = None\<rparr>,
     h_gasPrice = 0, h_origin = 1\<rparr>"

definition sample_world :: world where
  "sample_world = snd (journal_putAccount 1 (Some (new_account\<lparr>balance := 1000\<rparr>)) new_world)"

definition sample_message :: message where
  "sample_message = default_message\<lparr>m_to := Some 2, m_value := 7, m_caller := 1, m_gasLimit := 50000,
     m_code := Some (Bytecode [0x60, 0, 0x60, 0, 0xfd])\<rparr>"

lemma new_world_lockstep: "lockstep (Levels [] ([], [])) new_world"
  by (simp add: lockstep_def world_inv_new)

lemma new_world_public: "public new_world = \<lparr>p_acct = \<lambda>_. new_account, p_code = \<lambda>_. [], p_stor = \<lambda>_. [], p_trans = \<lambda>_ _. zeros 32\<rparr>"
  by (simp add: new_world_def pub_of_def world_view_def sm_view_def layers_def new_state_manager_def checkpointSync_def
      top_map_def tview_def new_transient_def store_get_def fun_eq_iff or_else_def)

lemma sample_world_facts:
  "lockstep (Levels [] ([], [])) sample_world" "public sample_world = (public new_world)\<lparr>p_acct := (\<lambda>_. new_account)(1 := new_account\<lparr>balance := 1000\<rparr>)\<rparr>"
proof -
  obtain w where "journal_putAccount 1 (Some (new_account\<lparr>balance := 1000\<rparr>)) new_world = (Inr (), w)" "lockstep (Levels [] ([], [])) w"
    "public w = (public new_world)\<lparr>p_acct := (p_acct (public new_world))(1 := new_account\<lparr>balance := 1000\<rparr>)\<rparr>"
    by (rule put_account_lockstep [OF new_world_lockstep])
  then show "lockstep (Levels [] ([], [])) sample_world"
    "public sample_world = (public new_world)\<lparr>p_acct := (\<lambda>_. new_account)(1 := new_account\<lparr>balance := 1000\<rparr>)\<rparr>"
    by (simp_all add: sample_world_def new_world_public)
qed

lemma sample_supply: "supply_of sample_world k = (if k = None then 1000 else 0)"
  and sample_total: "total_supply k ((\<lambda>_. new_account)(1 := new_account\<lparr>balance := 1000\<rparr>)) = (if k = None then 1000 else 0)"
proof -
  have "total_supply k (\<lambda>_. new_account) = 0" by (simp add: total_supply_def)
  then show t: "total_supply k ((\<lambda>_. new_account)(1 := new_account\<lparr>balance := 1000\<rparr>)) = (if k = None then 1000 else 0)"
    by (simp add: supply_upd)
  then show "supply_of sample_world k = (if k = None then 1000 else 0)" by (simp add: supply_of_def sample_world_facts)
qed

lemma sample_ready: "ready sample_world"
  using account_ok_balance [OF new_account_ok, of 1000] sample_world_facts
  by (auto simp: ready_def ready_on_def rest_ok_def lockstep_rest caps_ok_def sample_supply pub_ok_def TWO_POW256_def new_world_public is_word_def sample_total)

lemma sample_ok: "host_ok sample_host" "input_ok sample_message"
  by (auto simp: host_ok_def sample_host_def is_word_def block_ok_def TWO_POW256_def input_ok_def sample_message_def
      default_message_def GAS_CAP_def bytes_ok_def code_bytes_def)

text \<open>The properties of a top-level message on the instance.\<close>

theorem runCall_conserves_witness:
  "case tvm_runCall sample_host False None sample_message sample_world of (r, w') \<Rightarrow> supply_of w' None \<le> 1000"
  using runCall_conserves [OF sample_ok sample_ready, of None _ _ None] by (auto simp: sample_supply split: prod.splits)

theorem runCall_atomic_witness:
  "case tvm_runCall sample_host False None sample_message sample_world of
     (Inl e, w') \<Rightarrow> public w' = public sample_world
   | (Inr x, w') \<Rightarrow> failed x \<longrightarrow>
       lasting (public w') = lasting (prepared (top_message sample_message) (public sample_world))"
  using runCall_atomic [OF sample_ok sample_ready, of None] by (auto split: prod.splits sum.splits)

theorem runCall_gas_witness:
  "case tvm_runCall sample_host False None sample_message sample_world of
     (Inl e, w') \<Rightarrow> True | (Inr x, w') \<Rightarrow> x_executionGasUsed (execResult x) \<le> 50000"
  using runCall_gas [OF sample_ok sample_ready, of None]
  by (auto simp: sample_message_def split: prod.splits sum.splits)

theorem runCall_ready_witness:
  "case tvm_runCall sample_host False None sample_message sample_world of (r, w') \<Rightarrow> ready w'"
  using runCall_ready [OF sample_ok sample_ready, of None] by (auto split: prod.splits)

text \<open>A static call of account 2, one level down.\<close>

definition sample_call :: message where
  "sample_call = default_message\<lparr>m_to := Some 2, m_caller := 1, m_gasLimit := 50000, m_depth := 1,
     m_isStatic := True, m_createdAddresses := Some {}\<rparr>"

lemma sample_call_ok: "msg_ok F sample_call"
  by (simp add: msg_ok_def sample_call_def default_message_def GAS_CAP_def is_word_def TWO_POW256_def harmless_def)

lemma sample_caps: "caps_ok (supply_of sample_world)" "world_ok (Levels [] ([], [])) (supply_of sample_world) None sample_world"
  using sample_ready sample_world_facts(1) by (simp_all add: ready_def ready_on_def rest_ok_def world_ok_def)

theorem nested_atomic_witness:
  "case run_message 1 sample_host sample_call sample_world of
     (Inl e, w') \<Rightarrow> public w' = public sample_world
   | (Inr x, w') \<Rightarrow> failed x \<longrightarrow> public w' = public sample_world"
  using nested_atomic [OF sample_ok(1) sample_call_ok sample_caps, of 0]
  by (auto simp del: run_message.simps split: prod.splits sum.splits)

theorem nested_static_witness: "public (snd (run_message 1 sample_host sample_call sample_world)) = public sample_world"
  using nested_static [OF sample_ok(1) sample_call_ok sample_caps, of 0 "fst (run_message 1 sample_host sample_call sample_world)"]
  by (simp del: run_message.simps)

theorem interpreter_ends_witness:
  "interp_run (interp_tvm sample_host (run_message 3 sample_host)) [0x60, 0, 0x60, 0, 0xfd] None
     (first_state sample_host sample_message sample_world) \<noteq> None"
proof -
  have "code_bytes sample_message = [0x60, 0, 0x60, 0, 0xfd]" by (simp add: sample_message_def code_bytes_def)
  with interpreter_ends [OF sample_ok sample_caps, of 3] show ?thesis by auto
qed

theorem transfer_exact_witness:
  "case transfer 2 sample_message sample_world of
     (Inr None, w') \<Rightarrow> balance (p_acct (public w') 2) = 7 | _ \<Rightarrow> False"
proof -
  have "fst (transfer 2 sample_message sample_world) = Inr None" by code_simp
  then obtain w' where t: "transfer 2 sample_message sample_world = (Inr None, w')"
    by (cases "transfer 2 sample_message sample_world") simp
  have s: "\<not> m_delegatecall sample_message" "amount sample_message None = 7" "m_caller sample_message = 1"
    by (simp_all add: sample_message_def default_message_def amount_def)
  have b: "holding None (p_acct (public sample_world) 2) = 0"
    by (simp add: sample_world_facts new_account_def)
  show ?thesis
    using transfer_exact [OF sample_world_facts(1) s(1) t, of None 2] b s t by simp
qed

end
