(* ===== verification/Depth.thy ===== *)
theory Depth
  imports Tvm
begin

text \<open>
  The nesting of messages: a frame sends messages one level deeper than itself, and none at all
  from the depth limit on. So the number of levels that the model unrolls does not matter once it
  reaches the limit.
\<close>

section \<open>The depth of a frame is fixed\<close>

abbreviation depth_is :: "nat \<Rightarrow> run_state \<Rightarrow> bool" where
  "depth_is d s \<equiv> e_depth (env s) = d"

lemma depth_zoom [op_pres]:
  "keeps (depth_is d) (on_stack f)" "keeps (depth_is d) (on_memory g)" "keeps (depth_is d) (on_world h)"
  "keeps (depth_is d) (get_env i)" "keeps (depth_is d) (get_sm j)"
  by (auto simp: keeps_def on_stack_def on_memory_def on_world_def get_env_def get_sm_def zoom_def split: prod.splits)

lemma depth_prims [op_pres]:
  "keeps (depth_is d) (useGas x)" "keeps (depth_is d) (subMemUsage c i l)" "keeps (depth_is d) (reload_contract e)"
  "keeps (depth_is d) take_gasLimit"
  by (auto simp: keeps_def useGas_def subMemUsage_def reload_contract_def take_gasLimit_def Let_def
      split: prod.splits option.splits)

lemma keeps_if [op_pres]: "(b \<Longrightarrow> keeps I m) \<Longrightarrow> (\<not> b \<Longrightarrow> keeps I n) \<Longrightarrow> keeps I (if b then m else n)"
  by simp

lemma keeps_option [op_pres]: "keeps I m \<Longrightarrow> (\<And>x. keeps I (f x)) \<Longrightarrow> keeps I (case z of None \<Rightarrow> m | Some x \<Rightarrow> f x)"
  by (cases z) simp_all

lemmas flat_defs = peek1_def stack_address_def note_address_def note_storage_def setCallGasLimit_def not_static_def
  call_memory_def transfer_fee_def pushv_def key32_def shortest_def read_range_def copy_range_def take_stipend_def
  getExternalBalance_def getExternalTokenBalance_def getCaller_def getTxOrigin_def getBlockCoinbase_def getBlockBaseFee_def
  storageStore_def storageLoad_def transientStorageStore_def transientStorageLoad_def finish_def interp_revert_def
  interp_log_def writeCallOutput_def addStipend_def do_jump_def interp_selfDestruct_def

lemmas gas_defs = gas_EXP_def gas_KECCAK256_def gas_note_top_def gas_COPY_def gas_EXTCODECOPY_def gas_RETURNDATACOPY_def
  gas_MEM_def gas_SLOAD_def gas_SSTORE_def gas_MCOPY_def gas_LOG_def gas_CREATE_def gas_CREATE2_def gas_CALL_def
  gas_CALLCODE_def gas_DELEGATECALL_def gas_CALLTOKEN_def gas_RETURN_def gas_SELFDESTRUCT_def gas_TOKENBALANCE_def

lemmas op_defs = op_STOP_def op_KECCAK256_def op_ADDRESS_def op_BALANCE_def op_ORIGIN_def op_CALLER_def op_CALLVALUE_def
  op_CALLDATALOAD_def op_CALLDATASIZE_def op_CALLDATACOPY_def op_CODESIZE_def op_CODECOPY_def op_GASPRICE_def
  op_EXTCODESIZE_def op_EXTCODECOPY_def op_RETURNDATASIZE_def op_RETURNDATACOPY_def op_EXTCODEHASH_def op_BLOCKHASH_def
  op_COINBASE_def op_TIMESTAMP_def op_NUMBER_def op_DIFFICULTY_def op_GASLIMIT_def op_CHAINID_def op_SELFBALANCE_def
  op_BASEFEE_def op_POP_def op_MLOAD_def op_MSTORE_def op_MSTORE8_def op_SLOAD_def op_SSTORE_def op_JUMP_def op_JUMPI_def
  op_PC_def op_MSIZE_def op_GAS_def op_JUMPDEST_def op_TLOAD_def op_TSTORE_def op_MCOPY_def op_PUSH0_def op_PUSH_def
  op_DUP_def op_SWAP_def op_LOG_def op_RETURN_def op_REVERT_def op_SELFDESTRUCT_def op_TOKENBALANCE_def
  op_CALLTOKENVALUE_def op_CALLTOKENID_def op_ISCONTRACT_def

lemma depth_absorb [op_pres]: "keeps (depth_is d) (absorb_callee r)"
  unfolding absorb_callee_def by (auto intro!: op_pres keeps_modify)

lemma depth_key32_all [op_pres]: "keeps (depth_is d) (key32_all vs)"
proof (induction vs)
  case (Cons v vs)
  then show ?case unfolding key32_all.simps key32_def by (intro keeps_bnd keeps_basic)
qed (simp add: keeps_def)

lemma depth_gas: "dynamicGasHandlers opc = Some h \<Longrightarrow> keeps (depth_is d) (h T fee)"
  by (simp add: dynamicGasHandlers_def gas_defs flat_defs Let_def split: if_splits)
    (auto simp: gas_MEM_def peek1_def Let_def intro!: op_pres keeps_modify)

definition call_ops :: "nat list" where
  "call_ops = [0xd0, 0xf0, 0xf1, 0xf2, 0xf4, 0xf5, 0xfa]"

lemma depth_op: "handlers opc = Some h \<Longrightarrow> opc \<notin> set call_ops \<Longrightarrow> keeps (depth_is d) (h T)"
  by (simp add: handlers_def call_ops_def op_defs flat_defs Let_def split: if_splits option.splits)
    (auto simp: op_defs flat_defs Let_def intro!: op_pres keeps_modify)

section \<open>Two interpreters that differ in the deeper levels\<close>

text \<open>Equal results from every state of a depth, which stays as it is.\<close>

definition agree :: "nat \<Rightarrow> 'a rop \<Rightarrow> 'a rop \<Rightarrow> bool" where
  "agree d m m' \<longleftrightarrow> (\<forall>s. depth_is d s \<longrightarrow> m' s = m s \<and> depth_is d (snd (m s)))"

lemma agree_refl: "keeps (depth_is d) m \<Longrightarrow> agree d m m"
  by (simp add: agree_def keeps_def)

lemma agree_bnd:
  assumes m: "agree d m m'" and f: "\<And>x. agree d (f x) (f' x)"
  shows "agree d (bnd m f) (bnd m' f')"
  unfolding agree_def
proof (intro allI impI)
  fix s assume s: "depth_is d s"
  obtain r t where r: "m s = (r, t)" by fastforce
  then have t: "m' s = (r, t)" "depth_is d t" using m s by (auto simp: agree_def)
  show "bnd m' f' s = bnd m f s \<and> depth_is d (snd (bnd m f s))"
  proof (cases r)
    case (Inl e)
    with r t show ?thesis by (simp add: bnd_def)
  next
    case (Inr x)
    with r t f [of x] show ?thesis by (simp add: bnd_def agree_def)
  qed
qed

lemma agree_sq: "agree d m m' \<Longrightarrow> agree d n n' \<Longrightarrow> agree d (sq m n) (sq m' n')"
  unfolding sq_def by (rule agree_bnd)

lemma agree_if: "(b \<Longrightarrow> agree d m m') \<Longrightarrow> (\<not> b \<Longrightarrow> agree d n n') \<Longrightarrow> agree d (if b then m else n) (if b then m' else n')"
  by simp

text \<open>A value read from a state of the depth.\<close>

lemma agree_gets:
  "(\<And>s. depth_is d s \<Longrightarrow> agree d (f (g s)) (f' (g s))) \<Longrightarrow> agree d (bnd (gets g) f) (bnd (gets g) f')"
  by (simp add: agree_def)

lemma agree_lift:
  "(\<And>x. r = Inr x \<Longrightarrow> agree d (f x) (f' x)) \<Longrightarrow> agree d (bnd (lift_sum r) f) (bnd (lift_sum r) f')"
  by (cases r) (simp_all add: agree_def bnd_def)

text \<open>\<open>peer d T T'\<close>: the same instance, with callbacks that agree one level below depth \<open>d\<close>.\<close>

definition peer :: "nat \<Rightarrow> tvm \<Rightarrow> tvm \<Rightarrow> bool" where
  "peer d T T' \<longleftrightarrow> common T' = common T \<and> keccak T' = keccak T \<and> chainId T' = chainId T \<and> blockHash T' = blockHash T \<and>
     (\<forall>m. d < 64 \<longrightarrow> m_depth m = d + 1 \<longrightarrow> runCall T' m = runCall T m)"

lemma peer_simps:
  assumes "peer d T T'"
  shows "common T' = common T" "keccak T' = keccak T" "chainId T' = chainId T" "blockHash T' = blockHash T"
  using assms by (simp_all add: peer_def)

lemma peer_runCall: "peer d T T' \<Longrightarrow> d < 64 \<Longrightarrow> m_depth m = d + 1 \<Longrightarrow> runCall T' m = runCall T m"
  by (simp add: peer_def)

lemma new_Message_same: "new_Message m = Inr m' \<Longrightarrow> m' = m"
  by (auto simp: new_Message_def split: if_splits)

lemmas agree_flow = agree_bnd agree_sq agree_if

lemma baseCall_agree:
  assumes p: "peer d T T'" and m: "m_depth m = d + 1"
  shows "agree d (baseCall T m) (baseCall T' m)"
proof -
  show ?thesis
    unfolding baseCall_def peer_simps [OF p]
  proof (rule agree_gets, rule agree_sq, goal_cases)
    case (1 s)
    show ?case by (rule agree_refl) (auto intro!: op_pres)
  next
    case (2 s)
    show ?case
    proof (rule agree_sq, goal_cases)
      case 1
      show ?case by (rule agree_refl) (auto intro!: keeps_modify)
    next
      case 2
      show ?case
      proof (rule agree_gets, rule agree_gets, rule agree_if, goal_cases)
        case (1 t u)
        show ?case by (rule agree_refl) (auto intro!: op_pres)
      next
        case (2 t u)
        then have "d < 64" by simp
        then have "runCall T' (m\<lparr>m_selfdestruct := Some (selfdestruct s), m_gasRefund := gasRefund s,
            m_createdAddresses := Some (createdAddresses t)\<rparr>) = runCall T (m\<lparr>m_selfdestruct := Some (selfdestruct s),
            m_gasRefund := gasRefund s, m_createdAddresses := Some (createdAddresses t)\<rparr>)"
          using p m by (intro peer_runCall) auto
        then show ?case
          by simp (intro agree_refl, auto intro!: op_pres keeps_modify)
      qed
    qed
  qed
qed

lemma send_agree:
  assumes p: "peer d T T'" and f: "\<And>e. e_depth e = d \<Longrightarrow> m_depth (f e) = d + 1"
  shows "agree d (bnd (gets env) (\<lambda>e. bnd (lift_sum (new_Message (f e))) (baseCall T)))
    (bnd (gets env) (\<lambda>e. bnd (lift_sum (new_Message (f e))) (baseCall T')))"
  by (rule agree_gets, rule agree_lift, rule baseCall_agree [OF p]) (auto simp: f dest!: new_Message_same)

lemma calls_agree:
  assumes "peer d T T'"
  shows "agree d (call T g a v x) (call T' g a v x)" "agree d (callCode T g a v x) (callCode T' g a v x)"
    "agree d (callStatic T g a v x) (callStatic T' g a v x)" "agree d (callDelegate T g a v x) (callDelegate T' g a v x)"
    "agree d (callToken T g a v i j x) (callToken T' g a v i j x)"
  unfolding call_def callCode_def callStatic_def callDelegate_def callToken_def
  by (rule send_agree [OF assms], simp)+

lemma create_agree:
  assumes p: "peer d T T'"
  shows "agree d (create T g v x salt) (create T' g v x salt)"
  unfolding create_def peer_simps [OF p]
proof (rule agree_sq, goal_cases)
  case 1
  show ?case by (rule agree_refl) (auto intro!: keeps_modify)
next
  case 2
  show ?case
  proof (rule agree_gets, rule agree_if, goal_cases)
    case (1 s)
    show ?case by (rule agree_refl) (auto intro!: op_pres)
  next
    case (2 s)
    then have d: "d < 64" by simp
    show ?case
    proof (rule agree_if, goal_cases)
      case 1
      show ?case by (rule agree_refl) (auto intro!: op_pres)
    next
      case 2
      show ?case
      proof (rule agree_sq, goal_cases)
        case 1
        show ?case by (rule agree_refl) (auto intro!: keeps_modify)
      next
        case 2
        show ?case
        proof (rule agree_gets, rule agree_sq, goal_cases)
          case (1 t)
          show ?case by (rule agree_refl) (auto intro!: op_pres)
        next
          case (2 t)
          show ?case
          proof (rule agree_lift, goal_cases)
            case (1 m)
            then have "m_depth m = d + 1" using 2 by (auto dest!: new_Message_same)
            then show ?case
              using peer_runCall [OF p d] by simp (intro agree_refl, auto intro!: op_pres keeps_modify)
          qed
        qed
      qed
    qed
  qed
qed

section \<open>Steps and runs agree\<close>

lemma agree_keeps: "agree d m m' \<Longrightarrow> keeps (depth_is d) m"
  by (simp add: agree_def keeps_def)

lemma depth_writeCallOutput [op_pres]: "keeps (depth_is d) (writeCallOutput i l)"
  unfolding writeCallOutput_def Let_def by (auto intro!: op_pres)

lemma depth_steps [op_pres]:
  "keeps (depth_is d) (stack_address a)" "keeps (depth_is d) (read_range i l b)" "keeps (depth_is d) (take_stipend T v)"
  "keeps (depth_is d) (pushv v)" "keeps (depth_is d) not_static" "keeps (depth_is d) (key32 v)"
  unfolding stack_address_def read_range_def take_stipend_def addStipend_def pushv_def not_static_def key32_def
  by (auto intro!: op_pres keeps_modify)

lemma take_stipend_peer: "peer d T T' \<Longrightarrow> take_stipend T' v = take_stipend T v"
  by (simp add: take_stipend_def peer_simps)

lemma call_handler_agree:
  assumes p: "peer d T T'"
  shows "agree d (op_CALL T) (op_CALL T')" "agree d (op_CALLCODE T) (op_CALLCODE T')"
    "agree d (op_DELEGATECALL T) (op_DELEGATECALL T')" "agree d (op_STATICCALL T) (op_STATICCALL T')"
    "agree d (op_CALLTOKEN T) (op_CALLTOKEN T')" "agree d (op_CREATE T) (op_CREATE T')" "agree d (op_CREATE2 T) (op_CREATE2 T')"
  unfolding op_CALL_def op_CALLCODE_def op_DELEGATECALL_def op_STATICCALL_def op_CALLTOKEN_def op_CREATE_def op_CREATE2_def
    take_stipend_peer [OF p] Let_def
  by ((rule calls_agree [OF p] create_agree [OF p] agree_flow | (rule agree_refl, (intro op_pres)[1]))+)

lemma op_agree:
  assumes h: "handlers opc = Some h" and p: "peer d T T'"
  shows "agree d (h T) (h T')"
proof (cases "opc \<in> set call_ops")
  case True
  with h call_handler_agree [OF p] show ?thesis by (auto simp: handlers_def alu_handler_def call_ops_def)
next
  case False
  with h have "h T' = h T"
    by (simp add: handlers_def call_ops_def split: if_splits option.splits) (auto simp: op_defs Let_def peer_simps [OF p] cong: if_cong)
  with depth_op [OF h False] show ?thesis by (simp add: agree_refl)
qed

lemma gas_agree:
  assumes h: "dynamicGasHandlers opc = Some h" and p: "peer d T T'"
  shows "agree d (h T fee) (h T' fee)"
proof -
  have "h T' fee = h T fee"
    using h by (simp add: dynamicGasHandlers_def split: if_splits)
      (auto simp: gas_defs call_memory_def transfer_fee_def Let_def peer_simps [OF p] cong: if_cong)
  with depth_gas [OF h] show ?thesis by (simp add: agree_refl)
qed

lemma runStep_agree:
  assumes p: "peer d T T'"
  shows "agree d (runStep T obj) (runStep T' obj)"
proof -
  have fee: "agree d (step_fee T i) (step_fee T' i)" for i
    unfolding step_fee_def using gas_agree [OF _ p] by (auto split: option.splits intro!: agree_refl op_pres)
  have an: "analyse T' = analyse T" by (simp add: analyse_def peer_simps [OF p])
  have dis: "agree d (dispatch T i) (dispatch T' i)" for i
    unfolding dispatch_def using op_agree [OF _ p] by (auto split: option.splits intro!: agree_refl op_pres)
  have "keeps (depth_is d) (analyse T)" by (auto simp: analyse_def split: prod.splits intro!: keeps_modify)
  then show ?thesis
    unfolding runStep_def peer_simps [OF p] an
    by (intro agree_gets agree_bnd [OF fee] agree_sq [OF _ dis] agree_sq agree_refl op_pres keeps_modify) simp_all
qed

lemma fetch_agree: "agree d fetch fetch"
  by (rule agree_refl) (auto simp: keeps_def fetch_def split: option.splits)

lemma run_loop_agree: "peer d T T' \<Longrightarrow> depth_is d s \<Longrightarrow> run_loop n T' s = run_loop n T s"
proof (induction n arbitrary: s)
  case (Suc n)
  have a: "agree d (bnd fetch (runStep T)) (bnd fetch (runStep T'))"
    by (intro agree_bnd fetch_agree runStep_agree Suc.prems)
  then have e: "bnd fetch (runStep T') s = bnd fetch (runStep T) s" using Suc.prems by (simp add: agree_def)
  show ?case
  proof (cases "bnd fetch (runStep T) s")
    case (Pair r t)
    then have "depth_is d t" using a Suc.prems unfolding agree_def by (metis snd_conv)
    with Suc Pair e show ?thesis by (simp split: sum.splits exn.splits)
  qed
qed simp

section \<open>Messages agree\<close>

lemma runInterpreter_agree:
  assumes "\<And>x. m_depth m < 64 \<Longrightarrow> m_depth x = m_depth m + 1 \<Longrightarrow> rc' x = rc x"
  shows "runInterpreter H rc' m pc = runInterpreter H rc m pc"
proof -
  have p: "peer (m_depth m) (interp_tvm H rc) (interp_tvm H rc')" using assms by (simp add: peer_def interp_tvm_def)
  have "interp_run (interp_tvm H rc') cd pc ((new_run_state (mk_env H m w) g w)\<lparr>selfdestruct := sd, createdAddresses := cr\<rparr>) =
    interp_run (interp_tvm H rc) cd pc ((new_run_state (mk_env H m w) g w)\<lparr>selfdestruct := sd, createdAddresses := cr\<rparr>)" for cd w g sd cr
    unfolding interp_run_def Let_def using run_loop_agree [OF p]
    by (simp add: resetJumpAnalysis_def new_run_state_def mk_env_def Let_def)
  then show ?thesis by (simp add: runInterpreter_def fun_eq_iff)
qed

lemma loadCode_depth: "loadCode H m w = (Inr m', w') \<Longrightarrow> m_depth m' = m_depth m"
  by (auto simp: loadCode_def bnd_def lift_sum_def split: if_splits sum.splits)

lemma bnd_cong: "(\<And>x t. m s = (Inr x, t) \<Longrightarrow> f x t = f' x t) \<Longrightarrow> bnd m f s = bnd m f' s"
  by (cases "m s", cases "fst (m s)") (auto simp: bnd_def)

lemma execute_agree:
  assumes r: "\<And>x. m_depth m < 64 \<Longrightarrow> m_depth x = m_depth m + 1 \<Longrightarrow> rc' x = rc x"
  shows "execute H rc' m = execute H rc m"
proof -
  have run: "runInterpreter H rc' m' pc = runInterpreter H rc m' pc" if "m_depth m' = m_depth m" for m' pc
    using r that by (intro runInterpreter_agree) auto
  have call: "executeCall H rc' to m = executeCall H rc to m" for to
  proof
    fix w
    show "executeCall H rc' to m w = executeCall H rc to m w"
      unfolding executeCall_def sq_def
      by (intro bnd_cong) (auto simp: run dest!: loadCode_depth)
  qed
  have at: "create_at H rc' to m' acc = create_at H rc to m' acc" if "m_depth m' = m_depth m" for to m' acc
    using that by (simp add: create_at_def run cong: if_cong)
  have create: "executeCreate H rc' m = executeCreate H rc m"
    by (simp add: executeCreate_def Let_def at cong: if_cong option.case_cong)
  show ?thesis by (simp add: execute_def call create split: option.splits)
qed

lemma runCall_body_agree:
  assumes "\<And>x. m_depth m < 64 \<Longrightarrow> m_depth x = m_depth m + 1 \<Longrightarrow> rc' x = rc x"
  shows "runCall_body H rc' skip m = runCall_body H rc skip m"
  using execute_agree [of m rc' rc H, OF assms] by (simp add: runCall_body_def)

lemma run_message_agree:
  "m_depth m \<le> 64 \<Longrightarrow> 65 \<le> m_depth m + n \<Longrightarrow> 65 \<le> m_depth m + k \<Longrightarrow> run_message n H m = run_message k H m"
proof (induction n arbitrary: m k)
  case (Suc n)
  then obtain j where k: "k = Suc j" by (cases k) auto
  have "runCall_body H (run_message n H) False m = runCall_body H (run_message j H) False m"
  proof (rule runCall_body_agree)
    fix x :: message assume "m_depth m < 64" "m_depth x = m_depth m + 1"
    then show "run_message n H x = run_message j H x" using Suc.prems k by (intro Suc.IH) auto
  qed
  then show ?case by (simp add: k)
qed simp

text \<open>
  C23. The nesting of messages is bounded by the depth limit of 64: unrolling more levels of
  nested messages than the limit allows changes no result, so the number of levels in the model
  is no restriction and its level-exhausted branch is never taken by a top-level message.
\<close>
theorem nesting_bounded:
  assumes "m_depth m = 0" "64 \<le> n"
  shows "runCall_body H (run_message n H) skip m = runCall_body H (run_message levels H) skip m"
  by (rule runCall_body_agree, rule run_message_agree) (use assms in \<open>auto simp: levels_def\<close>)

theorem nesting_bounded_witness:
  "\<forall>H. runCall_body H (run_message 64 H) False default_message = runCall_body H (run_message 1000 H) False default_message"
  using nesting_bounded [of default_message 64] nesting_bounded [of default_message 1000] by (simp add: default_message_def)

end
