(* ===== verification/DataProps.thy ===== *)
theory DataProps
  imports Stack Memory OpUtil
begin

text \<open>
  The data components against what they promise: the operand stack against a bounded list, the
  memory against an array of zeros without end, byte arrays against the numbers they encode.
\<close>

section \<open>The operand stack is a bounded list\<close>

datatype stack_cmd = SPush int | SPop | SPopN nat | SPeek nat | SSwap nat | SDup nat | SExchange nat nat

fun run_cmd :: "stack_cmd \<Rightarrow> (stack, int list) op" where
  "run_cmd (SPush v) = bnd (push v) (\<lambda>_. ret [])"
| "run_cmd SPop = bnd pop (\<lambda>x. ret [x])"
| "run_cmd (SPopN n) = popN n"
| "run_cmd (SPeek n) = peek n"
| "run_cmd (SSwap p) = bnd (swap p) (\<lambda>_. ret [])"
| "run_cmd (SDup p) = bnd (dup p) (\<lambda>_. ret [])"
| "run_cmd (SExchange a b) = bnd (exchange a b) (\<lambda>_. ret [])"

text \<open>The specification, on the list of items from the top; an error leaves the list alone.\<close>

definition demand :: "nat \<Rightarrow> int list \<Rightarrow> int list \<times> int list \<Rightarrow> (exn + int list) \<times> int list" where
  "demand n xs r = (if n \<le> length xs then (Inr (fst r), snd r) else (Inl (TvmError STACK_UNDERFLOW), xs))"

definition room :: "nat \<Rightarrow> int list \<Rightarrow> int list \<Rightarrow> (exn + int list) \<times> int list" where
  "room cap xs ys = (if length xs < cap then (Inr [], ys) else (Inl (TvmError STACK_OVERFLOW), xs))"

fun spec_cmd :: "nat \<Rightarrow> stack_cmd \<Rightarrow> int list \<Rightarrow> (exn + int list) \<times> int list" where
  "spec_cmd cap (SPush v) xs = room cap xs (v # xs)"
| "spec_cmd cap SPop xs = demand 1 xs (take 1 xs, drop 1 xs)"
| "spec_cmd cap (SPopN n) xs = demand n xs (take n xs, drop n xs)"
| "spec_cmd cap (SPeek n) xs = demand n xs (take n xs, xs)"
| "spec_cmd cap (SSwap p) xs = demand (p + 1) xs ([], xs[0 := xs ! p, p := xs ! 0])"
| "spec_cmd cap (SDup p) xs = (if p \<le> length xs then room cap xs (xs ! (p - 1) # xs) else (Inl (TvmError STACK_UNDERFLOW), xs))"
| "spec_cmd cap (SExchange a b) xs = demand (max a b + 1) xs ([], xs[b := xs ! a, a := xs ! b])"

fun run_all :: "('c \<Rightarrow> 's \<Rightarrow> 'r \<times> 's) \<Rightarrow> 'c list \<Rightarrow> 's \<Rightarrow> 'r list \<times> 's" where
  "run_all f [] s = ([], s)"
| "run_all f (c # cs) s = (case f c s of (r, t) \<Rightarrow> case run_all f cs t of (rs, u) \<Rightarrow> (r # rs, u))"

definition cmd_ok :: "stack_cmd \<Rightarrow> bool" where
  "cmd_ok c \<longleftrightarrow> (case c of SDup p \<Rightarrow> 0 < p | _ \<Rightarrow> True)"

lemma run_cmd_refines:
  assumes s: "stack_inv s" and c: "cmd_ok c"
  shows "\<exists>s'. run_cmd c s = (fst (spec_cmd (maxHeight s) c (items s)), s') \<and> stack_inv s' \<and> maxHeight s' = maxHeight s \<and>
    items s' = snd (spec_cmd (maxHeight s) c (items s))"
proof (cases c)
  case (SPush v)
  then show ?thesis
    using tvm_stack.push_room [OF s, of v] tvm_stack.push_full [OF s, of v] tvm_stack.bounded [OF s] s
    by (cases "length (items s) < maxHeight s") (auto simp: room_def bnd_def)
next
  case SPop
  show ?thesis
  proof (cases "items s")
    case Nil
    then show ?thesis using SPop s pop_underflow [OF s Nil] by (simp add: demand_def bnd_def)
  next
    case (Cons x xs)
    then have "popN 1 s = (Inr [x], s\<lparr>len := len s - 1\<rparr>)" "stack_inv (s\<lparr>len := len s - 1\<rparr>)" "items (s\<lparr>len := len s - 1\<rparr>) = xs"
      using popN_ok [OF s, of 1] stack_inv_shrink [OF s, of 1] items_shrink [OF s, of 1] length_items [OF s] by simp_all
    then show ?thesis using SPop Cons pop_popN [OF s Cons] by (simp add: demand_def bnd_def)
  qed
next
  case (SPopN n)
  then show ?thesis
    using tvm_stack.popN_enough [OF s, of n] tvm_stack.popN_short [OF s, of n] s
    by (cases "n \<le> length (items s)") (auto simp: demand_def)
next
  case (SPeek n)
  then show ?thesis using peek_eq [OF s, of n] s by (simp add: demand_def)
next
  case (SSwap p)
  then show ?thesis
    using tvm_stack.swap_enough [OF s, of p] tvm_stack.swap_short [OF s, of p] s
    by (cases "p < length (items s)") (auto simp: demand_def bnd_def)
next
  case (SDup p)
  then have p: "0 < p" using c by (simp add: cmd_ok_def)
  show ?thesis
    using SDup p tvm_stack.dup_room [OF s, of p] tvm_stack.dup_short [OF s, of p] tvm_stack.dup_full [OF s, of p]
      tvm_stack.bounded [OF s] s
    by (cases "p \<le> length (items s)"; cases "length (items s) < maxHeight s") (auto simp: room_def bnd_def)
next
  case (SExchange a b)
  show ?thesis
  proof (cases "a < length (items s) \<and> b < length (items s)")
    case True
    then obtain s' where "exchange a b s = (Inr (), s')" "stack_inv s'" "maxHeight s' = maxHeight s"
      "items s' = (items s)[b := items s ! a, a := items s ! b]" using exchange_ok [OF s] by blast
    moreover have "max a b + 1 \<le> length (items s)" using True by auto
    ultimately show ?thesis using SExchange by (simp add: demand_def bnd_def)
  next
    case False
    then show ?thesis using SExchange s exchange_underflow [OF s, of a b] by (auto simp: demand_def bnd_def)
  qed
qed

text \<open>
  C32. The operand stack, an array with a separate length counter, is a list of at most its maximal
  height: any sequence of pushes, pops, peeks, swaps, dups and exchanges on a new stack returns
  what the list returns, with underflow and overflow reported exactly when the list is too short
  or full and without any effect, and shows the list's items at the end.
\<close>
theorem stack_refines:
  assumes "list_all cmd_ok cs"
  shows "fst (run_all run_cmd cs (new_stack h)) = fst (run_all (spec_cmd (maxHeight (new_stack h))) cs []) \<and>
    items (snd (run_all run_cmd cs (new_stack h))) = snd (run_all (spec_cmd (maxHeight (new_stack h))) cs [])"
proof -
  have "fst (run_all run_cmd cs s) = fst (run_all (spec_cmd (maxHeight s)) cs (items s)) \<and>
    items (snd (run_all run_cmd cs s)) = snd (run_all (spec_cmd (maxHeight s)) cs (items s))" if "stack_inv s" for s
    using assms that
  proof (induction cs arbitrary: s)
    case (Cons c cs)
    then obtain s' where s': "run_cmd c s = (fst (spec_cmd (maxHeight s) c (items s)), s')" "stack_inv s'"
      "maxHeight s' = maxHeight s" "items s' = snd (spec_cmd (maxHeight s) c (items s))"
      using run_cmd_refines [of s c] by auto
    with Cons.IH [of s'] Cons.prems show ?case
      by (cases "spec_cmd (maxHeight s) c (items s)") (auto split: prod.splits)
  qed simp
  from this [OF stack_inv_new] show ?thesis by (simp add: items_new)
qed

theorem stack_refines_witness:
  "fst (run_all run_cmd [SPush 5, SPush 6, SSwap 1, SPop, SPopN 3] (new_stack None)) =
     [Inr [], Inr [], Inr [], Inr [5], Inl (TvmError STACK_UNDERFLOW)]"
  using stack_refines [of "[SPush 5, SPush 6, SSwap 1, SPop, SPopN 3]" None]
  by (simp add: cmd_ok_def room_def demand_def new_stack_def)

section \<open>The memory is an array without end\<close>

definition store_bytes :: "(nat \<Rightarrow> byte) \<Rightarrow> nat \<times> bytes \<Rightarrow> nat \<Rightarrow> byte" where
  "store_bytes f w = (case w of (i, v) \<Rightarrow> (\<lambda>k. if i \<le> k \<and> k < i + length v then v ! (k - i) else f k))"

definition write_mem :: "memory \<Rightarrow> nat \<times> bytes \<Rightarrow> memory" where
  "write_mem m w = (case w of (i, v) \<Rightarrow> snd (mem_write i (length v) v m))"

lemma write_mem_byte: "mem_byte (write_mem m w) = store_bytes (mem_byte m) w"
proof (cases w)
  case (Pair i v)
  obtain m' where "mem_write i (length v) v m = (Inr (), m')"
    "mem_byte m' = (\<lambda>k. if i \<le> k \<and> k < i + length v then v ! (k - i) else mem_byte m k)"
    by (rule mem_write_ok [where val = v and offset = i and m = m, OF refl])
  then show ?thesis by (simp add: Pair write_mem_def store_bytes_def)
qed

lemma writes_byte: "mem_byte (foldl write_mem m ws) = foldl store_bytes (mem_byte m) ws"
  by (induction ws arbitrary: m) (simp_all add: write_mem_byte)

text \<open>
  C33. The memory, a buffer grown in containers, is an array of zeros without end: after any
  sequence of writes a read of any range, copied or not, returns the bytes last written there and
  zeros elsewhere, and no write whose length matches its value ever fails.
\<close>
theorem memory_refines:
  "fst (mem_read i n c (foldl write_mem new_memory ws)) = Inr (map (foldl store_bytes (\<lambda>_. 0) ws) [i..<i + n]) \<and>
   fst (mem_write i (length v) v (foldl write_mem new_memory ws)) = Inr ()"
proof -
  obtain m' where "mem_write i (length v) v (foldl write_mem new_memory ws) = (Inr (), m')"
    by (rule mem_write_ok [where val = v and offset = i and m = "foldl write_mem new_memory ws", OF refl])
  then show ?thesis by (simp add: mem_read_ok writes_byte new_memory_zero)
qed

section \<open>Byte arrays are numbers\<close>

lemma word_buf_big:
  assumes "2 ^ 256 \<le> v"
  shows "\<exists>e. word_buf v = Inl e"
proof (cases "word_buf v")
  case (Inr b)
  then have "bytesToBigInt b = v" "length b = 32" by (auto dest: word_buf_value)
  with bytesToBigInt_less [of b] assms show ?thesis by simp
qed simp

text \<open>
  Big-endian encoding: every number that is not negative is read back from its shortest
  encoding and negative numbers are refused; encoding in 32 bytes gives the 32 bytes with that
  value, refuses what is negative or does not fit, and gives back every 32-byte buffer.
\<close>
theorem bytes_roundtrip:
  "(if 0 \<le> n then \<exists>b. bigIntToBytes n = Inr b \<and> bytesToBigInt b = n else \<exists>e. bigIntToBytes n = Inl e) \<and>
   (if 0 \<le> n \<and> n < 2 ^ 256 then \<exists>c. word_buf n = Inr c \<and> length c = 32 \<and> bytesToBigInt c = n
    else \<exists>e. word_buf n = Inl e) \<and>
   (if length b = 32 then word_buf (bytesToBigInt b) = Inr b else word_buf (bytesToBigInt b) \<noteq> Inr b)"
proof (intro conjI)
  show "if 0 \<le> n then \<exists>b. bigIntToBytes n = Inr b \<and> bytesToBigInt b = n else \<exists>e. bigIntToBytes n = Inl e"
    using bigIntToBytes_ok [of n] by (auto simp: bigIntToBytes_def)
  show "if 0 \<le> n \<and> n < 2 ^ 256 then \<exists>c. word_buf n = Inr c \<and> length c = 32 \<and> bytesToBigInt c = n
    else \<exists>e. word_buf n = Inl e"
    using word_buf_ok [of n] word_buf_big [of n] by (auto simp: word_buf_def bigIntToBytes_def)
  show "if length b = 32 then word_buf (bytesToBigInt b) = Inr b else word_buf (bytesToBigInt b) \<noteq> Inr b"
    using word_buf_of_bytes [of b] word_buf_value [of "bytesToBigInt b" b] by auto
qed

text \<open>
  The slice that call data, code and return data are copied through is a window on the data
  followed by zeros, for every offset and length, also far beyond the end.
\<close>
theorem slice_window:
  assumes "0 \<le> offset" "0 \<le> l"
  shows "\<exists>b. getDataSlice data offset l = Inr b \<and> length b = nat l \<and>
    (\<forall>i < nat l. b ! i = (if nat offset + i < length data then data ! (nat offset + i) else 0))"
  using getDataSlice_eq [OF assms, of data] by (simp add: mem_byte_def)

theorem slice_window_witness:
  "\<exists>b. getDataSlice [1, 2, 3] 2 4 = Inr b \<and> length b = 4 \<and> b ! 0 = 3 \<and> b ! 3 = 0"
proof -
  obtain b where "getDataSlice [1, 2, 3] 2 4 = Inr b" "length b = 4"
    "\<forall>i < 4. b ! i = (if 2 + i < length [1, 2, 3 :: byte] then [1, 2, 3] ! (2 + i) else 0)"
    using slice_window [of 2 4 "[1, 2, 3]"] by auto
  then show ?thesis by auto
qed

end
