(* ===== verification/StateProps.thy ===== *)
theory StateProps
  imports World
begin

text \<open>
  The state components under call trees: whatever frames are opened, committed and reverted, the
  component shows what the committed writes alone would have given. Each statement is the shared
  contract of theory \<open>Checkpoints\<close> at the component's interpretation.
\<close>

lemma all_writes_True [simp]: "all_writes (\<lambda>_. True) acts"
  by (induction acts rule: frames_induct) simp_all

section \<open>Transient storage\<close>

text \<open>
  Transient storage, one map with a journal of overwritten values, behaves as a stack of maps:
  after any tree of frames every slot holds its last committed write, or zero if there is none,
  and as many checkpoints are open as before.
\<close>
theorem transient_frames:
  assumes "all_writes put_ok acts"
  shows "\<exists>s. run_frames put_entry transient_checkpoint transient_commit transient_revert acts new_transient = (Inr (), s) \<and>
    transient_get a k s = eval_frames view_put acts (\<lambda>_ _. zeros 32) a k \<and> length (indices s) = 1"
proof -
  obtain s where s: "run_frames put_entry transient_checkpoint transient_commit transient_revert acts new_transient = (Inr (), s)"
    "tview s = eval_frames view_put acts (tview new_transient)" "tsaved s = tsaved new_transient"
    using tstorage.run_frames_refines [OF transient_inv_new assms] by blast
  have "length (indices s) = length (indices new_transient)" using arg_cong [OF s(3), of length] by simp
  moreover have "tview new_transient = (\<lambda>_ _. zeros 32)"
    by (simp add: tview_def new_transient_def store_get_def fun_eq_iff)
  ultimately show ?thesis using s(1,2) by (simp add: transient_get_def tview_def new_transient_def)
qed

theorem transient_frames_witness:
  "\<exists>s. run_frames put_entry transient_checkpoint transient_commit transient_revert
     [Write (1, zeros 32, [7]), Frame [Write (1, zeros 32, [8])] False] new_transient = (Inr (), s) \<and>
     transient_get 1 (zeros 32) s = [7]"
  using transient_frames [of "[Write (1, zeros 32, [7]), Frame [Write (1, zeros 32, [8])] False]" 1 "zeros 32"]
  by (auto simp: put_ok_def view_put_def simp del: run_frames.simps)

section \<open>Journal\<close>

text \<open>
  The journal of warm addresses and slots, touched accounts and written slots undoes a
  reverted frame from its diffs: after any tree of frames it holds exactly the entries of the
  committed frames (the precompile at address 3 stays touched when a frame is reverted, so the
  touched set is compared without it), and its height is back where it was.
\<close>
theorem journal_frames:
  "\<exists>j. run_frames (jwrite_op None) (\<lambda>j. (Inr (), jr_checkpoint j)) (\<lambda>j. (Inr (), jr_commit j))
       (\<lambda>j. (Inr (), jr_revert j)) acts new_journal = (Inr (), j) \<and>
     (warm j, touched j - {RIPEMD160_ADDRESS}, storageWrites j) = eval_frames jwrite_view acts (Map.empty, {}, {}) \<and>
     journalHeight j = 0"
proof -
  obtain j where j: "run_frames (jwrite_op None) (\<lambda>j. (Inr (), jr_checkpoint j)) (\<lambda>j. (Inr (), jr_commit j))
       (\<lambda>j. (Inr (), jr_revert j)) acts new_journal = (Inr (), j)" "journal_inv j"
    "parts j = eval_frames jwrite_view acts (parts new_journal)" "jsaved j = jsaved new_journal"
    using jrnl.run_frames_refines [OF journal_inv_new all_writes_True] by blast
  have "length (jsaved j) = 0" using arg_cong [OF j(4), of length] by (simp add: jsaved_def new_journal_def)
  moreover have "heights_ok (journalDiff j)" "fst (hd (journalDiff j)) = journalHeight j"
    using j(2) by (simp_all add: journal_inv_def)
  then have "0 \<le> journalHeight j" using heights_ok_nonneg by (cases "journalDiff j") fastforce+
  ultimately have "journalHeight j = 0" by (simp add: jsaved_def)
  with j show ?thesis by (simp add: parts_def new_journal_def)
qed

section \<open>State manager\<close>

text \<open>
  The stacks of maps of the simple state manager: after any tree of frames accounts, code and
  storage read as the committed writes say, with an unwritten account absent and unwritten code
  and storage empty, and the stacks have one layer again.
\<close>
theorem state_manager_frames:
  "\<exists>s. run_frames (\<lambda>c s. (Inr (), sm_write kec c s)) (\<lambda>s. (Inr (), checkpointSync s)) (\<lambda>s. (Inr (), sm_commit s))
       (\<lambda>s. (Inr (), sm_revert s)) acts new_state_manager = (Inr (), s) \<and> length (accountStack s) = 1 \<and>
     (case eval_frames (view_write kec) acts (Map.empty, Map.empty, Map.empty, {}) of (A, C, St, Ids) \<Rightarrow>
        getAccount a s = A a \<and> getCode a s = or_else (C a) [] \<and> getStorage a k s = or_else (St (a, k)) [] \<and>
        (tokenIdExists t s \<longleftrightarrow> t \<in> Ids))"
proof -
  obtain s where s: "run_frames (\<lambda>c s. (Inr (), sm_write kec c s)) (\<lambda>s. (Inr (), checkpointSync s)) (\<lambda>s. (Inr (), sm_commit s))
       (\<lambda>s. (Inr (), sm_revert s)) acts new_state_manager = (Inr (), s)" "sm_inv s"
    "sm_view s = eval_frames (view_write kec) acts (sm_view new_state_manager)" "sm_saved s = sm_saved new_state_manager"
    using sm.run_frames_refines [OF sm_inv_new all_writes_True] by blast
  have n: "sm_view new_state_manager = (Map.empty, Map.empty, Map.empty, {})" "sm_saved new_state_manager = []"
    by (simp_all add: sm_obs new_state_manager_def checkpointSync_def top_map_def top_set_def)
  show ?thesis
    using s(2)
  proof (elim sm_inv_cases)
    fix A As C Cs St Sts T Ts
    assume e: "s = \<lparr>accountStack = A # As, codeStack = C # Cs, storageStack = St # Sts, tokenIdStack = T # Ts\<rparr>"
      and l: "length Cs = length As" "length Sts = length As" "length Ts = length As"
    have "length (sm_saved s) = 0" using s(4) n(2) by simp
    then have "As = []" using l by (simp add: sm_obs e)
    moreover have "sm_view s = (A, C, St, T)" by (simp add: sm_obs e)
    then have "eval_frames (view_write kec) acts (Map.empty, Map.empty, Map.empty, {}) = (A, C, St, T)" using s(3) n(1) by simp
    ultimately show ?thesis
      using s(1) by (simp add: e getAccount_def getCode_def getStorage_def tokenIdExists_def top_map_def top_set_def)
  qed
qed

section \<open>The world of a message\<close>

text \<open>
  C34. The checkpoints of a message open, commit and revert the state manager, the journal and the
  transient storage in step: after any tree of messages all three show the committed writes and
  none has a checkpoint left over.
\<close>
theorem world_frames:
  assumes "all_writes world_write_ok acts"
  shows "\<exists>w. run_frames (world_write kec) tvm_checkpoint tvm_commit tvm_revert acts new_world = (Inr (), w) \<and>
    (sm_view (w_sm w), parts (w_jr w), tview (w_ts w)) =
      eval_frames (world_write_view kec) acts ((Map.empty, Map.empty, Map.empty, {}), (Map.empty, {}, {}), (\<lambda>_ _. zeros 32)) \<and>
    world_saved w = []"
proof -
  have n: "world_view new_world = ((Map.empty, Map.empty, Map.empty, {}), (Map.empty, {}, {}), (\<lambda>_ _. zeros 32))"
    "world_saved new_world = []" using world_inv_new(2)
    by (simp_all add: world_view_def new_world_def sm_obs new_state_manager_def checkpointSync_def top_map_def
        top_set_def parts_def new_journal_def tview_def new_transient_def store_get_def fun_eq_iff)
  from wld.run_frames_refines [OF conjI [OF world_inv_new(1,3)] assms, of kec, unfolded n] show ?thesis
    unfolding world_view_def by blast
qed

theorem world_frames_witness:
  "\<exists>w. run_frames (world_write id) tvm_checkpoint tvm_commit tvm_revert
      [Frame [Write (WAccount 1 (Some new_account)), Write (WTransient (1, zeros 32, [1]))] False] new_world = (Inr (), w) \<and>
    sm_view (w_sm w) = (Map.empty, Map.empty, Map.empty, {}) \<and> world_saved w = []"
  using world_frames [of "[Frame [Write (WAccount 1 (Some new_account)), Write (WTransient (1, zeros 32, [1]))] False]" id]
  by (auto simp: put_ok_def simp del: run_frames.simps)

end
