(* ===== verification/GasProps.thy ===== *)
theory GasProps
  imports StepOk Tvm
begin

text \<open>
  Properties of the gas accounting, the opcode table, messages, creation and self-destruct that
  stand beside the invariant of a frame.
\<close>

section \<open>Memory gas\<close>

text \<open>The charges of a sequence of memory ranges.\<close>

fun charge_all :: "common \<Rightarrow> (int \<times> int) list \<Rightarrow> run_state \<Rightarrow> int list \<times> run_state" where
  "charge_all c [] s = ([], s)"
| "charge_all c ((a, n) # rs) s = (case subMemUsage c a n s of
     (Inl _, t) \<Rightarrow> charge_all c rs t
   | (Inr x, t) \<Rightarrow> (case charge_all c rs t of (xs, u) \<Rightarrow> (x # xs, u)))"

text \<open>The words that hold all the ranges.\<close>

definition span_words :: "(int \<times> int) list \<Rightarrow> int \<Rightarrow> int" where
  "span_words rs w = foldl (\<lambda>w (a, n). if n = 0 then w else max w (divCeil (a + n) 32)) w rs"

lemma span_words_ge: "w \<le> span_words rs w"
proof (induction rs arbitrary: w)
  case (Cons r rs)
  obtain a n where r: "r = (a, n)" by (cases r)
  have "w \<le> (if n = 0 then w else max w (divCeil (a + n) 32))" by simp
  also have "\<dots> \<le> span_words rs (if n = 0 then w else max w (divCeil (a + n) 32))" by (rule Cons)
  finally show ?case by (simp add: span_words_def r)
qed (simp add: span_words_def)

lemma charge_all_sum:
  assumes "0 \<le> memoryWordCount s" "highestMemCost s = mem_cost (memoryWordCount s)"
  shows "case charge_all c rs s of (xs, t) \<Rightarrow> length xs = length rs \<and>
    sum_list xs = mem_cost (span_words rs (memoryWordCount s)) - mem_cost (memoryWordCount s) \<and>
    (\<forall>x \<in> set xs. 0 \<le> x) \<and> memoryWordCount t = span_words rs (memoryWordCount s)"
  using assms
proof (induction rs arbitrary: s)
  case (Cons r rs)
  obtain a n where r: "r = (a, n)" by (cases r)
  define w where "w = (if n = 0 then memoryWordCount s else max (memoryWordCount s) (divCeil (a + n) 32))"
  let ?t = "s\<lparr>highestMemCost := mem_cost w, memoryWordCount := w\<rparr>"
  have run: "subMemUsage c a n s = (Inr (mem_cost w - mem_cost (memoryWordCount s)), ?t)"
    using subMemUsage_eq [OF Cons.prems] by (simp add: w_def Let_def)
  have le: "memoryWordCount s \<le> w" "0 \<le> w" using Cons.prems by (auto simp: w_def)
  have pos: "0 \<le> mem_cost w - mem_cost (memoryWordCount s)" using mem_cost_mono [OF Cons.prems(1) le(1)] by simp
  have "span_words (r # rs) (memoryWordCount s) = span_words rs w" by (simp add: span_words_def r w_def)
  with Cons.IH [of ?t] le pos show ?case by (auto simp: r run split: prod.splits)
qed (simp add: span_words_def)

text \<open>
  Memory gas is path independent: over any sequence of accesses a frame pays in total
  $3w + w^2/512$ for the $w$ words that span all of them, in whatever order and however often it
  touches them, and no access is paid back.
\<close>
theorem memory_gas_total:
  assumes "memoryWordCount s = 0" "highestMemCost s = 0"
  shows "sum_list (fst (charge_all c rs s)) = span_words rs 0 * 3 + span_words rs 0 * span_words rs 0 div 512 \<and>
    (\<forall>x \<in> set (fst (charge_all c rs s)). 0 \<le> x)"
  using charge_all_sum [where s = s and c = c and rs = rs] assms by (auto simp: mem_cost_def split: prod.splits)

theorem memory_gas_total_witness:
  "sum_list (fst (charge_all \<lparr>eip7939 = True, proposal65 = True\<rparr> [(0, 32), (64, 1), (0, 96)]
     (undefined\<lparr>memoryWordCount := 0, highestMemCost := 0\<rparr>))) = 9"
  using memory_gas_total [of "undefined\<lparr>memoryWordCount := 0, highestMemCost := 0\<rparr>"
      "\<lparr>eip7939 = True, proposal65 = True\<rparr>" "[(0, 32), (64, 1), (0, 96)]"]
  by (simp add: span_words_def divCeil_eq del: charge_all.simps)

section \<open>The opcode table\<close>

text \<open>The opcodes with a handler and those with a gas handler, beside the instruction families.\<close>

definition run_ops :: "nat list" where
  "run_ops = [0, 1, 2, 3, 4, 5, 6, 7, 8, 9, 0xa, 0xb, 0x10, 0x11, 0x12, 0x13, 0x14, 0x15, 0x16, 0x17, 0x18,
     0x19, 0x1a, 0x1b, 0x1c, 0x1d, 0x1e, 0x20, 0x30, 0x31, 0x32, 0x33, 0x34, 0x35, 0x36, 0x37, 0x38,
     0x39, 0x3a, 0x3b, 0x3c, 0x3d, 0x3e, 0x3f, 0x40, 0x41, 0x42, 0x43, 0x44, 0x45, 0x46, 0x47, 0x48,
     0x50, 0x51, 0x52, 0x53, 0x54, 0x55, 0x56, 0x57, 0x58, 0x59, 0x5a, 0x5b, 0x5c, 0x5d, 0x5e, 0x5f,
     0xd0, 0xd1, 0xd2, 0xd3, 0xd4, 0xf0, 0xf1, 0xf2, 0xf3, 0xf4, 0xf5, 0xfa, 0xfd, 0xff]"

definition gas_ops :: "nat list" where
  "gas_ops = [0xa, 0x20, 0x31, 0x37, 0x39, 0x3b, 0x3c, 0x3e, 0x3f, 0x51, 0x52, 0x53, 0x54, 0x55, 0x5e, 0xd0,
     0xd1, 0xd4, 0xf0, 0xf1, 0xf2, 0xf3, 0xf4, 0xf5, 0xfa, 0xfd, 0xff]"

definition handled :: "nat \<times> op_entry \<Rightarrow> bool" where
  "handled x = (case x of (opc, e) \<Rightarrow> en_name e = ''INVALID'' \<or>
     ((opc \<in> set run_ops \<or> 0x60 \<le> opc \<and> opc \<le> 0xa4) \<and>
      (en_dynamicGas e \<longrightarrow> opc \<in> set gas_ops \<or> 0xa0 \<le> opc \<and> opc \<le> 0xa4)))"

lemma run_ops_handlers: "list_all (\<lambda>k. handlers k \<noteq> None) run_ops"
  by (simp add: run_ops_def handlers_def alu_handler_def)

lemma family_handlers: "0x60 \<le> opc \<Longrightarrow> opc \<le> 0xa4 \<Longrightarrow> handlers opc \<noteq> None"
  by (cases "alu_handler opc") (auto simp: handlers_def)

lemma gas_ops_handlers: "list_all (\<lambda>k. dynamicGasHandlers k \<noteq> None) gas_ops"
  by (simp add: gas_ops_def dynamicGasHandlers_def)

lemma log_gas_handler: "0xa0 \<le> opc \<Longrightarrow> opc \<le> 0xa4 \<Longrightarrow> dynamicGasHandlers opc \<noteq> None"
  by (simp add: dynamicGasHandlers_def)

lemma handled_handlers:
  assumes "handled (opc, e)" "en_name e \<noteq> ''INVALID''"
  shows "handlers opc \<noteq> None" "en_dynamicGas e \<Longrightarrow> dynamicGasHandlers opc \<noteq> None"
  using assms run_ops_handlers gas_ops_handlers family_handlers [of opc] log_gas_handler [of opc]
  unfolding handled_def list_all_iff by auto

definition profile_entries :: "(nat \<times> op_entry) list" where
  "profile_entries = concat (opcodes # map snd (filter (\<lambda>(eip, _). List.member (7939 # profile_eips) eip)
     (baseCapabilityOpcodes @ eipOpcodes)))"

lemma all_handled: "list_all handled profile_entries"
  by (simp add: profile_entries_def opcodes_def baseCapabilityOpcodes_def eipOpcodes_def profile_eips_def handled_def
      run_ops_def gas_ops_def default_op_def dynamicGas_op_def async_op_def asyncAndDynamicGas_op_def)

lemma op_groups_profile: "g \<in> set (op_groups c) \<Longrightarrow> x \<in> set g \<Longrightarrow> x \<in> set profile_entries"
  by (fastforce simp: op_groups_def profile_entries_def isActivatedEIP_def activatedEIPs_def split: if_splits)

text \<open>
  The opcode table is complete: every opcode of every activation of the profile that the
  table lists as valid has a handler, and a gas handler if its entry says that its fee is
  dynamic; no instruction runs into a missing function.
\<close>
theorem opcode_table_complete:
  assumes "\<not> oi_isInvalid (opcodeMap c opc)"
  shows "handlers opc \<noteq> None \<and> (oi_dynamicGas (opcodeMap c opc) \<longrightarrow> dynamicGasHandlers opc \<noteq> None)"
proof -
  from assms obtain e where e: "opcodeBuilder c opc = Some e"
    by (cases "opcodeBuilder c opc") (auto simp: opcodeMap_def INVALID_entry_def new_Opcode_def default_op_def)
  then obtain g where "g \<in> set (op_groups c)" "(opc, e) \<in> set g" by (auto simp: opcodeBuilder_def dest: foldl_entry)
  then have "handled (opc, e)" using op_groups_profile all_handled by (auto simp: list_all_iff)
  with assms e show ?thesis
    using handled_handlers [of opc e] by (auto simp: opcodeMap_def new_Opcode_def)
qed

theorem opcode_table_complete_witness:
  "handlers 0xf1 \<noteq> None \<and> dynamicGasHandlers 0xf1 \<noteq> None"
proof -
  let ?c = "\<lparr>eip7939 = True, proposal65 = True\<rparr>"
  have "opcodeBuilder ?c 0xf1 = Some (asyncAndDynamicGas_op ''CALL'')"
    by (simp add: opcodeBuilder_def op_groups_def isActivatedEIP_def activatedEIPs_def profile_eips_def
        opcodes_def baseCapabilityOpcodes_def eipOpcodes_def)
  then have "\<not> oi_isInvalid (opcodeMap ?c 0xf1)" "oi_dynamicGas (opcodeMap ?c 0xf1)"
    by (simp_all add: opcodeMap_def new_Opcode_def asyncAndDynamicGas_op_def)
  with opcode_table_complete [where c = ?c and opc = "0xf1"] show ?thesis by blast
qed

section \<open>Messages\<close>

text \<open>
  The checks of the message constructor: a message is accepted, unchanged, exactly if its
  value is not negative, its token amount is between zero and the largest signed 64-bit number,
  and its token id is zero with no amount or lies above 1000000 within the signed 64-bit range.
\<close>
theorem new_Message_accepts:
  "(new_Message m = Inr m') \<longleftrightarrow> m' = m \<and> 0 \<le> m_value m \<and> 0 \<le> m_tokenValue m \<and> m_tokenValue m \<le> 2 ^ 63 - 1 \<and>
     (m_tokenId m = 0 \<and> m_tokenValue m = 0 \<or> 1000000 < m_tokenId m \<and> m_tokenId m \<le> 2 ^ 63 - 1)"
  by (auto simp: new_Message_def MIN_TOKEN_ID_def MAX_INT64_def)

section \<open>Creation\<close>

text \<open>
  What creation makes of the constructor's result: a successful one is charged for its code
  and kept if the charge fits the gas limit and the code does not begin with the reserved byte;
  otherwise all gas is gone and the error says why.
\<close>
theorem deploy_outcome:
  assumes "x_exceptionError r = None"
  shows "deploy_result H m r =
    (let total = x_executionGasUsed r + int (length (x_returnValue r)) * 200
     in if m_gasLimit m < total
        then r\<lparr>x_returnValue := [], x_executionGasUsed := m_gasLimit m, x_exceptionError := Some (TvmError OUT_OF_GAS)\<rparr>
        else if x_returnValue r \<noteq> [] \<and> hd (x_returnValue r) = 0xef
        then r\<lparr>x_returnValue := [], x_executionGasUsed := m_gasLimit m,
               x_exceptionError := Some (TvmError INVALID_BYTECODE_RESULT)\<rparr>
        else r\<lparr>x_executionGasUsed := total\<rparr>)"
  using assms
  by (cases "x_returnValue r") (auto simp: deploy_result_def Let_def OOGResult_def INVALID_BYTECODE_RESULT_of_def)

theorem deploy_outcome_witness:
  "\<forall>H. x_executionGasUsed (deploy_result H (default_message\<lparr>m_gasLimit := 1000\<rparr>) (empty_result\<lparr>x_returnValue := [1, 2]\<rparr>)) = 400"
  using deploy_outcome [where r = "empty_result\<lparr>x_returnValue := [1, 2]\<rparr>" and m = "default_message\<lparr>m_gasLimit := 1000\<rparr>"]
  by (simp add: empty_result_def default_message_def)

text \<open>
  A constructor that ends by REVERT with a payload whose first byte is the reserved byte loses
  all its gas and the payload: the check for that byte is made on the returned data whether or not
  the constructor has succeeded.
\<close>
theorem revert_payload_burns:
  assumes "x_exceptionError r = Some (TvmError REVERT)" "x_executionGasUsed r \<le> m_gasLimit m" "x_returnValue r = 0xef # d"
  shows "x_executionGasUsed (deploy_result H m r) = m_gasLimit m \<and> x_returnValue (deploy_result H m r) = [] \<and>
    x_exceptionError (deploy_result H m r) = Some (TvmError INVALID_BYTECODE_RESULT)"
  using assms by (simp add: deploy_result_def INVALID_BYTECODE_RESULT_of_def)

theorem revert_payload_burns_witness:
  "\<forall>H. x_executionGasUsed (deploy_result H (default_message\<lparr>m_gasLimit := 1000\<rparr>)
     (empty_result\<lparr>x_returnValue := [0xef], x_executionGasUsed := 10, x_exceptionError := Some (TvmError REVERT)\<rparr>)) = 1000"
  using revert_payload_burns [where d = "[]" and m = "default_message\<lparr>m_gasLimit := 1000\<rparr>" and
    r = "empty_result\<lparr>x_returnValue := [0xef], x_executionGasUsed := 10, x_exceptionError := Some (TvmError REVERT)\<rparr>"]
  by simp

end
