(* ===== verification/Hex.thy ===== *)
theory Hex
  imports Bytes
begin

text \<open>
  The hexadecimal strings of \<^verbatim>\<open>packages/rlp/src/index.ts\<close>: numbers and byte arrays as strings of
  digits and back. A string is a list of characters.
\<close>

section \<open>Definitions\<close>

text \<open>One digit of \<^verbatim>\<open>toString(16)\<close>.\<close>

definition hex_char :: "nat \<Rightarrow> char" where
  "hex_char d = char_of (if d < 10 then 48 + d else 87 + d)"

fun toString16 :: "nat \<Rightarrow> string" where
  "toString16 n = (if n < 16 then [hex_char n] else toString16 (n div 16) @ [hex_char (n mod 16)])"

declare toString16.simps [simp del]

text \<open>\<^verbatim>\<open>cachedHexes\<close>: the two digits of a byte.\<close>

definition cachedHexes :: "byte \<Rightarrow> string" where
  "cachedHexes b = [hex_char (unat b div 16), hex_char (unat b mod 16)]"

definition hex_of_bytes :: "bytes \<Rightarrow> string" where
  "hex_of_bytes bs = concat (map cachedHexes bs)"

definition asciiToBase16 :: "nat \<Rightarrow> nat option" where
  "asciiToBase16 c =
     (if 48 \<le> c \<and> c \<le> 57 then Some (c - 48)
      else if 65 \<le> c \<and> c \<le> 70 then Some (c - (65 - 10))
      else if 97 \<le> c \<and> c \<le> 102 then Some (c - (97 - 10))
      else None)"

text \<open>\<^verbatim>\<open>Number.parseInt(s, 16)\<close> on a string with no sign, blanks or prefix: the leading digits; no
  digit gives NaN.\<close>

definition base16 :: "char \<Rightarrow> nat option" where
  "base16 ch = asciiToBase16 (of_char ch)"

definition parseInt16 :: "string \<Rightarrow> nat option" where
  "parseInt16 s = (case takeWhile (\<lambda>ch. base16 ch \<noteq> None) s of
     [] \<Rightarrow> None | ds \<Rightarrow> Some (foldl (\<lambda>n ch. n * 16 + the (base16 ch)) 0 ds))"

definition parseHexByte :: "string \<Rightarrow> exn + nat" where
  "parseHexByte s = (case parseInt16 s of None \<Rightarrow> Inl (HostError ''Invalid byte sequence'') | Some n \<Rightarrow> Inr n)"

text \<open>The loop of \<^verbatim>\<open>hexToBytes\<close> over pairs of digits, for a string of even length.\<close>

fun hex_pairs :: "string \<Rightarrow> exn + bytes" where
  "hex_pairs (a # b # s) = (case (base16 a, base16 b) of
     (Some n1, Some n2) \<Rightarrow> map_sum id (\<lambda>bs. word_of_nat (n1 * 16 + n2) # bs) (hex_pairs s)
   | _ \<Rightarrow> Inl (HostError ''hex string expected, got non-hex character''))"
| "hex_pairs _ = Inr []"

definition isHexString :: "string \<Rightarrow> bool" where
  "isHexString s \<longleftrightarrow> (case s of a # b # _ \<Rightarrow> a = CHR ''0'' \<and> b = CHR ''x'' | _ \<Rightarrow> False)"

definition stripHexPrefix :: "string \<Rightarrow> string" where
  "stripHexPrefix s = (if isHexString s then drop 2 s else s)"

definition padToEven :: "string \<Rightarrow> string" where
  "padToEven a = (if odd (length a) then CHR ''0'' # a else a)"

definition hexToBytes :: "string \<Rightarrow> exn + bytes" where
  "hexToBytes hex =
     (let h = (if take 2 hex = ''0x'' then drop 2 hex else hex)
      in if odd (length h) then Inl (HostError ''padded hex string expected'') else hex_pairs h)"

definition numberToHex :: "int \<Rightarrow> exn + string" where
  "numberToHex i =
     (if i < 0 then Inl (HostError ''Invalid integer as argument, must be unsigned!'')
      else let hex = toString16 (nat i) in Inr (if odd (length hex) then CHR ''0'' # hex else hex))"

section \<open>Digits\<close>

lemma base16_hex_char: "d < 16 \<Longrightarrow> base16 (hex_char d) = Some d"
  by (auto simp: base16_def hex_char_def asciiToBase16_def)

lemma zero_hex: "CHR ''0'' = hex_char 0"
  by (simp add: hex_char_def char_of_def bit_numeral_rec bit_Suc_0_iff)

definition digits :: "nat list \<Rightarrow> string" where
  "digits ds = map hex_char ds"

definition value16 :: "nat list \<Rightarrow> nat" where
  "value16 ds = foldl (\<lambda>n d. n * 16 + d) 0 ds"

definition hex_digits :: "nat list \<Rightarrow> bool" where
  "hex_digits ds \<longleftrightarrow> (\<forall>d \<in> set ds. d < 16)"

lemma value16_snoc [simp]: "value16 [] = 0" "value16 (ds @ [d]) = value16 ds * 16 + d"
  by (simp_all add: value16_def)

lemma digits_simps [simp]: "digits [] = []" "digits (d # ds) = hex_char d # digits ds"
  "digits (ds @ es) = digits ds @ digits es" "length (digits ds) = length ds"
  by (simp_all add: digits_def)

lemma hex_digits_simps [simp]: "hex_digits []" "hex_digits (d # ds) \<longleftrightarrow> d < 16 \<and> hex_digits ds"
  "hex_digits (ds @ es) \<longleftrightarrow> hex_digits ds \<and> hex_digits es"
  by (auto simp: hex_digits_def)

text \<open>No string of digits has the prefix.\<close>

lemma digits_no_prefix:
  assumes "hex_digits ds"
  shows "take 2 (digits ds) \<noteq> ''0x''"
proof
  assume a: "take 2 (digits ds) = ''0x''"
  then obtain d e es where ds: "ds = d # e # es"
    by (cases ds; cases "tl ds") auto
  have "hex_char e = CHR ''x''" using a by (simp add: ds numeral_2_eq_2)
  moreover have "base16 (hex_char e) = Some e" using assms by (simp add: ds base16_hex_char)
  moreover have "base16 (CHR ''x'') = None" by (simp add: base16_def asciiToBase16_def)
  ultimately show False by simp
qed

lemma toString16_digits:
  "\<exists>ds. toString16 n = digits ds \<and> hex_digits ds \<and> value16 ds = n \<and> ds \<noteq> [] \<and> (0 < n \<longrightarrow> hd ds \<noteq> 0)"
proof (induction n rule: toString16.induct)
  case (1 n)
  show ?case
  proof (cases "n < 16")
    case True
    then have "toString16 n = digits [n] \<and> hex_digits [n] \<and> value16 [n] = n"
      by (simp add: toString16.simps [of n] value16_def)
    then show ?thesis by (intro exI [of _ "[n]"]) simp
  next
    case False
    obtain ds where ds: "toString16 (n div 16) = digits ds" "hex_digits ds" "value16 ds = n div 16"
      "ds \<noteq> []" "0 < n div 16 \<longrightarrow> hd ds \<noteq> 0" using 1 [OF False] by (elim exE conjE)
    have "0 < n div 16" using False by simp
    with ds False have "toString16 n = digits (ds @ [n mod 16]) \<and> hex_digits (ds @ [n mod 16]) \<and>
      value16 (ds @ [n mod 16]) = n \<and> hd (ds @ [n mod 16]) \<noteq> 0" by (simp add: toString16.simps [of n])
    then show ?thesis by blast
  qed
qed

text \<open>The bytes of digits taken in pairs.\<close>

fun pair_up :: "nat list \<Rightarrow> bytes" where
  "pair_up (a # b # ds) = word_of_nat (a * 16 + b) # pair_up ds"
| "pair_up _ = []"

lemma hex_pairs_digits: "hex_digits ds \<Longrightarrow> hex_pairs (digits ds) = Inr (pair_up ds)"
  by (induction ds rule: pair_up.induct) (simp_all add: base16_hex_char)

lemma hexToBytes_digits: "hex_digits ds \<Longrightarrow> even (length ds) \<Longrightarrow> hexToBytes (digits ds) = Inr (pair_up ds)"
  using digits_no_prefix [of ds] by (simp add: hexToBytes_def hex_pairs_digits)

lemma pair_up_append: "even (length ds) \<Longrightarrow> pair_up (ds @ es) = pair_up ds @ pair_up es"
  by (induction ds rule: pair_up.induct) simp_all

lemma length_pair_up: "length (pair_up ds) = length ds div 2"
  by (induction ds rule: pair_up.induct) simp_all

lemma value16_append: "value16 (ds @ es) = value16 ds * 16 ^ length es + value16 es"
  by (induction es rule: rev_induct) (simp_all flip: append_assoc add: algebra_simps)

lemma pair_up_value:
  assumes "hex_digits ds" "even (length ds)"
  shows "bytesToBigInt (pair_up ds) = int (value16 ds)"
  using assms
proof (induction ds rule: pair_up.induct)
  case (1 a b ds)
  define k where "k = a * 16 + b"
  with 1 have "k < 256" by simp
  then have "uint (word_of_nat k :: byte) = int k" by (simp add: uint_of_nat_byte)
  moreover have "value16 (a # b # ds) = k * 16 ^ length ds + value16 ds"
    using value16_append [of "[a, b]" ds] by (simp add: value16_def k_def)
  moreover have "(256 :: int) ^ (length ds div 2) = 16 ^ length ds"
    using 1(3) by (auto simp: power_mult elim!: evenE)
  ultimately show ?case using 1 by (simp flip: k_def add: bytesToBigInt_Cons length_pair_up)
qed simp_all

section \<open>Round trips\<close>

definition nibbles_of :: "bytes \<Rightarrow> nat list" where
  "nibbles_of bs = concat (map (\<lambda>b. [unat b div 16, unat b mod 16]) bs)"

lemma nibbles_of_simps [simp]: "nibbles_of [] = []" "nibbles_of (b # bs) = unat b div 16 # unat b mod 16 # nibbles_of bs"
  "nibbles_of (bs @ cs) = nibbles_of bs @ nibbles_of cs"
  by (simp_all add: nibbles_of_def)

lemma unat_byte: "unat (b :: byte) < 256"
  using unsigned_less [of b] by simp

lemma nibbles_of_facts: "hex_digits (nibbles_of bs)" "length (nibbles_of bs) = 2 * length bs" "pair_up (nibbles_of bs) = bs"
proof -
  have "unat b div 16 < 16" for b :: byte using unat_byte [of b] by (simp add: less_mult_imp_div_less)
  then show "hex_digits (nibbles_of bs)" by (induction bs) simp_all
  show "length (nibbles_of bs) = 2 * length bs" "pair_up (nibbles_of bs) = bs" by (induction bs) (simp_all add: word_of_nat_eq_iff)
qed

lemma hex_of_bytes_digits: "hex_of_bytes bs = digits (nibbles_of bs)"
  by (induction bs) (simp_all add: hex_of_bytes_def cachedHexes_def)

lemma hexToBytes_hex_of_bytes: "hexToBytes (hex_of_bytes bs) = Inr bs"
  using hexToBytes_digits [OF nibbles_of_facts(1), of bs] by (simp add: hex_of_bytes_digits nibbles_of_facts)

lemma value16_nibbles: "int (value16 (nibbles_of bs)) = bytesToBigInt bs"
  using pair_up_value [OF nibbles_of_facts(1), of bs] by (simp add: nibbles_of_facts)

lemma parseHexByte_bytes: "bs \<noteq> [] \<Longrightarrow> parseHexByte (hex_of_bytes bs) = Inr (nat (bytesToBigInt bs))"
proof -
  assume "bs \<noteq> []"
  then have n: "nibbles_of bs \<noteq> []" by (cases bs) simp_all
  have t: "takeWhile (\<lambda>ch. base16 ch \<noteq> None) (digits ds) = digits ds" if "hex_digits ds" for ds
    using that by (induction ds) (simp_all add: base16_hex_char)
  have f: "foldl (\<lambda>n ch. n * 16 + the (base16 ch)) k (digits ds) = foldl (\<lambda>n d. n * 16 + d) k ds" if "hex_digits ds" for ds k
    using that by (induction ds arbitrary: k) (simp_all add: base16_hex_char)
  have "nat (bytesToBigInt bs) = value16 (nibbles_of bs)" using value16_nibbles [of bs] by (metis nat_int)
  moreover have "parseInt16 (digits ds) = Some (value16 ds)" if "hex_digits ds" "ds \<noteq> []" for ds
    using that t [of ds] f [of ds 0] by (cases ds) (simp_all add: parseInt16_def value16_def)
  ultimately show ?thesis using n by (simp add: parseHexByte_def hex_of_bytes_digits nibbles_of_facts(1))
qed

text \<open>The bytes of a number: its digits in base 256.\<close>

lemma be_digits_eqI:
  assumes "bytesToBigInt bs = int n" "bs \<noteq> []" "hd bs \<noteq> 0"
  shows "bs = be_digits n"
proof -
  have shorter: "length xs \<le> length ys" if v: "bytesToBigInt xs = bytesToBigInt ys" and x0: "xs \<noteq> []" "hd xs \<noteq> 0" for xs ys
  proof (rule ccontr)
    assume "\<not> length xs \<le> length ys"
    obtain x xs' where x: "xs = x # xs'" using x0(1) by (cases xs) auto
    have "uint x \<noteq> 0" using x0(2) x by (auto simp: word_uint_eq_iff)
    then have "1 \<le> uint x" using uint_nonnegative [of x] by linarith
    then have "256 ^ length xs' \<le> uint x * 256 ^ length xs'" by simp
    then have "256 ^ length xs' \<le> bytesToBigInt xs" by (simp add: x bytesToBigInt_Cons add_increasing2)
    moreover have "bytesToBigInt ys < 256 ^ length ys" by (rule bytesToBigInt_less)
    moreover have "(256 :: int) ^ length ys \<le> 256 ^ length xs'"
      using \<open>\<not> length xs \<le> length ys\<close> x by (intro power_increasing) auto
    ultimately show False using v by linarith
  qed
  have "0 < n"
  proof (rule ccontr)
    assume "\<not> 0 < n"
    with assms(1) have "bs = zeros (length bs)" by (intro bytesToBigInt_eq_0) simp
    with assms(2,3) show False by (metis hd_conv_nth length_greater_0_conv nth_zeros)
  qed
  then have "be_digits n \<noteq> []" "hd (be_digits n) \<noteq> 0" by (simp_all add: be_digits_hd)
  with shorter [of bs "be_digits n"] shorter [of "be_digits n" bs] assms
  show ?thesis by (intro bytesToBigInt_inject) (simp_all add: be_digits_value)
qed

text \<open>The hexadecimal form of a positive number stands for its digits in base 256.\<close>

lemma numberToHex_bytes:
  assumes "0 < n"
  obtains ds where "numberToHex (int n) = Inr (digits ds)" "hex_digits ds" "even (length ds)" "pair_up ds = be_digits n"
proof -
  obtain ds where ds: "toString16 n = digits ds" "hex_digits ds" "value16 ds = n" "ds \<noteq> []" "hd ds \<noteq> 0"
    using toString16_digits [of n] assms by blast
  define es where "es = (if odd (length ds) then 0 # ds else ds)"
  have h: "numberToHex (int n) = Inr (digits es)" by (simp add: numberToHex_def es_def ds zero_hex Let_def)
  have e: "hex_digits es" "even (length es)" using ds(2) by (auto simp: es_def)
  have "value16 es = n" using ds(3) value16_append [of "[0]" ds] by (simp add: es_def value16_def)
  then have v: "bytesToBigInt (pair_up es) = int n" using pair_up_value [OF e] by simp
  have "es \<noteq> []" using ds(4) by (simp add: es_def)
  then obtain a b fs where es: "es = a # b # fs" using e(2) by (cases es rule: pair_up.cases) auto
  have "a * 16 + b \<noteq> 0 \<and> a * 16 + b < 256" using e(1) ds(4,5) es by (cases ds) (auto simp: es_def split: if_splits)
  moreover have "(word_of_nat k :: byte) \<noteq> 0" if "k \<noteq> 0 \<and> k < 256" for k
    using that uint_of_nat_byte [of k] by auto
  ultimately have "(word_of_nat (a * 16 + b) :: byte) \<noteq> 0" by blast
  then have "hd (pair_up es) \<noteq> 0" "pair_up es \<noteq> []" by (simp_all only: es pair_up.simps list.sel list.distinct) simp_all
  then have "pair_up es = be_digits n" using v by (intro be_digits_eqI)
  with h e that show thesis by blast
qed

end
