(* ===== verification/Rlp.thy ===== *)
theory Rlp
  imports Hex
begin

text \<open>
  The recursive length prefix encoding of \<^verbatim>\<open>packages/rlp/src/index.ts\<close>: \<^verbatim>\<open>encode\<close> on every kind of
  input and the strict \<^verbatim>\<open>decode\<close>. Lengths are numbers of the source that stay below $2^{53}$, since
  they are lengths of arrays; a longer decoded length is rejected as out of bounds whether or not
  it is rounded. Strings hold characters below 256, numbers are integers.

  The results: what is encoded is decoded to the same value, and the decoder accepts only what the
  encoder writes.
\<close>

section \<open>Encoding\<close>

datatype rlp_input = IStr string | INum int | IBytes bytes | IArr "rlp_input list" | INull

datatype rlp = RBytes bytes | RList "rlp list"

definition utf8ToBytes :: "string \<Rightarrow> bytes" where
  "utf8ToBytes s = concat (map (\<lambda>ch. let c = (of_char ch :: nat) in
     if c < 128 then [word_of_nat c] else [word_of_nat (192 + c div 64), word_of_nat (128 + c mod 64)]) s)"

text \<open>\<^verbatim>\<open>toBytes\<close>; an array is an unsupported type.\<close>

definition rlp_toBytes :: "rlp_input \<Rightarrow> exn + bytes" where
  "rlp_toBytes v = (case v of
     IBytes b \<Rightarrow> Inr b
   | IStr s \<Rightarrow> if isHexString s then hexToBytes (padToEven (stripHexPrefix s)) else Inr (utf8ToBytes s)
   | INum i \<Rightarrow> if i = 0 then Inr [] else (case numberToHex i of Inl e \<Rightarrow> Inl e | Inr h \<Rightarrow> hexToBytes h)
   | INull \<Rightarrow> Inr []
   | IArr _ \<Rightarrow> Inl (HostError ''toBytes: received unsupported type''))"

definition encodeLength :: "nat \<Rightarrow> nat \<Rightarrow> exn + bytes" where
  "encodeLength len offset =
     (if len < 56 then Inr [word_of_nat (len + offset)]
      else case numberToHex (int len) of Inl e \<Rightarrow> Inl e | Inr hexLength \<Rightarrow>
        (let lLength = length hexLength div 2
         in case numberToHex (int (offset + 55 + lLength)) of Inl e \<Rightarrow> Inl e | Inr firstByte \<Rightarrow>
           hexToBytes (firstByte @ hexLength)))"

text \<open>The encoding of a list concatenates the encodings of its elements after their total length.\<close>

fun rlp_encode :: "rlp_input \<Rightarrow> exn + bytes" and encode_items :: "rlp_input list \<Rightarrow> exn + bytes" where
  "rlp_encode (IArr xs) = (case encode_items xs of Inl e \<Rightarrow> Inl e | Inr out \<Rightarrow>
     map_sum id (\<lambda>p. p @ out) (encodeLength (length out) 192))"
| "rlp_encode v = (case rlp_toBytes v of Inl e \<Rightarrow> Inl e | Inr inputBuf \<Rightarrow>
     if length inputBuf = 1 \<and> unat (inputBuf ! 0) < 128 then Inr inputBuf
     else map_sum id (\<lambda>p. p @ inputBuf) (encodeLength (length inputBuf) 128))"
| "encode_items [] = Inr []"
| "encode_items (x # xs) = (case rlp_encode x of Inl e \<Rightarrow> Inl e | Inr b \<Rightarrow> map_sum id (\<lambda>bs. b @ bs) (encode_items xs))"

section \<open>Decoding\<close>

definition decodeLength :: "bytes \<Rightarrow> exn + nat" where
  "decodeLength v = (if v \<noteq> [] \<and> v ! 0 = 0 then Inl (HostError ''invalid RLP: extra zeros'') else parseHexByte (hex_of_bytes v))"

definition safeSlice :: "bytes \<Rightarrow> nat \<Rightarrow> nat \<Rightarrow> exn + bytes" where
  "safeSlice input start end =
     (if length input < end then Inl (HostError ''invalid RLP (safeSlice): end slice of Uint8Array out-of-bounds'')
      else Inr (subarray input start end))"

text \<open>The loop over the elements of a list is \<^verbatim>\<open>decode_items\<close>. An empty input has no first byte and falls
  through to the last case, where reading the length fails.\<close>

function rlp_decode :: "bytes \<Rightarrow> exn + rlp \<times> bytes" and decode_items :: "bytes \<Rightarrow> exn + rlp list" where
  "rlp_decode input =
     (if input = [] then Inl (HostError ''Invalid byte sequence'')
      else let firstByte = unat (input ! 0) in
      if firstByte \<le> 0x7f then Inr (RBytes (take 1 input), drop 1 input)
      else if firstByte \<le> 0xb7 then
        (let len = firstByte - 0x7f
         in case (if firstByte = 0x80 then Inr [] else safeSlice input 1 len) of Inl e \<Rightarrow> Inl e | Inr data \<Rightarrow>
           if len = 2 \<and> unat (data ! 0) < 0x80
           then Inl (HostError ''invalid RLP encoding: invalid prefix, single byte < 0x80 are not prefixed'')
           else Inr (RBytes data, drop len input))
      else if firstByte \<le> 0xbf then
        (let lLength = firstByte - 0xb6
         in if length input - 1 < lLength then Inl (HostError ''invalid RLP: not enough bytes for string length'')
         else case safeSlice input 1 lLength of Inl e \<Rightarrow> Inl e | Inr l \<Rightarrow>
           (case decodeLength l of Inl e \<Rightarrow> Inl e | Inr len \<Rightarrow>
             if len \<le> 55 then Inl (HostError ''invalid RLP: expected string length to be greater than 55'')
             else (case safeSlice input lLength (len + lLength) of Inl e \<Rightarrow> Inl e | Inr data \<Rightarrow>
               Inr (RBytes data, drop (len + lLength) input))))
      else if firstByte \<le> 0xf7 then
        (let len = firstByte - 0xbf
         in case safeSlice input 1 len of Inl e \<Rightarrow> Inl e | Inr inner \<Rightarrow>
           (case decode_items inner of Inl e \<Rightarrow> Inl e | Inr decoded \<Rightarrow> Inr (RList decoded, drop len input)))
      else
        (let lLength = firstByte - 0xf6
         in case safeSlice input 1 lLength of Inl e \<Rightarrow> Inl e | Inr l \<Rightarrow>
           (case decodeLength l of Inl e \<Rightarrow> Inl e | Inr len \<Rightarrow>
             if len < 56 then Inl (HostError ''invalid RLP: encoded list too short'')
             else let totalLength = lLength + len
               in if length input < totalLength then Inl (HostError ''invalid RLP: total length is larger than the data'')
               else (case safeSlice input lLength totalLength of Inl e \<Rightarrow> Inl e | Inr inner \<Rightarrow>
                 (case decode_items inner of Inl e \<Rightarrow> Inl e | Inr decoded \<Rightarrow>
                   Inr (RList decoded, drop totalLength input))))))"
| "decode_items inner =
     (if inner = [] then Inr []
      else case rlp_decode inner of Inl e \<Rightarrow> Inl e | Inr (d, rest) \<Rightarrow>
        (case decode_items rest of Inl e \<Rightarrow> Inl e | Inr ds \<Rightarrow> Inr (d # ds)))"
  by pat_completeness auto

lemma safeSlice_less: "safeSlice input start end = Inr b \<Longrightarrow> 0 < start \<Longrightarrow> input \<noteq> [] \<Longrightarrow> Suc (2 * length b) < 2 * length input"
  by (cases input) (auto simp: safeSlice_def split: if_splits)

text \<open>Every item takes at least its first byte, so the loops end.\<close>

lemma rlp_decode_shrinks:
  assumes "rlp_decode_decode_items_dom (Inl input)" "rlp_decode input = Inr (d, rest)"
  shows "length rest < length input"
proof -
  have less: "length (drop k input) < length input" if "0 < k" "input \<noteq> []" for k
    using that by simp
  show ?thesis
    using assms by (simp add: rlp_decode.psimps Let_def del: length_drop split: if_splits sum.splits) (auto intro!: less simp del: length_drop)
qed

termination rlp_decode
proof (relation "measure (\<lambda>x. case x of Inl b \<Rightarrow> 2 * length b | Inr b \<Rightarrow> 2 * length b + 1)")
qed (auto simp: safeSlice_less dest: rlp_decode_shrinks)

declare rlp_decode.simps [simp del] decode_items.simps [simp del]

text \<open>\<^verbatim>\<open>decode\<close> with \<^verbatim>\<open>stream\<close>, and without, where nothing may follow the item.\<close>

definition rlp_empty :: "rlp_input \<Rightarrow> bool" where
  "rlp_empty v \<longleftrightarrow> (case v of INull \<Rightarrow> True | IStr s \<Rightarrow> s = [] | IBytes b \<Rightarrow> b = [] | IArr xs \<Rightarrow> xs = [] | INum _ \<Rightarrow> False)"

definition decode_stream :: "rlp_input \<Rightarrow> exn + rlp \<times> bytes" where
  "decode_stream v = (if rlp_empty v then Inr (RBytes [], [])
     else case rlp_toBytes v of Inl e \<Rightarrow> Inl e | Inr b \<Rightarrow> rlp_decode b)"

definition decode :: "rlp_input \<Rightarrow> exn + rlp" where
  "decode v = (if rlp_empty v then Inr (RBytes [])
     else case rlp_toBytes v of Inl e \<Rightarrow> Inl e | Inr b \<Rightarrow>
       (case rlp_decode b of Inl e \<Rightarrow> Inl e | Inr (d, rest) \<Rightarrow>
         if rest \<noteq> [] then Inl (HostError ''invalid RLP: remainder must be zero'') else Inr d))"

section \<open>The format\<close>

text \<open>The prefix of a payload, and the encoding of a value.\<close>

definition rlp_prefix :: "nat \<Rightarrow> nat \<Rightarrow> bytes" where
  "rlp_prefix len off = (if len < 56 then [word_of_nat (len + off)]
     else word_of_nat (off + 55 + length (be_digits len)) # be_digits len)"

fun enc :: "rlp \<Rightarrow> bytes" where
  "enc (RBytes b) = (if length b = 1 \<and> unat (b ! 0) < 128 then b else rlp_prefix (length b) 128 @ b)"
| "enc (RList ds) = rlp_prefix (length (concat (map enc ds))) 192 @ concat (map enc ds)"

text \<open>The value that an input stands for, and a value as an input.\<close>

fun rlp_value :: "rlp_input \<Rightarrow> exn + rlp" and rlp_values :: "rlp_input list \<Rightarrow> exn + rlp list" where
  "rlp_value (IArr xs) = map_sum id RList (rlp_values xs)"
| "rlp_value v = map_sum id RBytes (rlp_toBytes v)"
| "rlp_values [] = Inr []"
| "rlp_values (x # xs) = (case rlp_value x of Inl e \<Rightarrow> Inl e | Inr d \<Rightarrow> map_sum id (\<lambda>ds. d # ds) (rlp_values xs))"

fun rlp_embed :: "rlp \<Rightarrow> rlp_input" where
  "rlp_embed (RBytes b) = IBytes b"
| "rlp_embed (RList ds) = IArr (map rlp_embed ds)"

abbreviation max_array :: nat where "max_array \<equiv> 2 ^ 53"

lemma unat_small: "n < 256 \<Longrightarrow> unat (word_of_nat n :: byte) = n"
  by (simp add: unat_of_nat)

lemma length_digits_array: "len < max_array \<Longrightarrow> length (be_digits len) \<le> 7"
  by (rule be_digits_length_le) simp

lemma encodeLength_prefix:
  assumes "len < max_array" "off = 128 \<or> off = 192"
  shows "encodeLength len off = Inr (rlp_prefix len off)"
proof (cases "len < 56")
  case False
  obtain ds where ds: "numberToHex (int len) = Inr (digits ds)" "hex_digits ds" "even (length ds)" "pair_up ds = be_digits len"
    using numberToHex_bytes [of len] False by auto
  define v where "v = off + 55 + length (be_digits len)"
  have v: "0 < v" "v < 256" using assms length_digits_array [of len] by (auto simp: v_def)
  obtain es where es: "numberToHex (int v) = Inr (digits es)" "hex_digits es" "even (length es)" "pair_up es = be_digits v"
    using numberToHex_bytes [of v] v by auto
  have "be_digits v = [word_of_nat v]" using v by (simp add: be_digits.simps [of v])
  then have "hexToBytes (digits (es @ ds)) = Inr (word_of_nat v # be_digits len)"
    using ds es hexToBytes_digits [of "es @ ds"] by (simp add: pair_up_append)
  moreover have "length ds div 2 = length (be_digits len)" using length_pair_up [of ds] ds(4) by simp
  ultimately show ?thesis using False ds(1) es(1)
    by (simp add: encodeLength_def rlp_prefix_def Let_def v_def del: of_nat_add)
qed (simp add: encodeLength_def rlp_prefix_def)

lemma decodeLength_digits: "0 < len \<Longrightarrow> decodeLength (be_digits len) = Inr len"
  using be_digits_hd [of len] by (simp add: decodeLength_def parseHexByte_bytes be_digits_value hd_conv_nth)

lemma decodeLength_canonical: "decodeLength l = Inr len \<Longrightarrow> l \<noteq> [] \<Longrightarrow> l = be_digits len"
  by (intro be_digits_eqI) (auto simp: decodeLength_def parseHexByte_bytes hd_conv_nth split: if_splits)

section \<open>Encoding follows the format\<close>

lemma enc_nonempty: "enc d \<noteq> []"
  by (cases d) (auto simp: rlp_prefix_def)

lemma rlp_encode_atom:
  assumes "\<And>xs. v \<noteq> IArr xs"
  shows "rlp_encode v = (case rlp_toBytes v of Inl e \<Rightarrow> Inl e | Inr b \<Rightarrow>
    if length b = 1 \<and> unat (b ! 0) < 128 then Inr b else map_sum id (\<lambda>p. p @ b) (encodeLength (length b) 128))"
    "rlp_value v = map_sum id RBytes (rlp_toBytes v)"
  using assms by (cases v; simp)+

lemma rlp_encode_enc:
  "rlp_encode x = Inr b \<Longrightarrow> length b < max_array \<Longrightarrow> \<exists>d. rlp_value x = Inr d \<and> b = enc d"
  "encode_items xs = Inr b \<Longrightarrow> length b < max_array \<Longrightarrow> \<exists>ds. rlp_values xs = Inr ds \<and> b = concat (map enc ds)"
proof (induction x and xs arbitrary: b and b rule: rlp_encode_encode_items.induct)
  case (1 xs)
  then obtain out p where o: "encode_items xs = Inr out" "encodeLength (length out) 192 = Inr p" "b = p @ out"
    by (auto split: sum.splits simp: map_sum_def)
  with 1 obtain ds where "rlp_values xs = Inr ds" "out = concat (map enc ds)" by auto
  with o 1(3) show ?case by (auto simp: encodeLength_prefix)
qed (fastforce split: sum.splits if_splits simp: map_sum_def encodeLength_prefix)+

lemma rlp_encode_value:
  "rlp_value x = Inr d \<Longrightarrow> length (enc d) < max_array \<Longrightarrow> rlp_encode x = Inr (enc d)"
  "rlp_values xs = Inr ds \<Longrightarrow> length (concat (map enc ds)) < max_array \<Longrightarrow> encode_items xs = Inr (concat (map enc ds))"
proof (induction x and xs arbitrary: d and ds rule: rlp_encode_encode_items.induct)
  case (1 xs)
  then obtain ds where ds: "rlp_values xs = Inr ds" "d = RList ds" by (auto simp: map_sum_def split: sum.splits)
  with 1 have "encode_items xs = Inr (concat (map enc ds))" by auto
  with ds 1(3) show ?case by (simp add: encodeLength_prefix)
qed (fastforce split: sum.splits if_splits simp: map_sum_def encodeLength_prefix)+

lemma rlp_encode_embed: "length (enc d) < max_array \<Longrightarrow> rlp_encode (rlp_embed d) = Inr (enc d)"
proof (induction d)
  case (RBytes b)
  then show ?case by (auto simp: rlp_toBytes_def encodeLength_prefix split: if_splits)
next
  case (RList ds)
  have "encode_items (map rlp_embed es) = Inr (concat (map enc es))" if "set es \<subseteq> set ds" "length (concat (map enc es)) < max_array" for es
    using that by (induction es) (auto simp: RList.IH)
  from this [of ds] RList.prems show ?case by (simp add: encodeLength_prefix)
qed

section \<open>Decoding inverts encoding\<close>

lemma safeSlice_payload:
  "k = length p \<Longrightarrow> safeSlice (p @ b @ rest) k (length b + k) = Inr b" "k = length p \<Longrightarrow> safeSlice (p @ b @ rest) k (k + length b) = Inr b"
  by (simp_all add: safeSlice_def subarray_def)

lemma rlp_decode_byte: "unat c < 128 \<Longrightarrow> rlp_decode (c # rest) = Inr (RBytes [c], rest)"
  by (simp add: rlp_decode.simps)

lemma rlp_decode_string:
  assumes "length b < max_array" "\<not> (length b = 1 \<and> unat (b ! 0) < 128)"
  shows "rlp_decode (rlp_prefix (length b) 128 @ b @ rest) = Inr (RBytes b, rest)"
proof (cases "length b < 56")
  case True
  let ?c = "word_of_nat (length b + 128) :: byte"
  have c: "unat ?c = length b + 128" using True by (intro unat_small) simp
  have "safeSlice (?c # b @ rest) 1 (length b + 1) = Inr b" using safeSlice_payload(1) [of 1 "[?c]" b rest] by simp
  with True assms(2) c show ?thesis
    by (auto simp add: rlp_prefix_def rlp_decode.simps [of "?c # b @ rest"] Let_def simp del: of_nat_add)
next
  case False
  let ?l = "be_digits (length b)"
  define c :: byte where "c = word_of_nat (128 + 55 + length ?l)"
  have "b \<noteq> []" using False by (cases b) simp_all
  then have k: "1 \<le> length ?l" "length ?l \<le> 7" using assms(1) length_digits_array [of "length b"] by (auto simp add: Suc_le_eq)
  have c: "unat c = 183 + length ?l" using k unfolding c_def by (subst unat_small) simp_all
  have p: "rlp_prefix (length b) 128 = c # ?l" using False by (simp add: rlp_prefix_def c_def)
  let ?in = "c # ?l @ b @ rest"
  have "safeSlice ?in 1 (length ?l + 1) = Inr ?l" using safeSlice_payload(1) [of 1 "[c]" ?l "b @ rest"] by simp
  moreover have "safeSlice ?in (length ?l + 1) (length b + (length ?l + 1)) = Inr b"
    using safeSlice_payload(1) [of "length ?l + 1" "c # ?l" b rest] by simp
  moreover have "decodeLength ?l = Inr (length b)" using \<open>b \<noteq> []\<close> by (intro decodeLength_digits) simp
  ultimately show ?thesis
    using False c k p \<open>b \<noteq> []\<close> by (simp add: rlp_decode.simps [of ?in] Let_def)
qed

lemma rlp_decode_list:
  assumes "length b < max_array" "decode_items b = Inr ds"
  shows "rlp_decode (rlp_prefix (length b) 192 @ b @ rest) = Inr (RList ds, rest)"
proof (cases "length b < 56")
  case True
  let ?c = "word_of_nat (length b + 192) :: byte"
  have c: "unat ?c = length b + 192" using True by (intro unat_small) simp
  have "safeSlice (?c # b @ rest) 1 (length b + 1) = Inr b" using safeSlice_payload(1) [of 1 "[?c]" b rest] by simp
  with True assms(2) c show ?thesis
    by (simp add: rlp_prefix_def rlp_decode.simps [of "?c # b @ rest"] Let_def del: of_nat_add)
next
  case False
  let ?l = "be_digits (length b)"
  define c :: byte where "c = word_of_nat (192 + 55 + length ?l)"
  have "b \<noteq> []" using False by (cases b) simp_all
  then have k: "1 \<le> length ?l" "length ?l \<le> 7" using assms(1) length_digits_array [of "length b"] by (auto simp add: Suc_le_eq)
  have c: "unat c = 247 + length ?l" using k unfolding c_def by (subst unat_small) simp_all
  have p: "rlp_prefix (length b) 192 = c # ?l" using False by (simp add: rlp_prefix_def c_def)
  let ?in = "c # ?l @ b @ rest"
  have "safeSlice ?in 1 (length ?l + 1) = Inr ?l" using safeSlice_payload(1) [of 1 "[c]" ?l "b @ rest"] by simp
  moreover have "safeSlice ?in (length ?l + 1) (length ?l + 1 + length b) = Inr b"
    using safeSlice_payload(2) [of "length ?l + 1" "c # ?l" b rest] by simp
  moreover have "decodeLength ?l = Inr (length b)" using \<open>b \<noteq> []\<close> by (intro decodeLength_digits) simp
  ultimately show ?thesis
    using False c k p \<open>b \<noteq> []\<close> assms(2) by (simp add: rlp_decode.simps [of ?in] Let_def)
qed

lemma rlp_decode_enc: "length (enc d) < max_array \<Longrightarrow> rlp_decode (enc d @ rest) = Inr (d, rest)"
proof (induction d arbitrary: rest)
  case (RBytes b)
  then show ?case
    using rlp_decode_string [of b rest] rlp_decode_byte [of "b ! 0" rest] by (auto simp: length_Suc_conv split: if_splits)
next
  case (RList ds)
  have "decode_items (concat (map enc es)) = Inr es" if "set es \<subseteq> set ds" "length (concat (map enc es)) < max_array" for es
    using that by (induction es) (simp_all add: decode_items.simps [of "[]"] decode_items.simps [of "enc _ @ _"] enc_nonempty RList.IH)
  from this [of ds] RList.prems show ?case by (simp add: rlp_decode_list)
qed

section \<open>The decoder accepts only encodings\<close>

lemma enc_inject:
  assumes "length (enc d) < max_array" "length (enc e) < max_array" "enc d = enc e"
  shows "d = e"
  using rlp_decode_enc [of d "[]"] rlp_decode_enc [of e "[]"] assms by simp

lemma rlp_value_embed: "rlp_value (rlp_embed d) = Inr d"
proof (induction d)
  case (RList ds)
  have "rlp_values (map rlp_embed es) = Inr es" if "set es \<subseteq> set ds" for es
    using that by (induction es) (simp_all add: RList.IH)
  then show ?case by simp
qed (simp add: rlp_toBytes_def)

lemma safeSlice_Inr: "safeSlice input i j = Inr b \<Longrightarrow> i \<le> j \<Longrightarrow> j \<le> length input \<and> b = subarray input i j \<and> length b = j - i"
  by (auto simp: safeSlice_def split: if_splits)

lemma split_payload: "i \<le> j \<Longrightarrow> j \<le> length input \<Longrightarrow> input = take i input @ subarray input i j @ drop j input"
  by (simp add: subarray_def flip: drop_drop [of "j - i" i]) (metis append_take_drop_id drop_drop le_add_diff_inverse2)

lemma payload:
  "take i input = q \<Longrightarrow> p = subarray input i j \<Longrightarrow> r = drop j input \<Longrightarrow> i \<le> j \<Longrightarrow> j \<le> length input \<Longrightarrow> input = q @ p @ r"
  using split_payload by blast

lemma byte_of_unat: "unat c = n \<Longrightarrow> word_of_nat n = (c :: byte)"
  by auto

lemma rlp_prefix_short:
  "len < 56 \<Longrightarrow> unat c = len + off \<Longrightarrow> rlp_prefix len off = [c]"
  using byte_of_unat [of c "len + off"] by (simp add: rlp_prefix_def)

lemma rlp_prefix_long:
  assumes "input \<noteq> []" "unat (input ! 0) = off + 54 + k" "1 < k" "safeSlice input 1 k = Inr l" "decodeLength l = Inr len" "56 \<le> len"
  shows "rlp_prefix len off = take k input"
proof -
  have l: "k \<le> length input" "l = subarray input 1 k" "length l = k - 1" using safeSlice_Inr [OF assms(4)] assms(3) by auto
  with assms(3) have "l \<noteq> []" by (cases l) auto
  with assms(5) have d: "l = be_digits len" by (intro decodeLength_canonical)
  have "take k input = input ! 0 # l"
    using assms(1,3) l by (cases input; cases k) (auto simp: subarray_def)
  moreover have "word_of_nat (off + 55 + length (be_digits len)) = input ! 0"
    using assms(2,3) l(3) d by (intro byte_of_unat) simp
  ultimately show ?thesis using assms(6) d by (simp add: rlp_prefix_def del: of_nat_add)
qed

lemma rlp_decode_string_only:
  assumes "rlp_decode b = Inr (d, r)" "unat (b ! 0) \<le> 0xbf"
  shows "b = enc d @ r"
proof -
  have b: "b \<noteq> []" using assms(1) by (auto simp: rlp_decode.simps)
  define c where "c = unat (b ! 0)"
  consider (byte) "c \<le> 0x7f" | (short) "0x7f < c" "c \<le> 0xb7" | (long) "0xb7 < c" using assms(2) unfolding c_def by linarith
  then show ?thesis
  proof cases
    case byte
    then show ?thesis using assms(1) b by (cases b) (auto simp: rlp_decode_byte c_def)
  next
    case short
    then obtain p where p: "safeSlice b 1 (c - 0x7f) = Inr p" "d = RBytes p" "r = drop (c - 0x7f) b" "\<not> (c = 0x81 \<and> unat (p ! 0) < 0x80)"
      using assms(1) b by (auto simp: rlp_decode.simps [of b] c_def Let_def safeSlice_def split: if_splits sum.splits)
    have "1 \<le> c - 0x7f" using short by simp
    from safeSlice_Inr [OF p(1) this] have l: "c - 0x7f \<le> length b" "p = subarray b 1 (c - 0x7f)" "length p = c - 0x80"
      by (blast, blast, linarith)
    have "rlp_prefix (length p) 128 = [b ! 0]" using short l(3) by (intro rlp_prefix_short) (auto simp: c_def)
    moreover have "\<not> (length p = 1 \<and> unat (p ! 0) < 128)" using p(4) l(3) short by auto
    moreover have "take 1 b = [b ! 0]" using b by (cases b) simp_all
    ultimately show ?thesis using split_payload [of 1 "c - 0x7f" b] l p(2,3) short by (simp only: enc.simps) simp
  next
    case long
    then obtain l len p where p: "safeSlice b 1 (c - 0xb6) = Inr l" "decodeLength l = Inr len" "56 \<le> len"
      "safeSlice b (c - 0xb6) (len + (c - 0xb6)) = Inr p" "d = RBytes p" "r = drop (len + (c - 0xb6)) b"
      using assms b by (auto simp: rlp_decode.simps [of b] c_def Let_def split: if_splits sum.splits)
    have l: "len + (c - 0xb6) \<le> length b" "p = subarray b (c - 0xb6) (len + (c - 0xb6))" "length p = len"
      using safeSlice_Inr [OF p(4)] by auto
    have "rlp_prefix len 128 = take (c - 0xb6) b" using b long p(1-3) by (intro rlp_prefix_long) (auto simp: c_def)
    then show ?thesis using split_payload [of "c - 0xb6" "len + (c - 0xb6)" b] l p(3,5,6) by simp
  qed
qed

lemma rlp_decode_list_only:
  assumes "rlp_decode b = Inr (d, r)" "0xbf < unat (b ! 0)"
  obtains inner ds where "d = RList ds" "decode_items inner = Inr ds" "length inner < length b" "b = rlp_prefix (length inner) 192 @ inner @ r"
proof -
  have b: "b \<noteq> []" using assms(1) by (auto simp: rlp_decode.simps)
  define c where "c = unat (b ! 0)"
  consider (short) "0xbf < c" "c \<le> 0xf7" | (long) "0xf7 < c" using assms(2) unfolding c_def by linarith
  then show thesis
  proof cases
    case short
    then obtain p ds where p: "safeSlice b 1 (c - 0xbf) = Inr p" "decode_items p = Inr ds" "d = RList ds" "r = drop (c - 0xbf) b"
      using assms(1) b by (auto simp: rlp_decode.simps [of b] c_def Let_def split: if_splits sum.splits)
    have "1 \<le> c - 0xbf" using short by simp
    from safeSlice_Inr [OF p(1) this] have l: "c - 0xbf \<le> length b" "p = subarray b 1 (c - 0xbf)" "length p = c - 0xc0"
      by (blast, blast, linarith)
    have "rlp_prefix (length p) 192 = [b ! 0]" using short l(3) by (intro rlp_prefix_short) (auto simp: c_def)
    moreover have "take 1 b = [b ! 0]" using b by (cases b) simp_all
    ultimately have e: "b = rlp_prefix (length p) 192 @ p @ r" using l(1,2) p(4) short by (intro payload [of 1 b]) auto
    have "length p < length b" using l(1,3) short by linarith
    from that [OF p(3,2) this e] show ?thesis .
  next
    case long
    then obtain l len p ds where p: "safeSlice b 1 (c - 0xf6) = Inr l" "decodeLength l = Inr len" "56 \<le> len"
      "safeSlice b (c - 0xf6) (c - 0xf6 + len) = Inr p" "decode_items p = Inr ds" "d = RList ds" "r = drop (c - 0xf6 + len) b"
      using assms b by (auto simp: rlp_decode.simps [of b] c_def Let_def split: if_splits sum.splits)
    have l: "c - 0xf6 + len \<le> length b" "p = subarray b (c - 0xf6) (c - 0xf6 + len)" "length p = len"
      using safeSlice_Inr [OF p(4)] by auto
    have "rlp_prefix len 192 = take (c - 0xf6) b" using b long p(1-3) by (intro rlp_prefix_long) (auto simp: c_def)
    then have e: "b = rlp_prefix (length p) 192 @ p @ r" using l p(7) by (intro payload [of "c - 0xf6" b]) auto
    have "length p < length b" using l(1,3) long by linarith
    from that [OF p(6,5) this e] show ?thesis .
  qed
qed

lemma rlp_decode_canonical: "(rlp_decode b = Inr (d, r) \<longrightarrow> b = enc d @ r) \<and> (decode_items b = Inr ds \<longrightarrow> b = concat (map enc ds))"
proof (induction b arbitrary: d r ds rule: length_induct)
  case (1 b)
  have item: "b = enc d @ r" if dec: "rlp_decode b = Inr (d, r)" for d r
  proof (cases "unat (b ! 0) \<le> 0xbf")
    case False
    then have "0xbf < unat (b ! 0)" by simp
    with dec obtain inner ds where "d = RList ds" "decode_items inner = Inr ds" "length inner < length b" "b = rlp_prefix (length inner) 192 @ inner @ r"
      by (rule rlp_decode_list_only)
    with 1 show ?thesis by (metis append_assoc enc.simps(2))
  qed (rule rlp_decode_string_only [OF dec])
  moreover have "b = concat (map enc ds)" if "decode_items b = Inr ds"
  proof (cases "b = []")
    case False
    with that obtain d r ds' where d: "rlp_decode b = Inr (d, r)" "decode_items r = Inr ds'" "ds = d # ds'"
      by (auto simp: decode_items.simps [of b] split: sum.splits prod.splits)
    with item [of d r] enc_nonempty [of d] have "length r < length b" by simp
    with 1 d(2) have "r = concat (map enc ds')" by blast
    with item [OF d(1)] d(3) show ?thesis by simp
  qed (use that in \<open>simp add: decode_items.simps\<close>)
  ultimately show ?case by blast
qed

section \<open>Results\<close>

text \<open>
  C36. What is encoded is decoded to the same value: for every input, strings, numbers, byte arrays
  and nested arrays alike, whose encoding is an array of possible length, decoding the result gives
  the value the input stands for.
\<close>
theorem rlp_roundtrip:
  assumes "rlp_encode x = Inr b" "length b < max_array"
  shows "\<exists>d. rlp_value x = Inr d \<and> decode (IBytes b) = Inr d"
proof -
  obtain d where d: "rlp_value x = Inr d" "b = enc d" using rlp_encode_enc(1) [OF assms] by blast
  then show ?thesis using rlp_decode_enc [of d "[]"] assms(2) enc_nonempty [of d]
    by (simp add: decode_def rlp_empty_def rlp_toBytes_def)
qed

theorem rlp_roundtrip_witness:
  "decode (IBytes [0xc3, 0x05, 0x81, 0x80]) = Inr (RList [RBytes [5], RBytes [0x80]])"
proof -
  have "rlp_encode (IArr [INum 5, IBytes [0x80]]) = Inr [0xc3, 0x05, 0x81, 0x80]" by code_simp
  moreover have "rlp_value (IArr [INum 5, IBytes [0x80]]) = Inr (RList [RBytes [5], RBytes [0x80]])" by code_simp
  ultimately show ?thesis using rlp_roundtrip [of "IArr [INum 5, IBytes [0x80]]" "[0xc3, 0x05, 0x81, 0x80]"] by simp
qed

text \<open>
  C37. The decoder is strict: a byte array is accepted with a value exactly if it is the encoding of
  that value, so every value has one encoding that is accepted and nothing else is accepted.
\<close>
theorem rlp_strict:
  assumes "b \<noteq> []" "length b < max_array"
  shows "decode (IBytes b) = Inr d \<longleftrightarrow> rlp_encode (rlp_embed d) = Inr b"
proof
  assume "decode (IBytes b) = Inr d"
  then have "rlp_decode b = Inr (d, [])"
    using assms(1) by (auto simp: decode_def rlp_empty_def rlp_toBytes_def split: sum.splits prod.splits if_splits)
  then have "b = enc d" using rlp_decode_canonical by fastforce
  with assms(2) show "rlp_encode (rlp_embed d) = Inr b" by (simp add: rlp_encode_embed)
next
  assume e: "rlp_encode (rlp_embed d) = Inr b"
  obtain d' where "rlp_value (rlp_embed d) = Inr d'" "b = enc d'" using rlp_encode_enc(1) [OF e assms(2)] by blast
  with rlp_value_embed [of d] rlp_decode_enc [of d "[]"] assms show "decode (IBytes b) = Inr d"
    by (simp add: decode_def rlp_empty_def rlp_toBytes_def)
qed

theorem rlp_strict_witness: "decode (IBytes [0x81, 0x05]) \<noteq> Inr (RBytes [5])"
proof -
  have "rlp_encode (rlp_embed (RBytes [5])) = Inr [5]" by code_simp
  then show ?thesis using rlp_strict [of "[0x81, 0x05]" "RBytes [5]"] by simp
qed

end
