(* ===== verification/CheckpointDb.thy ===== *)
theory CheckpointDb
  imports Checkpoints "HOL-Library.AList"
begin

text \<open>
  The checkpointing database of \<^verbatim>\<open>packages/mpt/src/db/checkpointDB.ts\<close> over the map database of
  \<^verbatim>\<open>packages/util/src/mapDB.ts\<close>. Each open checkpoint keeps the writes made under it, and the values
  read under it; without a checkpoint writes go to the database. A read cache of the package
  \<^verbatim>\<open>lru-cache\<close> may sit in front of the database: it is a parameter, and the contract \<open>lru_ok\<close> says what
  the code relies on. Keys and values stand for their hexadecimal strings; the counters of
  statistics are left out.
\<close>

section \<open>State\<close>

text \<open>The cache: its operations return the cache after the access, which may have lost entries.\<close>

record 'c lru =
  lru_get :: "bytes \<Rightarrow> 'c \<Rightarrow> bytes option \<times> 'c"
  lru_set :: "bytes \<Rightarrow> bytes \<Rightarrow> 'c \<Rightarrow> 'c"
  lru_delete :: "bytes \<Rightarrow> 'c \<Rightarrow> 'c"

text \<open>\<open>E\<close> gives the entries a cache holds: reads return them, a write adds one, and entries may be
  evicted at any time.\<close>

definition lru_ok :: "'c lru \<Rightarrow> ('c \<Rightarrow> bytes \<rightharpoonup> bytes) \<Rightarrow> bool" where
  "lru_ok L E \<longleftrightarrow>
     (\<forall>k c. fst (lru_get L k c) = E c k \<and> E (snd (lru_get L k c)) \<subseteq>\<^sub>m E c) \<and>
     (\<forall>k v c. E (lru_set L k v c) \<subseteq>\<^sub>m (E c)(k \<mapsto> v)) \<and>
     (\<forall>k c. E (lru_delete L k c) \<subseteq>\<^sub>m (E c)(k := None))"

text \<open>A checkpoint: the writes under it in the order of the map, \<^verbatim>\<open>undefined\<close> for a deletion, and the root.\<close>

record checkpoint =
  keyValueMap :: "(bytes \<times> bytes option) list"
  cp_root :: bytes

text \<open>The newest checkpoint comes first.\<close>

record 'c cdb =
  checkpoints :: "checkpoint list"
  database :: "bytes \<rightharpoonup> bytes"
  cache :: "'c option"

datatype batch_op = BPut bytes bytes | BDel bytes

section \<open>Operations\<close>

definition new_cdb :: "'c option \<Rightarrow> 'c cdb" where
  "new_cdb c = \<lparr>checkpoints = [], database = Map.empty, cache = c\<rparr>"

definition hasCheckpoints :: "'c cdb \<Rightarrow> bool" where
  "hasCheckpoints d \<longleftrightarrow> checkpoints d \<noteq> []"

definition setCheckpoints :: "checkpoint list \<Rightarrow> 'c cdb \<Rightarrow> 'c cdb" where
  "setCheckpoints cs d = d\<lparr>checkpoints := cs\<rparr>"

definition cdb_checkpoint :: "bytes \<Rightarrow> ('c cdb, unit) op" where
  "cdb_checkpoint root d = (Inr (), d\<lparr>checkpoints := \<lparr>keyValueMap = [], cp_root = root\<rparr> # checkpoints d\<rparr>)"

text \<open>\<^verbatim>\<open>_writeBatch\<close>: the batch goes to the database and then to the cache.\<close>

fun db_op :: "batch_op \<Rightarrow> (bytes \<rightharpoonup> bytes) \<Rightarrow> (bytes \<rightharpoonup> bytes)" where
  "db_op (BPut k v) m = m(k \<mapsto> v)"
| "db_op (BDel k) m = m(k := None)"

fun cache_op :: "'c lru \<Rightarrow> batch_op \<Rightarrow> 'c \<Rightarrow> 'c" where
  "cache_op L (BPut k v) c = lru_set L k v c"
| "cache_op L (BDel k) c = lru_delete L k c"

definition writeBatch :: "'c lru \<Rightarrow> batch_op list \<Rightarrow> 'c cdb \<Rightarrow> 'c cdb" where
  "writeBatch L ops d = d\<lparr>database := fold db_op ops (database d), cache := map_option (fold (cache_op L) ops) (cache d)\<rparr>"

definition commit_op :: "bytes \<times> bytes option \<Rightarrow> batch_op" where
  "commit_op e = (case e of (k, None) \<Rightarrow> BDel k | (k, Some v) \<Rightarrow> BPut k v)"

definition cdb_commit :: "'c lru \<Rightarrow> ('c cdb, unit) op" where
  "cdb_commit L d = (case checkpoints d of
     [] \<Rightarrow> throw (HostError ''TypeError'') d
   | [c] \<Rightarrow> (Inr (), (writeBatch L (map commit_op (keyValueMap c)) d)\<lparr>checkpoints := []\<rparr>)
   | c # p # cs \<Rightarrow>
       (Inr (), d\<lparr>checkpoints := p\<lparr>keyValueMap := fold (\<lambda>(k, v). AList.update k v) (keyValueMap c) (keyValueMap p)\<rparr> # cs\<rparr>))"

definition cdb_revert :: "('c cdb, bytes) op" where
  "cdb_revert d = (case checkpoints d of
     [] \<Rightarrow> throw (HostError ''TypeError'') d
   | c # cs \<Rightarrow> (Inr (cp_root c), d\<lparr>checkpoints := cs\<rparr>))"

text \<open>The value under the newest checkpoint that has the key.\<close>

fun find_checkpoint :: "checkpoint list \<Rightarrow> bytes \<Rightarrow> bytes option option" where
  "find_checkpoint [] k = None"
| "find_checkpoint (c # cs) k = (case map_of (keyValueMap c) k of Some v \<Rightarrow> Some v | None \<Rightarrow> find_checkpoint cs k)"

text \<open>A value written, or read from the database, under the newest checkpoint.\<close>

definition set_diff :: "bytes \<Rightarrow> bytes option \<Rightarrow> 'c cdb \<Rightarrow> 'c cdb" where
  "set_diff k v d = (case checkpoints d of [] \<Rightarrow> d
     | c # cs \<Rightarrow> d\<lparr>checkpoints := c\<lparr>keyValueMap := AList.update k v (keyValueMap c)\<rparr> # cs\<rparr>)"

text \<open>\<^verbatim>\<open>get\<close>: checkpoints first, then the cache, then the database.\<close>

definition read_database :: "'c lru \<Rightarrow> bytes \<Rightarrow> ('c cdb, bytes option) op" where
  "read_database L k d =
     (let v = database d k;
          c = map_option (\<lambda>c. case v of Some x \<Rightarrow> lru_set L k x c | None \<Rightarrow> lru_delete L k c) (cache d)
      in (Inr v, set_diff k v (d\<lparr>cache := c\<rparr>)))"

definition cdb_get :: "'c lru \<Rightarrow> bytes \<Rightarrow> ('c cdb, bytes option) op" where
  "cdb_get L k d = (case find_checkpoint (checkpoints d) k of
     Some v \<Rightarrow> (Inr v, d)
   | None \<Rightarrow> (case cache d of
       None \<Rightarrow> read_database L k d
     | Some c \<Rightarrow> (case lru_get L k c of (r, c') \<Rightarrow> let d' = d\<lparr>cache := Some c'\<rparr> in
         (case r of Some v \<Rightarrow> (Inr (Some v), d') | None \<Rightarrow> read_database L k d'))))"

definition cdb_put :: "'c lru \<Rightarrow> bytes \<Rightarrow> bytes \<Rightarrow> ('c cdb, unit) op" where
  "cdb_put L k v d =
     (if hasCheckpoints d then (Inr (), set_diff k (Some v) d)
      else (Inr (), d\<lparr>database := (database d)(k \<mapsto> v), cache := map_option (lru_set L k v) (cache d)\<rparr>))"

definition cdb_del :: "'c lru \<Rightarrow> bytes \<Rightarrow> ('c cdb, unit) op" where
  "cdb_del L k d =
     (if hasCheckpoints d then (Inr (), set_diff k None d)
      else (Inr (), d\<lparr>database := (database d)(k := None), cache := map_option (lru_delete L k) (cache d)\<rparr>))"

fun batch_each :: "'c lru \<Rightarrow> batch_op list \<Rightarrow> ('c cdb, unit) op" where
  "batch_each L [] = ret ()"
| "batch_each L (BPut k v # ops) = sq (cdb_put L k v) (batch_each L ops)"
| "batch_each L (BDel k # ops) = sq (cdb_del L k) (batch_each L ops)"

definition cdb_batch :: "'c lru \<Rightarrow> batch_op list \<Rightarrow> ('c cdb, unit) op" where
  "cdb_batch L ops d = (if hasCheckpoints d then batch_each L ops d else (Inr (), writeBatch L ops d))"

section \<open>Contents\<close>

definition contents :: "checkpoint list \<Rightarrow> (bytes \<rightharpoonup> bytes) \<Rightarrow> bytes \<rightharpoonup> bytes" where
  "contents cs m k = (case find_checkpoint cs k of Some v \<Rightarrow> v | None \<Rightarrow> m k)"

definition cdb_view :: "'c cdb \<Rightarrow> bytes \<rightharpoonup> bytes" where
  "cdb_view d = contents (checkpoints d) (database d)"

text \<open>What the database would hold if the open checkpoints were reverted, newest first.\<close>

fun reverted :: "checkpoint list \<Rightarrow> (bytes \<rightharpoonup> bytes) \<Rightarrow> (bytes \<rightharpoonup> bytes) list" where
  "reverted [] m = []"
| "reverted (c # cs) m = contents cs m # reverted cs m"

definition cdb_saved :: "'c cdb \<Rightarrow> (bytes \<rightharpoonup> bytes) list" where
  "cdb_saved d = reverted (checkpoints d) (database d)"

text \<open>The cache holds only what the database holds; a map has a key once.\<close>

definition cdb_inv :: "('c \<Rightarrow> bytes \<rightharpoonup> bytes) \<Rightarrow> 'c cdb \<Rightarrow> bool" where
  "cdb_inv E d \<longleftrightarrow> (\<forall>c. cache d = Some c \<longrightarrow> E c \<subseteq>\<^sub>m database d) \<and>
     (\<forall>c \<in> set (checkpoints d). distinct (map fst (keyValueMap c)))"

lemma lru_laws:
  assumes "lru_ok L E"
  shows "lru_get L k c = (r, c') \<Longrightarrow> r = E c k" "lru_get L k c = (r, c') \<Longrightarrow> E c \<subseteq>\<^sub>m m \<Longrightarrow> E c' \<subseteq>\<^sub>m m"
    "E c \<subseteq>\<^sub>m m \<Longrightarrow> E (lru_set L k v c) \<subseteq>\<^sub>m m(k \<mapsto> v)" "E c \<subseteq>\<^sub>m m \<Longrightarrow> E (lru_delete L k c) \<subseteq>\<^sub>m m(k := None)"
proof -
  have upd: "f(k := x) \<subseteq>\<^sub>m g(k := x)" if "f \<subseteq>\<^sub>m g" for f g :: "bytes \<rightharpoonup> bytes" and x
    using that by (auto simp: map_le_def dom_def)
  show "lru_get L k c = (r, c') \<Longrightarrow> r = E c k" using assms unfolding lru_ok_def by (metis fst_conv)
  show "lru_get L k c = (r, c') \<Longrightarrow> E c \<subseteq>\<^sub>m m \<Longrightarrow> E c' \<subseteq>\<^sub>m m"
    using assms unfolding lru_ok_def by (metis map_le_trans snd_conv)
  show "E c \<subseteq>\<^sub>m m \<Longrightarrow> E (lru_set L k v c) \<subseteq>\<^sub>m m(k \<mapsto> v)" "E c \<subseteq>\<^sub>m m \<Longrightarrow> E (lru_delete L k c) \<subseteq>\<^sub>m m(k := None)"
    using assms upd unfolding lru_ok_def by (metis map_le_trans)+
qed

lemma writeBatch_cache: "lru_ok L E \<Longrightarrow> E c \<subseteq>\<^sub>m m \<Longrightarrow> E (fold (cache_op L) ops c) \<subseteq>\<^sub>m fold db_op ops m"
proof (induction ops arbitrary: c m)
  case (Cons x ops)
  then show ?case by (cases x) (simp_all add: lru_laws)
qed simp

lemma contents_simps [simp]:
  "contents [] m = m"
  "contents (c # cs) m k = (case map_of (keyValueMap c) k of Some v \<Rightarrow> v | None \<Rightarrow> contents cs m k)"
  by (simp_all add: contents_def fun_eq_iff split: option.splits)

lemma contents_update:
  "contents (c\<lparr>keyValueMap := AList.update k v (keyValueMap c)\<rparr> # cs) m = (contents (c # cs) m)(k := v)"
  by (simp add: fun_eq_iff update_conv')

lemma set_diff_view:
  "checkpoints d \<noteq> [] \<Longrightarrow> cdb_view (set_diff k v d) = (cdb_view d)(k := v)"
  "cdb_saved (set_diff k v d) = cdb_saved d" "database (set_diff k v d) = database d" "cache (set_diff k v d) = cache d"
  "checkpoints (set_diff k v d) = [] \<longleftrightarrow> checkpoints d = []"
  "map cp_root (checkpoints (set_diff k v d)) = map cp_root (checkpoints d)"
  by (cases "checkpoints d"; simp add: set_diff_def cdb_view_def cdb_saved_def contents_update del: contents_simps(2))+

lemma set_diff_inv: "cdb_inv E d \<Longrightarrow> cdb_inv E (set_diff k v d)"
  by (cases "checkpoints d") (auto simp: cdb_inv_def set_diff_def intro: distinct_update)

section \<open>Laws\<close>

text \<open>Reading shows the contents and changes nothing that can be read.\<close>

lemma read_database_law:
  assumes "lru_ok L E" "cdb_inv E d" "find_checkpoint (checkpoints d) k = None"
  shows "\<exists>d'. read_database L k d = (Inr (cdb_view d k), d') \<and> cdb_inv E d' \<and> cdb_view d' = cdb_view d \<and>
    cdb_saved d' = cdb_saved d \<and> map cp_root (checkpoints d') = map cp_root (checkpoints d)"
proof -
  let ?v = "database d k"
  define c where "c = map_option (\<lambda>c. case ?v of Some x \<Rightarrow> lru_set L k x c | None \<Rightarrow> lru_delete L k c) (cache d)"
  let ?d = "d\<lparr>cache := c\<rparr>"
  have v: "cdb_view d k = ?v" using assms(3) by (simp add: cdb_view_def contents_def)
  have r: "read_database L k d = (Inr ?v, set_diff k ?v ?d)" by (simp add: read_database_def c_def Let_def)
  have "cdb_inv E ?d"
  proof -
    have "E c' \<subseteq>\<^sub>m database d" if c': "c = Some c'" for c'
    proof -
      obtain c0 where c0: "cache d = Some c0" "c' = (case ?v of Some x \<Rightarrow> lru_set L k x c0 | None \<Rightarrow> lru_delete L k c0)"
        using c' by (auto simp: c_def)
      have same: "(database d)(k := ?v) = database d" by simp
      have "E c0 \<subseteq>\<^sub>m database d" using c0(1) assms(2) by (simp add: cdb_inv_def)
      then have "E c' \<subseteq>\<^sub>m (database d)(k := ?v)" unfolding c0(2) by (cases ?v) (simp_all only: option.case lru_laws(3,4) [OF assms(1)])
      then show ?thesis unfolding same .
    qed
    with assms(2) show ?thesis by (auto simp: cdb_inv_def)
  qed
  then have "cdb_inv E (set_diff k ?v ?d)" by (rule set_diff_inv)
  moreover have "cdb_view (set_diff k ?v ?d) = cdb_view d"
  proof (cases "checkpoints d = []")
    case True
    then show ?thesis by (simp add: set_diff_def cdb_view_def)
  next
    case False
    then have "cdb_view (set_diff k ?v ?d) = (cdb_view ?d)(k := ?v)" by (intro set_diff_view(1)) simp
    moreover have "cdb_view ?d = cdb_view d" by (simp add: cdb_view_def)
    ultimately show ?thesis using v by (metis fun_upd_triv)
  qed
  ultimately show ?thesis using r v by (simp add: set_diff_view cdb_saved_def [of ?d] cdb_saved_def [of d])
qed

lemma cdb_get_law:
  assumes "lru_ok L E" "cdb_inv E d"
  shows "\<exists>d'. cdb_get L k d = (Inr (cdb_view d k), d') \<and> cdb_inv E d' \<and> cdb_view d' = cdb_view d \<and>
    cdb_saved d' = cdb_saved d \<and> map cp_root (checkpoints d') = map cp_root (checkpoints d)"
proof (cases "find_checkpoint (checkpoints d) k")
  case (Some v)
  with assms(2) show ?thesis by (simp add: cdb_get_def cdb_view_def contents_def)
next
  case None
  show ?thesis
  proof (cases "cache d")
    case (Some c)
    obtain r c' where g: "lru_get L k c = (r, c')" by (cases "lru_get L k c")
    let ?d = "d\<lparr>cache := Some c'\<rparr>"
    have i: "cdb_inv E ?d" using assms(2) Some lru_laws(2) [OF assms(1) g] by (auto simp: cdb_inv_def)
    have same: "cdb_view ?d = cdb_view d" "cdb_saved ?d = cdb_saved d" by (simp_all add: cdb_view_def cdb_saved_def)
    show ?thesis
    proof (cases r)
      case (Some v)
      then have "E c k = Some v" using lru_laws(1) [OF assms(1) g] by simp
      then have "database d k = Some v" using assms(2) \<open>cache d = Some c\<close> by (force simp: cdb_inv_def map_le_def)
      then have "cdb_view d k = Some v" using None by (simp add: cdb_view_def contents_def)
      with None Some \<open>cache d = Some c\<close> g i same show ?thesis by (simp add: cdb_get_def Let_def)
    next
      case None
      with \<open>find_checkpoint (checkpoints d) k = None\<close> \<open>cache d = Some c\<close> g
      have "cdb_get L k d = read_database L k ?d" by (simp add: cdb_get_def Let_def)
      with read_database_law [OF assms(1) i, of k] \<open>find_checkpoint (checkpoints d) k = None\<close> same show ?thesis by simp
    qed
  qed (use None read_database_law [OF assms None] in \<open>simp add: cdb_get_def\<close>)
qed

lemma cdb_put_law:
  assumes "lru_ok L E" "cdb_inv E d"
  shows "\<exists>d'. cdb_put L k v d = (Inr (), d') \<and> cdb_inv E d' \<and> cdb_view d' = (cdb_view d)(k \<mapsto> v) \<and>
    cdb_saved d' = cdb_saved d \<and> map cp_root (checkpoints d') = map cp_root (checkpoints d)"
proof (cases "checkpoints d = []")
  case True
  with assms show ?thesis
    by (auto simp: cdb_put_def hasCheckpoints_def cdb_view_def cdb_saved_def cdb_inv_def lru_laws)
qed (use assms in \<open>simp add: cdb_put_def hasCheckpoints_def set_diff_view set_diff_inv\<close>)

lemma cdb_del_law:
  assumes "lru_ok L E" "cdb_inv E d"
  shows "\<exists>d'. cdb_del L k d = (Inr (), d') \<and> cdb_inv E d' \<and> cdb_view d' = (cdb_view d)(k := None) \<and>
    cdb_saved d' = cdb_saved d \<and> map cp_root (checkpoints d') = map cp_root (checkpoints d)"
proof (cases "checkpoints d = []")
  case True
  with assms show ?thesis
    by (auto simp: cdb_del_def hasCheckpoints_def cdb_view_def cdb_saved_def cdb_inv_def lru_laws)
qed (use assms in \<open>simp add: cdb_del_def hasCheckpoints_def set_diff_view set_diff_inv\<close>)

lemma batch_each_law:
  assumes "lru_ok L E" "cdb_inv E d"
  shows "\<exists>d'. batch_each L ops d = (Inr (), d') \<and> cdb_inv E d' \<and> cdb_view d' = fold db_op ops (cdb_view d) \<and>
    cdb_saved d' = cdb_saved d \<and> map cp_root (checkpoints d') = map cp_root (checkpoints d)"
  using assms(2)
proof (induction ops arbitrary: d)
  case (Cons x ops)
  show ?case
  proof (cases x)
    case (BPut k v)
    with cdb_put_law [OF assms(1) Cons.prems, of k v] Cons.IH show ?thesis by (fastforce simp: sq_def bnd_def)
  next
    case (BDel k)
    with cdb_del_law [OF assms(1) Cons.prems, of k] Cons.IH show ?thesis by (fastforce simp: sq_def bnd_def)
  qed
qed simp

lemma cdb_batch_law:
  assumes "lru_ok L E" "cdb_inv E d"
  shows "\<exists>d'. cdb_batch L ops d = (Inr (), d') \<and> cdb_inv E d' \<and> cdb_view d' = fold db_op ops (cdb_view d) \<and>
    cdb_saved d' = cdb_saved d \<and> map cp_root (checkpoints d') = map cp_root (checkpoints d)"
proof (cases "hasCheckpoints d")
  case False
  with assms show ?thesis
    by (auto simp: cdb_batch_def hasCheckpoints_def writeBatch_def cdb_view_def cdb_saved_def cdb_inv_def writeBatch_cache)
qed (use batch_each_law [OF assms] in \<open>simp add: cdb_batch_def\<close>)

lemma fold_commit_db:
  "distinct (map fst kv) \<Longrightarrow> fold db_op (map commit_op kv) m k = (case map_of kv k of Some v \<Rightarrow> v | None \<Rightarrow> m k)"
proof (induction kv arbitrary: m)
  case (Cons e kv)
  obtain a v where e: "e = (a, v)" by (cases e)
  have "map_of kv a = None" using Cons.prems by (simp add: e map_of_eq_None_iff)
  with Cons e show ?case by (cases v) (auto simp: commit_op_def split: option.splits)
qed simp

lemma fold_update_map:
  "distinct (map fst kv) \<Longrightarrow> map_of (fold (\<lambda>(k, v). AList.update k v) kv p) k = (case map_of kv k of Some v \<Rightarrow> Some v | None \<Rightarrow> map_of p k)"
proof (induction kv arbitrary: p)
  case (Cons e kv)
  obtain a v where e: "e = (a, v)" by (cases e)
  have "map_of kv a = None" using Cons.prems by (simp add: e map_of_eq_None_iff)
  with Cons e show ?case by (auto simp: update_conv' split: option.splits)
qed simp

lemma fold_update_distinct: "distinct (map fst p) \<Longrightarrow> distinct (map fst (fold (\<lambda>(k, v). AList.update k v) kv p))"
  by (induction kv arbitrary: p) (auto intro: distinct_update)

lemma cdb_commit_law:
  assumes "lru_ok L E" "cdb_inv E d" "cdb_saved d = v # vs"
  shows "\<exists>d'. cdb_commit L d = (Inr (), d') \<and> cdb_inv E d' \<and> cdb_view d' = cdb_view d \<and> cdb_saved d' = vs \<and>
    map cp_root (checkpoints d') = tl (map cp_root (checkpoints d))"
proof -
  obtain c cs where c: "checkpoints d = c # cs" using assms(3) by (cases "checkpoints d") (auto simp: cdb_saved_def)
  have dk: "distinct (map fst (keyValueMap c))" using assms(2) c by (simp add: cdb_inv_def)
  show ?thesis
  proof (cases cs)
    case Nil
    let ?ops = "map commit_op (keyValueMap c)"
    have "fold db_op ?ops (database d) = contents [c] (database d)"
      using fold_commit_db [OF dk] by (simp add: fun_eq_iff split: option.splits)
    moreover have "E (fold (cache_op L) ?ops z) \<subseteq>\<^sub>m fold db_op ?ops (database d)" if "cache d = Some z" for z
      using that assms(1,2) by (intro writeBatch_cache) (auto simp: cdb_inv_def)
    ultimately show ?thesis using Nil c assms
      by (auto simp: cdb_commit_def writeBatch_def cdb_view_def cdb_saved_def cdb_inv_def)
  next
    case (Cons p ps)
    have "contents (p\<lparr>keyValueMap := fold (\<lambda>(k, v). AList.update k v) (keyValueMap c) (keyValueMap p)\<rparr> # ps) m = contents (c # p # ps) m" for m
      by (simp add: fun_eq_iff fold_update_map [OF dk] split: option.splits)
    with Cons c assms show ?thesis
      by (auto simp: cdb_commit_def cdb_view_def cdb_saved_def cdb_inv_def fold_update_distinct simp del: contents_simps(2))
  qed
qed

lemma cdb_revert_law:
  assumes "cdb_inv E d" "cdb_saved d = v # vs"
  shows "\<exists>d'. cdb_revert d = (Inr (hd (map cp_root (checkpoints d))), d') \<and> cdb_inv E d' \<and> cdb_view d' = v \<and> cdb_saved d' = vs \<and>
    map cp_root (checkpoints d') = tl (map cp_root (checkpoints d))"
  using assms by (cases "checkpoints d") (auto simp: cdb_saved_def cdb_view_def cdb_revert_def cdb_inv_def)

lemma cdb_checkpoint_law:
  assumes "cdb_inv E d"
  shows "\<exists>d'. cdb_checkpoint r d = (Inr (), d') \<and> cdb_inv E d' \<and> cdb_view d' = cdb_view d \<and> cdb_saved d' = cdb_view d # cdb_saved d \<and>
    map cp_root (checkpoints d') = r # map cp_root (checkpoints d)"
  using assms by (simp add: cdb_checkpoint_def cdb_inv_def cdb_view_def cdb_saved_def fun_eq_iff)

section \<open>The contract\<close>

text \<open>With every root, the database keeps the contract of the checkpointed components.\<close>

lemma cdb_checkpointed:
  assumes "lru_ok L E"
  shows "checkpointed (cdb_inv E) cdb_view cdb_saved (cdb_checkpoint r) (cdb_commit L) (sq cdb_revert (ret ()))
    (\<lambda>_. True) (cdb_batch L) (fold db_op)"
proof
  show "\<exists>s'. sq cdb_revert (ret ()) s = (Inr (), s') \<and> cdb_inv E s' \<and> cdb_view s' = v \<and> cdb_saved s' = vs"
    if "cdb_inv E s" "cdb_saved s = v # vs" for s v vs
    using cdb_revert_law [OF that] by (auto simp: sq_def bnd_def)
  show "\<exists>s'. cdb_checkpoint r s = (Inr (), s') \<and> cdb_inv E s' \<and> cdb_view s' = cdb_view s \<and> cdb_saved s' = cdb_view s # cdb_saved s"
    if "cdb_inv E s" for s
    using cdb_checkpoint_law [OF that] by blast
  show "\<exists>s'. cdb_commit L s = (Inr (), s') \<and> cdb_inv E s' \<and> cdb_view s' = cdb_view s \<and> cdb_saved s' = vs"
    if "cdb_inv E s" "cdb_saved s = v # vs" for s v vs
    using cdb_commit_law [OF assms that] by blast
  show "\<exists>s'. cdb_batch L w s = (Inr (), s') \<and> cdb_inv E s' \<and> cdb_view s' = fold db_op w (cdb_view s) \<and> cdb_saved s' = cdb_saved s"
    if "cdb_inv E s" for s w
    using cdb_batch_law [OF assms that] by blast
qed

text \<open>
  C38. The checkpointing database: after any tree of frames of batches, committed and reverted at
  any nesting, and whatever the read cache evicts, a read gives what the committed batches alone
  say, the database on disk holds just that, and no operation fails.
\<close>
theorem checkpoint_db_frames:
  assumes "lru_ok L E" "E c = Map.empty"
  shows "\<exists>d d'. run_frames (cdb_batch L) (cdb_checkpoint r) (cdb_commit L) (sq cdb_revert (ret ())) acts (new_cdb (Some c)) = (Inr (), d) \<and>
    database d = eval_frames (fold db_op) acts Map.empty \<and>
    cdb_get L k d = (Inr (eval_frames (fold db_op) acts Map.empty k), d')"
proof -
  have allw: "all_writes (\<lambda>_. True) acts" by (induction acts rule: frames_induct) simp_all
  have new: "cdb_inv E (new_cdb (Some c))" "cdb_view (new_cdb (Some c)) = Map.empty" "cdb_saved (new_cdb (Some c)) = []"
    using assms(2) by (simp_all add: cdb_inv_def new_cdb_def cdb_view_def cdb_saved_def)
  obtain d where d: "run_frames (cdb_batch L) (cdb_checkpoint r) (cdb_commit L) (sq cdb_revert (ret ())) acts (new_cdb (Some c)) = (Inr (), d)"
    "cdb_inv E d" "cdb_view d = eval_frames (fold db_op) acts Map.empty" "cdb_saved d = []"
    using checkpointed.run_frames_refines [OF cdb_checkpointed [OF assms(1)] new(1) allw] new(2,3) by metis
  then have "checkpoints d = []" by (cases "checkpoints d") (simp_all add: cdb_saved_def)
  then have "database d = cdb_view d" by (simp add: cdb_view_def)
  moreover obtain d' where "cdb_get L k d = (Inr (cdb_view d k), d')" using cdb_get_law [OF assms(1) d(2), of k] by blast
  ultimately show ?thesis using d by auto
qed

text \<open>A cache of at most one entry, as a concrete instance.\<close>

definition one_entry :: "(bytes \<times> bytes) option lru" where
  "one_entry = \<lparr>lru_get = (\<lambda>k c. (case c of Some (j, v) \<Rightarrow> if j = k then Some v else None | None \<Rightarrow> None, c)),
     lru_set = (\<lambda>k v c. Some (k, v)), lru_delete = (\<lambda>k c. case c of Some (j, v) \<Rightarrow> if j = k then None else c | None \<Rightarrow> None)\<rparr>"

definition one_entry_map :: "(bytes \<times> bytes) option \<Rightarrow> bytes \<rightharpoonup> bytes" where
  "one_entry_map c = (case c of Some (j, v) \<Rightarrow> [j \<mapsto> v] | None \<Rightarrow> Map.empty)"

lemma one_entry_ok: "lru_ok one_entry one_entry_map"
  by (auto simp: lru_ok_def one_entry_def one_entry_map_def map_le_def split: option.splits)

theorem checkpoint_db_frames_witness:
  "\<exists>d d'. run_frames (cdb_batch one_entry) (cdb_checkpoint [0]) (cdb_commit one_entry) (sq cdb_revert (ret ()))
     [Write [BPut [1] [5]], Frame [Write [BDel [1], BPut [2] [7]]] False] (new_cdb (Some None)) = (Inr (), d) \<and>
     cdb_get one_entry [1] d = (Inr (Some [5]), d')"
  using checkpoint_db_frames [OF one_entry_ok, of None "[0]" "[Write [BPut [1] [5]], Frame [Write [BDel [1], BPut [2] [7]]] False]" "[1]"]
  by (auto simp: one_entry_map_def simp del: run_frames.simps)

end
