(* ===== verification/Nibbles.thy ===== *)
theory Nibbles
  imports Rlp
begin

text \<open>
  Nibble paths of the Merkle Patricia trie: \<^verbatim>\<open>packages/mpt/src/util/nibbles.ts\<close>, \<^verbatim>\<open>util/hex.ts\<close> and
  \<^verbatim>\<open>util/encoding.ts\<close>. A nibble is a number below 16 in an array; the hex encoding of
  \<^verbatim>\<open>encoding.ts\<close> may end in the terminator 16.
\<close>

type_synonym nibbles = "nat list"

section \<open>Bytes and nibbles\<close>

definition bytesToNibbles :: "bytes \<Rightarrow> nibbles" where
  "bytesToNibbles k = concat (map (\<lambda>b. [unat b div 16, unat b mod 16]) k)"

text \<open>An odd last nibble has no byte.\<close>

fun nibblesTypeToPackedBytes :: "nibbles \<Rightarrow> bytes" where
  "nibblesTypeToPackedBytes (a # b # ns) = word_of_nat (a * 16 + b) # nibblesTypeToPackedBytes ns"
| "nibblesTypeToPackedBytes _ = []"

fun nibblesCompare :: "nibbles \<Rightarrow> nibbles \<Rightarrow> int" where
  "nibblesCompare (a # as) (b # bs) = (if a < b then -1 else if a > b then 1 else nibblesCompare as bs)"
| "nibblesCompare [] [] = 0"
| "nibblesCompare [] (b # bs) = -1"
| "nibblesCompare (a # as) [] = 1"

fun matchingNibbleLength :: "nibbles \<Rightarrow> nibbles \<Rightarrow> nat" where
  "matchingNibbleLength (a # as) (b # bs) = (if a = b then Suc (matchingNibbleLength as bs) else 0)"
| "matchingNibbleLength _ _ = 0"

section \<open>Hex prefix\<close>

definition addHexPrefix :: "nibbles \<Rightarrow> bool \<Rightarrow> nibbles" where
  "addHexPrefix k terminator =
     (let k' = (if odd (length k) then 1 # k else 0 # 0 # k)
      in if terminator then (hd k' + 2) # tl k' else k')"

text \<open>On an empty array the first element is undefined, which is neither odd nor above one.\<close>

definition removeHexPrefix :: "nibbles \<Rightarrow> nibbles" where
  "removeHexPrefix v = (if v \<noteq> [] \<and> odd (v ! 0) then drop 1 v else drop 2 v)"

definition isTerminator :: "nibbles \<Rightarrow> bool" where
  "isTerminator k \<longleftrightarrow> k \<noteq> [] \<and> 1 < k ! 0"

section \<open>Hex and compact encodings\<close>

definition hasTerminator :: "nibbles \<Rightarrow> bool" where
  "hasTerminator ns \<longleftrightarrow> ns \<noteq> [] \<and> last ns = 16"

definition hexToKeybytes :: "nibbles \<Rightarrow> exn + bytes" where
  "hexToKeybytes hex =
     (let h = (if hasTerminator hex then butlast hex else hex)
      in if odd (length h) then Inl (HostError ''Can't convert hex key of odd length'') else Inr (nibblesTypeToPackedBytes h))"

definition nibblesToCompactBytes :: "nibbles \<Rightarrow> bytes" where
  "nibblesToCompactBytes nibbles =
     (let terminator = (if hasTerminator nibbles then 1 else 0);
          ns = (if hasTerminator nibbles then butlast nibbles else nibbles)
      in if odd (length ns) then word_of_nat (terminator * 32 + 16 + ns ! 0) # nibblesTypeToPackedBytes (drop 1 ns)
         else word_of_nat (terminator * 32) # nibblesTypeToPackedBytes ns)"

text \<open>\<^verbatim>\<open>bytesToNibbles\<close> of \<^verbatim>\<open>encoding.ts\<close>, with the terminator.\<close>

definition bytesToHexNibbles :: "bytes \<Rightarrow> nibbles" where
  "bytesToHexNibbles str = bytesToNibbles str @ [16]"

definition compactBytesToNibbles :: "bytes \<Rightarrow> nibbles" where
  "compactBytesToNibbles compact =
     (if compact = [] then []
      else let base = bytesToHexNibbles compact;
               base' = (if base ! 0 < 2 then butlast base else base);
               chop = 2 - base' ! 0 mod 2
           in drop chop base')"

section \<open>Facts\<close>

abbreviation nibble_path :: "nibbles \<Rightarrow> bool" where "nibble_path \<equiv> hex_digits"

lemma bytesToNibbles_eq: "bytesToNibbles k = nibbles_of k"
  by (simp add: bytesToNibbles_def nibbles_of_def)

lemma packed_pair_up: "nibblesTypeToPackedBytes = pair_up"
proof
  fix ns show "nibblesTypeToPackedBytes ns = pair_up ns" by (induction ns rule: pair_up.induct) simp_all
qed

lemma bytesToNibbles_facts [simp]:
  "nibble_path (bytesToNibbles k)" "length (bytesToNibbles k) = 2 * length k" "nibblesTypeToPackedBytes (bytesToNibbles k) = k"
  by (simp_all add: bytesToNibbles_eq packed_pair_up nibbles_of_facts)

lemma bytesToNibbles_inject: "bytesToNibbles k = bytesToNibbles k' \<longleftrightarrow> k = k'"
  by (metis bytesToNibbles_facts(3))

lemma nibbles_pair_up: "nibble_path ns \<Longrightarrow> even (length ns) \<Longrightarrow> bytesToNibbles (pair_up ns) = ns"
proof (induction ns rule: pair_up.induct)
  case (1 a b ns)
  define k where "k = a * 16 + b"
  with 1 have "k < 256" "k div 16 = a" "k mod 16 = b" by simp_all
  moreover have "pair_up (a # b # ns) = word_of_nat k # pair_up ns" by (simp add: k_def)
  ultimately show ?case using 1 by (simp add: bytesToNibbles_eq unat_small del: pair_up.simps)
qed (simp_all add: bytesToNibbles_eq)

text \<open>The key of a node in the database: prefixed, packed, read back and stripped.\<close>

lemma hex_prefix_roundtrip:
  assumes "nibble_path ns"
  shows "bytesToNibbles (nibblesTypeToPackedBytes (addHexPrefix ns t)) = addHexPrefix ns t"
    "isTerminator (addHexPrefix ns t) \<longleftrightarrow> t" "removeHexPrefix (addHexPrefix ns t) = ns"
proof -
  have "nibble_path (addHexPrefix ns t)" "even (length (addHexPrefix ns t))"
    using assms by (auto simp: addHexPrefix_def Let_def)
  then show "bytesToNibbles (nibblesTypeToPackedBytes (addHexPrefix ns t)) = addHexPrefix ns t"
    by (simp add: packed_pair_up nibbles_pair_up)
  show "isTerminator (addHexPrefix ns t) \<longleftrightarrow> t" "removeHexPrefix (addHexPrefix ns t) = ns"
    by (auto simp: addHexPrefix_def isTerminator_def removeHexPrefix_def Let_def)
qed

lemma matching_prefix:
  "matchingNibbleLength xs ys \<le> length xs" "matchingNibbleLength xs ys \<le> length ys"
  "take (matchingNibbleLength xs ys) xs = take (matchingNibbleLength xs ys) ys"
  by (induction xs ys rule: matchingNibbleLength.induct) simp_all

lemma matching_differ:
  "drop (matchingNibbleLength xs ys) xs = a # as \<Longrightarrow> drop (matchingNibbleLength xs ys) ys = b # bs \<Longrightarrow> a \<noteq> b"
  by (induction xs ys rule: matchingNibbleLength.induct) (auto split: if_splits)

lemma matching_full: "matchingNibbleLength xs ys = length xs \<longleftrightarrow> take (length xs) ys = xs"
  by (induction xs ys rule: matchingNibbleLength.induct) auto

lemma nibblesCompare_eq: "nibblesCompare xs ys = 0 \<longleftrightarrow> xs = ys"
  by (induction xs ys rule: nibblesCompare.induct) auto

lemma nibblesCompare_antisym: "nibblesCompare ys xs = - nibblesCompare xs ys"
  by (induction xs ys rule: nibblesCompare.induct) auto

lemma butlast_hex: "hasTerminator ns \<Longrightarrow> ns = butlast ns @ [16]"
  by (metis append_butlast_last_id hasTerminator_def)

text \<open>
  The compact encoding: a path of nibbles, with or without the terminator, is read back from
  its compact encoding.
\<close>
theorem compact_roundtrip:
  assumes "nibble_path ns"
  shows "compactBytesToNibbles (nibblesToCompactBytes ns) = ns \<and> compactBytesToNibbles (nibblesToCompactBytes (ns @ [16])) = ns @ [16]"
proof -
  have no: "\<not> hasTerminator ns" using assms by (auto simp: hasTerminator_def hex_digits_def dest!: last_in_set)
  have read: "compactBytesToNibbles (word_of_nat (t * 32 + o' * 16 + x) # pair_up ms) =
      (if t = 0 then (if o' = 0 then ms else x # ms) else (if o' = 0 then ms else x # ms) @ [16])"
    if "t \<le> 1" "o' \<le> 1" "x < 16" "nibble_path ms" "even (length ms)" for t o' x ms
  proof -
    define k where "k = t * 32 + o' * 16 + x"
    have "k = (t * 2 + o') * 16 + x" by (simp add: k_def algebra_simps)
    then obtain q where q: "q = t * 2 + o'" "k = q * 16 + x" by blast
    have "k mod 16 = x" "k div 16 = q" using that(3) by (simp_all add: q(2))
    then have k: "k < 256" "k div 16 = t * 2 + o'" "k mod 16 = x" using that(1-3) q by auto
    have "bytesToHexNibbles (word_of_nat k # pair_up ms) = (t * 2 + o') # x # ms @ [16]"
      using that k nibbles_pair_up [of ms] by (simp add: bytesToHexNibbles_def bytesToNibbles_eq unat_small)
    moreover have "o' = 0 \<or> o' = 1" "t = 0 \<or> t = 1" using that by auto
    ultimately show ?thesis unfolding k_def [symmetric] by (auto simp: compactBytesToNibbles_def Let_def butlast_append)
  qed
  show ?thesis
  proof (cases "odd (length ns)")
    case True
    then obtain x ms where ns: "ns = x # ms" by (cases ns) auto
    with assms True read [of 0 1 x ms] read [of 1 1 x ms] no show ?thesis
      by (simp add: nibblesToCompactBytes_def packed_pair_up hasTerminator_def)
  next
    case False
    with assms read [of 0 0 0 ns] read [of 1 0 0 ns] no show ?thesis
      by (auto simp: nibblesToCompactBytes_def packed_pair_up hasTerminator_def Let_def)
  qed
qed

theorem compact_roundtrip_witness: "compactBytesToNibbles (nibblesToCompactBytes [1, 2, 3, 16]) = [1, 2, 3, 16]"
  using compact_roundtrip [of "[1, 2, 3]"] by simp

end
