(* ===== verification/Trie.thy ===== *)
theory Trie
  imports Nibbles CheckpointDb
begin

text \<open>
  The Merkle Patricia trie of \<^verbatim>\<open>packages/mpt/src/mpt.ts\<close> with its nodes (\<^verbatim>\<open>src/node\<close>): nodes are
  serialised with RLP and stored under their hash, a node shorter than 32 bytes is kept inside its
  parent. A reference to a node is what the arrays of the source hold: the bytes of a hash or the
  raw node itself; \<^verbatim>\<open>null\<close> is \<open>INull\<close>.

  The hash function and the options are a record; the operations run one at a time, as under the
  lock of the source. The walk of \<^verbatim>\<open>findPath\<close> follows one path only, so it is a loop; it takes fuel,
  because a damaged database may lead it around in a circle. Its stack has one entry for each node
  visited.
\<close>

section \<open>Nodes\<close>

datatype mpt_node =
    BranchMPTNode "rlp_input list" rlp_input
  | ExtensionMPTNode nibbles rlp_input
  | LeafMPTNode nibbles rlp_input

definition new_branch :: mpt_node where
  "new_branch = BranchMPTNode (replicate 16 INull) INull"

text \<open>\<^verbatim>\<open>b !== null && b.length > 0\<close>.\<close>

definition present :: "rlp_input \<Rightarrow> bool" where
  "present b \<longleftrightarrow> (case b of IBytes x \<Rightarrow> x \<noteq> [] | IArr x \<Rightarrow> x \<noteq> [] | IStr x \<Rightarrow> x \<noteq> [] | _ \<Rightarrow> False)"

text \<open>\<^verbatim>\<open>value()\<close>: a branch without a value has \<^verbatim>\<open>null\<close>.\<close>

fun node_value :: "mpt_node \<Rightarrow> rlp_input" where
  "node_value (BranchMPTNode bs v) = (if present v then v else INull)"
| "node_value (ExtensionMPTNode k v) = v"
| "node_value (LeafMPTNode k v) = v"

text \<open>\<^verbatim>\<open>value(v)\<close>: the setter of a branch ignores \<^verbatim>\<open>null\<close>.\<close>

fun set_value :: "rlp_input \<Rightarrow> mpt_node \<Rightarrow> mpt_node" where
  "set_value x (BranchMPTNode bs v) = BranchMPTNode bs (if x = INull then v else x)"
| "set_value x (ExtensionMPTNode k v) = ExtensionMPTNode k x"
| "set_value x (LeafMPTNode k v) = LeafMPTNode k x"

fun node_key :: "mpt_node \<Rightarrow> nibbles" where
  "node_key (BranchMPTNode bs v) = []"
| "node_key (ExtensionMPTNode k v) = k"
| "node_key (LeafMPTNode k v) = k"

fun set_key :: "nibbles \<Rightarrow> mpt_node \<Rightarrow> mpt_node" where
  "set_key x (BranchMPTNode bs v) = BranchMPTNode bs v"
| "set_key x (ExtensionMPTNode k v) = ExtensionMPTNode x v"
| "set_key x (LeafMPTNode k v) = LeafMPTNode x v"

fun setBranch :: "nat \<Rightarrow> rlp_input \<Rightarrow> mpt_node \<Rightarrow> mpt_node" where
  "setBranch i x (BranchMPTNode bs v) = BranchMPTNode (bs[i := x]) v"
| "setBranch i x n = n"

definition getBranch :: "rlp_input list \<Rightarrow> nat \<Rightarrow> rlp_input option" where
  "getBranch bs i = (if i < length bs \<and> present (bs ! i) then Some (bs ! i) else None)"

fun getChildren :: "mpt_node \<Rightarrow> (nat \<times> rlp_input) list" where
  "getChildren (BranchMPTNode bs v) = filter (\<lambda>(i, b). present b) (zip [0..<16] bs)"
| "getChildren n = []"

fun is_branch :: "mpt_node \<Rightarrow> bool" where
  "is_branch (BranchMPTNode _ _) = True"
| "is_branch _ = False"

fun is_leaf :: "mpt_node \<Rightarrow> bool" where
  "is_leaf (LeafMPTNode _ _) = True"
| "is_leaf _ = False"

fun raw :: "mpt_node \<Rightarrow> rlp_input list" where
  "raw (BranchMPTNode bs v) = bs @ [v]"
| "raw (ExtensionMPTNode k v) = [IBytes (nibblesTypeToPackedBytes (addHexPrefix k False)), v]"
| "raw (LeafMPTNode k v) = [IBytes (nibblesTypeToPackedBytes (addHexPrefix k True)), v]"

definition serialize :: "mpt_node \<Rightarrow> exn + bytes" where
  "serialize n = rlp_encode (IArr (raw n))"

text \<open>The key of a two-element node is an array of bytes.\<close>

definition decodeRawMPTNode :: "rlp_input list \<Rightarrow> exn + mpt_node" where
  "decodeRawMPTNode r =
     (if length r = 17 then Inr (BranchMPTNode (take 16 r) (r ! 16))
      else if length r = 2 then
        (case r ! 0 of
           IBytes k \<Rightarrow> let ns = bytesToNibbles k
             in Inr ((if isTerminator ns then LeafMPTNode else ExtensionMPTNode) (removeHexPrefix ns) (r ! 1))
         | _ \<Rightarrow> Inl (HostError ''TypeError''))
      else Inl (HostError ''Invalid node''))"

definition decodeMPTNode :: "bytes \<Rightarrow> exn + mpt_node" where
  "decodeMPTNode b = (case decode (IBytes b) of
     Inl e \<Rightarrow> Inl e
   | Inr (RBytes _) \<Rightarrow> Inl (HostError ''Invalid node'')
   | Inr (RList ds) \<Rightarrow> decodeRawMPTNode (map rlp_embed ds))"

section \<open>The trie\<close>

record trie_opts =
  hash :: "bytes \<Rightarrow> bytes"
  useKeyHashing :: bool
  useNodePruning :: bool
  useRootPersistence :: bool
  keyPrefix :: bytes

record 'c trie =
  t_db :: "'c cdb"
  t_root :: bytes

definition RLP_EMPTY_STRING :: bytes where
  "RLP_EMPTY_STRING = [0x80]"

definition ROOT_DB_KEY :: bytes where
  "ROOT_DB_KEY = utf8ToBytes ''__root__''"

definition EMPTY_TRIE_ROOT :: "trie_opts \<Rightarrow> bytes" where
  "EMPTY_TRIE_ROOT o' = hash o' RLP_EMPTY_STRING"

definition on_db :: "('c cdb, 'a) op \<Rightarrow> ('c trie, 'a) op" where
  "on_db m t = (case m (t_db t) of (r, d) \<Rightarrow> (r, t\<lparr>t_db := d\<rparr>))"

definition set_root :: "trie_opts \<Rightarrow> bytes \<Rightarrow> ('c trie, unit) op" where
  "set_root o' value t =
     (if length value \<noteq> length (EMPTY_TRIE_ROOT o') then throw (HostError ''Invalid root length'') t
      else (Inr (), t\<lparr>t_root := value\<rparr>))"

definition getDbKey :: "trie_opts \<Rightarrow> bytes \<Rightarrow> bytes" where
  "getDbKey o' h = keyPrefix o' @ h"

definition appliedKey :: "trie_opts \<Rightarrow> bytes \<Rightarrow> bytes" where
  "appliedKey o' key = (if useKeyHashing o' then hash o' key else key)"

definition persistRoot :: "trie_opts \<Rightarrow> 'c lru \<Rightarrow> ('c trie, unit) op" where
  "persistRoot o' L t =
     (if useRootPersistence o' then on_db (cdb_put L (getDbKey o' (appliedKey o' ROOT_DB_KEY)) (t_root t)) t else (Inr (), t))"

definition new_trie :: "trie_opts \<Rightarrow> 'c option \<Rightarrow> 'c trie" where
  "new_trie o' c = \<lparr>t_db = new_cdb c, t_root = EMPTY_TRIE_ROOT o'\<rparr>"

definition lookupNode :: "trie_opts \<Rightarrow> 'c lru \<Rightarrow> rlp_input \<Rightarrow> ('c trie, mpt_node) op" where
  "lookupNode o' L ref = (case ref of
     IArr r \<Rightarrow> lift_sum (decodeRawMPTNode r)
   | IBytes h \<Rightarrow> bnd (on_db (cdb_get L (getDbKey o' h))) (\<lambda>v. case v of
       None \<Rightarrow> throw (HostError ''Missing node in DB'')
     | Some b \<Rightarrow> lift_sum (decodeMPTNode b))
   | _ \<Rightarrow> throw (HostError ''TypeError''))"

section \<open>Finding a path\<close>

text \<open>The node found, if any, the nibbles that remain and the nodes on the way.\<close>

type_synonym path = "mpt_node option \<times> nibbles \<times> mpt_node list"

text \<open>What \<^verbatim>\<open>onFound\<close> does at a node: a result, or the reference to go on with.\<close>

fun visit :: "mpt_node \<Rightarrow> nibbles \<Rightarrow> mpt_node list \<Rightarrow> path + rlp_input \<times> nibbles" where
  "visit (BranchMPTNode bs v) key stack = (case key of
     [] \<Rightarrow> Inl (Some (BranchMPTNode bs v), [], stack)
   | i # key' \<Rightarrow> (case getBranch bs i of None \<Rightarrow> Inl (None, key, stack) | Some r \<Rightarrow> Inr (r, key')))"
| "visit (LeafMPTNode k v) key stack =
     (if length k < length key then Inl (None, key, stack)
      else if take (length k) key = k then Inl (Some (LeafMPTNode k v), [], stack)
      else Inl (None, key, stack))"
| "visit (ExtensionMPTNode k v) key stack =
     (if take (length k) key = k then Inr (v, drop (length k) key) else Inl (None, key, stack))"

text \<open>A node that is not in the database ends the walk without a result, unless the caller asks for
  the error.\<close>

fun walk :: "nat \<Rightarrow> trie_opts \<Rightarrow> 'c lru \<Rightarrow> bool \<Rightarrow> rlp_input \<Rightarrow> nibbles \<Rightarrow> mpt_node list \<Rightarrow> ('c trie, path) op" where
  "walk 0 o' L strict ref key stack t = (Inl (HostError ''out of fuel''), t)"
| "walk (Suc n) o' L strict ref key stack t = (case lookupNode o' L ref t of
     (Inl e, t') \<Rightarrow> if e \<noteq> HostError ''Missing node in DB'' \<or> strict then (Inl e, t') else (Inr (None, [], stack), t')
   | (Inr node, t') \<Rightarrow> (case visit node key (stack @ [node]) of
       Inl p \<Rightarrow> (Inr p, t')
     | Inr (r, key') \<Rightarrow> walk n o' L strict r key' (stack @ [node]) t'))"

text \<open>Every node on a path but the last takes at least one nibble.\<close>

definition findPath :: "trie_opts \<Rightarrow> 'c lru \<Rightarrow> bytes \<Rightarrow> bool \<Rightarrow> ('c trie, path) op" where
  "findPath o' L key strict t =
     (let targetKey = bytesToNibbles key
      in walk (Suc (length targetKey)) o' L strict (IBytes (t_root t)) targetKey [] t)"

definition trie_get :: "trie_opts \<Rightarrow> 'c lru \<Rightarrow> bytes \<Rightarrow> bool \<Rightarrow> ('c trie, rlp_input) op" where
  "trie_get o' L key strict =
     bnd (findPath o' L (appliedKey o' key) strict) (\<lambda>(node, remaining, _).
       ret (case node of Some n \<Rightarrow> if remaining = [] then node_value n else INull | None \<Rightarrow> INull))"

section \<open>Saving\<close>

text \<open>\<^verbatim>\<open>_formatNode\<close>: the reference to a node, and the operations on the database.\<close>

definition formatNode :: "trie_opts \<Rightarrow> mpt_node \<Rightarrow> bool \<Rightarrow> bool \<Rightarrow> exn + rlp_input \<times> batch_op list" where
  "formatNode o' node topLevel remove = (case serialize node of Inl e \<Rightarrow> Inl e | Inr encoded \<Rightarrow>
     if 32 \<le> length encoded \<or> topLevel
     then let nodeHash = hash o' encoded; dbKey = getDbKey o' nodeHash
          in Inr (IBytes nodeHash, if remove then (if useNodePruning o' then [BDel dbKey] else []) else [BPut dbKey encoded])
     else Inr (IArr (raw node), []))"

text \<open>\<^verbatim>\<open>splice(length - k)\<close> on an array: drops the last \<open>k\<close> elements; a negative start counts from the end.\<close>

definition splice_last :: "nat \<Rightarrow> 'a list \<Rightarrow> 'a list" where
  "splice_last k xs = take (if k \<le> length xs then length xs - k else 2 * length xs - k) xs"

definition link :: "mpt_node \<Rightarrow> rlp_input option \<Rightarrow> nibbles \<Rightarrow> mpt_node \<times> nibbles" where
  "link node child path = (case node of
     LeafMPTNode k v \<Rightarrow> (node, splice_last (length k) path)
   | ExtensionMPTNode k v \<Rightarrow> ((case child of Some c \<Rightarrow> ExtensionMPTNode k c | None \<Rightarrow> node), splice_last (length k) path)
   | BranchMPTNode bs v \<Rightarrow> (case child of
       None \<Rightarrow> (node, path)
     | Some c \<Rightarrow> if path = [] then (node, []) else (BranchMPTNode (bs[last path := c]) v, butlast path)))"

text \<open>The loop of \<^verbatim>\<open>saveStack\<close>, over the reversed stack: the reference to the root and the operations.\<close>

fun save_loop :: "trie_opts \<Rightarrow> nibbles \<Rightarrow> mpt_node list \<Rightarrow> rlp_input option \<Rightarrow> batch_op list \<Rightarrow> exn + rlp_input option \<times> batch_op list" where
  "save_loop o' path [] child ops = Inr (child, ops)"
| "save_loop o' path (node # rest) child ops = (case link node child path of (node', path') \<Rightarrow>
     (case formatNode o' node' (rest = []) False of Inl e \<Rightarrow> Inl e | Inr (r, ops') \<Rightarrow>
       save_loop o' path' rest (Some r) (ops @ ops')))"

definition saveStack :: "trie_opts \<Rightarrow> 'c lru \<Rightarrow> nibbles \<Rightarrow> mpt_node list \<Rightarrow> batch_op list \<Rightarrow> ('c trie, unit) op" where
  "saveStack o' L path stack ops =
     bnd (lift_sum (save_loop o' path (rev stack) None ops)) (\<lambda>(child, ops').
       sq (case child of None \<Rightarrow> ret () | Some (IBytes h) \<Rightarrow> set_root o' h | Some _ \<Rightarrow> throw (HostError ''Invalid root length''))
       (sq (on_db (cdb_batch L ops')) (persistRoot o' L)))"

definition createInitialNode :: "trie_opts \<Rightarrow> 'c lru \<Rightarrow> bytes \<Rightarrow> bytes \<Rightarrow> ('c trie, unit) op" where
  "createInitialNode o' L key value =
     bnd (lift_sum (serialize (LeafMPTNode (bytesToNibbles key) (IBytes value)))) (\<lambda>encoded.
       sq (set_root o' (hash o' encoded))
       (sq (on_db (cdb_put L (getDbKey o' (hash o' encoded)) encoded)) (persistRoot o' L)))"

section \<open>Updating\<close>

definition isMatchingLeafUpdate :: "mpt_node \<Rightarrow> mpt_node list \<Rightarrow> nibbles \<Rightarrow> nibbles \<Rightarrow> bool" where
  "isMatchingLeafUpdate lastNode stack full remainder \<longleftrightarrow>
     is_leaf lastNode \<and> remainder = [] \<and>
     (let keyOffset = sum_list (map (\<lambda>n. if is_branch n then 1 else length (node_key n)) stack)
      in matchingNibbleLength (node_key lastNode) (drop keyOffset full) = length (node_key lastNode))"

text \<open>The third case of \<^verbatim>\<open>_updateNode\<close>: the path leaves the last node, an extension or a leaf, and a new branch
  takes its place.\<close>

definition hang_old :: "trie_opts \<Rightarrow> mpt_node \<Rightarrow> nibbles \<Rightarrow> exn + mpt_node \<times> batch_op list" where
  "hang_old o' lastNode lastKey = (case lastKey of
     [] \<Rightarrow> Inr (set_value (node_value lastNode) new_branch, [])
   | b # lk \<Rightarrow>
       if lk \<noteq> [] \<or> is_leaf lastNode
       then (case formatNode o' (set_key lk lastNode) False False of Inl e \<Rightarrow> Inl e
             | Inr (r, ops) \<Rightarrow> Inr (setBranch b r new_branch, ops))
       else (case formatNode o' lastNode False True of Inl e \<Rightarrow> Inl e
             | Inr (_, ops) \<Rightarrow> Inr (setBranch b (node_value lastNode) new_branch, ops)))"

definition diverge :: "trie_opts \<Rightarrow> bytes \<Rightarrow> mpt_node \<Rightarrow> nibbles \<Rightarrow> exn + mpt_node list \<times> batch_op list" where
  "diverge o' value lastNode remainder =
     (let m = matchingNibbleLength (node_key lastNode) remainder;
          ext = (if m \<noteq> 0 then [ExtensionMPTNode (take m (node_key lastNode)) (IBytes value)] else []);
          rem = drop m remainder
      in case hang_old o' lastNode (drop m (node_key lastNode)) of Inl e \<Rightarrow> Inl e
         | Inr (branch, ops) \<Rightarrow>
             (case rem of
                [] \<Rightarrow> Inr (ext @ [set_value (IBytes value) branch], ops)
              | _ # r \<Rightarrow> Inr (ext @ [branch, LeafMPTNode r (IBytes value)], ops)))"

text \<open>The new stack and the operations on the database, before it is saved.\<close>

definition update_stack :: "trie_opts \<Rightarrow> nibbles \<Rightarrow> bytes \<Rightarrow> nibbles \<Rightarrow> mpt_node list \<Rightarrow> exn + mpt_node list \<times> batch_op list" where
  "update_stack o' full value remainder stack =
     (if stack = [] then Inl (HostError ''Stack underflow'')
      else let lastNode = last stack; rest = butlast stack
      in if isMatchingLeafUpdate lastNode rest full remainder
         then Inr (rest @ [set_value (IBytes value) lastNode], [])
         else if is_branch lastNode
         then (case remainder of
                 [] \<Rightarrow> Inr (rest @ [set_value (IBytes value) lastNode], [])
               | _ # r \<Rightarrow> Inr (rest @ [lastNode, LeafMPTNode r (IBytes value)], []))
         else (case diverge o' value lastNode remainder of Inl e \<Rightarrow> Inl e
               | Inr (new, ops) \<Rightarrow> Inr (rest @ new, ops)))"

definition updateNode :: "trie_opts \<Rightarrow> 'c lru \<Rightarrow> bytes \<Rightarrow> bytes \<Rightarrow> nibbles \<Rightarrow> mpt_node list \<Rightarrow> ('c trie, unit) op" where
  "updateNode o' L keyBytes value remainder stack =
     (let full = bytesToNibbles keyBytes
      in bnd (lift_sum (update_stack o' full value remainder stack)) (\<lambda>(stack', ops). saveStack o' L full stack' ops))"

section \<open>Deleting\<close>

text \<open>\<^verbatim>\<open>collapseBranchWithOneChild\<close>: the stack and the path after the only child has taken the place of its branch.\<close>

definition collapse :: "nibbles \<Rightarrow> nat \<Rightarrow> mpt_node \<Rightarrow> mpt_node option \<Rightarrow> mpt_node list \<Rightarrow> mpt_node list \<times> nibbles" where
  "collapse path i child parent stack = (case parent of
     Some (ExtensionMPTNode pk pv) \<Rightarrow>
       if is_branch child then (stack @ [ExtensionMPTNode (pk @ [i]) pv, child], path @ [i])
       else (stack @ [set_key (pk @ i # node_key child) child], path @ i # node_key child)
   | _ \<Rightarrow>
       (let stack' = stack @ (case parent of Some p \<Rightarrow> [p] | None \<Rightarrow> [])
        in if is_branch child then (stack' @ [ExtensionMPTNode [i] (IBytes []), child], path @ [i])
           else (stack' @ [set_key (i # node_key child) child], path @ i # node_key child)))"

text \<open>\<^verbatim>\<open>Expected extension node\<close> and \<^verbatim>\<open>Expected branch node\<close>: a leaf is nobody's parent, and an extension is not the
  parent of a leaf.\<close>

definition pop_node :: "mpt_node list \<Rightarrow> mpt_node option \<times> mpt_node list" where
  "pop_node stack = (if stack = [] then (None, []) else (Some (last stack), butlast stack))"

definition remove_child :: "trie_opts \<Rightarrow> 'c lru \<Rightarrow> nibbles \<Rightarrow> mpt_node \<Rightarrow> mpt_node option \<Rightarrow> mpt_node list \<Rightarrow> batch_op list \<Rightarrow> ('c trie, unit) op" where
  "remove_child o' L path branch parent stack ops = (case getChildren branch of
     [(i, ref)] \<Rightarrow>
       bnd (lift_sum (if \<not> useNodePruning o' then Inr [] else case ref of
              IBytes h \<Rightarrow> Inr [BDel (getDbKey o' h)]
            | _ \<Rightarrow> map_sum id (\<lambda>b. [BDel (getDbKey o' (hash o' b))]) (rlp_encode ref))) (\<lambda>dels.
       bnd (lookupNode o' L ref) (\<lambda>child.
         if (case parent of Some (LeafMPTNode _ _) \<Rightarrow> True | _ \<Rightarrow> False) then throw (HostError ''Expected extension node'')
         else case collapse path i child parent stack of (stack', path') \<Rightarrow> saveStack o' L path' stack' (ops @ dels)))
   | _ \<Rightarrow> saveStack o' L path (stack @ (case parent of Some p \<Rightarrow> [p] | None \<Rightarrow> []) @ [branch]) ops)"

definition deleteNode :: "trie_opts \<Rightarrow> 'c lru \<Rightarrow> bytes \<Rightarrow> mpt_node list \<Rightarrow> ('c trie, unit) op" where
  "deleteNode o' L keyBytes stack = (case pop_node stack of
     (None, _) \<Rightarrow> throw (HostError ''missing last node'')
   | (Some lastNode, stack1) \<Rightarrow> (case pop_node stack1 of
       (None, _) \<Rightarrow> set_root o' (EMPTY_TRIE_ROOT o')
     | (Some parent, stack2) \<Rightarrow>
         (let path = bytesToNibbles keyBytes
          in if is_branch lastNode then remove_child o' L path (set_value INull lastNode) (Some parent) stack2 []
             else if \<not> is_branch parent then throw (HostError ''Expected branch node'')
             else bnd (lift_sum (formatNode o' lastNode False True)) (\<lambda>(_, ops).
               let path' = splice_last (length (node_key lastNode)) path;
                   branch = (if path' = [] then parent else setBranch (last path') INull parent);
                   (grand, stack3) = pop_node stack2
               in remove_child o' L (butlast path') branch grand stack3 ops))))"

section \<open>Operations\<close>

definition createPruneDeleteOps :: "trie_opts \<Rightarrow> mpt_node list \<Rightarrow> exn + batch_op list" where
  "createPruneDeleteOps o' stack =
     foldr (\<lambda>n r. case serialize n of Inl e \<Rightarrow> Inl e | Inr b \<Rightarrow> map_sum id (\<lambda>ops. BDel (getDbKey o' (hash o' b)) # ops) r) stack (Inr [])"

definition trie_del :: "trie_opts \<Rightarrow> 'c lru \<Rightarrow> bytes \<Rightarrow> bool \<Rightarrow> ('c trie, unit) op" where
  "trie_del o' L key skipKeyTransform =
     (let k = (if skipKeyTransform then key else appliedKey o' key)
      in bnd (findPath o' L k False) (\<lambda>(node, _, stack).
         bnd (lift_sum (if useNodePruning o' \<and> node \<noteq> None then createPruneDeleteOps o' stack else Inr [])) (\<lambda>ops.
         sq (if node \<noteq> None then deleteNode o' L k stack else ret ())
         (sq (whenb (useNodePruning o') (on_db (cdb_batch L ops))) (persistRoot o' L)))))"

definition trie_put :: "trie_opts \<Rightarrow> 'c lru \<Rightarrow> bytes \<Rightarrow> bytes \<Rightarrow> bool \<Rightarrow> ('c trie, unit) op" where
  "trie_put o' L key value skipKeyTransform t =
     (if useRootPersistence o' \<and> equalsBytes key ROOT_DB_KEY then throw (HostError ''Attempted to set __root__ key but it is not allowed.'') t
      else if value = [] then trie_del o' L key False t
      else let k = (if skipKeyTransform then key else appliedKey o' key)
      in if equalsBytes (t_root t) (EMPTY_TRIE_ROOT o')
         then sq (createInitialNode o' L k value) (persistRoot o' L) t
         else bnd (findPath o' L k True) (\<lambda>(_, remaining, stack).
           bnd (if useNodePruning o'
                then bnd (trie_get o' L key False) (\<lambda>val.
                  if val = IBytes value then ret [] else lift_sum (createPruneDeleteOps o' stack))
                else ret []) (\<lambda>ops.
           sq (updateNode o' L k value remaining stack)
           (sq (whenb (useNodePruning o') (on_db (cdb_batch L ops))) (persistRoot o' L)))) t)"

fun trie_batch :: "trie_opts \<Rightarrow> 'c lru \<Rightarrow> batch_op list \<Rightarrow> bool \<Rightarrow> ('c trie, unit) op" where
  "trie_batch o' L [] skip = persistRoot o' L"
| "trie_batch o' L (BPut k v # ops) skip = sq (trie_put o' L k v skip) (trie_batch o' L ops skip)"
| "trie_batch o' L (BDel k # ops) skip = sq (trie_del o' L k skip) (trie_batch o' L ops skip)"

definition trie_checkpoint :: "('c trie, unit) op" where
  "trie_checkpoint t = on_db (cdb_checkpoint (t_root t)) t"

definition trie_commit :: "trie_opts \<Rightarrow> 'c lru \<Rightarrow> ('c trie, unit) op" where
  "trie_commit o' L t =
     (if \<not> hasCheckpoints (t_db t) then throw (HostError ''trying to commit when not checkpointed'') t
      else sq (on_db (cdb_commit L)) (persistRoot o' L) t)"

definition trie_revert :: "trie_opts \<Rightarrow> 'c lru \<Rightarrow> ('c trie, unit) op" where
  "trie_revert o' L t =
     (if \<not> hasCheckpoints (t_db t) then throw (HostError ''trying to revert when not checkpointed'') t
      else bnd (on_db cdb_revert) (\<lambda>r. sq (set_root o' r) (persistRoot o' L)) t)"

definition flushCheckpoints :: "'c trie \<Rightarrow> 'c trie" where
  "flushCheckpoints t = t\<lparr>t_db := setCheckpoints [] (t_db t)\<rparr>"

end
