(* ===== verification/TrieTree.thy ===== *)
theory TrieTree
  imports Nibbles
begin

text \<open>
  The trees that a Merkle Patricia trie stands for, when all its keys have the same length: leaves,
  extensions and branches as inductive data, without a database. The theory gives lookup, insertion
  and deletion on them, shows that they are the operations of a map, and that a map has only one
  well-formed tree. Theory \<open>TrieOk\<close> shows that the operations on the database compute these trees.
\<close>

section \<open>Trees\<close>

datatype tree = TLeaf nibbles bytes | TExt nibbles tree | TBranch "tree option list"

lemma size_child: "i < length ts \<Longrightarrow> ts ! i = Some t \<Longrightarrow> size t < Suc (size_list (size_option size) ts)"
  using size_list_estimation' [of "ts ! i" ts "size t" "size_option size"] nth_mem [of i ts] by (auto simp: less_Suc_eq_le)

lemma size_child_set: "Some t \<in> set ts \<Longrightarrow> size t < Suc (size_list (size_option size) ts)"
  by (metis in_set_conv_nth size_child)

fun is_tbranch :: "tree \<Rightarrow> bool" where
  "is_tbranch (TBranch _) = True"
| "is_tbranch _ = False"

definition child :: "tree option list \<Rightarrow> nat \<Rightarrow> tree option" where
  "child ts i = (if i < length ts then ts ! i else None)"

lemma size_of_child [termination_simp]: "child ts i = Some t \<Longrightarrow> size t < Suc (size_list (size_option size) ts)"
  by (auto simp: child_def split: if_splits intro: size_child)

fun tlookup :: "tree \<Rightarrow> nibbles \<Rightarrow> bytes option" where
  "tlookup (TLeaf k v) key = (if key = k then Some v else None)"
| "tlookup (TExt k t) key = (if take (length k) key = k then tlookup t (drop (length k) key) else None)"
| "tlookup (TBranch ts) [] = None"
| "tlookup (TBranch ts) (i # key) = (case child ts i of None \<Rightarrow> None | Some t \<Rightarrow> tlookup t key)"

definition children :: "tree option list \<Rightarrow> nat set" where
  "children ts = {i. i < length ts \<and> ts ! i \<noteq> None}"

text \<open>All keys have \<open>n\<close> nibbles; an extension leads to a branch, a branch has two children at least.\<close>

function wf_tree :: "nat \<Rightarrow> tree \<Rightarrow> bool" where
  "wf_tree n (TLeaf k v) \<longleftrightarrow> length k = n \<and> nibble_path k \<and> v \<noteq> []"
| "wf_tree n (TExt k t) \<longleftrightarrow> k \<noteq> [] \<and> length k \<le> n \<and> nibble_path k \<and> is_tbranch t \<and> wf_tree (n - length k) t"
| "wf_tree n (TBranch ts) \<longleftrightarrow> 0 < n \<and> length ts = 16 \<and> 2 \<le> card (children ts) \<and> (\<forall>t. Some t \<in> set ts \<longrightarrow> wf_tree (n - 1) t)"
  by pat_completeness auto
termination by (relation "measure (size \<circ> snd)") (auto simp: size_child_set)

section \<open>Operations\<close>

definition tdiverge :: "nibbles \<Rightarrow> (nibbles \<Rightarrow> tree) \<Rightarrow> nibbles \<Rightarrow> bytes \<Rightarrow> tree" where
  "tdiverge k old key v =
     (let m = matchingNibbleLength k key;
          b = TBranch ((replicate 16 None)[k ! m := Some (old (drop (Suc m) k)), key ! m := Some (TLeaf (drop (Suc m) key) v)])
      in if m = 0 then b else TExt (take m k) b)"

definition rest_ext :: "tree \<Rightarrow> nibbles \<Rightarrow> tree" where
  "rest_ext t k = (if k = [] then t else TExt k t)"

fun tinsert :: "tree \<Rightarrow> nibbles \<Rightarrow> bytes \<Rightarrow> tree" where
  "tinsert (TLeaf k w) key v = (if key = k then TLeaf k v else tdiverge k (\<lambda>k'. TLeaf k' w) key v)"
| "tinsert (TExt k t) key v =
     (if take (length k) key = k then TExt k (tinsert t (drop (length k) key) v) else tdiverge k (rest_ext t) key v)"
| "tinsert (TBranch ts) [] v = TBranch ts"
| "tinsert (TBranch ts) (i # key) v =
     TBranch (ts[i := Some (case child ts i of None \<Rightarrow> TLeaf key v | Some t \<Rightarrow> tinsert t key v)])"

fun mk_ext :: "nibbles \<Rightarrow> tree \<Rightarrow> tree" where
  "mk_ext k (TLeaf k' v) = TLeaf (k @ k') v"
| "mk_ext k (TExt k' t) = TExt (k @ k') t"
| "mk_ext k (TBranch ts) = TExt k (TBranch ts)"

definition child_list :: "tree option list \<Rightarrow> nat list" where
  "child_list ts = filter (\<lambda>i. ts ! i \<noteq> None) [0..<length ts]"

definition tshrink :: "tree option list \<Rightarrow> tree" where
  "tshrink ts = (case child_list ts of [i] \<Rightarrow> mk_ext [i] (the (ts ! i)) | _ \<Rightarrow> TBranch ts)"

fun tdelete :: "tree \<Rightarrow> nibbles \<Rightarrow> tree option" where
  "tdelete (TLeaf k v) key = (if key = k then None else Some (TLeaf k v))"
| "tdelete (TExt k t) key = (if take (length k) key = k then map_option (mk_ext k) (tdelete t (drop (length k) key)) else Some (TExt k t))"
| "tdelete (TBranch ts) [] = Some (TBranch ts)"
| "tdelete (TBranch ts) (i # key) = (case child ts i of
     None \<Rightarrow> Some (TBranch ts)
   | Some t \<Rightarrow> (case tdelete t key of Some t' \<Rightarrow> Some (TBranch (ts[i := Some t'])) | None \<Rightarrow> Some (tshrink (ts[i := None]))))"

section \<open>Children\<close>

lemma children_finite [simp]: "finite (children ts)"
  by (simp add: children_def)

lemma children_iff: "i \<in> children ts \<longleftrightarrow> child ts i \<noteq> None"
  by (simp add: children_def child_def)

lemma child_update: "child (ts[i := x]) j = (if i = j \<and> i < length ts then x else child ts j)"
  by (auto simp: child_def nth_list_update)

lemma child_replicate [simp]: "child (replicate n None) i = None"
  by (simp add: child_def)

lemma child_set: "child ts i = Some t \<Longrightarrow> Some t \<in> set ts"
  by (auto simp: child_def split: if_splits dest: nth_mem)

lemma set_child: "Some t \<in> set ts \<Longrightarrow> \<exists>i. child ts i = Some t"
  by (auto simp: in_set_conv_nth child_def)

lemma children_update:
  "i < length ts \<Longrightarrow> children (ts[i := Some t]) = insert i (children ts)"
  "i < length ts \<Longrightarrow> children (ts[i := None]) = children ts - {i}"
  by (auto simp: children_iff child_update split: if_splits)

lemma update_set: "x \<in> set (ts[i := y]) \<Longrightarrow> x = y \<or> x \<in> set ts"
  by (meson insertE set_update_subset_insert subset_eq)

lemma wf_child: "wf_tree n (TBranch ts) \<Longrightarrow> child ts i = Some t \<Longrightarrow> wf_tree (n - 1) t"
  using child_set by auto

lemma other_child:
  assumes "2 \<le> card (children ts)"
  obtains j t where "j \<noteq> i" "child ts j = Some t"
proof -
  have "\<not> children ts \<subseteq> {i}" using assms card_mono [of "{i}" "children ts"] by auto
  then obtain j where "j \<in> children ts" "j \<noteq> i" by blast
  with that show thesis by (auto simp: children_iff)
qed

section \<open>Lookup\<close>

lemma tlookup_length: "wf_tree n t \<Longrightarrow> tlookup t key = Some v \<Longrightarrow> length key = n \<and> nibble_path key \<and> v \<noteq> []"
proof (induction t key arbitrary: n rule: tlookup.induct)
  case (2 k t key)
  then have p: "take (length k) key = k" by (auto split: if_splits)
  with 2 have "length (drop (length k) key) = n - length k \<and> nibble_path (drop (length k) key) \<and> v \<noteq> []" by auto
  moreover have "key = k @ drop (length k) key" using p by (metis append_take_drop_id)
  ultimately show ?case using 2(2) p by (metis hex_digits_simps(3) length_append le_add_diff_inverse wf_tree.simps(2))
next
  case (4 ts i key)
  then obtain t where t: "child ts i = Some t" "tlookup t key = Some v" by (auto split: option.splits)
  with 4 have "length key = n - 1 \<and> nibble_path key \<and> v \<noteq> []" using wf_child by blast
  moreover have "i < 16" using 4(2) t(1) by (auto simp: child_def split: if_splits)
  ultimately show ?case using 4(2) by auto
qed (auto split: if_splits)

lemma wf_nonempty: "wf_tree n t \<Longrightarrow> \<exists>key v. tlookup t key = Some v"
proof (induction n t rule: wf_tree.induct)
  case (1 n k v)
  show ?case by (intro exI [of _ k]) simp
next
  case (2 n k t)
  then obtain key v where "tlookup t key = Some v" by auto
  then have "tlookup (TExt k t) (k @ key) = Some v" by simp
  then show ?case by blast
next
  case (3 n ts)
  then have "2 \<le> card (children ts)" by simp
  then obtain j t where t: "child ts j = Some t" by (rule other_child)
  then obtain key v where "tlookup t key = Some v" using 3 child_set wf_child by blast
  with t have "tlookup (TBranch ts) (j # key) = Some v" by simp
  then show ?case by blast
qed

lemma wf_two_keys:
  assumes "wf_tree n (TBranch ts)"
  obtains i key v j key' v' where "i \<noteq> j" "tlookup (TBranch ts) (i # key) = Some v" "tlookup (TBranch ts) (j # key') = Some v'"
proof -
  have two: "2 \<le> card (children ts)" using assms by simp
  then obtain i t where i: "child ts i = Some t" by (rule other_child)
  from two obtain j t' where j: "j \<noteq> i" "child ts j = Some t'" by (rule other_child)
  obtain key v where "tlookup t key = Some v" using wf_nonempty wf_child [OF assms i] by blast
  moreover obtain key' v' where "tlookup t' key' = Some v'" using wf_nonempty wf_child [OF assms j(2)] by blast
  ultimately show thesis using that [of i j key v key' v'] i j by simp
qed

section \<open>Insertion\<close>

lemma prefix_split: "take (length k) q = k \<longleftrightarrow> (\<exists>r. q = k @ r)"
  by (metis append_eq_conv_conj append_take_drop_id)

lemma tlookup_ext: "tlookup (TExt k t) (k @ r) = tlookup t r" "(\<And>r. q \<noteq> k @ r) \<Longrightarrow> tlookup (TExt k t) q = None"
  by (auto simp: prefix_split)

lemma tlookup_rest_ext: "tlookup (rest_ext t k) q = tlookup (TExt k t) q"
  by (simp add: rest_ext_def)

text \<open>Where two paths part.\<close>

definition parts_at :: "nat \<Rightarrow> nibbles \<Rightarrow> nibbles \<Rightarrow> bool" where
  "parts_at m k key \<longleftrightarrow> m = matchingNibbleLength k key \<and> m < length k \<and> m < length key \<and> take m k = take m key \<and> k ! m \<noteq> key ! m"

lemma parts_exist:
  assumes "length k \<le> length key" "take (length k) key \<noteq> k"
  shows "parts_at (matchingNibbleLength k key) k key"
proof -
  let ?m = "matchingNibbleLength k key"
  have "?m \<noteq> length k" using assms(2) by (simp add: matching_full)
  then have m: "?m < length k" "?m < length key" using matching_prefix(1) [of k key] assms(1) by auto
  have "k ! ?m \<noteq> key ! ?m"
    using matching_differ [of k key "k ! ?m" "drop (Suc ?m) k" "key ! ?m" "drop (Suc ?m) key"] m by (simp add: Cons_nth_drop_Suc)
  with m matching_prefix(3) [of k key] show ?thesis by (simp add: parts_at_def)
qed

lemma tdiverge_eq:
  "parts_at m k key \<Longrightarrow> tdiverge k old key v =
    rest_ext (TBranch ((replicate 16 None)[k ! m := Some (old (drop (Suc m) k)), key ! m := Some (TLeaf (drop (Suc m) key) v)])) (take m k)"
  by (auto simp: tdiverge_def parts_at_def rest_ext_def Let_def)

lemma hex_digits_nth: "hex_digits ns \<Longrightarrow> i < length ns \<Longrightarrow> ns ! i < 16"
  by (simp add: hex_digits_def)

lemma hex_digits_take [simp]: "hex_digits ns \<Longrightarrow> hex_digits (take i ns)" "hex_digits ns \<Longrightarrow> hex_digits (drop i ns)"
  by (auto simp: hex_digits_def dest: in_set_takeD in_set_dropD)

lemma split_nth: "m < length k \<Longrightarrow> k = take m k @ k ! m # drop (Suc m) k"
  by (rule id_take_nth_drop)

lemma tlookup_diverge:
  assumes "parts_at m k key" "nibble_path k" "nibble_path key"
  shows "tlookup (tdiverge k old key v) q =
    (if q = key then Some v else tlookup (TExt (take (Suc m) k) (old (drop (Suc m) k))) q)"
proof -
  have m: "m < length k" "m < length key" "take m k = take m key" "k ! m \<noteq> key ! m" using assms(1) unfolding parts_at_def by blast+
  have b: "k ! m < 16" "key ! m < 16" using assms m by (simp_all add: hex_digits_nth)
  have kt: "take (Suc m) k = take m k @ [k ! m]" using m(1) by (simp add: take_Suc_conv_app_nth)
  have key: "key = take m k @ key ! m # drop (Suc m) key" using split_nth [OF m(2)] m(3) by simp
  have l: "tlookup (tdiverge k old key v) q = (if take (length (take m k)) q = take m k then
      tlookup (TBranch ((replicate 16 None)[k ! m := Some (old (drop (Suc m) k)), key ! m := Some (TLeaf (drop (Suc m) key) v)])) (drop (length (take m k)) q) else None)"
    by (simp add: tdiverge_eq [OF assms(1)] tlookup_rest_ext)
  show ?thesis
  proof (cases "\<exists>i r. q = take m k @ i # r")
    case True
    then obtain i r where q: "q = take m k @ i # r" by blast
    have e: "q = key \<longleftrightarrow> i = key ! m \<and> r = drop (Suc m) key" using key q by (metis append_eq_append_conv list.inject)
    have lk: "tlookup (tdiverge k old key v) q = (case child ((replicate 16 None)[k ! m := Some (old (drop (Suc m) k)), key ! m := Some (TLeaf (drop (Suc m) key) v)]) i of
        None \<Rightarrow> None | Some t \<Rightarrow> tlookup t r)" unfolding l using m(1) by (simp add: q min_def)
    have old: "tlookup (TExt (take (Suc m) k) (old (drop (Suc m) k))) q = (if i = k ! m then tlookup (old (drop (Suc m) k)) r else None)"
    proof (cases "i = k ! m")
      case True
      then have "q = take (Suc m) k @ r" by (simp add: q kt)
      then show ?thesis using True by (simp only: tlookup_ext(1) if_True refl)
    next
      case False
      then have "q \<noteq> take (Suc m) k @ r'" for r' by (simp add: q kt)
      then show ?thesis using False tlookup_ext(2) by metis
    qed
    show ?thesis unfolding lk old e using m(4) b by (auto simp: child_update)
  next
    case False
    have "tlookup (tdiverge k old key v) q = None"
    proof (cases "take (length (take m k)) q = take m k")
      case True
      then obtain r where "q = take m k @ r" using prefix_split [of "take m k" q] by blast
      with False have "drop (length (take m k)) q = []" by (cases r) auto
      then show ?thesis unfolding l by simp
    qed (simp add: l)
    moreover have "q \<noteq> key" using False key by blast
    moreover have "q \<noteq> take (Suc m) k @ r" for r using False kt by auto
    then have "tlookup (TExt (take (Suc m) k) (old (drop (Suc m) k))) q = None" by (rule tlookup_ext(2))
    ultimately show ?thesis by simp
  qed
qed

lemma wf_rest_ext:
  "wf_tree (n - length k) t \<Longrightarrow> is_tbranch t \<Longrightarrow> length k \<le> n \<Longrightarrow> nibble_path k \<Longrightarrow> wf_tree n (rest_ext t k)"
  by (cases "k = []") (simp_all add: rest_ext_def)

lemma wf_diverge:
  assumes p: "parts_at m k key" and k: "nibble_path k" "nibble_path key" "length key = n" "length k \<le> n" "v \<noteq> []"
    and old: "wf_tree (n - Suc m) (old (drop (Suc m) k))"
  shows "wf_tree n (tdiverge k old key v)"
proof -
  have m: "m < length k" "m < length key" "k ! m \<noteq> key ! m" using p unfolding parts_at_def by blast+
  have b: "k ! m < 16" "key ! m < 16" using k m by (simp_all add: hex_digits_nth)
  let ?ts = "(replicate 16 None)[k ! m := Some (old (drop (Suc m) k)), key ! m := Some (TLeaf (drop (Suc m) key) v)]"
  have "children ?ts = {key ! m, k ! m}" using b by (auto simp: children_iff child_update split: if_splits)
  then have "card (children ?ts) = 2" using m(3) by simp
  moreover have "wf_tree (n - m - 1) t" if "Some t \<in> set ?ts" for t
    using that old k m by (auto dest!: update_set)
  ultimately have "wf_tree (n - m) (TBranch ?ts)" using m k by simp
  then show ?thesis unfolding tdiverge_eq [OF p] using m k by (intro wf_rest_ext) (simp_all add: min_def)
qed

lemma is_tbranch_tinsert: "is_tbranch t \<Longrightarrow> is_tbranch (tinsert t key v)"
  by (cases t; cases key) simp_all

lemma prefix_trans: "tlookup (TExt (take m k) (TExt (drop m k) t)) q = tlookup (TExt k t) q"
proof -
  have "k @ r = take m k @ drop m k @ r" for r by simp
  then show ?thesis
  proof (cases "\<exists>r. q = k @ r")
    case True
    then obtain r where "q = k @ r" by blast
    have "tlookup (TExt (take m k) (TExt (drop m k) t)) (take m k @ drop m k @ r) = tlookup t r" by (simp only: tlookup_ext(1))
    moreover have "tlookup (TExt k t) (k @ r) = tlookup t r" by (rule tlookup_ext(1))
    moreover have "take m k @ drop m k @ r = k @ r" by (metis append_assoc append_take_drop_id)
    ultimately show ?thesis unfolding \<open>q = k @ r\<close> by (simp only:)
  next
    case False
    then have "tlookup (TExt k t) q = None" by (intro tlookup_ext(2)) blast
    moreover have "tlookup (TExt (take m k) (TExt (drop m k) t)) q = None"
    proof (cases "\<exists>r. q = take m k @ r")
      case True
      then obtain r where r: "q = take m k @ r" by blast
      have "r \<noteq> drop m k @ r'" for r' using False r by (metis append_assoc append_take_drop_id)
      then show ?thesis unfolding r tlookup_ext(1) by (rule tlookup_ext(2))
    qed (intro tlookup_ext(2), blast)
    ultimately show ?thesis by simp
  qed
qed

lemma tlookup_leaf_ext: "tlookup (TExt (take m k) (TLeaf (drop m k) w)) q = tlookup (TLeaf k w) q"
proof (cases "\<exists>r. q = take m k @ r")
  case True
  then obtain r where q: "q = take m k @ r" by blast
  have "q = k \<longleftrightarrow> r = drop m k" unfolding q by (metis append_take_drop_id same_append_eq)
  then show ?thesis unfolding q tlookup_ext(1) by (simp flip: q)
next
  case False
  then have "tlookup (TExt (take m k) (TLeaf (drop m k) w)) q = None" by (intro tlookup_ext(2)) blast
  moreover have "q \<noteq> k" using False by (metis append_take_drop_id)
  ultimately show ?thesis by simp
qed

theorem tinsert_ok:
  assumes "wf_tree n t" "length key = n" "nibble_path key" "v \<noteq> []"
  shows "wf_tree n (tinsert t key v) \<and> (\<forall>q. tlookup (tinsert t key v) q = (if q = key then Some v else tlookup t q))"
  using assms
proof (induction t key v arbitrary: n rule: tinsert.induct)
  case (1 k w key v)
  show ?case
  proof (cases "key = k")
    case False
    then have "take (length k) key \<noteq> k" "length k \<le> length key" using 1 by auto
    then have p: "parts_at (matchingNibbleLength k key) k key" by (intro parts_exist)
    then have "wf_tree n (tdiverge k (\<lambda>k'. TLeaf k' w) key v)" using 1 by (intro wf_diverge) (auto simp: parts_at_def)
    moreover have "tlookup (tdiverge k (\<lambda>k'. TLeaf k' w) key v) q = (if q = key then Some v else tlookup (TLeaf k w) q)" for q
      using tlookup_diverge [OF p] 1 by (simp add: tlookup_leaf_ext del: tlookup.simps)
    ultimately show ?thesis using False by simp
  qed (use 1 in auto)
next
  case (2 k t key v)
  show ?case
  proof (cases "take (length k) key = k")
    case True
    then obtain r where r: "key = k @ r" by (auto simp: prefix_split)
    with 2 have ih: "wf_tree (n - length k) (tinsert t r v)" "\<And>q. tlookup (tinsert t r v) q = (if q = r then Some v else tlookup t q)" by auto
    have "tlookup (TExt k (tinsert t r v)) q = (if q = key then Some v else tlookup (TExt k t) q)" for q
      by (auto simp: ih(2) r prefix_split)
    with ih(1) True r 2 show ?thesis by (simp add: is_tbranch_tinsert del: tlookup.simps)
  next
    case False
    let ?m = "matchingNibbleLength k key"
    have p: "parts_at ?m k key" using 2 False by (intro parts_exist) auto
    then have "wf_tree (n - Suc ?m) (rest_ext t (drop (Suc ?m) k))"
      using 2 by (intro wf_rest_ext) (auto simp: parts_at_def)
    then have "wf_tree n (tdiverge k (rest_ext t) key v)" using 2 p by (intro wf_diverge) auto
    moreover have "tlookup (TExt (take (Suc ?m) k) (rest_ext t (drop (Suc ?m) k))) q = tlookup (TExt k t) q" for q
      using prefix_trans [of "Suc ?m" k t q] by (simp only: tlookup.simps(2) [of "take (Suc ?m) k"] tlookup_rest_ext)
    then have "tlookup (tdiverge k (rest_ext t) key v) q = (if q = key then Some v else tlookup (TExt k t) q)" for q
      using tlookup_diverge [OF p] 2 by (simp del: tlookup.simps)
    ultimately show ?thesis using False by (simp del: tlookup.simps)
  qed
next
  case (4 ts i key v)
  have i: "i < length ts" "i < 16" using 4 by auto
  let ?t = "case child ts i of None \<Rightarrow> TLeaf key v | Some t \<Rightarrow> tinsert t key v"
  have t: "wf_tree (n - 1) ?t \<and> (\<forall>q. tlookup ?t q = (if q = key then Some v else case child ts i of None \<Rightarrow> None | Some t \<Rightarrow> tlookup t q))"
  proof (cases "child ts i")
    case (Some t)
    then have "wf_tree (n - 1) t" using 4 wf_child by blast
    with 4 Some show ?thesis by simp
  qed (use 4 in auto)
  have "wf_tree n (TBranch (ts[i := Some ?t]))"
  proof -
    have "card (children ts) \<le> card (insert i (children ts))" by (intro card_mono) auto
    then have "2 \<le> card (children (ts[i := Some ?t]))" using 4(2) i by (simp add: children_update)
    moreover have "wf_tree (n - 1) u" if "Some u \<in> set (ts[i := Some ?t])" for u
      using update_set [OF that] t 4(2) by auto
    ultimately show ?thesis using 4 by simp
  qed
  moreover have "tlookup (TBranch (ts[i := Some ?t])) q = (if q = i # key then Some v else tlookup (TBranch ts) q)" for q
    using t i by (cases q) (auto simp: child_update)
  ultimately show ?case by (simp del: tlookup.simps)
qed simp

section \<open>Deletion\<close>

lemma mk_ext_lookup: "tlookup (mk_ext k t) q = tlookup (TExt k t) q"
proof (cases t)
  case (TLeaf k' v)
  with tlookup_leaf_ext [of "length k" "k @ k'" v q] show ?thesis by (simp del: tlookup.simps)
next
  case (TExt k' u)
  with prefix_trans [of "length k" "k @ k'" u q] show ?thesis by (simp del: tlookup.simps)
qed simp

lemma wf_mk_ext:
  assumes "wf_tree (n - length k) t" "k \<noteq> []" "length k \<le> n" "nibble_path k"
  shows "wf_tree n (mk_ext k t)"
  using assms by (cases t) auto

lemma child_list_facts: "set (child_list ts) = children ts" "length (child_list ts) = card (children ts)"
proof -
  show s: "set (child_list ts) = children ts" by (auto simp: child_list_def children_def)
  have "distinct (child_list ts)" by (simp add: child_list_def)
  then show "length (child_list ts) = card (children ts)" using s by (metis distinct_card)
qed

lemma tshrink_cases:
  obtains (one) i t where "tshrink ts = mk_ext [i] t" "children ts = {i}" "child ts i = Some t"
  | (many) "tshrink ts = TBranch ts" "card (children ts) \<noteq> 1"
proof (cases "card (children ts) = 1")
  case True
  then obtain i where i: "child_list ts = [i]" using child_list_facts(2) [of ts] by (auto simp: length_Suc_conv)
  then have c: "children ts = {i}" using child_list_facts(1) [of ts] by auto
  then have "i \<in> children ts" by simp
  then obtain t where t: "child ts i = Some t" by (auto simp: children_iff)
  then have "the (ts ! i) = t" by (auto simp: child_def split: if_splits)
  with i have "tshrink ts = mk_ext [i] t" by (simp add: tshrink_def)
  with c t one show thesis by blast
next
  case False
  then have "length (child_list ts) \<noteq> 1" by (simp add: child_list_facts)
  then have "tshrink ts = TBranch ts" by (auto simp: tshrink_def split: list.splits)
  with False many show thesis by blast
qed

lemma tshrink_lookup: "tlookup (tshrink ts) q = tlookup (TBranch ts) q"
proof (cases rule: tshrink_cases [of ts])
  case (one i t)
  have "child ts j = None" if "j \<noteq> i" for j using one(2) that by (metis children_iff singletonD)
  then show ?thesis unfolding one(1) mk_ext_lookup by (cases q) (auto simp: one(3) numeral_2_eq_2)
qed simp

lemma wf_tshrink:
  assumes "0 < n" "length ts = 16" "1 \<le> card (children ts)" "\<And>t. Some t \<in> set ts \<Longrightarrow> wf_tree (n - 1) t"
  shows "wf_tree n (tshrink ts)"
proof (cases rule: tshrink_cases [of ts])
  case (one i t)
  have "i < 16" using one(3) assms(2) by (auto simp: child_def split: if_splits)
  with one assms show ?thesis by (auto intro!: wf_mk_ext dest: child_set)
next
  case many
  then have "2 \<le> card (children ts)" using assms(3) by linarith
  with many(1) assms show ?thesis by auto
qed

theorem tdelete_ok:
  assumes "wf_tree n t" "length key = n"
  shows "case tdelete t key of
     None \<Rightarrow> \<not> is_tbranch t \<and> (\<forall>q. q \<noteq> key \<longrightarrow> tlookup t q = None)
   | Some t' \<Rightarrow> wf_tree n t' \<and> (\<forall>q. tlookup t' q = (if q = key then None else tlookup t q))"
  using assms
proof (induction t key arbitrary: n rule: tdelete.induct)
  case (2 k t key)
  show ?case
  proof (cases "take (length k) key = k")
    case True
    then obtain r where r: "key = k @ r" by (auto simp: prefix_split)
    obtain t' where t': "tdelete t r = Some t'" "wf_tree (n - length k) t'" "\<And>q. tlookup t' q = (if q = r then None else tlookup t q)"
      using 2(1) [OF True, of "n - length k"] 2(2,3) r by (cases "tdelete t r") auto
    have "wf_tree n (mk_ext k t')" using 2 t'(2) by (intro wf_mk_ext) auto
    moreover have "tlookup (mk_ext k t') q = (if q = key then None else tlookup (TExt k t) q)" for q
      unfolding mk_ext_lookup by (auto simp: t'(3) r prefix_split)
    ultimately show ?thesis using t'(1) r by simp
  next
    case False
    then have "tlookup (TExt k t) key = None" by simp
    with 2 False show ?thesis by (auto simp del: tlookup.simps)
  qed
next
  case (4 ts i key)
  show ?case
  proof (cases "child ts i")
    case None
    then have "tlookup (TBranch ts) (i # key) = None" by simp
    with 4 None show ?thesis by (auto simp del: tlookup.simps)
  next
    case (Some t)
    have i: "i < length ts" using Some by (auto simp: child_def split: if_splits)
    have w: "wf_tree (n - 1) t" using 4 Some wf_child by blast
    show ?thesis
    proof (cases "tdelete t key")
      case None
      have ih: "\<And>q. q \<noteq> key \<Longrightarrow> tlookup t q = None" using 4 Some w None by fastforce
      have "card (children ts) - 1 = card (children (ts[i := None]))" using i Some by (simp add: children_update children_iff)
      moreover have "2 \<le> card (children ts)" using 4 by simp
      ultimately have "1 \<le> card (children (ts[i := None]))" by linarith
      then have "wf_tree n (tshrink (ts[i := None]))" using 4 by (intro wf_tshrink) (auto dest!: update_set)
      moreover have "tlookup (TBranch (ts[i := None])) q = (if q = i # key then None else tlookup (TBranch ts) q)" for q
        using i ih Some by (cases q) (auto simp: child_update)
      ultimately show ?thesis using Some None by (simp add: tshrink_lookup del: tlookup.simps)
    next
      case d: (Some t')
      with 4 Some w have ih: "wf_tree (n - 1) t'" "\<And>q. tlookup t' q = (if q = key then None else tlookup t q)" by fastforce+
      have "children (ts[i := Some t']) = children ts" using i Some by (auto simp: children_update children_iff)
      then have "wf_tree n (TBranch (ts[i := Some t']))" using 4 ih(1) by (auto dest!: update_set)
      moreover have "tlookup (TBranch (ts[i := Some t'])) q = (if q = i # key then None else tlookup (TBranch ts) q)" for q
        using i ih Some by (cases q) (auto simp: child_update)
      ultimately show ?thesis using Some d by (simp del: tlookup.simps)
    qed
  qed
qed auto

section \<open>A map has one tree\<close>

lemma ext_lookup_prefix: "tlookup (TExt k t) q = Some v \<Longrightarrow> \<exists>r. q = k @ r"
  by (auto simp: prefix_split split: if_splits)

lemma same_first:
  assumes "wf_tree n (TBranch ts)" "k \<noteq> []"
  shows "\<exists>q. tlookup (TBranch ts) q \<noteq> None \<and> (\<forall>r. q \<noteq> k @ r)"
proof -
  obtain a k' where k: "k = a # k'" using assms(2) by (cases k) auto
  obtain i x v j y w where "i \<noteq> j" "tlookup (TBranch ts) (i # x) = Some v" "tlookup (TBranch ts) (j # y) = Some w"
    by (rule wf_two_keys [OF assms(1)])
  then show ?thesis using k by (cases "i = a") (metis append_Cons list.inject option.distinct(1))+
qed

text \<open>The keys of an extension have no longer prefix in common.\<close>

lemma ext_prefix_le:
  assumes w: "wf_tree n (TExt k t)" and l: "\<And>q v. tlookup (TExt k t) q = Some v \<Longrightarrow> \<exists>r. q = k' @ r"
  shows "length k' \<le> length k"
proof (rule ccontr)
  assume long: "\<not> length k' \<le> length k"
  obtain ts where t: "t = TBranch ts" using w by (cases t) auto
  have wt: "wf_tree (n - length k) (TBranch ts)" using w t by simp
  have "drop (length k) k' \<noteq> []" using long by simp
  from same_first [OF wt this] obtain q v where q: "tlookup (TBranch ts) q = Some v" "\<And>r. q \<noteq> drop (length k) k' @ r" by auto
  then have "tlookup (TExt k t) (k @ q) = Some v" by (simp add: t)
  from l [OF this] obtain r where r: "k @ q = k' @ r" by blast
  then have "q = drop (length k) k' @ r" using long by (simp add: append_eq_append_conv_if split: if_splits)
  with q(2) show False by blast
qed

theorem wf_tree_unique:
  assumes "wf_tree n s" "wf_tree n t" "\<And>q. tlookup s q = tlookup t q"
  shows "s = t"
  using assms
proof (induction s arbitrary: t n)
  case (TLeaf k v)
  have one: "q = k" if "tlookup t q = Some w" for q w using that TLeaf(3) [of q] by (auto split: if_splits)
  show ?case
  proof (cases t)
    case (TLeaf k' w)
    with TLeaf.prems(3) [of k] show ?thesis by (auto split: if_splits)
  next
    case (TExt k' u)
    have "length (k @ [0]) \<le> length k'"
    proof -
      obtain ts where u: "u = TBranch ts" using TExt TLeaf.prems(2) by (cases u) auto
      obtain i x a j y b where "i \<noteq> j" "tlookup u (i # x) = Some a" "tlookup u (j # y) = Some b"
        using wf_two_keys [of _ ts] TLeaf.prems(2) TExt u by (metis wf_tree.simps(2))
      then have "tlookup t (k' @ i # x) = Some a" "tlookup t (k' @ j # y) = Some b" by (simp_all add: TExt)
      with \<open>i \<noteq> j\<close> show ?thesis using one by (metis append_eq_append_conv list.inject)
    qed
    moreover have "length k' \<le> n" "length k = n" using TLeaf.prems TExt by auto
    ultimately show ?thesis by simp
  next
    case (TBranch ts)
    obtain i x a j y b where "i \<noteq> j" "tlookup t (i # x) = Some a" "tlookup t (j # y) = Some b"
      using wf_two_keys [of n ts] TLeaf.prems(2) TBranch by metis
    with one show ?thesis by (metis list.inject)
  qed
next
  case (TExt k u)
  show ?case
  proof (cases t)
    case (TLeaf k' w)
    obtain ts where u: "u = TBranch ts" using TExt.prems(1) by (cases u) auto
    obtain i x a j y b where "i \<noteq> j" "tlookup u (i # x) = Some a" "tlookup u (j # y) = Some b"
      using wf_two_keys [of _ ts] TExt.prems(1) u by (metis wf_tree.simps(2))
    then have "tlookup t (k @ i # x) = Some a" "tlookup t (k @ j # y) = Some b" by (simp_all flip: TExt.prems(3))
    with \<open>i \<noteq> j\<close> TLeaf show ?thesis by (auto split: if_splits)
  next
    case t: (TExt k' u')
    have "length k' \<le> length k" by (rule ext_prefix_le [OF TExt.prems(1)]) (use TExt.prems(3) t ext_lookup_prefix in metis)
    moreover have "length k \<le> length k'"
      by (rule ext_prefix_le [of n k' u']) (use TExt.prems t ext_lookup_prefix in metis)+
    ultimately have len: "length k = length k'" by simp
    obtain q v where q: "tlookup (TExt k u) q = Some v" using wf_nonempty TExt.prems(1) by blast
    then obtain r r' where "q = k @ r" "q = k' @ r'" using ext_lookup_prefix TExt.prems(3) t by metis
    with len have k: "k = k'" by simp
    have "u = u'"
    proof (rule TExt.IH)
      show "wf_tree (n - length k) u" "wf_tree (n - length k) u'" using TExt.prems(1,2) t k by simp_all
      show "tlookup u q = tlookup u' q" for q using TExt.prems(3) [of "k @ q"] by (simp add: t k)
    qed
    with k t show ?thesis by simp
  next
    case (TBranch ts)
    have "k \<noteq> []" using TExt.prems(1) by simp
    from same_first [OF _ this, of n ts] TExt.prems(2) TBranch obtain q v where "tlookup t q = Some v" "\<And>r. q \<noteq> k @ r" by auto
    with TExt.prems(3) ext_lookup_prefix show ?thesis by metis
  qed
next
  case (TBranch ss)
  show ?case
  proof (cases t)
    case (TLeaf k' w)
    obtain i x a j y b where "i \<noteq> j" "tlookup (TBranch ss) (i # x) = Some a" "tlookup (TBranch ss) (j # y) = Some b"
      by (rule wf_two_keys [OF TBranch.prems(1)])
    with TBranch.prems(3) TLeaf show ?thesis by (metis list.inject option.distinct(1) tlookup.simps(1))
  next
    case (TExt k u)
    have "k \<noteq> []" using TBranch.prems(2) TExt by simp
    from same_first [OF TBranch.prems(1) this] obtain q v where "tlookup (TBranch ss) q = Some v" "\<And>r. q \<noteq> k @ r" by auto
    with TBranch.prems(3) TExt ext_lookup_prefix show ?thesis by metis
  next
    case t: (TBranch ts)
    have "ss = ts"
    proof (rule nth_equalityI)
      show l: "length ss = length ts" using TBranch.prems t by simp
      fix i assume i: "i < length ss"
      have e: "(case child ss i of None \<Rightarrow> None | Some x \<Rightarrow> tlookup x q) = (case child ts i of None \<Rightarrow> None | Some x \<Rightarrow> tlookup x q)" for q
        using TBranch.prems(3) [of "i # q"] by (simp add: t)
      have wf: "wf_tree (n - 1) x" if "child ss i = Some x \<or> child ts i = Some x" for x
        using that TBranch.prems(1,2) t wf_child by metis
      have "child ss i = child ts i"
      proof (cases "child ss i"; cases "child ts i")
        fix a b assume ab: "child ss i = Some a" "child ts i = Some b"
        then have "a = b" using TBranch.IH [of "Some a" a "n - 1" b] child_set wf e by auto
        with ab show ?thesis by simp
      qed (use e wf wf_nonempty in \<open>fastforce+\<close>)
      with i l show "ss ! i = ts ! i" by (simp add: child_def)
    qed
    with t show ?thesis by simp
  qed
qed

end
