(* ===== verification/TrieRepr.thy ===== *)
theory TrieRepr
  imports Trie TrieTree
begin

text \<open>
  How a tree is kept in the database: the serialised form of each node, the reference by which a
  parent knows it, and what has to be stored. Reading a reference gives the node back, so the walk
  of \<^verbatim>\<open>findPath\<close> follows the tree.
\<close>

section \<open>Serialised trees\<close>

definition ref_of :: "(bytes \<Rightarrow> bytes) \<Rightarrow> rlp \<Rightarrow> rlp" where
  "ref_of H r = (if 32 \<le> length (enc r) then RBytes (H (enc r)) else r)"

definition key_bytes :: "nibbles \<Rightarrow> bool \<Rightarrow> bytes" where
  "key_bytes k leaf = nibblesTypeToPackedBytes (addHexPrefix k leaf)"

fun traw :: "(bytes \<Rightarrow> bytes) \<Rightarrow> tree \<Rightarrow> rlp" where
  "traw H (TLeaf k v) = RList [RBytes (key_bytes k True), RBytes v]"
| "traw H (TExt k t) = RList [RBytes (key_bytes k False), ref_of H (traw H t)]"
| "traw H (TBranch ts) = RList (map (\<lambda>x. case x of None \<Rightarrow> RBytes [] | Some t \<Rightarrow> ref_of H (traw H t)) ts @ [RBytes []])"

definition tref :: "(bytes \<Rightarrow> bytes) \<Rightarrow> tree \<Rightarrow> rlp" where
  "tref H t = ref_of H (traw H t)"

definition oref :: "(bytes \<Rightarrow> bytes) \<Rightarrow> tree option \<Rightarrow> rlp" where
  "oref H x = (case x of None \<Rightarrow> RBytes [] | Some t \<Rightarrow> tref H t)"

definition blob :: "(bytes \<Rightarrow> bytes) \<Rightarrow> tree \<Rightarrow> bytes" where
  "blob H t = enc (traw H t)"

lemma traw_refs: "traw H (TExt k t) = RList [RBytes (key_bytes k False), tref H t]" "traw H (TBranch ts) = RList (map (oref H) ts @ [RBytes []])"
  by (simp_all add: tref_def oref_def cong: option.case_cong)

lemma tref_cases: "tref H t = (if 32 \<le> length (blob H t) then RBytes (H (blob H t)) else traw H t)"
  by (simp add: tref_def ref_of_def blob_def)

text \<open>The nodes of a tree below its root, and all of them.\<close>

fun proper :: "tree \<Rightarrow> tree list" where
  "proper (TLeaf k v) = []"
| "proper (TExt k t) = t # proper t"
| "proper (TBranch ts) = concat (map (\<lambda>x. case x of None \<Rightarrow> [] | Some t \<Rightarrow> t # proper t) ts)"

definition nodes :: "tree \<Rightarrow> tree list" where
  "nodes t = t # proper t"

lemma set_proper_branch: "set (proper (TBranch ts)) = (\<Union>t \<in> {t. Some t \<in> set ts}. set (nodes t))"
  by (force simp: nodes_def split: option.splits)

declare traw.simps(2,3) [simp del] traw_refs [simp] proper.simps(3) [simp del] set_proper_branch [simp]

section \<open>Sizes\<close>

text \<open>Every node of the tree is an array of possible length.\<close>

definition small :: "(bytes \<Rightarrow> bytes) \<Rightarrow> tree \<Rightarrow> bool" where
  "small H t \<longleftrightarrow> (\<forall>s \<in> set (nodes t). length (blob H s) < max_array)"

lemma small_ext [simp]: "small H (TExt k t) \<longleftrightarrow> length (blob H (TExt k t)) < max_array \<and> small H t"
  by (auto simp: small_def nodes_def)

lemma small_child: "small H (TBranch ts) \<Longrightarrow> Some t \<in> set ts \<Longrightarrow> small H t"
  by (auto simp: small_def nodes_def)

lemma small_self: "small H t \<Longrightarrow> length (blob H t) < max_array"
  by (simp add: small_def nodes_def)

lemma length_prefix: "len < max_array \<Longrightarrow> length (rlp_prefix len off) \<le> 8"
  using length_digits_array [of len] by (simp add: rlp_prefix_def)

lemma length_enc_bytes: "length b < max_array \<Longrightarrow> length (enc (RBytes b)) \<le> length b + 8"
  using length_prefix [of "length b" 128] by simp

lemma length_enc_list: "length (concat (map enc ds)) < max_array \<Longrightarrow> length (enc (RList ds)) \<le> length (concat (map enc ds)) + 8"
  using length_prefix [of "length (concat (map enc ds))" 192] by simp

lemma length_tref:
  assumes "\<And>x. length (H x) = 32"
  shows "length (enc (tref H t)) \<le> 40"
  using length_enc_bytes [of "H (blob H t)"] assms by (auto simp: tref_cases simp flip: blob_def)

lemma length_oref:
  assumes "\<And>x. length (H x) = 32"
  shows "length (enc (oref H x)) \<le> 40"
  using length_tref [of H, OF assms] by (cases x) (simp_all add: oref_def rlp_prefix_def)

lemma length_key_bytes: "length (key_bytes k b) \<le> length k + 2"
  using div_le_dividend [of "length k" 2] by (auto simp: key_bytes_def packed_pair_up length_pair_up addHexPrefix_def Let_def)

definition bounded :: "tree \<Rightarrow> bool" where
  "bounded t \<longleftrightarrow> (\<forall>q v. tlookup t q = Some v \<longrightarrow> length v < 2 ^ 32)"

lemma small_tree:
  assumes H: "\<And>x. length (H x) = 32" and n: "n < 2 ^ 32"
  shows "wf_tree n t \<Longrightarrow> bounded t \<Longrightarrow> small H t"
  using n
proof (induction n t rule: wf_tree.induct)
  case (1 n k v)
  have "tlookup (TLeaf k v) k = Some v" by simp
  then have v: "length v < 2 ^ 32" using 1(2) unfolding bounded_def by blast
  have "length (enc (RBytes (key_bytes k True))) \<le> n + 10" "length (enc (RBytes v)) \<le> length v + 8"
    using length_key_bytes [of k True] length_enc_bytes [of "key_bytes k True"] length_enc_bytes [of v] 1 v by simp_all
  then have "length (blob H (TLeaf k v)) \<le> n + length v + 26"
    using length_enc_list [of "[RBytes (key_bytes k True), RBytes v]"] 1(3) v unfolding blob_def traw.simps(1) by simp
  then show ?case using 1(3) v by (simp add: small_def nodes_def)
next
  case (2 n k t)
  have "length v < 2 ^ 32" if "tlookup t q = Some v" for q v
  proof -
    have "tlookup (TExt k t) (k @ q) = Some v" using that by simp
    then show ?thesis using 2(3) unfolding bounded_def by blast
  qed
  then have s: "small H t" using 2 by (auto simp: bounded_def)
  have "length (enc (RBytes (key_bytes k False))) \<le> n + 10"
    using length_key_bytes [of k False] length_enc_bytes [of "key_bytes k False"] 2 by simp
  then have "length (blob H (TExt k t)) \<le> n + 58"
    using length_enc_list [of "[RBytes (key_bytes k False), tref H t]"] 2(4) length_tref [of H t, OF H] unfolding blob_def traw_refs by simp
  then show ?case using 2(4) s by simp
next
  case (3 n ts)
  have "small H t" if t: "Some t \<in> set ts" for t
  proof -
    obtain i where "child ts i = Some t" using set_child [OF t] by blast
    then have "tlookup (TBranch ts) (i # q) = tlookup t q" for q by simp
    then have "bounded t" using 3(3) unfolding bounded_def by metis
    with 3 t show ?thesis by auto
  qed
  moreover have "length (blob H (TBranch ts)) < max_array"
  proof -
    have "length (concat (map enc (map (oref H) xs))) \<le> 40 * length xs" for xs
      using length_oref [of H, OF H] by (induction xs) (auto simp: add_mono)
    from this [of ts] have "length (concat (map enc (map (oref H) ts @ [RBytes []]))) \<le> 641"
      using 3(2) by (simp add: rlp_prefix_def)
    then show ?thesis using length_enc_list [of "map (oref H) ts @ [RBytes []]"] unfolding blob_def traw_refs by simp
  qed
  ultimately show ?case by (auto simp: small_def nodes_def)
qed

section \<open>Reading nodes\<close>

text \<open>The node of a tree as it is decoded.\<close>

fun dnode :: "(bytes \<Rightarrow> bytes) \<Rightarrow> tree \<Rightarrow> mpt_node" where
  "dnode H (TLeaf k v) = LeafMPTNode k (IBytes v)"
| "dnode H (TExt k t) = ExtensionMPTNode k (rlp_embed (tref H t))"
| "dnode H (TBranch ts) = BranchMPTNode (map (\<lambda>x. rlp_embed (oref H x)) ts) (IBytes [])"

lemma decode_raw_key:
  assumes "nibble_path k"
  shows "decodeRawMPTNode [IBytes (key_bytes k leaf), v] = Inr ((if leaf then LeafMPTNode else ExtensionMPTNode) k v)"
  using hex_prefix_roundtrip [OF assms, of leaf] by (simp add: decodeRawMPTNode_def key_bytes_def)

lemma decode_raw_tree:
  assumes "wf_tree n t"
  obtains ds where "traw H t = RList ds" "decodeRawMPTNode (map rlp_embed ds) = Inr (dnode H t)"
proof (cases t)
  case (TLeaf k v)
  with assms that show thesis by (simp add: decode_raw_key)
next
  case (TExt k u)
  with assms that show thesis by (simp add: decode_raw_key)
next
  case (TBranch ts)
  then have "length ts = 16" using assms by simp
  then have "decodeRawMPTNode (map rlp_embed (map (oref H) ts @ [RBytes []])) = Inr (dnode H t)"
    by (simp add: decodeRawMPTNode_def TBranch nth_append comp_def)
  with that TBranch show thesis by simp
qed

lemma enc_list_first: "enc (RList ds) \<noteq> [0x80]"
proof
  assume a: "enc (RList ds) = [0x80]"
  let ?b = "concat (map enc ds)"
  show False
  proof (cases "length ?b < 56")
    case True
    then have "unat (hd (enc (RList ds))) = length ?b + 192" by (simp add: rlp_prefix_def unat_small del: of_nat_add)
    with a show False by simp
  next
    case False
    then have "2 \<le> length (enc (RList ds))" by (simp add: rlp_prefix_def)
    with a show False by simp
  qed
qed

lemma blob_not_empty: "wf_tree n t \<Longrightarrow> blob H t \<noteq> RLP_EMPTY_STRING"
  using decode_raw_tree [of n t H] enc_list_first by (metis RLP_EMPTY_STRING_def blob_def)

lemma decode_blob:
  assumes "wf_tree n t" "small H t"
  shows "decodeMPTNode (blob H t) = Inr (dnode H t)"
proof -
  obtain ds where ds: "traw H t = RList ds" "decodeRawMPTNode (map rlp_embed ds) = Inr (dnode H t)"
    by (rule decode_raw_tree [OF assms(1)])
  have "rlp_decode (blob H t) = Inr (traw H t, [])"
    using rlp_decode_enc [of "traw H t" "[]"] small_self [OF assms(2)] by (simp add: blob_def)
  then have "decode (IBytes (blob H t)) = Inr (RList ds)"
    using enc_nonempty [of "traw H t"] by (simp add: decode_def rlp_empty_def rlp_toBytes_def blob_def ds)
  with ds show ?thesis by (simp add: decodeMPTNode_def)
qed

section \<open>What is stored\<close>

text \<open>\<open>D\<close> is the contents of the database.\<close>

definition holds :: "trie_opts \<Rightarrow> (bytes \<rightharpoonup> bytes) \<Rightarrow> bytes \<Rightarrow> bool" where
  "holds c D b \<longleftrightarrow> D (getDbKey c (hash c b)) = Some b"

definition kept :: "trie_opts \<Rightarrow> (bytes \<rightharpoonup> bytes) \<Rightarrow> tree \<Rightarrow> bool" where
  "kept c D t \<longleftrightarrow> (32 \<le> length (blob (hash c) t) \<longrightarrow> holds c D (blob (hash c) t))"

definition stored :: "trie_opts \<Rightarrow> (bytes \<rightharpoonup> bytes) \<Rightarrow> tree \<Rightarrow> bool" where
  "stored c D t \<longleftrightarrow> (\<forall>s \<in> set (proper t). kept c D s)"

lemma stored_simps [simp]:
  "stored c D (TLeaf k v)" "stored c D (TExt k t) \<longleftrightarrow> kept c D t \<and> stored c D t"
  by (simp_all add: stored_def)

lemma stored_child: "stored c D (TBranch ts) \<Longrightarrow> Some t \<in> set ts \<Longrightarrow> kept c D t \<and> stored c D t"
  by (auto simp: stored_def nodes_def)

text \<open>The part of the state that reading does not change.\<close>

definition quiet :: "('c \<Rightarrow> bytes \<rightharpoonup> bytes) \<Rightarrow> 'c trie \<Rightarrow> 'c trie \<Rightarrow> bool" where
  "quiet E s t \<longleftrightarrow> cdb_inv E (t_db t) \<and> cdb_view (t_db t) = cdb_view (t_db s) \<and> cdb_saved (t_db t) = cdb_saved (t_db s) \<and>
     map cp_root (checkpoints (t_db t)) = map cp_root (checkpoints (t_db s)) \<and> t_root t = t_root s"

lemma quiet_refl: "cdb_inv E (t_db s) \<Longrightarrow> quiet E s s"
  by (simp add: quiet_def)

lemma quiet_trans: "quiet E s t \<Longrightarrow> quiet E t u \<Longrightarrow> quiet E s u"
  by (simp add: quiet_def)

lemma quiet_facts: "quiet E s t \<Longrightarrow> cdb_inv E (t_db t)" "quiet E s t \<Longrightarrow> cdb_view (t_db t) = cdb_view (t_db s)"
  "quiet E s t \<Longrightarrow> t_root t = t_root s"
  by (simp_all add: quiet_def)

text \<open>A reference that leads to a tree: the hash of a stored node, or the node itself.\<close>

definition refers :: "trie_opts \<Rightarrow> (bytes \<rightharpoonup> bytes) \<Rightarrow> rlp_input \<Rightarrow> tree \<Rightarrow> bool" where
  "refers c D r t \<longleftrightarrow> (r = IBytes (hash c (blob (hash c) t)) \<and> holds c D (blob (hash c) t)) \<or> r = rlp_embed (traw (hash c) t)"

lemma refers_tref: "kept c D t \<Longrightarrow> refers c D (rlp_embed (tref (hash c) t)) t"
  by (simp add: refers_def kept_def tref_cases)

lemma lookup_refers:
  assumes "lru_ok L E" "cdb_inv E (t_db s)" "wf_tree n t" "small (hash c) t" "refers c (cdb_view (t_db s)) r t"
  shows "\<exists>s'. lookupNode c L r s = (Inr (dnode (hash c) t), s') \<and> quiet E s s'"
proof (cases "r = rlp_embed (traw (hash c) t)")
  case True
  obtain ds where "traw (hash c) t = RList ds" "decodeRawMPTNode (map rlp_embed ds) = Inr (dnode (hash c) t)"
    by (rule decode_raw_tree [OF assms(3)])
  with True assms(2) show ?thesis by (simp add: lookupNode_def quiet_refl)
next
  case False
  let ?b = "blob (hash c) t"
  have r: "r = IBytes (hash c ?b)" "cdb_view (t_db s) (getDbKey c (hash c ?b)) = Some ?b"
    using False assms(5) by (auto simp: refers_def holds_def)
  obtain d where "cdb_get L (getDbKey c (hash c ?b)) (t_db s) = (Inr (Some ?b), d)" "cdb_inv E d" "cdb_view d = cdb_view (t_db s)"
    "cdb_saved d = cdb_saved (t_db s)" "map cp_root (checkpoints d) = map cp_root (checkpoints (t_db s))"
    using cdb_get_law [OF assms(1,2), of "getDbKey c (hash c ?b)"] r(2) by auto
  then show ?thesis using r(1) decode_blob [OF assms(3,4)]
    by (simp add: lookupNode_def bnd_def on_db_def quiet_def)
qed

section \<open>Walking\<close>

datatype tframe = FExt nibbles | FBranch "tree option list" nat

fun plug1 :: "tframe \<Rightarrow> tree \<Rightarrow> tree" where
  "plug1 (FExt k) t = TExt k t"
| "plug1 (FBranch ts i) t = TBranch (ts[i := Some t])"

definition plug :: "tframe list \<Rightarrow> tree \<Rightarrow> tree" where
  "plug fs t = foldr plug1 fs t"

lemma plug_simps [simp]: "plug [] t = t" "plug (f # fs) t = plug1 f (plug fs t)" "plug (fs @ gs) t = plug fs (plug gs t)"
  by (simp_all add: plug_def)

fun fpath1 :: "tframe \<Rightarrow> nibbles" where
  "fpath1 (FExt k) = k"
| "fpath1 (FBranch ts i) = [i]"

definition fpath :: "tframe list \<Rightarrow> nibbles" where
  "fpath fs = concat (map fpath1 fs)"

lemma fpath_simps [simp]: "fpath [] = []" "fpath (f # fs) = fpath1 f @ fpath fs" "fpath (fs @ gs) = fpath fs @ fpath gs"
  by (simp_all add: fpath_def)

text \<open>The trees on the way to a key, the last node reached and the nibbles left there.\<close>

fun tfind :: "tree \<Rightarrow> nibbles \<Rightarrow> tframe list \<times> tree \<times> nibbles" where
  "tfind (TLeaf k v) key = ([], TLeaf k v, key)"
| "tfind (TExt k t) key =
     (if take (length k) key = k then (case tfind t (drop (length k) key) of (fs, b, r) \<Rightarrow> (FExt k # fs, b, r))
      else ([], TExt k t, key))"
| "tfind (TBranch ts) [] = ([], TBranch ts, [])"
| "tfind (TBranch ts) (i # key) = (case child ts i of
     None \<Rightarrow> ([], TBranch ts, i # key)
   | Some t \<Rightarrow> (case tfind t key of (fs, b, r) \<Rightarrow> (FBranch ts i # fs, b, r)))"

fun spine :: "tframe list \<Rightarrow> tree \<Rightarrow> tree list" where
  "spine [] b = []"
| "spine (f # fs) b = plug (f # fs) b # spine fs b"

lemma child_same: "child ts i = Some t \<Longrightarrow> ts[i := Some t] = ts"
  by (metis child_def list_update_id option.distinct(1))

text \<open>Where the walk of a tree with keys of one length can end.\<close>

definition dead_end :: "tree \<Rightarrow> nibbles \<Rightarrow> bool" where
  "dead_end b r \<longleftrightarrow> (case b of TLeaf k v \<Rightarrow> length k = length r | TExt k t \<Rightarrow> take (length k) r \<noteq> k
     | TBranch ts \<Rightarrow> r \<noteq> [] \<and> child ts (hd r) = None)"

lemma tfind_facts:
  assumes "wf_tree n t" "length key = n" "tfind t key = (fs, b, r)"
  shows "plug fs b = t" "fpath fs @ r = key" "wf_tree (length r) b" "dead_end b r" "tinsert t key v = plug fs (tinsert b r v)"
    "tlookup t key = tlookup b r"
  using assms
proof (induction t key arbitrary: n fs rule: tfind.induct)
  case (2 k t key)
  { case 1 with 2 show ?case by (auto split: if_splits prod.splits) }
  { case 2 with "2.IH" show ?case by (fastforce simp: prefix_split split: if_splits prod.splits) }
  { case 3 with 2 show ?case by (fastforce split: if_splits prod.splits) }
  { case 4 with 2 show ?case by (fastforce simp: dead_end_def split: if_splits prod.splits) }
  { case 5 with 2 show ?case by (fastforce split: if_splits prod.splits) }
  { case 6 with 2 show ?case by (fastforce split: if_splits prod.splits) }
next
  case (4 ts i key)
  have w: "child ts i = Some t \<Longrightarrow> wf_tree (n - 1) t" if "wf_tree n (TBranch ts)" for t n
    using that wf_child by blast
  { case 1 with 4 w show ?case by (fastforce simp: child_same split: option.splits prod.splits) }
  { case 2 with 4 w show ?case by (fastforce split: option.splits prod.splits) }
  { case 3 with 4 w show ?case by (fastforce split: option.splits prod.splits) }
  { case 4 with "4.IH" w show ?case by (fastforce simp: dead_end_def split: option.splits prod.splits) }
  { case 5 with 4 w show ?case by (fastforce split: option.splits prod.splits) }
  { case 6 with 4 w show ?case by (fastforce split: option.splits prod.splits) }
qed (auto simp: dead_end_def)

lemma getBranch_tree:
  assumes "length ts = 16" "\<And>x. length (hash c x) = 32"
  shows "getBranch (map (\<lambda>x. rlp_embed (oref (hash c) x)) ts) i = map_option (\<lambda>t. rlp_embed (tref (hash c) t)) (child ts i)"
proof (cases "i < length ts \<and> ts ! i \<noteq> None")
  case True
  then obtain t where t: "ts ! i = Some t" by auto
  have "present (rlp_embed (tref (hash c) t))"
    using assms(2) [of "blob (hash c) t"] by (cases t) (auto simp: tref_cases present_def)
  with True t show ?thesis by (simp add: getBranch_def child_def oref_def)
next
  case False
  then show ?thesis by (auto simp: getBranch_def child_def oref_def present_def)
qed

definition walk_result :: "(bytes \<Rightarrow> bytes) \<Rightarrow> tframe list \<Rightarrow> tree \<Rightarrow> nibbles \<Rightarrow> mpt_node list \<Rightarrow> path" where
  "walk_result H fs b r stack =
     (let stack' = stack @ map (dnode H) (spine fs b) @ [dnode H b]
      in if tlookup b r = None then (None, r, stack') else (Some (dnode H b), [], stack'))"

lemma walk_result_Cons:
  "walk_result H (f # fs) b r stack = walk_result H fs b r (stack @ [dnode H (plug (f # fs) b)])"
  by (simp add: walk_result_def)

lemma walk_ok:
  assumes "lru_ok L E" "\<And>x. length (hash c x) = 32"
  shows "wf_tree n t \<Longrightarrow> length key = n \<Longrightarrow> stored c D t \<Longrightarrow> refers c D ref t \<Longrightarrow> small (hash c) t \<Longrightarrow> n < fuel \<Longrightarrow>
    cdb_inv E (t_db s) \<Longrightarrow> cdb_view (t_db s) = D \<Longrightarrow> tfind t key = (fs, b, r) \<Longrightarrow>
    \<exists>s'. walk fuel c L strict ref key stack s = (Inr (walk_result (hash c) fs b r stack), s') \<and> quiet E s s'"
proof (induction t key arbitrary: n ref fuel s stack fs b r rule: tfind.induct)
  case (1 k v key)
  obtain f where f: "fuel = Suc f" using 1(6) by (cases fuel) auto
  obtain s' where "lookupNode c L ref s = (Inr (dnode (hash c) (TLeaf k v)), s')" "quiet E s s'"
    using lookup_refers [OF assms(1) 1(7) 1(1) 1(5)] 1(4,8) by blast
  with 1 f show ?case by (auto simp: walk_result_def)
next
  case (2 k t key)
  obtain f where f: "fuel = Suc f" using 2(7) by (cases fuel) auto
  obtain s' where s': "lookupNode c L ref s = (Inr (dnode (hash c) (TExt k t)), s')" "quiet E s s'"
    using lookup_refers [OF assms(1) 2(8) 2(2) 2(6)] 2(5,9) by blast
  show ?case
  proof (cases "take (length k) key = k")
    case True
    obtain gs where g: "tfind t (drop (length k) key) = (gs, b, r)" "fs = FExt k # gs" using 2(10) True by (auto split: prod.splits)
    have "0 < length k" "length k \<le> n" using 2(2) by simp_all
    with 2(7) f have n: "n - length k < f" by linarith
    have inv: "cdb_inv E (t_db s')" "cdb_view (t_db s') = D" using quiet_facts [OF s'(2)] 2(9) by auto
    have "\<exists>u. walk f c L strict (rlp_embed (tref (hash c) t)) (drop (length k) key) (stack @ [dnode (hash c) (TExt k t)]) s' =
        (Inr (walk_result (hash c) gs b r (stack @ [dnode (hash c) (TExt k t)])), u) \<and> quiet E s' u"
      by (rule 2(1) [OF True _ _ _ _ _ n inv g(1)]) (use 2 in \<open>auto intro: refers_tref\<close>)
    then obtain u where u: "walk f c L strict (rlp_embed (tref (hash c) t)) (drop (length k) key) (stack @ [dnode (hash c) (TExt k t)]) s' =
        (Inr (walk_result (hash c) gs b r (stack @ [dnode (hash c) (TExt k t)])), u)" "quiet E s' u" by blast
    have "plug gs b = t" using tfind_facts(1) [OF _ _ g(1)] 2(2,3) by auto
    then have "walk fuel c L strict ref key stack s = (Inr (walk_result (hash c) fs b r stack), u)"
      using s'(1) u(1) True g(2) by (simp add: f walk_result_Cons)
    with quiet_trans [OF s'(2) u(2)] show ?thesis by blast
  next
    case False
    with 2(10) s' show ?thesis by (auto simp: f walk_result_def)
  qed
next
  case (3 ts)
  then show ?case by simp
next
  case (4 ts i key)
  obtain f where f: "fuel = Suc f" using 4(7) by (cases fuel) auto
  let ?b = "TBranch ts"
  obtain s' where s': "lookupNode c L ref s = (Inr (dnode (hash c) ?b), s')" "quiet E s s'"
    using lookup_refers [OF assms(1) 4(8) 4(2) 4(6)] 4(5,9) by blast
  have l: "length ts = 16" using 4(2) by simp
  show ?case
  proof (cases "child ts i")
    case None
    with 4(10) s' show ?thesis by (auto simp: f walk_result_def getBranch_tree [OF l assms(2)])
  next
    case (Some t)
    obtain gs where g: "tfind t key = (gs, b, r)" "fs = FBranch ts i # gs" using 4(10) Some by (auto split: prod.splits)
    have w: "wf_tree (n - 1) t" using wf_child [OF 4(2) Some] .
    have n: "n - 1 < f" "length key = n - 1" using 4(3,7) f by auto
    have inv: "cdb_inv E (t_db s')" "cdb_view (t_db s') = D" using quiet_facts [OF s'(2)] 4(9) by auto
    have t: "kept c D t" "stored c D t" "small (hash c) t" using stored_child [OF 4(4) child_set [OF Some]] small_child [OF 4(6) child_set [OF Some]] by auto
    obtain u where u: "walk f c L strict (rlp_embed (tref (hash c) t)) key (stack @ [dnode (hash c) ?b]) s' =
        (Inr (walk_result (hash c) gs b r (stack @ [dnode (hash c) ?b])), u)" "quiet E s' u"
      using 4(1) [OF Some w n(2) t(2) refers_tref [OF t(1)] t(3) n(1) inv g(1)] by blast
    have "plug gs b = t" using tfind_facts(1) [OF w n(2) g(1)] .
    then have "walk fuel c L strict ref (i # key) stack s = (Inr (walk_result (hash c) fs b r stack), u)"
      using s'(1) u(1) Some g(2) by (simp add: f walk_result_Cons getBranch_tree [OF l assms(2)] child_same)
    with quiet_trans [OF s'(2) u(2)] show ?thesis by blast
  qed
qed

end
