(* ===== verification/TrieOk.thy ===== *)
theory TrieOk
  imports TrieRepr
begin

text \<open>
  The operations of the trie compute the trees of theory \<open>TrieTree\<close>: saving a stack stores the new
  tree and sets the root, insertion and deletion are those of the tree. The hash function is
  assumed to give 32 bytes and to have no collision among the nodes at hand; the keys in use have
  the same length.
\<close>

section \<open>Nodes that stand for trees\<close>

definition nrep :: "(bytes \<Rightarrow> bytes) \<Rightarrow> mpt_node \<Rightarrow> tree \<Rightarrow> bool" where
  "nrep H n t \<longleftrightarrow> rlp_value (IArr (raw n)) = Inr (traw H t)"

text \<open>A node on the stack whose child is about to be replaced.\<close>

fun frame_node :: "(bytes \<Rightarrow> bytes) \<Rightarrow> tframe \<Rightarrow> mpt_node \<Rightarrow> bool" where
  "frame_node H (FExt k) n \<longleftrightarrow> (\<exists>v. n = ExtensionMPTNode k v)"
| "frame_node H (FBranch ts i) n \<longleftrightarrow> (\<exists>bs v. n = BranchMPTNode bs v \<and> length bs = length ts \<and> i < length ts \<and>
     rlp_value v = Inr (RBytes []) \<and> (\<forall>j < length ts. j \<noteq> i \<longrightarrow> rlp_value (bs ! j) = Inr (oref H (ts ! j))))"

lemma rlp_toBytes_simps [simp]: "rlp_toBytes (IBytes b) = Inr b" "rlp_toBytes INull = Inr []"
  by (simp_all add: rlp_toBytes_def)

lemma rlp_values_nth:
  "rlp_values xs = Inr ds \<longleftrightarrow> length xs = length ds \<and> (\<forall>i < length ds. rlp_value (xs ! i) = Inr (ds ! i))"
proof (induction xs arbitrary: ds)
  case (Cons x xs)
  show ?case
  proof (cases ds)
    case Nil
    then show ?thesis by (cases "rlp_value x"; cases "rlp_values xs") simp_all
  next
    case (Cons d ds')
    have "rlp_values (x # xs) = Inr ds \<longleftrightarrow> rlp_value x = Inr d \<and> rlp_values xs = Inr ds'"
      unfolding Cons by (cases "rlp_value x"; cases "rlp_values xs") auto
    then show ?thesis by (auto simp: Cons Cons.IH All_less_Suc2)
  qed
qed auto

declare rlp_value_embed [simp]

lemma rlp_values_snoc: "rlp_values (xs @ [x]) = Inr (es @ [e]) \<longleftrightarrow> rlp_values xs = Inr es \<and> rlp_value x = Inr e"
  by (auto simp: rlp_values_nth nth_append All_less_Suc)

lemma nrep_branch:
  "nrep H (BranchMPTNode bs v) (TBranch ts) \<longleftrightarrow>
     length bs = length ts \<and> rlp_value v = Inr (RBytes []) \<and> (\<forall>j < length ts. rlp_value (bs ! j) = Inr (oref H (ts ! j)))"
proof -
  have "rlp_value (IArr (bs @ [v])) = Inr (RList (map (oref H) ts @ [RBytes []])) \<longleftrightarrow>
      rlp_values (bs @ [v]) = Inr (map (oref H) ts @ [RBytes []])"
    by (cases "rlp_values (bs @ [v])") auto
  also have "\<dots> \<longleftrightarrow> rlp_values bs = Inr (map (oref H) ts) \<and> rlp_value v = Inr (RBytes [])" by (rule rlp_values_snoc)
  also have "rlp_values bs = Inr (map (oref H) ts) \<longleftrightarrow> length bs = length ts \<and> (\<forall>j < length ts. rlp_value (bs ! j) = Inr (oref H (ts ! j)))"
    by (simp add: rlp_values_nth)
  finally show ?thesis unfolding nrep_def raw.simps traw_refs by blast
qed

lemma nrep_ext: "nrep H (ExtensionMPTNode k v) (TExt k t) \<longleftrightarrow> rlp_value v = Inr (tref H t)"
  by (cases "rlp_value v") (auto simp: nrep_def key_bytes_def)

lemma nrep_leaf: "nrep H (LeafMPTNode k (IBytes v)) (TLeaf k v)"
  by (simp add: nrep_def key_bytes_def)

lemma nrep_dnode: "nrep H (dnode H t) t"
proof (cases t)
  case (TBranch ts)
  then show ?thesis by (simp add: nrep_branch)
qed (simp_all add: nrep_leaf nrep_ext)

lemma frame_dnode:
  "frame_node H (FExt k) (dnode H (TExt k t))" "i < length ts \<Longrightarrow> frame_node H (FBranch ts i) (dnode H (TBranch (ts[i := x])))"
  by (simp_all add: nth_list_update)

lemma link_frame:
  assumes "frame_node H f n" "rlp_value c = Inr (tref H t)"
  shows "\<exists>n'. link n (Some c) (p @ fpath1 f) = (n', p) \<and> nrep H n' (plug1 f t)"
proof (cases f)
  case (FExt k)
  then obtain v where "n = ExtensionMPTNode k v" using assms(1) by auto
  with FExt assms(2) show ?thesis by (auto simp: link_def splice_last_def nrep_ext)
next
  case (FBranch ts i)
  then obtain bs v where n: "n = BranchMPTNode bs v" "length bs = length ts" "i < length ts" "rlp_value v = Inr (RBytes [])"
    "\<forall>j < length ts. j \<noteq> i \<longrightarrow> rlp_value (bs ! j) = Inr (oref H (ts ! j))" using assms(1) by auto
  then have "nrep H (BranchMPTNode (bs[i := c]) v) (TBranch (ts[i := Some t]))"
    using assms(2) by (auto simp: nrep_branch nth_list_update oref_def)
  with n(1) FBranch show ?thesis by (simp add: link_def)
qed

lemma link_bottom: "link n None (p @ node_key n) = (n, p)"
  by (cases n) (simp_all add: link_def splice_last_def)

lemma formatNode_ok:
  assumes "nrep (hash c) n t" "length (blob (hash c) t) < max_array"
  shows "formatNode c n isTop False = Inr (if 32 \<le> length (blob (hash c) t) \<or> isTop
      then (IBytes (hash c (blob (hash c) t)), [BPut (getDbKey c (hash c (blob (hash c) t))) (blob (hash c) t)])
      else (IArr (raw n), []))"
proof -
  have "rlp_encode (IArr (raw n)) = Inr (blob (hash c) t)"
    using rlp_encode_value(1) [of "IArr (raw n)" "traw (hash c) t"] assms by (simp add: nrep_def blob_def)
  then show ?thesis by (simp add: formatNode_def serialize_def Let_def)
qed

section \<open>Saving a stack\<close>

definition puts :: "trie_opts \<Rightarrow> bytes list \<Rightarrow> batch_op list" where
  "puts c bs = map (\<lambda>b. BPut (getDbKey c (hash c b)) b) bs"

text \<open>What saving writes for the frames above a tree.\<close>

fun frame_blobs :: "trie_opts \<Rightarrow> tframe list \<Rightarrow> tree \<Rightarrow> bytes list" where
  "frame_blobs c [] t = []"
| "frame_blobs c (f # fs) t = frame_blobs c fs t @
     (if 32 \<le> length (blob (hash c) (plug (f # fs) t)) then [blob (hash c) (plug (f # fs) t)] else [])"

definition top_blobs :: "trie_opts \<Rightarrow> tframe list \<Rightarrow> tree \<Rightarrow> bytes list" where
  "top_blobs c fs t = (case fs of [] \<Rightarrow> [] | f # gs \<Rightarrow> frame_blobs c gs t @ [blob (hash c) (plug fs t)])"

definition smalls :: "(bytes \<Rightarrow> bytes) \<Rightarrow> tframe list \<Rightarrow> tree \<Rightarrow> bool" where
  "smalls H fs t \<longleftrightarrow> (\<forall>i \<le> length fs. length (blob H (plug (drop i fs) t)) < max_array)"

lemma smalls_Cons: "smalls H (f # fs) t \<longleftrightarrow> length (blob H (plug (f # fs) t)) < max_array \<and> smalls H fs t"
proof -
  have "(\<forall>i \<le> Suc n. P i) \<longleftrightarrow> P 0 \<and> (\<forall>i \<le> n. P (Suc i))" for n and P :: "nat \<Rightarrow> bool"
    by (metis Suc_le_mono bot_nat_0.extremum not0_implies_Suc)
  from this [of "length fs" "\<lambda>i. length (blob H (plug (drop i (f # fs)) t)) < max_array"] show ?thesis
    unfolding smalls_def by simp
qed

text \<open>The loop over frames that are not the top of the stack.\<close>

lemma save_frames:
  assumes "list_all2 (frame_node (hash c)) fs ns" "smalls (hash c) fs t" "rlp_value r = Inr (tref (hash c) t)" "rest \<noteq> []"
  shows "\<exists>r'. save_loop c (p @ fpath fs) (rev ns @ rest) (Some r) ops = save_loop c p rest (Some r') (ops @ puts c (frame_blobs c fs t)) \<and>
    rlp_value r' = Inr (tref (hash c) (plug fs t))"
  using assms
proof (induction fs arbitrary: ns p rest)
  case Nil
  then show ?case by (simp add: puts_def) metis
next
  case (Cons f fs)
  then obtain n ms where ns: "ns = n # ms" "frame_node (hash c) f n" "list_all2 (frame_node (hash c)) fs ms"
    by (auto simp: list_all2_Cons1)
  have sm: "smalls (hash c) fs t" "length (blob (hash c) (plug (f # fs) t)) < max_array" using Cons.prems(2) by (simp_all add: smalls_Cons)
  obtain r1 where r1: "save_loop c ((p @ fpath1 f) @ fpath fs) (rev ms @ n # rest) (Some r) ops =
      save_loop c (p @ fpath1 f) (n # rest) (Some r1) (ops @ puts c (frame_blobs c fs t))"
    "rlp_value r1 = Inr (tref (hash c) (plug fs t))"
    using Cons.IH [OF ns(3) sm(1) Cons.prems(3), of "n # rest" "p @ fpath1 f"] by auto
  obtain n' where n': "link n (Some r1) (p @ fpath1 f) = (n', p)" "nrep (hash c) n' (plug (f # fs) t)"
    using link_frame [OF ns(2) r1(2)] by auto
  let ?b = "blob (hash c) (plug (f # fs) t)"
  have fm: "formatNode c n' False False = Inr (if 32 \<le> length ?b then (IBytes (hash c ?b), [BPut (getDbKey c (hash c ?b)) ?b])
      else (IArr (raw n'), []))"
    using formatNode_ok [OF n'(2) sm(2), where isTop = False] by simp
  have "rlp_value (IArr (raw n')) = Inr (traw (hash c) (plug (f # fs) t))" using n'(2) by (simp add: nrep_def)
  with r1(1) n'(1) fm Cons.prems(4) show ?case
    by (auto simp: ns(1) puts_def tref_cases simp del: plug_simps(2))
qed

text \<open>The whole stack: frames and the node at the bottom.\<close>

lemma save_stack_loop:
  assumes "list_all2 (frame_node (hash c)) fs ns" "nrep (hash c) n t" "smalls (hash c) fs t"
  shows "save_loop c (fpath fs @ node_key n) (rev (ns @ [n])) None ops =
    Inr (Some (IBytes (hash c (blob (hash c) (plug fs t)))),
      ops @ puts c ((if fs = [] \<or> 32 \<le> length (blob (hash c) t) then [blob (hash c) t] else []) @ top_blobs c fs t))"
proof -
  let ?b = "blob (hash c) t"
  have sb: "length ?b < max_array" using assms(3) unfolding smalls_def by (metis drop_all order_refl plug_simps(1))
  note fm = formatNode_ok [OF assms(2) sb]
  show ?thesis
  proof (cases fs)
    case Nil
    then have "ns = []" using assms(1) by simp
    with Nil fm [where isTop = True] link_bottom [of n "[]"] show ?thesis by (simp add: puts_def top_blobs_def)
  next
    case (Cons f gs)
    then obtain m ms where ns: "ns = m # ms" "frame_node (hash c) f m" "list_all2 (frame_node (hash c)) gs ms"
      using assms(1) by (auto simp: list_all2_Cons1)
    have sm: "smalls (hash c) gs t" "length (blob (hash c) (plug (f # gs) t)) < max_array" using assms(3) Cons by (simp_all add: smalls_Cons)
    define r ops1 where "r = (if 32 \<le> length ?b then IBytes (hash c ?b) else IArr (raw n))"
      and "ops1 = ops @ puts c (if 32 \<le> length ?b then [?b] else [])"
    have rv: "rlp_value r = Inr (tref (hash c) t)"
      using assms(2) by (simp add: r_def tref_cases nrep_def del: rlp_value.simps(1))
    have step: "save_loop c (fpath fs @ node_key n) (rev (ns @ [n])) None ops = save_loop c (fpath1 f @ fpath gs) (rev ms @ [m]) (Some r) ops1"
      using link_bottom [of n "fpath fs"] fm [where isTop = False] by (simp add: ns(1) Cons r_def ops1_def puts_def)
    obtain r1 where r1: "save_loop c (fpath1 f @ fpath gs) (rev ms @ [m]) (Some r) ops1 =
        save_loop c (fpath1 f) [m] (Some r1) (ops1 @ puts c (frame_blobs c gs t))" "rlp_value r1 = Inr (tref (hash c) (plug gs t))"
      using save_frames [OF ns(3) sm(1) rv, of "[m]" "fpath1 f" ops1] by auto
    obtain m' where m': "link m (Some r1) ([] @ fpath1 f) = (m', [])" "nrep (hash c) m' (plug (f # gs) t)"
      using link_frame [OF ns(2) r1(2), of "[]"] by auto
    have "formatNode c m' True False = Inr (IBytes (hash c (blob (hash c) (plug fs t))),
        [BPut (getDbKey c (hash c (blob (hash c) (plug fs t)))) (blob (hash c) (plug fs t))])"
      using formatNode_ok [OF m'(2) sm(2), where isTop = True] by (simp add: Cons)
    with m'(1) step r1(1) show ?thesis by (simp add: ops1_def Cons puts_def top_blobs_def del: plug_simps(2))
  qed
qed

section \<open>What saving stores\<close>

definition blobs_in :: "trie_opts \<Rightarrow> bytes set \<Rightarrow> tree \<Rightarrow> bool" where
  "blobs_in c S t \<longleftrightarrow> (\<forall>s \<in> set (nodes t). blob (hash c) s \<in> S)"

text \<open>The hash function gives 32 bytes and has no collision on \<open>S\<close>; nodes are not pruned and the root is
  not stored under a key of its own.\<close>

definition plain :: "trie_opts \<Rightarrow> bytes set \<Rightarrow> bool" where
  "plain c S \<longleftrightarrow> \<not> useNodePruning c \<and> \<not> useRootPersistence c \<and> (\<forall>x. length (hash c x) = 32) \<and>
     inj_on (hash c) S \<and> RLP_EMPTY_STRING \<in> S"

lemma plainD:
  assumes "plain c S"
  shows "\<not> useNodePruning c" "\<not> useRootPersistence c" "length (hash c x) = 32"
    "a \<in> S \<Longrightarrow> b \<in> S \<Longrightarrow> hash c a = hash c b \<Longrightarrow> a = b" "RLP_EMPTY_STRING \<in> S"
  using assms by (auto simp: plain_def inj_on_def)

lemma puts_simps [simp]: "puts c [] = []" "puts c (as @ bs) = puts c as @ puts c bs"
  by (simp_all add: puts_def)

lemma holds_writes:
  assumes "plain c S"
  shows "set ws \<subseteq> S \<Longrightarrow> b \<in> S \<Longrightarrow> holds c D b \<or> b \<in> set ws \<Longrightarrow> holds c (fold db_op (puts c ws) D) b"
proof (induction ws arbitrary: D)
  case (Cons w ws)
  let ?D = "D(getDbKey c (hash c w) \<mapsto> w)"
  have "holds c ?D b \<or> b \<in> set ws"
    using Cons.prems plainD(4) [OF assms, of w b] by (auto simp: holds_def getDbKey_def)
  with Cons show ?case by (simp add: puts_def)
qed simp

fun tframe_ok :: "tframe \<Rightarrow> bool" where
  "tframe_ok (FExt k) \<longleftrightarrow> True"
| "tframe_ok (FBranch ts i) \<longleftrightarrow> i < length ts"

text \<open>The siblings of a frame are stored.\<close>

fun fkept :: "trie_opts \<Rightarrow> (bytes \<rightharpoonup> bytes) \<Rightarrow> tframe \<Rightarrow> bool" where
  "fkept c D (FExt k) \<longleftrightarrow> True"
| "fkept c D (FBranch ts i) \<longleftrightarrow> (\<forall>j t. j \<noteq> i \<longrightarrow> child ts j = Some t \<longrightarrow> kept c D t \<and> stored c D t)"

lemma stored_plug1:
  assumes "tframe_ok f" "fkept c D f" "kept c D t" "stored c D t"
  shows "stored c D (plug1 f t)"
proof (cases f)
  case (FBranch ts i)
  have "kept c D s \<and> stored c D s" if s: "Some s \<in> set (ts[i := Some t])" for s
  proof -
    obtain j where "child (ts[i := Some t]) j = Some s" using set_child [OF s] by blast
    then show ?thesis using assms FBranch by (auto simp: child_update split: if_splits)
  qed
  then show ?thesis by (auto simp: FBranch stored_def nodes_def)
qed (use assms in simp)

lemma stored_plug:
  assumes "\<forall>f \<in> set fs. tframe_ok f \<and> fkept c D f" "stored c D t" "fs \<noteq> [] \<Longrightarrow> kept c D t"
    "\<And>i. 0 < i \<Longrightarrow> i < length fs \<Longrightarrow> kept c D (plug (drop i fs) t)"
  shows "stored c D (plug fs t)"
  using assms
proof (induction fs)
  case (Cons f fs)
  have "stored c D (plug fs t)" using Cons.prems(4) [of "Suc _"] by (intro Cons.IH) (use Cons.prems in auto)
  moreover have "kept c D (plug fs t)" using Cons.prems(3) Cons.prems(4) [of 1] by (cases fs) auto
  ultimately show ?case using Cons.prems(1) by (auto intro: stored_plug1)
qed simp

lemma nodes_plug1:
  assumes "tframe_ok f"
  shows "set (nodes t) \<subseteq> set (nodes (plug1 f t))"
    "f = FBranch ts i \<Longrightarrow> j \<noteq> i \<Longrightarrow> child ts j = Some u \<Longrightarrow> set (nodes u) \<subseteq> set (nodes (plug1 f t))"
proof -
  show "set (nodes t) \<subseteq> set (nodes (plug1 f t))"
  proof (cases f)
    case (FBranch ts i)
    then have "Some t \<in> set (ts[i := Some t])" using assms by (simp add: set_update_memI)
    then show ?thesis by (auto simp: FBranch nodes_def)
  qed (auto simp: nodes_def)
  show "f = FBranch ts i \<Longrightarrow> j \<noteq> i \<Longrightarrow> child ts j = Some u \<Longrightarrow> set (nodes u) \<subseteq> set (nodes (plug1 f t))"
    using child_set [of "ts[i := Some t]" j u] by (auto simp: nodes_def child_update)
qed

lemma nodes_plug:
  assumes "\<forall>f \<in> set fs. tframe_ok f"
  shows "set (nodes t) \<subseteq> set (nodes (plug fs t))" "plug (drop i fs) t \<in> set (nodes (plug fs t))"
    "FBranch ts k \<in> set fs \<Longrightarrow> j \<noteq> k \<Longrightarrow> child ts j = Some u \<Longrightarrow> set (nodes u) \<subseteq> set (nodes (plug fs t))"
proof -
  show "set (nodes t) \<subseteq> set (nodes (plug fs t))" using assms
  proof (induction fs)
    case (Cons f fs)
    then show ?case using nodes_plug1(1) [of f "plug fs t"] by auto
  qed simp
  show "plug (drop i fs) t \<in> set (nodes (plug fs t))" using assms
  proof (induction fs arbitrary: i)
    case (Cons f fs)
    show ?case
    proof (cases i)
      case (Suc j)
      have "plug (drop j fs) t \<in> set (nodes (plug fs t))" using Cons by simp
      with nodes_plug1(1) [of f "plug fs t"] Cons.prems show ?thesis by (auto simp: Suc)
    qed (simp add: nodes_def)
  qed (simp add: nodes_def)
  show "FBranch ts k \<in> set fs \<Longrightarrow> j \<noteq> k \<Longrightarrow> child ts j = Some u \<Longrightarrow> set (nodes u) \<subseteq> set (nodes (plug fs t))" using assms
  proof (induction fs)
    case (Cons f fs)
    then show ?case using nodes_plug1(1) [of f "plug fs t"] nodes_plug1(2) [of f ts k j u "plug fs t"] by auto
  qed simp
qed

lemma frame_blobs_set: "set (frame_blobs c fs t) = {b. \<exists>i < length fs. b = blob (hash c) (plug (drop i fs) t) \<and> 32 \<le> length b}"
proof (induction fs)
  case (Cons f fs)
  have "(\<exists>i < Suc n. P i) \<longleftrightarrow> P 0 \<or> (\<exists>i < n. P (Suc i))" for n and P :: "nat \<Rightarrow> bool"
    by (metis Suc_less_eq less_Suc_eq_0_disj zero_less_Suc)
  from this [of "length fs" "\<lambda>i. b = blob (hash c) (plug (drop i (f # fs)) t) \<and> 32 \<le> length b" for b]
  show ?case by (auto simp: Cons simp del: plug_simps(2))
qed simp

definition save_blobs :: "trie_opts \<Rightarrow> tframe list \<Rightarrow> tree \<Rightarrow> bytes list" where
  "save_blobs c fs t = (if fs = [] \<or> 32 \<le> length (blob (hash c) t) then [blob (hash c) t] else []) @ top_blobs c fs t"

lemma save_blobs_facts:
  assumes "\<forall>f \<in> set fs. tframe_ok f" "blobs_in c S (plug fs t)"
  shows "set (save_blobs c fs t) \<subseteq> S" "blob (hash c) (plug fs t) \<in> set (save_blobs c fs t)"
    "0 < i \<Longrightarrow> i \<le> length fs \<Longrightarrow> 32 \<le> length (blob (hash c) (plug (drop i fs) t)) \<Longrightarrow> blob (hash c) (plug (drop i fs) t) \<in> set (save_blobs c fs t)"
proof -
  have all: "blob (hash c) (plug (drop i fs) t) \<in> S" for i using assms nodes_plug(2) by (auto simp: blobs_in_def)
  from this [of "length fs"] this [of 0] have e: "blob (hash c) t \<in> S" "blob (hash c) (plug fs t) \<in> S" by simp_all
  show "set (save_blobs c fs t) \<subseteq> S"
  proof (cases fs)
    case (Cons f gs)
    then show ?thesis using e all [of "Suc _"] by (auto simp: save_blobs_def top_blobs_def frame_blobs_set simp del: plug_simps(2))
  qed (use e in \<open>simp add: save_blobs_def top_blobs_def\<close>)
  show "blob (hash c) (plug fs t) \<in> set (save_blobs c fs t)"
    by (cases fs) (simp_all add: save_blobs_def top_blobs_def)
  show "blob (hash c) (plug (drop i fs) t) \<in> set (save_blobs c fs t)"
    if i: "0 < i" "i \<le> length fs" "32 \<le> length (blob (hash c) (plug (drop i fs) t))"
  proof (cases "i = length fs")
    case False
    then obtain f gs j where "fs = f # gs" "i = Suc j" "j < length gs" using i by (cases fs; cases i) auto
    then show ?thesis using i(3) by (auto simp: save_blobs_def top_blobs_def frame_blobs_set)
  qed (use i in \<open>auto simp: save_blobs_def\<close>)
qed

section \<open>The state\<close>

definition trie_rep :: "trie_opts \<Rightarrow> ('c \<Rightarrow> bytes \<rightharpoonup> bytes) \<Rightarrow> bytes set \<Rightarrow> nat \<Rightarrow> tree option \<Rightarrow> 'c trie \<Rightarrow> bool" where
  "trie_rep c E S n x s \<longleftrightarrow> cdb_inv E (t_db s) \<and> cdb_view (t_db s) (getDbKey c (EMPTY_TRIE_ROOT c)) = None \<and> (case x of
     None \<Rightarrow> t_root s = EMPTY_TRIE_ROOT c
   | Some t \<Rightarrow> wf_tree n t \<and> bounded t \<and> blobs_in c S t \<and> t_root s = hash c (blob (hash c) t) \<and>
       holds c (cdb_view (t_db s)) (blob (hash c) t) \<and> stored c (cdb_view (t_db s)) t)"

text \<open>Nothing is stored under the root of the empty trie.\<close>

lemma blob_not_empty_string: "blob H t \<noteq> RLP_EMPTY_STRING"
  using enc_list_first by (cases t) (simp_all add: blob_def RLP_EMPTY_STRING_def del: enc.simps)

lemma save_blobs_not_empty: "RLP_EMPTY_STRING \<notin> set (save_blobs c fs t)"
  by (cases fs) (auto simp: save_blobs_def top_blobs_def frame_blobs_set blob_not_empty_string blob_not_empty_string [symmetric] simp del: plug_simps)

lemma puts_root_free:
  assumes "plain c S" "set ws \<subseteq> S" "RLP_EMPTY_STRING \<notin> set ws" "D (getDbKey c (EMPTY_TRIE_ROOT c)) = None"
  shows "fold db_op (puts c ws) D (getDbKey c (EMPTY_TRIE_ROOT c)) = None"
  using assms(2-)
proof (induction ws arbitrary: D)
  case (Cons w ws)
  have "w \<noteq> RLP_EMPTY_STRING" "w \<in> S" using Cons.prems by auto
  then have "hash c w \<noteq> EMPTY_TRIE_ROOT c" using plainD(4,5) [OF assms(1)] by (auto simp: EMPTY_TRIE_ROOT_def)
  with Cons show ?case by (simp add: puts_def getDbKey_def)
qed simp

text \<open>The open checkpoints are untouched.\<close>

definition same_saved :: "'c trie \<Rightarrow> 'c trie \<Rightarrow> bool" where
  "same_saved s s' \<longleftrightarrow> cdb_saved (t_db s') = cdb_saved (t_db s) \<and> map cp_root (checkpoints (t_db s')) = map cp_root (checkpoints (t_db s))"

lemma small_plug: "small H (plug fs t) \<Longrightarrow> \<forall>f \<in> set fs. tframe_ok f \<Longrightarrow> smalls H fs t"
  using nodes_plug(2) [of fs] by (auto simp: small_def smalls_def)

lemma saveStack_ok:
  assumes p: "plain c S" "lru_ok L E" "cdb_inv E (t_db s)" "cdb_view (t_db s) (getDbKey c (EMPTY_TRIE_ROOT c)) = None"
    and st: "list_all2 (frame_node (hash c)) fs ns" "nrep (hash c) nd t" "\<forall>f \<in> set fs. tframe_ok f"
    and new: "wf_tree n (plug fs t)" "bounded (plug fs t)" "blobs_in c S (plug fs t)" "n < 2 ^ 32"
    and ws: "set ws \<subseteq> S" "RLP_EMPTY_STRING \<notin> set ws" "stored c (fold db_op (puts c ws) (cdb_view (t_db s))) t"
      "\<forall>f \<in> set fs. fkept c (fold db_op (puts c ws) (cdb_view (t_db s))) f"
    and path: "path = fpath fs @ node_key nd"
  shows "\<exists>s'. saveStack c L path (ns @ [nd]) (puts c ws) s = (Inr (), s') \<and> trie_rep c E S n (Some (plug fs t)) s' \<and> same_saved s s'"
proof -
  let ?D = "cdb_view (t_db s)" and ?all = "ws @ save_blobs c fs t"
  let ?D1 = "fold db_op (puts c ws) ?D" and ?D2 = "fold db_op (puts c ?all) ?D"
  let ?b = "blob (hash c) (plug fs t)"
  have "small (hash c) (plug fs t)" using small_tree [of "hash c"] plainD(3) [OF p(1)] new by blast
  then have sm: "smalls (hash c) fs t" using st(3) by (rule small_plug)
  have loop: "save_loop c path (rev (ns @ [nd])) None (puts c ws) = Inr (Some (IBytes (hash c ?b)), puts c ?all)"
    using save_stack_loop [OF st(1,2) sm] by (simp add: path save_blobs_def)
  obtain d where d: "cdb_batch L (puts c ?all) (t_db s) = (Inr (), d)" "cdb_inv E d" "cdb_view d = ?D2"
    "cdb_saved d = cdb_saved (t_db s)" "map cp_root (checkpoints d) = map cp_root (checkpoints (t_db s))"
    using cdb_batch_law [OF p(2,3)] by blast
  let ?s = "s\<lparr>t_root := hash c ?b, t_db := d\<rparr>"
  have run: "saveStack c L path (ns @ [nd]) (puts c ws) s = (Inr (), ?s)"
    using loop d(1) plainD(2,3) [OF p(1)]
    by (simp add: saveStack_def set_root_def EMPTY_TRIE_ROOT_def on_db_def sq_def bnd_def persistRoot_def)
  note sb = save_blobs_facts [OF st(3) new(3)]
  have wsS: "set ?all \<subseteq> S" "set (save_blobs c fs t) \<subseteq> S" using ws(1) sb(1) by auto
  have D2: "?D2 = fold db_op (puts c (save_blobs c fs t)) ?D1" by simp
  have keep: "holds c ?D2 b" if "b \<in> S" "holds c ?D1 b \<or> b \<in> set (save_blobs c fs t)" for b
    unfolding D2 by (rule holds_writes [OF p(1) wsS(2) that])
  have kept2: "kept c ?D2 u" if "kept c ?D1 u" "blob (hash c) u \<in> S" for u using that keep by (auto simp: kept_def)
  have "RLP_EMPTY_STRING \<notin> set ?all" using ws(2) save_blobs_not_empty by simp
  then have root: "?D2 (getDbKey c (EMPTY_TRIE_ROOT c)) = None" using puts_root_free [OF p(1) wsS(1)] p(4) by blast
  have stored2: "stored c ?D2 u" if "stored c ?D1 u" "set (nodes u) \<subseteq> set (nodes (plug fs t))" for u
    using that kept2 new(3) by (auto simp: stored_def blobs_in_def nodes_def)
  have inS: "blob (hash c) (plug (drop i fs) t) \<in> S" for i using nodes_plug(2) [OF st(3)] new(3) by (auto simp: blobs_in_def)
  have keptd: "kept c ?D2 (plug (drop i fs) t)" if "0 < i" "i \<le> length fs" for i
    using sb(3) [OF that] keep [OF inS [of i]] by (auto simp: kept_def)
  have f2: "fkept c ?D2 f" if f: "f \<in> set fs" for f
  proof (cases f)
    case (FBranch ts i)
    show ?thesis unfolding FBranch fkept.simps
    proof (intro allI impI)
      fix j u assume ju: "j \<noteq> i" "child ts j = Some u"
      have sub: "set (nodes u) \<subseteq> set (nodes (plug fs t))" using nodes_plug(3) [OF st(3)] f ju FBranch by blast
      then have "blob (hash c) u \<in> S" using new(3) by (auto simp: blobs_in_def nodes_def)
      with ws(4) f ju FBranch kept2 stored2 [OF _ sub] show "kept c ?D2 u \<and> stored c ?D2 u" by auto
    qed
  qed simp
  have "stored c ?D2 (plug fs t)"
  proof (rule stored_plug)
    show "\<forall>f \<in> set fs. tframe_ok f \<and> fkept c ?D2 f" using st(3) f2 by blast
    show "stored c ?D2 t" using ws(3) nodes_plug(1) [OF st(3)] by (rule stored2)
    show "kept c ?D2 t" if "fs \<noteq> []" using keptd [of "length fs"] that by simp
    show "kept c ?D2 (plug (drop i fs) t)" if "0 < i" "i < length fs" for i using keptd that by simp
  qed
  moreover have "holds c ?D2 ?b" using keep [OF _ disjI2 [OF sb(2)]] inS [of 0] by simp
  ultimately have "trie_rep c E S n (Some (plug fs t)) ?s" using new d root by (simp add: trie_rep_def)
  with run d show ?thesis by (simp add: same_saved_def)
qed

end
