(* ===== verification/TrieOps.thy ===== *)
theory TrieOps
  imports TrieOk
begin

text \<open>
  The operations of the trie on a state that stands for a tree: reading, inserting and deleting a
  key, and runs of operations.
\<close>

section \<open>Paths\<close>

lemma quiet_rep: "quiet E s s' \<Longrightarrow> trie_rep c E S n x s \<Longrightarrow> trie_rep c E S n x s' \<and> same_saved s s'"
  by (cases x) (auto simp: trie_rep_def quiet_def same_saved_def)

lemma same_saved_trans: "same_saved s t \<Longrightarrow> same_saved t u \<Longrightarrow> same_saved s u"
  by (simp add: same_saved_def)

lemma same_saved_refl: "same_saved s s"
  by (simp add: same_saved_def)

lemma trie_rep_small: "plain c S \<Longrightarrow> trie_rep c E S n (Some t) s \<Longrightarrow> n < 2 ^ 32 \<Longrightarrow> small (hash c) t"
  using small_tree [of "hash c" n t] plainD(3) by (auto simp: trie_rep_def)

lemma findPath_ok:
  assumes "plain c S" "lru_ok L E" "trie_rep c E S n (Some t) s" "length (bytesToNibbles key) = n" "n < 2 ^ 32"
    "tfind t (bytesToNibbles key) = (fs, b, r)"
  shows "\<exists>s'. findPath c L key strict s = (Inr (walk_result (hash c) fs b r []), s') \<and> quiet E s s'"
proof -
  note rep = assms(3) [unfolded trie_rep_def option.case]
  have ref: "refers c (cdb_view (t_db s)) (IBytes (t_root s)) t" using rep by (simp add: refers_def)
  show ?thesis unfolding findPath_def Let_def
    using walk_ok [OF assms(2) plainD(3) [OF assms(1)] _ assms(4) _ ref trie_rep_small [OF assms(1,3,5)] _ _ refl assms(6),
        where fuel = "Suc (length (bytesToNibbles key))"] rep assms(4) by auto
qed

lemma tfind_frames:
  assumes "wf_tree n t" "length key = n" "tfind t key = (fs, b, r)" "stored c D t"
  shows "(\<forall>f \<in> set fs. tframe_ok f \<and> fkept c D f) \<and> stored c D b \<and> (fs \<noteq> [] \<longrightarrow> kept c D b) \<and>
    list_all2 (frame_node (hash c)) fs (map (dnode (hash c)) (spine fs b))"
  using assms
proof (induction t key arbitrary: n fs rule: tfind.induct)
  case (2 k t key)
  show ?case
  proof (cases "take (length k) key = k")
    case True
    then obtain gs where g: "tfind t (drop (length k) key) = (gs, b, r)" "fs = FExt k # gs" using 2(4) by (auto split: prod.splits)
    then have ih: "(\<forall>f \<in> set gs. tframe_ok f \<and> fkept c D f) \<and> stored c D b \<and> (gs \<noteq> [] \<longrightarrow> kept c D b) \<and>
        list_all2 (frame_node (hash c)) gs (map (dnode (hash c)) (spine gs b))"
      using 2(1) [OF True, of "n - length k" gs] 2(2,3,5) by auto
    have "plug gs b = t" using tfind_facts(1) [OF _ _ g(1), of "n - length k"] 2(2,3) by auto
    with ih g 2(5) show ?thesis by (cases gs) auto
  qed (use 2 in auto)
next
  case (4 ts i key)
  show ?case
  proof (cases "child ts i")
    case (Some t)
    then obtain gs where g: "tfind t key = (gs, b, r)" "fs = FBranch ts i # gs" using 4(4) by (auto split: prod.splits)
    have w: "wf_tree (n - 1) t" "length key = n - 1" using wf_child [OF 4(2) Some] 4(3) by auto
    have st: "kept c D t" "stored c D t" using stored_child [OF 4(5) child_set [OF Some]] by auto
    note ih = 4(1) [OF Some w g(1) st(2)]
    have "plug gs b = t" using tfind_facts(1) [OF w g(1)] .
    moreover have "kept c D u \<and> stored c D u" if "child ts j = Some u" for j u using stored_child [OF 4(5) child_set [OF that]] .
    moreover have "i < length ts" using Some by (auto simp: child_def split: if_splits)
    ultimately show ?thesis using ih g(2) st(1) frame_dnode(2) [of i ts "hash c" "Some t"] by (cases gs) auto
  qed (use 4 in auto)
qed auto

section \<open>Reading\<close>

lemma trie_get_ok:
  assumes "plain c S" "lru_ok L E" "trie_rep c E S n (Some t) s" "length (bytesToNibbles (appliedKey c key)) = n" "n < 2 ^ 32"
  shows "\<exists>s'. trie_get c L key strict s = (Inr (case tlookup t (bytesToNibbles (appliedKey c key)) of None \<Rightarrow> INull | Some v \<Rightarrow> IBytes v), s') \<and>
    trie_rep c E S n (Some t) s' \<and> same_saved s s'"
proof -
  let ?k = "bytesToNibbles (appliedKey c key)"
  obtain fs b r where f: "tfind t ?k = (fs, b, r)" by (cases "tfind t ?k")
  have wf: "wf_tree n t" using assms(3) by (simp add: trie_rep_def)
  note ff = tfind_facts [OF wf assms(4) f]
  obtain s' where s': "findPath c L (appliedKey c key) strict s = (Inr (walk_result (hash c) fs b r []), s')" "quiet E s s'"
    using findPath_ok [OF assms(1-5) f] by blast
  have v: "node_value (dnode (hash c) b) = IBytes v" if "tlookup b r = Some v" for v
    using that ff(4) by (cases b; cases r) (auto simp: dead_end_def split: if_splits)
  have "trie_get c L key strict s = (Inr (case tlookup t ?k of None \<Rightarrow> INull | Some v \<Rightarrow> IBytes v), s')"
    using s'(1) v by (auto simp: trie_get_def bnd_def walk_result_def ff(6) Let_def split: option.splits)
  with quiet_rep [OF s'(2) assms(3)] show ?thesis by blast
qed

text \<open>A missing node only ends the walk: an empty trie has no key.\<close>

lemma trie_get_empty:
  assumes "lru_ok L E" "trie_rep c E S n None s"
  shows "\<exists>s'. trie_get c L key False s = (Inr INull, s') \<and> quiet E s s'"
proof -
  have inv: "cdb_inv E (t_db s)" "t_root s = EMPTY_TRIE_ROOT c" "cdb_view (t_db s) (getDbKey c (EMPTY_TRIE_ROOT c)) = None"
    using assms(2) by (simp_all add: trie_rep_def)
  obtain d where "cdb_get L (getDbKey c (EMPTY_TRIE_ROOT c)) (t_db s) = (Inr None, d)" "cdb_inv E d" "cdb_view d = cdb_view (t_db s)"
    "cdb_saved d = cdb_saved (t_db s)" "map cp_root (checkpoints d) = map cp_root (checkpoints (t_db s))"
    using cdb_get_law [OF assms(1) inv(1), of "getDbKey c (EMPTY_TRIE_ROOT c)"] inv(3) by auto
  then show ?thesis using inv
    by (simp add: trie_get_def findPath_def lookupNode_def bnd_def on_db_def quiet_def throw_def)
qed

section \<open>Inserting\<close>

lemma spine_lengths:
  "list_all2 (frame_node H) fs ns \<Longrightarrow> sum_list (map (\<lambda>n. if is_branch n then 1 else length (node_key n)) ns) = length (fpath fs)"
proof (induction fs ns rule: list_all2_induct)
  case (Cons f fs n ns)
  then show ?case by (cases f) auto
qed simp

text \<open>The node whose path the key leaves.\<close>

definition old_node :: "trie_opts \<Rightarrow> (bytes \<rightharpoonup> bytes) \<Rightarrow> nibbles \<Rightarrow> (nibbles \<Rightarrow> tree) \<Rightarrow> mpt_node \<Rightarrow> bool" where
  "old_node c D k old nd \<longleftrightarrow> (\<exists>w. old = (\<lambda>k'. TLeaf k' w) \<and> nd = LeafMPTNode k (IBytes w)) \<or>
     (\<exists>t. old = rest_ext t \<and> nd = ExtensionMPTNode k (rlp_embed (tref (hash c) t)) \<and> kept c D t \<and> stored c D t \<and>
       length (blob (hash c) (TExt k t)) < max_array)"

lemma hang_old_aux:
  assumes "\<not> useNodePruning c" "m < length k" "old = (\<lambda>k'. TLeaf k' w) \<and> nd = LeafMPTNode k (IBytes w) \<or>
      old = rest_ext t \<and> nd = ExtensionMPTNode k (rlp_embed (tref (hash c) t)) \<and> kept c D t \<and> stored c D t \<and> length (blob (hash c) (TExt k t)) < max_array"
    "length (blob (hash c) (old (drop (Suc m) k))) < max_array"
  shows "\<exists>ref ws. hang_old c nd (drop m k) = Inr (BranchMPTNode ((replicate 16 INull)[k ! m := ref]) INull, puts c ws) \<and>
    rlp_value ref = Inr (tref (hash c) (old (drop (Suc m) k))) \<and> set ws \<subseteq> {blob (hash c) (old (drop (Suc m) k))} \<and>
    (32 \<le> length (blob (hash c) (old (drop (Suc m) k))) \<longrightarrow> blob (hash c) (old (drop (Suc m) k)) \<in> set ws \<or> kept c D (old (drop (Suc m) k))) \<and>
    stored c D (old (drop (Suc m) k))"
proof -
  let ?k = "drop (Suc m) k" and ?o = "old (drop (Suc m) k)"
  let ?b = "blob (hash c) ?o"
  have dk: "drop m k = k ! m # ?k" using assms(2) by (simp add: Cons_nth_drop_Suc)
  show ?thesis
  proof (cases "is_leaf nd \<or> ?k \<noteq> []")
    case True
    have rep: "nrep (hash c) (set_key ?k nd) ?o" using assms(3) True by (auto simp: nrep_leaf nrep_ext rest_ext_def)
    note fm = formatNode_ok [OF rep assms(4), where isTop = False]
    define ref ws where "ref = (if 32 \<le> length ?b then IBytes (hash c ?b) else IArr (raw (set_key ?k nd)))"
      and "ws = (if 32 \<le> length ?b then [?b] else [])"
    have "hang_old c nd (drop m k) = Inr (BranchMPTNode ((replicate 16 INull)[k ! m := ref]) INull, puts c ws)"
      using fm True by (auto simp: hang_old_def dk new_branch_def ref_def ws_def puts_def)
    moreover have "rlp_value ref = Inr (tref (hash c) ?o)"
      using rep by (simp add: ref_def tref_cases nrep_def del: rlp_value.simps(1))
    moreover have "stored c D ?o" using assms(3) True by (auto simp: rest_ext_def)
    ultimately show ?thesis by (intro exI [of _ ref] exI [of _ ws]) (auto simp: ws_def)
  next
    case False
    then have o: "?o = t" "nd = ExtensionMPTNode k (rlp_embed (tref (hash c) t))" "kept c D t" "stored c D t"
      "length (blob (hash c) (TExt k t)) < max_array"
      using assms(3) by (auto simp: rest_ext_def)
    have n: "nrep (hash c) nd (TExt k t)" by (simp add: o(2) nrep_ext)
    have "serialize nd = Inr (blob (hash c) (TExt k t))"
      using rlp_encode_value(1) [of "IArr (raw nd)" "traw (hash c) (TExt k t)"] n o(5) by (simp add: nrep_def blob_def serialize_def)
    then have "\<exists>x. formatNode c nd False True = Inr (x, [])" using assms(1) by (simp add: formatNode_def Let_def)
    then have "hang_old c nd (drop m k) = Inr (BranchMPTNode ((replicate 16 INull)[k ! m := rlp_embed (tref (hash c) t)]) INull, puts c [])"
      using False o(2) by (auto simp: hang_old_def dk new_branch_def)
    with o show ?thesis by (intro exI [of _ "rlp_embed (tref (hash c) t)"] exI [of _ "[]"]) auto
  qed
qed

lemma hang_old_ok:
  assumes "\<not> useNodePruning c" "m < length k" "old_node c D k old nd" "length (blob (hash c) (old (drop (Suc m) k))) < max_array"
  shows "\<exists>ref ws. hang_old c nd (drop m k) = Inr (BranchMPTNode ((replicate 16 INull)[k ! m := ref]) INull, puts c ws) \<and>
    rlp_value ref = Inr (tref (hash c) (old (drop (Suc m) k))) \<and> set ws \<subseteq> {blob (hash c) (old (drop (Suc m) k))} \<and>
    (32 \<le> length (blob (hash c) (old (drop (Suc m) k))) \<longrightarrow> blob (hash c) (old (drop (Suc m) k)) \<in> set ws \<or> kept c D (old (drop (Suc m) k))) \<and>
    stored c D (old (drop (Suc m) k))"
  using assms(3) unfolding old_node_def
proof (elim disjE exE conjE)
  fix w assume "old = (\<lambda>k'. TLeaf k' w)" "nd = LeafMPTNode k (IBytes w)"
  from hang_old_aux [OF assms(1,2) disjI1 [OF conjI [OF this]] assms(4)] show ?thesis .
next
  fix t assume "old = rest_ext t" "nd = ExtensionMPTNode k (rlp_embed (tref (hash c) t))" "kept c D t" "stored c D t"
    "length (blob (hash c) (TExt k t)) < max_array"
  then have "old = rest_ext t \<and> nd = ExtensionMPTNode k (rlp_embed (tref (hash c) t)) \<and> kept c D t \<and> stored c D t \<and>
    length (blob (hash c) (TExt k t)) < max_array" by blast
  from hang_old_aux [OF assms(1,2) disjI2 [OF this] assms(4)] show ?thesis .
qed

text \<open>The new stack: frames, the node at the bottom, and what was written on the way.\<close>

lemma list_update_replicate: "i < 16 \<Longrightarrow> j < 16 \<Longrightarrow> ((replicate 16 x)[i := y]) ! j = (if i = j then y else x)"
  by (simp add: nth_list_update)

lemma frame_new_branch:
  assumes "i < 16" "j < 16" "rlp_value ref = Inr (tref H u)"
  shows "frame_node H (FBranch ((replicate 16 None)[i := Some u]) j) (BranchMPTNode ((replicate 16 INull)[i := ref]) INull)"
  using assms by (auto simp: list_update_replicate oref_def)

lemma diverge_ok:
  assumes p: "\<not> useNodePruning c" "parts_at m k r" "nibble_path k" "nibble_path r" "old_node c D k old nd"
    "length (blob (hash c) (old (drop (Suc m) k))) < max_array"
  defines "o' \<equiv> old (drop (Suc m) k)"
  defines "gs \<equiv> (if m = 0 then [] else [FExt (take m k)]) @ [FBranch ((replicate 16 None)[k ! m := Some o']) (r ! m)]"
  shows "\<exists>ns ws. diverge c v nd r = Inr (ns @ [LeafMPTNode (drop (Suc m) r) (IBytes v)], puts c ws) \<and>
    list_all2 (frame_node (hash c)) gs ns \<and> set ws \<subseteq> {blob (hash c) o'} \<and>
    (32 \<le> length (blob (hash c) o') \<longrightarrow> blob (hash c) o' \<in> set ws \<or> kept c D o') \<and> stored c D o'"
    "plug gs (TLeaf (drop (Suc m) r) v) = tdiverge k old r v" "r = fpath gs @ drop (Suc m) r" "\<forall>f \<in> set gs. tframe_ok f"
proof -
  have m: "m < length k" "m < length r" "take m k = take m r" "k ! m \<noteq> r ! m" "m = matchingNibbleLength k r"
    using p(2) unfolding parts_at_def by blast+
  have b: "k ! m < 16" "r ! m < 16" using p(3,4) m by (simp_all add: hex_digits_nth)
  from hang_old_ok [OF p(1) m(1) p(5,6)] obtain ref ws where h: "hang_old c nd (drop m k) = Inr (BranchMPTNode ((replicate 16 INull)[k ! m := ref]) INull, puts c ws)"
    "rlp_value ref = Inr (tref (hash c) o')" "set ws \<subseteq> {blob (hash c) o'}"
    "32 \<le> length (blob (hash c) o') \<longrightarrow> blob (hash c) o' \<in> set ws \<or> kept c D o'" "stored c D o'" unfolding o'_def by blast
  let ?br = "BranchMPTNode ((replicate 16 INull)[k ! m := ref]) INull"
  let ?ns = "(if m = 0 then [] else [ExtensionMPTNode (take m k) (IBytes v)]) @ [?br]"
  have key: "node_key nd = k" using p(5) by (auto simp: old_node_def)
  have dr: "drop m r = r ! m # drop (Suc m) r" using m(2) by (simp add: Cons_nth_drop_Suc)
  have "diverge c v nd r = Inr (?ns @ [LeafMPTNode (drop (Suc m) r) (IBytes v)], puts c ws)"
    using h(1) by (simp add: diverge_def key Let_def dr flip: m(5))
  moreover have "list_all2 (frame_node (hash c)) gs ?ns"
    using frame_new_branch [OF b h(2)] by (cases "m = 0") (simp_all add: gs_def del: frame_node.simps(2))
  ultimately show "\<exists>ns ws. diverge c v nd r = Inr (ns @ [LeafMPTNode (drop (Suc m) r) (IBytes v)], puts c ws) \<and>
    list_all2 (frame_node (hash c)) gs ns \<and> set ws \<subseteq> {blob (hash c) o'} \<and>
    (32 \<le> length (blob (hash c) o') \<longrightarrow> blob (hash c) o' \<in> set ws \<or> kept c D o') \<and> stored c D o'" using h by blast
  show "plug gs (TLeaf (drop (Suc m) r) v) = tdiverge k old r v"
    using tdiverge_eq [OF p(2), of old v] m(1) by (cases "m = 0") (auto simp: gs_def o'_def rest_ext_def)
  show "r = fpath gs @ drop (Suc m) r" using split_nth [OF m(2)] m(3) by (cases "m = 0") (simp_all add: gs_def)
  show "\<forall>f \<in> set gs. tframe_ok f" using b by (simp add: gs_def)
qed

text \<open>A database that still has what was there, and what was written.\<close>

definition grown :: "trie_opts \<Rightarrow> (bytes \<rightharpoonup> bytes) \<Rightarrow> (bytes \<rightharpoonup> bytes) \<Rightarrow> tree \<Rightarrow> bytes list \<Rightarrow> bool" where
  "grown c D D' t ws \<longleftrightarrow> (\<forall>x \<in> set (nodes t). kept c D x \<longrightarrow> kept c D' x) \<and> (\<forall>b \<in> set ws. holds c D' b)"

lemma grown_stored: "grown c D D' t ws \<Longrightarrow> set (nodes x) \<subseteq> set (nodes t) \<Longrightarrow> stored c D x \<Longrightarrow> stored c D' x"
  by (auto simp: grown_def stored_def nodes_def)

lemma grown_fkept:
  assumes "grown c D D' (plug fs u) ws" "\<forall>f \<in> set fs. tframe_ok f" "f \<in> set fs" "fkept c D f"
  shows "fkept c D' f"
proof (cases f)
  case (FBranch ts i)
  show ?thesis unfolding FBranch fkept.simps
  proof (intro allI impI)
    fix j x assume j: "j \<noteq> i" "child ts j = Some x"
    have "set (nodes x) \<subseteq> set (nodes (plug fs u))" using nodes_plug(3) [OF assms(2)] assms(3) FBranch j by blast
    with assms(1,4) j FBranch grown_stored show "kept c D' x \<and> stored c D' x" by (auto simp: grown_def nodes_def)
  qed
qed simp

lemma fkept_new_branch: "kept c D u \<Longrightarrow> stored c D u \<Longrightarrow> fkept c D (FBranch ((replicate 16 None)[i := Some u]) j)"
  by (auto simp: child_update split: if_splits)

text \<open>What a new stack has to satisfy to be saved as the tree \<open>T\<close>.\<close>

definition good_stack :: "trie_opts \<Rightarrow> (bytes \<rightharpoonup> bytes) \<Rightarrow> tree \<Rightarrow> nibbles \<Rightarrow> mpt_node list \<times> batch_op list \<Rightarrow> bool" where
  "good_stack c D T key x \<longleftrightarrow> (\<exists>fs ns nd u ws. x = (ns @ [nd], puts c ws) \<and> plug fs u = T \<and> key = fpath fs @ node_key nd \<and>
     list_all2 (frame_node (hash c)) fs ns \<and> nrep (hash c) nd u \<and> (\<forall>f \<in> set fs. tframe_ok f) \<and>
     set ws \<subseteq> blob (hash c) ` set (nodes T) \<and>
     (\<forall>D'. grown c D D' T ws \<longrightarrow> stored c D' u \<and> (\<forall>f \<in> set fs. fkept c D' f)))"

lemma good_stackI:
  assumes "plug fs u = T" "key = fpath fs @ node_key nd" "list_all2 (frame_node (hash c)) fs ns" "nrep (hash c) nd u"
    "\<forall>f \<in> set fs. tframe_ok f \<and> fkept c D f" "stored c D u"
  shows "good_stack c D T key (ns @ [nd], [])"
proof -
  have "stored c D' u \<and> (\<forall>f \<in> set fs. fkept c D' f)" if "grown c D D' T []" for D'
    using grown_stored [OF that, of u] grown_fkept [of c D D' fs u "[]"] nodes_plug(1) [of fs u] assms that by auto
  then show ?thesis unfolding good_stack_def using assms puts_simps(1) [of c]
    by (intro exI [of _ fs] exI [of _ ns] exI [of _ nd] exI [of _ u] exI [of _ "[]"]) auto
qed

lemma update_diverge:
  assumes c: "\<not> useNodePruning c" and fs: "\<forall>f \<in> set fs. tframe_ok f \<and> fkept c D f" "list_all2 (frame_node (hash c)) fs ns"
    and k: "parts_at m k r" "nibble_path k" "nibble_path r" "old_node c D k old nd"
    and T: "T = plug fs (tdiverge k old r v)" "small (hash c) T"
  shows "\<exists>x. diverge c v nd r = Inr x \<and> good_stack c D T (fpath fs @ r) (ns @ fst x, snd x)"
proof -
  let ?o = "old (drop (Suc m) k)" and ?l = "TLeaf (drop (Suc m) r) v"
  let ?gs = "(if m = 0 then [] else [FExt (take m k)]) @ [FBranch ((replicate 16 None)[k ! m := Some ?o]) (r ! m)]"
  have m: "m < length k" "m < length r" "k ! m \<noteq> r ! m" using k(1) unfolding parts_at_def by blast+
  have b: "k ! m < 16" "r ! m < 16" using k m by (simp_all add: hex_digits_nth)
  have okg: "\<forall>f \<in> set ?gs. tframe_ok f" using b by simp
  have pg: "plug ?gs ?l = tdiverge k old r v"
    using tdiverge_eq [OF k(1), of old v] m(1) by (cases "m = 0") (auto simp: rest_ext_def)
  then have TT: "T = plug (fs @ ?gs) ?l" using T(1) by simp
  have ok: "\<forall>f \<in> set (fs @ ?gs). tframe_ok f" using fs(1) okg by auto
  have oT: "set (nodes ?o) \<subseteq> set (nodes T)"
    unfolding TT by (rule nodes_plug(3) [OF ok, of "(replicate 16 None)[k ! m := Some ?o]" "r ! m" "k ! m"])
      (use m b in \<open>auto simp: child_update\<close>)
  then have so: "length (blob (hash c) ?o) < max_array" using T(2) by (auto simp: small_def nodes_def)
  note dv = diverge_ok [OF c k so]
  obtain ns2 ws where d: "diverge c v nd r = Inr (ns2 @ [LeafMPTNode (drop (Suc m) r) (IBytes v)], puts c ws)"
    "list_all2 (frame_node (hash c)) ?gs ns2" "set ws \<subseteq> {blob (hash c) ?o}"
    "32 \<le> length (blob (hash c) ?o) \<longrightarrow> blob (hash c) ?o \<in> set ws \<or> kept c D ?o" "stored c D ?o"
    using dv(1) by blast
  have "stored c D' ?l \<and> (\<forall>f \<in> set (fs @ ?gs). fkept c D' f)" if g: "grown c D D' T ws" for D'
  proof -
    have "kept c D' ?o" using d(4) g oT by (auto simp: grown_def kept_def nodes_def)
    moreover have "stored c D' ?o" using grown_stored [OF g oT d(5)] .
    ultimately have "fkept c D' (FBranch ((replicate 16 None)[k ! m := Some ?o]) (r ! m))" by (rule fkept_new_branch)
    then have "\<forall>f \<in> set ?gs. fkept c D' f" by (simp del: fkept.simps(2))
    moreover have "fkept c D' f" if "f \<in> set fs" for f
      using grown_fkept [of c D D' "fs @ ?gs" ?l ws f] g ok fs(1) that unfolding TT by (simp del: plug_simps)
    ultimately show ?thesis by (simp del: fkept.simps)
  qed
  moreover have "set ws \<subseteq> blob (hash c) ` set (nodes T)" using d(3) oT by (auto simp: nodes_def)
  ultimately have "good_stack c D T (fpath fs @ r) ((ns @ ns2) @ [LeafMPTNode (drop (Suc m) r) (IBytes v)], puts c ws)"
    unfolding good_stack_def
  proof (intro exI [of _ "fs @ ?gs"] exI [of _ "ns @ ns2"] exI [of _ "LeafMPTNode (drop (Suc m) r) (IBytes v)"] exI [of _ ?l] exI [of _ ws] conjI)
    show "fpath fs @ r = fpath (fs @ ?gs) @ node_key (LeafMPTNode (drop (Suc m) r) (IBytes v))" using dv(3) by simp
    show "list_all2 (frame_node (hash c)) (fs @ ?gs) (ns @ ns2)" by (rule list_all2_appendI [OF fs(2) d(2)])
    show "nrep (hash c) (LeafMPTNode (drop (Suc m) r) (IBytes v)) ?l" by (rule nrep_leaf)
  qed (use TT ok in blast)+
  with d(1) show ?thesis by (intro exI [of _ "(ns2 @ [LeafMPTNode (drop (Suc m) r) (IBytes v)], puts c ws)"]) simp
qed

lemma update_stack_ok:
  assumes p: "\<not> useNodePruning c" and w: "wf_tree n t" "length key = n" "tfind t key = (fs, b, r)" "stored c D t" "small (hash c) t"
    "small (hash c) (tinsert t key v)" and key: "nibble_path key"
  shows "\<exists>x. update_stack c key v (if tlookup b r = None then r else []) (map (dnode (hash c)) (spine fs b) @ [dnode (hash c) b]) = Inr x \<and>
    good_stack c D (tinsert t key v) key x"
proof -
  note ff = tfind_facts [OF w(1-3)] and fr = tfind_frames [OF w(1-4)]
  let ?ns = "map (dnode (hash c)) (spine fs b)"
  have fs: "\<forall>f \<in> set fs. tframe_ok f \<and> fkept c D f" "list_all2 (frame_node (hash c)) fs ?ns" and sb: "stored c D b" using fr by blast+
  have T: "tinsert t key v = plug fs (tinsert b r v)" by (rule ff(5))
  have nr: "nibble_path r" using key ff(2) by (metis hex_digits_simps(3))
  have smb: "small (hash c) b" using w(5) ff(1) nodes_plug(1) [of fs b] fs(1) by (auto simp: small_def)
  note upd = update_stack_def Let_def isMatchingLeafUpdate_def
  show ?thesis
  proof (cases b)
    case (TLeaf k u)
    have lk: "length k = length r" using ff(4) by (simp add: TLeaf dead_end_def)
    show ?thesis
    proof (cases "r = k")
      case True
      have "drop (length (fpath fs)) key = k" using ff(2) True by (metis append_eq_conv_conj)
      then have "update_stack c key v [] (?ns @ [dnode (hash c) b]) = Inr (?ns @ [LeafMPTNode k (IBytes v)], [])"
        using spine_lengths [OF fs(2)] by (simp add: upd TLeaf matching_full)
      moreover have "good_stack c D (tinsert t key v) key (?ns @ [LeafMPTNode k (IBytes v)], [])"
        by (rule good_stackI [OF _ _ fs(2) nrep_leaf fs(1)]) (use T ff(2) True in \<open>auto simp: TLeaf\<close>)
      ultimately show ?thesis by (simp add: TLeaf True)
    next
      case False
      then have "take (length k) r \<noteq> k" using lk by simp
      then have pa: "parts_at (matchingNibbleLength k r) k r" using lk by (intro parts_exist) simp_all
      have nk: "nibble_path k" using ff(3) by (simp add: TLeaf)
      have on: "old_node c D k (\<lambda>k'. TLeaf k' u) (dnode (hash c) b)" by (auto simp: old_node_def TLeaf)
      have TT: "tinsert t key v = plug fs (tdiverge k (\<lambda>k'. TLeaf k' u) r v)" using T False by (simp add: TLeaf)
      from update_diverge [OF p fs pa nk nr on TT w(6)] obtain x where x: "diverge c v (dnode (hash c) b) r = Inr x"
        "good_stack c D (tinsert t key v) key (?ns @ fst x, snd x)" using ff(2) by auto
      have "r \<noteq> []" using False lk by auto
      with x(1) have "update_stack c key v r (?ns @ [dnode (hash c) b]) = Inr (?ns @ fst x, snd x)"
        by (cases x) (simp add: upd TLeaf)
      with x(2) False show ?thesis by (simp add: TLeaf)
    qed
  next
    case (TExt k u)
    have np: "take (length k) r \<noteq> k" "k \<noteq> []" "length k \<le> length r" "nibble_path k" using ff(3,4) by (simp_all add: TExt dead_end_def)
    then have pa: "parts_at (matchingNibbleLength k r) k r" by (intro parts_exist)
    have on: "old_node c D k (rest_ext u) (dnode (hash c) b)" using sb smb by (auto simp: old_node_def TExt)
    have TT: "tinsert t key v = plug fs (tdiverge k (rest_ext u) r v)" using T np by (simp add: TExt)
    from update_diverge [OF p fs pa np(4) nr on TT w(6)] obtain x where x: "diverge c v (dnode (hash c) b) r = Inr x"
      "good_stack c D (tinsert t key v) key (?ns @ fst x, snd x)" using ff(2) by auto
    from x(1) have "update_stack c key v r (?ns @ [dnode (hash c) b]) = Inr (?ns @ fst x, snd x)"
      by (cases x) (simp add: upd TExt)
    with x(2) np show ?thesis by (simp add: TExt)
  next
    case (TBranch ts)
    then obtain i r' where r: "r = i # r'" "child ts i = None" using ff(4) by (cases r) (auto simp: dead_end_def)
    have l: "length ts = 16" "i < 16" using ff(3) nr by (simp_all add: TBranch r)
    have "update_stack c key v r (?ns @ [dnode (hash c) b]) = Inr ((?ns @ [dnode (hash c) b]) @ [LeafMPTNode r' (IBytes v)], [])"
      by (simp add: upd TBranch r)
    moreover have "good_stack c D (tinsert t key v) key ((?ns @ [dnode (hash c) b]) @ [LeafMPTNode r' (IBytes v)], [])"
    proof (rule good_stackI [where fs = "fs @ [FBranch ts i]" and u = "TLeaf r' v"])
      show "plug (fs @ [FBranch ts i]) (TLeaf r' v) = tinsert t key v" using T by (simp add: TBranch r)
      show "list_all2 (frame_node (hash c)) (fs @ [FBranch ts i]) (?ns @ [dnode (hash c) b])"
        using fs(2) frame_dnode(2) [of i ts "hash c" "ts ! i"] l by (simp add: TBranch list_all2_appendI del: frame_node.simps)
      have "fkept c D (FBranch ts i)" using sb stored_child child_set unfolding TBranch fkept.simps by blast
      then show "\<forall>f \<in> set (fs @ [FBranch ts i]). tframe_ok f \<and> fkept c D f" using fs(1) l by auto
    qed (use ff(2) r nrep_leaf in auto)
    ultimately show ?thesis by (simp add: TBranch r)
  qed
qed

lemma visited_kept:
  assumes "plain c S" "set ws \<subseteq> S" "blobs_in c S t"
  shows "grown c D (fold db_op (puts c ws) D) t ws"
  using assms holds_writes [OF assms(1,2), of _ D] by (auto simp: grown_def kept_def blobs_in_def)

lemma save_good_stack:
  assumes "plain c S" "lru_ok L E" "cdb_inv E (t_db s)" "cdb_view (t_db s) (getDbKey c (EMPTY_TRIE_ROOT c)) = None" "good_stack c (cdb_view (t_db s)) T key x"
    "wf_tree n T" "bounded T" "blobs_in c S T" "n < 2 ^ 32"
  shows "\<exists>s'. saveStack c L key (fst x) (snd x) s = (Inr (), s') \<and> trie_rep c E S n (Some T) s' \<and> same_saved s s'"
proof -
  let ?D = "cdb_view (t_db s)"
  obtain fs ns nd u ws where g: "x = (ns @ [nd], puts c ws)" "plug fs u = T" "key = fpath fs @ node_key nd"
     "list_all2 (frame_node (hash c)) fs ns" "nrep (hash c) nd u" "\<forall>f \<in> set fs. tframe_ok f"
     "set ws \<subseteq> blob (hash c) ` set (nodes T)" "\<forall>D'. grown c ?D D' T ws \<longrightarrow> stored c D' u \<and> (\<forall>f \<in> set fs. fkept c D' f)"
    using assms(5) unfolding good_stack_def by blast
  have ws: "set ws \<subseteq> S" "RLP_EMPTY_STRING \<notin> set ws" using g(7) assms(8) blob_not_empty_string [of "hash c"] by (auto simp: blobs_in_def) (metis imageE subsetD)
  have "grown c ?D (fold db_op (puts c ws) ?D) T ws" by (rule visited_kept [OF assms(1) ws(1) assms(8)])
  then show ?thesis
    using saveStack_ok [OF assms(1-4) g(4,5,6), of n ws key] assms(6-9) ws g by auto
qed

lemma first_blob:
  assumes "wf_tree n (TLeaf k v)"
  shows "blobs_in c S (TLeaf k v) \<longleftrightarrow> blob (hash c) (TLeaf k v) \<in> S"
  by (simp add: blobs_in_def nodes_def)

lemma createInitialNode_ok:
  assumes p: "plain c S" "lru_ok L E" "trie_rep c E S n None s" and k: "length (bytesToNibbles key) = n" "n < 2 ^ 32" "v \<noteq> []"
    and t: "t = TLeaf (bytesToNibbles key) v" "bounded t" "blobs_in c S t"
  shows "\<exists>s'. createInitialNode c L key v s = (Inr (), s') \<and> trie_rep c E S n (Some t) s' \<and> same_saved s s'"
proof -
  have inv: "cdb_inv E (t_db s)" "cdb_view (t_db s) (getDbKey c (EMPTY_TRIE_ROOT c)) = None" using p(3) by (simp_all add: trie_rep_def)
  have w: "wf_tree n t" using k by (simp add: t(1))
  let ?b = "blob (hash c) t"
  have "length ?b < max_array" using small_self [OF small_tree [OF _ k(2) w t(2)]] plainD(3) [OF p(1)] by blast
  then have ser: "serialize (LeafMPTNode (bytesToNibbles key) (IBytes v)) = Inr ?b"
    using rlp_encode_value(1) [of "IArr (raw (LeafMPTNode (bytesToNibbles key) (IBytes v)))" "traw (hash c) t"]
      nrep_leaf [of "hash c" "bytesToNibbles key" v] by (simp add: serialize_def nrep_def blob_def t(1))
  obtain d where d: "cdb_put L (getDbKey c (hash c ?b)) ?b (t_db s) = (Inr (), d)" "cdb_inv E d"
    "cdb_view d = (cdb_view (t_db s))(getDbKey c (hash c ?b) \<mapsto> ?b)" "cdb_saved d = cdb_saved (t_db s)"
    "map cp_root (checkpoints d) = map cp_root (checkpoints (t_db s))"
    using cdb_put_law [OF p(2) inv(1)] by blast
  let ?s = "s\<lparr>t_root := hash c ?b, t_db := d\<rparr>"
  have "createInitialNode c L key v s = (Inr (), ?s)"
    using ser d(1) plainD(2,3) [OF p(1)]
    by (simp add: createInitialNode_def set_root_def EMPTY_TRIE_ROOT_def on_db_def sq_def bnd_def persistRoot_def)
  moreover have "hash c ?b \<noteq> EMPTY_TRIE_ROOT c"
    using plainD(4,5) [OF p(1)] t(3) blob_not_empty_string [of "hash c" t] by (auto simp: EMPTY_TRIE_ROOT_def blobs_in_def nodes_def)
  moreover from this have "trie_rep c E S n (Some t) ?s" using d w t inv(2) by (simp add: trie_rep_def holds_def getDbKey_def)
  ultimately show ?thesis using d by (simp add: same_saved_def)
qed

lemma root_not_empty:
  assumes "plain c S" "trie_rep c E S n (Some t) s"
  shows "t_root s \<noteq> EMPTY_TRIE_ROOT c"
  using assms plainD(4,5) [OF assms(1)] blob_not_empty [of n t "hash c"]
  by (auto simp: trie_rep_def EMPTY_TRIE_ROOT_def blobs_in_def nodes_def)

definition put_key :: "trie_opts \<Rightarrow> bytes \<Rightarrow> bool \<Rightarrow> nibbles" where
  "put_key c key skip = bytesToNibbles (if skip then key else appliedKey c key)"

definition tput :: "tree option \<Rightarrow> nibbles \<Rightarrow> bytes \<Rightarrow> tree option" where
  "tput x key v = Some (case x of None \<Rightarrow> TLeaf key v | Some t \<Rightarrow> tinsert t key v)"

lemma trie_put_ok:
  assumes p: "plain c S" "lru_ok L E" and rep: "trie_rep c E S n x s" and k: "length (put_key c key skip) = n" "n < 2 ^ 32" "v \<noteq> []"
    and new: "tput x (put_key c key skip) v = Some t'" "bounded t'" "blobs_in c S t'"
  shows "\<exists>s'. trie_put c L key v skip s = (Inr (), s') \<and> trie_rep c E S n (Some t') s' \<and> same_saved s s'"
proof -
  let ?k = "if skip then key else appliedKey c key"
  have ps: "persistRoot c L s = (Inr (), s)" for s using plainD(2) [OF p(1)] by (simp add: persistRoot_def)
  show ?thesis
  proof (cases x)
    case None
    have inv: "cdb_inv E (t_db s)" "t_root s = EMPTY_TRIE_ROOT c" using rep None by (simp_all add: trie_rep_def)
    have t': "t' = TLeaf (bytesToNibbles ?k) v" using new(1) by (simp add: tput_def None put_key_def)
    obtain s' where "createInitialNode c L ?k v s = (Inr (), s')" "trie_rep c E S n (Some t') s'" "same_saved s s'"
      using createInitialNode_ok [OF p rep [unfolded None] _ k(2,3) t' new(2,3)] k(1) by (auto simp: put_key_def)
    then show ?thesis using inv(2) k(3) plainD(2) [OF p(1)] ps by (simp add: trie_put_def sq_def bnd_def)
  next
    case (Some t)
    have rep': "trie_rep c E S n (Some t) s" using rep Some by simp
    have wf: "wf_tree n t" using rep' by (simp add: trie_rep_def)
    have ln: "length (bytesToNibbles ?k) = n" using k(1) by (simp add: put_key_def)
    have t': "t' = tinsert t (bytesToNibbles ?k) v" using new(1) by (simp add: tput_def Some put_key_def)
    have wf': "wf_tree n t'" using tinsert_ok [OF wf ln bytesToNibbles_facts(1) k(3)] by (simp add: t')
    obtain fs b r where f: "tfind t (bytesToNibbles ?k) = (fs, b, r)" by (cases "tfind t (bytesToNibbles ?k)")
    obtain s1 where s1: "findPath c L ?k True s = (Inr (walk_result (hash c) fs b r []), s1)" "quiet E s s1"
      using findPath_ok [OF p rep' ln k(2) f] by blast
    have rep1: "trie_rep c E S n (Some t) s1" "same_saved s s1" using quiet_rep [OF s1(2) rep'] by blast+
    have st: "stored c (cdb_view (t_db s1)) t" "cdb_inv E (t_db s1)" "cdb_view (t_db s1) (getDbKey c (EMPTY_TRIE_ROOT c)) = None" using rep1 by (simp_all add: trie_rep_def)
    have sm: "small (hash c) t" "small (hash c) (tinsert t (bytesToNibbles ?k) v)"
      using trie_rep_small [OF p(1) rep' k(2)] small_tree [of "hash c", OF plainD(3) [OF p(1)] k(2) wf' new(2)] by (simp_all add: t')
    obtain y where y: "update_stack c (bytesToNibbles ?k) v (if tlookup b r = None then r else []) (map (dnode (hash c)) (spine fs b) @ [dnode (hash c) b]) = Inr y"
      "good_stack c (cdb_view (t_db s1)) t' (bytesToNibbles ?k) y"
      using update_stack_ok [OF plainD(1) [OF p(1)] wf ln f st(1) sm bytesToNibbles_facts(1)] by (auto simp: t')
    obtain s2 where s2: "saveStack c L (bytesToNibbles ?k) (fst y) (snd y) s1 = (Inr (), s2)" "trie_rep c E S n (Some t') s2" "same_saved s1 s2"
      using save_good_stack [OF p st(2,3) y(2) wf' new(2,3) k(2)] by blast
    obtain node remaining stack where wr: "walk_result (hash c) fs b r [] = (node, remaining, stack)"
      by (cases "walk_result (hash c) fs b r []")
    have "remaining = (if tlookup b r = None then r else [])" "stack = map (dnode (hash c)) (spine fs b) @ [dnode (hash c) b]"
      using wr by (auto simp: walk_result_def Let_def split: if_splits)
    with y(1) s2(1) have upd: "updateNode c L ?k v remaining stack s1 = (Inr (), s2)"
      by (cases y) (simp add: updateNode_def bnd_def)
    have "trie_put c L key v skip s = (Inr (), s2)"
      using s1(1) wr upd k(3) plainD(1,2) [OF p(1)] root_not_empty [OF p(1) rep'] ps
      by (simp add: trie_put_def sq_def bnd_def Let_def)
    with s2 same_saved_trans [OF rep1(2) s2(3)] show ?thesis by blast
  qed
qed

end
