(* ===== verification/TrieDelete.thy ===== *)
theory TrieDelete
  imports TrieOps
begin

text \<open>
  Deletion: \<^verbatim>\<open>_deleteNode\<close> takes the leaf out of its branch, merges what remains of the branch with
  the nodes around it, and saves the path; this computes \<open>tdelete\<close>.
\<close>

section \<open>Rebuilding the path\<close>

fun dplug1 :: "tframe \<Rightarrow> tree \<Rightarrow> tree" where
  "dplug1 (FExt k) t = mk_ext k t"
| "dplug1 (FBranch ts i) t = TBranch (ts[i := Some t])"

definition dplug :: "tframe list \<Rightarrow> tree \<Rightarrow> tree" where
  "dplug fs t = foldr dplug1 fs t"

lemma dplug_simps [simp]: "dplug [] t = t" "dplug (f # fs) t = dplug1 f (dplug fs t)" "dplug (fs @ gs) t = dplug fs (dplug gs t)"
  by (simp_all add: dplug_def)

text \<open>No extension follows an extension.\<close>

fun alternate :: "tframe list \<Rightarrow> bool" where
  "alternate (FExt k # FExt k' # fs) = False"
| "alternate (f # fs) = alternate fs"
| "alternate [] = True"

lemma alternate_Cons: "alternate (f # fs) \<longleftrightarrow> alternate fs \<and> (\<forall>k k' gs. f = FExt k \<longrightarrow> fs \<noteq> FExt k' # gs)"
  by (cases "f # fs" rule: alternate.cases) auto

lemma dplug_plain:
  assumes "alternate fs" "fs \<noteq> [] \<Longrightarrow> is_tbranch t \<or> (\<exists>ts i. last fs = FBranch ts i)"
  shows "dplug fs t = plug fs t"
  using assms
proof (induction fs)
  case (Cons f fs)
  have ih: "dplug fs t = plug fs t" using Cons by (cases "fs = []") (auto simp: alternate_Cons)
  show ?case
  proof (cases f)
    case (FExt k)
    have "is_tbranch (plug fs t)"
    proof (cases fs)
      case Nil
      then show ?thesis using Cons.prems(2) FExt by auto
    next
      case (Cons g gs)
      then show ?thesis using Cons.prems(1) FExt by (cases g) auto
    qed
    then show ?thesis using ih FExt by (cases "plug fs t") auto
  qed (simp add: ih)
qed simp

lemma alternate_last:
  assumes "alternate (fs @ [FExt k])" "fs \<noteq> []"
  shows "\<exists>ts i. last fs = FBranch ts i"
  using assms
proof (induction fs)
  case (Cons f fs)
  show ?case
  proof (cases fs)
    case Nil
    then show ?thesis using Cons.prems by (cases f) auto
  next
    case (Cons g gs)
    then show ?thesis using Cons.IH Cons.prems by (simp add: alternate_Cons)
  qed
qed simp

lemma alternate_front: "alternate (fs @ gs) \<Longrightarrow> alternate fs"
proof (induction fs)
  case (Cons f fs)
  then show ?case by (cases fs) (auto simp: alternate_Cons)
qed simp

lemma dplug_ext: "alternate (fs @ [FExt k]) \<Longrightarrow> dplug (fs @ [FExt k]) t = plug fs (mk_ext k t)"
  using dplug_plain [of fs "mk_ext k t"] alternate_last alternate_front by simp

text \<open>What deletion makes of the tree, by the path that leads to the leaf.\<close>

lemma tfind_branch: "tfind (TBranch ts) key = ([], TLeaf k v, r) \<Longrightarrow> False"
  by (cases key) (auto split: option.splits prod.splits)

lemma tdelete_found:
  assumes "wf_tree n t" "length key = n" "tfind t key = (fs, TLeaf k v, k)"
  shows "alternate fs \<and> (fs = [] \<and> tdelete t key = None \<or>
    (\<exists>gs ts i. fs = gs @ [FBranch ts i] \<and> child ts i = Some (TLeaf k v) \<and> (\<exists>m. wf_tree m (TBranch ts)) \<and> tdelete t key = Some (dplug gs (tshrink (ts[i := None])))))"
  using assms
proof (induction t key arbitrary: n fs rule: tfind.induct)
  case (2 k' t key)
  have True: "take (length k') key = k'" using 2(4) by (auto split: if_splits)
  then obtain hs where h: "tfind t (drop (length k') key) = (hs, TLeaf k v, k)" "fs = FExt k' # hs" using 2(4) by (auto split: prod.splits)
  obtain us where us: "t = TBranch us" using 2(2) by (cases t) auto
  have "hs \<noteq> []" using h(1) tfind_branch us by blast
  moreover have "alternate fs"
  proof -
    have "\<exists>j gs. hs = FBranch us j # gs" using h(1) \<open>hs \<noteq> []\<close> us by (cases "drop (length k') key") (auto split: option.splits prod.splits)
    moreover have "alternate hs" using 2(1) [OF True _ _ h(1), of "n - length k'"] 2(2,3) by auto
    ultimately show ?thesis by (auto simp: h(2))
  qed
  ultimately show ?case using 2(1) [OF True _ _ h(1), of "n - length k'"] 2(2,3) True by (fastforce simp: h(2))
next
  case (4 us j key)
  obtain t where t: "child us j = Some t" using 4(4) by (auto split: option.splits)
  then obtain hs where h: "tfind t key = (hs, TLeaf k v, k)" "fs = FBranch us j # hs" using 4(4) by (auto split: prod.splits)
  have w: "wf_tree (n - 1) t" "length key = n - 1" using wf_child [OF 4(2) t] 4(3) by auto
  note ih = 4(1) [OF t w h(1)]
  have al: "alternate fs" using ih by (cases hs) (auto simp: h(2))
  show ?case
  proof (cases "hs = []")
    case True
    then have "t = TLeaf k v" using tfind_facts(1) [OF w h(1)] by simp
    with True ih t al 4(2) show ?thesis by (auto simp: h(2) simp del: wf_tree.simps)
  next
    case False
    with ih obtain gs ts i where g: "hs = gs @ [FBranch ts i]" "child ts i = Some (TLeaf k v)" "\<exists>m. wf_tree m (TBranch ts)"
      "tdelete t key = Some (dplug gs (tshrink (ts[i := None])))" by blast
    then have "fs = (FBranch us j # gs) @ [FBranch ts i]" "tdelete (TBranch us) (j # key) = Some (dplug (FBranch us j # gs) (tshrink (ts[i := None])))"
      using t by (simp_all add: h(2))
    with g(2,3) al show ?thesis by blast
  qed
qed (auto split: option.splits)

lemma tdelete_absent:
  assumes "wf_tree n t" "length key = n" "tlookup t key = None"
  shows "tdelete t key = Some t"
proof (cases "tdelete t key")
  case None
  then have "\<forall>q. q \<noteq> key \<longrightarrow> tlookup t q = None" using tdelete_ok [OF assms(1,2)] by simp
  then have "\<forall>q. tlookup t q = None" using assms(3) by metis
  with wf_nonempty [OF assms(1)] show ?thesis by auto
next
  case (Some t')
  then have "wf_tree n t'" "\<forall>q. tlookup t' q = (if q = key then None else tlookup t q)" using tdelete_ok [OF assms(1,2)] by auto
  then have "t' = t" using assms by (intro wf_tree_unique) auto
  with Some show ?thesis by simp
qed

section \<open>Taking a child out\<close>

lemma child_list_filter: "child_list ts = filter (\<lambda>i. child ts i \<noteq> None) [0..<length ts]"
  by (auto simp: child_list_def child_def intro!: filter_cong)

lemma getChildren_tree:
  assumes "length bs = 16" "length ts = 16" "\<And>i. i < 16 \<Longrightarrow> present (bs ! i) \<longleftrightarrow> child ts i \<noteq> None"
  shows "getChildren (BranchMPTNode bs v) = map (\<lambda>i. (i, bs ! i)) (child_list ts)"
proof -
  have "zip [0..<16] bs = map (\<lambda>i. (i, bs ! i)) [0..<16]" using assms(1) by (intro nth_equalityI) simp_all
  then have "getChildren (BranchMPTNode bs v) = map (\<lambda>i. (i, bs ! i)) (filter (\<lambda>i. present (bs ! i)) [0..<16])"
    by (simp add: filter_map comp_def)
  also have "filter (\<lambda>i. present (bs ! i)) [0..<16] = filter (\<lambda>i. child ts i \<noteq> None) [0..<16]"
    by (rule filter_cong) (simp_all add: assms(3))
  finally show ?thesis by (simp add: child_list_filter assms(2))
qed

lemma present_tref: "(\<And>x. length (H x) = 32) \<Longrightarrow> present (rlp_embed (tref H t))"
  by (cases t) (auto simp: tref_cases present_def simp flip: length_0_conv)

text \<open>A node with a longer key.\<close>

lemma nrep_prepend: "\<not> is_tbranch u \<Longrightarrow> nrep H (set_key (k @ node_key (dnode H u)) (dnode H u)) (mk_ext k u) \<and>
    node_key (set_key (k @ node_key (dnode H u)) (dnode H u)) = k @ node_key (dnode H u)"
  by (cases u) (simp_all add: nrep_leaf nrep_ext)

lemma mk_ext_twice: "mk_ext k (mk_ext l t) = mk_ext (k @ l) t"
  by (cases t) simp_all

lemma is_branch_dnode [simp]: "is_branch (dnode H t) = is_tbranch t"
  by (cases t) simp_all

lemma stored_prepend: "\<not> is_tbranch u \<Longrightarrow> stored c D u \<Longrightarrow> stored c D (mk_ext k u)"
  by (cases u) simp_all

text \<open>The stack after the only child has taken the place of its branch.\<close>

lemma collapse_ok:
  assumes fr: "\<forall>f \<in> set gs. tframe_ok f \<and> fkept c D f" "list_all2 (frame_node (hash c)) gs ns" "alternate gs"
    and u: "kept c D u" "stored c D u" and pop: "pop_node ns = (parent, stack)"
  shows "\<exists>stack' path'. collapse (fpath gs) i (dnode (hash c) u) parent stack = (stack', path') \<and>
    good_stack c D (dplug gs (mk_ext [i] u)) path' (stack', [])"
proof -
  let ?nd = "dnode (hash c) u"
  let ?T = "dplug gs (mk_ext [i] u)"
  consider (ext) hs k where "gs = hs @ [FExt k]" | (other) "gs = [] \<or> (\<exists>ts j. last gs = FBranch ts j)"
    by (cases gs rule: rev_cases) (auto, metis tframe.exhaust)
  then show ?thesis
  proof cases
    case ext
    then obtain ms n where ns: "ns = ms @ [n]" "list_all2 (frame_node (hash c)) hs ms" "frame_node (hash c) (FExt k) n"
      using fr(2) by (auto simp: list_all2_append1 list_all2_Cons1)
    then obtain v where v: "n = ExtensionMPTNode k v" by auto
    have p: "parent = Some (ExtensionMPTNode k v)" "stack = ms" using pop by (auto simp: pop_node_def ns(1) v)
    have T: "?T = plug hs (mk_ext (k @ [i]) u)" using dplug_ext [of hs k "mk_ext [i] u"] fr(3) ext by (simp add: mk_ext_twice)
    show ?thesis
    proof (cases "is_tbranch u")
      case True
      then have "mk_ext (k @ [i]) u = TExt (k @ [i]) u" by (cases u) simp_all
      moreover have "node_key ?nd = []" using True by (cases u) simp_all
      ultimately have "good_stack c D ?T (fpath gs @ [i]) ((ms @ [ExtensionMPTNode (k @ [i]) v]) @ [?nd], [])"
        by (intro good_stackI [where fs = "hs @ [FExt (k @ [i])]" and u = u])
          (use fr(1) ns(2) u T ext nrep_dnode in \<open>auto intro!: list_all2_appendI\<close>)
      with True show ?thesis by (simp add: collapse_def p)
    next
      case False
      have "good_stack c D ?T (fpath gs @ i # node_key ?nd) (ms @ [set_key ((k @ [i]) @ node_key ?nd) ?nd], [])"
        by (rule good_stackI [where fs = hs and u = "mk_ext (k @ [i]) u"])
          (use fr(1) ns(2) u T ext nrep_prepend [OF False, of "hash c" "k @ [i]"] stored_prepend [OF False] in auto)
      with False show ?thesis by (simp add: collapse_def p)
    qed
  next
    case other
    have T: "?T = plug gs (mk_ext [i] u)" using other by (intro dplug_plain [OF fr(3)]) auto
    have "\<not> (\<exists>k v. parent = Some (ExtensionMPTNode k v))"
    proof (cases gs rule: rev_cases)
      case Nil
      then show ?thesis using pop fr(2) by (auto simp: pop_node_def)
    next
      case (snoc hs f)
      then obtain ts j where f: "f = FBranch ts j" using other by auto
      then obtain ms n where "ns = ms @ [n]" "frame_node (hash c) f n" using fr(2) snoc by (auto simp: list_all2_append1 list_all2_Cons1)
      then show ?thesis using pop f by (auto simp: pop_node_def)
    qed
    then have co: "collapse (fpath gs) i ?nd parent stack = (let stack' = stack @ (case parent of Some p \<Rightarrow> [p] | None \<Rightarrow> [])
        in if is_branch ?nd then (stack' @ [ExtensionMPTNode [i] (IBytes []), ?nd], fpath gs @ [i])
           else (stack' @ [set_key (i # node_key ?nd) ?nd], fpath gs @ i # node_key ?nd))"
      by (auto simp: collapse_def split: option.split mpt_node.split)
    have st: "stack @ (case parent of Some p \<Rightarrow> [p] | None \<Rightarrow> []) = ns" using pop by (auto simp: pop_node_def split: if_splits)
    show ?thesis
    proof (cases "is_tbranch u")
      case True
      then have "mk_ext [i] u = TExt [i] u" by (cases u) simp_all
      moreover have "node_key ?nd = []" using True by (cases u) simp_all
      ultimately have "good_stack c D ?T (fpath gs @ [i]) ((ns @ [ExtensionMPTNode [i] (IBytes [])]) @ [?nd], [])"
        by (intro good_stackI [where fs = "gs @ [FExt [i]]" and u = u])
          (use fr u T nrep_dnode in \<open>auto intro!: list_all2_appendI\<close>)
      with True show ?thesis by (simp add: co st)
    next
      case False
      have "good_stack c D ?T (fpath gs @ i # node_key ?nd) (ns @ [set_key ([i] @ node_key ?nd) ?nd], [])"
        by (rule good_stackI [where fs = gs and u = "mk_ext [i] u"])
          (use fr u T nrep_prepend [OF False, of "hash c" "[i]"] stored_prepend [OF False] in auto)
      with False show ?thesis by (simp add: co st)
    qed
  qed
qed

lemma remove_child_ok:
  assumes p: "plain c S" "lru_ok L E" "cdb_inv E (t_db s)" "cdb_view (t_db s) (getDbKey c (EMPTY_TRIE_ROOT c)) = None"
    and fr: "\<forall>f \<in> set gs. tframe_ok f \<and> fkept c (cdb_view (t_db s)) f" "list_all2 (frame_node (hash c)) gs ns" "alternate gs"
    and ts: "nrep (hash c) (BranchMPTNode bs v) (TBranch ts)" "length ts = 16"
      "\<And>i. i < 16 \<Longrightarrow> present (bs ! i) \<longleftrightarrow> child ts i \<noteq> None"
      "\<And>i u. child ts i = Some u \<Longrightarrow> bs ! i = rlp_embed (tref (hash c) u) \<and> kept c (cdb_view (t_db s)) u \<and> stored c (cdb_view (t_db s)) u \<and>
         wf_tree m u \<and> small (hash c) u"
    and T: "T = dplug gs (tshrink ts)" "wf_tree n T" "bounded T" "blobs_in c S T" "n < 2 ^ 32"
    and pop: "pop_node ns = (parent, stack)"
  shows "\<exists>s'. remove_child c L (fpath gs) (BranchMPTNode bs v) parent stack [] s = (Inr (), s') \<and> trie_rep c E S n (Some T) s' \<and> same_saved s s'"
proof -
  let ?D = "cdb_view (t_db s)" and ?br = "BranchMPTNode bs v"
  have "length bs = 16" using ts(1,2) by (simp add: nrep_branch)
  note gc = getChildren_tree [OF this ts(2,3), of v]
  have stack: "stack @ (case parent of Some p \<Rightarrow> [p] | None \<Rightarrow> []) = ns" using pop by (auto simp: pop_node_def split: if_splits)
  have stts: "stored c ?D (TBranch ts)" using ts(4) set_child [of _ ts] by (auto simp: stored_def nodes_def) blast+
  show ?thesis
  proof (cases "\<exists>i. child_list ts = [i]")
    case True
    then obtain i where i: "child_list ts = [i]" by blast
    then have "i \<in> children ts" using child_list_facts(1) [of ts] by auto
    then obtain u where u: "child ts i = Some u" by (auto simp: children_iff)
    then have "the (ts ! i) = u" by (auto simp: child_def split: if_splits)
    then have T1: "T = dplug gs (mk_ext [i] u)" using T(1) i by (simp add: tshrink_def)
    note cu = ts(4) [OF u]
    obtain s1 where s1: "lookupNode c L (bs ! i) s = (Inr (dnode (hash c) u), s1)" "quiet E s s1"
      using lookup_refers [OF p(2,3), of m u c "bs ! i"] cu refers_tref by auto
    have in1: "cdb_inv E (t_db s1)" "cdb_view (t_db s1) = ?D" using quiet_facts [OF s1(2)] by auto
    obtain stack' path' where co: "collapse (fpath gs) i (dnode (hash c) u) parent stack = (stack', path')"
      "good_stack c ?D T path' (stack', [])"
      using collapse_ok [OF fr _ _ pop, of u i] cu T1 by blast
    have notleaf: "\<not> (case parent of Some (LeafMPTNode _ _) \<Rightarrow> True | _ \<Rightarrow> False)"
    proof (cases gs rule: rev_cases)
      case Nil
      then show ?thesis using pop fr(2) by (auto simp: pop_node_def)
    next
      case (snoc hs f)
      then obtain ms nn where "ns = ms @ [nn]" "frame_node (hash c) f nn" using fr(2) by (auto simp: list_all2_append1 list_all2_Cons1)
      then show ?thesis using pop by (cases f) (auto simp: pop_node_def)
    qed
    obtain s2 where "saveStack c L path' stack' [] s1 = (Inr (), s2)" "trie_rep c E S n (Some T) s2" "same_saved s1 s2"
      using save_good_stack [OF p(1,2) in1(1) _ _ T(2-5), of path' "(stack', [])"] co(2) in1(2) p(4) by auto
    moreover have "same_saved s s1" using s1(2) by (simp add: quiet_def same_saved_def)
    ultimately show ?thesis
      using s1(1) co(1) notleaf plainD(1) [OF p(1)] same_saved_trans [of s s1 s2] by (simp add: remove_child_def gc i bnd_def del: getChildren.simps)
  next
    case False
    then have T1: "T = plug gs (TBranch ts)" using T(1) dplug_plain [OF fr(3), of "TBranch ts"] by (auto simp: tshrink_def split: list.splits)
    have "good_stack c ?D T (fpath gs) (ns @ [?br], [])"
      by (rule good_stackI [where fs = gs and u = "TBranch ts"]) (use T1 fr ts(1) stts in auto)
    then have "\<exists>s'. saveStack c L (fpath gs) (ns @ [?br]) [] s = (Inr (), s') \<and> trie_rep c E S n (Some T) s' \<and> same_saved s s'"
      using save_good_stack [OF p _ T(2-5), of "fpath gs" "(ns @ [?br], [])"] by simp
    moreover have "remove_child c L (fpath gs) ?br parent stack [] = saveStack c L (fpath gs) (stack @ (case parent of Some p \<Rightarrow> [p] | None \<Rightarrow> []) @ [?br]) []"
      using False by (auto simp: remove_child_def gc simp del: getChildren.simps split: list.splits)
    ultimately show ?thesis by (simp flip: append_assoc add: stack)
  qed
qed

section \<open>Deleting a key\<close>

lemma pop_snoc: "pop_node (xs @ [x]) = (Some x, xs)" "pop_node [x] = (Some x, [])" "pop_node [] = (None, [])"
  by (simp_all add: pop_node_def)

definition tdel :: "tree option \<Rightarrow> nibbles \<Rightarrow> tree option" where
  "tdel x key = (case x of None \<Rightarrow> None | Some t \<Rightarrow> tdelete t key)"

lemma deleteNode_ok:
  assumes p: "plain c S" "lru_ok L E" and rep: "trie_rep c E S n (Some t) s" and k: "length (bytesToNibbles key) = n" "n < 2 ^ 32"
    and f: "tfind t (bytesToNibbles key) = (fs, TLeaf k v, k)"
    and new: "\<And>t'. tdelete t (bytesToNibbles key) = Some t' \<Longrightarrow> bounded t' \<and> blobs_in c S t'"
  shows "\<exists>s'. deleteNode c L key (map (dnode (hash c)) (spine fs (TLeaf k v)) @ [LeafMPTNode k (IBytes v)]) s = (Inr (), s') \<and>
    trie_rep c E S n (tdelete t (bytesToNibbles key)) s' \<and> same_saved s s'"
proof -
  let ?key = "bytesToNibbles key" and ?l = "TLeaf k v" and ?D = "cdb_view (t_db s)" and ?nd = "LeafMPTNode k (IBytes v)"
  have wf: "wf_tree n t" and st: "stored c ?D t" and inv: "cdb_inv E (t_db s)" "?D (getDbKey c (EMPTY_TRIE_ROOT c)) = None"
    using rep by (simp_all add: trie_rep_def)
  note ff = tfind_facts [OF wf k(1) f] and fr = tfind_frames [OF wf k(1) f st]
  note td = tdelete_found [OF wf k(1) f]
  show ?thesis
  proof (cases "fs = []")
    case True
    with td have "tdelete t ?key = None" by auto
    moreover have "set_root c (EMPTY_TRIE_ROOT c) s = (Inr (), s\<lparr>t_root := EMPTY_TRIE_ROOT c\<rparr>)" by (simp add: set_root_def)
    ultimately show ?thesis using True inv by (simp add: deleteNode_def pop_node_def trie_rep_def same_saved_def)
  next
    case False
    then obtain gs ts i m where g: "fs = gs @ [FBranch ts i]" "child ts i = Some ?l" "wf_tree m (TBranch ts)"
      "tdelete t ?key = Some (dplug gs (tshrink (ts[i := None])))"
      using td by blast
    let ?ts = "ts[i := None]"
    let ?T = "dplug gs (tshrink ?ts)" and ?ns = "map (dnode (hash c)) (spine gs (TBranch ts))"
    have sp: "spine (hs @ hs') b = spine hs (plug hs' b) @ spine hs' b" for hs hs' b by (induction hs) simp_all
    have pl: "plug gs (TBranch ts) = t" using ff(1) child_same [OF g(2)] by (simp add: g(1))
    have stack: "map (dnode (hash c)) (spine fs ?l) = ?ns @ [dnode (hash c) (TBranch ts)]"
      using child_same [OF g(2)] by (simp add: g(1) sp)
    have i: "i < length ts" "length ts = 16" using g(2,3) by (auto simp: child_def split: if_splits)
    have frg: "\<forall>f \<in> set gs. tframe_ok f \<and> fkept c ?D f" "list_all2 (frame_node (hash c)) gs ?ns"
    proof -
      have "list_all2 (frame_node (hash c)) (gs @ [FBranch ts i]) (?ns @ [dnode (hash c) (TBranch ts)])"
        using fr [THEN conjunct2, THEN conjunct2, THEN conjunct2] unfolding stack by (simp add: g(1) del: frame_node.simps)
      then show "list_all2 (frame_node (hash c)) gs ?ns"
        by (auto simp: list_all2_append1 list_all2_Cons1 simp del: frame_node.simps)
    qed (use fr in \<open>simp add: g(1)\<close>)
    have sib: "kept c ?D u \<and> stored c ?D u \<and> wf_tree (m - 1) u \<and> small (hash c) u" if u: "child ts j = Some u" "j \<noteq> i" for j u
    proof -
      have "wf_tree (m - 1) u" using wf_child [OF g(3) u(1)] .
      moreover have "small (hash c) (TBranch ts)"
        using trie_rep_small [OF p(1) rep k(2)] nodes_plug(1) [of gs "TBranch ts"] frg(1) pl by (auto simp: small_def)
      then have "small (hash c) u" using small_child child_set [OF u(1)] by blast
      moreover have "kept c ?D u \<and> stored c ?D u" using fr u by (auto simp: g(1))
      ultimately show ?thesis by blast
    qed
    let ?bs = "(map (\<lambda>x. rlp_embed (oref (hash c) x)) ts)[i := INull]"
    have key: "?key = fpath gs @ i # k" using ff(2) by (simp add: g(1))
    have fmt: "\<exists>x. formatNode c ?nd False True = Inr (x, [])"
    proof -
      have "small (hash c) ?l" using trie_rep_small [OF p(1) rep k(2)] nodes_plug(1) [of fs ?l] fr ff(1) by (auto simp: small_def)
      then have "serialize ?nd = Inr (blob (hash c) ?l)"
        using rlp_encode_value(1) [of "IArr (raw ?nd)" "traw (hash c) ?l"] nrep_leaf [of "hash c" k v] small_self [of "hash c" ?l]
        by (simp add: serialize_def nrep_def blob_def)
      then show ?thesis using plainD(1) [OF p(1)] by (simp add: formatNode_def Let_def)
    qed
    have run: "deleteNode c L key (map (dnode (hash c)) (spine fs ?l) @ [?nd]) =
        (case pop_node ?ns of (grand, stack3) \<Rightarrow> remove_child c L (fpath gs) (BranchMPTNode ?bs (IBytes [])) grand stack3 [])"
      using fmt pop_snoc(1) [of "?ns @ [dnode (hash c) (TBranch ts)]" ?nd]
      by (auto simp: deleteNode_def stack key splice_last_def bnd_def fun_eq_iff pop_snoc)
    have new': "bounded ?T" "blobs_in c S ?T" using new [OF g(4)] by auto
    have wT: "wf_tree n ?T" using tdelete_ok [OF wf k(1)] g(4) by simp
    obtain grand stack3 where pop: "pop_node ?ns = (grand, stack3)" by (cases "pop_node ?ns")
    have "\<exists>s'. remove_child c L (fpath gs) (BranchMPTNode ?bs (IBytes [])) grand stack3 [] s = (Inr (), s') \<and> trie_rep c E S n (Some ?T) s' \<and> same_saved s s'"
    proof (rule remove_child_ok [OF p inv frg _ _ _ _ _ refl wT new' k(2) pop, where m = "m - 1"])
      show "alternate gs" using td alternate_front [of gs "[FBranch ts i]"] by (simp only: g(1))
      show "nrep (hash c) (BranchMPTNode ?bs (IBytes [])) (TBranch ?ts)"
        unfolding nrep_branch
      proof (intro conjI allI impI)
        fix j assume "j < length ?ts"
        then show "rlp_value (?bs ! j) = Inr (oref (hash c) (?ts ! j))" by (cases "j = i") (simp_all add: oref_def)
      qed simp_all
      show "length ?ts = 16" by (simp add: i)
      show "present (?bs ! j) \<longleftrightarrow> child ?ts j \<noteq> None" if "j < 16" for j
        using that i present_tref [of "hash c", OF plainD(3) [OF p(1)]]
        by (cases "ts ! j") (auto simp: nth_list_update child_def oref_def present_def)
      show "?bs ! j = rlp_embed (tref (hash c) u) \<and> kept c ?D u \<and> stored c ?D u \<and> wf_tree (m - 1) u \<and> small (hash c) u"
        if u: "child ?ts j = Some u" for j u
      proof -
        have j: "j \<noteq> i" "child ts j = Some u" using u i by (auto simp: child_update split: if_splits)
        then have "j < length ts" "ts ! j = Some u" by (auto simp: child_def split: if_splits)
        with sib [OF j(2,1)] j show ?thesis by (simp add: oref_def)
      qed
    qed
    then show ?thesis using run pop g(4) by simp
  qed
qed

lemma trie_del_ok:
  assumes p: "plain c S" "lru_ok L E" and rep: "trie_rep c E S n x s" and k: "length (put_key c key skip) = n" "n < 2 ^ 32"
    and new: "\<And>t'. tdel x (put_key c key skip) = Some t' \<Longrightarrow> bounded t' \<and> blobs_in c S t'"
  shows "\<exists>s'. trie_del c L key skip s = (Inr (), s') \<and> trie_rep c E S n (tdel x (put_key c key skip)) s' \<and> same_saved s s'"
proof -
  let ?k = "if skip then key else appliedKey c key"
  have pk: "put_key c key skip = bytesToNibbles ?k" by (simp add: put_key_def)
  have run: "trie_del c L key skip s = (case findPath c L ?k False s of (Inl e, s') \<Rightarrow> (Inl e, s')
      | (Inr (node, _, stack), s') \<Rightarrow> if node = None then (Inr (), s') else deleteNode c L ?k stack s')"
    using plainD(1,2) [OF p(1)] by (auto simp: trie_del_def bnd_def sq_def persistRoot_def Let_def split: prod.splits sum.splits)
  show ?thesis
  proof (cases x)
    case None
    have inv: "cdb_inv E (t_db s)" "t_root s = EMPTY_TRIE_ROOT c" "cdb_view (t_db s) (getDbKey c (EMPTY_TRIE_ROOT c)) = None"
      using rep by (simp_all add: trie_rep_def None)
    obtain d where "cdb_get L (getDbKey c (EMPTY_TRIE_ROOT c)) (t_db s) = (Inr None, d)" "cdb_inv E d" "cdb_view d = cdb_view (t_db s)"
      "cdb_saved d = cdb_saved (t_db s)" "map cp_root (checkpoints d) = map cp_root (checkpoints (t_db s))"
      using cdb_get_law [OF p(2) inv(1), of "getDbKey c (EMPTY_TRIE_ROOT c)"] inv(3) by auto
    then show ?thesis using inv None
      by (simp add: run findPath_def lookupNode_def bnd_def on_db_def throw_def tdel_def trie_rep_def same_saved_def)
  next
    case (Some t)
    have rep': "trie_rep c E S n (Some t) s" using rep Some by simp
    then have wf: "wf_tree n t" by (simp add: trie_rep_def)
    have ln: "length (bytesToNibbles ?k) = n" using k(1) by (simp add: put_key_def)
    obtain fs b r where f: "tfind t (bytesToNibbles ?k) = (fs, b, r)" by (cases "tfind t (bytesToNibbles ?k)")
    note ff = tfind_facts [OF wf ln f]
    obtain s1 where s1: "findPath c L ?k False s = (Inr (walk_result (hash c) fs b r []), s1)" "quiet E s s1"
      using findPath_ok [OF p rep' ln k(2) f] by blast
    have rep1: "trie_rep c E S n (Some t) s1" "same_saved s s1" using quiet_rep [OF s1(2) rep'] by blast+
    show ?thesis
    proof (cases "tlookup b r")
      case None
      then have "tdel x (put_key c key skip) = Some t" using tdelete_absent [OF wf ln] ff(6) by (simp add: tdel_def Some pk)
      with s1(1) rep1 None show ?thesis by (simp add: run walk_result_def)
    next
      case (Some w)
      then obtain v where b: "b = TLeaf r v" using ff(4) by (cases b; cases r) (auto simp: dead_end_def split: if_splits)
      have d: "tdelete t (bytesToNibbles ?k) = tdel x (put_key c key skip)" by (simp add: tdel_def \<open>x = Some t\<close> pk)
      from deleteNode_ok [OF p rep1(1) ln k(2) f [unfolded b]] new
      obtain s2 where "deleteNode c L ?k (map (dnode (hash c)) (spine fs (TLeaf r v)) @ [LeafMPTNode r (IBytes v)]) s1 = (Inr (), s2)"
        "trie_rep c E S n (tdel x (put_key c key skip)) s2" "same_saved s1 s2" by (auto simp: d)
      then show ?thesis using s1(1) same_saved_trans [OF rep1(2)] by (auto simp: run walk_result_def b)
    qed
  qed
qed

end
