(* ===== verification/TrieMap.thy ===== *)
theory TrieMap
  imports TrieDelete
begin

text \<open>
  The trie as a map: a sequence of operations with checkpoints, commits and reverts leaves a trie
  that reads as the map of the committed writes, and whose root is determined by that map and
  determines it.

  The operations are total on tries whose keys have one length (hashed keys, addresses, storage
  slots). The hash function is only assumed to give 32 bytes and to have no collision among the
  nodes that tries made of the entries in use can have.
\<close>

section \<open>The root determines the tree\<close>

lemma blob_traw: "small H t \<Longrightarrow> small H u \<Longrightarrow> blob H t = blob H u \<Longrightarrow> traw H t = traw H u"
  using enc_inject [of "traw H t" "traw H u"] small_self by (simp add: blob_def)

lemma key_bytes_inject:
  assumes "nibble_path k" "nibble_path l" "key_bytes k a = key_bytes l b"
  shows "k = l \<and> a = b"
  using hex_prefix_roundtrip [OF assms(1), of a] hex_prefix_roundtrip [OF assms(2), of b] assms(3) by (metis key_bytes_def)

lemma tref_traw:
  assumes "inj_on H S" "blob H t \<in> S" "blob H u \<in> S" "small H t" "small H u" "tref H t = tref H u"
  shows "traw H t = traw H u"
proof -
  have list: "\<exists>ds. traw H x = RList ds" for x by (cases x) simp_all
  show ?thesis
  proof (cases "32 \<le> length (blob H t) \<and> 32 \<le> length (blob H u)")
    case True
    then have "H (blob H t) = H (blob H u)" using assms(6) by (simp add: tref_cases)
    then have "blob H t = blob H u" using assms(1-3) by (simp add: inj_on_def)
    with assms(4,5) show ?thesis by (rule blob_traw)
  next
    case False
    then show ?thesis using assms(6) list [of t] list [of u] by (auto simp: tref_cases split: if_splits)
  qed
qed

lemma blobs_in_child:
  "blobs_in c S (TExt k t) \<Longrightarrow> blobs_in c S t" "blobs_in c S (TBranch ts) \<Longrightarrow> Some u \<in> set ts \<Longrightarrow> blobs_in c S u"
  "blobs_in c S t \<Longrightarrow> blob (hash c) t \<in> S"
  by (auto simp: blobs_in_def nodes_def)

lemma traw_inject:
  assumes "inj_on (hash c) S" "\<And>x. length (hash c x) = 32"
  shows "wf_tree n t \<Longrightarrow> wf_tree m u \<Longrightarrow> small (hash c) t \<Longrightarrow> small (hash c) u \<Longrightarrow> blobs_in c S t \<Longrightarrow> blobs_in c S u \<Longrightarrow>
    traw (hash c) t = traw (hash c) u \<Longrightarrow> t = u"
proof (induction t arbitrary: u n m)
  case (TLeaf k v)
  then show ?case by (cases u) (auto dest: key_bytes_inject [rotated 2])
next
  case (TExt k t)
  then obtain l u' where u: "u = TExt l u'" by (cases u) (auto dest: key_bytes_inject [rotated 2])
  have e: "key_bytes k False = key_bytes l False" "tref (hash c) t = tref (hash c) u'" using TExt.prems(7) by (simp_all add: u)
  have "k = l" using key_bytes_inject e(1) TExt.prems(1,2) u by auto
  moreover have b: "blobs_in c S t" "blobs_in c S u'" using TExt.prems(5,6) u blobs_in_child(1) by blast+
  have sm: "small (hash c) t" "small (hash c) u'" using TExt.prems(3,4) u by simp_all
  have "traw (hash c) t = traw (hash c) u'"
    by (rule tref_traw [OF assms(1) blobs_in_child(3) [OF b(1)] blobs_in_child(3) [OF b(2)] sm e(2)])
  then have "t = u'" using TExt.IH [OF _ _ sm b] TExt.prems(1,2) u by (metis wf_tree.simps(2))
  ultimately show ?case by (simp add: u)
next
  case (TBranch ts)
  have l: "length ts = 16" using TBranch.prems(1) by simp
  then obtain us where u: "u = TBranch us" using TBranch.prems(7) by (cases u) auto
  have ln: "length us = 16" using TBranch.prems(2) u by simp
  have o': "map (oref (hash c)) ts = map (oref (hash c)) us" using TBranch.prems(7) u by simp
  have "ts ! i = us ! i" if i: "i < 16" for i
  proof -
    have r: "oref (hash c) (ts ! i) = oref (hash c) (us ! i)" using o' i l ln by (metis nth_map)
    have list: "\<exists>ds. traw (hash c) x = RList ds" for x by (cases x) simp_all
    have ne: "tref (hash c) x \<noteq> RBytes []" for x using list [of x] assms(2) [of "blob (hash c) x"] by (auto simp: tref_cases)
    show ?thesis
    proof (cases "ts ! i"; cases "us ! i")
      fix a b assume ab: "ts ! i = Some a" "us ! i = Some b"
      have s: "Some a \<in> set ts" "Some b \<in> set us" using ab i l ln by (metis nth_mem)+
      have b: "blobs_in c S a" "blobs_in c S b" using TBranch.prems(5,6) u blobs_in_child(2) s by blast+
      have sm: "small (hash c) a" "small (hash c) b" using TBranch.prems(3,4) u small_child s by blast+
      have "tref (hash c) a = tref (hash c) b" using r ab by (simp add: oref_def)
      then have "traw (hash c) a = traw (hash c) b"
        by (rule tref_traw [OF assms(1) blobs_in_child(3) [OF b(1)] blobs_in_child(3) [OF b(2)] sm])
      moreover have "wf_tree (n - 1) a" "wf_tree (m - 1) b" using TBranch.prems(1,2) u s by simp_all
      ultimately have "a = b" using TBranch.IH [OF s(1), of a "n - 1" "m - 1" b] sm b by simp
      with ab show ?thesis by simp
    qed (use r ne ne [symmetric] in \<open>auto simp: oref_def\<close>)
  qed
  then show ?case using l ln u by (auto intro: nth_equalityI)
qed

section \<open>Tries of given entries\<close>

text \<open>\<open>P\<close> is the set of the entries, nibbles with their value, that are written at all.\<close>

definition within :: "(nibbles \<times> bytes) set \<Rightarrow> tree \<Rightarrow> bool" where
  "within P t \<longleftrightarrow> (\<forall>q v. tlookup t q = Some v \<longrightarrow> (q, v) \<in> P)"

definition good_tree :: "nat \<Rightarrow> (nibbles \<times> bytes) set \<Rightarrow> tree option \<Rightarrow> bool" where
  "good_tree n P x \<longleftrightarrow> (case x of None \<Rightarrow> True | Some t \<Rightarrow> wf_tree n t \<and> within P t)"

definition entry_blobs :: "trie_opts \<Rightarrow> nat \<Rightarrow> (nibbles \<times> bytes) set \<Rightarrow> bytes set" where
  "entry_blobs c n P = insert RLP_EMPTY_STRING {blob (hash c) s |s t. wf_tree n t \<and> within P t \<and> s \<in> set (nodes t)}"

text \<open>The hypothesis on the options: no pruning, no persistent root, 32-byte hashes without a collision on
  the nodes of these tries.\<close>

definition trie_ok :: "trie_opts \<Rightarrow> nat \<Rightarrow> (nibbles \<times> bytes) set \<Rightarrow> bool" where
  "trie_ok c n P \<longleftrightarrow> n < 2 ^ 32 \<and> (\<forall>(q, v) \<in> P. length v < 2 ^ 32) \<and> \<not> useNodePruning c \<and> \<not> useRootPersistence c \<and>
     (\<forall>x. length (hash c x) = 32) \<and> inj_on (hash c) (entry_blobs c n P)"

lemma trie_ok_plain: "trie_ok c n P \<Longrightarrow> plain c (entry_blobs c n P)"
  by (simp add: trie_ok_def plain_def entry_blobs_def)

lemma within_facts:
  assumes "trie_ok c n P" "wf_tree n t" "within P t"
  shows "bounded t" "blobs_in c (entry_blobs c n P) t" "small (hash c) t"
proof -
  show b: "bounded t" using assms by (force simp: trie_ok_def within_def bounded_def)
  show "blobs_in c (entry_blobs c n P) t" using assms by (auto simp: blobs_in_def entry_blobs_def)
  show "small (hash c) t" using small_tree [of "hash c" n t] assms b by (simp add: trie_ok_def)
qed

text \<open>The tree that a database holds under a root.\<close>

definition tree_at :: "trie_opts \<Rightarrow> nat \<Rightarrow> (nibbles \<times> bytes) set \<Rightarrow> (bytes \<rightharpoonup> bytes) \<Rightarrow> bytes \<Rightarrow> tree option \<Rightarrow> bool" where
  "tree_at c n P D r x \<longleftrightarrow> good_tree n P x \<and> D (getDbKey c (EMPTY_TRIE_ROOT c)) = None \<and> (case x of
     None \<Rightarrow> r = EMPTY_TRIE_ROOT c
   | Some t \<Rightarrow> r = hash c (blob (hash c) t) \<and> holds c D (blob (hash c) t) \<and> stored c D t)"

lemma tree_at_rep:
  assumes "trie_ok c n P"
  shows "cdb_inv E (t_db s) \<and> tree_at c n P (cdb_view (t_db s)) (t_root s) x \<longleftrightarrow> trie_rep c E (entry_blobs c n P) n x s \<and> good_tree n P x"
  using within_facts [OF assms] by (cases x) (auto simp: tree_at_def trie_rep_def good_tree_def)

lemma root_unique:
  assumes "trie_ok c n P" "good_tree n P x" "good_tree n P y"
    and "(case x of None \<Rightarrow> EMPTY_TRIE_ROOT c | Some t \<Rightarrow> hash c (blob (hash c) t)) =
      (case y of None \<Rightarrow> EMPTY_TRIE_ROOT c | Some t \<Rightarrow> hash c (blob (hash c) t))"
  shows "x = y"
proof -
  let ?S = "entry_blobs c n P"
  note pl = trie_ok_plain [OF assms(1)]
  have t: "blob (hash c) t \<in> ?S" "blob (hash c) t \<noteq> RLP_EMPTY_STRING" if "wf_tree n t" "within P t" for t
    using blobs_in_child(3) [OF within_facts(2) [OF assms(1) that]] blob_not_empty_string by auto
  have e: "hash c (blob (hash c) t) \<noteq> EMPTY_TRIE_ROOT c" if "wf_tree n t" "within P t" for t
    using t [OF that] plainD(4) [OF pl t(1) [OF that] plainD(5) [OF pl]] by (auto simp: EMPTY_TRIE_ROOT_def)
  show ?thesis
  proof (cases x; cases y)
    fix t u assume xy: "x = Some t" "y = Some u"
    then have w: "wf_tree n t" "within P t" "wf_tree n u" "within P u" using assms(2,3) by (simp_all add: good_tree_def)
    have "blob (hash c) t = blob (hash c) u" using plainD(4) [OF pl t(1) t(1)] w assms(4) xy by simp
    then have "traw (hash c) t = traw (hash c) u" using blob_traw within_facts(3) [OF assms(1)] w by blast
    then have "t = u"
      using traw_inject [of c ?S n t n u] within_facts(2,3) [OF assms(1)] w assms(1) by (auto simp: trie_ok_def)
    with xy show ?thesis by simp
  qed (use assms(2-4) e e [symmetric] in \<open>auto simp: good_tree_def\<close>)
qed

lemma tree_at_unique:
  assumes "trie_ok c n P" "tree_at c n P D r x" "tree_at c n P D' r y"
  shows "x = y"
  by (rule root_unique [OF assms(1)]) (use assms(2,3) in \<open>auto simp: tree_at_def split: option.splits\<close>)

definition tree_of :: "trie_opts \<Rightarrow> nat \<Rightarrow> (nibbles \<times> bytes) set \<Rightarrow> (bytes \<rightharpoonup> bytes) \<Rightarrow> bytes \<Rightarrow> tree option" where
  "tree_of c n P D r = (THE x. tree_at c n P D r x)"

lemma tree_of_eq: "trie_ok c n P \<Longrightarrow> tree_at c n P D r x \<Longrightarrow> tree_of c n P D r = x"
  unfolding tree_of_def using tree_at_unique by blast

section \<open>Operations on trees and on maps\<close>

fun tstep :: "trie_opts \<Rightarrow> bool \<Rightarrow> batch_op \<Rightarrow> tree option \<Rightarrow> tree option" where
  "tstep c skip (BPut k v) x = (if v = [] then tdel x (put_key c k False) else tput x (put_key c k skip) v)"
| "tstep c skip (BDel k) x = tdel x (put_key c k skip)"

definition op_key :: "trie_opts \<Rightarrow> bool \<Rightarrow> bytes \<Rightarrow> bytes" where
  "op_key c skip k = (if skip then k else appliedKey c k)"

text \<open>The specification: an empty value deletes.\<close>

fun map_op :: "trie_opts \<Rightarrow> bool \<Rightarrow> batch_op \<Rightarrow> (bytes \<rightharpoonup> bytes) \<Rightarrow> bytes \<rightharpoonup> bytes" where
  "map_op c skip (BPut k v) m = m(op_key c skip k := (if v = [] then None else Some v))"
| "map_op c skip (BDel k) m = m(op_key c skip k := None)"

text \<open>Keys have the same length; what is written is among the entries. An empty value is not given together
  with a key that is already hashed.\<close>

fun op_ok :: "trie_opts \<Rightarrow> nat \<Rightarrow> (nibbles \<times> bytes) set \<Rightarrow> bool \<Rightarrow> batch_op \<Rightarrow> bool" where
  "op_ok c n P skip (BPut k v) \<longleftrightarrow> 2 * length (op_key c skip k) = n \<and>
     (if v = [] then skip \<longrightarrow> \<not> useKeyHashing c else (bytesToNibbles (op_key c skip k), v) \<in> P)"
| "op_ok c n P skip (BDel k) \<longleftrightarrow> 2 * length (op_key c skip k) = n"

definition tmap :: "tree option \<Rightarrow> bytes \<rightharpoonup> bytes" where
  "tmap x k = (case x of None \<Rightarrow> None | Some t \<Rightarrow> tlookup t (bytesToNibbles k))"

lemma put_key_op: "put_key c k skip = bytesToNibbles (op_key c skip k)"
  by (simp add: put_key_def op_key_def)

lemma tdel_good:
  assumes "good_tree n P x" "2 * length k = n"
  shows "good_tree n P (tdel x (bytesToNibbles k))" "tmap (tdel x (bytesToNibbles k)) = (tmap x)(k := None)"
proof -
  have "good_tree n P (tdel x (bytesToNibbles k)) \<and> (\<forall>q. tmap (tdel x (bytesToNibbles k)) q = ((tmap x)(k := None)) q)"
  proof (cases x)
    case None
    then show ?thesis by (simp add: tdel_def good_tree_def tmap_def)
  next
    case (Some t)
    then have "wf_tree n t" "within P t" using assms(1) by (simp_all add: good_tree_def)
    with tdelete_ok [of n t "bytesToNibbles k"] assms(2) show ?thesis
      by (auto simp: tdel_def Some good_tree_def tmap_def bytesToNibbles_inject within_def split: option.splits)
  qed
  then show "good_tree n P (tdel x (bytesToNibbles k))" "tmap (tdel x (bytesToNibbles k)) = (tmap x)(k := None)" by auto
qed

lemma tput_good:
  assumes "good_tree n P x" "2 * length k = n" "v \<noteq> []" "(bytesToNibbles k, v) \<in> P"
  shows "good_tree n P (tput x (bytesToNibbles k) v)" "tmap (tput x (bytesToNibbles k) v) = (tmap x)(k \<mapsto> v)"
proof -
  have "good_tree n P (tput x (bytesToNibbles k) v) \<and> (\<forall>q. tmap (tput x (bytesToNibbles k) v) q = ((tmap x)(k \<mapsto> v)) q)"
  proof (cases x)
    case None
    then show ?thesis using assms(2-4) by (auto simp: tput_def good_tree_def tmap_def within_def bytesToNibbles_inject)
  next
    case (Some t)
    then have "wf_tree n t" "within P t" using assms(1) by (simp_all add: good_tree_def)
    with tinsert_ok [of n t "bytesToNibbles k" v] assms(2-4) show ?thesis
      by (auto simp: tput_def Some good_tree_def tmap_def bytesToNibbles_inject within_def split: if_splits)
  qed
  then show "good_tree n P (tput x (bytesToNibbles k) v)" "tmap (tput x (bytesToNibbles k) v) = (tmap x)(k \<mapsto> v)" by auto
qed

lemma tstep_good:
  assumes "good_tree n P x" "op_ok c n P skip w"
  shows "good_tree n P (tstep c skip w x)" "tmap (tstep c skip w x) = map_op c skip w (tmap x)"
proof -
  have "v = [] \<Longrightarrow> w = BPut k v \<Longrightarrow> put_key c k False = bytesToNibbles (op_key c skip k)" for k v
    using assms(2) by (auto simp: put_key_def op_key_def appliedKey_def)
  then show "good_tree n P (tstep c skip w x)" "tmap (tstep c skip w x) = map_op c skip w (tmap x)"
    using assms tdel_good [OF assms(1)] tput_good [OF assms(1)] by (cases w; auto simp: put_key_op)+
qed

section \<open>Operations on the state\<close>

lemma tstep_ok:
  assumes c: "trie_ok c n P" "lru_ok L E" and s: "cdb_inv E (t_db s)" "tree_at c n P (cdb_view (t_db s)) (t_root s) x"
    and w: "op_ok c n P skip w"
  shows "\<exists>s'. (case w of BPut k v \<Rightarrow> trie_put c L k v skip | BDel k \<Rightarrow> trie_del c L k skip) s = (Inr (), s') \<and>
    cdb_inv E (t_db s') \<and> tree_at c n P (cdb_view (t_db s')) (t_root s') (tstep c skip w x) \<and> same_saved s s'"
proof -
  let ?S = "entry_blobs c n P" and ?x = "tstep c skip w x"
  have rep: "trie_rep c E ?S n x s" "good_tree n P x" using tree_at_rep [OF c(1)] s by blast+
  have good: "good_tree n P ?x" by (rule tstep_good(1) [OF rep(2) w])
  then have new: "bounded t' \<and> blobs_in c ?S t'" if "?x = Some t'" for t'
    using within_facts [OF c(1)] that by (simp add: good_tree_def)
  have n: "n < 2 ^ 32" using c(1) by (simp add: trie_ok_def)
  note del = trie_del_ok [OF trie_ok_plain [OF c(1)] c(2) rep(1) _ n] and put = trie_put_ok [OF trie_ok_plain [OF c(1)] c(2) rep(1) _ n]
  have "\<exists>s'. (case w of BPut k v \<Rightarrow> trie_put c L k v skip | BDel k \<Rightarrow> trie_del c L k skip) s = (Inr (), s') \<and> trie_rep c E ?S n ?x s' \<and> same_saved s s'"
  proof (cases w)
    case (BDel k)
    then have "length (put_key c k skip) = n" using w by (simp add: put_key_op)
    then show ?thesis using del [of k skip] new by (simp add: BDel)
  next
    case (BPut k v)
    show ?thesis
    proof (cases "v = []")
      case True
      have "length (put_key c k False) = n" using w BPut True by (auto simp: put_key_def op_key_def appliedKey_def)
      moreover have "trie_put c L k v skip s = trie_del c L k False s"
        using c(1) by (simp add: trie_put_def True trie_ok_def)
      ultimately show ?thesis using del [of k False] new by (simp add: BPut True)
    next
      case False
      then obtain t' where t': "tput x (put_key c k skip) v = Some t'" by (simp add: tput_def)
      have "length (put_key c k skip) = n" using w BPut by (simp add: put_key_op)
      then show ?thesis using put [of k skip v t'] new False t' by (simp add: BPut)
    qed
  qed
  with good tree_at_rep [OF c(1)] show ?thesis by blast
qed

lemma trie_batch_ok:
  assumes c: "trie_ok c n P" "lru_ok L E"
  shows "cdb_inv E (t_db s) \<Longrightarrow> tree_at c n P (cdb_view (t_db s)) (t_root s) x \<Longrightarrow> \<forall>w \<in> set ws. op_ok c n P skip w \<Longrightarrow>
    \<exists>s'. trie_batch c L ws skip s = (Inr (), s') \<and> cdb_inv E (t_db s') \<and>
      tree_at c n P (cdb_view (t_db s')) (t_root s') (fold (tstep c skip) ws x) \<and> same_saved s s'"
proof (induction ws arbitrary: s x)
  case Nil
  then show ?case using c(1) by (simp add: persistRoot_def trie_ok_def same_saved_refl)
next
  case (Cons w ws)
  obtain s1 where s1: "(case w of BPut k v \<Rightarrow> trie_put c L k v skip | BDel k \<Rightarrow> trie_del c L k skip) s = (Inr (), s1)"
    "cdb_inv E (t_db s1)" "tree_at c n P (cdb_view (t_db s1)) (t_root s1) (tstep c skip w x)" "same_saved s s1"
    using tstep_ok [OF c Cons.prems(1,2)] Cons.prems(3) by force
  obtain s2 where s2: "trie_batch c L ws skip s1 = (Inr (), s2)" "cdb_inv E (t_db s2)"
    "tree_at c n P (cdb_view (t_db s2)) (t_root s2) (fold (tstep c skip) (w # ws) x)" "same_saved s1 s2"
    using Cons.IH [OF s1(2,3)] Cons.prems(3) by auto
  have "trie_batch c L (w # ws) skip s = (Inr (), s2)"
    using s1(1) s2(1) by (cases w) (simp_all add: sq_def bnd_def)
  with s2 same_saved_trans [OF s1(4) s2(4)] show ?case by blast
qed

section \<open>The contract of checkpoints\<close>

definition saved_at :: "'c trie \<Rightarrow> ((bytes \<rightharpoonup> bytes) \<times> bytes) list" where
  "saved_at s = zip (cdb_saved (t_db s)) (map cp_root (checkpoints (t_db s)))"

definition trie_inv :: "trie_opts \<Rightarrow> ('c \<Rightarrow> bytes \<rightharpoonup> bytes) \<Rightarrow> nat \<Rightarrow> (nibbles \<times> bytes) set \<Rightarrow> 'c trie \<Rightarrow> bool" where
  "trie_inv c E n P s \<longleftrightarrow> cdb_inv E (t_db s) \<and> (\<exists>x. tree_at c n P (cdb_view (t_db s)) (t_root s) x) \<and>
     (\<forall>(D, r) \<in> set (saved_at s). \<exists>x. tree_at c n P D r x)"

definition trie_view :: "trie_opts \<Rightarrow> nat \<Rightarrow> (nibbles \<times> bytes) set \<Rightarrow> 'c trie \<Rightarrow> tree option" where
  "trie_view c n P s = tree_of c n P (cdb_view (t_db s)) (t_root s)"

definition trie_saved :: "trie_opts \<Rightarrow> nat \<Rightarrow> (nibbles \<times> bytes) set \<Rightarrow> 'c trie \<Rightarrow> tree option list" where
  "trie_saved c n P s = map (\<lambda>(D, r). tree_of c n P D r) (saved_at s)"

lemma trie_invD: "trie_ok c n P \<Longrightarrow> trie_inv c E n P s \<Longrightarrow> tree_at c n P (cdb_view (t_db s)) (t_root s) (trie_view c n P s)"
  using tree_of_eq by (auto simp: trie_inv_def trie_view_def)

lemma root_length: "trie_ok c n P \<Longrightarrow> tree_at c n P D r x \<Longrightarrow> length r = length (EMPTY_TRIE_ROOT c)"
  by (auto simp: tree_at_def EMPTY_TRIE_ROOT_def trie_ok_def split: option.splits)

text \<open>With a fixed set of entries the trie keeps the contract of the checkpointed components.\<close>

lemma trie_checkpointed:
  assumes c: "trie_ok c n P" "lru_ok L E"
  shows "checkpointed (trie_inv c E n P) (trie_view c n P) (trie_saved c n P) trie_checkpoint (trie_commit c L) (trie_revert c L)
    (\<lambda>ws. \<forall>w \<in> set ws. op_ok c n P skip w) (\<lambda>ws. trie_batch c L ws skip) (fold (tstep c skip))"
proof
  note plain = c(1) [unfolded trie_ok_def]
  fix s :: "'a trie" assume inv: "trie_inv c E n P s"
  let ?d = "t_db s"
  have ci: "cdb_inv E ?d" using inv by (simp add: trie_inv_def)
  obtain d where d: "cdb_checkpoint (t_root s) ?d = (Inr (), d)" "cdb_inv E d" "cdb_view d = cdb_view ?d"
    "cdb_saved d = cdb_view ?d # cdb_saved ?d" "map cp_root (checkpoints d) = t_root s # map cp_root (checkpoints ?d)"
    using cdb_checkpoint_law [OF ci, of "t_root s"] by (elim exE conjE) simp
  show "\<exists>s'. trie_checkpoint s = (Inr (), s') \<and> trie_inv c E n P s' \<and> trie_view c n P s' = trie_view c n P s \<and>
      trie_saved c n P s' = trie_view c n P s # trie_saved c n P s"
  proof (intro exI [of _ "s\<lparr>t_db := d\<rparr>"] conjI)
    show "trie_checkpoint s = (Inr (), s\<lparr>t_db := d\<rparr>)" using d(1) by (simp add: trie_checkpoint_def on_db_def)
    have "saved_at (s\<lparr>t_db := d\<rparr>) = (cdb_view ?d, t_root s) # saved_at s" using d(4,5) by (simp add: saved_at_def)
    then show "trie_inv c E n P (s\<lparr>t_db := d\<rparr>)" "trie_saved c n P (s\<lparr>t_db := d\<rparr>) = trie_view c n P s # trie_saved c n P s"
      using inv d(2,3) by (simp_all add: trie_inv_def trie_saved_def trie_view_def)
    show "trie_view c n P (s\<lparr>t_db := d\<rparr>) = trie_view c n P s" using d(3) by (simp add: trie_view_def)
  qed
  fix v vs assume sv: "trie_saved c n P s = v # vs"
  then obtain D Ds r rs where z: "cdb_saved ?d = D # Ds" "map cp_root (checkpoints ?d) = r # rs" "v = tree_of c n P D r"
    "vs = map (\<lambda>(D, r). tree_of c n P D r) (zip Ds rs)"
    unfolding trie_saved_def saved_at_def by (cases "cdb_saved ?d"; cases "map cp_root (checkpoints ?d)") simp_all
  have hc: "hasCheckpoints ?d" using z(2) by (auto simp: hasCheckpoints_def)
  obtain d1 where d1: "cdb_commit L ?d = (Inr (), d1)" "cdb_inv E d1" "cdb_view d1 = cdb_view ?d" "cdb_saved d1 = Ds"
    "map cp_root (checkpoints d1) = tl (map cp_root (checkpoints ?d))" using cdb_commit_law [OF c(2) ci z(1)] by blast
  show "\<exists>s'. trie_commit c L s = (Inr (), s') \<and> trie_inv c E n P s' \<and> trie_view c n P s' = trie_view c n P s \<and> trie_saved c n P s' = vs"
  proof (intro exI [of _ "s\<lparr>t_db := d1\<rparr>"] conjI)
    show "trie_commit c L s = (Inr (), s\<lparr>t_db := d1\<rparr>)"
      using d1(1) hc plain by (simp add: trie_commit_def on_db_def sq_def bnd_def persistRoot_def)
    have "saved_at (s\<lparr>t_db := d1\<rparr>) = zip Ds rs" "saved_at s = (D, r) # zip Ds rs" using d1(4,5) z(1,2) by (simp_all add: saved_at_def)
    then show "trie_inv c E n P (s\<lparr>t_db := d1\<rparr>)" "trie_saved c n P (s\<lparr>t_db := d1\<rparr>) = vs"
      using inv d1(2,3) z(4) by (simp_all add: trie_inv_def trie_saved_def)
    show "trie_view c n P (s\<lparr>t_db := d1\<rparr>) = trie_view c n P s" using d1(3) by (simp add: trie_view_def)
  qed
  obtain d2 where d2: "cdb_revert ?d = (Inr r, d2)" "cdb_inv E d2" "cdb_view d2 = D" "cdb_saved d2 = Ds"
    "map cp_root (checkpoints d2) = tl (map cp_root (checkpoints ?d))" using cdb_revert_law [OF ci z(1)] z(2) by auto
  obtain x where x: "tree_at c n P D r x" using inv z(1,2) by (auto simp: trie_inv_def saved_at_def)
  show "\<exists>s'. trie_revert c L s = (Inr (), s') \<and> trie_inv c E n P s' \<and> trie_view c n P s' = v \<and> trie_saved c n P s' = vs"
  proof (intro exI [of _ "s\<lparr>t_db := d2, t_root := r\<rparr>"] conjI)
    show "trie_revert c L s = (Inr (), s\<lparr>t_db := d2, t_root := r\<rparr>)"
      using d2(1) hc plain root_length [OF c(1) x] by (simp add: trie_revert_def on_db_def sq_def bnd_def persistRoot_def set_root_def)
    have "saved_at (s\<lparr>t_db := d2, t_root := r\<rparr>) = zip Ds rs" "saved_at s = (D, r) # zip Ds rs" using d2(4,5) z(1,2) by (simp_all add: saved_at_def)
    then show "trie_inv c E n P (s\<lparr>t_db := d2, t_root := r\<rparr>)" "trie_saved c n P (s\<lparr>t_db := d2, t_root := r\<rparr>) = vs"
      using inv d2(2,3) z(4) by (simp_all add: trie_inv_def trie_saved_def)
    show "trie_view c n P (s\<lparr>t_db := d2, t_root := r\<rparr>) = v" using d2(3) z(3) by (simp add: trie_view_def)
  qed
next
  fix s :: "'a trie" and ws assume inv: "trie_inv c E n P s" and ws: "\<forall>w \<in> set ws. op_ok c n P skip w"
  have ci: "cdb_inv E (t_db s)" using inv by (simp add: trie_inv_def)
  obtain s' where s': "trie_batch c L ws skip s = (Inr (), s')" "cdb_inv E (t_db s')"
    "tree_at c n P (cdb_view (t_db s')) (t_root s') (fold (tstep c skip) ws (trie_view c n P s))" "same_saved s s'"
    using trie_batch_ok [OF c ci trie_invD [OF c(1) inv] ws] by blast
  have "saved_at s' = saved_at s" using s'(4) by (simp add: saved_at_def same_saved_def)
  then show "\<exists>s'. trie_batch c L ws skip s = (Inr (), s') \<and> trie_inv c E n P s' \<and>
      trie_view c n P s' = fold (tstep c skip) ws (trie_view c n P s) \<and> trie_saved c n P s' = trie_saved c n P s"
    using s' inv tree_of_eq [OF c(1) s'(3)] by (auto simp: trie_inv_def trie_view_def trie_saved_def)
qed

section \<open>Results\<close>

lemma frames_map:
  assumes "all_writes (\<lambda>ws. \<forall>w \<in> set ws. op_ok c n P skip w) acts" "good_tree n P x"
  shows "good_tree n P (eval_frames (fold (tstep c skip)) acts x) \<and>
    tmap (eval_frames (fold (tstep c skip)) acts x) = eval_frames (fold (map_op c skip)) acts (tmap x)"
proof -
  have ws: "good_tree n P (fold (tstep c skip) ws x) \<and> tmap (fold (tstep c skip) ws x) = fold (map_op c skip) ws (tmap x)"
    if "\<forall>w \<in> set ws. op_ok c n P skip w" "good_tree n P x" for ws x
    using that tstep_good by (induction ws arbitrary: x) auto
  show ?thesis using assms
  proof (induction acts arbitrary: x rule: frames_induct)
    case (Write w acts)
    then show ?case using ws [of w x] by simp
  qed auto
qed

text \<open>The map determines the tree.\<close>

lemma tmap_inject:
  assumes "good_tree (2 * m) P x" "good_tree (2 * m) P y" "tmap x = tmap y"
  shows "x = y"
proof -
  have key: "\<exists>k. q = bytesToNibbles k" if "wf_tree (2 * m) t" "tlookup t q = Some v" for t q v
    using tlookup_length [OF that] nibbles_pair_up [of q] by (metis dvd_triv_left)
  have eq: "tlookup t q = tlookup u q" if "x = Some t" "y = Some u" for t u q
  proof -
    have at: "tlookup t (bytesToNibbles k) = tlookup u (bytesToNibbles k)" for k
      using assms(3) that by (simp add: tmap_def fun_eq_iff)
    show ?thesis
    proof (cases "\<exists>k. q = bytesToNibbles k")
      case False
      then have "tlookup z q = None" if "wf_tree (2 * m) z" for z using key [OF that] by (cases "tlookup z q") auto
      then have "tlookup t q = None" "tlookup u q = None" using assms(1,2) that by (simp_all add: good_tree_def)
      then show ?thesis by simp
    qed (use at in auto)
  qed
  have ne: "tmap (Some t) \<noteq> tmap None" if t: "wf_tree (2 * m) t" for t
  proof -
    obtain k v where "tlookup t (bytesToNibbles k) = Some v" using wf_nonempty [OF t] key [OF t] by blast
    then have "tmap (Some t) k \<noteq> tmap None k" by (simp add: tmap_def)
    then show ?thesis by metis
  qed
  show ?thesis
  proof (cases x; cases y)
    fix t u assume xy: "x = Some t" "y = Some u"
    then have "t = u" using wf_tree_unique [of "2 * m" t u] eq [OF xy] assms(1,2) by (simp add: good_tree_def)
    with xy show ?thesis by simp
  qed (use assms ne ne [symmetric] in \<open>auto simp: good_tree_def\<close>)
qed

lemma new_trie_tree: "tree_at c n P (cdb_view (t_db (new_trie c cc))) (t_root (new_trie c cc)) None"
  by (simp add: new_trie_def new_cdb_def cdb_view_def tree_at_def good_tree_def contents_def)

lemma new_trie_inv: "E cc = Map.empty \<Longrightarrow> trie_inv c E n P (new_trie c (Some cc))"
  using new_trie_tree [of c n P "Some cc"] by (auto simp: trie_inv_def saved_at_def cdb_inv_def cdb_saved_def new_trie_def new_cdb_def)

lemma trie_run:
  assumes c: "trie_ok c n P" "lru_ok L E" "E cc = Map.empty"
    and acts: "all_writes (\<lambda>ws. \<forall>w \<in> set ws. op_ok c n P skip w) acts"
  shows "\<exists>s x. run_frames (\<lambda>ws. trie_batch c L ws skip) trie_checkpoint (trie_commit c L) (trie_revert c L) acts (new_trie c (Some cc)) = (Inr (), s) \<and>
    cdb_inv E (t_db s) \<and> tree_at c n P (cdb_view (t_db s)) (t_root s) x \<and> good_tree n P x \<and>
    tmap x = eval_frames (fold (map_op c skip)) acts Map.empty"
proof -
  let ?s0 = "new_trie c (Some cc)"
  have v0: "trie_view c n P ?s0 = None" using tree_of_eq [OF c(1) new_trie_tree] by (simp add: trie_view_def)
  obtain s where s: "run_frames (\<lambda>ws. trie_batch c L ws skip) trie_checkpoint (trie_commit c L) (trie_revert c L) acts ?s0 = (Inr (), s)"
    "trie_inv c E n P s" "trie_view c n P s = eval_frames (fold (tstep c skip)) acts None"
    using checkpointed.run_frames_refines [OF trie_checkpointed [OF c(1,2)] new_trie_inv [of E cc, OF c(3)] acts] v0 by auto
  have "tmap None = Map.empty" by (simp add: tmap_def fun_eq_iff)
  then have "good_tree n P (trie_view c n P s) \<and> tmap (trie_view c n P s) = eval_frames (fold (map_op c skip)) acts Map.empty"
    using frames_map [OF acts, of None] by (simp add: s(3) good_tree_def)
  then show ?thesis using s(1) trie_invD [OF c(1) s(2)] s(2) by (auto simp: trie_inv_def)
qed

text \<open>A concrete instance: two entries and a hash function that pads to 32 bytes; the nodes of the three
  tries of these entries have six encodings.\<close>

definition pad32 :: "bytes \<Rightarrow> bytes" where
  "pad32 b = take 32 (b @ replicate 32 0)"

definition sample_trie :: trie_opts where
  "sample_trie = \<lparr>hash = pad32, useKeyHashing = False, useNodePruning = False, useRootPersistence = False, keyPrefix = []\<rparr>"

definition sample_entries :: "(nibbles \<times> bytes) set" where
  "sample_entries = {([1, 2], [7]), ([1, 3], [8])}"

definition both_entries :: tree where
  "both_entries = TExt [1] (TBranch ((replicate 16 None)[2 := Some (TLeaf [] [7]), 3 := Some (TLeaf [] [8])]))"

lemma sample_trees:
  assumes "wf_tree 2 t" "within sample_entries t"
  shows "t \<in> {TLeaf [1, 2] [7], TLeaf [1, 3] [8], both_entries}"
proof -
  have two: "children ((replicate 16 None)[2 := Some (TLeaf [] [7]), 3 := Some (TLeaf [] [8])]) = {2, 3}"
    by (auto simp: children_def nth_list_update split: if_splits)
  have wf: "wf_tree 2 (TLeaf [1, 2] [7])" "wf_tree 2 (TLeaf [1, 3] [8])" "wf_tree 2 both_entries"
    using two by (auto simp: both_entries_def hex_digits_def dest!: update_set)
  have P: "(q, v) \<in> sample_entries" if "tlookup t q = Some v" for q v using assms(2) that by (simp add: within_def)
  have lk: "tlookup t q = (if q = [1, 2] \<and> a then Some [7] else if q = [1, 3] \<and> b then Some [8] else None)"
    if "a = (tlookup t [1, 2] \<noteq> None)" "b = (tlookup t [1, 3] \<noteq> None)" for q a b
    using that P [of q] P [of "[1, 2]"] P [of "[1, 3]"] by (cases "tlookup t q") (auto simp: sample_entries_def)
  have both: "tlookup both_entries q = (if q = [1, 2] then Some [7] else if q = [1, 3] then Some [8] else None)" for q
  proof -
    have "tlookup (TBranch ((replicate 16 None)[2 := Some (TLeaf [] [7]), 3 := Some (TLeaf [] [8])])) r =
        (if r = [2] then Some [7] else if r = [3] then Some [8] else None)" for r
      by (cases r) (auto simp: child_update)
    then show ?thesis by (cases q) (auto simp: both_entries_def simp del: tlookup.simps(3,4))
  qed
  obtain q v where "tlookup t q = Some v" using wf_nonempty [OF assms(1)] by blast
  then have "tlookup t [1, 2] \<noteq> None \<or> tlookup t [1, 3] \<noteq> None" using P [of q v] by (auto simp: sample_entries_def)
  then consider "tlookup t [1, 2] \<noteq> None" "tlookup t [1, 3] = None" | "tlookup t [1, 2] = None" "tlookup t [1, 3] \<noteq> None"
    | "tlookup t [1, 2] \<noteq> None" "tlookup t [1, 3] \<noteq> None" by blast
  then show ?thesis
  proof cases
    case 1
    then have "tlookup t q = tlookup (TLeaf [1, 2] [7]) q" for q using lk [of True False q] by simp
    then have "t = TLeaf [1, 2] [7]" by (rule wf_tree_unique [OF assms(1) wf(1)])
    then show ?thesis by simp
  next
    case 2
    then have "tlookup t q = tlookup (TLeaf [1, 3] [8]) q" for q using lk [of False True q] by simp
    then have "t = TLeaf [1, 3] [8]" by (rule wf_tree_unique [OF assms(1) wf(2)])
    then show ?thesis by simp
  next
    case 3
    then have "tlookup t q = tlookup (both_entries) q" for q using lk [of True True q] both [of q] by simp
    then have "t = both_entries" by (rule wf_tree_unique [OF assms(1) wf(3)])
    then show ?thesis by simp
  qed
qed

definition sample_nodes :: "tree list" where
  "sample_nodes = nodes (TLeaf [1, 2] [7]) @ nodes (TLeaf [1, 3] [8]) @ nodes both_entries"

lemma sample_hashes: "distinct (map pad32 (remdups ([0x80] # map (blob pad32) sample_nodes)))"
  by code_simp

lemma sample_trie_ok: "trie_ok sample_trie 2 sample_entries"
proof -
  have "entry_blobs sample_trie 2 sample_entries \<subseteq> set (remdups ([0x80] # map (blob pad32) sample_nodes))"
    using sample_trees by (auto simp: entry_blobs_def sample_trie_def sample_nodes_def RLP_EMPTY_STRING_def)
  then have "inj_on pad32 (entry_blobs sample_trie 2 sample_entries)"
    using sample_hashes by (metis distinct_map inj_on_subset)
  moreover have "length (pad32 x) = 32" for x by (cases "length x \<le> 32") (simp_all add: pad32_def min_def)
  moreover have "\<forall>(q, v) \<in> sample_entries. length v < 2 ^ 32" by (simp add: sample_entries_def)
  ultimately show ?thesis unfolding trie_ok_def by (simp add: sample_trie_def)
qed

text \<open>Two insertions, one of them in a frame, and a deletion that is reverted.\<close>

definition sample_history :: "batch_op list action list" where
  "sample_history = [Write [BPut [0x12] [7]], Frame [Write [BPut [0x13] [8]]] True, Frame [Write [BDel [0x12]]] False]"

lemma sample_history_ok: "all_writes (\<lambda>ws. \<forall>w \<in> set ws. op_ok sample_trie (2 * 1) sample_entries False w) sample_history"
proof -
  have "bytesToNibbles [0x12] = [1, 2]" "bytesToNibbles [0x13] = [1, 3]" by code_simp+
  then show ?thesis by (simp add: sample_history_def op_key_def appliedKey_def sample_trie_def sample_entries_def)
qed

text \<open>
  C18. The trie is a map, if its keys have one length and nodes are not pruned: after any sequence of insertions, updates and deletions, inside any tree of
  frames that commit or revert, no operation has failed and a key reads as the committed writes
  alone say.
\<close>
theorem trie_frames:
  assumes "trie_ok c (2 * m) P" "lru_ok L E" "E cc = Map.empty"
    and "all_writes (\<lambda>ws. \<forall>w \<in> set ws. op_ok c (2 * m) P skip w) acts" "length (appliedKey c k) = m"
  shows "\<exists>s s'. run_frames (\<lambda>ws. trie_batch c L ws skip) trie_checkpoint (trie_commit c L) (trie_revert c L) acts (new_trie c (Some cc)) = (Inr (), s) \<and>
    trie_get c L k False s =
      (Inr (case eval_frames (fold (map_op c skip)) acts Map.empty (appliedKey c k) of None \<Rightarrow> INull | Some v \<Rightarrow> IBytes v), s')"
proof -
  obtain s x where s: "run_frames (\<lambda>ws. trie_batch c L ws skip) trie_checkpoint (trie_commit c L) (trie_revert c L) acts (new_trie c (Some cc)) = (Inr (), s)"
    "trie_rep c E (entry_blobs c (2 * m) P) (2 * m) x s" "tmap x = eval_frames (fold (map_op c skip)) acts Map.empty"
    using trie_run [OF assms(1-4)] tree_at_rep [OF assms(1)] by blast
  have "\<exists>s'. trie_get c L k False s = (Inr (case tmap x (appliedKey c k) of None \<Rightarrow> INull | Some v \<Rightarrow> IBytes v), s')"
  proof (cases x)
    case None
    then show ?thesis using trie_get_empty [OF assms(2) s(2) [unfolded None], of k] by (auto simp: tmap_def)
  next
    case (Some t)
    have "length (bytesToNibbles (appliedKey c k)) = 2 * m" using assms(5) by simp
    then show ?thesis
      using trie_get_ok [OF trie_ok_plain [OF assms(1)] assms(2) s(2) [unfolded Some], of k False] assms(1)
      by (auto simp: tmap_def Some trie_ok_def)
  qed
  with s show ?thesis by auto
qed

theorem trie_frames_witness:
  "\<exists>s s'. run_frames (\<lambda>ws. trie_batch sample_trie one_entry ws False) trie_checkpoint (trie_commit sample_trie one_entry)
     (trie_revert sample_trie one_entry) sample_history (new_trie sample_trie (Some None)) = (Inr (), s) \<and>
     trie_get sample_trie one_entry [0x12] False s = (Inr (IBytes [7]), s')"
proof -
  have "length (appliedKey sample_trie [0x12]) = 1" by (simp add: appliedKey_def sample_trie_def)
  moreover have "eval_frames (fold (map_op sample_trie False)) sample_history Map.empty (appliedKey sample_trie [0x12]) = Some [7]"
    by (simp add: sample_history_def op_key_def appliedKey_def sample_trie_def)
  ultimately show ?thesis
    using trie_frames [where m = 1 and c = sample_trie and L = one_entry and P = sample_entries and cc = None and E = one_entry_map
        and k = "[0x12]" and acts = sample_history and skip = False] sample_trie_ok one_entry_ok sample_history_ok
    by (simp add: one_entry_map_def del: run_frames.simps eval_frames.simps)
qed

text \<open>
  C19. The root is a commitment to the contents, under the same conditions: two histories, of whatever operations and frames, end
  in the same root exactly if they leave the same map.
\<close>
theorem trie_root_commits:
  assumes "trie_ok c (2 * m) P" "lru_ok L E" "E cc = Map.empty"
    and "all_writes (\<lambda>ws. \<forall>w \<in> set ws. op_ok c (2 * m) P skip w) acts"
    and "all_writes (\<lambda>ws. \<forall>w \<in> set ws. op_ok c (2 * m) P skip w) acts'"
  shows "\<exists>s s'. run_frames (\<lambda>ws. trie_batch c L ws skip) trie_checkpoint (trie_commit c L) (trie_revert c L) acts (new_trie c (Some cc)) = (Inr (), s) \<and>
    run_frames (\<lambda>ws. trie_batch c L ws skip) trie_checkpoint (trie_commit c L) (trie_revert c L) acts' (new_trie c (Some cc)) = (Inr (), s') \<and>
    (t_root s = t_root s' \<longleftrightarrow>
      eval_frames (fold (map_op c skip)) acts Map.empty = eval_frames (fold (map_op c skip)) acts' Map.empty)"
proof -
  obtain s x where s: "run_frames (\<lambda>ws. trie_batch c L ws skip) trie_checkpoint (trie_commit c L) (trie_revert c L) acts (new_trie c (Some cc)) = (Inr (), s)"
    "tree_at c (2 * m) P (cdb_view (t_db s)) (t_root s) x" "good_tree (2 * m) P x" "tmap x = eval_frames (fold (map_op c skip)) acts Map.empty"
    using trie_run [OF assms(1-4)] by blast
  obtain s' x' where s': "run_frames (\<lambda>ws. trie_batch c L ws skip) trie_checkpoint (trie_commit c L) (trie_revert c L) acts' (new_trie c (Some cc)) = (Inr (), s')"
    "tree_at c (2 * m) P (cdb_view (t_db s')) (t_root s') x'" "good_tree (2 * m) P x'" "tmap x' = eval_frames (fold (map_op c skip)) acts' Map.empty"
    using trie_run [OF assms(1-3,5)] by blast
  have "t_root s = t_root s' \<longleftrightarrow> x = x'"
  proof
    assume e: "t_root s = t_root s'"
    show "x = x'" by (rule tree_at_unique [OF assms(1) s(2) s'(2) [folded e]])
  next
    assume "x = x'"
    with s(2) s'(2) show "t_root s = t_root s'" by (simp add: tree_at_def split: option.splits)
  qed
  also have "\<dots> \<longleftrightarrow> tmap x = tmap x'" using tmap_inject [OF s(3) s'(3)] by auto
  finally show ?thesis using s(1,4) s'(1,4) by auto
qed

theorem trie_root_commits_witness:
  "\<exists>s s'. run_frames (\<lambda>ws. trie_batch sample_trie one_entry ws False) trie_checkpoint (trie_commit sample_trie one_entry)
       (trie_revert sample_trie one_entry) sample_history (new_trie sample_trie (Some None)) = (Inr (), s) \<and>
     run_frames (\<lambda>ws. trie_batch sample_trie one_entry ws False) trie_checkpoint (trie_commit sample_trie one_entry)
       (trie_revert sample_trie one_entry) [Write [BPut [0x13] [8], BPut [0x12] [7]]] (new_trie sample_trie (Some None)) = (Inr (), s') \<and>
     t_root s = t_root s'"
proof -
  let ?acts = "[Write [BPut [0x13] [8], BPut [0x12] [7]]]"
  have "bytesToNibbles [0x12] = [1, 2]" "bytesToNibbles [0x13] = [1, 3]" by code_simp+
  then have "all_writes (\<lambda>ws. \<forall>w \<in> set ws. op_ok sample_trie (2 * 1) sample_entries False w) ?acts"
    by (simp add: op_key_def appliedKey_def sample_trie_def sample_entries_def)
  moreover have "eval_frames (fold (map_op sample_trie False)) sample_history Map.empty =
      eval_frames (fold (map_op sample_trie False)) ?acts Map.empty"
    by (simp add: sample_history_def op_key_def appliedKey_def sample_trie_def fun_upd_twist)
  ultimately show ?thesis
    using trie_root_commits [where m = 1 and c = sample_trie and L = one_entry and P = sample_entries and cc = None and E = one_entry_map
        and acts = sample_history and acts' = ?acts and skip = False] sample_trie_ok one_entry_ok sample_history_ok
    by (simp add: one_entry_map_def del: run_frames.simps eval_frames.simps)
qed

end
