(* ===== verification/TrieEdges.thy ===== *)
theory TrieEdges
  imports TrieMap
begin

text \<open>
  Keys of different lengths, where a value can sit at a branch, and the empty key: inputs on which
  deletion does not do what it promises. They cannot occur when all keys have one length, which is
  what theory \<open>TrieMap\<close> assumes and what hashed keys guarantee.
\<close>

definition read_after :: "batch_op list \<Rightarrow> bytes \<Rightarrow> exn + rlp_input" where
  "read_after ops k = fst (bnd (trie_batch sample_trie one_entry ops False) (\<lambda>_. trie_get sample_trie one_entry k False) (new_trie sample_trie None))"

text \<open>
  Deletion and the values of branches: the setter of a branch ignores \<^verbatim>\<open>null\<close>, so a deleted key
  whose value sits at a branch is still read; and a branch that is left with one child is merged
  with it although it has a value, so deleting one key loses another.
\<close>
theorem branch_values_mishandled:
  "read_after [BPut [0x12] [1], BPut [0x12, 0x34] [2], BPut [0x12, 0x56] [3], BDel [0x12]] [0x12] = Inr (IBytes [1]) \<and>
   read_after [BPut [0x12] [1], BPut [0x12, 0x34] [2], BPut [0x12, 0x56] [3], BDel [0x12, 0x34]] [0x12] = Inr INull"
  by code_simp

text \<open>
  Deleting the empty key from a trie whose root is a branch resets the root to that of the
  empty trie, whatever the trie holds and whether or not the empty key has a value.
\<close>
theorem empty_key_wipes:
  assumes "lookupNode c L (IBytes (t_root s)) s = (Inr (BranchMPTNode bs v), s')" "\<not> useNodePruning c" "\<not> useRootPersistence c"
  shows "trie_del c L [] True s = (Inr (), s'\<lparr>t_root := EMPTY_TRIE_ROOT c\<rparr>)"
  using assms by (simp add: trie_del_def findPath_def bytesToNibbles_def bnd_def sq_def deleteNode_def pop_node_def set_root_def persistRoot_def)

theorem empty_key_wipes_witness:
  "read_after [BPut [0x12] [1], BPut [0x52] [2]] [0x12] = Inr (IBytes [1]) \<and>
   read_after [BPut [0x12] [1], BPut [0x52] [2], BDel []] [0x12] = Inr INull \<and>
   (\<exists>s s' bs v. lookupNode sample_trie one_entry (IBytes (t_root s)) s = (Inr (BranchMPTNode bs v), s') \<and>
      trie_del sample_trie one_entry [] True s = (Inr (), s'\<lparr>t_root := EMPTY_TRIE_ROOT sample_trie\<rparr>))"
proof (intro conjI)
  define s where "s = snd (trie_batch sample_trie one_entry [BPut [0x12] [1], BPut [0x52] [2]] False (new_trie sample_trie None))"
  have "(case lookupNode sample_trie one_entry (IBytes (t_root s)) s of (Inr n, _) \<Rightarrow> is_branch n | _ \<Rightarrow> False)"
    unfolding s_def by code_simp
  then obtain bs v s' where l: "lookupNode sample_trie one_entry (IBytes (t_root s)) s = (Inr (BranchMPTNode bs v), s')"
    by (auto split: prod.splits sum.splits elim: is_branch.elims)
  show "\<exists>s s' bs v. lookupNode sample_trie one_entry (IBytes (t_root s)) s = (Inr (BranchMPTNode bs v), s') \<and>
      trie_del sample_trie one_entry [] True s = (Inr (), s'\<lparr>t_root := EMPTY_TRIE_ROOT sample_trie\<rparr>)"
    using empty_key_wipes [OF l] l by (auto simp: sample_trie_def)
qed (code_simp+)

text \<open>
  An empty value means deletion, but the deletion ignores that the key is already hashed: it
  hashes it again, and so looks for another key.
\<close>
lemma empty_value_hashes_again:
  assumes "useRootPersistence c \<longrightarrow> \<not> equalsBytes key ROOT_DB_KEY"
  shows "trie_put c L key [] True s = trie_del c L key False s"
  using assms by (auto simp: trie_put_def)

end
