(* ===== verification/StateCache.thy ===== *)
theory StateCache
  imports Prelude "HOL-Library.AList"
begin

text \<open>
  The write-back cache of the state manager: \<^verbatim>\<open>packages/statemanager/src/cache/cache.ts\<close> with
  \<^verbatim>\<open>account.ts\<close> and \<^verbatim>\<open>code.ts\<close>, which differ only in what an element holds, the RLP form of an account
  or code, \<^verbatim>\<open>undefined\<close> for what is known not to exist. Dirty keys wait to be written; for each open
  checkpoint the cache remembers the element and the dirtiness that a key had before the first
  change under it.

  The store behind the cache is an \<^verbatim>\<open>LRUCache\<close> or an \<^verbatim>\<open>OrderedMap\<close> of a third-party package: its
  operations are a parameter, \<open>store_ok\<close> says what is relied on. Keys stand for their hexadecimal
  strings; the arrays of the source are kept newest first, and the number of open checkpoints is
  the length of the list of checkpoints. The counters of statistics are left out.
\<close>

section \<open>State\<close>

type_synonym elem = "bytes option"

record 's store_ops =
  st_get :: "bytes \<Rightarrow> 's \<Rightarrow> elem option \<times> 's"
  st_set :: "bytes \<Rightarrow> elem \<Rightarrow> 's \<Rightarrow> 's"
  st_delete :: "bytes \<Rightarrow> 's \<Rightarrow> 's"
  st_clear :: "'s \<Rightarrow> 's"

text \<open>\<open>R\<close> gives the elements that a store holds.\<close>

definition store_ok :: "'s store_ops \<Rightarrow> ('s \<Rightarrow> bytes \<rightharpoonup> elem) \<Rightarrow> bool" where
  "store_ok St R \<longleftrightarrow>
     (\<forall>k c. fst (st_get St k c) = R c k \<and> R (snd (st_get St k c)) = R c) \<and>
     (\<forall>k e c. R (st_set St k e c) = (R c)(k \<mapsto> e)) \<and>
     (\<forall>k c. R (st_delete St k c) = (R c)(k := None)) \<and> (\<forall>c. R (st_clear St c) = Map.empty)"

record 's state_cache =
  dirtyKeys :: "bytes list"
  dirtyCheckpoints :: "(bytes \<times> bool) list list"
  elements :: 's
  diffCache :: "(bytes \<times> elem option) list list"

definition new_cache :: "'s \<Rightarrow> 's state_cache" where
  "new_cache st = \<lparr>dirtyKeys = [], dirtyCheckpoints = [], elements = st, diffCache = [[]]\<rparr>"

section \<open>Dirty keys\<close>

text \<open>\<^verbatim>\<open>if (!map.has(key)) map.set(key, value)\<close>.\<close>

definition set_first :: "'k \<Rightarrow> 'v \<Rightarrow> ('k \<times> 'v) list \<Rightarrow> ('k \<times> 'v) list" where
  "set_first k v m = (if map_of m k = None then m @ [(k, v)] else m)"

definition add_key :: "'k \<Rightarrow> 'k list \<Rightarrow> 'k list" where
  "add_key k ks = (if k \<in> set ks then ks else ks @ [k])"

definition setDirty :: "bytes \<Rightarrow> bool \<Rightarrow> 's state_cache \<Rightarrow> 's state_cache" where
  "setDirty key dirty s =
     (let wasDirty = key \<in> set (dirtyKeys s)
      in if wasDirty = dirty then s
         else s\<lparr>dirtyCheckpoints := (case dirtyCheckpoints s of [] \<Rightarrow> [] | c # cs \<Rightarrow> set_first key wasDirty c # cs),
                dirtyKeys := (if dirty then add_key key (dirtyKeys s) else removeAll key (dirtyKeys s))\<rparr>)"

definition clearDirty :: "'s state_cache \<Rightarrow> 's state_cache" where
  "clearDirty s = fold (\<lambda>key. setDirty key False) (dirtyKeys s) s"

section \<open>Elements\<close>

definition saveCachePreState :: "'s store_ops \<Rightarrow> bytes \<Rightarrow> 's state_cache \<Rightarrow> 's state_cache" where
  "saveCachePreState St key s = (case diffCache s of
     [] \<Rightarrow> s
   | d # ds \<Rightarrow> if map_of d key \<noteq> None then s
       else (case st_get St key (elements s) of (old, st) \<Rightarrow> s\<lparr>elements := st, diffCache := (d @ [(key, old)]) # ds\<rparr>))"

definition cache_put :: "'s store_ops \<Rightarrow> bytes \<Rightarrow> elem \<Rightarrow> 's state_cache \<Rightarrow> 's state_cache" where
  "cache_put St key e s =
     (let s1 = setDirty key True (saveCachePreState St key s)
      in s1\<lparr>elements := st_set St key e (elements s1)\<rparr>)"

definition cache_get :: "'s store_ops \<Rightarrow> bytes \<Rightarrow> 's state_cache \<Rightarrow> elem option \<times> 's state_cache" where
  "cache_get St key s = (case st_get St key (elements s) of (e, st) \<Rightarrow> (e, s\<lparr>elements := st\<rparr>))"

definition cache_del :: "'s store_ops \<Rightarrow> bytes \<Rightarrow> 's state_cache \<Rightarrow> 's state_cache" where
  "cache_del St key s =
     (let s1 = setDirty key True (saveCachePreState St key s)
      in s1\<lparr>elements := st_set St key None (elements s1)\<rparr>)"

section \<open>Flushing and checkpoints\<close>

text \<open>The loop of \<^verbatim>\<open>flush\<close> over the dirty keys: the items so far.\<close>

fun flush_loop :: "'s store_ops \<Rightarrow> bytes list \<Rightarrow> 's state_cache \<Rightarrow> (bytes \<times> elem) list \<times> 's state_cache" where
  "flush_loop St [] s = ([], s)"
| "flush_loop St (key # keys) s = (case cache_get St key s of
     (None, s1) \<Rightarrow> flush_loop St keys s1
   | (Some e, s1) \<Rightarrow>
       (case flush_loop St keys (if dirtyCheckpoints s1 \<noteq> [] then saveCachePreState St key s1 else s1) of
          (items, s2) \<Rightarrow> ((key, e) # items, s2)))"

definition cache_flush :: "'s store_ops \<Rightarrow> 's state_cache \<Rightarrow> (bytes \<times> elem) list \<times> 's state_cache" where
  "cache_flush St s = (case flush_loop St (dirtyKeys s) s of (items, s1) \<Rightarrow>
     (let s2 = clearDirty s1
      in (items, if dirtyCheckpoints s2 = [] then s2\<lparr>diffCache := [[]]\<rparr> else s2)))"

definition cache_checkpoint :: "'s state_cache \<Rightarrow> 's state_cache" where
  "cache_checkpoint s = s\<lparr>dirtyCheckpoints := [] # dirtyCheckpoints s, diffCache := [] # diffCache s\<rparr>"

text \<open>The base class restores or merges the dirty keys, the subclass the elements. Without a checkpoint
  \<^verbatim>\<open>pop\<close> gives \<^verbatim>\<open>undefined\<close>, which cannot be iterated.\<close>

definition restore_dirty :: "(bytes \<times> bool) list \<Rightarrow> bytes list \<Rightarrow> bytes list" where
  "restore_dirty c keys = fold (\<lambda>(key, wasDirty). if wasDirty then add_key key else removeAll key) c keys"

definition restore_elements :: "'s store_ops \<Rightarrow> (bytes \<times> elem option) list \<Rightarrow> 's \<Rightarrow> 's" where
  "restore_elements St d st = fold (\<lambda>(key, e) st. case e of None \<Rightarrow> st_delete St key st | Some x \<Rightarrow> st_set St key x st) d st"

definition cache_revert :: "'s store_ops \<Rightarrow> ('s state_cache, unit) op" where
  "cache_revert St s = (case (dirtyCheckpoints s, diffCache s) of
     (c # cs, d # ds) \<Rightarrow> (Inr (), s\<lparr>dirtyCheckpoints := cs, dirtyKeys := restore_dirty c (dirtyKeys s),
        diffCache := ds, elements := restore_elements St d (elements s)\<rparr>)
   | _ \<Rightarrow> throw (HostError ''TypeError'') s)"

definition merge_first :: "('k \<times> 'v) list \<Rightarrow> ('k \<times> 'v) list \<Rightarrow> ('k \<times> 'v) list" where
  "merge_first new old = fold (\<lambda>(k, v). set_first k v) new old"

definition cache_commit :: "('s state_cache, unit) op" where
  "cache_commit s = (case (dirtyCheckpoints s, diffCache s) of
     (c # cs, d # d' # ds) \<Rightarrow> (Inr (), s\<lparr>dirtyCheckpoints := (case cs of [] \<Rightarrow> [] | c' # cs' \<Rightarrow> merge_first c c' # cs'),
        diffCache := merge_first d d' # ds\<rparr>)
   | _ \<Rightarrow> throw (HostError ''TypeError'') s)"

definition cache_clear :: "'s store_ops \<Rightarrow> 's state_cache \<Rightarrow> 's state_cache" where
  "cache_clear St s = (let s1 = clearDirty s in s1\<lparr>elements := st_clear St (elements s1)\<rparr>)"

section \<open>The code cache\<close>

text \<open>\<^verbatim>\<open>code.ts\<close>: the same operations on code.\<close>

definition code_put :: "'s store_ops \<Rightarrow> bytes \<Rightarrow> bytes option \<Rightarrow> 's state_cache \<Rightarrow> 's state_cache" where
  "code_put St key code = cache_put St key code"

definition code_get :: "'s store_ops \<Rightarrow> bytes \<Rightarrow> 's state_cache \<Rightarrow> bytes option option \<times> 's state_cache" where
  "code_get St key = cache_get St key"

definition code_del :: "'s store_ops \<Rightarrow> bytes \<Rightarrow> 's state_cache \<Rightarrow> 's state_cache" where
  "code_del St key = cache_del St key"

definition code_flush :: "'s store_ops \<Rightarrow> 's state_cache \<Rightarrow> (bytes \<times> bytes option) list \<times> 's state_cache" where
  "code_flush St = cache_flush St"

definition code_revert :: "'s store_ops \<Rightarrow> ('s state_cache, unit) op" where
  "code_revert St = cache_revert St"

definition code_commit :: "('s state_cache, unit) op" where
  "code_commit = cache_commit"

section \<open>The abstract cache\<close>

text \<open>What a cache holds and which keys are dirty; a level is what one checkpoint remembers.\<close>

type_synonym acache = "(bytes \<rightharpoonup> elem) \<times> bytes set"

type_synonym level = "(bytes \<rightharpoonup> elem option) \<times> (bytes \<rightharpoonup> bool)"

definition restore :: "level \<Rightarrow> acache \<Rightarrow> acache" where
  "restore l a = (\<lambda>k. case fst l k of Some old \<Rightarrow> old | None \<Rightarrow> fst a k,
     {k. case snd l k of Some w \<Rightarrow> w | None \<Rightarrow> k \<in> snd a})"

text \<open>\<open>T\<close> is the trie behind the cache: a clean element agrees with it, and every dirty key has an element;
  elements satisfy \<open>G\<close>.\<close>

definition coherent :: "(bytes \<Rightarrow> elem \<Rightarrow> bool) \<Rightarrow> acache \<Rightarrow> (bytes \<rightharpoonup> bytes) \<Rightarrow> bool" where
  "coherent G a T \<longleftrightarrow> (\<forall>k e. fst a k = Some e \<longrightarrow> G k e \<and> (k \<notin> snd a \<longrightarrow> e = T k)) \<and> snd a \<subseteq> dom (fst a)"

definition reads :: "acache \<Rightarrow> (bytes \<rightharpoonup> bytes) \<Rightarrow> bytes \<rightharpoonup> bytes" where
  "reads a T k = (case fst a k of Some e \<Rightarrow> e | None \<Rightarrow> T k)"

text \<open>Undoing the levels one by one gives coherent caches; this is what they read.\<close>

fun levels_ok :: "(bytes \<Rightarrow> elem \<Rightarrow> bool) \<Rightarrow> acache \<Rightarrow> level list \<Rightarrow> (bytes \<rightharpoonup> bytes) list \<Rightarrow> bool" where
  "levels_ok G a [] [] = True"
| "levels_ok G a (l # ls) (T # Ts) \<longleftrightarrow> dom (snd l) \<subseteq> dom (fst l) \<and> coherent G (restore l a) T \<and> levels_ok G (restore l a) ls Ts"
| "levels_ok G a _ _ = False"

fun saved_reads :: "acache \<Rightarrow> level list \<Rightarrow> (bytes \<rightharpoonup> bytes) list \<Rightarrow> (bytes \<rightharpoonup> bytes) list" where
  "saved_reads a (l # ls) (T # Ts) = reads (restore l a) T # saved_reads (restore l a) ls Ts"
| "saved_reads a _ _ = []"

lemma levels_length: "levels_ok G a ls Ts \<Longrightarrow> length ls = length Ts"
  by (induction G a ls Ts rule: levels_ok.induct) auto

definition put_level :: "bytes \<Rightarrow> acache \<Rightarrow> level \<Rightarrow> level" where
  "put_level k a l = (if fst l k = None then (fst l)(k \<mapsto> fst a k) else fst l,
     if snd l k = None \<and> k \<notin> snd a then (snd l)(k \<mapsto> False) else snd l)"

lemma put_level:
  "restore (put_level k a l) ((fst a)(k \<mapsto> e), insert k (snd a)) = restore l a"
  "dom (snd l) \<subseteq> dom (fst l) \<Longrightarrow> dom (snd (put_level k a l)) \<subseteq> dom (fst (put_level k a l))"
  by (auto simp: restore_def put_level_def fun_eq_iff split: option.splits if_splits)

text \<open>Flushing remembers the dirty keys and cleans them.\<close>

definition flush_level :: "acache \<Rightarrow> level \<Rightarrow> level" where
  "flush_level a l = (\<lambda>k. if fst l k = None \<and> k \<in> snd a then Some (fst a k) else fst l k,
     \<lambda>k. if snd l k = None \<and> k \<in> snd a then Some True else snd l k)"

lemma flush_level:
  "restore (flush_level a l) (fst a, {}) = restore l a"
  "dom (snd l) \<subseteq> dom (fst l) \<Longrightarrow> dom (snd (flush_level a l)) \<subseteq> dom (fst (flush_level a l))"
proof -
  show "restore (flush_level a l) (fst a, {}) = restore l a"
    by (auto simp: restore_def flush_level_def fun_eq_iff split: option.splits if_splits)
  show "dom (snd l) \<subseteq> dom (fst l) \<Longrightarrow> dom (snd (flush_level a l)) \<subseteq> dom (fst (flush_level a l))"
    by (auto simp: flush_level_def dom_def subset_iff split: if_splits)
qed

definition merge_level :: "level \<Rightarrow> level \<Rightarrow> level" where
  "merge_level l m = (fst l ++ fst m, snd l ++ snd m)"

lemma merge_level:
  "restore (merge_level l m) a = restore m (restore l a)"
  "dom (snd l) \<subseteq> dom (fst l) \<Longrightarrow> dom (snd m) \<subseteq> dom (fst m) \<Longrightarrow> dom (snd (merge_level l m)) \<subseteq> dom (fst (merge_level l m))"
proof -
  show "restore (merge_level l m) a = restore m (restore l a)"
    by (auto simp: restore_def merge_level_def fun_eq_iff map_add_def split: option.splits)
  show "dom (snd l) \<subseteq> dom (fst l) \<Longrightarrow> dom (snd m) \<subseteq> dom (fst m) \<Longrightarrow> dom (snd (merge_level l m)) \<subseteq> dom (fst (merge_level l m))"
    by (auto simp: merge_level_def)
qed

text \<open>A clean element may disappear.\<close>

lemma coherent_evict:
  assumes "coherent G a T" "k \<notin> snd a"
  shows "coherent G ((fst a)(k := None), snd a) T" "reads ((fst a)(k := None), snd a) T = reads a T"
  using assms by (auto simp: coherent_def reads_def fun_eq_iff split: option.splits)

lemma levels_evict:
  assumes "levels_ok G a ls Ts" "k \<notin> snd a"
  shows "levels_ok G ((fst a)(k := None), snd a) ls Ts \<and> saved_reads ((fst a)(k := None), snd a) ls Ts = saved_reads a ls Ts"
  using assms
proof (induction G a ls Ts rule: levels_ok.induct)
  case (2 G a l ls T Ts)
  let ?r = "restore l a"
  have l: "levels_ok G ?r ls Ts" "coherent G ?r T" "dom (snd l) \<subseteq> dom (fst l)" using 2(2) by simp_all
  show ?case
  proof (cases "fst l k")
    case None
    then have e: "restore l ((fst a)(k := None), snd a) = ((fst ?r)(k := None), snd ?r)"
      by (auto simp: restore_def fun_eq_iff split: option.splits)
    have k: "k \<notin> snd ?r" using None 2(2,3) by (auto simp: restore_def split: option.splits)
    show ?thesis unfolding levels_ok.simps saved_reads.simps e using 2(1) [OF l(1) k] coherent_evict [OF l(2) k] l(3) by metis
  next
    case (Some x)
    then have e: "restore l ((fst a)(k := None), snd a) = ?r" by (auto simp: restore_def fun_eq_iff split: option.splits)
    show ?thesis using 2(2) unfolding levels_ok.simps saved_reads.simps e by blast
  qed
qed auto

text \<open>Changes of the newest level that leave what the levels restore.\<close>

definition on_level :: "(level \<Rightarrow> level) \<Rightarrow> level list \<Rightarrow> level list" where
  "on_level f ls = (case ls of [] \<Rightarrow> [] | l # ls' \<Rightarrow> f l # ls')"

lemma levels_same:
  assumes "levels_ok G a ls Ts" "\<And>l. restore (f l) a' = restore l a" "\<And>l. dom (snd l) \<subseteq> dom (fst l) \<Longrightarrow> dom (snd (f l)) \<subseteq> dom (fst (f l))"
  shows "levels_ok G a' (on_level f ls) Ts \<and>
    saved_reads a' (on_level f ls) Ts = saved_reads a ls Ts"
  using assms(1) by (cases ls; cases Ts) (simp_all add: on_level_def assms(2,3))

section \<open>The cache implements it\<close>

definition cache_abs :: "('s \<Rightarrow> bytes \<rightharpoonup> elem) \<Rightarrow> 's state_cache \<Rightarrow> acache" where
  "cache_abs R s = (R (elements s), set (dirtyKeys s))"

definition cache_levels :: "'s state_cache \<Rightarrow> level list" where
  "cache_levels s = map2 (\<lambda>d c. (map_of d, map_of c)) (diffCache s) (dirtyCheckpoints s)"

definition cache_wf :: "'s state_cache \<Rightarrow> bool" where
  "cache_wf s \<longleftrightarrow> length (diffCache s) = Suc (length (dirtyCheckpoints s)) \<and> distinct (dirtyKeys s) \<and>
     (\<forall>m \<in> set (diffCache s). distinct (map fst m)) \<and> (\<forall>m \<in> set (dirtyCheckpoints s). distinct (map fst m))"

lemma store_laws:
  assumes "store_ok St R"
  shows "st_get St k c = (x, c') \<Longrightarrow> x = R c k \<and> R c' = R c" "R (st_set St k e c) = (R c)(k \<mapsto> e)"
    "R (st_delete St k c) = (R c)(k := None)" "R (st_clear St c) = Map.empty"
  using assms by (auto simp: store_ok_def) (metis fst_conv, metis snd_conv)

lemma snoc_laws:
  assumes "map_of m k = None"
  shows "map_of (m @ [(k, v)]) = (map_of m)(k \<mapsto> v)" "distinct (map fst m) \<Longrightarrow> distinct (map fst (m @ [(k, v)]))"
proof -
  show "map_of (m @ [(k, v)]) = (map_of m)(k \<mapsto> v)"
  proof
    fix x show "map_of (m @ [(k, v)]) x = ((map_of m)(k \<mapsto> v)) x"
      using assms by (cases "map_of m x") (auto simp: map_add_def simp del: map_of_eq_None_iff)
  qed
  show "distinct (map fst m) \<Longrightarrow> distinct (map fst (m @ [(k, v)]))"
    using assms by (auto simp: map_of_eq_None_iff)
qed

lemma set_first_laws:
  "map_of (set_first k v m) = (if map_of m k = None then (map_of m)(k \<mapsto> v) else map_of m)"
  "distinct (map fst m) \<Longrightarrow> distinct (map fst (set_first k v m))"
  using snoc_laws [of m k v] by (simp_all add: set_first_def del: map_append)

lemma merge_first_laws:
  "distinct (map fst m) \<Longrightarrow> distinct (map fst n) \<Longrightarrow> map_of (merge_first n m) = map_of n ++ map_of m \<and> distinct (map fst (merge_first n m))"
proof (induction n arbitrary: m)
  case (Cons e n)
  obtain k v where e: "e = (k, v)" by (cases e)
  have k: "map_of n k = None" using Cons.prems(2) by (simp add: e map_of_eq_None_iff)
  have "map_of (merge_first (e # n) m) = map_of n ++ map_of (set_first k v m) \<and> distinct (map fst (merge_first (e # n) m))"
    using Cons.IH [of "set_first k v m"] Cons.prems set_first_laws(2) [where k = k and v = v and m = m] by (simp add: merge_first_def e)
  moreover have "map_of n ++ map_of (set_first k v m) = map_of (e # n) ++ map_of m"
    using k by (auto simp: set_first_laws(1) e map_add_def fun_eq_iff split: option.splits)
  ultimately show ?case by metis
qed (simp add: merge_first_def)

lemma add_key_laws [simp]: "set (add_key k ks) = insert k (set ks)" "distinct ks \<Longrightarrow> distinct (add_key k ks)"
  by (auto simp: add_key_def)

lemma setDirty_law:
  assumes "cache_wf s"
  shows "cache_wf (setDirty k b s) \<and> elements (setDirty k b s) = elements s \<and> diffCache (setDirty k b s) = diffCache s \<and>
    set (dirtyKeys (setDirty k b s)) = (if b then insert k (set (dirtyKeys s)) else set (dirtyKeys s) - {k}) \<and>
    cache_levels (setDirty k b s) = on_level (\<lambda>(d, q). (d, if q k = None \<and> (k \<in> set (dirtyKeys s)) \<noteq> b then q(k \<mapsto> \<not> b) else q)) (cache_levels s) \<and>
    length (dirtyCheckpoints (setDirty k b s)) = length (dirtyCheckpoints s)"
proof (cases "k \<in> set (dirtyKeys s) \<longleftrightarrow> b")
  case True
  then have "setDirty k b s = s" by (simp add: setDirty_def)
  moreover have "on_level (\<lambda>(d, q). (d, if q k = None \<and> (k \<in> set (dirtyKeys s)) \<noteq> b then q(k \<mapsto> \<not> b) else q)) (cache_levels s) = cache_levels s"
    using True by (simp add: on_level_def split: list.splits prod.splits)
  ultimately show ?thesis using True assms by auto
next
  case False
  then obtain d ds where d: "diffCache s = d # ds" using assms by (cases "diffCache s") (auto simp: cache_wf_def)
  show ?thesis
  proof (cases "dirtyCheckpoints s")
    case Nil
    with False assms d show ?thesis
      by (auto simp: setDirty_def cache_wf_def cache_levels_def on_level_def distinct_removeAll)
  next
    case (Cons c cs)
    with False assms d show ?thesis
      by (auto simp: setDirty_def cache_wf_def cache_levels_def on_level_def distinct_removeAll set_first_laws)
  qed
qed

lemma savePre_law:
  assumes "store_ok St R" "cache_wf s"
  shows "cache_wf (saveCachePreState St k s) \<and> cache_abs R (saveCachePreState St k s) = cache_abs R s \<and>
    dirtyKeys (saveCachePreState St k s) = dirtyKeys s \<and> length (dirtyCheckpoints (saveCachePreState St k s)) = length (dirtyCheckpoints s) \<and>
    cache_levels (saveCachePreState St k s) = on_level (\<lambda>(d, q). (if d k = None then d(k \<mapsto> R (elements s) k) else d, q)) (cache_levels s)"
proof -
  obtain d ds where d: "diffCache s = d # ds" using assms by (cases "diffCache s") (auto simp: cache_wf_def)
  obtain x c where g: "st_get St k (elements s) = (x, c)" by (cases "st_get St k (elements s)")
  note gl = store_laws(1) [OF assms(1) g]
  show ?thesis
  proof (cases "map_of d k")
    case (Some y)
    then show ?thesis using d assms(2)
      by (cases "dirtyCheckpoints s") (auto simp: saveCachePreState_def cache_levels_def on_level_def)
  next
    case None
    then show ?thesis using d assms(2) g gl
      by (cases "dirtyCheckpoints s") (auto simp: saveCachePreState_def cache_levels_def on_level_def cache_abs_def cache_wf_def snoc_laws simp del: map_of_append map_append)
  qed
qed

lemma on_level_comp: "on_level f (on_level g ls) = on_level (f \<circ> g) ls"
  by (simp add: on_level_def split: list.splits)

lemma cache_put_law:
  assumes "store_ok St R" "cache_wf s"
  shows "cache_wf (cache_put St k e s) \<and> cache_abs R (cache_put St k e s) = ((fst (cache_abs R s))(k \<mapsto> e), insert k (snd (cache_abs R s))) \<and>
    cache_levels (cache_put St k e s) = on_level (put_level k (cache_abs R s)) (cache_levels s) \<and>
    length (dirtyCheckpoints (cache_put St k e s)) = length (dirtyCheckpoints s)"
proof -
  let ?s1 = "saveCachePreState St k s"
  note a = savePre_law [OF assms, of k]
  let ?s2 = "setDirty k True ?s1"
  have "cache_wf ?s1" using a by blast
  note b = setDirty_law [OF this, of k True]
  let ?s3 = "?s2\<lparr>elements := st_set St k e (elements ?s2)\<rparr>"
  have lv: "cache_levels ?s3 = cache_levels ?s2" "cache_wf ?s3 = cache_wf ?s2" by (simp_all add: cache_levels_def cache_wf_def)
  let ?f = "\<lambda>(d, q). (d, if q k = None \<and> (k \<in> set (dirtyKeys ?s1)) \<noteq> True then q(k \<mapsto> \<not> True) else q)"
  let ?g = "\<lambda>(d, q). (if d k = None then d(k \<mapsto> R (elements s) k) else d, q)"
  have co: "?f \<circ> ?g = put_level k (cache_abs R s)" using a by (auto simp: put_level_def cache_abs_def fun_eq_iff)
  have "cache_levels ?s3 = on_level ?f (cache_levels ?s1)" using b [THEN conjunct2, THEN conjunct2, THEN conjunct2, THEN conjunct2, THEN conjunct1] lv(1) by (rule trans [rotated])
  also have "cache_levels ?s1 = on_level ?g (cache_levels s)" using a by blast
  finally have "cache_levels ?s3 = on_level (put_level k (cache_abs R s)) (cache_levels s)" by (simp only: on_level_comp co)
  moreover have "cache_abs R ?s3 = ((fst (cache_abs R s))(k \<mapsto> e), insert k (snd (cache_abs R s)))"
    using a b store_laws(2) [OF assms(1)] by (auto simp: cache_abs_def)
  ultimately show ?thesis using a b lv by (simp add: cache_put_def Let_def)
qed

lemma cache_get_law:
  assumes "store_ok St R" "cache_wf s" "cache_get St k s = (x, s')"
  shows "x = fst (cache_abs R s) k \<and> cache_wf s' \<and> cache_abs R s' = cache_abs R s \<and> cache_levels s' = cache_levels s \<and>
    dirtyCheckpoints s' = dirtyCheckpoints s \<and> dirtyKeys s' = dirtyKeys s"
  using assms store_laws(1) [OF assms(1), of k "elements s"]
  by (auto simp: cache_get_def cache_abs_def cache_wf_def cache_levels_def split: prod.splits)

text \<open>The loop notes the elements of the dirty keys it visits.\<close>

definition note_elements :: "(bytes \<rightharpoonup> elem) \<Rightarrow> bytes set \<Rightarrow> level \<Rightarrow> level" where
  "note_elements C ks l = (\<lambda>k. if fst l k = None \<and> k \<in> ks \<and> C k \<noteq> None then Some (C k) else fst l k, snd l)"

lemma note_elements_simps:
  "note_elements C {} = id" "C k = None \<Longrightarrow> note_elements C (insert k ks) = note_elements C ks"
  "C k \<noteq> None \<Longrightarrow> note_elements C ks \<circ> (\<lambda>(d, q). (if d k = None then d(k \<mapsto> C k) else d, q)) = note_elements C (insert k ks)"
  by (auto simp: note_elements_def fun_eq_iff)

lemma on_level_id [simp]: "on_level id ls = ls" "on_level (\<lambda>l. l) ls = ls"
  by (simp_all add: on_level_def split: list.splits)

lemma flush_loop_law:
  assumes "store_ok St R"
  shows "cache_wf s \<Longrightarrow> flush_loop St ks s = (items, s') \<Longrightarrow>
    items = map (\<lambda>k. (k, the (fst (cache_abs R s) k))) (filter (\<lambda>k. fst (cache_abs R s) k \<noteq> None) ks) \<and>
    cache_wf s' \<and> cache_abs R s' = cache_abs R s \<and> dirtyKeys s' = dirtyKeys s \<and> length (dirtyCheckpoints s') = length (dirtyCheckpoints s) \<and>
    cache_levels s' = on_level (note_elements (fst (cache_abs R s)) (set ks)) (cache_levels s)"
proof (induction ks arbitrary: s items)
  case Nil
  then show ?case by (simp add: note_elements_simps)
next
  case (Cons k ks)
  let ?C = "fst (cache_abs R s)"
  obtain x s1 where g: "cache_get St k s = (x, s1)" by (cases "cache_get St k s")
  note gl = cache_get_law [OF assms Cons.prems(1) g]
  show ?case
  proof (cases x)
    case None
    then have "?C k = None" using gl by simp
    then show ?thesis using Cons.IH [of s1 items] Cons.prems(2) g gl None by (simp add: note_elements_simps)
  next
    case (Some e)
    define s2 where "s2 = (if dirtyCheckpoints s1 \<noteq> [] then saveCachePreState St k s1 else s1)"
    let ?g = "\<lambda>(d, q). (if d k = None then d(k \<mapsto> ?C k) else d, q)"
    have a: "cache_wf s2 \<and> cache_abs R s2 = cache_abs R s \<and> dirtyKeys s2 = dirtyKeys s \<and> length (dirtyCheckpoints s2) = length (dirtyCheckpoints s) \<and>
        cache_levels s2 = on_level ?g (cache_levels s)"
    proof (cases "dirtyCheckpoints s1 = []")
      case True
      then have "cache_levels s = []" using gl by (simp add: cache_levels_def)
      then show ?thesis using True gl by (simp add: s2_def on_level_def)
    next
      case False
      have r: "R (elements s1) k = ?C k" using gl by (simp add: cache_abs_def)
      have "cache_wf s1" using gl by blast
      from savePre_law [OF assms this, of k, unfolded r] show ?thesis using False gl by (simp add: s2_def)
    qed
    obtain items' where it: "flush_loop St ks s2 = (items', s')" "items = (k, e) # items'"
      using Cons.prems(2) g Some by (auto simp: s2_def split: prod.splits)
    have ih: "items' = map (\<lambda>k. (k, the (?C k))) (filter (\<lambda>k. ?C k \<noteq> None) ks) \<and>
        cache_wf s' \<and> cache_abs R s' = cache_abs R s \<and> dirtyKeys s' = dirtyKeys s \<and> length (dirtyCheckpoints s') = length (dirtyCheckpoints s) \<and>
        cache_levels s' = on_level (note_elements ?C (set ks)) (on_level ?g (cache_levels s))"
      using Cons.IH [OF _ it(1)] a by simp
    have "?C k = Some e" using Some gl by simp
    then show ?thesis using ih it(2) note_elements_simps(3) [of ?C k "set ks"] by (simp add: on_level_comp)
  qed
qed

text \<open>Clearing notes the keys that were dirty.\<close>

definition note_dirty :: "bytes set \<Rightarrow> bytes set \<Rightarrow> level \<Rightarrow> level" where
  "note_dirty D ks l = (fst l, \<lambda>k. if snd l k = None \<and> k \<in> ks \<and> k \<in> D then Some True else snd l k)"

lemma note_both: "D \<subseteq> dom C \<Longrightarrow> note_dirty D D \<circ> note_elements C D = flush_level (C, D)"
  by (auto simp: note_dirty_def note_elements_def flush_level_def fun_eq_iff)

lemma clear_keys_law:
  "cache_wf s \<Longrightarrow> cache_wf (fold (\<lambda>key. setDirty key False) ks s) \<and> elements (fold (\<lambda>key. setDirty key False) ks s) = elements s \<and>
    diffCache (fold (\<lambda>key. setDirty key False) ks s) = diffCache s \<and>
    set (dirtyKeys (fold (\<lambda>key. setDirty key False) ks s)) = set (dirtyKeys s) - set ks \<and>
    length (dirtyCheckpoints (fold (\<lambda>key. setDirty key False) ks s)) = length (dirtyCheckpoints s) \<and>
    cache_levels (fold (\<lambda>key. setDirty key False) ks s) = on_level (note_dirty (set (dirtyKeys s)) (set ks)) (cache_levels s)"
proof (induction ks arbitrary: s)
  case Nil
  have "note_dirty D {} = id" for D by (auto simp: note_dirty_def fun_eq_iff)
  then show ?case using Nil by simp
next
  case (Cons k ks)
  let ?s = "setDirty k False s"
  note a = setDirty_law [OF Cons.prems, of k False]
  let ?g = "\<lambda>(d, q). (d, if q k = None \<and> (k \<in> set (dirtyKeys s)) \<noteq> False then q(k \<mapsto> \<not> False) else q)"
  have co: "note_dirty (set (dirtyKeys ?s)) (set ks) \<circ> ?g = note_dirty (set (dirtyKeys s)) (set (k # ks))"
    using a by (auto simp: note_dirty_def fun_eq_iff)
  have ih: "cache_levels (fold (\<lambda>key. setDirty key False) ks ?s) = on_level (note_dirty (set (dirtyKeys ?s)) (set ks)) (cache_levels ?s)"
    using Cons.IH [of ?s] a by blast
  also have "cache_levels ?s = on_level ?g (cache_levels s)" using a by blast
  finally have "cache_levels (fold (\<lambda>key. setDirty key False) ks ?s) = on_level (note_dirty (set (dirtyKeys s)) (set (k # ks))) (cache_levels s)"
    by (simp only: on_level_comp co)
  then show ?case using Cons.IH [of ?s] a by auto
qed

lemma cache_flush_law:
  assumes "store_ok St R" "cache_wf s" "snd (cache_abs R s) \<subseteq> dom (fst (cache_abs R s))" "cache_flush St s = (items, s')"
  shows "items = map (\<lambda>k. (k, the (fst (cache_abs R s) k))) (dirtyKeys s) \<and> cache_wf s' \<and> cache_abs R s' = (fst (cache_abs R s), {}) \<and>
    length (dirtyCheckpoints s') = length (dirtyCheckpoints s) \<and>
    cache_levels s' = on_level (flush_level (cache_abs R s)) (cache_levels s)"
proof -
  let ?a = "cache_abs R s"
  obtain items1 s1 where l: "flush_loop St (dirtyKeys s) s = (items1, s1)" by (cases "flush_loop St (dirtyKeys s) s")
  note a = flush_loop_law [OF assms(1,2) l]
  let ?s2 = "clearDirty s1"
  have "cache_wf s1" using a by blast
  note b = clear_keys_law [OF this, of "dirtyKeys s1", folded clearDirty_def]
  have D: "set (dirtyKeys s) = snd ?a" by (simp add: cache_abs_def)
  have "filter (\<lambda>k. fst ?a k \<noteq> None) (dirtyKeys s) = dirtyKeys s"
    using assms(3) by (intro filter_True) (auto simp flip: D)
  then have items: "items1 = map (\<lambda>k. (k, the (fst ?a k))) (dirtyKeys s)" using a by simp
  have "cache_levels ?s2 = on_level (note_dirty (set (dirtyKeys s)) (set (dirtyKeys s))) (cache_levels s1)" using a b by metis
  also have "cache_levels s1 = on_level (note_elements (fst ?a) (set (dirtyKeys s))) (cache_levels s)" using a by blast
  finally have lv: "cache_levels ?s2 = on_level (flush_level ?a) (cache_levels s)"
    using note_both [OF assms(3)] by (simp add: on_level_comp D)
  have abs: "cache_abs R ?s2 = (fst ?a, {})" using a b by (auto simp: cache_abs_def)
  show ?thesis
  proof (cases "dirtyCheckpoints ?s2 = []")
    case True
    have "cache_flush St s = (items1, ?s2\<lparr>diffCache := [[]]\<rparr>)" using True by (simp add: cache_flush_def l Let_def)
    moreover have "cache_levels ?s2 = []" "cache_levels (?s2\<lparr>diffCache := [[]]\<rparr>) = []" using True by (simp_all add: cache_levels_def)
    moreover have "cache_wf (?s2\<lparr>diffCache := [[]]\<rparr>)" using b True by (simp add: cache_wf_def)
    moreover have "cache_abs R (?s2\<lparr>diffCache := [[]]\<rparr>) = cache_abs R ?s2" by (simp add: cache_abs_def)
    ultimately show ?thesis using assms(4) items abs lv a b by simp
  next
    case False
    then have "cache_flush St s = (items1, ?s2)" by (simp add: cache_flush_def l Let_def)
    then show ?thesis using assms(4) items abs lv a b by simp
  qed
qed

lemma cache_checkpoint_law:
  assumes "cache_wf s"
  shows "cache_wf (cache_checkpoint s) \<and> cache_abs R (cache_checkpoint s) = cache_abs R s \<and>
    cache_levels (cache_checkpoint s) = (Map.empty, Map.empty) # cache_levels s \<and>
    length (dirtyCheckpoints (cache_checkpoint s)) = Suc (length (dirtyCheckpoints s))"
  using assms by (simp add: cache_checkpoint_def cache_wf_def cache_abs_def cache_levels_def)

lemma restore_dirty_law:
  "distinct (map fst c) \<Longrightarrow> distinct ks \<Longrightarrow> distinct (restore_dirty c ks) \<and>
    set (restore_dirty c ks) = {k. case map_of c k of Some w \<Rightarrow> w | None \<Rightarrow> k \<in> set ks}"
proof (induction c arbitrary: ks)
  case (Cons e c)
  obtain k w where e: "e = (k, w)" by (cases e)
  let ?ks = "if w then add_key k ks else removeAll k ks"
  have "map_of c k = None" using Cons.prems by (simp add: e map_of_eq_None_iff)
  moreover have "distinct ?ks" using Cons.prems by (simp add: distinct_removeAll)
  ultimately show ?case using Cons.IH [of ?ks] Cons.prems
    by (auto simp: restore_dirty_def e split: option.splits if_splits)
qed (simp add: restore_dirty_def)

lemma restore_elements_law:
  assumes "store_ok St R"
  shows "distinct (map fst d) \<Longrightarrow> R (restore_elements St d st) = (\<lambda>k. case map_of d k of Some old \<Rightarrow> old | None \<Rightarrow> R st k)"
proof (induction d arbitrary: st)
  case (Cons e d)
  obtain k x where e: "e = (k, x)" by (cases e)
  let ?st = "case x of None \<Rightarrow> st_delete St k st | Some y \<Rightarrow> st_set St k y st"
  have k: "map_of d k = None" using Cons.prems by (simp add: e map_of_eq_None_iff)
  have "R ?st = (R st)(k := x)" using store_laws [OF assms] by (simp split: option.splits)
  then show ?case using Cons.IH [of ?st] Cons.prems k
    by (auto simp: restore_elements_def e fun_eq_iff split: option.splits)
qed (simp add: restore_elements_def)

lemma cache_revert_law:
  assumes "store_ok St R" "cache_wf s" "cache_levels s = l # ls"
  shows "\<exists>s'. cache_revert St s = (Inr (), s') \<and> cache_wf s' \<and> cache_abs R s' = restore l (cache_abs R s) \<and> cache_levels s' = ls \<and>
    length (dirtyCheckpoints s) = Suc (length (dirtyCheckpoints s'))"
proof -
  obtain c cs d ds where s: "dirtyCheckpoints s = c # cs" "diffCache s = d # ds" "l = (map_of d, map_of c)"
    using assms(3) by (cases "dirtyCheckpoints s"; cases "diffCache s") (auto simp: cache_levels_def)
  have w: "distinct (map fst d)" "distinct (map fst c)" "distinct (dirtyKeys s)" using assms(2) s by (auto simp: cache_wf_def)
  show ?thesis
    using s assms(2,3) restore_dirty_law [OF w(2,3)] restore_elements_law [OF assms(1) w(1), of "elements s"]
    by (auto simp: cache_revert_def cache_wf_def cache_abs_def cache_levels_def restore_def split: option.splits)
qed

lemma cache_commit_law:
  assumes "cache_wf s" "cache_levels s = l # ls"
  shows "\<exists>s'. cache_commit s = (Inr (), s') \<and> cache_wf s' \<and> cache_abs R s' = cache_abs R s \<and>
    cache_levels s' = on_level (merge_level l) ls \<and> length (dirtyCheckpoints s) = Suc (length (dirtyCheckpoints s'))"
proof -
  obtain c cs d ds where s: "dirtyCheckpoints s = c # cs" "diffCache s = d # ds" "l = (map_of d, map_of c)"
    using assms(2) by (cases "dirtyCheckpoints s"; cases "diffCache s") (auto simp: cache_levels_def)
  obtain d' ds' where d: "ds = d' # ds'" using assms(1) s by (cases ds) (auto simp: cache_wf_def)
  have w: "distinct (map fst d)" "distinct (map fst d')" "distinct (map fst c)" using assms(1) s d by (auto simp: cache_wf_def)
  note m = merge_first_laws [OF w(2,1)]
  show ?thesis
  proof (cases cs)
    case Nil
    then show ?thesis using s d assms m by (auto simp: cache_commit_def cache_wf_def cache_abs_def cache_levels_def on_level_def)
  next
    case (Cons c' cs')
    then have "distinct (map fst c')" using assms(1) s by (auto simp: cache_wf_def)
    note m' = merge_first_laws [OF this w(3)]
    show ?thesis using s d assms m m' Cons
      by (auto simp: cache_commit_def cache_wf_def cache_abs_def cache_levels_def on_level_def merge_level_def)
  qed
qed

end
