(* ===== verification/AccountLayer.thy ===== *)
theory AccountLayer
  imports StateCache TrieMap
begin

text \<open>
  The accounts of \<^verbatim>\<open>packages/statemanager/src/merkleStateManager.ts\<close>: the write-back cache in front
  of the Merkle Patricia trie, moved together by checkpoints, written to the trie when the
  outermost checkpoint closes and whenever the state root is asked for. An account is its RLP form.
  Code, storage tries and the registry of token ids are left out: the caches of code and storage
  are switched off, as a size of zero does.

  The result: with the cache or without it, whatever clean elements the cache drops and wherever
  the state root is taken, accounts read as the committed writes say, and the state root depends
  on those accounts alone.
\<close>

section \<open>State and operations\<close>

record ('c, 's) msm =
  m_trie :: "'c trie"
  m_cache :: "'s state_cache option"
  checkpointCount :: nat

definition new_msm :: "trie_opts \<Rightarrow> 'c option \<Rightarrow> 's option \<Rightarrow> ('c, 's) msm" where
  "new_msm c cc st = \<lparr>m_trie = new_trie c cc, m_cache = map_option new_cache st, checkpointCount = 0\<rparr>"

definition on_trie :: "('c trie, 'a) op \<Rightarrow> (('c, 's) msm, 'a) op" where
  "on_trie f s = (case f (m_trie s) of (r, t) \<Rightarrow> (r, s\<lparr>m_trie := t\<rparr>))"

definition on_cache :: "('s state_cache, 'a) op \<Rightarrow> (('c, 's) msm, unit) op" where
  "on_cache f s = (case m_cache s of None \<Rightarrow> (Inr (), s)
     | Some ch \<Rightarrow> (case f ch of (Inl e, ch') \<Rightarrow> (Inl e, s\<lparr>m_cache := Some ch'\<rparr>) | (Inr _, ch') \<Rightarrow> (Inr (), s\<lparr>m_cache := Some ch'\<rparr>)))"

definition mod_cache :: "('s state_cache \<Rightarrow> 's state_cache) \<Rightarrow> (('c, 's) msm, unit) op" where
  "mod_cache f s = (Inr (), s\<lparr>m_cache := map_option f (m_cache s)\<rparr>)"

definition value_rlp :: "rlp_input \<Rightarrow> exn + bytes option" where
  "value_rlp v = (case v of INull \<Rightarrow> Inr None | IBytes b \<Rightarrow> Inr (Some b) | _ \<Rightarrow> Inl (HostError ''TypeError''))"

definition read_trie :: "trie_opts \<Rightarrow> 'c lru \<Rightarrow> 's store_ops \<Rightarrow> bytes \<Rightarrow> (('c, 's) msm, bytes option) op" where
  "read_trie c L St addr =
     bnd (on_trie (trie_get c L addr False)) (\<lambda>v.
     bnd (lift_sum (value_rlp v)) (\<lambda>account.
     sq (mod_cache (cache_put St addr account)) (ret account)))"

definition msm_getAccount :: "trie_opts \<Rightarrow> 'c lru \<Rightarrow> 's store_ops \<Rightarrow> bytes \<Rightarrow> (('c, 's) msm, bytes option) op" where
  "msm_getAccount c L St addr s = (case m_cache s of
     None \<Rightarrow> read_trie c L St addr s
   | Some ch \<Rightarrow> (case cache_get St addr ch of
       (Some e, ch') \<Rightarrow> (Inr e, s\<lparr>m_cache := Some ch'\<rparr>)
     | (None, ch') \<Rightarrow> read_trie c L St addr (s\<lparr>m_cache := Some ch'\<rparr>)))"

definition msm_putAccount :: "trie_opts \<Rightarrow> 'c lru \<Rightarrow> 's store_ops \<Rightarrow> bytes \<Rightarrow> bytes option \<Rightarrow> (('c, 's) msm, unit) op" where
  "msm_putAccount c L St addr account s = (case m_cache s of
     None \<Rightarrow> (case account of
         Some rlp \<Rightarrow> on_trie (trie_put c L addr rlp False) s
       | None \<Rightarrow> on_trie (trie_del c L addr False) s)
   | Some ch \<Rightarrow> (case account of
         Some rlp \<Rightarrow> mod_cache (cache_put St addr (Some rlp)) s
       | None \<Rightarrow> mod_cache (cache_del St addr) s))"

definition msm_deleteAccount :: "trie_opts \<Rightarrow> 'c lru \<Rightarrow> 's store_ops \<Rightarrow> bytes \<Rightarrow> (('c, 's) msm, unit) op" where
  "msm_deleteAccount c L St addr =
     bnd (msm_getAccount c L St addr) (\<lambda>_.
     sq (mod_cache (cache_del St addr))
     (\<lambda>s. if m_cache s = None then on_trie (trie_del c L addr False) s else (Inr (), s)))"

text \<open>The loop of \<^verbatim>\<open>flush\<close> over the account items.\<close>

fun write_items :: "trie_opts \<Rightarrow> 'c lru \<Rightarrow> (bytes \<times> elem) list \<Rightarrow> ('c trie, unit) op" where
  "write_items c L [] = ret ()"
| "write_items c L ((addr, e) # items) =
     sq (case e of None \<Rightarrow> trie_del c L addr False | Some rlp \<Rightarrow> trie_put c L addr rlp False) (write_items c L items)"

definition msm_flush :: "trie_opts \<Rightarrow> 'c lru \<Rightarrow> 's store_ops \<Rightarrow> (('c, 's) msm, unit) op" where
  "msm_flush c L St s = (case m_cache s of
     None \<Rightarrow> (Inr (), s)
   | Some ch \<Rightarrow> (case cache_flush St ch of (items, ch') \<Rightarrow> on_trie (write_items c L items) (s\<lparr>m_cache := Some ch'\<rparr>)))"

definition msm_checkpoint :: "(('c, 's) msm, unit) op" where
  "msm_checkpoint =
     sq (on_trie trie_checkpoint) (sq (mod_cache cache_checkpoint) (modify (\<lambda>s. s\<lparr>checkpointCount := checkpointCount s + 1\<rparr>)))"

text \<open>What \<^verbatim>\<open>commit\<close> and \<^verbatim>\<open>revert\<close> do with the counter.\<close>

definition close_checkpoint :: "trie_opts \<Rightarrow> 'c lru \<Rightarrow> 's store_ops \<Rightarrow> (('c, 's) msm, unit) op" where
  "close_checkpoint c L St s =
     (let s1 = s\<lparr>checkpointCount := checkpointCount s - 1\<rparr>
      in if checkpointCount s1 = 0 then msm_flush c L St s1 else (Inr (), s1))"

definition msm_commit :: "trie_opts \<Rightarrow> 'c lru \<Rightarrow> 's store_ops \<Rightarrow> (('c, 's) msm, unit) op" where
  "msm_commit c L St = sq (on_trie (trie_commit c L)) (sq (on_cache cache_commit) (close_checkpoint c L St))"

definition msm_revert :: "trie_opts \<Rightarrow> 'c lru \<Rightarrow> 's store_ops \<Rightarrow> (('c, 's) msm, unit) op" where
  "msm_revert c L St = sq (on_trie (trie_revert c L)) (sq (on_cache (cache_revert St)) (close_checkpoint c L St))"

definition msm_getStateRoot :: "trie_opts \<Rightarrow> 'c lru \<Rightarrow> 's store_ops \<Rightarrow> (('c, 's) msm, bytes) op" where
  "msm_getStateRoot c L St = bnd (msm_flush c L St) (\<lambda>_. gets (\<lambda>s. t_root (m_trie s)))"

text \<open>The cache drops an element on its own, as an \<^verbatim>\<open>LRUCache\<close> does that is full; a dirty element must not
  be dropped, which the size of the cache has to guarantee.\<close>

definition msm_drop :: "'s store_ops \<Rightarrow> bytes \<Rightarrow> (('c, 's) msm, unit) op" where
  "msm_drop St addr = mod_cache (\<lambda>ch. if addr \<in> set (dirtyKeys ch) then ch else ch\<lparr>elements := st_delete St addr (elements ch)\<rparr>)"

section \<open>Steps\<close>

datatype account_step = PutAccount bytes elem | DeleteAccount bytes | ReadAccount bytes | TakeRoot | Drop bytes

fun msm_step :: "trie_opts \<Rightarrow> 'c lru \<Rightarrow> 's store_ops \<Rightarrow> account_step \<Rightarrow> (('c, 's) msm, unit) op" where
  "msm_step c L St (PutAccount addr e) = msm_putAccount c L St addr e"
| "msm_step c L St (DeleteAccount addr) = msm_deleteAccount c L St addr"
| "msm_step c L St (ReadAccount addr) = sq (msm_getAccount c L St addr) (ret ())"
| "msm_step c L St TakeRoot = sq (msm_getStateRoot c L St) (ret ())"
| "msm_step c L St (Drop addr) = msm_drop St addr"

text \<open>The specification: only writes change the accounts.\<close>

fun account_change :: "account_step \<Rightarrow> (bytes \<rightharpoonup> bytes) \<Rightarrow> bytes \<rightharpoonup> bytes" where
  "account_change (PutAccount addr e) m = m(addr := e)"
| "account_change (DeleteAccount addr) m = m(addr := None)"
| "account_change _ m = m"

section \<open>The trie behind the cache\<close>

definition account_env :: "trie_opts \<Rightarrow> 'c lru \<Rightarrow> ('c \<Rightarrow> bytes \<rightharpoonup> bytes) \<Rightarrow> 's store_ops \<Rightarrow> ('s \<Rightarrow> bytes \<rightharpoonup> elem) \<Rightarrow>
    nat \<Rightarrow> (nibbles \<times> bytes) set \<Rightarrow> bytes set \<Rightarrow> bool" where
  "account_env c L E St R m P A \<longleftrightarrow> trie_ok c (2 * m) P \<and> lru_ok L E \<and> store_ok St R \<and> inj_on (appliedKey c) A \<and>
     (\<forall>k \<in> A. length (appliedKey c k) = m) \<and> (\<forall>(q, v) \<in> P. \<exists>k \<in> A. q = bytesToNibbles (appliedKey c k))"

definition good_elem :: "trie_opts \<Rightarrow> (nibbles \<times> bytes) set \<Rightarrow> bytes set \<Rightarrow> bytes \<Rightarrow> elem \<Rightarrow> bool" where
  "good_elem c P A k e \<longleftrightarrow> k \<in> A \<and> (\<forall>b. e = Some b \<longrightarrow> b \<noteq> [] \<and> (bytesToNibbles (appliedKey c k), b) \<in> P)"

fun account_step_ok :: "trie_opts \<Rightarrow> (nibbles \<times> bytes) set \<Rightarrow> bytes set \<Rightarrow> account_step \<Rightarrow> bool" where
  "account_step_ok c P A (PutAccount k e) \<longleftrightarrow> good_elem c P A k e"
| "account_step_ok c P A (DeleteAccount k) \<longleftrightarrow> k \<in> A"
| "account_step_ok c P A (ReadAccount k) \<longleftrightarrow> k \<in> A"
| "account_step_ok c P A _ \<longleftrightarrow> True"

text \<open>The accounts of a tree, among the addresses in use.\<close>

definition trie_accounts :: "trie_opts \<Rightarrow> bytes set \<Rightarrow> tree option \<Rightarrow> bytes \<rightharpoonup> bytes" where
  "trie_accounts c A x k = (if k \<in> A then tmap x (appliedKey c k) else None)"

lemma trie_write_law:
  assumes env: "account_env c L E St R m P A" and inv: "trie_inv c E (2 * m) P t" and g: "good_elem c P A k e"
  shows "\<exists>t'. (case e of None \<Rightarrow> trie_del c L k False | Some rlp \<Rightarrow> trie_put c L k rlp False) t = (Inr (), t') \<and> trie_inv c E (2 * m) P t' \<and>
    trie_accounts c A (trie_view c (2 * m) P t') = (trie_accounts c A (trie_view c (2 * m) P t))(k := e) \<and>
    trie_saved c (2 * m) P t' = trie_saved c (2 * m) P t"
proof -
  have ok: "trie_ok c (2 * m) P" "lru_ok L E" and k: "k \<in> A" "length (appliedKey c k) = m" and inj: "inj_on (appliedKey c) A"
    using env g by (auto simp: account_env_def good_elem_def)
  let ?w = "case e of None \<Rightarrow> BDel k | Some rlp \<Rightarrow> BPut k rlp"
  have w: "op_ok c (2 * m) P False ?w" using g k by (auto simp: good_elem_def op_key_def split: option.splits)
  have x: "good_tree (2 * m) P (trie_view c (2 * m) P t)" using trie_invD [OF ok(1) inv] by (simp add: tree_at_def)
  have "\<exists>t'. trie_batch c L [?w] False t = (Inr (), t') \<and> trie_inv c E (2 * m) P t' \<and>
      trie_view c (2 * m) P t' = fold (tstep c False) [?w] (trie_view c (2 * m) P t) \<and> trie_saved c (2 * m) P t' = trie_saved c (2 * m) P t"
    using checkpointed.write_law [OF trie_checkpointed [OF ok, where skip = False] inv, of "[?w]"] w by simp
  then obtain t' where t': "trie_batch c L [?w] False t = (Inr (), t')" "trie_inv c E (2 * m) P t'"
    "trie_view c (2 * m) P t' = tstep c False ?w (trie_view c (2 * m) P t)" "trie_saved c (2 * m) P t' = trie_saved c (2 * m) P t"
    by auto
  have p: "persistRoot c L u = (Inr (), u)" for u :: "'a trie" using ok(1) by (simp add: persistRoot_def trie_ok_def)
  have "(case e of None \<Rightarrow> trie_del c L k False | Some rlp \<Rightarrow> trie_put c L k rlp False) t = (Inr (), t')"
    using t'(1) by (auto simp: sq_def bnd_def p split: option.splits prod.splits sum.splits)
  moreover have "tmap (trie_view c (2 * m) P t') = (tmap (trie_view c (2 * m) P t))(appliedKey c k := e)"
    using tstep_good(2) [OF x w] g by (auto simp: t'(3) op_key_def good_elem_def split: option.splits)
  then have "trie_accounts c A (trie_view c (2 * m) P t') = (trie_accounts c A (trie_view c (2 * m) P t))(k := e)"
    using k(1) inj by (auto simp: trie_accounts_def fun_eq_iff inj_on_def)
  ultimately show ?thesis using t' by blast
qed

lemma saved_same:
  assumes "trie_ok c n P" "same_saved t t'" "trie_inv c E n P t" "cdb_inv E (t_db t')" "tree_at c n P (cdb_view (t_db t')) (t_root t') (trie_view c n P t)"
  shows "trie_inv c E n P t' \<and> trie_view c n P t' = trie_view c n P t \<and> trie_saved c n P t' = trie_saved c n P t"
proof -
  have "saved_at t' = saved_at t" using assms(2) by (simp add: saved_at_def same_saved_def)
  then show ?thesis using assms(3-5) tree_of_eq [OF assms(1,5)] by (auto simp: trie_inv_def trie_view_def trie_saved_def)
qed

lemma trie_read_law:
  assumes ok: "trie_ok c (2 * m) P" "lru_ok L E" and inv: "trie_inv c E (2 * m) P t" and k: "length (appliedKey c k) = m"
  shows "\<exists>t'. trie_get c L k False t = (Inr (case tmap (trie_view c (2 * m) P t) (appliedKey c k) of None \<Rightarrow> INull | Some v \<Rightarrow> IBytes v), t') \<and>
    trie_inv c E (2 * m) P t' \<and> trie_view c (2 * m) P t' = trie_view c (2 * m) P t \<and> trie_saved c (2 * m) P t' = trie_saved c (2 * m) P t"
proof -
  let ?x = "trie_view c (2 * m) P t"
  have ci: "cdb_inv E (t_db t)" using inv by (simp add: trie_inv_def)
  note x = trie_invD [OF ok(1) inv]
  have rep: "trie_rep c E (entry_blobs c (2 * m) P) (2 * m) ?x t" "good_tree (2 * m) P ?x" using tree_at_rep [OF ok(1)] ci x by blast+
  have "\<exists>t'. trie_get c L k False t = (Inr (case tmap ?x (appliedKey c k) of None \<Rightarrow> INull | Some v \<Rightarrow> IBytes v), t') \<and>
      trie_rep c E (entry_blobs c (2 * m) P) (2 * m) ?x t' \<and> same_saved t t'"
  proof (cases ?x)
    case None
    then show ?thesis using trie_get_empty [OF ok(2) rep(1) [unfolded None], of k] quiet_rep [OF _ rep(1)] by (auto simp: tmap_def)
  next
    case (Some y)
    have "length (bytesToNibbles (appliedKey c k)) = 2 * m" using k by simp
    then show ?thesis using trie_get_ok [OF trie_ok_plain [OF ok(1)] ok(2) rep(1) [unfolded Some], of k False] ok(1)
      by (auto simp: tmap_def Some trie_ok_def)
  qed
  then obtain t' where t': "trie_get c L k False t = (Inr (case tmap ?x (appliedKey c k) of None \<Rightarrow> INull | Some v \<Rightarrow> IBytes v), t')"
    "trie_rep c E (entry_blobs c (2 * m) P) (2 * m) ?x t'" "same_saved t t'" by blast
  have "cdb_inv E (t_db t') \<and> tree_at c (2 * m) P (cdb_view (t_db t')) (t_root t') ?x"
    using tree_at_rep [OF ok(1)] t'(2) rep(2) by blast
  then show ?thesis using saved_same [OF ok(1) t'(3) inv] t'(1) by blast
qed

lemma write_items_law:
  assumes env: "account_env c L E St R m P A"
  shows "trie_inv c E (2 * m) P t \<Longrightarrow> \<forall>(k, e) \<in> set items. good_elem c P A k e \<Longrightarrow>
    \<exists>t'. write_items c L items t = (Inr (), t') \<and> trie_inv c E (2 * m) P t' \<and>
      trie_accounts c A (trie_view c (2 * m) P t') = fold (\<lambda>(k, e) T. T(k := e)) items (trie_accounts c A (trie_view c (2 * m) P t)) \<and>
      trie_saved c (2 * m) P t' = trie_saved c (2 * m) P t"
proof (induction items arbitrary: t)
  case (Cons i items)
  obtain k e where i: "i = (k, e)" by (cases i)
  obtain t1 where t1: "(case e of None \<Rightarrow> trie_del c L k False | Some rlp \<Rightarrow> trie_put c L k rlp False) t = (Inr (), t1)"
    "trie_inv c E (2 * m) P t1" "trie_accounts c A (trie_view c (2 * m) P t1) = (trie_accounts c A (trie_view c (2 * m) P t))(k := e)"
    "trie_saved c (2 * m) P t1 = trie_saved c (2 * m) P t"
    using trie_write_law [OF env Cons.prems(1), of k e] Cons.prems(2) i by auto
  have "write_items c L (i # items) t = write_items c L items t1"
    using t1(1) by (simp add: i sq_def bnd_def)
  then show ?case using Cons.IH [OF t1(2)] Cons.prems(2) t1(3,4) by (simp add: i)
qed (simp add: ret_def)

lemma fold_items:
  "distinct ks \<Longrightarrow> fold (\<lambda>(k, e) T. T(k := e)) (map (\<lambda>k. (k, f k)) ks) T = (\<lambda>k. if k \<in> set ks then f k else T k)"
  by (induction ks arbitrary: T) (auto simp: fun_eq_iff)

section \<open>The invariant\<close>

definition msm_abs :: "('s \<Rightarrow> bytes \<rightharpoonup> elem) \<Rightarrow> ('c, 's) msm \<Rightarrow> acache" where
  "msm_abs R s = (case m_cache s of None \<Rightarrow> (Map.empty, {}) | Some ch \<Rightarrow> cache_abs R ch)"

definition msm_levels :: "('c, 's) msm \<Rightarrow> level list" where
  "msm_levels s = (case m_cache s of None \<Rightarrow> replicate (checkpointCount s) (Map.empty, Map.empty) | Some ch \<Rightarrow> cache_levels ch)"

definition msm_tries :: "trie_opts \<Rightarrow> nat \<Rightarrow> (nibbles \<times> bytes) set \<Rightarrow> bytes set \<Rightarrow> ('c, 's) msm \<Rightarrow> (bytes \<rightharpoonup> bytes) list" where
  "msm_tries c m P A s = map (trie_accounts c A) (trie_saved c (2 * m) P (m_trie s))"

definition msm_top :: "trie_opts \<Rightarrow> nat \<Rightarrow> (nibbles \<times> bytes) set \<Rightarrow> bytes set \<Rightarrow> ('c, 's) msm \<Rightarrow> bytes \<rightharpoonup> bytes" where
  "msm_top c m P A s = trie_accounts c A (trie_view c (2 * m) P (m_trie s))"

definition msm_inv :: "trie_opts \<Rightarrow> ('c \<Rightarrow> bytes \<rightharpoonup> bytes) \<Rightarrow> ('s \<Rightarrow> bytes \<rightharpoonup> elem) \<Rightarrow> nat \<Rightarrow> (nibbles \<times> bytes) set \<Rightarrow> bytes set \<Rightarrow> ('c, 's) msm \<Rightarrow> bool" where
  "msm_inv c E R m P A s \<longleftrightarrow> trie_inv c E (2 * m) P (m_trie s) \<and> (\<forall>ch. m_cache s = Some ch \<longrightarrow> cache_wf ch) \<and>
     coherent (good_elem c P A) (msm_abs R s) (msm_top c m P A s) \<and>
     levels_ok (good_elem c P A) (msm_abs R s) (msm_levels s) (msm_tries c m P A s) \<and> checkpointCount s = length (msm_levels s)"

definition msm_view :: "trie_opts \<Rightarrow> ('s \<Rightarrow> bytes \<rightharpoonup> elem) \<Rightarrow> nat \<Rightarrow> (nibbles \<times> bytes) set \<Rightarrow> bytes set \<Rightarrow> ('c, 's) msm \<Rightarrow> bytes \<rightharpoonup> bytes" where
  "msm_view c R m P A s = reads (msm_abs R s) (msm_top c m P A s)"

definition msm_saved :: "trie_opts \<Rightarrow> ('s \<Rightarrow> bytes \<rightharpoonup> elem) \<Rightarrow> nat \<Rightarrow> (nibbles \<times> bytes) set \<Rightarrow> bytes set \<Rightarrow> ('c, 's) msm \<Rightarrow> (bytes \<rightharpoonup> bytes) list" where
  "msm_saved c R m P A s = saved_reads (msm_abs R s) (msm_levels s) (msm_tries c m P A s)"

lemma reads_env:
  assumes "account_env c L E St R m P A" "coherent (good_elem c P A) a (trie_accounts c A (trie_view c (2 * m) P t))" "trie_inv c E (2 * m) P t"
  shows "k \<in> A \<Longrightarrow> good_elem c P A k (trie_accounts c A (trie_view c (2 * m) P t) k)"
proof -
  assume k: "k \<in> A"
  have "tree_at c (2 * m) P (cdb_view (t_db t)) (t_root t) (trie_view c (2 * m) P t)"
    using trie_invD [OF _ assms(3)] assms(1) by (simp add: account_env_def)
  then have "good_tree (2 * m) P (trie_view c (2 * m) P t)" by (simp add: tree_at_def)
  then show ?thesis using k tlookup_length [of "2 * m"]
    by (fastforce simp: good_elem_def trie_accounts_def tmap_def good_tree_def within_def split: option.splits)
qed

lemma cache_del_put: "cache_del St k = cache_put St k None"
  by (simp add: cache_del_def cache_put_def fun_eq_iff)

lemma coherent_put:
  "coherent G a T \<Longrightarrow> G k e \<Longrightarrow> coherent G ((fst a)(k \<mapsto> e), insert k (snd a)) T \<and>
    reads ((fst a)(k \<mapsto> e), insert k (snd a)) T = (reads a T)(k := e)"
  by (auto simp: coherent_def reads_def fun_eq_iff)

lemma put_step:
  assumes env: "account_env c L E St R m P A" and inv: "msm_inv c E R m P A s" and ch: "m_cache s = Some ch" and g: "good_elem c P A k e"
  defines "s' \<equiv> s\<lparr>m_cache := Some (cache_put St k e ch)\<rparr>"
  shows "msm_inv c E R m P A s'" "msm_view c R m P A s' = (msm_view c R m P A s)(k := e)" "msm_saved c R m P A s' = msm_saved c R m P A s"
proof -
  have st: "store_ok St R" and wf: "cache_wf ch" using env inv ch by (auto simp: account_env_def msm_inv_def)
  note law = cache_put_law [OF st wf, of k e]
  let ?a = "cache_abs R ch" and ?a' = "((fst (cache_abs R ch))(k \<mapsto> e), insert k (snd (cache_abs R ch)))"
  have abs: "msm_abs R s = ?a" "msm_abs R s' = ?a'" "msm_levels s = cache_levels ch" "msm_levels s' = on_level (put_level k ?a) (cache_levels ch)"
    "msm_top c m P A s' = msm_top c m P A s" "msm_tries c m P A s' = msm_tries c m P A s"
    using law ch by (simp_all add: msm_abs_def msm_levels_def msm_top_def msm_tries_def s'_def)
  have co: "coherent (good_elem c P A) ?a (msm_top c m P A s)" and lv: "levels_ok (good_elem c P A) ?a (cache_levels ch) (msm_tries c m P A s)"
    using inv abs by (simp_all add: msm_inv_def)
  note cp = coherent_put [OF co g] and ls = levels_same [OF lv, of "put_level k ?a" ?a', OF put_level]
  have "length (msm_levels s') = length (msm_levels s)" by (simp add: abs on_level_def split: list.splits)
  then show "msm_inv c E R m P A s'" using inv cp ls law abs unfolding msm_inv_def by (simp add: s'_def)
  show "msm_view c R m P A s' = (msm_view c R m P A s)(k := e)" using cp abs by (simp add: msm_view_def)
  show "msm_saved c R m P A s' = msm_saved c R m P A s" using ls abs by (simp add: msm_saved_def)
qed

text \<open>A trie that reads the same.\<close>

lemma msm_trie_simps [simp]: "msm_levels (s\<lparr>m_trie := t\<rparr>) = msm_levels s" "msm_abs R (s\<lparr>m_trie := t\<rparr>) = msm_abs R s"
  by (simp_all add: msm_levels_def msm_abs_def split: option.split)

lemma trie_step:
  assumes "msm_inv c E R m P A s" "trie_inv c E (2 * m) P t'" "trie_view c (2 * m) P t' = trie_view c (2 * m) P (m_trie s)"
    "trie_saved c (2 * m) P t' = trie_saved c (2 * m) P (m_trie s)"
  shows "msm_inv c E R m P A (s\<lparr>m_trie := t'\<rparr>) \<and> msm_view c R m P A (s\<lparr>m_trie := t'\<rparr>) = msm_view c R m P A s \<and>
    msm_saved c R m P A (s\<lparr>m_trie := t'\<rparr>) = msm_saved c R m P A s"
  using assms by (simp add: msm_inv_def msm_view_def msm_saved_def msm_top_def msm_tries_def)

lemma read_trie_law:
  assumes env: "account_env c L E St R m P A" and inv: "msm_inv c E R m P A s" and k: "k \<in> A" "fst (msm_abs R s) k = None"
  shows "\<exists>s'. read_trie c L St k s = (Inr (msm_view c R m P A s k), s') \<and> msm_inv c E R m P A s' \<and>
    msm_view c R m P A s' = msm_view c R m P A s \<and> msm_saved c R m P A s' = msm_saved c R m P A s"
proof -
  let ?t = "m_trie s" and ?T = "msm_top c m P A s" and ?v = "msm_view c R m P A s"
  have ti: "trie_inv c E (2 * m) P ?t" and co: "coherent (good_elem c P A) (msm_abs R s) ?T" using inv by (simp_all add: msm_inv_def)
  have ok: "trie_ok c (2 * m) P" "lru_ok L E" and len: "length (appliedKey c k) = m" using env k by (simp_all add: account_env_def)
  obtain t' where t': "trie_get c L k False ?t = (Inr (case tmap (trie_view c (2 * m) P ?t) (appliedKey c k) of None \<Rightarrow> INull | Some v \<Rightarrow> IBytes v), t')"
    "trie_inv c E (2 * m) P t'" "trie_view c (2 * m) P t' = trie_view c (2 * m) P ?t" "trie_saved c (2 * m) P t' = trie_saved c (2 * m) P ?t"
    using trie_read_law [OF ok ti len] by blast
  let ?s1 = "s\<lparr>m_trie := t'\<rparr>"
  note s1 = trie_step [OF inv t'(2-4)]
  have v: "?v k = tmap (trie_view c (2 * m) P ?t) (appliedKey c k)"
    using k by (simp add: msm_view_def reads_def msm_top_def trie_accounts_def)
  then have run: "read_trie c L St k s = sq (mod_cache (cache_put St k (?v k))) (ret (?v k)) ?s1"
    using t'(1) by (simp add: read_trie_def bnd_def on_trie_def lift_sum_def value_rlp_def split: option.splits)
  show ?thesis
  proof (cases "m_cache s")
    case None
    then have "read_trie c L St k s = (Inr (?v k), ?s1)" using run by (simp add: sq_def bnd_def mod_cache_def ret_def)
    with s1 show ?thesis by blast
  next
    case (Some ch)
    have g: "good_elem c P A k (?v k)"
      using reads_env [OF env _ ti k(1)] co k(2) by (simp add: msm_view_def reads_def msm_top_def)
    let ?s2 = "?s1\<lparr>m_cache := Some (cache_put St k (?v k) ch)\<rparr>"
    have "read_trie c L St k s = (Inr (?v k), ?s2)" using run Some by (simp add: sq_def bnd_def mod_cache_def ret_def)
    moreover have "m_cache ?s1 = Some ch" using Some by simp
    note p = put_step [OF env s1 [THEN conjunct1] this g]
    have "msm_view c R m P A ?s2 = ?v" using p(2) s1 by (simp add: fun_upd_idem)
    ultimately show ?thesis using p s1 by metis
  qed
qed

lemma getAccount_law:
  assumes env: "account_env c L E St R m P A" and inv: "msm_inv c E R m P A s" and k: "k \<in> A"
  shows "\<exists>s'. msm_getAccount c L St k s = (Inr (msm_view c R m P A s k), s') \<and> msm_inv c E R m P A s' \<and>
    msm_view c R m P A s' = msm_view c R m P A s \<and> msm_saved c R m P A s' = msm_saved c R m P A s"
proof (cases "m_cache s")
  case None
  then show ?thesis using read_trie_law [OF env inv k] by (simp add: msm_getAccount_def msm_abs_def)
next
  case (Some ch)
  have st: "store_ok St R" and wf: "cache_wf ch" using env inv Some by (auto simp: account_env_def msm_inv_def)
  obtain x ch' where g: "cache_get St k ch = (x, ch')" by (cases "cache_get St k ch")
  note gl = cache_get_law [OF st wf g]
  let ?s = "s\<lparr>m_cache := Some ch'\<rparr>"
  have abs: "msm_abs R ?s = msm_abs R s" "msm_levels ?s = msm_levels s" "msm_abs R s = cache_abs R ch"
    "msm_top c m P A ?s = msm_top c m P A s" "msm_tries c m P A ?s = msm_tries c m P A s"
    using gl Some by (simp_all add: msm_abs_def msm_levels_def msm_top_def msm_tries_def)
  have i: "msm_inv c E R m P A ?s" "msm_view c R m P A ?s = msm_view c R m P A s" "msm_saved c R m P A ?s = msm_saved c R m P A s"
    using inv gl unfolding msm_inv_def msm_view_def msm_saved_def abs(1,2,4,5) by simp_all
  show ?thesis
  proof (cases x)
    case None
    then have "fst (msm_abs R ?s) k = None" using gl abs by simp
    from read_trie_law [OF env i(1) k this] show ?thesis using i Some g None by (simp add: msm_getAccount_def)
  next
    case (Some e)
    then have "msm_view c R m P A s k = e" using gl abs(3) by (simp add: msm_view_def reads_def)
    then show ?thesis using i Some \<open>m_cache s = Some ch\<close> g by (simp add: msm_getAccount_def)
  qed
qed

lemma trie_put_step:
  assumes env: "account_env c L E St R m P A" and inv: "msm_inv c E R m P A s" and n: "m_cache s = None" and g: "good_elem c P A k e"
  shows "\<exists>s'. (case e of None \<Rightarrow> on_trie (trie_del c L k False) | Some rlp \<Rightarrow> on_trie (trie_put c L k rlp False)) s = (Inr (), s') \<and>
    msm_inv c E R m P A s' \<and> msm_view c R m P A s' = (msm_view c R m P A s)(k := e) \<and> msm_saved c R m P A s' = msm_saved c R m P A s"
proof -
  have "trie_inv c E (2 * m) P (m_trie s)" using inv by (simp add: msm_inv_def)
  from trie_write_law [OF env this g] obtain t' where t':
    "(case e of None \<Rightarrow> trie_del c L k False | Some rlp \<Rightarrow> trie_put c L k rlp False) (m_trie s) = (Inr (), t')" "trie_inv c E (2 * m) P t'"
    "trie_accounts c A (trie_view c (2 * m) P t') = (trie_accounts c A (trie_view c (2 * m) P (m_trie s)))(k := e)"
    "trie_saved c (2 * m) P t' = trie_saved c (2 * m) P (m_trie s)" by blast
  let ?s = "s\<lparr>m_trie := t'\<rparr>"
  have "(case e of None \<Rightarrow> on_trie (trie_del c L k False) | Some rlp \<Rightarrow> on_trie (trie_put c L k rlp False)) s = (Inr (), ?s)"
    using t'(1) by (simp add: on_trie_def split: option.splits)
  moreover have "msm_inv c E R m P A ?s"
    using inv n t' by (simp add: msm_inv_def msm_abs_def msm_levels_def msm_top_def msm_tries_def coherent_def)
  moreover have "msm_view c R m P A ?s = (msm_view c R m P A s)(k := e)"
    using n t'(3) by (simp add: msm_view_def msm_abs_def msm_top_def reads_def fun_eq_iff)
  moreover have "msm_saved c R m P A ?s = msm_saved c R m P A s"
    using n t'(4) by (simp add: msm_saved_def msm_abs_def msm_levels_def msm_tries_def)
  ultimately show ?thesis by blast
qed

lemma putAccount_law:
  assumes env: "account_env c L E St R m P A" and inv: "msm_inv c E R m P A s" and g: "good_elem c P A k e"
  shows "\<exists>s'. msm_putAccount c L St k e s = (Inr (), s') \<and> msm_inv c E R m P A s' \<and>
    msm_view c R m P A s' = (msm_view c R m P A s)(k := e) \<and> msm_saved c R m P A s' = msm_saved c R m P A s"
proof (cases "m_cache s")
  case None
  then have "msm_putAccount c L St k e s = (case e of None \<Rightarrow> on_trie (trie_del c L k False) | Some rlp \<Rightarrow> on_trie (trie_put c L k rlp False)) s"
    by (simp add: msm_putAccount_def split: option.splits)
  with trie_put_step [OF env inv None g] show ?thesis by simp
next
  case (Some ch)
  then have "msm_putAccount c L St k e s = (Inr (), s\<lparr>m_cache := Some (cache_put St k e ch)\<rparr>)"
    by (simp add: msm_putAccount_def mod_cache_def cache_del_put split: option.splits)
  with put_step [OF env inv Some g] show ?thesis by blast
qed

lemma msm_none: "m_cache s = None \<Longrightarrow> s\<lparr>m_cache := None\<rparr> = s"
  by (cases s) simp

lemma deleteAccount_law:
  assumes env: "account_env c L E St R m P A" and inv: "msm_inv c E R m P A s" and k: "k \<in> A"
  shows "\<exists>s'. msm_deleteAccount c L St k s = (Inr (), s') \<and> msm_inv c E R m P A s' \<and>
    msm_view c R m P A s' = (msm_view c R m P A s)(k := None) \<and> msm_saved c R m P A s' = msm_saved c R m P A s"
proof -
  have g: "good_elem c P A k None" using k by (simp add: good_elem_def)
  obtain s1 where s1: "msm_getAccount c L St k s = (Inr (msm_view c R m P A s k), s1)" "msm_inv c E R m P A s1"
    "msm_view c R m P A s1 = msm_view c R m P A s" "msm_saved c R m P A s1 = msm_saved c R m P A s"
    using getAccount_law [OF env inv k] by blast
  have "msm_deleteAccount c L St k s = msm_putAccount c L St k None s1"
    using s1(1) by (simp add: msm_deleteAccount_def msm_putAccount_def sq_def bnd_def mod_cache_def msm_none split: option.splits)
  with putAccount_law [OF env s1(2) g] s1(3,4) show ?thesis by simp
qed

section \<open>Flushing\<close>

lemma coherent_flush:
  assumes "coherent G a T"
  shows "coherent G (fst a, {}) (\<lambda>k. if k \<in> snd a then the (fst a k) else T k) \<and>
    reads (fst a, {}) (\<lambda>k. if k \<in> snd a then the (fst a k) else T k) = reads a T"
  using assms by (auto simp: coherent_def reads_def fun_eq_iff split: option.splits)

lemma flush_law:
  assumes env: "account_env c L E St R m P A" and inv: "msm_inv c E R m P A s"
  shows "\<exists>s'. msm_flush c L St s = (Inr (), s') \<and> msm_inv c E R m P A s' \<and> snd (msm_abs R s') = {} \<and>
    msm_view c R m P A s' = msm_view c R m P A s \<and> msm_saved c R m P A s' = msm_saved c R m P A s"
proof (cases "m_cache s")
  case None
  then show ?thesis using inv by (simp add: msm_flush_def msm_abs_def)
next
  case (Some ch)
  let ?a = "cache_abs R ch" and ?T = "msm_top c m P A s" and ?G = "good_elem c P A"
  have st: "store_ok St R" and wf: "cache_wf ch" and ti: "trie_inv c E (2 * m) P (m_trie s)"
    using env inv Some by (auto simp: account_env_def msm_inv_def)
  have abs: "msm_abs R s = ?a" "msm_levels s = cache_levels ch" using Some by (simp_all add: msm_abs_def msm_levels_def)
  have co: "coherent ?G ?a ?T" and lv: "levels_ok ?G ?a (cache_levels ch) (msm_tries c m P A s)" using inv abs by (simp_all add: msm_inv_def)
  have D: "snd ?a \<subseteq> dom (fst ?a)" using co by (simp add: coherent_def)
  obtain items ch' where f: "cache_flush St ch = (items, ch')" by (cases "cache_flush St ch")
  note fl = cache_flush_law [OF st wf D f]
  have dirty: "set (dirtyKeys ch) = snd ?a" "distinct (dirtyKeys ch)" using wf by (simp_all add: cache_abs_def cache_wf_def)
  have "\<forall>(k, e) \<in> set items. ?G k e" using fl co D by (auto simp: dirty(1) coherent_def)
  from write_items_law [OF env ti this] obtain t' where t': "write_items c L items (m_trie s) = (Inr (), t')" "trie_inv c E (2 * m) P t'"
    "trie_accounts c A (trie_view c (2 * m) P t') = fold (\<lambda>(k, e) T. T(k := e)) items ?T"
    "trie_saved c (2 * m) P t' = trie_saved c (2 * m) P (m_trie s)" unfolding msm_top_def by blast
  let ?s = "s\<lparr>m_cache := Some ch', m_trie := t'\<rparr>"
  have T': "msm_top c m P A ?s = (\<lambda>k. if k \<in> snd ?a then the (fst ?a k) else ?T k)"
    using t'(3) fl fold_items [OF dirty(2), of "\<lambda>k. the (fst ?a k)" ?T] by (simp add: msm_top_def dirty(1))
  have abs': "msm_abs R ?s = (fst ?a, {})" "msm_levels ?s = on_level (flush_level ?a) (cache_levels ch)"
    "msm_tries c m P A ?s = msm_tries c m P A s"
    using fl t'(4) by (simp_all add: msm_abs_def msm_levels_def msm_tries_def)
  note cf = coherent_flush [OF co] and ls = levels_same [OF lv, of "flush_level ?a" "(fst ?a, {})", OF flush_level]
  have run: "msm_flush c L St s = (Inr (), ?s)" using Some f t'(1) by (simp add: msm_flush_def on_trie_def)
  have "length (msm_levels ?s) = length (msm_levels s)" unfolding abs abs' by (simp add: on_level_def split: list.splits)
  then have "msm_inv c E R m P A ?s"
    using inv cf ls fl t'(2) unfolding msm_inv_def T' abs' by (simp add: abs)
  moreover have "msm_view c R m P A ?s = msm_view c R m P A s" using cf unfolding msm_view_def T' abs' abs by blast
  moreover have "msm_saved c R m P A ?s = msm_saved c R m P A s" using ls unfolding msm_saved_def abs' abs by blast
  ultimately show ?thesis using run abs'(1) by auto
qed

lemma drop_law:
  assumes env: "account_env c L E St R m P A" and inv: "msm_inv c E R m P A s"
  shows "\<exists>s'. msm_drop St k s = (Inr (), s') \<and> msm_inv c E R m P A s' \<and>
    msm_view c R m P A s' = msm_view c R m P A s \<and> msm_saved c R m P A s' = msm_saved c R m P A s"
proof (cases "\<exists>ch. m_cache s = Some ch \<and> k \<notin> set (dirtyKeys ch)")
  case False
  then have "s\<lparr>m_cache := map_option (\<lambda>ch. if k \<in> set (dirtyKeys ch) then ch else ch\<lparr>elements := st_delete St k (elements ch)\<rparr>) (m_cache s)\<rparr> = s"
    by (cases s; cases "m_cache s") auto
  then show ?thesis using inv by (simp add: msm_drop_def mod_cache_def)
next
  case True
  then obtain ch where ch: "m_cache s = Some ch" "k \<notin> set (dirtyKeys ch)" by blast
  let ?a = "cache_abs R ch" and ?ch = "ch\<lparr>elements := st_delete St k (elements ch)\<rparr>"
  let ?s = "s\<lparr>m_cache := Some ?ch\<rparr>" and ?G = "good_elem c P A"
  have st: "store_ok St R" using env by (simp add: account_env_def)
  have abs: "msm_abs R s = ?a" "msm_abs R ?s = ((fst ?a)(k := None), snd ?a)" "msm_levels ?s = msm_levels s"
    "msm_top c m P A ?s = msm_top c m P A s" "msm_tries c m P A ?s = msm_tries c m P A s"
    using ch store_laws(3) [OF st] by (simp_all add: msm_abs_def msm_levels_def cache_abs_def cache_levels_def msm_top_def msm_tries_def)
  have k: "k \<notin> snd ?a" using ch(2) by (simp add: cache_abs_def)
  have co: "coherent ?G ?a (msm_top c m P A s)" and lv: "levels_ok ?G ?a (msm_levels s) (msm_tries c m P A s)" using inv abs by (simp_all add: msm_inv_def)
  note ce = coherent_evict [OF co k] and le = levels_evict [OF lv k]
  have "msm_drop St k s = (Inr (), ?s)" using ch by (simp add: msm_drop_def mod_cache_def)
  moreover have "cache_wf ?ch" using inv ch by (simp add: msm_inv_def cache_wf_def)
  then have "msm_inv c E R m P A ?s" using inv ce le unfolding msm_inv_def abs(2-5) by simp
  moreover have "msm_view c R m P A ?s = msm_view c R m P A s" using ce unfolding msm_view_def abs by blast
  moreover have "msm_saved c R m P A ?s = msm_saved c R m P A s" using le unfolding msm_saved_def abs by blast
  ultimately show ?thesis by blast
qed

lemma step_law:
  assumes env: "account_env c L E St R m P A" and inv: "msm_inv c E R m P A s"
    and w: "account_step_ok c P A w"
  shows "\<exists>s'. msm_step c L St w s = (Inr (), s') \<and> msm_inv c E R m P A s' \<and>
    msm_view c R m P A s' = account_change w (msm_view c R m P A s) \<and> msm_saved c R m P A s' = msm_saved c R m P A s"
proof (cases w)
  case (PutAccount k e)
  then show ?thesis using putAccount_law [OF env inv, of k e] w by simp
next
  case (DeleteAccount k)
  then show ?thesis using deleteAccount_law [OF env inv, of k] w by simp
next
  case (ReadAccount k)
  then show ?thesis using getAccount_law [OF env inv, of k] w by (auto simp: sq_def bnd_def ret_def)
next
  case TakeRoot
  then show ?thesis using flush_law [OF env inv] by (auto simp: sq_def bnd_def ret_def msm_getStateRoot_def gets_def)
next
  case (Drop k)
  then show ?thesis using drop_law [OF env inv, of k] by simp
qed

section \<open>Checkpoints\<close>

lemma close_law:
  assumes env: "account_env c L E St R m P A" and inv: "msm_inv c E R m P A (s\<lparr>checkpointCount := checkpointCount s - 1\<rparr>)"
  shows "\<exists>s'. close_checkpoint c L St s = (Inr (), s') \<and> msm_inv c E R m P A s' \<and>
    msm_view c R m P A s' = msm_view c R m P A (s\<lparr>checkpointCount := checkpointCount s - 1\<rparr>) \<and>
    msm_saved c R m P A s' = msm_saved c R m P A (s\<lparr>checkpointCount := checkpointCount s - 1\<rparr>)"
proof (cases "checkpointCount s - 1 = 0")
  case True
  then show ?thesis using flush_law [OF env inv] by (auto simp: close_checkpoint_def)
qed (use inv in \<open>simp add: close_checkpoint_def\<close>)

text \<open>What is saved, taken apart.\<close>

lemma saved_parts:
  assumes "msm_inv c E R m P A s" "msm_saved c R m P A s = v # vs"
  obtains l ls T Ts where "msm_levels s = l # ls" "msm_tries c m P A s = T # Ts" "v = reads (restore l (msm_abs R s)) T"
    "vs = saved_reads (restore l (msm_abs R s)) ls Ts" "coherent (good_elem c P A) (restore l (msm_abs R s)) T"
    "levels_ok (good_elem c P A) (restore l (msm_abs R s)) ls Ts" "dom (snd l) \<subseteq> dom (fst l)"
proof -
  obtain l ls T Ts where "msm_levels s = l # ls" "msm_tries c m P A s = T # Ts"
    using assms(2) by (cases "msm_levels s"; cases "msm_tries c m P A s") (simp_all add: msm_saved_def)
  with assms that show thesis by (simp add: msm_saved_def msm_inv_def)
qed

lemma restore_empty [simp]: "restore (Map.empty, Map.empty) a = a"
  by (simp add: restore_def)

lemma msm_checkpoint_law:
  assumes env: "account_env c L E St R m P A" and inv: "msm_inv c E R m P A s"
  shows "\<exists>s'. msm_checkpoint s = (Inr (), s') \<and> msm_inv c E R m P A s' \<and>
    msm_view c R m P A s' = msm_view c R m P A s \<and> msm_saved c R m P A s' = msm_view c R m P A s # msm_saved c R m P A s"
proof -
  have ok: "trie_ok c (2 * m) P" "lru_ok L E" using env by (simp_all add: account_env_def)
  have ti: "trie_inv c E (2 * m) P (m_trie s)" using inv by (simp add: msm_inv_def)
  obtain t where t: "trie_checkpoint (m_trie s) = (Inr (), t)" "trie_inv c E (2 * m) P t" "trie_view c (2 * m) P t = trie_view c (2 * m) P (m_trie s)"
    "trie_saved c (2 * m) P t = trie_view c (2 * m) P (m_trie s) # trie_saved c (2 * m) P (m_trie s)"
    using checkpointed.checkpoint_law [OF trie_checkpointed [OF ok, where skip = False] ti] by blast
  let ?s = "s\<lparr>m_trie := t, m_cache := map_option cache_checkpoint (m_cache s), checkpointCount := checkpointCount s + 1\<rparr>"
  have run: "msm_checkpoint s = (Inr (), ?s)"
    using t(1) by (simp add: msm_checkpoint_def sq_def bnd_def on_trie_def mod_cache_def modify_def)
  have tops: "msm_top c m P A ?s = msm_top c m P A s" "msm_tries c m P A ?s = msm_top c m P A s # msm_tries c m P A s"
    using t by (simp_all add: msm_top_def msm_tries_def)
  have wf: "cache_wf ch" if "m_cache s = Some ch" for ch using inv that by (simp add: msm_inv_def)
  have abs: "msm_abs R ?s = msm_abs R s" "msm_levels ?s = (Map.empty, Map.empty) # msm_levels s"
    using cache_checkpoint_law [OF wf, where R = R] by (simp_all add: msm_abs_def msm_levels_def split: option.split)
  have "msm_inv c E R m P A ?s"
    using inv t(2) cache_checkpoint_law [OF wf, where R = R] unfolding msm_inv_def tops abs by auto
  moreover have "msm_view c R m P A ?s = msm_view c R m P A s" by (simp only: msm_view_def tops abs)
  moreover have "msm_saved c R m P A ?s = msm_view c R m P A s # msm_saved c R m P A s"
    unfolding msm_saved_def msm_view_def tops abs by simp
  ultimately show ?thesis using run by blast
qed

text \<open>The caches after a commit or a revert, with the counter already lowered.\<close>

lemma commit_cache_law:
  assumes inv: "msm_inv c E R m P A s" and sv: "msm_saved c R m P A s = v # vs"
    and t: "trie_inv c E (2 * m) P t" "trie_view c (2 * m) P t = trie_view c (2 * m) P (m_trie s)" "trie_saved c (2 * m) P t = tl (trie_saved c (2 * m) P (m_trie s))"
  shows "\<exists>s'. on_cache cache_commit (s\<lparr>m_trie := t\<rparr>) = (Inr (), s') \<and> checkpointCount s' = checkpointCount s \<and>
    msm_inv c E R m P A (s'\<lparr>checkpointCount := checkpointCount s - 1\<rparr>) \<and>
    msm_view c R m P A (s'\<lparr>checkpointCount := checkpointCount s - 1\<rparr>) = msm_view c R m P A s \<and>
    msm_saved c R m P A (s'\<lparr>checkpointCount := checkpointCount s - 1\<rparr>) = vs"
proof -
  obtain l ls T Ts where l: "msm_levels s = l # ls" "msm_tries c m P A s = T # Ts" "vs = saved_reads (restore l (msm_abs R s)) ls Ts"
    "levels_ok (good_elem c P A) (restore l (msm_abs R s)) ls Ts" "dom (snd l) \<subseteq> dom (fst l)"
    using saved_parts [OF inv sv] by metis
  have n: "checkpointCount s = Suc (length ls)" using inv l(1) by (simp add: msm_inv_def)
  have co: "coherent (good_elem c P A) (msm_abs R s) (msm_top c m P A s)" using inv by (simp add: msm_inv_def)
  obtain ch' where ch': "on_cache cache_commit (s\<lparr>m_trie := t\<rparr>) = (Inr (), s\<lparr>m_trie := t, m_cache := ch'\<rparr>)"
    "msm_abs R (s\<lparr>m_trie := t, m_cache := ch', checkpointCount := checkpointCount s - 1\<rparr>) = msm_abs R s"
    "msm_levels (s\<lparr>m_trie := t, m_cache := ch', checkpointCount := checkpointCount s - 1\<rparr>) = on_level (merge_level l) ls"
    "\<And>ch. ch' = Some ch \<Longrightarrow> cache_wf ch"
  proof (cases "m_cache s")
    case None
    have l0: "l = (Map.empty, Map.empty)" "ls = replicate (checkpointCount s - 1) (Map.empty, Map.empty)"
      using l(1) None n by (auto simp: msm_levels_def)
    have "on_level (merge_level l) ls = ls" by (cases ls) (auto simp: on_level_def merge_level_def l0(1))
    with None l0 that [of None] show thesis by (simp add: on_cache_def msm_abs_def msm_levels_def msm_none)
  next
    case (Some ch)
    have "cache_wf ch" "cache_levels ch = l # ls" using inv Some l(1) by (simp_all add: msm_inv_def msm_levels_def)
    from cache_commit_law [OF this, where R = R] obtain ch' where "cache_commit ch = (Inr (), ch')" "cache_wf ch'" "cache_abs R ch' = cache_abs R ch"
      "cache_levels ch' = on_level (merge_level l) ls" by blast
    with Some that [of "Some ch'"] show thesis by (simp add: on_cache_def msm_abs_def msm_levels_def)
  qed
  let ?s = "s\<lparr>m_trie := t, m_cache := ch', checkpointCount := checkpointCount s - 1\<rparr>"
  have tops: "msm_top c m P A ?s = msm_top c m P A s" "msm_tries c m P A ?s = Ts"
    using t l(2) by (auto simp: msm_top_def msm_tries_def map_eq_Cons_conv)
  note ls = levels_same [OF l(4), of "merge_level l" "msm_abs R s", OF merge_level(1) merge_level(2) [OF l(5)]]
  have len: "length (on_level (merge_level l) ls) = length ls" by (simp add: on_level_def split: list.split)
  have "msm_inv c E R m P A ?s" unfolding msm_inv_def tops ch'(2,3) using t(1) co ls ch'(4) n len by simp
  moreover have "msm_view c R m P A ?s = msm_view c R m P A s" by (simp only: msm_view_def tops ch'(2))
  moreover have "msm_saved c R m P A ?s = vs" unfolding msm_saved_def tops ch'(2,3) using ls l(3) by simp
  ultimately show ?thesis using ch'(1) by (intro exI [of _ "s\<lparr>m_trie := t, m_cache := ch'\<rparr>"]) simp
qed

lemma revert_cache_law:
  assumes env: "account_env c L E St R m P A" and inv: "msm_inv c E R m P A s" and sv: "msm_saved c R m P A s = v # vs"
    and t: "trie_inv c E (2 * m) P t" "trie_view c (2 * m) P t = hd (trie_saved c (2 * m) P (m_trie s))" "trie_saved c (2 * m) P t = tl (trie_saved c (2 * m) P (m_trie s))"
  shows "\<exists>s'. on_cache (cache_revert St) (s\<lparr>m_trie := t\<rparr>) = (Inr (), s') \<and> checkpointCount s' = checkpointCount s \<and>
    msm_inv c E R m P A (s'\<lparr>checkpointCount := checkpointCount s - 1\<rparr>) \<and>
    msm_view c R m P A (s'\<lparr>checkpointCount := checkpointCount s - 1\<rparr>) = v \<and>
    msm_saved c R m P A (s'\<lparr>checkpointCount := checkpointCount s - 1\<rparr>) = vs"
proof -
  obtain l ls T Ts where l: "msm_levels s = l # ls" "msm_tries c m P A s = T # Ts" "vs = saved_reads (restore l (msm_abs R s)) ls Ts"
    "levels_ok (good_elem c P A) (restore l (msm_abs R s)) ls Ts" "coherent (good_elem c P A) (restore l (msm_abs R s)) T"
    "v = reads (restore l (msm_abs R s)) T"
    using saved_parts [OF inv sv] by metis
  have n: "checkpointCount s = Suc (length ls)" using inv l(1) by (simp add: msm_inv_def)
  have st: "store_ok St R" using env by (simp add: account_env_def)
  obtain ch' where ch': "on_cache (cache_revert St) (s\<lparr>m_trie := t\<rparr>) = (Inr (), s\<lparr>m_trie := t, m_cache := ch'\<rparr>)"
    "msm_abs R (s\<lparr>m_trie := t, m_cache := ch', checkpointCount := checkpointCount s - 1\<rparr>) = restore l (msm_abs R s)"
    "msm_levels (s\<lparr>m_trie := t, m_cache := ch', checkpointCount := checkpointCount s - 1\<rparr>) = ls"
    "\<And>ch. ch' = Some ch \<Longrightarrow> cache_wf ch"
  proof (cases "m_cache s")
    case None
    have "l = (Map.empty, Map.empty)" "ls = replicate (checkpointCount s - 1) (Map.empty, Map.empty)"
      using l(1) None n by (auto simp: msm_levels_def)
    with None that [of None] show thesis by (simp add: on_cache_def msm_abs_def msm_levels_def msm_none)
  next
    case (Some ch)
    have "cache_wf ch" "cache_levels ch = l # ls" using inv Some l(1) by (simp_all add: msm_inv_def msm_levels_def)
    from cache_revert_law [OF st this] obtain ch' where "cache_revert St ch = (Inr (), ch')" "cache_wf ch'"
      "cache_abs R ch' = restore l (cache_abs R ch)" "cache_levels ch' = ls" by blast
    with Some that [of "Some ch'"] show thesis by (simp add: on_cache_def msm_abs_def msm_levels_def)
  qed
  let ?s = "s\<lparr>m_trie := t, m_cache := ch', checkpointCount := checkpointCount s - 1\<rparr>"
  have "trie_saved c (2 * m) P (m_trie s) \<noteq> []" using l(2) by (auto simp: msm_tries_def)
  then have tops: "msm_top c m P A ?s = T" "msm_tries c m P A ?s = Ts"
    using t l(2) by (auto simp: msm_top_def msm_tries_def map_eq_Cons_conv)
  have "msm_inv c E R m P A ?s" unfolding msm_inv_def tops ch'(2,3) using t(1) l(4,5) ch'(4) n by simp
  moreover have "msm_view c R m P A ?s = v" by (simp only: msm_view_def tops ch'(2) l(6))
  moreover have "msm_saved c R m P A ?s = vs" by (simp only: msm_saved_def tops ch'(2,3) l(3))
  ultimately show ?thesis using ch'(1) by (intro exI [of _ "s\<lparr>m_trie := t, m_cache := ch'\<rparr>"]) simp
qed

text \<open>With the cache or without it, the state manager keeps the contract of the checkpointed components.\<close>

lemma account_checkpointed:
  assumes env: "account_env c L E St R m P A"
  shows "checkpointed (msm_inv c E R m P A) (msm_view c R m P A) (msm_saved c R m P A) msm_checkpoint (msm_commit c L St) (msm_revert c L St)
    (account_step_ok c P A)
    (msm_step c L St) account_change"
proof
  fix s :: "('a, 'b) msm" assume inv: "msm_inv c E R m P A s"
  show "\<exists>s'. msm_checkpoint s = (Inr (), s') \<and> msm_inv c E R m P A s' \<and> msm_view c R m P A s' = msm_view c R m P A s \<and>
      msm_saved c R m P A s' = msm_view c R m P A s # msm_saved c R m P A s" by (rule msm_checkpoint_law [OF env inv])
  have ok: "trie_ok c (2 * m) P" "lru_ok L E" using env by (simp_all add: account_env_def)
  have ti: "trie_inv c E (2 * m) P (m_trie s)" using inv by (simp add: msm_inv_def)
  fix v vs assume sv: "msm_saved c R m P A s = v # vs"
  obtain T Ts where "msm_tries c m P A s = T # Ts" using saved_parts [OF inv sv] by metis
  then obtain y ys where y: "trie_saved c (2 * m) P (m_trie s) = y # ys" by (auto simp: msm_tries_def)
  obtain t1 where t1: "trie_commit c L (m_trie s) = (Inr (), t1)" "trie_inv c E (2 * m) P t1"
    "trie_view c (2 * m) P t1 = trie_view c (2 * m) P (m_trie s)" "trie_saved c (2 * m) P t1 = ys"
    using checkpointed.commit_law [OF trie_checkpointed [OF ok, where skip = False] ti y] by blast
  obtain s1 where s1: "on_cache cache_commit (s\<lparr>m_trie := t1\<rparr>) = (Inr (), s1)" "checkpointCount s1 = checkpointCount s"
    "msm_inv c E R m P A (s1\<lparr>checkpointCount := checkpointCount s - 1\<rparr>)"
    "msm_view c R m P A (s1\<lparr>checkpointCount := checkpointCount s - 1\<rparr>) = msm_view c R m P A s"
    "msm_saved c R m P A (s1\<lparr>checkpointCount := checkpointCount s - 1\<rparr>) = vs"
    using commit_cache_law [OF inv sv t1(2,3)] t1(4) y by auto
  have "msm_commit c L St s = close_checkpoint c L St s1"
    using t1(1) s1(1) by (simp add: msm_commit_def sq_def bnd_def on_trie_def)
  then show "\<exists>s'. msm_commit c L St s = (Inr (), s') \<and> msm_inv c E R m P A s' \<and> msm_view c R m P A s' = msm_view c R m P A s \<and> msm_saved c R m P A s' = vs"
    using close_law [OF env, of s1] s1(2-5) by simp
  obtain t2 where t2: "trie_revert c L (m_trie s) = (Inr (), t2)" "trie_inv c E (2 * m) P t2" "trie_view c (2 * m) P t2 = y" "trie_saved c (2 * m) P t2 = ys"
    using checkpointed.revert_law [OF trie_checkpointed [OF ok, where skip = False] ti y] by blast
  obtain s2 where s2: "on_cache (cache_revert St) (s\<lparr>m_trie := t2\<rparr>) = (Inr (), s2)" "checkpointCount s2 = checkpointCount s"
    "msm_inv c E R m P A (s2\<lparr>checkpointCount := checkpointCount s - 1\<rparr>)"
    "msm_view c R m P A (s2\<lparr>checkpointCount := checkpointCount s - 1\<rparr>) = v"
    "msm_saved c R m P A (s2\<lparr>checkpointCount := checkpointCount s - 1\<rparr>) = vs"
    using revert_cache_law [OF env inv sv t2(2)] t2(3,4) y by auto
  have "msm_revert c L St s = close_checkpoint c L St s2"
    using t2(1) s2(1) by (simp add: msm_revert_def sq_def bnd_def on_trie_def)
  then show "\<exists>s'. msm_revert c L St s = (Inr (), s') \<and> msm_inv c E R m P A s' \<and> msm_view c R m P A s' = v \<and> msm_saved c R m P A s' = vs"
    using close_law [OF env, of s2] s2(2-5) by simp
next
  show "\<exists>s'. msm_step c L St w s = (Inr (), s') \<and> msm_inv c E R m P A s' \<and>
      msm_view c R m P A s' = account_change w (msm_view c R m P A s) \<and> msm_saved c R m P A s' = msm_saved c R m P A s"
    if "msm_inv c E R m P A s" "account_step_ok c P A w"
    for s :: "('a, 'b) msm" and w
    by (rule step_law [OF env that])
qed

section \<open>Results\<close>

lemma new_msm_inv:
  assumes env: "account_env c L E St R m P A" and e: "E cc = Map.empty" "\<forall>st. cs = Some st \<longrightarrow> R st = Map.empty"
  shows "msm_inv c E R m P A (new_msm c (Some cc) cs) \<and> msm_view c R m P A (new_msm c (Some cc) cs) = Map.empty \<and>
    msm_saved c R m P A (new_msm c (Some cc) cs) = []"
proof -
  let ?s = "new_msm c (Some cc) cs"
  have ok: "trie_ok c (2 * m) P" using env by (simp add: account_env_def)
  have v: "trie_view c (2 * m) P (new_trie c (Some cc)) = None"
    using tree_of_eq [OF ok new_trie_tree] by (simp add: trie_view_def)
  have sv: "trie_saved c (2 * m) P (new_trie c (Some cc)) = []"
    by (simp add: trie_saved_def saved_at_def new_trie_def new_cdb_def cdb_saved_def)
  have top: "msm_top c m P A ?s = Map.empty" "msm_tries c m P A ?s = []"
    using v sv by (simp_all add: msm_top_def msm_tries_def new_msm_def trie_accounts_def tmap_def fun_eq_iff)
  have abs: "msm_abs R ?s = (Map.empty, {})" "msm_levels ?s = []"
    using e(2) by (auto simp: msm_abs_def msm_levels_def new_msm_def new_cache_def cache_abs_def cache_levels_def split: option.split)
  have ti: "trie_inv c E (2 * m) P (m_trie ?s)" using new_trie_inv [of E cc, OF e(1)] by (simp add: new_msm_def)
  have wf: "\<forall>ch. m_cache ?s = Some ch \<longrightarrow> cache_wf ch" "checkpointCount ?s = 0"
    by (auto simp: new_msm_def new_cache_def cache_wf_def)
  show ?thesis using ti wf unfolding msm_inv_def msm_view_def msm_saved_def top abs
    by (simp add: coherent_def reads_def fun_eq_iff)
qed

lemma account_run:
  assumes env: "account_env c L E St R m P A" and e: "E cc = Map.empty" "\<forall>st. cs = Some st \<longrightarrow> R st = Map.empty"
    and acts: "all_writes (account_step_ok c P A) acts"
  shows "\<exists>s. run_frames (msm_step c L St) msm_checkpoint (msm_commit c L St) (msm_revert c L St) acts (new_msm c (Some cc) cs) = (Inr (), s) \<and>
    msm_inv c E R m P A s \<and> msm_view c R m P A s = eval_frames account_change acts Map.empty"
  using checkpointed.run_frames_refines [OF account_checkpointed [OF env] _ acts, of "new_msm c (Some cc) cs"] new_msm_inv [OF env e] by auto

text \<open>
  C39. Accounts through the state manager: after any writes, deletions and reads in any tree of
  frames, with state roots taken anywhere and clean elements dropped from the cache at any time,
  with a cache or without one, no operation has failed and an account reads as the committed
  writes say.
\<close>
theorem account_frames:
  assumes "account_env c L E St R m P A" "E cc = Map.empty" "\<forall>st. cs = Some st \<longrightarrow> R st = Map.empty"
    and "all_writes (account_step_ok c P A) acts" "k \<in> A"
  shows "\<exists>s s'. run_frames (msm_step c L St) msm_checkpoint (msm_commit c L St) (msm_revert c L St) acts (new_msm c (Some cc) cs) = (Inr (), s) \<and>
    msm_getAccount c L St k s = (Inr (eval_frames account_change acts Map.empty k), s')"
  using account_run [OF assms(1-4)] getAccount_law [OF assms(1) _ assms(5)] by metis

text \<open>A sample: two addresses, a map as the store of the cache.\<close>

definition map_store :: "(bytes \<times> elem) list store_ops" where
  "map_store = \<lparr>st_get = (\<lambda>k st. (map_of st k, st)), st_set = AList.update, st_delete = AList.delete, st_clear = (\<lambda>_. [])\<rparr>"

definition sample_acts :: "account_step action list" where
  "sample_acts =
     [Write (PutAccount [0x12] (Some [7])),
      Frame [Write TakeRoot, Write (PutAccount [0x13] (Some [8])), Write (Drop [0x12])] True,
      Frame [Write (DeleteAccount [0x12]), Write TakeRoot] False]"

lemma map_store_ok: "store_ok map_store map_of"
  by (simp add: store_ok_def map_store_def update_conv' delete_conv')

lemma sample_nibbles: "bytesToNibbles [0x12] = [1, 2]" "bytesToNibbles [0x13] = [1, 3]"
  by (code_simp, code_simp)

lemma sample_env: "account_env sample_trie one_entry one_entry_map map_store map_of 1 sample_entries {[0x12], [0x13]}"
  using sample_trie_ok one_entry_ok map_store_ok
  by (simp add: account_env_def appliedKey_def sample_trie_def sample_entries_def sample_nibbles)

lemma sample_acts_ok: "all_writes (account_step_ok sample_trie sample_entries {[0x12], [0x13]}) sample_acts"
  by (simp add: sample_acts_def good_elem_def appliedKey_def sample_trie_def sample_entries_def sample_nibbles)

lemma sample_accounts: "eval_frames account_change sample_acts Map.empty = [[0x12] \<mapsto> [7], [0x13] \<mapsto> [8]]"
  by (simp add: sample_acts_def)

text \<open>A reverted deletion, with state roots taken in between.\<close>

theorem account_frames_witness:
  "\<exists>s s'. run_frames (msm_step sample_trie one_entry map_store) msm_checkpoint (msm_commit sample_trie one_entry map_store)
      (msm_revert sample_trie one_entry map_store) sample_acts (new_msm sample_trie (Some None) (Some [])) = (Inr (), s) \<and>
    msm_getAccount sample_trie one_entry map_store [0x12] s = (Inr (Some [7]), s')"
  using account_frames [where cc = None and cs = "Some []" and k = "[0x12]" and acts = sample_acts, OF sample_env _ _ sample_acts_ok]
  by (simp add: one_entry_map_def sample_accounts del: run_frames.simps eval_frames.simps)

text \<open>After a flush the trie holds the accounts, and no others.\<close>

lemma flushed_tree:
  assumes env: "account_env c L E St R m P A" and inv: "msm_inv c E R m P A s" "snd (msm_abs R s) = {}"
  shows "trie_accounts c A (trie_view c (2 * m) P (m_trie s)) = msm_view c R m P A s"
proof
  fix k
  have "coherent (good_elem c P A) (msm_abs R s) (msm_top c m P A s)" using inv(1) by (simp add: msm_inv_def)
  then show "trie_accounts c A (trie_view c (2 * m) P (m_trie s)) k = msm_view c R m P A s k"
    using inv(2) by (auto simp: coherent_def msm_view_def reads_def msm_top_def split: option.split)
qed

lemma trie_accounts_inject:
  assumes env: "account_env c L E St R m P A" and xy: "good_tree (2 * m) P x" "good_tree (2 * m) P y" "trie_accounts c A x = trie_accounts c A y"
  shows "x = y"
proof -
  have key: "\<exists>k \<in> A. j = appliedKey c k" if "good_tree (2 * m) P z" "tmap z j = Some v" for z j v
  proof -
    have "(bytesToNibbles j, v) \<in> P" using that by (auto simp: tmap_def good_tree_def within_def split: option.splits)
    then show ?thesis using env by (fastforce simp: account_env_def bytesToNibbles_inject)
  qed
  have "tmap x j = tmap y j" for j
  proof (cases "\<exists>k \<in> A. j = appliedKey c k")
    case True
    then obtain k where "k \<in> A" "j = appliedKey c k" by blast
    then show ?thesis using fun_cong [OF xy(3), of k] by (simp add: trie_accounts_def)
  next
    case False
    then show ?thesis using key [OF xy(1), of j] key [OF xy(2), of j] by (metis option.exhaust)
  qed
  then show ?thesis using tmap_inject [OF xy(1,2)] by blast
qed

text \<open>
  C40. The state root depends on the accounts alone and determines them: two histories, one perhaps
  with a cache and the other without, have the same state root exactly if they leave the same
  accounts.
\<close>
theorem account_state_root:
  assumes "account_env c L E St R m P A" "E cc = Map.empty"
    and "\<forall>st. cs = Some st \<longrightarrow> R st = Map.empty" "\<forall>st. cs' = Some st \<longrightarrow> R st = Map.empty"
    and "all_writes (account_step_ok c P A) acts" "all_writes (account_step_ok c P A) acts'"
  shows "\<exists>s s' r r' u u'. run_frames (msm_step c L St) msm_checkpoint (msm_commit c L St) (msm_revert c L St) acts (new_msm c (Some cc) cs) = (Inr (), s) \<and>
    run_frames (msm_step c L St) msm_checkpoint (msm_commit c L St) (msm_revert c L St) acts' (new_msm c (Some cc) cs') = (Inr (), s') \<and>
    msm_getStateRoot c L St s = (Inr r, u) \<and> msm_getStateRoot c L St s' = (Inr r', u') \<and>
    (r = r' \<longleftrightarrow> eval_frames account_change acts Map.empty = eval_frames account_change acts' Map.empty)"
proof -
  have ok: "trie_ok c (2 * m) P" using assms(1) by (simp add: account_env_def)
  have one: "\<exists>s u x. run_frames (msm_step c L St) msm_checkpoint (msm_commit c L St) (msm_revert c L St) as (new_msm c (Some cc) ds) = (Inr (), s) \<and>
      msm_getStateRoot c L St s = (Inr (t_root (m_trie u)), u) \<and> tree_at c (2 * m) P (cdb_view (t_db (m_trie u))) (t_root (m_trie u)) x \<and>
      good_tree (2 * m) P x \<and> trie_accounts c A x = eval_frames account_change as Map.empty"
    if ds: "\<forall>st. ds = Some st \<longrightarrow> R st = Map.empty" and as: "all_writes (account_step_ok c P A) as" for as ds
  proof -
    obtain s where s: "run_frames (msm_step c L St) msm_checkpoint (msm_commit c L St) (msm_revert c L St) as (new_msm c (Some cc) ds) = (Inr (), s)"
      "msm_inv c E R m P A s" "msm_view c R m P A s = eval_frames account_change as Map.empty"
      using account_run [OF assms(1,2) ds as] by blast
    obtain u where u: "msm_flush c L St s = (Inr (), u)" "msm_inv c E R m P A u" "snd (msm_abs R u) = {}" "msm_view c R m P A u = msm_view c R m P A s"
      using flush_law [OF assms(1) s(2)] by blast
    have "tree_at c (2 * m) P (cdb_view (t_db (m_trie u))) (t_root (m_trie u)) (trie_view c (2 * m) P (m_trie u))"
      using trie_invD [OF ok, of E "m_trie u"] u(2) by (simp add: msm_inv_def)
    moreover from this have "good_tree (2 * m) P (trie_view c (2 * m) P (m_trie u))" by (simp add: tree_at_def)
    moreover have "msm_getStateRoot c L St s = (Inr (t_root (m_trie u)), u)" using u(1) by (simp add: msm_getStateRoot_def bnd_def gets_def)
    ultimately show ?thesis using s u flushed_tree [OF assms(1) u(2,3)] by metis
  qed
  obtain s u x where a: "run_frames (msm_step c L St) msm_checkpoint (msm_commit c L St) (msm_revert c L St) acts (new_msm c (Some cc) cs) = (Inr (), s)"
    "msm_getStateRoot c L St s = (Inr (t_root (m_trie u)), u)" "tree_at c (2 * m) P (cdb_view (t_db (m_trie u))) (t_root (m_trie u)) x"
    "good_tree (2 * m) P x" "trie_accounts c A x = eval_frames account_change acts Map.empty"
    using one [OF assms(3,5)] by blast
  obtain s' u' x' where b: "run_frames (msm_step c L St) msm_checkpoint (msm_commit c L St) (msm_revert c L St) acts' (new_msm c (Some cc) cs') = (Inr (), s')"
    "msm_getStateRoot c L St s' = (Inr (t_root (m_trie u')), u')" "tree_at c (2 * m) P (cdb_view (t_db (m_trie u'))) (t_root (m_trie u')) x'"
    "good_tree (2 * m) P x'" "trie_accounts c A x' = eval_frames account_change acts' Map.empty"
    using one [OF assms(4,6)] by blast
  have "t_root (m_trie u) = t_root (m_trie u') \<longleftrightarrow> x = x'"
  proof
    assume e: "t_root (m_trie u) = t_root (m_trie u')"
    show "x = x'" by (rule tree_at_unique [OF ok a(3) b(3) [folded e]])
  next
    assume "x = x'"
    with a(3) b(3) show "t_root (m_trie u) = t_root (m_trie u')" by (simp add: tree_at_def split: option.splits)
  qed
  also have "\<dots> \<longleftrightarrow> trie_accounts c A x = trie_accounts c A x'" using trie_accounts_inject [OF assms(1) a(4) b(4)] by auto
  finally show ?thesis using a(1,2,5) b(1,2,5) by auto
qed

text \<open>The same accounts written without a cache, in the other order.\<close>

theorem account_state_root_witness:
  "\<exists>s s' r r' u u'. run_frames (msm_step sample_trie one_entry map_store) msm_checkpoint (msm_commit sample_trie one_entry map_store)
      (msm_revert sample_trie one_entry map_store) sample_acts (new_msm sample_trie (Some None) (Some [])) = (Inr (), s) \<and>
    run_frames (msm_step sample_trie one_entry map_store) msm_checkpoint (msm_commit sample_trie one_entry map_store)
      (msm_revert sample_trie one_entry map_store) [Write (PutAccount [0x13] (Some [8])), Write (PutAccount [0x12] (Some [7]))]
      (new_msm sample_trie (Some None) None) = (Inr (), s') \<and>
    msm_getStateRoot sample_trie one_entry map_store s = (Inr r, u) \<and> msm_getStateRoot sample_trie one_entry map_store s' = (Inr r', u') \<and> r = r'"
proof -
  let ?acts = "[Write (PutAccount [0x13] (Some [8])), Write (PutAccount [0x12] (Some [7]))]"
  have "all_writes (account_step_ok sample_trie sample_entries {[0x12], [0x13]}) ?acts"
    by (simp add: good_elem_def appliedKey_def sample_trie_def sample_entries_def sample_nibbles)
  moreover have "eval_frames account_change sample_acts Map.empty = eval_frames account_change ?acts Map.empty"
    by (simp add: sample_accounts fun_upd_twist)
  ultimately show ?thesis
    using account_state_root [where cc = None and cs = "Some []" and cs' = None and acts = sample_acts and acts' = ?acts,
        OF sample_env _ _ _ sample_acts_ok]
    by (simp add: one_entry_map_def del: run_frames.simps eval_frames.simps)
qed

end
