(* ===== verification/Tx.thy ===== *)
theory Tx
  imports Rlp RunState
begin

text \<open>
  Transactions: \<^verbatim>\<open>packages/tx/src\<close> (legacy, EIP-2930 and EIP-1559 transactions, their capabilities,
  constructors and the factory) with \<^verbatim>\<open>packages/util/src/signature.ts\<close>. The three classes share a
  record; what they do not share is the datatype of the body.

  Numbers of a transaction are bigints, except where \<^verbatim>\<open>legacy/tx.ts\<close> computes with \<^verbatim>\<open>v\<close> and the chain
  id in floating point; there the rounding is written out. The caches of a frozen transaction do not change results. The
  hash function and the elliptic curve are parameters.
\<close>

section \<open>Results\<close>

definition then_sum :: "exn + 'a \<Rightarrow> ('a \<Rightarrow> exn + 'b) \<Rightarrow> exn + 'b" where
  "then_sum r f = (case r of Inl e \<Rightarrow> Inl e | Inr x \<Rightarrow> f x)"

definition reject :: "bool \<Rightarrow> string \<Rightarrow> exn + 'a \<Rightarrow> exn + 'a" where
  "reject b msg k = (if b then Inl (HostError msg) else k)"

fun collect :: "(exn + 'a) list \<Rightarrow> exn + 'a list" where
  "collect [] = Inr []"
| "collect (r # rs) = then_sum r (\<lambda>x. then_sum (collect rs) (\<lambda>xs. Inr (x # xs)))"

section \<open>The environment\<close>

record tx_env =
  tv_chainId :: int
  tv_keccak :: "bytes \<Rightarrow> bytes"
  tv_halfOrder :: int
  tv_recover :: "bytes \<Rightarrow> int \<Rightarrow> bytes \<Rightarrow> bytes option"
  tv_sign :: "bytes \<Rightarrow> bytes \<Rightarrow> int \<times> int \<times> int"

text \<open>The parameters of transactions, \<^verbatim>\<open>params.ts\<close>, looked up as \<^verbatim>\<open>common.param\<close> does.\<close>

definition paramsTx :: "nat \<Rightarrow> (string \<times> int) list" where
  "paramsTx eip =
     (if eip = 1 then [(''txGas'', 21000), (''txCreationGas'', 32000), (''txDataZeroGas'', 4), (''txDataNonZeroGas'', 68),
        (''accessListStorageKeyGas'', 0), (''accessListAddressGas'', 0)]
      else if eip = 1679 then [(''txDataNonZeroGas'', 16)]
      else if eip = 2930 then [(''accessListStorageKeyGas'', 1900), (''accessListAddressGas'', 2400)]
      else if eip = 7623 then [(''totalCostFloorPerToken'', 10)]
      else if eip = 7825 then [(''maxTransactionGasLimit'', 16777216)]
      else [])"

definition paramsTx_tron :: "(string \<times> int) list" where
  "paramsTx_tron = [(''accessListStorageKeyGas'', 0), (''accessListAddressGas'', 0)]"

definition tx_param :: "string \<Rightarrow> int" where
  "tx_param name = or_else (foldl (\<lambda>r g. case map_of g name of None \<Rightarrow> r | Some v \<Rightarrow> Some v) None
     (map paramsTx profile_eips @ [paramsTx_tron])) 0"

section \<open>Transactions\<close>

text \<open>An access list is kept as it was decoded.\<close>

datatype tx_body =
    LegacyTx int
  | AccessList2930Tx int rlp
  | FeeMarket1559Tx int int rlp

record tx =
  tx_nonce :: int
  tx_gasLimit :: int
  tx_value :: int
  tx_tokenId :: int
  tx_tokenValue :: int
  tx_data :: bytes
  tx_to :: "address option"
  tx_v :: "int option"
  tx_r :: "int option"
  tx_s :: "int option"
  tx_body :: tx_body
  activeCapabilities :: "nat list"

definition supports :: "tx \<Rightarrow> nat \<Rightarrow> bool" where
  "supports t cap \<longleftrightarrow> List.member (activeCapabilities t) cap"

definition isSigned :: "tx \<Rightarrow> bool" where
  "isSigned t \<longleftrightarrow> tx_v t \<noteq> None \<and> tx_r t \<noteq> None \<and> tx_s t \<noteq> None"

section \<open>Input data\<close>

text \<open>A field of the input is absent, a decoded RLP value or a bigint.\<close>

datatype txval = Undef | Val rlp | Big int

record tx_input =
  d_nonce :: txval
  d_gasPrice :: txval
  d_gasLimit :: txval
  d_to :: txval
  d_value :: txval
  d_tokenId :: txval
  d_tokenValue :: txval
  d_data :: txval
  d_v :: txval
  d_r :: txval
  d_s :: txval
  d_chainId :: txval
  d_maxFeePerGas :: txval
  d_maxPriorityFeePerGas :: txval
  d_accessList :: "rlp option"

text \<open>
  \<^verbatim>\<open>Uint8Array.from\<close> of an array converts each element to a number: that of an array is the number
  its only element prints as, and zero when it prints as no number.
\<close>

fun js_number :: "rlp \<Rightarrow> byte" where
  "js_number (RBytes [b]) = b"
| "js_number (RList [x]) = js_number x"
| "js_number _ = 0"

definition util_toBytes :: "txval \<Rightarrow> exn + bytes" where
  "util_toBytes v = (case v of Undef \<Rightarrow> Inr [] | Val (RBytes b) \<Rightarrow> Inr b | Val (RList l) \<Rightarrow> Inr (map js_number l)
     | Big n \<Rightarrow> bigIntToBytes n)"

definition to_int :: "txval \<Rightarrow> exn + int" where
  "to_int v = map_sum id bytesToBigInt (util_toBytes v)"

definition is_array :: "txval \<Rightarrow> bool" where
  "is_array v \<longleftrightarrow> (case v of Val (RList _) \<Rightarrow> True | _ \<Rightarrow> False)"

text \<open>\<^verbatim>\<open>validateNotArray\<close> on the fields of the constructor; \<^verbatim>\<open>maxPriorityFeePerGas\<close> is not among its keys.\<close>

definition validateNotArray :: "tx_input \<Rightarrow> bool" where
  "validateNotArray d \<longleftrightarrow> \<not> list_ex is_array
     [d_nonce d, d_gasPrice d, d_gasLimit d, d_to d, d_value d, d_tokenId d, d_tokenValue d, d_data d,
      d_v d, d_r d, d_s d, d_maxFeePerGas d, d_chainId d]"

fun leading_zero :: "txval \<Rightarrow> bool" where
  "leading_zero (Val (RBytes (b # _))) \<longleftrightarrow> b = 0"
| "leading_zero _ \<longleftrightarrow> False"

definition validateNoLeadingZeroes :: "txval list \<Rightarrow> bool" where
  "validateNoLeadingZeroes vs \<longleftrightarrow> \<not> list_ex leading_zero vs"

fun valueOverflowCheck :: "int option list \<Rightarrow> nat \<Rightarrow> bool \<Rightarrow> bool" where
  "valueOverflowCheck [] bits cannotEqual = True"
| "valueOverflowCheck (v # vs) bits cannotEqual =
     (let limit = (if bits = 64 then MAX_UINT64 else MAX_INTEGER_BIGINT)
      in (case v of None \<Rightarrow> True | Some x \<Rightarrow> if cannotEqual then x < limit else x \<le> limit) \<and>
         valueOverflowCheck vs bits cannotEqual)"

section \<open>Constructors\<close>

definition new_address :: "bytes \<Rightarrow> exn + address" where
  "new_address b = (if length b \<noteq> 20 then Inl (HostError ''Invalid address length'') else Inr (word_of_int (bytesToBigInt b)))"

text \<open>A signature value is present if its bytes are.\<close>

definition sig_value :: "txval \<Rightarrow> exn + int option" where
  "sig_value v = map_sum id (\<lambda>b. if length b > 0 then Some (bytesToBigInt b) else None) (util_toBytes v)"

definition sharedConstructor :: "bool \<Rightarrow> tx_input \<Rightarrow> exn + tx" where
  "sharedConstructor typed d =
     reject (\<not> validateNotArray d) ''cannot be an array''
     (then_sum (util_toBytes (d_to d)) (\<lambda>toB.
      then_sum (if length toB > 0 then map_sum id Some (new_address toB) else Inr None) (\<lambda>to.
      then_sum (to_int (d_nonce d)) (\<lambda>nonce.
      then_sum (to_int (d_gasLimit d)) (\<lambda>gasLimit.
      then_sum (to_int (d_value d)) (\<lambda>value.
      then_sum (to_int (d_tokenId d)) (\<lambda>tokenId.
      then_sum (to_int (d_tokenValue d)) (\<lambda>tokenValue.
      then_sum (util_toBytes (d_data d)) (\<lambda>data.
      reject (typed \<and> (tokenId \<noteq> 0 \<or> tokenValue \<noteq> 0)) ''tokenId and tokenValue are not supported by typed transaction formats''
      (then_sum (sig_value (d_v d)) (\<lambda>v.
       then_sum (sig_value (d_r d)) (\<lambda>r.
       then_sum (sig_value (d_s d)) (\<lambda>s.
       reject (\<not> valueOverflowCheck [Some value, r, s] 256 False) ''cannot exceed MAX_INTEGER''
       (reject (\<not> valueOverflowCheck [Some gasLimit] 64 False) ''cannot exceed MAX_UINT64''
       (reject (\<not> valueOverflowCheck [Some nonce] 64 True) ''cannot equal or exceed MAX_UINT64''
       (reject (tokenId < 0 \<or> tokenId > MAX_INT64 \<or> tokenValue < 0 \<or> tokenValue > MAX_INT64)
          ''must fit in a signed 64-bit integer''
       (Inr \<lparr>tx_nonce = nonce, tx_gasLimit = gasLimit, tx_value = value, tx_tokenId = tokenId, tx_tokenValue = tokenValue,
          tx_data = data, tx_to = to, tx_v = v, tx_r = r, tx_s = s, tx_body = LegacyTx 0,
          activeCapabilities = []\<rparr>)))))))))))))))))"

text \<open>
  Floating point numbers as far as \<^verbatim>\<open>legacy/tx.ts\<close> needs them: a double that holds an integer, or \<^const>\<open>None\<close>
  for infinity. The result of a conversion, a sum or a product is rounded to 53 bits, to the nearest such number, from a
  tie to the one whose last bit is zero.
\<close>

function double_exp :: "int \<Rightarrow> nat" where
  "double_exp n = (if n < 2 ^ 53 then 0 else Suc (double_exp (n div 2)))"
  by pat_completeness auto
termination by (relation "measure nat") auto

declare double_exp.simps [simp del]

definition double_round :: "int \<Rightarrow> int" where
  "double_round n =
     (let u = 2 ^ double_exp \<bar>n\<bar>; q = \<bar>n\<bar> div u; r = \<bar>n\<bar> mod u
      in sgn n * ((if u < 2 * r \<or> u = 2 * r \<and> odd q then q + 1 else q) * u))"

definition js_Number :: "int \<Rightarrow> int option" where
  "js_Number n = (let m = double_round n in if \<bar>m\<bar> < 2 ^ 1024 then Some m else None)"

definition js_plus :: "int option \<Rightarrow> int \<Rightarrow> int option" where
  "js_plus x n = (case x of None \<Rightarrow> None | Some a \<Rightarrow> js_Number (a + n))"

definition js_times :: "int option \<Rightarrow> int \<Rightarrow> int option" where
  "js_times x n = (case x of None \<Rightarrow> None | Some a \<Rightarrow> js_Number (a * n))"

definition meetsEIP155 :: "int \<Rightarrow> int \<Rightarrow> bool" where
  "meetsEIP155 v' chain \<longleftrightarrow>
     (let v = js_Number v'; chainIdDoubled = js_times (js_Number chain) 2
      in v = js_plus chainIdDoubled 35 \<or> v = js_plus chainIdDoubled 36)"

text \<open>An infinite \<^verbatim>\<open>v\<close> passes the first check and cannot be converted back to a bigint.\<close>

definition validateVAndExtractChainID :: "int \<Rightarrow> int option \<Rightarrow> exn + int option" where
  "validateVAndExtractChainID chain vo = (case vo of None \<Rightarrow> Inr None
     | Some v' \<Rightarrow> (case js_Number v' of None \<Rightarrow> Inl (HostError ''RangeError'')
     | Some v \<Rightarrow>
         if v < 37 \<and> v \<noteq> 27 \<and> v \<noteq> 28 then Inl (HostError ''Legacy txs need either v = 27/28 or v >= 37'')
         else if v \<noteq> 0 \<and> v \<noteq> 27 \<and> v \<noteq> 28
         then (if \<not> meetsEIP155 v chain then Inl (HostError ''Incompatible EIP155-based V'')
               else let numSub = (if double_round (v - 35) mod 2 = 0 then 35 else 36)
                    in Inr (Some (js_div (double_round (v - numSub)) 2)))
         else Inr None))"

definition newLegacyTx :: "tx_env \<Rightarrow> tx_input \<Rightarrow> exn + tx" where
  "newLegacyTx E d =
     then_sum (sharedConstructor False d) (\<lambda>t.
     then_sum (to_int (d_gasPrice d)) (\<lambda>gasPrice.
     reject (\<not> valueOverflowCheck [Some gasPrice] 256 False) ''cannot exceed MAX_INTEGER''
     (then_sum (validateVAndExtractChainID (tv_chainId E) (tx_v t)) (\<lambda>chain.
      reject (chain \<noteq> None \<and> chain \<noteq> Some (tv_chainId E)) ''Common chain ID not matching the derived chain ID''
      (reject (gasPrice * tx_gasLimit t > MAX_INTEGER_BIGINT) ''gas limit * gasPrice cannot exceed MAX_INTEGER (2^256-1)''
      (Inr (t\<lparr>tx_body := LegacyTx gasPrice,
        activeCapabilities := (if \<not> isSigned t then [155]
          else case tx_v t of Some v \<Rightarrow> if meetsEIP155 v (tv_chainId E) then [155] else [] | None \<Rightarrow> [])\<rparr>)))))))"

text \<open>
  The access list: an array whose first element is no array is taken for the JSON form, whose items
  have an address field; conversion of anything else fails.
\<close>

definition normal_access :: "rlp option \<Rightarrow> exn + rlp" where
  "normal_access a = (case a of None \<Rightarrow> Inr (RList [])
     | Some (RBytes (b # bs)) \<Rightarrow> Inl (HostError ''TypeError'')
     | Some (RList (RBytes b # xs)) \<Rightarrow> Inl (HostError ''TypeError'')
     | Some x \<Rightarrow> Inr x)"

fun rlp_length :: "rlp \<Rightarrow> nat" where
  "rlp_length (RBytes b) = length b"
| "rlp_length (RList l) = length l"

text \<open>The elements of bytes are numbers, which have no length.\<close>

fun access_item_ok :: "rlp \<Rightarrow> bool" where
  "access_item_ok (RList [address, slots]) \<longleftrightarrow> rlp_length address = 20 \<and>
     (case slots of RBytes b \<Rightarrow> b = [] | RList l \<Rightarrow> list_all (\<lambda>slot. rlp_length slot = 32) l)"
| "access_item_ok _ \<longleftrightarrow> False"

fun access_items :: "rlp \<Rightarrow> rlp list" where
  "access_items (RList l) = l"
| "access_items (RBytes _) = []"

definition verifyAccessList :: "rlp \<Rightarrow> bool" where
  "verifyAccessList a \<longleftrightarrow> list_all access_item_ok (access_items a)"

definition validateYParity :: "tx \<Rightarrow> bool" where
  "validateYParity t \<longleftrightarrow> tx_v t \<in> {None, Some 0, Some 1}"

definition validateHighS :: "tx_env \<Rightarrow> tx \<Rightarrow> bool" where
  "validateHighS E t \<longleftrightarrow> (case tx_s t of None \<Rightarrow> True | Some s \<Rightarrow> s \<le> tv_halfOrder E)"

definition chain_matches :: "tx_env \<Rightarrow> txval \<Rightarrow> exn + unit" where
  "chain_matches E c = (if c = Undef then Inr () else then_sum (to_int c) (\<lambda>n.
     reject (n \<noteq> tv_chainId E) ''Common chain ID not matching the derived chain ID'' (Inr ())))"

definition newAccessList2930Tx :: "tx_env \<Rightarrow> tx_input \<Rightarrow> exn + tx" where
  "newAccessList2930Tx E d =
     then_sum (sharedConstructor True d) (\<lambda>t.
     then_sum (chain_matches E (d_chainId d)) (\<lambda>_.
     then_sum (normal_access (d_accessList d)) (\<lambda>accessList.
     reject (\<not> verifyAccessList accessList) ''Invalid EIP-2930 transaction''
     (then_sum (to_int (d_gasPrice d)) (\<lambda>gasPrice.
      reject (\<not> valueOverflowCheck [Some gasPrice] 256 False) ''cannot exceed MAX_INTEGER''
      (reject (gasPrice * tx_gasLimit t > MAX_INTEGER_BIGINT) ''gasLimit * gasPrice cannot exceed MAX_INTEGER''
      (reject (\<not> validateYParity t) ''The y-parity of the transaction should either be 0 or 1''
      (reject (\<not> validateHighS E t) ''Invalid Signature: s-values greater than secp256k1n/2 are considered invalid''
      (Inr (t\<lparr>tx_body := AccessList2930Tx gasPrice accessList, activeCapabilities := [2718, 2930]\<rparr>))))))))))"

definition newFeeMarket1559Tx :: "tx_env \<Rightarrow> tx_input \<Rightarrow> exn + tx" where
  "newFeeMarket1559Tx E d =
     then_sum (sharedConstructor True d) (\<lambda>t.
     then_sum (chain_matches E (d_chainId d)) (\<lambda>_.
     then_sum (normal_access (d_accessList d)) (\<lambda>accessList.
     reject (\<not> verifyAccessList accessList) ''Invalid EIP-2930 transaction''
     (then_sum (to_int (d_maxFeePerGas d)) (\<lambda>maxFee.
      then_sum (to_int (d_maxPriorityFeePerGas d)) (\<lambda>maxPriority.
      reject (\<not> valueOverflowCheck [Some maxFee, Some maxPriority] 256 False) ''cannot exceed MAX_INTEGER''
      (reject (tx_gasLimit t * maxFee > MAX_INTEGER_BIGINT) ''gasLimit * maxFeePerGas cannot exceed MAX_INTEGER (2^256-1)''
      (reject (maxFee < maxPriority) ''maxFeePerGas cannot be less than maxPriorityFeePerGas''
      (reject (\<not> validateYParity t) ''The y-parity of the transaction should either be 0 or 1''
      (reject (\<not> validateHighS E t) ''Invalid Signature: s-values greater than secp256k1n/2 are considered invalid''
      (Inr (t\<lparr>tx_body := FeeMarket1559Tx maxPriority maxFee accessList, activeCapabilities := [1559, 2718, 2930]\<rparr>))))))))))))"

section \<open>From bytes\<close>

definition field :: "rlp list \<Rightarrow> nat \<Rightarrow> txval" where
  "field vs i = (if i < length vs then Val (vs ! i) else Undef)"

definition no_input :: tx_input where
  "no_input = \<lparr>d_nonce = Undef, d_gasPrice = Undef, d_gasLimit = Undef, d_to = Undef, d_value = Undef, d_tokenId = Undef,
     d_tokenValue = Undef, d_data = Undef, d_v = Undef, d_r = Undef, d_s = Undef, d_chainId = Undef,
     d_maxFeePerGas = Undef, d_maxPriorityFeePerGas = Undef, d_accessList = None\<rparr>"

text \<open>The destructured input: with six or nine values there are no token fields.\<close>

definition legacy_input :: "rlp list \<Rightarrow> tx_input" where
  "legacy_input vs =
     (if length vs = 6 \<or> length vs = 9
      then no_input\<lparr>d_nonce := field vs 0, d_gasPrice := field vs 1, d_gasLimit := field vs 2, d_to := field vs 3,
             d_value := field vs 4, d_data := field vs 5, d_v := field vs 6, d_r := field vs 7, d_s := field vs 8\<rparr>
      else no_input\<lparr>d_nonce := field vs 0, d_gasPrice := field vs 1, d_gasLimit := field vs 2, d_to := field vs 3,
             d_value := field vs 4, d_tokenId := field vs 5, d_tokenValue := field vs 6, d_data := field vs 7,
             d_v := field vs 8, d_r := field vs 9, d_s := field vs 10\<rparr>)"

definition createLegacyTxFromBytesArray :: "tx_env \<Rightarrow> rlp list \<Rightarrow> exn + tx" where
  "createLegacyTxFromBytesArray E vs =
     reject (length vs \<notin> {6, 8, 9, 11}) ''Invalid transaction''
     (let d = legacy_input vs
      in reject (\<not> validateNoLeadingZeroes [d_nonce d, d_gasPrice d, d_gasLimit d, d_value d, d_v d, d_r d, d_s d])
           ''cannot have leading zeroes'' (newLegacyTx E d))"

text \<open>The chain id and \<^verbatim>\<open>v\<close> of a typed transaction are converted first; an absent \<^verbatim>\<open>v\<close> stays absent.\<close>

definition big_of :: "txval \<Rightarrow> txval" where
  "big_of v = (case v of Val (RBytes b) \<Rightarrow> Big (bytesToBigInt b) | _ \<Rightarrow> v)"

definition access_field :: "rlp list \<Rightarrow> nat \<Rightarrow> rlp option" where
  "access_field vs i = (if i < length vs then Some (vs ! i) else None)"

definition create2930FromBytesArray :: "tx_env \<Rightarrow> rlp list \<Rightarrow> exn + tx" where
  "create2930FromBytesArray E vs =
     reject (length vs \<noteq> 8 \<and> length vs \<noteq> 11) ''Invalid EIP-2930 transaction''
     (reject (is_array (field vs 0) \<or> is_array (field vs 8)) ''cannot be an array''
     (reject (\<not> validateNoLeadingZeroes [field vs 1, field vs 2, field vs 3, field vs 5, field vs 8, field vs 9, field vs 10])
        ''cannot have leading zeroes''
     (newAccessList2930Tx E (no_input\<lparr>d_chainId := big_of (field vs 0), d_nonce := field vs 1, d_gasPrice := field vs 2,
        d_gasLimit := field vs 3, d_to := field vs 4, d_value := field vs 5, d_data := field vs 6,
        d_accessList := access_field vs 7, d_v := big_of (field vs 8), d_r := field vs 9, d_s := field vs 10\<rparr>))))"

definition create1559FromBytesArray :: "tx_env \<Rightarrow> rlp list \<Rightarrow> exn + tx" where
  "create1559FromBytesArray E vs =
     reject (length vs \<noteq> 9 \<and> length vs \<noteq> 12) ''Invalid EIP-1559 transaction''
     (reject (is_array (field vs 0) \<or> is_array (field vs 9)) ''cannot be an array''
     (reject (\<not> validateNoLeadingZeroes [field vs 1, field vs 2, field vs 3, field vs 4, field vs 6, field vs 9, field vs 10, field vs 11])
        ''cannot have leading zeroes''
     (newFeeMarket1559Tx E (no_input\<lparr>d_chainId := big_of (field vs 0), d_nonce := field vs 1,
        d_maxPriorityFeePerGas := field vs 2, d_maxFeePerGas := field vs 3, d_gasLimit := field vs 4, d_to := field vs 5,
        d_value := field vs 6, d_data := field vs 7, d_accessList := access_field vs 8,
        d_v := big_of (field vs 9), d_r := field vs 10, d_s := field vs 11\<rparr>))))"

definition rlp_array :: "exn + rlp \<Rightarrow> exn + rlp list" where
  "rlp_array r = then_sum r (\<lambda>d. case d of RList l \<Rightarrow> Inr l | RBytes _ \<Rightarrow> Inl (HostError ''Invalid serialized tx input. Must be array''))"

definition createLegacyTxFromRLP :: "tx_env \<Rightarrow> bytes \<Rightarrow> exn + tx" where
  "createLegacyTxFromRLP E b = then_sum (rlp_array (decode (IBytes b))) (createLegacyTxFromBytesArray E)"

definition create2930FromRLP :: "tx_env \<Rightarrow> bytes \<Rightarrow> exn + tx" where
  "create2930FromRLP E b =
     reject (\<not> equalsBytes (take 1 b) [1]) ''Invalid serialized tx input: not an EIP-2930 transaction''
     (then_sum (rlp_array (decode (IBytes (drop 1 b)))) (create2930FromBytesArray E))"

definition create1559FromRLP :: "tx_env \<Rightarrow> bytes \<Rightarrow> exn + tx" where
  "create1559FromRLP E b =
     reject (\<not> equalsBytes (take 1 b) [2]) ''Invalid serialized tx input: not an EIP-1559 transaction''
     (then_sum (rlp_array (decode (IBytes (drop 1 b)))) (create1559FromBytesArray E))"

definition createTxFromRLP :: "tx_env \<Rightarrow> bytes \<Rightarrow> exn + tx" where
  "createTxFromRLP E b =
     (if b \<noteq> [] \<and> unat (b ! 0) \<le> 0x7f
      then (if b ! 0 = 1 then create2930FromRLP E b
            else if b ! 0 = 2 then create1559FromRLP E b
            else if b ! 0 = 4 then Inl (HostError ''EIP-7702 transaction type 0x04 is no longer supported'')
            else Inl (HostError ''TypedTransaction unknown''))
      else createLegacyTxFromRLP E b)"

section \<open>Serialization\<close>

definition num_field :: "int \<Rightarrow> exn + rlp" where
  "num_field n = map_sum id RBytes (bigIntToUnpaddedBytes n)"

definition opt_field :: "int option \<Rightarrow> exn + rlp" where
  "opt_field v = (case v of None \<Rightarrow> Inr (RBytes []) | Some n \<Rightarrow> num_field n)"

definition to_field :: "address option \<Rightarrow> exn + rlp" where
  "to_field a = Inr (RBytes (case a of None \<Rightarrow> [] | Some x \<Rightarrow> addr_bytes x))"

definition tx_raw :: "tx_env \<Rightarrow> tx \<Rightarrow> exn + rlp list" where
  "tx_raw E t = collect (case tx_body t of
     LegacyTx gasPrice \<Rightarrow>
       [num_field (tx_nonce t), num_field gasPrice, num_field (tx_gasLimit t), to_field (tx_to t), num_field (tx_value t),
        num_field (tx_tokenId t), num_field (tx_tokenValue t), Inr (RBytes (tx_data t)),
        opt_field (tx_v t), opt_field (tx_r t), opt_field (tx_s t)]
   | AccessList2930Tx gasPrice al \<Rightarrow>
       [num_field (tv_chainId E), num_field (tx_nonce t), num_field gasPrice, num_field (tx_gasLimit t), to_field (tx_to t),
        num_field (tx_value t), Inr (RBytes (tx_data t)), Inr al,
        opt_field (tx_v t), opt_field (tx_r t), opt_field (tx_s t)]
   | FeeMarket1559Tx maxPriority maxFee al \<Rightarrow>
       [num_field (tv_chainId E), num_field (tx_nonce t), num_field maxPriority, num_field maxFee, num_field (tx_gasLimit t),
        to_field (tx_to t), num_field (tx_value t), Inr (RBytes (tx_data t)), Inr al,
        opt_field (tx_v t), opt_field (tx_r t), opt_field (tx_s t)])"

definition encode_list :: "rlp list \<Rightarrow> exn + bytes" where
  "encode_list vs = rlp_encode (IArr (map rlp_embed vs))"

text \<open>The type byte goes before the list of a typed transaction.\<close>

definition type_prefix :: "tx \<Rightarrow> bytes" where
  "type_prefix t = (case tx_body t of LegacyTx _ \<Rightarrow> [] | AccessList2930Tx _ _ \<Rightarrow> [1] | FeeMarket1559Tx _ _ _ \<Rightarrow> [2])"

definition tx_serialize :: "tx_env \<Rightarrow> tx \<Rightarrow> exn + bytes" where
  "tx_serialize E t = then_sum (tx_raw E t) (\<lambda>vs. map_sum id (\<lambda>b. type_prefix t @ b) (encode_list vs))"

section \<open>Signatures\<close>

text \<open>
  The signed message: the fields before the signature. A legacy transaction with replay protection
  adds the chain id and two empty fields.
\<close>

definition message_fields :: "tx_env \<Rightarrow> tx \<Rightarrow> exn + rlp list" where
  "message_fields E t = (case tx_body t of
     LegacyTx _ \<Rightarrow> then_sum (tx_raw E t) (\<lambda>vs.
       if supports t 155 then map_sum id (\<lambda>c. take 8 vs @ [c, RBytes [], RBytes []]) (num_field (tv_chainId E))
       else Inr (take 8 vs))
   | AccessList2930Tx _ _ \<Rightarrow> map_sum id (take 8) (tx_raw E t)
   | FeeMarket1559Tx _ _ _ \<Rightarrow> map_sum id (take 9) (tx_raw E t))"

definition message_bytes :: "tx_env \<Rightarrow> tx \<Rightarrow> exn + bytes" where
  "message_bytes E t = then_sum (message_fields E t) (\<lambda>vs. map_sum id (\<lambda>b. type_prefix t @ b) (encode_list vs))"

definition getHashedMessageToSign :: "tx_env \<Rightarrow> tx \<Rightarrow> exn + bytes" where
  "getHashedMessageToSign E t = map_sum id (tv_keccak E) (message_bytes E t)"

definition tx_hash :: "tx_env \<Rightarrow> tx \<Rightarrow> exn + bytes" where
  "tx_hash E t = reject (\<not> isSigned t) ''Cannot call hash method if transaction is not signed''
     (map_sum id (tv_keccak E) (tx_serialize E t))"

definition is_legacy :: "tx \<Rightarrow> bool" where
  "is_legacy t \<longleftrightarrow> (case tx_body t of LegacyTx _ \<Rightarrow> True | _ \<Rightarrow> False)"

definition getMessageToVerifySignature :: "tx_env \<Rightarrow> tx \<Rightarrow> exn + bytes" where
  "getMessageToVerifySignature E t =
     reject (is_legacy t \<and> \<not> isSigned t) ''This transaction is not signed'' (getHashedMessageToSign E t)"

definition calculateSigRecovery :: "int \<Rightarrow> int option \<Rightarrow> int" where
  "calculateSigRecovery v chain =
     (if v = 0 \<or> v = 1 then v
      else case chain of None \<Rightarrow> v - 27 | Some c \<Rightarrow> v - (c * 2 + 35))"

text \<open>The curve recovers the key from the two halves of the signature and the recovery bit.\<close>

definition ecrecover :: "tx_env \<Rightarrow> bytes \<Rightarrow> int \<Rightarrow> bytes \<Rightarrow> bytes \<Rightarrow> int option \<Rightarrow> exn + bytes" where
  "ecrecover E msgHash v r s chain =
     then_sum (setLengthLeft r 32) (\<lambda>r32.
     then_sum (setLengthLeft s 32) (\<lambda>s32.
     let recovery = calculateSigRecovery v chain
     in reject (recovery \<noteq> 0 \<and> recovery \<noteq> 1) ''Invalid signature v value''
        (case tv_recover E msgHash recovery (r32 @ s32) of
           None \<Rightarrow> Inl (HostError ''recovery failed'') | Some key \<Rightarrow> Inr key)))"

definition catch_sum :: "exn + 'a \<Rightarrow> string \<Rightarrow> exn + 'a" where
  "catch_sum r msg = (case r of Inl e \<Rightarrow> Inl (HostError msg) | Inr x \<Rightarrow> Inr x)"

definition getSenderPublicKey :: "tx_env \<Rightarrow> tx \<Rightarrow> exn + bytes" where
  "getSenderPublicKey E t =
     then_sum (getMessageToVerifySignature E t) (\<lambda>msgHash.
     reject (\<not> validateHighS E t) ''Invalid Signature: s-values greater than secp256k1n/2 are considered invalid''
     (catch_sum
       (case (tx_v t, tx_r t, tx_s t) of
          (Some v, Some r, Some s) \<Rightarrow>
            then_sum (bigIntToUnpaddedBytes r) (\<lambda>rb.
            then_sum (bigIntToUnpaddedBytes s) (\<lambda>sb.
            ecrecover E msgHash v rb sb (if supports t 155 then Some (tv_chainId E) else None)))
        | _ \<Rightarrow> Inl (HostError ''TypeError''))
       ''Invalid Signature''))"

definition pubToAddress :: "tx_env \<Rightarrow> bytes \<Rightarrow> exn + address" where
  "pubToAddress E pubKey = reject (length pubKey \<noteq> 64) ''Expected pubKey to be of length 64''
     (let h = tv_keccak E pubKey in new_address (drop (length h - 20) h))"

definition getSenderAddress :: "tx_env \<Rightarrow> tx \<Rightarrow> exn + address" where
  "getSenderAddress E t = then_sum (getSenderPublicKey E t) (pubToAddress E)"

definition verifySignature :: "tx_env \<Rightarrow> tx \<Rightarrow> bool" where
  "verifySignature E t = (case getSenderPublicKey E t of Inl _ \<Rightarrow> False | Inr k \<Rightarrow> unpadBytes k \<noteq> [])"

text \<open>
  \<^verbatim>\<open>addSignature\<close> makes a new transaction of the same fields; \<^verbatim>\<open>convertV\<close> is set when called from \<^verbatim>\<open>sign\<close>.
\<close>

definition addr_val :: "address option \<Rightarrow> txval" where
  "addr_val a = (case a of None \<Rightarrow> Undef | Some x \<Rightarrow> Val (RBytes (addr_bytes x)))"

definition signed_input :: "tx_env \<Rightarrow> tx \<Rightarrow> int \<Rightarrow> int \<Rightarrow> int \<Rightarrow> tx_input" where
  "signed_input E t v r s =
     (let base = no_input\<lparr>d_nonce := Big (tx_nonce t), d_gasLimit := Big (tx_gasLimit t), d_to := addr_val (tx_to t),
            d_value := Big (tx_value t), d_data := Val (RBytes (tx_data t)), d_v := Big v, d_r := Big r, d_s := Big s\<rparr>
      in case tx_body t of
           LegacyTx gasPrice \<Rightarrow> base\<lparr>d_gasPrice := Big gasPrice, d_tokenId := Big (tx_tokenId t), d_tokenValue := Big (tx_tokenValue t)\<rparr>
         | AccessList2930Tx gasPrice al \<Rightarrow>
             base\<lparr>d_chainId := Big (tv_chainId E), d_gasPrice := Big gasPrice, d_accessList := Some al\<rparr>
         | FeeMarket1559Tx maxPriority maxFee al \<Rightarrow>
             base\<lparr>d_chainId := Big (tv_chainId E), d_maxPriorityFeePerGas := Big maxPriority, d_maxFeePerGas := Big maxFee,
                  d_accessList := Some al\<rparr>)"

definition new_tx :: "tx_env \<Rightarrow> tx_body \<Rightarrow> tx_input \<Rightarrow> exn + tx" where
  "new_tx E b d = (case b of LegacyTx _ \<Rightarrow> newLegacyTx E d | AccessList2930Tx _ _ \<Rightarrow> newAccessList2930Tx E d
     | FeeMarket1559Tx _ _ _ \<Rightarrow> newFeeMarket1559Tx E d)"

definition addSignature :: "tx_env \<Rightarrow> tx \<Rightarrow> int \<Rightarrow> int \<Rightarrow> int \<Rightarrow> bool \<Rightarrow> exn + tx" where
  "addSignature E t v r s convertV =
     new_tx E (tx_body t) (signed_input E t
       (if is_legacy t \<and> convertV then (if supports t 155 then v + (35 + tv_chainId E * 2) else v + 27) else v) r s)"

text \<open>The capability that \<^verbatim>\<open>sign\<close> adds for the time of signing a legacy transaction without it.\<close>

definition tx_sign :: "tx_env \<Rightarrow> tx \<Rightarrow> bytes \<Rightarrow> exn + tx" where
  "tx_sign E t privateKey =
     reject (length privateKey \<noteq> 32) ''Private key must be 32 bytes in length.''
     (let t' = (if is_legacy t \<and> \<not> supports t 155 then t\<lparr>activeCapabilities := activeCapabilities t @ [155]\<rparr> else t)
      in then_sum (getHashedMessageToSign E t') (\<lambda>msgHash.
         case tv_sign E msgHash privateKey of (recovery, r, s) \<Rightarrow> addSignature E t' recovery r s True))"

section \<open>Fees\<close>

definition tx_accessList :: "tx \<Rightarrow> rlp list" where
  "tx_accessList t = (case tx_body t of LegacyTx _ \<Rightarrow> [] | AccessList2930Tx _ a \<Rightarrow> access_items a | FeeMarket1559Tx _ _ a \<Rightarrow> access_items a)"

fun slot_count :: "rlp \<Rightarrow> nat" where
  "slot_count (RList [address, slots]) = rlp_length slots"
| "slot_count _ = 0"

definition legacyDataGas :: "bytes \<Rightarrow> int" where
  "legacyDataGas data = (\<Sum>b\<leftarrow>data. if b = 0 then tx_param ''txDataZeroGas'' else tx_param ''txDataNonZeroGas'')"

definition getAccessListDataGas :: "tx \<Rightarrow> int" where
  "getAccessListDataGas t =
     int (length (tx_accessList t)) * tx_param ''accessListAddressGas'' +
     int (sum_list (map slot_count (tx_accessList t))) * tx_param ''accessListStorageKeyGas''"

definition getDataGas :: "tx \<Rightarrow> int" where
  "getDataGas t = legacyDataGas (tx_data t) + (if is_legacy t then 0 else getAccessListDataGas t)"

definition toCreationAddress :: "tx \<Rightarrow> bool" where
  "toCreationAddress t \<longleftrightarrow> tx_to t = None"

definition getIntrinsicGas :: "tx \<Rightarrow> int" where
  "getIntrinsicGas t = getDataGas t + tx_param ''txGas'' + (if toCreationAddress t then tx_param ''txCreationGas'' else 0)"

definition getEffectivePriorityFee :: "tx \<Rightarrow> int option \<Rightarrow> exn + int" where
  "getEffectivePriorityFee t baseFee = (case tx_body t of
     FeeMarket1559Tx maxPriority maxFee _ \<Rightarrow> (case baseFee of
         None \<Rightarrow> Inl (HostError ''Tx cannot pay baseFee'')
       | Some f \<Rightarrow> if f > maxFee then Inl (HostError ''Tx cannot pay baseFee'') else Inr (min maxPriority (maxFee - f)))
   | LegacyTx p \<Rightarrow> (case baseFee of None \<Rightarrow> Inr p
       | Some f \<Rightarrow> if f > p then Inl (HostError ''Tx cannot pay baseFee'') else Inr (p - f))
   | AccessList2930Tx p _ \<Rightarrow> (case baseFee of None \<Rightarrow> Inr p
       | Some f \<Rightarrow> if f > p then Inl (HostError ''Tx cannot pay baseFee'') else Inr (p - f)))"

definition getUpfrontCost :: "tx \<Rightarrow> int option \<Rightarrow> int" where
  "getUpfrontCost t baseFee = (case tx_body t of
     FeeMarket1559Tx maxPriority maxFee _ \<Rightarrow>
       (let f = or_else baseFee 0; maxBase = maxFee - f; inclusionFeePerGas = (if maxPriority < maxBase then maxPriority else maxBase)
        in tx_gasLimit t * (inclusionFeePerGas + f) + tx_value t)
   | LegacyTx p \<Rightarrow> tx_gasLimit t * p + tx_value t
   | AccessList2930Tx p _ \<Rightarrow> tx_gasLimit t * p + tx_value t)"

definition getValidationErrors :: "tx_env \<Rightarrow> tx \<Rightarrow> string list" where
  "getValidationErrors E t =
     (if isSigned t \<and> \<not> verifySignature E t then [''Invalid Signature''] else []) @
     (if getIntrinsicGas t > tx_gasLimit t then [''gasLimit is too low''] else [])"

definition isValid :: "tx_env \<Rightarrow> tx \<Rightarrow> bool" where
  "isValid E t \<longleftrightarrow> getValidationErrors E t = []"

end
