(* ===== verification/TxOk.thy ===== *)
theory TxOk
  imports Tx
begin

text \<open>
  What the constructors of transactions establish (\<open>tx_ok\<close>), which inputs they accept, and from this:
  a constructed transaction is read back from its serialization, a signed one has the signer as its
  sender, and the signed message determines everything that is signed.
\<close>

section \<open>Results\<close>

lemma then_sum_simps [simp]: "then_sum (Inl e) f = Inl e" "then_sum (Inr x) f = f x"
  by (simp_all add: then_sum_def)

lemma then_sum_Inr: "then_sum r f = Inr y \<longleftrightarrow> (\<exists>x. r = Inr x \<and> f x = Inr y)"
  by (cases r) simp_all

lemma reject_Inr: "reject b msg k = Inr y \<longleftrightarrow> \<not> b \<and> k = Inr y"
  by (simp add: reject_def)

lemma reject_False [simp]: "reject False msg k = k"
  by (simp add: reject_def)

lemma map_sum_Inr: "map_sum id f r = Inr y \<longleftrightarrow> (\<exists>x. r = Inr x \<and> y = f x)"
  by (cases r) auto

lemmas sum_steps = then_sum_Inr reject_Inr map_sum_Inr

section \<open>Numbers as bytes\<close>

definition num_bytes :: "int \<Rightarrow> bytes" where
  "num_bytes n = be_digits (nat n)"

lemma unpad_hd: "bs \<noteq> [] \<Longrightarrow> hd bs \<noteq> 0 \<Longrightarrow> unpadBytes bs = bs"
  by (cases bs) auto

lemma bigIntToUnpaddedBytes_num: "0 \<le> n \<Longrightarrow> bigIntToUnpaddedBytes n = Inr (num_bytes n)"
  using be_digits_hd [of "nat n"]
  by (auto simp: bigIntToUnpaddedBytes_def bigIntToBytes_def num_bytes_def intro: unpad_hd)

lemma num_field_num: "0 \<le> n \<Longrightarrow> num_field n = Inr (RBytes (num_bytes n))"
  by (simp add: num_field_def bigIntToUnpaddedBytes_num)

lemma num_bytes_value: "0 \<le> n \<Longrightarrow> bytesToBigInt (num_bytes n) = n"
  by (simp add: num_bytes_def be_digits_value)

lemma num_bytes_eq_Nil: "0 \<le> n \<Longrightarrow> num_bytes n = [] \<longleftrightarrow> n = 0"
  by (simp add: num_bytes_def)

lemma num_bytes_inject: "0 \<le> m \<Longrightarrow> 0 \<le> n \<Longrightarrow> num_bytes m = num_bytes n \<longleftrightarrow> m = n"
  by (metis num_bytes_value)

lemma num_bytes_leading: "0 \<le> n \<Longrightarrow> \<not> leading_zero (Val (RBytes (num_bytes n)))"
  using be_digits_hd [of "nat n"] unfolding num_bytes_def
  by (cases "be_digits (nat n)"; cases "nat n = 0") auto

lemma to_int_num: "0 \<le> n \<Longrightarrow> to_int (Val (RBytes (num_bytes n))) = Inr n"
  by (simp add: to_int_def util_toBytes_def num_bytes_value)

lemma to_int_Big: "0 \<le> n \<Longrightarrow> to_int (Big n) = Inr n"
  using bigIntToBytes_ok [of n] by (auto simp: to_int_def util_toBytes_def)

lemma to_int_nonneg: "to_int v = Inr n \<Longrightarrow> 0 \<le> n"
  by (auto simp: to_int_def map_sum_Inr)

lemma sig_value_num: "0 < n \<Longrightarrow> sig_value (Val (RBytes (num_bytes n))) = Inr (Some n)"
  by (simp add: sig_value_def util_toBytes_def num_bytes_value num_bytes_eq_Nil)

lemma sig_value_Big: "0 \<le> n \<Longrightarrow> sig_value (Big n) = Inr (Some n)"
  using bigIntToBytes_ok [of n] by (auto simp: sig_value_def util_toBytes_def)

lemma sig_value_nonneg: "sig_value v = Inr (Some n) \<Longrightarrow> 0 \<le> n"
  by (auto simp: sig_value_def map_sum_Inr split: if_splits)

lemma new_address_bytes: "new_address (addr_bytes a) = Inr a"
  by (simp add: new_address_def addr_bytes_value)

section \<open>What constructors establish\<close>

definition core_ok :: "tx \<Rightarrow> bool" where
  "core_ok t \<longleftrightarrow> 0 \<le> tx_nonce t \<and> tx_nonce t < MAX_UINT64 \<and> 0 \<le> tx_gasLimit t \<and> tx_gasLimit t \<le> MAX_UINT64 \<and>
     0 \<le> tx_value t \<and> tx_value t \<le> MAX_INTEGER_BIGINT \<and> 0 \<le> tx_tokenId t \<and> tx_tokenId t \<le> MAX_INT64 \<and>
     0 \<le> tx_tokenValue t \<and> tx_tokenValue t \<le> MAX_INT64 \<and>
     pred_option (\<lambda>v. 0 \<le> v) (tx_v t) \<and>
     pred_option (\<lambda>r. 0 \<le> r \<and> r \<le> MAX_INTEGER_BIGINT) (tx_r t) \<and>
     pred_option (\<lambda>s. 0 \<le> s \<and> s \<le> MAX_INTEGER_BIGINT) (tx_s t)"

text \<open>A value is accepted as an access list.\<close>

definition accessList_ok :: "rlp \<Rightarrow> bool" where
  "accessList_ok a \<longleftrightarrow> normal_access (Some a) = Inr a \<and> verifyAccessList a"

definition typed_ok :: "tx_env \<Rightarrow> tx \<Rightarrow> bool" where
  "typed_ok E t \<longleftrightarrow> tx_tokenId t = 0 \<and> tx_tokenValue t = 0 \<and> validateYParity t \<and> validateHighS E t"

definition price_ok :: "int \<Rightarrow> tx \<Rightarrow> bool" where
  "price_ok p t \<longleftrightarrow> 0 \<le> p \<and> p \<le> MAX_INTEGER_BIGINT \<and> p * tx_gasLimit t \<le> MAX_INTEGER_BIGINT"

definition legacy_capabilities :: "tx_env \<Rightarrow> tx \<Rightarrow> nat list" where
  "legacy_capabilities E t = (if \<not> isSigned t then [155]
     else case tx_v t of Some v \<Rightarrow> if meetsEIP155 v (tv_chainId E) then [155] else [] | None \<Rightarrow> [])"

definition tx_ok :: "tx_env \<Rightarrow> tx \<Rightarrow> bool" where
  "tx_ok E t \<longleftrightarrow> core_ok t \<and> (case tx_body t of
     LegacyTx p \<Rightarrow> price_ok p t \<and> activeCapabilities t = legacy_capabilities E t \<and>
       (\<exists>c. validateVAndExtractChainID (tv_chainId E) (tx_v t) = Inr c \<and> (c = None \<or> c = Some (tv_chainId E)))
   | AccessList2930Tx p a \<Rightarrow> price_ok p t \<and> typed_ok E t \<and> accessList_ok a \<and> activeCapabilities t = [2718, 2930]
   | FeeMarket1559Tx mp mf a \<Rightarrow> price_ok mf t \<and> 0 \<le> mp \<and> mp \<le> mf \<and> typed_ok E t \<and> accessList_ok a \<and>
       activeCapabilities t = [1559, 2718, 2930])"

section \<open>Doubles\<close>

lemma double_exp_bounds:
  assumes "0 \<le> n"
  shows "n < 2 ^ 53 * 2 ^ double_exp n" "2 ^ 53 \<le> n \<Longrightarrow> 2 ^ 52 * 2 ^ double_exp n \<le> n"
proof -
  have "n < 2 ^ 53 * 2 ^ double_exp n \<and> (2 ^ 53 \<le> n \<longrightarrow> 2 ^ 52 * 2 ^ double_exp n \<le> n)" using assms
  proof (induction n rule: double_exp.induct)
    case (1 n)
    show ?case
    proof (cases "n < 2 ^ 53")
      case False
      have e: "double_exp n = Suc (double_exp (n div 2))" using False by (simp add: double_exp.simps [of n])
      have "2 ^ 52 * 2 ^ double_exp (n div 2) \<le> n div 2"
      proof (cases "n div 2 < 2 ^ 53")
        case True
        then show ?thesis using False by (simp add: double_exp.simps [of "n div 2"])
      next
        case large: False
        then show ?thesis using 1 False by simp
      qed
      moreover have "n div 2 < 2 ^ 53 * 2 ^ double_exp (n div 2)" using 1 False by simp
      ultimately show ?thesis by (simp add: e) linarith
    qed (simp add: double_exp.simps)
  qed
  then show "n < 2 ^ 53 * 2 ^ double_exp n" "2 ^ 53 \<le> n \<Longrightarrow> 2 ^ 52 * 2 ^ double_exp n \<le> n" by blast+
qed

text \<open>Integers below $2^{53}$ are exact; larger ones stay large.\<close>

lemma double_round_exact: "\<bar>n\<bar> < 2 ^ 53 \<Longrightarrow> double_round n = n"
  by (simp add: double_round_def double_exp.simps Let_def mult_sgn_abs)

lemma double_round_large:
  assumes "2 ^ 53 \<le> n"
  shows "2 ^ 53 \<le> double_round n"
proof -
  let ?e = "double_exp n" and ?x = "(2 :: int) ^ double_exp n"
  have "2 ^ 52 * ?x \<le> n" using double_exp_bounds(2) assms by simp
  then have q: "2 ^ 52 \<le> n div ?x" by (simp add: pos_imp_zdiv_pos_iff zdiv_mono1 [of "2 ^ 52 * ?x" n ?x, simplified])
  have "?e \<noteq> 0" using assms by (simp add: double_exp.simps)
  then have "2 \<le> ?x" by (cases ?e) simp_all
  with q have m: "2 ^ 52 * 2 \<le> n div ?x * ?x" by (intro mult_mono) simp_all
  have up: "(n div ?x + 1) * ?x = n div ?x * ?x + ?x" by (simp add: distrib_right)
  show ?thesis using assms m \<open>2 \<le> ?x\<close> by (simp add: double_round_def Let_def up)
qed

text \<open>From $2^{54}$ on only multiples of four are doubles.\<close>

lemma double_round_grid: "double_round n \<le> 2 ^ 54 \<or> 4 dvd double_round n"
proof -
  let ?e = "double_exp \<bar>n\<bar>"
  let ?q = "\<bar>n\<bar> div 2 ^ ?e"
  define k where "k = (if 2 ^ ?e < 2 * (\<bar>n\<bar> mod 2 ^ ?e) \<or> 2 ^ ?e = 2 * (\<bar>n\<bar> mod 2 ^ ?e) \<and> odd ?q then ?q + 1 else ?q)"
  have k: "double_round n = sgn n * (k * 2 ^ ?e)" "k = ?q \<or> k = ?q + 1"
    by (simp_all add: double_round_def Let_def k_def)
  show ?thesis
  proof (cases "?e \<le> 1")
    case True
    then have u: "(2 :: int) ^ ?e \<le> 2" using power_increasing [of ?e 1 "2 :: int"] by simp
    have "?q * 2 ^ ?e \<le> \<bar>n\<bar>" by (simp flip: minus_mod_eq_div_mult)
    also have "\<dots> < 2 ^ 53 * 2 ^ ?e" using double_exp_bounds(1) [of "\<bar>n\<bar>"] by simp
    finally have "?q < 2 ^ 53" by simp
    moreover have "0 \<le> ?q" by (simp add: pos_imp_zdiv_nonneg_iff)
    ultimately have "0 \<le> k" "k \<le> 2 ^ 53" using k(2) by auto
    with u have "k * 2 ^ ?e \<le> 2 ^ 53 * 2" by (intro mult_mono) simp_all
    moreover have "0 \<le> k * 2 ^ ?e" using \<open>0 \<le> k\<close> by simp
    ultimately show ?thesis unfolding k(1) by (cases "n = 0"; cases "0 < n") simp_all
  next
    case False
    then have "(2 :: int) ^ 2 dvd 2 ^ ?e" by (intro le_imp_power_dvd) simp
    then show ?thesis by (simp add: k(1))
  qed
qed

lemma double_round_nonneg: "0 \<le> n \<Longrightarrow> 0 \<le> double_round n"
  by (cases "n = 0") (simp_all add: double_round_def Let_def pos_imp_zdiv_nonneg_iff)

lemma js_Number_exact [simp]: "\<bar>n\<bar> < 2 ^ 53 \<Longrightarrow> js_Number n = Some n"
  by (simp add: js_Number_def double_round_exact Let_def)

lemma js_Number_large: "2 ^ 53 \<le> n \<Longrightarrow> js_Number n = Some m \<Longrightarrow> 2 ^ 53 \<le> m"
  using double_round_large [of n] by (auto simp: js_Number_def Let_def split: if_splits)

text \<open>As long as \<^verbatim>\<open>v\<close> is exact for a chain, floating point is the arithmetic of integers.\<close>

definition exact_chain :: "int \<Rightarrow> bool" where
  "exact_chain chain \<longleftrightarrow> 0 \<le> chain \<and> 2 * chain + 36 < 2 ^ 53"

lemma meetsEIP155_exact:
  assumes "exact_chain chain" "0 \<le> v"
  shows "meetsEIP155 v chain \<longleftrightarrow> v = 2 * chain + 35 \<or> v = 2 * chain + 36"
proof -
  have c: "js_times (Some chain) 2 = Some (2 * chain)" "js_plus (Some (2 * chain)) 35 = Some (2 * chain + 35)"
    "js_plus (Some (2 * chain)) 36 = Some (2 * chain + 36)"
    using assms(1) by (simp_all add: exact_chain_def js_times_def js_plus_def)
  show ?thesis
  proof (cases "v < 2 ^ 53")
    case True
    then show ?thesis using assms by (simp add: meetsEIP155_def c exact_chain_def)
  next
    case False
    then have "2 ^ 53 \<le> m" if "js_Number v = Some m" for m using js_Number_large [of v m] False that by simp
    then show ?thesis using False assms(1) by (auto simp: meetsEIP155_def Let_def c exact_chain_def)
  qed
qed

lemma validateVAndExtractChainID_exact:
  assumes "exact_chain chain" "0 \<le> v"
  shows "validateVAndExtractChainID chain (Some v) = Inr c \<longleftrightarrow>
    (v = 27 \<or> v = 28) \<and> c = None \<or> 1 \<le> chain \<and> (v = 2 * chain + 35 \<or> v = 2 * chain + 36) \<and> c = Some chain"
proof (cases "v < 2 ^ 53")
  case True
  have d: "js_div (2 * chain) 2 = chain" using assms(1) by (simp add: js_div_nonneg exact_chain_def)
  have r: "double_round (v - 35) = v - 35" "double_round (v - 36) = v - 36" using True assms(2) by (simp_all add: double_round_exact)
  have e: "double_round (2 * chain) = 2 * chain" using assms(1) by (simp add: double_round_exact exact_chain_def)
  have o: "(2 * chain + 36 - 35) mod 2 = 1" by presburger
  show ?thesis using True assms(2) d
    by (auto simp: validateVAndExtractChainID_def meetsEIP155_exact [OF assms] r e o Let_def)
next
  case False
  then have v: "2 ^ 53 \<le> m" if "js_Number v = Some m" for m using js_Number_large [of v m] False that by simp
  have "\<not> meetsEIP155 m chain" if "js_Number v = Some m" for m
    using v [OF that] assms(1) by (simp add: meetsEIP155_exact exact_chain_def)
  then have "validateVAndExtractChainID chain (Some v) \<noteq> Inr c"
    using v by (fastforce simp: validateVAndExtractChainID_def split: option.splits if_splits)
  then show ?thesis using False assms(1) by (auto simp: exact_chain_def)
qed

text \<open>An input reads as the common fields of a transaction.\<close>

definition reads :: "tx_input \<Rightarrow> tx \<Rightarrow> bool" where
  "reads d t \<longleftrightarrow> validateNotArray d \<and>
     util_toBytes (d_to d) = Inr (case tx_to t of None \<Rightarrow> [] | Some a \<Rightarrow> addr_bytes a) \<and>
     to_int (d_nonce d) = Inr (tx_nonce t) \<and> to_int (d_gasLimit d) = Inr (tx_gasLimit t) \<and>
     to_int (d_value d) = Inr (tx_value t) \<and> to_int (d_tokenId d) = Inr (tx_tokenId t) \<and>
     to_int (d_tokenValue d) = Inr (tx_tokenValue t) \<and> util_toBytes (d_data d) = Inr (tx_data t) \<and>
     sig_value (d_v d) = Inr (tx_v t) \<and> sig_value (d_r d) = Inr (tx_r t) \<and> sig_value (d_s d) = Inr (tx_s t)"

definition core :: "tx \<Rightarrow> tx" where
  "core t = t\<lparr>tx_body := LegacyTx 0, activeCapabilities := []\<rparr>"

lemma sharedConstructor_ok:
  assumes "sharedConstructor typed d = Inr t"
  shows "core_ok t" "typed \<longrightarrow> tx_tokenId t = 0 \<and> tx_tokenValue t = 0"
proof -
  have sig: "pred_option (\<lambda>v. 0 \<le> v) x" if "sig_value v = Inr x" for v x
    using that sig_value_nonneg [of v] by (cases x) simp_all
  show "typed \<longrightarrow> tx_tokenId t = 0 \<and> tx_tokenValue t = 0"
    using assms unfolding sharedConstructor_def sum_steps by (elim exE conjE) (simp only: sum.inject, hypsubst, simp)
  show "core_ok t"
    using assms unfolding sharedConstructor_def sum_steps core_ok_def
    by (elim exE conjE) (auto simp: Let_def option.pred_set to_int_nonneg split: option.splits dest: sig)
qed

lemma sharedConstructor_v: "sharedConstructor typed d = Inr t \<Longrightarrow> sig_value (d_v d) = Inr (tx_v t)"
  unfolding sharedConstructor_def sum_steps by (elim exE conjE) (simp only: sum.inject, hypsubst, simp)

lemma addr_bytes_nonempty [simp]: "addr_bytes a \<noteq> []"
  by (metis length_addr_bytes list.size(3) zero_neq_numeral)

lemma sharedConstructor_reads:
  assumes "reads d t" "core_ok t" "typed \<longrightarrow> tx_tokenId t = 0 \<and> tx_tokenValue t = 0"
  shows "sharedConstructor typed d = Inr (core t)"
proof -
  have "\<not> (typed \<and> (tx_tokenId t \<noteq> 0 \<or> tx_tokenValue t \<noteq> 0))" using assms(3) by blast
  moreover have "valueOverflowCheck [Some (tx_value t), tx_r t, tx_s t] 256 False"
    using assms(2) by (auto simp: core_ok_def Let_def split: option.splits)
  ultimately show ?thesis
    using assms(1,2) unfolding sharedConstructor_def reads_def core_ok_def core_def
    by (cases t; cases "tx_to t") (simp_all add: Let_def reject_def new_address_bytes)
qed

lemma core_ok_core [simp]: "core_ok (t\<lparr>tx_body := b, activeCapabilities := c\<rparr>) = core_ok t"
  by (simp add: core_ok_def)

lemma core_update: "core t\<lparr>tx_body := tx_body t, activeCapabilities := activeCapabilities t\<rparr> = t"
  by (simp add: core_def)

lemma core_simps [simp]:
  "tx_nonce (core t) = tx_nonce t" "tx_gasLimit (core t) = tx_gasLimit t" "tx_v (core t) = tx_v t" "tx_r (core t) = tx_r t"
  "tx_s (core t) = tx_s t" "isSigned (core t) = isSigned t" "validateYParity (core t) = validateYParity t"
  "validateHighS E (core t) = validateHighS E t"
  by (simp_all add: core_def isSigned_def validateYParity_def validateHighS_def)

lemma overflow_256: "valueOverflowCheck [Some p] 256 False \<longleftrightarrow> p \<le> MAX_INTEGER_BIGINT"
  by simp

lemma newLegacyTx_ok:
  assumes "newLegacyTx E d = Inr t"
  shows "tx_ok E t" "is_legacy t"
proof -
  obtain t0 p c where c: "sharedConstructor False d = Inr t0" "to_int (d_gasPrice d) = Inr p" "valueOverflowCheck [Some p] 256 False"
    "validateVAndExtractChainID (tv_chainId E) (tx_v t0) = Inr c" "\<not> (c \<noteq> None \<and> c \<noteq> Some (tv_chainId E))"
    "\<not> p * tx_gasLimit t0 > MAX_INTEGER_BIGINT"
    "t = t0\<lparr>tx_body := LegacyTx p, activeCapabilities := legacy_capabilities E t0\<rparr>"
    using assms unfolding newLegacyTx_def sum_steps legacy_capabilities_def by (elim exE conjE) (simp only: sum.inject, blast)
  have "p \<le> MAX_INTEGER_BIGINT" using c(3) by (simp only: overflow_256)
  with c sharedConstructor_ok(1) [OF c(1)] to_int_nonneg [OF c(2)] show "tx_ok E t"
    by (auto simp: tx_ok_def price_ok_def legacy_capabilities_def isSigned_def)
  show "is_legacy t" using c(7) by (simp add: is_legacy_def)
qed

lemma newLegacyTx_v: "newLegacyTx E d = Inr t \<Longrightarrow> sig_value (d_v d) = Inr (tx_v t)"
  using sharedConstructor_v by (auto simp: newLegacyTx_def sum_steps)

lemma newLegacyTx_reads:
  assumes "reads d t" "to_int (d_gasPrice d) = Inr p" "tx_body t = LegacyTx p" "tx_ok E t"
  shows "newLegacyTx E d = Inr t"
proof -
  have "core t\<lparr>tx_body := LegacyTx p, activeCapabilities := legacy_capabilities E t\<rparr> = t"
    using assms(3,4) by (intro tx.equality) (simp_all add: core_def tx_ok_def)
  moreover obtain c where "validateVAndExtractChainID (tv_chainId E) (tx_v t) = Inr c" "c = None \<or> c = Some (tv_chainId E)"
    using assms(3,4) by (auto simp: tx_ok_def)
  moreover have "sharedConstructor False d = Inr (core t)" using assms by (intro sharedConstructor_reads) (simp_all add: tx_ok_def)
  moreover have "p \<le> MAX_INTEGER_BIGINT" "\<not> p * tx_gasLimit t > MAX_INTEGER_BIGINT"
    using assms(3,4) by (simp_all add: tx_ok_def price_ok_def)
  ultimately show ?thesis
    using assms(2) by (auto simp add: newLegacyTx_def legacy_capabilities_def reject_def)
qed

text \<open>What the typed constructors share.\<close>

lemma accessList_ok: "normal_access x = Inr a \<Longrightarrow> verifyAccessList a \<Longrightarrow> accessList_ok a"
  by (auto simp: accessList_ok_def normal_access_def split: option.splits rlp.splits list.splits)

lemma newAccessList2930Tx_ok:
  assumes "newAccessList2930Tx E d = Inr t"
  shows "tx_ok E t" "\<exists>p a. tx_body t = AccessList2930Tx p a"
proof -
  obtain t0 p a where c: "sharedConstructor True d = Inr t0" "normal_access (d_accessList d) = Inr a" "verifyAccessList a"
    "to_int (d_gasPrice d) = Inr p" "valueOverflowCheck [Some p] 256 False" "\<not> p * tx_gasLimit t0 > MAX_INTEGER_BIGINT"
    "validateYParity t0" "validateHighS E t0"
    "t = t0\<lparr>tx_body := AccessList2930Tx p a, activeCapabilities := [2718, 2930]\<rparr>"
    using assms unfolding newAccessList2930Tx_def sum_steps by (elim exE conjE) (simp only: sum.inject not_not, blast)
  have "p \<le> MAX_INTEGER_BIGINT" using c(5) by (simp only: overflow_256)
  with c sharedConstructor_ok [OF c(1)] to_int_nonneg [OF c(4)] accessList_ok [OF c(2,3)] show "tx_ok E t"
    by (auto simp: tx_ok_def price_ok_def typed_ok_def validateYParity_def validateHighS_def)
  show "\<exists>p a. tx_body t = AccessList2930Tx p a" using c(9) by simp
qed

lemma newFeeMarket1559Tx_ok:
  assumes "newFeeMarket1559Tx E d = Inr t"
  shows "tx_ok E t" "\<exists>mp mf a. tx_body t = FeeMarket1559Tx mp mf a"
proof -
  obtain t0 mp mf a where c: "sharedConstructor True d = Inr t0" "normal_access (d_accessList d) = Inr a" "verifyAccessList a"
    "to_int (d_maxFeePerGas d) = Inr mf" "to_int (d_maxPriorityFeePerGas d) = Inr mp"
    "valueOverflowCheck [Some mf, Some mp] 256 False" "\<not> tx_gasLimit t0 * mf > MAX_INTEGER_BIGINT" "\<not> mf < mp"
    "validateYParity t0" "validateHighS E t0"
    "t = t0\<lparr>tx_body := FeeMarket1559Tx mp mf a, activeCapabilities := [1559, 2718, 2930]\<rparr>"
    using assms unfolding newFeeMarket1559Tx_def sum_steps by (elim exE conjE) (simp only: sum.inject not_not, blast)
  have "mf \<le> MAX_INTEGER_BIGINT" using c(6) by simp
  with c sharedConstructor_ok [OF c(1)] to_int_nonneg [OF c(4)] to_int_nonneg [OF c(5)] accessList_ok [OF c(2,3)] show "tx_ok E t"
    by (auto simp: tx_ok_def price_ok_def typed_ok_def validateYParity_def validateHighS_def mult.commute)
  show "\<exists>mp mf a. tx_body t = FeeMarket1559Tx mp mf a" using c(11) by simp
qed

lemma typed_core:
  assumes "reads d t" "tx_ok E t" "\<not> is_legacy t"
  shows "sharedConstructor True d = Inr (core t)"
  using assms by (intro sharedConstructor_reads) (auto simp: tx_ok_def typed_ok_def is_legacy_def split: tx_body.splits)

lemma newAccessList2930Tx_reads:
  assumes "reads d t" "chain_matches E (d_chainId d) = Inr ()" "to_int (d_gasPrice d) = Inr p" "d_accessList d = Some a"
    "tx_body t = AccessList2930Tx p a" "tx_ok E t"
  shows "newAccessList2930Tx E d = Inr t"
proof -
  have "sharedConstructor True d = Inr (core t)" using assms by (intro typed_core) (simp_all add: is_legacy_def)
  moreover have "core t\<lparr>tx_body := AccessList2930Tx p a, activeCapabilities := [2718, 2930]\<rparr> = t"
    using assms(5,6) by (intro tx.equality) (simp_all add: core_def tx_ok_def)
  ultimately show ?thesis using assms
    by (simp add: newAccessList2930Tx_def reject_def tx_ok_def accessList_ok_def price_ok_def typed_ok_def)
qed

lemma newFeeMarket1559Tx_reads:
  assumes "reads d t" "chain_matches E (d_chainId d) = Inr ()" "to_int (d_maxFeePerGas d) = Inr mf"
    "to_int (d_maxPriorityFeePerGas d) = Inr mp" "d_accessList d = Some a"
    "tx_body t = FeeMarket1559Tx mp mf a" "tx_ok E t"
  shows "newFeeMarket1559Tx E d = Inr t"
proof -
  have "sharedConstructor True d = Inr (core t)" using assms by (intro typed_core) (simp_all add: is_legacy_def)
  moreover have "core t\<lparr>tx_body := FeeMarket1559Tx mp mf a, activeCapabilities := [1559, 2718, 2930]\<rparr> = t"
    using assms(6,7) by (intro tx.equality) (simp_all add: core_def tx_ok_def)
  moreover have "mp \<le> MAX_INTEGER_BIGINT" "tx_gasLimit t * mf \<le> MAX_INTEGER_BIGINT"
    using assms(6,7) by (simp_all add: tx_ok_def price_ok_def mult.commute)
  ultimately show ?thesis using assms
    by (simp add: newFeeMarket1559Tx_def reject_def tx_ok_def accessList_ok_def price_ok_def typed_ok_def)
qed

lemma new_tx_ok:
  assumes "new_tx E b d = Inr t"
  shows "tx_ok E t"
  using assms newLegacyTx_ok(1) newAccessList2930Tx_ok(1) newFeeMarket1559Tx_ok(1)
  by (cases b) (auto simp: new_tx_def)

end
