(* ===== verification/TxProps.thy ===== *)
theory TxProps
  imports TxOk
begin

text \<open>
  The properties of transactions: the serialization of a constructed transaction is read back, the
  sender of a signed one is the signer, and equal signed messages belong to equal transactions.
\<close>

section \<open>A sample\<close>

text \<open>A hash and a curve that are easy to evaluate: every signature is $(1, 5, 7)$.\<close>

definition sample_env :: tx_env where
  "sample_env = \<lparr>tv_chainId = 1, tv_keccak = (\<lambda>b. take 32 (rev b @ zeros 32)), tv_halfOrder = 2 ^ 255,
     tv_recover = (\<lambda>h v rs. if v = 1 \<and> rs = zeros 31 @ [5] @ zeros 31 @ [7] then Some (replicate 64 3) else None),
     tv_sign = (\<lambda>h k. (1, 5, 7))\<rparr>"

definition sample_input :: tx_input where
  "sample_input = no_input\<lparr>d_nonce := Big 9, d_gasLimit := Big 300, d_to := addr_val (Some 0x1234), d_value := Big 260,
     d_data := Val (RBytes [0, 1]), d_chainId := Big 1, d_maxFeePerGas := Big 30, d_maxPriorityFeePerGas := Big 2,
     d_accessList := Some (RList [RList [RBytes (zeros 20), RList [RBytes (zeros 32)]]])\<rparr>"

definition sample_tx :: tx where
  "sample_tx = \<lparr>tx_nonce = 9, tx_gasLimit = 300, tx_value = 260, tx_tokenId = 0, tx_tokenValue = 0, tx_data = [0, 1],
     tx_to = Some 0x1234, tx_v = None, tx_r = None, tx_s = None,
     tx_body = FeeMarket1559Tx 2 30 (RList [RList [RBytes (zeros 20), RList [RBytes (zeros 32)]]]),
     activeCapabilities = [1559, 2718, 2930]\<rparr>"

lemma sample_access: "accessList_ok (RList [RList [RBytes (zeros 20), RList [RBytes (zeros 32)]]])"
  by code_simp

lemma sample_tx_ok: "tx_ok sample_env sample_tx" "tx_ok sample_env (sample_tx\<lparr>tx_v := Some 1\<rparr>)"
  by (simp_all add: tx_ok_def core_ok_def sample_tx_def price_ok_def typed_ok_def validateYParity_def validateHighS_def sample_access
      MAX_UINT64_def MAX_INTEGER_BIGINT_def MAX_INT64_def)

lemma sample_new:
  "new_tx sample_env (FeeMarket1559Tx 0 0 (RList [])) sample_input = Inr sample_tx"
  "new_tx sample_env (FeeMarket1559Tx 0 0 (RList [])) (sample_input\<lparr>d_v := Big 1\<rparr>) = Inr (sample_tx\<lparr>tx_v := Some 1\<rparr>)"
proof -
  have "reads sample_input sample_tx" "reads (sample_input\<lparr>d_v := Big 1\<rparr>) (sample_tx\<lparr>tx_v := Some 1\<rparr>)" by code_simp+
  moreover have "chain_matches sample_env (d_chainId sample_input) = Inr ()"
    by (simp add: sample_input_def sample_env_def chain_matches_def to_int_Big)
  ultimately show "new_tx sample_env (FeeMarket1559Tx 0 0 (RList [])) sample_input = Inr sample_tx"
    "new_tx sample_env (FeeMarket1559Tx 0 0 (RList [])) (sample_input\<lparr>d_v := Big 1\<rparr>) = Inr (sample_tx\<lparr>tx_v := Some 1\<rparr>)"
    using sample_tx_ok unfolding new_tx_def tx_body.case
    by (intro newFeeMarket1559Tx_reads [where mf = 30 and mp = 2]; simp add: sample_input_def no_input_def sample_tx_def to_int_Big)+
qed

definition sample_bytes :: bytes where
  "sample_bytes = [2, 248, 95, 1, 9, 2, 30, 130, 1, 44, 148] @ zeros 18 @ [18, 52] @
     [130, 1, 4, 130, 0, 1, 248, 56, 247, 148] @ zeros 20 @ [225, 160] @ zeros 32 @ [128, 128, 128]"

lemma sample_length: "length sample_bytes < max_array"
  by (simp add: sample_bytes_def)

section \<open>The fields of a serialization\<close>

definition num :: "int \<Rightarrow> rlp" where
  "num n = RBytes (num_bytes n)"

definition to_value :: "address option \<Rightarrow> rlp" where
  "to_value a = RBytes (case a of None \<Rightarrow> [] | Some x \<Rightarrow> addr_bytes x)"

definition opt_num :: "int option \<Rightarrow> rlp" where
  "opt_num v = (case v of None \<Rightarrow> RBytes [] | Some n \<Rightarrow> num n)"

text \<open>The fields that are signed, before those of the signature.\<close>

definition unsigned_values :: "int \<Rightarrow> tx \<Rightarrow> rlp list" where
  "unsigned_values chain t = (case tx_body t of
     LegacyTx p \<Rightarrow> [num (tx_nonce t), num p, num (tx_gasLimit t), to_value (tx_to t), num (tx_value t),
        num (tx_tokenId t), num (tx_tokenValue t), RBytes (tx_data t)]
   | AccessList2930Tx p a \<Rightarrow> [num chain, num (tx_nonce t), num p, num (tx_gasLimit t), to_value (tx_to t),
        num (tx_value t), RBytes (tx_data t), a]
   | FeeMarket1559Tx mp mf a \<Rightarrow> [num chain, num (tx_nonce t), num mp, num mf, num (tx_gasLimit t),
        to_value (tx_to t), num (tx_value t), RBytes (tx_data t), a])"

definition signature_values :: "tx \<Rightarrow> rlp list" where
  "signature_values t = [opt_num (tx_v t), opt_num (tx_r t), opt_num (tx_s t)]"

lemma num_field [simp]: "0 \<le> n \<Longrightarrow> num_field n = Inr (num n)"
  by (simp add: num_field_num num_def)

lemma opt_field [simp]: "pred_option (\<lambda>v. 0 \<le> v) v \<Longrightarrow> opt_field v = Inr (opt_num v)"
  by (cases v) (simp_all add: opt_field_def opt_num_def)

lemma to_field [simp]: "to_field a = Inr (to_value a)"
  by (simp add: to_field_def to_value_def)

lemma tx_ok_nonneg:
  assumes "tx_ok E t"
  shows "0 \<le> tx_nonce t" "0 \<le> tx_gasLimit t" "0 \<le> tx_value t" "0 \<le> tx_tokenId t" "0 \<le> tx_tokenValue t"
    "pred_option (\<lambda>v. 0 \<le> v) (tx_v t)" "pred_option (\<lambda>v. 0 \<le> v) (tx_r t)" "pred_option (\<lambda>v. 0 \<le> v) (tx_s t)"
  using assms by (auto simp: tx_ok_def core_ok_def option.pred_set)

lemma tx_ok_prices:
  assumes "tx_ok E t"
  shows "tx_body t = LegacyTx p \<Longrightarrow> 0 \<le> p" "tx_body t = AccessList2930Tx p a \<Longrightarrow> 0 \<le> p"
    "tx_body t = FeeMarket1559Tx mp mf a \<Longrightarrow> 0 \<le> mp" "tx_body t = FeeMarket1559Tx mp mf a \<Longrightarrow> 0 \<le> mf"
  using assms by (auto simp: tx_ok_def price_ok_def)

lemma tx_raw_values:
  assumes "tx_ok E t" "0 \<le> tv_chainId E"
  shows "tx_raw E t = Inr (unsigned_values (tv_chainId E) t @ signature_values t)"
  using tx_ok_nonneg [OF assms(1)] tx_ok_prices [OF assms(1)] assms(2)
  by (cases "tx_body t") (simp_all add: tx_raw_def unsigned_values_def signature_values_def)

lemma encode_list_enc:
  assumes "encode_list vs = Inr b" "length b < max_array"
  shows "b = enc (RList vs)"
  using rlp_encode_enc(1) [of "rlp_embed (RList vs)" b] rlp_value_embed [of "RList vs"] assms
  by (auto simp: encode_list_def)

lemma decode_enc: "length (enc d) < max_array \<Longrightarrow> decode (IBytes (enc d)) = Inr d"
  using rlp_decode_enc [of d "[]"] enc_nonempty [of d] by (simp add: decode_def rlp_empty_def rlp_toBytes_def)

lemma enc_list_hd:
  assumes "length (enc (RList vs)) < max_array"
  shows "0xbf < unat (enc (RList vs) ! 0)"
proof -
  let ?n = "length (concat (map enc vs))"
  have "?n < max_array" using assms by simp
  then have "length (be_digits ?n) \<le> 7" by (rule length_digits_array)
  then have "unat (rlp_prefix ?n 192 ! 0) > 0xbf"
    unfolding rlp_prefix_def by (cases "?n < 56") (simp_all add: unat_small del: of_nat_add of_nat_Suc)
  moreover have "rlp_prefix ?n 192 \<noteq> []" by (simp add: rlp_prefix_def)
  ultimately show ?thesis unfolding enc.simps by (simp only: nth_append length_greater_0_conv if_True simp_thms)
qed

lemma tx_serialize_enc:
  assumes "tx_ok E t" "0 \<le> tv_chainId E" "tx_serialize E t = Inr b" "length b < max_array"
  defines "d \<equiv> RList (unsigned_values (tv_chainId E) t @ signature_values t)"
  shows "b = type_prefix t @ enc d" "length (enc d) < max_array"
proof -
  obtain c where c: "b = type_prefix t @ c" "encode_list (unsigned_values (tv_chainId E) t @ signature_values t) = Inr c"
    using assms(3) by (auto simp: tx_serialize_def tx_raw_values [OF assms(1,2)] map_sum_Inr)
  with assms(4) have "c = enc d" unfolding d_def by (intro encode_list_enc) simp_all
  with c assms(4) show "b = type_prefix t @ enc d" "length (enc d) < max_array" by simp_all
qed

section \<open>Reading back\<close>

text \<open>
  The transaction that is read back: an absent \<^verbatim>\<open>v\<close> of a typed transaction, written as empty bytes, is
  read as zero.
\<close>

definition reread :: "tx \<Rightarrow> tx" where
  "reread t = (if is_legacy t \<or> tx_v t \<noteq> None then t else t\<lparr>tx_v := Some 0\<rparr>)"

lemma to_int_field [simp]: "0 \<le> n \<Longrightarrow> to_int (Val (num n)) = Inr n"
  by (simp add: num_def to_int_num)

lemma not_array [simp]: "\<not> is_array (Val (num n))" "\<not> is_array (Val (opt_num v))" "\<not> is_array (Val (to_value a))"
  "\<not> is_array (Val (RBytes b))" "\<not> is_array Undef" "\<not> is_array (Big n)"
  by (simp_all add: is_array_def num_def opt_num_def to_value_def split: option.splits)

lemma no_leading [simp]: "0 \<le> n \<Longrightarrow> \<not> leading_zero (Val (num n))"
  "pred_option (\<lambda>v. 0 \<le> v) v \<Longrightarrow> \<not> leading_zero (Val (opt_num v))"
  by (auto simp: num_def num_bytes_leading opt_num_def split: option.splits)

lemma sig_value_field [simp]: "pred_option (\<lambda>v. 0 \<le> v) v \<Longrightarrow> v \<noteq> Some 0 \<Longrightarrow> sig_value (Val (opt_num v)) = Inr v"
  by (cases v) (simp_all add: opt_num_def num_def num_bytes_eq_Nil num_bytes_value sig_value_def util_toBytes_def)

lemma big_of_num [simp]: "0 \<le> n \<Longrightarrow> big_of (Val (num n)) = Big n"
  by (simp add: big_of_def num_def num_bytes_value)

lemma big_of_opt [simp]: "pred_option (\<lambda>v. 0 \<le> v) v \<Longrightarrow> big_of (Val (opt_num v)) = Big (case v of None \<Rightarrow> 0 | Some n \<Rightarrow> n)"
  by (cases v) (simp_all add: big_of_def opt_num_def num_def num_bytes_value)

lemma toBytes_field [simp]: "util_toBytes (Val (to_value a)) = Inr (case a of None \<Rightarrow> [] | Some x \<Rightarrow> addr_bytes x)"
  by (simp add: util_toBytes_def to_value_def)

lemma toBytes_data [simp]: "util_toBytes (Val (RBytes b)) = Inr b"
  by (simp add: util_toBytes_def)

lemma to_int_Undef [simp]: "to_int Undef = Inr 0"
  by (simp add: to_int_def util_toBytes_def)

lemma legacy_v: "tx_ok E t \<Longrightarrow> is_legacy t \<Longrightarrow> tx_v t \<noteq> Some 0"
  by (auto simp: tx_ok_def is_legacy_def validateVAndExtractChainID_def split: tx_body.splits)

lemma reread_ok: "tx_ok E t \<Longrightarrow> tx_ok E (reread t)"
  by (auto simp: reread_def tx_ok_def core_ok_def typed_ok_def price_ok_def validateYParity_def validateHighS_def is_legacy_def
      split: tx_body.splits)

lemma chain_matches_same [simp]: "0 \<le> tv_chainId E \<Longrightarrow> chain_matches E (Big (tv_chainId E)) = Inr ()"
  by (simp add: chain_matches_def to_int_Big reject_def)

lemma createLegacyTx_back:
  assumes "tx_ok E t" "0 \<le> tv_chainId E" "is_legacy t" "tx_r t \<noteq> Some 0" "tx_s t \<noteq> Some 0"
  shows "createLegacyTxFromBytesArray E (unsigned_values (tv_chainId E) t @ signature_values t) = Inr t"
proof -
  obtain p where p: "tx_body t = LegacyTx p" using assms(3) by (auto simp: is_legacy_def split: tx_body.splits)
  let ?d = "legacy_input (unsigned_values (tv_chainId E) t @ signature_values t)"
  note nn = tx_ok_nonneg [OF assms(1)] tx_ok_prices(1) [OF assms(1) p]
  have d: "?d = no_input\<lparr>d_nonce := Val (num (tx_nonce t)), d_gasPrice := Val (num p), d_gasLimit := Val (num (tx_gasLimit t)),
      d_to := Val (to_value (tx_to t)), d_value := Val (num (tx_value t)), d_tokenId := Val (num (tx_tokenId t)),
      d_tokenValue := Val (num (tx_tokenValue t)), d_data := Val (RBytes (tx_data t)),
      d_v := Val (opt_num (tx_v t)), d_r := Val (opt_num (tx_r t)), d_s := Val (opt_num (tx_s t))\<rparr>"
    by (simp add: legacy_input_def unsigned_values_def signature_values_def p field_def)
  have "reads ?d t" using nn assms(4,5) legacy_v [OF assms(1,3)] by (simp add: d reads_def validateNotArray_def no_input_def)
  then have "newLegacyTx E ?d = Inr t" using p assms(1) nn by (intro newLegacyTx_reads) (simp_all add: d)
  moreover have "length (unsigned_values (tv_chainId E) t @ signature_values t) = 11"
    by (simp add: unsigned_values_def signature_values_def p)
  ultimately show ?thesis using nn
    by (simp add: createLegacyTxFromBytesArray_def Let_def d validateNoLeadingZeroes_def reject_def del: length_append)
qed

lemma reread_typed:
  "\<not> is_legacy t \<Longrightarrow> reread t = t\<lparr>tx_v := Some (case tx_v t of None \<Rightarrow> 0 | Some n \<Rightarrow> n)\<rparr>"
  by (cases t) (auto simp: reread_def split: option.splits)

lemma create2930_back:
  assumes "tx_ok E t" "0 \<le> tv_chainId E" "tx_body t = AccessList2930Tx p a" "tx_r t \<noteq> Some 0" "tx_s t \<noteq> Some 0"
  shows "create2930FromBytesArray E (unsigned_values (tv_chainId E) t @ signature_values t) = Inr (reread t)"
proof -
  let ?vs = "unsigned_values (tv_chainId E) t @ signature_values t"
  let ?v = "case tx_v t of None \<Rightarrow> 0 | Some n \<Rightarrow> n"
  note nn = tx_ok_nonneg [OF assms(1)] tx_ok_prices(2) [OF assms(1,3)]
  have l: "\<not> is_legacy t" using assms(3) by (simp add: is_legacy_def)
  have vs: "?vs = [num (tv_chainId E), num (tx_nonce t), num p, num (tx_gasLimit t), to_value (tx_to t),
        num (tx_value t), RBytes (tx_data t), a, opt_num (tx_v t), opt_num (tx_r t), opt_num (tx_s t)]"
    by (simp add: unsigned_values_def signature_values_def assms(3))
  have "tx_tokenId t = 0" "tx_tokenValue t = 0" using assms(1,3) by (simp_all add: tx_ok_def typed_ok_def)
  moreover note reread_ok [OF assms(1), unfolded reread_typed [OF l]]
  moreover have "0 \<le> ?v" using nn(6) by (cases "tx_v t") simp_all
  ultimately have "newAccessList2930Tx E (no_input\<lparr>d_chainId := Big (tv_chainId E), d_nonce := Val (num (tx_nonce t)),
      d_gasPrice := Val (num p), d_gasLimit := Val (num (tx_gasLimit t)), d_to := Val (to_value (tx_to t)),
      d_value := Val (num (tx_value t)), d_data := Val (RBytes (tx_data t)), d_accessList := Some a,
      d_v := Big ?v, d_r := Val (opt_num (tx_r t)), d_s := Val (opt_num (tx_s t))\<rparr>) = Inr (reread t)"
    using nn assms unfolding reread_typed [OF l] by (intro newAccessList2930Tx_reads [where p = p and a = a])
      (simp_all add: reads_def validateNotArray_def no_input_def sig_value_Big)
  with nn assms(2) show ?thesis
    unfolding vs by (simp add: create2930FromBytesArray_def field_def access_field_def validateNoLeadingZeroes_def reject_def)
qed

lemma create1559_back:
  assumes "tx_ok E t" "0 \<le> tv_chainId E" "tx_body t = FeeMarket1559Tx mp mf a" "tx_r t \<noteq> Some 0" "tx_s t \<noteq> Some 0"
  shows "create1559FromBytesArray E (unsigned_values (tv_chainId E) t @ signature_values t) = Inr (reread t)"
proof -
  let ?vs = "unsigned_values (tv_chainId E) t @ signature_values t"
  let ?v = "case tx_v t of None \<Rightarrow> 0 | Some n \<Rightarrow> n"
  note nn = tx_ok_nonneg [OF assms(1)] tx_ok_prices(3,4) [OF assms(1,3)]
  have l: "\<not> is_legacy t" using assms(3) by (simp add: is_legacy_def)
  have vs: "?vs = [num (tv_chainId E), num (tx_nonce t), num mp, num mf, num (tx_gasLimit t), to_value (tx_to t),
        num (tx_value t), RBytes (tx_data t), a, opt_num (tx_v t), opt_num (tx_r t), opt_num (tx_s t)]"
    by (simp add: unsigned_values_def signature_values_def assms(3))
  have "tx_tokenId t = 0" "tx_tokenValue t = 0" using assms(1,3) by (simp_all add: tx_ok_def typed_ok_def)
  moreover note reread_ok [OF assms(1), unfolded reread_typed [OF l]]
  moreover have "0 \<le> ?v" using nn(6) by (cases "tx_v t") simp_all
  ultimately have "newFeeMarket1559Tx E (no_input\<lparr>d_chainId := Big (tv_chainId E), d_nonce := Val (num (tx_nonce t)),
      d_maxPriorityFeePerGas := Val (num mp), d_maxFeePerGas := Val (num mf),
      d_gasLimit := Val (num (tx_gasLimit t)), d_to := Val (to_value (tx_to t)),
      d_value := Val (num (tx_value t)), d_data := Val (RBytes (tx_data t)), d_accessList := Some a,
      d_v := Big ?v, d_r := Val (opt_num (tx_r t)), d_s := Val (opt_num (tx_s t))\<rparr>) = Inr (reread t)"
    using nn assms unfolding reread_typed [OF l] by (intro newFeeMarket1559Tx_reads [where mf = mf and mp = mp and a = a])
      (simp_all add: reads_def validateNotArray_def no_input_def sig_value_Big)
  with nn assms(2) show ?thesis
    unfolding vs by (simp add: create1559FromBytesArray_def field_def access_field_def validateNoLeadingZeroes_def reject_def)
qed

lemma tx_read_back:
  assumes ok: "tx_ok E t" and "0 \<le> tv_chainId E" "tx_r t \<noteq> Some 0" "tx_s t \<noteq> Some 0" "tx_serialize E t = Inr bs" "length bs < max_array"
  shows "createTxFromRLP E bs = Inr (reread t)"
proof -
  let ?d = "RList (unsigned_values (tv_chainId E) t @ signature_values t)"
  note bs = tx_serialize_enc [OF ok assms(2,5,6)]
  note dec = decode_enc [OF bs(2)]
  have hd: "0xbf < unat (enc ?d ! 0)" using bs(2) by (rule enc_list_hd)
  show ?thesis
  proof (cases "tx_body t")
    case (LegacyTx p)
    with bs hd dec enc_nonempty [of ?d] createLegacyTx_back [OF ok assms(2) _ assms(3,4)] show ?thesis
      by (simp add: type_prefix_def createTxFromRLP_def createLegacyTxFromRLP_def rlp_array_def reread_def is_legacy_def del: enc.simps)
  next
    case (AccessList2930Tx p a)
    with bs(1) dec create2930_back [OF ok assms(2) _ assms(3,4)] show ?thesis
      by (simp add: type_prefix_def createTxFromRLP_def create2930FromRLP_def rlp_array_def reject_def del: enc.simps)
  next
    case (FeeMarket1559Tx mp mf a)
    with bs(1) dec create1559_back [OF ok assms(2) _ assms(3,4)] show ?thesis
      by (simp add: type_prefix_def createTxFromRLP_def create1559FromRLP_def rlp_array_def reject_def del: enc.simps)
  qed
qed

text \<open>
  C26. A constructed transaction is read back from its serialization by the factory, with all of its
  fields: legacy, access-list and fee-market transactions, signed or not, unless half of the signature
  is zero. An unsigned typed transaction comes back with a \<^verbatim>\<open>v\<close> of zero instead of none.
\<close>
theorem tx_roundtrip:
  assumes "new_tx E b d = Inr t" "0 \<le> tv_chainId E" "tx_r t \<noteq> Some 0" "tx_s t \<noteq> Some 0"
    "tx_serialize E t = Inr bs" "length bs < max_array"
  shows "createTxFromRLP E bs = Inr (reread t)"
  by (rule tx_read_back [OF new_tx_ok [OF assms(1)] assms(2-6)])

theorem tx_roundtrip_witness:
  "tx_serialize sample_env sample_tx = Inr sample_bytes \<and> createTxFromRLP sample_env sample_bytes = Inr (sample_tx\<lparr>tx_v := Some 0\<rparr>)"
proof -
  have s: "tx_serialize sample_env sample_tx = Inr sample_bytes" by code_simp
  have "0 \<le> tv_chainId sample_env" "tx_r sample_tx \<noteq> Some 0" "tx_s sample_tx \<noteq> Some 0"
    by code_simp+
  from tx_roundtrip [OF sample_new(1) this s sample_length] s show ?thesis by (simp add: reread_def is_legacy_def sample_tx_def)
qed

text \<open>
  What the constructors check: every number of a constructed transaction is in its range, the gas limit times the
  price fits 256 bits, the priority fee is at most the maximum fee, a typed transaction moves no token and has a
  parity for \<^verbatim>\<open>v\<close> and a low \<^verbatim>\<open>s\<close>, and the \<^verbatim>\<open>v\<close> of a legacy transaction is 27, 28 or names the chain, if the chain id is
  small enough for floating point.
\<close>
theorem constructed_in_range:
  assumes "new_tx E b d = Inr t"
  shows "0 \<le> tx_nonce t \<and> tx_nonce t < 2 ^ 64 - 1 \<and> 0 \<le> tx_gasLimit t \<and> tx_gasLimit t < 2 ^ 64 \<and>
    0 \<le> tx_value t \<and> tx_value t < 2 ^ 256 \<and> 0 \<le> tx_tokenId t \<and> tx_tokenId t < 2 ^ 63 \<and>
    0 \<le> tx_tokenValue t \<and> tx_tokenValue t < 2 ^ 63 \<and>
    (case tx_body t of
       LegacyTx p \<Rightarrow> 0 \<le> p \<and> tx_gasLimit t * p < 2 ^ 256 \<and>
         (\<forall>v. tx_v t = Some v \<and> exact_chain (tv_chainId E) \<longrightarrow>
            v = 27 \<or> v = 28 \<or> v = 2 * tv_chainId E + 35 \<or> v = 2 * tv_chainId E + 36)
     | AccessList2930Tx p a \<Rightarrow> 0 \<le> p \<and> tx_gasLimit t * p < 2 ^ 256 \<and> tx_tokenId t = 0 \<and> tx_tokenValue t = 0 \<and>
         tx_v t \<in> {None, Some 0, Some 1} \<and> (\<forall>s. tx_s t = Some s \<longrightarrow> s \<le> tv_halfOrder E)
     | FeeMarket1559Tx mp mf a \<Rightarrow> 0 \<le> mp \<and> mp \<le> mf \<and> tx_gasLimit t * mf < 2 ^ 256 \<and> tx_tokenId t = 0 \<and> tx_tokenValue t = 0 \<and>
         tx_v t \<in> {None, Some 0, Some 1} \<and> (\<forall>s. tx_s t = Some s \<longrightarrow> s \<le> tv_halfOrder E))"
proof -
  have ok: "tx_ok E t" using assms by (rule new_tx_ok)
  then have c: "core_ok t" by (simp add: tx_ok_def)
  have v: "v = 27 \<or> v = 28 \<or> v = 2 * tv_chainId E + 35 \<or> v = 2 * tv_chainId E + 36"
    if "validateVAndExtractChainID (tv_chainId E) (tx_v t) = Inr c" "tx_v t = Some v" "exact_chain (tv_chainId E)" for c v
  proof -
    have "0 \<le> v" using c that(2) by (simp add: core_ok_def)
    with that show ?thesis by (auto simp: validateVAndExtractChainID_exact)
  qed
  show ?thesis using ok c v
    by (auto simp: tx_ok_def core_ok_def price_ok_def typed_ok_def validateYParity_def validateHighS_def MAX_UINT64_def MAX_INT64_def
      MAX_INTEGER_BIGINT_def mult.commute split: tx_body.splits)
qed

theorem constructed_in_range_witness:
  "case tx_body sample_tx of FeeMarket1559Tx mp mf a \<Rightarrow> mp \<le> mf \<and> tx_gasLimit sample_tx * mf < 2 ^ 256 | _ \<Rightarrow> False"
  using constructed_in_range [OF sample_new(1)] by (simp add: sample_tx_def)

section \<open>Signing\<close>

text \<open>What is signed.\<close>

definition signed_values :: "tx_env \<Rightarrow> tx \<Rightarrow> rlp list" where
  "signed_values E t = unsigned_values (tv_chainId E) t @
     (if is_legacy t \<and> supports t 155 then [num (tv_chainId E), RBytes [], RBytes []] else [])"

lemma message_values:
  assumes "tx_raw E t = Inr (unsigned_values (tv_chainId E) t @ signature_values t)" "0 \<le> tv_chainId E"
  shows "message_fields E t = Inr (signed_values E t)"
  using assms by (cases "tx_body t") (simp_all add: message_fields_def signed_values_def is_legacy_def unsigned_values_def)

text \<open>The transaction while it is signed: a legacy one is protected against replay.\<close>

definition protected_tx :: "tx \<Rightarrow> tx" where
  "protected_tx t = (if is_legacy t \<and> \<not> supports t 155 then t\<lparr>activeCapabilities := activeCapabilities t @ [155]\<rparr> else t)"

text \<open>
  What signing relies on: the signature of a message under the key is in range and in the lower half
  of the order, and the curve recovers the public key from it.
\<close>

definition signs_for :: "tx_env \<Rightarrow> bytes \<Rightarrow> bytes \<Rightarrow> bool" where
  "signs_for E key pub \<longleftrightarrow> (\<forall>h. case tv_sign E h key of (recovery, r, s) \<Rightarrow>
     recovery \<in> {0, 1} \<and> 0 < r \<and> r \<le> MAX_INTEGER_BIGINT \<and> 0 < s \<and> s \<le> MAX_INTEGER_BIGINT \<and> s \<le> tv_halfOrder E \<and>
     (\<forall>rb sb. word_buf r = Inr rb \<longrightarrow> word_buf s = Inr sb \<longrightarrow> tv_recover E h recovery (rb @ sb) = Some pub))"

definition signed_tx :: "tx_env \<Rightarrow> tx \<Rightarrow> int \<Rightarrow> int \<Rightarrow> int \<Rightarrow> tx" where
  "signed_tx E t v r s = t\<lparr>tx_v := Some (if is_legacy t then v + (35 + tv_chainId E * 2) else v), tx_r := Some r, tx_s := Some s,
     activeCapabilities := (if is_legacy t then [155] else activeCapabilities t)\<rparr>"

lemma signed_tx_simps [simp]:
  "tx_body (signed_tx E t v r s) = tx_body t" "is_legacy (signed_tx E t v r s) = is_legacy t"
  "tx_r (signed_tx E t v r s) = Some r" "tx_s (signed_tx E t v r s) = Some s"
  "isSigned (signed_tx E t v r s)"
  by (simp_all add: signed_tx_def is_legacy_def isSigned_def)

lemma protected_simps [simp]:
  "tx_body (protected_tx t) = tx_body t" "is_legacy (protected_tx t) = is_legacy t"
  "is_legacy t \<Longrightarrow> supports (protected_tx t) 155"
  by (simp_all add: protected_tx_def is_legacy_def supports_def)

lemma signed_tx_ok:
  assumes "tx_ok E t" "1 \<le> tv_chainId E" "is_legacy t \<longrightarrow> 2 * tv_chainId E + 36 < 2 ^ 53" "v \<in> {0, 1}" "0 < r" "r \<le> MAX_INTEGER_BIGINT" "0 < s" "s \<le> MAX_INTEGER_BIGINT" "s \<le> tv_halfOrder E"
  shows "tx_ok E (signed_tx E t v r s)"
proof -
  have "core_ok (t\<lparr>tx_v := Some v', tx_r := Some r, tx_s := Some s, activeCapabilities := c\<rparr>)" if "0 \<le> v'" for v' c
    using assms that by (simp add: tx_ok_def core_ok_def)
  moreover have "validateVAndExtractChainID (tv_chainId E) (Some (v + (35 + tv_chainId E * 2))) = Inr (Some (tv_chainId E))"
    "meetsEIP155 (v + (35 + tv_chainId E * 2)) (tv_chainId E)" if "is_legacy t"
  proof -
    have c: "exact_chain (tv_chainId E)" "0 \<le> v + (35 + tv_chainId E * 2)" using assms(2-4) that by (auto simp: exact_chain_def)
    show "validateVAndExtractChainID (tv_chainId E) (Some (v + (35 + tv_chainId E * 2))) = Inr (Some (tv_chainId E))"
      using assms(2,4) by (subst validateVAndExtractChainID_exact [OF c]) auto
    show "meetsEIP155 (v + (35 + tv_chainId E * 2)) (tv_chainId E)"
      using assms(4) by (subst meetsEIP155_exact [OF c]) auto
  qed
  ultimately show ?thesis using assms
    by (cases "tx_body t")
      (auto simp: tx_ok_def signed_tx_def is_legacy_def price_ok_def legacy_capabilities_def isSigned_def typed_ok_def
        validateYParity_def validateHighS_def)
qed

lemma addr_val_bytes [simp]: "util_toBytes (addr_val a) = Inr (case a of None \<Rightarrow> [] | Some x \<Rightarrow> addr_bytes x)" "\<not> is_array (addr_val a)"
  by (cases a; simp add: addr_val_def util_toBytes_def is_array_def)+

lemma addSignature_signed:
  assumes "tx_ok E t" "1 \<le> tv_chainId E" "is_legacy t \<longrightarrow> 2 * tv_chainId E + 36 < 2 ^ 53" "v \<in> {0, 1}" "0 < r" "r \<le> MAX_INTEGER_BIGINT" "0 < s" "s \<le> MAX_INTEGER_BIGINT" "s \<le> tv_halfOrder E"
  shows "addSignature E (protected_tx t) v r s True = Inr (signed_tx E t v r s)"
proof -
  let ?u = "signed_tx E t v r s"
  note ok = signed_tx_ok [OF assms] and nn = tx_ok_nonneg [OF assms(1)] tx_ok_prices [OF assms(1)]
  define v' where "v' = (if is_legacy t then v + (35 + tv_chainId E * 2) else v)"
  let ?d = "signed_input E (protected_tx t) v' r s"
  have "0 \<le> v'" using assms(2,4) by (auto simp: v'_def)
  then have "reads ?d ?u" using assms nn
    by (cases "tx_body t") (auto simp: reads_def validateNotArray_def signed_input_def no_input_def protected_tx_def signed_tx_def
      to_int_Big sig_value_Big v'_def is_legacy_def tx_ok_def typed_ok_def)
  moreover have "addSignature E (protected_tx t) v r s True = new_tx E (tx_body t) ?d"
    by (simp add: addSignature_def v'_def)
  moreover have "d_chainId ?d = Big (tv_chainId E)" if "\<not> is_legacy t"
    using that by (cases "tx_body t") (simp_all add: signed_input_def is_legacy_def Let_def)
  ultimately show ?thesis using ok nn assms(2)
    by (cases "tx_body t") (auto simp: new_tx_def is_legacy_def signed_input_def Let_def to_int_Big
        intro!: newLegacyTx_reads newAccessList2930Tx_reads newFeeMarket1559Tx_reads)
qed

lemma signed_message:
  assumes "tx_ok E t" "1 \<le> tv_chainId E" "tx_ok E (signed_tx E t v r s)"
  shows "message_bytes E (signed_tx E t v r s) = message_bytes E (protected_tx t)"
proof -
  have raw: "tx_raw E (protected_tx t) = tx_raw E t" "signature_values (protected_tx t) = signature_values t"
    "unsigned_values c (protected_tx t) = unsigned_values c t" "unsigned_values c (signed_tx E t v r s) = unsigned_values c t" for c
    by (cases "tx_body t"; simp add: protected_tx_def signed_tx_def tx_raw_def unsigned_values_def signature_values_def)+
  have "is_legacy t \<Longrightarrow> supports (signed_tx E t v r s) 155" by (simp add: signed_tx_def supports_def is_legacy_def)
  moreover have "type_prefix (signed_tx E t v r s) = type_prefix (protected_tx t)" by (simp add: type_prefix_def)
  moreover have "message_fields E (protected_tx t) = Inr (signed_values E (protected_tx t))"
    using assms by (intro message_values) (simp_all add: raw tx_raw_values)
  moreover have "message_fields E (signed_tx E t v r s) = Inr (signed_values E (signed_tx E t v r s))"
    using assms by (intro message_values tx_raw_values) simp_all
  ultimately show ?thesis by (auto simp: message_bytes_def signed_values_def raw)
qed

lemma word_buf_unpadded:
  assumes "0 \<le> n" "n \<le> MAX_INTEGER_BIGINT"
  obtains b where "word_buf n = Inr b" "setLengthLeft (num_bytes n) 32 = Inr b"
proof -
  have n: "n < 2 ^ 256" using assms by (simp add: MAX_INTEGER_BIGINT_def)
  then obtain b where b: "word_buf n = Inr b" "length b = 32" "bytesToBigInt b = n" using word_buf_ok assms(1) by blast
  have "nat n < 256 ^ 32" using n assms(1) by (simp add: nat_less_iff)
  then have l: "length (num_bytes n) \<le> 32" unfolding num_bytes_def by (rule be_digits_length_le)
  then have "zeros (32 - length (num_bytes n)) @ num_bytes n = b"
    using b assms(1) by (intro bytesToBigInt_inject) (simp_all add: bytesToBigInt_append num_bytes_value)
  with b(1) l show thesis by (intro that [of b]) (simp_all add: setLengthLeft_total)
qed

lemma tx_sign_recovers:
  assumes ok: "tx_ok E t" and "1 \<le> tv_chainId E" "length privateKey = 32" "signs_for E privateKey pub"
    "message_bytes E (protected_tx t) = Inr m" and chain: "is_legacy t \<longrightarrow> 2 * tv_chainId E + 36 < 2 ^ 53"
  shows "\<exists>v r s. tv_sign E (tv_keccak E m) privateKey = (v, r, s) \<and> tx_sign E t privateKey = Inr (signed_tx E t v r s) \<and> v \<in> {0, 1} \<and>
    getSenderPublicKey E (signed_tx E t v r s) = Inr pub \<and>
    getSenderAddress E (signed_tx E t v r s) = pubToAddress E pub"
proof -
  let ?h = "tv_keccak E m"
  obtain v r s where v: "tv_sign E ?h privateKey = (v, r, s)" by (cases "tv_sign E ?h privateKey")
  have c: "v \<in> {0, 1}" "0 < r" "r \<le> MAX_INTEGER_BIGINT" "0 < s" "s \<le> MAX_INTEGER_BIGINT" "s \<le> tv_halfOrder E"
    and rec: "\<And>rb sb. word_buf r = Inr rb \<Longrightarrow> word_buf s = Inr sb \<Longrightarrow> tv_recover E ?h v (rb @ sb) = Some pub"
    using spec [OF assms(4) [unfolded signs_for_def], of ?h] unfolding v by simp_all
  let ?u = "signed_tx E t v r s"
  have oku: "tx_ok E ?u" using ok assms(2) chain c by (rule signed_tx_ok)
  have m: "message_bytes E ?u = Inr m" using signed_message [OF ok assms(2) oku] assms(5) by simp
  have sign: "tx_sign E t privateKey = Inr ?u"
    using addSignature_signed [OF ok assms(2) chain c] assms(3,5) v
    by (simp add: tx_sign_def getHashedMessageToSign_def protected_tx_def Let_def)
  obtain rb sb where w: "word_buf r = Inr rb" "setLengthLeft (num_bytes r) 32 = Inr rb" "word_buf s = Inr sb" "setLengthLeft (num_bytes s) 32 = Inr sb"
    using word_buf_unpadded [of r] word_buf_unpadded [of s] c by (metis less_imp_le)
  have "validateHighS E ?u" using c(6) by (simp add: validateHighS_def)
  moreover define chain where "chain = (if supports ?u 155 then Some (tv_chainId E) else None)"
  moreover obtain vv where vv: "tx_v ?u = Some vv" by (simp add: signed_tx_def)
  moreover have "calculateSigRecovery vv chain = v"
  proof (cases "is_legacy t")
    case True
    then show ?thesis using assms(2) c(1) vv by (auto simp: signed_tx_def supports_def calculateSigRecovery_def chain_def)
  next
    case False
    then show ?thesis using c(1) vv by (auto simp: signed_tx_def calculateSigRecovery_def)
  qed
  moreover have "getMessageToVerifySignature E ?u = Inr ?h"
    using m by (simp add: getMessageToVerifySignature_def getHashedMessageToSign_def)
  ultimately have "getSenderPublicKey E ?u = Inr pub"
    using c w rec [OF w(1,3)] by (auto simp add: getSenderPublicKey_def ecrecover_def Let_def bigIntToUnpaddedBytes_num catch_sum_def)
  with v sign c(1) show ?thesis by (intro exI [of _ v] exI [of _ r] exI [of _ s]) (simp add: getSenderAddress_def)
qed

text \<open>
  C28. Signing works: a constructed transaction of any type that is signed with a key becomes a
  signed transaction with the same fields, and its sender, recovered from the hash of its own signed
  message, is the address of the public key. A legacy transaction is signed with replay protection and its
  \<^verbatim>\<open>v\<close> names the chain; the id of the chain must be small enough that this \<^verbatim>\<open>v\<close> is exact in floating point. The curve is assumed to sign in range, in the lower half of the order, and to recover the
  public key from its signatures.
\<close>
theorem signed_sender:
  assumes "new_tx E b d = Inr t" "1 \<le> tv_chainId E" "length privateKey = 32" "signs_for E privateKey pub"
    "message_bytes E (protected_tx t) = Inr m" "is_legacy t \<longrightarrow> 2 * tv_chainId E + 36 < 2 ^ 53"
  shows "\<exists>v r s. tx_sign E t privateKey = Inr (signed_tx E t v r s) \<and> v \<in> {0, 1} \<and>
    getSenderPublicKey E (signed_tx E t v r s) = Inr pub \<and>
    getSenderAddress E (signed_tx E t v r s) = pubToAddress E pub"
  using tx_sign_recovers [OF new_tx_ok [OF assms(1)] assms(2-6)] by blast

theorem signed_sender_witness:
  "\<exists>v r s. tx_sign sample_env sample_tx (replicate 32 1) = Inr (signed_tx sample_env sample_tx v r s) \<and>
    getSenderAddress sample_env (signed_tx sample_env sample_tx v r s) = Inr 0x0303030303030303030303030303030303030303"
proof -
  have b: "word_buf 5 = Inr (zeros 31 @ [5])" "word_buf 7 = Inr (zeros 31 @ [7])" by code_simp+
  have "signs_for sample_env (replicate 32 1) (replicate 64 3)"
    unfolding signs_for_def by (auto simp: sample_env_def b MAX_INTEGER_BIGINT_def)
  moreover have "\<exists>m. message_bytes sample_env (protected_tx sample_tx) = Inr m"
    by (rule exI [of _ "case message_bytes sample_env (protected_tx sample_tx) of Inr m \<Rightarrow> m | Inl _ \<Rightarrow> []"]) code_simp
  moreover have "1 \<le> tv_chainId sample_env" "length (replicate 32 (1 :: byte)) = 32" by (simp_all add: sample_env_def)
  moreover have "is_legacy sample_tx \<longrightarrow> 2 * tv_chainId sample_env + 36 < 2 ^ 53" by (simp add: sample_env_def)
  moreover have "pubToAddress sample_env (replicate 64 3) = Inr 0x0303030303030303030303030303030303030303" by code_simp
  ultimately show ?thesis using signed_sender [OF sample_new(1)] by metis
qed

text \<open>
  Larger chain ids break replay protection: on a chain whose id is odd and above $2^{53}$ no legacy transaction can be
  constructed with a \<^verbatim>\<open>v\<close> that names the chain, so that signing a legacy transaction fails with every key.
\<close>

lemma large_chain_v:
  assumes "2 ^ 53 < chain" "odd chain" "validateVAndExtractChainID chain (Some v) = Inr c" "c = None \<or> c = Some chain" "0 \<le> v"
  shows "v = 27 \<or> v = 28"
proof -
  obtain m where m: "js_Number v = Some m" using assms(3) by (auto simp: validateVAndExtractChainID_def split: option.splits)
  have "m = 27 \<or> m = 28"
  proof (rule ccontr)
    assume "\<not> (m = 27 \<or> m = 28)"
    then obtain k :: int where k: "37 \<le> m" "k = 35 \<or> k = 36" "c = Some (js_div (double_round (m - k)) 2)"
      using assms(3) by (auto simp: validateVAndExtractChainID_def m Let_def split: if_splits)
    let ?d = "double_round (m - k)"
    have "0 \<le> ?d" using k(1,2) by (intro double_round_nonneg) auto
    with k(3) assms(4) have "?d div 2 = chain" by (simp add: js_div_nonneg)
    then have "?d = 2 * chain \<or> ?d = 2 * chain + 1" by presburger
    moreover have "\<not> 4 dvd 2 * chain" "\<not> 4 dvd 2 * chain + 1" using assms(2) by presburger+
    moreover have "2 ^ 54 < 2 * chain" using assms(1) by simp
    ultimately have "2 ^ 54 < ?d" "\<not> 4 dvd ?d" by auto
    with double_round_grid [of "m - k"] show False by simp
  qed
  then show ?thesis using m assms(5) js_Number_large [of v m] by (cases "v < 2 ^ 53") auto
qed

theorem large_chain_unsigned:
  assumes "tx_body t = LegacyTx p" "2 ^ 53 < tv_chainId E" "odd (tv_chainId E)" "signs_for E privateKey pub"
  shows "\<nexists>u. tx_sign E t privateKey = Inr u"
proof
  assume "\<exists>u. tx_sign E t privateKey = Inr u"
  then obtain u where u: "tx_sign E t privateKey = Inr u" by blast
  have l: "is_legacy t" using assms(1) by (simp add: is_legacy_def)
  obtain h v r s where h: "tv_sign E h privateKey = (v, r, s)" "addSignature E (protected_tx t) v r s True = Inr u"
  proof -
    have "tx_sign E t privateKey = reject (length privateKey \<noteq> 32) ''Private key must be 32 bytes in length.''
        (then_sum (getHashedMessageToSign E (protected_tx t)) (\<lambda>msgHash.
          case tv_sign E msgHash privateKey of (recovery, r, s) \<Rightarrow> addSignature E (protected_tx t) recovery r s True))"
      by (simp add: tx_sign_def protected_tx_def Let_def)
    with u have "reject (length privateKey \<noteq> 32) ''Private key must be 32 bytes in length.''
        (then_sum (getHashedMessageToSign E (protected_tx t)) (\<lambda>msgHash.
          case tv_sign E msgHash privateKey of (recovery, r, s) \<Rightarrow> addSignature E (protected_tx t) recovery r s True)) = Inr u" by simp
    then obtain h where "(case tv_sign E h privateKey of (recovery, r, s) \<Rightarrow> addSignature E (protected_tx t) recovery r s True) = Inr u"
      unfolding sum_steps by blast
    then show thesis using that by (cases "tv_sign E h privateKey") simp
  qed
  have v: "v \<in> {0, 1}" using spec [OF assms(4) [unfolded signs_for_def], of h] h(1) by simp
  let ?v = "v + (35 + tv_chainId E * 2)"
  have n: "newLegacyTx E (signed_input E (protected_tx t) ?v r s) = Inr u"
    using h(2) l assms(1) by (simp add: addSignature_def new_tx_def)
  have "d_v (signed_input E (protected_tx t) ?v r s) = Big ?v" using assms(1) by (simp add: signed_input_def)
  then have "tx_v u = Some ?v" using newLegacyTx_v [OF n] v assms(2) by (auto simp: sig_value_Big)
  moreover have "tx_ok E u" "is_legacy u" using newLegacyTx_ok [OF n] by simp_all
  ultimately obtain c where "validateVAndExtractChainID (tv_chainId E) (Some ?v) = Inr c" "c = None \<or> c = Some (tv_chainId E)"
    by (auto simp: tx_ok_def is_legacy_def split: tx_body.splits)
  then have "?v = 27 \<or> ?v = 28" by (rule large_chain_v [OF assms(2,3)]) (use v assms(2) in auto)
  then show False using v assms(2) by auto
qed

theorem large_chain_unsigned_witness:
  "\<nexists>u. tx_sign (sample_env\<lparr>tv_chainId := 2 ^ 53 + 1\<rparr>) (sample_tx\<lparr>tx_body := LegacyTx 30\<rparr>) (replicate 32 1) = Inr u"
proof (rule large_chain_unsigned)
  have b: "word_buf 5 = Inr (zeros 31 @ [5])" "word_buf 7 = Inr (zeros 31 @ [7])" by code_simp+
  show "signs_for (sample_env\<lparr>tv_chainId := 2 ^ 53 + 1\<rparr>) (replicate 32 1) (replicate 64 3)"
    unfolding signs_for_def by (auto simp: sample_env_def b MAX_INTEGER_BIGINT_def)
qed simp_all

section \<open>What a signature covers\<close>

text \<open>A transaction without its signature.\<close>

definition payload :: "tx \<Rightarrow> tx" where
  "payload t = t\<lparr>tx_v := None, tx_r := None, tx_s := None, activeCapabilities := []\<rparr>"

lemma num_inject: "0 \<le> m \<Longrightarrow> 0 \<le> n \<Longrightarrow> num m = num n \<longleftrightarrow> m = n"
  by (simp add: num_def num_bytes_inject)

lemma to_value_inject: "to_value a = to_value b \<longleftrightarrow> a = b"
  by (cases a; cases b) (auto simp: to_value_def addr_bytes_inject addr_bytes_nonempty [symmetric])

lemma message_enc:
  assumes "tx_ok E t" "0 \<le> tv_chainId E" "message_bytes E t = Inr m" "length m < max_array"
  shows "m = type_prefix t @ enc (RList (signed_values E t))" "length (enc (RList (signed_values E t))) < max_array"
proof -
  have "message_fields E t = Inr (signed_values E t)" using assms by (intro message_values tx_raw_values)
  with assms(3) obtain c where c: "m = type_prefix t @ c" "encode_list (signed_values E t) = Inr c"
    by (auto simp: message_bytes_def map_sum_Inr)
  with assms(4) have "c = enc (RList (signed_values E t))" by (intro encode_list_enc) simp_all
  with c assms(4) show "m = type_prefix t @ enc (RList (signed_values E t))" "length (enc (RList (signed_values E t))) < max_array"
    by simp_all
qed

lemma type_prefix_append:
  assumes "type_prefix t @ enc (RList vs) = type_prefix t' @ enc (RList ws)" "length (enc (RList vs)) < max_array" "length (enc (RList ws)) < max_array"
  shows "type_prefix t = type_prefix t'" "vs = ws"
proof -
  have hd: "0xbf < unat ((type_prefix t @ enc (RList xs)) ! 0) \<longleftrightarrow> type_prefix t = []" if "length (enc (RList xs)) < max_array" for t xs
    using enc_list_hd [OF that] by (auto simp: type_prefix_def split: tx_body.splits)
  have "type_prefix t = [] \<longleftrightarrow> type_prefix t' = []" using hd [OF assms(2), of t] hd [OF assms(3), of t'] assms(1) by metis
  then show p: "type_prefix t = type_prefix t'" using assms(1) by (auto simp: type_prefix_def split: tx_body.splits)
  then show "vs = ws" using assms enc_inject [of "RList vs" "RList ws"] by simp
qed

text \<open>Signed transactions with the same serialization are the same.\<close>

lemma opt_num_inject: "pred_option (\<lambda>v. 0 \<le> v) u \<Longrightarrow> pred_option (\<lambda>v. 0 \<le> v) v \<Longrightarrow> u \<noteq> None \<Longrightarrow> v \<noteq> None \<Longrightarrow>
    opt_num u = opt_num v \<longleftrightarrow> u = v"
  by (auto simp: opt_num_def num_inject)

lemma tx_serialize_inject:
  assumes ok: "tx_ok E t" "tx_ok E u" and "0 \<le> tv_chainId E" and s: "isSigned t" "isSigned u"
    and b: "tx_serialize E t = Inr b" "tx_serialize E u = Inr b" "length b < max_array"
  shows "t = u"
proof -
  note e = tx_serialize_enc [OF ok(1) assms(3) b(1,3)] tx_serialize_enc [OF ok(2) assms(3) b(2,3)]
  have v: "unsigned_values (tv_chainId E) t @ signature_values t = unsigned_values (tv_chainId E) u @ signature_values u"
    and p: "type_prefix t = type_prefix u"
    using type_prefix_append [OF e(1) [symmetric, unfolded e(3)] e(2,4)] by simp_all
  have w: "unsigned_values (tv_chainId E) t = unsigned_values (tv_chainId E) u" "signature_values t = signature_values u"
    using v by (simp_all add: signature_values_def)
  have sig: "tx_v t = tx_v u" "tx_r t = tx_r u" "tx_s t = tx_s u"
    using w(2) s tx_ok_nonneg(6-8) [OF ok(1)] tx_ok_nonneg(6-8) [OF ok(2)]
    by (auto simp: signature_values_def isSigned_def opt_num_inject)
  have caps: "tx_body t = tx_body u \<Longrightarrow> activeCapabilities t = activeCapabilities u"
    using ok sig by (auto simp: tx_ok_def legacy_capabilities_def isSigned_def split: tx_body.splits)
  note nn = tx_ok_nonneg [OF ok(1)] tx_ok_nonneg [OF ok(2)] tx_ok_prices [OF ok(1)] tx_ok_prices [OF ok(2)]
  have eq: "t = u" if "tx_body t = tx_body u" "tx_nonce t = tx_nonce u" "tx_gasLimit t = tx_gasLimit u" "tx_value t = tx_value u"
    "tx_tokenId t = tx_tokenId u" "tx_tokenValue t = tx_tokenValue u" "tx_data t = tx_data u" "tx_to t = tx_to u"
    using that sig caps by (intro tx.equality) simp_all
  show ?thesis
  proof (cases "tx_body t")
    case (LegacyTx x)
    with p obtain y where b: "tx_body u = LegacyTx y" by (auto simp: type_prefix_def split: tx_body.splits)
    show ?thesis
      by (rule eq; use w(1) nn in \<open>simp add: LegacyTx b unsigned_values_def num_inject to_value_inject\<close>)
  next
    case (AccessList2930Tx x a)
    with p obtain y c where b: "tx_body u = AccessList2930Tx y c" by (auto simp: type_prefix_def split: tx_body.splits)
    have tok: "tx_tokenId t = 0" "tx_tokenValue t = 0" "tx_tokenId u = 0" "tx_tokenValue u = 0"
      using ok by (simp_all add: tx_ok_def typed_ok_def AccessList2930Tx b)
    show ?thesis
      by (rule eq; use w(1) nn in \<open>simp add: AccessList2930Tx b unsigned_values_def num_inject to_value_inject tok\<close>)
  next
    case (FeeMarket1559Tx x y a)
    with p obtain x' y' c where b: "tx_body u = FeeMarket1559Tx x' y' c" by (auto simp: type_prefix_def split: tx_body.splits)
    have tok: "tx_tokenId t = 0" "tx_tokenValue t = 0" "tx_tokenId u = 0" "tx_tokenValue u = 0"
      using ok by (simp_all add: tx_ok_def typed_ok_def FeeMarket1559Tx b)
    show ?thesis
      by (rule eq; use w(1) nn in \<open>simp add: FeeMarket1559Tx b unsigned_values_def num_inject to_value_inject tok\<close>)
  qed
qed

text \<open>
  C27. A signature covers everything: two constructed transactions of any types whose signed messages
  are the same bytes agree in type, nonce, fees, gas limit, recipient, value, token, data and access
  list, and, unless both are legacy transactions without replay protection, in the chain.
\<close>
theorem signature_covers:
  assumes "new_tx E b d = Inr t" "new_tx E' b' d' = Inr t'" "0 \<le> tv_chainId E" "0 \<le> tv_chainId E'"
    "message_bytes E t = Inr m" "message_bytes E' t' = Inr m" "length m < max_array"
  shows "payload t = payload t' \<and> (supports t 155 \<longleftrightarrow> supports t' 155) \<and>
    (tv_chainId E = tv_chainId E' \<or> is_legacy t \<and> \<not> supports t 155)"
proof -
  have ok: "tx_ok E t" "tx_ok E' t'" using assms(1,2) by (auto intro: new_tx_ok)
  note e = message_enc [OF ok(1) assms(3,5,7)] message_enc [OF ok(2) assms(4,6,7)]
  have p: "type_prefix t = type_prefix t'" and v: "signed_values E t = signed_values E' t'"
    using type_prefix_append [of t "signed_values E t" t' "signed_values E' t'"] e by simp_all
  have s: "supports u 155 \<Longrightarrow> tx_ok F u \<Longrightarrow> is_legacy u" for F u
    by (auto simp: tx_ok_def supports_def is_legacy_def split: tx_body.splits)
  have eq: "payload t = payload t'" if "tx_body t = tx_body t'" "tx_nonce t = tx_nonce t'" "tx_gasLimit t = tx_gasLimit t'"
    "tx_value t = tx_value t'" "tx_tokenId t = tx_tokenId t'" "tx_tokenValue t = tx_tokenValue t'" "tx_data t = tx_data t'" "tx_to t = tx_to t'"
    using that by (cases t; cases t') (simp add: payload_def)
  note nn = tx_ok_nonneg [OF ok(1)] tx_ok_nonneg [OF ok(2)] tx_ok_prices [OF ok(1)] tx_ok_prices [OF ok(2)]
  show ?thesis
  proof (cases "tx_body t")
    case (LegacyTx pr)
    with p obtain pr' where b: "tx_body t' = LegacyTx pr'" by (auto simp: type_prefix_def split: tx_body.splits)
    show ?thesis using v nn assms(3,4)
      by (auto simp: LegacyTx b signed_values_def unsigned_values_def is_legacy_def num_inject to_value_inject split: if_splits intro!: eq)
  next
    case (AccessList2930Tx pr a)
    with p obtain pr' a' where b: "tx_body t' = AccessList2930Tx pr' a'" by (auto simp: type_prefix_def split: tx_body.splits)
    have tok: "tx_tokenId t = 0" "tx_tokenValue t = 0" "tx_tokenId t' = 0" "tx_tokenValue t' = 0"
      using ok by (simp_all add: tx_ok_def typed_ok_def AccessList2930Tx b)
    show ?thesis using v nn assms(3,4) s [OF _ ok(1)] s [OF _ ok(2)]
      by (auto simp: AccessList2930Tx b signed_values_def unsigned_values_def is_legacy_def num_inject to_value_inject tok intro!: eq)
  next
    case (FeeMarket1559Tx mp mf a)
    with p obtain mp' mf' a' where b: "tx_body t' = FeeMarket1559Tx mp' mf' a'" by (auto simp: type_prefix_def split: tx_body.splits)
    have tok: "tx_tokenId t = 0" "tx_tokenValue t = 0" "tx_tokenId t' = 0" "tx_tokenValue t' = 0"
      using ok by (simp_all add: tx_ok_def typed_ok_def FeeMarket1559Tx b)
    show ?thesis using v nn assms(3,4) s [OF _ ok(1)] s [OF _ ok(2)]
      by (auto simp: FeeMarket1559Tx b signed_values_def unsigned_values_def is_legacy_def num_inject to_value_inject tok intro!: eq)
  qed
qed

theorem signature_covers_witness:
  "\<exists>m. message_bytes sample_env sample_tx = Inr m \<and> payload sample_tx = payload (sample_tx\<lparr>tx_v := Some 1\<rparr>)"
proof -
  let ?m = "case message_bytes sample_env sample_tx of Inr m \<Rightarrow> m | Inl _ \<Rightarrow> []"
  have m: "message_bytes sample_env sample_tx = Inr ?m" by code_simp
  have "length ?m = 95" by code_simp
  then have l: "length ?m < max_array" by simp
  have "message_bytes sample_env (sample_tx\<lparr>tx_v := Some 1\<rparr>) = Inr ?m" by code_simp
  moreover have "0 \<le> tv_chainId sample_env" by code_simp
  ultimately show ?thesis using signature_covers [OF sample_new _ _ m _ l] m by blast
qed

section \<open>Encodings that are accepted though they are not canonical\<close>

text \<open>
  The parser of transactions is not strict: the check for leading zeroes leaves out the token fields of a legacy
  transaction and the check for arrays leaves out the priority fee, so there are different byte
  strings that are read as the same transaction, on every chain.
\<close>
theorem tx_encoding_not_unique:
  "(\<exists>t. createTxFromRLP E [0xc8, 0x80, 0x80, 0x80, 0x80, 0x80, 0x80, 0x80, 0x80] = Inr t \<and>
        createTxFromRLP E [0xc8, 0x80, 0x80, 0x80, 0x80, 0x80, 0x00, 0x80, 0x80] = Inr t) \<and>
   (\<exists>t. createTxFromRLP sample_env [0x02, 0xc9, 0x01, 0x80, 0x05, 0x05, 0x80, 0x80, 0x80, 0x80, 0xc0] = Inr t \<and>
        createTxFromRLP sample_env [0x02, 0xca, 0x01, 0x80, 0xc1, 0x05, 0x05, 0x80, 0x80, 0x80, 0x80, 0xc0] = Inr t)"
proof -
  let ?t = "\<lparr>tx_nonce = 0, tx_gasLimit = 0, tx_value = 0, tx_tokenId = 0, tx_tokenValue = 0, tx_data = [],
     tx_to = None, tx_v = None, tx_r = None, tx_s = None, tx_body = LegacyTx 0, activeCapabilities = [155]\<rparr>"
  let ?u = "\<lparr>tx_nonce = 0, tx_gasLimit = 0, tx_value = 0, tx_tokenId = 0, tx_tokenValue = 0, tx_data = [],
     tx_to = None, tx_v = None, tx_r = None, tx_s = None, tx_body = FeeMarket1559Tx 5 5 (RList []), activeCapabilities = [1559, 2718, 2930]\<rparr>"
  have "decode (IBytes [0xc8, 0x80, 0x80, 0x80, 0x80, 0x80, 0x80, 0x80, 0x80]) = Inr (RList [RBytes [], RBytes [], RBytes [], RBytes [], RBytes [], RBytes [], RBytes [], RBytes []])"
    "decode (IBytes [0xc8, 0x80, 0x80, 0x80, 0x80, 0x80, 0x00, 0x80, 0x80]) = Inr (RList [RBytes [], RBytes [], RBytes [], RBytes [], RBytes [], RBytes [0], RBytes [], RBytes []])"
    by code_simp+
  moreover have "tx_ok E ?t"
    by (simp add: tx_ok_def core_ok_def price_ok_def legacy_capabilities_def isSigned_def validateVAndExtractChainID_def
      MAX_UINT64_def MAX_INTEGER_BIGINT_def MAX_INT64_def)
  then have "newLegacyTx E (legacy_input [RBytes [], RBytes [], RBytes [], RBytes [], RBytes [], RBytes b, RBytes [], RBytes []]) = Inr ?t" if "b \<in> {[], [0]}" for b
    using that by (intro newLegacyTx_reads [where p = 0])
      (auto simp: legacy_input_def field_def reads_def validateNotArray_def no_input_def is_array_def to_int_def util_toBytes_def sig_value_def)
  from this [of "[]"] this [of "[0]"]
  have "createLegacyTxFromBytesArray E [RBytes [], RBytes [], RBytes [], RBytes [], RBytes [], RBytes [], RBytes [], RBytes []] = Inr ?t"
    "createLegacyTxFromBytesArray E [RBytes [], RBytes [], RBytes [], RBytes [], RBytes [], RBytes [0], RBytes [], RBytes []] = Inr ?t"
    by (simp_all add: createLegacyTxFromBytesArray_def Let_def validateNoLeadingZeroes_def)
      (simp_all add: legacy_input_def field_def no_input_def)
  moreover have "decode (IBytes [0xc9, 0x01, 0x80, 0x05, 0x05, 0x80, 0x80, 0x80, 0x80, 0xc0]) =
      Inr (RList [RBytes [1], RBytes [], RBytes [5], RBytes [5], RBytes [], RBytes [], RBytes [], RBytes [], RList []])"
    "decode (IBytes [0xca, 0x01, 0x80, 0xc1, 0x05, 0x05, 0x80, 0x80, 0x80, 0x80, 0xc0]) =
      Inr (RList [RBytes [1], RBytes [], RList [RBytes [5]], RBytes [5], RBytes [], RBytes [], RBytes [], RBytes [], RList []])"
    by code_simp+
  moreover have "create1559FromBytesArray sample_env [RBytes [1], RBytes [], x, RBytes [5], RBytes [], RBytes [], RBytes [], RBytes [], RList []] = Inr ?u"
    if "x = RBytes [5] \<or> x = RList [RBytes [5]]" for x
  proof -
    have "tx_ok sample_env ?u"
      by (simp add: tx_ok_def core_ok_def price_ok_def typed_ok_def validateYParity_def validateHighS_def accessList_ok_def normal_access_def
        verifyAccessList_def MAX_UINT64_def MAX_INTEGER_BIGINT_def MAX_INT64_def)
    then have "newFeeMarket1559Tx sample_env (no_input\<lparr>d_chainId := Big 1, d_nonce := Val (RBytes []),
        d_maxPriorityFeePerGas := Val x, d_maxFeePerGas := Val (RBytes [5]), d_gasLimit := Val (RBytes []), d_to := Val (RBytes []),
        d_value := Val (RBytes []), d_data := Val (RBytes []), d_accessList := Some (RList []),
        d_v := Undef, d_r := Undef, d_s := Undef\<rparr>) = Inr ?u"
      using that by (intro newFeeMarket1559Tx_reads [where mf = 5 and mp = 5])
        (auto simp: reads_def validateNotArray_def no_input_def is_array_def to_int_def util_toBytes_def sig_value_def chain_matches_def sample_env_def bigIntToBytes_def be_digits.simps)
    then show ?thesis using that
      by (auto simp: create1559FromBytesArray_def field_def access_field_def big_of_def is_array_def validateNoLeadingZeroes_def nth_Cons')
  qed
  ultimately show ?thesis
    by (simp add: createTxFromRLP_def createLegacyTxFromRLP_def create1559FromRLP_def rlp_array_def)
qed

end
