(* ===== verification/Bloom.thy ===== *)
theory Bloom
  imports TxOk
begin

text \<open>
  The bloom filter of logs, \<^verbatim>\<open>packages/vm/src/bloom/index.ts\<close>, with \<^verbatim>\<open>txLogsBloom\<close> of
  \<^verbatim>\<open>runTx.ts\<close>. The hash function is a parameter. The loop of \<^verbatim>\<open>or\<close> goes one byte beyond the
  end of the array, where reading gives \<^verbatim>\<open>undefined\<close> and writing has no effect. The result: nothing
  that was added is ever missing.
\<close>

section \<open>Filters\<close>

definition BYTE_SIZE :: nat where
  "BYTE_SIZE = 256"

definition new_bloom :: "bytes option \<Rightarrow> exn + bytes" where
  "new_bloom bitvector = (case bitvector of None \<Rightarrow> Inr (zeros BYTE_SIZE)
     | Some bv \<Rightarrow> reject (length bv \<noteq> BYTE_SIZE) ''bitvectors must be 2048 bits long'' (Inr bv))"

text \<open>Two bytes of a hash as a number; the byte and the bit of the filter they select.\<close>

definition getUint16 :: "bytes \<Rightarrow> nat \<Rightarrow> nat" where
  "getUint16 e i = 256 * unat (e ! i) + unat (e ! (i + 1))"

definition bloom_loc :: "bytes \<Rightarrow> nat \<Rightarrow> nat" where
  "bloom_loc e i = 2047 AND getUint16 e (i * 2)"

definition bloom_byte :: "nat \<Rightarrow> nat" where
  "bloom_byte loc = BYTE_SIZE - drop_bit 3 loc - 1"

definition bloom_bit :: "nat \<Rightarrow> byte" where
  "bloom_bit loc = push_bit (loc mod 8) 1"

definition set_loc :: "nat \<Rightarrow> bytes \<Rightarrow> bytes" where
  "set_loc loc bv = bv[bloom_byte loc := (bv ! bloom_byte loc) OR bloom_bit loc]"

definition has_loc :: "nat \<Rightarrow> bytes \<Rightarrow> bool" where
  "has_loc loc bv \<longleftrightarrow> (bv ! bloom_byte loc) AND bloom_bit loc \<noteq> 0"

definition bloom_add :: "(bytes \<Rightarrow> bytes) \<Rightarrow> bytes \<Rightarrow> bytes \<Rightarrow> exn + bytes" where
  "bloom_add kec x bv = (let e = kec x in reject (length e < 6) ''RangeError''
     (Inr (fold (\<lambda>i. set_loc (bloom_loc e i)) [0..<3] bv)))"

definition bloom_check :: "(bytes \<Rightarrow> bytes) \<Rightarrow> bytes \<Rightarrow> bytes \<Rightarrow> exn + bool" where
  "bloom_check kec x bv = (let e = kec x in reject (length e < 6) ''RangeError''
     (Inr (list_all (\<lambda>i. has_loc (bloom_loc e i) bv) [0..<3])))"

fun bloom_multiCheck :: "(bytes \<Rightarrow> bytes) \<Rightarrow> bytes list \<Rightarrow> bytes \<Rightarrow> exn + bool" where
  "bloom_multiCheck kec [] bv = Inr True"
| "bloom_multiCheck kec (t # ts) bv =
     then_sum (bloom_check kec t bv) (\<lambda>b. if b then bloom_multiCheck kec ts bv else Inr False)"

definition bloom_or :: "bytes \<Rightarrow> bytes \<Rightarrow> bytes" where
  "bloom_or a b = map2 (OR) a b"

section \<open>The filter of logs\<close>

fun add_all :: "(bytes \<Rightarrow> bytes) \<Rightarrow> bytes list \<Rightarrow> bytes \<Rightarrow> exn + bytes" where
  "add_all kec [] bv = Inr bv"
| "add_all kec (x # xs) bv = then_sum (bloom_add kec x bv) (add_all kec xs)"

fun logs_bloom :: "(bytes \<Rightarrow> bytes) \<Rightarrow> log list \<Rightarrow> bytes \<Rightarrow> exn + bytes" where
  "logs_bloom kec [] bv = Inr bv"
| "logs_bloom kec ((a, topics, _) # ls) bv =
     then_sum (bloom_add kec (addr_bytes a) bv) (\<lambda>b. then_sum (add_all kec topics b) (logs_bloom kec ls))"

definition txLogsBloom :: "(bytes \<Rightarrow> bytes) \<Rightarrow> log list \<Rightarrow> exn + bytes" where
  "txLogsBloom kec ls = then_sum (new_bloom None) (logs_bloom kec ls)"

section \<open>Nothing is missing\<close>

text \<open>A filter covers another: it has every bit the other has.\<close>

definition covers :: "bytes \<Rightarrow> bytes \<Rightarrow> bool" where
  "covers b a \<longleftrightarrow> length b = length a \<and> (\<forall>i < length a. \<forall>k. bit (a ! i) k \<longrightarrow> bit (b ! i) k)"

lemma covers_refl [simp]: "covers a a"
  by (simp add: covers_def)

lemma covers_trans: "covers c b \<Longrightarrow> covers b a \<Longrightarrow> covers c a"
  by (simp add: covers_def)

lemma loc_bounds: "bloom_byte loc < BYTE_SIZE" "loc mod 8 < 8"
  by (simp_all add: bloom_byte_def BYTE_SIZE_def)

lemma has_loc_bit: "has_loc loc bv \<longleftrightarrow> bit (bv ! bloom_byte loc) (loc mod 8)"
proof -
  have "(x AND bloom_bit loc) = (if bit x (loc mod 8) then bloom_bit loc else 0)" for x :: byte
    by (rule bit_eqI) (auto simp: bloom_bit_def bit_simps)
  moreover have "bit (bloom_bit loc) (loc mod 8)" by (simp add: bloom_bit_def bit_simps)
  then have "bloom_bit loc \<noteq> 0" by auto
  ultimately show ?thesis by (simp add: has_loc_def)
qed

lemma set_loc_covers: "covers (set_loc loc bv) bv"
  by (cases "bloom_byte loc < length bv") (auto simp: covers_def set_loc_def nth_list_update bit_or_iff)

lemma set_loc_has: "length bv = BYTE_SIZE \<Longrightarrow> has_loc (bloom_loc e i) (set_loc (bloom_loc e i) bv)"
  using loc_bounds [of "bloom_loc e i"] by (simp add: has_loc_bit set_loc_def bloom_bit_def bit_simps)

lemma has_loc_mono: "covers b a \<Longrightarrow> length a = BYTE_SIZE \<Longrightarrow> has_loc (bloom_loc e i) a \<Longrightarrow> has_loc (bloom_loc e i) b"
  using loc_bounds [of "bloom_loc e i"] by (simp add: has_loc_bit covers_def)

lemma check_mono: "covers b a \<Longrightarrow> length a = BYTE_SIZE \<Longrightarrow> bloom_check kec x a = Inr True \<Longrightarrow> bloom_check kec x b = Inr True"
  using has_loc_mono by (fastforce simp: bloom_check_def Let_def reject_def list_all_iff split: if_splits)

lemma bloom_add_ok:
  assumes "bloom_add kec x bv = Inr b" "length bv = BYTE_SIZE"
  shows "covers b bv" "bloom_check kec x b = Inr True"
proof -
  let ?e = "kec x"
  let ?s = "\<lambda>i. set_loc (bloom_loc ?e i)"
  have b: "b = ?s 2 (?s 1 (?s 0 bv))" "6 \<le> length ?e"
    using assms(1) by (auto simp: bloom_add_def Let_def reject_def upt_rec numeral_2_eq_2 split: if_splits)
  have l: "length (?s i v) = length v" for i v by (simp add: set_loc_def)
  have i: "covers b (?s 2 (?s 1 (?s 0 bv)))" "covers b (?s 1 (?s 0 bv))" "covers b (?s 0 bv)" "covers b bv"
    unfolding b by (blast intro: covers_refl set_loc_covers covers_trans)+
  show "covers b bv" by (rule i)
  have "has_loc (bloom_loc ?e j) b" if "j < 3" for j
  proof -
    from that consider "j = 0" | "j = 1" | "j = 2" by linarith
    then show ?thesis
      by cases (use i assms(2) l in \<open>auto intro!: has_loc_mono [OF _ _ set_loc_has]\<close>)
  qed
  then show "bloom_check kec x b = Inr True" using b(2) by (simp add: bloom_check_def Let_def reject_def list_all_iff)
qed

lemma bloom_add_length: "bloom_add kec x bv = Inr b \<Longrightarrow> length bv = BYTE_SIZE \<Longrightarrow> length b = BYTE_SIZE"
  using bloom_add_ok(1) by (fastforce simp: covers_def)

lemma add_all_ok:
  "add_all kec xs bv = Inr b \<Longrightarrow> length bv = BYTE_SIZE \<Longrightarrow> covers b bv \<and> (\<forall>x\<in>set xs. bloom_check kec x b = Inr True)"
proof (induction xs arbitrary: bv)
  case (Cons x xs)
  then obtain c where c: "bloom_add kec x bv = Inr c" "add_all kec xs c = Inr b" by (auto simp: then_sum_Inr)
  note a = bloom_add_ok [OF c(1) Cons.prems(2)] and l = bloom_add_length [OF c(1) Cons.prems(2)]
  from Cons.IH [OF c(2) l] a l show ?case by (auto intro: covers_trans check_mono)
qed simp

lemma logs_bloom_ok:
  "logs_bloom kec ls bv = Inr b \<Longrightarrow> length bv = BYTE_SIZE \<Longrightarrow>
   covers b bv \<and> (\<forall>(a, topics, d)\<in>set ls. \<forall>x\<in>set (addr_bytes a # topics). bloom_check kec x b = Inr True)"
proof (induction kec ls bv rule: logs_bloom.induct)
  case (2 kec a topics d ls bv)
  then obtain c e where c: "bloom_add kec (addr_bytes a) bv = Inr c" "add_all kec topics c = Inr e" "logs_bloom kec ls e = Inr b"
    by (auto simp: then_sum_Inr)
  note l = bloom_add_length [OF c(1) 2(3)]
  note t = add_all_ok [OF c(2) l]
  then have le: "length e = BYTE_SIZE" using l by (simp add: covers_def)
  have r: "covers b e" "\<forall>(a, topics, d)\<in>set ls. \<forall>x\<in>set (addr_bytes a # topics). bloom_check kec x b = Inr True"
    using 2(1) [OF c(3) le] by auto
  have "covers b c" "covers b bv" using r(1) t bloom_add_ok(1) [OF c(1) 2(3)] by (blast intro: covers_trans)+
  with r t l le bloom_add_ok(2) [OF c(1) 2(3)] show ?case by (auto intro: check_mono)
qed simp

lemma bloom_or_covers: "length a = length b \<Longrightarrow> covers (bloom_or a b) a" "length a = length b \<Longrightarrow> covers (bloom_or a b) b"
  by (simp_all add: covers_def bloom_or_def bit_or_iff)

lemma multiCheck_all: "\<forall>t\<in>set ts. bloom_check kec t bv = Inr True \<Longrightarrow> bloom_multiCheck kec ts bv = Inr True"
  by (induction ts) simp_all

text \<open>
  A bloom filter misses nothing: the filter of the logs of a transaction reports the address and
  every topic of every log, one by one and together, and still does after it is combined with the
  filters of other transactions of the block, from either side.
\<close>
theorem log_bloom_complete:
  assumes "txLogsBloom kec ls = Inr bv" "length other = BYTE_SIZE" "(a, topics, d) \<in> set ls" "set ts \<subseteq> set (addr_bytes a # topics)"
    "b \<in> {bv, bloom_or bv other, bloom_or other bv}"
  shows "length b = BYTE_SIZE \<and> bloom_multiCheck kec ts b = Inr True"
proof -
  have l: "logs_bloom kec ls (zeros BYTE_SIZE) = Inr bv"
    using assms(1) by (simp add: txLogsBloom_def new_bloom_def)
  then have i: "covers bv (zeros BYTE_SIZE)" "\<forall>x\<in>set (addr_bytes a # topics). bloom_check kec x bv = Inr True"
    using logs_bloom_ok [OF l] assms(3) by auto
  then have len: "length bv = BYTE_SIZE" by (simp add: covers_def)
  then have b: "covers b bv" "length b = BYTE_SIZE"
    using assms(2,5) bloom_or_covers by (auto simp: bloom_or_def)
  have "\<forall>t\<in>set ts. bloom_check kec t b = Inr True" using i(2) assms(4) b len by (auto intro: check_mono)
  with b(2) multiCheck_all show ?thesis by blast
qed

theorem log_bloom_complete_witness:
  "\<exists>bv. txLogsBloom (\<lambda>b. take 32 (b @ zeros 32)) [(7, [[1, 2]], [])] = Inr bv \<and>
     bloom_multiCheck (\<lambda>b. take 32 (b @ zeros 32)) [addr_bytes 7, [1, 2]] bv = Inr True"
proof -
  let ?k = "\<lambda>b :: bytes. take 32 (b @ zeros 32)"
  let ?bv = "case txLogsBloom ?k [(7, [[1, 2]], [])] of Inr b \<Rightarrow> b | Inl _ \<Rightarrow> []"
  have bv: "txLogsBloom ?k [(7, [[1, 2]], [])] = Inr ?bv"
    by (simp add: txLogsBloom_def new_bloom_def bloom_add_def Let_def reject_def)
  with log_bloom_complete [OF bv, where other = "zeros BYTE_SIZE" and a = 7 and topics = "[[1, 2]]" and d = "[]"
      and ts = "[addr_bytes 7, [1, 2]]" and b = ?bv] show ?thesis
    by auto
qed

end
