(* ===== verification/NoRefund.thy ===== *)
theory NoRefund
  imports Depth TopLevel
begin

text \<open>
  Energy accounting of the profile has no refunds: no instruction changes the refund counter of
  its frame, so a message that starts without a refund reports none.
\<close>

section \<open>Results of an operation\<close>

definition yields :: "('a \<Rightarrow> bool) \<Rightarrow> ('s, 'a) op \<Rightarrow> bool" where
  "yields R m \<longleftrightarrow> (\<forall>s x t. m s = (Inr x, t) \<longrightarrow> R x)"

lemma yieldsD: "yields R m \<Longrightarrow> m s = (Inr x, t) \<Longrightarrow> R x"
  by (auto simp: yields_def)

lemma yields_bnd: "yields Q m \<Longrightarrow> (\<And>x. Q x \<Longrightarrow> yields R (f x)) \<Longrightarrow> yields R (bnd m f)"
  unfolding yields_def bnd_def by (force split: prod.splits sum.splits)

lemma yields_any: "yields (\<lambda>_. True) m"
  by (simp add: yields_def)

lemma yields_next: "(\<And>x. yields R (f x)) \<Longrightarrow> yields R (bnd m f)"
  by (rule yields_bnd [OF yields_any])

lemma yields_sq: "yields R n \<Longrightarrow> yields R (sq m n)"
  unfolding sq_def by (rule yields_next)

lemma yields_basic: "R x \<Longrightarrow> yields R (ret x)" "yields R (throw e)" "yields R (trap t)"
  by (auto simp: yields_def trap_def)

lemma yields_if: "(b \<Longrightarrow> yields R m) \<Longrightarrow> (\<not> b \<Longrightarrow> yields R n) \<Longrightarrow> yields R (if b then m else n)"
  by simp

lemma yields_on_throw: "yields R m \<Longrightarrow> yields R (on_throw m h)"
  unfolding yields_def on_throw_def sq_def bnd_def throw_def by (force split: prod.splits sum.splits)

lemmas yields_flow = yields_sq yields_basic yields_if yields_on_throw

section \<open>The refund counter of a frame\<close>

abbreviation no_refund :: "run_state \<Rightarrow> bool" where
  "no_refund s \<equiv> gasRefund s = 0"

definition refundless :: "tvm_result \<Rightarrow> bool" where
  "refundless r \<longleftrightarrow> or_else (x_gasRefund (execResult r)) 0 = 0"

definition callee_refundless :: "(message \<Rightarrow> (world, tvm_result) op) \<Rightarrow> bool" where
  "callee_refundless rc \<longleftrightarrow> (\<forall>m. m_gasRefund m = 0 \<longrightarrow> yields refundless (rc m))"

lemma refund_zoom [op_pres]:
  "keeps no_refund (on_stack f)" "keeps no_refund (on_memory g)" "keeps no_refund (on_world h)"
  "keeps no_refund (get_env i)" "keeps no_refund (get_sm j)"
  by (auto simp: keeps_def on_stack_def on_memory_def on_world_def get_env_def get_sm_def zoom_def split: prod.splits)

lemma refund_prims [op_pres]:
  "keeps no_refund (useGas x)" "keeps no_refund (subMemUsage c i l)" "keeps no_refund (reload_contract e)"
  "keeps no_refund take_gasLimit"
  by (auto simp: keeps_def useGas_def subMemUsage_def reload_contract_def take_gasLimit_def Let_def
      split: prod.splits option.splits)

lemma refund_key32_all [op_pres]: "keeps no_refund (key32_all vs)"
proof (induction vs)
  case (Cons v vs)
  then show ?case unfolding key32_all.simps key32_def by (intro keeps_bnd keeps_basic)
qed (simp add: keeps_def)

lemma refund_gas: "dynamicGasHandlers opc = Some h \<Longrightarrow> keeps no_refund (h T fee)"
  by (simp add: dynamicGasHandlers_def gas_defs flat_defs Let_def split: if_splits)
    (auto simp: gas_MEM_def peek1_def Let_def intro!: op_pres keeps_modify)

lemma refund_op: "handlers opc = Some h \<Longrightarrow> opc \<notin> set call_ops \<Longrightarrow> keeps no_refund (h T)"
  by (simp add: handlers_def call_ops_def op_defs flat_defs Let_def split: if_splits option.splits)
    (auto simp: op_defs flat_defs Let_def intro!: op_pres keeps_modify)

section \<open>Calls\<close>

lemma refund_gets: "(\<And>s. no_refund s \<Longrightarrow> keeps no_refund (f (g s))) \<Longrightarrow> keeps no_refund (bnd (gets g) f)"
  by (simp add: keeps_def)

lemma refund_lift: "(\<And>x. r = Inr x \<Longrightarrow> keeps no_refund (f x)) \<Longrightarrow> keeps no_refund (bnd (lift_sum r) f)"
  by (cases r) (simp_all add: keeps_def bnd_def)

lemma refund_callee:
  assumes "callee_refundless rc" "m_gasRefund m = 0" "\<And>r. refundless r \<Longrightarrow> keeps no_refund (f r)"
  shows "keeps no_refund (bnd (on_world (rc m)) f)"
  unfolding keeps_def
proof (intro allI impI)
  fix s assume s: "no_refund s"
  obtain r w where r: "rc m (world s) = (r, w)" by fastforce
  show "no_refund (snd (bnd (on_world (rc m)) f s))"
  proof (cases r)
    case (Inl e)
    then show ?thesis using r s by (simp add: bnd_def on_world_def zoom_def)
  next
    case (Inr x)
    have "yields refundless (rc m)" using assms(1,2) by (simp add: callee_refundless_def)
    from yieldsD [OF this] have "refundless x" using r Inr by simp
    then show ?thesis using assms(3) [of x] r s Inr by (simp add: bnd_def on_world_def zoom_def keeps_def)
  qed
qed

lemma refund_absorb: "refundless r \<Longrightarrow> keeps no_refund (absorb_callee r)"
  unfolding absorb_callee_def by (auto simp: refundless_def intro!: op_pres keeps_modify)

lemma refund_baseCall:
  assumes "callee_refundless (runCall T)"
  shows "keeps no_refund (baseCall T m)"
  unfolding baseCall_def
proof (rule refund_gets, rule keeps_sq, goal_cases)
  case (1 s)
  show ?case by (auto intro!: op_pres)
next
  case (2 s)
  show ?case
  proof (rule keeps_sq, goal_cases)
    case 1
    show ?case by (auto intro!: keeps_modify)
  next
    case 2
    show ?case
    proof (rule refund_gets, rule refund_gets, rule keeps_if, goal_cases)
      case (2 t u)
      show ?case
        by (rule keeps_sq, rule refund_zoom, rule refund_callee [OF assms])
          (use \<open>no_refund s\<close> in \<open>auto intro!: op_pres keeps_modify refund_absorb\<close>)
    qed (rule keeps_basic)
  qed
qed

lemma refund_calls:
  assumes "callee_refundless (runCall T)"
  shows "keeps no_refund (call T g a v x)" "keeps no_refund (callCode T g a v x)"
    "keeps no_refund (callStatic T g a v x)" "keeps no_refund (callDelegate T g a v x)"
    "keeps no_refund (callToken T g a v i j x)"
  unfolding call_def callCode_def callStatic_def callDelegate_def callToken_def
  by (auto intro!: op_pres refund_baseCall [OF assms])

lemma refund_create:
  assumes "callee_refundless (runCall T)"
  shows "keeps no_refund (create T g v x salt)"
  unfolding create_def
proof (rule keeps_sq, goal_cases)
  case 1
  show ?case by (auto intro!: keeps_modify)
next
  case 2
  show ?case
  proof (rule refund_gets, rule keeps_if, goal_cases)
    case (2 s)
    show ?case
    proof (rule keeps_if, goal_cases)
      case 2
      show ?case
      proof (rule keeps_sq, goal_cases)
        case 1
        show ?case by (auto intro!: keeps_modify)
      next
        case 2
        show ?case
        proof (rule keeps_bnd, rule keeps_basic, rule keeps_sq, rule refund_zoom, rule refund_lift, goal_cases)
          case (1 t m)
          then have "m_gasRefund m = 0" using \<open>no_refund s\<close> by (auto dest!: new_Message_same)
          then show ?case
            by (rule refund_callee [OF assms]) (auto intro!: op_pres keeps_modify refund_absorb)
        qed
      qed
    qed (rule keeps_basic)
  qed (rule keeps_basic)
qed

section \<open>Steps and runs\<close>

lemma refund_writeCallOutput [op_pres]: "keeps no_refund (writeCallOutput i l)"
  unfolding writeCallOutput_def Let_def by (auto intro!: op_pres)

lemma refund_steps [op_pres]:
  "keeps no_refund (stack_address a)" "keeps no_refund (read_range i l b)" "keeps no_refund (take_stipend T v)"
  "keeps no_refund (pushv v)" "keeps no_refund not_static" "keeps no_refund (key32 v)"
  unfolding stack_address_def read_range_def take_stipend_def addStipend_def pushv_def not_static_def key32_def
  by (auto intro!: op_pres keeps_modify)

lemma refund_call_handlers:
  assumes "callee_refundless (runCall T)"
  shows "keeps no_refund (op_CALL T)" "keeps no_refund (op_CALLCODE T)" "keeps no_refund (op_DELEGATECALL T)"
    "keeps no_refund (op_STATICCALL T)" "keeps no_refund (op_CALLTOKEN T)" "keeps no_refund (op_CREATE T)"
    "keeps no_refund (op_CREATE2 T)"
  unfolding op_CALL_def op_CALLCODE_def op_DELEGATECALL_def op_STATICCALL_def op_CALLTOKEN_def op_CREATE_def op_CREATE2_def Let_def
  by ((rule refund_calls [OF assms] refund_create [OF assms] op_pres keeps_if)+)

lemma refund_handler:
  assumes "handlers opc = Some h" "callee_refundless (runCall T)"
  shows "keeps no_refund (h T)"
proof (cases "opc \<in> set call_ops")
  case True
  with refund_call_handlers [OF assms(2)] assms(1) show ?thesis by (auto simp: handlers_def alu_handler_def call_ops_def)
qed (rule refund_op [OF assms(1)])

lemma refund_runStep:
  assumes "callee_refundless (runCall T)"
  shows "keeps no_refund (runStep T obj)"
proof -
  have "keeps no_refund (step_fee T i)" "keeps no_refund (dispatch T i)" for i
    unfolding step_fee_def dispatch_def
    using refund_gas refund_handler [OF _ assms] by (auto split: option.splits intro!: op_pres)
  moreover have "keeps no_refund (analyse T)" by (auto simp: analyse_def split: prod.splits intro!: keeps_modify)
  ultimately show ?thesis unfolding runStep_def by (auto intro!: op_pres keeps_modify)
qed

lemma refund_fetch: "keeps no_refund fetch"
  by (auto simp: keeps_def fetch_def split: option.splits)

lemma refund_run_loop:
  assumes "callee_refundless (runCall T)"
  shows "no_refund s \<Longrightarrow> run_loop n T s = Some (r, t) \<Longrightarrow> no_refund t"
proof (induction n arbitrary: s)
  case (Suc n)
  obtain q u where q: "bnd fetch (runStep T) s = (q, u)" by fastforce
  have "keeps no_refund (bnd fetch (runStep T))" by (rule keeps_bnd [OF refund_fetch refund_runStep [OF assms]])
  from keepsD [OF this Suc.prems(1) q] have "no_refund u" .
  then show ?case
  proof (cases "programCounter s < length (code s)")
    case True
    show ?thesis
    proof (cases q)
      case (Inl e)
      with True q Suc.prems(2) \<open>no_refund u\<close> show ?thesis by (cases e) auto
    next
      case (Inr x)
      with True q Suc.prems(2) have "run_loop n T u = Some (r, t)" by simp
      with Suc.IH \<open>no_refund u\<close> show ?thesis by blast
    qed
  qed (use Suc.prems in auto)
qed simp

lemma refund_interp_run:
  assumes "callee_refundless (runCall T)" "no_refund s" "interp_run T cd pc s = Some (r, t)"
  shows "no_refund t"
proof (cases "or_else pc (programCounter s) \<noteq> 0 \<and> or_else pc (programCounter s) \<ge> length cd")
  case True
  then show ?thesis using assms(2,3) by (auto simp: interp_run_def Let_def)
next
  case False
  let ?s = "resetJumpAnalysis (s\<lparr>code := cd, programCounter := or_else pc (programCounter s)\<rparr>)"
  have "run_loop (run_fuel ?s) T ?s = Some (r, t)" using assms(3) False by (auto simp: interp_run_def Let_def)
  moreover have "no_refund ?s" using assms(2) by (simp add: resetJumpAnalysis_def)
  ultimately show ?thesis using refund_run_loop [OF assms(1)] by blast
qed

section \<open>Messages\<close>

lemma refund_runInterpreter:
  assumes "callee_refundless rc" "m_gasRefund m = 0"
  shows "yields (\<lambda>(r, sd, cr). x_gasRefund r = Some 0) (runInterpreter H rc m pc)"
proof -
  have c: "callee_refundless (runCall (interp_tvm H rc))" using assms(1) by (simp add: interp_tvm_def)
  have z: "no_refund ((new_run_state (mk_env H m w) g w)\<lparr>selfdestruct := sd, createdAddresses := cr\<rparr>)" for w g sd cr
    using assms(2) by (simp add: new_run_state_def mk_env_def Let_def)
  have "x_gasRefund (frame_result m e t) = Some 0" if "no_refund t" for e t
    using that by (simp add: frame_result_def Let_def)
  then show ?thesis
    unfolding yields_def runInterpreter_def Let_def
    by (auto simp: throw_def split: option.splits prod.splits sum.splits dest!: refund_interp_run [OF c z])
qed

lemma loadCode_refund: "yields (\<lambda>m'. m_gasRefund m' = m_gasRefund m) (loadCode H m)"
  by (auto simp: yields_def loadCode_def bnd_def lift_sum_def split: if_splits sum.splits)

lemma refund_executeCall:
  assumes "callee_refundless rc" "m_gasRefund m = 0"
  shows "yields refundless (executeCall H rc to m)"
  unfolding executeCall_def
proof (rule yields_next, rule yields_sq, rule yields_next, rule yields_bnd [OF loadCode_refund], goal_cases)
  case (1 a err m')
  then have m': "m_gasRefund m' = 0" using assms(2) by simp
  show ?case
    by (intro yields_if yields_basic yields_next yields_sq yields_bnd [OF refund_runInterpreter [OF assms(1) m']])
      (auto simp: refundless_def mk_result_def or_else_def assms(2) m' intro!: yields_flow)
qed

lemma deploy_refund: "x_gasRefund (deploy_result H m r) = x_gasRefund r"
  by (simp add: deploy_result_def OOGResult_def INVALID_BYTECODE_RESULT_of_def Let_def split: list.split)

lemma refund_executeCreate:
  assumes "callee_refundless rc" "m_gasRefund m = 0"
  shows "yields refundless (executeCreate H rc m)"
proof -
  have "yields refundless (create_at H rc to m' acc)" if m': "m_gasRefund m' = 0" for to m' acc
    unfolding create_at_def Let_def
    by (intro yields_if yields_basic yields_next yields_sq yields_bnd [OF refund_runInterpreter [OF assms(1)]])
      (auto simp: refundless_def mk_result_def or_else_def m' deploy_refund intro!: yields_flow)
  then show ?thesis
    unfolding executeCreate_def Let_def
    by (cases "m_createdAddresses m")
      (auto simp: refundless_def mk_result_def or_else_def empty_result_def assms(2) intro!: yields_flow yields_next)
qed

lemma refund_runCall_body:
  assumes "callee_refundless rc" "m_gasRefund m = 0"
  shows "yields refundless (runCall_body H rc skip m)"
proof -
  have "yields refundless (execute H rc m)"
    unfolding execute_def using refund_executeCall [OF assms] refund_executeCreate [OF assms] by (auto split: option.split)
  moreover have "yields refundless (settle r)" if "refundless r" for r
    unfolding settle_def using that by (auto simp: refundless_def clear_failed_def or_else_def intro!: yields_flow)
  ultimately have "yields refundless (on_throw (sq (prepare_sender skip m) (sq tvm_checkpoint
      (on_throw (bnd (execute H rc m) settle) tvm_revert))) tvm_revert)"
    by (intro yields_on_throw yields_sq yields_bnd)
  then show ?thesis
    unfolding runCall_body_def by (intro yields_next yields_sq yields_bnd yields_basic)
qed

lemma run_message_refundless: "callee_refundless (run_message n H)"
proof (induction n)
  case (Suc n)
  then show ?case by (simp add: callee_refundless_def) (simp add: refund_runCall_body callee_refundless_def)
qed (simp add: callee_refundless_def yields_def throw_def)

lemma tvm_runCall_refundless: "tvm_runCall H skip txid m w = (Inr r, w') \<Longrightarrow> refundless r"
proof -
  have "yields refundless (sq (set_context txid) (runCall_body H (run_message levels H) skip (top_message m)))"
    by (intro yields_sq refund_runCall_body run_message_refundless) (simp add: top_message_def)
  then show "tvm_runCall H skip txid m w = (Inr r, w') \<Longrightarrow> refundless r"
    using yieldsD by (fastforce simp: tvm_runCall_def top_message_def Let_def split: prod.splits)
qed

end
