(* ===== verification/RunTx.thy ===== *)
theory RunTx
  imports Bloom NoRefund
begin

text \<open>
  Execution of a transaction, \<^verbatim>\<open>packages/vm/src/runTx.ts\<close>, on the shared state of the TVM: the checks
  on the sender, the charge for the gas, the message, the refund, the reward of the miner, the
  self-destructs and the receipt, with the checkpoint around them.

  The profile has one hardfork and no consensus, so the miner is the coinbase of the header, and of the optional
  EIPs 1559, 2718, 2930 and 6780 are active. Events, the profiler, debug output and the cache of original storage
  are left out; the order in which the keys of a reported access list were added is not kept.
\<close>

section \<open>Options and results\<close>

record run_tx_opts =
  ro_tx :: tx
  ro_env :: tx_env
  ro_block :: "block option"
  ro_headerGasUsed :: int
  ro_blockGasUsed :: "int option"
  ro_skipBalance :: bool
  ro_skipNonce :: bool
  ro_skipBlockGasLimit :: bool
  ro_reportAccessList :: bool
  ro_reportPreimages :: bool
  ro_rootTransactionId :: "bytes option"
  ro_requireExplicit :: bool

record tx_receipt =
  rc_status :: nat
  rc_cumulativeBlockGasUsed :: int
  rc_bitvector :: bytes
  rc_logs :: "log list"

record tx_result =
  rt_result :: tvm_result
  rt_totalGasSpent :: int
  rt_amountSpent :: int
  rt_gasRefund :: int
  rt_minerValue :: int
  rt_blockGasSpent :: int
  rt_bloom :: bytes
  rt_accessList :: "(address \<rightharpoonup> bytes set) option"
  rt_receipt :: tx_receipt

text \<open>The header of a block that is created without data, and the block of a message without one.\<close>

definition DEFAULT_HEADER :: block where
  "DEFAULT_HEADER = \<lparr>number = 0, coinbase = 0, timestamp = 0, block_gasLimit = 0xffffffffffffff, baseFeePerGas = Some 7\<rparr>"

definition defaultBlock :: block where
  "defaultBlock = \<lparr>number = 0, coinbase = 0, timestamp = 0, block_gasLimit = 0, baseFeePerGas = None\<rparr>"

definition header :: "run_tx_opts \<Rightarrow> block" where
  "header R = or_else (ro_block R) DEFAULT_HEADER"

definition header_baseFee :: "run_tx_opts \<Rightarrow> int" where
  "header_baseFee R = or_else (baseFeePerGas (header R)) 7"

definition demand :: "bool \<Rightarrow> string \<Rightarrow> ('s, unit) op" where
  "demand b msg = whenb (\<not> b) (throw (HostError msg))"

section \<open>Validation\<close>

text \<open>The price a transaction offers at most.\<close>

definition max_price :: "tx \<Rightarrow> int" where
  "max_price t = (case tx_body t of LegacyTx p \<Rightarrow> p | AccessList2930Tx p _ \<Rightarrow> p | FeeMarket1559Tx _ mf _ \<Rightarrow> mf)"

text \<open>
  With \<^verbatim>\<open>skipBalance\<close> a sender with too little is given what is missing. An account is written as a
  changed copy of the one that was read; the source changes the object it read and writes it back.
\<close>

definition set_balance :: "address \<Rightarrow> account \<Rightarrow> int \<Rightarrow> (world, account) op" where
  "set_balance a acc b = (let acc' = acc\<lparr>balance := b\<rparr> in sq (journal_putAccount a (Some acc')) (ret acc'))"

definition check_upfront :: "run_tx_opts \<Rightarrow> address \<Rightarrow> account \<Rightarrow> (world, account) op" where
  "check_upfront R caller acc =
     (let t = ro_tx R; upFrontCost = getUpfrontCost t (Some (header_baseFee R))
      in if balance acc < upFrontCost
         then if ro_skipBalance R
              then if \<not> supports t 1559 then set_balance caller acc upFrontCost else ret acc
              else throw (HostError ''sender does not have enough funds to send tx. The upfront cost is too high'')
         else ret acc)"

definition check_maxCost :: "run_tx_opts \<Rightarrow> address \<Rightarrow> account \<Rightarrow> (world, account) op" where
  "check_maxCost R caller acc =
     (let t = ro_tx R; maxCost = tx_value t + (if supports t 1559 then tx_gasLimit t * max_price t else 0)
      in if balance acc < maxCost
         then if ro_skipBalance R then set_balance caller acc maxCost
              else throw (HostError ''sender does not have enough funds to send tx. The max cost is too high'')
         else ret acc)"

definition check_asset :: "tx \<Rightarrow> account \<Rightarrow> (world, unit) op" where
  "check_asset t acc =
     bnd (gets (\<lambda>w. tokenIdExists (tx_tokenId t) (w_sm w))) (\<lambda>registered.
     let held = map_of (asset acc) (tx_tokenId t)
     in sq (demand (held \<noteq> None \<or> registered) ''No asset !'')
        (sq (demand (asset acc \<noteq> []) ''Owner no asset!'')
        (case held of None \<Rightarrow> throw (HostError ''assetBalance must greater than 0.'')
         | Some b \<Rightarrow> sq (demand (b \<noteq> 0) ''assetBalance must greater than 0.'')
             (demand (\<not> b < tx_tokenValue t) ''assetBalance is not sufficient.''))))"

definition check_transfer :: "tx \<Rightarrow> address \<Rightarrow> account \<Rightarrow> (world, unit) op" where
  "check_transfer t caller acc =
     sq (demand (\<not> (tx_value t > 0 \<and> tx_to t = Some caller)) ''Cannot transfer TRX to yourself.'')
     (sq (demand (\<not> (tx_tokenValue t > 0 \<and> tx_to t = Some caller)) ''Cannot transfer asset to yourself.'')
     (sq (demand (\<not> (tx_tokenId t \<noteq> 0 \<and> tx_tokenId t \<le> MIN_TOKEN_ID)) ''tokenId must be > 1000000'')
     (sq (demand (\<not> (tx_tokenId t = 0 \<and> tx_tokenValue t > 0)) ''invalid arguments with tokenValue'')
     (whenb (tx_tokenId t \<noteq> 0 \<and> tx_tokenValue t > 0) (check_asset t acc)))))"

text \<open>The price and the part of it that goes to the miner.\<close>

definition gas_prices :: "run_tx_opts \<Rightarrow> exn + int \<times> int" where
  "gas_prices R = (let t = ro_tx R; baseFee = header_baseFee R
     in if supports t 1559 then map_sum id (\<lambda>i. (i + baseFee, i)) (getEffectivePriorityFee t (Some baseFee))
        else Inr (max_price t, max_price t - baseFee))"

section \<open>The message\<close>

definition tx_message :: "tx \<Rightarrow> address \<Rightarrow> int \<Rightarrow> message" where
  "tx_message t caller gas = default_message\<lparr>m_caller := caller, m_gasLimit := gas, m_to := tx_to t, m_value := tx_value t,
     m_tokenId := tx_tokenId t, m_tokenValue := tx_tokenValue t, m_data := tx_data t\<rparr>"

definition tx_host :: "host \<Rightarrow> run_tx_opts \<Rightarrow> address \<Rightarrow> int \<Rightarrow> host" where
  "tx_host H R caller gasPrice =
     H\<lparr>h_block := or_else (ro_block R) defaultBlock, h_gasPrice := gasPrice, h_origin := caller\<rparr>"

text \<open>\<^verbatim>\<open>runCall\<close> builds the message, after the transaction context, and runs it.\<close>

definition run_call :: "host \<Rightarrow> bytes option \<Rightarrow> message \<Rightarrow> (world, tvm_result) op" where
  "run_call H txid m = (case new_Message m of
     Inr m' \<Rightarrow> tvm_runCall H False txid m'
   | Inl e \<Rightarrow> sq (modify (mod_jr clearStorageWrites))
        (sq (lift_sum (case txid of None \<Rightarrow> Inr () | Some t \<Rightarrow> map_sum id (\<lambda>_. ()) (createTronTransactionContext t))) (throw e)))"

section \<open>After the message\<close>

text \<open>The gas that is paid: with the intrinsic gas, less the capped refund.\<close>

definition total_gas :: "common \<Rightarrow> int \<Rightarrow> exec_result \<Rightarrow> int" where
  "total_gas c intrinsicGas r =
     (let spent = x_executionGasUsed r + intrinsicGas; gasRefund = or_else (x_gasRefund r) 0
      in if gasRefund \<noteq> 0
         then let maxRefund = js_div spent (param c ''maxRefundQuotient'')
              in spent - (if gasRefund < maxRefund then gasRefund else maxRefund)
         else spent)"

definition updateMinerBalance :: "run_tx_opts \<Rightarrow> int \<Rightarrow> (world, unit) op" where
  "updateMinerBalance R minerValue =
     (let miner = coinbase (header R)
      in bnd (load_account miner) (\<lambda>acc. sq (set_balance miner acc (balance acc + minerValue)) (ret ())))"

text \<open>Only contracts created by the transaction are deleted, in the order of their addresses.\<close>

fun delete_created :: "address set \<Rightarrow> address list \<Rightarrow> (world, unit) op" where
  "delete_created created [] = ret ()"
| "delete_created created (a # as) =
     sq (whenb (a \<in> created) (journal_deleteAccount a)) (delete_created created as)"

definition processSelfdestructs :: "exec_result \<Rightarrow> (world, unit) op" where
  "processSelfdestructs r = delete_created (x_createdAddresses r) (sorted_list_of_set (dom (x_selfdestruct r)))"

definition generateTxReceipt :: "tvm_result \<Rightarrow> bytes \<Rightarrow> int \<Rightarrow> tx_receipt" where
  "generateTxReceipt r bloom cumulative =
     \<lparr>rc_status = (if x_exceptionError (execResult r) \<noteq> None then 0 else 1), rc_cumulativeBlockGasUsed = cumulative,
      rc_bitvector = bloom, rc_logs = x_logs (execResult r)\<rparr>"

text \<open>Refund, reward, deletions and the reported access list; then the journal is cleaned.\<close>

definition settle_tx ::
  "host \<Rightarrow> run_tx_opts \<Rightarrow> address \<Rightarrow> int \<Rightarrow> int \<Rightarrow> tvm_result \<Rightarrow> (world, tx_result) op" where
  "settle_tx H R caller gasPrice inclusionFee r =
     (let t = ro_tx R; x = execResult r;
          total = total_gas (h_common H) (getIntrinsicGas t) x;
          txCostDiff = tx_gasLimit t * gasPrice - total * gasPrice;
          minerValue = total * inclusionFee;
          gasUsed = (case ro_blockGasUsed R of Some g \<Rightarrow> g | None \<Rightarrow> ro_headerGasUsed R)
      in bnd (load_account caller) (\<lambda>acc.
         sq (set_balance caller acc (balance acc + txCostDiff))
         (sq (updateMinerBalance R minerValue)
         (sq (processSelfdestructs x)
         (bnd (lift_sum (txLogsBloom (h_keccak H) (x_logs x))) (\<lambda>bloom.
         bnd (gets (\<lambda>w. if ro_reportAccessList R then accessList (w_jr w) else None)) (\<lambda>al.
         ret \<lparr>rt_result = r, rt_totalGasSpent = total, rt_amountSpent = total * gasPrice,
              rt_gasRefund = or_else (x_gasRefund x) 0, rt_minerValue = minerValue, rt_blockGasSpent = total,
              rt_bloom = bloom, rt_accessList = al,
              rt_receipt = generateTxReceipt r bloom (gasUsed + total)\<rparr>)))))))"

section \<open>The transaction\<close>

text \<open>The sender pays for all of the gas before the message runs.\<close>

definition deduct_cost :: "run_tx_opts \<Rightarrow> address \<Rightarrow> account \<Rightarrow> int \<Rightarrow> (world, account) op" where
  "deduct_cost R caller acc gasPrice =
     (let b = balance acc - tx_gasLimit (ro_tx R) * gasPrice
      in set_balance caller acc (if ro_skipBalance R \<and> b < 0 then 0 else b))"

definition run_tx_steps :: "host \<Rightarrow> run_tx_opts \<Rightarrow> bytes option \<Rightarrow> (world, tx_result) op" where
  "run_tx_steps H R txid =
     (let t = ro_tx R; intrinsicGas = getIntrinsicGas t
      in bnd (lift_sum (getSenderAddress (ro_env R) t)) (\<lambda>caller.
         sq (demand (\<not> tx_gasLimit t < max intrinsicGas 0) ''tx gas limit is lower than the minimum gas limit'')
         (sq (demand (\<not> max_price t < header_baseFee R) ''maxFeePerGas is less than the block baseFeePerGas'')
         (bnd (load_account caller) (\<lambda>acc0.
         sq (demand (equalsBytes (codeHash acc0) KECCAK256_NULL) ''invalid sender address, address is not EOA (EIP-3607)'')
         (bnd (check_upfront R caller acc0) (\<lambda>acc1.
         bnd (check_maxCost R caller acc1) (\<lambda>acc2.
         sq (whenb (\<not> ro_skipBalance R) (check_transfer t caller acc2))
         (sq (demand (ro_skipNonce R \<or> nonce acc0 = tx_nonce t) ''the tx does not have the correct nonce'')
         (bnd (lift_sum (gas_prices R)) (\<lambda>(gasPrice, inclusionFee).
         bnd (deduct_cost R caller acc2 gasPrice) (\<lambda>_.
         bnd (run_call (tx_host H R caller gasPrice) txid (tx_message t caller (tx_gasLimit t - intrinsicGas)))
             (settle_tx H R caller gasPrice inclusionFee)))))))))))))"

definition run_tx_inner :: "host \<Rightarrow> run_tx_opts \<Rightarrow> bytes option \<Rightarrow> (world, tx_result) op" where
  "run_tx_inner H R txid = bnd (run_tx_steps H R txid) (\<lambda>x. sq (modify (mod_jr cleanup)) (ret x))"

text \<open>The access list of a typed transaction is reported if reports were asked for; a key that is no byte array cannot be printed.\<close>

definition key_bytes :: "rlp \<Rightarrow> exn + bytes" where
  "key_bytes k = (case k of RBytes b \<Rightarrow> Inr b | RList _ \<Rightarrow> Inl (HostError ''TypeError''))"

fun report_slots :: "address \<Rightarrow> rlp list \<Rightarrow> (journal, unit) op" where
  "report_slots a [] = ret ()"
| "report_slots a (k # ks) = bnd (lift_sum (key_bytes k)) (\<lambda>b.
     sq (modify (\<lambda>j. j\<lparr>accessList := map_option (add_slot a b) (accessList j)\<rparr>)) (report_slots a ks))"

fun report_access :: "rlp list \<Rightarrow> (journal, unit) op" where
  "report_access [] = ret ()"
| "report_access (RList [k, slots] # xs) = bnd (lift_sum (key_bytes k)) (\<lambda>b.
     let a = word_of_int (bytesToBigInt b)
     in sq (modify (addAccessedAddress a)) (sq (report_slots a (access_items slots)) (report_access xs)))"
| "report_access (_ # xs) = throw (HostError ''TypeError'')"

definition report_typed :: "tx \<Rightarrow> (world, unit) op" where
  "report_typed t = bnd (gets (\<lambda>w. accessList (w_jr w))) (\<lambda>reported.
     whenb (reported \<noteq> None) (on_jr (report_access (tx_accessList t))))"

text \<open>The transaction id that contract addresses are derived from.\<close>

definition root_id :: "run_tx_opts \<Rightarrow> exn + bytes option" where
  "root_id R = (case ro_rootTransactionId R of Some i \<Rightarrow> Inr (Some i)
     | None \<Rightarrow> if \<not> ro_requireExplicit R \<and> isSigned (ro_tx R) then map_sum id Some (tx_hash (ro_env R) (ro_tx R)) else Inr None)"

definition finally_clean :: "(world, 'a) op \<Rightarrow> (world, 'a) op" where
  "finally_clean m w = (case m w of (r, w') \<Rightarrow> (r, mod_jr cleanJournal w'))"

definition runTx :: "host \<Rightarrow> run_tx_opts \<Rightarrow> (world, tx_result) op" where
  "runTx H R =
     (let t = ro_tx R
      in bnd (lift_sum (root_id R)) (\<lambda>txid.
         sq (demand (\<not> ((supports t 2718 \<or> supports t 155) \<and> tv_chainId (ro_env R) \<noteq> h_chainId H)) ''tx has a different chainId than the vm'')
         (sq (demand (ro_skipBlockGasLimit R \<or> \<not> block_gasLimit (header R) < tx_gasLimit t) ''tx has a higher gas limit than the block'')
         (sq (modify (mod_jr cleanup))
         (sq (whenb (ro_reportAccessList R) (modify (mod_jr startReportingAccessList)))
         (sq (whenb (ro_reportPreimages R) (modify (mod_jr startReportingPreimages)))
         (sq journal_checkpoint
         (sq (whenb (supports t 2718) (report_typed t))
         (finally_clean (on_throw (bnd (run_tx_inner H R txid) (\<lambda>x. sq journal_commit (ret x))) journal_revert))))))))))"

end
