(* ===== verification/RunTxOk.thy ===== *)
theory RunTxOk
  imports RunTx
begin

text \<open>
  What the steps of a transaction do to the public state: the checks change nothing, the sender pays
  in advance, the message runs, and the refund, the reward and the deletions follow.
\<close>

section \<open>Checks\<close>

lemma demand_run: "sq (demand b msg) n w = (if b then n w else (Inl (HostError msg), w))"
  by (simp add: demand_def sq_def bnd_def)

lemma demand_alone: "demand b msg w = (if b then Inr () else Inl (HostError msg), w)"
  by (simp add: demand_def)

lemma lift_run: "bnd (lift_sum r) f w = (case r of Inl e \<Rightarrow> (Inl e, w) | Inr x \<Rightarrow> f x w)"
  by (simp add: bnd_def lift_sum_def split: sum.splits)

lemma check_transfer_state: "snd (check_transfer t caller acc w) = w"
  by (auto simp: check_transfer_def check_asset_def Let_def demand_run demand_alone whenb_def bnd_def gets_def split: option.splits)

lemma check_upfront_run:
  "\<not> ro_skipBalance R \<Longrightarrow> check_upfront R caller acc w =
     (if balance acc < getUpfrontCost (ro_tx R) (Some (header_baseFee R))
      then (Inl (HostError ''sender does not have enough funds to send tx. The upfront cost is too high''), w) else (Inr acc, w))"
  by (simp add: check_upfront_def Let_def)

lemma check_maxCost_run:
  "\<not> ro_skipBalance R \<Longrightarrow> check_maxCost R caller acc w =
     (if balance acc < tx_value (ro_tx R) + (if supports (ro_tx R) 1559 then tx_gasLimit (ro_tx R) * max_price (ro_tx R) else 0)
      then (Inl (HostError ''sender does not have enough funds to send tx. The max cost is too high''), w) else (Inr acc, w))"
  by (simp add: check_maxCost_def Let_def)

lemma load_run: "load_account a w = (Inr (or_else (getAccount a (w_sm w)) new_account), w)"
  by (simp add: load_account_def)

lemma load_public: "lockstep S w \<Longrightarrow> load_account a w = (Inr (p_acct (public w) a), w)"
  by (simp add: load_run public_reads lockstep_def)

section \<open>Writes\<close>

definition with_account :: "address \<Rightarrow> account \<Rightarrow> pub \<Rightarrow> pub" where
  "with_account a acc p = p\<lparr>p_acct := (p_acct p)(a := acc)\<rparr>"

lemma set_balance_lockstep:
  assumes "lockstep S w"
  obtains w' where "set_balance a acc b w = (Inr (acc\<lparr>balance := b\<rparr>), w')" "lockstep S w'"
    "public w' = with_account a (acc\<lparr>balance := b\<rparr>) (public w)"
proof -
  obtain w' where "journal_putAccount a (Some (acc\<lparr>balance := b\<rparr>)) w = (Inr (), w')" "lockstep S w'"
    "public w' = (public w)\<lparr>p_acct := (p_acct (public w))(a := acc\<lparr>balance := b\<rparr>)\<rparr>"
    by (rule put_account_lockstep [OF assms])
  then show thesis by (intro that [of w']) (simp_all add: set_balance_def Let_def sq_def bnd_def with_account_def)
qed

lemma delete_account_lockstep:
  assumes "lockstep S w"
  obtains w' where "journal_deleteAccount a w = (Inr (), w')" "lockstep S w'" "public w' = with_account a new_account (public w)"
proof -
  obtain w1 where w1: "world_write id (WJournal (JTouch a)) w = (Inr (), w1)" "lockstep S w1"
    "world_view w1 = world_write_view id (WJournal (JTouch a)) (world_view w)"
    by (rule lockstep_write [OF assms, of "WJournal (JTouch a)"]) simp
  obtain w2 where w2: "world_write id (WState (DeleteAccount a)) w1 = (Inr (), w2)" "lockstep S w2"
    "world_view w2 = world_write_view id (WState (DeleteAccount a)) (world_view w1)"
    by (rule lockstep_write [OF w1(2), of "WState (DeleteAccount a)"]) simp
  have "public w2 = with_account a new_account (public w)"
    by (cases "world_view w") (auto simp: w1(3) w2(3) pub_of_def with_account_def or_else_def fun_eq_iff)
  moreover have "on_jr (touchAccount None a) w = (Inr (), w1)" using w1(1) by (simp add: on_jr_def zoom_def)
  moreover have "modify (mod_sm (sm_deleteAccount a)) w1 = (Inr (), w2)" using w2(1) by (simp add: mod_sm_def)
  ultimately show thesis using w2(2) by (intro that [of w2]) (simp_all add: journal_deleteAccount_def sq_def bnd_def)
qed

text \<open>The accounts after the self-destructs.\<close>

definition cleared :: "address set \<Rightarrow> pub \<Rightarrow> pub" where
  "cleared D p = p\<lparr>p_acct := (\<lambda>a. if a \<in> D then new_account else p_acct p a)\<rparr>"

lemma delete_created_lockstep:
  assumes "lockstep S w"
  shows "\<exists>w'. delete_created C as w = (Inr (), w') \<and> lockstep S w' \<and> public w' = cleared (set as \<inter> C) (public w)"
  using assms
proof (induction as arbitrary: w)
  case Nil
  then show ?case by (simp add: cleared_def)
next
  case (Cons a as)
  obtain w1 where w1: "whenb (a \<in> C) (journal_deleteAccount a) w = (Inr (), w1)" "lockstep S w1"
    "public w1 = (if a \<in> C then with_account a new_account (public w) else public w)"
  proof (cases "a \<in> C")
    case True
    obtain w1 where "journal_deleteAccount a w = (Inr (), w1)" "lockstep S w1" "public w1 = with_account a new_account (public w)"
      by (rule delete_account_lockstep [OF Cons.prems])
    with True show thesis by (intro that [of w1]) simp_all
  next
    case False
    with Cons.prems show thesis by (intro that [of w]) simp_all
  qed
  from Cons.IH [OF w1(2)] obtain w2 where "delete_created C as w1 = (Inr (), w2)" "lockstep S w2"
    "public w2 = cleared (set as \<inter> C) (public w1)" by blast
  with w1 show ?case by (auto simp: sq_def bnd_def cleared_def with_account_def fun_eq_iff)
qed

lemma process_lockstep:
  assumes "lockstep S w"
  shows "\<exists>w'. processSelfdestructs x w = (Inr (), w') \<and> lockstep S w' \<and>
    public w' = cleared (dom (x_selfdestruct x) \<inter> x_createdAddresses x) (public w)"
  using delete_created_lockstep [OF assms, of "x_createdAddresses x" "sorted_list_of_set (dom (x_selfdestruct x))"]
  by (simp add: processSelfdestructs_def)

section \<open>The bloom of the logs\<close>

lemma logs_bloom_total:
  assumes "\<And>b. length (kec b) = 32"
  shows "\<exists>b. txLogsBloom kec ls = Inr b"
proof -
  have a: "\<exists>c. bloom_add kec x b = Inr c" for x b by (simp add: bloom_add_def Let_def reject_def assms)
  have t: "\<exists>c. add_all kec xs b = Inr c" for xs b
  proof (induction xs arbitrary: b)
    case (Cons x xs)
    obtain c where "bloom_add kec x b = Inr c" using a by blast
    with Cons show ?case by simp
  qed simp
  have "\<exists>c. logs_bloom kec ls b = Inr c" for b
  proof (induction ls arbitrary: b)
    case (Cons l ls)
    obtain ad ts d where l: "l = (ad, ts, d)" by (cases l)
    obtain c where c: "bloom_add kec (addr_bytes ad) b = Inr c" using a by blast
    obtain e where "add_all kec ts c = Inr e" using t by blast
    with c Cons l show ?case by simp
  qed simp
  then show ?thesis by (simp add: txLogsBloom_def new_bloom_def)
qed

section \<open>After the message\<close>

definition plus_balance :: "address \<Rightarrow> int \<Rightarrow> pub \<Rightarrow> pub" where
  "plus_balance a v p = with_account a ((p_acct p a)\<lparr>balance := balance (p_acct p a) + v\<rparr>) p"

definition after_message :: "host \<Rightarrow> run_tx_opts \<Rightarrow> address \<Rightarrow> int \<Rightarrow> int \<Rightarrow> tvm_result \<Rightarrow> pub \<Rightarrow> pub" where
  "after_message H R caller gasPrice inclusionFee r p =
     (let total = total_gas (h_common H) (getIntrinsicGas (ro_tx R)) (execResult r)
      in cleared (dom (x_selfdestruct (execResult r)) \<inter> x_createdAddresses (execResult r))
         (plus_balance (coinbase (header R)) (total * inclusionFee)
         (plus_balance caller ((tx_gasLimit (ro_tx R) - total) * gasPrice) p)))"

lemma settle_tx_lockstep:
  assumes "lockstep S w" "host_ok H"
  shows "\<exists>x w'. settle_tx H R caller gasPrice inclusionFee r w = (Inr x, w') \<and> lockstep S w' \<and>
    public w' = after_message H R caller gasPrice inclusionFee r (public w) \<and> rt_result x = r \<and>
    rt_totalGasSpent x = total_gas (h_common H) (getIntrinsicGas (ro_tx R)) (execResult r) \<and>
    rt_amountSpent x = rt_totalGasSpent x * gasPrice \<and> rt_minerValue x = rt_totalGasSpent x * inclusionFee"
proof -
  let ?total = "total_gas (h_common H) (getIntrinsicGas (ro_tx R)) (execResult r)"
  let ?a = "p_acct (public w) caller"
  let ?d = "tx_gasLimit (ro_tx R) * gasPrice - ?total * gasPrice"
  obtain w1 where w1: "set_balance caller ?a (balance ?a + ?d) w = (Inr (?a\<lparr>balance := balance ?a + ?d\<rparr>), w1)" "lockstep S w1"
    "public w1 = with_account caller (?a\<lparr>balance := balance ?a + ?d\<rparr>) (public w)"
    by (rule set_balance_lockstep [OF assms(1)])
  let ?m = "coinbase (header R)" and ?v = "?total * inclusionFee"
  let ?b = "p_acct (public w1) ?m"
  obtain w2 where w2: "set_balance ?m ?b (balance ?b + ?v) w1 = (Inr (?b\<lparr>balance := balance ?b + ?v\<rparr>), w2)" "lockstep S w2"
    "public w2 = with_account ?m (?b\<lparr>balance := balance ?b + ?v\<rparr>) (public w1)"
    by (rule set_balance_lockstep [OF w1(2)])
  obtain w3 where w3: "processSelfdestructs (execResult r) w2 = (Inr (), w3)" "lockstep S w3"
    "public w3 = cleared (dom (x_selfdestruct (execResult r)) \<inter> x_createdAddresses (execResult r)) (public w2)"
    using process_lockstep [OF w2(2)] by blast
  have "length (h_keccak H b) = 32" for b using assms(2) by (simp add: host_ok_def)
  then obtain bl where bl: "txLogsBloom (h_keccak H) (x_logs (execResult r)) = Inr bl" using logs_bloom_total by blast
  have "updateMinerBalance R ?v w1 = (Inr (), w2)"
    using w2(1) by (simp add: updateMinerBalance_def Let_def bnd_def sq_def load_public [OF w1(2)])
  with w1 w2 w3 bl show ?thesis
    by (simp add: settle_tx_def Let_def bnd_def sq_def load_public [OF assms(1)] lift_sum_def
        after_message_def plus_balance_def algebra_simps)
qed

section \<open>The checkpoint of a transaction\<close>

lemma public_sm: "public w = pub_of (sm_view (w_sm w), J, tview (w_ts w))"
  by (simp add: world_view_def pub_of_def split: prod.splits)

lemma clean_journal_ok:
  "preimages j = None \<Longrightarrow> journal_inv (cleanJournal j)" "jsaved (cleanJournal j) = []"
  "journal_inv (cleanup j)" "jsaved (cleanup j) = []"
  by (simp_all add: journal_inv_def cleanup_def cleanJournal_def access_ok_def jsaved_def split: option.splits)

lemma at_rest_journal:
  assumes "at_rest Ss w" "journal_inv j" "jsaved j = []"
  shows "at_rest Ss (mod_jr (\<lambda>_. j) w)" "public (mod_jr (\<lambda>_. j) w) = public w"
  using assms by (simp_all add: at_rest_def world_inv_def open_frames_def mod_jr_def public_sm [where J = "parts j"])

lemma mod_jr_const: "mod_jr f w = mod_jr (\<lambda>_. f (w_jr w)) w"
  by (simp add: mod_jr_def)

lemma tx_checkpoint:
  assumes "at_rest Ss w" "jsaved (w_jr w) = []"
  obtains w' where "journal_checkpoint w = (Inr (), w')" "lockstep (Levels [] (sm_view (w_sm w) # Ss, [parts (w_jr w)])) w'"
    "public w' = public w" "accessList (w_jr w') = accessList (w_jr w)"
proof -
  have i: "world_inv w" "open_frames w = 0" "sm_saved (w_sm w) = Ss" "jsaved (w_jr w) = []" using assms by (simp_all add: at_rest_def)
  have S: "sm_inv (w_sm w)" and J: "journal_inv (w_jr w)" using i by (simp_all add: world_inv_def)
  let ?w = "w\<lparr>w_jr := jr_checkpoint (w_jr w), w_sm := checkpointSync (w_sm w)\<rparr>"
  have "journal_checkpoint w = (Inr (), ?w)" by (simp add: world_defs)
  moreover have "sm_inv (checkpointSync (w_sm w))" "sm_view (checkpointSync (w_sm w)) = sm_view (w_sm w)"
    "sm_saved (checkpointSync (w_sm w)) = sm_view (w_sm w) # Ss"
    using sm.checkpoint_law [OF S] i(3) by auto
  moreover note jr_checkpoint_law [OF J]
  ultimately show thesis using i
    by (intro that [of ?w])
      (simp_all add: lockstep_def world_obs public_sm [where J = "parts (w_jr w)"] jr_checkpoint_def)
qed

lemma tx_commit:
  assumes "lockstep (Levels [] (v # Ss, Js)) w"
  obtains w' where "journal_commit (mod_jr cleanup w) = (Inr (), w')" "at_rest Ss (mod_jr cleanJournal w')"
    "public (mod_jr cleanJournal w') = public w"
proof -
  have r: "at_rest (v # Ss) w" using lockstep_rest(1) [OF assms] .
  then have S: "sm_inv (w_sm w)" "sm_saved (w_sm w) = v # Ss" by (simp_all add: at_rest_def world_inv_def)
  note s = sm.commit_law [OF S]
  let ?w = "w\<lparr>w_sm := sm_commit (w_sm w), w_jr := jr_commit (cleanup (w_jr w))\<rparr>"
  have "journal_commit (mod_jr cleanup w) = (Inr (), ?w)" by (simp add: world_defs)
  moreover have "preimages (jr_commit (cleanup (w_jr w))) = None" by (simp add: jr_commit_def cleanup_def)
  ultimately show thesis using s r
    by (intro that [of ?w])
      (auto simp: mod_jr_def at_rest_def world_inv_def open_frames_def clean_journal_ok public_sm [where J = "parts (w_jr w)"])
qed

lemma tx_undo:
  assumes "at_rest (v # Ss) w"
  obtains w' where "journal_revert w = (Inr (), w')" "at_rest Ss (mod_jr cleanJournal w')"
    "sm_view (w_sm (mod_jr cleanJournal w')) = v" "w_ts (mod_jr cleanJournal w') = w_ts w"
proof -
  have S: "sm_inv (w_sm w)" "sm_saved (w_sm w) = v # Ss" using assms by (simp_all add: at_rest_def world_inv_def)
  note s = sm.revert_law [OF S]
  let ?w = "w\<lparr>w_sm := sm_revert (w_sm w), w_jr := jr_revert (w_jr w)\<rparr>"
  have "journal_revert w = (Inr (), ?w)" by (simp add: world_defs)
  moreover have "preimages (jr_revert (w_jr w)) = None"
    using assms by (simp add: at_rest_def world_inv_def journal_inv_def jr_revert_def split: prod.splits)
  ultimately show thesis using s assms
    by (intro that [of ?w]) (auto simp: mod_jr_def at_rest_def world_inv_def open_frames_def clean_journal_ok)
qed

section \<open>The steps before the message\<close>

definition admitted :: "run_tx_opts \<Rightarrow> account \<Rightarrow> bool" where
  "admitted R acc \<longleftrightarrow> max (getIntrinsicGas (ro_tx R)) 0 \<le> tx_gasLimit (ro_tx R) \<and> header_baseFee R \<le> max_price (ro_tx R) \<and>
     equalsBytes (codeHash acc) KECCAK256_NULL \<and> getUpfrontCost (ro_tx R) (Some (header_baseFee R)) \<le> balance acc \<and>
     (ro_skipNonce R \<or> nonce acc = tx_nonce (ro_tx R))"

definition tx_call :: "host \<Rightarrow> run_tx_opts \<Rightarrow> bytes option \<Rightarrow> address \<Rightarrow> int \<Rightarrow> (world, tvm_result) op" where
  "tx_call H R txid caller gasPrice =
     run_call (tx_host H R caller gasPrice) txid (tx_message (ro_tx R) caller (tx_gasLimit (ro_tx R) - getIntrinsicGas (ro_tx R)))"

lemma check_transfer_run: "sq (whenb c (check_transfer t caller acc)) n w =
    (case (if c then fst (check_transfer t caller acc w) else Inr ()) of Inl e \<Rightarrow> (Inl e, w) | Inr _ \<Rightarrow> n w)"
  using check_transfer_state [of t caller acc w]
  by (cases "check_transfer t caller acc w") (auto simp: sq_def bnd_def split: sum.splits)

lemma bnd_load: "lockstep S w \<Longrightarrow> bnd (load_account a) f w = f (p_acct (public w) a) w"
  by (simp add: bnd_def load_public)

lemma bnd_upfront:
  "\<not> ro_skipBalance R \<Longrightarrow> bnd (check_upfront R caller acc) f w =
     (if balance acc < getUpfrontCost (ro_tx R) (Some (header_baseFee R))
      then (Inl (HostError ''sender does not have enough funds to send tx. The upfront cost is too high''), w) else f acc w)"
  by (simp add: bnd_def check_upfront_run)

lemma bnd_maxCost:
  "\<not> ro_skipBalance R \<Longrightarrow> bnd (check_maxCost R caller acc) f w =
     (if balance acc < tx_value (ro_tx R) + (if supports (ro_tx R) 1559 then tx_gasLimit (ro_tx R) * max_price (ro_tx R) else 0)
      then (Inl (HostError ''sender does not have enough funds to send tx. The max cost is too high''), w) else f acc w)"
  by (simp add: bnd_def check_maxCost_run)

lemma run_tx_steps_cases:
  assumes "lockstep S w" "\<not> ro_skipBalance R"
  obtains e where "run_tx_steps H R txid w = (Inl e, w)"
  | caller gasPrice inclusionFee w1 where "getSenderAddress (ro_env R) (ro_tx R) = Inr caller"
      "admitted R (p_acct (public w) caller)" "gas_prices R = Inr (gasPrice, inclusionFee)" "lockstep S w1"
      "public w1 = plus_balance caller (- (tx_gasLimit (ro_tx R) * gasPrice)) (public w)"
      "run_tx_steps H R txid w = bnd (tx_call H R txid caller gasPrice) (settle_tx H R caller gasPrice inclusionFee) w1"
proof (cases "\<exists>e. run_tx_steps H R txid w = (Inl e, w)")
  case False
  obtain caller where c: "getSenderAddress (ro_env R) (ro_tx R) = Inr caller"
    using False by (cases "getSenderAddress (ro_env R) (ro_tx R)") (auto simp: run_tx_steps_def Let_def lift_run)
  let ?acc = "p_acct (public w) caller"
  note run = run_tx_steps_def Let_def lift_run c demand_run bnd_load [OF assms(1)] bnd_upfront [OF assms(2)] bnd_maxCost [OF assms(2)] check_transfer_run
  have "\<exists>g. gas_prices R = Inr g" using False by (cases "gas_prices R") (auto simp: run split: if_splits sum.splits)
  then obtain gasPrice inclusionFee where g: "gas_prices R = Inr (gasPrice, inclusionFee)" by auto
  have g': "admitted R ?acc" "run_tx_steps H R txid w = bnd (deduct_cost R caller ?acc gasPrice) (\<lambda>_. bnd (tx_call H R txid caller gasPrice)
       (settle_tx H R caller gasPrice inclusionFee)) w"
    using False assms(2) g by (auto simp: run admitted_def tx_call_def not_less split: if_splits sum.splits)
  let ?b = "balance ?acc - tx_gasLimit (ro_tx R) * gasPrice"
  obtain w1 where w1: "set_balance caller ?acc ?b w = (Inr (?acc\<lparr>balance := ?b\<rparr>), w1)" "lockstep S w1"
    "public w1 = with_account caller (?acc\<lparr>balance := ?b\<rparr>) (public w)"
    by (rule set_balance_lockstep [OF assms(1)])
  have "deduct_cost R caller ?acc gasPrice w = (Inr (?acc\<lparr>balance := ?b\<rparr>), w1)"
    using assms(2) w1(1) by (simp add: deduct_cost_def Let_def)
  with g g' w1 c show thesis by (intro that(2)) (simp_all add: bnd_def plus_balance_def)
qed blast

end
