(* ===== verification/RunTxProps.thy ===== *)
theory RunTxProps
  imports RunTxOk TxProps
begin

text \<open>
  Properties of transaction execution: no money is made and the base fee is burnt, a rejected
  transaction leaves no trace and a failed one only its fees and the nonce, the gas paid for is between the
  intrinsic gas and the limit, and the next transaction can run.
\<close>

section \<open>Prices\<close>

lemma supports_1559:
  assumes "tx_ok E t"
  shows "supports t 1559 \<longleftrightarrow> (\<exists>mp mf a. tx_body t = FeeMarket1559Tx mp mf a)"
  using assms by (auto simp: tx_ok_def supports_def legacy_capabilities_def split: tx_body.splits option.splits if_splits)

lemma gas_prices_ok:
  assumes "tx_ok E (ro_tx R)" "header_baseFee R \<le> max_price (ro_tx R)" "gas_prices R = Inr (gasPrice, inclusionFee)" "0 \<le> header_baseFee R"
  shows "gasPrice = inclusionFee + header_baseFee R" "0 \<le> inclusionFee" "gasPrice \<le> MAX_INTEGER_BIGINT"
    "getUpfrontCost (ro_tx R) (Some (header_baseFee R)) = tx_gasLimit (ro_tx R) * gasPrice + tx_value (ro_tx R)"
proof -
  note s = supports_1559 [OF assms(1)]
  have "gasPrice = inclusionFee + header_baseFee R \<and> 0 \<le> inclusionFee \<and> gasPrice \<le> MAX_INTEGER_BIGINT \<and>
    getUpfrontCost (ro_tx R) (Some (header_baseFee R)) = tx_gasLimit (ro_tx R) * gasPrice + tx_value (ro_tx R)"
  proof (cases "tx_body (ro_tx R)")
    case (LegacyTx p)
    with assms s show ?thesis by (auto simp: gas_prices_def Let_def max_price_def tx_ok_def price_ok_def getUpfrontCost_def)
  next
    case (AccessList2930Tx p a)
    with assms s show ?thesis by (auto simp: gas_prices_def Let_def max_price_def tx_ok_def price_ok_def getUpfrontCost_def)
  next
    case (FeeMarket1559Tx mp mf a)
    have "mf \<le> MAX_INTEGER_BIGINT" "0 \<le> mp" using assms(1) FeeMarket1559Tx by (auto simp: tx_ok_def price_ok_def)
    moreover have "(if mp < x then mp else x) = min mp x" for x by (simp add: min_def)
    ultimately show ?thesis using FeeMarket1559Tx assms(2-4) s
      by (auto simp: gas_prices_def Let_def max_price_def getEffectivePriorityFee_def getUpfrontCost_def map_sum_Inr or_else_def)
  qed
  then show "gasPrice = inclusionFee + header_baseFee R" "0 \<le> inclusionFee" "gasPrice \<le> MAX_INTEGER_BIGINT"
    "getUpfrontCost (ro_tx R) (Some (header_baseFee R)) = tx_gasLimit (ro_tx R) * gasPrice + tx_value (ro_tx R)"
    by blast+
qed

lemma tx_params:
  "tx_param ''txDataZeroGas'' = 4" "tx_param ''txDataNonZeroGas'' = 16" "tx_param ''txGas'' = 21000" "tx_param ''txCreationGas'' = 32000"
  "tx_param ''accessListAddressGas'' = 0" "tx_param ''accessListStorageKeyGas'' = 0"
  by (simp_all add: tx_param_def paramsTx_def paramsTx_tron_def profile_eips_def or_else_def)

lemma getIntrinsicGas_nonneg: "0 \<le> getIntrinsicGas t"
proof -
  have "0 \<le> legacyDataGas d" for d by (auto simp: legacyDataGas_def tx_params intro!: sum_list_nonneg)
  then show ?thesis by (simp add: getIntrinsicGas_def getDataGas_def getAccessListDataGas_def tx_params add_nonneg_nonneg)
qed

section \<open>The message\<close>

lemma failed_no_selfdestruct:
  "yields (\<lambda>r. failed r \<longrightarrow> x_selfdestruct (execResult r) = Map.empty) (runCall_body H rc skip m)"
proof -
  let ?R = "\<lambda>r. failed r \<longrightarrow> x_selfdestruct (execResult r) = Map.empty"
  have settle: "yields ?R (settle r)" for r
    unfolding settle_def by (intro yields_if yields_sq) (auto simp: clear_failed_def failed_def intro: yields_basic)
  have b: "yields ?R (on_throw (sq (prepare_sender skip m) (sq tvm_checkpoint (on_throw (bnd (execute H rc m) settle) tvm_revert))) tvm_revert)"
    by (intro yields_on_throw yields_sq yields_next settle)
  show ?thesis unfolding runCall_body_def
    by (rule yields_next, rule yields_sq, rule yields_sq, rule yields_bnd [OF b], rule yields_sq, rule yields_basic(1), assumption)
qed

lemma tvm_runCall_selfdestruct:
  "tvm_runCall H skip txid m w = (Inr r, w') \<Longrightarrow> failed r \<Longrightarrow> x_selfdestruct (execResult r) = Map.empty"
proof -
  have "yields (\<lambda>r. failed r \<longrightarrow> x_selfdestruct (execResult r) = Map.empty)
      (sq (set_context txid) (runCall_body H (run_message levels H) skip (top_message m)))"
    by (intro yields_sq failed_no_selfdestruct)
  then show "tvm_runCall H skip txid m w = (Inr r, w') \<Longrightarrow> failed r \<Longrightarrow> x_selfdestruct (execResult r) = Map.empty"
    using yieldsD by (fastforce simp: tvm_runCall_def top_message_def Let_def split: prod.splits)
qed

text \<open>The message of a transaction, from the world the charge has left.\<close>

definition call_ended :: "sm_view list \<Rightarrow> message \<Rightarrow> world \<Rightarrow> exn + tvm_result \<Rightarrow> world \<Rightarrow> bool" where
  "call_ended Ss m w r w' \<longleftrightarrow> ended Ss m w r w' \<and>
     (case r of Inl e \<Rightarrow> True | Inr x \<Rightarrow> refundless x \<and> (failed x \<longrightarrow> x_selfdestruct (execResult x) = Map.empty))"

lemma run_call_ended:
  assumes "host_ok H" "input_ok m" "ready_on Ss w"
  shows "case run_call H txid m w of (r, w') \<Rightarrow> call_ended Ss m w r w'"
proof (cases "new_Message m")
  case (Inl e)
  have "rest_ok Ss (supply_of w) w" using assms(3) by (simp add: ready_on_def)
  then have "rest_ok Ss (supply_of w) (mod_jr clearStorageWrites w)" "public (mod_jr clearStorageWrites w) = public w"
    using clearWrites_ok [of Ss w] by (auto simp: rest_ok_def)
  then show ?thesis
    by (auto simp: run_call_def Inl call_ended_def ended_def sq_def bnd_def lift_sum_def throw_def split: sum.splits option.splits)
next
  case (Inr m')
  then have m': "m' = m" by (auto simp: new_Message_def split: if_splits)
  show ?thesis
    using tvm_runCall_ended [OF assms, of txid] tvm_runCall_refundless [of H False txid m w] tvm_runCall_selfdestruct [of H False txid m w]
    by (auto simp: run_call_def Inr m' call_ended_def split: prod.splits sum.splits)
qed

section \<open>Supplies\<close>

lemma supply_plus: "total_supply k (p_acct (plus_balance a v p)) = total_supply k (p_acct p) + (if k = None then v else 0)"
  by (simp add: plus_balance_def with_account_def supply_upd)

lemma supply_cleared:
  assumes "\<And>a. account_ok (p_acct p a)"
  shows "total_supply k (p_acct (cleared D p)) \<le> total_supply k (p_acct p)"
  unfolding total_supply_def cleared_def by (rule sum_mono) (simp add: assms)

lemma plus_accounts:
  assumes "\<And>a. account_ok (p_acct p a)" "0 \<le> balance (p_acct p b) + v"
  shows "account_ok (p_acct (plus_balance b v p) a)"
  using assms account_ok_balance [of "p_acct p b"] by (simp add: plus_balance_def with_account_def)

lemma pub_ok_mono:
  assumes "pub_ok B p" "p' = p\<lparr>p_acct := A\<rparr>" "\<And>a. account_ok (A a)" "\<And>k. total_supply k A \<le> B' k"
  shows "pub_ok B' p'"
  using assms by (simp add: pub_ok_def)

lemma plus_pub: "plus_balance a v p = p\<lparr>p_acct := p_acct (plus_balance a v p)\<rparr>" "cleared D p = p\<lparr>p_acct := p_acct (cleared D p)\<rparr>"
  by (simp_all add: plus_balance_def with_account_def cleared_def)

section \<open>The steps of a transaction\<close>

text \<open>What the model needs of the input that the types of the source do not say.\<close>

definition tx_input_ok :: "run_tx_opts \<Rightarrow> bool" where
  "tx_input_ok R \<longleftrightarrow> \<not> ro_skipBalance R \<and> \<not> ro_reportPreimages R \<and> bytes_ok (tx_data (ro_tx R)) \<and>
     (\<forall>b. ro_block R = Some b \<longrightarrow> block_ok b)"

text \<open>The fees alone: the nonce of the sender is raised, the sender pays and the miner gets the tip.\<close>

definition fees_paid :: "run_tx_opts \<Rightarrow> address \<Rightarrow> int \<Rightarrow> int \<Rightarrow> int \<Rightarrow> pub \<Rightarrow> pub" where
  "fees_paid R caller spent gasPrice inclusionFee p =
     plus_balance (coinbase (header R)) (spent * inclusionFee)
       (plus_balance caller (- (spent * gasPrice))
         (with_account caller ((p_acct p caller)\<lparr>nonce := nonce (p_acct p caller) + 1\<rparr>) p))"

definition tx_outcome :: "run_tx_opts \<Rightarrow> pub \<Rightarrow> tx_result \<Rightarrow> pub \<Rightarrow> bool" where
  "tx_outcome R p x p' \<longleftrightarrow> (\<exists>caller gasPrice inclusionFee.
     getSenderAddress (ro_env R) (ro_tx R) = Inr caller \<and> admitted R (p_acct p caller) \<and>
     gas_prices R = Inr (gasPrice, inclusionFee) \<and>
     getIntrinsicGas (ro_tx R) \<le> rt_totalGasSpent x \<and> rt_totalGasSpent x \<le> tx_gasLimit (ro_tx R) \<and>
     rt_amountSpent x = rt_totalGasSpent x * gasPrice \<and> rt_minerValue x = rt_totalGasSpent x * inclusionFee \<and>
     refundless (rt_result x) \<and> rt_totalGasSpent x = getIntrinsicGas (ro_tx R) + x_executionGasUsed (execResult (rt_result x)) \<and>
     (\<forall>k. total_supply k (p_acct p') + (if k = None then rt_totalGasSpent x * header_baseFee R else 0) \<le> total_supply k (p_acct p)) \<and>
     (failed (rt_result x) \<longrightarrow> lasting p' = lasting (fees_paid R caller (rt_totalGasSpent x) gasPrice inclusionFee p)))"

lemma header_baseFee_nonneg: "tx_input_ok R \<Longrightarrow> 0 \<le> header_baseFee R"
  by (cases "ro_block R") (auto simp: tx_input_ok_def header_baseFee_def header_def or_else_def DEFAULT_HEADER_def block_ok_def is_word_def
      split: option.splits)

lemma tx_host_ok: "host_ok H \<Longrightarrow> tx_input_ok R \<Longrightarrow> 0 \<le> gasPrice \<Longrightarrow> gasPrice \<le> MAX_INTEGER_BIGINT \<Longrightarrow> host_ok (tx_host H R caller gasPrice)"
  by (cases "ro_block R") (auto simp: host_ok_def tx_host_def or_else_def defaultBlock_def block_ok_def is_word_def tx_input_ok_def
      MAX_INTEGER_BIGINT_def TWO_POW256_def)

lemma tx_message_ok:
  assumes "tx_ok E t" "bytes_ok (tx_data t)" "0 \<le> gas" "gas \<le> tx_gasLimit t"
  shows "input_ok (tx_message t caller gas)"
  using assms by (auto simp: input_ok_def tx_message_def default_message_def code_bytes_def tx_ok_def core_ok_def is_word_def
      MAX_UINT64_def MAX_INTEGER_BIGINT_def TWO_POW256_def GAS_CAP_def bytes_ok_def)

lemma lasting_plus: "lasting p = lasting q \<Longrightarrow> lasting (plus_balance a v p) = lasting (plus_balance a v q)"
  by (cases p; cases q) (simp add: lasting_def plus_balance_def with_account_def)

lemma lasting_cleared: "lasting (cleared {} p) = lasting p"
  by (simp add: cleared_def)

lemma settled_outcome:
  assumes H: "host_ok H" and R: "tx_input_ok R" and t: "tx_ok (ro_env R) (ro_tx R)"
    and c: "getSenderAddress (ro_env R) (ro_tx R) = Inr caller" and a: "admitted R (p_acct p caller)"
    and g: "gas_prices R = Inr (gasPrice, inclusionFee)" and p: "\<And>a. account_ok (p_acct p a)"
    and r: "result_ok (tx_message (ro_tx R) caller (tx_gasLimit (ro_tx R) - getIntrinsicGas (ro_tx R))) r" "refundless r"
    and p2: "\<And>a. account_ok (p_acct p2 a)"
      "\<And>k. total_supply k (p_acct p2) \<le> total_supply k (p_acct p) - (if k = None then tx_gasLimit (ro_tx R) * gasPrice else 0)"
    and f: "failed r \<Longrightarrow> x_selfdestruct (execResult r) = Map.empty"
      "failed r \<Longrightarrow> lasting p2 = lasting (prepared (top_message (tx_message (ro_tx R) caller gas))
         (plus_balance caller (- (tx_gasLimit (ro_tx R) * gasPrice)) p))"
    and x: "rt_result x = r" "rt_totalGasSpent x = total_gas (h_common H) (getIntrinsicGas (ro_tx R)) (execResult r)"
      "rt_amountSpent x = rt_totalGasSpent x * gasPrice" "rt_minerValue x = rt_totalGasSpent x * inclusionFee"
    and p3: "p3 = after_message H R caller gasPrice inclusionFee r p2"
  shows "tx_outcome R p x p3 \<and> (\<forall>a. account_ok (p_acct p3 a))"
proof -
  let ?t = "ro_tx R" and ?T = "rt_totalGasSpent x"
  note g4 = gas_prices_ok [OF t _ g header_baseFee_nonneg [OF R]]
  have fee: "header_baseFee R \<le> max_price ?t" using a by (simp add: admitted_def)
  note gp = g4 [OF fee]
  have T: "?T = x_executionGasUsed (execResult r) + getIntrinsicGas ?t"
    using r(2) by (simp add: x(2) total_gas_def refundless_def Let_def)
  have T1: "getIntrinsicGas ?t \<le> ?T" "?T \<le> tx_gasLimit ?t" using r(1) by (simp_all add: T result_ok_def tx_message_def)
  have T0: "0 \<le> ?T" using T1(1) getIntrinsicGas_nonneg [of ?t] by linarith
  let ?d = "(tx_gasLimit ?t - ?T) * gasPrice" and ?v = "?T * inclusionFee"
  have nn: "0 \<le> gasPrice" "0 \<le> ?d" "0 \<le> ?v" using gp(1,2) header_baseFee_nonneg [OF R] T0 T1(2) by simp_all
  let ?p1 = "plus_balance caller ?d p2"
  let ?p2 = "plus_balance (coinbase (header R)) ?v ?p1"
  let ?D = "dom (x_selfdestruct (execResult r)) \<inter> x_createdAddresses (execResult r)"
  have p3': "p3 = cleared ?D ?p2" using x by (simp add: p3 after_message_def Let_def)
  have bal: "0 \<le> balance (p_acct q b)" if "\<And>a. account_ok (p_acct q a)" for q b
    using account_ok_nonneg [OF that [of b], of None] by simp
  have ok1: "account_ok (p_acct ?p1 a)" for a
    by (rule plus_accounts [OF p2(1)]) (use bal [OF p2(1), of caller] nn in simp)
  have ok2: "account_ok (p_acct ?p2 a)" for a
    by (rule plus_accounts [OF ok1]) (use bal [OF ok1, of "coinbase (header R)"] nn in simp)
  have ok3: "account_ok (p_acct p3 a)" for a using ok2 by (simp add: p3' cleared_def)
  have burn: "tx_gasLimit ?t * gasPrice - ?d - ?v = ?T * header_baseFee R"
    by (simp add: gp(1) algebra_simps)
  have sup: "total_supply k (p_acct p3) + (if k = None then ?T * header_baseFee R else 0) \<le> total_supply k (p_acct p)" for k
  proof -
    have "total_supply k (p_acct p3) \<le> total_supply k (p_acct p2) + (if k = None then ?d + ?v else 0)"
      using supply_cleared [OF ok2, of k ?D] unfolding p3' supply_plus by (cases k) simp_all
    with p2(2) [of k] burn show ?thesis by (cases k) simp_all
  qed
  have fail: "lasting p3 = lasting (fees_paid R caller ?T gasPrice inclusionFee p)" if "failed r"
  proof -
    let ?m = "top_message (tx_message ?t caller gas)"
    have m: "m_caller ?m = caller" "m_depth ?m = 0" by (simp_all add: top_message_def tx_message_def)
    have eq: "plus_balance caller ?d (prepared ?m (plus_balance caller (- (tx_gasLimit ?t * gasPrice)) p)) =
        plus_balance caller (- (?T * gasPrice)) (with_account caller ((p_acct p caller)\<lparr>nonce := nonce (p_acct p caller) + 1\<rparr>) p)"
      by (simp add: prepared_def m plus_balance_def with_account_def algebra_simps)
    have "?D = {}" using f(1) [OF that] by simp
    then have "lasting p3 = lasting ?p2" by (simp add: p3' lasting_cleared)
    also have "\<dots> = lasting (plus_balance (coinbase (header R)) ?v (plus_balance caller ?d
        (prepared ?m (plus_balance caller (- (tx_gasLimit ?t * gasPrice)) p))))"
      by (intro lasting_plus f(2) that)
    finally show ?thesis by (simp only: eq fees_paid_def)
  qed
  have "refundless (rt_result x)" "?T = getIntrinsicGas ?t + x_executionGasUsed (execResult (rt_result x))" using r(2) T x(1) by simp_all
  with c a g T1 x sup fail ok3 show ?thesis unfolding tx_outcome_def by auto
qed

lemma tx_outcome_supply:
  assumes "tx_outcome R p x p'" "tx_input_ok R"
  shows "total_supply k (p_acct p') \<le> total_supply k (p_acct p)"
proof -
  have "getIntrinsicGas (ro_tx R) \<le> rt_totalGasSpent x"
    and s: "total_supply k (p_acct p') + (if k = None then rt_totalGasSpent x * header_baseFee R else 0) \<le> total_supply k (p_acct p)"
    using assms(1) unfolding tx_outcome_def by blast+
  then have "0 \<le> rt_totalGasSpent x * header_baseFee R"
    using getIntrinsicGas_nonneg [of "ro_tx R"] header_baseFee_nonneg [OF assms(2)] by (intro mult_nonneg_nonneg) linarith+
  with s show ?thesis by (cases k) simp_all
qed

lemma run_tx_steps_ended:
  assumes H: "host_ok H" and R: "tx_input_ok R" and t: "tx_ok (ro_env R) (ro_tx R)"
    and w: "lockstep (Levels [] (v # Ss, Js)) w" "pub_ok B (public w)" "caps_ok B"
  shows "case run_tx_steps H R txid w of
      (Inl e, w') \<Rightarrow> at_rest (v # Ss) w' \<and> p_trans (public w') = p_trans (public w)
    | (Inr x, w') \<Rightarrow> (\<exists>Js'. lockstep (Levels [] (v # Ss, Js')) w') \<and> tx_outcome R (public w) x (public w') \<and> pub_ok B (public w')"
proof -
  have rest: "at_rest (v # Ss) w" using w(1) by (rule lockstep_rest)
  have skip: "\<not> ro_skipBalance R" using R by (simp add: tx_input_ok_def)
  from w(1) skip show ?thesis
  proof (cases rule: run_tx_steps_cases [where H = H and txid = txid])
    case (1 e)
    with rest show ?thesis by simp
  next
    case (2 caller gasPrice inclusionFee w1)
    let ?t = "ro_tx R" and ?gas = "tx_gasLimit (ro_tx R) - getIntrinsicGas (ro_tx R)"
    let ?m = "tx_message ?t caller ?gas"
    have acc: "account_ok (p_acct (public w) a)" for a using w(2) by (simp add: pub_ok_def)
    have fee: "header_baseFee R \<le> max_price ?t" "getIntrinsicGas ?t \<le> tx_gasLimit ?t"
      "getUpfrontCost ?t (Some (header_baseFee R)) \<le> balance (p_acct (public w) caller)"
      using 2(2) by (simp_all add: admitted_def)
    note gp = gas_prices_ok [OF t fee(1) 2(3) header_baseFee_nonneg [OF R]]
    have tv: "0 \<le> tx_value ?t" "0 \<le> tx_gasLimit ?t" using t by (simp_all add: tx_ok_def core_ok_def)
    have gp0: "0 \<le> gasPrice" using gp(1,2) header_baseFee_nonneg [OF R] by simp
    let ?cost = "tx_gasLimit ?t * gasPrice"
    have cost: "0 \<le> ?cost" "?cost \<le> balance (p_acct (public w) caller)" using gp0 tv fee(3) gp(4) by simp_all
    have acc1: "account_ok (p_acct (public w1) a)" for a
      unfolding 2(5) by (rule plus_accounts [OF acc]) (use cost in simp)
    have sup1: "total_supply k (p_acct (public w1)) = total_supply k (p_acct (public w)) - (if k = None then ?cost else 0)" for k
      by (simp add: 2(5) supply_plus)
    have sup: "total_supply k (p_acct (public w)) \<le> B k" for k using w(2) by (simp add: pub_ok_def)
    have ok1: "pub_ok (supply_of w1) (public w1)"
    proof (rule pub_ok_mono [OF w(2)])
      show "public w1 = (public w)\<lparr>p_acct := p_acct (public w1)\<rparr>" unfolding 2(5) by (rule plus_pub)
    qed (simp_all add: acc1 supply_of_def)
    have le: "supply_of w1 k \<le> B k" for k using sup1 [of k] sup [of k] cost(1) by (auto simp: supply_of_def)
    have "caps_ok (supply_of w1)" using w(3) le by (auto simp: caps_ok_def intro: le_less_trans)
    then have ready: "ready_on (v # Ss) w1" using ok1 lockstep_rest(1) [OF 2(4)] by (simp add: ready_on_def rest_ok_def)
    have host: "host_ok (tx_host H R caller gasPrice)" using tx_host_ok [OF H R gp0 gp(3)] .
    have inp: "input_ok ?m"
      using tx_message_ok [OF t, of ?gas caller] R fee(2) getIntrinsicGas_nonneg [of ?t] by (simp add: tx_input_ok_def)
    obtain r w2 where run: "tx_call H R txid caller gasPrice w1 = (r, w2)" by fastforce
    then have ended: "call_ended (v # Ss) ?m w1 r w2"
      using run_call_ended [OF host inp ready, of txid] by (simp add: tx_call_def)
    have rest2: "at_rest (v # Ss) w2" "pub_ok (supply_of w1) (public w2)" using ended by (simp_all add: call_ended_def ended_def rest_ok_def)
    show ?thesis
    proof (cases r)
      case (Inl e)
      then have "public w2 = public w1" using ended by (simp add: call_ended_def ended_def)
      moreover have "p_trans (public w1) = p_trans (public w)" by (simp add: 2(5) plus_balance_def with_account_def)
      ultimately show ?thesis using 2(6) run Inl rest2 by (simp add: bnd_def)
    next
      case (Inr x)
      have e: "result_ok ?m x" "refundless x" "failed x \<Longrightarrow> x_selfdestruct (execResult x) = Map.empty"
        "failed x \<Longrightarrow> lasting (public w2) = lasting (prepared (top_message ?m) (public w1))"
        using ended Inr by (simp_all add: call_ended_def ended_def)
      have acc2: "account_ok (p_acct (public w2) a)" for a using rest2(2) by (simp add: pub_ok_def)
      have sup2: "total_supply k (p_acct (public w2)) \<le> total_supply k (p_acct (public w)) - (if k = None then ?cost else 0)" for k
        using rest2(2) unfolding sup1 [of k, symmetric] by (simp add: pub_ok_def supply_of_def)
      obtain y w3 where y: "settle_tx H R caller gasPrice inclusionFee x w2 = (Inr y, w3)"
        "lockstep (Levels [] (v # Ss, jsaved (w_jr w2))) w3" "public w3 = after_message H R caller gasPrice inclusionFee x (public w2)"
        "rt_result y = x" "rt_totalGasSpent y = total_gas (h_common H) (getIntrinsicGas ?t) (execResult x)"
        "rt_amountSpent y = rt_totalGasSpent y * gasPrice" "rt_minerValue y = rt_totalGasSpent y * inclusionFee"
        using settle_tx_lockstep [OF rest_lockstep [OF rest2(1)] H] by blast
      have out: "tx_outcome R (public w) y (public w3) \<and> (\<forall>a. account_ok (p_acct (public w3) a))"
        by (rule settled_outcome [OF H R t 2(1,2,3) acc e(1,2) acc2 sup2 e(3) e(4) [unfolded 2(5)] y(4-7) y(3)])
      then have "total_supply k (p_acct (public w3)) \<le> B k" for k
        using tx_outcome_supply [OF _ R] sup [of k] order_trans by blast
      moreover have "public w3 = (public w2)\<lparr>p_acct := p_acct (public w3)\<rparr>"
        unfolding y(3) after_message_def Let_def by (simp add: plus_balance_def with_account_def cleared_def)
      moreover have "account_ok (p_acct (public w3) a)" for a using out by blast
      ultimately have "pub_ok B (public w3)" by (intro pub_ok_mono [OF rest2(2)])
      with out y show ?thesis using 2(6) run Inr by (auto simp: bnd_def)
    qed
  qed
qed

section \<open>The whole transaction\<close>

text \<open>Keys of a reported access list can be printed.\<close>

fun printable :: "rlp list \<Rightarrow> bool" where
  "printable [] = True"
| "printable (RList [RBytes b, slots] # xs) \<longleftrightarrow> list_all (\<lambda>k. \<exists>b. k = RBytes b) (access_items slots) \<and> printable xs"
| "printable (_ # xs) = False"

definition reports :: "journal \<Rightarrow> journal \<Rightarrow> bool" where
  "reports j j' \<longleftrightarrow> j'\<lparr>accessList := None\<rparr> = j\<lparr>accessList := None\<rparr> \<and>
     rel_option (\<lambda>a b. dom a \<subseteq> dom b) (accessList j) (accessList j')"

lemma reports_refl: "reports j j"
  by (cases "accessList j") (simp_all add: reports_def)

lemma reports_trans: "reports j j' \<Longrightarrow> reports j' j'' \<Longrightarrow> reports j j''"
  unfolding reports_def by (cases "accessList j"; cases "accessList j'"; cases "accessList j''") auto

lemma reports_steps:
  "reports j (j\<lparr>accessList := map_option (add_slot a b) (accessList j)\<rparr>)" "reports j (addAccessedAddress a j)"
  by (cases "accessList j"; auto simp: reports_def add_slot_def addAccessedAddress_def ensure_key_def)+

lemma reports_lockstep:
  assumes "lockstep S w" "reports (w_jr w) j"
  shows "lockstep S (w\<lparr>w_jr := j\<rparr>)" "public (w\<lparr>w_jr := j\<rparr>) = public w"
proof -
  have "j = (j\<lparr>accessList := None\<rparr>)\<lparr>accessList := accessList j\<rparr>" by simp
  also have "\<dots> = (w_jr w)\<lparr>accessList := accessList j\<rparr>" using assms(2) by (simp add: reports_def)
  finally have j: "w\<lparr>w_jr := j\<rparr> = w\<lparr>w_jr := (w_jr w)\<lparr>accessList := accessList j\<rparr>\<rparr>" by simp
  have inv: "world_inv w" "access_ok (warm (w_jr w)) (accessList (w_jr w))"
    using assms(1) by (simp_all add: lockstep_def world_inv_def journal_inv_def)
  have "access_ok (warm (w_jr w)) (accessList j)"
    using inv(2) assms(2) by (cases "accessList (w_jr w)"; cases "accessList j") (auto simp: access_ok_def reports_def dest!: subsetD)
  from accessList_world [OF inv(1) this] show "lockstep S (w\<lparr>w_jr := j\<rparr>)" "public (w\<lparr>w_jr := j\<rparr>) = public w"
    using assms(1) unfolding j lockstep_def by simp_all
qed

lemma report_slots_run: "reports j (snd (report_slots a ks j)) \<and> (list_all (\<lambda>k. \<exists>b. k = RBytes b) ks \<longrightarrow> fst (report_slots a ks j) = Inr ())"
proof (induction ks arbitrary: j)
  case (Cons k ks)
  show ?case
  proof (cases k)
    case (RBytes b)
    with Cons [of "j\<lparr>accessList := map_option (add_slot a b) (accessList j)\<rparr>"] show ?thesis
      by (auto simp: lift_run key_bytes_def sq_def bnd_def modify_def intro: reports_trans reports_steps)
  qed (simp add: lift_run key_bytes_def reports_refl)
qed (simp add: reports_refl)

lemma report_access_run: "reports j (snd (report_access xs j)) \<and> (printable xs \<longrightarrow> fst (report_access xs j) = Inr ())"
proof (induction xs arbitrary: j rule: report_access.induct)
  case (2 k slots xs)
  show ?case
  proof (cases k)
    case (RBytes b)
    let ?a = "word_of_int (bytesToBigInt b) :: address"
    obtain r j1 where r: "report_slots ?a (access_items slots) (addAccessedAddress ?a j) = (r, j1)" by fastforce
    have j1: "reports j j1" "list_all (\<lambda>k. \<exists>b. k = RBytes b) (access_items slots) \<longrightarrow> r = Inr ()"
      using report_slots_run [of "addAccessedAddress ?a j" ?a "access_items slots"] r by (auto intro: reports_trans reports_steps)
    show ?thesis
      using j1 2 [OF refl, of j1] r RBytes by (cases r) (auto simp: lift_run key_bytes_def Let_def sq_def bnd_def modify_def intro: reports_trans)
  qed (simp add: lift_run key_bytes_def reports_refl)
qed (simp_all add: reports_refl throw_def)

lemma report_typed_run:
  assumes "lockstep S w"
  shows "case report_typed t w of (r, w') \<Rightarrow> lockstep S w' \<and> public w' = public w \<and>
    (accessList (w_jr w) = None \<or> printable (tx_accessList t) \<longrightarrow> r = Inr ())"
proof (cases "accessList (w_jr w)")
  case None
  with assms show ?thesis by (simp add: report_typed_def bnd_def)
next
  case (Some m)
  obtain r j where r: "report_access (tx_accessList t) (w_jr w) = (r, j)" by fastforce
  have "report_typed t w = (r, w\<lparr>w_jr := j\<rparr>)" using Some r by (simp add: report_typed_def bnd_def on_jr_def zoom_def)
  moreover have "reports (w_jr w) j" "printable (tx_accessList t) \<longrightarrow> r = Inr ()"
    using report_access_run [of "w_jr w" "tx_accessList t"] r by simp_all
  ultimately show ?thesis using reports_lockstep [OF assms] Some by simp
qed

lemma finally_clean_run: "finally_clean m w = (case m w of (r, w') \<Rightarrow> (r, mod_jr cleanJournal w'))"
  by (simp add: finally_clean_def)

lemma public_trans [simp]: "p_trans (pub_of (A, J, T)) = T" "p_trans (public w) = tview (w_ts w)"
  by (simp_all add: pub_of_def world_view_def split: prod.splits)

lemma sq_run: "sq m n w = (case m w of (Inl e, w') \<Rightarrow> (Inl e, w') | (Inr _, w') \<Rightarrow> n w')"
  by (simp add: sq_def bnd_def)

lemma protected_steps:
  assumes "host_ok H" "tx_input_ok R" "tx_ok (ro_env R) (ro_tx R)"
    and w: "lockstep (Levels [] (v # Ss, Js)) w" "pub_ok B (public w)" "caps_ok B"
    and p: "public w = pub_of (v, J, T)"
  shows "case finally_clean (on_throw (bnd (run_tx_inner H R txid) (\<lambda>x. sq journal_commit (ret x))) journal_revert) w of (r, w') \<Rightarrow>
    at_rest Ss w' \<and> (case r of Inl e \<Rightarrow> public w' = public w
      | Inr x \<Rightarrow> tx_outcome R (public w) x (public w') \<and> pub_ok B (public w'))"
proof -
  obtain r w1 where r: "run_tx_steps H R txid w = (r, w1)" by fastforce
  note ended = run_tx_steps_ended [OF assms(1-6), of txid, unfolded r prod.case]
  show ?thesis
  proof (cases r)
    case (Inl e)
    have e: "at_rest (v # Ss) w1" "p_trans (public w1) = p_trans (public w)" using ended Inl by simp_all
    obtain w2 where w2: "journal_revert w1 = (Inr (), w2)" "at_rest Ss (mod_jr cleanJournal w2)"
      "sm_view (w_sm (mod_jr cleanJournal w2)) = v" "w_ts (mod_jr cleanJournal w2) = w_ts w1"
      by (rule tx_undo [OF e(1)])
    have "tview (w_ts w1) = T" using e(2) by (simp add: p public_trans)
    then have "public (mod_jr cleanJournal w2) = public w"
      by (simp add: public_sm [of "mod_jr cleanJournal w2" J] w2 p)
    moreover have "finally_clean (on_throw (bnd (run_tx_inner H R txid) (\<lambda>x. sq journal_commit (ret x))) journal_revert) w =
        (Inl e, mod_jr cleanJournal w2)"
      using r Inl w2(1) by (simp add: finally_clean_run on_throw_def run_tx_inner_def bnd_def sq_def)
    ultimately show ?thesis using w2(2) by simp
  next
    case (Inr x)
    then obtain Js' where o: "lockstep (Levels [] (v # Ss, Js')) w1" "tx_outcome R (public w) x (public w1)" "pub_ok B (public w1)"
      using ended by auto
    obtain w2 where w2: "journal_commit (mod_jr cleanup w1) = (Inr (), w2)" "at_rest Ss (mod_jr cleanJournal w2)"
      "public (mod_jr cleanJournal w2) = public w1"
      by (rule tx_commit [OF o(1)])
    have "finally_clean (on_throw (bnd (run_tx_inner H R txid) (\<lambda>x. sq journal_commit (ret x))) journal_revert) w =
        (Inr x, mod_jr cleanJournal w2)"
      using r Inr w2(1) by (simp add: finally_clean_run on_throw_def run_tx_inner_def bnd_def sq_def)
    with w2 o show ?thesis by simp
  qed
qed

text \<open>The start of a transaction: clean bookkeeping, the reports that were asked for, and a checkpoint.\<close>

lemma tx_start:
  assumes "at_rest Ss w"
  obtains w' where "sq (modify (mod_jr cleanup)) (sq (whenb al (modify (mod_jr startReportingAccessList))) journal_checkpoint) w = (Inr (), w')"
    "lockstep (Levels [] (sm_view (w_sm w) # Ss, [parts (cleanup (w_jr w))])) w'" "public w' = public w"
    "al \<or> accessList (w_jr w') = None"
proof -
  let ?j = "(if al then startReportingAccessList else id) (cleanup (w_jr w))"
  have pre: "preimages (w_jr w) = None" using assms by (simp add: at_rest_def world_inv_def journal_inv_def)
  have j: "journal_inv ?j" "jsaved ?j = []" "parts ?j = parts (cleanup (w_jr w))" "al \<or> accessList ?j = None"
    using clean_journal_ok(3,4)
    by (auto simp: startReportingAccessList_def journal_inv_def access_ok_def jsaved_def parts_def cleanup_def cleanJournal_def)
  note r = at_rest_journal [OF assms j(1,2)]
  obtain w' where w': "journal_checkpoint (mod_jr (\<lambda>_. ?j) w) = (Inr (), w')"
    "lockstep (Levels [] (sm_view (w_sm (mod_jr (\<lambda>_. ?j) w)) # Ss, [parts (w_jr (mod_jr (\<lambda>_. ?j) w))])) w'"
    "public w' = public (mod_jr (\<lambda>_. ?j) w)" "accessList (w_jr w') = accessList (w_jr (mod_jr (\<lambda>_. ?j) w))"
    by (rule tx_checkpoint [OF r(1)]) (simp add: j(2) mod_jr_def)
  show thesis
  proof (rule that [of w'])
    show "sq (modify (mod_jr cleanup)) (sq (whenb al (modify (mod_jr startReportingAccessList))) journal_checkpoint) w = (Inr (), w')"
      using w'(1) by (cases al) (simp_all add: sq_def bnd_def mod_jr_def)
  qed (use w' r j in \<open>auto simp: mod_jr_def\<close>)
qed

definition reportable :: "run_tx_opts \<Rightarrow> bool" where
  "reportable R \<longleftrightarrow> \<not> ro_reportAccessList R \<or> printable (tx_accessList (ro_tx R))"

lemma sq_skip: "sq (ret ()) m = m"
  by (simp add: sq_def)

lemma sq_assoc: "sq (sq a b) c = sq a (sq b c)"
  by (rule ext) (auto simp: sq_def bnd_def split: prod.splits sum.splits)

lemma runTx_ended:
  assumes H: "host_ok H" and R: "tx_input_ok R" and t: "tx_ok (ro_env R) (ro_tx R)" and w: "ready_on Ss w"
  shows "case runTx H R w of (r, w') \<Rightarrow>
    (case r of Inl e \<Rightarrow> public w' = public w | Inr x \<Rightarrow> tx_outcome R (public w) x (public w')) \<and>
    pub_ok (supply_of w) (public w') \<and> (reportable R \<longrightarrow> ready_on Ss w')"
proof -
  let ?B = "supply_of w" and ?t = "ro_tx R"
  have rest: "at_rest Ss w" and ok: "pub_ok ?B (public w)" and B: "caps_ok ?B"
    using w by (simp_all add: ready_on_def rest_ok_def)
  let ?run = "\<lambda>txid. finally_clean (on_throw (bnd (run_tx_inner H R txid) (\<lambda>x. sq journal_commit (ret x))) journal_revert)"
  let ?start = "sq (modify (mod_jr cleanup)) (sq (whenb (ro_reportAccessList R) (modify (mod_jr startReportingAccessList))) journal_checkpoint)"
  let ?done = "\<lambda>p. case p of (r, w') \<Rightarrow>
    (case r of Inl e \<Rightarrow> public w' = public w | Inr x \<Rightarrow> tx_outcome R (public w) x (public w')) \<and>
    pub_ok (supply_of w) (public w') \<and> (reportable R \<longrightarrow> ready_on Ss w')"
  have same: "?done (Inl e, w)" for e using ok w by simp
  have def: "runTx H R w = (case root_id R of Inl e \<Rightarrow> (Inl e, w) | Inr txid \<Rightarrow>
      if \<not> ((supports ?t 2718 \<or> supports ?t 155) \<and> tv_chainId (ro_env R) \<noteq> h_chainId H) then
        if ro_skipBlockGasLimit R \<or> \<not> block_gasLimit (header R) < tx_gasLimit ?t
        then sq ?start (sq (whenb (supports ?t 2718) (report_typed ?t)) (?run txid)) w
        else (Inl (HostError ''tx has a higher gas limit than the block''), w)
      else (Inl (HostError ''tx has a different chainId than the vm''), w))"
    using R by (simp add: runTx_def Let_def lift_run demand_run sq_assoc tx_input_ok_def whenb_def [of False] split: sum.splits)
      (simp add: sq_def)
  obtain w1 where w1: "?start w = (Inr (), w1)" "lockstep (Levels [] (sm_view (w_sm w) # Ss, [parts (cleanup (w_jr w))])) w1"
    "public w1 = public w" "ro_reportAccessList R \<or> accessList (w_jr w1) = None"
    by (rule tx_start [OF rest])
  have main: "?done (sq ?start (sq (whenb (supports ?t 2718) (report_typed ?t)) (?run txid)) w)" for txid
  proof -
    obtain q w2 where q: "whenb (supports ?t 2718) (report_typed ?t) w1 = (q, w2)" by fastforce
    have w2: "lockstep (Levels [] (sm_view (w_sm w) # Ss, [parts (cleanup (w_jr w))])) w2" "public w2 = public w"
      "reportable R \<Longrightarrow> q = Inr ()"
      using report_typed_run [OF w1(2), of ?t] w1(2-4) q by (auto simp: reportable_def whenb_def split: if_splits)
    have eq: "sq ?start (sq (whenb (supports ?t 2718) (report_typed ?t)) (?run txid)) w =
        (case q of Inl e \<Rightarrow> (Inl e, w2) | Inr _ \<Rightarrow> ?run txid w2)"
      unfolding sq_run [of ?start] w1(1) prod.case sum.case sq_run [of "whenb (supports ?t 2718) (report_typed ?t)"] q by (rule refl)
    show ?thesis
    proof (cases q)
      case (Inl e)
      with eq w2 ok show ?thesis by auto
    next
      case (Inr u)
      obtain r w3 where r: "?run txid w2 = (r, w3)" by fastforce
      have "public w2 = pub_of (sm_view (w_sm w), parts (w_jr w), tview (w_ts w))"
        unfolding w2(2) by (rule public_sm)
      from protected_steps [OF H R t w2(1) ok [folded w2(2)] B this, of txid]
      have p: "at_rest Ss w3" "case r of Inl e \<Rightarrow> public w3 = public w
          | Inr x \<Rightarrow> tx_outcome R (public w) x (public w3) \<and> pub_ok ?B (public w3)"
        unfolding r w2(2) prod.case by blast+
      have "pub_ok ?B (public w3)" using p(2) ok by (cases r) simp_all
      moreover from this p(1) have "ready_on Ss w3" using ready_of [of Ss ?B w3] B by (simp add: rest_ok_def)
      ultimately show ?thesis using eq Inr r p by (cases r) simp_all
    qed
  qed
  show ?thesis
  proof (cases "root_id R")
    case (Inl e)
    show ?thesis unfolding def Inl sum.case by (rule same)
  next
    case (Inr txid)
    show ?thesis unfolding def Inr sum.case
      by (rule if_split [where P = ?done, THEN iffD2], intro conjI impI, rule if_split [where P = ?done, THEN iffD2], intro conjI impI,
          rule main, rule same, rule same)
  qed
qed

section \<open>Properties\<close>

text \<open>
  C3. Transactions make no money: however a transaction ends, the supply of the native currency and of every token is
  at most what it was and nobody owes anything; and if the transaction is executed, the base fee of all of the gas
  it paid for is burnt.
\<close>
theorem runTx_conserves:
  assumes "host_ok H" "tx_input_ok R" "new_tx (ro_env R) b d = Inr (ro_tx R)" "ready_on Ss w" "runTx H R w = (r, w')"
  shows "supply_of w' k \<le> supply_of w k \<and> 0 \<le> holding k (p_acct (public w') a) \<and>
    (case r of Inl e \<Rightarrow> True | Inr x \<Rightarrow> supply_of w' None + rt_totalGasSpent x * header_baseFee R \<le> supply_of w None)"
proof -
  note e = runTx_ended [OF assms(1,2) new_tx_ok [OF assms(3)] assms(4), unfolded assms(5) prod.case]
  have ok: "pub_ok (supply_of w) (public w')" using e by blast
  have "supply_of w' None + rt_totalGasSpent x * header_baseFee R \<le> supply_of w None" if "r = Inr x" for x
  proof -
    have "tx_outcome R (public w) x (public w')" using e that by simp
    then have "\<forall>k. total_supply k (p_acct (public w')) + (if k = None then rt_totalGasSpent x * header_baseFee R else 0) \<le> total_supply k (p_acct (public w))"
      unfolding tx_outcome_def by blast
    from spec [OF this, of None] show ?thesis by (simp add: supply_of_def)
  qed
  with ok show ?thesis by (auto simp: pub_ok_def supply_of_def split: sum.splits)
qed

text \<open>
  C4. Transactions are atomic: one that is rejected leaves accounts, code, storage and transient storage as they
  were, and one that is executed but fails leaves exactly its fees and the raised nonce of its sender.
\<close>
theorem runTx_atomic:
  assumes "host_ok H" "tx_input_ok R" "new_tx (ro_env R) b d = Inr (ro_tx R)" "ready_on Ss w" "runTx H R w = (r, w')"
  shows "case r of Inl e \<Rightarrow> public w' = public w
    | Inr x \<Rightarrow> failed (rt_result x) \<longrightarrow> (\<exists>caller gasPrice inclusionFee.
        getSenderAddress (ro_env R) (ro_tx R) = Inr caller \<and> gas_prices R = Inr (gasPrice, inclusionFee) \<and>
        lasting (public w') = lasting (fees_paid R caller (rt_totalGasSpent x) gasPrice inclusionFee (public w)))"
  using runTx_ended [OF assms(1,2) new_tx_ok [OF assms(3)] assms(4), unfolded assms(5) prod.case]
  unfolding tx_outcome_def by (cases r) (simp, fastforce)

text \<open>
  C11. An executed transaction was admissible and pays for what it used: its sender is the one its signature
  names, an account without code that could afford it and whose nonce it carries, the gas paid for is between the
  intrinsic gas and the limit, and the amount charged is that gas at the price. It is all the gas that the message
  used, on top of the intrinsic gas: in this profile no code can earn a refund.
\<close>
theorem runTx_gas:
  assumes "host_ok H" "tx_input_ok R" "new_tx (ro_env R) b d = Inr (ro_tx R)" "ready_on Ss w" "runTx H R w = (r, w')"
  shows "case r of Inl e \<Rightarrow> True | Inr x \<Rightarrow> (\<exists>caller gasPrice inclusionFee.
    getSenderAddress (ro_env R) (ro_tx R) = Inr caller \<and> admitted R (p_acct (public w) caller) \<and>
    gas_prices R = Inr (gasPrice, inclusionFee) \<and> getIntrinsicGas (ro_tx R) \<le> rt_totalGasSpent x \<and>
    rt_totalGasSpent x \<le> tx_gasLimit (ro_tx R) \<and> rt_amountSpent x = rt_totalGasSpent x * gasPrice \<and>
    rt_minerValue x = rt_totalGasSpent x * inclusionFee \<and> or_else (x_gasRefund (execResult (rt_result x))) 0 = 0 \<and>
    rt_totalGasSpent x = getIntrinsicGas (ro_tx R) + x_executionGasUsed (execResult (rt_result x)))"
  using runTx_ended [OF assms(1,2) new_tx_ok [OF assms(3)] assms(4), unfolded assms(5) prod.case]
  unfolding tx_outcome_def refundless_def by (cases r) (simp, fastforce)

text \<open>
  C12. Transactions can be run one after the other: whether a transaction is rejected, fails or succeeds, it leaves the
  world ready for the next, with only those checkpoints open that were open before and all accounts well formed, provided
  that the access list can be printed if it is reported.
\<close>
theorem runTx_ready:
  assumes "host_ok H" "tx_input_ok R" "new_tx (ro_env R) b d = Inr (ro_tx R)" "ready_on Ss w" "runTx H R w = (r, w')" "reportable R"
  shows "ready_on Ss w'"
  using runTx_ended [OF assms(1,2) new_tx_ok [OF assms(3)] assms(4), unfolded assms(5) prod.case] assms(6) by blast

text \<open>
  Without that proviso it fails: a typed transaction whose reported access list names an address by a list
  instead of bytes, which the constructors accept, is refused after the checkpoint is opened and before the code that
  would close it, so the checkpoint stays open.
\<close>
theorem report_leaks_checkpoint:
  assumes "ready w" "root_id R = Inr txid" "tv_chainId (ro_env R) = h_chainId H" "tx_gasLimit (ro_tx R) \<le> block_gasLimit (header R)"
    "supports (ro_tx R) 2718" "ro_reportAccessList R" "\<not> ro_reportPreimages R" "tx_accessList (ro_tx R) = RList [RList k, slots] # xs"
  shows "\<exists>w'. runTx H R w = (Inl (HostError ''TypeError''), w') \<and> at_rest [sm_view (w_sm w)] w'"
proof -
  have rest: "at_rest [] w" using assms(1) by (simp add: ready_def ready_on_def rest_ok_def)
  obtain w1 where w1: "sq (modify (mod_jr cleanup)) (sq (whenb True (modify (mod_jr startReportingAccessList))) journal_checkpoint) w = (Inr (), w1)"
    "lockstep (Levels [] ([sm_view (w_sm w)], [parts (cleanup (w_jr w))])) w1"
    by (rule tx_start [OF rest])
  have run: "runTx H R w = sq (sq (modify (mod_jr cleanup)) (sq (whenb True (modify (mod_jr startReportingAccessList))) journal_checkpoint))
      (sq (report_typed (ro_tx R)) (finally_clean (on_throw (bnd (run_tx_inner H R txid) (\<lambda>x. sq journal_commit (ret x))) journal_revert))) w"
    using assms(2-7) by (simp add: runTx_def Let_def lift_run demand_run sq_assoc not_less whenb_def [of False] whenb_def [of True] sq_skip)
  have al: "accessList (w_jr w1) \<noteq> None"
    using w1(1) by (auto simp: world_defs startReportingAccessList_def cleanup_def jr_checkpoint_def)
  have "report_typed (ro_tx R) w1 = (Inl (HostError ''TypeError''), w1)"
    using al assms(8) by (simp add: report_typed_def bnd_def on_jr_def zoom_def lift_sum_def key_bytes_def)
  then have "runTx H R w = (Inl (HostError ''TypeError''), w1)" unfolding run using w1(1) by (simp add: sq_run)
  with lockstep_rest(1) [OF w1(2)] show ?thesis by blast
qed

section \<open>An instance\<close>

definition signed_sample :: tx where
  "signed_sample = signed_tx sample_env sample_tx 1 5 7"

definition sample_run :: run_tx_opts where
  "sample_run = \<lparr>ro_tx = signed_sample, ro_env = sample_env, ro_block = None, ro_headerGasUsed = 0, ro_blockGasUsed = None,
     ro_skipBalance = False, ro_skipNonce = False, ro_skipBlockGasLimit = False, ro_reportAccessList = False,
     ro_reportPreimages = False, ro_rootTransactionId = None, ro_requireExplicit = True\<rparr>"

lemma signed_sample_new:
  "\<exists>d. new_tx (ro_env sample_run) (tx_body signed_sample) d = Inr (ro_tx sample_run)"
proof -
  have "addSignature sample_env (protected_tx sample_tx) 1 5 7 True = Inr signed_sample"
    unfolding signed_sample_def by (rule addSignature_signed [OF sample_tx_ok(1)]) (simp_all add: sample_env_def MAX_INTEGER_BIGINT_def)
  then show ?thesis by (auto simp: addSignature_def sample_run_def signed_sample_def)
qed

lemma sample_run_ok: "tx_input_ok sample_run" "reportable sample_run"
  by (simp_all add: tx_input_ok_def sample_run_def signed_sample_def signed_tx_def sample_tx_def bytes_ok_def is_word_def TWO_POW256_def reportable_def)

theorem runTx_conserves_witness:
  "case runTx sample_host sample_run sample_world of (r, w') \<Rightarrow> supply_of w' None \<le> 1000"
  using runTx_conserves [OF sample_ok(1) sample_run_ok(1) _ sample_ready [unfolded ready_def], of _ _ _ _ None] signed_sample_new
  by (auto simp: sample_supply split: prod.splits)

theorem runTx_atomic_witness:
  "case runTx sample_host sample_run sample_world of (Inl e, w') \<Rightarrow> public w' = public sample_world | _ \<Rightarrow> True"
  using runTx_atomic [OF sample_ok(1) sample_run_ok(1) _ sample_ready [unfolded ready_def]] signed_sample_new by (fastforce split: prod.splits sum.splits)

theorem runTx_gas_witness:
  "case runTx sample_host sample_run sample_world of (Inl e, w') \<Rightarrow> True | (Inr x, w') \<Rightarrow> rt_totalGasSpent x \<le> tx_gasLimit signed_sample"
  using runTx_gas [OF sample_ok(1) sample_run_ok(1) _ sample_ready [unfolded ready_def]] signed_sample_new by (fastforce simp: sample_run_def split: prod.splits sum.splits)

theorem runTx_ready_witness: "case runTx sample_host sample_run sample_world of (r, w') \<Rightarrow> ready_on [] w'"
  using runTx_ready [OF sample_ok(1) sample_run_ok(1) _ sample_ready [unfolded ready_def] _ sample_run_ok(2)] signed_sample_new by (auto split: prod.splits)

theorem report_leaks_checkpoint_witness:
  "case runTx sample_host (sample_run\<lparr>ro_reportAccessList := True,
     ro_tx := sample_tx\<lparr>tx_body := FeeMarket1559Tx 2 30 (RList [RList [RList (replicate 20 (RBytes [])), RList []]])\<rparr>\<rparr>) sample_world of
   (r, w') \<Rightarrow> \<not> ready w'"
proof -
  let ?t = "sample_tx\<lparr>tx_body := FeeMarket1559Tx 2 30 (RList [RList [RList (replicate 20 (RBytes [])), RList []]])\<rparr>"
  let ?R = "sample_run\<lparr>ro_reportAccessList := True, ro_tx := ?t\<rparr>"
  have "\<exists>w'. runTx sample_host ?R sample_world = (Inl (HostError ''TypeError''), w') \<and> at_rest [sm_view (w_sm sample_world)] w'"
    by (rule report_leaks_checkpoint [OF sample_ready, where txid = None and k = "replicate 20 (RBytes [])" and slots = "RList []" and xs = "[]"])
      (simp_all add: sample_run_def root_id_def sample_env_def sample_host_def sample_tx_def header_def or_else_def DEFAULT_HEADER_def
        supports_def tx_accessList_def)
  then show ?thesis by (auto simp: ready_def ready_on_def rest_ok_def at_rest_def)
qed

end
