(* ===== verification/Header.thy ===== *)
theory Header
  imports TxProps
begin

text \<open>
  Block headers: \<^verbatim>\<open>packages/block/src/header\<close> with \<^verbatim>\<open>block/src/helpers.ts\<close>, and the validation of a header
  against its parent, \<^verbatim>\<open>validateHeader\<close> of \<^verbatim>\<open>packages/blockchain/src/blockchain.ts\<close>. In the execution
  profile EIP-1559 is active and there is no consensus, so a header has sixteen fields and the format
  checks of consensus algorithms do not apply. The fields of EIPs that are not active are refused.
  Database access is a parameter: the function from a hash to the header stored under it.
\<close>

section \<open>Headers\<close>

definition KECCAK256_RLP_ARRAY :: bytes where
  "KECCAK256_RLP_ARRAY =
     [0x1d, 0xcc, 0x4d, 0xe8, 0xde, 0xc7, 0x5d, 0x7a, 0xab, 0x85, 0xb5, 0x67, 0xb6, 0xcc, 0xd4, 0x1a,
      0xd3, 0x12, 0x45, 0x1b, 0x94, 0x8a, 0x74, 0x13, 0xf0, 0xa1, 0x42, 0xfd, 0x40, 0xd4, 0x93, 0x47]"

definition DEFAULT_GAS_LIMIT :: int where
  "DEFAULT_GAS_LIMIT = 0xffffffffffffff"

record block_header =
  bh_parentHash :: bytes
  bh_uncleHash :: bytes
  bh_coinbase :: address
  bh_stateRoot :: bytes
  bh_transactionsTrie :: bytes
  bh_receiptTrie :: bytes
  bh_logsBloom :: bytes
  bh_difficulty :: int
  bh_number :: int
  bh_gasLimit :: int
  bh_gasUsed :: int
  bh_timestamp :: int
  bh_extraData :: bytes
  bh_mixHash :: bytes
  bh_nonce :: bytes
  bh_baseFee :: int

record header_data =
  hd_parentHash :: txval
  hd_uncleHash :: txval
  hd_coinbase :: txval
  hd_stateRoot :: txval
  hd_transactionsTrie :: txval
  hd_receiptTrie :: txval
  hd_logsBloom :: txval
  hd_difficulty :: txval
  hd_number :: txval
  hd_gasLimit :: txval
  hd_gasUsed :: txval
  hd_timestamp :: txval
  hd_extraData :: txval
  hd_mixHash :: txval
  hd_nonce :: txval
  hd_baseFee :: txval
  hd_withdrawalsRoot :: txval
  hd_requestsHash :: txval
  hd_blockAccessListHash :: txval
  hd_slotNumber :: txval

text \<open>\<^verbatim>\<open>toType(value, type) ?? default\<close>.\<close>

definition or_bytes :: "txval \<Rightarrow> bytes \<Rightarrow> exn + bytes" where
  "or_bytes v d = (if v = Undef then Inr d else util_toBytes v)"

definition or_int :: "txval \<Rightarrow> int \<Rightarrow> exn + int" where
  "or_int v d = (if v = Undef then Inr d else to_int v)"

definition genericFormatValidation :: "block_header \<Rightarrow> exn + unit" where
  "genericFormatValidation h =
     reject (length (bh_parentHash h) \<noteq> 32) ''parentHash must be 32 bytes''
     (reject (length (bh_stateRoot h) \<noteq> 32) ''stateRoot must be 32 bytes''
     (reject (length (bh_transactionsTrie h) \<noteq> 32) ''transactionsTrie must be 32 bytes''
     (reject (length (bh_receiptTrie h) \<noteq> 32) ''receiptTrie must be 32 bytes''
     (reject (length (bh_mixHash h) \<noteq> 32) ''mixHash must be 32 bytes''
     (reject (length (bh_nonce h) \<noteq> 8) ''nonce must be 8 bytes''
     (reject (bh_gasUsed h > bh_gasLimit h) ''Invalid block: too much gas used'' (Inr ())))))))"

definition new_header :: "header_data \<Rightarrow> exn + block_header" where
  "new_header d =
     then_sum (or_bytes (hd_parentHash d) (zeros 32)) (\<lambda>parentHash.
     then_sum (or_bytes (hd_uncleHash d) KECCAK256_RLP_ARRAY) (\<lambda>uncleHash.
     then_sum (then_sum (or_bytes (hd_coinbase d) (zeros 20)) new_address) (\<lambda>coinbase.
     then_sum (or_bytes (hd_stateRoot d) (zeros 32)) (\<lambda>stateRoot.
     then_sum (or_bytes (hd_transactionsTrie d) KECCAK256_RLP) (\<lambda>transactionsTrie.
     then_sum (or_bytes (hd_receiptTrie d) KECCAK256_RLP) (\<lambda>receiptTrie.
     then_sum (or_bytes (hd_logsBloom d) (zeros 256)) (\<lambda>logsBloom.
     then_sum (or_int (hd_difficulty d) 0) (\<lambda>difficulty.
     then_sum (or_int (hd_number d) 0) (\<lambda>number.
     then_sum (or_int (hd_gasLimit d) DEFAULT_GAS_LIMIT) (\<lambda>gasLimit.
     then_sum (or_int (hd_gasUsed d) 0) (\<lambda>gasUsed.
     then_sum (or_int (hd_timestamp d) 0) (\<lambda>timestamp.
     then_sum (or_bytes (hd_extraData d) []) (\<lambda>extraData.
     then_sum (or_bytes (hd_mixHash d) (zeros 32)) (\<lambda>mixHash.
     then_sum (or_bytes (hd_nonce d) (zeros 8)) (\<lambda>nonce.
     then_sum (or_int (hd_baseFee d) 7) (\<lambda>baseFee.
     reject (hd_withdrawalsRoot d \<noteq> Undef) ''A withdrawalsRoot for a header can only be provided with EIP4895 being activated''
     (reject (hd_requestsHash d \<noteq> Undef) ''requestsHash can only be provided with EIP 7685 activated''
     (reject (hd_blockAccessListHash d \<noteq> Undef) ''blockAccessListHash can only be provided with EIP 7928 activated''
     (reject (hd_slotNumber d \<noteq> Undef) ''slotNumber can only be provided with EIP 7843 activated''
     (let h = \<lparr>bh_parentHash = parentHash, bh_uncleHash = uncleHash, bh_coinbase = coinbase, bh_stateRoot = stateRoot,
          bh_transactionsTrie = transactionsTrie, bh_receiptTrie = receiptTrie, bh_logsBloom = logsBloom, bh_difficulty = difficulty,
          bh_number = number, bh_gasLimit = gasLimit, bh_gasUsed = gasUsed, bh_timestamp = timestamp, bh_extraData = extraData,
          bh_mixHash = mixHash, bh_nonce = nonce, bh_baseFee = baseFee\<rparr>
      in then_sum (genericFormatValidation h) (\<lambda>_. Inr h)))))))))))))))))))))"

definition isGenesis :: "block_header \<Rightarrow> bool" where
  "isGenesis h \<longleftrightarrow> bh_number h = 0"

section \<open>Serialization\<close>

definition header_raw :: "block_header \<Rightarrow> exn + rlp list" where
  "header_raw h = collect
     [Inr (RBytes (bh_parentHash h)), Inr (RBytes (bh_uncleHash h)), Inr (RBytes (addr_bytes (bh_coinbase h))),
      Inr (RBytes (bh_stateRoot h)), Inr (RBytes (bh_transactionsTrie h)), Inr (RBytes (bh_receiptTrie h)),
      Inr (RBytes (bh_logsBloom h)), num_field (bh_difficulty h), num_field (bh_number h), num_field (bh_gasLimit h),
      num_field (bh_gasUsed h), num_field (bh_timestamp h), Inr (RBytes (bh_extraData h)), Inr (RBytes (bh_mixHash h)),
      Inr (RBytes (bh_nonce h)), num_field (bh_baseFee h)]"

definition header_serialize :: "block_header \<Rightarrow> exn + bytes" where
  "header_serialize h = then_sum (header_raw h) encode_list"

definition header_hash :: "(bytes \<Rightarrow> bytes) \<Rightarrow> block_header \<Rightarrow> exn + bytes" where
  "header_hash kec h = map_sum id kec (header_serialize h)"

definition valuesArrayToHeaderData :: "rlp list \<Rightarrow> exn + header_data" where
  "valuesArrayToHeaderData vs =
     reject (length vs > 17) ''Unsupported header extension''
     (reject (length vs < 15) ''invalid header. Less values than expected were received''
     (Inr \<lparr>hd_parentHash = field vs 0, hd_uncleHash = field vs 1, hd_coinbase = field vs 2, hd_stateRoot = field vs 3,
        hd_transactionsTrie = field vs 4, hd_receiptTrie = field vs 5, hd_logsBloom = field vs 6, hd_difficulty = field vs 7,
        hd_number = field vs 8, hd_gasLimit = field vs 9, hd_gasUsed = field vs 10, hd_timestamp = field vs 11,
        hd_extraData = field vs 12, hd_mixHash = field vs 13, hd_nonce = field vs 14, hd_baseFee = field vs 15,
        hd_withdrawalsRoot = field vs 16, hd_requestsHash = Undef, hd_blockAccessListHash = Undef, hd_slotNumber = Undef\<rparr>))"

definition createBlockHeaderFromBytesArray :: "rlp list \<Rightarrow> exn + block_header" where
  "createBlockHeaderFromBytesArray vs =
     then_sum (valuesArrayToHeaderData vs) (\<lambda>d.
     then_sum (new_header d) (\<lambda>h.
     reject (hd_baseFee d = Undef) ''invalid header. baseFeePerGas should be provided'' (Inr h)))"

definition createBlockHeaderFromRLP :: "bytes \<Rightarrow> exn + block_header" where
  "createBlockHeaderFromRLP b = then_sum (rlp_array (decode (IBytes b))) createBlockHeaderFromBytesArray"

section \<open>Rules between a header and its parent\<close>

definition paramsBlock :: "string \<Rightarrow> int" where
  "paramsBlock name = or_else (map_of
     [(''minGasLimit'', 5000), (''gasLimitBoundDivisor'', 1024), (''baseFeeMaxChangeDenominator'', 8), (''elasticityMultiplier'', 2)] name) 0"

definition validateGasLimit :: "block_header \<Rightarrow> block_header \<Rightarrow> exn + unit" where
  "validateGasLimit parent h =
     (let parentGasLimit = bh_gasLimit parent; a = js_div parentGasLimit (paramsBlock ''gasLimitBoundDivisor'')
      in reject (bh_gasLimit h \<ge> parentGasLimit + a) ''gas limit increased too much''
         (reject (bh_gasLimit h \<le> parentGasLimit - a) ''gas limit decreased too much''
         (reject (bh_gasLimit h < paramsBlock ''minGasLimit'') ''gas limit decreased below minimum gas limit'' (Inr ()))))"

text \<open>The base fee of the next block; a bigint division by zero raises an error.\<close>

definition calcNextBaseFee :: "block_header \<Rightarrow> exn + int" where
  "calcNextBaseFee p =
     (let target = js_div (bh_gasLimit p) (paramsBlock ''elasticityMultiplier'');
          delta = (\<lambda>gasUsedDelta. js_div (js_div (bh_baseFee p * gasUsedDelta) target) (paramsBlock ''baseFeeMaxChangeDenominator''))
      in if target = bh_gasUsed p then Inr (bh_baseFee p)
         else reject (target = 0) ''RangeError: Division by zero''
           (Inr (if bh_gasUsed p > target
                 then (let d = delta (bh_gasUsed p - target) in (if d > 1 then d else 1) + bh_baseFee p)
                 else (let d = delta (target - bh_gasUsed p) in if bh_baseFee p - d > 0 then bh_baseFee p - d else 0))))"

definition validateHeader :: "(bytes \<Rightarrow> exn + block_header) \<Rightarrow> int option \<Rightarrow> block_header \<Rightarrow> exn + unit" where
  "validateHeader getHeader height h =
     (if isGenesis h then Inr ()
      else then_sum (getHeader (bh_parentHash h)) (\<lambda>parent.
        reject (bh_number h \<noteq> bh_number parent + 1) ''invalid number''
        (reject (bh_timestamp h \<le> bh_timestamp parent) ''invalid timestamp''
        (then_sum (validateGasLimit parent h) (\<lambda>_.
         reject (case height of None \<Rightarrow> False | Some n \<Rightarrow> \<not> (n - bh_number parent < 8 \<and> n - bh_number parent > 1))
           ''uncle block has a parent that is too old or too young''
         (then_sum (calcNextBaseFee parent) (\<lambda>expectedBaseFee.
          reject (bh_baseFee h \<noteq> expectedBaseFee) ''Invalid block: base fee not correct'' (Inr ()))))))))"

end
