(* ===== verification/HeaderProps.thy ===== *)
theory HeaderProps
  imports Header
begin

text \<open>
  Properties of headers: a constructed header is read back from its serialization, the base fee moves
  by at most an eighth towards demand, and what validated headers say of a chain.
\<close>

section \<open>Constructed headers\<close>

definition header_ok :: "block_header \<Rightarrow> bool" where
  "header_ok h \<longleftrightarrow> length (bh_parentHash h) = 32 \<and> length (bh_stateRoot h) = 32 \<and> length (bh_transactionsTrie h) = 32 \<and>
     length (bh_receiptTrie h) = 32 \<and> length (bh_mixHash h) = 32 \<and> length (bh_nonce h) = 8 \<and>
     0 \<le> bh_difficulty h \<and> 0 \<le> bh_number h \<and> 0 \<le> bh_gasUsed h \<and> bh_gasUsed h \<le> bh_gasLimit h \<and>
     0 \<le> bh_timestamp h \<and> 0 \<le> bh_baseFee h"

lemma or_int_nonneg: "or_int v d = Inr n \<Longrightarrow> 0 \<le> d \<Longrightarrow> 0 \<le> n"
  by (auto simp: or_int_def to_int_nonneg split: if_splits)

lemma genericFormat_Inr: "genericFormatValidation h = Inr u \<longleftrightarrow>
    length (bh_parentHash h) = 32 \<and> length (bh_stateRoot h) = 32 \<and> length (bh_transactionsTrie h) = 32 \<and>
    length (bh_receiptTrie h) = 32 \<and> length (bh_mixHash h) = 32 \<and> length (bh_nonce h) = 8 \<and> bh_gasUsed h \<le> bh_gasLimit h"
  by (auto simp: genericFormatValidation_def reject_def)

lemma new_header_ok:
  assumes "new_header d = Inr h"
  shows "header_ok h"
proof -
  obtain difficulty number gasUsed timestamp baseFee where n: "or_int (hd_difficulty d) 0 = Inr difficulty"
    "or_int (hd_number d) 0 = Inr number" "or_int (hd_gasUsed d) 0 = Inr gasUsed" "or_int (hd_timestamp d) 0 = Inr timestamp"
    "or_int (hd_baseFee d) 7 = Inr baseFee"
    "bh_difficulty h = difficulty" "bh_number h = number" "bh_gasUsed h = gasUsed" "bh_timestamp h = timestamp" "bh_baseFee h = baseFee"
    and g: "genericFormatValidation h = Inr ()"
    using assms by (auto simp: new_header_def Let_def sum_steps)
  have "0 \<le> difficulty" "0 \<le> number" "0 \<le> gasUsed" "0 \<le> timestamp" "0 \<le> baseFee"
    using n(1-5) or_int_nonneg by fastforce+
  with n g show ?thesis by (simp add: header_ok_def genericFormat_Inr)
qed

section \<open>Reading back\<close>

definition header_values :: "block_header \<Rightarrow> rlp list" where
  "header_values h =
     [RBytes (bh_parentHash h), RBytes (bh_uncleHash h), RBytes (addr_bytes (bh_coinbase h)), RBytes (bh_stateRoot h),
      RBytes (bh_transactionsTrie h), RBytes (bh_receiptTrie h), RBytes (bh_logsBloom h), num (bh_difficulty h), num (bh_number h),
      num (bh_gasLimit h), num (bh_gasUsed h), num (bh_timestamp h), RBytes (bh_extraData h), RBytes (bh_mixHash h),
      RBytes (bh_nonce h), num (bh_baseFee h)]"

lemma header_ok_gasLimit: "header_ok h \<Longrightarrow> 0 \<le> bh_gasLimit h"
  by (simp add: header_ok_def)

lemma header_raw_values: "header_ok h \<Longrightarrow> header_raw h = Inr (header_values h)"
  using header_ok_gasLimit [of h] by (simp add: header_raw_def header_values_def header_ok_def)

lemma or_reads [simp]: "or_bytes (Val (RBytes b)) d = Inr b" "0 \<le> n \<Longrightarrow> or_int (Val (num n)) m = Inr n"
  by (simp_all add: or_bytes_def or_int_def)

lemma header_back:
  assumes "header_ok h"
  shows "createBlockHeaderFromBytesArray (header_values h) = Inr h"
proof -
  let ?vs = "header_values h"
  have f: "field ?vs 0 = Val (RBytes (bh_parentHash h))" "field ?vs 1 = Val (RBytes (bh_uncleHash h))"
    "field ?vs 2 = Val (RBytes (addr_bytes (bh_coinbase h)))" "field ?vs 3 = Val (RBytes (bh_stateRoot h))"
    "field ?vs 4 = Val (RBytes (bh_transactionsTrie h))" "field ?vs 5 = Val (RBytes (bh_receiptTrie h))"
    "field ?vs 6 = Val (RBytes (bh_logsBloom h))" "field ?vs 7 = Val (num (bh_difficulty h))" "field ?vs 8 = Val (num (bh_number h))"
    "field ?vs 9 = Val (num (bh_gasLimit h))" "field ?vs 10 = Val (num (bh_gasUsed h))" "field ?vs 11 = Val (num (bh_timestamp h))"
    "field ?vs 12 = Val (RBytes (bh_extraData h))" "field ?vs 13 = Val (RBytes (bh_mixHash h))"
    "field ?vs 14 = Val (RBytes (bh_nonce h))" "field ?vs 15 = Val (num (bh_baseFee h))" "field ?vs 16 = Undef"
    by (simp_all add: field_def header_values_def)
  have l: "length ?vs = 16" by (simp add: header_values_def)
  note nn = header_ok_gasLimit [OF assms] assms [unfolded header_ok_def]
  show ?thesis
    unfolding createBlockHeaderFromBytesArray_def valuesArrayToHeaderData_def f l
    using nn by (simp add: new_header_def new_address_bytes reject_def Let_def genericFormatValidation_def)
qed

lemma header_enc:
  assumes "header_ok h" "header_serialize h = Inr b" "length b < max_array"
  shows "b = enc (RList (header_values h))"
  using assms by (intro encode_list_enc) (simp_all add: header_serialize_def header_raw_values)

text \<open>
  A constructed header is read back from its serialization with all of its fields.
\<close>
theorem header_roundtrip:
  assumes "new_header d = Inr h" "header_serialize h = Inr b" "length b < max_array"
  shows "createBlockHeaderFromRLP b = Inr h"
proof -
  have ok: "header_ok h" using assms(1) by (rule new_header_ok)
  note b = header_enc [OF ok assms(2,3)]
  then have "decode (IBytes b) = Inr (RList (header_values h))" using decode_enc assms(3) by blast
  with header_back [OF ok] show ?thesis by (simp add: createBlockHeaderFromRLP_def rlp_array_def)
qed

definition sample_header_data :: header_data where
  "sample_header_data = \<lparr>hd_parentHash = Val (RBytes (replicate 32 1)), hd_uncleHash = Undef, hd_coinbase = Undef, hd_stateRoot = Undef,
     hd_transactionsTrie = Undef, hd_receiptTrie = Undef, hd_logsBloom = Undef, hd_difficulty = Undef, hd_number = Big 1,
     hd_gasLimit = Big 200, hd_gasUsed = Big 150, hd_timestamp = Big 100, hd_extraData = Undef, hd_mixHash = Undef,
     hd_nonce = Undef, hd_baseFee = Big 80, hd_withdrawalsRoot = Undef, hd_requestsHash = Undef, hd_blockAccessListHash = Undef,
     hd_slotNumber = Undef\<rparr>"

definition sample_header :: block_header where
  "sample_header = \<lparr>bh_parentHash = replicate 32 1, bh_uncleHash = KECCAK256_RLP_ARRAY, bh_coinbase = 0, bh_stateRoot = zeros 32,
     bh_transactionsTrie = KECCAK256_RLP, bh_receiptTrie = KECCAK256_RLP, bh_logsBloom = zeros 256, bh_difficulty = 0, bh_number = 1,
     bh_gasLimit = 200, bh_gasUsed = 150, bh_timestamp = 100, bh_extraData = [], bh_mixHash = zeros 32, bh_nonce = zeros 8,
     bh_baseFee = 80\<rparr>"

lemma sample_header_new: "new_header sample_header_data = Inr sample_header"
proof -
  have a: "new_address (zeros 20) = Inr 0" by code_simp
  have g: "genericFormatValidation sample_header = Inr ()"
    by (simp add: genericFormatValidation_def sample_header_def reject_def KECCAK256_RLP_def)
  have b: "or_bytes Undef x = Inr x" "or_int Undef y = Inr y" "0 \<le> n \<Longrightarrow> or_int (Big n) y = Inr n" for x y n
    by (simp_all add: or_bytes_def or_int_def to_int_Big)
  show ?thesis using g by (simp add: new_header_def sample_header_data_def sample_header_def a b)
qed

lemma sample_header_bytes: "\<exists>b. header_serialize sample_header = Inr b \<and> length b < max_array"
proof -
  let ?b = "case header_serialize sample_header of Inr b \<Rightarrow> b | Inl _ \<Rightarrow> []"
  have "header_serialize sample_header = Inr ?b" by code_simp
  moreover have "length ?b = 499" by code_simp
  then have "length ?b < max_array" by simp
  ultimately show ?thesis by blast
qed

theorem header_roundtrip_witness:
  "\<exists>b. header_serialize sample_header = Inr b \<and> createBlockHeaderFromRLP b = Inr sample_header"
  using sample_header_bytes header_roundtrip [OF sample_header_new] by blast

section \<open>Base fees\<close>

definition gas_target :: "block_header \<Rightarrow> int" where
  "gas_target p = bh_gasLimit p div 2"

text \<open>The next fee above and below the target.\<close>

lemma params_block [simp]: "paramsBlock ''minGasLimit'' = 5000" "paramsBlock ''gasLimitBoundDivisor'' = 1024"
  "paramsBlock ''baseFeeMaxChangeDenominator'' = 8" "paramsBlock ''elasticityMultiplier'' = 2"
  by (simp_all add: paramsBlock_def or_else_def)

lemma next_fee:
  assumes "header_ok p" "2 \<le> bh_gasLimit p"
  shows "calcNextBaseFee p = Inr (
    if bh_gasUsed p \<ge> gas_target p
    then bh_baseFee p + (if bh_gasUsed p = gas_target p then 0 else max 1 (bh_baseFee p * (bh_gasUsed p - gas_target p) div gas_target p div 8))
    else max 0 (bh_baseFee p - bh_baseFee p * (gas_target p - bh_gasUsed p) div gas_target p div 8))"
proof -
  have t: "js_div (bh_gasLimit p) 2 = gas_target p" "0 < gas_target p"
    using assms by (simp_all add: js_div_nonneg gas_target_def)
  have b: "0 \<le> bh_baseFee p" using assms(1) by (simp add: header_ok_def)
  have d: "js_div (js_div (bh_baseFee p * x) (gas_target p)) 8 = bh_baseFee p * x div gas_target p div 8" if "0 \<le> x" for x
    using b t(2) that by (simp add: js_div_nonneg pos_imp_zdiv_nonneg_iff)
  show ?thesis
    using t d [of "bh_gasUsed p - gas_target p"] d [of "gas_target p - bh_gasUsed p"]
    by (auto simp: calcNextBaseFee_def Let_def reject_def max_def)
qed

lemma fee_delta_mono: "0 \<le> b \<Longrightarrow> 0 < (t :: int) \<Longrightarrow> x \<le> y \<Longrightarrow> b * x div t div 8 \<le> b * y div t div 8"
  by (intro zdiv_mono1 mult_left_mono) simp_all

text \<open>
  C20. The base fee follows demand: after a block that used more gas than the target, half of its limit, the fee rises, by at least one.
  After one that used less it never rises and falls by at most an eighth; it does fall exactly if an eighth of the fee, scaled by the
  share of the target that was not used, comes to one at least, and by a whole eighth after an empty block. It stays at the target, it is
  never negative, it is bounded by what a full block allows, and using more gas never makes the next fee lower.
\<close>
theorem base_fee_follows_demand:
  assumes "new_header d = Inr p" "2 \<le> bh_gasLimit p"
  shows "\<exists>f. calcNextBaseFee p = Inr f \<and> 0 \<le> f \<and>
    (bh_gasUsed p = bh_gasLimit p div 2 \<longrightarrow> f = bh_baseFee p) \<and>
    (bh_gasUsed p < bh_gasLimit p div 2 \<longrightarrow> bh_baseFee p - bh_baseFee p div 8 \<le> f \<and> f \<le> bh_baseFee p \<and>
       (f < bh_baseFee p \<longleftrightarrow> 8 * (bh_gasLimit p div 2) \<le> bh_baseFee p * (bh_gasLimit p div 2 - bh_gasUsed p)) \<and>
       (bh_gasUsed p = 0 \<longrightarrow> f = bh_baseFee p - bh_baseFee p div 8)) \<and>
    (bh_gasLimit p div 2 < bh_gasUsed p \<longrightarrow> bh_baseFee p < f \<and>
       f \<le> bh_baseFee p + max 1 (bh_baseFee p * (bh_gasLimit p - bh_gasLimit p div 2) div (bh_gasLimit p div 2) div 8)) \<and>
    (\<forall>u f'. bh_gasUsed p \<le> u \<and> u \<le> bh_gasLimit p \<and> calcNextBaseFee (p\<lparr>bh_gasUsed := u\<rparr>) = Inr f' \<longrightarrow> f \<le> f')"
proof -
  have ok: "header_ok p" using assms(1) by (rule new_header_ok)
  let ?b = "bh_baseFee p" and ?t = "gas_target p" and ?u = "bh_gasUsed p"
  have b: "0 \<le> ?b" and t: "0 < ?t" and u: "0 \<le> ?u" "?u \<le> bh_gasLimit p"
    using ok assms(2) by (simp_all add: header_ok_def gas_target_def)
  let ?f = "\<lambda>u. if u \<ge> ?t then ?b + (if u = ?t then 0 else max 1 (?b * (u - ?t) div ?t div 8)) else max 0 (?b - ?b * (?t - u) div ?t div 8)"
  have fee: "calcNextBaseFee (p\<lparr>bh_gasUsed := v\<rparr>) = Inr (?f v)" if "0 \<le> v" "v \<le> bh_gasLimit p" for v
    using next_fee [of "p\<lparr>bh_gasUsed := v\<rparr>"] ok assms(2) that by (simp add: header_ok_def gas_target_def)
  have fall: "0 \<le> ?b * (?t - v) div ?t div 8" "?b * (?t - v) div ?t div 8 \<le> ?b div 8" if "0 \<le> v" "v \<le> ?t" for v
    using fee_delta_mono [OF b t, of 0 "?t - v"] fee_delta_mono [OF b t, of "?t - v" ?t] t that by simp_all
  have mono: "?f v \<le> ?f v'" if "0 \<le> v" "v \<le> v'" for v v'
  proof (cases "?t \<le> v")
    case True
    then show ?thesis using that fee_delta_mono [OF b t, of "v - ?t" "v' - ?t"] by auto
  next
    case False
    then have v: "v \<le> ?t" by simp
    show ?thesis
    proof (cases "?t \<le> v'")
      case True
      with False show ?thesis using fall(1) [OF that(1) v] b by auto
    next
      case v': False
      with False show ?thesis using that fee_delta_mono [OF b t, of "?t - v'" "?t - v"] by auto
    qed
  qed
  define f where "f = ?f ?u"
  have "calcNextBaseFee p = Inr f" using fee [OF u] by (simp add: f_def)
  moreover have "0 \<le> f" using b by (simp add: f_def)
  moreover have "?u = ?t \<Longrightarrow> f = ?b" by (simp add: f_def)
  moreover have "f \<le> f'" if "?u \<le> v \<and> v \<le> bh_gasLimit p \<and> calcNextBaseFee (p\<lparr>bh_gasUsed := v\<rparr>) = Inr f'" for v f'
  proof -
    have "f' = ?f v" using fee [of v] u that by simp
    then show ?thesis unfolding f_def using mono [of ?u v] u(1) that by simp
  qed
  moreover have "?b - ?b div 8 \<le> f \<and> f \<le> ?b \<and> (f < ?b \<longleftrightarrow> 8 * ?t \<le> ?b * (?t - ?u)) \<and> (?u = 0 \<longrightarrow> f = ?b - ?b div 8)" if "?u < ?t"
  proof -
    let ?d = "?b * (?t - ?u) div ?t div 8"
    have d: "0 \<le> ?d" "?d \<le> ?b div 8" using fall [OF u(1)] that by simp_all
    have "?b div 8 \<le> ?b" using b by simp
    with d have f: "f = ?b - ?d" using that unfolding f_def by simp
    have "?d = ?b * (?t - ?u) div (8 * ?t)" using t by (simp add: zdiv_zmult2_eq mult.commute [of 8])
    then have "0 < ?d \<longleftrightarrow> 8 * ?t \<le> ?b * (?t - ?u)" using t by (simp add: pos_imp_zdiv_pos_iff)
    moreover have "?u = 0 \<Longrightarrow> ?d = ?b div 8" using t by simp
    ultimately show ?thesis using d unfolding f by auto
  qed
  moreover have "?b < f \<and> f \<le> ?b + max 1 (?b * (bh_gasLimit p - ?t) div ?t div 8)" if "?t < ?u"
    using fee_delta_mono [OF b t, of "?u - ?t" "bh_gasLimit p - ?t"] u(2) that unfolding f_def by auto
  ultimately show ?thesis unfolding gas_target_def [symmetric] by blast
qed

theorem base_fee_follows_demand_witness: "\<exists>f. calcNextBaseFee sample_header = Inr f \<and> 80 < f"
  using base_fee_follows_demand [OF sample_header_new] by (auto simp: sample_header_def)

section \<open>Chains of headers\<close>

text \<open>A chain of headers, each validated against the one before, from a first one.\<close>

inductive chain :: "(bytes \<Rightarrow> exn + block_header) \<Rightarrow> block_header \<Rightarrow> nat \<Rightarrow> block_header \<Rightarrow> bool" for getHeader g where
  first: "chain getHeader g 0 g"
| child: "chain getHeader g n p \<Longrightarrow> getHeader (bh_parentHash h) = Inr p \<Longrightarrow> \<not> isGenesis h \<Longrightarrow>
    validateHeader getHeader None h = Inr () \<Longrightarrow> chain getHeader g (Suc n) h"

inductive_cases chain_SucE: "chain getHeader g (Suc n) h"

lemma validateHeader_child:
  assumes "getHeader (bh_parentHash h) = Inr p" "\<not> isGenesis h" "validateHeader getHeader None h = Inr ()" "0 \<le> bh_gasLimit p"
  shows "bh_number h = bh_number p + 1" "bh_timestamp p < bh_timestamp h" "calcNextBaseFee p = Inr (bh_baseFee h)"
    "5000 \<le> bh_gasLimit h" "1024 * bh_gasLimit h \<le> 1025 * bh_gasLimit p" "1023 * bh_gasLimit p \<le> 1024 * bh_gasLimit h"
proof -
  have a: "js_div (bh_gasLimit p) 1024 = bh_gasLimit p div 1024" using assms(4) by (simp add: js_div_nonneg)
  have v: "bh_number h = bh_number p + 1" "bh_timestamp p < bh_timestamp h" "calcNextBaseFee p = Inr (bh_baseFee h)"
    "5000 \<le> bh_gasLimit h" "bh_gasLimit h < bh_gasLimit p + bh_gasLimit p div 1024" "bh_gasLimit p - bh_gasLimit p div 1024 < bh_gasLimit h"
    using assms(1-3) by (auto simp: validateHeader_def validateGasLimit_def Let_def sum_steps a not_le)
  then show "bh_number h = bh_number p + 1" "bh_timestamp p < bh_timestamp h" "calcNextBaseFee p = Inr (bh_baseFee h)"
    "5000 \<le> bh_gasLimit h" by simp_all
  from v(5,6) show "1024 * bh_gasLimit h \<le> 1025 * bh_gasLimit p" "1023 * bh_gasLimit p \<le> 1024 * bh_gasLimit h" by linarith+
qed

text \<open>
  C21. What validation says of a chain: along any chain of validated headers the numbers count up by one, the times
  increase, the gas limit never falls below 5000 and changes by at most a factor of 1/1024 in each
  step, and every base fee is the one that follows from the parent.
\<close>
theorem validated_chain:
  assumes "chain getHeader g n h" "0 \<le> bh_gasLimit g"
  shows "bh_number h = bh_number g + int n \<and> bh_timestamp g + int n \<le> bh_timestamp h \<and>
    (0 < n \<longrightarrow> 5000 \<le> bh_gasLimit h \<and> (\<exists>p. chain getHeader g (n - 1) p \<and> calcNextBaseFee p = Inr (bh_baseFee h))) \<and>
    1024 ^ n * bh_gasLimit h \<le> 1025 ^ n * bh_gasLimit g \<and> 1023 ^ n * bh_gasLimit g \<le> 1024 ^ n * bh_gasLimit h"
  using assms(1)
proof (induction rule: chain.induct)
  case (child n p h)
  have "0 \<le> bh_gasLimit p" using child.IH assms(2) by (cases "0 < n") (auto elim: chain.cases)
  note v = validateHeader_child [OF child(2-4) this]
  have "1024 ^ n * (1024 * bh_gasLimit h) \<le> 1024 ^ n * (1025 * bh_gasLimit p)" using v(5) by (intro mult_left_mono) simp_all
  also have "\<dots> = 1025 * (1024 ^ n * bh_gasLimit p)" by simp
  also have "\<dots> \<le> 1025 * (1025 ^ n * bh_gasLimit g)" using child.IH by (intro mult_left_mono) simp_all
  finally have up: "1024 ^ Suc n * bh_gasLimit h \<le> 1025 ^ Suc n * bh_gasLimit g" by (simp add: mult.assoc)
  have "1023 * (1023 ^ n * bh_gasLimit g) \<le> 1023 * (1024 ^ n * bh_gasLimit p)" using child.IH by (intro mult_left_mono) simp_all
  also have "\<dots> = 1024 ^ n * (1023 * bh_gasLimit p)" by simp
  also have "\<dots> \<le> 1024 ^ n * (1024 * bh_gasLimit h)" using v(6) by (intro mult_left_mono) simp_all
  finally have low: "1023 ^ Suc n * bh_gasLimit g \<le> 1024 ^ Suc n * bh_gasLimit h" by (simp add: mult.assoc)
  show ?case using child.IH child(1) v up low by auto
qed simp

text \<open>A child of the sample header.\<close>

definition sample_parent :: block_header where
  "sample_parent = sample_header\<lparr>bh_gasLimit := 30000, bh_gasUsed := 20000\<rparr>"

definition sample_child :: block_header where
  "sample_child = sample_header\<lparr>bh_parentHash := zeros 32, bh_number := 2, bh_timestamp := 101, bh_gasLimit := 30028, bh_baseFee := 83\<rparr>"

theorem validated_chain_witness: "1024 * bh_gasLimit sample_child \<le> 1025 * bh_gasLimit sample_parent"
proof -
  let ?get = "\<lambda>_. Inr sample_parent :: exn + block_header"
  have "calcNextBaseFee sample_parent = Inr 83"
    by (simp add: calcNextBaseFee_def sample_parent_def sample_header_def js_div_nonneg Let_def reject_def)
  then have "validateHeader ?get None sample_child = Inr ()"
    by (simp add: validateHeader_def validateGasLimit_def sample_child_def sample_parent_def sample_header_def isGenesis_def js_div_nonneg reject_def Let_def)
  then have "chain ?get sample_parent (Suc 0) sample_child"
    by (intro chain.child [OF chain.first]) (simp_all add: isGenesis_def sample_child_def)
  from validated_chain [OF this] show ?thesis by (simp add: sample_parent_def)
qed

end
