(* ===== verification/Blocks.thy ===== *)
theory Blocks
  imports HeaderProps TrieMap RunTx
begin

text \<open>
  Blocks: \<^verbatim>\<open>packages/block/src/block\<close> with the trie of transactions of \<^verbatim>\<open>block/src/helpers.ts\<close>. In the
  execution profile a block has a header and transactions only: uncles and withdrawals are refused by
  the constructor. Types of transactions that the constructor refuses do not exist in \<^typ>\<open>tx_body\<close>.
\<close>

section \<open>Blocks\<close>

record blk =
  blk_header :: block_header
  blk_txs :: "tx list"

definition new_block :: "block_header \<Rightarrow> tx list \<Rightarrow> block_header list \<Rightarrow> bool \<Rightarrow> exn + blk" where
  "new_block h txs uncles withdrawals =
     reject (uncles \<noteq> []) ''Uncle headers are not supported by TRON execution presets''
     (reject withdrawals ''Cannot have a withdrawals field if EIP 4895 is not active''
     (Inr \<lparr>blk_header = h, blk_txs = txs\<rparr>))"

definition block_hash :: "(bytes \<Rightarrow> bytes) \<Rightarrow> blk \<Rightarrow> exn + bytes" where
  "block_hash kec b = header_hash kec (blk_header b)"

definition body_tx :: "tx_env \<Rightarrow> tx \<Rightarrow> exn + rlp" where
  "body_tx E t = (if supports t 2718 then map_sum id RBytes (tx_serialize E t) else map_sum id RList (tx_raw E t))"

definition block_raw :: "tx_env \<Rightarrow> blk \<Rightarrow> exn + rlp list" where
  "block_raw E b =
     then_sum (header_raw (blk_header b)) (\<lambda>h.
     then_sum (collect (map (body_tx E) (blk_txs b))) (\<lambda>ts.
     Inr [RList h, RList ts, RList []]))"

definition block_serialize :: "tx_env \<Rightarrow> blk \<Rightarrow> exn + bytes" where
  "block_serialize E b = then_sum (block_raw E b) encode_list"

section \<open>From data\<close>

text \<open>A transaction is given by its type and its fields.\<close>

definition createBlock :: "tx_env \<Rightarrow> header_data \<Rightarrow> (tx_body \<times> tx_input) list \<Rightarrow> header_data list \<Rightarrow> bool \<Rightarrow> exn + blk" where
  "createBlock E headerData txsData uhsData withdrawals =
     then_sum (new_header headerData) (\<lambda>h.
     then_sum (collect (map (\<lambda>(k, d). new_tx E k d) txsData)) (\<lambda>transactions.
     then_sum (collect (map new_header uhsData)) (\<lambda>uncles.
     new_block h transactions uncles withdrawals)))"

section \<open>From bytes\<close>

definition createTxFromBlockBodyData :: "tx_env \<Rightarrow> rlp \<Rightarrow> exn + tx" where
  "createTxFromBlockBodyData E d = (case d of RBytes b \<Rightarrow> createTxFromRLP E b | RList vs \<Rightarrow> createLegacyTxFromBytesArray E vs)"

text \<open>
  The elements of an optional array. The elements of bytes are numbers, of which neither a
  transaction nor a header is made; bytes have no element of the kinds a header needs either.
\<close>

definition body_items :: "txval \<Rightarrow> exn + rlp list" where
  "body_items v = (case v of Undef \<Rightarrow> Inr [] | Val (RList l) \<Rightarrow> Inr l | Val (RBytes []) \<Rightarrow> Inr [] | _ \<Rightarrow> Inl (HostError ''TypeError''))"

definition header_item :: "txval \<Rightarrow> exn + block_header" where
  "header_item v = (case v of Val (RList h) \<Rightarrow> createBlockHeaderFromBytesArray h | _ \<Rightarrow> Inl (HostError ''TypeError''))"

definition createBlockFromBytesArray :: "tx_env \<Rightarrow> rlp list \<Rightarrow> exn + blk" where
  "createBlockFromBytesArray E vs =
     reject (length vs > 5) ''invalid  More values than expected were received (at most 5)''
     (then_sum (header_item (field vs 0)) (\<lambda>h.
      reject (length vs > 3) ''Unsupported block body extension''
      (then_sum (body_items (field vs 1)) (\<lambda>txs.
       then_sum (collect (map (createTxFromBlockBodyData E) txs)) (\<lambda>transactions.
       then_sum (body_items (field vs 2)) (\<lambda>uhs.
       then_sum (collect (map (\<lambda>u. header_item (Val u)) uhs)) (\<lambda>uncles.
       new_block h transactions uncles False)))))))"

definition createBlockFromRLP :: "tx_env \<Rightarrow> bytes \<Rightarrow> exn + blk" where
  "createBlockFromRLP E b = then_sum (rlp_array (decode (IBytes b))) (createBlockFromBytesArray E)"

section \<open>The trie of a list\<close>

text \<open>A trie without options has no cache: the database is created with size 0.\<close>

definition no_cache :: "unit lru" where
  "no_cache = \<lparr>lru_get = (\<lambda>k c. (None, c)), lru_set = (\<lambda>k v c. c), lru_delete = (\<lambda>k c. c)\<rparr>"

definition list_trie :: "(bytes \<Rightarrow> bytes) \<Rightarrow> trie_opts" where
  "list_trie kec = \<lparr>hash = kec, useKeyHashing = False, useNodePruning = False, useRootPersistence = False, keyPrefix = []\<rparr>"

text \<open>Each value is written under the encoding of its index.\<close>

fun put_values :: "trie_opts \<Rightarrow> nat \<Rightarrow> (exn + bytes) list \<Rightarrow> (unit trie, unit) op" where
  "put_values c i [] = ret ()"
| "put_values c i (v # vs) =
     bnd (lift_sum (rlp_encode (INum (int i)))) (\<lambda>k.
     bnd (lift_sum v) (\<lambda>b. sq (trie_put c no_cache k b False) (put_values c (Suc i) vs)))"

definition list_root :: "(bytes \<Rightarrow> bytes) \<Rightarrow> (exn + bytes) list \<Rightarrow> exn + bytes" where
  "list_root kec vs = (case put_values (list_trie kec) 0 vs (new_trie (list_trie kec) None) of
     (Inl e, t) \<Rightarrow> Inl e | (Inr _, t) \<Rightarrow> Inr (t_root t))"

definition genTransactionsTrieRoot :: "tx_env \<Rightarrow> tx list \<Rightarrow> exn + bytes" where
  "genTransactionsTrieRoot E txs = list_root (tv_keccak E) (map (tx_serialize E) txs)"

section \<open>Validation\<close>

definition transactionsTrieIsValid :: "tx_env \<Rightarrow> blk \<Rightarrow> exn + bool" where
  "transactionsTrieIsValid E b =
     (if blk_txs b = [] then Inr (equalsBytes (bh_transactionsTrie (blk_header b)) KECCAK256_RLP)
      else map_sum id (\<lambda>root. equalsBytes root (bh_transactionsTrie (blk_header b))) (genTransactionsTrieRoot E (blk_txs b)))"

definition block_tx_errors :: "tx_env \<Rightarrow> block_header \<Rightarrow> tx \<Rightarrow> string list" where
  "block_tx_errors E h t = getValidationErrors E t @
     (if supports t 1559
      then if max_price t < bh_baseFee h then [''tx unable to pay base fee (EIP-1559 tx)''] else []
      else if max_price t < bh_baseFee h then [''tx unable to pay base fee (non EIP-1559 tx)''] else [])"

text \<open>The errors of each transaction that has any, with its index.\<close>

definition getTransactionsValidationErrors :: "tx_env \<Rightarrow> blk \<Rightarrow> (nat \<times> string list) list" where
  "getTransactionsValidationErrors E b =
     filter (\<lambda>(i, errs). errs \<noteq> []) (enumerate 0 (map (block_tx_errors E (blk_header b)) (blk_txs b)))"

definition transactionsAreValid :: "tx_env \<Rightarrow> blk \<Rightarrow> bool" where
  "transactionsAreValid E b \<longleftrightarrow> getTransactionsValidationErrors E b = []"

definition uncleHashIsValid :: "blk \<Rightarrow> bool" where
  "uncleHashIsValid b \<longleftrightarrow> equalsBytes KECCAK256_RLP_ARRAY (bh_uncleHash (blk_header b))"

definition validateData :: "tx_env \<Rightarrow> bool \<Rightarrow> bool \<Rightarrow> blk \<Rightarrow> exn + unit" where
  "validateData E onlyHeader verifyTxs b =
     reject (verifyTxs \<and> getTransactionsValidationErrors E b \<noteq> []) ''invalid transactions''
     (if onlyHeader then Inr ()
      else reject (verifyTxs \<and> \<not> list_all isSigned (blk_txs b)) ''invalid transactions: transaction is unsigned''
       (then_sum (transactionsTrieIsValid E b) (\<lambda>valid.
        reject (\<not> valid) ''invalid transaction trie''
        (reject (\<not> uncleHashIsValid b) ''invalid uncle hash'' (Inr ())))))"

end
