(* ===== verification/BlockProps.thy ===== *)
theory BlockProps
  imports Blocks RunTxProps
begin

text \<open>
  Properties of blocks: a block is read back from its serialization, the root of the trie of its
  transactions determines them, and so the hash of a validated block determines the block.
\<close>

section \<open>Transactions in blocks\<close>

lemma collect_Inr: "collect rs = Inr xs \<longleftrightarrow> rs = map Inr xs"
proof (induction rs arbitrary: xs)
  case (Cons r rs)
  show ?case
  proof (cases r)
    case (Inr x)
    then show ?thesis by (cases xs) (auto simp: then_sum_Inr Cons.IH)
  qed auto
qed auto

lemma collect_map_Inr: "collect (map f xs) = Inr ys \<longleftrightarrow> length ys = length xs \<and> (\<forall>i < length xs. f (xs ! i) = Inr (ys ! i))"
  by (auto simp: collect_Inr list_eq_iff_nth_eq)

text \<open>A transaction as an item of a block body.\<close>

definition body_value :: "tx_env \<Rightarrow> tx \<Rightarrow> rlp" where
  "body_value E t =
     (let d = RList (unsigned_values (tv_chainId E) t @ signature_values t)
      in if is_legacy t then d else RBytes (type_prefix t @ enc d))"

lemma typed_supports: "tx_ok E t \<Longrightarrow> supports t 2718 \<longleftrightarrow> \<not> is_legacy t"
  by (auto simp: tx_ok_def supports_def is_legacy_def legacy_capabilities_def split: tx_body.splits option.splits if_splits)

lemma body_tx_value:
  assumes "tx_ok E t" "0 \<le> tv_chainId E" "body_tx E t = Inr d" "length (enc d) < max_array"
  shows "d = body_value E t"
proof (cases "is_legacy t")
  case True
  with assms show ?thesis by (auto simp: body_tx_def typed_supports [OF assms(1)] tx_raw_values body_value_def)
next
  case False
  then obtain b where b: "tx_serialize E t = Inr b" "d = RBytes b"
    using assms(3) by (auto simp: body_tx_def typed_supports [OF assms(1)] map_sum_Inr)
  have "length b \<le> length (enc d)" using b(2) by simp
  with b(1) tx_serialize_enc(1) [OF assms(1,2) b(1)] assms(4) show ?thesis by (simp add: b(2) body_value_def False Let_def)
qed

lemma body_value_back:
  assumes "tx_ok E t" "0 \<le> tv_chainId E" "tx_r t \<noteq> Some 0" "tx_s t \<noteq> Some 0" "body_tx E t = Inr d" "length (enc d) < max_array"
  shows "createTxFromBlockBodyData E d = Inr (reread t)"
proof (cases "is_legacy t")
  case True
  with body_tx_value [OF assms(1,2,5,6)] createLegacyTx_back [OF assms(1,2) True assms(3,4)] show ?thesis
    by (simp add: createTxFromBlockBodyData_def body_value_def reread_def)
next
  case False
  then obtain b where b: "tx_serialize E t = Inr b" "d = RBytes b"
    using assms(5) by (auto simp: body_tx_def typed_supports [OF assms(1)] map_sum_Inr)
  have "length b < max_array" using assms(6) b(2) by (auto split: if_splits)
  with tx_read_back [OF assms(1-4) b(1)] show ?thesis by (simp add: createTxFromBlockBodyData_def b(2))
qed

section \<open>Reading back\<close>

lemma length_enc_item: "d \<in> set ds \<Longrightarrow> length (enc d) \<le> length (enc (RList ds))"
proof -
  have "d \<in> set ds \<Longrightarrow> length (enc d) \<le> length (concat (map enc ds))" by (induction ds) auto
  then show "d \<in> set ds \<Longrightarrow> length (enc d) \<le> length (enc (RList ds))" by simp
qed

text \<open>Transactions whose signature, if any, has no zero half.\<close>

definition halves_ok :: "tx \<Rightarrow> bool" where
  "halves_ok t \<longleftrightarrow> tx_r t \<noteq> Some 0 \<and> tx_s t \<noteq> Some 0"

lemma items_back:
  assumes "list_all (\<lambda>t. tx_ok E t \<and> halves_ok t) ts" "0 \<le> tv_chainId E" "collect (map (body_tx E) ts) = Inr ds"
    "length (enc (RList ds)) < max_array"
  shows "collect (map (createTxFromBlockBodyData E) ds) = Inr (map reread ts)"
proof -
  have l: "length ds = length ts" and d: "\<And>i. i < length ts \<Longrightarrow> body_tx E (ts ! i) = Inr (ds ! i)"
    using assms(3) by (auto simp: collect_map_Inr)
  have "createTxFromBlockBodyData E (ds ! i) = Inr (map reread ts ! i)" if i: "i < length ts" for i
  proof -
    have "ds ! i \<in> set ds" using l i by simp
    then have "length (enc (ds ! i)) < max_array" using length_enc_item assms(4) by fastforce
    moreover have "tx_ok E (ts ! i)" "halves_ok (ts ! i)" using assms(1) i by (auto simp: list_all_length)
    ultimately show ?thesis using body_value_back [OF _ assms(2) _ _ d [OF i]] i by (simp add: halves_ok_def)
  qed
  with l show ?thesis by (simp add: collect_map_Inr)
qed

lemma reread_signed: "isSigned t \<Longrightarrow> reread t = t"
  by (simp add: reread_def isSigned_def)

text \<open>
  C25. A block of constructed parts is read back from its serialization, header and transactions of every type; an
  unsigned typed transaction comes back with a \<^verbatim>\<open>v\<close> of zero, all others as they were.
\<close>
theorem block_roundtrip:
  assumes "new_header d = Inr (blk_header b)" "\<forall>t \<in> set (blk_txs b). (\<exists>k i. new_tx E k i = Inr t) \<and> halves_ok t"
    "0 \<le> tv_chainId E" "block_serialize E b = Inr bs" "length bs < max_array"
  shows "createBlockFromRLP E bs = Inr (b\<lparr>blk_txs := map reread (blk_txs b)\<rparr>)"
proof -
  have h: "header_ok (blk_header b)" using assms(1) by (rule new_header_ok)
  have ts: "list_all (\<lambda>t. tx_ok E t \<and> halves_ok t) (blk_txs b)" using assms(2) new_tx_ok by (auto simp: list_all_iff)
  obtain ds where ds: "collect (map (body_tx E) (blk_txs b)) = Inr ds"
    "encode_list [RList (header_values (blk_header b)), RList ds, RList []] = Inr bs"
    using assms(4) by (auto simp: block_serialize_def block_raw_def header_raw_values [OF h] then_sum_Inr)
  let ?vs = "[RList (header_values (blk_header b)), RList ds, RList []]"
  have bs: "bs = enc (RList ?vs)" by (rule encode_list_enc [OF ds(2) assms(5)])
  have "length (enc (RList ds)) \<le> length bs" unfolding bs by (rule length_enc_item) simp
  then have txs: "collect (map (createTxFromBlockBodyData E) ds) = Inr (map reread (blk_txs b))"
    using items_back [OF ts assms(3) ds(1)] assms(5) by simp
  have "decode (IBytes bs) = Inr (RList ?vs)" using decode_enc [of "RList ?vs"] assms(5) bs by simp
  then show ?thesis using header_back [OF h] txs
    by (simp add: createBlockFromRLP_def rlp_array_def createBlockFromBytesArray_def field_def header_item_def body_items_def
        new_block_def reject_def del: enc.simps)
qed

section \<open>The root of a list\<close>

definition index_byte :: "nat \<Rightarrow> byte" where
  "index_byte i = (if i = 0 then 0x80 else of_nat i)"

lemma rlp_index:
  assumes "i < 128"
  shows "rlp_encode (INum (int i)) = Inr [index_byte i]"
proof (cases "i = 0")
  case False
  then obtain ds where ds: "numberToHex (int i) = Inr (digits ds)" "hex_digits ds" "even (length ds)" "pair_up ds = be_digits i"
    using numberToHex_bytes [of i] by auto
  have "be_digits i = [word_of_nat i]" using False assms by (simp add: be_digits.simps [of i])
  then have "rlp_toBytes (INum (int i)) = Inr [word_of_nat i]" using ds hexToBytes_digits [of ds] False by (simp add: rlp_toBytes_def)
  then show ?thesis using False assms by (simp add: rlp_encode_atom(1) index_byte_def unat_small)
qed (simp add: rlp_toBytes_def index_byte_def encodeLength_def)

lemma index_inject: "i < 128 \<Longrightarrow> j < 128 \<Longrightarrow> index_byte i = index_byte j \<longleftrightarrow> i = j"
proof -
  have u: "unat (index_byte k) = (if k = 0 then 128 else k)" if "k < 128" for k
    using that by (simp add: index_byte_def unat_of_nat take_bit_nat_eq_self)
  assume "i < 128" "j < 128"
  moreover from this have "i = j" if "index_byte i = index_byte j"
    using u [of i, symmetric] u [of j, symmetric] that by (cases "i = 0"; cases "j = 0") simp_all
  ultimately show ?thesis by blast
qed

text \<open>The writes of a list from an index on, and the map they leave.\<close>

fun index_puts :: "nat \<Rightarrow> bytes list \<Rightarrow> batch_op list" where
  "index_puts i [] = []"
| "index_puts i (b # bs) = BPut [index_byte i] b # index_puts (Suc i) bs"

lemma put_values_batch:
  "\<not> useRootPersistence c \<Longrightarrow> i + length bs \<le> 128 \<Longrightarrow> put_values c i (map Inr bs) = trie_batch c no_cache (index_puts i bs) False"
proof (induction bs arbitrary: i)
  case (Cons b bs)
  then have "put_values c (Suc i) (map Inr bs) = trie_batch c no_cache (index_puts (Suc i) bs) False" by simp
  moreover have "rlp_encode (INum (int i)) = Inr [index_byte i]" using Cons.prems by (intro rlp_index) simp
  ultimately show ?case by (simp add: lift_sum_def bnd_def del: rlp_encode.simps)
qed (simp add: fun_eq_iff persistRoot_def)

lemma index_map:
  "i + length bs \<le> 128 \<Longrightarrow> [] \<notin> set bs \<Longrightarrow> j < 128 \<Longrightarrow>
    fold (map_op c False) (index_puts i bs) m (op_key c False [index_byte j]) =
      (if i \<le> j \<and> j < i + length bs then Some (bs ! (j - i)) else m (op_key c False [index_byte j]))"
  if "\<not> useKeyHashing c"
proof (induction bs arbitrary: i m)
  case (Cons b bs)
  have k: "op_key c False k = k" for k using that by (simp add: op_key_def appliedKey_def)
  define m' where "m' = map_op c False (BPut [index_byte i] b) m"
  have m'': "m' [index_byte i] = Some b" using Cons.prems by (auto simp: m'_def k)
  have m': "m' [index_byte j] = (if j = i then Some b else m [index_byte j])"
    using Cons.prems by (auto simp: m'_def k index_inject)
  have "fold (map_op c False) (index_puts (Suc i) bs) m' [index_byte j] =
      (if Suc i \<le> j \<and> j < Suc i + length bs then Some (bs ! (j - Suc i)) else if j = i then Some b else m [index_byte j])"
    using Cons.prems Cons.IH [of "Suc i" m'] by (simp add: k m' m'')
  then show ?case by (auto simp: nth_Cons' m'' m'_def [symmetric] k simp del: map_op.simps)
qed auto

text \<open>The entries of a list of values.\<close>

definition list_entries :: "bytes list \<Rightarrow> (nibbles \<times> bytes) set" where
  "list_entries bs = {(bytesToNibbles [index_byte i], bs ! i) |i. i < length bs}"

lemma index_puts_ok:
  assumes "list_entries bs \<subseteq> P" "length bs \<le> 128" "[] \<notin> set bs" "\<not> useKeyHashing c"
  shows "\<forall>w \<in> set (index_puts 0 bs). op_ok c 2 P False w"
proof -
  have "\<forall>w \<in> set (index_puts i (drop i bs)). op_ok c 2 P False w" if "i \<le> length bs" for i
    using that
  proof (induction "length bs - i" arbitrary: i)
    case (Suc n)
    then have i: "i < length bs" "drop i bs = bs ! i # drop (Suc i) bs" by (simp_all add: Cons_nth_drop_Suc)
    then have "(bytesToNibbles [index_byte i], bs ! i) \<in> P" "bs ! i \<noteq> []"
      using assms(1,3) nth_mem [OF i(1)] i(1) by (auto simp: list_entries_def simp del: nth_mem)
    moreover have "\<forall>w \<in> set (index_puts (Suc i) (drop (Suc i) bs)). op_ok c 2 P False w"
      by (rule Suc.hyps(1)) (use Suc.hyps(2) i(1) in linarith)+
    ultimately show ?case using assms(4) by (simp add: i(2) op_key_def appliedKey_def)
  qed simp
  from this [of 0] show ?thesis by simp
qed

lemma no_cache_ok: "lru_ok no_cache (\<lambda>_. Map.empty)"
  by (simp add: lru_ok_def no_cache_def)

lemma list_root_tree:
  assumes c: "trie_ok (list_trie kec) 2 P" and P: "list_entries bs \<subseteq> P" and bs: "length bs \<le> 128" "[] \<notin> set bs"
  obtains r x D where "list_root kec (map Inr bs) = Inr r" "tree_at (list_trie kec) 2 P D r x" "good_tree 2 P x"
    "\<And>j. j < 128 \<Longrightarrow> tmap x [index_byte j] = (if j < length bs then Some (bs ! j) else None)"
proof -
  let ?c = "list_trie kec"
  have f: "\<not> useKeyHashing ?c" "\<not> useRootPersistence ?c" by (simp_all add: list_trie_def)
  have inv: "cdb_inv (\<lambda>_. Map.empty) (t_db (new_trie ?c (None :: unit option)))" by (simp add: cdb_inv_def new_trie_def new_cdb_def)
  note ok = index_puts_ok [OF P bs f(1)]
  obtain s where s: "trie_batch ?c no_cache (index_puts 0 bs) False (new_trie ?c None) = (Inr (), s)"
    "tree_at ?c 2 P (cdb_view (t_db s)) (t_root s) (fold (tstep ?c False) (index_puts 0 bs) None)"
    using trie_batch_ok [OF c no_cache_ok inv new_trie_tree ok] by blast
  let ?x = "fold (tstep ?c False) (index_puts 0 bs) None"
  have g: "good_tree 2 P (fold (tstep ?c False) ws x) \<and> tmap (fold (tstep ?c False) ws x) = fold (map_op ?c False) ws (tmap x)"
    if "\<forall>w \<in> set ws. op_ok ?c 2 P False w" "good_tree 2 P x" for ws x
    using that tstep_good by (induction ws arbitrary: x) auto
  have "tmap None = Map.empty" by (simp add: tmap_def fun_eq_iff)
  then have x: "good_tree 2 P ?x" "tmap ?x = fold (map_op ?c False) (index_puts 0 bs) Map.empty"
    using g [OF ok, of None] by (simp_all add: good_tree_def)
  have "list_root kec (map Inr bs) = Inr (t_root s)"
    using s(1) put_values_batch [OF f(2), of 0 bs] bs(1) by (simp add: list_root_def)
  moreover have "tmap ?x [index_byte j] = (if j < length bs then Some (bs ! j) else None)" if "j < 128" for j
    using index_map [OF f(1), of 0 bs j Map.empty] bs that by (simp add: x(2) op_key_def appliedKey_def f)
  ultimately show thesis using that s(2) x(1) by blast
qed

text \<open>The root determines the list.\<close>

lemma list_root_inject:
  assumes c: "trie_ok (list_trie kec) 2 (list_entries as \<union> list_entries bs)"
    and as: "length as \<le> 128" "[] \<notin> set as" and bs: "length bs \<le> 128" "[] \<notin> set bs"
    and r: "list_root kec (map Inr as) = Inr r" "list_root kec (map Inr bs) = Inr r"
  shows "as = bs"
proof -
  let ?P = "list_entries as \<union> list_entries bs"
  obtain x D where x: "tree_at (list_trie kec) 2 ?P D r x"
    "\<And>j. j < 128 \<Longrightarrow> tmap x [index_byte j] = (if j < length as then Some (as ! j) else None)"
    by (rule list_root_tree [OF c _ as]) (use r in auto)
  obtain y D' where y: "tree_at (list_trie kec) 2 ?P D' r y"
    "\<And>j. j < 128 \<Longrightarrow> tmap y [index_byte j] = (if j < length bs then Some (bs ! j) else None)"
    by (rule list_root_tree [OF c _ bs]) (use r in auto)
  have "x = y" by (rule tree_at_unique [OF c x(1) y(1)])
  then have e: "(if j < length as then Some (as ! j) else None) = (if j < length bs then Some (bs ! j) else None)" if "j < 128" for j
    using x(2) [OF that] y(2) [OF that] by simp
  have "length as = length bs"
  proof (rule ccontr)
    assume "length as \<noteq> length bs"
    then have "min (length as) (length bs) < 128" using as(1) bs(1) by linarith
    from e [OF this] \<open>length as \<noteq> length bs\<close> show False by (auto simp: min_def split: if_splits)
  qed
  moreover have "as ! j = bs ! j" if "j < length as" for j using e [of j] that as(1) calculation by simp
  ultimately show ?thesis by (rule nth_equalityI)
qed

section \<open>The hash of a block\<close>

lemma put_values_collect:
  assumes "put_values c i vs t = (Inr (), t')"
  shows "\<exists>bs. vs = map Inr bs"
  using assms
proof (induction vs arbitrary: i t)
  case (Cons v vs)
  obtain k where k: "rlp_encode (INum (int i)) = Inr k" using Cons.prems by (cases "rlp_encode (INum (int i))") (auto simp: bnd_def lift_sum_def)
  obtain x where x: "v = Inr x" using Cons.prems k by (cases v) (auto simp: bnd_def lift_sum_def)
  obtain u where "put_values c (Suc i) vs u = (Inr (), t')"
    using Cons.prems k x by (auto simp: bnd_def sq_def lift_sum_def split: prod.splits sum.splits)
  with Cons.IH obtain bs where "vs = map Inr bs" by blast
  with x have "v # vs = map Inr (x # bs)" by simp
  then show ?case by (rule exI)
qed simp

definition body_entries :: "tx_env \<Rightarrow> blk \<Rightarrow> (nibbles \<times> bytes) set" where
  "body_entries E b = {(bytesToNibbles [index_byte i], x) |i x. i < length (blk_txs b) \<and> tx_serialize E (blk_txs b ! i) = Inr x}"

lemma valid_body:
  assumes "validateData E False True b = Inr ()" "tv_keccak E RLP_EMPTY_STRING = KECCAK256_RLP"
  obtains bs where "map (tx_serialize E) (blk_txs b) = map Inr bs" "list_root (tv_keccak E) (map Inr bs) = Inr (bh_transactionsTrie (blk_header b))"
    "list_all isSigned (blk_txs b)" "list_entries bs = body_entries E b" "length bs = length (blk_txs b)"
proof -
  have s: "list_all isSigned (blk_txs b)" and v: "transactionsTrieIsValid E b = Inr True"
    using assms(1) by (auto simp: validateData_def reject_def then_sum_Inr split: if_splits)
  have r: "genTransactionsTrieRoot E (blk_txs b) = Inr (bh_transactionsTrie (blk_header b))"
  proof (cases "blk_txs b = []")
    case True
    then show ?thesis using v assms(2)
      by (simp add: transactionsTrieIsValid_def genTransactionsTrieRoot_def list_root_def new_trie_def EMPTY_TRIE_ROOT_def list_trie_def)
  next
    case False
    then show ?thesis using v by (auto simp: transactionsTrieIsValid_def map_sum_Inr)
  qed
  then obtain t where "put_values (list_trie (tv_keccak E)) 0 (map (tx_serialize E) (blk_txs b)) (new_trie (list_trie (tv_keccak E)) None) = (Inr (), t)"
    by (auto simp: genTransactionsTrieRoot_def list_root_def split: prod.splits sum.splits)
  then obtain bs where bs: "map (tx_serialize E) (blk_txs b) = map Inr bs" using put_values_collect by blast
  have l: "length bs = length (blk_txs b)" using arg_cong [OF bs, of length] by simp
  have "tx_serialize E (blk_txs b ! i) = Inr (bs ! i)" if "i < length bs" for i
    using arg_cong [OF bs, of "\<lambda>l. l ! i"] that l by simp
  then have "list_entries bs = body_entries E b" by (force simp: list_entries_def body_entries_def l)
  with that bs r s l show thesis by (simp add: genTransactionsTrieRoot_def)
qed

lemma header_enc_eq:
  assumes "header_ok h" "header_ok h'" "header_serialize h = Inr x" "header_serialize h' = Inr x" "length x < max_array"
  shows "h = h'"
proof -
  let ?d = "RList (header_values h)" and ?e = "RList (header_values h')"
  note x = header_enc [OF assms(1,3,5), symmetric] header_enc [OF assms(2,4,5), symmetric]
  have "?d = ?e" by (rule enc_inject) (simp_all only: x assms(5))
  then have "header_values h = header_values h'" by (simp only: rlp.inject)
  then show ?thesis using header_back [OF assms(1)] header_back [OF assms(2)] by (metis sum.inject(2))
qed

text \<open>
  C17. The hash of a block commits to all of it: two validated blocks of at most 128 transactions each, with the same hash,
  are the same block, header and transactions, if the hash function has no collision on the two headers and on the nodes of
  tries of these transactions. The bound is where the key of a transaction, the RLP encoding of its index, needs a second
  byte: theory \<open>TrieMap\<close> asks for keys of one length, and larger blocks are not covered.
\<close>
theorem block_hash_commits:
  assumes new: "new_header d = Inr (blk_header b)" "new_header d' = Inr (blk_header b')"
    "\<forall>t \<in> set (blk_txs b) \<union> set (blk_txs b'). \<exists>k i. new_tx E k i = Inr t" "0 \<le> tv_chainId E"
    and valid: "validateData E False True b = Inr ()" "validateData E False True b' = Inr ()"
    and few: "length (blk_txs b) \<le> 128" "length (blk_txs b') \<le> 128"
    and hash: "tv_keccak E RLP_EMPTY_STRING = KECCAK256_RLP" "trie_ok (list_trie (tv_keccak E)) 2 (body_entries E b \<union> body_entries E b')"
    and head: "header_serialize (blk_header b) = Inr x" "header_serialize (blk_header b') = Inr x'"
      "tv_keccak E x = tv_keccak E x' \<Longrightarrow> x = x'" "length x < max_array"
    and same: "block_hash (tv_keccak E) b = block_hash (tv_keccak E) b'"
  shows "b = b'"
proof -
  have x: "x = x'" using same head by (simp add: block_hash_def header_hash_def)
  have h: "blk_header b = blk_header b'"
    by (rule header_enc_eq [OF new_header_ok [OF new(1)] new_header_ok [OF new(2)] head(1) head(2) [folded x] head(4)])
  obtain as where as: "map (tx_serialize E) (blk_txs b) = map Inr as" "list_root (tv_keccak E) (map Inr as) = Inr (bh_transactionsTrie (blk_header b))"
    "list_all isSigned (blk_txs b)" "list_entries as = body_entries E b" "length as = length (blk_txs b)" by (rule valid_body [OF valid(1) hash(1)])
  obtain bs where bs: "map (tx_serialize E) (blk_txs b') = map Inr bs" "list_root (tv_keccak E) (map Inr bs) = Inr (bh_transactionsTrie (blk_header b'))"
    "list_all isSigned (blk_txs b')" "list_entries bs = body_entries E b'" "length bs = length (blk_txs b')" by (rule valid_body [OF valid(2) hash(1)])
  have ok: "tx_ok E t" if "t \<in> set (blk_txs b) \<union> set (blk_txs b')" for t using new(3) that new_tx_ok by blast
  have ser: "\<exists>y. tx_serialize E t = Inr y \<and> y \<in> set as \<union> set bs" if t: "t \<in> set (blk_txs b) \<union> set (blk_txs b')" for t
  proof -
    have "tx_serialize E t \<in> set (map Inr as) \<union> set (map Inr bs)" unfolding as(1) [symmetric] bs(1) [symmetric] using t by auto
    then show ?thesis by auto
  qed
  have small: "length y < max_array" if y: "y \<in> set as \<union> set bs" for y
  proof -
    have "\<exists>q. (q, y) \<in> list_entries as \<union> list_entries bs" using y by (auto simp: list_entries_def in_set_conv_nth)
    then have "length y < 2 ^ 32" using hash(2) by (auto simp: trie_ok_def as(4) bs(4))
    then show ?thesis by (rule less_trans) simp
  qed
  have "y \<noteq> []" if "y \<in> set as \<union> set bs" for y
  proof -
    have "Inr y \<in> set (map (tx_serialize E) (blk_txs b)) \<union> set (map (tx_serialize E) (blk_txs b'))" unfolding as(1) bs(1) using that by auto
    then have "Inr y \<in> tx_serialize E ` (set (blk_txs b) \<union> set (blk_txs b'))" by auto
    then obtain t where t: "t \<in> set (blk_txs b) \<union> set (blk_txs b')" "tx_serialize E t = Inr y" by (metis imageE)
    show ?thesis using tx_serialize_enc [OF ok [OF t(1)] new(4) t(2) small [OF that]] enc_nonempty by (auto simp del: enc.simps)
  qed
  then have ne: "[] \<notin> set as" "[] \<notin> set bs" by auto
  have "as = bs"
    by (rule list_root_inject [OF hash(2) [folded as(4) bs(4)] _ ne(1) _ ne(2) as(2) bs(2) [folded h]]) (use few as(5) bs(5) in simp_all)
  then have m: "map (tx_serialize E) (blk_txs b) = map (tx_serialize E) (blk_txs b')" using as(1) bs(1) by simp
  have "blk_txs b = blk_txs b'"
  proof (rule map_inj_on [OF m], rule inj_onI)
    fix t u assume t: "t \<in> set (blk_txs b) \<union> set (blk_txs b')" and u: "u \<in> set (blk_txs b) \<union> set (blk_txs b')" and e: "tx_serialize E t = tx_serialize E u"
    obtain y where y: "tx_serialize E t = Inr y" "y \<in> set as \<union> set bs" using ser [OF t] by blast
    have s: "isSigned t" "isSigned u" using t u as(3) bs(3) by (auto simp: list_all_iff)
    show "t = u" by (rule tx_serialize_inject [OF ok [OF t] ok [OF u] new(4) s y(1) e [symmetric, unfolded y(1)] small [OF y(2)]])
  qed
  with h show ?thesis by (cases b; cases b') simp
qed

section \<open>Sizes\<close>

text \<open>An encoding adds at most eight bytes to every string and list.\<close>

fun rlp_weight :: "rlp \<Rightarrow> nat" where
  "rlp_weight (RBytes b) = length b + 8"
| "rlp_weight (RList ds) = sum_list (map rlp_weight ds) + 8"

lemma rlp_prefix_length: "n < max_array \<Longrightarrow> length (rlp_prefix n off) \<le> 8"
  using length_digits_array [of n] by (simp add: rlp_prefix_def)

lemma enc_weight: "rlp_weight d < max_array \<Longrightarrow> length (enc d) \<le> rlp_weight d"
proof (induction d)
  case (RBytes b)
  then show ?case using rlp_prefix_length [of "length b" 128] by simp
next
  case (RList ds)
  have "length (concat (map enc es)) \<le> sum_list (map rlp_weight es)" if "set es \<subseteq> set ds" "sum_list (map rlp_weight es) < max_array" for es
    using that RList.IH by (induction es) (auto intro: add_mono)
  from this [of ds] RList.prems have l: "length (concat (map enc ds)) \<le> sum_list (map rlp_weight ds)" by simp
  moreover from this RList.prems have "length (concat (map enc ds)) < max_array" by simp
  note rlp_prefix_length [OF this, of 192]
  ultimately show ?case by simp
qed

lemma weight_num: "n < 2 ^ 64 \<Longrightarrow> rlp_weight (num n) \<le> 16"
  using be_digits_length_le [of "nat n" 8] by (simp add: num_def num_bytes_def nat_less_iff)

lemma encode_list_ok: "rlp_weight (RList vs) < max_array \<Longrightarrow> encode_list vs = Inr (enc (RList vs)) \<and> length (enc (RList vs)) \<le> rlp_weight (RList vs)"
  using rlp_encode_embed [of "RList vs"] enc_weight [of "RList vs"] by (simp add: encode_list_def)

lemma tx_serialize_ok:
  assumes "tx_ok E t" "0 \<le> tv_chainId E" "rlp_weight (RList (unsigned_values (tv_chainId E) t @ signature_values t)) < 1000"
  obtains b where "tx_serialize E t = Inr b" "b \<noteq> []" "length b < 1001"
proof -
  let ?vs = "unsigned_values (tv_chainId E) t @ signature_values t"
  have e: "encode_list ?vs = Inr (enc (RList ?vs))" "length (enc (RList ?vs)) < 1000"
    using encode_list_ok [of ?vs] assms(3) by (simp_all del: enc.simps rlp_weight.simps)
  have "length (type_prefix t) \<le> 1" by (simp add: type_prefix_def split: tx_body.splits)
  with that [of "type_prefix t @ enc (RList ?vs)"] e enc_nonempty [of "RList ?vs"] show thesis
    by (simp add: tx_serialize_def tx_raw_values [OF assms(1,2)] del: enc.simps)
qed

lemma header_serialize_ok:
  assumes "header_ok h" "rlp_weight (RList (header_values h)) < 2000"
  obtains b where "header_serialize h = Inr b" "length b < 2000"
  using encode_list_ok [of "header_values h"] assms header_raw_values [OF assms(1)]
  by (simp add: header_serialize_def del: enc.simps rlp_weight.simps)

section \<open>An instance\<close>

text \<open>A transaction that pays for its gas, in a block; the hash function gives the empty trie its root.\<close>

definition block_env :: tx_env where
  "block_env = sample_env\<lparr>tv_keccak := (\<lambda>b. if b = [0x80] then KECCAK256_RLP else 0 # take 31 (rev b @ zeros 31))\<rparr>"

definition paying_tx :: tx where
  "paying_tx = signed_tx block_env (sample_tx\<lparr>tx_gasLimit := 30000\<rparr>) 1 5 7"

lemma unsigned_paying_ok: "tx_ok block_env (sample_tx\<lparr>tx_gasLimit := 30000\<rparr>)"
  by (simp add: tx_ok_def core_ok_def sample_tx_def price_ok_def typed_ok_def validateYParity_def validateHighS_def sample_access
      MAX_UINT64_def MAX_INTEGER_BIGINT_def MAX_INT64_def)

lemma paying_constructed: "addSignature block_env (protected_tx (sample_tx\<lparr>tx_gasLimit := 30000\<rparr>)) 1 5 7 True = Inr paying_tx"
  unfolding paying_tx_def by (rule addSignature_signed [OF unsigned_paying_ok]) (simp_all add: block_env_def sample_env_def MAX_INTEGER_BIGINT_def)

lemma paying_new: "\<exists>k i. new_tx block_env k i = Inr paying_tx"
  using paying_constructed unfolding addSignature_def by blast

lemma paying_ok: "tx_ok block_env paying_tx"
  using paying_new new_tx_ok by blast

lemma paying_body:
  obtains b where "tx_serialize block_env paying_tx = Inr b" "b \<noteq> []" "length b < 1001"
proof (rule tx_serialize_ok [OF paying_ok])
  have w: "rlp_weight (num n) \<le> 16" if "n \<in> {0, 1, 9, 2, 30, 30000, 260, 5, 7}" for n using that by (intro weight_num) auto
  show "rlp_weight (RList (unsigned_values (tv_chainId block_env) paying_tx @ signature_values paying_tx)) < 1000"
    using w [of 0] w [of 1] w [of 9] w [of 2] w [of 30] w [of 30000] w [of 260] w [of 5] w [of 7]
    by (simp add: paying_tx_def signed_tx_def sample_tx_def unsigned_values_def signature_values_def opt_num_def to_value_def
        block_env_def sample_env_def is_legacy_def)
qed (simp_all add: block_env_def sample_env_def that)

lemma paying_message: "\<exists>m. message_bytes block_env (protected_tx (sample_tx\<lparr>tx_gasLimit := 30000\<rparr>)) = Inr m"
proof -
  let ?t = "sample_tx\<lparr>tx_gasLimit := 30000\<rparr>"
  have w: "rlp_weight (num n) \<le> 16" if "n \<in> {0, 1, 9, 2, 30, 30000, 260}" for n using that by (intro weight_num) auto
  have "rlp_weight (RList (unsigned_values 1 ?t)) < max_array"
    using w [of 0] w [of 1] w [of 9] w [of 2] w [of 30] w [of 30000] w [of 260]
    by (simp add: sample_tx_def unsigned_values_def to_value_def)
  with encode_list_ok [of "unsigned_values 1 ?t"] tx_raw_values [OF unsigned_paying_ok] show ?thesis
    by (simp add: message_bytes_def message_fields_def protected_tx_def sample_tx_def is_legacy_def block_env_def sample_env_def
        unsigned_values_def del: enc.simps rlp_weight.simps)
qed

lemma paying_sender: "getSenderPublicKey block_env paying_tx = Inr (replicate 64 3)"
proof -
  have b: "word_buf 5 = Inr (zeros 31 @ [5])" "word_buf 7 = Inr (zeros 31 @ [7])" by code_simp+
  have "signs_for block_env (replicate 32 1) (replicate 64 3)"
    unfolding signs_for_def by (auto simp: block_env_def sample_env_def b MAX_INTEGER_BIGINT_def)
  moreover obtain m where "message_bytes block_env (protected_tx (sample_tx\<lparr>tx_gasLimit := 30000\<rparr>)) = Inr m" using paying_message by blast
  moreover have "tv_sign block_env h k = (1, 5, 7)" for h k by (simp add: block_env_def sample_env_def)
  ultimately show ?thesis using tx_sign_recovers [OF unsigned_paying_ok, of "replicate 32 1" "replicate 64 3"]
    by (auto simp: paying_tx_def block_env_def sample_env_def)
qed

lemma intrinsic_params: "tx_param ''txGas'' = 21000" "tx_param ''txDataZeroGas'' = 4" "0 \<le> tx_param ''txDataNonZeroGas''"
  "tx_param ''txDataNonZeroGas'' \<le> 68" "tx_param ''accessListStorageKeyGas'' = 0" "tx_param ''accessListAddressGas'' = 0"
  by (simp_all add: tx_param_def profile_eips_def paramsTx_def paramsTx_tron_def or_else_def)

lemma paying_gas: "getIntrinsicGas paying_tx \<le> 30000"
  using intrinsic_params
  by (simp add: getIntrinsicGas_def getDataGas_def legacyDataGas_def getAccessListDataGas_def toCreationAddress_def paying_tx_def signed_tx_def sample_tx_def)

definition sample_root :: bytes where
  "sample_root = (case genTransactionsTrieRoot block_env [paying_tx] of Inr r \<Rightarrow> r | Inl _ \<Rightarrow> [])"

definition sample_block :: blk where
  "sample_block = \<lparr>blk_header = sample_header\<lparr>bh_transactionsTrie := sample_root, bh_gasLimit := 100000, bh_baseFee := 7\<rparr>, blk_txs = [paying_tx]\<rparr>"

lemma block_hash_length: "length (tv_keccak block_env x) = 32"
  by (simp add: block_env_def KECCAK256_RLP_def del: take_append)

lemma block_hash_sample: "tv_keccak block_env RLP_EMPTY_STRING = KECCAK256_RLP"
  by (simp add: block_env_def RLP_EMPTY_STRING_def)

text \<open>The only trie of one entry is its leaf.\<close>

lemma one_entry_trees:
  assumes "wf_tree 2 t" "within {([a, b], v)} t" "hex_digits [a, b]" "v \<noteq> []"
  shows "t = TLeaf [a, b] v"
proof (rule wf_tree_unique [OF assms(1)])
  show "wf_tree 2 (TLeaf [a, b] v)" using assms(3,4) by simp
  obtain q w where q: "tlookup t q = Some w" using wf_nonempty [OF assms(1)] by blast
  then have t: "tlookup t [a, b] = Some v" using assms(2) by (auto simp: within_def)
  show "tlookup t r = tlookup (TLeaf [a, b] v) r" for r
  proof (cases "tlookup t r")
    case None
    with t show ?thesis by auto
  next
    case (Some w)
    then have "(r, w) \<in> {([a, b], v)}" using assms(2) unfolding within_def by blast
    with Some show ?thesis by simp
  qed
qed

lemma one_entry_trie:
  assumes "x \<noteq> []" "length x < 1001"
  shows "trie_ok (list_trie (tv_keccak block_env)) 2 {([8, 0], x)}"
proof -
  let ?c = "list_trie (tv_keccak block_env)" and ?P = "{([8, 0], x)}"
  let ?z = "blob (hash ?c) (TLeaf [8, 0] x)"
  have "blob (hash ?c) s = ?z" if "wf_tree 2 t" "within ?P t" "s \<in> set (nodes t)" for s t
  proof -
    have "t = TLeaf [8, 0] x" by (rule one_entry_trees [OF that(1,2)]) (simp_all add: hex_digits_def assms(1))
    with that(3) show ?thesis by (simp add: nodes_def)
  qed
  then have "entry_blobs ?c 2 ?P \<subseteq> {[0x80], ?z}" by (auto simp: entry_blobs_def RLP_EMPTY_STRING_def)
  moreover have "inj_on (tv_keccak block_env) {[0x80], ?z}"
    by (auto simp: inj_on_def block_env_def KECCAK256_RLP_def)
  ultimately have "inj_on (hash ?c) (entry_blobs ?c 2 ?P)" by (auto simp: list_trie_def intro: inj_on_subset)
  then show ?thesis using assms(2) block_hash_length by (simp add: trie_ok_def list_trie_def)
qed

lemma sample_block_trie: "trie_ok (list_trie (tv_keccak block_env)) 2 (body_entries block_env sample_block)"
proof -
  obtain x where x: "tx_serialize block_env paying_tx = Inr x" "x \<noteq> []" "length x < 1001" by (rule paying_body)
  have nib: "bytesToNibbles [index_byte 0] = [8, 0]" by code_simp
  have "body_entries block_env sample_block = {([8, 0], x)}"
    using x(1) by (auto simp: body_entries_def sample_block_def nib [unfolded One_nat_def])
  with one_entry_trie [OF x(2,3)] show ?thesis by simp
qed

lemma sample_block_root: "genTransactionsTrieRoot block_env [paying_tx] = Inr sample_root" "length sample_root = 32"
proof -
  obtain x where x: "tx_serialize block_env paying_tx = Inr x" "x \<noteq> []" "length x < 1001" by (rule paying_body)
  have e: "list_entries [x] \<subseteq> body_entries block_env sample_block"
    using x(1) by (auto simp: list_entries_def body_entries_def sample_block_def)
  obtain r y D where r: "list_root (tv_keccak block_env) (map Inr [x]) = Inr r"
    "tree_at (list_trie (tv_keccak block_env)) 2 (body_entries block_env sample_block) D r y"
    by (rule list_root_tree [OF sample_block_trie e]) (use x(2) in auto)
  then have g: "genTransactionsTrieRoot block_env [paying_tx] = Inr r"
    using x(1) by (simp add: genTransactionsTrieRoot_def)
  moreover have "length r = 32" using r(2) block_hash_length
    by (auto simp: tree_at_def EMPTY_TRIE_ROOT_def list_trie_def split: option.splits)
  ultimately show "genTransactionsTrieRoot block_env [paying_tx] = Inr sample_root" "length sample_root = 32"
    by (simp_all add: sample_root_def)
qed

lemma paying_signed: "isSigned paying_tx" "tx_r paying_tx = Some 5" "tx_s paying_tx = Some 7"
  by (simp_all add: isSigned_def paying_tx_def signed_tx_def)

lemma sample_block_valid: "validateData block_env False True sample_block = Inr ()"
proof -
  have key: "unpadBytes (replicate 64 3) \<noteq> []" by code_simp
  have "verifySignature block_env paying_tx" using paying_sender by (simp add: verifySignature_def key)
  moreover have "supports paying_tx 1559" "max_price paying_tx = 30" "tx_gasLimit paying_tx = 30000"
    by (simp_all add: supports_def max_price_def paying_tx_def signed_tx_def sample_tx_def is_legacy_def)
  ultimately have "getTransactionsValidationErrors block_env sample_block = []"
    using paying_gas by (simp add: getTransactionsValidationErrors_def block_tx_errors_def sample_block_def getValidationErrors_def enumerate_eq_zip)
  then show ?thesis using sample_block_root paying_signed(1)
    by (simp add: validateData_def reject_def transactionsTrieIsValid_def uncleHashIsValid_def sample_block_def sample_header_def)
qed

definition sample_block_data :: header_data where
  "sample_block_data = sample_header_data\<lparr>hd_transactionsTrie := Val (RBytes sample_root), hd_gasLimit := Big 100000, hd_baseFee := Big 7\<rparr>"

lemma sample_block_new: "new_header sample_block_data = Inr (blk_header sample_block)"
proof -
  have a: "new_address (zeros 20) = Inr 0" by code_simp
  have g: "genericFormatValidation (blk_header sample_block) = Inr ()"
    using sample_block_root(2) by (simp add: genericFormatValidation_def sample_block_def sample_header_def reject_def KECCAK256_RLP_def)
  have b: "or_bytes Undef x = Inr x" "or_int Undef y = Inr y" "0 \<le> n \<Longrightarrow> or_int (Big n) y = Inr n" for x y n
    by (simp_all add: or_bytes_def or_int_def to_int_Big)
  show ?thesis using g by (simp add: new_header_def sample_block_data_def sample_block_def sample_header_data_def sample_header_def a b)
qed

lemma sample_block_weight: "rlp_weight (RList (header_values (blk_header sample_block))) < 2000"
proof -
  have w: "rlp_weight (num n) \<le> 16" if "n \<in> {0, 1, 100000, 150, 100, 7}" for n using that by (intro weight_num) auto
  show ?thesis using w [of 0] w [of 1] w [of 100000] w [of 150] w [of 100] w [of 7] sample_block_root(2)
    by (simp add: header_values_def sample_block_def sample_header_def KECCAK256_RLP_def KECCAK256_RLP_ARRAY_def)
qed

lemma sample_block_bytes: "\<exists>bs. block_serialize block_env sample_block = Inr bs \<and> length bs < max_array"
proof -
  obtain x where x: "tx_serialize block_env paying_tx = Inr x" "x \<noteq> []" "length x < 1001" by (rule paying_body)
  let ?vs = "[RList (header_values (blk_header sample_block)), RList [RBytes x], RList []]"
  have b: "block_raw block_env sample_block = Inr ?vs"
    using header_raw_values [OF new_header_ok [OF sample_block_new]] x(1) typed_supports [OF paying_ok]
    by (simp add: block_raw_def body_tx_def sample_block_def paying_tx_def signed_tx_def sample_tx_def is_legacy_def)
  have "rlp_weight (RList ?vs) < 10000" using sample_block_weight x(3) by simp
  with encode_list_ok [of ?vs] b show ?thesis by (simp add: block_serialize_def del: enc.simps rlp_weight.simps)
qed

theorem block_roundtrip_witness:
  "\<exists>bs. block_serialize block_env sample_block = Inr bs \<and> createBlockFromRLP block_env bs = Inr sample_block"
proof -
  obtain bs where bs: "block_serialize block_env sample_block = Inr bs" "length bs < max_array" using sample_block_bytes by blast
  have t: "blk_txs sample_block = [paying_tx]" by (simp add: sample_block_def)
  have "createBlockFromRLP block_env bs = Inr (sample_block\<lparr>blk_txs := map reread (blk_txs sample_block)\<rparr>)"
    by (rule block_roundtrip [OF sample_block_new _ _ bs])
      (use paying_new in \<open>simp_all add: t halves_ok_def paying_signed block_env_def sample_env_def\<close>)
  moreover have "sample_block\<lparr>blk_txs := map reread (blk_txs sample_block)\<rparr> = sample_block"
    using paying_signed(1) by (simp add: sample_block_def reread_signed)
  ultimately show ?thesis using bs(1) by metis
qed

theorem block_hash_commits_witness:
  "\<exists>b. validateData block_env False True b = Inr () \<and> block_hash (tv_keccak block_env) b = block_hash (tv_keccak block_env) sample_block \<and> b = sample_block"
proof -
  obtain x where x: "header_serialize (blk_header sample_block) = Inr x" "length x < 2000"
    by (rule header_serialize_ok [OF new_header_ok [OF sample_block_new] sample_block_weight])
  have t: "blk_txs sample_block = [paying_tx]" "0 \<le> tv_chainId block_env" by (simp_all add: sample_block_def block_env_def sample_env_def)
  have "sample_block = sample_block"
    by (rule block_hash_commits [OF sample_block_new sample_block_new _ t(2) sample_block_valid sample_block_valid _ _ block_hash_sample _ x(1) x(1) _ _ refl])
      (use paying_new sample_block_trie x(2) in \<open>simp_all add: t\<close>)
  with sample_block_valid show ?thesis by blast
qed

end
