(* ===== verification/RunBlock.thy ===== *)
theory RunBlock
  imports BlockProps
begin

text \<open>
  Execution of a block, \<^verbatim>\<open>packages/vm/src/runBlock.ts\<close>: the validation, the transactions in order with
  their receipts, and the comparison with the header, inside a checkpoint. The profile has neither
  withdrawals, requests, a history contract nor rewards. The root of the state and the validation of
  the header by the blockchain are parameters; the simple state manager has no root, so that its
  \<^verbatim>\<open>getStateRoot\<close> throws. With \<^verbatim>\<open>generate\<close> the results are filled into the header instead. Setting a root before
  the block, reports of preimages, events, the profiler and debug output are left out.
\<close>

section \<open>Options and results\<close>

record run_block_opts =
  bo_block :: blk
  bo_env :: tx_env
  bo_rootTransactionIds :: "bytes option list"
  bo_requireExplicit :: bool
  bo_skipBlockValidation :: bool
  bo_skipHeaderValidation :: bool
  bo_generate :: bool
  bo_skipBalance :: bool
  bo_skipNonce :: bool
  bo_validateHeader :: "(block_header \<Rightarrow> exn + unit) option"
  bo_stateRoot :: "world \<Rightarrow> exn + bytes"

text \<open>What the loop over the transactions collects.\<close>

record block_acc =
  ba_bloom :: bytes
  ba_gasUsed :: int
  ba_receiptGasUsed :: int
  ba_trie :: "unit trie"
  ba_results :: "tx_result list"

text \<open>The last field is the block of the \<^verbatim>\<open>afterBlock\<close> event.\<close>

record block_result =
  bx_results :: "tx_result list"
  bx_logsBloom :: bytes
  bx_gasUsed :: int
  bx_receiptsRoot :: bytes
  bx_stateRoot :: bytes
  bx_block :: blk

text \<open>\<^verbatim>\<open>getStateRoot\<close> of the simple state manager.\<close>

definition simple_getStateRoot :: "world \<Rightarrow> exn + bytes" where
  "simple_getStateRoot w = Inl (HostError ''Method not implemented.'')"

section \<open>Receipts\<close>

definition tx_type :: "tx \<Rightarrow> nat" where
  "tx_type t = (case tx_body t of LegacyTx _ \<Rightarrow> 0 | AccessList2930Tx _ _ \<Rightarrow> 1 | FeeMarket1559Tx _ _ _ \<Rightarrow> 2)"

definition log_input :: "log \<Rightarrow> rlp_input" where
  "log_input l = (case l of (a, topics, d) \<Rightarrow> IArr [IBytes (addr_bytes a), IArr (map IBytes topics), IBytes d])"

definition encodeReceipt :: "tx_receipt \<Rightarrow> nat \<Rightarrow> exn + bytes" where
  "encodeReceipt r txType =
     then_sum (bigIntToBytes (rc_cumulativeBlockGasUsed r)) (\<lambda>gas.
     map_sum id (\<lambda>encoded. if txType = 0 then encoded else word_of_nat txType # encoded)
       (rlp_encode (IArr [IBytes (if rc_status r = 0 then [] else [1]), IBytes gas, IBytes (rc_bitvector r),
          IArr (map log_input (rc_logs r))])))"

definition put_receipt :: "trie_opts \<Rightarrow> nat \<Rightarrow> tx_receipt \<Rightarrow> nat \<Rightarrow> unit trie \<Rightarrow> exn + unit trie" where
  "put_receipt c i r txType t =
     (case put_values c i [encodeReceipt r txType] t of (Inl e, t') \<Rightarrow> Inl e | (Inr _, t') \<Rightarrow> Inr t')"

section \<open>Transactions\<close>

text \<open>The header as the context of a message.\<close>

definition block_context :: "block_header \<Rightarrow> block" where
  "block_context h = \<lparr>number = bh_number h, coinbase = bh_coinbase h, timestamp = bh_timestamp h,
     block_gasLimit = bh_gasLimit h, baseFeePerGas = Some (bh_baseFee h)\<rparr>"

definition block_tx_opts :: "run_block_opts \<Rightarrow> nat \<Rightarrow> tx \<Rightarrow> int \<Rightarrow> run_tx_opts" where
  "block_tx_opts B i t receiptGasUsed =
     \<lparr>ro_tx = t, ro_env = bo_env B, ro_block = Some (block_context (blk_header (bo_block B))),
      ro_headerGasUsed = bh_gasUsed (blk_header (bo_block B)), ro_blockGasUsed = Some receiptGasUsed,
      ro_skipBalance = bo_skipBalance B, ro_skipNonce = bo_skipNonce B, ro_skipBlockGasLimit = False,
      ro_reportAccessList = False, ro_reportPreimages = False,
      ro_rootTransactionId = (if i < length (bo_rootTransactionIds B) then bo_rootTransactionIds B ! i else None),
      ro_requireExplicit = bo_requireExplicit B\<rparr>"

definition add_result :: "tx_result \<Rightarrow> unit trie \<Rightarrow> block_acc \<Rightarrow> block_acc" where
  "add_result x trie acc =
     \<lparr>ba_bloom = bloom_or (ba_bloom acc) (rt_bloom x), ba_gasUsed = ba_gasUsed acc + rt_blockGasSpent x,
      ba_receiptGasUsed = ba_receiptGasUsed acc + rt_totalGasSpent x, ba_trie = trie, ba_results = ba_results acc @ [x]\<rparr>"

fun apply_txs :: "host \<Rightarrow> run_block_opts \<Rightarrow> nat \<Rightarrow> tx list \<Rightarrow> block_acc \<Rightarrow> (world, block_acc) op" where
  "apply_txs H B i [] acc = ret acc"
| "apply_txs H B i (t # ts) acc =
     sq (demand (\<not> bh_gasLimit (blk_header (bo_block B)) < tx_gasLimit t + ba_gasUsed acc) ''tx has a higher gas limit than the block'')
     (bnd (runTx H (block_tx_opts B i t (ba_receiptGasUsed acc))) (\<lambda>x.
      bnd (lift_sum (put_receipt (list_trie (h_keccak H)) i (rt_receipt x) (tx_type t) (ba_trie acc))) (\<lambda>trie.
      apply_txs H B (Suc i) ts (add_result x trie acc))))"

definition applyTransactions :: "host \<Rightarrow> run_block_opts \<Rightarrow> (world, block_acc) op" where
  "applyTransactions H B = apply_txs H B 0 (blk_txs (bo_block B))
     \<lparr>ba_bloom = zeros BYTE_SIZE, ba_gasUsed = 0, ba_receiptGasUsed = 0,
      ba_trie = new_trie (list_trie (h_keccak H)) None, ba_results = []\<rparr>"

definition receiptsRoot :: "run_block_opts \<Rightarrow> block_acc \<Rightarrow> bytes" where
  "receiptsRoot B acc = (if blk_txs (bo_block B) = [] then KECCAK256_RLP else t_root (ba_trie acc))"

section \<open>Blocks\<close>

definition validate_block :: "run_block_opts \<Rightarrow> exn + unit" where
  "validate_block B =
     (if bo_skipBlockValidation B then Inr ()
      else reject (bh_gasLimit (blk_header (bo_block B)) \<ge> 0x8000000000000000) ''Invalid block with gas limit greater than (2^63 - 1)''
        (then_sum
          (if bo_skipHeaderValidation B then Inr ()
           else case bo_validateHeader B of Some f \<Rightarrow> f (blk_header (bo_block B))
             | None \<Rightarrow> Inl (HostError ''cannot validate header: blockchain has no validateHeader method''))
          (\<lambda>_. validateData (bo_env B) False True (bo_block B))))"

definition applyBlock :: "host \<Rightarrow> run_block_opts \<Rightarrow> (world, block_acc) op" where
  "applyBlock H B = bnd (lift_sum (validate_block B)) (\<lambda>_. applyTransactions H B)"

text \<open>The results against the header.\<close>

definition check_header :: "run_block_opts \<Rightarrow> block_acc \<Rightarrow> bytes \<Rightarrow> exn + unit" where
  "check_header B acc stateRoot =
     (let h = blk_header (bo_block B)
      in reject (\<not> equalsBytes (receiptsRoot B acc) (bh_receiptTrie h)) ''invalid receiptTrie''
        (reject (\<not> equalsBytes (ba_bloom acc) (bh_logsBloom h)) ''invalid bloom''
        (reject (ba_gasUsed acc \<noteq> bh_gasUsed h) ''invalid gasUsed''
        (reject (\<not> equalsBytes stateRoot (bh_stateRoot h)) ''invalid block stateRoot'' (Inr ())))))"

text \<open>
  The results filled into the header: \<^verbatim>\<open>createBlock\<close> is given the fields of the block, its header with the
  results in it and its transactions as objects, whose fields are read again.
\<close>

definition header_object :: "block_header \<Rightarrow> header_data" where
  "header_object h =
     \<lparr>hd_parentHash = Val (RBytes (bh_parentHash h)), hd_uncleHash = Val (RBytes (bh_uncleHash h)),
      hd_coinbase = Val (RBytes (addr_bytes (bh_coinbase h))), hd_stateRoot = Val (RBytes (bh_stateRoot h)),
      hd_transactionsTrie = Val (RBytes (bh_transactionsTrie h)), hd_receiptTrie = Val (RBytes (bh_receiptTrie h)),
      hd_logsBloom = Val (RBytes (bh_logsBloom h)), hd_difficulty = Big (bh_difficulty h), hd_number = Big (bh_number h),
      hd_gasLimit = Big (bh_gasLimit h), hd_gasUsed = Big (bh_gasUsed h), hd_timestamp = Big (bh_timestamp h),
      hd_extraData = Val (RBytes (bh_extraData h)), hd_mixHash = Val (RBytes (bh_mixHash h)), hd_nonce = Val (RBytes (bh_nonce h)),
      hd_baseFee = Big (bh_baseFee h), hd_withdrawalsRoot = Undef, hd_requestsHash = Undef, hd_blockAccessListHash = Undef,
      hd_slotNumber = Undef\<rparr>"

definition opt_val :: "int option \<Rightarrow> txval" where
  "opt_val v = (case v of None \<Rightarrow> Undef | Some n \<Rightarrow> Big n)"

definition tx_object :: "tx_env \<Rightarrow> tx \<Rightarrow> tx_body \<times> tx_input" where
  "tx_object E t =
     (let base = no_input\<lparr>d_nonce := Big (tx_nonce t), d_gasLimit := Big (tx_gasLimit t), d_to := addr_val (tx_to t),
            d_value := Big (tx_value t), d_tokenId := Big (tx_tokenId t), d_tokenValue := Big (tx_tokenValue t),
            d_data := Val (RBytes (tx_data t)), d_v := opt_val (tx_v t), d_r := opt_val (tx_r t), d_s := opt_val (tx_s t)\<rparr>
      in (tx_body t, case tx_body t of
           LegacyTx gasPrice \<Rightarrow> base\<lparr>d_gasPrice := Big gasPrice\<rparr>
         | AccessList2930Tx gasPrice al \<Rightarrow> base\<lparr>d_chainId := Big (tv_chainId E), d_gasPrice := Big gasPrice, d_accessList := Some al\<rparr>
         | FeeMarket1559Tx maxPriority maxFee al \<Rightarrow>
             base\<lparr>d_chainId := Big (tv_chainId E), d_maxPriorityFeePerGas := Big maxPriority, d_maxFeePerGas := Big maxFee,
                  d_accessList := Some al\<rparr>))"

definition genTxTrie :: "tx_env \<Rightarrow> blk \<Rightarrow> exn + bytes" where
  "genTxTrie E b = (if blk_txs b = [] then Inr KECCAK256_RLP else genTransactionsTrieRoot E (blk_txs b))"

definition generate_block :: "run_block_opts \<Rightarrow> block_acc \<Rightarrow> bytes \<Rightarrow> exn + blk" where
  "generate_block B acc stateRoot =
     then_sum (genTxTrie (bo_env B) (bo_block B)) (\<lambda>transactionsTrie.
     createBlock (bo_env B)
       ((header_object (blk_header (bo_block B)))\<lparr>hd_stateRoot := Val (RBytes stateRoot), hd_logsBloom := Val (RBytes (ba_bloom acc)),
          hd_gasUsed := Big (ba_gasUsed acc), hd_receiptTrie := Val (RBytes (receiptsRoot B acc)),
          hd_transactionsTrie := Val (RBytes transactionsTrie)\<rparr>)
       (map (tx_object (bo_env B)) (blk_txs (bo_block B))) [] False)"

definition run_block_steps :: "host \<Rightarrow> run_block_opts \<Rightarrow> (world, block_result) op" where
  "run_block_steps H B =
     bnd (applyBlock H B) (\<lambda>acc.
     bnd (bnd (gets (bo_stateRoot B)) lift_sum) (\<lambda>stateRoot.
     bnd (lift_sum (if bo_generate B then generate_block B acc stateRoot
       else then_sum (check_header B acc stateRoot) (\<lambda>_. Inr (bo_block B)))) (\<lambda>block.
     ret \<lparr>bx_results = ba_results acc, bx_logsBloom = ba_bloom acc, bx_gasUsed = ba_gasUsed acc,
          bx_receiptsRoot = receiptsRoot B acc, bx_stateRoot = stateRoot, bx_block = block\<rparr>)))"

text \<open>A failure before the commit reverts the block.\<close>

definition runBlock :: "host \<Rightarrow> run_block_opts \<Rightarrow> (world, block_result) op" where
  "runBlock H B =
     sq journal_checkpoint
     (bnd (on_throw (run_block_steps H B) journal_revert) (\<lambda>x.
      sq journal_commit (ret x)))"

end
