(* ===== verification/RunBlockProps.thy ===== *)
theory RunBlockProps
  imports RunBlock
begin

text \<open>
  Blocks are executed as a whole or not at all: their transactions run one after the other on a world that
  every one of them leaves ready, a block that is refused leaves no trace, and one that is executed keeps
  the supplies, the limits and the values its header promises.
\<close>

section \<open>Between transactions\<close>

text \<open>
  The world is ready up to the bookkeeping of the journal, which every transaction starts and ends by
  cleaning; the level of a block's own checkpoint is lost by that.
\<close>

definition block_ready :: "sm_view list \<Rightarrow> world \<Rightarrow> bool" where
  "block_ready Ss w \<longleftrightarrow> ready_on Ss (mod_jr cleanJournal w)"

lemma clean_public: "public (mod_jr cleanJournal w) = public w"
  using public_sm [of "mod_jr cleanJournal w" "parts (w_jr w)"] public_sm [of w "parts (w_jr w)"] by (simp add: mod_jr_def)

lemma clean_supply: "supply_of (mod_jr cleanJournal w) = supply_of w"
  by (rule ext) (simp only: supply_of_def clean_public)

lemma rest_clean:
  assumes "at_rest Ss w"
  shows "at_rest Ss (mod_jr cleanJournal w)"
proof -
  have "preimages (w_jr w) = None" using assms by (simp add: at_rest_def world_inv_def journal_inv_def)
  from at_rest_journal(1) [OF assms clean_journal_ok(1) [OF this] clean_journal_ok(2)] show ?thesis by (simp add: mod_jr_def)
qed

lemma ready_clean: "ready_on Ss w \<Longrightarrow> block_ready Ss w"
  using rest_clean by (simp add: block_ready_def ready_on_def rest_ok_def clean_public clean_supply)

lemma block_ready_parts:
  "block_ready Ss w \<longleftrightarrow> at_rest Ss (mod_jr cleanJournal w) \<and> pub_ok (supply_of w) (public w) \<and> caps_ok (supply_of w)"
  by (simp add: block_ready_def ready_on_def rest_ok_def clean_public clean_supply)

text \<open>A transaction starts by cleaning the journal, or is refused before that.\<close>

lemma runTx_clean:
  "(\<exists>e. \<forall>u. runTx H R u = (Inl e, u)) \<or> runTx H R w = runTx H R (mod_jr cleanJournal w)"
proof -
  have c: "mod_jr cleanup (mod_jr cleanJournal w) = mod_jr cleanup w"
    by (simp add: mod_jr_def cleanup_def cleanJournal_def)
  have m: "sq (modify (mod_jr cleanup)) n (mod_jr cleanJournal w) = sq (modify (mod_jr cleanup)) n w" for n :: "(world, 'x) op"
    by (simp add: sq_def bnd_def c)
  show ?thesis unfolding runTx_def Let_def lift_run demand_run m
    by (cases "root_id R") (simp_all only: sum.case split: if_split, blast+)
qed

lemma runTx_unclean: "runTx H R (mod_jr cleanJournal w) = (Inr x, w') \<Longrightarrow> runTx H R w = (Inr x, w')"
  using runTx_clean [of H R w] by force

lemma runTx_block_ended:
  assumes "host_ok H" "tx_input_ok R" "tx_ok (ro_env R) (ro_tx R)" "reportable R" "block_ready Ss w"
  shows "case runTx H R w of (r, w') \<Rightarrow> block_ready Ss w' \<and> (\<forall>k. supply_of w' k \<le> supply_of w k) \<and>
    (case r of Inl e \<Rightarrow> public w' = public w | Inr x \<Rightarrow> tx_outcome R (public w) x (public w'))"
proof (cases "\<exists>e. runTx H R w = (Inl e, w)")
  case True
  then show ?thesis using assms(5) by auto
next
  case False
  let ?w = "mod_jr cleanJournal w"
  obtain r w' where r: "runTx H R w = (r, w')" by fastforce
  have eq: "runTx H R ?w = (r, w')" using False r runTx_clean [of H R w] by metis
  note e0 = runTx_ended [OF assms(1-3) assms(5) [unfolded block_ready_def], unfolded eq prod.case clean_public clean_supply]
  have e: "(case r of Inl e \<Rightarrow> public w' = public w | Inr x \<Rightarrow> tx_outcome R (public w) x (public w'))"
    "pub_ok (supply_of w) (public w')" "ready_on Ss w'"
    using e0 assms(4) by blast+
  moreover have "supply_of w' k \<le> supply_of w k" for k using e(2) by (simp add: pub_ok_def supply_of_def)
  ultimately show ?thesis using r ready_clean by simp
qed

section \<open>Results\<close>

definition returns :: "('a \<Rightarrow> bool) \<Rightarrow> (world, 'a) op \<Rightarrow> bool" where
  "returns P m \<longleftrightarrow> (\<forall>w x w'. m w = (Inr x, w') \<longrightarrow> P x)"

lemma returns_bnd: "(\<And>x. returns P (f x)) \<Longrightarrow> returns P (bnd m f)"
  by (force simp: returns_def bnd_def split: prod.splits sum.splits)

lemma returns_lift: "(\<And>x. r = Inr x \<Longrightarrow> returns P (f x)) \<Longrightarrow> returns P (bnd (lift_sum r) f)"
  by (cases r) (auto simp: returns_def lift_run)

lemma returns_sq: "returns P n \<Longrightarrow> returns P (sq m n)"
  unfolding sq_def by (rule returns_bnd)

lemma returns_ret: "P x \<Longrightarrow> returns P (ret x)"
  by (simp add: returns_def)

lemma returns_keep: "returns P m \<Longrightarrow> returns P (bnd m (\<lambda>x. sq n (ret x)))"
  by (force simp: returns_def bnd_def sq_def split: prod.splits sum.splits)

lemma returns_on_throw: "returns P m \<Longrightarrow> returns P (on_throw m n)"
  by (fastforce simp: returns_def on_throw_def sq_def bnd_def throw_def split: prod.splits sum.splits)

lemma returns_finally: "returns P m \<Longrightarrow> returns P (finally_clean m)"
  by (force simp: returns_def finally_clean_def split: prod.splits)

text \<open>The receipt of a transaction agrees with its result.\<close>

definition receipt_ok :: "host \<Rightarrow> run_tx_opts \<Rightarrow> tx_result \<Rightarrow> bool" where
  "receipt_ok H R x \<longleftrightarrow> rt_blockGasSpent x = rt_totalGasSpent x \<and>
     txLogsBloom (h_keccak H) (x_logs (execResult (rt_result x))) = Inr (rt_bloom x) \<and>
     rt_receipt x = generateTxReceipt (rt_result x) (rt_bloom x)
       ((case ro_blockGasUsed R of Some g \<Rightarrow> g | None \<Rightarrow> ro_headerGasUsed R) + rt_totalGasSpent x)"

lemma settle_returns: "returns (receipt_ok H R) (settle_tx H R caller gasPrice inclusionFee r)"
  unfolding settle_tx_def Let_def
  by (rule returns_bnd, rule returns_sq, rule returns_sq, rule returns_sq, rule returns_lift, rule returns_bnd, rule returns_ret)
    (simp add: receipt_ok_def)

lemma runTx_returns: "returns (receipt_ok H R) (runTx H R)"
  unfolding runTx_def run_tx_inner_def Let_def
  by (intro returns_bnd returns_sq returns_finally returns_on_throw returns_keep)
    (auto simp: run_tx_steps_def Let_def intro!: returns_bnd returns_sq settle_returns)

section \<open>The loop\<close>

text \<open>The hypotheses on a block and its transactions.\<close>

definition block_input_ok :: "host \<Rightarrow> run_block_opts \<Rightarrow> bool" where
  "block_input_ok H B \<longleftrightarrow> host_ok H \<and> \<not> bo_skipBalance B \<and> block_ok (block_context (blk_header (bo_block B))) \<and>
     (\<forall>t \<in> set (blk_txs (bo_block B)). (\<exists>k d. new_tx (bo_env B) k d = Inr t) \<and> bytes_ok (tx_data t))"

text \<open>The transactions that were executed, in order, from the gas used before them.\<close>

inductive block_run :: "host \<Rightarrow> run_block_opts \<Rightarrow> nat \<Rightarrow> tx list \<Rightarrow> block_acc \<Rightarrow> pub \<Rightarrow> tx_result list \<Rightarrow> block_acc \<Rightarrow> pub \<Rightarrow> bool"
  for H B where
  empty: "block_run H B i [] acc p [] acc p"
| step: "tx_outcome (block_tx_opts B i t (ba_receiptGasUsed acc)) p x p' \<Longrightarrow> receipt_ok H (block_tx_opts B i t (ba_receiptGasUsed acc)) x \<Longrightarrow>
    tx_gasLimit t + ba_gasUsed acc \<le> bh_gasLimit (blk_header (bo_block B)) \<Longrightarrow>
    block_run H B (Suc i) ts (add_result x trie acc) p' xs acc' p'' \<Longrightarrow> block_run H B i (t # ts) acc p (x # xs) acc' p''"

lemma block_tx_input:
  assumes "block_input_ok H B" "t \<in> set (blk_txs (bo_block B))"
  shows "tx_input_ok (block_tx_opts B i t g)" "tx_ok (ro_env (block_tx_opts B i t g)) (ro_tx (block_tx_opts B i t g))"
    "reportable (block_tx_opts B i t g)" "header_baseFee (block_tx_opts B i t g) = bh_baseFee (blk_header (bo_block B))"
  using assms new_tx_ok by (auto simp: block_input_ok_def tx_input_ok_def block_tx_opts_def reportable_def header_baseFee_def header_def or_else_def block_context_def)

lemma apply_txs_ended:
  assumes "block_input_ok H B" "set ts \<subseteq> set (blk_txs (bo_block B))" "block_ready Ss w"
  shows "case apply_txs H B i ts acc w of (r, w') \<Rightarrow> block_ready Ss w' \<and> (\<forall>k. supply_of w' k \<le> supply_of w k) \<and>
    (case r of Inl e \<Rightarrow> True | Inr acc' \<Rightarrow> \<exists>xs. block_run H B i ts acc (public w) xs acc' (public w'))"
  using assms(2,3)
proof (induction ts arbitrary: i acc w)
  case Nil
  then show ?case by (auto intro: block_run.empty)
next
  case (Cons t ts)
  let ?R = "block_tx_opts B i t (ba_receiptGasUsed acc)"
  have H: "host_ok H" using assms(1) by (simp add: block_input_ok_def)
  have t: "t \<in> set (blk_txs (bo_block B))" "set ts \<subseteq> set (blk_txs (bo_block B))" using Cons.prems(1) by simp_all
  show ?case
  proof (cases "bh_gasLimit (blk_header (bo_block B)) < tx_gasLimit t + ba_gasUsed acc")
    case True
    then show ?thesis using Cons.prems(2) by (simp add: demand_run)
  next
    case False
    obtain r w1 where r: "runTx H ?R w = (r, w1)" by fastforce
    note e = runTx_block_ended [OF H block_tx_input(1,2,3) [OF assms(1) t(1), of i "ba_receiptGasUsed acc"] Cons.prems(2), unfolded r prod.case]
    show ?thesis
    proof (cases r)
      case (Inl x)
      with False e r show ?thesis by (simp add: demand_run bnd_def)
    next
      case (Inr x)
      have rok: "receipt_ok H ?R x" using runTx_returns [of H ?R, unfolded returns_def] r Inr by blast
      let ?put = "put_receipt (list_trie (h_keccak H)) i (rt_receipt x) (tx_type t) (ba_trie acc)"
      show ?thesis
      proof (cases ?put)
        case (Inl y)
        with False e r Inr show ?thesis by (simp add: demand_run bnd_def lift_sum_def)
      next
        case put: (Inr trie)
        obtain q w2 where q: "apply_txs H B (Suc i) ts (add_result x trie acc) w1 = (q, w2)" by fastforce
        have run: "apply_txs H B i (t # ts) acc w = (q, w2)" using False r Inr put q by (simp add: demand_run bnd_def lift_sum_def)
        have ih: "block_ready Ss w2" "\<forall>k. supply_of w2 k \<le> supply_of w1 k"
          "case q of Inl e \<Rightarrow> True | Inr acc' \<Rightarrow> \<exists>xs. block_run H B (Suc i) ts (add_result x trie acc) (public w1) xs acc' (public w2)"
          using Cons.IH [OF t(2), of w1 "Suc i" "add_result x trie acc"] e unfolding q by blast+
        have "supply_of w2 k \<le> supply_of w k" for k using ih(2) e order_trans by blast
        moreover have "\<exists>xs. block_run H B i (t # ts) acc (public w) xs acc' (public w2)" if q': "q = Inr acc'" for acc'
        proof -
          obtain xs where "block_run H B (Suc i) ts (add_result x trie acc) (public w1) xs acc' (public w2)" using ih(3) q' by auto
          with e rok False Inr show ?thesis by (auto intro!: exI [of _ "x # xs"] block_run.step)
        qed
        ultimately show ?thesis unfolding run using ih(1) by (auto split: sum.split)
      qed
    qed
  qed
qed

section \<open>The checkpoint of a block\<close>

lemma block_checkpoint:
  assumes "block_ready Ss w"
  obtains w' where "journal_checkpoint w = (Inr (), w')" "block_ready (sm_view (w_sm w) # Ss) w'" "public w' = public w"
proof -
  have r: "at_rest Ss (mod_jr cleanJournal w)" using assms by (simp add: block_ready_parts)
  have i: "sm_inv (w_sm w)" "sm_saved (w_sm w) = Ss" "transient_inv (w_ts w)" "indices (w_ts w) \<noteq> []" "last (indices (w_ts w)) = 0"
    "preimages (w_jr w) = None" "open_frames (mod_jr cleanJournal w) = 0"
    using r by (simp_all add: at_rest_def world_inv_def mod_jr_def journal_inv_def cleanJournal_def)
  let ?w = "w\<lparr>w_jr := jr_checkpoint (w_jr w), w_sm := checkpointSync (w_sm w)\<rparr>"
  have "journal_checkpoint w = (Inr (), ?w)" by (simp add: world_defs)
  moreover have s: "sm_inv (checkpointSync (w_sm w))" "sm_view (checkpointSync (w_sm w)) = sm_view (w_sm w)"
    "sm_saved (checkpointSync (w_sm w)) = sm_view (w_sm w) # Ss"
    using sm.checkpoint_law [OF i(1)] i(2) by auto
  moreover have p: "public ?w = public w" by (simp add: public_sm [where J = "parts (w_jr w)"] s)
  moreover have "at_rest (sm_view (w_sm w) # Ss) (mod_jr cleanJournal ?w)"
    using i s clean_journal_ok(1,2) [of "jr_checkpoint (w_jr w)"]
    by (simp add: at_rest_def world_inv_def mod_jr_def open_frames_def jr_checkpoint_def)
  moreover have "supply_of ?w = supply_of w" by (rule ext) (simp only: supply_of_def p)
  ultimately show thesis using that [of ?w] assms by (simp add: block_ready_parts)
qed

lemma block_commit:
  assumes "block_ready (v # Ss) w"
  obtains w' where "journal_commit w = (Inr (), w')" "block_ready Ss w'" "public w' = public w"
proof -
  have r: "at_rest (v # Ss) (mod_jr cleanJournal w)" using assms by (simp add: block_ready_parts)
  have i: "sm_inv (w_sm w)" "sm_saved (w_sm w) = v # Ss" "transient_inv (w_ts w)" "indices (w_ts w) \<noteq> []" "last (indices (w_ts w)) = 0"
    "preimages (w_jr w) = None" "open_frames (mod_jr cleanJournal w) = 0"
    using r by (simp_all add: at_rest_def world_inv_def mod_jr_def journal_inv_def cleanJournal_def)
  let ?w = "w\<lparr>w_sm := sm_commit (w_sm w), w_jr := jr_commit (w_jr w)\<rparr>"
  note s = sm.commit_law [OF i(1,2)]
  have "journal_commit w = (Inr (), ?w)" by (simp add: world_defs)
  moreover have p: "public ?w = public w" using s by (auto simp: public_sm [where J = "parts (w_jr w)"])
  moreover have "at_rest Ss (mod_jr cleanJournal ?w)"
    using i s clean_journal_ok(1,2) [of "jr_commit (w_jr w)"]
    by (auto simp: at_rest_def world_inv_def mod_jr_def open_frames_def jr_commit_def)
  moreover have "supply_of ?w = supply_of w" by (rule ext) (simp only: supply_of_def p)
  ultimately show thesis using that [of ?w] assms by (simp add: block_ready_parts)
qed

lemma block_undo:
  assumes "block_ready (v # Ss) w"
  obtains w' where "journal_revert w = (Inr (), w')" "at_rest Ss (mod_jr cleanJournal w')" "sm_view (w_sm w') = v" "w_ts w' = w_ts w"
proof -
  have r: "at_rest (v # Ss) (mod_jr cleanJournal w)" using assms by (simp add: block_ready_parts)
  have i: "sm_inv (w_sm w)" "sm_saved (w_sm w) = v # Ss" "transient_inv (w_ts w)" "indices (w_ts w) \<noteq> []" "last (indices (w_ts w)) = 0"
    "preimages (w_jr w) = None" "open_frames (mod_jr cleanJournal w) = 0"
    using r by (simp_all add: at_rest_def world_inv_def mod_jr_def journal_inv_def cleanJournal_def)
  let ?w = "w\<lparr>w_sm := sm_revert (w_sm w), w_jr := jr_revert (w_jr w)\<rparr>"
  note s = sm.revert_law [OF i(1,2)]
  have "journal_revert w = (Inr (), ?w)" by (simp add: world_defs)
  moreover have pre: "preimages (jr_revert (w_jr w)) = None" using i(6) by (simp add: jr_revert_def split: prod.splits)
  moreover have "at_rest Ss (mod_jr cleanJournal ?w)"
    using i s clean_journal_ok(1) [OF pre] clean_journal_ok(2)
    by (auto simp: at_rest_def world_inv_def mod_jr_def open_frames_def)
  ultimately show thesis using that [of ?w] s by simp
qed

section \<open>The whole block\<close>

text \<open>What an executed block leaves.\<close>

definition block_outcome :: "host \<Rightarrow> run_block_opts \<Rightarrow> world \<Rightarrow> block_result \<Rightarrow> world \<Rightarrow> bool" where
  "block_outcome H B w x w' \<longleftrightarrow> (\<exists>acc w1.
     block_run H B 0 (blk_txs (bo_block B)) \<lparr>ba_bloom = zeros BYTE_SIZE, ba_gasUsed = 0, ba_receiptGasUsed = 0,
       ba_trie = new_trie (list_trie (h_keccak H)) None, ba_results = []\<rparr> (public w) (bx_results x) acc (public w') \<and>
     public w' = public w1 \<and> bo_stateRoot B w1 = Inr (bx_stateRoot x) \<and>
     (if bo_generate B then generate_block B acc (bx_stateRoot x) = Inr (bx_block x)
      else check_header B acc (bx_stateRoot x) = Inr () \<and> bx_block x = bo_block B) \<and>
     bx_logsBloom x = ba_bloom acc \<and> bx_gasUsed x = ba_gasUsed acc \<and> bx_receiptsRoot x = receiptsRoot B acc)"

lemma block_run_results: "block_run H B i ts acc p xs acc' p' \<Longrightarrow> ba_results acc' = ba_results acc @ xs"
  by (induction rule: block_run.induct) (simp_all add: add_result_def)

lemma run_block_steps_ended:
  assumes "block_input_ok H B" "block_ready Ss w"
  shows "case run_block_steps H B w of (r, w') \<Rightarrow> block_ready Ss w' \<and> (\<forall>k. supply_of w' k \<le> supply_of w k) \<and>
    (case r of Inl e \<Rightarrow> True | Inr x \<Rightarrow> block_outcome H B w x w')"
proof (cases "validate_block B")
  case (Inl e)
  then show ?thesis using assms(2) by (simp add: run_block_steps_def applyBlock_def lift_run) (simp add: bnd_def lift_sum_def)
next
  case (Inr u)
  obtain r w1 where r: "applyTransactions H B w = (r, w1)" by fastforce
  have app: "applyBlock H B w = (r, w1)" using Inr r by (simp add: applyBlock_def lift_run)
  note e = apply_txs_ended [OF assms(1) subset_refl assms(2), of 0 "\<lparr>ba_bloom = zeros BYTE_SIZE, ba_gasUsed = 0, ba_receiptGasUsed = 0,
       ba_trie = new_trie (list_trie (h_keccak H)) None, ba_results = []\<rparr>", folded applyTransactions_def, unfolded r prod.case]
  show ?thesis
  proof (cases r)
    case (Inl x)
    with app e show ?thesis by (simp add: run_block_steps_def bnd_def)
  next
    case (Inr acc)
    obtain xs where xs: "block_run H B 0 (blk_txs (bo_block B)) \<lparr>ba_bloom = zeros BYTE_SIZE, ba_gasUsed = 0, ba_receiptGasUsed = 0,
       ba_trie = new_trie (list_trie (h_keccak H)) None, ba_results = []\<rparr> (public w) xs acc (public w1)" using e Inr by auto
    have res: "ba_results acc = xs" using block_run_results [OF xs] by simp
    let ?out = "\<lambda>root b. \<lparr>bx_results = ba_results acc, bx_logsBloom = ba_bloom acc, bx_gasUsed = ba_gasUsed acc,
          bx_receiptsRoot = receiptsRoot B acc, bx_stateRoot = root, bx_block = b\<rparr>"
    let ?block = "\<lambda>root. if bo_generate B then generate_block B acc root else then_sum (check_header B acc root) (\<lambda>_. Inr (bo_block B))"
    have run: "run_block_steps H B w = (case bo_stateRoot B w1 of Inl y \<Rightarrow> (Inl y, w1) | Inr root \<Rightarrow>
        (case ?block root of Inl y \<Rightarrow> (Inl y, w1) | Inr b \<Rightarrow> (Inr (?out root b), w1)))"
      using app Inr by (simp add: run_block_steps_def bnd_def gets_def lift_sum_def split: sum.splits)
    have "block_outcome H B w (?out root b) w1" if "bo_stateRoot B w1 = Inr root" "?block root = Inr b" for root b
      unfolding block_outcome_def using xs that res by (intro exI [of _ acc] exI [of _ w1]) (simp add: then_sum_Inr split: if_splits)
    then show ?thesis unfolding run using e Inr by (auto split: sum.split)
  qed
qed

lemma public_trans_only: "sm_view (w_sm a) = sm_view (w_sm b) \<Longrightarrow> public a = (public b)\<lparr>p_trans := tview (w_ts a)\<rparr>"
  using public_sm [of a "parts (w_jr a)"] public_sm [of b "parts (w_jr a)"]
  by (simp add: pub_of_def split: prod.splits)

lemma block_reverted:
  assumes "block_ready Ss w" "block_ready (sm_view (w_sm w) # Ss) w2"
  obtains w3 where "journal_revert w2 = (Inr (), w3)" "block_ready Ss w3" "supply_of w3 = supply_of w" "lasting (public w3) = lasting (public w)"
proof -
  obtain w3 where w3: "journal_revert w2 = (Inr (), w3)" "at_rest Ss (mod_jr cleanJournal w3)" "sm_view (w_sm w3) = sm_view (w_sm w)" "w_ts w3 = w_ts w2"
    by (rule block_undo [OF assms(2)])
  have p: "public w3 = (public w)\<lparr>p_trans := p_trans (public w2)\<rparr>"
    using public_trans_only [OF w3(3)] by (simp add: w3(4))
  have "pub_ok (supply_of w) (public w)" "pub_ok (supply_of w2) (public w2)" using assms by (simp_all add: block_ready_parts)
  then have "pub_ok (supply_of w) (public w3)" unfolding p pub_ok_def by simp
  moreover have s: "supply_of w3 = supply_of w" by (rule ext) (simp add: supply_of_def p)
  ultimately have "block_ready Ss w3" using w3(2) assms(1) by (simp add: block_ready_parts)
  moreover have "lasting (public w3) = lasting (public w)" unfolding p lasting_def by simp
  ultimately show thesis using that w3(1) s by blast
qed

lemma runBlock_ended:
  assumes "block_input_ok H B" "block_ready Ss w"
  shows "case runBlock H B w of (r, w') \<Rightarrow> block_ready Ss w' \<and> (\<forall>k. supply_of w' k \<le> supply_of w k) \<and>
    (case r of Inl e \<Rightarrow> lasting (public w') = lasting (public w) | Inr x \<Rightarrow> block_outcome H B w x w')"
proof -
  let ?v = "sm_view (w_sm w)"
  obtain w1 where w1: "journal_checkpoint w = (Inr (), w1)" "block_ready (?v # Ss) w1" "public w1 = public w"
    by (rule block_checkpoint [OF assms(2)])
  have sup: "supply_of w1 = supply_of w" by (rule ext) (simp only: supply_of_def w1(3))
  obtain r w2 where r: "run_block_steps H B w1 = (r, w2)" by fastforce
  note e = run_block_steps_ended [OF assms(1) w1(2), unfolded r prod.case sup]
  show ?thesis
  proof (cases r)
    case (Inl x)
    obtain w3 where w3: "journal_revert w2 = (Inr (), w3)" "block_ready Ss w3" "supply_of w3 = supply_of w" "lasting (public w3) = lasting (public w)"
      by (rule block_reverted [OF assms(2)]) (use e in blast)
    moreover have "runBlock H B w = (Inl x, w3)" using w1(1) r Inl w3(1) by (simp add: runBlock_def sq_def bnd_def on_throw_def throw_def)
    ultimately show ?thesis by simp
  next
    case (Inr x)
    obtain w3 where w3: "journal_commit w2 = (Inr (), w3)" "block_ready Ss w3" "public w3 = public w2"
      by (rule block_commit) (use e in blast)
    have "supply_of w3 = supply_of w2" by (rule ext) (simp only: supply_of_def w3(3))
    moreover have "block_outcome H B w x w3" using e Inr w1(3) w3(3) unfolding block_outcome_def by auto
    moreover have "runBlock H B w = (Inr x, w3)" using w1(1) r Inr w3(1) by (simp add: runBlock_def sq_def bnd_def on_throw_def)
    ultimately show ?thesis using w3(2) e by simp
  qed
qed

section \<open>Sums over a block\<close>

abbreviation block_head :: "run_block_opts \<Rightarrow> block_header" where
  "block_head B \<equiv> blk_header (bo_block B)"

definition gas_sum :: "tx_result list \<Rightarrow> int" where
  "gas_sum xs = (\<Sum>x\<leftarrow>xs. rt_totalGasSpent x)"

lemma block_limits: "block_input_ok H B \<Longrightarrow> 0 \<le> bh_gasLimit (block_head B) \<and> 0 \<le> bh_baseFee (block_head B)"
  by (simp add: block_input_ok_def block_ok_def block_context_def is_word_def)

lemma block_run_gas:
  assumes "block_run H B i ts acc p xs acc' p'" "ba_gasUsed acc \<le> bh_gasLimit (block_head B)"
  shows "length xs = length ts \<and> ba_gasUsed acc' = ba_gasUsed acc + gas_sum xs \<and> ba_gasUsed acc' \<le> bh_gasLimit (block_head B)"
  using assms
proof (induction rule: block_run.induct)
  case (step i t acc p x p' ts trie xs acc' p'')
  have "rt_totalGasSpent x \<le> tx_gasLimit t" using step.hyps(1) by (auto simp: tx_outcome_def block_tx_opts_def)
  with step.hyps(3) have "ba_gasUsed (add_result x trie acc) \<le> bh_gasLimit (block_head B)"
    and "ba_gasUsed (add_result x trie acc) = ba_gasUsed acc + rt_totalGasSpent x"
    using step.hyps(2) by (simp_all add: add_result_def receipt_ok_def)
  with step.IH show ?case by (simp add: gas_sum_def)
qed (simp add: gas_sum_def)

lemma block_run_supply:
  assumes "block_run H B i ts acc p xs acc' p'" "block_input_ok H B" "set ts \<subseteq> set (blk_txs (bo_block B))"
  shows "total_supply k (p_acct p') + (if k = None then gas_sum xs * bh_baseFee (block_head B) else 0) \<le> total_supply k (p_acct p)"
  using assms
proof (induction rule: block_run.induct)
  case (step i t acc p x p' ts trie xs acc' p'')
  let ?R = "block_tx_opts B i t (ba_receiptGasUsed acc)"
  have t: "t \<in> set (blk_txs (bo_block B))" using step.prems(2) by simp
  have "\<forall>k. total_supply k (p_acct p') + (if k = None then rt_totalGasSpent x * header_baseFee ?R else 0) \<le> total_supply k (p_acct p)"
    using step.hyps(1) unfolding tx_outcome_def by blast
  from spec [OF this, of k] step.IH [OF step.prems(1)] step.prems(2) show ?case
    by (cases k) (simp_all add: gas_sum_def block_tx_input(4) [OF step.prems(1) t] algebra_simps)
qed (simp add: gas_sum_def)

text \<open>A filter reports every address and every topic of every log of the results.\<close>

definition logs_reported :: "(bytes \<Rightarrow> bytes) \<Rightarrow> tx_result list \<Rightarrow> bytes \<Rightarrow> bool" where
  "logs_reported kec xs bv \<longleftrightarrow> (\<forall>x \<in> set xs. \<forall>(a, topics, d) \<in> set (x_logs (execResult (rt_result x))).
     \<forall>t \<in> set (addr_bytes a # topics). bloom_check kec t bv = Inr True)"

lemma block_run_bloom:
  assumes "block_run H B i ts acc p xs acc' p'" "length (ba_bloom acc) = BYTE_SIZE"
  shows "covers (ba_bloom acc') (ba_bloom acc) \<and> logs_reported (h_keccak H) xs (ba_bloom acc')"
  using assms unfolding logs_reported_def
proof (induction rule: block_run.induct)
  case (step i t acc p x p' ts trie xs acc' p'')
  have "logs_bloom (h_keccak H) (x_logs (execResult (rt_result x))) (zeros BYTE_SIZE) = Inr (rt_bloom x)"
    using step.hyps(2) by (simp add: receipt_ok_def txLogsBloom_def new_bloom_def)
  note l = logs_bloom_ok [OF this, simplified]
  have len: "length (rt_bloom x) = BYTE_SIZE" using l by (simp add: covers_def)
  let ?b = "ba_bloom (add_result x trie acc)"
  have b: "?b = bloom_or (ba_bloom acc) (rt_bloom x)" by (simp add: add_result_def)
  then have c: "covers ?b (ba_bloom acc)" "covers ?b (rt_bloom x)" "length ?b = BYTE_SIZE"
    using bloom_or_covers [of "ba_bloom acc" "rt_bloom x"] len step.prems by (simp_all add: bloom_or_def)
  note ih = step.IH [OF c(3)]
  have x: "covers (ba_bloom acc') (rt_bloom x)" "covers (ba_bloom acc') (ba_bloom acc)" using ih c(1,2) by (blast intro: covers_trans)+
  have "bloom_check (h_keccak H) u (ba_bloom acc') = Inr True"
    if "(a, topics, d) \<in> set (x_logs (execResult (rt_result x)))" "u \<in> set (addr_bytes a # topics)" for a topics d u
    by (rule check_mono [OF x(1) len]) (use l that in fastforce)
  with ih x(2) show ?case by auto
qed simp

text \<open>The header of a block that was executed has the results in it, whether they were checked or filled in.\<close>

definition header_results :: "block_header \<Rightarrow> block_acc \<Rightarrow> bytes \<Rightarrow> bytes \<Rightarrow> bool" where
  "header_results h acc receipts stateRoot \<longleftrightarrow> bh_receiptTrie h = receipts \<and> bh_logsBloom h = ba_bloom acc \<and>
     bh_gasUsed h = ba_gasUsed acc \<and> bh_stateRoot h = stateRoot"

lemma generate_results:
  assumes "generate_block B acc stateRoot = Inr b"
  shows "header_results (blk_header b) acc (receiptsRoot B acc) stateRoot"
proof -
  obtain root ts where b: "blk_txs b = ts" "new_header ((header_object (block_head B))\<lparr>hd_stateRoot := Val (RBytes stateRoot),
      hd_logsBloom := Val (RBytes (ba_bloom acc)), hd_gasUsed := Big (ba_gasUsed acc), hd_receiptTrie := Val (RBytes (receiptsRoot B acc)),
      hd_transactionsTrie := Val (RBytes root)\<rparr>) = Inr (blk_header b)"
    using assms by (auto simp: generate_block_def createBlock_def new_block_def sum_steps)
  have g: "n = ba_gasUsed acc" if "or_int (Big (ba_gasUsed acc)) 0 = Inr n" for n
    using that by (auto simp: or_int_def to_int_def util_toBytes_def sum_steps bigIntToBytes_value)
  have o: "or_bytes (Val (RBytes c)) e = Inr c" for c e by (simp add: or_bytes_def util_toBytes_def)
  from b(2) show ?thesis
    by (cases "blk_header b") (auto simp: new_header_def header_results_def Let_def sum_steps o dest!: g)
qed

lemma outcome_header:
  assumes "block_outcome H B w x w'"
  obtains acc where "block_run H B 0 (blk_txs (bo_block B)) \<lparr>ba_bloom = zeros BYTE_SIZE, ba_gasUsed = 0, ba_receiptGasUsed = 0,
      ba_trie = new_trie (list_trie (h_keccak H)) None, ba_results = []\<rparr> (public w) (bx_results x) acc (public w')"
    "header_results (blk_header (bx_block x)) acc (bx_receiptsRoot x) (bx_stateRoot x)" "bx_logsBloom x = ba_bloom acc" "bx_gasUsed x = ba_gasUsed acc"
    "\<not> bo_generate B \<Longrightarrow> bx_block x = bo_block B"
proof -
  obtain acc where a: "block_run H B 0 (blk_txs (bo_block B)) \<lparr>ba_bloom = zeros BYTE_SIZE, ba_gasUsed = 0, ba_receiptGasUsed = 0,
      ba_trie = new_trie (list_trie (h_keccak H)) None, ba_results = []\<rparr> (public w) (bx_results x) acc (public w')"
    "if bo_generate B then generate_block B acc (bx_stateRoot x) = Inr (bx_block x)
     else check_header B acc (bx_stateRoot x) = Inr () \<and> bx_block x = bo_block B"
    "bx_logsBloom x = ba_bloom acc" "bx_gasUsed x = ba_gasUsed acc" "bx_receiptsRoot x = receiptsRoot B acc"
    using assms unfolding block_outcome_def by blast
  have "header_results (blk_header (bx_block x)) acc (bx_receiptsRoot x) (bx_stateRoot x)"
  proof (cases "bo_generate B")
    case True
    then show ?thesis using a(2,5) generate_results by simp
  next
    case False
    then show ?thesis using a(2,5) by (auto simp: check_header_def Let_def reject_def header_results_def split: if_splits)
  qed
  with that [of acc] a show thesis by simp
qed

section \<open>Properties\<close>

text \<open>
  C1. A block is executed as a whole or not at all: a block that is refused, before, between or after its transactions,
  leaves accounts, code and storage as they were; a block that is accepted has executed every transaction, the gas it
  used is the sum of theirs and within its limit, its gas, its root of receipts, its bloom filter and its
  state root are those in the header of the block (of the given block, unless the caller asked to have the header filled in),
  and the filter of the header reports every log of every transaction.
\<close>
theorem runBlock_all_or_nothing:
  assumes "block_input_ok H B" "block_ready Ss w" "runBlock H B w = (r, w')"
  shows "case r of Inl e \<Rightarrow> lasting (public w') = lasting (public w)
    | Inr x \<Rightarrow> length (bx_results x) = length (blk_txs (bo_block B)) \<and> bx_gasUsed x = gas_sum (bx_results x) \<and>
        bx_gasUsed x \<le> bh_gasLimit (block_head B) \<and> bx_gasUsed x = bh_gasUsed (blk_header (bx_block x)) \<and>
        bx_receiptsRoot x = bh_receiptTrie (blk_header (bx_block x)) \<and> bx_logsBloom x = bh_logsBloom (blk_header (bx_block x)) \<and>
        bx_stateRoot x = bh_stateRoot (blk_header (bx_block x)) \<and> (\<not> bo_generate B \<longrightarrow> bx_block x = bo_block B) \<and>
        logs_reported (h_keccak H) (bx_results x) (bh_logsBloom (blk_header (bx_block x)))"
proof -
  note e = runBlock_ended [OF assms(1,2), unfolded assms(3) prod.case]
  show ?thesis
  proof (cases r)
    case (Inr x)
    then obtain acc where run: "block_run H B 0 (blk_txs (bo_block B)) \<lparr>ba_bloom = zeros BYTE_SIZE, ba_gasUsed = 0, ba_receiptGasUsed = 0,
        ba_trie = new_trie (list_trie (h_keccak H)) None, ba_results = []\<rparr> (public w) (bx_results x) acc (public w')"
      and h: "header_results (blk_header (bx_block x)) acc (bx_receiptsRoot x) (bx_stateRoot x)" "bx_logsBloom x = ba_bloom acc"
        "bx_gasUsed x = ba_gasUsed acc" "\<not> bo_generate B \<Longrightarrow> bx_block x = bo_block B"
      using e outcome_header by (metis sum.case(2))
    have "0 \<le> bh_gasLimit (block_head B)" using block_limits [OF assms(1)] by simp
    with block_run_gas [OF run] block_run_bloom [OF run] h Inr show ?thesis
      by (auto simp: header_results_def)
  qed (use e in simp)
qed

text \<open>
  C2. Blocks make no money: however a block ends, no supply grows and nobody owes anything, and a block that is accepted burns the
  base fee of all of its gas.
\<close>
theorem runBlock_conserves:
  assumes "block_input_ok H B" "block_ready Ss w" "runBlock H B w = (r, w')"
  shows "supply_of w' k \<le> supply_of w k \<and> 0 \<le> holding k (p_acct (public w') a) \<and>
    (case r of Inl e \<Rightarrow> True | Inr x \<Rightarrow> supply_of w' None + bx_gasUsed x * bh_baseFee (block_head B) \<le> supply_of w None)"
proof -
  note e = runBlock_ended [OF assms(1,2), unfolded assms(3) prod.case]
  have "pub_ok (supply_of w') (public w')" using e by (simp add: block_ready_parts)
  moreover have "supply_of w' None + bx_gasUsed x * bh_baseFee (block_head B) \<le> supply_of w None" if r: "r = Inr x" for x
  proof -
    obtain acc where run: "block_run H B 0 (blk_txs (bo_block B)) \<lparr>ba_bloom = zeros BYTE_SIZE, ba_gasUsed = 0, ba_receiptGasUsed = 0,
        ba_trie = new_trie (list_trie (h_keccak H)) None, ba_results = []\<rparr> (public w) (bx_results x) acc (public w')"
      and g: "bx_gasUsed x = ba_gasUsed acc"
      using e r unfolding block_outcome_def by auto
    have "ba_gasUsed acc = gas_sum (bx_results x)" using block_run_gas [OF run] block_limits [OF assms(1)] by simp
    with block_run_supply [OF run assms(1) subset_refl, of None] g show ?thesis by (simp add: supply_of_def)
  qed
  ultimately show ?thesis using e by (auto simp: pub_ok_def split: sum.split)
qed

text \<open>
  C14. Blocks can be run one after the other: whatever happens to each of a list of blocks, accepted or refused, the world stays
  ready for the next, with only those checkpoints open that were open before, and no supply grows over the whole list.
\<close>
theorem blocks_ready:
  assumes "\<forall>B \<in> set Bs. block_input_ok H B" "block_ready Ss w"
  shows "block_ready Ss (fold (\<lambda>B w. snd (runBlock H B w)) Bs w) \<and>
    (\<forall>k. supply_of (fold (\<lambda>B w. snd (runBlock H B w)) Bs w) k \<le> supply_of w k)"
  using assms
proof (induction Bs arbitrary: w)
  case (Cons B Bs)
  obtain r w' where r: "runBlock H B w = (r, w')" by fastforce
  have "block_ready Ss w'" "\<forall>k. supply_of w' k \<le> supply_of w k"
    using runBlock_ended [of H B Ss w] Cons.prems by (simp_all add: r)
  with Cons.IH [of w'] Cons.prems(1) r show ?case by (auto intro: order_trans)
qed simp

section \<open>An instance\<close>

text \<open>The sample block, on a world where the sender of its transaction has nothing.\<close>

definition sample_block_run :: run_block_opts where
  "sample_block_run = \<lparr>bo_block = sample_block, bo_env = block_env, bo_rootTransactionIds = [], bo_requireExplicit = True,
     bo_skipBlockValidation = False, bo_skipHeaderValidation = True, bo_generate = False, bo_skipBalance = False, bo_skipNonce = False,
     bo_validateHeader = None, bo_stateRoot = (\<lambda>_. Inr (zeros 32))\<rparr>"

lemma sample_block_run_ok: "block_input_ok sample_host sample_block_run"
  using sample_ok(1) paying_new
  by (simp add: block_input_ok_def sample_block_run_def sample_block_def block_ok_def block_context_def is_word_def sample_header_def TWO_POW256_def
      bytes_ok_def paying_tx_def signed_tx_def sample_tx_def)

lemma sample_block_ready: "block_ready [] sample_world"
  using ready_clean [OF sample_ready [unfolded ready_def]] .

theorem blocks_ready_witness:
  "block_ready [] (snd (runBlock sample_host sample_block_run (snd (runBlock sample_host sample_block_run sample_world))))"
  using blocks_ready [of "[sample_block_run, sample_block_run]" sample_host "[]" sample_world] sample_block_run_ok sample_block_ready by simp

end
