(* ===== verification/BuildBlock.thy ===== *)
theory BuildBlock
  imports RunBlockProps
begin

text \<open>
  Building of a block, \<^verbatim>\<open>packages/vm/src/buildBlock.ts\<close>: a builder runs the transactions it is given on the state, inside a
  checkpoint of its own, until it is asked for the block or reverted. The profile has neither consensus, so that no
  miner is rewarded and nothing is sealed, nor withdrawals, requests and a history contract, so that \<^verbatim>\<open>initState\<close> does
  nothing. The time of day, the root of the state and the blockchain that takes the block are parameters.
\<close>

section \<open>Builders\<close>

datatype block_status = Pending | Reverted | Built blk

record builder =
  bb_gasUsed :: int
  bb_minerValue :: int
  bb_headerData :: header_data
  bb_transactions :: "tx list"
  bb_results :: "tx_result list"
  bb_checkpointed :: bool
  bb_status :: block_status

text \<open>The options of a builder; the blockchain is absent if the block is not to be put into it.\<close>

record builder_opts =
  bu_env :: tx_env
  bu_putBlock :: "(blk \<Rightarrow> exn + unit) option"
  bu_stateRoot :: "world \<Rightarrow> exn + bytes"

text \<open>A builder works on the world of its virtual machine.\<close>

record build_state =
  bs_world :: world
  bs_builder :: builder

definition on_vm :: "(world, 'a) op \<Rightarrow> (build_state, 'a) op" where
  "on_vm = zoom bs_world (\<lambda>w s. s\<lparr>bs_world := w\<rparr>)"

definition mod_builder :: "(builder \<Rightarrow> builder) \<Rightarrow> (build_state, unit) op" where
  "mod_builder f = modify (\<lambda>s. s\<lparr>bs_builder := f (bs_builder s)\<rparr>)"

definition or_val :: "txval \<Rightarrow> exn + txval \<Rightarrow> exn + txval" where
  "or_val v d = (if v = Undef then d else Inr v)"

definition new_builder :: "tx_env \<Rightarrow> blk \<Rightarrow> header_data \<Rightarrow> int \<Rightarrow> exn + builder" where
  "new_builder E parent headerData now =
     then_sum (or_val (hd_parentHash headerData) (map_sum id (\<lambda>h. Val (RBytes h)) (block_hash (tv_keccak E) parent))) (\<lambda>parentHash.
     then_sum (or_val (hd_number headerData) (Inr (Big (bh_number (blk_header parent) + 1)))) (\<lambda>number.
     then_sum (or_val (hd_gasLimit headerData) (Inr (Big (bh_gasLimit (blk_header parent))))) (\<lambda>gasLimit.
     then_sum (or_val (hd_timestamp headerData) (Inr (Big now))) (\<lambda>timestamp.
     then_sum (or_val (hd_baseFee headerData) (map_sum id Big (calcNextBaseFee (blk_header parent)))) (\<lambda>baseFee.
     Inr \<lparr>bb_gasUsed = 0, bb_minerValue = 0,
        bb_headerData = headerData\<lparr>hd_parentHash := parentHash, hd_number := number, hd_gasLimit := gasLimit, hd_timestamp := timestamp,
          hd_baseFee := baseFee\<rparr>,
        bb_transactions = [], bb_results = [], bb_checkpointed = False, bb_status = Pending\<rparr>)))))"

definition checkStatus :: "(build_state, unit) op" where
  "checkStatus = bnd (gets (bb_status \<circ> bs_builder)) (\<lambda>s. case s of
     Built _ \<Rightarrow> throw (HostError ''Block has already been built'')
   | Reverted \<Rightarrow> throw (HostError ''State has already been reverted'')
   | Pending \<Rightarrow> ret ())"

section \<open>The results so far\<close>

definition builder_transactionsTrie :: "tx_env \<Rightarrow> builder \<Rightarrow> exn + bytes" where
  "builder_transactionsTrie E b = genTransactionsTrieRoot E (bb_transactions b)"

definition builder_logsBloom :: "builder \<Rightarrow> bytes" where
  "builder_logsBloom b = foldl bloom_or (zeros BYTE_SIZE) (map rt_bloom (bb_results b))"

definition builder_receiptTrie :: "(bytes \<Rightarrow> bytes) \<Rightarrow> builder \<Rightarrow> exn + bytes" where
  "builder_receiptTrie kec b =
     (if bb_results b = [] then Inr KECCAK256_RLP
      else list_root kec (map (\<lambda>(x, t). encodeReceipt (rt_receipt x) (tx_type t)) (zip (bb_results b) (bb_transactions b))))"

section \<open>Transactions\<close>

definition add_checkpoint :: "(build_state, unit) op" where
  "add_checkpoint = bnd (gets (bb_checkpointed \<circ> bs_builder)) (\<lambda>c.
     whenb (\<not> c) (sq (on_vm journal_checkpoint) (mod_builder (\<lambda>b. b\<lparr>bb_checkpointed := True\<rparr>))))"

definition builder_tx_opts :: "builder_opts \<Rightarrow> block_header \<Rightarrow> tx \<Rightarrow> bytes option \<Rightarrow> bool \<Rightarrow> run_tx_opts" where
  "builder_tx_opts U h t txid explicit =
     \<lparr>ro_tx = t, ro_env = bu_env U, ro_block = Some (block_context h), ro_headerGasUsed = bh_gasUsed h, ro_blockGasUsed = None,
      ro_skipBalance = False, ro_skipNonce = False, ro_skipBlockGasLimit = False, ro_reportAccessList = False, ro_reportPreimages = False,
      ro_rootTransactionId = txid, ro_requireExplicit = explicit\<rparr>"

text \<open>The block that a transaction runs in: the header so far over the transactions so far.\<close>

definition pending_block :: "tx_env \<Rightarrow> builder \<Rightarrow> exn + blk" where
  "pending_block E b = createBlock E ((bb_headerData b)\<lparr>hd_gasUsed := Big (bb_gasUsed b)\<rparr>) (map (tx_object E) (bb_transactions b)) [] False"

definition push_result :: "tx \<Rightarrow> tx_result \<Rightarrow> builder \<Rightarrow> builder" where
  "push_result t x b = b\<lparr>bb_transactions := bb_transactions b @ [t], bb_results := bb_results b @ [x],
     bb_gasUsed := bb_gasUsed b + rt_totalGasSpent x, bb_minerValue := bb_minerValue b + rt_minerValue x\<rparr>"

definition addTransaction :: "host \<Rightarrow> builder_opts \<Rightarrow> tx \<Rightarrow> bytes option \<Rightarrow> bool \<Rightarrow> (build_state, tx_result) op" where
  "addTransaction H U t txid explicit =
     sq checkStatus
     (sq add_checkpoint
     (bnd (gets bs_builder) (\<lambda>b.
      bnd (lift_sum (to_int (hd_gasLimit (bb_headerData b)))) (\<lambda>blockGasLimit.
      sq (demand (\<not> tx_gasLimit t > blockGasLimit - bb_gasUsed b) ''tx has a higher gas limit than the remaining gas in the block'')
      (bnd (lift_sum (pending_block (bu_env U) b)) (\<lambda>block.
       bnd (on_vm (runTx H (builder_tx_opts U (blk_header block) t txid explicit))) (\<lambda>x.
       sq (mod_builder (push_result t x)) (ret x))))))))"

section \<open>The end of a builder\<close>

definition builder_revert :: "(build_state, unit) op" where
  "builder_revert =
     bnd (gets (bb_checkpointed \<circ> bs_builder)) (\<lambda>c.
     sq (whenb c (sq (on_vm journal_revert) (mod_builder (\<lambda>b. b\<lparr>bb_checkpointed := False\<rparr>))))
     (mod_builder (\<lambda>b. b\<lparr>bb_status := Reverted\<rparr>)))"

definition final_block :: "host \<Rightarrow> builder_opts \<Rightarrow> builder \<Rightarrow> bytes \<Rightarrow> bytes \<Rightarrow> bytes \<Rightarrow> exn + blk" where
  "final_block H U b transactionsTrie receiptTrie stateRoot =
     createBlock (bu_env U)
       ((bb_headerData b)\<lparr>hd_stateRoot := Val (RBytes stateRoot), hd_transactionsTrie := Val (RBytes transactionsTrie),
          hd_withdrawalsRoot := Undef, hd_receiptTrie := Val (RBytes receiptTrie), hd_logsBloom := Val (RBytes (builder_logsBloom b)),
          hd_gasUsed := Big (bb_gasUsed b),
          hd_timestamp := (if hd_timestamp (bb_headerData b) = Undef then Big 0 else hd_timestamp (bb_headerData b)),
          hd_requestsHash := Undef\<rparr>)
       (map (tx_object (bu_env U)) (bb_transactions b)) [] False"

definition build :: "host \<Rightarrow> builder_opts \<Rightarrow> (build_state, blk) op" where
  "build H U =
     sq checkStatus
     (bnd (gets bs_builder) (\<lambda>b.
      bnd (lift_sum (builder_transactionsTrie (bu_env U) b)) (\<lambda>transactionsTrie.
      bnd (lift_sum (builder_receiptTrie (h_keccak H) b)) (\<lambda>receiptTrie.
      bnd (on_vm (bnd (gets (bu_stateRoot U)) lift_sum)) (\<lambda>stateRoot.
      bnd (lift_sum (final_block H U b transactionsTrie receiptTrie stateRoot)) (\<lambda>block.
      sq (lift_sum (case bu_putBlock U of None \<Rightarrow> Inr () | Some put \<Rightarrow> put block))
      (sq (mod_builder (\<lambda>b. b\<lparr>bb_status := Built block\<rparr>))
      (sq (whenb (bb_checkpointed b) (sq (on_vm journal_commit) (mod_builder (\<lambda>b. b\<lparr>bb_checkpointed := False\<rparr>))))
      (ret block)))))))))"

end
