(* ===== verification/PlainTransfer.thy ===== *)
theory PlainTransfer
  imports RunBlockProps
begin

text \<open>
  Transactions do happen: an admissible transfer to an account without code is executed without error, for
  exactly its intrinsic gas, and moves exactly the value and the fees.
\<close>

section \<open>The message\<close>

definition plain_message :: "host \<Rightarrow> message \<Rightarrow> address \<Rightarrow> pub \<Rightarrow> bool" where
  "plain_message H m dst p \<longleftrightarrow> m_to m = Some dst \<and> m_code m = None \<and> m_codeAddress m = None \<and> \<not> m_delegatecall m \<and>
     m_tokenValue m = 0 \<and> 0 \<le> m_value m \<and> m_value m \<le> balance (p_acct p (m_caller m)) \<and>
     h_precompile H dst = None \<and> p_code p dst = []"

lemma plain_transfer_run:
  assumes w: "lockstep S w" "pub_ok B (public w)" "caps_ok B"
    and m: "\<not> m_delegatecall m" "m_tokenValue m = 0" "0 \<le> m_value m" "m_value m \<le> balance (p_acct (public w) (m_caller m))"
  obtains w' where "transfer dst m w = (Inr None, w')" "lockstep S w'" "public w' = (public w)\<lparr>p_acct := moved m dst (p_acct (public w))\<rparr>"
proof -
  let ?acc = "p_acct (public w) (m_caller m)"
  let ?a = "?acc\<lparr>balance := balance ?acc - m_value m\<rparr>"
  have reads: "or_else (getAccount b (w_sm u)) new_account = p_acct (public u) b" if "lockstep S u" for u b
    by (rule public_reads(1) [OF lockstep_inv [OF that]])
  obtain w1 where w1: "journal_putAccount (m_caller m) (Some ?a) w = (Inr (), w1)" "lockstep S w1"
    "public w1 = (public w)\<lparr>p_acct := (p_acct (public w))(m_caller m := ?a)\<rparr>"
    by (rule put_account_lockstep [OF w(1)])
  let ?dst = "p_acct (public w1) dst"
  let ?b = "?dst\<lparr>balance := balance ?dst + m_value m\<rparr>"
  obtain w2 where w2: "journal_putAccount dst (Some ?b) w1 = (Inr (), w2)" "lockstep S w2"
    "public w2 = (public w1)\<lparr>p_acct := (p_acct (public w1))(dst := ?b)\<rparr>"
    by (rule put_account_lockstep [OF w1(2)])
  have ok: "account_ok (p_acct (public w) b)" for b using w(2) by (simp add: pub_ok_def)
  have "account_ok ?a" using account_ok_balance [OF ok, of "balance ?acc - m_value m"] m(4) by simp
  then have ok1: "account_ok (p_acct (public w1) b)" for b using ok by (simp add: w1(3))
  have "balance ?dst \<le> total_supply None (p_acct (public w1))" using holding_le_supply [of "p_acct (public w1)" None dst] ok1 by simp
  also have "\<dots> = total_supply None (p_acct (public w)) - m_value m" by (simp add: w1(3) supply_upd)
  also have "total_supply None (p_acct (public w)) \<le> B None" using w(2) by (simp add: pub_ok_def)
  also have "B None < TWO_POW256" using w(3) by (simp add: caps_ok_def)
  finally have room: "\<not> balance ?dst + m_value m > MAX_INTEGER_BIGINT" by (simp add: TWO_POW256_def MAX_INTEGER_BIGINT_def)
  have pub2: "public w2 = (public w)\<lparr>p_acct := moved m dst (p_acct (public w))\<rparr>"
    using m(1,2) by (simp add: w2(3) w1(3) moved_def debit_def credit_def Let_def)
  have s: "sender_side m ?acc w = (Inr ?a, w1)"
    using m(2,4) w1(1) by (simp add: sender_side_def reduceSenderBalance_def reduceSenderTokenBalance_def bnd_def sq_def Let_def)
  have r: "receiver_side dst m ?dst w1 = (Inr ?b, w2)"
    using m(2) room w2(1) by (simp add: receiver_side_def addToBalance_def addToTokenBalance_def bnd_def sq_def Let_def)
  show thesis
  proof (cases "getAccount dst (w_sm w1) \<noteq> None \<or> m_value m \<noteq> 0 \<or> supplied_code m")
    case True
    then have "transfer dst m w = (Inr None, w2)"
      using m(1,2) s r by (auto simp: transfer_def load_account_def reads [OF w(1)] reads [OF w1(2)] bnd_def gets_def try_op_def later_error_def)
    from that [OF this w2(2) pub2] show thesis .
  next
    case False
    then have "transfer dst m w = (Inr None, w1)"
      using m(1,2) s by (auto simp: transfer_def load_account_def reads [OF w(1)] bnd_def gets_def try_op_def later_error_def)
    moreover have "public w1 = (public w)\<lparr>p_acct := moved m dst (p_acct (public w))\<rparr>"
      using False m(1,2) by (simp add: w1(3) moved_def debit_def credit_def Let_def)
    ultimately show thesis using w1(2) by (intro that)
  qed
qed

definition plain_result :: "message \<Rightarrow> tvm_result" where
  "plain_result m = mk_result (m\<lparr>m_code := Some (Bytecode []), m_isCompiled := False\<rparr>) None (empty_result\<lparr>x_gasRefund := Some (m_gasRefund m)\<rparr>)"

lemma plain_execute:
  assumes w: "lockstep S w" "pub_ok B (public w)" "caps_ok B" and m: "plain_message H m dst (public w)"
  obtains w' where "execute H rc m w = (Inr (plain_result m), w')" "lockstep S w'"
    "public w' = (public w)\<lparr>p_acct := moved m dst (p_acct (public w))\<rparr>"
proof -
  let ?w = "mod_jr (addAccessedAddress dst) w"
  have v: "same_views w ?w" by (rule same_views_note [OF lockstep_inv [OF w(1)]])
  then have w1: "lockstep S ?w" "public ?w = public w" using w(1) by (simp_all add: same_views_def lockstep_def)
  obtain w2 where w2: "transfer dst m ?w = (Inr None, w2)" "lockstep S w2"
    "public w2 = (public ?w)\<lparr>p_acct := moved m dst (p_acct (public ?w))\<rparr>"
    by (rule plain_transfer_run [OF w1(1) _ w(3), of m dst]) (use w m w1(2) in \<open>simp_all add: plain_message_def\<close>)
  have "getCode dst (w_sm w2) = []"
    using public_reads(2) [OF lockstep_inv [OF w2(2)], of dst] m by (simp add: w2(3) w1(2) plain_message_def)
  then have "execute H rc m w = (Inr (plain_result m), w2)"
    using m w2(1)
    by (simp add: execute_def executeCall_def plain_message_def codeAddress_def loadCode_def bnd_def sq_def lift_sum_def gets_def
        no_code_def plain_result_def empty_result_def)
  from that [OF this w2(2)] w2(3) w1(2) show thesis by simp
qed

lemma lockstep_same: "same_views w w' \<Longrightarrow> lockstep S w \<Longrightarrow> lockstep S w' \<and> public w' = public w"
  by (simp add: same_views_def lockstep_def)

definition context_ok :: "bytes option \<Rightarrow> bool" where
  "context_ok txid \<longleftrightarrow> (\<forall>t. txid = Some t \<longrightarrow> length t = 32)"

lemma plain_body:
  assumes w: "lockstep S w" "pub_ok B (public w)" "caps_ok B" and m: "plain_message H m dst (public w)" "m_depth m = 0"
  obtains w' where "runCall_body H rc False m w = (Inr (plain_result m), w')" "lockstep S w'"
    "public w' = (prepared m (public w))\<lparr>p_acct := moved m dst (p_acct (prepared m (public w)))\<rparr>"
proof -
  obtain w1 where w1: "tvm_checkpoint w = (Inr (), w1)" "lockstep (push_level (world_view w) S) w1" "world_view w1 = world_view w"
    by (rule checkpoint_run [OF w(1)])
  have "world_ok (push_level (world_view w) S) B None w1" using w1 w(2) by (simp add: world_ok_def)
  from prepare_run [OF this, of m] obtain w2 where w2: "prepare_sender False m w1 = (Inr (), w2)"
    "world_ok (push_level (world_view w) S) B None w2" "public w2 = prepared m (public w)"
    by (metis w1(3))
  obtain w3 where w3: "tvm_checkpoint w2 = (Inr (), w3)" "lockstep (push_level (world_view w2) (push_level (world_view w) S)) w3"
    "world_view w3 = world_view w2"
    by (rule checkpoint_run [OF world_ok_lockstep [OF w2(2)]])
  have p: "p_code (prepared m (public w)) = p_code (public w)" "balance (p_acct (prepared m (public w)) a) = balance (p_acct (public w) a)" for a
    by (simp_all add: prepared_def)
  have pm: "plain_message H m dst (public w3)" using m(1) by (simp add: plain_message_def w3(3) w2(3) p)
  obtain w4 where w4: "execute H rc m w3 = (Inr (plain_result m), w4)" "lockstep (push_level (world_view w2) (push_level (world_view w) S)) w4"
    "public w4 = (public w3)\<lparr>p_acct := moved m dst (p_acct (public w3))\<rparr>"
    by (rule plain_execute [OF w3(2) _ w(3) pm]) (use w2(2) in \<open>simp_all add: w3(3) world_ok_def\<close>)
  obtain w5 where w5: "tvm_commit w4 = (Inr (), w5)" "lockstep (push_level (world_view w) S) w5" "world_view w5 = world_view w4"
    by (rule commit_run [OF w4(2)])
  obtain w6 where w6: "tvm_commit w5 = (Inr (), w6)" "lockstep S w6" "world_view w6 = world_view w5"
    by (rule commit_run [OF w5(2)])
  have "x_exceptionError (execResult (plain_result m)) = None" by (simp add: plain_result_def mk_result_def empty_result_def)
  then have "runCall_body H rc False m w = (Inr (plain_result m), w6)"
    using m w1(1) w2(1) w3(1) w4(1) w5(1) w6(1)
    by (simp add: runCall_body_def plain_message_def bnd_def sq_def gets_def on_throw_def settle_def)
  from that [OF this w6(2)] show thesis by (simp add: w6(3) w5(3) w4(3) w3(3) w2(3))
qed

lemma plain_call:
  assumes w: "ready_on Ss w" and m: "plain_message H m dst (public w)" and c: "context_ok txid"
  obtains w' where "tvm_runCall H False txid m w = (Inr (plain_result (top_message m)), w')" "at_rest Ss w'"
    "public w' = (prepared (top_message m) (public w))\<lparr>p_acct := moved m dst (p_acct (prepared (top_message m) (public w)))\<rparr>"
proof -
  let ?w1 = "mod_jr clearStorageWrites w" and ?m = "top_message m"
  have r: "at_rest Ss w" and p: "pub_ok (supply_of w) (public w)" and B: "caps_ok (supply_of w)"
    using w by (simp_all add: ready_on_def rest_ok_def)
  note r1 = clearWrites_ok [OF r]
  obtain q w2 where q: "set_context txid ?w1 = (q, w2)" by fastforce
  have q0: "q = Inr ()" using q c by (auto simp: set_context_def context_ok_def bnd_def lift_sum_def createTronTransactionContext_def split: option.splits)
  have w2: "lockstep (Levels [] (Ss, jsaved (w_jr ?w1))) w2" "public w2 = public w"
    using lockstep_same [OF _ rest_lockstep [OF r1(1)], of w2] set_context_run [of ?w1 txid] r1(2) q by simp_all
  have pm: "plain_message H ?m dst (public w2)" "m_depth ?m = 0" using m by (simp_all add: plain_message_def top_message_def w2(2))
  obtain w3 where w3: "runCall_body H (run_message levels H) False ?m w2 = (Inr (plain_result ?m), w3)"
    "lockstep (Levels [] (Ss, jsaved (w_jr ?w1))) w3"
    "public w3 = (prepared ?m (public w2))\<lparr>p_acct := moved ?m dst (p_acct (prepared ?m (public w2)))\<rparr>"
    by (rule plain_body [OF w2(1) _ B pm]) (use p w2(2) in simp_all)
  note r3 = clearWrites_ok [OF lockstep_rest(1) [OF w3(2)]]
  have mv: "moved ?m = moved m" by (intro ext) (simp add: moved_def top_message_def debit_def credit_def Let_def)
  have "tvm_runCall H False txid m w = (Inr (plain_result ?m), mod_jr clearStorageWrites w3)"
    using q q0 w3(1) by (simp add: tvm_runCall_def top_message_def Let_def sq_def bnd_def)
  from that [OF this r3(1)] show thesis by (simp add: r3(2) w3(3) w2(2) mv)
qed

section \<open>The transaction\<close>

lemma runTx_goes:
  assumes R: "tx_input_ok R" and w: "at_rest Ss w" and c: "root_id R = Inr txid" "tv_chainId (ro_env R) = h_chainId H"
    "tx_gasLimit (ro_tx R) \<le> block_gasLimit (header R)" "reportable R"
    and run: "\<And>v Js u. lockstep (Levels [] (v # Ss, Js)) u \<Longrightarrow> public u = public w \<Longrightarrow>
      \<exists>x u' Js'. run_tx_steps H R txid u = (Inr x, u') \<and> lockstep (Levels [] (v # Ss, Js')) u' \<and> Q x (public u')"
  obtains x w' where "runTx H R w = (Inr x, w')" "Q x (public w')"
proof -
  let ?t = "ro_tx R"
  let ?v = "sm_view (w_sm w)"
  let ?run = "finally_clean (on_throw (bnd (run_tx_inner H R txid) (\<lambda>x. sq journal_commit (ret x))) journal_revert)"
  let ?start = "sq (modify (mod_jr cleanup)) (sq (whenb (ro_reportAccessList R) (modify (mod_jr startReportingAccessList))) journal_checkpoint)"
  have def: "runTx H R w = sq ?start (sq (whenb (supports ?t 2718) (report_typed ?t)) ?run) w"
    using R c by (simp add: runTx_def Let_def lift_run demand_run sq_assoc tx_input_ok_def whenb_def [of False] not_less sq_skip)
  obtain w1 where w1: "?start w = (Inr (), w1)" "lockstep (Levels [] (?v # Ss, [parts (cleanup (w_jr w))])) w1"
    "public w1 = public w" "ro_reportAccessList R \<or> accessList (w_jr w1) = None"
    by (rule tx_start [OF w])
  obtain q w2 where q: "whenb (supports ?t 2718) (report_typed ?t) w1 = (q, w2)" by fastforce
  have w2: "lockstep (Levels [] (?v # Ss, [parts (cleanup (w_jr w))])) w2" "public w2 = public w" "q = Inr ()"
    using report_typed_run [OF w1(2), of ?t] w1(2-4) c(4) q by (auto simp: reportable_def whenb_def split: if_splits)
  obtain x w3 Js where w3: "run_tx_steps H R txid w2 = (Inr x, w3)" "lockstep (Levels [] (?v # Ss, Js)) w3" "Q x (public w3)"
    using run [OF w2(1,2)] by blast
  obtain w4 where w4: "journal_commit (mod_jr cleanup w3) = (Inr (), w4)" "public (mod_jr cleanJournal w4) = public w3"
    by (rule tx_commit [OF w3(2)])
  have "runTx H R w = (Inr x, mod_jr cleanJournal w4)"
    unfolding def using w1(1) q w2(3) w3(1) w4(1)
    by (simp add: sq_run [of ?start] sq_run [of "whenb (supports ?t 2718) (report_typed ?t)"] finally_clean_run on_throw_def run_tx_inner_def bnd_def sq_def
        del: sq_assoc)
  from that [OF this] w3(3) w4(2) show thesis by simp
qed

text \<open>The conditions under which the checks let a plain transfer pass.\<close>

definition plain_tx :: "host \<Rightarrow> run_tx_opts \<Rightarrow> address \<Rightarrow> address \<Rightarrow> pub \<Rightarrow> bool" where
  "plain_tx H R caller dst p \<longleftrightarrow> getSenderAddress (ro_env R) (ro_tx R) = Inr caller \<and> tx_to (ro_tx R) = Some dst \<and> dst \<noteq> caller \<and>
     tx_tokenId (ro_tx R) = 0 \<and> tx_tokenValue (ro_tx R) = 0 \<and> h_precompile H dst = None \<and> p_code p dst = [] \<and>
     admitted R (p_acct p caller) \<and>
     tx_value (ro_tx R) + (if supports (ro_tx R) 1559 then tx_gasLimit (ro_tx R) * max_price (ro_tx R) else 0) \<le> balance (p_acct p caller) \<and>
     tv_chainId (ro_env R) = h_chainId H \<and> tx_gasLimit (ro_tx R) \<le> block_gasLimit (header R)"

lemma gas_prices_total:
  assumes "tx_ok E (ro_tx R)" "header_baseFee R \<le> max_price (ro_tx R)"
  obtains gasPrice inclusionFee where "gas_prices R = Inr (gasPrice, inclusionFee)"
  using assms supports_1559 [OF assms(1)]
  by (cases "tx_body (ro_tx R)") (auto simp: gas_prices_def Let_def max_price_def getEffectivePriorityFee_def)

lemma plain_check: "tx_tokenId t = 0 \<Longrightarrow> tx_tokenValue t = 0 \<Longrightarrow> tx_to t = Some dst \<Longrightarrow> dst \<noteq> caller \<Longrightarrow> fst (check_transfer t caller acc w) = Inr ()"
  by (simp add: check_transfer_def demand_run whenb_def)

lemma plain_steps:
  assumes w: "lockstep S w" and R: "\<not> ro_skipBalance R" and p: "plain_tx H R caller dst (public w)" and g: "gas_prices R = Inr (gasPrice, inclusionFee)"
  obtains w1 where "run_tx_steps H R txid w = bnd (tx_call H R txid caller gasPrice) (settle_tx H R caller gasPrice inclusionFee) w1"
    "lockstep S w1" "public w1 = plus_balance caller (- (tx_gasLimit (ro_tx R) * gasPrice)) (public w)"
proof -
  let ?acc = "p_acct (public w) caller"
  let ?b = "balance ?acc - tx_gasLimit (ro_tx R) * gasPrice"
  obtain w1 where w1: "set_balance caller ?acc ?b w = (Inr (?acc\<lparr>balance := ?b\<rparr>), w1)" "lockstep S w1"
    "public w1 = with_account caller (?acc\<lparr>balance := ?b\<rparr>) (public w)"
    by (rule set_balance_lockstep [OF w])
  have c: "getSenderAddress (ro_env R) (ro_tx R) = Inr caller" using p by (simp add: plain_tx_def)
  have "deduct_cost R caller ?acc gasPrice w = (Inr (?acc\<lparr>balance := ?b\<rparr>), w1)" using R w1(1) by (simp add: deduct_cost_def Let_def)
  then have "run_tx_steps H R txid w = bnd (tx_call H R txid caller gasPrice) (settle_tx H R caller gasPrice inclusionFee) w1"
    using p g R plain_check [of "ro_tx R" dst caller ?acc w]
    by (auto simp: run_tx_steps_def Let_def lift_run c demand_run bnd_load [OF w] bnd_upfront [OF R] bnd_maxCost [OF R] check_transfer_run
        plain_tx_def admitted_def tx_call_def not_less bnd_def [of "deduct_cost R caller ?acc gasPrice"])
  with w1 that show thesis by (simp add: plus_balance_def)
qed

lemma charged_ready:
  assumes u: "lockstep (Levels [] (Ss, Js)) u" "public u = plus_balance caller (- cost) p" and p: "pub_ok B p" "caps_ok B"
    and c: "0 \<le> cost" "cost \<le> balance (p_acct p caller)"
  shows "ready_on Ss u"
proof -
  have acc: "account_ok (p_acct p a)" for a using p(1) by (simp add: pub_ok_def)
  have acc1: "account_ok (p_acct (public u) a)" for a unfolding u(2) by (rule plus_accounts [OF acc]) (use c in simp)
  have "total_supply k (p_acct p) \<le> B k" for k using p(1) by (simp add: pub_ok_def)
  note bound = this
  have "supply_of u k = total_supply k (p_acct p) + (if k = None then - cost else 0)" for k
    unfolding supply_of_def u(2) by (rule supply_plus)
  note sum = this
  have sup: "supply_of u k \<le> B k" for k using bound [of k] sum [of k] c(1) by (cases k) simp_all
  have "pub_ok (supply_of u) (public u)"
  proof (rule pub_ok_mono [OF p(1)])
    show "public u = p\<lparr>p_acct := p_acct (public u)\<rparr>" unfolding u(2) by (rule plus_pub)
  qed (simp_all add: acc1 supply_of_def)
  moreover have "caps_ok (supply_of u)" using p(2) sup by (auto simp: caps_ok_def intro: le_less_trans)
  ultimately show ?thesis using lockstep_rest(1) [OF u(1)] by (simp add: ready_on_def rest_ok_def)
qed

text \<open>The balances after a plain transfer.\<close>

definition paid_transfer :: "run_tx_opts \<Rightarrow> address \<Rightarrow> address \<Rightarrow> int \<Rightarrow> int \<Rightarrow> pub \<Rightarrow> pub \<Rightarrow> bool" where
  "paid_transfer R caller dst gasPrice inclusionFee p p' \<longleftrightarrow> (\<forall>a. balance (p_acct p' a) = balance (p_acct p a)
     + (if a = dst then tx_value (ro_tx R) else 0)
     - (if a = caller then tx_value (ro_tx R) + getIntrinsicGas (ro_tx R) * gasPrice else 0)
     + (if a = coinbase (header R) then getIntrinsicGas (ro_tx R) * inclusionFee else 0))"

lemma plain_run_steps:
  assumes H: "host_ok H" and R: "tx_input_ok R" and t: "tx_ok (ro_env R) (ro_tx R)" and w: "lockstep (Levels [] (Ss, Js)) w" "pub_ok B (public w)" "caps_ok B"
    and p: "plain_tx H R caller dst (public w)" and g: "gas_prices R = Inr (gasPrice, inclusionFee)" and c: "context_ok txid"
  shows "\<exists>x w' Js'. run_tx_steps H R txid w = (Inr x, w') \<and> lockstep (Levels [] (Ss, Js')) w' \<and>
    \<not> failed (rt_result x) \<and> x_logs (execResult (rt_result x)) = [] \<and> rt_totalGasSpent x = getIntrinsicGas (ro_tx R) \<and> paid_transfer R caller dst gasPrice inclusionFee (public w) (public w')"
proof -
  let ?t = "ro_tx R"
  have skip: "\<not> ro_skipBalance R" using R by (simp add: tx_input_ok_def)
  let ?m = "tx_message ?t caller (tx_gasLimit ?t - getIntrinsicGas ?t)" and ?cost = "tx_gasLimit ?t * gasPrice"
  obtain w1 where w1: "run_tx_steps H R txid w = bnd (tx_call H R txid caller gasPrice) (settle_tx H R caller gasPrice inclusionFee) w1"
    "lockstep (Levels [] (Ss, Js)) w1" "public w1 = plus_balance caller (- ?cost) (public w)"
    by (rule plain_steps [OF w(1) skip p g])
  have a: "header_baseFee R \<le> max_price ?t" "getUpfrontCost ?t (Some (header_baseFee R)) \<le> balance (p_acct (public w) caller)"
    using p by (simp_all add: plain_tx_def admitted_def)
  note gp = gas_prices_ok [OF t a(1) g header_baseFee_nonneg [OF R]]
  have tv: "0 \<le> tx_value ?t" "0 \<le> tx_gasLimit ?t" using t by (simp_all add: tx_ok_def core_ok_def)
  have gp0: "0 \<le> gasPrice" using gp(1,2) header_baseFee_nonneg [OF R] by simp
  have cost: "0 \<le> ?cost" "?cost + tx_value ?t \<le> balance (p_acct (public w) caller)" using gp0 tv gp(4) a(2) by simp_all
  have ready: "ready_on Ss w1" by (rule charged_ready [OF w1(2,3) w(2,3) cost(1)]) (use cost tv in simp)
  have m: "plain_message (tx_host H R caller gasPrice) ?m dst (public w1)"
    using p cost tv by (simp add: plain_message_def plain_tx_def tx_message_def default_message_def w1(3) plus_balance_def with_account_def tx_host_def)
  have nm: "new_Message ?m = Inr ?m" using p tv by (simp add: new_Message_def tx_message_def default_message_def plain_tx_def MAX_INT64_def)
  obtain w2 where w2: "tvm_runCall (tx_host H R caller gasPrice) False txid ?m w1 = (Inr (plain_result (top_message ?m)), w2)" "at_rest Ss w2"
    "public w2 = (prepared (top_message ?m) (public w1))\<lparr>p_acct := moved ?m dst (p_acct (prepared (top_message ?m) (public w1)))\<rparr>"
    by (rule plain_call [OF ready m c])
  let ?r = "plain_result (top_message ?m)"
  have x: "x_exceptionError (execResult ?r) = None" "x_executionGasUsed (execResult ?r) = 0" "x_gasRefund (execResult ?r) = Some 0"
    "x_selfdestruct (execResult ?r) = Map.empty" "x_logs (execResult ?r) = []"
    by (simp_all add: plain_result_def mk_result_def empty_result_def top_message_def)
  have total: "total_gas (h_common H) (getIntrinsicGas ?t) (execResult ?r) = getIntrinsicGas ?t"
    using x by (simp add: total_gas_def Let_def or_else_def)
  obtain y w3 where y: "settle_tx H R caller gasPrice inclusionFee ?r w2 = (Inr y, w3)" "lockstep (Levels [] (Ss, jsaved (w_jr w2))) w3"
    "public w3 = after_message H R caller gasPrice inclusionFee ?r (public w2)" "rt_result y = ?r"
    "rt_totalGasSpent y = total_gas (h_common H) (getIntrinsicGas ?t) (execResult ?r)"
    using settle_tx_lockstep [OF rest_lockstep [OF w2(2)] H] by blast
  have "run_tx_steps H R txid w = (Inr y, w3)"
    using w1(1) w2(1) y(1) by (simp add: bnd_def tx_call_def run_call_def nm)
  note run = this
  have "dst \<noteq> caller" "tx_tokenValue ?t = 0" using p by (simp_all add: plain_tx_def)
  moreover have "m_depth (top_message ?m) = 0" "m_caller (top_message ?m) = caller" "m_caller ?m = caller" "m_value ?m = tx_value ?t"
    "m_tokenValue ?m = tx_tokenValue ?t" "\<not> m_delegatecall ?m"
    by (simp_all add: top_message_def tx_message_def default_message_def)
  ultimately have "paid_transfer R caller dst gasPrice inclusionFee (public w) (public w3)"
    unfolding paid_transfer_def y(3) after_message_def Let_def total x(4) w2(3) w1(3)
    by (simp add: cleared_def moved_def debit_def credit_def prepared_def Let_def plus_balance_def with_account_def algebra_simps)
  with run show ?thesis using y(2,4,5) x(1,5) total by (intro exI [of _ y] exI [of _ w3]) (auto simp: failed_def)
qed

lemma plain_runTx:
  assumes "host_ok H" "tx_input_ok R" "new_tx (ro_env R) b d = Inr (ro_tx R)" "ready_on Ss w" "reportable R"
    "plain_tx H R caller dst (public w)" "root_id R = Inr txid" "context_ok txid"
  shows "\<exists>x w' gasPrice inclusionFee. runTx H R w = (Inr x, w') \<and> gas_prices R = Inr (gasPrice, inclusionFee) \<and> \<not> failed (rt_result x) \<and>
    x_logs (execResult (rt_result x)) = [] \<and> rt_totalGasSpent x = getIntrinsicGas (ro_tx R) \<and> paid_transfer R caller dst gasPrice inclusionFee (public w) (public w')"
proof -
  have t: "tx_ok (ro_env R) (ro_tx R)" using assms(3) by (rule new_tx_ok)
  have w: "at_rest Ss w" "pub_ok (supply_of w) (public w)" "caps_ok (supply_of w)" using assms(4) by (simp_all add: ready_on_def rest_ok_def)
  have "header_baseFee R \<le> max_price (ro_tx R)" using assms(6) by (simp add: plain_tx_def admitted_def)
  then obtain gasPrice inclusionFee where g: "gas_prices R = Inr (gasPrice, inclusionFee)" by (rule gas_prices_total [OF t])
  let ?Q = "\<lambda>x p'. \<not> failed (rt_result x) \<and> x_logs (execResult (rt_result x)) = [] \<and> rt_totalGasSpent x = getIntrinsicGas (ro_tx R) \<and> paid_transfer R caller dst gasPrice inclusionFee (public w) p'"
  obtain x w' where "runTx H R w = (Inr x, w')" "?Q x (public w')"
  proof (rule runTx_goes [OF assms(2) w(1) assms(7) _ _ assms(5), where H = H and Q = ?Q])
    show "tv_chainId (ro_env R) = h_chainId H" "tx_gasLimit (ro_tx R) \<le> block_gasLimit (header R)" using assms(6) by (simp_all add: plain_tx_def)
    fix v Js u
    assume u: "lockstep (Levels [] (v # Ss, Js)) u" "public u = public w"
    show "\<exists>x u' Js'. run_tx_steps H R txid u = (Inr x, u') \<and> lockstep (Levels [] (v # Ss, Js')) u' \<and> ?Q x (public u')"
      using plain_run_steps [OF assms(1,2) t u(1) _ w(3) _ g assms(8), of caller dst] w(2) assms(6) by (simp add: u(2))
  qed
  with g show ?thesis by blast
qed

section \<open>Properties\<close>

text \<open>
  C5. Admissible transfers go through: a constructed transaction that sends currency to an account without code, from a sender who
  is admitted and can pay, is executed without error; it costs exactly its intrinsic gas and logs nothing, and the balances change by exactly the value, the
  fee of the sender and the tip of the miner.
\<close>
theorem plain_transfer_succeeds:
  assumes "host_ok H" "tx_input_ok R" "new_tx (ro_env R) b d = Inr (ro_tx R)" "ready_on Ss w" "reportable R"
    "plain_tx H R caller dst (public w)" "root_id R = Inr txid" "context_ok txid"
  shows "\<exists>x w' gasPrice inclusionFee. runTx H R w = (Inr x, w') \<and> gas_prices R = Inr (gasPrice, inclusionFee) \<and> \<not> failed (rt_result x) \<and>
    x_logs (execResult (rt_result x)) = [] \<and> rt_totalGasSpent x = getIntrinsicGas (ro_tx R) \<and> paid_transfer R caller dst gasPrice inclusionFee (public w) (public w')"
  using plain_runTx [OF assms] .

section \<open>An instance\<close>

definition payer :: address where
  "payer = 0x0303030303030303030303030303030303030303"

definition pay_world :: world where
  "pay_world = snd (journal_putAccount payer (Some (new_account\<lparr>balance := 1000000, nonce := 9\<rparr>)) new_world)"

definition pay_run :: run_tx_opts where
  "pay_run = \<lparr>ro_tx = paying_tx, ro_env = block_env, ro_block = Some (block_context (blk_header sample_block)), ro_headerGasUsed = 0,
     ro_blockGasUsed = None, ro_skipBalance = False, ro_skipNonce = False, ro_skipBlockGasLimit = False, ro_reportAccessList = False,
     ro_reportPreimages = False, ro_rootTransactionId = None, ro_requireExplicit = True\<rparr>"

lemma pay_world_facts:
  "lockstep (Levels [] ([], [])) pay_world"
  "public pay_world = (public new_world)\<lparr>p_acct := (\<lambda>_. new_account)(payer := new_account\<lparr>balance := 1000000, nonce := 9\<rparr>)\<rparr>"
proof -
  obtain w where "journal_putAccount payer (Some (new_account\<lparr>balance := 1000000, nonce := 9\<rparr>)) new_world = (Inr (), w)" "lockstep (Levels [] ([], [])) w"
    "public w = (public new_world)\<lparr>p_acct := (p_acct (public new_world))(payer := new_account\<lparr>balance := 1000000, nonce := 9\<rparr>)\<rparr>"
    by (rule put_account_lockstep [OF new_world_lockstep])
  then show "lockstep (Levels [] ([], [])) pay_world"
    "public pay_world = (public new_world)\<lparr>p_acct := (\<lambda>_. new_account)(payer := new_account\<lparr>balance := 1000000, nonce := 9\<rparr>)\<rparr>"
    by (simp_all add: pay_world_def new_world_public)
qed

lemma pay_world_ready: "ready_on [] pay_world"
proof -
  let ?acc = "new_account\<lparr>balance := 1000000, nonce := 9\<rparr>"
  have "account_ok (new_account\<lparr>balance := 1000000\<rparr>)" using account_ok_balance [OF new_account_ok, of 1000000] by simp
  moreover have "holding k ?acc = holding k (new_account\<lparr>balance := 1000000\<rparr>)" for k by (cases k) (simp_all add: getTokenBalance_def)
  ultimately have acc: "account_ok ?acc" by (simp add: account_ok_def)
  have "total_supply k (\<lambda>_. new_account) = 0" for k by (simp add: total_supply_def)
  then have sup: "supply_of pay_world k = (if k = None then 1000000 else 0)" for k
    by (cases k) (simp_all add: supply_of_def pay_world_facts(2) supply_upd getTokenBalance_def new_account_def)
  have "total_supply k (p_acct (public pay_world)) \<le> supply_of pay_world k" for k by (simp add: supply_of_def)
  then have "pub_ok (supply_of pay_world) (public pay_world)"
    unfolding pub_ok_def using acc new_account_ok by (simp add: pay_world_facts(2) new_world_public is_word_def TWO_POW256_def)
  then show ?thesis using lockstep_rest(1) [OF pay_world_facts(1)] sup by (simp add: ready_on_def rest_ok_def caps_ok_def TWO_POW256_def)
qed

lemma paying_facts: "tx_to paying_tx = Some 0x1234" "tx_value paying_tx = 260" "tx_gasLimit paying_tx = 30000" "supports paying_tx 1559"
  "tx_tokenId paying_tx = 0" "tx_tokenValue paying_tx = 0" "max_price paying_tx = 30" "tx_nonce paying_tx = 9" "tx_data paying_tx = [0, 1]"
  "getUpfrontCost paying_tx (Some 7) = 270260"
  by (simp_all add: paying_tx_def signed_tx_def sample_tx_def is_legacy_def supports_def max_price_def getUpfrontCost_def or_else_def Let_def)

lemma pay_header: "header_baseFee pay_run = 7" "block_gasLimit (header pay_run) = 100000" "coinbase (header pay_run) = 0"
  by (simp_all add: header_baseFee_def header_def pay_run_def or_else_def block_context_def sample_block_def sample_header_def)

lemma pay_input: "tx_input_ok pay_run" "reportable pay_run" "root_id pay_run = Inr None" "ro_tx pay_run = paying_tx" "ro_env pay_run = block_env"
  by (simp_all add: tx_input_ok_def pay_run_def paying_facts bytes_ok_def is_word_def TWO_POW256_def reportable_def root_id_def
      block_ok_def block_context_def sample_block_def sample_header_def)

lemma pay_plain: "plain_tx sample_host pay_run payer 0x1234 (public pay_world)"
proof -
  have "pubToAddress block_env (replicate 64 3) = Inr payer" by code_simp
  then have s: "getSenderAddress block_env paying_tx = Inr payer" by (simp add: getSenderAddress_def paying_sender)
  have "tv_chainId block_env = 1" by (simp add: block_env_def sample_env_def)
  then show ?thesis using paying_gas
    by (simp add: plain_tx_def pay_input s paying_facts pay_header admitted_def pay_world_facts(2) new_world_public sample_host_def)
      (simp add: payer_def new_account_def)
qed

theorem plain_transfer_succeeds_witness:
  "\<exists>x w'. runTx sample_host pay_run pay_world = (Inr x, w') \<and> \<not> failed (rt_result x) \<and> balance (p_acct (public w') 0x1234) = 260"
proof -
  obtain k d where k: "new_tx block_env k d = Inr paying_tx" using paying_new by blast
  have "\<exists>x w' g i. runTx sample_host pay_run pay_world = (Inr x, w') \<and> gas_prices pay_run = Inr (g, i) \<and> \<not> failed (rt_result x) \<and>
      x_logs (execResult (rt_result x)) = [] \<and> rt_totalGasSpent x = getIntrinsicGas (ro_tx pay_run) \<and> paid_transfer pay_run payer 0x1234 g i (public pay_world) (public w')"
    by (rule plain_transfer_succeeds [OF sample_ok(1) pay_input(1) _ pay_world_ready pay_input(2) pay_plain pay_input(3), of k d])
      (simp_all add: pay_input k context_ok_def)
  moreover have "balance (p_acct (public pay_world) 0x1234) = 0" by (simp add: pay_world_facts(2) payer_def new_account_def)
  ultimately show ?thesis by (force simp: paid_transfer_def pay_input paying_facts pay_header payer_def)
qed

end
