(* ===== verification/GenerateProps.thy ===== *)
theory GenerateProps
  imports PlainTransfer
begin

text \<open>
  A block whose header was filled in by \<^verbatim>\<open>runBlock\<close> is accepted by \<^verbatim>\<open>runBlock\<close>: the results depend on none of the fields
  that are filled in, and the block that is made from the fields of a block and its transactions is the same block
  with these fields. At the end, a block with a transfer that is executed.
\<close>

section \<open>Objects are read back\<close>

lemma opt_val_array: "\<not> is_array (opt_val v)"
  by (cases v) (simp_all add: opt_val_def is_array_def)

lemma opt_val_back: "pred_option (\<lambda>n. 0 \<le> n) v \<Longrightarrow> sig_value (opt_val v) = Inr v"
  by (cases v) (simp_all add: opt_val_def sig_value_Big, simp add: sig_value_def util_toBytes_def)

lemma tx_object_new:
  assumes "tx_ok E t" "0 \<le> tv_chainId E"
  shows "(case tx_object E t of (k, d) \<Rightarrow> new_tx E k d) = Inr t"
proof -
  note nn = tx_ok_nonneg [OF assms(1)] tx_ok_prices [OF assms(1)]
  define d where "d = snd (tx_object E t)"
  have obj: "tx_object E t = (tx_body t, d)" by (simp add: d_def tx_object_def Let_def)
  have v: "sig_value (opt_val (tx_v t)) = Inr (tx_v t)" "sig_value (opt_val (tx_r t)) = Inr (tx_r t)" "sig_value (opt_val (tx_s t)) = Inr (tx_s t)"
    using nn by (simp_all add: opt_val_back)
  have reads: "reads d t" unfolding d_def using nn
    by (cases "tx_body t") (simp_all add: reads_def validateNotArray_def tx_object_def no_input_def Let_def to_int_Big opt_val_array v)
  show ?thesis
  proof (cases "tx_body t")
    case (LegacyTx p)
    have "newLegacyTx E d = Inr t"
      by (rule newLegacyTx_reads [OF reads _ LegacyTx assms(1)]) (use nn LegacyTx in \<open>simp add: d_def tx_object_def Let_def to_int_Big\<close>)
    then show ?thesis by (simp add: obj new_tx_def LegacyTx)
  next
    case (AccessList2930Tx p a)
    have "newAccessList2930Tx E d = Inr t"
      by (rule newAccessList2930Tx_reads [OF reads _ _ _ AccessList2930Tx assms(1)])
        (use nn AccessList2930Tx assms(2) in \<open>simp_all add: d_def tx_object_def Let_def to_int_Big chain_matches_def\<close>)
    then show ?thesis by (simp add: obj new_tx_def AccessList2930Tx)
  next
    case (FeeMarket1559Tx mp mf a)
    have "newFeeMarket1559Tx E d = Inr t"
      by (rule newFeeMarket1559Tx_reads [OF reads _ _ _ _ FeeMarket1559Tx assms(1)])
        (use nn FeeMarket1559Tx assms(2) in \<open>simp_all add: d_def tx_object_def Let_def to_int_Big chain_matches_def\<close>)
    then show ?thesis by (simp add: obj new_tx_def FeeMarket1559Tx)
  qed
qed

lemma read_nonneg: "or_int (Big n) m = Inr k \<longleftrightarrow> 0 \<le> n \<and> k = n"
proof (cases "0 \<le> n")
  case True
  then show ?thesis by (auto simp: or_int_def to_int_Big)
next
  case False
  then show ?thesis by (simp add: or_int_def to_int_def util_toBytes_def bigIntToBytes_def)
qed

lemma read_object [simp]: "or_bytes (Val (RBytes b)) d = Inr b" "0 \<le> n \<Longrightarrow> or_int (Big n) m = Inr n"
  by (simp_all add: or_bytes_def util_toBytes_def or_int_def to_int_Big)

text \<open>The header that results are filled into.\<close>

definition filled :: "block_header \<Rightarrow> block_acc \<Rightarrow> bytes \<Rightarrow> bytes \<Rightarrow> bytes \<Rightarrow> block_header" where
  "filled h acc receipts stateRoot txRoot = h\<lparr>bh_stateRoot := stateRoot, bh_logsBloom := ba_bloom acc, bh_gasUsed := ba_gasUsed acc,
     bh_receiptTrie := receipts, bh_transactionsTrie := txRoot\<rparr>"

lemma filled_header:
  assumes "header_ok h" "0 \<le> ba_gasUsed acc"
  shows "new_header ((header_object h)\<lparr>hd_stateRoot := Val (RBytes stateRoot), hd_logsBloom := Val (RBytes (ba_bloom acc)),
      hd_gasUsed := Big (ba_gasUsed acc), hd_receiptTrie := Val (RBytes receipts), hd_transactionsTrie := Val (RBytes txRoot)\<rparr>) =
    map_sum id (\<lambda>_. filled h acc receipts stateRoot txRoot) (genericFormatValidation (filled h acc receipts stateRoot txRoot))"
  using assms header_ok_gasLimit [OF assms(1)]
  by (cases h, simp add: new_header_def header_object_def header_ok_def new_address_bytes reject_def filled_def Let_def)
    (simp add: then_sum_def map_sum_def split: sum.split)

lemma generate_block_eq:
  assumes "header_ok (block_head B)" "\<forall>t \<in> set (blk_txs (bo_block B)). tx_ok (bo_env B) t" "0 \<le> tv_chainId (bo_env B)"
  shows "generate_block B acc stateRoot = Inr b \<longleftrightarrow> 0 \<le> ba_gasUsed acc \<and> (\<exists>root. genTxTrie (bo_env B) (bo_block B) = Inr root \<and>
    genericFormatValidation (filled (block_head B) acc (receiptsRoot B acc) stateRoot root) = Inr () \<and>
    b = \<lparr>blk_header = filled (block_head B) acc (receiptsRoot B acc) stateRoot root, blk_txs = blk_txs (bo_block B)\<rparr>)"
proof (cases "0 \<le> ba_gasUsed acc")
  case True
  have "map ((\<lambda>(k, d). new_tx (bo_env B) k d) \<circ> tx_object (bo_env B)) (blk_txs (bo_block B)) = map Inr (blk_txs (bo_block B))"
    using assms(2,3) tx_object_new by (simp add: comp_def)
  then have "collect (map (\<lambda>(k, d). new_tx (bo_env B) k d) (map (tx_object (bo_env B)) (blk_txs (bo_block B)))) = Inr (blk_txs (bo_block B))"
    by (simp add: collect_Inr)
  with True show ?thesis
    by (auto simp: generate_block_def createBlock_def filled_header [OF assms(1)] new_block_def reject_def sum_steps)
next
  case False
  have "generate_block B acc stateRoot \<noteq> Inr b"
    by (auto simp: generate_block_def createBlock_def new_header_def sum_steps read_nonneg False)
  with False show ?thesis by simp
qed

section \<open>The same transactions with another header\<close>

text \<open>The gas used before the transaction counts, not where it is taken from.\<close>

lemma runTx_cumulative:
  assumes "(case v of Some g \<Rightarrow> g | None \<Rightarrow> u) = (case ro_blockGasUsed R of Some g \<Rightarrow> g | None \<Rightarrow> ro_headerGasUsed R)"
  shows "runTx H (R\<lparr>ro_headerGasUsed := u, ro_blockGasUsed := v\<rparr>) = runTx H R"
proof -
  let ?R = "R\<lparr>ro_headerGasUsed := u, ro_blockGasUsed := v\<rparr>"
  have h: "header ?R = header R" "header_baseFee ?R = header_baseFee R" "root_id ?R = root_id R" "gas_prices ?R = gas_prices R"
    by (simp_all add: header_def header_baseFee_def root_id_def gas_prices_def split: option.split)
  have c: "check_upfront ?R = check_upfront R" "check_maxCost ?R = check_maxCost R" "deduct_cost ?R = deduct_cost R"
    "tx_host H ?R = tx_host H R" "updateMinerBalance ?R = updateMinerBalance R"
    by (simp_all add: check_upfront_def check_maxCost_def deduct_cost_def tx_host_def updateMinerBalance_def h fun_eq_iff Let_def cong: if_cong)
  have s: "settle_tx H ?R = settle_tx H R"
    using assms by (simp add: settle_tx_def c fun_eq_iff cong: option.case_cong)
  have "run_tx_steps H ?R = run_tx_steps H R"
    by (simp add: run_tx_steps_def h c s fun_eq_iff)
  then show ?thesis by (simp add: runTx_def run_tx_inner_def h)
qed

lemma apply_txs_header:
  assumes "block_context (blk_header b) = block_context (block_head B)"
  shows "apply_txs H (B\<lparr>bo_block := b, bo_generate := g, bo_skipBlockValidation := v, bo_skipHeaderValidation := h, bo_validateHeader := f\<rparr>) i ts acc =
    apply_txs H B i ts acc"
proof (induction ts arbitrary: i acc)
  case (Cons t ts)
  let ?B = "B\<lparr>bo_block := b, bo_generate := g, bo_skipBlockValidation := v, bo_skipHeaderValidation := h, bo_validateHeader := f\<rparr>"
  have "bh_gasLimit (blk_header b) = bh_gasLimit (block_head B)" using assms by (simp add: block_context_def)
  moreover have "runTx H (block_tx_opts ?B i t u) = runTx H (block_tx_opts B i t u)" for u
  proof -
    have "block_tx_opts ?B i t u = (block_tx_opts B i t u)\<lparr>ro_headerGasUsed := bh_gasUsed (blk_header b), ro_blockGasUsed := Some u\<rparr>"
      using assms by (simp add: block_tx_opts_def)
    moreover have "ro_blockGasUsed (block_tx_opts B i t u) = Some u" by (simp add: block_tx_opts_def)
    ultimately show ?thesis by (simp add: runTx_cumulative)
  qed
  ultimately show ?case by (simp add: Cons.IH)
qed simp

section \<open>What was executed is valid\<close>

text \<open>A key that the curve recovers is a point, and so not all zero.\<close>

definition curve_ok :: "tx_env \<Rightarrow> bool" where
  "curve_ok E \<longleftrightarrow> (\<forall>h v b k. tv_recover E h v b = Some k \<longrightarrow> unpadBytes k \<noteq> [])"

lemma returns_demand: "(b \<Longrightarrow> returns P n) \<Longrightarrow> returns P (sq (demand b msg) n)"
  by (cases b) (auto simp: returns_def demand_run)

lemma returns_always: "c \<Longrightarrow> returns (\<lambda>_. c) m"
  by (simp add: returns_def)

lemma runTx_demands:
  "returns (\<lambda>_. (\<exists>caller. getSenderAddress (ro_env R) (ro_tx R) = Inr caller) \<and> getIntrinsicGas (ro_tx R) \<le> tx_gasLimit (ro_tx R) \<and>
     header_baseFee R \<le> max_price (ro_tx R)) (runTx H R)"
proof -
  have "returns (\<lambda>_. (\<exists>caller. getSenderAddress (ro_env R) (ro_tx R) = Inr caller) \<and> getIntrinsicGas (ro_tx R) \<le> tx_gasLimit (ro_tx R) \<and>
     header_baseFee R \<le> max_price (ro_tx R)) (run_tx_steps H R txid)" for txid
    unfolding run_tx_steps_def Let_def by (rule returns_lift, rule returns_demand, rule returns_demand, rule returns_always) simp
  then show ?thesis unfolding runTx_def run_tx_inner_def Let_def
    by (intro returns_bnd returns_sq returns_finally returns_on_throw returns_keep)
qed

lemma catch_sum_Inr: "catch_sum r msg = Inr y \<longleftrightarrow> r = Inr y"
  by (cases r) (simp_all add: catch_sum_def)

lemma executed_valid:
  assumes "runTx H R w = (Inr x, w')" "curve_ok (ro_env R)"
  shows "isSigned (ro_tx R)" "getValidationErrors (ro_env R) (ro_tx R) = []" "header_baseFee R \<le> max_price (ro_tx R)"
proof -
  obtain caller where c: "getSenderAddress (ro_env R) (ro_tx R) = Inr caller" "getIntrinsicGas (ro_tx R) \<le> tx_gasLimit (ro_tx R)"
    "header_baseFee R \<le> max_price (ro_tx R)"
    using runTx_demands assms(1) unfolding returns_def by blast
  obtain k where k: "getSenderPublicKey (ro_env R) (ro_tx R) = Inr k" using c(1) by (auto simp: getSenderAddress_def then_sum_Inr)
  obtain v r s where vrs: "tx_v (ro_tx R) = Some v" "tx_r (ro_tx R) = Some r" "tx_s (ro_tx R) = Some s"
    using k by (cases "tx_v (ro_tx R)"; cases "tx_r (ro_tx R)"; cases "tx_s (ro_tx R)") (auto simp: getSenderPublicKey_def catch_sum_Inr sum_steps)
  then show "isSigned (ro_tx R)" by (simp add: isSigned_def)
  have "\<exists>h u b. tv_recover (ro_env R) h u b = Some k"
    using k by (auto simp: getSenderPublicKey_def catch_sum_Inr vrs ecrecover_def Let_def sum_steps split: option.splits)
  then have "verifySignature (ro_env R) (ro_tx R)" using assms(2) by (auto simp: verifySignature_def k curve_ok_def)
  then show "getValidationErrors (ro_env R) (ro_tx R) = []" using c(2) by (simp add: getValidationErrors_def)
  show "header_baseFee R \<le> max_price (ro_tx R)" by (rule c(3))
qed

lemma apply_txs_valid:
  assumes "apply_txs H B i ts acc w = (Inr acc', w')" "curve_ok (bo_env B)"
  shows "\<forall>t \<in> set ts. isSigned t \<and> block_tx_errors (bo_env B) (block_head B) t = []"
  using assms(1)
proof (induction ts arbitrary: i acc w)
  case (Cons t ts)
  let ?R = "block_tx_opts B i t (ba_receiptGasUsed acc)"
  obtain x w1 acc1 where x: "runTx H ?R w = (Inr x, w1)" "apply_txs H B (Suc i) ts acc1 w1 = (Inr acc', w')"
    using Cons.prems by (auto simp: demand_run lift_run bnd_def [of "runTx H ?R"] split: if_splits prod.splits sum.splits)
  have R: "ro_tx ?R = t" "ro_env ?R = bo_env B" "header_baseFee ?R = bh_baseFee (block_head B)"
    by (simp_all add: block_tx_opts_def header_baseFee_def header_def or_else_def block_context_def)
  note v = executed_valid [OF x(1), unfolded R, OF assms(2)]
  then show ?case using Cons.IH [OF x(2)] by (simp add: block_tx_errors_def)
qed simp

lemma applied_valid:
  assumes "applyTransactions H B w = (Inr acc, w')" "curve_ok (bo_env B)"
  shows "transactionsAreValid (bo_env B) (bo_block B)" "list_all isSigned (blk_txs (bo_block B))"
proof -
  note v = apply_txs_valid [OF assms(1) [unfolded applyTransactions_def] assms(2)]
  then show "transactionsAreValid (bo_env B) (bo_block B)"
    by (auto simp: transactionsAreValid_def getTransactionsValidationErrors_def filter_empty_conv in_set_enumerate_eq)
  show "list_all isSigned (blk_txs (bo_block B))" using v by (simp add: list_all_iff)
qed

text \<open>What the validation of a block asks for besides its transactions.\<close>

definition header_rules :: "run_block_opts \<Rightarrow> bool" where
  "header_rules B \<longleftrightarrow> bo_skipBlockValidation B \<or>
     bh_gasLimit (block_head B) < 2 ^ 63 \<and> uncleHashIsValid (bo_block B) \<and>
     (bo_skipHeaderValidation B \<or> (case bo_validateHeader B of None \<Rightarrow> False | Some f \<Rightarrow> f (block_head B) = Inr ()))"

lemma validate_block_rules:
  assumes "transactionsAreValid (bo_env B) (bo_block B)" "list_all isSigned (blk_txs (bo_block B))"
    "transactionsTrieIsValid (bo_env B) (bo_block B) = Inr True"
  shows "validate_block B = Inr () \<longleftrightarrow> header_rules B"
  using assms by (auto simp: validate_block_def header_rules_def validateData_def transactionsAreValid_def reject_def then_sum_Inr split: option.splits)

text \<open>The steps of a block that was executed.\<close>

lemma runBlock_steps:
  "runBlock H B w = (Inr x, w') \<longleftrightarrow> (\<exists>w1 acc w2 stateRoot b. journal_checkpoint w = (Inr (), w1) \<and> validate_block B = Inr () \<and>
    applyTransactions H B w1 = (Inr acc, w2) \<and> bo_stateRoot B w2 = Inr stateRoot \<and>
    (if bo_generate B then generate_block B acc stateRoot = Inr b else check_header B acc stateRoot = Inr () \<and> b = bo_block B) \<and>
    journal_commit w2 = (Inr (), w') \<and>
    x = \<lparr>bx_results = ba_results acc, bx_logsBloom = ba_bloom acc, bx_gasUsed = ba_gasUsed acc,
         bx_receiptsRoot = receiptsRoot B acc, bx_stateRoot = stateRoot, bx_block = b\<rparr>)"
  by (auto simp: runBlock_def run_block_steps_def applyBlock_def sq_def bnd_def on_throw_def throw_def lift_sum_def
      gets_def ret_def then_sum_Inr split: prod.splits sum.splits if_splits)

lemma runBlock_error: "(\<And>x w'. runBlock H B w \<noteq> (Inr x, w')) \<Longrightarrow> \<exists>e w'. runBlock H B w = (Inl e, w')"
  by (metis surj_pair sumE)

text \<open>Whether a block whose results fit is accepted is a matter of its header only.\<close>

lemma runBlock_by_rules:
  assumes "journal_checkpoint w = (Inr (), w1)" "applyTransactions H B w1 = (Inr acc, w2)" "bo_stateRoot B w2 = Inr root"
    "check_header B acc root = Inr ()" "journal_commit w2 = (Inr (), w')" "\<not> bo_generate B" "curve_ok (bo_env B)"
    "transactionsTrieIsValid (bo_env B) (bo_block B) = Inr True"
    and x: "x = \<lparr>bx_results = ba_results acc, bx_logsBloom = ba_bloom acc, bx_gasUsed = ba_gasUsed acc,
         bx_receiptsRoot = receiptsRoot B acc, bx_stateRoot = root, bx_block = bo_block B\<rparr>"
  shows "if header_rules B then runBlock H B w = (Inr x, w') else \<exists>e u. runBlock H B w = (Inl e, u)"
proof -
  have v: "validate_block B = Inr () \<longleftrightarrow> header_rules B"
    by (rule validate_block_rules [OF applied_valid [OF assms(2,7)] assms(8)])
  show ?thesis
  proof (cases "header_rules B")
    case True
    then show ?thesis using runBlock_steps [of H B w x w'] assms v by simp
  next
    case False
    then have "runBlock H B w \<noteq> (Inr y, u)" for y u using runBlock_steps [of H B w y u] v by blast
    with False runBlock_error [of H B w] show ?thesis by simp
  qed
qed

text \<open>A block that was made from \<open>B\<close> with the results in its header, under any options of validation.\<close>

definition rerun :: "run_block_opts \<Rightarrow> blk \<Rightarrow> bool \<Rightarrow> bool \<Rightarrow> (block_header \<Rightarrow> exn + unit) option \<Rightarrow> run_block_opts" where
  "rerun B b v h f = B\<lparr>bo_block := b, bo_generate := False, bo_skipBlockValidation := v, bo_skipHeaderValidation := h, bo_validateHeader := f\<rparr>"

lemma runBlock_generated:
  assumes "new_header d = Inr (block_head B)" "\<forall>t \<in> set (blk_txs (bo_block B)). \<exists>k i. new_tx (bo_env B) k i = Inr t"
    "0 \<le> tv_chainId (bo_env B)" "curve_ok (bo_env B)" "runBlock H (B\<lparr>bo_generate := True\<rparr>) w = (Inr x, w')"
  shows "(if header_rules (rerun B (bx_block x) v h f) then runBlock H (rerun B (bx_block x) v h f) w = (Inr x, w')
      else \<exists>e u. runBlock H (rerun B (bx_block x) v h f) w = (Inl e, u)) \<and>
    blk_txs (bx_block x) = blk_txs (bo_block B) \<and> transactionsTrieIsValid (bo_env B) (bx_block x) = Inr True \<and>
    (\<exists>txRoot. blk_header (bx_block x) = (block_head B)\<lparr>bh_stateRoot := bx_stateRoot x, bh_logsBloom := bx_logsBloom x,
       bh_gasUsed := bx_gasUsed x, bh_receiptTrie := bx_receiptsRoot x, bh_transactionsTrie := txRoot\<rparr>)"
proof -
  let ?B = "B\<lparr>bo_generate := True\<rparr>" and ?E = "bo_env B"
  have ok: "header_ok (block_head ?B)" "\<forall>t \<in> set (blk_txs (bo_block ?B)). tx_ok (bo_env ?B) t"
    using new_header_ok [OF assms(1)] assms(2) new_tx_ok by auto
  obtain w1 acc w2 root b where r: "journal_checkpoint w = (Inr (), w1)" "applyTransactions H ?B w1 = (Inr acc, w2)"
    "bo_stateRoot B w2 = Inr root" "generate_block ?B acc root = Inr b" "journal_commit w2 = (Inr (), w')"
    and x: "x = \<lparr>bx_results = ba_results acc, bx_logsBloom = ba_bloom acc, bx_gasUsed = ba_gasUsed acc,
         bx_receiptsRoot = receiptsRoot ?B acc, bx_stateRoot = root, bx_block = b\<rparr>"
    using runBlock_steps [of H ?B w x w'] assms(5) by auto
  obtain txRoot where t: "genTxTrie ?E (bo_block B) = Inr txRoot"
    and b: "b = \<lparr>blk_header = filled (block_head B) acc (receiptsRoot ?B acc) root txRoot, blk_txs = blk_txs (bo_block B)\<rparr>"
    using r(4) generate_block_eq [OF ok] assms(3) by auto
  let ?G = "rerun B b v h f"
  have G: "bo_env ?G = ?E" "bo_block ?G = b" "\<not> bo_generate ?G" "bo_stateRoot ?G = bo_stateRoot B" by (simp_all add: rerun_def)
  have "block_context (blk_header b) = block_context (block_head B)" by (simp add: b filled_def block_context_def)
  from apply_txs_header [OF this, where H = H and g = False and v = v and h = h and f = f]
    apply_txs_header [where b = "bo_block B" and B = B and H = H and g = True and v = "bo_skipBlockValidation B" and
      h = "bo_skipHeaderValidation B" and f = "bo_validateHeader B", OF refl]
  have a: "applyTransactions H ?G w1 = (Inr acc, w2)" using r(2) by (simp add: applyTransactions_def rerun_def b)
  have rr: "receiptsRoot ?G acc = receiptsRoot ?B acc" by (simp add: receiptsRoot_def G(2), simp add: b)
  have "check_header ?G acc root = Inr ()"
    by (simp add: check_header_def Let_def rr reject_def equalsBytes_eq G(2)) (simp add: b filled_def)
  moreover have v: "transactionsTrieIsValid ?E b = Inr True"
    using t by (auto simp: transactionsTrieIsValid_def genTxTrie_def b filled_def equalsBytes_eq split: if_splits)
  ultimately have "if header_rules ?G then runBlock H ?G w = (Inr x, w') else \<exists>e u. runBlock H ?G w = (Inl e, u)"
    by (intro runBlock_by_rules [OF r(1) a _ _ r(5)]) (use r(3) assms(4) in \<open>simp_all add: G x rr\<close>)
  with v show ?thesis by (auto simp: x b filled_def)
qed

section \<open>Properties\<close>

text \<open>
  C16. Generated blocks are valid: if \<^verbatim>\<open>runBlock\<close> is asked to fill in the header of a block of constructed parts and succeeds, the block
  it makes has the same transactions and a header that differs in the five results only, and its root of
  transactions is valid. Running it from the same state, with its header compared to the results, succeeds with the same results and
  the same state, under any options of validation (by default the block and its header are validated) exactly if the rules that do not concern the results hold: the
  gas limit is below $2^{63}$, there are no uncles, and the blockchain accepts the header. Of these the \<^verbatim>\<open>validateHeader\<close> of the
  blockchain says the same as of the header that was given; that the transactions are valid and signed follows from their execution, if
  the curve recovers points only.
\<close>
theorem generated_block_accepted:
  assumes "new_header d = Inr (block_head B)" "\<forall>t \<in> set (blk_txs (bo_block B)). \<exists>k i. new_tx (bo_env B) k i = Inr t"
    "0 \<le> tv_chainId (bo_env B)" "curve_ok (bo_env B)" "runBlock H (B\<lparr>bo_generate := True\<rparr>) w = (Inr x, w')"
  shows "(if header_rules (rerun B (bx_block x) v h f) then runBlock H (rerun B (bx_block x) v h f) w = (Inr x, w')
      else \<exists>e u. runBlock H (rerun B (bx_block x) v h f) w = (Inl e, u)) \<and>
    validateHeader getHeader height (blk_header (bx_block x)) = validateHeader getHeader height (block_head B) \<and>
    blk_txs (bx_block x) = blk_txs (bo_block B) \<and> transactionsTrieIsValid (bo_env B) (bx_block x) = Inr True \<and>
    (\<exists>txRoot. blk_header (bx_block x) = (block_head B)\<lparr>bh_stateRoot := bx_stateRoot x, bh_logsBloom := bx_logsBloom x,
       bh_gasUsed := bx_gasUsed x, bh_receiptTrie := bx_receiptsRoot x, bh_transactionsTrie := txRoot\<rparr>)"
proof -
  note g = runBlock_generated [OF assms, of v h f]
  then have "validateHeader getHeader height (blk_header (bx_block x)) = validateHeader getHeader height (block_head B)"
    by (auto simp: validateHeader_def isGenesis_def validateGasLimit_def)
  with g show ?thesis by blast
qed

section \<open>An instance\<close>

text \<open>The sample block, with the hash function of its transactions, on a world where the sender of its transfer can pay.\<close>

definition pay_host :: host where
  "pay_host = sample_host\<lparr>h_keccak := tv_keccak block_env\<rparr>"

definition pay_block :: run_block_opts where
  "pay_block = sample_block_run\<lparr>bo_skipBlockValidation := True\<rparr>"

lemma pay_host_ok: "host_ok pay_host"
  using sample_ok(1) block_hash_length by (simp add: pay_host_def host_ok_def)

lemma pay_block_facts: "bo_env pay_block = block_env" "bo_block pay_block = sample_block" "blk_txs sample_block = [paying_tx]"
  "bo_skipBlockValidation pay_block" "bo_stateRoot pay_block w = Inr (zeros 32)" "bh_gasLimit (blk_header sample_block) = 100000"
  by (simp_all add: pay_block_def sample_block_run_def sample_block_def)

lemma pay_block_ok: "block_input_ok pay_host pay_block"
  using sample_block_run_ok pay_host_ok by (simp add: block_input_ok_def pay_block_def)

lemma pay_block_tx:
  assumes "block_ready Ss w" "public w = public pay_world"
  obtains x w' where "runTx pay_host (block_tx_opts pay_block 0 paying_tx 0) w = (Inr x, w')" "x_logs (execResult (rt_result x)) = []"
    "rt_totalGasSpent x = getIntrinsicGas paying_tx"
proof -
  let ?R = "block_tx_opts pay_block 0 paying_tx 0" and ?w = "mod_jr cleanJournal w"
  have R: "ro_tx ?R = paying_tx" "ro_env ?R = block_env" "header_baseFee ?R = 7" "header ?R = header pay_run" "root_id ?R = Inr None"
    "\<not> ro_skipNonce ?R" "\<not> ro_skipNonce pay_run"
    by (simp_all add: block_tx_opts_def pay_block_def sample_block_run_def header_baseFee_def header_def or_else_def block_context_def
        sample_block_def pay_run_def root_id_def)
  have i: "tx_input_ok ?R" "reportable ?R" by (rule block_tx_input [OF pay_block_ok], simp add: pay_block_facts)+
  have p: "plain_tx pay_host ?R payer 0x1234 (public ?w)"
    using pay_plain by (simp add: plain_tx_def admitted_def R pay_input pay_header clean_public assms(2) pay_host_def paying_facts(4))
  obtain k d where k: "new_tx block_env k d = Inr paying_tx" using paying_new by blast
  obtain x w' where x: "runTx pay_host ?R ?w = (Inr x, w')" "x_logs (execResult (rt_result x)) = []" "rt_totalGasSpent x = getIntrinsicGas paying_tx"
    using plain_runTx [OF pay_host_ok i(1) _ assms(1) [unfolded block_ready_def] i(2) p R(5), of k d]
    by (auto simp: R k context_ok_def)
  have "runTx pay_host ?R w = (Inr x, w')" using runTx_unclean x(1) .
  from that [OF this x(2,3)] show thesis .
qed

lemma receipt_put:
  assumes "rc_logs r = []" "length (rc_bitvector r) = 256" "0 \<le> rc_cumulativeBlockGasUsed r" "rc_cumulativeBlockGasUsed r < 2 ^ 64"
  obtains t where "put_receipt (list_trie (tv_keccak block_env)) 0 r k (new_trie (list_trie (tv_keccak block_env)) None) = Inr t"
    "length (t_root t) = 32"
proof -
  let ?c = "list_trie (tv_keccak block_env)"
  obtain gas where gas: "bigIntToBytes (rc_cumulativeBlockGasUsed r) = Inr gas" "length gas \<le> 8"
    using bigIntToBytes_length [of "rc_cumulativeBlockGasUsed r" 8] assms(3,4) by auto
  let ?d = "RList [RBytes (if rc_status r = 0 then [] else [1]), RBytes gas, RBytes (rc_bitvector r), RList []]"
  have "rlp_weight ?d < 1000" using gas(2) assms(2) by simp
  then have e: "length (enc ?d) < 1000" using enc_weight [of ?d] by (simp del: enc.simps rlp_weight.simps)
  let ?b = "if k = 0 then enc ?d else word_of_nat k # enc ?d"
  have b: "?b \<noteq> []" "length ?b < 1001" using e enc_nonempty [of ?d] by (simp_all del: enc.simps)
  have "rlp_encode (rlp_embed ?d) = Inr (enc ?d)" using e by (intro rlp_encode_embed) (simp del: enc.simps)
  then have r: "encodeReceipt r k = Inr ?b"
    using gas(1) assms(1) by (simp add: encodeReceipt_def del: enc.simps rlp_encode.simps)
  let ?P = "{([8, 0], ?b)}"
  have nib: "bytesToNibbles [index_byte 0] = [8, 0]" by code_simp
  have le: "list_entries [?b] \<subseteq> ?P" by (simp add: list_entries_def nib del: enc.simps)
  obtain q y D where q: "list_root (tv_keccak block_env) (map Inr [?b]) = Inr q" "tree_at ?c 2 ?P D q y"
    by (rule list_root_tree [OF one_entry_trie [OF b] le]) (use b in \<open>simp_all del: enc.simps\<close>)
  then obtain t where t: "put_values ?c 0 [encodeReceipt r k] (new_trie ?c None) = (Inr (), t)" "t_root t = q"
    by (auto simp: list_root_def r split: prod.splits sum.splits simp del: enc.simps put_values.simps)
  have "length q = 32" using q(2) block_hash_length
    by (auto simp: tree_at_def EMPTY_TRIE_ROOT_def list_trie_def split: option.splits)
  with t that [of t] show thesis by (simp add: put_receipt_def del: put_values.simps)
qed

lemma pay_receipt:
  assumes "runTx pay_host (block_tx_opts pay_block 0 paying_tx 0) w = (Inr x, w')" "x_logs (execResult (rt_result x)) = []"
    "rt_totalGasSpent x = getIntrinsicGas paying_tx"
  shows "rt_bloom x = zeros 256" "rc_logs (rt_receipt x) = []" "rc_bitvector (rt_receipt x) = rt_bloom x"
    "rc_cumulativeBlockGasUsed (rt_receipt x) = getIntrinsicGas paying_tx" "rt_blockGasSpent x = getIntrinsicGas paying_tx"
proof -
  have "receipt_ok pay_host (block_tx_opts pay_block 0 paying_tx 0) x" using runTx_returns assms(1) unfolding returns_def by blast
  then show "rt_bloom x = zeros 256" "rc_logs (rt_receipt x) = []" "rc_bitvector (rt_receipt x) = rt_bloom x"
    "rc_cumulativeBlockGasUsed (rt_receipt x) = getIntrinsicGas paying_tx" "rt_blockGasSpent x = getIntrinsicGas paying_tx"
    using assms(2,3) by (simp_all add: receipt_ok_def generateTxReceipt_def block_tx_opts_def txLogsBloom_def new_bloom_def BYTE_SIZE_def)
qed

lemma pay_block_runs:
  "\<exists>x w'. runBlock pay_host (pay_block\<lparr>bo_generate := True\<rparr>) pay_world = (Inr x, w') \<and> bx_gasUsed x = getIntrinsicGas paying_tx"
proof -
  let ?B = "pay_block\<lparr>bo_generate := True\<rparr>" and ?c = "list_trie (tv_keccak block_env)"
  note f = pay_block_facts
  obtain w1 where w1: "journal_checkpoint pay_world = (Inr (), w1)" "block_ready [sm_view (w_sm pay_world)] w1" "public w1 = public pay_world"
    by (rule block_checkpoint [OF ready_clean [OF pay_world_ready]])
  obtain x w2 where x: "runTx pay_host (block_tx_opts pay_block 0 paying_tx 0) w1 = (Inr x, w2)" "x_logs (execResult (rt_result x)) = []"
    "rt_totalGasSpent x = getIntrinsicGas paying_tx" by (rule pay_block_tx [OF w1(2,3)])
  have o: "block_tx_opts ?B 0 paying_tx 0 = block_tx_opts pay_block 0 paying_tx 0" by (simp add: block_tx_opts_def)
  note rc = pay_receipt [OF x]
  have g: "0 \<le> getIntrinsicGas paying_tx" "getIntrinsicGas paying_tx \<le> 30000" by (rule getIntrinsicGas_nonneg, rule paying_gas)
  obtain t where t: "put_receipt ?c 0 (rt_receipt x) (tx_type paying_tx) (new_trie ?c None) = Inr t" "length (t_root t) = 32"
    by (rule receipt_put [of "rt_receipt x" "tx_type paying_tx"]) (use rc g in simp_all)
  define acc where "acc = add_result x t \<lparr>ba_bloom = zeros BYTE_SIZE, ba_gasUsed = 0, ba_receiptGasUsed = 0, ba_trie = new_trie ?c None, ba_results = []\<rparr>"
  have app: "applyTransactions pay_host ?B w1 = (Inr acc, w2)"
    using x(1) t(1) paying_facts(3)
    by (simp add: applyTransactions_def f o demand_run bnd_def lift_sum_def pay_host_def acc_def)
  have "block_input_ok pay_host ?B" using pay_block_ok by (simp add: block_input_ok_def)
  from apply_txs_ended [OF this subset_refl w1(2)]
  have "block_ready [sm_view (w_sm pay_world)] w2" using app unfolding applyTransactions_def by (metis (no_types, lifting) case_prodD)
  then obtain w3 where w3: "journal_commit w2 = (Inr (), w3)" by (rule block_commit)
  have acc: "ba_gasUsed acc = getIntrinsicGas paying_tx" "receiptsRoot ?B acc = t_root t"
    by (simp_all add: acc_def add_result_def rc receiptsRoot_def f)
  have h: "header_ok (block_head ?B)" using new_header_ok [OF sample_block_new] by (simp add: f)
  have "genTxTrie block_env sample_block = Inr sample_root" by (simp add: genTxTrie_def f sample_block_root)
  moreover have "genericFormatValidation (filled (blk_header sample_block) acc (t_root t) (zeros 32) sample_root) = Inr ()"
    using h t(2) sample_block_root(2) g acc(1) by (simp add: genericFormat_Inr filled_def header_ok_def f)
  ultimately obtain b where b: "generate_block ?B acc (zeros 32) = Inr b"
    using generate_block_eq [OF h, of acc "zeros 32"] paying_ok g(1) acc by (auto simp: f block_env_def sample_env_def)
  show ?thesis
    using runBlock_steps [of pay_host ?B pay_world] w1(1) app w3 b acc(1) by (auto simp: f validate_block_def)
qed

text \<open>The parent of the sample block, so that its header is valid in a blockchain that has the parent.\<close>

definition pay_parent :: block_header where
  "pay_parent = sample_header\<lparr>bh_number := 0, bh_timestamp := 50, bh_gasLimit := 100000, bh_gasUsed := 50000, bh_baseFee := 7\<rparr>"

lemma pay_curve: "curve_ok (bo_env pay_block)"
proof -
  have "unpadBytes (replicate 64 3) \<noteq> []" by code_simp
  then show ?thesis by (auto simp: curve_ok_def pay_block_facts block_env_def sample_env_def)
qed

lemma pay_header_valid: "validateHeader (\<lambda>_. Inr pay_parent) None (blk_header sample_block) = Inr ()"
  by (simp add: validateHeader_def isGenesis_def validateGasLimit_def calcNextBaseFee_def pay_parent_def sample_block_def sample_header_def
      js_div_nonneg reject_def Let_def)

lemma pay_block_accepted:
  obtains b x w' where "runBlock pay_host (pay_block\<lparr>bo_block := b\<rparr>) pay_world = (Inr x, w')" "bx_gasUsed x = getIntrinsicGas paying_tx"
    "block_input_ok pay_host (pay_block\<lparr>bo_block := b\<rparr>)" "bh_baseFee (blk_header b) = 7"
proof -
  obtain x w' where x: "runBlock pay_host (pay_block\<lparr>bo_generate := True\<rparr>) pay_world = (Inr x, w')" "bx_gasUsed x = getIntrinsicGas paying_tx"
    using pay_block_runs by blast
  note f = pay_block_facts
  let ?b = "bx_block x"
  let ?G = "rerun pay_block ?b True (bo_skipHeaderValidation pay_block) (bo_validateHeader pay_block)"
  have e: "?G = pay_block\<lparr>bo_block := ?b\<rparr>" by (simp add: rerun_def pay_block_def sample_block_run_def)
  have "header_rules ?G" by (simp add: header_rules_def rerun_def)
  then have a: "runBlock pay_host ?G pay_world = (Inr x, w')" "blk_txs ?b = blk_txs sample_block"
    "\<exists>r. blk_header ?b = (blk_header sample_block)\<lparr>bh_stateRoot := bx_stateRoot x, bh_logsBloom := bx_logsBloom x, bh_gasUsed := bx_gasUsed x,
       bh_receiptTrie := bx_receiptsRoot x, bh_transactionsTrie := r\<rparr>"
    using runBlock_generated [of sample_block_data pay_block pay_host pay_world x w' True, OF _ _ _ pay_curve x(1)] sample_block_new paying_new
    by (simp_all add: f block_env_def sample_env_def)
  have "block_context (blk_header ?b) = block_context (blk_header sample_block)" using a(3) by (auto simp: block_context_def)
  then have "block_input_ok pay_host (pay_block\<lparr>bo_block := ?b\<rparr>)" using pay_block_ok a(2) by (simp add: block_input_ok_def f)
  moreover have "bh_baseFee (blk_header ?b) = 7" using a(3) by (auto simp: sample_block_def)
  ultimately show thesis using that [of ?b x w'] a(1) x(2) by (simp add: e)
qed

theorem generated_block_accepted_witness:
  "\<exists>b x w'. runBlock pay_host (rerun pay_block b False False (Some (validateHeader (\<lambda>_. Inr pay_parent) None))) pay_world = (Inr x, w') \<and>
    blk_txs b = [paying_tx] \<and> bx_gasUsed x = getIntrinsicGas paying_tx"
proof -
  obtain x w' where x: "runBlock pay_host (pay_block\<lparr>bo_generate := True\<rparr>) pay_world = (Inr x, w')" "bx_gasUsed x = getIntrinsicGas paying_tx"
    using pay_block_runs by blast
  note f = pay_block_facts
  let ?V = "validateHeader (\<lambda>_. Inr pay_parent) None"
  let ?G = "rerun pay_block (bx_block x) False False (Some ?V)"
  have g: "(if header_rules ?G then runBlock pay_host ?G pay_world = (Inr x, w') else \<exists>e u. runBlock pay_host ?G pay_world = (Inl e, u)) \<and>
    ?V (blk_header (bx_block x)) = ?V (blk_header sample_block) \<and> blk_txs (bx_block x) = [paying_tx] \<and>
    (\<exists>r. blk_header (bx_block x) = (blk_header sample_block)\<lparr>bh_stateRoot := bx_stateRoot x, bh_logsBloom := bx_logsBloom x, bh_gasUsed := bx_gasUsed x,
       bh_receiptTrie := bx_receiptsRoot x, bh_transactionsTrie := r\<rparr>)"
    using generated_block_accepted [of sample_block_data pay_block pay_host pay_world x w' False False "Some ?V" "\<lambda>_. Inr pay_parent" None,
        OF _ _ _ pay_curve x(1)] sample_block_new paying_new
    by (simp add: f block_env_def sample_env_def)
  then obtain r where h: "blk_header (bx_block x) = (blk_header sample_block)\<lparr>bh_stateRoot := bx_stateRoot x, bh_logsBloom := bx_logsBloom x,
      bh_gasUsed := bx_gasUsed x, bh_receiptTrie := bx_receiptsRoot x, bh_transactionsTrie := r\<rparr>" by blast
  have "bh_gasLimit (blk_header (bx_block x)) < 2 ^ 63" "uncleHashIsValid (bx_block x)"
    by (simp_all add: h f uncleHashIsValid_def, simp add: sample_block_def sample_header_def)
  then have "header_rules ?G" using g pay_header_valid by (simp add: header_rules_def rerun_def)
  with g x(2) show ?thesis by (intro exI [of _ "bx_block x"] exI [of _ x] exI [of _ w']) simp
qed

theorem runBlock_all_or_nothing_witness:
  "\<exists>b x w'. runBlock pay_host (pay_block\<lparr>bo_block := b\<rparr>) pay_world = (Inr x, w') \<and> bh_gasUsed (blk_header b) = getIntrinsicGas paying_tx \<and>
    bx_receiptsRoot x = bh_receiptTrie (blk_header b)"
proof -
  obtain b x w' where x: "runBlock pay_host (pay_block\<lparr>bo_block := b\<rparr>) pay_world = (Inr x, w')" "bx_gasUsed x = getIntrinsicGas paying_tx"
    "block_input_ok pay_host (pay_block\<lparr>bo_block := b\<rparr>)" by (rule pay_block_accepted)
  have g: "\<not> bo_generate (pay_block\<lparr>bo_block := b\<rparr>)" by (simp add: pay_block_def sample_block_run_def)
  have "bx_block x = b" "bx_gasUsed x = bh_gasUsed (blk_header (bx_block x))" "bx_receiptsRoot x = bh_receiptTrie (blk_header (bx_block x))"
    using runBlock_all_or_nothing [OF x(3) ready_clean [OF pay_world_ready] x(1)] g by auto
  with x(1,2) show ?thesis by metis
qed

theorem runBlock_conserves_witness:
  "\<exists>b x w'. runBlock pay_host (pay_block\<lparr>bo_block := b\<rparr>) pay_world = (Inr x, w') \<and> supply_of w' None + getIntrinsicGas paying_tx * 7 \<le> supply_of pay_world None"
proof -
  obtain b x w' where x: "runBlock pay_host (pay_block\<lparr>bo_block := b\<rparr>) pay_world = (Inr x, w')" "bx_gasUsed x = getIntrinsicGas paying_tx"
    "block_input_ok pay_host (pay_block\<lparr>bo_block := b\<rparr>)" "bh_baseFee (blk_header b) = 7" by (rule pay_block_accepted)
  show ?thesis
    using runBlock_conserves [OF x(3) ready_clean [OF pay_world_ready] x(1), of None] x by auto
qed

end
