(* ===== verification/BuildBlockProps.thy ===== *)
theory BuildBlockProps
  imports BuildBlock GenerateProps
begin

text \<open>
  A builder makes blocks that \<^verbatim>\<open>runBlock\<close> accepts, with the same results and the same state; and whatever is asked of
  it, in any order, its checkpoint is open as long as it is pending, a revert undoes all of its
  transactions, and nothing happens any more after that or after the block was built.
\<close>

section \<open>The header of a block that is built\<close>

lemma new_header_fields:
  assumes "new_header d = Inr h"
  shows "or_int (hd_number d) 0 = Inr (bh_number h)" "then_sum (or_bytes (hd_coinbase d) (zeros 20)) new_address = Inr (bh_coinbase h)"
    "or_int (hd_timestamp d) 0 = Inr (bh_timestamp h)" "or_int (hd_gasLimit d) DEFAULT_GAS_LIMIT = Inr (bh_gasLimit h)"
    "or_int (hd_baseFee d) 7 = Inr (bh_baseFee h)" "or_int (hd_gasUsed d) 0 = Inr (bh_gasUsed h)"
    "or_bytes (hd_stateRoot d) (zeros 32) = Inr (bh_stateRoot h)" "or_bytes (hd_logsBloom d) (zeros 256) = Inr (bh_logsBloom h)"
    "or_bytes (hd_receiptTrie d) KECCAK256_RLP = Inr (bh_receiptTrie h)" "or_bytes (hd_transactionsTrie d) KECCAK256_RLP = Inr (bh_transactionsTrie h)"
    "or_bytes (hd_parentHash d) (zeros 32) = Inr (bh_parentHash h)" "or_bytes (hd_uncleHash d) KECCAK256_RLP_ARRAY = Inr (bh_uncleHash h)"
  using assms by (auto simp: new_header_def Let_def sum_steps)

lemma same_context:
  assumes "new_header d = Inr h" "new_header d' = Inr h'" "hd_number d' = hd_number d" "hd_coinbase d' = hd_coinbase d"
    "hd_timestamp d' = (if hd_timestamp d = Undef then Big 0 else hd_timestamp d) \<or> hd_timestamp d' = hd_timestamp d"
    "hd_gasLimit d' = hd_gasLimit d" "hd_baseFee d' = hd_baseFee d"
  shows "block_context h' = block_context h"
proof -
  have "or_int (hd_timestamp d') 0 = or_int (hd_timestamp d) 0"
    using assms(5) by (auto simp: or_int_def to_int_Big)
  then show ?thesis
    using new_header_fields(1-5) [OF assms(1)] new_header_fields(1-5) [OF assms(2)] assms(3,4,6,7) by (simp add: block_context_def)
qed

lemma createBlock_objects:
  assumes "\<forall>t \<in> set ts. tx_ok E t" "0 \<le> tv_chainId E"
  shows "createBlock E d (map (tx_object E) ts) [] False = map_sum id (\<lambda>h. \<lparr>blk_header = h, blk_txs = ts\<rparr>) (new_header d)"
proof -
  have "map ((\<lambda>(k, d). new_tx E k d) \<circ> tx_object E) ts = map Inr ts"
    using assms tx_object_new by (simp add: comp_def)
  then have "collect (map (\<lambda>(k, d). new_tx E k d) (map (tx_object E) ts)) = Inr ts"
    by (simp add: collect_Inr)
  then show ?thesis by (simp add: createBlock_def new_block_def reject_def then_sum_def map_sum_def split: sum.split)
qed

section \<open>Transactions one after the other\<close>

text \<open>The transactions of a block run on a world, with the gas used before them.\<close>

inductive runs :: "host \<Rightarrow> run_block_opts \<Rightarrow> nat \<Rightarrow> int \<Rightarrow> tx list \<Rightarrow> tx_result list \<Rightarrow> world \<Rightarrow> world \<Rightarrow> bool" for H B where
  none: "runs H B i g [] [] w w"
| more: "\<not> bh_gasLimit (block_head B) < tx_gasLimit t + g \<Longrightarrow> runTx H (block_tx_opts B i t g) w = (Inr x, w1) \<Longrightarrow>
    runs H B (Suc i) (g + rt_totalGasSpent x) ts xs w1 w' \<Longrightarrow> runs H B i g (t # ts) (x # xs) w w'"

definition receipts :: "tx_result list \<Rightarrow> tx list \<Rightarrow> (exn + bytes) list" where
  "receipts xs ts = map (\<lambda>(x, t). encodeReceipt (rt_receipt x) (tx_type t)) (zip xs ts)"

lemma receipts_Cons: "receipts (x # xs) (t # ts) = encodeReceipt (rt_receipt x) (tx_type t) # receipts xs ts"
  by (simp add: receipts_def)

lemma put_values_Cons:
  "put_values c i (v # vs) t = (Inr (), t') \<longleftrightarrow> (\<exists>t1. put_values c i [v] t = (Inr (), t1) \<and> put_values c (Suc i) vs t1 = (Inr (), t'))"
  by (auto simp: bnd_def sq_def lift_sum_def ret_def split: prod.splits sum.splits simp del: rlp_encode.simps)

lemma runs_apply:
  assumes "runs H B i g ts xs w w'" "put_values (list_trie (h_keccak H)) i (receipts xs ts) (ba_trie acc) = (Inr (), tr)"
    "ba_gasUsed acc = g" "ba_receiptGasUsed acc = g"
  shows "\<exists>acc'. apply_txs H B i ts acc w = (Inr acc', w') \<and> ba_trie acc' = tr \<and> ba_gasUsed acc' = g + gas_sum xs \<and>
    ba_results acc' = ba_results acc @ xs \<and> ba_bloom acc' = foldl bloom_or (ba_bloom acc) (map rt_bloom xs)"
  using assms
proof (induction arbitrary: acc rule: runs.induct)
  case (more t g i w x w1 ts xs w')
  have "receipt_ok H (block_tx_opts B i t g) x" using runTx_returns more.hyps(2) unfolding returns_def by blast
  then have spent: "rt_blockGasSpent x = rt_totalGasSpent x" by (simp add: receipt_ok_def)
  obtain t1 where t1: "put_values (list_trie (h_keccak H)) i [encodeReceipt (rt_receipt x) (tx_type t)] (ba_trie acc) = (Inr (), t1)"
    "put_values (list_trie (h_keccak H)) (Suc i) (receipts xs ts) t1 = (Inr (), tr)"
    using more.prems(1) unfolding receipts_Cons put_values_Cons [of _ _ _ "receipts xs ts"] by blast
  let ?acc = "add_result x t1 acc"
  have "ba_trie ?acc = t1" "ba_gasUsed ?acc = g + rt_totalGasSpent x" "ba_receiptGasUsed ?acc = g + rt_totalGasSpent x"
    using more.prems(2,3) by (simp_all add: add_result_def spent)
  with more.IH [of ?acc] t1(2) obtain acc' where acc': "apply_txs H B (Suc i) ts ?acc w1 = (Inr acc', w')" "ba_trie acc' = tr"
    "ba_gasUsed acc' = g + rt_totalGasSpent x + gas_sum xs" "ba_results acc' = ba_results ?acc @ xs"
    "ba_bloom acc' = foldl bloom_or (ba_bloom ?acc) (map rt_bloom xs)" by auto
  have "put_receipt (list_trie (h_keccak H)) i (rt_receipt x) (tx_type t) (ba_trie acc) = Inr t1"
    using t1(1) by (simp add: put_receipt_def del: put_values.simps)
  then have "apply_txs H B i (t # ts) acc w = (Inr acc', w')"
    using more.hyps(1,2) more.prems(2,3) acc'(1) by (simp add: demand_run bnd_def lift_sum_def)
  with acc' show ?case by (simp add: add_result_def gas_sum_def)
qed (simp add: receipts_def gas_sum_def)

section \<open>What a builder does\<close>

text \<open>Adding a transaction, by outcome, once the checkpoint is open.\<close>

lemma addTransaction_live:
  assumes "bb_status (bs_builder s) = Pending" "bb_checkpointed (bs_builder s)"
  shows "addTransaction H U t txid e s = (let b = bs_builder s in case to_int (hd_gasLimit (bb_headerData b)) of Inl err \<Rightarrow> (Inl err, s)
    | Inr L \<Rightarrow> if tx_gasLimit t > L - bb_gasUsed b then (Inl (HostError ''tx has a higher gas limit than the remaining gas in the block''), s)
      else case pending_block (bu_env U) b of Inl err \<Rightarrow> (Inl err, s)
      | Inr block \<Rightarrow> (case runTx H (builder_tx_opts U (blk_header block) t txid e) (bs_world s) of
          (Inl err, w) \<Rightarrow> (Inl err, s\<lparr>bs_world := w\<rparr>)
        | (Inr x, w) \<Rightarrow> (Inr x, \<lparr>bs_world = w, bs_builder = push_result t x b\<rparr>)))"
proof -
  let ?b = "bs_builder s"
  note d = addTransaction_def checkStatus_def add_checkpoint_def
  show ?thesis
  proof (cases "to_int (hd_gasLimit (bb_headerData ?b))")
    case (Inl err)
    then show ?thesis using assms by (simp add: d Let_def) (simp add: bnd_def sq_def gets_def whenb_def ret_def lift_sum_def)
  next
    case L: (Inr L)
    show ?thesis
    proof (cases "pending_block (bu_env U) ?b")
      case (Inl err)
      with L assms show ?thesis
        by (simp add: d Let_def) (simp add: bnd_def sq_def gets_def whenb_def ret_def lift_sum_def demand_def throw_def)
    next
      case (Inr block)
      obtain r w where r: "runTx H (builder_tx_opts U (blk_header block) t txid e) (bs_world s) = (r, w)" by fastforce
      with L Inr assms show ?thesis
        by (cases r; simp add: d Let_def; simp add: bnd_def sq_def gets_def whenb_def ret_def lift_sum_def demand_def throw_def on_vm_def zoom_def
            mod_builder_def modify_def)
    qed
  qed
qed

lemma addTransaction_first:
  assumes "bb_status (bs_builder s) = Pending" "\<not> bb_checkpointed (bs_builder s)" "journal_checkpoint (bs_world s) = (Inr (), w)"
  shows "addTransaction H U t txid e s = addTransaction H U t txid e \<lparr>bs_world = w, bs_builder = (bs_builder s)\<lparr>bb_checkpointed := True\<rparr>\<rparr>"
proof -
  let ?s = "\<lparr>bs_world = w, bs_builder = (bs_builder s)\<lparr>bb_checkpointed := True\<rparr>\<rparr>"
  have "checkStatus u = (Inr (), u)" if "bb_status (bs_builder u) = Pending" for u
    using that by (simp add: checkStatus_def bnd_def gets_def ret_def)
  moreover have "add_checkpoint s = (Inr (), ?s)" "add_checkpoint ?s = (Inr (), ?s)"
    using assms by (simp_all add: add_checkpoint_def bnd_def sq_def gets_def whenb_def on_vm_def zoom_def mod_builder_def modify_def ret_def)
  ultimately show ?thesis
    using assms(1) by (simp add: addTransaction_def sq_run [of checkStatus] sq_run [of add_checkpoint])
qed

lemma closed_builder:
  assumes "bb_status (bs_builder s) \<noteq> Pending"
  shows "\<exists>err. addTransaction H U t txid e s = (Inl err, s)" "\<exists>err. build H U s = (Inl err, s)"
  using assms by (cases "bb_status (bs_builder s)"; simp add: addTransaction_def build_def checkStatus_def bnd_def sq_def gets_def throw_def)+

section \<open>Blocks that are built are accepted\<close>

fun add_all :: "host \<Rightarrow> builder_opts \<Rightarrow> bool \<Rightarrow> (tx \<times> bytes option) list \<Rightarrow> (build_state, tx_result list) op" where
  "add_all H U e [] = ret []"
| "add_all H U e ((t, txid) # ts) = bnd (addTransaction H U t txid e) (\<lambda>x. bnd (add_all H U e ts) (\<lambda>xs. ret (x # xs)))"

text \<open>The options of a run with those of a builder.\<close>

definition matches :: "builder_opts \<Rightarrow> run_block_opts \<Rightarrow> header_data \<Rightarrow> bool \<Rightarrow> bool" where
  "matches U B d e \<longleftrightarrow> bo_env B = bu_env U \<and> \<not> bo_skipBalance B \<and> \<not> bo_skipNonce B \<and> bo_requireExplicit B = e \<and>
     to_int (hd_gasLimit d) = Inr (bh_gasLimit (block_head B)) \<and>
     (\<forall>g h. new_header (d\<lparr>hd_gasUsed := Big g\<rparr>) = Inr h \<longrightarrow> block_context h = block_context (block_head B))"

lemma builder_tx_run:
  assumes "matches U B d e" "new_header (d\<lparr>hd_gasUsed := Big g\<rparr>) = Inr h" "i < length (bo_rootTransactionIds B)" "bo_rootTransactionIds B ! i = txid"
  shows "runTx H (builder_tx_opts U h t txid e) = runTx H (block_tx_opts B i t g)"
proof -
  have "bh_gasUsed h = g" using new_header_fields(6) [OF assms(2)] by (simp add: read_nonneg)
  then have "builder_tx_opts U h t txid e = (block_tx_opts B i t g)\<lparr>ro_headerGasUsed := g, ro_blockGasUsed := None\<rparr>"
    using assms by (simp add: builder_tx_opts_def block_tx_opts_def matches_def)
  moreover have "ro_blockGasUsed (block_tx_opts B i t g) = Some g" by (simp add: block_tx_opts_def)
  ultimately show ?thesis by (simp add: runTx_cumulative)
qed

lemma add_live_keeps:
  assumes "addTransaction H U t txid e s = (Inr x, s')" "bb_status (bs_builder s) = Pending" "bb_checkpointed (bs_builder s)"
  shows "bs_builder s' = push_result t x (bs_builder s)"
  using assms(1) unfolding addTransaction_live [OF assms(2,3)] Let_def by (auto split: sum.splits if_splits prod.splits)

lemma add_all_keeps:
  assumes "add_all H U e ts s = (Inr xs, s')" "bb_status (bs_builder s) = Pending" "bb_checkpointed (bs_builder s)"
  shows "bb_status (bs_builder s') = Pending" "bb_checkpointed (bs_builder s')" "bb_headerData (bs_builder s') = bb_headerData (bs_builder s)"
    "bb_transactions (bs_builder s') = bb_transactions (bs_builder s) @ map fst ts"
proof -
  have "bb_status (bs_builder s') = Pending \<and> bb_checkpointed (bs_builder s') \<and> bb_headerData (bs_builder s') = bb_headerData (bs_builder s) \<and>
    bb_transactions (bs_builder s') = bb_transactions (bs_builder s) @ map fst ts"
    using assms
  proof (induction ts arbitrary: s xs)
    case (Cons p ts)
    obtain t txid where p: "p = (t, txid)" by fastforce
    obtain x s1 ys where x: "addTransaction H U t txid e s = (Inr x, s1)" "add_all H U e ts s1 = (Inr ys, s')"
      using Cons.prems(1) by (auto simp: p bnd_def ret_def split: prod.splits sum.splits)
    note k = add_live_keeps [OF x(1) Cons.prems(2,3)]
    from Cons.IH [OF x(2)] show ?case using Cons.prems(2,3) by (simp add: k push_result_def p)
  qed (simp add: ret_def)
  then show "bb_status (bs_builder s') = Pending" "bb_checkpointed (bs_builder s')" "bb_headerData (bs_builder s') = bb_headerData (bs_builder s)"
    "bb_transactions (bs_builder s') = bb_transactions (bs_builder s) @ map fst ts" by blast+
qed

lemma add_all_runs:
  assumes "add_all H U e ts s = (Inr xs, s')" "bb_status (bs_builder s) = Pending" "bb_checkpointed (bs_builder s)"
    "matches U B (bb_headerData (bs_builder s)) e" "0 \<le> tv_chainId (bu_env U)"
    "\<forall>t \<in> set (bb_transactions (bs_builder s)) \<union> fst ` set ts. tx_ok (bu_env U) t"
    "\<forall>j < length ts. i + j < length (bo_rootTransactionIds B) \<and> bo_rootTransactionIds B ! (i + j) = snd (ts ! j)"
  shows "runs H B i (bb_gasUsed (bs_builder s)) (map fst ts) xs (bs_world s) (bs_world s') \<and> length xs = length ts \<and>
    (\<exists>v. bs_builder s' = (bs_builder s)\<lparr>bb_transactions := bb_transactions (bs_builder s) @ map fst ts,
      bb_results := bb_results (bs_builder s) @ xs, bb_gasUsed := bb_gasUsed (bs_builder s) + gas_sum xs, bb_minerValue := v\<rparr>)"
  using assms
proof (induction ts arbitrary: s xs i)
  case Nil
  then show ?case by (auto simp: ret_def gas_sum_def intro!: runs.none exI [of _ "bb_minerValue (bs_builder s)"])
next
  case (Cons p ts)
  obtain t txid where p: "p = (t, txid)" by fastforce
  let ?b = "bs_builder s" and ?E = "bu_env U"
  obtain x s1 ys where x: "addTransaction H U t txid e s = (Inr x, s1)" "add_all H U e ts s1 = (Inr ys, s')" "xs = x # ys"
    using Cons.prems(1) by (auto simp: p bnd_def ret_def split: prod.splits sum.splits)
  have L: "to_int (hd_gasLimit (bb_headerData ?b)) = Inr (bh_gasLimit (block_head B))" using Cons.prems(4) by (simp add: matches_def)
  have pend: "pending_block ?E ?b = map_sum id (\<lambda>h. \<lparr>blk_header = h, blk_txs = bb_transactions ?b\<rparr>) (new_header ((bb_headerData ?b)\<lparr>hd_gasUsed := Big (bb_gasUsed ?b)\<rparr>))"
    unfolding pending_block_def by (rule createBlock_objects) (use Cons.prems(5,6) in simp_all)
  obtain h w1 where h: "new_header ((bb_headerData ?b)\<lparr>hd_gasUsed := Big (bb_gasUsed ?b)\<rparr>) = Inr h"
    "\<not> tx_gasLimit t > bh_gasLimit (block_head B) - bb_gasUsed ?b" "runTx H (builder_tx_opts U h t txid e) (bs_world s) = (Inr x, w1)"
    "s1 = \<lparr>bs_world = w1, bs_builder = push_result t x ?b\<rparr>"
    using x(1) unfolding addTransaction_live [OF Cons.prems(2,3)] Let_def L pend
    by (auto split: if_splits sum.splits prod.splits simp: map_sum_Inr)
  have ids: "i < length (bo_rootTransactionIds B)" "bo_rootTransactionIds B ! i = txid" using Cons.prems(7) by (force simp: p)+
  note run = h(3) [unfolded builder_tx_run [OF Cons.prems(4) h(1) ids]]
  have b1: "bs_builder s1 = push_result t x ?b" "bs_world s1 = w1" by (simp_all add: h(4))
  have "runs H B (Suc i) (bb_gasUsed (bs_builder s1)) (map fst ts) ys (bs_world s1) (bs_world s') \<and> length ys = length ts \<and>
    (\<exists>v. bs_builder s' = (bs_builder s1)\<lparr>bb_transactions := bb_transactions (bs_builder s1) @ map fst ts,
      bb_results := bb_results (bs_builder s1) @ ys, bb_gasUsed := bb_gasUsed (bs_builder s1) + gas_sum ys, bb_minerValue := v\<rparr>)"
    by (rule Cons.IH [OF x(2)]) (use Cons.prems(2-7) in \<open>force simp: b1 push_result_def p\<close>)+
  moreover have "\<not> bh_gasLimit (block_head B) < tx_gasLimit t + bb_gasUsed ?b" using h(2) by linarith
  ultimately show ?case
    using run by (auto simp: b1 push_result_def p x(3) gas_sum_def add.assoc intro!: runs.more)
qed

lemma new_builder_fresh:
  assumes "new_builder E parent d now = Inr b"
  shows "bb_gasUsed b = 0" "bb_transactions b = []" "bb_results b = []" "\<not> bb_checkpointed b" "bb_status b = Pending"
    "hd_gasLimit (bb_headerData b) \<noteq> Undef"
  using assms by (auto simp: new_builder_def or_val_def sum_steps split: if_splits)

lemma add_all_first:
  assumes "bb_status (bs_builder s) = Pending" "\<not> bb_checkpointed (bs_builder s)" "journal_checkpoint (bs_world s) = (Inr (), w)" "ts \<noteq> []"
  shows "add_all H U e ts s = add_all H U e ts \<lparr>bs_world = w, bs_builder = (bs_builder s)\<lparr>bb_checkpointed := True\<rparr>\<rparr>"
proof -
  obtain t txid us where "ts = (t, txid) # us" using assms(4) by (cases ts) auto
  then show ?thesis using addTransaction_first [OF assms(1-3)] by (simp add: bnd_def)
qed

lemma build_pending:
  assumes "bb_status (bs_builder s) = Pending"
  shows "build H U s = (let b = bs_builder s in case builder_transactionsTrie (bu_env U) b of Inl err \<Rightarrow> (Inl err, s) | Inr txRoot \<Rightarrow>
    (case builder_receiptTrie (h_keccak H) b of Inl err \<Rightarrow> (Inl err, s) | Inr receiptRoot \<Rightarrow>
    (case bu_stateRoot U (bs_world s) of Inl err \<Rightarrow> (Inl err, s) | Inr stateRoot \<Rightarrow>
    (case final_block H U b txRoot receiptRoot stateRoot of Inl err \<Rightarrow> (Inl err, s) | Inr block \<Rightarrow>
    (case (case bu_putBlock U of None \<Rightarrow> Inr () | Some put \<Rightarrow> put block) of Inl err \<Rightarrow> (Inl err, s) | Inr _ \<Rightarrow>
      if bb_checkpointed b
      then (case journal_commit (bs_world s) of
          (Inl err, w) \<Rightarrow> (Inl err, \<lparr>bs_world = w, bs_builder = b\<lparr>bb_status := Built block\<rparr>\<rparr>)
        | (Inr _, w) \<Rightarrow> (Inr block, \<lparr>bs_world = w, bs_builder = b\<lparr>bb_status := Built block, bb_checkpointed := False\<rparr>\<rparr>))
      else (Inr block, s\<lparr>bs_builder := b\<lparr>bb_status := Built block\<rparr>\<rparr>))))))"
proof -
  let ?b = "bs_builder s"
  have c: "checkStatus s = (Inr (), s)" using assms by (simp add: checkStatus_def bnd_def gets_def ret_def)
  have v: "bnd (on_vm (bnd (gets (bu_stateRoot U)) lift_sum)) f s = (case bu_stateRoot U (bs_world s) of Inl err \<Rightarrow> (Inl err, s) | Inr r \<Rightarrow> f r s)"
    for f :: "bytes \<Rightarrow> (build_state, blk) op"
    by (simp add: on_vm_def zoom_def lift_sum_def bnd_def [of "zoom bs_world (\<lambda>w s. s\<lparr>bs_world := w\<rparr>) m" for m])
  have q: "sq (lift_sum (r :: exn + unit)) f s = (case r of Inl err \<Rightarrow> (Inl err, s) | Inr _ \<Rightarrow> f s)" for r and f :: "(build_state, blk) op"
    by (simp add: sq_def lift_run)
  obtain r w where r: "journal_commit (bs_world s) = (r, w)" by fastforce
  have m: "sq (mod_builder (\<lambda>b. b\<lparr>bb_status := Built block\<rparr>))
      (sq (whenb (bb_checkpointed ?b) (sq (on_vm journal_commit) (mod_builder (\<lambda>b. b\<lparr>bb_checkpointed := False\<rparr>)))) (ret block)) s =
      (if bb_checkpointed ?b
      then (case journal_commit (bs_world s) of
          (Inl err, w) \<Rightarrow> (Inl err, \<lparr>bs_world = w, bs_builder = ?b\<lparr>bb_status := Built block\<rparr>\<rparr>)
        | (Inr _, w) \<Rightarrow> (Inr block, \<lparr>bs_world = w, bs_builder = ?b\<lparr>bb_status := Built block, bb_checkpointed := False\<rparr>\<rparr>))
      else (Inr block, s\<lparr>bs_builder := ?b\<lparr>bb_status := Built block\<rparr>\<rparr>))" for block
    by (cases r) (simp_all add: r sq_def bnd_def mod_builder_def modify_def whenb_def on_vm_def zoom_def ret_def)
  show ?thesis
    by (simp add: build_def sq_run [of checkStatus] c lift_run v q m Let_def cong: sum.case_cong)
qed

text \<open>
  A run of a block that was built: the ids and the policy of its transactions are those the builder was given. The options of validation are
  left open.
\<close>

definition runs_built :: "builder_opts \<Rightarrow> blk \<Rightarrow> (tx \<times> bytes option) list \<Rightarrow> bool \<Rightarrow> run_block_opts \<Rightarrow> bool" where
  "runs_built U b ts e B \<longleftrightarrow> bo_block B = b \<and> bo_env B = bu_env U \<and> bo_rootTransactionIds B = map snd ts \<and> bo_requireExplicit B = e \<and>
     \<not> bo_generate B \<and> \<not> bo_skipBalance B \<and> \<not> bo_skipNonce B \<and> bo_stateRoot B = bu_stateRoot U"

lemma final_header_data:
  assumes "final_block H U bb txRoot receiptRoot stateRoot = Inr b" "\<forall>t \<in> set (bb_transactions bb). tx_ok (bu_env U) t" "0 \<le> tv_chainId (bu_env U)"
  shows "new_header ((bb_headerData bb)\<lparr>hd_stateRoot := Val (RBytes stateRoot), hd_transactionsTrie := Val (RBytes txRoot),
          hd_withdrawalsRoot := Undef, hd_receiptTrie := Val (RBytes receiptRoot), hd_logsBloom := Val (RBytes (builder_logsBloom bb)),
          hd_gasUsed := Big (bb_gasUsed bb),
          hd_timestamp := (if hd_timestamp (bb_headerData bb) = Undef then Big 0 else hd_timestamp (bb_headerData bb)),
          hd_requestsHash := Undef\<rparr>) = Inr (blk_header b)" "blk_txs b = bb_transactions bb"
  using assms(1) unfolding final_block_def createBlock_objects [OF assms(2,3)] by (auto simp: map_sum_Inr)

lemma final_header:
  assumes "final_block H U bb txRoot receiptRoot stateRoot = Inr b" "\<forall>t \<in> set (bb_transactions bb). tx_ok (bu_env U) t" "0 \<le> tv_chainId (bu_env U)"
    "hd_gasLimit (bb_headerData bb) \<noteq> Undef"
  shows "bh_stateRoot (blk_header b) = stateRoot" "bh_transactionsTrie (blk_header b) = txRoot"
    "bh_receiptTrie (blk_header b) = receiptRoot" "bh_logsBloom (blk_header b) = builder_logsBloom bb" "bh_gasUsed (blk_header b) = bb_gasUsed bb"
    "runs_built U b ts e B \<Longrightarrow> matches U B (bb_headerData bb) e"
proof -
  let ?d = "bb_headerData bb"
  note h = final_header_data [OF assms(1-3)]
  note f = new_header_fields [OF h(1)]
  show "bh_stateRoot (blk_header b) = stateRoot" "bh_transactionsTrie (blk_header b) = txRoot"
    "bh_receiptTrie (blk_header b) = receiptRoot" "bh_logsBloom (blk_header b) = builder_logsBloom bb" "bh_gasUsed (blk_header b) = bb_gasUsed bb"
    using f(6-10) by (simp_all add: read_nonneg)
  have "to_int (hd_gasLimit ?d) = Inr (bh_gasLimit (blk_header b))" using f(4) assms(4) by (simp add: or_int_def)
  moreover have "block_context h' = block_context (blk_header b)" if "new_header (?d\<lparr>hd_gasUsed := Big g\<rparr>) = Inr h'" for g h'
    by (rule same_context [OF that h(1), symmetric]) simp_all
  ultimately show "runs_built U b ts e B \<Longrightarrow> matches U B ?d e" by (simp add: matches_def runs_built_def)
qed

lemma builder_built:
  assumes "new_builder (bu_env U) parent d now = Inr b0" "ts \<noteq> []"
    "add_all H U e ts \<lparr>bs_world = w, bs_builder = b0\<rparr> = (Inr xs, s1)" "build H U s1 = (Inr b, s2)"
  obtains w1 txRoot receiptRoot root where "journal_checkpoint w = (Inr (), w1)"
    "add_all H U e ts \<lparr>bs_world = w1, bs_builder = b0\<lparr>bb_checkpointed := True\<rparr>\<rparr> = (Inr xs, s1)"
    "bb_headerData (bs_builder s1) = bb_headerData b0" "bb_transactions (bs_builder s1) = map fst ts"
    "builder_transactionsTrie (bu_env U) (bs_builder s1) = Inr txRoot"
    "builder_receiptTrie (h_keccak H) (bs_builder s1) = Inr receiptRoot" "bu_stateRoot U (bs_world s1) = Inr root"
    "final_block H U (bs_builder s1) txRoot receiptRoot root = Inr b" "journal_commit (bs_world s1) = (Inr (), bs_world s2)"
proof -
  note b0 = new_builder_fresh [OF assms(1)]
  obtain w1 where w1: "journal_checkpoint w = (Inr (), w1)" by (simp add: world_defs)
  let ?s = "\<lparr>bs_world = w1, bs_builder = b0\<lparr>bb_checkpointed := True\<rparr>\<rparr>"
  have add: "add_all H U e ts ?s = (Inr xs, s1)" using add_all_first [of "\<lparr>bs_world = w, bs_builder = b0\<rparr>" w1 ts H U e] b0 w1 assms(2,3) by simp
  have k: "bb_status (bs_builder s1) = Pending" "bb_checkpointed (bs_builder s1)" "bb_headerData (bs_builder s1) = bb_headerData b0"
    "bb_transactions (bs_builder s1) = map fst ts"
    using add_all_keeps [OF add] b0 by simp_all
  show thesis
    using assms(4) k that [OF w1 add k(3,4)] unfolding build_pending [OF k(1)] Let_def by (auto split: sum.splits prod.splits)
qed

lemma builder_runBlock:
  assumes "new_builder (bu_env U) parent d now = Inr b0" "0 \<le> tv_chainId (bu_env U)"
    "\<forall>p \<in> set ts. \<exists>k i. new_tx (bu_env U) k i = Inr (fst p)" "ts \<noteq> []"
    "add_all H U e ts \<lparr>bs_world = w, bs_builder = b0\<rparr> = (Inr xs, s1)" "build H U s1 = (Inr b, s2)"
    "curve_ok (bu_env U)" and B: "runs_built U b ts e B"
  shows "\<exists>x. (if header_rules B then runBlock H B w = (Inr x, bs_world s2) else \<exists>err u. runBlock H B w = (Inl err, u)) \<and>
    bx_results x = xs \<and> bx_block x = b \<and> blk_txs b = map fst ts \<and> transactionsTrieIsValid (bu_env U) b = Inr True"
proof -
  let ?E = "bu_env U"
  note b0 = new_builder_fresh [OF assms(1)]
  obtain w1 txRoot receiptRoot root where w1: "journal_checkpoint w = (Inr (), w1)"
    and add: "add_all H U e ts \<lparr>bs_world = w1, bs_builder = b0\<lparr>bb_checkpointed := True\<rparr>\<rparr> = (Inr xs, s1)"
    and k: "bb_headerData (bs_builder s1) = bb_headerData b0" "bb_transactions (bs_builder s1) = map fst ts"
    and r: "builder_transactionsTrie ?E (bs_builder s1) = Inr txRoot"
    "builder_receiptTrie (h_keccak H) (bs_builder s1) = Inr receiptRoot" "bu_stateRoot U (bs_world s1) = Inr root"
    "final_block H U (bs_builder s1) txRoot receiptRoot root = Inr b" "journal_commit (bs_world s1) = (Inr (), bs_world s2)"
    by (rule builder_built [OF assms(1,4-6)])
  have ok: "\<forall>t \<in> fst ` set ts. tx_ok ?E t" using assms(3) new_tx_ok by auto
  then have txs: "\<forall>t \<in> set (bb_transactions (bs_builder s1)). tx_ok ?E t" by (simp add: k)
  note f = final_header [OF r(4) txs assms(2), unfolded k, OF b0(6)]
  have B': "bo_block B = b" "bo_env B = ?E" "bo_rootTransactionIds B = map snd ts" "\<not> bo_generate B" "bo_stateRoot B = bu_stateRoot U"
    using B by (simp_all add: runs_built_def)
  have runs: "runs H B 0 0 (map fst ts) xs w1 (bs_world s1)" and len: "length xs = length ts"
    and b1: "bb_results (bs_builder s1) = xs" "bb_gasUsed (bs_builder s1) = gas_sum xs"
    using add_all_runs [OF add, of B 0] f(6) [OF B] ok assms(2) b0 by (auto simp: B')
  have ne: "xs \<noteq> []" "map fst ts \<noteq> []" using len assms(4) by auto
  obtain tr where tr: "put_values (list_trie (h_keccak H)) 0 (receipts xs (map fst ts)) (new_trie (list_trie (h_keccak H)) None) = (Inr (), tr)"
    "t_root tr = receiptRoot"
    using r(2) ne(1) by (auto simp: builder_receiptTrie_def b1 k(2) list_root_def receipts_def split: prod.splits sum.splits)
  let ?acc = "\<lparr>ba_bloom = zeros BYTE_SIZE, ba_gasUsed = 0, ba_receiptGasUsed = 0, ba_trie = new_trie (list_trie (h_keccak H)) None, ba_results = []\<rparr>"
  have txs_b: "blk_txs b = map fst ts" using final_header_data(2) [OF r(4) txs assms(2)] k(2) by simp
  obtain acc where acc: "applyTransactions H B w1 = (Inr acc, bs_world s1)" "ba_trie acc = tr" "ba_gasUsed acc = gas_sum xs"
    "ba_results acc = xs" "ba_bloom acc = builder_logsBloom (bs_builder s1)"
    using runs_apply [OF runs, of ?acc tr] tr(1) by (auto simp: applyTransactions_def B' txs_b builder_logsBloom_def b1)
  have rr: "receiptsRoot B acc = receiptRoot" using ne(2) by (simp add: receiptsRoot_def B' txs_b acc(2) tr(2))
  have chk: "check_header B acc root = Inr ()"
    using f(1-5) by (simp add: check_header_def Let_def rr reject_def equalsBytes_eq acc b1 B')
  have v: "transactionsTrieIsValid ?E b = Inr True"
    using r(1) ne(2) f(2) by (simp add: transactionsTrieIsValid_def builder_transactionsTrie_def k(2) txs_b equalsBytes_eq)
  let ?x = "\<lparr>bx_results = ba_results acc, bx_logsBloom = ba_bloom acc, bx_gasUsed = ba_gasUsed acc,
         bx_receiptsRoot = receiptsRoot B acc, bx_stateRoot = root, bx_block = bo_block B\<rparr>"
  have "if header_rules B then runBlock H B w = (Inr ?x, bs_world s2) else \<exists>err u. runBlock H B w = (Inl err, u)"
    by (rule runBlock_by_rules [OF w1 acc(1) _ chk r(5) B'(4) _ _ refl]) (use r(3) assms(7) v in \<open>simp_all add: B'\<close>)
  then show ?thesis using v by (intro exI [of _ ?x]) (simp add: acc(4) B'(1) txs_b)
qed

section \<open>The life of a builder\<close>

text \<open>The states that a builder can be brought into by any sequence of calls, failing ones included.\<close>

inductive builder_reaches :: "host \<Rightarrow> builder_opts \<Rightarrow> build_state \<Rightarrow> build_state \<Rightarrow> bool" for H U s0 where
  start: "builder_reaches H U s0 s0"
| added: "builder_reaches H U s0 s \<Longrightarrow> \<exists>k i. new_tx (bu_env U) k i = Inr t \<Longrightarrow> bytes_ok (tx_data t) \<Longrightarrow>
    builder_reaches H U s0 (snd (addTransaction H U t txid e s))"
| reverted: "builder_reaches H U s0 s \<Longrightarrow> builder_reaches H U s0 (snd (builder_revert s))"
| built: "builder_reaches H U s0 s \<Longrightarrow> builder_reaches H U s0 (snd (build H U s))"

definition builder_ok :: "sm_view list \<Rightarrow> world \<Rightarrow> header_data \<Rightarrow> build_state \<Rightarrow> bool" where
  "builder_ok Ss w0 d s \<longleftrightarrow> (let b = bs_builder s; w = bs_world s in
     block_ready (if bb_checkpointed b then sm_view (w_sm w0) # Ss else Ss) w \<and> (\<forall>k. supply_of w k \<le> supply_of w0 k) \<and>
     (bb_checkpointed b \<longrightarrow> bb_status b = Pending) \<and> (bb_status b = Pending \<and> \<not> bb_checkpointed b \<longrightarrow> w = w0) \<and>
     bb_headerData b = d \<and> length (bb_results b) = length (bb_transactions b) \<and> bb_gasUsed b = gas_sum (bb_results b) \<and>
     (\<forall>L. to_int (hd_gasLimit d) = Inr L \<longrightarrow> gas_sum (bb_results b) \<le> L))"

lemma builder_revert_eq: "builder_revert s = (let b = bs_builder s in
    if bb_checkpointed b then (case journal_revert (bs_world s) of
        (Inl err, w) \<Rightarrow> (Inl err, s\<lparr>bs_world := w\<rparr>)
      | (Inr _, w) \<Rightarrow> (Inr (), \<lparr>bs_world = w, bs_builder = b\<lparr>bb_checkpointed := False, bb_status := Reverted\<rparr>\<rparr>))
    else (Inr (), s\<lparr>bs_builder := b\<lparr>bb_status := Reverted\<rparr>\<rparr>))"
proof -
  obtain r w where r: "journal_revert (bs_world s) = (r, w)" by fastforce
  show ?thesis
    by (cases r) (simp_all add: builder_revert_def Let_def r sq_def bnd_def gets_def mod_builder_def modify_def whenb_def on_vm_def zoom_def ret_def)
qed

lemma builder_ok_revert:
  assumes "builder_ok Ss w0 d s" "block_ready Ss w0"
  shows "builder_ok Ss w0 d (snd (builder_revert s))"
    "bb_status (bs_builder s) = Pending \<Longrightarrow> fst (builder_revert s) = Inr () \<and> lasting (public (bs_world (snd (builder_revert s)))) = lasting (public w0)"
    "bb_status (bs_builder s) \<noteq> Pending \<Longrightarrow> bs_world (snd (builder_revert s)) = bs_world s" "bb_status (bs_builder (snd (builder_revert s))) = Reverted"
proof -
  have "builder_ok Ss w0 d (snd (builder_revert s)) \<and>
    (bb_status (bs_builder s) = Pending \<longrightarrow> fst (builder_revert s) = Inr () \<and> lasting (public (bs_world (snd (builder_revert s)))) = lasting (public w0)) \<and>
    (bb_status (bs_builder s) \<noteq> Pending \<longrightarrow> bs_world (snd (builder_revert s)) = bs_world s) \<and> bb_status (bs_builder (snd (builder_revert s))) = Reverted"
  proof (cases "bb_checkpointed (bs_builder s)")
    case True
    then have "block_ready (sm_view (w_sm w0) # Ss) (bs_world s)" using assms(1) by (simp add: builder_ok_def Let_def)
    from block_reverted [OF assms(2) this] obtain w3 where w3: "journal_revert (bs_world s) = (Inr (), w3)" "block_ready Ss w3"
      "supply_of w3 = supply_of w0" "lasting (public w3) = lasting (public w0)" .
    then show ?thesis using True assms(1) by (simp add: builder_revert_eq Let_def builder_ok_def)
  next
    case False
    then show ?thesis using assms(1) by (auto simp: builder_revert_eq Let_def builder_ok_def)
  qed
  then show "builder_ok Ss w0 d (snd (builder_revert s))"
    "bb_status (bs_builder s) = Pending \<Longrightarrow> fst (builder_revert s) = Inr () \<and> lasting (public (bs_world (snd (builder_revert s)))) = lasting (public w0)"
    "bb_status (bs_builder s) \<noteq> Pending \<Longrightarrow> bs_world (snd (builder_revert s)) = bs_world s" "bb_status (bs_builder (snd (builder_revert s))) = Reverted"
    by blast+
qed

lemma builder_ok_build:
  assumes "builder_ok Ss w0 d s"
  shows "builder_ok Ss w0 d (snd (build H U s))"
proof (cases "bb_status (bs_builder s) = Pending")
  case False
  then show ?thesis using closed_builder(2) [of s H U] assms by force
next
  case True
  show ?thesis
  proof (cases "bb_checkpointed (bs_builder s)")
    case c: True
    then have "block_ready (sm_view (w_sm w0) # Ss) (bs_world s)" using assms by (simp add: builder_ok_def Let_def)
    then obtain w3 where w3: "journal_commit (bs_world s) = (Inr (), w3)" "block_ready Ss w3" "public w3 = public (bs_world s)"
      by (rule block_commit)
    have "supply_of w3 = supply_of (bs_world s)" by (rule ext) (simp only: supply_of_def w3(3))
    then show ?thesis using assms c w3
      by (auto simp: build_pending [OF True] Let_def builder_ok_def split: sum.split)
  next
    case False
    then show ?thesis using assms by (auto simp: build_pending [OF True] Let_def builder_ok_def split: sum.split)
  qed
qed

lemma builder_ok_add_live:
  assumes ok: "builder_ok Ss w0 d s" and s: "bb_status (bs_builder s) = Pending" "bb_checkpointed (bs_builder s)"
    and H: "host_ok H" and hdr: "\<forall>g h. new_header (d\<lparr>hd_gasUsed := Big g\<rparr>) = Inr h \<longrightarrow> block_ok (block_context h)"
    and t: "\<exists>k i. new_tx (bu_env U) k i = Inr t" "bytes_ok (tx_data t)"
  shows "builder_ok Ss w0 d (snd (addTransaction H U t txid e s))"
proof -
  let ?b = "bs_builder s" and ?w = "bs_world s"
  have b: "block_ready (sm_view (w_sm w0) # Ss) ?w" "\<forall>k. supply_of ?w k \<le> supply_of w0 k" "bb_headerData ?b = d"
    "length (bb_results ?b) = length (bb_transactions ?b)" "bb_gasUsed ?b = gas_sum (bb_results ?b)"
    using ok s(2) by (simp_all add: builder_ok_def Let_def)
  show ?thesis
  proof (cases "\<exists>L block. to_int (hd_gasLimit d) = Inr L \<and> \<not> tx_gasLimit t > L - bb_gasUsed ?b \<and> pending_block (bu_env U) ?b = Inr block")
    case False
    then have "snd (addTransaction H U t txid e s) = s"
      unfolding addTransaction_live [OF s] Let_def b(3) by (auto split: sum.split)
    with ok show ?thesis by simp
  next
    case True
    then obtain L block where L: "to_int (hd_gasLimit d) = Inr L" "\<not> tx_gasLimit t > L - bb_gasUsed ?b" "pending_block (bu_env U) ?b = Inr block" by blast
    let ?R = "builder_tx_opts U (blk_header block) t txid e"
    have "new_header (d\<lparr>hd_gasUsed := Big (bb_gasUsed ?b)\<rparr>) = Inr (blk_header block)"
      using L(3) by (auto simp: pending_block_def createBlock_def new_block_def reject_def sum_steps b(3))
    then have "block_ok (block_context (blk_header block))" using hdr by blast
    then have R: "tx_input_ok ?R" "tx_ok (ro_env ?R) (ro_tx ?R)" "reportable ?R"
      using t new_tx_ok by (auto simp: tx_input_ok_def builder_tx_opts_def reportable_def)
    obtain r w' where r: "runTx H ?R ?w = (r, w')" by fastforce
    note e = runTx_block_ended [OF H R b(1), unfolded r prod.case]
    have sup: "\<forall>k. supply_of w' k \<le> supply_of w0 k" using e b(2) order_trans by blast
    have run: "snd (addTransaction H U t txid e s) = (case r of Inl _ \<Rightarrow> s\<lparr>bs_world := w'\<rparr> | Inr x \<Rightarrow> \<lparr>bs_world = w', bs_builder = push_result t x ?b\<rparr>)"
      using L r unfolding addTransaction_live [OF s] Let_def b(3) by (simp split: sum.split)
    show ?thesis
    proof (cases r)
      case (Inl err)
      then show ?thesis using ok s e sup by (simp add: run builder_ok_def Let_def)
    next
      case (Inr x)
      have "rt_totalGasSpent x \<le> tx_gasLimit t" using e Inr by (auto simp: tx_outcome_def builder_tx_opts_def)
      with Inr show ?thesis using s e sup b L(1,2)
        by (simp add: run builder_ok_def Let_def push_result_def gas_sum_def)
    qed
  qed
qed

lemma builder_ok_add:
  assumes ok: "builder_ok Ss w0 d s" and w0: "block_ready Ss w0"
    and H: "host_ok H" and hdr: "\<forall>g h. new_header (d\<lparr>hd_gasUsed := Big g\<rparr>) = Inr h \<longrightarrow> block_ok (block_context h)"
    and t: "\<exists>k i. new_tx (bu_env U) k i = Inr t" "bytes_ok (tx_data t)"
  shows "builder_ok Ss w0 d (snd (addTransaction H U t txid e s))"
proof (cases "bb_status (bs_builder s) = Pending")
  case False
  then show ?thesis using closed_builder(1) [of s H U t txid e] ok by force
next
  case True
  show ?thesis
  proof (cases "bb_checkpointed (bs_builder s)")
    case c: True
    show ?thesis by (rule builder_ok_add_live [OF ok True c H hdr t])
  next
    case False
    then have w: "bs_world s = w0" using ok True by (simp add: builder_ok_def Let_def)
    obtain w1 where w1: "journal_checkpoint w0 = (Inr (), w1)" "block_ready (sm_view (w_sm w0) # Ss) w1" "public w1 = public w0"
      by (rule block_checkpoint [OF w0])
    let ?s = "\<lparr>bs_world = w1, bs_builder = (bs_builder s)\<lparr>bb_checkpointed := True\<rparr>\<rparr>"
    have "supply_of w1 = supply_of w0" by (rule ext) (simp only: supply_of_def w1(3))
    then have "builder_ok Ss w0 d ?s" using ok w1(2) True False by (simp add: builder_ok_def Let_def)
    then have "builder_ok Ss w0 d (snd (addTransaction H U t txid e ?s))" by (rule builder_ok_add_live [OF _ _ _ H hdr t]) (simp_all add: True)
    then show ?thesis using addTransaction_first [OF True False, of w1] w1(1) w by simp
  qed
qed

section \<open>Properties\<close>

text \<open>
  C15. What is built is accepted: when one transaction or more were added to a new builder one after the other, and the block was built, then
  running this block from the state the builder started from succeeds with the results of the builder, compares equal with the
  header, and leaves exactly the state that the builder left; the block has these transactions and their root. This holds under any options of
  validation (by default the block and its header are validated), exactly if the rules that do not concern transactions and results hold:
  the gas limit is below $2^{63}$, there are no uncles and the blockchain accepts the header. That the transactions are valid
  and signed follows from their execution, if the curve recovers points only.
\<close>
theorem built_block_accepted:
  assumes "new_builder (bu_env U) parent d now = Inr b0" "0 \<le> tv_chainId (bu_env U)"
    "\<forall>p \<in> set ts. \<exists>k i. new_tx (bu_env U) k i = Inr (fst p)" "ts \<noteq> []"
    "add_all H U e ts \<lparr>bs_world = w, bs_builder = b0\<rparr> = (Inr xs, s1)" "build H U s1 = (Inr b, s2)"
    "curve_ok (bu_env U)" "runs_built U b ts e B"
  shows "\<exists>x. (if header_rules B then runBlock H B w = (Inr x, bs_world s2) else \<exists>err u. runBlock H B w = (Inl err, u)) \<and>
    bx_results x = xs \<and> bx_block x = b \<and> blk_txs b = map fst ts \<and> transactionsTrieIsValid (bu_env U) b = Inr True"
  using builder_runBlock [OF assms] .

lemma default_header_valid:
  assumes "new_header dp = Inr p" "5000 \<le> bh_gasLimit p" "bh_timestamp p < bh_timestamp h" "getHeader (bh_parentHash h) = Inr p"
    "bh_number h = bh_number p + 1" "bh_gasLimit h = bh_gasLimit p" "calcNextBaseFee p = Inr (bh_baseFee h)"
  shows "validateHeader getHeader None h = Inr ()"
proof -
  have "header_ok p" using assms(1) by (rule new_header_ok)
  then have "0 \<le> bh_number p" by (simp add: header_ok_def)
  then show ?thesis using assms(2-7)
    by (simp add: validateHeader_def isGenesis_def validateGasLimit_def Let_def reject_def js_div_nonneg)
qed

text \<open>
  C35. The defaults of a builder are right: a block that is built on a parent, with the hash of the parent, its number, gas limit, time and base fee left
  to the builder, from one transaction or more, is accepted by the default \<^verbatim>\<open>runBlock\<close>, which validates the block, its
  transactions and its header, on a blockchain that has the parent, if the gas limit of the parent is between 5000 and $2^{63}$ and
  the clock is later than the parent.
\<close>
theorem default_block_accepted:
  assumes new: "new_builder (bu_env U) parent d now = Inr b0" "0 \<le> tv_chainId (bu_env U)"
    "\<forall>p \<in> set ts. \<exists>k i. new_tx (bu_env U) k i = Inr (fst p)" "ts \<noteq> []"
    and run: "add_all H U e ts \<lparr>bs_world = w, bs_builder = b0\<rparr> = (Inr xs, s1)" "build H U s1 = (Inr b, s2)" "curve_ok (bu_env U)"
    and d: "hd_parentHash d = Undef" "hd_uncleHash d = Undef" "hd_number d = Undef" "hd_gasLimit d = Undef" "hd_timestamp d = Undef"
      "hd_baseFee d = Undef"
    and parent: "new_header dp = Inr (blk_header parent)" "5000 \<le> bh_gasLimit (blk_header parent)" "bh_gasLimit (blk_header parent) < 2 ^ 63"
      "bh_timestamp (blk_header parent) < now"
    and chain: "block_hash (tv_keccak (bu_env U)) parent = Inr ph" "getHeader ph = Inr (blk_header parent)"
    and B: "runs_built U b ts e B" "bo_validateHeader B = Some (validateHeader getHeader None)"
  shows "\<exists>x. runBlock H B w = (Inr x, bs_world s2) \<and> bx_results x = xs"
proof -
  let ?p = "blk_header parent" and ?h = "blk_header b" and ?d = "bb_headerData b0"
  have p: "0 \<le> bh_number ?p" "0 \<le> bh_timestamp ?p" using new_header_ok [OF parent(1)] by (simp_all add: header_ok_def)
  obtain fee where fee: "calcNextBaseFee ?p = Inr fee" and dd: "hd_parentHash ?d = Val (RBytes ph)" "hd_uncleHash ?d = Undef"
    "hd_number ?d = Big (bh_number ?p + 1)" "hd_gasLimit ?d = Big (bh_gasLimit ?p)" "hd_timestamp ?d = Big now" "hd_baseFee ?d = Big fee"
    using new(1) d chain(1) by (auto simp: new_builder_def or_val_def sum_steps)
  obtain txRoot receiptRoot root where r: "bb_headerData (bs_builder s1) = ?d" "bb_transactions (bs_builder s1) = map fst ts"
    "final_block H U (bs_builder s1) txRoot receiptRoot root = Inr b"
    by (rule builder_built [OF new(1,4) run(1,2)])
  have "\<forall>t \<in> set (bb_transactions (bs_builder s1)). tx_ok (bu_env U) t" using new(3) new_tx_ok r(2) by auto
  note f = new_header_fields [OF final_header_data(1) [OF r(3) this new(2)], unfolded r(1)]
  have h: "bh_parentHash ?h = ph" "bh_uncleHash ?h = KECCAK256_RLP_ARRAY" "bh_number ?h = bh_number ?p + 1" "bh_gasLimit ?h = bh_gasLimit ?p"
    "bh_timestamp ?h = now" "bh_baseFee ?h = fee"
    using f(1,3,4,5,11,12) by (simp_all add: dd read_nonneg or_bytes_def)
  have "validateHeader getHeader None ?h = Inr ()"
    by (rule default_header_valid [OF parent(1,2)]) (use h parent(4) chain(2) fee in simp_all)
  then have "header_rules B" using B h parent(3) by (simp add: header_rules_def runs_built_def uncleHashIsValid_def equalsBytes_eq)
  with builder_runBlock [OF new run(1-3) B(1)] show ?thesis by auto
qed

text \<open>
  C13. The life of a builder: after any calls in any order, failing ones included, the only checkpoint it has opened is the one it
  remembers, no supply has grown, and its gas is that of its transactions and within the limit of the block. As long as it is pending, a
  revert succeeds and undoes all of its transactions; once it is built or reverted, it holds no checkpoint, every
  transaction and every build is refused, and no call changes the state.
\<close>
theorem builder_lifecycle:
  assumes "host_ok H" "new_builder (bu_env U) parent d now = Inr b0" "block_ready Ss w"
    "\<forall>g h. new_header ((bb_headerData b0)\<lparr>hd_gasUsed := Big g\<rparr>) = Inr h \<longrightarrow> block_ok (block_context h)"
    "builder_reaches H U \<lparr>bs_world = w, bs_builder = b0\<rparr> s"
  shows "block_ready (if bb_checkpointed (bs_builder s) then sm_view (w_sm w) # Ss else Ss) (bs_world s) \<and>
    (\<forall>k. supply_of (bs_world s) k \<le> supply_of w k) \<and> bb_gasUsed (bs_builder s) = gas_sum (bb_results (bs_builder s)) \<and>
    (\<forall>L. to_int (hd_gasLimit (bb_headerData b0)) = Inr L \<longrightarrow> bb_gasUsed (bs_builder s) \<le> L) \<and>
    (case builder_revert s of (r, s') \<Rightarrow> bb_status (bs_builder s') = Reverted \<and>
      (if bb_status (bs_builder s) = Pending then r = Inr () \<and> lasting (public (bs_world s')) = lasting (public w) \<and> block_ready Ss (bs_world s')
       else \<not> bb_checkpointed (bs_builder s) \<and> bs_world s' = bs_world s \<and>
         (\<forall>t txid e. \<exists>err. addTransaction H U t txid e s = (Inl err, s)) \<and> (\<exists>err. build H U s = (Inl err, s))))"
proof -
  note b0 = new_builder_fresh [OF assms(2)]
  have ok: "builder_ok Ss w (bb_headerData b0) s"
    using assms(5)
  proof (induction rule: builder_reaches.induct)
    case start
    show ?case using b0 assms(3) to_int_nonneg by (auto simp: builder_ok_def Let_def gas_sum_def)
  next
    case (added s t txid e)
    show ?case by (rule builder_ok_add [OF added.IH assms(3,1,4) added.hyps(2,3)])
  next
    case (reverted s)
    show ?case by (rule builder_ok_revert(1) [OF reverted.IH assms(3)])
  next
    case (built s)
    show ?case by (rule builder_ok_build [OF built.IH])
  qed
  note rev = builder_ok_revert [OF ok assms(3)]
  obtain r s' where r: "builder_revert s = (r, s')" by fastforce
  have "\<not> bb_checkpointed (bs_builder s')" using rev(1,4) by (auto simp: r builder_ok_def Let_def)
  then have ready: "block_ready Ss (bs_world s')" using rev(1) by (simp add: r builder_ok_def Let_def)
  show ?thesis
    using ok rev(2-4) ready closed_builder [of s H U] unfolding r by (auto simp: builder_ok_def Let_def)
qed

section \<open>An instance\<close>

text \<open>A builder on the world of the sample transfer.\<close>

definition pay_opts :: builder_opts where
  "pay_opts = \<lparr>bu_env = block_env, bu_putBlock = None, bu_stateRoot = (\<lambda>_. Inr (zeros 32))\<rparr>"

definition pay_data :: "bytes \<Rightarrow> header_data" where
  "pay_data parentHash = sample_block_data\<lparr>hd_parentHash := Val (RBytes parentHash)\<rparr>"

definition pay_builder :: "bytes \<Rightarrow> builder" where
  "pay_builder parentHash = \<lparr>bb_gasUsed = 0, bb_minerValue = 0, bb_headerData = pay_data parentHash, bb_transactions = [], bb_results = [],
     bb_checkpointed = False, bb_status = Pending\<rparr>"

abbreviation pay_start :: "bytes \<Rightarrow> build_state" where
  "pay_start parentHash \<equiv> \<lparr>bs_world = pay_world, bs_builder = pay_builder parentHash\<rparr>"

lemma pay_builder_new: "new_builder (bu_env pay_opts) sample_block (pay_data (zeros 32)) 0 = Inr (pay_builder (zeros 32))"
  by (simp add: new_builder_def or_val_def pay_data_def sample_block_data_def sample_header_data_def pay_builder_def)

lemma pay_pending_header:
  assumes "0 \<le> g" "g \<le> 100000" "length ph = 32"
  shows "new_header ((pay_data ph)\<lparr>hd_gasUsed := Big g\<rparr>) = Inr ((blk_header sample_block)\<lparr>bh_parentHash := ph, bh_gasUsed := g\<rparr>)"
proof -
  have a: "new_address (zeros 20) = Inr 0" by code_simp
  have g: "genericFormatValidation ((blk_header sample_block)\<lparr>bh_parentHash := ph, bh_gasUsed := g\<rparr>) = Inr ()"
    using sample_block_root(2) assms by (simp add: genericFormatValidation_def sample_block_def sample_header_def reject_def KECCAK256_RLP_def)
  have b: "or_bytes Undef x = Inr x" "or_int Undef y = Inr y" for x y
    by (simp_all add: or_bytes_def or_int_def)
  show ?thesis using g assms by (simp add: new_header_def pay_data_def sample_block_data_def sample_block_def sample_header_data_def sample_header_def a b)
qed

lemma pay_final_block:
  assumes "bb_headerData b = pay_data ph" "length ph = 32" "bb_transactions b = [paying_tx]" "0 \<le> bb_gasUsed b" "bb_gasUsed b \<le> 100000" "length receiptRoot = 32"
  shows "\<exists>block. final_block H pay_opts b sample_root receiptRoot (zeros 32) = Inr block"
proof -
  have a: "new_address (zeros 20) = Inr 0" by code_simp
  have b: "or_bytes Undef x = Inr x" "or_int Undef y = Inr y" for x y
    by (simp_all add: or_bytes_def or_int_def)
  have c: "createBlock (bu_env pay_opts) d (map (tx_object (bu_env pay_opts)) [paying_tx]) [] False =
      map_sum id (\<lambda>h. \<lparr>blk_header = h, blk_txs = [paying_tx]\<rparr>) (new_header d)" for d
    by (rule createBlock_objects) (simp_all add: paying_ok pay_opts_def, simp add: block_env_def sample_env_def)
  show ?thesis
    using assms(2,4-6) sample_block_root(2)
    by (simp add: final_block_def assms(1,3) c del: list.map)
      (simp add: new_header_def pay_data_def sample_block_data_def sample_header_data_def a b genericFormatValidation_def reject_def)
qed

lemma pay_built:
  assumes "length ph = 32"
  obtains x s1 b s2 where "addTransaction pay_host pay_opts paying_tx None True (pay_start ph) = (Inr x, s1)" "build pay_host pay_opts s1 = (Inr b, s2)"
    "rt_totalGasSpent x = getIntrinsicGas paying_tx" "bb_status (bs_builder s1) = Pending" "bb_transactions (bs_builder s1) = [paying_tx]"
    "bb_status (bs_builder s2) \<noteq> Pending"
proof -
  obtain w1 where w1: "journal_checkpoint pay_world = (Inr (), w1)" "block_ready [sm_view (w_sm pay_world)] w1" "public w1 = public pay_world"
    by (rule block_checkpoint [OF ready_clean [OF pay_world_ready]])
  obtain x w2 where x: "runTx pay_host (block_tx_opts pay_block 0 paying_tx 0) w1 = (Inr x, w2)" "x_logs (execResult (rt_result x)) = []"
    "rt_totalGasSpent x = getIntrinsicGas paying_tx" by (rule pay_block_tx [OF w1(2,3)])
  let ?s = "\<lparr>bs_world = w1, bs_builder = (pay_builder ph)\<lparr>bb_checkpointed := True\<rparr>\<rparr>" and ?b1 = "push_result paying_tx x ((pay_builder ph)\<lparr>bb_checkpointed := True\<rparr>)"
  let ?h = "(blk_header sample_block)\<lparr>bh_parentHash := ph, bh_gasUsed := 0\<rparr>"
  have "builder_tx_opts pay_opts ?h paying_tx None True = (block_tx_opts pay_block 0 paying_tx 0)\<lparr>ro_headerGasUsed := 0, ro_blockGasUsed := None\<rparr>"
    by (simp add: builder_tx_opts_def block_tx_opts_def pay_opts_def pay_block_def sample_block_run_def block_context_def)
  moreover have "ro_blockGasUsed (block_tx_opts pay_block 0 paying_tx 0) = Some 0" by (simp add: block_tx_opts_def)
  ultimately have run: "runTx pay_host (builder_tx_opts pay_opts ?h paying_tx None True) w1 = (Inr x, w2)"
    using x(1) by (simp add: runTx_cumulative)
  have pend: "pending_block (bu_env pay_opts) ((pay_builder ph)\<lparr>bb_checkpointed := True\<rparr>) = Inr \<lparr>blk_header = ?h, blk_txs = []\<rparr>"
    using createBlock_objects [of "[]" "bu_env pay_opts"] pay_pending_header [of 0 ph] assms
    by (simp add: pending_block_def pay_builder_def pay_opts_def block_env_def sample_env_def)
  have lim: "to_int (hd_gasLimit (pay_data ph)) = Inr 100000" by (simp add: pay_data_def sample_block_data_def to_int_Big)
  have d: "bb_headerData (pay_builder ph) = pay_data ph" "bb_gasUsed (pay_builder ph) = 0" "bb_status (pay_builder ph) = Pending" "\<not> bb_checkpointed (pay_builder ph)"
    "bb_transactions (pay_builder ph) = []" "bb_results (pay_builder ph) = []"
    by (simp_all add: pay_builder_def)
  have "addTransaction pay_host pay_opts paying_tx None True ?s = (Inr x, \<lparr>bs_world = w2, bs_builder = ?b1\<rparr>)"
    using addTransaction_live [of ?s] by (simp add: d lim pend run paying_facts(3))
  then have add: "addTransaction pay_host pay_opts paying_tx None True (pay_start ph) = (Inr x, \<lparr>bs_world = w2, bs_builder = ?b1\<rparr>)"
    using addTransaction_first [of "pay_start ph" w1] w1(1) by (simp add: d)
  note rc = pay_receipt [OF x]
  have g: "0 \<le> getIntrinsicGas paying_tx" "getIntrinsicGas paying_tx \<le> 30000" by (rule getIntrinsicGas_nonneg, rule paying_gas)
  obtain t where t: "put_receipt (list_trie (tv_keccak block_env)) 0 (rt_receipt x) (tx_type paying_tx) (new_trie (list_trie (tv_keccak block_env)) None) = Inr t"
    "length (t_root t) = 32"
    by (rule receipt_put [of "rt_receipt x" "tx_type paying_tx"]) (use rc g in simp_all)
  have "builder_receiptTrie (h_keccak pay_host) ?b1 = Inr (t_root t)"
    using t(1) by (auto simp: builder_receiptTrie_def push_result_def d list_root_def put_receipt_def pay_host_def simp del: put_values.simps
        split: prod.splits sum.splits)
  moreover have "builder_transactionsTrie (bu_env pay_opts) ?b1 = Inr sample_root"
    by (simp add: builder_transactionsTrie_def push_result_def d pay_opts_def sample_block_root(1))
  moreover obtain block where "final_block pay_host pay_opts ?b1 sample_root (t_root t) (zeros 32) = Inr block"
    using pay_final_block [of ?b1 ph "t_root t" pay_host] assms g t(2) x(3) by (auto simp: push_result_def d)
  moreover obtain w3 where "journal_commit w2 = (Inr (), w3)" by (simp add: world_defs)
  ultimately have "\<exists>b s2. build pay_host pay_opts \<lparr>bs_world = w2, bs_builder = ?b1\<rparr> = (Inr b, s2) \<and> bb_status (bs_builder s2) \<noteq> Pending"
    by (subst build_pending) (simp_all add: push_result_def d pay_opts_def)
  moreover have "bb_status ?b1 = Pending" "bb_transactions ?b1 = [paying_tx]" by (simp_all add: push_result_def d)
  ultimately show thesis using that [OF add _ x(3)] by auto
qed

lemma pay_opts_curve: "curve_ok (bu_env pay_opts)"
  using pay_curve by (simp add: pay_opts_def pay_block_facts)

definition pay_ids :: run_block_opts where
  "pay_ids = pay_block\<lparr>bo_rootTransactionIds := [None]\<rparr>"

lemma pay_runs_built: "runs_built pay_opts b [(paying_tx, None)] True (rerun pay_ids b v h f)"
  by (simp add: runs_built_def rerun_def pay_opts_def pay_ids_def pay_block_def sample_block_run_def)

theorem built_block_accepted_witness:
  "\<exists>b w' x. runBlock pay_host (rerun pay_ids b True False None) pay_world = (Inr x, w') \<and> blk_txs b = [paying_tx] \<and>
    map rt_totalGasSpent (bx_results x) = [getIntrinsicGas paying_tx]"
proof -
  obtain y s1 b s2 where s: "addTransaction pay_host pay_opts paying_tx None True (pay_start (zeros 32)) = (Inr y, s1)"
    "build pay_host pay_opts s1 = (Inr b, s2)" "rt_totalGasSpent y = getIntrinsicGas paying_tx" by (rule pay_built [of "zeros 32"]) simp
  have "add_all pay_host pay_opts True [(paying_tx, None)] (pay_start (zeros 32)) = (Inr [y], s1)" by (simp add: bnd_def s(1) ret_def)
  note built_block_accepted [OF pay_builder_new _ _ _ this s(2) pay_opts_curve
    pay_runs_built [where v = True and h = False and f = None]]
  then have "\<exists>x. runBlock pay_host (rerun pay_ids b True False None) pay_world = (Inr x, bs_world s2) \<and> bx_results x = [y] \<and> blk_txs b = [paying_tx]"
    using paying_new by (auto simp: header_rules_def rerun_def pay_opts_def block_env_def sample_env_def)
  then show ?thesis using s(3) by fastforce
qed

text \<open>The same builder with the defaults, on the parent of the sample block.\<close>

definition pay_parent_block :: blk where
  "pay_parent_block = \<lparr>blk_header = pay_parent, blk_txs = []\<rparr>"

lemma pay_parent_new:
  "\<exists>dp. new_header dp = Inr pay_parent"
proof (rule exI)
  have a: "new_address (zeros 20) = Inr 0" by code_simp
  have g: "genericFormatValidation pay_parent = Inr ()"
    by (simp add: genericFormatValidation_def pay_parent_def sample_header_def reject_def KECCAK256_RLP_def)
  have b: "or_bytes Undef x = Inr x" "or_int Undef y = Inr y" for x y by (simp_all add: or_bytes_def or_int_def)
  show "new_header (sample_header_data\<lparr>hd_number := Big 0, hd_timestamp := Big 50, hd_gasLimit := Big 100000, hd_gasUsed := Big 50000,
      hd_baseFee := Big 7\<rparr>) = Inr pay_parent"
    using g by (simp add: new_header_def pay_parent_def sample_header_data_def sample_header_def a b)
qed

lemma pay_parent_hash: "\<exists>ph. block_hash (tv_keccak block_env) pay_parent_block = Inr ph \<and> length ph = 32"
proof -
  have w: "rlp_weight (num n) \<le> 16" if "n \<in> {0, 100000, 50000, 50, 7}" for n using that by (intro weight_num) auto
  have "rlp_weight (RList (header_values pay_parent)) < 2000"
    using w [of 0] w [of 100000] w [of 50000] w [of 50] w [of 7]
    by (simp add: header_values_def pay_parent_def sample_header_def KECCAK256_RLP_def KECCAK256_RLP_ARRAY_def)
  moreover have "header_ok pay_parent" using pay_parent_new new_header_ok by blast
  ultimately obtain x where "header_serialize pay_parent = Inr x" using header_serialize_ok by metis
  then show ?thesis using block_hash_length by (simp add: block_hash_def header_hash_def pay_parent_block_def)
qed

definition default_data :: header_data where
  "default_data = sample_block_data\<lparr>hd_parentHash := Undef, hd_number := Undef, hd_gasLimit := Undef, hd_timestamp := Undef, hd_baseFee := Undef\<rparr>"

lemma default_builder_new:
  assumes "block_hash (tv_keccak block_env) pay_parent_block = Inr ph"
  shows "new_builder (bu_env pay_opts) pay_parent_block default_data 100 = Inr (pay_builder ph)"
proof -
  have "calcNextBaseFee pay_parent = Inr 7" by (simp add: calcNextBaseFee_def pay_parent_def sample_header_def js_div_nonneg)
  then show ?thesis using assms
    by (simp add: new_builder_def or_val_def default_data_def pay_opts_def pay_data_def sample_block_data_def sample_header_data_def pay_builder_def
        pay_parent_block_def pay_parent_def)
qed

theorem default_block_accepted_witness:
  "\<exists>b x w'. runBlock pay_host (rerun pay_ids b False False (Some (validateHeader (\<lambda>_. Inr pay_parent) None))) pay_world = (Inr x, w') \<and>
    map rt_totalGasSpent (bx_results x) = [getIntrinsicGas paying_tx]"
proof -
  obtain ph where ph: "block_hash (tv_keccak block_env) pay_parent_block = Inr ph" "length ph = 32" using pay_parent_hash by blast
  obtain y s1 b s2 where s: "addTransaction pay_host pay_opts paying_tx None True (pay_start ph) = (Inr y, s1)"
    "build pay_host pay_opts s1 = (Inr b, s2)" "rt_totalGasSpent y = getIntrinsicGas paying_tx" by (rule pay_built [OF ph(2)])
  have add: "add_all pay_host pay_opts True [(paying_tx, None)] (pay_start ph) = (Inr [y], s1)" by (simp add: bnd_def s(1) ret_def)
  obtain dp where dp: "new_header dp = Inr (blk_header pay_parent_block)" using pay_parent_new by (auto simp: pay_parent_block_def)
  let ?B = "rerun pay_ids b False False (Some (validateHeader (\<lambda>_. Inr pay_parent) None))"
  have "\<exists>x. runBlock pay_host ?B pay_world = (Inr x, bs_world s2) \<and> bx_results x = [y]"
    by (rule default_block_accepted [OF default_builder_new [OF ph(1)] _ _ _ add s(2) pay_opts_curve _ _ _ _ _ _ dp _ _ _ _ _ pay_runs_built,
          where ph = ph and getHeader = "\<lambda>_. Inr pay_parent"])
      (use paying_new ph(1) in \<open>simp_all add: default_data_def sample_block_data_def sample_header_data_def pay_opts_def pay_parent_block_def
        pay_parent_def rerun_def, simp_all add: block_env_def sample_env_def\<close>)
  then show ?thesis using s(3) by fastforce
qed

lemma pay_builder_headers:
  assumes "new_header ((bb_headerData (pay_builder (zeros 32)))\<lparr>hd_gasUsed := Big g\<rparr>) = Inr h"
  shows "block_ok (block_context h)"
proof -
  have "block_context h = block_context ((blk_header sample_block)\<lparr>bh_parentHash := zeros 32, bh_gasUsed := 0\<rparr>)"
    by (rule same_context [OF pay_pending_header assms]) (simp_all add: pay_builder_def)
  then show ?thesis
    by (simp add: block_ok_def block_context_def is_word_def sample_block_def sample_header_def TWO_POW256_def)
qed

theorem builder_lifecycle_witness:
  "\<exists>s1 s2. builder_reaches pay_host pay_opts (pay_start (zeros 32)) s1 \<and> bb_transactions (bs_builder s1) = [paying_tx] \<and>
    lasting (public (bs_world (snd (builder_revert s1)))) = lasting (public pay_world) \<and>
    builder_reaches pay_host pay_opts (pay_start (zeros 32)) s2 \<and> (\<exists>err. build pay_host pay_opts s2 = (Inl err, s2)) \<and>
    supply_of (bs_world s2) None \<le> supply_of pay_world None"
proof -
  obtain y s1 b s2 where s: "addTransaction pay_host pay_opts paying_tx None True (pay_start (zeros 32)) = (Inr y, s1)" "build pay_host pay_opts s1 = (Inr b, s2)"
    "bb_status (bs_builder s1) = Pending" "bb_transactions (bs_builder s1) = [paying_tx]" "bb_status (bs_builder s2) \<noteq> Pending"
    by (rule pay_built [of "zeros 32"]) simp
  obtain k i where k: "new_tx (bu_env pay_opts) k i = Inr paying_tx" using paying_new by (auto simp: pay_opts_def)
  have "builder_reaches pay_host pay_opts (pay_start (zeros 32)) (snd (addTransaction pay_host pay_opts paying_tx None True (pay_start (zeros 32))))"
    by (rule builder_reaches.added [OF builder_reaches.start]) (use k paying_facts(9) in \<open>auto simp: bytes_ok_def is_word_def TWO_POW256_def\<close>)
  then have r1: "builder_reaches pay_host pay_opts (pay_start (zeros 32)) s1" by (simp add: s(1))
  have r2: "builder_reaches pay_host pay_opts (pay_start (zeros 32)) s2" using builder_reaches.built [OF r1] s(2) by simp
  note life = builder_lifecycle [OF pay_host_ok pay_builder_new ready_clean [OF pay_world_ready]]
  have hdr: "\<forall>g h. new_header ((bb_headerData (pay_builder (zeros 32)))\<lparr>hd_gasUsed := Big g\<rparr>) = Inr h \<longrightarrow> block_ok (block_context h)"
    using pay_builder_headers by blast
  have "lasting (public (bs_world (snd (builder_revert s1)))) = lasting (public pay_world)"
    using life [OF hdr r1] s(3) by (auto split: prod.splits)
  moreover have "(\<exists>err. build pay_host pay_opts s2 = (Inl err, s2)) \<and> supply_of (bs_world s2) None \<le> supply_of pay_world None"
    using life [OF hdr r2] s(5) by (auto split: prod.splits)
  ultimately show ?thesis using r1 r2 s(4) by blast
qed

end
