(* ===== verification/Spec2Isabelle.thy ===== *)
theory Spec2Isabelle
  imports TopLevel Depth DataProps StateProps GasProps Rlp CheckpointDb TrieEdges AccountLayer TxProps RunTxProps BuildBlockProps
begin

text \<open>
  A model of the TRON block processing of this repository: blocks and their headers
  (\<^verbatim>\<open>packages/block\<close>, \<^verbatim>\<open>validateHeader\<close> of \<^verbatim>\<open>packages/blockchain\<close>), transactions
  (\<^verbatim>\<open>packages/tx\<close>), the execution of both (\<^verbatim>\<open>packages/vm\<close>), the virtual machine (\<^verbatim>\<open>packages/tvm\<close>), the state it works on
  (\<^verbatim>\<open>packages/statemanager\<close>, \<^verbatim>\<open>packages/mpt\<close>) and the encodings underneath (\<^verbatim>\<open>packages/rlp\<close>,
  \<^verbatim>\<open>packages/util\<close>, \<^verbatim>\<open>packages/common\<close>).

  \<^bold>\<open>The program.\<close> A block is made by a builder (\<^verbatim>\<open>buildBlock\<close>) that
  runs its transactions as they are added, or received. \<^verbatim>\<open>runBlock\<close> opens a checkpoint, runs the transactions of a block one
  after the other, collects their receipts and logs, compares the receipt trie, the bloom filter, the gas
  and the state root with the header, and commits; a block that fails is reverted. \<^verbatim>\<open>runTx\<close> checks a signed transaction against the block and the account of its
  sender, charges the sender for the whole gas limit, runs the message of the transaction by
  \<^verbatim>\<open>TVM.runCall\<close>, gives back what was not used, rewards the miner and deletes what destroyed itself; a
  rejected transaction is reverted. \<^verbatim>\<open>TVM.runCall\<close> opens a checkpoint of the state (the
  state manager, the journal of warm addresses and the transient storage), moves value and tokens
  (\<^verbatim>\<open>_executeCall\<close>, \<^verbatim>\<open>_executeCreate\<close>), runs a precompile or the interpreter on the code of the
  callee, and commits or reverts. The interpreter fetches an opcode, charges its base fee and its
  dynamic fee (\<^verbatim>\<open>opcodes/gas.ts\<close>), and calls its handler (\<^verbatim>\<open>opcodes/functions.ts\<close>); the handlers of
  the call and create instructions run \<^verbatim>\<open>TVM.runCall\<close> again, one level deeper. The state managers keep
  accounts in a stack of maps (\<^verbatim>\<open>SimpleStateManager\<close>) or in a Merkle Patricia trie behind a
  write-back cache (\<^verbatim>\<open>MerkleStateManager\<close>); the trie keeps its nodes in a database with
  checkpoints, in their RLP form.

  \<^bold>\<open>The virtual machine\<close> (theory: source).
  \<^item> \<open>Prelude\<close>: results (\<^typ>\<open>'a + 'b\<close> with the error on the left) and operations on a state.
  \<^item> \<open>Bytes\<close>: \<^verbatim>\<open>util/src/bytes.ts\<close>, \<^verbatim>\<open>util/src/constants.ts\<close>; byte arrays are lists of 8-bit words,
    bigints are \<^typ>\<open>int\<close>.
  \<^item> \<open>Stack\<close>, \<open>Memory\<close>: \<^verbatim>\<open>tvm/src/stack.ts\<close> (the array with its separate length counter) and
    \<^verbatim>\<open>tvm/src/memory.ts\<close> (the buffer that grows in steps).
  \<^item> \<open>OpUtil\<close>, \<open>Alu\<close>: \<^verbatim>\<open>opcodes/util.ts\<close> and the arithmetic handlers of \<^verbatim>\<open>opcodes/functions.ts\<close>.
  \<^item> \<open>Checkpoints\<close>: the contract that the components with checkpoints share, as a locale;
    \<open>Transient\<close>, \<open>Journal\<close>, \<open>StateManager\<close>: \<^verbatim>\<open>tvm/src/transientStorage.ts\<close>,
    \<^verbatim>\<open>tvm/src/journal.ts\<close>, \<^verbatim>\<open>statemanager/src/simpleStateManager.ts\<close>, each an interpretation of it;
    \<open>World\<close>: the three together, as \<^verbatim>\<open>tvm.ts\<close> moves them.
  \<^item> \<open>Account\<close>: \<^verbatim>\<open>util/src/account.ts\<close>, with token balances and permissions.
  \<^item> \<open>Params\<close>, \<open>Opcodes\<close>: \<^verbatim>\<open>tvm/src/params.ts\<close>, the execution profile of \<^verbatim>\<open>common\<close>, and
    \<^verbatim>\<open>opcodes/codes.ts\<close>.
  \<^item> \<open>RunState\<close>, \<open>Interp\<close>, \<open>Gas\<close>, \<open>Handlers\<close>, \<open>Interpreter\<close>: the run state of a frame, the methods of
    \<^verbatim>\<open>tvm/src/interpreter.ts\<close>, the dynamic gas handlers, the opcode handlers and the loop.
  \<^item> \<open>Tvm\<close>: \<^verbatim>\<open>tvm/src/tvm.ts\<close>: transfers, calls, creations, \<^verbatim>\<open>runCall\<close>.

  \<^bold>\<open>Transactions and their execution.\<close>
  \<^item> \<open>Tx\<close>: \<^verbatim>\<open>tx/src\<close>: the legacy, access-list and fee-market transactions as one record with a
    datatype for the body; constructors, parsing, serialization, signing, sender recovery, fees. The
    \<^verbatim>\<open>Number\<close> arithmetic on \<^verbatim>\<open>v\<close> and the chain id is that of floating point, with its rounding.
  \<^item> \<open>Bloom\<close>: \<^verbatim>\<open>vm/src/bloom/index.ts\<close>.
  \<^item> \<open>RunTx\<close>: \<^verbatim>\<open>vm/src/runTx.ts\<close> on the world and the messages of the virtual machine.
  \<^item> \<open>Header\<close>: \<^verbatim>\<open>block/src/header/header.ts\<close>, \<^verbatim>\<open>header/constructors.ts\<close>, \<^verbatim>\<open>block/src/helpers.ts\<close>
    and \<^verbatim>\<open>validateHeader\<close> of \<^verbatim>\<open>blockchain/src/blockchain.ts\<close>: a header, its checks, its form as a
    list of byte arrays, the limits of its gas, the base fee of the next block.
  \<^item> \<open>Blocks\<close>: \<^verbatim>\<open>block/src/block/block.ts\<close>, \<^verbatim>\<open>block/constructors.ts\<close> and the tries of \<^verbatim>\<open>helpers.ts\<close>: a
    header with transactions, parsing, serialization, the root of the transactions, validation.
  \<^item> \<open>RunBlock\<close>: \<^verbatim>\<open>vm/src/runBlock.ts\<close>; \<open>BuildBlock\<close>: \<^verbatim>\<open>vm/src/buildBlock.ts\<close>, a builder as a state machine
    over the world.

  \<^bold>\<open>Encodings and persistent state.\<close>
  \<^item> \<open>Hex\<close>, \<open>Rlp\<close>: \<^verbatim>\<open>rlp/src/index.ts\<close>.
  \<^item> \<open>CheckpointDb\<close>: \<^verbatim>\<open>mpt/src/db/checkpointDB.ts\<close>; \<open>Nibbles\<close>, \<open>Trie\<close>: \<^verbatim>\<open>mpt/src/util\<close>,
    \<^verbatim>\<open>mpt/src/node\<close>, \<^verbatim>\<open>mpt/src/mpt.ts\<close>. The walk from the root takes as fuel one more than the number
    of nibbles of the key; each node but the last takes one at least, so it is enough on every trie
    that stands for a tree (\<open>TrieRepr\<close>).
  \<^item> \<open>StateCache\<close>, \<open>AccountLayer\<close>: \<^verbatim>\<open>statemanager/src/cache\<close> and the accounts of
    \<^verbatim>\<open>statemanager/src/merkleStateManager.ts\<close>.

  Code outside the repository is a parameter (the records \<open>host\<close>, \<open>tx_env\<close> and \<open>lru\<close>): the hash
  function, the elliptic curve, the precompiled contracts, the block, the caches of the \<^verbatim>\<open>lru-cache\<close>
  package. What the theorems need of them is a named hypothesis: \<open>host_ok\<close> (a precompile reports gas
  within the limit it is given), \<open>signs_for\<close> (the curve recovers the key from its signatures), \<open>curve_ok\<close>
  (a recovered key is not all zero), \<open>lru_ok\<close>
  (a cache returns what was stored or nothing), a hash without collision among the nodes in use. The state root that \<^verbatim>\<open>runBlock\<close> compares and
  the validation of a header by the blockchain are parameters of \<open>RunBlock\<close>, because they depend on the state manager and
  on the chain the program was started with; \<open>simple_getStateRoot\<close> is the root of the simple state manager, which
  throws. Each hypothesis is
  shown satisfiable by the sample instances of the witnesses.

  \<^bold>\<open>Loops.\<close> The interpreter loop takes fuel; the fuel \<^verbatim>\<open>interp_run\<close> gives it is computed from the gas
  limit and the length of the code, and it is shown to suffice on every code: an instruction either
  moves the program counter forward or is a jump that costs at least eight units. The recursion
  through \<^verbatim>\<open>runCall\<close> is unrolled to a number of levels; 64 levels are enough because of the depth
  limit, and more levels change no result.

  \<^bold>\<open>The theorems.\<close> \<open>Specs\<close> states what an operation keeps of the world and of a frame as a Hoare-style
  contract; \<open>WorldOk\<close>, \<open>FrameOk\<close>, \<open>FrameRules\<close>, \<open>GasOk\<close>, \<open>HandlersOk\<close>, \<open>WritesOk\<close> and \<open>CallsOk\<close> prove
  it of every state operation, gas handler and opcode handler, \<open>StepOk\<close> and \<open>RunOk\<close> of a step and of
  the loop, \<open>MessageOk\<close> and \<open>ExecuteOk\<close> of transfers, calls, creations and, by induction on the
  levels, of whole messages. \<open>TopLevel\<close> draws the conclusions for a top-level message: no currency
  and no token is created, a failure leaves no trace beyond the nonce of the sender, gas used lies
  within the limit, all checkpoints are closed, and a static context changes nothing. \<open>Depth\<close> bounds
  the nesting. \<open>NoRefund\<close> shows that messages report no refund. \<open>JumpAnalysis\<close> shows the jump table exact. \<open>Alu\<close>, \<open>DataProps\<close>, \<open>StateProps\<close> and
  \<open>GasProps\<close> state the components against their references: words for the arithmetic, a list for
  the stack, an infinite array for the memory, the committed writes of a call tree for the state,
  the closed formula for memory gas.

  \<open>TxOk\<close> and \<open>TxProps\<close>: constructed transactions are in range, are read back from their serialization, sign and
  recover, and a signature covers all fields; on odd chain ids beyond the exact numbers a legacy transaction cannot be signed. \<open>RunTxOk\<close> and \<open>RunTxProps\<close> carry the theorems of \<open>TopLevel\<close> to
  whole transactions: conservation with the burnt base fee, atomicity, the gas paid for, readiness for the next transaction.
  \<open>Bloom\<close>: nothing added is missing. \<open>PlainTransfer\<close>: a plain transfer that its sender can pay succeeds, with its effect.

  \<open>HeaderProps\<close>: headers are read back, the base fee follows the demand and a chain of validated headers has bounded
  gas limits and growing timestamps. \<open>BlockProps\<close>: blocks are read back, and the hash of a validated block of at most 128 transactions (the keys of its
  trie then have one length) commits to its transactions. \<open>RunBlockProps\<close>: a block is executed whole or not at all, creates no currency, and leaves the world ready for
  the next block; its receipts, logs and gas are those of its transactions. \<open>GenerateProps\<close>: a block whose header was filled in by
  \<^verbatim>\<open>generate\<close> is accepted with the same results, whichever validations are asked for, exactly if its header passes
  the header rules, which the execution of the transactions does not depend on; it ends with an instance, a block with a transfer that is executed.
  \<open>BuildBlockProps\<close>: a block that was built is accepted by \<^verbatim>\<open>runBlock\<close> with the same results and the same state under
  the same rules, which the default header of a builder meets, and the states that a builder can reach by any calls are in order.

  \<open>Rlp\<close>: encoding and decoding are inverse, and the decoder accepts canonical encodings only. \<open>TrieTree\<close> gives tries as
  inductive trees and shows that they are the operations of a map with one tree per map; \<open>TrieRepr\<close>, \<open>TrieOk\<close>, \<open>TrieDelete\<close>
  and \<open>TrieOps\<close> show that the operations on the database compute these trees; \<open>TrieMap\<close> concludes for runs of
  operations with checkpoints, and for the root as a commitment. \<open>TrieEdges\<close>: the inputs on which deletion fails.
  \<open>AccountLayer\<close>: the same for the accounts, with the cache in front or without.

  \<^bold>\<open>Not modelled.\<close> Branches of EIPs outside the execution profile (EOF, the access witness, the
  block-level access list), step events and profiling, \<^verbatim>\<open>runCode\<close>, the precompiles themselves (curve arithmetic of
  third-party packages); the storage cache and storage tries of the Merkle state manager; JSON forms of transactions
  and blocks; uncles, withdrawals, requests and rewards of blocks (inactive in the profile), setting a state root before a block, reports of preimages; the chain database and its reorganisations, the binary tree, the client and its RPC server.
\<close>

end
